(* ===== verification/Prelude.thy ===== *)
theory Prelude
  imports Main "HOL-Library.Word" "HOL-Library.Sublist"
begin

unbundle bit_operations_syntax

section \<open>Shared vocabulary of the Horizon model\<close>

text \<open>
  What every component of the model uses: the machine types of the Rust code, its
  \<open>Result\<close> as a sum type, the byte readers its decoders are made of, its fixed-width
  integers as bytes, its UTF-8 strings, and the part of \<open>std::path\<close> the code relies on.

  A Rust \<open>String\<close> is modelled by an Isabelle \<open>string\<close>: both are lists of 8-bit units, so a
  \<open>char\<close> of the model is one byte of the UTF-8 text and \<open>length\<close> is Rust's \<open>len()\<close>.  The
  invariant of Rust's type (the bytes are valid UTF-8) is the predicate \<open>utf8_str\<close>.
  A \<open>PathBuf\<close> is a \<open>string\<close> too, but an arbitrary one, since a Unix path need not be UTF-8.
\<close>

subsection \<open>Machine types\<close>

type_synonym byte = "8 word"
type_synonym bytes = "8 word list"
type_synonym u8 = "8 word"
type_synonym u16 = "16 word"
type_synonym u32 = "32 word"
type_synonym u64 = "64 word"

text \<open>The collections the components extend: equations of the codecs, introduction rules of
  the well-formedness predicates, and the facts a step of a state machine preserves.\<close>

named_theorems codec_simps
named_theorems wf_intros
named_theorems step_simps

subsection \<open>Results\<close>

text \<open>\<open>Result<T, E>\<close> is \<open>'e + 'a\<close>: \<open>Inl\<close> is \<open>Err\<close>, \<open>Inr\<close> is \<open>Ok\<close>.  \<open>res_bind\<close> is the
  \<open>?\<close> operator: the first error ends the function.\<close>

definition res_bind :: "'e + 'a \<Rightarrow> ('a \<Rightarrow> 'e + 'b) \<Rightarrow> 'e + 'b" where
  "res_bind r f = (case r of Inl e \<Rightarrow> Inl e | Inr x \<Rightarrow> f x)"

definition res_map_err :: "('e \<Rightarrow> 'f) \<Rightarrow> 'e + 'a \<Rightarrow> 'f + 'a" where
  "res_map_err g r = (case r of Inl e \<Rightarrow> Inl (g e) | Inr x \<Rightarrow> Inr x)"

definition ok_or :: "'e \<Rightarrow> 'a option \<Rightarrow> 'e + 'a" where
  "ok_or e x = (case x of None \<Rightarrow> Inl e | Some v \<Rightarrow> Inr v)"

definition is_ok :: "'e + 'a \<Rightarrow> bool" where
  "is_ok r = (case r of Inl _ \<Rightarrow> False | Inr _ \<Rightarrow> True)"

lemma res_bind_simps [simp]:
  "res_bind (Inl e) f = Inl e" "res_bind (Inr x) f = f x"
  by (simp_all add: res_bind_def)

lemma res_bind_Inr_iff: "res_bind r f = Inr y \<longleftrightarrow> (\<exists>x. r = Inr x \<and> f x = Inr y)"
  by (cases r) simp_all

lemma res_map_err_simps [simp]:
  "res_map_err g (Inl e) = Inl (g e)" "res_map_err g (Inr x) = Inr x"
  by (simp_all add: res_map_err_def)

lemma res_map_err_Inr_iff [simp]: "res_map_err g r = Inr y \<longleftrightarrow> r = Inr y"
  by (cases r) simp_all

lemma ok_or_simps [simp]: "ok_or e None = Inl e" "ok_or e (Some v) = Inr v"
  by (simp_all add: ok_or_def)

lemma ok_or_Inr_iff [simp]: "ok_or e x = Inr v \<longleftrightarrow> x = Some v"
  by (cases x) simp_all

lemma is_ok_simps [simp]: "is_ok (Inl e) = False" "is_ok (Inr x) = True"
  by (simp_all add: is_ok_def)

lemma is_ok_iff: "is_ok r \<longleftrightarrow> (\<exists>x. r = Inr x)"
  by (cases r) simp_all

text \<open>\<open>collect::<Result<Vec<_>, _>>()\<close> and the loops that push one fallible result per item:
  the results in order, or the first error.\<close>

fun res_map_all :: "('a \<Rightarrow> 'e + 'b) \<Rightarrow> 'a list \<Rightarrow> 'e + 'b list" where
  "res_map_all f [] = Inr []"
| "res_map_all f (x # xs) =
     res_bind (f x) (\<lambda>y. res_bind (res_map_all f xs) (\<lambda>ys. Inr (y # ys)))"

lemma res_map_all_Inr:
  "(\<And>x. x \<in> set xs \<Longrightarrow> f x = Inr (g x)) \<Longrightarrow> res_map_all f xs = Inr (map g xs)"
  by (induction xs) auto

lemma res_map_all_length: "res_map_all f xs = Inr ys \<Longrightarrow> length ys = length xs"
  by (induction xs arbitrary: ys) (auto simp: res_bind_Inr_iff)

subsection \<open>Actions on a state\<close>

text \<open>
  A method that mutates its receiver and may fail is an action: from the state to the result
  and the state after it.  An error keeps the effects made before it, as the code's early
  return does.
\<close>

type_synonym ('s, 'e, 'a) action = "'s \<Rightarrow> ('e + 'a) \<times> 's"

definition act_ret :: "'a \<Rightarrow> ('s, 'e, 'a) action" where
  "act_ret x s = (Inr x, s)"

definition act_fail :: "'e \<Rightarrow> ('s, 'e, 'a) action" where
  "act_fail e s = (Inl e, s)"

definition act_bind :: "('s, 'e, 'a) action \<Rightarrow> ('a \<Rightarrow> ('s, 'e, 'b) action) \<Rightarrow> ('s, 'e, 'b) action" where
  "act_bind m f s = (case m s of (Inl e, s') \<Rightarrow> (Inl e, s') | (Inr x, s') \<Rightarrow> f x s')"

text \<open>A read of the state that may fail, and a plain update.\<close>

definition act_read :: "('s \<Rightarrow> 'e + 'a) \<Rightarrow> ('s, 'e, 'a) action" where
  "act_read g s = (g s, s)"

definition act_modify :: "('s \<Rightarrow> 's) \<Rightarrow> ('s, 'e, unit) action" where
  "act_modify f s = (Inr (), f s)"

lemma act_simps [simp]:
  "act_ret x s = (Inr x, s)" "act_fail e s = (Inl e, s)"
  "act_read g s = (g s, s)" "act_modify f s = (Inr (), f s)"
  by (simp_all add: act_ret_def act_fail_def act_read_def act_modify_def)

lemma act_bind_Inr [simp]: "m s = (Inr x, s') \<Longrightarrow> act_bind m f s = f x s'"
  by (simp add: act_bind_def)

lemma act_bind_Inl [simp]: "m s = (Inl e, s') \<Longrightarrow> act_bind m f s = (Inl e, s')"
  by (simp add: act_bind_def)

lemma act_bind_Inr_iff:
  "act_bind m f s = (Inr y, t) \<longleftrightarrow> (\<exists>x s'. m s = (Inr x, s') \<and> f x s' = (Inr y, t))"
  by (auto simp: act_bind_def split: sum.splits prod.splits)

lemma act_bind_cases:
  assumes "act_bind m f s = (r, t)"
  obtains (err) e where "m s = (Inl e, t)" "r = Inl e"
  | (ok) x s' where "m s = (Inr x, s')" "f x s' = (r, t)"
  using assms by (auto simp: act_bind_def split: sum.splits prod.splits)

text \<open>A loop over a list that runs an action per item and collects the values.\<close>

fun act_map :: "('a \<Rightarrow> ('s, 'e, 'b) action) \<Rightarrow> 'a list \<Rightarrow> ('s, 'e, 'b list) action" where
  "act_map f [] s = (Inr [], s)"
| "act_map f (x # xs) s =
     (case f x s of (Inl e, s') \<Rightarrow> (Inl e, s')
      | (Inr y, s') \<Rightarrow>
          (case act_map f xs s' of (Inl e, s'') \<Rightarrow> (Inl e, s'')
           | (Inr ys, s'') \<Rightarrow> (Inr (y # ys), s'')))"

text \<open>The error conversion \<open>?\<close> does on the way, and an effect whose failure the code ignores.\<close>

definition act_map_err :: "('e \<Rightarrow> 'f) \<Rightarrow> ('s, 'e, 'a) action \<Rightarrow> ('s, 'f, 'a) action" where
  "act_map_err g m s = (case m s of (r, t) \<Rightarrow> (res_map_err g r, t))"

lemma act_map_err_apply [simp]: "m s = (r, t) \<Longrightarrow> act_map_err g m s = (res_map_err g r, t)"
  by (simp add: act_map_err_def)

text \<open>An action on a trace of calls only adds to it, and only calls that satisfy \<open>P\<close>.\<close>

definition emits :: "('c \<Rightarrow> bool) \<Rightarrow> ('c list, 'e, 'a) action \<Rightarrow> bool" where
  "emits P m \<longleftrightarrow> (\<forall>tr. \<exists>cs. snd (m tr) = tr @ cs \<and> list_all P cs)"

lemma emitsI: "(\<And>tr. \<exists>cs. snd (m tr) = tr @ cs \<and> list_all P cs) \<Longrightarrow> emits P m"
  by (simp add: emits_def)

named_theorems emits_intros

lemma emits_ret [emits_intros]: "emits P (act_ret x)"
  by (simp add: emits_def)

lemma emits_fail [emits_intros]: "emits P (act_fail e)"
  by (simp add: emits_def)

lemma emits_read [emits_intros]: "emits P (act_read g)"
  by (simp add: emits_def)

lemma emits_bind:
  assumes "emits P m" and "\<And>x tr t. m tr = (Inr x, t) \<Longrightarrow> emits P (f x)"
  shows "emits P (act_bind m f)"
proof (rule emitsI)
  fix tr
  obtain r t where m: "m tr = (r, t)" by fastforce
  with assms(1) obtain cs where cs: "t = tr @ cs" "list_all P cs" unfolding emits_def by (metis snd_conv)
  show "\<exists>cs. snd (act_bind m f tr) = tr @ cs \<and> list_all P cs"
  proof (cases r)
    case (Inl e)
    with m cs show ?thesis by simp
  next
    case (Inr x)
    from assms(2) [OF m [unfolded Inr]] obtain ds where "snd (f x t) = t @ ds" "list_all P ds"
      unfolding emits_def by blast
    with m cs Inr show ?thesis by (intro exI [of _ "cs @ ds"]) simp
  qed
qed

lemma emits_seq [emits_intros]: "emits P m \<Longrightarrow> (\<And>x. emits P (f x)) \<Longrightarrow> emits P (act_bind m f)"
  by (rule emits_bind)

lemma emits_map [emits_intros]: "(\<And>x. x \<in> set xs \<Longrightarrow> emits P (f x)) \<Longrightarrow> emits P (act_map f xs)"
proof (induction xs)
  case (Cons x xs)
  have eq: "act_map f (x # xs) = act_bind (f x) (\<lambda>y. act_bind (act_map f xs) (\<lambda>ys. act_ret (y # ys)))"
    by (rule ext) (auto simp: act_bind_def split: prod.splits sum.splits)
  show ?case unfolding eq by (intro emits_intros Cons.prems Cons.IH) simp_all
qed (simp add: emits_def)

subsection \<open>Readers\<close>

text \<open>
  The decoders hold a byte slice and a position that only moves forward.  The model keeps the
  bytes from the position on: a reader takes them and returns its value with the bytes left.
\<close>

type_synonym ('e, 'a) reader = "bytes \<Rightarrow> 'e + 'a \<times> bytes"

definition rd_ret :: "'a \<Rightarrow> ('e, 'a) reader" where
  "rd_ret x bs = Inr (x, bs)"

definition rd_fail :: "'e \<Rightarrow> ('e, 'a) reader" where
  "rd_fail e bs = Inl e"

definition rd_bind :: "('e, 'a) reader \<Rightarrow> ('a \<Rightarrow> ('e, 'b) reader) \<Rightarrow> ('e, 'b) reader" where
  "rd_bind m f bs = (case m bs of Inl e \<Rightarrow> Inl e | Inr (x, bs') \<Rightarrow> f x bs')"

text \<open>A pure check inside a decoder, such as the UTF-8 check of a string just read.\<close>

definition rd_lift :: "'e + 'a \<Rightarrow> ('e, 'a) reader" where
  "rd_lift r bs = (case r of Inl e \<Rightarrow> Inl e | Inr x \<Rightarrow> Inr (x, bs))"

text \<open>The bounds check every primitive of every reader starts with: \<open>e\<close> is the crate's
  end-of-input error.\<close>

definition rd_take :: "'e \<Rightarrow> nat \<Rightarrow> ('e, bytes) reader" where
  "rd_take e n bs = (if length bs < n then Inl e else Inr (take n bs, drop n bs))"

fun rd_times :: "nat \<Rightarrow> ('e, 'a) reader \<Rightarrow> ('e, 'a list) reader" where
  "rd_times 0 m bs = Inr ([], bs)"
| "rd_times (Suc n) m bs =
     (case m bs of Inl e \<Rightarrow> Inl e
      | Inr (x, bs') \<Rightarrow>
          (case rd_times n m bs' of Inl e \<Rightarrow> Inl e | Inr (xs, bs'') \<Rightarrow> Inr (x # xs, bs'')))"

lemma rd_ret_apply [simp]: "rd_ret x bs = Inr (x, bs)"
  by (simp add: rd_ret_def)

lemma rd_fail_apply [simp]: "rd_fail e bs = Inl e"
  by (simp add: rd_fail_def)

lemma rd_lift_simps [simp]:
  "rd_lift (Inl e) bs = Inl e" "rd_lift (Inr x) bs = Inr (x, bs)"
  by (simp_all add: rd_lift_def)

lemma rd_lift_Inr_iff: "rd_lift r bs = Inr (x, bs') \<longleftrightarrow> r = Inr x \<and> bs' = bs"
  by (cases r) auto

lemma rd_bind_step [codec_simps]: "m bs = Inr (x, bs') \<Longrightarrow> rd_bind m f bs = f x bs'"
  by (simp add: rd_bind_def)

lemma rd_bind_Inl [codec_simps]: "m bs = Inl e \<Longrightarrow> rd_bind m f bs = Inl e"
  by (simp add: rd_bind_def)

lemma rd_bind_Inr_iff:
  "rd_bind m f bs = Inr z \<longleftrightarrow> (\<exists>x bs'. m bs = Inr (x, bs') \<and> f x bs' = Inr z)"
  by (auto simp: rd_bind_def split: sum.splits prod.splits)

lemma rd_take_exact [codec_simps]: "length xs = n \<Longrightarrow> rd_take e n (xs @ ys) = Inr (xs, ys)"
  by (simp add: rd_take_def)

lemma rd_take_Inr_iff:
  "rd_take e n bs = Inr (xs, ys) \<longleftrightarrow> bs = xs @ ys \<and> length xs = n"
  by (auto simp: rd_take_def)

lemma rd_take_short [codec_simps]: "length bs < n \<Longrightarrow> rd_take e n bs = Inl e"
  by (simp add: rd_take_def)

subsection \<open>Fixed-width integers as bytes\<close>

fun le_of_nat :: "nat \<Rightarrow> nat \<Rightarrow> bytes" where
  "le_of_nat 0 v = []"
| "le_of_nat (Suc n) v = of_nat v # le_of_nat n (v div 256)"

fun le_nat :: "bytes \<Rightarrow> nat" where
  "le_nat [] = 0"
| "le_nat (b # bs) = unat b + 256 * le_nat bs"

definition be_of_nat :: "nat \<Rightarrow> nat \<Rightarrow> bytes" where
  "be_of_nat n v = rev (le_of_nat n v)"

definition be_nat :: "bytes \<Rightarrow> nat" where
  "be_nat bs = le_nat (rev bs)"

lemma le_of_nat_numeral: "le_of_nat (numeral k) v = of_nat v # le_of_nat (pred_numeral k) (v div 256)"
  by (subst numeral_eq_Suc) (rule le_of_nat.simps(2))

lemma length_le_of_nat [simp]: "length (le_of_nat n v) = n"
  by (induction n arbitrary: v) auto

lemma length_be_of_nat [simp]: "length (be_of_nat n v) = n"
  by (simp add: be_of_nat_def)

lemma unat_of_nat_byte: "unat (of_nat v :: byte) = v mod 256"
  by (simp add: unat_of_nat)

lemma mod_256_power_Suc: "v mod 256 + 256 * (v div 256 mod 256 ^ n) = v mod 256 ^ Suc n"
  for v :: nat
  by (metis add.commute mod_mult2_eq power_Suc)

lemma le_nat_le_of_nat: "le_nat (le_of_nat n v) = v mod 256 ^ n"
proof (induction n arbitrary: v)
  case 0
  show ?case by simp
next
  case (Suc n)
  show ?case
    using mod_256_power_Suc [of v n] by (simp add: Suc unat_of_nat_byte)
qed

lemma be_nat_be_of_nat: "be_nat (be_of_nat n v) = v mod 256 ^ n"
  by (simp add: be_nat_def be_of_nat_def le_nat_le_of_nat)

lemma le_nat_bound: "le_nat bs < 256 ^ length bs"
proof (induction bs)
  case Nil
  show ?case by simp
next
  case (Cons b bs)
  have "unat b < 256" using unsigned_less [of b] by simp
  with Cons show ?case by simp
qed

lemma le_of_nat_le_nat: "le_of_nat (length bs) (le_nat bs) = bs"
proof (induction bs)
  case Nil
  show ?case by simp
next
  case (Cons b bs)
  have b: "unat b < 256" using unsigned_less [of b] by simp
  have "unat (of_nat (unat b + 256 * le_nat bs) :: byte) = unat b"
    unfolding unat_of_nat_byte using b by simp
  then have "(of_nat (unat b + 256 * le_nat bs) :: byte) = b"
    by (rule word_unat_eq_iff [THEN iffD2])
  with b Cons show ?case by (simp only: length_Cons le_nat.simps le_of_nat.simps) simp
qed

text \<open>\<open>to_be_bytes\<close>, \<open>to_le_bytes\<close> and their inverses for the widths the code uses.\<close>

definition be_bytes :: "nat \<Rightarrow> 'a::len word \<Rightarrow> bytes" where
  "be_bytes n w = be_of_nat n (unat w)"

definition le_bytes :: "nat \<Rightarrow> 'a::len word \<Rightarrow> bytes" where
  "le_bytes n w = le_of_nat n (unat w)"

definition from_be :: "bytes \<Rightarrow> 'a::len word" where
  "from_be bs = of_nat (be_nat bs)"

definition from_le :: "bytes \<Rightarrow> 'a::len word" where
  "from_le bs = of_nat (le_nat bs)"

lemma length_be_bytes [simp]: "length (be_bytes n w) = n"
  by (simp add: be_bytes_def)

lemma length_le_bytes [simp]: "length (le_bytes n w) = n"
  by (simp add: le_bytes_def)

lemma unat_mod_pow:
  assumes "LENGTH('a::len) = 8 * n"
  shows "unat (w :: 'a word) mod 256 ^ n = unat w"
proof -
  have "unat w < 2 ^ (8 * n)"
    using unsigned_less [of w] assms by simp
  also have "(2::nat) ^ (8 * n) = 256 ^ n"
    by (simp add: power_mult)
  finally show ?thesis by simp
qed

lemma from_be_be_bytes:
  assumes "LENGTH('a::len) = 8 * n"
  shows "from_be (be_bytes n (w :: 'a word)) = w"
  by (simp add: from_be_def be_bytes_def be_nat_be_of_nat unat_mod_pow [OF assms])

lemma from_le_le_bytes:
  assumes "LENGTH('a::len) = 8 * n"
  shows "from_le (le_bytes n (w :: 'a word)) = w"
  by (simp add: from_le_def le_bytes_def le_nat_le_of_nat unat_mod_pow [OF assms])

lemma from_be_widths [simp]:
  "from_be (be_bytes 2 (w16 :: u16)) = w16"
  "from_be (be_bytes 4 (w32 :: u32)) = w32"
  "from_be (be_bytes 8 (w64 :: u64)) = w64"
  by (rule from_be_be_bytes, simp)+

lemma from_le_widths [simp]:
  "from_le (le_bytes 2 (w16 :: u16)) = w16"
  "from_le (le_bytes 4 (w32 :: u32)) = w32"
  "from_le (le_bytes 8 (w64 :: u64)) = w64"
  by (rule from_le_le_bytes, simp)+

text \<open>A length cast to a narrower integer (\<open>len() as u32\<close>) is exact below the width's
  bound and wraps above it.\<close>

lemma unat_of_nat_len: "n < 2 ^ LENGTH('a) \<Longrightarrow> unat (of_nat n :: 'a::len word) = n"
  by (simp add: unat_of_nat)

subsection \<open>Lists of equal pieces\<close>

lemma length_concat_same: "list_all (\<lambda>x. length x = n) xs \<Longrightarrow> length (concat xs) = length xs * n"
  by (induction xs) auto

lemma drop_concat_same: "list_all (\<lambda>x. length x = n) xs \<Longrightarrow> drop (i * n) (concat xs) = concat (drop i xs)"
proof (induction xs arbitrary: i)
  case (Cons x xs)
  then show ?case by (cases i) auto
qed simp

subsection \<open>Rounding up\<close>

text \<open>\<open>div_ceil\<close> on \<open>usize\<close>.\<close>

definition nat_ceil :: "nat \<Rightarrow> nat \<Rightarrow> nat" where
  "nat_ceil n d = (if n mod d = 0 then n div d else n div d + 1)"

lemma nat_ceil_bounds:
  assumes "0 < d"
  shows "n \<le> nat_ceil n d * d" and "nat_ceil n d * d < n + d"
proof -
  have split: "d * (n div d) + n mod d = n" by simp
  have "n mod d < d" using assms by simp
  show "n \<le> nat_ceil n d * d" "nat_ceil n d * d < n + d"
  proof (atomize (full), cases "n mod d = 0")
    case True
    then have "nat_ceil n d * d = d * (n div d)" by (simp add: nat_ceil_def)
    with True split assms show "n \<le> nat_ceil n d * d \<and> nat_ceil n d * d < n + d" by linarith
  next
    case False
    then have "nat_ceil n d * d = d * (n div d) + d" by (simp add: nat_ceil_def)
    with False split \<open>n mod d < d\<close> show "n \<le> nat_ceil n d * d \<and> nat_ceil n d * d < n + d" by linarith
  qed
qed

lemma nat_ceil_le: "0 < d \<Longrightarrow> n \<le> m * d \<Longrightarrow> nat_ceil n d \<le> m"
proof -
  assume d: "0 < d" "n \<le> m * d"
  have "nat_ceil n d * d < (m + 1) * d" using nat_ceil_bounds(2) [OF d(1), of n] d(2) by simp
  then have "nat_ceil n d < m + 1" by (simp only: mult_less_cancel2)
  then show ?thesis by simp
qed

lemma less_nat_ceil_iff: "0 < d \<Longrightarrow> x < nat_ceil n d \<longleftrightarrow> x * d < n"
proof
  assume d: "0 < d" and "x < nat_ceil n d"
  then have "Suc x * d \<le> nat_ceil n d * d" by (intro mult_le_mono1) simp
  then show "x * d < n" using nat_ceil_bounds(2) [OF d, of n] by simp
next
  assume d: "0 < d" and "x * d < n"
  then have "x * d < nat_ceil n d * d" using nat_ceil_bounds(1) [OF d, of n] by linarith
  then show "x < nat_ceil n d" by simp
qed

lemma nat_ceil_nested:
  assumes "0 < d" and "0 < e"
  shows "nat_ceil (nat_ceil n d) e = nat_ceil n (d * e)"
proof -
  have "x < nat_ceil (nat_ceil n d) e \<longleftrightarrow> x < nat_ceil n (d * e)" for x
    using assms by (simp add: less_nat_ceil_iff mult_ac)
  then show ?thesis by (metis less_irrefl linorder_neqE_nat)
qed

end
