(* ===== verification/Strings.thy ===== *)
theory Strings
  imports Prelude
begin

section \<open>Text: UTF-8, slicing and paths\<close>

text \<open>
  The parts of \<open>str\<close>, \<open>String\<close> and \<open>std::path\<close> the code uses, on the byte-wise strings of
  \<open>Prelude\<close>: UTF-8 validity and the lossy conversion, prefix stripping, splitting, trimming,
  decimal formatting, and the component view of a Unix path on which path equality and
  \<open>starts_with\<close> are defined.
\<close>

subsection \<open>Strings and bytes\<close>

definition str_bytes :: "string \<Rightarrow> bytes" where
  "str_bytes s = map of_char s"

definition bytes_str :: "bytes \<Rightarrow> string" where
  "bytes_str bs = map (\<lambda>b. char_of (unat b)) bs"

lemma length_bytes_str [simp]: "length (bytes_str bs) = length bs"
  by (simp add: bytes_str_def)

lemma length_str_bytes [simp]: "length (str_bytes s) = length s"
  by (simp add: str_bytes_def)

lemma unat_of_char: "unat (of_char c :: byte) = of_char c"
proof -
  have "(of_char c :: byte) = of_nat (of_char c)"
    by (cases c) (simp add: of_char_def)
  moreover have "(of_char c :: nat) < 256" by (rule nat_of_char_less_256)
  ultimately show ?thesis by (metis mod_less unat_of_nat_byte)
qed

lemma bytes_str_str_bytes [simp]: "bytes_str (str_bytes s) = s"
  by (simp add: bytes_str_def str_bytes_def o_def unat_of_char)

lemma byte_of_char_char_of [simp]: "of_char (char_of (unat b)) = (b :: byte)"
proof -
  have "unat (of_char (char_of (unat b)) :: byte) = unat b mod 256"
    by (simp add: unat_of_char)
  also have "unat b mod 256 = unat b"
    using unsigned_less [of b, where ?'a = nat] by simp
  finally show ?thesis by (rule word_unat_eq_iff [THEN iffD2])
qed

lemma str_bytes_bytes_str [simp]: "str_bytes (bytes_str bs) = bs"
  by (simp add: bytes_str_def str_bytes_def o_def)

lemma str_bytes_inj [simp]: "str_bytes s = str_bytes t \<longleftrightarrow> s = t"
  by (metis bytes_str_str_bytes)

lemma str_bytes_append [simp]: "str_bytes (s @ t) = str_bytes s @ str_bytes t"
  by (simp add: str_bytes_def)

subsection \<open>UTF-8\<close>

text \<open>
  One step of the standard library's decoder at the front of a non-empty byte list: whether a
  well-formed scalar value starts there, and how many bytes the value (or the ill-formed
  maximal subpart) takes.  The tables are those of the Unicode standard: no overlong forms, no
  surrogates, nothing past U+10FFFF.
\<close>

definition in_range :: "nat \<Rightarrow> nat \<Rightarrow> byte \<Rightarrow> bool" where
  "in_range lo hi b \<longleftrightarrow> lo \<le> unat b \<and> unat b \<le> hi"

definition utf8_second :: "byte \<Rightarrow> (nat \<times> nat) option" where
  "utf8_second b =
     (if in_range 194 223 b then Some (128, 191)
      else if b = 224 then Some (160, 191)
      else if b = 237 then Some (128, 159)
      else if in_range 225 239 b then Some (128, 191)
      else if b = 240 then Some (144, 191)
      else if in_range 241 243 b then Some (128, 191)
      else if b = 244 then Some (128, 143)
      else None)"

definition utf8_width :: "byte \<Rightarrow> nat" where
  "utf8_width b = (if unat b < 224 then 2 else if unat b < 240 then 3 else 4)"

fun utf8_tail :: "nat \<Rightarrow> nat \<Rightarrow> bytes \<Rightarrow> bool \<times> nat" where
  "utf8_tail 0 got bs = (True, got)"
| "utf8_tail (Suc n) got [] = (False, got)"
| "utf8_tail (Suc n) got (b # bs) =
     (if in_range 128 191 b then utf8_tail n (Suc got) bs else (False, got))"

fun utf8_scan :: "bytes \<Rightarrow> bool \<times> nat" where
  "utf8_scan [] = (False, 1)"
| "utf8_scan (b # bs) =
     (if unat b < 128 then (True, 1)
      else case utf8_second b of
        None \<Rightarrow> (False, 1)
      | Some (lo, hi) \<Rightarrow>
          (case bs of
             [] \<Rightarrow> (False, 1)
           | c # cs \<Rightarrow>
               if in_range lo hi c then utf8_tail (utf8_width b - 2) 2 cs else (False, 1)))"

lemma utf8_tail_pos: "0 < got \<Longrightarrow> 0 < snd (utf8_tail n got bs)"
  by (induction n got bs rule: utf8_tail.induct) auto

lemma utf8_scan_pos: "0 < snd (utf8_scan bs)"
  by (cases bs) (auto simp: utf8_tail_pos split: option.splits list.splits)

lemma utf8_scan_shrinks: "(ok, n) = utf8_scan bs \<Longrightarrow> 0 < n"
  using utf8_scan_pos [of bs] by (metis snd_conv)

text \<open>\<open>std::str::from_utf8\<close> succeeds on exactly these byte lists.\<close>

function utf8_ok :: "bytes \<Rightarrow> bool" where
  "utf8_ok bs =
     (if bs = [] then True
      else case utf8_scan bs of (ok, n) \<Rightarrow> ok \<and> utf8_ok (drop n bs))"
  by pat_completeness auto
termination
  by (relation "measure length") (auto dest: utf8_scan_shrinks)

text \<open>\<open>String::from_utf8_lossy\<close>: every ill-formed maximal subpart becomes U+FFFD.\<close>

function utf8_lossy :: "bytes \<Rightarrow> bytes" where
  "utf8_lossy bs =
     (if bs = [] then []
      else case utf8_scan bs of
        (ok, n) \<Rightarrow> (if ok then take n bs else [239, 191, 189]) @ utf8_lossy (drop n bs))"
  by pat_completeness auto
termination
  by (relation "measure length") (auto dest: utf8_scan_shrinks)

declare utf8_ok.simps [simp del] utf8_lossy.simps [simp del]

lemma utf8_lossy_id: "utf8_ok bs \<Longrightarrow> utf8_lossy bs = bs"
proof (induction bs rule: utf8_lossy.induct)
  case (1 bs)
  show ?case
  proof (cases "bs = []")
    case True
    then show ?thesis by (simp add: utf8_lossy.simps)
  next
    case False
    obtain ok n where scan: "utf8_scan bs = (ok, n)" by fastforce
    from "1.prems" False scan have ok: "ok" "utf8_ok (drop n bs)"
      by (simp_all add: utf8_ok.simps [of bs])
    with "1.IH" False scan have "utf8_lossy (drop n bs) = drop n bs" by simp
    with False scan ok show ?thesis by (simp add: utf8_lossy.simps [of bs])
  qed
qed

lemma utf8_ok_ascii: "(\<And>b. b \<in> set bs \<Longrightarrow> unat b < 128) \<Longrightarrow> utf8_ok bs"
proof (induction bs)
  case Nil
  show ?case by (simp add: utf8_ok.simps)
next
  case (Cons b bs)
  then have "unat b < 128" "utf8_ok bs" by auto
  then show ?case by (simp add: utf8_ok.simps [of "b # bs"])
qed

text \<open>The invariant of Rust's \<open>String\<close>, and \<open>String::from_utf8\<close> on a byte vector.\<close>

definition utf8_str :: "string \<Rightarrow> bool" where
  "utf8_str s \<longleftrightarrow> utf8_ok (str_bytes s)"

definition from_utf8 :: "bytes \<Rightarrow> string option" where
  "from_utf8 bs = (if utf8_ok bs then Some (bytes_str bs) else None)"

definition to_string_lossy :: "string \<Rightarrow> string" where
  "to_string_lossy s = bytes_str (utf8_lossy (str_bytes s))"

lemma from_utf8_str_bytes [codec_simps]: "utf8_str s \<Longrightarrow> from_utf8 (str_bytes s) = Some s"
  by (simp add: from_utf8_def utf8_str_def)

lemma from_utf8_Some_iff: "from_utf8 bs = Some s \<longleftrightarrow> utf8_ok bs \<and> s = bytes_str bs"
  by (auto simp: from_utf8_def)

lemma to_string_lossy_id [codec_simps]: "utf8_str s \<Longrightarrow> to_string_lossy s = s"
  by (simp add: to_string_lossy_def utf8_str_def utf8_lossy_id)

definition ascii_str :: "string \<Rightarrow> bool" where
  "ascii_str s \<longleftrightarrow> list_all (\<lambda>c. unat (of_char c :: byte) < 128) s"

lemma utf8_str_ascii [wf_intros]: "ascii_str s \<Longrightarrow> utf8_str s"
  unfolding utf8_str_def
  by (rule utf8_ok_ascii) (auto simp: ascii_str_def str_bytes_def list_all_iff)

subsection \<open>Slicing\<close>

text \<open>Delimiters and prefixes in the code are all ASCII, so matching them byte by byte is matching
  them character by character.\<close>

fun strip_pre :: "string \<Rightarrow> string \<Rightarrow> string option" where
  "strip_pre [] s = Some s"
| "strip_pre (c # p) [] = None"
| "strip_pre (c # p) (d # s) = (if c = d then strip_pre p s else None)"

fun split_on :: "char \<Rightarrow> string \<Rightarrow> string list" where
  "split_on d [] = [[]]"
| "split_on d (c # s) =
     (if c = d then [] # split_on d s
      else case split_on d s of [] \<Rightarrow> [[c]] | x # xs \<Rightarrow> (c # x) # xs)"

fun split_once :: "char \<Rightarrow> string \<Rightarrow> (string \<times> string) option" where
  "split_once d [] = None"
| "split_once d (c # s) =
     (if c = d then Some ([], s)
      else map_option (\<lambda>(a, b). (c # a, b)) (split_once d s))"

definition rsplit_once :: "char \<Rightarrow> string \<Rightarrow> (string \<times> string) option" where
  "rsplit_once d s = map_option (\<lambda>(a, b). (rev b, rev a)) (split_once d (rev s))"

text \<open>\<open>[String]::join\<close>.\<close>

fun join_with :: "string \<Rightarrow> string list \<Rightarrow> string" where
  "join_with sep [] = []"
| "join_with sep [s] = s"
| "join_with sep (s # t # ts) = s @ sep @ join_with sep (t # ts)"

lemma strip_pre_append [simp]: "strip_pre p (p @ s) = Some s"
  by (induction p) auto

lemma strip_pre_Some_iff: "strip_pre p s = Some r \<longleftrightarrow> s = p @ r"
  by (induction p s rule: strip_pre.induct) auto

lemma split_once_append: "d \<notin> set a \<Longrightarrow> split_once d (a @ d # b) = Some (a, b)"
  by (induction a) auto

lemma split_once_Some: "split_once d s = Some (a, b) \<Longrightarrow> s = a @ d # b \<and> d \<notin> set a"
  by (induction s arbitrary: a) (auto split: if_splits)

lemma split_once_None_iff: "split_once d s = None \<longleftrightarrow> d \<notin> set s"
  by (induction s) auto

lemma rsplit_once_append: "d \<notin> set b \<Longrightarrow> rsplit_once d (a @ d # b) = Some (a, b)"
  using split_once_append [of d "rev b" "rev a"] by (simp add: rsplit_once_def)

lemma split_on_not_Nil [simp]: "split_on d s \<noteq> []"
  by (cases s) (auto split: list.splits)

lemma split_on_single: "d \<notin> set s \<Longrightarrow> split_on d s = [s]"
  by (induction s) auto

lemma split_on_append: "d \<notin> set a \<Longrightarrow> split_on d (a @ d # b) = a # split_on d b"
  by (induction a) auto

subsection \<open>Numbers as text\<close>

definition digit_char :: "nat \<Rightarrow> char" where
  "digit_char n = char_of (if n < 10 then 48 + n else 87 + n)"

fun show_nat :: "nat \<Rightarrow> string" where
  "show_nat n = (if n < 10 then [digit_char n] else show_nat (n div 10) @ [digit_char (n mod 10)])"

declare show_nat.simps [simp del]

text \<open>\<open>from_str_radix\<close> (and \<open>parse\<close>, which is radix ten): one optional leading \<open>+\<close>, then at
  least one digit of the radix, either case; \<open>None\<close> past the type's largest value.\<close>

definition digit_val :: "nat \<Rightarrow> char \<Rightarrow> nat option" where
  "digit_val radix c =
     (let n = (of_char c :: nat);
          v = (if 48 \<le> n \<and> n \<le> 57 then n - 48
               else if 97 \<le> n \<and> n \<le> 122 then n - 87
               else if 65 \<le> n \<and> n \<le> 90 then n - 55
               else 36)
      in if v < radix then Some v else None)"

fun digits_val :: "nat \<Rightarrow> nat \<Rightarrow> string \<Rightarrow> nat option" where
  "digits_val radix acc [] = Some acc"
| "digits_val radix acc (c # s) =
     (case digit_val radix c of None \<Rightarrow> None | Some v \<Rightarrow> digits_val radix (acc * radix + v) s)"

definition parse_radix :: "nat \<Rightarrow> nat \<Rightarrow> string \<Rightarrow> nat option" where
  "parse_radix radix limit s =
     (let ds = (case s of CHR ''+'' # r \<Rightarrow> (if r = [] then s else r) | _ \<Rightarrow> s)
      in if ds = [] then None
         else case digits_val radix 0 ds of
           None \<Rightarrow> None
         | Some v \<Rightarrow> if v < limit then Some v else None)"

lemma digit_val_digit_char: "n < 16 \<Longrightarrow> n < radix \<Longrightarrow> digit_val radix (digit_char n) = Some n"
  by (auto simp: digit_val_def digit_char_def Let_def)

lemma digits_val_append:
  "digits_val radix acc (s @ t) =
     (case digits_val radix acc s of None \<Rightarrow> None | Some v \<Rightarrow> digits_val radix v t)"
  by (induction s arbitrary: acc) (auto split: option.splits)

lemma digits_val_show_nat: "digits_val 10 0 (show_nat n) = Some n"
proof (induction n rule: show_nat.induct)
  case (1 n)
  show ?case
  proof (cases "n < 10")
    case True
    then show ?thesis by (simp add: show_nat.simps [of n] digit_val_digit_char)
  next
    case False
    with 1 have "digits_val 10 0 (show_nat (n div 10)) = Some (n div 10)" by simp
    with False show ?thesis
      by (simp add: show_nat.simps [of n] digits_val_append digit_val_digit_char)
  qed
qed

lemma digit_val_plus: "digit_val radix CHR ''+'' = None" if "radix \<le> 36"
  using that by (simp add: digit_val_def Let_def)

lemma digit_char_not_plus: "n < 16 \<Longrightarrow> digit_char n \<noteq> CHR ''+''"
  using digit_val_digit_char [of n 16] digit_val_plus [of 16] by auto

lemma show_nat_Cons: "\<exists>d r. show_nat n = digit_char d # r \<and> d < 10"
proof (induction n rule: show_nat.induct)
  case (1 n)
  show ?case
  proof (cases "n < 10")
    case True
    then show ?thesis by (auto simp: show_nat.simps [of n])
  next
    case False
    with 1 show ?thesis by (auto simp: show_nat.simps [of n])
  qed
qed

lemma parse_show_nat: "n < limit \<Longrightarrow> parse_radix 10 limit (show_nat n) = Some n"
proof -
  assume n: "n < limit"
  obtain d r where dr: "show_nat n = digit_char d # r" "d < 10"
    using show_nat_Cons by blast
  then have "digit_char d \<noteq> CHR ''+''" by (simp add: digit_char_not_plus)
  then have "parse_radix 10 limit (show_nat n) =
      (case digits_val 10 0 (show_nat n) of None \<Rightarrow> None
       | Some v \<Rightarrow> if v < limit then Some v else None)"
    unfolding parse_radix_def dr(1) by (auto simp: Let_def split: char.splits bool.splits)
  with n show ?thesis by (simp add: digits_val_show_nat)
qed

subsection \<open>Characters and white space\<close>

text \<open>The characters of a string, each as its one to four bytes, and \<open>char::is_whitespace\<close> (the
  Unicode property \<open>White_Space\<close>) by the encodings of the characters that have it.\<close>

function chars_of :: "string \<Rightarrow> string list" where
  "chars_of s =
     (if s = [] then []
      else let n = snd (utf8_scan (str_bytes s)) in take n s # chars_of (drop n s))"
  by pat_completeness auto
termination
  by (relation "measure length") (use utf8_scan_pos in auto)

declare chars_of.simps [simp del]

definition ws_table :: "bytes list" where
  "ws_table =
     [[9], [10], [11], [12], [13], [32], [194, 133], [194, 160], [225, 154, 128],
      [226, 128, 128], [226, 128, 129], [226, 128, 130], [226, 128, 131], [226, 128, 132],
      [226, 128, 133], [226, 128, 134], [226, 128, 135], [226, 128, 136], [226, 128, 137],
      [226, 128, 138], [226, 128, 168], [226, 128, 169], [226, 128, 175], [226, 129, 159],
      [227, 128, 128]]"

definition is_ws :: "string \<Rightarrow> bool" where
  "is_ws c \<longleftrightarrow> str_bytes c \<in> set ws_table"

definition str_trim :: "string \<Rightarrow> string" where
  "str_trim s = concat (rev (dropWhile is_ws (rev (dropWhile is_ws (chars_of s)))))"

lemma chars_of_ascii: "ascii_str s \<Longrightarrow> chars_of s = map (\<lambda>c. [c]) s"
proof (induction s)
  case Nil
  show ?case by (simp add: chars_of.simps)
next
  case (Cons c s)
  then have "unat (of_char c :: byte) < 128" "ascii_str s" by (simp_all add: ascii_str_def)
  then have "snd (utf8_scan (str_bytes (c # s))) = 1" by (simp add: str_bytes_def)
  with Cons \<open>ascii_str s\<close> show ?case by (simp add: chars_of.simps [of "c # s"])
qed

definition plain_char :: "char \<Rightarrow> bool" where
  "plain_char c \<longleftrightarrow> unat (of_char c :: byte) < 128 \<and> \<not> is_ws [c]"

lemma dropWhile_none: "list_all (\<lambda>x. \<not> P x) xs \<Longrightarrow> dropWhile P xs = xs"
  by (cases xs) auto

lemma str_trim_plain:
  assumes "list_all plain_char s"
  shows "str_trim s = s"
proof -
  have cs: "chars_of s = map (\<lambda>c. [c]) s"
    by (rule chars_of_ascii) (use assms in \<open>auto simp: ascii_str_def plain_char_def list_all_iff\<close>)
  have "list_all (\<lambda>c. \<not> is_ws c) (map (\<lambda>c. [c]) s)"
    using assms by (auto simp: plain_char_def list_all_iff)
  then have "dropWhile is_ws (chars_of s) = map (\<lambda>c. [c]) s"
    and "dropWhile is_ws (rev (map (\<lambda>c. [c]) s)) = rev (map (\<lambda>c. [c]) s)"
    unfolding cs by (auto intro!: dropWhile_none simp: list_all_iff)
  then show ?thesis by (simp add: str_trim_def)
qed

subsection \<open>Paths\<close>

text \<open>
  \<open>Path::components\<close> on Unix: an absolute path starts with \<open>RootDir\<close>; empty segments and
  \<open>.\<close> segments vanish, except a \<open>.\<close> that opens a relative path; \<open>..\<close> is kept as it is.
  \<open>Path\<close>'s equality and \<open>starts_with\<close> compare these components, not the text.
\<close>

datatype path_comp = RootDir | CurDir | ParentDir | Normal string

definition seg_comp :: "string \<Rightarrow> path_comp list" where
  "seg_comp s =
     (if s = [] \<or> s = ''.'' then [] else if s = ''..'' then [ParentDir] else [Normal s])"

definition path_components :: "string \<Rightarrow> path_comp list" where
  "path_components p =
     (case split_on CHR ''/'' p of
        [] \<Rightarrow> []
      | s # ss \<Rightarrow>
          (if s = [] \<and> ss \<noteq> [] then [RootDir] else if s = ''.'' then [CurDir] else seg_comp s)
          @ concat (map seg_comp ss))"

definition path_eq :: "string \<Rightarrow> string \<Rightarrow> bool" where
  "path_eq a b \<longleftrightarrow> path_components a = path_components b"

text \<open>\<open>b.starts_with(a)\<close>.\<close>

definition path_starts_with :: "string \<Rightarrow> string \<Rightarrow> bool" where
  "path_starts_with b a \<longleftrightarrow> prefix (path_components a) (path_components b)"

definition path_is_absolute :: "string \<Rightarrow> bool" where
  "path_is_absolute p \<longleftrightarrow> (case p of c # _ \<Rightarrow> c = CHR ''/'' | [] \<Rightarrow> False)"

text \<open>\<open>Path::join\<close>: an absolute argument replaces the base, otherwise one separator stands
  between the two.\<close>

definition path_join :: "string \<Rightarrow> string \<Rightarrow> string" where
  "path_join base p =
     (if path_is_absolute p then p
      else if base = [] \<or> last base = CHR ''/'' then base @ p
      else base @ CHR ''/'' # p)"

lemma path_eq_refl [simp]: "path_eq a a"
  by (simp add: path_eq_def)

lemma path_starts_with_refl [simp]: "path_starts_with a a"
  by (simp add: path_starts_with_def)

lemma path_starts_with_trans:
  "path_starts_with b a \<Longrightarrow> path_starts_with c b \<Longrightarrow> path_starts_with c a"
  by (auto simp: path_starts_with_def intro: prefix_order.trans)

lemma path_eq_starts_with: "path_eq a b \<Longrightarrow> path_starts_with b a"
  by (simp add: path_eq_def path_starts_with_def)

lemma path_components_example: "path_components ''/a//./b/..'' = [RootDir, Normal ''a'', Normal ''b'', ParentDir]"
  by (simp add: path_components_def seg_comp_def)

text \<open>Splitting at every separator is compositional, so joining a plain segment onto a path appends
  one component.\<close>

lemma split_on_append_sep: "split_on d (a @ d # b) = split_on d a @ split_on d b"
proof (induction a)
  case (Cons c a)
  then show ?case by (cases "split_on d a") auto
qed simp

definition plain_seg :: "string \<Rightarrow> bool" where
  "plain_seg s \<longleftrightarrow> CHR ''/'' \<notin> set s \<and> s \<noteq> [] \<and> s \<noteq> ''.'' \<and> s \<noteq> ''..''"

lemma plain_seg_comp: "plain_seg s \<Longrightarrow> seg_comp s = [Normal s]"
  by (simp add: plain_seg_def seg_comp_def)

lemma plain_seg_split: "plain_seg s \<Longrightarrow> split_on CHR ''/'' s = [s]"
  by (simp add: plain_seg_def split_on_single)

lemma path_components_plain: "plain_seg s \<Longrightarrow> path_components s = [Normal s]"
  by (simp add: path_components_def plain_seg_split plain_seg_comp) (simp add: plain_seg_def)

lemma path_components_cons:
  "s # ss = split_on CHR ''/'' p \<Longrightarrow> ss \<noteq> [] \<or> s \<noteq> [] \<Longrightarrow>
     path_components (p @ CHR ''/'' # q) = path_components p @ concat (map seg_comp (split_on CHR ''/'' q))"
  by (simp add: path_components_def split_on_append_sep split: list.splits) auto

lemma split_on_Nil_iff: "split_on d s = [[]] \<longleftrightarrow> s = []"
  by (cases s) (auto split: list.splits)

lemma path_components_join:
  assumes "plain_seg s"
  shows "path_components (path_join p s) = path_components p @ [Normal s]"
proof -
  have rel: "\<not> path_is_absolute s"
    using assms by (cases s) (auto simp: plain_seg_def path_is_absolute_def)
  have tail: "concat (map seg_comp (split_on CHR ''/'' s)) = [Normal s]"
    using assms by (simp add: plain_seg_split plain_seg_comp)
  have sep: "path_components (q @ CHR ''/'' # s) = path_components q @ [Normal s]" if "q \<noteq> []" for q
  proof -
    obtain x xs where x: "split_on CHR ''/'' q = x # xs" by (cases "split_on CHR ''/'' q") auto
    then have "xs \<noteq> [] \<or> x \<noteq> []" using that split_on_Nil_iff [of "CHR ''/''" q] by auto
    with path_components_cons [OF x [symmetric]] tail show ?thesis by simp
  qed
  consider "p = []" | "p \<noteq> []" "last p \<noteq> CHR ''/''" | q where "p = q @ [CHR ''/'']"
    by (metis append_butlast_last_id)
  then show ?thesis
  proof cases
    case 1
    then have "path_components p = []" by (simp add: path_components_def seg_comp_def)
    with 1 rel assms show ?thesis by (simp add: path_join_def path_components_plain)
  next
    case 2
    with rel sep show ?thesis by (simp add: path_join_def)
  next
    case (3 q)
    then have join: "path_join p s = q @ CHR ''/'' # s" using rel by (simp add: path_join_def)
    show ?thesis
    proof (cases "q = []")
      case True
      with 3 have "path_components p = [RootDir]" by (simp add: path_components_def seg_comp_def)
      moreover have "path_components (CHR ''/'' # s) = [RootDir, Normal s]"
        using assms by (simp add: path_components_def plain_seg_split plain_seg_comp)
      ultimately show ?thesis using True join by simp
    next
      case False
      obtain x xs where x: "split_on CHR ''/'' q = x # xs" by (cases "split_on CHR ''/'' q") auto
      then have "xs \<noteq> [] \<or> x \<noteq> []" using False split_on_Nil_iff [of "CHR ''/''" q] by auto
      from path_components_cons [OF x [symmetric] this, of "[]"] 3
      have "path_components p = path_components q" by (simp add: seg_comp_def)
      with sep [OF False] join show ?thesis by simp
    qed
  qed
qed

lemma path_join_plain_inj: "plain_seg a \<Longrightarrow> plain_seg b \<Longrightarrow> path_join p a = path_join p b \<Longrightarrow> a = b"
  by (metis path_components_join append1_eq_conv path_comp.inject)

lemma path_starts_with_join: "plain_seg s \<Longrightarrow> path_starts_with (path_join p s) p"
  by (simp add: path_starts_with_def path_components_join)

end
