(* ===== verification/Extern.thy ===== *)
theory Extern
  imports Strings
begin

section \<open>The crates the code calls\<close>

text \<open>
  BLAKE3, XChaCha20-Poly1305, Argon2id, SHA-256, the \<open>hex\<close> crate and the operating system's
  random generator are not part of this repository.  They are one record argument \<open>X\<close> of every
  definition that uses them, and \<open>ext_ok X\<close> collects what their documentation promises: the
  output sizes, decryption inverts encryption under the same key, nonce and associated data,
  and hexadecimal text decodes back to the bytes it was made of.

  Nothing here says that a hash has no collisions: no function to 32 bytes is injective, and a
  theory that assumed it would prove everything.  Where the code relies on it, the statement
  names a set of plaintexts on which the hash is injective.
\<close>

record ext =
  x_keyed_hash :: "bytes \<Rightarrow> bytes \<Rightarrow> bytes"
  x_derive_key :: "string \<Rightarrow> bytes \<Rightarrow> bytes"
  x_seal :: "bytes \<Rightarrow> bytes \<Rightarrow> bytes \<Rightarrow> bytes \<Rightarrow> bytes option"
  x_open :: "bytes \<Rightarrow> bytes \<Rightarrow> bytes \<Rightarrow> bytes \<Rightarrow> bytes option"
  x_hex_enc :: "bytes \<Rightarrow> string"
  x_hex_dec :: "string \<Rightarrow> bytes option"
  x_random :: "nat \<Rightarrow> nat \<Rightarrow> bytes"
  x_sha256 :: "bytes \<Rightarrow> bytes"
  x_argon2 :: "bytes \<Rightarrow> bytes \<Rightarrow> bytes"

text \<open>\<open>x_seal key nonce aad msg\<close> and \<open>x_open key nonce aad ct\<close>; \<open>x_random n len\<close> is the \<open>n\<close>th
  draw of a process, of \<open>len\<close> bytes.  The cipher refuses a message past \<open>2^38 - 64\<close> bytes and
  accepts every other.\<close>

definition hex_digits :: string where
  "hex_digits = ''0123456789abcdef''"

definition seal_max :: nat where
  "seal_max = 2 ^ 38 - 64"

definition ext_ok :: "ext \<Rightarrow> bool" where
  "ext_ok X \<longleftrightarrow>
     (\<forall>k m. length (x_keyed_hash X k m) = 32)
   \<and> (\<forall>c m. length (x_derive_key X c m) = 32)
   \<and> (\<forall>k n a m ct. length k = 32 \<longrightarrow> length n = 24 \<longrightarrow>
        x_seal X k n a m = Some ct \<longrightarrow> x_open X k n a ct = Some m)
   \<and> (\<forall>k n a m. length k = 32 \<longrightarrow> length n = 24 \<longrightarrow> length m \<le> seal_max \<longrightarrow>
        x_seal X k n a m \<noteq> None)
   \<and> (\<forall>bs. x_hex_dec X (x_hex_enc X bs) = Some bs)
   \<and> (\<forall>bs. set (x_hex_enc X bs) \<subseteq> set hex_digits)
   \<and> (\<forall>bs. length (x_hex_enc X bs) = 2 * length bs)
   \<and> (\<forall>n len. length (x_random X n len) = len)
   \<and> (\<forall>m. length (x_sha256 X m) = 32)
   \<and> (\<forall>p s. length (x_argon2 X p s) = 32)"

lemma ext_ok_lengths:
  assumes "ext_ok X"
  shows "length (x_keyed_hash X k m) = 32" "length (x_derive_key X c m) = 32"
    "length (x_random X n len) = len" "length (x_sha256 X m) = 32"
    "length (x_argon2 X p m) = 32" "length (x_hex_enc X m) = 2 * length m"
  using assms by (simp_all add: ext_ok_def)

lemma ext_ok_open:
  "ext_ok X \<Longrightarrow> length k = 32 \<Longrightarrow> length n = 24 \<Longrightarrow> x_seal X k n a m = Some ct
     \<Longrightarrow> x_open X k n a ct = Some m"
  by (simp add: ext_ok_def)

lemma ext_ok_seal:
  assumes "ext_ok X" "length k = 32" "length n = 24" "length m \<le> seal_max"
  obtains ct where "x_seal X k n a m = Some ct"
proof -
  have "x_seal X k n a m \<noteq> None" using assms unfolding ext_ok_def by blast
  with that show ?thesis by blast
qed

lemma ext_ok_hex: "ext_ok X \<Longrightarrow> x_hex_dec X (x_hex_enc X bs) = Some bs"
  by (simp add: ext_ok_def)

lemma ext_ok_hex_inj: "ext_ok X \<Longrightarrow> x_hex_enc X a = x_hex_enc X b \<longleftrightarrow> a = b"
  by (metis ext_ok_hex option.inject)

lemma ext_ok_hex_digits: "ext_ok X \<Longrightarrow> c \<in> set (x_hex_enc X bs) \<Longrightarrow> c \<in> set hex_digits"
  unfolding ext_ok_def by blast

lemma hex_digit_facts:
  assumes "c \<in> set hex_digits"
  shows "c \<noteq> CHR ''.''" "c \<noteq> CHR ''/''" "plain_char c"
  using assms by (auto simp: hex_digits_def plain_char_def is_ws_def ws_table_def str_bytes_def)

lemma ext_ok_hex_plain: "ext_ok X \<Longrightarrow> list_all plain_char (x_hex_enc X bs)"
  using ext_ok_hex_digits hex_digit_facts(3) by (fastforce simp: list_all_iff)

text \<open>An instance, for the concrete runs: toy primitives that keep the promises.\<close>

definition demo_hex_enc :: "bytes \<Rightarrow> string" where
  "demo_hex_enc bs = concat (map (\<lambda>b. [digit_char (unat b div 16), digit_char (unat b mod 16)]) bs)"

fun demo_hex_dec :: "string \<Rightarrow> bytes option" where
  "demo_hex_dec [] = Some []"
| "demo_hex_dec [c] = None"
| "demo_hex_dec (c # d # s) =
     (case (digit_val 16 c, digit_val 16 d, demo_hex_dec s) of
        (Some a, Some b, Some r) \<Rightarrow> Some (of_nat (16 * a + b) # r)
      | _ \<Rightarrow> None)"

definition pad32 :: "bytes \<Rightarrow> bytes" where
  "pad32 m = take 32 (m @ replicate 32 0)"

lemma length_pad32 [simp]: "length (pad32 m) = 32"
  by (simp add: pad32_def)

definition demo_ext :: ext where
  "demo_ext =
     \<lparr>x_keyed_hash = (\<lambda>k m. pad32 m),
      x_derive_key = (\<lambda>c m. pad32 (m @ str_bytes c)),
      x_seal = (\<lambda>k n a m. if length m \<le> seal_max then Some m else None),
      x_open = (\<lambda>k n a ct. Some ct),
      x_hex_enc = demo_hex_enc,
      x_hex_dec = demo_hex_dec,
      x_random = (\<lambda>n len. replicate len (of_nat n)),
      x_sha256 = pad32,
      x_argon2 = (\<lambda>p s. pad32 (p @ s))\<rparr>"

lemma demo_hex_roundtrip: "demo_hex_dec (demo_hex_enc bs) = Some bs"
proof (induction bs)
  case Nil
  show ?case by (simp add: demo_hex_enc_def)
next
  case (Cons b bs)
  have b: "unat b < 256" using unsigned_less [of b, where ?'a = nat] by simp
  then have "unat b div 16 < 16" by (simp add: less_mult_imp_div_less)
  then have "digit_val 16 (digit_char (unat b div 16)) = Some (unat b div 16)"
    "digit_val 16 (digit_char (unat b mod 16)) = Some (unat b mod 16)"
    by (simp_all add: digit_val_digit_char)
  with Cons show ?case by (simp add: demo_hex_enc_def)
qed

lemma digit_char_hex: "n < 16 \<Longrightarrow> digit_char n \<in> set hex_digits"
proof -
  have "list_all (\<lambda>n. digit_char n \<in> set hex_digits) [0..<16]" by code_simp
  then show "n < 16 \<Longrightarrow> digit_char n \<in> set hex_digits" by (simp add: list_all_iff)
qed

lemma demo_hex_digits: "set (demo_hex_enc bs) \<subseteq> set hex_digits"
proof -
  have "digit_char (unat b div 16) \<in> set hex_digits" for b :: byte
    using unsigned_less [of b, where ?'a = nat]
    by (intro digit_char_hex) (simp add: less_mult_imp_div_less)
  moreover have "digit_char (unat b mod 16) \<in> set hex_digits" for b :: byte
    by (intro digit_char_hex) simp
  ultimately show ?thesis by (auto simp: demo_hex_enc_def)
qed

lemma demo_ext_ok: "ext_ok demo_ext"
proof -
  have "length (demo_hex_enc bs) = 2 * length bs" for bs
    by (induction bs) (simp_all add: demo_hex_enc_def)
  with demo_hex_digits show ?thesis
    by (simp add: ext_ok_def demo_ext_def demo_hex_roundtrip)
qed

end
