(* ===== verification/Codec.thy ===== *)
theory Codec
  imports Strings
begin

section \<open>The contract of a codec\<close>

text \<open>
  Every format of the repository (audit records, objects, keyslots, wire messages) is a writer
  and a reader that must agree.  The interface \<open>prefix_codec\<close> states the one law each pair has
  to give, that the reader consumes exactly what the writer produced and leaves the rest, and
  derives once what its clients use: the encoding is injective and prefix free, and a counted
  sequence of items is read back item by item.
\<close>

locale prefix_codec =
  fixes enc :: "'a \<Rightarrow> bytes"
    and dec :: "bytes \<Rightarrow> 'e + 'a \<times> bytes"
    and wf :: "'a \<Rightarrow> bool"
  assumes dec_enc: "wf x \<Longrightarrow> dec (enc x @ rest) = Inr (x, rest)"
begin

lemma dec_enc_all: "wf x \<Longrightarrow> dec (enc x) = Inr (x, [])"
  using dec_enc [of x "[]"] by simp

lemma enc_prefix_free:
  assumes "wf x" and "wf y" and "enc x @ r = enc y @ s"
  shows "x = y \<and> r = s"
proof -
  have "Inr (x, r) = dec (enc x @ r)" using assms(1) by (simp add: dec_enc)
  also have "\<dots> = Inr (y, s)" using assms(2,3) by (simp add: dec_enc)
  finally show ?thesis by simp
qed

lemma enc_inj: "wf x \<Longrightarrow> wf y \<Longrightarrow> enc x = enc y \<Longrightarrow> x = y"
  using enc_prefix_free [of x y "[]" "[]"] by simp

lemma dec_times:
  "list_all wf xs \<Longrightarrow> rd_times (length xs) dec (concat (map enc xs) @ rest) = Inr (xs, rest)"
  by (induction xs) (simp_all add: dec_enc)

lemma dec_bind: "wf x \<Longrightarrow> rd_bind dec f (enc x @ rest) = f x rest"
  by (simp add: rd_bind_def dec_enc)

end

text \<open>A codec whose reader accepts nothing but encodings: what it reads, it would write.\<close>

locale canonical_codec = prefix_codec +
  assumes enc_dec: "dec bs = Inr (x, rest) \<Longrightarrow> bs = enc x @ rest \<and> wf x"
begin

lemma dec_iff: "dec bs = Inr (x, rest) \<longleftrightarrow> bs = enc x @ rest \<and> wf x"
  using enc_dec dec_enc by blast

lemma dec_deterministic: "dec bs = Inr (x, r) \<Longrightarrow> bs = enc y @ s \<Longrightarrow> wf y \<Longrightarrow> x = y \<and> r = s"
  using dec_enc by simp

lemma dec_shrinks: "dec bs = Inr (x, rest) \<Longrightarrow> length rest \<le> length bs"
  using enc_dec by fastforce

end

section \<open>Readers of fixed-width fields\<close>

text \<open>
  The primitives the three hand-rolled readers (\<open>weave::codec\<close>, \<open>lifestream::object\<close>,
  \<open>constellation::net::wire\<close>) share; \<open>e\<close> is the error each reports when the input ends.
\<close>

definition rd_byte :: "'e \<Rightarrow> ('e, byte) reader" where
  "rd_byte e = rd_bind (rd_take e 1) (\<lambda>bs. rd_ret (hd bs))"

definition rd_be :: "'e \<Rightarrow> nat \<Rightarrow> ('e, 'a::len word) reader" where
  "rd_be e n = rd_bind (rd_take e n) (\<lambda>bs. rd_ret (from_be bs))"

lemma rd_byte_Cons [simp]: "rd_byte e (b # bs) = Inr (b, bs)"
  by (simp add: rd_byte_def rd_bind_def rd_take_def)

lemma rd_byte_Nil [simp]: "rd_byte e [] = Inl e"
  by (simp add: rd_byte_def rd_bind_def rd_take_def)

lemma rd_bind_byte [codec_simps]: "rd_bind (rd_byte e) f (b # bs) = f b bs"
  by (simp add: rd_bind_def)

lemma rd_byte_Inr_iff: "rd_byte e bs = Inr (b, rest) \<longleftrightarrow> bs = b # rest"
  by (cases bs) auto

lemma rd_be_be_bytes:
  assumes "LENGTH('a::len) = 8 * n"
  shows "rd_be e n (be_bytes n (w :: 'a word) @ rest) = Inr (w, rest)"
  by (simp add: rd_be_def rd_bind_def rd_take_def from_be_be_bytes [OF assms])

lemma be_bytes_from_be:
  assumes "LENGTH('a::len) = 8 * length bs"
  shows "be_bytes (length bs) (from_be bs :: 'a word) = bs"
proof -
  have "be_nat bs < 256 ^ length bs"
    using le_nat_bound [of "rev bs"] by (simp add: be_nat_def)
  also have "(256::nat) ^ length bs = 2 ^ LENGTH('a)"
    by (simp add: assms power_mult)
  finally have "unat (from_be bs :: 'a word) = be_nat bs"
    by (simp add: from_be_def unat_of_nat_len)
  then show ?thesis
    using le_of_nat_le_nat [of "rev bs"] by (simp add: be_bytes_def be_of_nat_def be_nat_def)
qed

lemma rd_be_codec:
  assumes "LENGTH('a::len) = 8 * n"
  shows "canonical_codec (be_bytes n :: 'a word \<Rightarrow> bytes) (rd_be e n) (\<lambda>_. True)"
proof
  fix w :: "'a word" and rest
  show "rd_be e n (be_bytes n w @ rest) = Inr (w, rest)"
    by (rule rd_be_be_bytes [OF assms])
next
  fix bs rest and w :: "'a word"
  assume "rd_be e n bs = Inr (w, rest)"
  then obtain xs where "bs = xs @ rest" "length xs = n" "w = from_be xs"
    by (auto simp: rd_be_def rd_bind_Inr_iff rd_take_Inr_iff)
  then show "bs = be_bytes n w @ rest \<and> True"
    using be_bytes_from_be [of xs, where 'a = 'a] assms by simp
qed

interpretation be16: canonical_codec "be_bytes 2 :: u16 \<Rightarrow> bytes" "rd_be e 2" "\<lambda>_. True" for e :: 'e
  by (rule rd_be_codec) simp

interpretation be32: canonical_codec "be_bytes 4 :: u32 \<Rightarrow> bytes" "rd_be e 4" "\<lambda>_. True" for e :: 'e
  by (rule rd_be_codec) simp

interpretation be64: canonical_codec "be_bytes 8 :: u64 \<Rightarrow> bytes" "rd_be e 8" "\<lambda>_. True" for e :: 'e
  by (rule rd_be_codec) simp

lemmas be_field_simps [codec_simps] =
  be16.dec_enc [OF TrueI] be32.dec_enc [OF TrueI] be64.dec_enc [OF TrueI]
  be16.dec_bind [OF TrueI] be32.dec_bind [OF TrueI] be64.dec_bind [OF TrueI]

lemma rd_bind_take [codec_simps]: "length xs = n \<Longrightarrow> rd_bind (rd_take e n) f (xs @ ys) = f xs ys"
  by (simp add: rd_bind_def rd_take_def)

text \<open>A length-prefixed run of bytes and a length-prefixed UTF-8 string, with a four-byte
  count (\<open>len() as u32\<close>, which wraps past \<open>2^32\<close>).\<close>

definition put_bytes32 :: "bytes \<Rightarrow> bytes" where
  "put_bytes32 bs = be_bytes 4 (of_nat (length bs) :: u32) @ bs"

definition put_str32 :: "string \<Rightarrow> bytes" where
  "put_str32 s = put_bytes32 (str_bytes s)"

definition rd_bytes32 :: "'e \<Rightarrow> ('e, bytes) reader" where
  "rd_bytes32 e = rd_bind (rd_be e 4) (\<lambda>n :: u32. rd_take e (unat n))"

definition rd_str32 :: "'e \<Rightarrow> 'e \<Rightarrow> ('e, string) reader" where
  "rd_str32 e bad = rd_bind (rd_bytes32 e) (\<lambda>bs. rd_lift (ok_or bad (from_utf8 bs)))"

definition len32 :: "'a list \<Rightarrow> bool" where
  "len32 xs \<longleftrightarrow> length xs < 2 ^ 32"

definition wf_str32 :: "string \<Rightarrow> bool" where
  "wf_str32 s \<longleftrightarrow> utf8_str s \<and> len32 s"

interpretation bytes32: canonical_codec put_bytes32 "rd_bytes32 e" len32 for e :: 'e
proof
  fix bs :: bytes and rest
  assume "len32 bs"
  then show "rd_bytes32 e (put_bytes32 bs @ rest) = Inr (bs, rest)"
    by (simp add: rd_bytes32_def put_bytes32_def codec_simps unat_of_nat_len len32_def)
next
  fix bs x rest
  assume "rd_bytes32 e bs = Inr (x, rest)"
  then obtain n :: u32 where bs: "bs = be_bytes 4 n @ x @ rest" and n: "length x = unat n"
    by (auto simp: rd_bytes32_def rd_bind_Inr_iff rd_take_Inr_iff be32.dec_iff)
  from n have "of_nat (length x) = n" by simp
  moreover have "length x < 2 ^ 32" using n unsigned_less [of n, where ?'a = nat] by simp
  ultimately show "bs = put_bytes32 x @ rest \<and> len32 x"
    using bs by (simp add: put_bytes32_def len32_def)
qed

interpretation str32: canonical_codec put_str32 "rd_str32 e bad" wf_str32 for e bad :: 'e
proof
  fix s rest
  assume "wf_str32 s"
  then show "rd_str32 e bad (put_str32 s @ rest) = Inr (s, rest)"
    by (simp add: rd_str32_def put_str32_def wf_str32_def len32_def bytes32.dec_bind
        from_utf8_str_bytes)
next
  fix bs s rest
  assume "rd_str32 e bad bs = Inr (s, rest)"
  then obtain x where "bs = put_bytes32 x @ rest" "len32 x" "from_utf8 x = Some s"
    by (auto simp: rd_str32_def rd_bind_Inr_iff bytes32.dec_iff rd_lift_Inr_iff)
  then show "bs = put_str32 s @ rest \<and> wf_str32 s"
    by (auto simp: put_str32_def wf_str32_def len32_def utf8_str_def from_utf8_Some_iff)
qed

end
