(* ===== verification/Objects.thy ===== *)
theory Objects
  imports Codec
begin

section \<open>Lifestream objects and their encoding\<close>

text \<open>
  \<open>crates/lifestream/src/object.rs\<close> and \<open>error.rs\<close>: the four object kinds, their canonical byte
  encoding, the decoder, and the links of an object.  An \<open>ObjectId\<close> is its 32 bytes.  The model
  keeps the casts of the encoder (\<open>len() as u16\<close>, \<open>as u32\<close>, \<open>as u8\<close>), so the round trip is proved
  for the objects whose lengths fit, which is what \<open>wf_object\<close> says.
\<close>

datatype ls_error =
    LsIo string
  | LsCrypto
  | LsNotFound string
  | LsCorrupt string
  | LsStore string

definition ls_error_text :: "ls_error \<Rightarrow> string" where
  "ls_error_text e =
     (case e of
        LsIo s \<Rightarrow> ''io: '' @ s
      | LsCrypto \<Rightarrow> ''decrypt or verify failed''
      | LsNotFound s \<Rightarrow> ''object not found: '' @ s
      | LsCorrupt s \<Rightarrow> ''corrupt object: '' @ s
      | LsStore s \<Rightarrow> ''store: '' @ s)"

type_synonym object_id = bytes

datatype node_kind = KFile | KTree | KSymlink

definition node_tag :: "node_kind \<Rightarrow> byte" where
  "node_tag k = (case k of KFile \<Rightarrow> 0 | KTree \<Rightarrow> 1 | KSymlink \<Rightarrow> 2)"

definition node_from_tag :: "byte \<Rightarrow> ls_error + node_kind" where
  "node_from_tag t =
     (if t = 0 then Inr KFile else if t = 1 then Inr KTree else if t = 2 then Inr KSymlink
      else Inl (LsCorrupt (''bad node kind '' @ show_nat (unat t))))"

record tree_entry =
  te_name :: string
  te_kind :: node_kind
  te_id :: object_id
  te_mode :: u32

record generation =
  gen_root :: object_id
  gen_parents :: "object_id list"
  gen_time :: u64
  gen_label :: string
  gen_meta :: string

datatype object =
    Chunk bytes
  | File "object_id list"
  | Tree "tree_entry list"
  | Gen generation

subsection \<open>Encoding\<close>

definition put_tree_entry :: "tree_entry \<Rightarrow> bytes" where
  "put_tree_entry e =
     be_bytes 2 (of_nat (length (te_name e)) :: u16) @ str_bytes (te_name e)
     @ node_tag (te_kind e) # be_bytes 4 (te_mode e) @ te_id e"

definition put_generation :: "generation \<Rightarrow> bytes" where
  "put_generation g =
     gen_root g @ of_nat (length (gen_parents g)) # concat (gen_parents g)
     @ be_bytes 8 (gen_time g) @ put_str32 (gen_label g) @ put_str32 (gen_meta g)"

definition object_encode :: "object \<Rightarrow> bytes" where
  "object_encode ob =
     (case ob of
        Chunk d \<Rightarrow> 1 # d
      | File chunks \<Rightarrow> 2 # be_bytes 4 (of_nat (length chunks) :: u32) @ concat chunks
      | Tree entries \<Rightarrow>
          3 # be_bytes 4 (of_nat (length entries) :: u32) @ concat (map put_tree_entry entries)
      | Gen g \<Rightarrow> 4 # put_generation g)"

subsection \<open>Decoding\<close>

definition ob_end :: ls_error where
  "ob_end = LsCorrupt ''unexpected end of object''"

definition rd_id :: "'e \<Rightarrow> ('e, object_id) reader" where
  "rd_id e = rd_take e 32"

definition ob_string :: "nat \<Rightarrow> string \<Rightarrow> (ls_error, string) reader" where
  "ob_string n msg = rd_bind (rd_take ob_end n) (\<lambda>bs. rd_lift (ok_or (LsCorrupt msg) (from_utf8 bs)))"

definition rd_tree_entry :: "(ls_error, tree_entry) reader" where
  "rd_tree_entry =
     rd_bind (rd_be ob_end 2) (\<lambda>nl :: u16.
     rd_bind (ob_string (unat nl) ''name not utf8'') (\<lambda>name.
     rd_bind (rd_byte ob_end) (\<lambda>t.
     rd_bind (rd_lift (node_from_tag t)) (\<lambda>kind.
     rd_bind (rd_be ob_end 4) (\<lambda>mode.
     rd_bind (rd_id ob_end) (\<lambda>i.
     rd_ret \<lparr>te_name = name, te_kind = kind, te_id = i, te_mode = mode\<rparr>))))))"

definition rd_generation :: "(ls_error, generation) reader" where
  "rd_generation =
     rd_bind (rd_id ob_end) (\<lambda>root.
     rd_bind (rd_byte ob_end) (\<lambda>pc.
     rd_bind (rd_times (unat pc) (rd_id ob_end)) (\<lambda>parents.
     rd_bind (rd_be ob_end 8) (\<lambda>time.
     rd_bind (rd_be ob_end 4) (\<lambda>ll :: u32.
     rd_bind (ob_string (unat ll) ''label not utf8'') (\<lambda>label.
     rd_bind (rd_be ob_end 4) (\<lambda>ml :: u32.
     rd_bind (ob_string (unat ml) ''meta not utf8'') (\<lambda>meta.
     rd_ret \<lparr>gen_root = root, gen_parents = parents, gen_time = time,
             gen_label = label, gen_meta = meta\<rparr>))))))))"

definition rd_object :: "(ls_error, object) reader" where
  "rd_object =
     rd_bind (rd_byte ob_end) (\<lambda>tag.
       if tag = 1 then (\<lambda>bs. Inr (Chunk bs, []))
       else if tag = 2 then
         rd_bind (rd_be ob_end 4) (\<lambda>n :: u32.
         rd_bind (rd_times (unat n) (rd_id ob_end)) (\<lambda>chunks. rd_ret (File chunks)))
       else if tag = 3 then
         rd_bind (rd_be ob_end 4) (\<lambda>n :: u32.
         rd_bind (rd_times (unat n) rd_tree_entry) (\<lambda>entries. rd_ret (Tree entries)))
       else if tag = 4 then
         rd_bind rd_generation (\<lambda>g. rd_ret (Gen g))
       else rd_fail (LsCorrupt (''bad object tag '' @ show_nat (unat tag))))"

text \<open>\<open>Object::decode\<close> does not check that the input is used up.\<close>

definition object_decode :: "bytes \<Rightarrow> ls_error + object" where
  "object_decode buf = res_bind (rd_object buf) (\<lambda>(ob, _). Inr ob)"

subsection \<open>Links\<close>

definition object_links :: "object \<Rightarrow> object_id list" where
  "object_links ob =
     (case ob of
        Chunk _ \<Rightarrow> []
      | File chunks \<Rightarrow> chunks
      | Tree entries \<Rightarrow> map te_id entries
      | Gen g \<Rightarrow> gen_root g # gen_parents g)"

subsection \<open>Well-formed objects\<close>

definition wf_id :: "object_id \<Rightarrow> bool" where
  "wf_id i \<longleftrightarrow> length i = 32"

definition wf_tree_entry :: "tree_entry \<Rightarrow> bool" where
  "wf_tree_entry e \<longleftrightarrow> utf8_str (te_name e) \<and> length (te_name e) < 2 ^ 16 \<and> wf_id (te_id e)"

definition wf_generation :: "generation \<Rightarrow> bool" where
  "wf_generation g \<longleftrightarrow>
     wf_id (gen_root g) \<and> length (gen_parents g) < 2 ^ 8 \<and> list_all wf_id (gen_parents g)
     \<and> wf_str32 (gen_label g) \<and> wf_str32 (gen_meta g)"

definition wf_object :: "object \<Rightarrow> bool" where
  "wf_object ob =
     (case ob of
        Chunk _ \<Rightarrow> True
      | File chunks \<Rightarrow> len32 chunks \<and> list_all wf_id chunks
      | Tree entries \<Rightarrow> len32 entries \<and> list_all wf_tree_entry entries
      | Gen g \<Rightarrow> wf_generation g)"

subsection \<open>The codecs agree\<close>

lemma node_from_tag_tag [simp]: "node_from_tag (node_tag k) = Inr k"
  by (cases k) (simp_all add: node_tag_def node_from_tag_def)

lemma node_tag_from_tag: "node_from_tag t = Inr k \<Longrightarrow> node_tag k = t"
  by (auto simp: node_tag_def node_from_tag_def split: if_splits)

interpretation id_codec: canonical_codec "\<lambda>i :: object_id. i" "rd_id e" wf_id for e :: 'e
  by unfold_locales (auto simp: rd_id_def wf_id_def rd_take_Inr_iff rd_take_exact)

lemma ob_string_exact:
  "utf8_str s \<Longrightarrow> length s = n \<Longrightarrow> rd_bind (ob_string n msg) f (str_bytes s @ rest) = f s rest"
  by (simp add: ob_string_def rd_bind_def rd_take_def from_utf8_str_bytes)

lemma ob_string_Inr_iff:
  "ob_string n msg bs = Inr (s, rest) \<longleftrightarrow> bs = str_bytes s @ rest \<and> utf8_str s \<and> length s = n"
  by (auto simp: ob_string_def rd_bind_Inr_iff rd_take_Inr_iff rd_lift_Inr_iff from_utf8_Some_iff
      utf8_str_def)

interpretation entry_codec: canonical_codec put_tree_entry rd_tree_entry wf_tree_entry
proof
  fix e :: tree_entry and rest
  assume "wf_tree_entry e"
  then show "rd_tree_entry (put_tree_entry e @ rest) = Inr (e, rest)"
    by (simp add: rd_tree_entry_def put_tree_entry_def wf_tree_entry_def codec_simps
        unat_of_nat_len ob_string_exact id_codec.dec_bind)
next
  fix bs e rest
  assume "rd_tree_entry bs = Inr (e, rest)"
  then obtain nl :: u16 and t k where
    bs: "bs = be_bytes 2 nl @ str_bytes (te_name e) @ t # be_bytes 4 (te_mode e) @ te_id e @ rest"
    and wf: "utf8_str (te_name e)" "length (te_name e) = unat nl" "wf_id (te_id e)"
    and t: "node_from_tag t = Inr (te_kind e)"
    by (auto simp: rd_tree_entry_def rd_bind_Inr_iff rd_byte_Inr_iff rd_lift_Inr_iff
        ob_string_Inr_iff be16.dec_iff be32.dec_iff id_codec.dec_iff)
  moreover have "unat nl < 2 ^ 16" using unsigned_less [of nl, where ?'a = nat] by simp
  ultimately show "bs = put_tree_entry e @ rest \<and> wf_tree_entry e"
    by (simp add: put_tree_entry_def wf_tree_entry_def node_tag_from_tag)
qed

lemma concat_id: "concat (map (\<lambda>i. i) xs) = concat xs"
  by simp

interpretation gen_codec: prefix_codec put_generation rd_generation wf_generation
proof
  fix g :: generation and rest
  assume wf: "wf_generation g"
  have ids: "rd_bind (rd_times (length (gen_parents g)) (rd_id ob_end)) f (concat (gen_parents g) @ r) = f (gen_parents g) r"
    for f :: "object_id list \<Rightarrow> (ls_error, generation) reader" and r
    using wf id_codec.dec_times [of "gen_parents g" ob_end r]
    by (simp add: rd_bind_def wf_generation_def)
  show "rd_generation (put_generation g @ rest) = Inr (g, rest)"
    using wf
    by (simp add: rd_generation_def put_generation_def wf_generation_def wf_str32_def len32_def
        put_str32_def put_bytes32_def codec_simps id_codec.dec_bind unat_of_nat_len ids
        ob_string_exact)
qed

lemma rd_object_encode: "wf_object ob \<Longrightarrow> \<exists>rest. rd_object (object_encode ob) = Inr (ob, rest)"
proof (cases ob)
  case (File chunks)
  assume "wf_object ob"
  with File show ?thesis
    using id_codec.dec_times [of chunks ob_end "[]"]
    by (simp add: rd_object_def object_encode_def wf_object_def codec_simps unat_of_nat_len
        len32_def rd_bind_def)
next
  case (Tree entries)
  assume "wf_object ob"
  with Tree show ?thesis
    using entry_codec.dec_times [of entries "[]"]
    by (simp add: rd_object_def object_encode_def wf_object_def codec_simps unat_of_nat_len
        len32_def rd_bind_def)
next
  case (Gen g)
  assume "wf_object ob"
  with Gen show ?thesis
    using gen_codec.dec_enc_all [of g]
    by (simp add: rd_object_def object_encode_def wf_object_def codec_simps rd_bind_def)
qed (simp add: rd_object_def object_encode_def codec_simps)

lemma object_decode_encode: "wf_object ob \<Longrightarrow> object_decode (object_encode ob) = Inr ob"
  using rd_object_encode [of ob] by (auto simp: object_decode_def)

lemma object_encode_inj: "wf_object a \<Longrightarrow> wf_object b \<Longrightarrow> object_encode a = object_encode b \<Longrightarrow> a = b"
  by (metis object_decode_encode sum.inject(2))

end
