(* ===== verification/Capability.thy ===== *)
theory Capability
  imports Extern Objects
begin

section \<open>Capabilities: rights, resources and grants\<close>

text \<open>
  \<open>crates/weave/src/capability.rs\<close> and \<open>error.rs\<close>.  \<open>Rights\<close> is its \<open>u32\<close> of flag bits; a
  \<open>GrantId\<close> is its 16 bytes and a \<open>PrincipalId\<close> its string.  A file resource holds a path,
  which need not be UTF-8, and covers what is beneath it component by component.
\<close>

datatype wv_error =
    WvLifestream ls_error
  | WvDenied string
  | WvCorrupt string

subsection \<open>Rights\<close>

type_synonym rights = u32

definition rights_none :: rights where "rights_none = 0"
definition rights_read :: rights where "rights_read = 1"
definition rights_write :: rights where "rights_write = 2"
definition rights_exec :: rights where "rights_exec = 4"

definition rights_from_bits :: "u32 \<Rightarrow> rights" where
  "rights_from_bits b = b AND 7"

definition rights_is_empty :: "rights \<Rightarrow> bool" where
  "rights_is_empty r \<longleftrightarrow> r = 0"

definition rights_contains :: "rights \<Rightarrow> rights \<Rightarrow> bool" where
  "rights_contains r other \<longleftrightarrow> r AND other = other"

definition rights_intersect :: "rights \<Rightarrow> rights \<Rightarrow> rights" where
  "rights_intersect r other = r AND other"

definition rights_of_char :: "char \<Rightarrow> rights option" where
  "rights_of_char c =
     (if c = CHR ''r'' then Some rights_read
      else if c = CHR ''w'' then Some rights_write
      else if c = CHR ''x'' then Some rights_exec
      else if c = CHR ''-'' then Some rights_none
      else None)"

fun rights_parse_from :: "rights \<Rightarrow> string \<Rightarrow> rights option" where
  "rights_parse_from r [] = Some r"
| "rights_parse_from r (c # s) =
     (case rights_of_char c of None \<Rightarrow> None | Some q \<Rightarrow> rights_parse_from (r OR q) s)"

definition rights_parse :: "string \<Rightarrow> rights option" where
  "rights_parse s = rights_parse_from rights_none s"

definition rights_show :: "rights \<Rightarrow> string" where
  "rights_show r =
     (if rights_is_empty r then ''-''
      else (if rights_contains r rights_read then ''r'' else [])
         @ (if rights_contains r rights_write then ''w'' else [])
         @ (if rights_contains r rights_exec then ''x'' else []))"

subsection \<open>Resources\<close>

datatype resource =
    RFile string
  | RNet string u16
  | RDevice string
  | RService string string

definition res_covers :: "resource \<Rightarrow> resource \<Rightarrow> bool" where
  "res_covers g req =
     (case (g, req) of
        (RFile a, RFile b) \<Rightarrow> path_eq b a \<or> path_starts_with b a
      | (RNet h1 p1, RNet h2 p2) \<Rightarrow> h1 = h2 \<and> p1 = p2
      | (RDevice a, RDevice b) \<Rightarrow> a = b
      | (RService n1 a1, RService n2 a2) \<Rightarrow> n1 = n2 \<and> a1 = a2
      | _ \<Rightarrow> False)"

definition res_parse :: "string \<Rightarrow> resource option" where
  "res_parse s =
     (case strip_pre ''file:'' s of
        Some p \<Rightarrow> Some (RFile p)
      | None \<Rightarrow>
     (case strip_pre ''net:'' s of
        Some rest \<Rightarrow>
          (case rsplit_once CHR '':'' rest of
             None \<Rightarrow> None
           | Some (host, port) \<Rightarrow>
               (case parse_radix 10 65536 port of
                  None \<Rightarrow> None
                | Some n \<Rightarrow> Some (RNet host (of_nat n))))
      | None \<Rightarrow>
     (case strip_pre ''dev:'' s of
        Some name \<Rightarrow> Some (RDevice name)
      | None \<Rightarrow>
     (case strip_pre ''svc:'' s of
        Some rest \<Rightarrow>
          (case split_once CHR ''/'' rest of
             None \<Rightarrow> None
           | Some (name, action) \<Rightarrow> Some (RService name action))
      | None \<Rightarrow> None))))"

text \<open>\<open>Path::display\<close> shows ill-formed bytes as U+FFFD.\<close>

definition res_show :: "resource \<Rightarrow> string" where
  "res_show r =
     (case r of
        RFile path \<Rightarrow> ''file:'' @ to_string_lossy path
      | RNet host port \<Rightarrow> ''net:'' @ host @ '':'' @ show_nat (unat port)
      | RDevice name \<Rightarrow> ''dev:'' @ name
      | RService name action \<Rightarrow> ''svc:'' @ name @ ''/'' @ action)"

subsection \<open>Grants and handles\<close>

type_synonym grant_id = bytes

definition grant_random :: "ext \<Rightarrow> nat \<Rightarrow> grant_id" where
  "grant_random X n = x_random X n 16"

definition grant_to_hex :: "ext \<Rightarrow> grant_id \<Rightarrow> string" where
  "grant_to_hex X g = x_hex_enc X g"

definition grant_from_hex :: "ext \<Rightarrow> string \<Rightarrow> grant_id option" where
  "grant_from_hex X s =
     (case x_hex_dec X s of
        None \<Rightarrow> None
      | Some v \<Rightarrow> if length v \<noteq> 16 then None else Some v)"

record limits =
  lim_expires :: "u64 option"
  lim_max_uses :: "u32 option"

definition limits_none :: limits where
  "limits_none = \<lparr>lim_expires = None, lim_max_uses = None\<rparr>"

definition limits_until :: "u64 \<Rightarrow> limits" where
  "limits_until e = \<lparr>lim_expires = Some e, lim_max_uses = None\<rparr>"

definition limits_uses :: "u32 \<Rightarrow> limits" where
  "limits_uses n = \<lparr>lim_expires = None, lim_max_uses = Some n\<rparr>"

definition limits_with_expiry :: "limits \<Rightarrow> u64 \<Rightarrow> limits" where
  "limits_with_expiry l e = l\<lparr>lim_expires := Some e\<rparr>"

definition limits_with_uses :: "limits \<Rightarrow> u32 \<Rightarrow> limits" where
  "limits_with_uses l n = l\<lparr>lim_max_uses := Some n\<rparr>"

record grant =
  gr_id :: grant_id
  gr_principal :: string
  gr_resource :: resource
  gr_rights :: rights
  gr_granted :: u64
  gr_expires :: "u64 option"
  gr_max_uses :: "u32 option"

record capability =
  cap_grant :: grant_id
  cap_secret :: bytes

record lease =
  le_grant :: grant_id
  le_resource :: resource
  le_rights :: rights

datatype grant_status = Active | Revoked | Expired

definition status_show :: "grant_status \<Rightarrow> string" where
  "status_show st =
     (case st of Active \<Rightarrow> ''active'' | Revoked \<Rightarrow> ''revoked'' | Expired \<Rightarrow> ''expired'')"

record grant_info =
  gi_id :: grant_id
  gi_principal :: string
  gi_resource :: resource
  gi_rights :: rights
  gi_granted :: u64
  gi_expires :: "u64 option"
  gi_max_uses :: "u32 option"
  gi_uses :: u32
  gi_status :: grant_status

subsection \<open>Rights form a Boolean lattice of three bits\<close>

lemma rights_contains_refl [simp]: "rights_contains r r"
  by (simp add: rights_contains_def)

lemma rights_contains_trans: "rights_contains a b \<Longrightarrow> rights_contains b c \<Longrightarrow> rights_contains a c"
  unfolding rights_contains_def by (metis and.assoc)

lemma rights_contains_intersect:
  "rights_contains q (rights_intersect r q)" "rights_contains r (rights_intersect r q)"
  by (simp_all add: rights_contains_def rights_intersect_def ac_simps)

lemma rights_from_bits_small: "r < 8 \<Longrightarrow> rights_from_bits r = r"
proof -
  assume "r < 8"
  moreover have "r AND 7 = take_bit 3 r" by (simp add: take_bit_eq_mask mask_eq_exp_minus_1)
  ultimately show ?thesis
    by (simp add: rights_from_bits_def take_bit_word_eq_self word_less_nat_alt word_unat_eq_iff
        unsigned_take_bit_eq take_bit_nat_eq_self)
qed

lemma rights_from_bits_lt: "rights_from_bits r < 8"
  using word_and_le1 [of r 7] by (simp add: rights_from_bits_def word_le_nat_alt word_less_nat_alt)

lemma rights_cases:
  assumes "r < 8"
  shows "r \<in> {0, 1, 2, 3, 4, 5, 6, 7 :: u32}"
proof -
  have "unat r < 8" using assms by (simp add: word_less_nat_alt)
  then have "unat r \<in> {0, 1, 2, 3, 4, 5, 6, 7}" by (simp only: insert_iff empty_iff) arith
  then have "(of_nat (unat r) :: u32) \<in> of_nat ` {0, 1, 2, 3, 4, 5, 6, 7}" by (rule imageI)
  then show ?thesis by simp
qed

lemma rights_parse_show: "r < 8 \<Longrightarrow> rights_parse (rights_show r) = Some r"
  by (drule rights_cases)
    (auto simp: rights_parse_def rights_show_def rights_is_empty_def rights_contains_def
      rights_of_char_def rights_none_def rights_read_def rights_write_def rights_exec_def)

subsection \<open>Cover is a preorder\<close>

lemma res_covers_refl [simp]: "res_covers r r"
  by (cases r) (simp_all add: res_covers_def)

lemma res_covers_trans: "res_covers a b \<Longrightarrow> res_covers b c \<Longrightarrow> res_covers a c"
  by (cases a; cases b; cases c)
    (auto simp: res_covers_def path_eq_def path_starts_with_def intro: prefix_order.trans)

lemma res_covers_file:
  "res_covers (RFile a) r \<longleftrightarrow> (\<exists>b. r = RFile b \<and> prefix (path_components a) (path_components b))"
  by (cases r) (auto simp: res_covers_def path_eq_def path_starts_with_def)

lemma res_covers_exact:
  "\<not> (\<exists>a. g = RFile a) \<Longrightarrow> res_covers g r \<longleftrightarrow> r = g"
  by (cases g; cases r) (auto simp: res_covers_def)

subsection \<open>The text form of a resource\<close>

definition res_text_ok :: "resource \<Rightarrow> bool" where
  "res_text_ok r =
     (case r of
        RFile path \<Rightarrow> utf8_str path
      | RService name _ \<Rightarrow> CHR ''/'' \<notin> set name
      | _ \<Rightarrow> True)"

lemma show_nat_digits: "c \<in> set (show_nat n) \<Longrightarrow> \<exists>d < 10. c = digit_char d"
proof (induction n rule: show_nat.induct)
  case (1 n)
  then show ?case
    by (cases "n < 10") (auto simp: show_nat.simps [of n] intro: exI [of _ "n mod 10"])
qed

lemma digit_char_not_colon: "d < 10 \<Longrightarrow> digit_char d \<noteq> CHR '':''"
proof
  assume d: "d < 10" and "digit_char d = CHR '':''"
  then have "digit_val 10 CHR '':'' = Some d" using digit_val_digit_char [of d 10] by simp
  then show False by (simp add: digit_val_def)
qed

lemma res_parse_show: "res_text_ok r \<Longrightarrow> res_parse (res_show r) = Some r"
proof (cases r)
  case (RNet host port)
  have "CHR '':'' \<notin> set (show_nat (unat port))"
    using show_nat_digits digit_char_not_colon by metis
  then have "rsplit_once CHR '':'' (host @ CHR '':'' # show_nat (unat port))
      = Some (host, show_nat (unat port))"
    by (rule rsplit_once_append)
  moreover have "parse_radix 10 65536 (show_nat (unat port)) = Some (unat port)"
    using unsigned_less [of port, where ?'a = nat] by (intro parse_show_nat) simp
  ultimately show ?thesis using RNet by (simp add: res_parse_def res_show_def)
next
  case (RService name action)
  assume "res_text_ok r"
  with RService show ?thesis
    by (simp add: res_parse_def res_show_def res_text_ok_def split_once_append)
qed (auto simp: res_parse_def res_show_def res_text_ok_def to_string_lossy_id)

end
