(* ===== verification/Store.thy ===== *)
theory Store
  imports Extern Objects "HOL-Library.AList"
begin

section \<open>The encrypted object store\<close>

text \<open>
  \<open>crates/lifestream/src/crypto.rs\<close> and \<open>store.rs\<close>.  The state of a store is its two derived
  keys and what its directory holds: the marker file, the files of \<open>objects/\<close> as an
  association list from (shard, rest) to sealed record, and the text files of \<open>refs/\<close>.  Two
  counters stand for the draws of the random generator and for \<open>TMP_SEQ\<close>.

  File system calls are taken to succeed except for a missing file, which the code tells apart
  from every other failure; ref names are plain file names.
\<close>

record ls_keys =
  key_addr :: bytes
  key_enc :: bytes

type_synonym obj_path = "string \<times> string"

record lstore =
  st_marker :: "string option"
  st_keys :: ls_keys
  st_objects :: "(obj_path \<times> bytes) list"
  st_refs :: "(string \<times> string) list"
  st_draws :: nat
  st_pid :: nat
  st_tmp :: nat

subsection \<open>Keys\<close>

definition nonce_len :: nat where
  "nonce_len = 24"

definition keys_derive :: "ext \<Rightarrow> bytes \<Rightarrow> ls_keys" where
  "keys_derive X master =
     \<lparr>key_addr = x_derive_key X ''horizon lifestream addr v1'' master,
      key_enc = x_derive_key X ''horizon lifestream enc v1'' master\<rparr>"

definition id_of :: "ext \<Rightarrow> ls_keys \<Rightarrow> bytes \<Rightarrow> object_id" where
  "id_of X k plaintext = x_keyed_hash X (key_addr k) plaintext"

text \<open>The nonce is the argument: the caller draws it.\<close>

definition seal_record :: "ext \<Rightarrow> ls_keys \<Rightarrow> bytes \<Rightarrow> object_id \<Rightarrow> bytes \<Rightarrow> ls_error + bytes" where
  "seal_record X k nonce i plaintext =
     (case x_seal X (key_enc k) nonce i plaintext of
        None \<Rightarrow> Inl LsCrypto
      | Some ct \<Rightarrow> Inr (nonce @ ct))"

definition open_record :: "ext \<Rightarrow> ls_keys \<Rightarrow> object_id \<Rightarrow> bytes \<Rightarrow> ls_error + bytes" where
  "open_record X k i rec =
     (if length rec < nonce_len then Inl (LsCorrupt ''short record'')
      else ok_or LsCrypto (x_open X (key_enc k) (take nonce_len rec) i (drop nonce_len rec)))"

subsection \<open>Names on disk\<close>

definition id_to_hex :: "ext \<Rightarrow> object_id \<Rightarrow> string" where
  "id_to_hex X i = x_hex_enc X i"

definition id_from_hex :: "ext \<Rightarrow> string \<Rightarrow> object_id option" where
  "id_from_hex X s =
     (case x_hex_dec X s of
        None \<Rightarrow> None
      | Some v \<Rightarrow> if length v \<noteq> 32 then None else Some v)"

definition path_for :: "ext \<Rightarrow> object_id \<Rightarrow> obj_path" where
  "path_for X i = (take 2 (id_to_hex X i), drop 2 (id_to_hex X i))"

text \<open>\<open>with_extension\<close> on a name without a dot appends one.\<close>

definition tmp_path :: "lstore \<Rightarrow> obj_path \<Rightarrow> obj_path" where
  "tmp_path s p =
     (fst p, snd p @ ''.'' @ show_nat (st_pid s) @ ''.'' @ show_nat (st_tmp s) @ ''.tmp'')"

definition is_tmp :: "obj_path \<Rightarrow> bool" where
  "is_tmp p \<longleftrightarrow> suffix ''.tmp'' (snd p)"

subsection \<open>Opening a store\<close>

definition marker_body :: string where
  "marker_body = ''horizon-lifestream v1'' @ [CHR 0x0A]"

definition store_init :: "ext \<Rightarrow> bytes \<Rightarrow> lstore \<Rightarrow> lstore" where
  "store_init X master s =
     s\<lparr>st_marker := (case st_marker s of None \<Rightarrow> Some marker_body | Some m \<Rightarrow> Some m),
       st_keys := keys_derive X master\<rparr>"

definition store_open :: "ext \<Rightarrow> string \<Rightarrow> bytes \<Rightarrow> lstore \<Rightarrow> ls_error + lstore" where
  "store_open X root master s =
     (if st_marker s = None then Inl (LsStore (root @ '' is not a lifestream store''))
      else Inr (s\<lparr>st_keys := keys_derive X master\<rparr>))"

subsection \<open>Objects\<close>

definition store_has :: "ext \<Rightarrow> lstore \<Rightarrow> object_id \<Rightarrow> bool" where
  "store_has X s i \<longleftrightarrow> map_of (st_objects s) (path_for X i) \<noteq> None"

text \<open>\<open>commit_record\<close> in its two file system steps, so that a crash between them is a state of
  the model: the temporary file is written, then renamed into place.\<close>

definition commit_write :: "obj_path \<Rightarrow> bytes \<Rightarrow> lstore \<Rightarrow> lstore" where
  "commit_write p rec s =
     s\<lparr>st_objects := AList.update (tmp_path s p) rec (st_objects s), st_tmp := st_tmp s + 1\<rparr>"

definition commit_rename :: "obj_path \<Rightarrow> obj_path \<Rightarrow> lstore \<Rightarrow> lstore" where
  "commit_rename tmp p s =
     (case map_of (st_objects s) tmp of
        None \<Rightarrow> s
      | Some rec \<Rightarrow> s\<lparr>st_objects := AList.update p rec (AList.delete tmp (st_objects s))\<rparr>)"

definition commit_record :: "obj_path \<Rightarrow> bytes \<Rightarrow> lstore \<Rightarrow> lstore" where
  "commit_record p rec s = commit_rename (tmp_path s p) p (commit_write p rec s)"

definition store_put :: "ext \<Rightarrow> bytes \<Rightarrow> (lstore, ls_error, object_id) action" where
  "store_put X plaintext s =
     (let i = id_of X (st_keys s) plaintext; p = path_for X i in
      if map_of (st_objects s) p \<noteq> None then (Inr i, s)
      else
        let s' = s\<lparr>st_draws := st_draws s + 1\<rparr> in
        case seal_record X (st_keys s) (x_random X (st_draws s) nonce_len) i plaintext of
          Inl e \<Rightarrow> (Inl e, s')
        | Inr rec \<Rightarrow> (Inr i, commit_record p rec s'))"

definition store_read_record :: "ext \<Rightarrow> lstore \<Rightarrow> object_id \<Rightarrow> ls_error + bytes" where
  "store_read_record X s i =
     ok_or (LsNotFound (id_to_hex X i)) (map_of (st_objects s) (path_for X i))"

text \<open>The check both \<open>get\<close> and \<open>write_record\<close> make: the record opens under this id and its
  plaintext has this address.\<close>

definition open_checked :: "ext \<Rightarrow> ls_keys \<Rightarrow> object_id \<Rightarrow> bytes \<Rightarrow> ls_error + bytes" where
  "open_checked X k i rec =
     res_bind (open_record X k i rec) (\<lambda>plaintext.
       if id_of X k plaintext \<noteq> i then Inl (LsCorrupt (''hash mismatch for '' @ id_to_hex X i))
       else Inr plaintext)"

definition store_get :: "ext \<Rightarrow> lstore \<Rightarrow> object_id \<Rightarrow> ls_error + bytes" where
  "store_get X s i = res_bind (store_read_record X s i) (open_checked X (st_keys s) i)"

definition store_delete :: "ext \<Rightarrow> object_id \<Rightarrow> (lstore, ls_error, unit) action" where
  "store_delete X i s = (Inr (), s\<lparr>st_objects := AList.delete (path_for X i) (st_objects s)\<rparr>)"

definition store_write_record :: "ext \<Rightarrow> object_id \<Rightarrow> bytes \<Rightarrow> (lstore, ls_error, bool) action" where
  "store_write_record X i rec s =
     (let p = path_for X i in
      if map_of (st_objects s) p \<noteq> None then (Inr False, s)
      else case open_checked X (st_keys s) i rec of
        Inl e \<Rightarrow> (Inl e, s)
      | Inr _ \<Rightarrow> (Inr True, commit_record p rec s))"

definition store_list_ids :: "ext \<Rightarrow> lstore \<Rightarrow> object_id list" where
  "store_list_ids X s =
     concat (map (\<lambda>(p, _).
       if is_tmp p then []
       else case id_from_hex X (fst p @ snd p) of None \<Rightarrow> [] | Some i \<Rightarrow> [i]) (st_objects s))"

subsection \<open>Refs\<close>

definition store_set_ref :: "ext \<Rightarrow> string \<Rightarrow> object_id \<Rightarrow> lstore \<Rightarrow> lstore" where
  "store_set_ref X name i s = s\<lparr>st_refs := AList.update name (id_to_hex X i) (st_refs s)\<rparr>"

definition store_get_ref :: "ext \<Rightarrow> lstore \<Rightarrow> string \<Rightarrow> ls_error + object_id option" where
  "store_get_ref X s name =
     (case map_of (st_refs s) name of
        None \<Rightarrow> Inr None
      | Some txt \<Rightarrow>
          if utf8_str txt then Inr (id_from_hex X (str_trim txt))
          else Inl (LsIo ''stream did not contain valid UTF-8''))"

definition store_list_refs :: "lstore \<Rightarrow> string list" where
  "store_list_refs s = map (to_string_lossy \<circ> fst) (st_refs s)"

subsection \<open>Invariant\<close>

text \<open>
  Every committed file holds a record that opens, under the id its name spells, to a plaintext
  with that id.  \<open>U\<close> is the set of plaintexts the store may ever see; the hash is injective on
  it.
\<close>

definition good_file :: "ext \<Rightarrow> bytes set \<Rightarrow> ls_keys \<Rightarrow> obj_path \<times> bytes \<Rightarrow> bool" where
  "good_file X U k f \<longleftrightarrow>
     is_tmp (fst f)
     \<or> (\<exists>i m. fst f = path_for X i \<and> wf_id i \<and> open_checked X k i (snd f) = Inr m \<and> m \<in> U)"

definition wf_keys :: "ls_keys \<Rightarrow> bool" where
  "wf_keys k \<longleftrightarrow> length (key_addr k) = 32 \<and> length (key_enc k) = 32"

definition store_inv :: "ext \<Rightarrow> bytes set \<Rightarrow> lstore \<Rightarrow> bool" where
  "store_inv X U s \<longleftrightarrow>
     wf_keys (st_keys s) \<and> inj_on (id_of X (st_keys s)) U
     \<and> distinct (map fst (st_objects s))
     \<and> list_all (good_file X U (st_keys s)) (st_objects s)"

subsection \<open>The directory as a map\<close>

lemma path_for_inj [simp]: "ext_ok X \<Longrightarrow> path_for X i = path_for X j \<longleftrightarrow> i = j"
  by (metis append_take_drop_id ext_ok_hex_inj id_to_hex_def path_for_def prod.inject)

lemma path_for_join [simp]: "fst (path_for X i) @ snd (path_for X i) = id_to_hex X i"
  by (simp add: path_for_def)

lemma path_for_not_tmp [simp]: "ext_ok X \<Longrightarrow> \<not> is_tmp (path_for X i)"
proof
  assume X: "ext_ok X" and "is_tmp (path_for X i)"
  then have "CHR ''.'' \<in> set (drop 2 (id_to_hex X i))"
    by (auto simp: is_tmp_def path_for_def suffix_def)
  then have "CHR ''.'' \<in> set (x_hex_enc X i)"
    using in_set_dropD id_to_hex_def by metis
  with X show False
    using ext_ok_hex_digits hex_digit_facts(1) by blast
qed

lemma tmp_path_is_tmp [simp]: "is_tmp (tmp_path s p)"
  by (simp add: is_tmp_def tmp_path_def suffix_def)

lemma tmp_path_neq [simp]:
  "ext_ok X \<Longrightarrow> tmp_path s p \<noteq> path_for X i" "ext_ok X \<Longrightarrow> path_for X i \<noteq> tmp_path s p"
  using path_for_not_tmp tmp_path_is_tmp by metis+

lemma id_from_hex_to_hex [simp]: "ext_ok X \<Longrightarrow> wf_id i \<Longrightarrow> id_from_hex X (id_to_hex X i) = Some i"
  by (simp add: id_from_hex_def id_to_hex_def ext_ok_hex wf_id_def)

lemma id_from_hex_wf: "id_from_hex X t = Some i \<Longrightarrow> wf_id i"
  by (auto simp: id_from_hex_def wf_id_def split: option.splits if_splits)

lemma wf_id_id_of [simp]: "ext_ok X \<Longrightarrow> wf_id (id_of X k m)"
  by (simp add: wf_id_def id_of_def ext_ok_lengths)

lemma list_all_alist:
  "distinct (map fst al) \<Longrightarrow> list_all P al \<longleftrightarrow> (\<forall>p r. map_of al p = Some r \<longrightarrow> P (p, r))"
  by (force simp: list_all_iff dest: map_of_SomeD)

lemma keys_derive_wf [simp]: "ext_ok X \<Longrightarrow> wf_keys (keys_derive X master)"
  by (simp add: wf_keys_def keys_derive_def ext_ok_lengths)

lemma commit_record_objects:
  assumes "p \<noteq> tmp_path s p"
  shows "map_of (st_objects (commit_record p rec s))
       = (map_of (st_objects s))(tmp_path s p := None, p \<mapsto> rec)"
  by (simp add: commit_record_def commit_write_def commit_rename_def update_conv' delete_conv')

lemma commit_record_fields [simp]:
  "st_keys (commit_record p rec s) = st_keys s" "st_refs (commit_record p rec s) = st_refs s"
  "st_marker (commit_record p rec s) = st_marker s" "st_draws (commit_record p rec s) = st_draws s"
  by (simp_all add: commit_record_def commit_write_def commit_rename_def update_conv')

lemma commit_record_distinct:
  "distinct (map fst (st_objects s)) \<Longrightarrow> distinct (map fst (st_objects (commit_record p rec s)))"
  by (simp add: commit_record_def commit_write_def commit_rename_def update_conv'
      distinct_update distinct_delete)

subsection \<open>What a record proves\<close>

lemma open_checked_Inr_iff:
  "open_checked X k i rec = Inr m \<longleftrightarrow> open_record X k i rec = Inr m \<and> id_of X k m = i"
  by (auto simp: open_checked_def res_bind_Inr_iff)

lemma open_seal_record:
  assumes "ext_ok X" "wf_keys k" "length nonce = nonce_len" "seal_record X k nonce i m = Inr rec"
  shows "open_record X k i rec = Inr m"
  using assms ext_ok_open [of X "key_enc k" nonce i m]
  by (auto simp: seal_record_def open_record_def wf_keys_def nonce_len_def split: option.splits)

lemma seal_record_ok:
  assumes "ext_ok X" "wf_keys k" "length nonce = nonce_len" "length m \<le> seal_max"
  obtains rec where "seal_record X k nonce i m = Inr rec"
proof -
  obtain ct where "x_seal X (key_enc k) nonce i m = Some ct"
    using assms ext_ok_seal [of X "key_enc k" nonce m i] by (auto simp: wf_keys_def nonce_len_def)
  with that show ?thesis by (simp add: seal_record_def)
qed

subsection \<open>The store is a map from addresses to plaintexts\<close>

definition store_abs :: "ext \<Rightarrow> lstore \<Rightarrow> object_id \<Rightarrow> bytes option" where
  "store_abs X s i = (case store_get X s i of Inl _ \<Rightarrow> None | Inr m \<Rightarrow> Some m)"

lemma store_abs_Some_iff: "store_abs X s i = Some m \<longleftrightarrow> store_get X s i = Inr m"
  by (simp add: store_abs_def split: sum.splits)

lemma store_get_Inr_iff:
  "store_get X s i = Inr m \<longleftrightarrow>
     (\<exists>rec. map_of (st_objects s) (path_for X i) = Some rec \<and> open_checked X (st_keys s) i rec = Inr m)"
  by (auto simp: store_get_def store_read_record_def res_bind_Inr_iff)

lemma good_file_path:
  assumes "ext_ok X"
  shows "good_file X U k (path_for X i, rec) \<longleftrightarrow>
    wf_id i \<and> (\<exists>m. open_checked X k i rec = Inr m \<and> m \<in> U)"
proof -
  have "(\<exists>j m. path_for X i = path_for X j \<and> wf_id j \<and> open_checked X k j rec = Inr m \<and> m \<in> U)
      \<longleftrightarrow> wf_id i \<and> (\<exists>m. open_checked X k i rec = Inr m \<and> m \<in> U)"
    unfolding path_for_inj [OF assms] by blast
  with assms show ?thesis by (simp add: good_file_def)
qed

lemma store_inv_file:
  assumes X: "ext_ok X" and "store_inv X U s"
    and "map_of (st_objects s) (path_for X i) = Some rec"
  obtains m where "open_checked X (st_keys s) i rec = Inr m" "m \<in> U" "wf_id i"
proof -
  have "good_file X U (st_keys s) (path_for X i, rec)"
    using assms list_all_alist unfolding store_inv_def by blast
  with that show ?thesis by (auto simp: good_file_path [OF X])
qed

lemma store_inv_has_iff:
  assumes "ext_ok X" "store_inv X U s"
  shows "store_has X s i \<longleftrightarrow> store_abs X s i \<noteq> None"
  using store_inv_file [OF assms, of i]
  by (fastforce simp: store_has_def store_abs_Some_iff store_get_Inr_iff)

lemma store_inv_abs:
  assumes "ext_ok X" "store_inv X U s" "store_abs X s i = Some m"
  shows "id_of X (st_keys s) m = i" "m \<in> U" "wf_id i"
proof -
  from assms(3) obtain rec where
    rec: "map_of (st_objects s) (path_for X i) = Some rec" "open_checked X (st_keys s) i rec = Inr m"
    by (auto simp: store_abs_Some_iff store_get_Inr_iff)
  then show "id_of X (st_keys s) m = i" by (simp add: open_checked_Inr_iff)
  show "m \<in> U" "wf_id i"
    using store_inv_file [OF assms(1,2) rec(1)] rec(2) by (metis sum.inject(2))+
qed

lemma store_abs_unique:
  assumes "ext_ok X" "store_inv X U s" "m \<in> U" "store_abs X s (id_of X (st_keys s) m) = Some m'"
  shows "m' = m"
  using store_inv_abs [OF assms(1,2,4)] assms(2,3) by (meson inj_onD store_inv_def)

text \<open>Committing a record that opens to \<open>m\<close> is the update of one address.\<close>

lemma commit_record_abs:
  assumes X: "ext_ok X" and rec: "open_checked X (st_keys s) i rec = Inr m"
  shows "store_abs X (commit_record (path_for X i) rec s) = (store_abs X s)(i \<mapsto> m)"
proof
  fix j
  show "store_abs X (commit_record (path_for X i) rec s) j = ((store_abs X s)(i \<mapsto> m)) j"
    using X rec
    by (simp add: store_abs_def store_get_def store_read_record_def commit_record_objects)
qed

lemma commit_record_inv:
  assumes X: "ext_ok X" and inv: "store_inv X U s" and i: "wf_id i" and m: "m \<in> U"
    and rec: "open_checked X (st_keys s) i rec = Inr m"
  shows "store_inv X U (commit_record (path_for X i) rec s)"
proof -
  have new: "good_file X U (st_keys s) (path_for X i, rec)"
    using i m rec by (auto simp: good_file_path [OF X])
  have "\<forall>p r. map_of (st_objects s) p = Some r \<longrightarrow> good_file X U (st_keys s) (p, r)"
    using inv list_all_alist unfolding store_inv_def by blast
  with new have "\<forall>p r. map_of (st_objects (commit_record (path_for X i) rec s)) p = Some r
      \<longrightarrow> good_file X U (st_keys s) (p, r)"
    by (simp add: commit_record_objects X)
  with inv show ?thesis
    using list_all_alist [OF commit_record_distinct, of s]
    by (simp add: store_inv_def commit_record_distinct)
qed

subsection \<open>The operations against the map\<close>

lemma store_inv_draw [simp]: "store_inv X U (s\<lparr>st_draws := n\<rparr>) \<longleftrightarrow> store_inv X U s"
  by (simp add: store_inv_def)

lemma store_abs_draw [simp]: "store_abs X (s\<lparr>st_draws := n\<rparr>) = store_abs X s"
  by (rule ext) (simp add: store_abs_def store_get_def store_read_record_def)

lemma store_inv_set_ref [simp]: "store_inv X U (store_set_ref X name i s) \<longleftrightarrow> store_inv X U s"
  by (simp add: store_inv_def store_set_ref_def)

lemma store_abs_set_ref [simp]: "store_abs X (store_set_ref X name i s) = store_abs X s"
  by (rule ext) (simp add: store_abs_def store_get_def store_read_record_def store_set_ref_def)

lemma store_put_keys [simp]: "st_keys (snd (store_put X m s)) = st_keys s"
  by (auto simp: store_put_def Let_def split: sum.splits)

lemma store_put_refs [simp]: "st_refs (snd (store_put X m s)) = st_refs s"
  by (auto simp: store_put_def Let_def split: sum.splits)

text \<open>The whole of \<open>put\<close>: it returns the address, and the store afterwards is the store before
  with the plaintext at that address, whether it was written or already there; it fails only
  when the cipher does, and then stores nothing.\<close>

lemma store_put_spec:
  assumes X: "ext_ok X" and inv: "store_inv X U s" and m: "m \<in> U"
    and step: "store_put X m s = (r, s')"
  shows "store_inv X U s'"
    and "(case r of
            Inl e \<Rightarrow> e = LsCrypto \<and> store_abs X s' = store_abs X s
          | Inr i \<Rightarrow> i = id_of X (st_keys s) m \<and> store_abs X s' = (store_abs X s)(i \<mapsto> m))"
proof -
  define i where "i = id_of X (st_keys s) m"
  have keys: "wf_keys (st_keys s)" using inv by (simp add: store_inv_def)
  have wfi: "wf_id i" using X by (simp add: i_def)
  show "store_inv X U s'" and "(case r of
            Inl e \<Rightarrow> e = LsCrypto \<and> store_abs X s' = store_abs X s
          | Inr j \<Rightarrow> j = id_of X (st_keys s) m \<and> store_abs X s' = (store_abs X s)(j \<mapsto> m))"
  proof (atomize (full), cases "map_of (st_objects s) (path_for X i)")
    case (Some rec)
    then have "store_has X s i" by (simp add: store_has_def)
    then have "store_abs X s i = Some m"
      using store_abs_unique [OF X inv m] store_inv_has_iff [OF X inv] i_def by fastforce
    with Some step inv show "store_inv X U s' \<and> (case r of
            Inl e \<Rightarrow> e = LsCrypto \<and> store_abs X s' = store_abs X s
          | Inr j \<Rightarrow> j = id_of X (st_keys s) m \<and> store_abs X s' = (store_abs X s)(j \<mapsto> m))"
      by (auto simp: store_put_def Let_def i_def fun_upd_idem)
  next
    case None
    let ?s = "s\<lparr>st_draws := st_draws s + 1\<rparr>"
    let ?n = "x_random X (st_draws s) nonce_len"
    show "store_inv X U s' \<and> (case r of
            Inl e \<Rightarrow> e = LsCrypto \<and> store_abs X s' = store_abs X s
          | Inr j \<Rightarrow> j = id_of X (st_keys s) m \<and> store_abs X s' = (store_abs X s)(j \<mapsto> m))"
    proof (cases "seal_record X (st_keys s) ?n i m")
      case (Inl e)
      then have "e = LsCrypto" by (auto simp: seal_record_def split: option.splits)
      moreover from None Inl step have "r = Inl e" "s' = ?s"
        by (simp_all add: store_put_def Let_def i_def)
      ultimately show ?thesis using inv by simp
    next
      case (Inr rec)
      then have "open_checked X (st_keys ?s) i rec = Inr m"
        using X keys open_seal_record [OF X keys, of ?n i m rec]
        by (simp add: open_checked_Inr_iff i_def ext_ok_lengths)
      with None Inr step inv show ?thesis
        using commit_record_abs [OF X, of ?s i rec m] commit_record_inv [OF X _ wfi m, of ?s rec]
        by (auto simp: store_put_def Let_def i_def)
    qed
  qed
qed

lemma store_put_ok:
  assumes "ext_ok X" "store_inv X U s" "length m \<le> seal_max"
  shows "\<exists>s'. store_put X m s = (Inr (id_of X (st_keys s) m), s')"
proof -
  have "wf_keys (st_keys s)" using assms(2) by (simp add: store_inv_def)
  then obtain rec where
    "seal_record X (st_keys s) (x_random X (st_draws s) nonce_len) (id_of X (st_keys s) m) m = Inr rec"
    using seal_record_ok [OF assms(1)] assms by (metis ext_ok_lengths(3))
  then show ?thesis by (auto simp: store_put_def Let_def)
qed

text \<open>\<open>write_record\<close> admits a record only if it opens, under the id it claims, to a plaintext
  with that address; anything else leaves the store as it was.\<close>

lemma store_write_record_spec:
  assumes X: "ext_ok X" and inv: "store_inv X U s" and i: "wf_id i"
    and known: "\<And>m. open_checked X (st_keys s) i rec = Inr m \<Longrightarrow> m \<in> U"
    and step: "store_write_record X i rec s = (r, s')"
  shows "store_inv X U s'"
    and "(case r of
            Inl e \<Rightarrow> open_checked X (st_keys s) i rec = Inl e \<and> \<not> store_has X s i \<and> s' = s
          | Inr new \<Rightarrow>
              if new then \<not> store_has X s i \<and>
                (\<exists>m. open_checked X (st_keys s) i rec = Inr m \<and> store_abs X s' = (store_abs X s)(i \<mapsto> m))
              else store_has X s i \<and> s' = s)"
proof -
  show "store_inv X U s'"
    using step inv commit_record_inv [OF X inv i known]
    by (auto simp: store_write_record_def Let_def split: if_splits sum.splits)
  show "(case r of
            Inl e \<Rightarrow> open_checked X (st_keys s) i rec = Inl e \<and> \<not> store_has X s i \<and> s' = s
          | Inr new \<Rightarrow>
              if new then \<not> store_has X s i \<and>
                (\<exists>m. open_checked X (st_keys s) i rec = Inr m \<and> store_abs X s' = (store_abs X s)(i \<mapsto> m))
              else store_has X s i \<and> s' = s)"
    using step commit_record_abs [OF X]
    by (auto simp: store_write_record_def Let_def store_has_def split: if_splits sum.splits)
qed

lemma store_delete_abs:
  assumes X: "ext_ok X" and step: "store_delete X i s = (r, s')"
  shows "r = Inr ()" and "store_abs X s' = (store_abs X s)(i := None)"
proof -
  show "r = Inr ()" using step by (simp add: store_delete_def)
  show "store_abs X s' = (store_abs X s)(i := None)"
  proof
    fix j
    show "store_abs X s' j = ((store_abs X s)(i := None)) j"
      using X step
      by (auto simp: store_delete_def store_abs_def store_get_def store_read_record_def delete_conv')
  qed
qed

lemma list_all_delete: "list_all P al \<Longrightarrow> list_all P (AList.delete k al)"
  by (induction al) auto

lemma store_delete_inv:
  "store_inv X U s \<Longrightarrow> store_delete X i s = (r, s') \<Longrightarrow> store_inv X U s'"
  by (auto simp: store_delete_def store_inv_def distinct_delete list_all_delete)

text \<open>A crash between the two steps of \<open>commit_record\<close> leaves a file no reader sees.\<close>

lemma commit_write_hidden:
  assumes X: "ext_ok X"
  shows "store_abs X (commit_write p rec s) = store_abs X s"
    and "store_list_ids X (commit_write p rec s) = store_list_ids X s"
    and "store_inv X U s \<Longrightarrow> store_inv X U (commit_write p rec s)"
proof -
  show "store_abs X (commit_write p rec s) = store_abs X s"
    using X by (intro ext)
      (simp add: store_abs_def store_get_def store_read_record_def commit_write_def update_conv')
  have ids: "concat (map F (AList.update q rec al)) = concat (map F al)"
    if "F = (\<lambda>(p, _ :: bytes). if is_tmp p then [] else G p)" "is_tmp q" for F q al
    and G :: "obj_path \<Rightarrow> object_id list"
    using that by (induction al) auto
  show "store_list_ids X (commit_write p rec s) = store_list_ids X s"
    unfolding store_list_ids_def commit_write_def
    by (simp add: ids [OF refl])
  have "list_all P (AList.update q rec al)" if "P (q, rec)" "list_all P al" for P q and al :: "(obj_path \<times> bytes) list"
    using that by (induction al) auto
  then show "store_inv X U s \<Longrightarrow> store_inv X U (commit_write p rec s)"
    by (simp add: store_inv_def commit_write_def distinct_update good_file_def)
qed

text \<open>The ids a listing returns are the addresses the store maps.\<close>

lemma store_list_ids_iff:
  assumes X: "ext_ok X" and inv: "store_inv X U s"
  shows "i \<in> set (store_list_ids X s) \<longleftrightarrow> store_abs X s i \<noteq> None"
proof
  assume "i \<in> set (store_list_ids X s)"
  then obtain p rec where f: "(p, rec) \<in> set (st_objects s)" "\<not> is_tmp p"
      "id_from_hex X (fst p @ snd p) = Some i"
    by (auto simp: store_list_ids_def split: if_splits option.splits)
  with inv obtain j m where "p = path_for X j" "wf_id j" "open_checked X (st_keys s) j rec = Inr m"
    unfolding store_inv_def list_all_iff good_file_def by fastforce
  with f X inv show "store_abs X s i \<noteq> None"
    by (simp add: store_abs_Some_iff store_get_Inr_iff store_inv_def)
next
  assume "store_abs X s i \<noteq> None"
  then obtain m where "store_abs X s i = Some m" by blast
  moreover from this have "wf_id i" using store_inv_abs(3) [OF X inv] by blast
  ultimately show "i \<in> set (store_list_ids X s)"
  proof -
    assume "store_abs X s i = Some m" and i: "wf_id i"
    then obtain rec where "(path_for X i, rec) \<in> set (st_objects s)"
      by (auto simp: store_abs_Some_iff store_get_Inr_iff dest: map_of_SomeD)
    moreover have "i \<in> set (case (path_for X i, rec) of (p, _) \<Rightarrow> if is_tmp p then []
        else case id_from_hex X (fst p @ snd p) of None \<Rightarrow> [] | Some i \<Rightarrow> [i])"
      using X i by simp
    ultimately show ?thesis unfolding store_list_ids_def set_concat set_map by blast
  qed
qed

lemma store_get_set_ref:
  assumes X: "ext_ok X" and i: "wf_id i"
  shows "store_get_ref X (store_set_ref X name i s) n
    = (if n = name then Inr (Some i) else store_get_ref X s n)"
proof -
  have plain: "list_all plain_char (id_to_hex X i)"
    using X by (simp add: id_to_hex_def ext_ok_hex_plain)
  then have "utf8_str (id_to_hex X i)"
    by (intro utf8_str_ascii) (simp add: ascii_str_def plain_char_def list_all_iff)
  with plain X i show ?thesis
    by (simp add: store_get_ref_def store_set_ref_def update_conv' str_trim_plain)
qed

end
