(* ===== verification/Chunker.thy ===== *)
theory Chunker
  imports Prelude
begin

section \<open>Content-defined chunking\<close>

text \<open>
  \<open>crates/lifestream/src/chunker.rs\<close>: the gear table, the cut point of one chunk and the split of
  a buffer into ranges.  A \<open>Range<usize>\<close> is the pair of its bounds.  The rolling hash is a
  \<open>u64\<close> that wraps.
\<close>

definition chunk_min :: nat where "chunk_min = 2 * 1024"
definition chunk_normal :: nat where "chunk_normal = 8 * 1024"
definition chunk_max :: nat where "chunk_max = 64 * 1024"

definition mask_s :: u64 where "mask_s = 0x0003590703530000"
definition mask_l :: u64 where "mask_l = 0x0000d90303530000"

subsection \<open>The gear table\<close>

definition splitmix :: "u64 \<Rightarrow> u64" where
  "splitmix x =
     (let z0 = x;
          z1 = (z0 XOR drop_bit 30 z0) * 0xbf58476d1ce4e5b9;
          z2 = (z1 XOR drop_bit 27 z1) * 0x94d049bb133111eb
      in z2 XOR drop_bit 31 z2)"

fun gear_from :: "nat \<Rightarrow> u64 \<Rightarrow> u64 list" where
  "gear_from 0 x = []"
| "gear_from (Suc n) x =
     (let x' = x + 0x9e3779b97f4a7c15 in splitmix x' # gear_from n x')"

definition gear_table :: "u64 list" where
  "gear_table = gear_from 256 0x2545f4914f6cdd1d"

lemma length_gear_from [simp]: "length (gear_from n x) = n"
  by (induction n arbitrary: x) (auto simp: Let_def)

lemma length_gear_table [simp]: "length gear_table = 256"
  by (simp add: gear_table_def)

subsection \<open>One cut\<close>

text \<open>One of the two scanning loops of \<open>cut\<close>: from position \<open>i\<close> up to \<open>limit\<close> with one mask.  It
  returns the cut point if the masked hash vanishes, and the hash it ends with.\<close>

function cut_loop :: "u64 list \<Rightarrow> bytes \<Rightarrow> u64 \<Rightarrow> nat \<Rightarrow> nat \<Rightarrow> u64 \<Rightarrow> nat option \<times> u64" where
  "cut_loop gear src msk limit i hash =
     (if i < limit then
        let hash' = push_bit 1 hash + gear ! unat (src ! i)
        in if hash' AND msk = 0 then (Some i, hash')
           else cut_loop gear src msk limit (Suc i) hash'
      else (None, hash))"
  by pat_completeness auto
termination
  by (relation "measure (\<lambda>(gear, src, msk, limit, i, hash). limit - i)") auto

declare cut_loop.simps [simp del]

text \<open>The end of the scan and the position where the looser mask takes over.\<close>

definition cut_end :: "nat \<Rightarrow> nat" where
  "cut_end len = (if len > chunk_max then chunk_max else len)"

definition cut_center :: "nat \<Rightarrow> nat" where
  "cut_center n = (if n < chunk_normal then n else chunk_normal)"

definition cut_at :: "u64 list \<Rightarrow> bytes \<Rightarrow> nat" where
  "cut_at gear src =
     (if length src \<le> chunk_min then length src
      else
        let n = cut_end (length src); center = cut_center n
        in case cut_loop gear src mask_s center chunk_min 0 of
             (Some i, _) \<Rightarrow> i
           | (None, hash) \<Rightarrow>
               (case cut_loop gear src mask_l n center hash of
                  (Some i, _) \<Rightarrow> i
                | (None, _) \<Rightarrow> n))"

lemma cut_loop_bounds: "cut_loop gear src msk limit i hash = (Some k, h) \<Longrightarrow> i \<le> k \<and> k < limit"
proof (induction gear src msk limit i hash rule: cut_loop.induct)
  case (1 gear src msk limit i hash)
  show ?case
  proof (cases "i < limit")
    case True
    with 1 show ?thesis
      by (fastforce simp: cut_loop.simps [of gear src msk limit i hash] Let_def split: if_splits)
  next
    case False
    with "1.prems" show ?thesis by (simp add: cut_loop.simps)
  qed
qed

lemma cut_at_bounds:
  assumes "chunk_min < length src"
  shows "chunk_min \<le> cut_at gear src \<and> cut_at gear src \<le> min (length src) chunk_max"
proof -
  define n where "n = cut_end (length src)"
  define center where "center = cut_center n"
  have n: "chunk_min \<le> n" "n = min (length src) chunk_max" and c: "chunk_min \<le> center" "center \<le> n"
    using assms by (auto simp: n_def center_def cut_end_def cut_center_def chunk_min_def chunk_normal_def chunk_max_def)
  obtain o1 h1 where l1: "cut_loop gear src mask_s center chunk_min 0 = (o1, h1)" by fastforce
  obtain o2 h2 where l2: "cut_loop gear src mask_l n center h1 = (o2, h2)" by fastforce
  have cut: "cut_at gear src = (case o1 of Some i \<Rightarrow> i | None \<Rightarrow> (case o2 of Some i \<Rightarrow> i | None \<Rightarrow> n))"
    using assms l1 l2
    by (simp add: cut_at_def Let_def flip: n_def center_def split: option.splits)
  show ?thesis
  proof (cases o1)
    case (Some i)
    with cut_loop_bounds l1 have "chunk_min \<le> i \<and> i < center" by simp
    with Some cut c n show ?thesis by simp
  next
    case None
    show ?thesis
    proof (cases o2)
      case (Some i)
      with cut_loop_bounds l2 have "center \<le> i \<and> i < n" by simp
      with None Some cut c n show ?thesis by simp
    next
      case o2: None
      with None cut n show ?thesis by simp
    qed
  qed
qed

lemma cut_at_small: "length src \<le> chunk_min \<Longrightarrow> cut_at gear src = length src"
  by (simp add: cut_at_def)

lemma cut_le: "cut_at gear src \<le> length src"
  using cut_at_bounds [of src gear] cut_at_small [of src gear] by (cases "length src \<le> chunk_min") auto

lemma cut_le_max: "cut_at gear src \<le> chunk_max"
  using cut_at_bounds [of src gear] cut_at_small [of src gear]
  by (cases "length src \<le> chunk_min") (auto simp: chunk_min_def chunk_max_def)

lemma cut_ge_min: "chunk_min < length src \<Longrightarrow> chunk_min \<le> cut_at gear src"
  using cut_at_bounds [of src gear] by simp

lemma cut_pos: "src \<noteq> [] \<Longrightarrow> 0 < cut_at gear src"
  using cut_ge_min [of src gear] by (cases "chunk_min < length src") (auto simp: cut_at_def chunk_min_def)

subsection \<open>The split\<close>

function chunk_split :: "u64 list \<Rightarrow> bytes \<Rightarrow> nat \<Rightarrow> (nat \<times> nat) list" where
  "chunk_split gear data pos =
     (if pos < length data then
        let len = cut_at gear (drop pos data) in (pos, pos + len) # chunk_split gear data (pos + len)
      else [])"
  by pat_completeness auto
termination
proof (relation "measure (\<lambda>(gear, data, pos). length data - pos)")
  fix gear and data :: bytes and pos len
  assume "pos < length data" and "len = cut_at gear (drop pos data)"
  then have "0 < len" using cut_pos [of "drop pos data" gear] by simp
  with \<open>pos < length data\<close>
  show "((gear, data, pos + len), gear, data, pos)
      \<in> measure (\<lambda>(gear, data, pos). length data - pos)" by simp
qed simp

declare chunk_split.simps [simp del]

lemma chunk_split_done: "\<not> pos < length data \<Longrightarrow> chunk_split gear data pos = []"
  by (subst chunk_split.simps) simp

lemma chunk_split_step:
  "pos < length data \<Longrightarrow> chunk_split gear data pos =
     (pos, pos + cut_at gear (drop pos data)) # chunk_split gear data (pos + cut_at gear (drop pos data))"
  by (subst chunk_split.simps) (simp add: Let_def)

definition chunk_slice :: "bytes \<Rightarrow> nat \<times> nat \<Rightarrow> bytes" where
  "chunk_slice data r = take (snd r - fst r) (drop (fst r) data)"

text \<open>The ranges are a partition of the buffer from \<open>pos\<close> on: they chain, none is empty or longer
  than the maximum, every one but the last is at least the minimum, and the slices concatenate
  back to the data.\<close>

fun ranges_chain :: "nat \<Rightarrow> (nat \<times> nat) list \<Rightarrow> nat \<Rightarrow> bool" where
  "ranges_chain a [] b \<longleftrightarrow> a = b"
| "ranges_chain a ((x, y) # rs) b \<longleftrightarrow> x = a \<and> x < y \<and> ranges_chain y rs b"

lemma chunk_split_chain: "pos \<le> length data \<Longrightarrow> ranges_chain pos (chunk_split gear data pos) (length data)"
proof (induction gear data pos rule: chunk_split.induct)
  case (1 gear data pos)
  show ?case
  proof (cases "pos < length data")
    case True
    have "0 < cut_at gear (drop pos data)" using True cut_pos [of "drop pos data" gear] by simp
    moreover have "pos + cut_at gear (drop pos data) \<le> length data"
      using cut_le [of gear "drop pos data"] True by simp
    ultimately show ?thesis
      using 1 True by (simp add: chunk_split_step)
  next
    case False
    with "1.prems" show ?thesis by (simp add: chunk_split_done)
  qed
qed

lemma chunk_split_sizes:
  "pos \<le> length data \<Longrightarrow> (x, y) \<in> set (chunk_split gear data pos) \<Longrightarrow>
     y - x \<le> chunk_max \<and> (y < length data \<longrightarrow> chunk_min \<le> y - x)"
proof (induction gear data pos rule: chunk_split.induct)
  case (1 gear data pos)
  show ?case
  proof (cases "pos < length data")
    case True
    let ?len = "cut_at gear (drop pos data)"
    have le: "pos + ?len \<le> length data" using cut_le [of gear "drop pos data"] True by simp
    from "1.prems"(2) True consider "x = pos" "y = pos + ?len"
      | "(x, y) \<in> set (chunk_split gear data (pos + ?len))"
      by (auto simp: chunk_split_step)
    then show ?thesis
    proof cases
      case 1
      have "chunk_min \<le> ?len" if "pos + ?len < length data"
      proof (cases "chunk_min < length (drop pos data)")
        case True
        then show ?thesis by (rule cut_ge_min)
      next
        case False
        with that show ?thesis by (simp add: cut_at_def)
      qed
      with 1 show ?thesis by (simp add: cut_le_max)
    next
      case 2
      with "1.IH" True le show ?thesis by simp
    qed
  next
    case False
    with "1.prems" show ?thesis by (simp add: chunk_split_done)
  qed
qed

lemma chunk_split_concat:
  "concat (map (chunk_slice data) (chunk_split gear data pos)) = drop pos data"
proof (induction gear data pos rule: chunk_split.induct)
  case (1 gear data pos)
  show ?case
  proof (cases "pos < length data")
    case True
    let ?len = "cut_at gear (drop pos data)"
    have "concat (map (chunk_slice data) (chunk_split gear data (pos + ?len))) = drop (pos + ?len) data"
      using 1 True by simp
    moreover have slice: "chunk_slice data (pos, pos + ?len) = take ?len (drop pos data)"
      by (simp add: chunk_slice_def)
    ultimately show ?thesis
      using True append_take_drop_id [of ?len "drop pos data"]
      by (simp add: chunk_split.simps [of gear data pos] Let_def slice_def add.commute)
  next
    case False
    then show ?thesis by (simp add: chunk_split_done)
  qed
qed

lemma ranges_chain_le: "ranges_chain a rs b \<Longrightarrow> a \<le> b \<and> (\<forall>r \<in> set rs. snd r \<le> b)"
proof (induction rs arbitrary: a)
  case (Cons r rs)
  obtain x y where "r = (x, y)" by fastforce
  with Cons.prems have "x = a" "x < y" "ranges_chain y rs b" by simp_all
  with Cons.IH [of y] \<open>r = (x, y)\<close> show ?case by auto
qed simp

text \<open>The sizes of a whole split, as one statement on each range.\<close>

lemma chunk_split_bounds:
  "list_all (\<lambda>r. snd r - fst r \<le> chunk_max \<and> (snd r = length data \<or> chunk_min \<le> snd r - fst r))
     (chunk_split g data 0)"
  unfolding list_all_iff
proof
  fix r
  assume "r \<in> set (chunk_split g data 0)"
  moreover obtain x y where "r = (x, y)" by fastforce
  ultimately have xy: "(x, y) \<in> set (chunk_split g data 0)" by simp
  have "y \<le> length data"
    using ranges_chain_le [OF chunk_split_chain [of 0 data g]] xy by auto
  with chunk_split_sizes [OF _ xy] \<open>r = (x, y)\<close>
  show "snd r - fst r \<le> chunk_max \<and> (snd r = length data \<or> chunk_min \<le> snd r - fst r)" by auto
qed

end
