(* ===== verification/ObjectStore.thy ===== *)
theory ObjectStore
  imports Prelude
begin

section \<open>The contract of a content-addressed store\<close>

text \<open>
  What the Lifestream, the audit log and the device sync rely on: storing a usable value
  succeeds, returns the address of the value, makes it readable there, and never changes what
  another address holds.  \<open>look\<close> is the reading side as a partial map, so that growth of the
  store is the order \<open>\<subseteq>\<^sub>m\<close> on maps.
\<close>

text \<open>An action that stores: from every good state it returns \<open>x\<close>, loses nothing, and leaves each
  of \<open>vs\<close> readable at its address.  Such actions compose.\<close>

definition stores :: "('s \<Rightarrow> bool) \<Rightarrow> ('v \<Rightarrow> 'k) \<Rightarrow> ('s \<Rightarrow> 'k \<Rightarrow> 'v option)
    \<Rightarrow> ('s, 'e, 'a) action \<Rightarrow> 'a \<Rightarrow> 'v list \<Rightarrow> bool" where
  "stores okay addr look m x vs \<longleftrightarrow>
     (\<forall>s. okay s \<longrightarrow> (\<exists>t. m s = (Inr x, t) \<and> okay t \<and> look s \<subseteq>\<^sub>m look t
        \<and> (\<forall>v \<in> set vs. look t (addr v) = Some v)))"

lemma storesI:
  assumes "\<And>s. okay s \<Longrightarrow> \<exists>t. m s = (Inr x, t) \<and> okay t \<and> look s \<subseteq>\<^sub>m look t
        \<and> (\<forall>v \<in> set vs. look t (addr v) = Some v)"
  shows "stores okay addr look m x vs"
  using assms by (simp add: stores_def)

lemma storesE:
  assumes "stores okay addr look m x vs" and "okay s"
  obtains t where "m s = (Inr x, t)" "okay t" "look s \<subseteq>\<^sub>m look t"
    "\<forall>v \<in> set vs. look t (addr v) = Some v"
  using assms by (auto simp: stores_def)

lemma map_le_Some: "f \<subseteq>\<^sub>m g \<Longrightarrow> f i = Some v \<Longrightarrow> g i = Some v"
  by (auto simp: map_le_def dom_def)

lemma stores_ret: "stores okay addr look (act_ret x) x []"
  by (rule storesI) simp

lemma stores_bind:
  assumes m: "stores okay addr look m x vs" and f: "stores okay addr look (f x) y ws"
  shows "stores okay addr look (act_bind m f) y (vs @ ws)"
proof (rule storesI)
  fix s
  assume "okay s"
  with m obtain t where t: "m s = (Inr x, t)" "okay t" "look s \<subseteq>\<^sub>m look t"
      "\<forall>v \<in> set vs. look t (addr v) = Some v"
    by (rule storesE)
  from f t(2) obtain u where u: "f x t = (Inr y, u)" "okay u" "look t \<subseteq>\<^sub>m look u"
      "\<forall>v \<in> set ws. look u (addr v) = Some v"
    by (rule storesE)
  from t u show "\<exists>u. act_bind m f s = (Inr y, u) \<and> okay u \<and> look s \<subseteq>\<^sub>m look u
      \<and> (\<forall>v \<in> set (vs @ ws). look u (addr v) = Some v)"
    by (auto intro: map_le_trans map_le_Some)
qed

lemma stores_bind_ret:
  "stores okay addr look m x vs \<Longrightarrow> stores okay addr look (act_bind m (\<lambda>i. act_ret (h i))) (h x) vs"
  by (metis append_Nil2 stores_bind stores_ret)

lemma stores_map:
  "(\<And>x. x \<in> set xs \<Longrightarrow> stores okay addr look (f x) (g x) (vs x)) \<Longrightarrow>
     stores okay addr look (act_map f xs) (map g xs) (concat (map vs xs))"
proof (induction xs)
  case Nil
  show ?case by (rule storesI) simp
next
  case (Cons x xs)
  have "stores okay addr look (act_bind (f x) (\<lambda>y. act_bind (act_map f xs) (\<lambda>ys. act_ret (y # ys))))
      (g x # map g xs) (vs x @ concat (map vs xs))"
  proof (rule stores_bind [where x = "g x"])
    show "stores okay addr look (f x) (g x) (vs x)" using Cons.prems by simp
    show "stores okay addr look (act_bind (act_map f xs) (\<lambda>ys. act_ret (g x # ys)))
        (g x # map g xs) (concat (map vs xs))"
      using Cons by (intro stores_bind_ret) simp
  qed
  moreover have "act_bind (f x) (\<lambda>y. act_bind (act_map f xs) (\<lambda>ys. act_ret (y # ys))) = act_map f (x # xs)"
    by (rule ext) (auto simp: act_bind_def split: sum.splits prod.splits)
  ultimately show ?case by (simp del: act_map.simps)
qed

locale object_store =
  fixes okay :: "'s \<Rightarrow> bool"
    and usable :: "'v \<Rightarrow> bool"
    and addr :: "'v \<Rightarrow> 'k"
    and look :: "'s \<Rightarrow> 'k \<Rightarrow> 'v option"
    and oput :: "'v \<Rightarrow> ('s, 'e, 'k) action"
  assumes put_succeeds: "okay s \<Longrightarrow> usable v \<Longrightarrow> \<exists>t. oput v s = (Inr (addr v), t)"
    and put_okay: "okay s \<Longrightarrow> usable v \<Longrightarrow> oput v s = (Inr k, t) \<Longrightarrow> okay t"
    and put_look: "okay s \<Longrightarrow> usable v \<Longrightarrow> oput v s = (Inr k, t) \<Longrightarrow> look t k = Some v"
    and put_keep: "okay s \<Longrightarrow> usable v \<Longrightarrow> oput v s = (Inr k, t) \<Longrightarrow> look s \<subseteq>\<^sub>m look t"
begin

lemma put_total:
  assumes "okay s" and "usable v"
  obtains t where "oput v s = (Inr (addr v), t)" "okay t" "look t (addr v) = Some v"
    "look s \<subseteq>\<^sub>m look t"
  using put_succeeds [OF assms] put_okay [OF assms] put_look [OF assms] put_keep [OF assms] by blast

lemma stores_put: "usable v \<Longrightarrow> stores okay addr look (oput v) (addr v) [v]"
  by (rule storesI) (auto elim: put_total)

text \<open>A run of puts: every value ends up at its address and nothing stored before is lost.\<close>

lemma stores_puts:
  "list_all usable vs \<Longrightarrow> stores okay addr look (act_map oput vs) (map addr vs) vs"
  using stores_map [of vs okay addr look oput addr "\<lambda>v. [v]"] stores_put
  by (simp add: list_all_iff)

text \<open>Storing a value twice changes nothing a reader can see.\<close>

lemma put_again:
  assumes "okay s" "usable v" "oput v s = (Inr k, t)" "oput v t = (Inr k', u)"
  shows "k' = k" and "look u k = look t k"
proof -
  from assms have "okay t" by (blast intro: put_okay)
  with assms show "k' = k" using put_succeeds by (metis prod.inject sum.inject(2))
  with assms \<open>okay t\<close> show "look u k = look t k" by (metis put_look)
qed

end

end
