(* ===== verification/Lifestream.thy ===== *)
theory Lifestream
  imports Store Chunker ObjectStore "HOL-Library.List_Lexorder" "HOL-Library.Char_ord"
begin

section \<open>The Lifestream\<close>

text \<open>
  \<open>crates/lifestream/src/lib.rs\<close>: objects in the store, files as chunk lists, directories as
  trees, generations, the walk back through history and the mark and sweep collection.
  The clock reading of \<open>commit\<close> is an argument.
\<close>

subsection \<open>Objects\<close>

definition ls_put :: "ext \<Rightarrow> object \<Rightarrow> (lstore, ls_error, object_id) action" where
  "ls_put X ob = store_put X (object_encode ob)"

definition ls_get :: "ext \<Rightarrow> lstore \<Rightarrow> object_id \<Rightarrow> ls_error + object" where
  "ls_get X s i = res_bind (store_get X s i) object_decode"

definition object_count :: "ext \<Rightarrow> lstore \<Rightarrow> nat" where
  "object_count X s = length (store_list_ids X s)"

subsection \<open>Files\<close>

definition write_bytes :: "ext \<Rightarrow> bytes \<Rightarrow> (lstore, ls_error, object_id) action" where
  "write_bytes X data =
     act_bind (act_map (\<lambda>r. ls_put X (Chunk (chunk_slice data r))) (chunk_split gear_table data 0))
       (\<lambda>chunks. ls_put X (File chunks))"

definition read_chunk :: "ext \<Rightarrow> lstore \<Rightarrow> object_id \<Rightarrow> ls_error + bytes" where
  "read_chunk X s c =
     res_bind (ls_get X s c) (\<lambda>ob. case ob of
        Chunk d \<Rightarrow> Inr d
      | _ \<Rightarrow> Inl (LsCorrupt ''expected chunk''))"

definition read_bytes :: "ext \<Rightarrow> lstore \<Rightarrow> object_id \<Rightarrow> ls_error + bytes" where
  "read_bytes X s file =
     res_bind (ls_get X s file) (\<lambda>ob. case ob of
        File chunks \<Rightarrow> res_bind (res_map_all (read_chunk X s) chunks) (\<lambda>ds. Inr (concat ds))
      | _ \<Rightarrow> Inl (LsCorrupt ''expected file''))"

subsection \<open>Directories\<close>

text \<open>
  What \<open>symlink_metadata\<close> tells of a directory entry: a regular file and a directory with their
  permission bits (twelve, below the file type bits \<open>st_mode\<close> carries), a symbolic link with its target, or a socket, fifo or device.  A name and a
  target are byte strings and need not be UTF-8.
\<close>

datatype fnode =
    FReg bytes u32
  | FDir "(string \<times> fnode) list" u32
  | FLink string
  | FSpecial

type_synonym fdir = "(string \<times> fnode) list"

definition mode_of :: "fnode \<Rightarrow> u32" where
  "mode_of n =
     (case n of
        FReg _ p \<Rightarrow> 0x8000 OR p
      | FDir _ p \<Rightarrow> 0x4000 OR p
      | FLink _ \<Rightarrow> 0xA1FF
      | FSpecial \<Rightarrow> 0)"

text \<open>\<open>chmod\<close> keeps the permission bits of a mode.\<close>

definition set_mode :: "u32 \<Rightarrow> u32" where
  "set_mode m = m AND 0xFFF"

lemma act_map_cong [fundef_cong]:
  "xs = ys \<Longrightarrow> s = t \<Longrightarrow> (\<And>x u. x \<in> set ys \<Longrightarrow> f x u = g x u) \<Longrightarrow> act_map f xs s = act_map g ys t"
  by (induction ys arbitrary: xs s t) (auto split: sum.splits prod.splits)

lemma act_bind_cong [fundef_cong]:
  "m s = m' t \<Longrightarrow> s = t \<Longrightarrow> (\<And>x u. f x u = f' x u) \<Longrightarrow> act_bind m f s = act_bind m' f' t"
  by (auto simp: act_bind_def split: sum.splits prod.splits)

text \<open>One item of \<open>snapshot_dir\<close>'s loop, given what the recursion does on a subdirectory, and
  the directory itself: the items in name order, each to at most one entry.\<close>

definition snapshot_entry :: "string \<Rightarrow> fnode \<Rightarrow> node_kind \<Rightarrow> object_id \<Rightarrow> tree_entry option" where
  "snapshot_entry name n kind i =
     Some \<lparr>te_name = name, te_kind = kind, te_id = i, te_mode = mode_of n\<rparr>"

definition by_name :: "(string \<times> 'a) list \<Rightarrow> (string \<times> 'a) list" where
  "by_name items = sort_key fst items"

lemma set_by_name [simp]: "set (by_name items) = set items"
  by (simp add: by_name_def)

lemma in_dir_size:
  "(n, FDir ds p) \<in> set items \<Longrightarrow> size_list (size_prod (\<lambda>_. 0) size) ds < size_list (size_prod (\<lambda>_. 0) size) items"
  by (induction items) auto

function snapshot_dir :: "ext \<Rightarrow> fdir \<Rightarrow> (lstore, ls_error, object_id) action" where
  "snapshot_dir X items s =
     act_bind
       (act_map (\<lambda>(name, n).
          if \<not> utf8_str name then act_fail (LsStore ''non-utf8 filename'')
          else case n of
            FLink target \<Rightarrow>
              act_bind (write_bytes X (str_bytes (to_string_lossy target))) (\<lambda>i.
                act_ret (snapshot_entry name n KSymlink i))
          | FDir ds _ \<Rightarrow>
              act_bind (snapshot_dir X ds) (\<lambda>i. act_ret (snapshot_entry name n KTree i))
          | FReg data _ \<Rightarrow>
              act_bind (write_bytes X data) (\<lambda>i. act_ret (snapshot_entry name n KFile i))
          | FSpecial \<Rightarrow> act_ret None)
        (by_name items))
       (\<lambda>entries. ls_put X (Tree (List.map_filter (\<lambda>e. e) entries))) s"
  by pat_completeness auto
termination
  by (relation "measure (\<lambda>(X, items, s). size_list (size_prod (\<lambda>_. 0) size) items)") (auto simp: in_dir_size)

declare snapshot_dir.simps [simp del]

text \<open>
  \<open>restore_tree\<close> into an empty destination, entry names being plain and distinct file names:
  what the destination holds afterwards.  The recursion follows ids through the store, so it
  takes fuel; an error is \<open>Some\<close> error of the code, or \<open>None\<close> when the fuel is used up.
\<close>

definition lift_err :: "'e + 'a \<Rightarrow> 'e option + 'a" where
  "lift_err r = res_map_err Some r"

fun restore_tree :: "nat \<Rightarrow> ext \<Rightarrow> lstore \<Rightarrow> object_id \<Rightarrow> ls_error option + fdir" where
  "restore_tree 0 X s i = Inl None"
| "restore_tree (Suc n) X s i =
     res_bind (lift_err (ls_get X s i)) (\<lambda>ob. case ob of
        Tree entries \<Rightarrow>
          res_map_all (\<lambda>e. case te_kind e of
              KTree \<Rightarrow>
                res_bind (restore_tree n X s (te_id e)) (\<lambda>ds.
                  Inr (te_name e, FDir ds (set_mode (te_mode e))))
            | KFile \<Rightarrow>
                res_bind (lift_err (read_bytes X s (te_id e))) (\<lambda>data.
                  Inr (te_name e, FReg data (set_mode (te_mode e))))
            | KSymlink \<Rightarrow>
                res_bind (lift_err (read_bytes X s (te_id e))) (\<lambda>target.
                  Inr (te_name e, FLink (bytes_str target)))) entries
      | _ \<Rightarrow> Inl (Some (LsCorrupt ''expected tree'')))"

subsection \<open>Generations\<close>

definition head_ref :: string where
  "head_ref = ''HEAD''"

definition ls_commit :: "ext \<Rightarrow> object_id \<Rightarrow> object_id list \<Rightarrow> string \<Rightarrow> u64
    \<Rightarrow> (lstore, ls_error, object_id) action" where
  "ls_commit X root parents label now =
     act_bind (ls_put X (Gen \<lparr>gen_root = root, gen_parents = parents, gen_time = now,
                              gen_label = label, gen_meta = []\<rparr>)) (\<lambda>i.
     act_bind (act_modify (store_set_ref X head_ref i)) (\<lambda>_. act_ret i))"

definition ls_head :: "ext \<Rightarrow> lstore \<Rightarrow> ls_error + object_id option" where
  "ls_head X s = store_get_ref X s head_ref"

text \<open>The walk may not end on a store whose objects are not what their addresses say, so it is a
  partial function: \<open>None\<close> is a walk that never returns.\<close>

partial_function (option) history_from ::
  "ext \<Rightarrow> lstore \<Rightarrow> object_id option \<Rightarrow> (object_id \<times> generation) list
     \<Rightarrow> (ls_error + (object_id \<times> generation) list) option" where
  [code]: "history_from X s cur out =
     (case cur of
        None \<Rightarrow> Some (Inr out)
      | Some i \<Rightarrow>
          (case ls_get X s i of
             Inl e \<Rightarrow> Some (Inl e)
           | Inr (Gen g) \<Rightarrow>
               history_from X s
                 (case gen_parents g of [] \<Rightarrow> None | p # _ \<Rightarrow> Some p) (out @ [(i, g)])
           | Inr _ \<Rightarrow> Some (Inl (LsCorrupt ''expected generation''))))"

definition ls_history :: "ext \<Rightarrow> lstore \<Rightarrow> object_id
    \<Rightarrow> (ls_error + (object_id \<times> generation) list) option" where
  "ls_history X s i = history_from X s (Some i) []"

subsection \<open>Mark and sweep\<close>

partial_function (option) gc_mark ::
  "ext \<Rightarrow> lstore \<Rightarrow> object_id list \<Rightarrow> object_id set \<Rightarrow> object_id set option" where
  [code]: "gc_mark X s stack live =
     (if stack = [] then Some live
      else if last stack \<in> live then gc_mark X s (butlast stack) live
      else case ls_get X s (last stack) of
        Inl _ \<Rightarrow> gc_mark X s (butlast stack) (insert (last stack) live)
      | Inr ob \<Rightarrow>
          gc_mark X s
            (butlast stack @ filter (\<lambda>l. l \<notin> insert (last stack) live) (object_links ob))
            (insert (last stack) live))"

fun gc_sweep :: "ext \<Rightarrow> object_id set \<Rightarrow> object_id list \<Rightarrow> nat \<Rightarrow> (lstore, ls_error, nat) action" where
  "gc_sweep X live [] removed s = (Inr removed, s)"
| "gc_sweep X live (i # is) removed s =
     (if i \<in> live then gc_sweep X live is removed s
      else act_bind (store_delete X i) (\<lambda>_. gc_sweep X live is (removed + 1)) s)"

definition ls_gc :: "ext \<Rightarrow> object_id list \<Rightarrow> lstore \<Rightarrow> ((ls_error + nat) \<times> lstore) option" where
  "ls_gc X roots s =
     map_option (\<lambda>live. gc_sweep X live (store_list_ids X s) 0 s) (gc_mark X s roots {})"

subsection \<open>What a file and a directory store\<close>

text \<open>
  The reference for the writers: the objects a file or a directory consists of, its own object
  last, computed without a store.  An address is a function of the keys and the object.
\<close>

definition obj_id :: "ext \<Rightarrow> ls_keys \<Rightarrow> object \<Rightarrow> object_id" where
  "obj_id X k ob = id_of X k (object_encode ob)"

definition file_chunks :: "bytes \<Rightarrow> object list" where
  "file_chunks data = map (\<lambda>r. Chunk (chunk_slice data r)) (chunk_split gear_table data 0)"

definition file_obj :: "ext \<Rightarrow> ls_keys \<Rightarrow> bytes \<Rightarrow> object" where
  "file_obj X k data = File (map (obj_id X k) (file_chunks data))"

definition file_objs :: "ext \<Rightarrow> ls_keys \<Rightarrow> bytes \<Rightarrow> object list" where
  "file_objs X k data = file_chunks data @ [file_obj X k data]"

definition ls_look :: "ext \<Rightarrow> lstore \<Rightarrow> object_id \<Rightarrow> object option" where
  "ls_look X s i = (case ls_get X s i of Inl _ \<Rightarrow> None | Inr ob \<Rightarrow> Some ob)"

text \<open>An object the store can take: its lengths fit its encoding, the cipher accepts its size,
  and its encoding is one of the plaintexts the hash tells apart.\<close>

definition usable_obj :: "bytes set \<Rightarrow> object \<Rightarrow> bool" where
  "usable_obj U ob \<longleftrightarrow>
     wf_object ob \<and> length (object_encode ob) \<le> seal_max \<and> object_encode ob \<in> U"

definition ls_okay :: "ext \<Rightarrow> bytes set \<Rightarrow> ls_keys \<Rightarrow> lstore \<Rightarrow> bool" where
  "ls_okay X U k s \<longleftrightarrow> ext_ok X \<and> store_inv X U s \<and> st_keys s = k"

lemma ls_look_Some_iff: "ls_look X s i = Some ob \<longleftrightarrow> ls_get X s i = Inr ob"
  by (simp add: ls_look_def split: sum.splits)

lemma ls_get_Inr_iff:
  "ls_get X s i = Inr ob \<longleftrightarrow> (\<exists>m. store_abs X s i = Some m \<and> object_decode m = Inr ob)"
  by (auto simp: ls_get_def res_bind_Inr_iff store_abs_Some_iff)

lemma ls_look_abs:
  "ls_look X s i = (case store_abs X s i of None \<Rightarrow> None
     | Some m \<Rightarrow> (case object_decode m of Inl _ \<Rightarrow> None | Inr ob \<Rightarrow> Some ob))"
  by (simp add: ls_look_def ls_get_def store_abs_def split: sum.splits)

interpretation ls: object_store "ls_okay X U k" "usable_obj U" "obj_id X k" "ls_look X" "ls_put X"
  for X U k
proof
  fix s and v :: object
  assume s: "ls_okay X U k s" and v: "usable_obj U v"
  then have inv: "ext_ok X" "store_inv X U s" and keys: "st_keys s = k"
    and m: "object_encode v \<in> U" "length (object_encode v) \<le> seal_max" and wf: "wf_object v"
    by (auto simp: ls_okay_def usable_obj_def)
  show "\<exists>t. ls_put X v s = (Inr (obj_id X k v), t)"
    using store_put_ok [OF inv m(2)] keys by (simp add: ls_put_def obj_id_def)
  fix i t
  assume put: "ls_put X v s = (Inr i, t)"
  then have step: "store_put X (object_encode v) s = (Inr i, t)" by (simp add: ls_put_def)
  note spec = store_put_spec [OF inv m(1) step]
  have abs: "i = id_of X k (object_encode v)" "store_abs X t = (store_abs X s)(i \<mapsto> object_encode v)"
    using spec(2) keys by auto
  show "ls_okay X U k t"
    using spec(1) inv(1) keys store_put_keys [of X "object_encode v" s] step
    by (simp add: ls_okay_def)
  show "ls_look X t i = Some v"
    by (simp add: ls_look_abs abs(2) object_decode_encode wf)
  show "ls_look X s \<subseteq>\<^sub>m ls_look X t"
    unfolding map_le_def
  proof
    fix j
    assume "j \<in> dom (ls_look X s)"
    then have "store_abs X s j \<noteq> None" by (auto simp: ls_look_abs split: option.splits)
    moreover have "store_abs X s i = Some m' \<Longrightarrow> m' = object_encode v" for m'
      using store_abs_unique [OF inv m(1)] abs(1) keys by simp
    ultimately show "ls_look X s j = ls_look X t j"
      by (auto simp: ls_look_abs abs(2))
  qed
qed

subsection \<open>Files are read back\<close>

lemma act_map_map: "act_map f (map g xs) s = act_map (\<lambda>x. f (g x)) xs s"
  by (induction xs arbitrary: s) (auto split: sum.splits prod.splits)

lemma write_bytes_stores:
  assumes "list_all (usable_obj U) (file_objs X k data)"
  shows "stores (ls_okay X U k) (obj_id X k) (ls_look X)
    (write_bytes X data) (obj_id X k (file_obj X k data)) (file_objs X k data)"
proof -
  have chunks: "act_map (\<lambda>r. ls_put X (Chunk (chunk_slice data r))) (chunk_split gear_table data 0)
      = act_map (ls_put X) (file_chunks data)"
    by (rule ext) (simp add: file_chunks_def act_map_map)
  show ?thesis
    unfolding write_bytes_def chunks
    unfolding file_objs_def
    using assms
    by (intro stores_bind [OF ls.stores_puts]) (simp_all add: file_objs_def ls.stores_put flip: file_obj_def)
qed

lemma read_chunk_look: "ls_look X s i = Some (Chunk d) \<Longrightarrow> read_chunk X s i = Inr d"
  by (simp add: read_chunk_def ls_look_Some_iff)

lemma res_map_all_map: "res_map_all f (map g xs) = res_map_all (\<lambda>x. f (g x)) xs"
  by (induction xs) auto

lemma read_bytes_look:
  assumes "\<forall>ob \<in> set (file_objs X k data). ls_look X s (obj_id X k ob) = Some ob"
  shows "read_bytes X s (obj_id X k (file_obj X k data)) = Inr data"
proof -
  let ?rs = "chunk_split gear_table data 0"
  have "ls_get X s (obj_id X k (file_obj X k data)) = Inr (file_obj X k data)"
    using assms by (simp add: file_objs_def ls_look_Some_iff)
  moreover have "res_map_all (\<lambda>r. read_chunk X s (obj_id X k (Chunk (chunk_slice data r)))) ?rs
      = Inr (map (chunk_slice data) ?rs)"
    using assms by (intro res_map_all_Inr read_chunk_look) (simp add: file_objs_def file_chunks_def)
  ultimately show ?thesis
    by (simp add: read_bytes_def file_obj_def file_chunks_def res_map_all_map chunk_split_concat)
qed

subsection \<open>Directories are read back\<close>

lemma map_filter_cong [fundef_cong]:
  "xs = ys \<Longrightarrow> (\<And>x. x \<in> set ys \<Longrightarrow> f x = g x) \<Longrightarrow> List.map_filter f xs = List.map_filter g ys"
  by (induction ys arbitrary: xs) (auto simp: List.map_filter_def)

function dir_obj :: "ext \<Rightarrow> ls_keys \<Rightarrow> fdir \<Rightarrow> object" where
  "dir_obj X k items =
     Tree (List.map_filter (\<lambda>(name, n). case n of
         FLink target \<Rightarrow>
           snapshot_entry name n KSymlink (obj_id X k (file_obj X k (str_bytes (to_string_lossy target))))
       | FDir ds _ \<Rightarrow> snapshot_entry name n KTree (obj_id X k (dir_obj X k ds))
       | FReg data _ \<Rightarrow> snapshot_entry name n KFile (obj_id X k (file_obj X k data))
       | FSpecial \<Rightarrow> None) (by_name items))"
  by pat_completeness auto
termination
  by (relation "measure (\<lambda>(X, k, items). size_list (size_prod (\<lambda>_. 0) size) items)") (auto simp: in_dir_size)

function dir_objs :: "ext \<Rightarrow> ls_keys \<Rightarrow> fdir \<Rightarrow> object list" where
  "dir_objs X k items =
     concat (map (\<lambda>(name, n). case n of
         FLink target \<Rightarrow> file_objs X k (str_bytes (to_string_lossy target))
       | FDir ds _ \<Rightarrow> dir_objs X k ds
       | FReg data _ \<Rightarrow> file_objs X k data
       | FSpecial \<Rightarrow> []) (by_name items)) @ [dir_obj X k items]"
  by pat_completeness auto
termination
  by (relation "measure (\<lambda>(X, k, items). size_list (size_prod (\<lambda>_. 0) size) items)") (auto simp: in_dir_size)

text \<open>What a snapshot keeps of a directory: the items in name order without sockets, fifos and
  devices, the permission bits, and link targets made valid UTF-8.\<close>

function dir_image :: "fdir \<Rightarrow> fdir" where
  "dir_image items =
     List.map_filter (\<lambda>(name, n). case n of
         FLink target \<Rightarrow> Some (name, FLink (to_string_lossy target))
       | FDir ds p \<Rightarrow> Some (name, FDir (dir_image ds) (set_mode p))
       | FReg data p \<Rightarrow> Some (name, FReg data (set_mode p))
       | FSpecial \<Rightarrow> None) (by_name items)"
  by pat_completeness auto
termination
  by (relation "measure (size_list (size_prod (\<lambda>_. 0) size))") (auto simp: in_dir_size)

function dir_utf8 :: "fdir \<Rightarrow> bool" where
  "dir_utf8 items \<longleftrightarrow>
     list_all (\<lambda>(name, n). utf8_str name \<and> (case n of FDir ds _ \<Rightarrow> dir_utf8 ds | _ \<Rightarrow> True)) items"
  by pat_completeness auto
termination
  by (relation "measure (size_list (size_prod (\<lambda>_. 0) size))") (auto simp: in_dir_size)

function dir_depth :: "fdir \<Rightarrow> nat" where
  "dir_depth items = Suc (foldr (\<lambda>(name, n) d. max (case n of FDir ds _ \<Rightarrow> dir_depth ds | _ \<Rightarrow> 0) d) items 0)"
  by pat_completeness auto
termination
  by (relation "measure (size_list (size_prod (\<lambda>_. 0) size))") (auto simp: in_dir_size)

declare dir_obj.simps [simp del] dir_objs.simps [simp del] dir_image.simps [simp del]
  dir_utf8.simps [simp del] dir_depth.simps [simp del]

lemma dir_utf8_item:
  assumes "dir_utf8 items" and "(name, n) \<in> set items"
  shows "utf8_str name \<and> (case n of FDir ds _ \<Rightarrow> dir_utf8 ds | _ \<Rightarrow> True)"
  using assms unfolding dir_utf8.simps [of items] list_all_iff by blast

lemma map_filter_map: "List.map_filter (\<lambda>e. e) (map f xs) = List.map_filter f xs"
  by (induction xs) (auto simp: List.map_filter_def)

lemma snapshot_dir_stores:
  "list_all (usable_obj U) (dir_objs X k items) \<Longrightarrow> dir_utf8 items \<Longrightarrow>
     stores (ls_okay X U k) (obj_id X k) (ls_look X)
       (snapshot_dir X items) (obj_id X k (dir_obj X k items)) (dir_objs X k items)"
proof (induction X k items rule: dir_objs.induct)
  case (1 X k items)
  let ?objs = "\<lambda>(name :: string, n). case n of
         FLink target \<Rightarrow> file_objs X k (str_bytes (to_string_lossy target))
       | FDir ds _ \<Rightarrow> dir_objs X k ds
       | FReg data _ \<Rightarrow> file_objs X k data
       | FSpecial \<Rightarrow> []"
  let ?entry = "\<lambda>(name, n). case n of
         FLink target \<Rightarrow>
           snapshot_entry name n KSymlink (obj_id X k (file_obj X k (str_bytes (to_string_lossy target))))
       | FDir ds _ \<Rightarrow> snapshot_entry name n KTree (obj_id X k (dir_obj X k ds))
       | FReg data _ \<Rightarrow> snapshot_entry name n KFile (obj_id X k (file_obj X k data))
       | FSpecial \<Rightarrow> None"
  let ?step = "\<lambda>(name, n).
          if \<not> utf8_str name then act_fail (LsStore ''non-utf8 filename'')
          else case n of
            FLink target \<Rightarrow>
              act_bind (write_bytes X (str_bytes (to_string_lossy target))) (\<lambda>i.
                act_ret (snapshot_entry name n KSymlink i))
          | FDir ds _ \<Rightarrow>
              act_bind (snapshot_dir X ds) (\<lambda>i. act_ret (snapshot_entry name n KTree i))
          | FReg data _ \<Rightarrow>
              act_bind (write_bytes X data) (\<lambda>i. act_ret (snapshot_entry name n KFile i))
          | FSpecial \<Rightarrow> act_ret None"
  have usable: "list_all (usable_obj U) (?objs e)" if "e \<in> set items" for e
    using "1.prems"(1) that unfolding dir_objs.simps [of X k items] by (auto simp: list_all_iff)
  have "stores (ls_okay X U k) (obj_id X k) (ls_look X) (?step e) (?entry e) (?objs e)"
    if e: "e \<in> set (by_name items)" for e
  proof -
    obtain name n where [simp]: "e = (name, n)" by fastforce
    have names: "utf8_str name" "\<And>ds p. n = FDir ds p \<Longrightarrow> dir_utf8 ds"
      using dir_utf8_item [OF "1.prems"(2), of name n] e by auto
    show ?thesis
    proof (cases n)
      case (FDir ds p)
      have "stores (ls_okay X U k) (obj_id X k) (ls_look X)
          (snapshot_dir X ds) (obj_id X k (dir_obj X k ds)) (dir_objs X k ds)"
        using "1.IH" [OF e _ FDir] usable [of e] e names FDir by simp
      then show ?thesis using names FDir by (simp add: stores_bind_ret)
    qed (use usable [of e] e names in \<open>simp_all add: stores_bind_ret write_bytes_stores stores_ret\<close>)
  qed
  then have "stores (ls_okay X U k) (obj_id X k) (ls_look X) (act_map ?step (by_name items))
      (map ?entry (by_name items)) (concat (map ?objs (by_name items)))"
    by (intro stores_map) simp
  moreover have "stores (ls_okay X U k) (obj_id X k) (ls_look X)
      (ls_put X (Tree (List.map_filter (\<lambda>e. e) (map ?entry (by_name items)))))
      (obj_id X k (dir_obj X k items)) [dir_obj X k items]"
    using "1.prems"(1) ls.stores_put
    by (simp add: map_filter_map dir_objs.simps [of X k items] flip: dir_obj.simps [of X k items])
  ultimately have "stores (ls_okay X U k) (obj_id X k) (ls_look X)
      (act_bind (act_map ?step (by_name items)) (\<lambda>entries. ls_put X (Tree (List.map_filter (\<lambda>e. e) entries))))
      (obj_id X k (dir_obj X k items)) (concat (map ?objs (by_name items)) @ [dir_obj X k items])"
    by (rule stores_bind)
  then show ?case
    unfolding dir_objs.simps [of X k items] stores_def snapshot_dir.simps [of X items] .
qed

lemma set_mode_file: "set_mode (0x8000 OR p) = set_mode p" "set_mode (0x4000 OR p) = set_mode p"
  by (simp_all add: set_mode_def word_ao_dist)

lemma res_map_all_filter:
  assumes "\<And>x. x \<in> set xs \<Longrightarrow>
    (case g x of None \<Rightarrow> h x = None | Some y \<Rightarrow> \<exists>z. h x = Some z \<and> f y = Inr z)"
  shows "res_map_all f (List.map_filter g xs) = Inr (List.map_filter h xs)"
  using assms
proof (induction xs)
  case Nil
  show ?case by (simp add: List.map_filter_def)
next
  case (Cons x xs)
  then have "res_map_all f (List.map_filter g xs) = Inr (List.map_filter h xs)" by simp
  with Cons.prems [of x] show ?case
    by (auto simp: List.map_filter_def split: option.splits)
qed

lemma foldr_max_le: "x \<in> set xs \<Longrightarrow> f x \<le> foldr (\<lambda>y d. max (f y) d) xs (0 :: nat)"
  by (induction xs) auto

lemma dir_depth_sub:
  assumes "(name, FDir ds p) \<in> set items"
  shows "dir_depth ds < dir_depth items"
proof -
  let ?f = "\<lambda>(name :: string, n). case n of FDir ds _ \<Rightarrow> dir_depth ds | _ \<Rightarrow> 0"
  have "?f (name, FDir ds p) \<le> foldr (\<lambda>y d. max (?f y) d) items 0"
    by (rule foldr_max_le [OF assms])
  moreover have "(\<lambda>y d. max (?f y) d) = (\<lambda>(name, n) d. max (case n of FDir ds _ \<Rightarrow> dir_depth ds | _ \<Rightarrow> 0) d)"
    by (auto simp: fun_eq_iff)
  ultimately show ?thesis by (simp add: dir_depth.simps [of items])
qed

lemma restore_tree_image:
  assumes "\<forall>ob \<in> set (dir_objs X k items). ls_look X s (obj_id X k ob) = Some ob"
    and "dir_depth items \<le> n"
  shows "restore_tree n X s (obj_id X k (dir_obj X k items)) = Inr (dir_image items)"
  using assms
proof (induction X k items arbitrary: n rule: dir_objs.induct)
  case (1 X k items)
  from "1.prems"(2) obtain m where n: "n = Suc m" by (cases n) (simp_all add: dir_depth.simps)
  have root: "ls_get X s (obj_id X k (dir_obj X k items)) = Inr (dir_obj X k items)"
    using "1.prems"(1) by (simp add: dir_objs.simps [of X k items] ls_look_Some_iff)
  have whole: "read_bytes X s (obj_id X k (file_obj X k data)) = Inr data"
    if "\<forall>ob \<in> set (file_objs X k data). ls_look X s (obj_id X k ob) = Some ob" for data
    using that by (rule read_bytes_look)
  have sub: "ls_look X s (obj_id X k ob) = Some ob"
    if "(name, nd) \<in> set items" "ob \<in> set (case nd of
         FLink target \<Rightarrow> file_objs X k (str_bytes (to_string_lossy target))
       | FDir ds _ \<Rightarrow> dir_objs X k ds
       | FReg data _ \<Rightarrow> file_objs X k data
       | FSpecial \<Rightarrow> [])" for name nd ob
    using "1.prems"(1) that unfolding dir_objs.simps [of X k items] by force
  have dirs: "restore_tree m X s (obj_id X k (dir_obj X k ds)) = Inr (dir_image ds)"
    if "(name, FDir ds p) \<in> set items" for name ds p
  proof (rule "1.IH" [OF _ refl refl])
    show "(name, FDir ds p) \<in> set (by_name items)" using that by simp
    show "\<forall>ob \<in> set (dir_objs X k ds). ls_look X s (obj_id X k ob) = Some ob"
      using sub [OF that] by simp
    show "dir_depth ds \<le> m" using dir_depth_sub [OF that] "1.prems"(2) n by simp
  qed
  show ?case
    unfolding n restore_tree.simps root
    unfolding dir_obj.simps [of X k items] dir_image.simps [of items]
  proof (simp add: lift_err_def, rule res_map_all_filter, goal_cases)
    case (1 x)
    obtain name nd where x: "x = (name, nd)" by fastforce
    with 1 have item: "(name, nd) \<in> set items" by simp
    show ?case
      using sub [OF item] dirs item
      by (cases nd)
        (auto simp: x whole snapshot_entry_def mode_of_def set_mode_file lift_err_def)
  qed
qed

subsection \<open>Collection keeps what is reachable\<close>

definition ls_edge :: "ext \<Rightarrow> lstore \<Rightarrow> (object_id \<times> object_id) set" where
  "ls_edge X s = {(i, j). \<exists>ob. ls_get X s i = Inr ob \<and> j \<in> set (object_links ob)}"

definition ls_reach :: "ext \<Rightarrow> lstore \<Rightarrow> object_id set \<Rightarrow> object_id set" where
  "ls_reach X s roots = (ls_edge X s)\<^sup>* `` roots"

lemma ls_reach_mono: "A \<subseteq> B \<Longrightarrow> ls_reach X s A \<subseteq> ls_reach X s B"
  by (auto simp: ls_reach_def)

lemma ls_reach_closed: "ls_edge X s `` A \<subseteq> A \<Longrightarrow> ls_reach X s A = A"
  unfolding ls_reach_def by (rule Image_closed_trancl)

lemma ls_reach_absorb:
  assumes "x \<in> A" and "B \<subseteq> ls_edge X s `` {x}"
  shows "ls_reach X s (A \<union> B) = ls_reach X s A"
proof
  show "ls_reach X s (A \<union> B) \<subseteq> ls_reach X s A"
  proof
    fix y
    assume "y \<in> ls_reach X s (A \<union> B)"
    then obtain a where a: "a \<in> A \<or> (x, a) \<in> ls_edge X s" "(a, y) \<in> (ls_edge X s)\<^sup>*"
      using assms(2) by (auto simp: ls_reach_def)
    then have "\<exists>b \<in> A. (b, y) \<in> (ls_edge X s)\<^sup>*"
      using assms(1) converse_rtrancl_into_rtrancl by metis
    then show "y \<in> ls_reach X s A" by (auto simp: ls_reach_def)
  qed
  show "ls_reach X s A \<subseteq> ls_reach X s (A \<union> B)" by (rule ls_reach_mono) simp
qed

lemma finite_objects:
  assumes "ext_ok X"
  shows "finite {i. ls_look X s i \<noteq> None}"
proof (rule inj_on_finite)
  show "inj_on (path_for X) {i. ls_look X s i \<noteq> None}"
    using assms by (auto simp: inj_on_def)
  show "path_for X ` {i. ls_look X s i \<noteq> None} \<subseteq> dom (map_of (st_objects s))"
  proof (rule image_subsetI)
    fix i
    assume "i \<in> {i. ls_look X s i \<noteq> None}"
    then obtain m where "store_get X s i = Inr m"
      by (auto simp: ls_look_Some_iff ls_get_def res_bind_Inr_iff)
    then show "path_for X i \<in> dom (map_of (st_objects s))"
      by (auto simp: store_get_Inr_iff)
  qed
  show "finite (dom (map_of (st_objects s)))" by (rule finite_dom_map_of)
qed

lemma gc_mark_total:
  assumes X: "ext_ok X"
  shows "(\<And>i j. i \<in> live \<Longrightarrow> (i, j) \<in> ls_edge X s \<Longrightarrow> j \<in> live \<union> set stack) \<Longrightarrow>
    gc_mark X s stack live = Some (ls_reach X s (live \<union> set stack))"
proof (induction "(card ({i. ls_look X s i \<noteq> None} - live), length stack)"
    arbitrary: stack live rule: wf_induct [OF wf_lex_prod [OF wf_less_than wf_less_than]])
  case 1
  let ?A = "{i. ls_look X s i \<noteq> None}"
  have IH: "gc_mark X s stack' live' = Some (ls_reach X s (live' \<union> set stack'))"
    if "card (?A - live') < card (?A - live) \<or>
        card (?A - live') = card (?A - live) \<and> length stack' < length stack"
      and "\<And>i j. i \<in> live' \<Longrightarrow> (i, j) \<in> ls_edge X s \<Longrightarrow> j \<in> live' \<union> set stack'"
    for stack' live'
    using "1.hyps" that by (auto simp: lex_prod_def)
  show ?case
  proof (cases "stack = []")
    case True
    moreover have "ls_reach X s live = live"
      using "1.prems" True by (intro ls_reach_closed) auto
    ultimately show ?thesis by (simp add: gc_mark.simps)
  next
    case False
    define x where "x = last stack"
    have st: "set stack = insert x (set (butlast stack))"
      using False by (metis append_butlast_last_id insert_def list.set(2) set_append sup_commute
          list.set(1) insert_is_Un x_def)
    have shorter: "length (butlast stack) < length stack" using False by simp
    show ?thesis
    proof (cases "x \<in> live")
      case True
      then have eq: "live \<union> set (butlast stack) = live \<union> set stack" using st by auto
      have "gc_mark X s (butlast stack) live = Some (ls_reach X s (live \<union> set (butlast stack)))"
        using "1.prems" shorter eq by (intro IH) auto
      with True False eq show ?thesis by (subst gc_mark.simps) (simp add: x_def)
    next
      case new: False
      show ?thesis
      proof (cases "ls_get X s x")
        case (Inl e)
        then have noedge: "(x, j) \<notin> ls_edge X s" for j by (simp add: ls_edge_def)
        have "x \<notin> ?A" using Inl by (simp add: ls_look_def)
        then have "?A - insert x live = ?A - live" by blast
        then have "gc_mark X s (butlast stack) (insert x live)
            = Some (ls_reach X s (insert x live \<union> set (butlast stack)))"
        proof (intro IH)
          show "j \<in> insert x live \<union> set (butlast stack)"
            if "i \<in> insert x live" "(i, j) \<in> ls_edge X s" for i j
            using "1.prems" [of i j] that noedge st by auto
        qed (use \<open>?A - insert x live = ?A - live\<close> shorter in simp)
        with Inl new False st show ?thesis by (subst gc_mark.simps) (simp add: x_def)
      next
        case (Inr ob)
        let ?new = "filter (\<lambda>l. l \<notin> insert x live) (object_links ob)"
        have "x \<in> ?A - live" using Inr new by (simp add: ls_look_def)
        then have "card (?A - insert x live) < card (?A - live)"
          using finite_objects [OF X] by (intro psubset_card_mono) auto
        moreover have edges: "(x, j) \<in> ls_edge X s \<longleftrightarrow> j \<in> set (object_links ob)" for j
          using Inr by (simp add: ls_edge_def)
        ultimately have "gc_mark X s (butlast stack @ ?new) (insert x live)
            = Some (ls_reach X s (insert x live \<union> set (butlast stack @ ?new)))"
          using "1.prems" st by (intro IH) auto
        moreover have "insert x live \<union> set (butlast stack @ ?new) = (live \<union> set stack) \<union> set ?new"
          using st by auto
        moreover have "ls_reach X s ((live \<union> set stack) \<union> set ?new) = ls_reach X s (live \<union> set stack)"
          using st edges by (intro ls_reach_absorb [of x]) auto
        ultimately show ?thesis using Inr new False by (subst gc_mark.simps) (simp add: x_def)
      qed
    qed
  qed
qed

lemma gc_sweep_abs:
  assumes X: "ext_ok X"
  shows "store_inv X U s \<Longrightarrow> \<exists>s'. gc_sweep X live is removed s
      = (Inr (removed + length (filter (\<lambda>i. i \<notin> live) is)), s')
    \<and> store_inv X U s' \<and> st_refs s' = st_refs s \<and> st_keys s' = st_keys s
    \<and> store_abs X s' = (\<lambda>i. if i \<in> set is \<and> i \<notin> live then None else store_abs X s i)"
proof (induction "is" arbitrary: removed s)
  case Nil
  then show ?case by simp
next
  case (Cons i "is")
  show ?case
  proof (cases "i \<in> live")
    case True
    obtain s' where "gc_sweep X live is removed s
        = (Inr (removed + length (filter (\<lambda>i. i \<notin> live) is)), s')"
        "store_inv X U s'" "st_refs s' = st_refs s" "st_keys s' = st_keys s"
        "store_abs X s' = (\<lambda>i. if i \<in> set is \<and> i \<notin> live then None else store_abs X s i)"
      using Cons.IH [OF Cons.prems, of removed] by blast
    with True show ?thesis by (intro exI [of _ s']) (auto simp: fun_eq_iff)
  next
    case False
    obtain t where t: "store_delete X i s = (Inr (), t)" by (simp add: store_delete_def)
    have "store_inv X U t" "store_abs X t = (store_abs X s)(i := None)"
        "st_refs t = st_refs s" "st_keys t = st_keys s"
      using store_delete_inv [OF Cons.prems t] store_delete_abs [OF X t] t
      by (auto simp: store_delete_def)
    moreover from this(1) obtain s' where "gc_sweep X live is (removed + 1) t
        = (Inr (removed + 1 + length (filter (\<lambda>i. i \<notin> live) is)), s')"
        "store_inv X U s'" "st_refs s' = st_refs t" "st_keys s' = st_keys t"
        "store_abs X s' = (\<lambda>i. if i \<in> set is \<and> i \<notin> live then None else store_abs X t i)"
      using Cons.IH [of t "removed + 1"] by blast
    ultimately show ?thesis
      using False t by (intro exI [of _ s']) (auto simp: act_bind_def fun_eq_iff)
  qed
qed

theorem ls_gc_spec:
  assumes X: "ext_ok X" and inv: "store_inv X U s"
  shows "\<exists>n s'. ls_gc X roots s = Some (Inr n, s') \<and> store_inv X U s' \<and> st_refs s' = st_refs s
    \<and> (\<forall>i. store_abs X s' i = (if i \<in> ls_reach X s (set roots) then store_abs X s i else None))"
proof -
  have mark: "gc_mark X s roots {} = Some (ls_reach X s (set roots))"
    using gc_mark_total [OF X, of "{}" s roots] by simp
  obtain s' n where "gc_sweep X (ls_reach X s (set roots)) (store_list_ids X s) 0 s = (Inr n, s')"
      "store_inv X U s'" "st_refs s' = st_refs s"
      "store_abs X s' = (\<lambda>i. if i \<in> set (store_list_ids X s) \<and> i \<notin> ls_reach X s (set roots)
         then None else store_abs X s i)"
    using gc_sweep_abs [OF X inv, of "ls_reach X s (set roots)" "store_list_ids X s" 0] by auto
  with mark store_list_ids_iff [OF X inv] show ?thesis by (auto simp: ls_gc_def)
qed

subsection \<open>Commit and history\<close>

text \<open>The generations from one on, along first parents.\<close>

inductive hist :: "ext \<Rightarrow> lstore \<Rightarrow> object_id option \<Rightarrow> (object_id \<times> generation) list \<Rightarrow> bool"
  for X s where
  hist_none: "hist X s None []"
| hist_gen: "ls_look X s i = Some (Gen g) \<Longrightarrow>
    hist X s (case gen_parents g of [] \<Rightarrow> None | p # _ \<Rightarrow> Some p) gs \<Longrightarrow> hist X s (Some i) ((i, g) # gs)"

inductive_cases hist_SomeE: "hist X s (Some i) gs"

lemma hist_history: "hist X s cur gs \<Longrightarrow> history_from X s cur out = Some (Inr (out @ gs))"
proof (induction arbitrary: out rule: hist.induct)
  case hist_none
  show ?case by (simp add: history_from.simps)
next
  case (hist_gen i g gs)
  then have "ls_get X s i = Inr (Gen g)" by (simp add: ls_look_Some_iff)
  with hist_gen.IH [of "out @ [(i, g)]"] show ?case by (subst history_from.simps) simp
qed

lemma hist_grows: "hist X s cur gs \<Longrightarrow> ls_look X s \<subseteq>\<^sub>m ls_look X t \<Longrightarrow> hist X t cur gs"
  by (induction rule: hist.induct) (auto intro: hist.intros map_le_Some)

definition commit_gen :: "object_id \<Rightarrow> object_id list \<Rightarrow> string \<Rightarrow> u64 \<Rightarrow> generation" where
  "commit_gen root parents label now =
     \<lparr>gen_root = root, gen_parents = parents, gen_time = now, gen_label = label, gen_meta = []\<rparr>"

lemma ls_look_set_ref [simp]: "ls_look X (store_set_ref X n i s) = ls_look X s"
  by (rule ext) (simp add: ls_look_abs)

lemma ls_okay_set_ref [simp]: "ls_okay X U k (store_set_ref X n i s) \<longleftrightarrow> ls_okay X U k s"
  by (simp add: ls_okay_def) (simp add: store_set_ref_def)

lemma wf_obj_id: "ext_ok X \<Longrightarrow> wf_id (obj_id X k ob)"
  by (simp add: obj_id_def)

lemma ls_commit_total:
  assumes s: "ls_okay X U k s" and g: "usable_obj U (Gen (commit_gen root parents label now))"
  obtains i t where "ls_commit X root parents label now s = (Inr i, t)" "ls_okay X U k t"
    "i = obj_id X k (Gen (commit_gen root parents label now))"
    "ls_look X s \<subseteq>\<^sub>m ls_look X t" "ls_look X t i = Some (Gen (commit_gen root parents label now))"
    "ls_head X t = Inr (Some i)"
proof -
  let ?g = "Gen (commit_gen root parents label now)"
  obtain t where t: "ls_put X ?g s = (Inr (obj_id X k ?g), t)" "ls_okay X U k t"
      "ls_look X t (obj_id X k ?g) = Some ?g" "ls_look X s \<subseteq>\<^sub>m ls_look X t"
    using ls.put_total [OF s g] by blast
  have "ls_commit X root parents label now s
      = (Inr (obj_id X k ?g), store_set_ref X head_ref (obj_id X k ?g) t)"
    using t(1) by (simp add: ls_commit_def act_bind_def commit_gen_def)
  moreover have "ls_head X (store_set_ref X head_ref (obj_id X k ?g) t) = Inr (Some (obj_id X k ?g))"
    using s by (simp add: ls_head_def store_get_set_ref wf_obj_id ls_okay_def)
  ultimately show ?thesis using that t by simp
qed

subsection \<open>What later writes leave readable\<close>

lemma ls_get_grows: "ls_get X s i = Inr ob \<Longrightarrow> ls_look X s \<subseteq>\<^sub>m ls_look X t \<Longrightarrow> ls_get X t i = Inr ob"
  by (metis ls_look_Some_iff map_le_Some)

lemma res_map_all_grows:
  "res_map_all f xs = Inr ys \<Longrightarrow> (\<And>x y. f x = Inr y \<Longrightarrow> g x = Inr y) \<Longrightarrow> res_map_all g xs = Inr ys"
  by (induction xs arbitrary: ys) (auto simp: res_bind_Inr_iff)

lemma read_chunk_grows:
  "read_chunk X s c = Inr d \<Longrightarrow> ls_look X s \<subseteq>\<^sub>m ls_look X t \<Longrightarrow> read_chunk X t c = Inr d"
  by (auto simp: read_chunk_def res_bind_Inr_iff dest: ls_get_grows)

lemma read_chunk_Inr_iff: "read_chunk X s c = Inr d \<longleftrightarrow> ls_get X s c = Inr (Chunk d)"
  by (cases "ls_get X s c") (auto simp: read_chunk_def split: object.splits)

lemma read_bytes_Inr_iff:
  "read_bytes X s i = Inr data \<longleftrightarrow>
     (\<exists>cs ds. ls_get X s i = Inr (File cs) \<and> res_map_all (read_chunk X s) cs = Inr ds
        \<and> data = concat ds)"
proof (cases "ls_get X s i")
  case (Inr ob)
  then show ?thesis by (cases ob) (auto simp: read_bytes_def res_bind_Inr_iff)
qed (simp add: read_bytes_def)

lemma read_bytes_grows:
  assumes "read_bytes X s i = Inr data" and grows: "ls_look X s \<subseteq>\<^sub>m ls_look X t"
  shows "read_bytes X t i = Inr data"
proof -
  from assms(1) obtain chunks ds where get: "ls_get X s i = Inr (File chunks)"
    and cs: "res_map_all (read_chunk X s) chunks = Inr ds" "data = concat ds"
    using read_bytes_Inr_iff by blast
  have "res_map_all (read_chunk X t) chunks = Inr ds"
    by (rule res_map_all_grows [OF cs(1)]) (rule read_chunk_grows [OF _ grows])
  with ls_get_grows [OF get grows] cs(2) show ?thesis by (simp add: read_bytes_def)
qed

text \<open>Two good stores of one key that can both read an id read the same object there.\<close>

lemma ls_look_agree:
  assumes "ls_okay X U k s" "ls_okay X U k t" "ls_look X s i = Some a" "ls_look X t i = Some b"
  shows "a = b"
proof -
  from assms(3,4) obtain m n where
    m: "store_abs X s i = Some m" "object_decode m = Inr a"
    and n: "store_abs X t i = Some n" "object_decode n = Inr b"
    by (auto simp: ls_look_Some_iff ls_get_Inr_iff)
  have "id_of X k m = i" "m \<in> U" "id_of X k n = i" "n \<in> U" "inj_on (id_of X k) U"
    using store_inv_abs [of X U s i m] store_inv_abs [of X U t i n] assms(1,2) m n
    by (auto simp: ls_okay_def store_inv_def)
  then have "m = n" by (metis inj_onD)
  with m n show "a = b" by simp
qed

lemma ls_get_agree:
  "ls_okay X U k s \<Longrightarrow> ls_okay X U k t \<Longrightarrow> ls_get X s i = Inr a \<Longrightarrow> ls_get X t i = Inr b \<Longrightarrow> a = b"
  using ls_look_agree ls_look_Some_iff by metis

lemma res_map_all_agree:
  "res_map_all f xs = Inr ys \<Longrightarrow> res_map_all g xs = Inr zs \<Longrightarrow>
     (\<And>x y z. f x = Inr y \<Longrightarrow> g x = Inr z \<Longrightarrow> y = z) \<Longrightarrow> ys = zs"
  by (induction xs arbitrary: ys zs) (auto simp: res_bind_Inr_iff)

lemma read_bytes_agree:
  assumes okay: "ls_okay X U k s" "ls_okay X U k t"
    and s: "read_bytes X s i = Inr a" and t: "read_bytes X t i = Inr b"
  shows "a = b"
proof -
  from s obtain cs ds where s': "ls_get X s i = Inr (File cs)"
      "res_map_all (read_chunk X s) cs = Inr ds" "a = concat ds"
    using read_bytes_Inr_iff by blast
  from t obtain cs' ds' where t': "ls_get X t i = Inr (File cs')"
      "res_map_all (read_chunk X t) cs' = Inr ds'" "b = concat ds'"
    using read_bytes_Inr_iff by blast
  have "cs = cs'" using ls_get_agree [OF okay s'(1) t'(1)] by simp
  moreover have "d = d'" if "read_chunk X s c = Inr d" "read_chunk X t c = Inr d'" for c d d'
    using that ls_get_agree [OF okay] unfolding read_chunk_Inr_iff by blast
  ultimately have "ds = ds'" using res_map_all_agree s'(2) t'(2) by metis
  with s' t' show ?thesis by simp
qed

subsection \<open>Puts leave the refs alone\<close>

lemma act_map_invariant:
  "(\<And>x u. P u \<Longrightarrow> P (snd (f x u))) \<Longrightarrow> P s \<Longrightarrow> P (snd (act_map f xs s))"
proof (induction xs arbitrary: s)
  case (Cons x xs)
  have "P (snd (f x s))" using Cons.prems by blast
  then have "P (snd (act_map f xs (snd (f x s))))"
    using Cons.IH Cons.prems(1) by blast
  with \<open>P (snd (f x s))\<close> show ?case
    by (auto split: sum.splits prod.splits)
qed simp

lemma ls_put_refs: "st_refs (snd (ls_put X ob s)) = st_refs s"
  by (simp add: ls_put_def)

lemma write_bytes_refs: "st_refs (snd (write_bytes X data s)) = st_refs s"
proof -
  let ?cs = "act_map (\<lambda>r. ls_put X (Chunk (chunk_slice data r))) (chunk_split gear_table data 0) s"
  have "st_refs (snd ?cs) = st_refs s"
    by (rule act_map_invariant) (simp_all add: ls_put_refs)
  then show ?thesis
    by (auto simp: write_bytes_def act_bind_def ls_put_refs split: sum.splits prod.splits)
qed

end
