(* ===== verification/AuditLog.thy ===== *)
theory AuditLog
  imports Capability Lifestream
begin

section \<open>The audit log\<close>

text \<open>
  \<open>crates/weave/src/audit.rs\<close> and \<open>codec.rs\<close>: the events, their payload encoding, and the chain
  of entries in the Lifestream.  \<open>Writer\<close> appends to a buffer, so a writer method is the bytes it
  appends; \<open>Reader\<close> is a reader of \<open>Prelude\<close> with the error of this crate.
\<close>

subsection \<open>The record codec\<close>

definition wv_end :: wv_error where
  "wv_end = WvCorrupt ''unexpected end of record''"

definition wv_str :: "(wv_error, string) reader" where
  "wv_str = rd_str32 wv_end (WvCorrupt ''string not utf8'')"

definition wv_u16 :: "(wv_error, u16) reader" where
  "wv_u16 = rd_be wv_end 2"

definition wv_u32 :: "(wv_error, u32) reader" where
  "wv_u32 = rd_be wv_end 4"

definition wv_u64 :: "(wv_error, u64) reader" where
  "wv_u64 = rd_be wv_end 8"

definition wv_arr16 :: "(wv_error, bytes) reader" where
  "wv_arr16 = rd_take wv_end 16"

definition put_opt_u64 :: "u64 option \<Rightarrow> bytes" where
  "put_opt_u64 v = (case v of Some x \<Rightarrow> 1 # be_bytes 8 x | None \<Rightarrow> [0])"

definition put_opt_u32 :: "u32 option \<Rightarrow> bytes" where
  "put_opt_u32 v = (case v of Some x \<Rightarrow> 1 # be_bytes 4 x | None \<Rightarrow> [0])"

definition wv_opt_u64 :: "(wv_error, u64 option) reader" where
  "wv_opt_u64 =
     rd_bind (rd_byte wv_end) (\<lambda>f.
       if f = 0 then rd_ret None else rd_bind wv_u64 (\<lambda>x. rd_ret (Some x)))"

definition wv_opt_u32 :: "(wv_error, u32 option) reader" where
  "wv_opt_u32 =
     rd_bind (rd_byte wv_end) (\<lambda>f.
       if f = 0 then rd_ret None else rd_bind wv_u32 (\<lambda>x. rd_ret (Some x)))"

subsection \<open>Events\<close>

datatype event =
    EvGrant grant_id string resource rights "u64 option" "u32 option"
  | EvUse grant_id string resource rights
  | EvDeny string resource rights string
  | EvRevoke grant_id

definition event_kind :: "event \<Rightarrow> string" where
  "event_kind ev =
     (case ev of
        EvGrant _ _ _ _ _ _ \<Rightarrow> ''grant''
      | EvUse _ _ _ _ \<Rightarrow> ''use''
      | EvDeny _ _ _ _ \<Rightarrow> ''deny''
      | EvRevoke _ \<Rightarrow> ''revoke'')"

record audit_entry =
  ae_id :: object_id
  ae_seq :: u64
  ae_time :: u64
  ae_event :: event

definition encode_resource :: "resource \<Rightarrow> bytes" where
  "encode_resource r =
     (case r of
        RFile path \<Rightarrow> 1 # put_str32 (to_string_lossy path)
      | RNet host port \<Rightarrow> 2 # put_str32 host @ be_bytes 2 port
      | RDevice name \<Rightarrow> 3 # put_str32 name
      | RService name action \<Rightarrow> 4 # put_str32 name @ put_str32 action)"

definition decode_resource :: "(wv_error, resource) reader" where
  "decode_resource =
     rd_bind (rd_byte wv_end) (\<lambda>tag.
       if tag = 1 then rd_bind wv_str (\<lambda>p. rd_ret (RFile p))
       else if tag = 2 then rd_bind wv_str (\<lambda>h. rd_bind wv_u16 (\<lambda>p. rd_ret (RNet h p)))
       else if tag = 3 then rd_bind wv_str (\<lambda>n. rd_ret (RDevice n))
       else if tag = 4 then rd_bind wv_str (\<lambda>n. rd_bind wv_str (\<lambda>a. rd_ret (RService n a)))
       else rd_fail (WvCorrupt (''bad resource tag '' @ show_nat (unat tag))))"

definition encode_event :: "event \<Rightarrow> bytes" where
  "encode_event ev =
     (case ev of
        EvGrant g p r q e m \<Rightarrow>
          1 # g @ put_str32 p @ encode_resource r @ be_bytes 4 q @ put_opt_u64 e @ put_opt_u32 m
      | EvUse g p r q \<Rightarrow> 2 # g @ put_str32 p @ encode_resource r @ be_bytes 4 q
      | EvDeny p r q why \<Rightarrow> 3 # put_str32 p @ encode_resource r @ be_bytes 4 q @ put_str32 why
      | EvRevoke g \<Rightarrow> 4 # g)"

definition decode_event :: "(wv_error, event) reader" where
  "decode_event =
     rd_bind (rd_byte wv_end) (\<lambda>tag.
       if tag = 1 then
         rd_bind wv_arr16 (\<lambda>g. rd_bind wv_str (\<lambda>p. rd_bind decode_resource (\<lambda>r.
         rd_bind wv_u32 (\<lambda>q. rd_bind wv_opt_u64 (\<lambda>e. rd_bind wv_opt_u32 (\<lambda>m.
         rd_ret (EvGrant g p r (rights_from_bits q) e m)))))))
       else if tag = 2 then
         rd_bind wv_arr16 (\<lambda>g. rd_bind wv_str (\<lambda>p. rd_bind decode_resource (\<lambda>r.
         rd_bind wv_u32 (\<lambda>q. rd_ret (EvUse g p r (rights_from_bits q))))))
       else if tag = 3 then
         rd_bind wv_str (\<lambda>p. rd_bind decode_resource (\<lambda>r. rd_bind wv_u32 (\<lambda>q.
         rd_bind wv_str (\<lambda>why. rd_ret (EvDeny p r (rights_from_bits q) why)))))
       else if tag = 4 then rd_bind wv_arr16 (\<lambda>g. rd_ret (EvRevoke g))
       else rd_fail (WvCorrupt (''bad event tag '' @ show_nat (unat tag))))"

definition payload_version :: byte where
  "payload_version = 1"

definition encode_payload :: "u64 \<Rightarrow> u64 \<Rightarrow> event \<Rightarrow> bytes" where
  "encode_payload sq time ev =
     payload_version # be_bytes 8 sq @ be_bytes 8 time @ encode_event ev"

definition rd_payload :: "(wv_error, u64 \<times> u64 \<times> event) reader" where
  "rd_payload =
     rd_bind (rd_byte wv_end) (\<lambda>v.
       if v \<noteq> payload_version
       then rd_fail (WvCorrupt (''audit payload version '' @ show_nat (unat v)))
       else rd_bind wv_u64 (\<lambda>sq. rd_bind wv_u64 (\<lambda>time. rd_bind decode_event (\<lambda>ev.
         rd_ret (sq, time, ev)))))"

definition decode_payload :: "bytes \<Rightarrow> wv_error + u64 \<times> u64 \<times> event" where
  "decode_payload buf = res_bind (rd_payload buf) (\<lambda>(x, _). Inr x)"

subsection \<open>The chain\<close>

definition child_payload :: string where "child_payload = ''payload''"
definition child_prev :: string where "child_prev = ''prev''"

definition audit_node :: "object_id \<Rightarrow> object_id option \<Rightarrow> object" where
  "audit_node payload prev =
     Tree (\<lparr>te_name = child_payload, te_kind = KFile, te_id = payload, te_mode = 0\<rparr>
       # (case prev of None \<Rightarrow> []
          | Some p \<Rightarrow> [\<lparr>te_name = child_prev, te_kind = KTree, te_id = p, te_mode = 0\<rparr>]))"

definition audit_append ::
  "ext \<Rightarrow> object_id option \<Rightarrow> u64 \<Rightarrow> u64 \<Rightarrow> event \<Rightarrow> (lstore, wv_error, object_id) action" where
  "audit_append X prev sq time ev =
     act_map_err WvLifestream
       (act_bind (write_bytes X (encode_payload sq time ev)) (\<lambda>p. ls_put X (audit_node p prev)))"

definition read_entry :: "ext \<Rightarrow> lstore \<Rightarrow> object_id \<Rightarrow> wv_error + audit_entry \<times> object_id option" where
  "read_entry X s i =
     res_bind (res_map_err WvLifestream (ls_get X s i)) (\<lambda>ob. case ob of
        Tree entries \<Rightarrow>
          res_bind (ok_or (WvCorrupt ''audit entry has no payload'')
              (map_option te_id (find (\<lambda>e. te_name e = child_payload) entries))) (\<lambda>p.
          let prev = map_option te_id (find (\<lambda>e. te_name e = child_prev) entries) in
          res_bind (res_map_err WvLifestream (read_bytes X s p)) (\<lambda>payload.
          res_bind (decode_payload payload) (\<lambda>(sq, time, ev).
          Inr (\<lparr>ae_id = i, ae_seq = sq, ae_time = time, ae_event = ev\<rparr>, prev))))
      | _ \<Rightarrow> Inl (WvCorrupt ''audit entry is not a tree''))"

partial_function (option) read_chain_from ::
  "ext \<Rightarrow> lstore \<Rightarrow> object_id option \<Rightarrow> audit_entry list \<Rightarrow> (wv_error + audit_entry list) option" where
  [code]: "read_chain_from X s cur out =
     (case cur of
        None \<Rightarrow> Some (Inr (rev out))
      | Some i \<Rightarrow>
          (case read_entry X s i of
             Inl e \<Rightarrow> Some (Inl e)
           | Inr (e, prev) \<Rightarrow> read_chain_from X s prev (out @ [e])))"

definition read_chain :: "ext \<Rightarrow> lstore \<Rightarrow> object_id \<Rightarrow> (wv_error + audit_entry list) option" where
  "read_chain X s head = read_chain_from X s (Some head) []"

subsection \<open>Codec facts\<close>

definition wf_resource :: "resource \<Rightarrow> bool" where
  "wf_resource r =
     (case r of
        RFile path \<Rightarrow> wf_str32 path
      | RNet host _ \<Rightarrow> wf_str32 host
      | RDevice name \<Rightarrow> wf_str32 name
      | RService name action \<Rightarrow> wf_str32 name \<and> wf_str32 action)"

definition wf_event :: "event \<Rightarrow> bool" where
  "wf_event ev =
     (case ev of
        EvGrant g p r q e m \<Rightarrow> length g = 16 \<and> wf_str32 p \<and> wf_resource r \<and> q < 8
      | EvUse g p r q \<Rightarrow> length g = 16 \<and> wf_str32 p \<and> wf_resource r \<and> q < 8
      | EvDeny p r q why \<Rightarrow> wf_str32 p \<and> wf_resource r \<and> q < 8 \<and> wf_str32 why
      | EvRevoke g \<Rightarrow> length g = 16)"

lemmas wv_reader_defs = wv_str_def wv_u16_def wv_u32_def wv_u64_def wv_arr16_def

interpretation res_codec: prefix_codec encode_resource decode_resource wf_resource
proof
  fix r rest
  assume wf: "wf_resource r"
  have "to_string_lossy p = p" if "wf_str32 p" for p
    using that by (simp add: wf_str32_def to_string_lossy_id)
  with wf show "decode_resource (encode_resource r @ rest) = Inr (r, rest)"
    by (cases r)
      (simp_all add: encode_resource_def decode_resource_def wf_resource_def wv_reader_defs
        codec_simps str32.dec_bind str32.dec_enc)
qed

interpretation opt64_codec: prefix_codec put_opt_u64 wv_opt_u64 "\<lambda>_. True"
  by unfold_locales
    (auto simp: put_opt_u64_def wv_opt_u64_def wv_reader_defs codec_simps split: option.splits)

interpretation opt32_codec: prefix_codec put_opt_u32 wv_opt_u32 "\<lambda>_. True"
  by unfold_locales
    (auto simp: put_opt_u32_def wv_opt_u32_def wv_reader_defs codec_simps split: option.splits)

interpretation event_codec: prefix_codec encode_event decode_event wf_event
proof
  fix ev rest
  assume wf: "wf_event ev"
  show "decode_event (encode_event ev @ rest) = Inr (ev, rest)"
    using wf
    by (cases ev)
      (simp_all add: encode_event_def decode_event_def wf_event_def wv_reader_defs codec_simps
        str32.dec_bind str32.dec_enc res_codec.dec_bind opt64_codec.dec_bind opt32_codec.dec_bind
        rights_from_bits_small)
qed

lemma decode_payload_encode:
  "wf_event ev \<Longrightarrow> decode_payload (encode_payload sq time ev) = Inr (sq, time, ev)"
  using event_codec.dec_enc_all [of ev]
  by (simp add: decode_payload_def encode_payload_def rd_payload_def wv_reader_defs codec_simps
      rd_bind_def)

subsection \<open>Chains of entries\<close>

text \<open>The entries from the first to the one at \<open>cur\<close>, as a relation without a loop.\<close>

inductive chain :: "ext \<Rightarrow> lstore \<Rightarrow> object_id option \<Rightarrow> audit_entry list \<Rightarrow> bool"
  for X s where
  chain_none: "chain X s None []"
| chain_some: "read_entry X s i = Inr (e, prev) \<Longrightarrow> chain X s prev es \<Longrightarrow> chain X s (Some i) (es @ [e])"

inductive_cases chain_NoneE: "chain X s None es"
inductive_cases chain_SomeE: "chain X s (Some i) es"

lemma chain_read_from: "chain X s cur es \<Longrightarrow> read_chain_from X s cur out = Some (Inr (es @ rev out))"
proof (induction arbitrary: out rule: chain.induct)
  case chain_none
  show ?case by (simp add: read_chain_from.simps)
next
  case (chain_some i e prev es)
  then show ?case by (subst read_chain_from.simps) simp
qed

lemma chain_read: "chain X s (Some i) es \<Longrightarrow> read_chain X s i = Some (Inr es)"
  by (simp add: read_chain_def chain_read_from)

lemma chain_head: "chain X s cur (es @ [e]) \<Longrightarrow> cur = Some (ae_id e)"
proof (cases cur)
  case None
  assume "chain X s cur (es @ [e])"
  with None show ?thesis by (auto elim: chain_NoneE)
next
  case (Some i)
  assume "chain X s cur (es @ [e])"
  with Some obtain prev where "read_entry X s i = Inr (e, prev)" by (auto elim: chain_SomeE)
  with Some show ?thesis
    by (cases "ls_get X s i")
      (auto simp: read_entry_def Let_def res_bind_Inr_iff split: object.splits)
qed

lemma chain_unique: "chain X s cur es \<Longrightarrow> chain X s cur es' \<Longrightarrow> es = es'"
  using chain_read_from [of X s cur es "[]"] chain_read_from [of X s cur es' "[]"] by simp

lemma read_entry_Inr_iff:
  "read_entry X s i = Inr (e, prev) \<longleftrightarrow>
     (\<exists>entries p payload sq time ev.
        ls_get X s i = Inr (Tree entries)
      \<and> map_option te_id (find (\<lambda>e. te_name e = child_payload) entries) = Some p
      \<and> read_bytes X s p = Inr payload \<and> decode_payload payload = Inr (sq, time, ev)
      \<and> e = \<lparr>ae_id = i, ae_seq = sq, ae_time = time, ae_event = ev\<rparr>
      \<and> prev = map_option te_id (find (\<lambda>e. te_name e = child_prev) entries))"
proof (cases "ls_get X s i")
  case (Inr ob)
  then show ?thesis by (cases ob) (auto simp: read_entry_def Let_def res_bind_Inr_iff)
qed (simp add: read_entry_def)

lemma read_entry_grows:
  "read_entry X s i = Inr x \<Longrightarrow> ls_look X s \<subseteq>\<^sub>m ls_look X t \<Longrightarrow> read_entry X t i = Inr x"
proof -
  assume e: "read_entry X s i = Inr x" and grows: "ls_look X s \<subseteq>\<^sub>m ls_look X t"
  note mono = ls_get_grows [OF _ grows] read_bytes_grows [OF _ grows]
  obtain a prev where x: "x = (a, prev)" by fastforce
  show "read_entry X t i = Inr x"
    using e unfolding x read_entry_Inr_iff by (elim exE conjE) (intro exI conjI, (erule mono | assumption)+)
qed

lemma read_entry_agree:
  assumes okay: "ls_okay X U k s" "ls_okay X U k t"
    and "read_entry X s i = Inr x" "read_entry X t i = Inr y"
  shows "x = y"
proof -
  obtain e p f q where xy: "x = (e, p)" "y = (f, q)" by fastforce
  then show ?thesis
    using assms(3,4) ls_get_agree [OF okay] read_bytes_agree [OF okay]
    unfolding xy read_entry_Inr_iff by fastforce
qed

lemma chain_grows: "chain X s cur es \<Longrightarrow> ls_look X s \<subseteq>\<^sub>m ls_look X t \<Longrightarrow> chain X t cur es"
  by (induction rule: chain.induct) (auto intro: chain.intros read_entry_grows)

lemma chain_agree:
  "chain X s cur es \<Longrightarrow> chain X t cur es' \<Longrightarrow> ls_okay X U k s \<Longrightarrow> ls_okay X U k t \<Longrightarrow> es = es'"
proof (induction arbitrary: es' rule: chain.induct)
  case chain_none
  then show ?case by (auto elim: chain_NoneE)
next
  case (chain_some i e prev es)
  from chain_some.prems(1) obtain f q fs where
    f: "read_entry X t i = Inr (f, q)" "chain X t q fs" "es' = fs @ [f]"
    by (rule chain_SomeE)
  then have "(e, prev) = (f, q)"
    using read_entry_agree chain_some.prems(2,3) chain_some.hyps(1) by blast
  with chain_some f show ?case by simp
qed

subsection \<open>Appending\<close>

definition audit_objs :: "ext \<Rightarrow> ls_keys \<Rightarrow> object_id option \<Rightarrow> u64 \<Rightarrow> u64 \<Rightarrow> event \<Rightarrow> object list" where
  "audit_objs X k prev sq time ev =
     (let f = encode_payload sq time ev
      in file_objs X k f @ [audit_node (obj_id X k (file_obj X k f)) prev])"

definition entry_id :: "ext \<Rightarrow> ls_keys \<Rightarrow> object_id option \<Rightarrow> u64 \<Rightarrow> u64 \<Rightarrow> event \<Rightarrow> object_id" where
  "entry_id X k prev sq time ev = obj_id X k (last (audit_objs X k prev sq time ev))"

lemma audit_append_total:
  assumes s: "ls_okay X U k s" and ev: "wf_event ev"
    and use: "list_all (usable_obj U) (audit_objs X k prev sq time ev)"
  obtains t where "audit_append X prev sq time ev s = (Inr (entry_id X k prev sq time ev), t)"
    "ls_okay X U k t" "ls_look X s \<subseteq>\<^sub>m ls_look X t" "st_refs t = st_refs s"
    "read_entry X t (entry_id X k prev sq time ev)
       = Inr (\<lparr>ae_id = entry_id X k prev sq time ev, ae_seq = sq, ae_time = time, ae_event = ev\<rparr>, prev)"
proof -
  let ?pay = "encode_payload sq time ev"
  let ?f = "obj_id X k (file_obj X k ?pay)"
  let ?i = "entry_id X k prev sq time ev"
  have i: "?i = obj_id X k (audit_node ?f prev)" by (simp add: entry_id_def audit_objs_def Let_def)
  have "list_all (usable_obj U) (file_objs X k ?pay)" "usable_obj U (audit_node ?f prev)"
    using use by (simp_all add: audit_objs_def Let_def)
  then have "stores (ls_okay X U k) (obj_id X k) (ls_look X)
      (act_bind (write_bytes X ?pay) (\<lambda>p. ls_put X (audit_node p prev)))
      ?i (file_objs X k ?pay @ [audit_node ?f prev])"
    unfolding i by (intro stores_bind [OF write_bytes_stores] ls.stores_put)
  then obtain t where t: "act_bind (write_bytes X ?pay) (\<lambda>p. ls_put X (audit_node p prev)) s = (Inr ?i, t)"
      "ls_okay X U k t" "ls_look X s \<subseteq>\<^sub>m ls_look X t"
      "\<forall>ob \<in> set (file_objs X k ?pay @ [audit_node ?f prev]). ls_look X t (obj_id X k ob) = Some ob"
    using s by (rule storesE)
  have "st_refs t = st_refs s"
    using t(1) write_bytes_refs [of X ?pay s] ls_put_refs [of X]
    by (auto elim!: act_bind_cases) (metis snd_conv)
  moreover have "read_bytes X t ?f = Inr ?pay"
    using t(4) by (intro read_bytes_look) simp
  moreover have "ls_get X t ?i = Inr (audit_node ?f prev)"
    using t(4) i by (simp add: ls_look_Some_iff)
  ultimately show ?thesis
    using that [of t] t decode_payload_encode [OF ev, of sq time]
    by (auto simp: audit_append_def read_entry_def audit_node_def child_payload_def child_prev_def
        split: option.splits)
qed

end
