(* ===== verification/Broker.thy ===== *)
theory Broker
  imports AuditLog
begin

section \<open>The capability broker\<close>

text \<open>
  \<open>crates/weave/src/broker.rs\<close>.  A broker owns its store, its policy, the head and length of the
  audit chain and the table of grants (a \<open>HashMap\<close>, here an association list; nothing proved
  depends on its order).  Every method is an action on the broker, with the readings of the
  clock it makes as arguments in the order it makes them: \<open>grant\<close> reads it for the grant and
  again for the log entry.  \<open>uses += 1\<close> and \<open>seq += 1\<close> wrap, as they do in a release build.
\<close>

record grant_state =
  gs_grant :: grant
  gs_revoked :: bool
  gs_uses :: u32
  gs_secret :: "bytes option"

record rule =
  rule_principal :: "string option"
  rule_resource :: resource
  rule_rights :: rights
  rule_limits :: limits

datatype policy = AllowAll | DenyAll | Rules "rule list"

type_synonym grant_table = "(grant_id \<times> grant_state) list"

record broker =
  bk_ls :: lstore
  bk_policy :: policy
  bk_head :: "object_id option"
  bk_seq :: u64
  bk_grants :: grant_table

definition audit_ref :: string where
  "audit_ref = ''weave-audit''"

subsection \<open>Policy\<close>

definition rule_matches :: "rule \<Rightarrow> string \<Rightarrow> resource \<Rightarrow> rights \<Rightarrow> bool" where
  "rule_matches r p res q \<longleftrightarrow>
     (case rule_principal r of None \<Rightarrow> True | Some n \<Rightarrow> n = p)
     \<and> res_covers (rule_resource r) res \<and> rights_contains (rule_rights r) q"

definition policy_decide :: "policy \<Rightarrow> string \<Rightarrow> resource \<Rightarrow> rights \<Rightarrow> (rights \<times> limits) option" where
  "policy_decide pol p res q =
     (case pol of
        AllowAll \<Rightarrow> Some (q, limits_none)
      | DenyAll \<Rightarrow> None
      | Rules rules \<Rightarrow> map_option (\<lambda>r. (q, rule_limits r)) (find (\<lambda>r. rule_matches r p res q) rules))"

subsection \<open>The log\<close>

definition broker_log :: "ext \<Rightarrow> u64 \<Rightarrow> event \<Rightarrow> (broker, wv_error, unit) action" where
  "broker_log X now ev b =
     (case audit_append X (bk_head b) (bk_seq b) now ev (bk_ls b) of
        (Inl e, s) \<Rightarrow> (Inl e, b\<lparr>bk_ls := s\<rparr>)
      | (Inr i, s) \<Rightarrow>
          (Inr (), b\<lparr>bk_ls := store_set_ref X audit_ref i s, bk_head := Some i,
                    bk_seq := bk_seq b + 1\<rparr>))"

subsection \<open>Replay\<close>

definition new_grant :: "grant_id \<Rightarrow> string \<Rightarrow> resource \<Rightarrow> rights \<Rightarrow> u64 \<Rightarrow> u64 option \<Rightarrow> u32 option
    \<Rightarrow> bytes option \<Rightarrow> grant_state" where
  "new_grant g p r q now e m secret =
     \<lparr>gs_grant = \<lparr>gr_id = g, gr_principal = p, gr_resource = r, gr_rights = q, gr_granted = now,
                  gr_expires = e, gr_max_uses = m\<rparr>,
      gs_revoked = False, gs_uses = 0, gs_secret = secret\<rparr>"

definition add_use :: "grant_state \<Rightarrow> grant_state" where
  "add_use gs = gs\<lparr>gs_uses := gs_uses gs + 1\<rparr>"

definition set_revoked :: "grant_state \<Rightarrow> grant_state" where
  "set_revoked gs = gs\<lparr>gs_revoked := True\<rparr>"

definition replay_entry :: "audit_entry \<Rightarrow> grant_table \<Rightarrow> grant_table" where
  "replay_entry e grants =
     (case ae_event e of
        EvGrant g p r q ex m \<Rightarrow> AList.update g (new_grant g p r q (ae_time e) ex m None) grants
      | EvUse g _ _ _ \<Rightarrow> AList.map_entry g add_use grants
      | EvRevoke g \<Rightarrow> AList.map_entry g set_revoked grants
      | EvDeny _ _ _ _ \<Rightarrow> grants)"

definition broker_replay :: "ext \<Rightarrow> lstore \<Rightarrow> object_id option \<Rightarrow> (wv_error + grant_table \<times> u64) option" where
  "broker_replay X s head =
     map_option (\<lambda>r. res_bind r (\<lambda>es. Inr (fold replay_entry es [], of_nat (length es))))
       (case head of Some h \<Rightarrow> read_chain X s h | None \<Rightarrow> Some (Inr []))"

definition broker_open :: "ext \<Rightarrow> lstore \<Rightarrow> policy \<Rightarrow> (wv_error + broker) option" where
  "broker_open X s pol =
     (case res_map_err WvLifestream (store_get_ref X s audit_ref) of
        Inl e \<Rightarrow> Some (Inl e)
      | Inr head \<Rightarrow>
          map_option (\<lambda>r. res_bind r (\<lambda>(grants, sq).
            Inr \<lparr>bk_ls = s, bk_policy = pol, bk_head = head, bk_seq = sq, bk_grants = grants\<rparr>))
            (broker_replay X s head))"

definition broker_reload :: "ext \<Rightarrow> broker \<Rightarrow> ((wv_error + bool) \<times> broker) option" where
  "broker_reload X b =
     (case res_map_err WvLifestream (store_get_ref X (bk_ls b) audit_ref) of
        Inl e \<Rightarrow> Some (Inl e, b)
      | Inr head \<Rightarrow>
          if head = bk_head b then Some (Inr False, b)
          else map_option (\<lambda>r. case r of
              Inl e \<Rightarrow> (Inl e, b)
            | Inr (grants, sq) \<Rightarrow> (Inr True, b\<lparr>bk_grants := grants, bk_head := head, bk_seq := sq\<rparr>))
            (broker_replay X (bk_ls b) head))"

subsection \<open>Granting\<close>

definition draw :: "ext \<Rightarrow> nat \<Rightarrow> broker \<Rightarrow> bytes \<times> broker" where
  "draw X n b =
     (x_random X (st_draws (bk_ls b)) n,
      b\<lparr>bk_ls := (bk_ls b)\<lparr>st_draws := st_draws (bk_ls b) + 1\<rparr>\<rparr>)"

definition broker_grant ::
  "ext \<Rightarrow> string \<Rightarrow> resource \<Rightarrow> rights \<Rightarrow> limits \<Rightarrow> u64 \<Rightarrow> u64 \<Rightarrow> (broker, wv_error, capability) action" where
  "broker_grant X p r q lim now now_log b0 =
     (let (g, b1) = draw X 16 b0;
          (secret, b2) = draw X 32 b1
      in case broker_log X now_log (EvGrant g p r q (lim_expires lim) (lim_max_uses lim)) b2 of
           (Inl e, b3) \<Rightarrow> (Inl e, b3)
         | (Inr _, b3) \<Rightarrow>
             (Inr \<lparr>cap_grant = g, cap_secret = secret\<rparr>,
              b3\<lparr>bk_grants := AList.update g
                   (new_grant g p r q now (lim_expires lim) (lim_max_uses lim) (Some secret))
                   (bk_grants b3)\<rparr>))"

definition broker_request ::
  "ext \<Rightarrow> string \<Rightarrow> resource \<Rightarrow> rights \<Rightarrow> u64 \<Rightarrow> u64 \<Rightarrow> (broker, wv_error, capability) action" where
  "broker_request X p r q now now_log b =
     (case policy_decide (bk_policy b) p r q of
        Some (granted, lim) \<Rightarrow> broker_grant X p r granted lim now now_log b
      | None \<Rightarrow>
          (case broker_log X now_log (EvDeny p r q ''policy'') b of
             (Inl e, b') \<Rightarrow> (Inl e, b')
           | (Inr _, b') \<Rightarrow> (Inl (WvDenied ''policy''), b')))"

subsection \<open>Access\<close>

definition expired_at :: "u64 option \<Rightarrow> u64 \<Rightarrow> bool" where
  "expired_at e now \<longleftrightarrow> (case e of None \<Rightarrow> False | Some x \<Rightarrow> x \<le> now)"

definition budget_spent :: "u32 option \<Rightarrow> u32 \<Rightarrow> bool" where
  "budget_spent m uses \<longleftrightarrow> (case m of None \<Rightarrow> False | Some x \<Rightarrow> x \<le> uses)"

definition broker_check :: "broker \<Rightarrow> capability \<Rightarrow> resource \<Rightarrow> rights \<Rightarrow> u64 \<Rightarrow> wv_error + unit" where
  "broker_check b cap r q now =
     (case map_of (bk_grants b) (cap_grant cap) of
        None \<Rightarrow> Inl (WvDenied ''no such grant'')
      | Some gs \<Rightarrow>
          if gs_secret gs \<noteq> Some (cap_secret cap) then Inl (WvDenied ''forged handle'')
          else if gs_revoked gs then Inl (WvDenied ''revoked'')
          else if expired_at (gr_expires (gs_grant gs)) now then Inl (WvDenied ''expired'')
          else if budget_spent (gr_max_uses (gs_grant gs)) (gs_uses gs)
            then Inl (WvDenied ''use limit reached'')
          else if \<not> res_covers (gr_resource (gs_grant gs)) r then Inl (WvDenied ''out of scope'')
          else if \<not> rights_contains (gr_rights (gs_grant gs)) q
            then Inl (WvDenied ''insufficient rights'')
          else Inr ())"

definition grant_principal :: "broker \<Rightarrow> grant_id \<Rightarrow> string" where
  "grant_principal b g =
     (case map_of (bk_grants b) g of None \<Rightarrow> ''unknown'' | Some gs \<Rightarrow> gr_principal (gs_grant gs))"

definition broker_access ::
  "ext \<Rightarrow> capability \<Rightarrow> resource \<Rightarrow> rights \<Rightarrow> u64 \<Rightarrow> u64 \<Rightarrow> (broker, wv_error, lease) action" where
  "broker_access X cap r q now now_log b =
     (let g = cap_grant cap; p = grant_principal b g in
      case broker_check b cap r q now of
        Inr _ \<Rightarrow>
          (case broker_log X now_log (EvUse g p r q)
                  (b\<lparr>bk_grants := AList.map_entry g add_use (bk_grants b)\<rparr>) of
             (Inl e, b') \<Rightarrow> (Inl e, b')
           | (Inr _, b') \<Rightarrow> (Inr \<lparr>le_grant = g, le_resource = r, le_rights = q\<rparr>, b'))
      | Inl (WvDenied reason) \<Rightarrow>
          (case broker_log X now_log (EvDeny p r q reason) b of
             (Inl e, b') \<Rightarrow> (Inl e, b')
           | (Inr _, b') \<Rightarrow> (Inl (WvDenied reason), b'))
      | Inl e \<Rightarrow> (Inl e, b))"

subsection \<open>Revoking and reissuing\<close>

definition broker_revoke :: "ext \<Rightarrow> grant_id \<Rightarrow> u64 \<Rightarrow> (broker, wv_error, unit) action" where
  "broker_revoke X g now b =
     (case map_of (bk_grants b) g of
        None \<Rightarrow> (Inl (WvDenied ''no such grant''), b)
      | Some gs \<Rightarrow>
          if gs_revoked gs then (Inr (), b)
          else broker_log X now (EvRevoke g)
                 (b\<lparr>bk_grants := AList.map_entry g set_revoked (bk_grants b)\<rparr>))"

definition broker_reissue :: "ext \<Rightarrow> grant_id \<Rightarrow> u64 \<Rightarrow> (broker, wv_error, capability) action" where
  "broker_reissue X g now b =
     (case map_of (bk_grants b) g of
        None \<Rightarrow> (Inl (WvDenied ''no such grant''), b)
      | Some gs \<Rightarrow>
          if gs_revoked gs then (Inl (WvDenied ''revoked''), b)
          else if expired_at (gr_expires (gs_grant gs)) now then (Inl (WvDenied ''expired''), b)
          else
            let (secret, b') = draw X 32 b in
            (Inr \<lparr>cap_grant = g, cap_secret = secret\<rparr>,
             b'\<lparr>bk_grants := AList.map_entry g (\<lambda>gs. gs\<lparr>gs_secret := Some secret\<rparr>) (bk_grants b')\<rparr>))"

subsection \<open>Listing and verifying\<close>

definition grant_status_at :: "grant_state \<Rightarrow> u64 \<Rightarrow> grant_status" where
  "grant_status_at gs now =
     (if gs_revoked gs then Revoked
      else if expired_at (gr_expires (gs_grant gs)) now then Expired
      else Active)"

definition grant_info_of :: "u64 \<Rightarrow> grant_state \<Rightarrow> grant_info" where
  "grant_info_of now gs =
     \<lparr>gi_id = gr_id (gs_grant gs), gi_principal = gr_principal (gs_grant gs),
      gi_resource = gr_resource (gs_grant gs), gi_rights = gr_rights (gs_grant gs),
      gi_granted = gr_granted (gs_grant gs), gi_expires = gr_expires (gs_grant gs),
      gi_max_uses = gr_max_uses (gs_grant gs), gi_uses = gs_uses gs,
      gi_status = grant_status_at gs now\<rparr>"

definition broker_grants :: "broker \<Rightarrow> u64 \<Rightarrow> grant_info list" where
  "broker_grants b now = sort_key gi_granted (map (\<lambda>(g, gs). grant_info_of now gs) (bk_grants b))"

definition broker_audit :: "ext \<Rightarrow> broker \<Rightarrow> (wv_error + audit_entry list) option" where
  "broker_audit X b =
     (case bk_head b of Some h \<Rightarrow> read_chain X (bk_ls b) h | None \<Rightarrow> Some (Inr []))"

fun verify_seqs :: "nat \<Rightarrow> audit_entry list \<Rightarrow> wv_error + unit" where
  "verify_seqs i [] = Inr ()"
| "verify_seqs i (e # es) =
     (if ae_seq e \<noteq> of_nat i
      then Inl (WvCorrupt (''audit seq gap at position '' @ show_nat i @ '': entry says ''
                           @ show_nat (unat (ae_seq e))))
      else verify_seqs (Suc i) es)"

definition broker_verify :: "ext \<Rightarrow> broker \<Rightarrow> (wv_error + nat) option" where
  "broker_verify X b =
     map_option (\<lambda>r. res_bind r (\<lambda>es. res_bind (verify_seqs 0 es) (\<lambda>_. Inr (length es))))
       (broker_audit X b)"

subsection \<open>What a check establishes\<close>

definition grant_admits :: "grant_state \<Rightarrow> capability \<Rightarrow> resource \<Rightarrow> rights \<Rightarrow> u64 \<Rightarrow> bool" where
  "grant_admits gs cap r q now \<longleftrightarrow>
     gs_secret gs = Some (cap_secret cap) \<and> \<not> gs_revoked gs
     \<and> (\<forall>e. gr_expires (gs_grant gs) = Some e \<longrightarrow> now < e)
     \<and> (\<forall>m. gr_max_uses (gs_grant gs) = Some m \<longrightarrow> gs_uses gs < m)
     \<and> res_covers (gr_resource (gs_grant gs)) r
     \<and> rights_contains (gr_rights (gs_grant gs)) q"

lemma broker_check_ok_iff:
  "broker_check b cap r q now = Inr u \<longleftrightarrow>
     (\<exists>gs. map_of (bk_grants b) (cap_grant cap) = Some gs \<and> grant_admits gs cap r q now)"
  by (auto simp: broker_check_def grant_admits_def expired_at_def budget_spent_def not_le
      split: option.splits if_splits)

lemma broker_check_denied: "broker_check b cap r q now = Inl e \<Longrightarrow> \<exists>why. e = WvDenied why"
  by (auto simp: broker_check_def split: option.splits if_splits)

subsection \<open>The grant table as a function of the log\<close>

text \<open>
  The specification of the table: what each event does to a map from grants to their durable
  state, which is the state without the session secret and without the time of the grant (the
  code reads the clock once for the table and again for the log entry, so a replayed grant may
  carry a later time).
\<close>

definition durable :: "grant_state \<Rightarrow> grant_state" where
  "durable gs = gs\<lparr>gs_secret := None, gs_grant := (gs_grant gs)\<lparr>gr_granted := 0\<rparr>\<rparr>"

definition table_view :: "grant_table \<Rightarrow> grant_id \<Rightarrow> grant_state option" where
  "table_view tab g = map_option durable (map_of tab g)"

definition spec_event :: "event \<Rightarrow> (grant_id \<Rightarrow> grant_state option) \<Rightarrow> grant_id \<Rightarrow> grant_state option" where
  "spec_event ev v =
     (case ev of
        EvGrant g p r q ex m \<Rightarrow> v(g \<mapsto> new_grant g p r q 0 ex m None)
      | EvUse g _ _ _ \<Rightarrow> v(g := map_option add_use (v g))
      | EvRevoke g \<Rightarrow> v(g := map_option set_revoked (v g))
      | EvDeny _ _ _ _ \<Rightarrow> v)"

lemma durable_add_use: "durable (add_use gs) = add_use (durable gs)"
  by (simp add: durable_def add_use_def)

lemma durable_set_revoked: "durable (set_revoked gs) = set_revoked (durable gs)"
  by (simp add: durable_def set_revoked_def)

lemma durable_new_grant: "durable (new_grant g p r q now ex m s) = new_grant g p r q 0 ex m None"
  by (simp add: durable_def new_grant_def)

lemma view_update: "table_view (AList.update g gs tab) = (table_view tab)(g \<mapsto> durable gs)"
  by (rule ext) (simp add: table_view_def update_conv')

lemma view_map_entry:
  assumes "\<And>gs. durable (f gs) = h (durable gs)"
  shows "table_view (AList.map_entry g f tab) = (table_view tab)(g := map_option h (table_view tab g))"
  using assms by (intro ext) (auto simp: table_view_def map_of_map_entry split: option.splits)

lemmas view_simps = view_update view_map_entry [of add_use add_use, OF durable_add_use]
  view_map_entry [of set_revoked set_revoked, OF durable_set_revoked] durable_new_grant

lemma view_replay_entry: "table_view (replay_entry e tab) = spec_event (ae_event e) (table_view tab)"
  by (cases "ae_event e") (simp_all add: replay_entry_def spec_event_def view_simps)

lemma view_replay: "table_view (fold replay_entry es tab) = fold (spec_event \<circ> ae_event) es (table_view tab)"
  by (induction es arbitrary: tab) (simp_all add: view_replay_entry)

subsection \<open>The broker and its log agree\<close>

definition broker_inv :: "ext \<Rightarrow> bytes set \<Rightarrow> ls_keys \<Rightarrow> broker \<Rightarrow> audit_entry list \<Rightarrow> bool" where
  "broker_inv X U k b es \<longleftrightarrow>
     ls_okay X U k (bk_ls b) \<and> chain X (bk_ls b) (bk_head b) es
     \<and> store_get_ref X (bk_ls b) audit_ref = Inr (bk_head b)
     \<and> bk_seq b = of_nat (length es)
     \<and> (\<forall>i < length es. ae_seq (es ! i) = of_nat i)
     \<and> table_view (bk_grants b) = fold (spec_event \<circ> ae_event) es Map.empty"

text \<open>An event the log can take: well formed, its objects storable.\<close>

definition loggable :: "ext \<Rightarrow> bytes set \<Rightarrow> ls_keys \<Rightarrow> broker \<Rightarrow> u64 \<Rightarrow> event \<Rightarrow> bool" where
  "loggable X U k b now ev \<longleftrightarrow>
     wf_event ev \<and> list_all (usable_obj U) (audit_objs X k (bk_head b) (bk_seq b) now ev)"

definition log_entry :: "ext \<Rightarrow> ls_keys \<Rightarrow> broker \<Rightarrow> u64 \<Rightarrow> event \<Rightarrow> audit_entry" where
  "log_entry X k b now ev =
     \<lparr>ae_id = entry_id X k (bk_head b) (bk_seq b) now ev, ae_seq = bk_seq b, ae_time = now,
      ae_event = ev\<rparr>"

lemma broker_log_total:
  assumes okay: "ls_okay X U k (bk_ls b)" and chain: "chain X (bk_ls b) (bk_head b) es"
    and ev: "loggable X U k b now ev"
  obtains s where "broker_log X now ev b
       = (Inr (), b\<lparr>bk_ls := s, bk_head := Some (ae_id (log_entry X k b now ev)), bk_seq := bk_seq b + 1\<rparr>)"
    "ls_okay X U k s" "chain X s (Some (ae_id (log_entry X k b now ev))) (es @ [log_entry X k b now ev])"
    "store_get_ref X s audit_ref = Inr (Some (ae_id (log_entry X k b now ev)))"
    "ls_look X (bk_ls b) \<subseteq>\<^sub>m ls_look X s"
proof -
  let ?i = "entry_id X k (bk_head b) (bk_seq b) now ev"
  obtain t where t: "audit_append X (bk_head b) (bk_seq b) now ev (bk_ls b) = (Inr ?i, t)"
      "ls_okay X U k t" "ls_look X (bk_ls b) \<subseteq>\<^sub>m ls_look X t"
      "read_entry X t ?i = Inr (log_entry X k b now ev, bk_head b)"
    using audit_append_total [OF okay, of ev "bk_head b" "bk_seq b" now] ev
    unfolding loggable_def log_entry_def by blast
  let ?s = "store_set_ref X audit_ref ?i t"
  have "chain X t (Some ?i) (es @ [log_entry X k b now ev])"
    using t(4) chain_grows [OF chain t(3)] by (rule chain_some)
  then have "chain X ?s (Some ?i) (es @ [log_entry X k b now ev])"
    by (rule chain_grows) simp
  moreover have "wf_id ?i"
    using t(2) by (simp add: entry_id_def wf_obj_id ls_okay_def)
  then have "store_get_ref X ?s audit_ref = Inr (Some ?i)"
    using t(2) by (simp add: store_get_set_ref ls_okay_def)
  ultimately show ?thesis
    using that [of ?s] t by (simp add: broker_log_def log_entry_def)
qed

lemma broker_inv_log:
  assumes inv: "broker_inv X U k b es"
    and ls: "ls_okay X U k s" "chain X s (Some (ae_id e)) (es @ [e])"
      "store_get_ref X s audit_ref = Inr (Some (ae_id e))"
    and e: "e = log_entry X k b now ev"
    and tab: "table_view tab = spec_event ev (table_view (bk_grants b))"
  shows "broker_inv X U k
    (b\<lparr>bk_ls := s, bk_head := Some (ae_id e), bk_seq := bk_seq b + 1, bk_grants := tab\<rparr>) (es @ [e])"
  using assms
  by (auto simp: broker_inv_def log_entry_def nth_append less_Suc_eq)

lemma broker_inv_draw:
  "broker_inv X U k b es \<Longrightarrow> broker_inv X U k (snd (draw X n b)) es"
proof -
  assume inv: "broker_inv X U k b es"
  let ?s = "(bk_ls b)\<lparr>st_draws := st_draws (bk_ls b) + 1\<rparr>"
  have "ls_look X ?s = ls_look X (bk_ls b)" by (rule ext) (simp add: ls_look_abs)
  then have "chain X ?s (bk_head b) es"
    using inv chain_grows [of X "bk_ls b" "bk_head b" es ?s] by (simp add: broker_inv_def)
  with inv show ?thesis
    by (simp add: broker_inv_def draw_def ls_okay_def store_get_ref_def)
qed

subsection \<open>Operations as steps\<close>

datatype bk_op =
    OpGrant string resource rights limits u64 u64
  | OpRequest string resource rights u64 u64
  | OpAccess capability resource rights u64 u64
  | OpRevoke grant_id u64
  | OpReissue grant_id u64

definition op_exec :: "ext \<Rightarrow> bk_op \<Rightarrow> broker \<Rightarrow> broker" where
  "op_exec X op b =
     (case op of
        OpGrant p r q lim t1 t2 \<Rightarrow> snd (broker_grant X p r q lim t1 t2 b)
      | OpRequest p r q t1 t2 \<Rightarrow> snd (broker_request X p r q t1 t2 b)
      | OpAccess cap r q t1 t2 \<Rightarrow> snd (broker_access X cap r q t1 t2 b)
      | OpRevoke g t \<Rightarrow> snd (broker_revoke X g t b)
      | OpReissue g t \<Rightarrow> snd (broker_reissue X g t b))"

text \<open>The grant id the next grant will draw, and the one event an operation writes, with the
  time it is written at.\<close>

definition next_grant :: "ext \<Rightarrow> broker \<Rightarrow> grant_id" where
  "next_grant X b = x_random X (st_draws (bk_ls b)) 16"

definition grant_event :: "ext \<Rightarrow> broker \<Rightarrow> string \<Rightarrow> resource \<Rightarrow> rights \<Rightarrow> limits \<Rightarrow> event" where
  "grant_event X b p r q lim = EvGrant (next_grant X b) p r q (lim_expires lim) (lim_max_uses lim)"

definition op_event :: "ext \<Rightarrow> broker \<Rightarrow> bk_op \<Rightarrow> (u64 \<times> event) option" where
  "op_event X b op =
     (case op of
        OpGrant p r q lim t1 t2 \<Rightarrow> Some (t2, grant_event X b p r q lim)
      | OpRequest p r q t1 t2 \<Rightarrow>
          (case policy_decide (bk_policy b) p r q of
             Some (q', lim) \<Rightarrow> Some (t2, grant_event X b p r q' lim)
           | None \<Rightarrow> Some (t2, EvDeny p r q ''policy''))
      | OpAccess cap r q t1 t2 \<Rightarrow>
          (let p = grant_principal b (cap_grant cap) in
           case broker_check b cap r q t1 of
             Inr _ \<Rightarrow> Some (t2, EvUse (cap_grant cap) p r q)
           | Inl (WvDenied why) \<Rightarrow> Some (t2, EvDeny p r q why)
           | Inl _ \<Rightarrow> None)
      | OpRevoke g t \<Rightarrow>
          (case map_of (bk_grants b) g of
             None \<Rightarrow> None
           | Some gs \<Rightarrow> if gs_revoked gs then None else Some (t, EvRevoke g))
      | OpReissue g t \<Rightarrow> None)"

definition op_log :: "ext \<Rightarrow> ls_keys \<Rightarrow> broker \<Rightarrow> bk_op \<Rightarrow> audit_entry list" where
  "op_log X k b op = (case op_event X b op of None \<Rightarrow> [] | Some (t, ev) \<Rightarrow> [log_entry X k b t ev])"

definition op_loggable :: "ext \<Rightarrow> bytes set \<Rightarrow> ls_keys \<Rightarrow> broker \<Rightarrow> bk_op \<Rightarrow> bool" where
  "op_loggable X U k b op =
     (case op_event X b op of None \<Rightarrow> True | Some (t, ev) \<Rightarrow> loggable X U k b t ev)"

lemma loggable_same: "bk_head b' = bk_head b \<Longrightarrow> bk_seq b' = bk_seq b \<Longrightarrow>
    loggable X U k b' t ev = loggable X U k b t ev \<and> log_entry X k b' t ev = log_entry X k b t ev"
  by (simp add: loggable_def log_entry_def)

text \<open>The common tail of every logging method: with the table already changed as the event says,
  or changed right after the log succeeds, broker and log agree again.\<close>

lemma broker_log_step:
  assumes inv: "broker_inv X U k b0 es"
    and b: "bk_ls b = bk_ls b0" "bk_head b = bk_head b0" "bk_seq b = bk_seq b0"
    and log: "loggable X U k b0 now ev"
  obtains b' where "broker_log X now ev b = (Inr (), b')" "bk_grants b' = bk_grants b"
    "bk_policy b' = bk_policy b"
    "\<And>tab. table_view tab = spec_event ev (table_view (bk_grants b0)) \<Longrightarrow>
       broker_inv X U k (b'\<lparr>bk_grants := tab\<rparr>) (es @ [log_entry X k b0 now ev])"
proof -
  note same = loggable_same [OF b(2,3), of X U k now ev]
  have "ls_okay X U k (bk_ls b)" "chain X (bk_ls b) (bk_head b) es"
    using inv b by (simp_all add: broker_inv_def)
  then obtain s where s: "broker_log X now ev b
       = (Inr (), b\<lparr>bk_ls := s, bk_head := Some (ae_id (log_entry X k b now ev)), bk_seq := bk_seq b + 1\<rparr>)"
    "ls_okay X U k s" "chain X s (Some (ae_id (log_entry X k b now ev))) (es @ [log_entry X k b now ev])"
    "store_get_ref X s audit_ref = Inr (Some (ae_id (log_entry X k b now ev)))"
    using broker_log_total same log by blast
  show ?thesis
  proof (rule that [OF s(1)])
    fix tab
    assume "table_view tab = spec_event ev (table_view (bk_grants b0))"
    from broker_inv_log [OF inv s(2-4) _ this] b same
    show "broker_inv X U k (b\<lparr>bk_ls := s, bk_head := Some (ae_id (log_entry X k b now ev)),
        bk_seq := bk_seq b + 1\<rparr>\<lparr>bk_grants := tab\<rparr>) (es @ [log_entry X k b0 now ev])"
      by (simp add: broker_inv_def)
  qed simp_all
qed

lemma broker_grant_step:
  assumes inv: "broker_inv X U k b es"
    and log: "loggable X U k b t2 (grant_event X b p r q lim)"
  obtains b' secret where "broker_grant X p r q lim t1 t2 b
      = (Inr \<lparr>cap_grant = next_grant X b, cap_secret = secret\<rparr>, b')"
    "broker_inv X U k b' (es @ [log_entry X k b t2 (grant_event X b p r q lim)])"
    "bk_grants b' = AList.update (next_grant X b)
      (new_grant (next_grant X b) p r q t1 (lim_expires lim) (lim_max_uses lim) (Some secret)) (bk_grants b)"
    "bk_policy b' = bk_policy b"
proof -
  let ?b2 = "snd (draw X 32 (snd (draw X 16 b)))"
  let ?ev = "grant_event X b p r q lim"
  let ?secret = "fst (draw X 32 (snd (draw X 16 b)))"
  have inv2: "broker_inv X U k ?b2 es" by (intro broker_inv_draw inv)
  have same: "bk_head ?b2 = bk_head b" "bk_seq ?b2 = bk_seq b" "bk_grants ?b2 = bk_grants b"
      "bk_policy ?b2 = bk_policy b"
    by (simp_all add: draw_def)
  note same' = loggable_same [OF same(1,2), of X U k t2 ?ev]
  obtain b3 where b3: "broker_log X t2 ?ev ?b2 = (Inr (), b3)" "bk_grants b3 = bk_grants ?b2"
      "bk_policy b3 = bk_policy ?b2"
      "\<And>tab. table_view tab = spec_event ?ev (table_view (bk_grants ?b2)) \<Longrightarrow>
         broker_inv X U k (b3\<lparr>bk_grants := tab\<rparr>) (es @ [log_entry X k ?b2 t2 ?ev])"
    using broker_log_step [OF inv2 refl refl refl, of t2 ?ev] log same' by blast
  let ?tab = "AList.update (next_grant X b)
      (new_grant (next_grant X b) p r q t1 (lim_expires lim) (lim_max_uses lim) (Some ?secret)) (bk_grants b)"
  have "table_view ?tab = spec_event ?ev (table_view (bk_grants ?b2))"
    by (simp add: grant_event_def spec_event_def view_simps same)
  from b3(4) [OF this] same'
  have "broker_inv X U k (b3\<lparr>bk_grants := ?tab\<rparr>) (es @ [log_entry X k b t2 ?ev])" by simp
  moreover have "broker_grant X p r q lim t1 t2 b
      = (Inr \<lparr>cap_grant = next_grant X b, cap_secret = ?secret\<rparr>, b3\<lparr>bk_grants := ?tab\<rparr>)"
    using b3(1,2) same
    by (simp add: broker_grant_def Let_def case_prod_beta grant_event_def next_grant_def)
      (simp add: draw_def)
  ultimately show ?thesis using that [of ?secret "b3\<lparr>bk_grants := ?tab\<rparr>"] b3(3) same by simp
qed

lemma view_None_iff: "table_view tab g = None \<longleftrightarrow> map_of tab g = None"
  by (simp add: table_view_def)

lemma broker_access_step:
  assumes inv: "broker_inv X U k b es"
    and log: "op_loggable X U k b (OpAccess cap r q t1 t2)"
  shows "\<exists>b'. broker_access X cap r q t1 t2 b =
      ((case broker_check b cap r q t1 of Inl e \<Rightarrow> Inl e
        | Inr _ \<Rightarrow> Inr \<lparr>le_grant = cap_grant cap, le_resource = r, le_rights = q\<rparr>), b')
    \<and> broker_inv X U k b' (es @ op_log X k b (OpAccess cap r q t1 t2))
    \<and> bk_grants b' = (if is_ok (broker_check b cap r q t1)
         then AList.map_entry (cap_grant cap) add_use (bk_grants b) else bk_grants b)
    \<and> bk_policy b' = bk_policy b"
proof (cases "broker_check b cap r q t1")
  case (Inr u)
  let ?ev = "EvUse (cap_grant cap) (grant_principal b (cap_grant cap)) r q"
  let ?tab = "AList.map_entry (cap_grant cap) add_use (bk_grants b)"
  have "loggable X U k b t2 ?ev"
    using log Inr by (simp add: op_loggable_def op_event_def)
  then obtain b' where b': "broker_log X t2 ?ev (b\<lparr>bk_grants := ?tab\<rparr>) = (Inr (), b')"
      "bk_grants b' = ?tab" "bk_policy b' = bk_policy b"
      "\<And>tab. table_view tab = spec_event ?ev (table_view (bk_grants b)) \<Longrightarrow>
         broker_inv X U k (b'\<lparr>bk_grants := tab\<rparr>) (es @ [log_entry X k b t2 ?ev])"
    using broker_log_step [OF inv, of "b\<lparr>bk_grants := ?tab\<rparr>" t2 ?ev] by auto
  have "broker_inv X U k (b'\<lparr>bk_grants := ?tab\<rparr>) (es @ [log_entry X k b t2 ?ev])"
    by (rule b'(4)) (simp add: spec_event_def view_simps)
  moreover have "b'\<lparr>bk_grants := ?tab\<rparr> = b'" using b'(2) by simp
  ultimately show ?thesis
    using b' Inr by (auto simp: broker_access_def Let_def op_log_def op_event_def)
next
  case (Inl e)
  then obtain why where e: "e = WvDenied why" using broker_check_denied by blast
  let ?ev = "EvDeny (grant_principal b (cap_grant cap)) r q why"
  have "loggable X U k b t2 ?ev"
    using log Inl e by (simp add: op_loggable_def op_event_def)
  then obtain b' where b': "broker_log X t2 ?ev b = (Inr (), b')"
      "bk_grants b' = bk_grants b" "bk_policy b' = bk_policy b"
      "\<And>tab. table_view tab = spec_event ?ev (table_view (bk_grants b)) \<Longrightarrow>
         broker_inv X U k (b'\<lparr>bk_grants := tab\<rparr>) (es @ [log_entry X k b t2 ?ev])"
    using broker_log_step [OF inv refl refl refl, of t2 ?ev] by auto
  have "broker_inv X U k (b'\<lparr>bk_grants := bk_grants b\<rparr>) (es @ [log_entry X k b t2 ?ev])"
    by (rule b'(4)) (simp add: spec_event_def)
  moreover have "b'\<lparr>bk_grants := bk_grants b\<rparr> = b'" using b'(2) [symmetric] by simp
  ultimately show ?thesis
    using b' Inl e by (auto simp: broker_access_def Let_def op_log_def op_event_def)
qed

lemma broker_revoke_step:
  assumes inv: "broker_inv X U k b es" and log: "op_loggable X U k b (OpRevoke g t)"
  shows "\<exists>b'. broker_revoke X g t b =
      (if map_of (bk_grants b) g = None then Inl (WvDenied ''no such grant'') else Inr (), b')
    \<and> broker_inv X U k b' (es @ op_log X k b (OpRevoke g t))
    \<and> table_view (bk_grants b') = (table_view (bk_grants b))(g := map_option set_revoked (table_view (bk_grants b) g))
    \<and> bk_policy b' = bk_policy b"
proof (cases "map_of (bk_grants b) g")
  case None
  then have "table_view (bk_grants b) g = None" by (simp add: view_None_iff)
  then show ?thesis
    using inv None by (auto simp: broker_revoke_def op_log_def op_event_def fun_upd_idem)
next
  case (Some gs)
  show ?thesis
  proof (cases "gs_revoked gs")
    case True
    then have "map_option set_revoked (table_view (bk_grants b) g) = table_view (bk_grants b) g"
      using Some by (simp add: table_view_def durable_def set_revoked_def)
    then show ?thesis
      using inv Some True by (auto simp: broker_revoke_def op_log_def op_event_def fun_upd_idem)
  next
    case False
    let ?tab = "AList.map_entry g set_revoked (bk_grants b)"
    have "loggable X U k b t (EvRevoke g)"
      using log Some False by (simp add: op_loggable_def op_event_def)
    then obtain b' where b': "broker_log X t (EvRevoke g) (b\<lparr>bk_grants := ?tab\<rparr>) = (Inr (), b')"
        "bk_grants b' = ?tab" "bk_policy b' = bk_policy b"
        "\<And>tab. table_view tab = spec_event (EvRevoke g) (table_view (bk_grants b)) \<Longrightarrow>
           broker_inv X U k (b'\<lparr>bk_grants := tab\<rparr>) (es @ [log_entry X k b t (EvRevoke g)])"
      using broker_log_step [OF inv, of "b\<lparr>bk_grants := ?tab\<rparr>" t "EvRevoke g"] by auto
    have "broker_inv X U k (b'\<lparr>bk_grants := ?tab\<rparr>) (es @ [log_entry X k b t (EvRevoke g)])"
      by (rule b'(4)) (simp add: spec_event_def view_simps)
    moreover have "b'\<lparr>bk_grants := ?tab\<rparr> = b'" using b'(2) by simp
    ultimately show ?thesis
      using b' Some False by (auto simp: broker_revoke_def op_log_def op_event_def view_simps)
  qed
qed

lemma broker_reissue_inv:
  assumes inv: "broker_inv X U k b es"
  shows "broker_inv X U k (snd (broker_reissue X g t b)) es"
proof -
  have view: "table_view (AList.map_entry g (\<lambda>gs. gs\<lparr>gs_secret := s\<rparr>) tab) = table_view tab" for s tab
    by (rule ext) (auto simp: table_view_def map_of_map_entry durable_def split: option.splits)
  have "broker_inv X U k (snd (draw X 32 b)) es" by (rule broker_inv_draw [OF inv])
  with inv show ?thesis
    by (auto simp: broker_reissue_def broker_inv_def Let_def view draw_def split: option.splits)
qed

text \<open>Every operation appends exactly its event to the chain and keeps the table the fold of
  the log.\<close>

theorem op_exec_inv:
  assumes inv: "broker_inv X U k b es" and log: "op_loggable X U k b op"
  shows "broker_inv X U k (op_exec X op b) (es @ op_log X k b op)"
proof (cases op)
  case (OpGrant p r q lim t1 t2)
  with log have "loggable X U k b t2 (grant_event X b p r q lim)"
    by (simp add: op_loggable_def op_event_def)
  with inv show ?thesis
    by (rule broker_grant_step [of X U k b es t2 p r q lim t1]) (simp add: OpGrant op_exec_def op_log_def op_event_def)
next
  case (OpRequest p r q t1 t2)
  show ?thesis
  proof (cases "policy_decide (bk_policy b) p r q")
    case (Some a)
    obtain q' lim where a: "a = (q', lim)" by fastforce
    with Some OpRequest log have "loggable X U k b t2 (grant_event X b p r q' lim)"
      by (simp add: op_loggable_def op_event_def)
    with inv show ?thesis
      by (rule broker_grant_step [of X U k b es t2 p r q' lim t1])
        (simp add: OpRequest Some a op_exec_def op_log_def op_event_def broker_request_def)
  next
    case None
    let ?ev = "EvDeny p r q ''policy''"
    have "loggable X U k b t2 ?ev"
      using log OpRequest None by (simp add: op_loggable_def op_event_def)
    then obtain b' where b': "broker_log X t2 ?ev b = (Inr (), b')" "bk_grants b' = bk_grants b"
        "\<And>tab. table_view tab = spec_event ?ev (table_view (bk_grants b)) \<Longrightarrow>
           broker_inv X U k (b'\<lparr>bk_grants := tab\<rparr>) (es @ [log_entry X k b t2 ?ev])"
      using broker_log_step [OF inv refl refl refl, of t2 ?ev] by auto
    have "broker_inv X U k (b'\<lparr>bk_grants := bk_grants b\<rparr>) (es @ [log_entry X k b t2 ?ev])"
      by (rule b'(3)) (simp add: spec_event_def)
    moreover have "b'\<lparr>bk_grants := bk_grants b\<rparr> = b'" using b'(2) [symmetric] by simp
    ultimately show ?thesis
      using b' None by (simp add: OpRequest op_exec_def op_log_def op_event_def broker_request_def)
  qed
next
  case (OpAccess cap r q t1 t2)
  with broker_access_step [OF inv, of cap r q t1 t2] log show ?thesis
    by (auto simp: op_exec_def)
next
  case (OpRevoke g t)
  with broker_revoke_step [OF inv, of g t] log show ?thesis by (auto simp: op_exec_def)
next
  case (OpReissue g t)
  with broker_reissue_inv [OF inv] show ?thesis
    by (simp add: op_exec_def op_log_def op_event_def)
qed

lemma op_exec_view:
  assumes "broker_inv X U k b es" "op_loggable X U k b op"
  shows "table_view (bk_grants (op_exec X op b)) =
    (case op_event X b op of None \<Rightarrow> table_view (bk_grants b)
     | Some (t, ev) \<Rightarrow> spec_event ev (table_view (bk_grants b)))"
  using op_exec_inv [OF assms] assms(1)
  by (auto simp: broker_inv_def op_log_def log_entry_def split: option.splits)

subsection \<open>Reopening\<close>

lemma verify_seqs_ok:
  "(\<And>i. i < length es \<Longrightarrow> ae_seq (es ! i) = of_nat (n + i)) \<Longrightarrow> verify_seqs n es = Inr ()"
proof (induction es arbitrary: n)
  case Nil
  show ?case by simp
next
  case (Cons e es)
  have "ae_seq e = of_nat n" using Cons.prems [of 0] by simp
  moreover have "ae_seq (es ! i) = of_nat (Suc n + i)" if "i < length es" for i
    using Cons.prems [of "Suc i"] that by simp
  then have "verify_seqs (Suc n) es = Inr ()" using Cons.IH [of "Suc n"] by blast
  ultimately show ?case by simp
qed

lemma broker_audit_log: "broker_inv X U k b es \<Longrightarrow> broker_audit X b = Some (Inr es)"
  by (auto simp: broker_inv_def broker_audit_def chain_read split: option.splits elim: chain_NoneE)

lemma broker_verify_log: "broker_inv X U k b es \<Longrightarrow> broker_verify X b = Some (Inr (length es))"
  by (simp add: broker_verify_def broker_audit_log) (simp add: broker_inv_def verify_seqs_ok)

lemma broker_replay_chain:
  "chain X s head es \<Longrightarrow> broker_replay X s head = Some (Inr (fold replay_entry es [], of_nat (length es)))"
  by (auto simp: broker_replay_def chain_read split: option.splits elim: chain_NoneE)

lemma broker_open_chain:
  assumes "chain X s head es" "store_get_ref X s audit_ref = Inr head"
  shows "broker_open X s pol = Some (Inr \<lparr>bk_ls = s, bk_policy = pol, bk_head = head,
    bk_seq = of_nat (length es), bk_grants = fold replay_entry es []\<rparr>)"
  using assms by (simp add: broker_open_def broker_replay_chain)

lemma table_view_Nil [simp]: "table_view [] = Map.empty"
  by (rule ext) (simp add: table_view_def)

lemma broker_open_inv:
  assumes inv: "broker_inv X U k b es"
  obtains b' where "broker_open X (bk_ls b) pol = Some (Inr b')" "broker_inv X U k b' es"
    "table_view (bk_grants b') = table_view (bk_grants b)" "bk_head b' = bk_head b" "bk_seq b' = bk_seq b"
proof -
  let ?b = "\<lparr>bk_ls = bk_ls b, bk_policy = pol, bk_head = bk_head b,
    bk_seq = of_nat (length es), bk_grants = fold replay_entry es []\<rparr>"
  have "broker_open X (bk_ls b) pol = Some (Inr ?b)"
    using inv by (intro broker_open_chain) (simp_all add: broker_inv_def)
  moreover have "broker_inv X U k ?b es"
    using inv by (simp add: broker_inv_def view_replay)
  ultimately show ?thesis
    using that [of ?b] inv by (simp add: broker_inv_def view_replay)
qed

subsection \<open>Runs of one broker\<close>

text \<open>Random ids do not repeat: a grant is only drawn under an id the table does not have.\<close>

definition draws_fresh :: "ext \<Rightarrow> broker \<Rightarrow> bk_op \<Rightarrow> bool" where
  "draws_fresh X b op =
     (case op of
        OpGrant _ _ _ _ _ _ \<Rightarrow> map_of (bk_grants b) (next_grant X b) = None
      | OpRequest _ _ _ _ _ \<Rightarrow> map_of (bk_grants b) (next_grant X b) = None
      | _ \<Rightarrow> True)"

inductive broker_run :: "ext \<Rightarrow> bytes set \<Rightarrow> ls_keys \<Rightarrow> broker \<Rightarrow> audit_entry list \<Rightarrow> bool"
  for X U k where
  run_start: "broker_inv X U k b [] \<Longrightarrow> broker_run X U k b []"
| run_op: "broker_run X U k b es \<Longrightarrow> op_loggable X U k b op \<Longrightarrow> draws_fresh X b op \<Longrightarrow>
    broker_run X U k (op_exec X op b) (es @ op_log X k b op)"

lemma broker_run_inv: "broker_run X U k b es \<Longrightarrow> broker_inv X U k b es"
  by (induction rule: broker_run.induct) (auto intro: op_exec_inv)

definition is_use :: "grant_id \<Rightarrow> audit_entry \<Rightarrow> bool" where
  "is_use g e = (case ae_event e of EvUse h _ _ _ \<Rightarrow> h = g | _ \<Rightarrow> False)"

definition uses_of :: "grant_id \<Rightarrow> audit_entry list \<Rightarrow> nat" where
  "uses_of g es = length (filter (is_use g) es)"

definition budget_ok :: "(grant_id \<Rightarrow> grant_state option) \<Rightarrow> audit_entry list \<Rightarrow> grant_id \<Rightarrow> bool" where
  "budget_ok v es g =
     (case v g of
        None \<Rightarrow> uses_of g es = 0
      | Some gs \<Rightarrow> (\<forall>m. gr_max_uses (gs_grant gs) = Some m \<longrightarrow>
          uses_of g es \<le> unat m \<and> gs_uses gs = of_nat (uses_of g es)))"

lemma op_event_use:
  assumes "op_event X b op = Some (t, EvUse g p r q)"
  obtains gs where "map_of (bk_grants b) g = Some gs"
    "\<forall>m. gr_max_uses (gs_grant gs) = Some m \<longrightarrow> gs_uses gs < m"
proof (cases op)
  case (OpAccess cap r' q' t1 t2)
  then have "broker_check b cap r' q' t1 = Inr ()" "cap_grant cap = g"
    using assms by (auto simp: op_event_def Let_def split: sum.splits wv_error.splits)
  with that show ?thesis by (auto simp: broker_check_ok_iff grant_admits_def)
qed (use assms in \<open>auto simp: op_event_def grant_event_def split: option.splits if_splits\<close>)

lemma op_event_grant:
  "op_event X b op = Some (t, EvGrant g p r q e m) \<Longrightarrow> draws_fresh X b op \<Longrightarrow> map_of (bk_grants b) g = None"
  by (cases op)
    (auto simp: op_event_def grant_event_def draws_fresh_def Let_def
      split: option.splits if_splits sum.splits wv_error.splits)

lemma uses_of_snoc: "uses_of g (es @ [e]) = uses_of g es + (if is_use g e then 1 else 0)"
  by (simp add: uses_of_def)

lemma is_use_log: "is_use g (log_entry X k b t ev) \<longleftrightarrow> (\<exists>p r q. ev = EvUse g p r q)"
  by (auto simp: is_use_def log_entry_def split: event.splits)

lemma budget_ok_use:
  assumes ok: "budget_ok v es g" and gs: "v g = Some gs"
    and left: "\<forall>m. gr_max_uses (gs_grant gs) = Some m \<longrightarrow> gs_uses gs < m"
    and m: "gr_max_uses (gs_grant gs) = Some m"
  shows "Suc (uses_of g es) \<le> unat m" "gs_uses gs + 1 = of_nat (Suc (uses_of g es))"
proof -
  have u: "uses_of g es \<le> unat m" "gs_uses gs = of_nat (uses_of g es)"
    using ok gs m by (simp_all add: budget_ok_def)
  have "unat m < 2 ^ 32" using unsigned_less [of m, where ?'a = nat] by simp
  then have "unat (gs_uses gs) = uses_of g es"
    using u by (simp add: unat_of_nat_len)
  moreover have "unat (gs_uses gs) < unat m" using left m by (simp add: word_less_nat_alt)
  ultimately show "Suc (uses_of g es) \<le> unat m" by simp
  show "gs_uses gs + 1 = of_nat (Suc (uses_of g es))" using u(2) by simp
qed

lemma broker_run_budget: "broker_run X U k b es \<Longrightarrow> budget_ok (table_view (bk_grants b)) es g"
proof (induction rule: broker_run.induct)
  case (run_start b)
  then show ?case by (simp add: broker_inv_def budget_ok_def uses_of_def)
next
  case (run_op b es op)
  let ?v = "table_view (bk_grants b)"
  have view: "table_view (bk_grants (op_exec X op b)) =
      (case op_event X b op of None \<Rightarrow> ?v | Some (t, ev) \<Rightarrow> spec_event ev ?v)"
    by (rule op_exec_view [OF broker_run_inv [OF run_op.hyps(1)] run_op.hyps(2)])
  show ?case
  proof (cases "op_event X b op")
    case None
    with run_op.IH view show ?thesis by (simp add: op_log_def)
  next
    case (Some a)
    obtain t ev where a: "a = (t, ev)" by fastforce
    let ?e = "log_entry X k b t ev"
    have goal: "budget_ok (table_view (bk_grants (op_exec X op b))) (es @ op_log X k b op) g
        = budget_ok (spec_event ev ?v) (es @ [?e]) g"
      using view Some a by (simp add: op_log_def)
    show ?thesis
    proof (cases ev)
      case (EvGrant h p r q ex m)
      with op_event_grant [of X b op] Some a run_op.hyps(3) have "?v h = None"
        by (simp add: view_None_iff)
      with run_op.IH show ?thesis
        unfolding goal EvGrant
        by (auto simp: budget_ok_def spec_event_def uses_of_snoc is_use_log new_grant_def
            split: option.splits)
    next
      case (EvUse h p r q)
      with op_event_use [of X b op] Some a obtain gs where
        gs: "?v h = Some (durable gs)" "\<forall>m. gr_max_uses (gs_grant gs) = Some m \<longrightarrow> gs_uses gs < m"
        by (metis option.map(2) table_view_def)
      show ?thesis
      proof (cases "h = g")
        case True
        with gs budget_ok_use [OF run_op.IH, of "durable gs"] show ?thesis
          unfolding goal EvUse
          by (auto simp: budget_ok_def spec_event_def uses_of_snoc is_use_log add_use_def
              durable_def)
      next
        case False
        with run_op.IH show ?thesis
          unfolding goal EvUse
          by (auto simp: budget_ok_def spec_event_def uses_of_snoc is_use_log split: option.splits)
      qed
    next
      case (EvDeny p r q why)
      with run_op.IH show ?thesis
        unfolding goal EvDeny
        by (auto simp: budget_ok_def spec_event_def uses_of_snoc is_use_log split: option.splits)
    next
      case (EvRevoke h)
      with run_op.IH show ?thesis
        unfolding goal EvRevoke
        by (auto simp: budget_ok_def spec_event_def uses_of_snoc is_use_log
            set_revoked_def split: option.splits)
    qed
  qed
qed

subsection \<open>Revocation is final\<close>

definition is_revoked :: "broker \<Rightarrow> grant_id \<Rightarrow> bool" where
  "is_revoked b g \<longleftrightarrow> (\<exists>gs. map_of (bk_grants b) g = Some gs \<and> gs_revoked gs)"

inductive broker_reach :: "ext \<Rightarrow> bytes set \<Rightarrow> ls_keys \<Rightarrow> broker \<Rightarrow> broker \<Rightarrow> bool"
  for X U k where
  reach_refl: "broker_reach X U k b b"
| reach_step: "broker_reach X U k b c \<Longrightarrow> op_loggable X U k c op \<Longrightarrow> draws_fresh X c op \<Longrightarrow>
    broker_reach X U k b (op_exec X op c)"

lemma broker_reach_run:
  "broker_reach X U k b c \<Longrightarrow> broker_inv X U k b es \<Longrightarrow> \<exists>es'. broker_inv X U k c (es @ es')"
proof (induction rule: broker_reach.induct)
  case (reach_refl b)
  then show ?case by (metis append_Nil2)
next
  case (reach_step b c op)
  then obtain es' where "broker_inv X U k c (es @ es')" by blast
  from op_exec_inv [OF this reach_step.hyps(2)] show ?case by (metis append_assoc)
qed

lemma is_revoked_view: "is_revoked b g \<longleftrightarrow> (\<exists>gs. table_view (bk_grants b) g = Some gs \<and> gs_revoked gs)"
  by (auto simp: is_revoked_def table_view_def durable_def)

lemma spec_event_revoked:
  "v g = Some gs \<Longrightarrow> gs_revoked gs \<Longrightarrow> \<forall>p r q e m. ev \<noteq> EvGrant g p r q e m \<Longrightarrow>
     \<exists>gs'. spec_event ev v g = Some gs' \<and> gs_revoked gs'"
  by (cases ev) (auto simp: spec_event_def add_use_def set_revoked_def)

lemma op_exec_revoked:
  assumes inv: "broker_inv X U k b es" and log: "op_loggable X U k b op" and fresh: "draws_fresh X b op"
    and rev: "is_revoked b g"
  shows "is_revoked (op_exec X op b) g"
proof (cases "op_event X b op")
  case None
  with op_exec_view [OF inv log] rev show ?thesis by (simp add: is_revoked_view)
next
  case (Some a)
  obtain t ev where a: "a = (t, ev)" by fastforce
  have "\<forall>p r q e m. ev \<noteq> EvGrant g p r q e m"
    using op_event_grant [of X b op t g] Some a fresh rev by (auto simp: is_revoked_def)
  with spec_event_revoked [of "table_view (bk_grants b)" g _ ev] op_exec_view [OF inv log] Some a rev
  show ?thesis by (auto simp: is_revoked_view)
qed

lemma broker_reach_revoked:
  "broker_reach X U k b c \<Longrightarrow> broker_inv X U k b es \<Longrightarrow> is_revoked b g \<Longrightarrow> is_revoked c g"
proof (induction rule: broker_reach.induct)
  case (reach_step b c op)
  from broker_reach_run [OF reach_step.hyps(1) reach_step.prems(1)]
  obtain es' where "broker_inv X U k c es'" by blast
  with reach_step show ?case using op_exec_revoked by blast
qed

lemma is_revoked_denied:
  "is_revoked b (cap_grant cap) \<Longrightarrow> \<not> is_ok (broker_check b cap r q now)"
  by (auto simp: is_revoked_def broker_check_def split: if_splits)

subsection \<open>Two brokers on one store\<close>

text \<open>
  A broker keeps its own idea of the head and never compares it with the ref before it logs.  If
  another broker has appended to the shared store meanwhile, the next entry of this one is
  chained to the old head and the ref is moved to it: what the other appended is no longer on
  the chain.
\<close>

lemma stale_log_drops:
  assumes inv: "broker_inv X U k b es"
    and other: "loggable X U k b t2 ev2" "broker_log X t2 ev2 b = (r2, b2)"
    and this_one: "loggable X U k b t1 ev1" "broker_log X t1 ev1 (b\<lparr>bk_ls := bk_ls b2\<rparr>) = (r1, b1)"
  shows "\<exists>b'. broker_open X (bk_ls b1) pol = Some (Inr b')
    \<and> broker_audit X b' = Some (Inr (es @ [log_entry X k b t1 ev1]))
    \<and> table_view (bk_grants b') = spec_event ev1 (table_view (bk_grants b))"
proof -
  have okay: "ls_okay X U k (bk_ls b)" and chain: "chain X (bk_ls b) (bk_head b) es"
    and view: "table_view (bk_grants b) = fold (spec_event \<circ> ae_event) es Map.empty"
    using inv by (simp_all add: broker_inv_def)
  obtain s where "b2 = b\<lparr>bk_ls := s, bk_head := Some (ae_id (log_entry X k b t2 ev2)), bk_seq := bk_seq b + 1\<rparr>"
      and s: "ls_okay X U k s" "ls_look X (bk_ls b) \<subseteq>\<^sub>m ls_look X s"
    using broker_log_total [OF okay chain other(1)] other(2) by (metis prod.inject)
  then have "bk_ls b2 = s" by simp
  let ?b = "b\<lparr>bk_ls := s\<rparr>"
  let ?e = "log_entry X k b t1 ev1"
  have same: "loggable X U k ?b t1 ev1" "log_entry X k ?b t1 ev1 = ?e"
    using this_one(1) loggable_same [of ?b b X U k t1 ev1] by simp_all
  have "chain X (bk_ls ?b) (bk_head ?b) es" using chain_grows [OF chain s(2)] by simp
  then obtain u where u: "b1 = ?b\<lparr>bk_ls := u, bk_head := Some (ae_id ?e), bk_seq := bk_seq ?b + 1\<rparr>"
      "chain X u (Some (ae_id ?e)) (es @ [?e])" "store_get_ref X u audit_ref = Inr (Some (ae_id ?e))"
    using broker_log_total [of X U k ?b es t1 ev1] s(1) same this_one(2) \<open>bk_ls b2 = s\<close>
    by (simp) (metis prod.inject)
  let ?b' = "\<lparr>bk_ls = u, bk_policy = pol, bk_head = Some (ae_id ?e),
    bk_seq = of_nat (length (es @ [?e])), bk_grants = fold replay_entry (es @ [?e]) []\<rparr>"
  have "broker_open X (bk_ls b1) pol = Some (Inr ?b')"
    using broker_open_chain [OF u(2,3)] u(1) by simp
  moreover have "broker_audit X ?b' = Some (Inr (es @ [?e]))"
    using u(2) by (simp add: broker_audit_def chain_read)
  moreover have "table_view (bk_grants ?b') = spec_event ev1 (table_view (bk_grants b))"
    by (simp add: view_replay view_replay_entry view log_entry_def)
  ultimately show ?thesis by blast
qed

end
