(* ===== verification/FieldPoly.thy ===== *)
theory FieldPoly
  imports Main
begin

section \<open>Polynomials over a field, as coefficient lists\<close>

text \<open>
  The algebra Shamir's scheme rests on, for any field: evaluation by Horner's rule, the bound on
  the number of roots, and the existence and uniqueness of the polynomial through given points.
\<close>

fun peval :: "'a::field list \<Rightarrow> 'a \<Rightarrow> 'a" where
  "peval [] x = 0"
| "peval (c # cs) x = c + x * peval cs x"

definition all_zero :: "'a::field list \<Rightarrow> bool" where
  "all_zero cs \<longleftrightarrow> list_all (\<lambda>c. c = 0) cs"

lemma peval_all_zero: "all_zero cs \<Longrightarrow> peval cs x = 0"
  by (induction cs) (auto simp: all_zero_def)

text \<open>Synthetic division by \<open>x - a\<close>.\<close>

fun syn_div :: "'a::field \<Rightarrow> 'a list \<Rightarrow> 'a list" where
  "syn_div a [] = []"
| "syn_div a (c # cs) = peval (c # cs) a # syn_div a cs"

lemma length_syn_div [simp]: "length (syn_div a cs) = length cs"
  by (induction cs) auto

lemma syn_div: "peval (c # cs) x = peval (c # cs) a + (x - a) * peval (syn_div a cs) x"
proof (induction cs arbitrary: c)
  case Nil
  show ?case by simp
next
  case (Cons d cs)
  have "peval (c # d # cs) x = c + x * (peval (d # cs) a + (x - a) * peval (syn_div a cs) x)"
    using Cons.IH [of d] by simp
  also have "\<dots> = (c + a * peval (d # cs) a) + (x - a) * (peval (d # cs) a + x * peval (syn_div a cs) x)"
    by (simp only: algebra_simps)
  finally show ?case by simp
qed

lemma syn_div_zero: "all_zero (syn_div a cs) \<Longrightarrow> all_zero cs"
proof (induction cs)
  case (Cons c cs)
  then have "all_zero cs" "peval (c # cs) a = 0" by (simp_all add: all_zero_def)
  then show ?case by (simp add: peval_all_zero) (simp add: all_zero_def)
qed (simp add: all_zero_def)

text \<open>A polynomial with as many roots as coefficients is zero.\<close>

lemma poly_roots_zero:
  assumes "finite S" and "length cs \<le> card S" and "\<And>x. x \<in> S \<Longrightarrow> peval cs x = 0"
  shows "all_zero cs"
  using assms
proof (induction cs arbitrary: S rule: length_induct)
  case (1 cs)
  show ?case
  proof (cases cs)
    case Nil
    then show ?thesis by (simp add: all_zero_def)
  next
    case (Cons c ds)
    with "1.prems"(2) have "S \<noteq> {}" by auto
    then obtain a where a: "a \<in> S" by blast
    have root: "peval (c # ds) a = 0" using "1.prems"(3) [OF a] Cons by simp
    have "all_zero (syn_div a ds)"
    proof (rule "1.IH" [rule_format])
      show "length (syn_div a ds) < length cs" using Cons by simp
      show "finite (S - {a})" using "1.prems"(1) by simp
      show "length (syn_div a ds) \<le> card (S - {a})"
        using "1.prems"(1,2) a Cons by simp
      fix x
      assume x: "x \<in> S - {a}"
      then have "peval (c # ds) x = 0" using "1.prems"(3) Cons by auto
      with syn_div [of c ds x a] root have "(x - a) * peval (syn_div a ds) x = 0"
        by (simp del: peval.simps)
      with x show "peval (syn_div a ds) x = 0" by simp
    qed
    then have ds: "all_zero ds" by (rule syn_div_zero)
    with root have "c = 0" by (simp add: peval_all_zero)
    with ds Cons show ?thesis by (simp add: all_zero_def)
  qed
qed

subsection \<open>Polynomial functions\<close>

definition polyfn :: "nat \<Rightarrow> ('a::field \<Rightarrow> 'a) \<Rightarrow> bool" where
  "polyfn n f \<longleftrightarrow> (\<exists>cs. length cs = n \<and> f = peval cs)"

lemma peval_map2_add:
  "length cs = length ds \<Longrightarrow> peval (map2 (+) cs ds) x = peval cs x + peval ds x"
  by (induction cs ds rule: list_induct2) (simp_all add: algebra_simps)

lemma peval_scale: "peval (map ((*) a) cs) x = a * peval cs x"
  by (induction cs) (simp_all add: algebra_simps)

lemma peval_append: "peval (cs @ ds) x = peval cs x + x ^ length cs * peval ds x"
  by (induction cs) (simp_all add: algebra_simps)

lemma polyfn_peval: "polyfn (length cs) (peval cs)"
  by (auto simp: polyfn_def)

lemma polyfn_pad: "polyfn n f \<Longrightarrow> n \<le> m \<Longrightarrow> polyfn m f"
proof -
  assume "polyfn n f" and le: "n \<le> m"
  then obtain cs where cs: "length cs = n" "f = peval cs" by (auto simp: polyfn_def)
  have "peval (cs @ replicate (m - n) 0) = f"
    using cs by (intro ext) (simp add: peval_append peval_all_zero all_zero_def list_all_iff)
  with cs le show ?thesis unfolding polyfn_def
    by (intro exI [of _ "cs @ replicate (m - n) 0"]) simp
qed

lemma polyfn_add:
  assumes "polyfn n f" "polyfn n g"
  shows "polyfn n (\<lambda>x. f x + g x)"
proof -
  obtain cs ds where "length cs = n" "f = peval cs" "length ds = n" "g = peval ds"
    using assms by (auto simp: polyfn_def)
  then show ?thesis unfolding polyfn_def
    by (intro exI [of _ "map2 (+) cs ds"]) (auto simp: peval_map2_add)
qed

lemma polyfn_scale:
  assumes "polyfn n f"
  shows "polyfn n (\<lambda>x. a * f x)"
proof -
  obtain cs where "length cs = n" "f = peval cs" using assms by (auto simp: polyfn_def)
  then show ?thesis unfolding polyfn_def
    by (intro exI [of _ "map ((*) a) cs"]) (auto simp: peval_scale)
qed

lemma polyfn_linear:
  assumes "polyfn n f"
  shows "polyfn (Suc n) (\<lambda>x. (x - a) * f x)"
proof -
  obtain cs where cs: "length cs = n" "f = peval cs" using assms by (auto simp: polyfn_def)
  have "peval (0 # cs) = (\<lambda>x. x * f x)" using cs by (intro ext) simp
  then have "polyfn (Suc n) (\<lambda>x. x * f x)"
    using polyfn_peval [of "0 # cs"] cs by simp
  moreover have "polyfn (Suc n) (\<lambda>x. (- a) * f x)"
    by (rule polyfn_pad [OF polyfn_scale [OF assms]]) simp
  ultimately have "polyfn (Suc n) (\<lambda>x. x * f x + (- a) * f x)" by (rule polyfn_add)
  then show ?thesis by (simp add: algebra_simps)
qed

lemma polyfn_sum:
  fixes f :: "'i \<Rightarrow> 'a::field \<Rightarrow> 'a"
  shows "(\<And>i. i \<in> A \<Longrightarrow> polyfn n (f i)) \<Longrightarrow> finite A \<Longrightarrow> polyfn n (\<lambda>x. \<Sum>i\<in>A. f i x)"
proof (induction A rule: infinite_finite_induct)
  case empty
  have "polyfn n (peval (replicate n (0 :: 'a)))" using polyfn_peval [of "replicate n 0"] by simp
  moreover have "peval (replicate n (0 :: 'a)) = (\<lambda>x. 0)"
    by (intro ext) (simp add: peval_all_zero all_zero_def list_all_iff)
  ultimately show ?case by simp
next
  case (insert i A)
  then show ?case by (simp add: polyfn_add)
qed simp

lemma polyfn_prod: "finite A \<Longrightarrow> polyfn (Suc (card A)) (\<lambda>x. \<Prod>j\<in>A. x - b j)"
proof (induction A rule: finite_induct)
  case empty
  show ?case unfolding polyfn_def by (intro exI [of _ "[1]"]) auto
next
  case (insert j A)
  then show ?case using polyfn_linear [of "Suc (card A)" _ "b j"] by simp
qed

subsection \<open>Lagrange interpolation\<close>

definition lagrange :: "'a::field list \<Rightarrow> nat \<Rightarrow> 'a \<Rightarrow> 'a" where
  "lagrange xs i x = (\<Prod>j\<in>{..<length xs} - {i}. x - xs ! j) / (\<Prod>j\<in>{..<length xs} - {i}. xs ! i - xs ! j)"

definition interp :: "'a::field list \<Rightarrow> 'a list \<Rightarrow> 'a \<Rightarrow> 'a" where
  "interp xs ys x = (\<Sum>i<length xs. ys ! i * lagrange xs i x)"

lemma lagrange_at:
  assumes "distinct xs" "i < length xs" "m < length xs"
  shows "lagrange xs i (xs ! m) = (if m = i then 1 else 0)"
proof (cases "m = i")
  case True
  have "(\<Prod>j\<in>{..<length xs} - {i}. xs ! i - xs ! j) \<noteq> 0"
    using assms by (auto simp: nth_eq_iff_index_eq)
  with True show ?thesis by (simp add: lagrange_def)
next
  case False
  then have "(\<Prod>j\<in>{..<length xs} - {i}. xs ! m - xs ! j) = 0"
    using assms by (intro prod_zero) auto
  with False show ?thesis by (simp add: lagrange_def)
qed

lemma interp_at:
  assumes "distinct xs" "m < length xs"
  shows "interp xs ys (xs ! m) = ys ! m"
proof -
  have "interp xs ys (xs ! m) = (\<Sum>i<length xs. ys ! i * (if m = i then 1 else 0))"
    unfolding interp_def using assms by (intro sum.cong) (auto simp: lagrange_at)
  also have "\<dots> = (\<Sum>i<length xs. if i = m then ys ! i else 0)"
    by (intro sum.cong) auto
  also have "\<dots> = ys ! m" using assms by simp
  finally show ?thesis .
qed

lemma polyfn_interp: "xs \<noteq> [] \<Longrightarrow> polyfn (length xs) (interp xs ys)"
proof -
  assume "xs \<noteq> []"
  have "polyfn (length xs) (\<lambda>x. ys ! i * lagrange xs i x)" if "i < length xs" for i
  proof -
    have "Suc (card ({..<length xs} - {i})) = length xs" using that by simp
    then have "polyfn (length xs) (\<lambda>x. \<Prod>j\<in>{..<length xs} - {i}. x - xs ! j)"
      using polyfn_prod [of "{..<length xs} - {i}" "\<lambda>j. xs ! j"] by simp
    then have "polyfn (length xs) (\<lambda>x. (ys ! i / (\<Prod>j\<in>{..<length xs} - {i}. xs ! i - xs ! j)) *
        (\<Prod>j\<in>{..<length xs} - {i}. x - xs ! j))"
      by (rule polyfn_scale)
    then show ?thesis by (simp add: lagrange_def mult.commute mult.left_commute)
  qed
  then show ?thesis unfolding interp_def by (intro polyfn_sum) auto
qed

lemma poly_agree:
  assumes "distinct xs" "length cs = length xs" "length ds = length xs"
    and "map (peval cs) xs = map (peval ds) xs"
  shows "cs = ds"
proof -
  let ?es = "map2 (+) cs (map ((*) (- 1)) ds)"
  have eval: "peval ?es x = peval cs x - peval ds x" for x
    using assms by (simp add: peval_map2_add peval_scale)
  have "all_zero ?es"
  proof (rule poly_roots_zero [of "set xs"])
    show "length ?es \<le> card (set xs)" using assms by (simp add: distinct_card)
    show "peval ?es x = 0" if "x \<in> set xs" for x
      using that assms(4) by (simp add: eval map_eq_conv)
  qed simp
  then show ?thesis
    using assms(2,3)
    by (auto simp: all_zero_def list_all_length intro!: nth_equalityI)
qed

text \<open>Through points with distinct abscissas goes exactly one polynomial with that many
  coefficients.\<close>

lemma interpolation_unique:
  assumes "distinct xs" "xs \<noteq> []" "length ys = length xs"
  shows "\<exists>!cs. length cs = length xs \<and> map (peval cs) xs = ys"
proof -
  obtain cs where cs: "length cs = length xs" "interp xs ys = peval cs"
    using polyfn_interp [OF assms(2), of ys] by (auto simp: polyfn_def)
  have "map (peval cs) xs = ys"
    using assms(1,3) by (intro nth_equalityI) (simp_all add: interp_at flip: cs(2))
  with cs poly_agree [OF assms(1)] show ?thesis by metis
qed

text \<open>Recovery: a polynomial with at most as many coefficients as there are points is its own
  interpolation, at every argument.\<close>

lemma interp_poly:
  assumes "distinct xs" "xs \<noteq> []" "length cs = length xs"
  shows "interp xs (map (peval cs) xs) x = peval cs x"
proof -
  obtain ds where ds: "length ds = length xs" "interp xs (map (peval cs) xs) = peval ds"
    using polyfn_interp [OF assms(2)] by (auto simp: polyfn_def)
  have "map (peval ds) xs = map (peval cs) xs"
    using assms(1) by (intro nth_equalityI) (simp_all add: interp_at flip: ds(2))
  then have "ds = cs" using poly_agree [OF assms(1) ds(1) assms(3)] by simp
  with ds show ?thesis by simp
qed

end
