(* ===== verification/Gf.thy ===== *)
theory Gf
  imports Prelude FieldPoly
begin

section \<open>The field of 256 elements\<close>

text \<open>
  \<open>crates/reconstitution/src/gf.rs\<close>: the log and exp tables built from the generator 3, and the
  multiplication, division and evaluation that go through them.  The bytes with these operations
  are shown to be a field, which the type class of fields then carries into the proofs.
\<close>

definition gf_poly :: u16 where "gf_poly = 0x11b"

text \<open>Multiply by 3 and reduce.\<close>

definition gf_next :: "u16 \<Rightarrow> u16" where
  "gf_next x =
     (let y = x XOR push_bit 1 x in if y AND 0x100 \<noteq> 0 then y XOR gf_poly else y)"

record gf_tables =
  gf_exp :: "u8 list"
  gf_log :: "u8 list"

fun gf_fill :: "nat \<Rightarrow> nat \<Rightarrow> u16 \<Rightarrow> gf_tables \<Rightarrow> gf_tables" where
  "gf_fill 0 i x t = t"
| "gf_fill (Suc n) i x t =
     gf_fill n (Suc i) (gf_next x)
       (t\<lparr>gf_exp := (gf_exp t)[i := ucast x], gf_log := (gf_log t)[unat x := of_nat i]\<rparr>)"

definition gf_double :: "u8 list \<Rightarrow> u8 list" where
  "gf_double ex = fold (\<lambda>i e. e[i := e ! (i - 255)]) [255..<512] ex"

definition gf_new :: gf_tables where
  "gf_new =
     (let t = gf_fill 255 0 1 \<lparr>gf_exp = replicate 512 0, gf_log = replicate 256 0\<rparr>
      in t\<lparr>gf_exp := gf_double (gf_exp t)\<rparr>)"

definition gf_mul :: "gf_tables \<Rightarrow> u8 \<Rightarrow> u8 \<Rightarrow> u8" where
  "gf_mul g a b =
     (if a = 0 \<or> b = 0 then 0
      else gf_exp g ! (unat (gf_log g ! unat a) + unat (gf_log g ! unat b)))"

definition gf_div :: "gf_tables \<Rightarrow> u8 \<Rightarrow> u8 \<Rightarrow> u8" where
  "gf_div g a b =
     (if a = 0 then 0
      else gf_exp g ! (unat (gf_log g ! unat a) + 255 - unat (gf_log g ! unat b)))"

definition gf_eval :: "gf_tables \<Rightarrow> u8 list \<Rightarrow> u8 \<Rightarrow> u8" where
  "gf_eval g coeffs x = fold (\<lambda>c acc. gf_mul g acc x XOR c) (rev coeffs) 0"

subsection \<open>The powers of 3\<close>

definition gf_pow :: "nat \<Rightarrow> u16" where
  "gf_pow n = (gf_next ^^ n) 1"

fun gf_iter :: "nat \<Rightarrow> u16 \<Rightarrow> u16 list" where
  "gf_iter 0 x = []"
| "gf_iter (Suc n) x = x # gf_iter n (gf_next x)"

lemma gf_iter_nth: "i < n \<Longrightarrow> gf_iter n x ! i = (gf_next ^^ i) x"
proof (induction n arbitrary: i x)
  case (Suc n)
  then show ?case by (cases i) (simp_all add: funpow_swap1)
qed simp

lemma length_gf_iter [simp]: "length (gf_iter n x) = n"
  by (induction n arbitrary: x) auto

lemma gf_iter_numeral: "gf_iter (numeral k) x = x # gf_iter (pred_numeral k) (gf_next x)"
  by (simp add: numeral_eq_Suc)

text \<open>The one computation the field rests on: running the recurrence 255 times from 1 returns to
  1 for the first time, through nonzero bytes.\<close>

definition gf_orbit_ok :: "u16 list \<Rightarrow> bool" where
  "gf_orbit_ok xs \<longleftrightarrow> list_all (\<lambda>x. x \<noteq> 0 \<and> x \<noteq> 1 \<and> x < 256) (butlast xs) \<and> last xs = 1"

lemma gf_orbit: "gf_orbit_ok (gf_iter 255 3)"
  by (simp add: gf_iter_numeral gf_next_def gf_poly_def Let_def gf_orbit_ok_def)

lemma gf_pow_0 [simp]: "gf_pow 0 = 1"
  by (simp add: gf_pow_def)

lemma gf_next_1: "gf_next 1 = 3"
  by (simp add: gf_next_def Let_def)

lemma gf_pow_iter: "i < 255 \<Longrightarrow> gf_pow (Suc i) = gf_iter 255 3 ! i"
  by (simp only: gf_iter_nth gf_pow_def funpow_Suc_right o_apply gf_next_1)

lemma gf_pow_255: "gf_pow 255 = 1"
proof -
  have "gf_pow (Suc 254) = last (gf_iter 255 3)"
    by (subst gf_pow_iter, simp, subst last_conv_nth) (simp_all flip: length_greater_0_conv)
  also have "\<dots> = 1" using gf_orbit by (simp add: gf_orbit_ok_def)
  finally show ?thesis by simp
qed

lemma gf_pow_orbit:
  assumes "0 < i" "i < 255"
  shows "gf_pow i \<noteq> 0" "gf_pow i \<noteq> 1" "gf_pow i < 256"
proof -
  obtain j where j: "i = Suc j" "j < 254" using assms by (cases i) auto
  then have "gf_pow i = butlast (gf_iter 255 3) ! j"
    by (simp add: gf_pow_iter nth_butlast)
  moreover have "j < length (butlast (gf_iter 255 3))" using j by simp
  ultimately have "gf_pow i \<noteq> 0 \<and> gf_pow i \<noteq> 1 \<and> gf_pow i < 256"
    using gf_orbit by (auto simp: gf_orbit_ok_def list_all_length)
  then show "gf_pow i \<noteq> 0" "gf_pow i \<noteq> 1" "gf_pow i < 256" by simp_all
qed

lemma gf_pow_add: "gf_pow (m + n) = (gf_next ^^ m) (gf_pow n)"
  by (simp add: gf_pow_def funpow_add)

lemma gf_pow_period: "gf_pow (n + 255) = gf_pow n"
  by (simp only: gf_pow_add gf_pow_255) (simp add: gf_pow_def)

lemma gf_pow_mod: "gf_pow (n mod 255) = gf_pow n"
proof -
  have "gf_pow (m + 255 * k) = gf_pow m" for m k
    by (induction k) (simp_all add: gf_pow_period flip: add.assoc, metis add.assoc add.commute gf_pow_period)
  then show ?thesis by (metis mod_mult_div_eq)
qed

lemma gf_pow_byte: "gf_pow n < 256" and gf_pow_nonzero: "gf_pow n \<noteq> 0"
proof -
  have "n mod 255 < 255" by simp
  then have "gf_pow (n mod 255) < 256 \<and> gf_pow (n mod 255) \<noteq> 0"
    using gf_pow_orbit [of "n mod 255"] by (cases "n mod 255 = 0") auto
  then show "gf_pow n < 256" "gf_pow n \<noteq> 0" by (simp_all add: gf_pow_mod)
qed

lemma gf_pow_inj_le: "i \<le> j \<Longrightarrow> j < 255 \<Longrightarrow> gf_pow i = gf_pow j \<Longrightarrow> i = j"
proof (rule ccontr)
  assume le: "i \<le> j" and j: "j < 255" and eq: "gf_pow i = gf_pow j" and "i \<noteq> j"
  then have d: "0 < j - i" "j - i < 255" by auto
  have "gf_pow (j - i) = gf_pow ((j - i) + 255)" by (simp add: gf_pow_period)
  also have "(j - i) + 255 = (255 - i) + j" using le j by simp
  also have "gf_pow ((255 - i) + j) = gf_pow ((255 - i) + i)" by (simp only: gf_pow_add eq)
  also have "\<dots> = 1" using le j gf_pow_255 by simp
  finally show False using gf_pow_orbit(2) [OF d] by simp
qed

lemma gf_pow_inj: "i < 255 \<Longrightarrow> j < 255 \<Longrightarrow> gf_pow i = gf_pow j \<longleftrightarrow> i = j"
  using gf_pow_inj_le [of i j] gf_pow_inj_le [of j i] by (metis linear)

subsection \<open>The tables\<close>

definition gf_byte :: "nat \<Rightarrow> u8" where
  "gf_byte n = ucast (gf_pow n)"

lemma unat_gf_pow: "unat (gf_pow n) < 256"
  using gf_pow_byte [of n] by (simp add: word_less_nat_alt)

lemma unat_gf_byte: "unat (gf_byte n) = unat (gf_pow n)"
  using unat_gf_pow [of n] by (simp add: gf_byte_def unsigned_ucast_eq take_bit_nat_eq_self)

lemma ucast_gf_byte: "ucast (gf_byte n) = gf_pow n"
  by (rule word_unat_eq_iff [THEN iffD2])
    (use unat_gf_pow [of n] in \<open>simp add: unat_gf_byte unsigned_ucast_eq take_bit_nat_eq_self\<close>)

lemma gf_byte_nonzero [simp]: "gf_byte n \<noteq> 0"
  using gf_pow_nonzero [of n] unat_gf_byte [of n] by (metis unat_eq_zero unsigned_0)

lemma gf_byte_inj: "i < 255 \<Longrightarrow> j < 255 \<Longrightarrow> gf_byte i = gf_byte j \<longleftrightarrow> i = j"
  by (metis gf_pow_inj ucast_gf_byte)

lemma gf_byte_mod: "gf_byte (n mod 255) = gf_byte n"
  by (simp add: gf_byte_def gf_pow_mod)

lemma gf_byte_period: "gf_byte (n + 255) = gf_byte n"
  by (simp add: gf_byte_def gf_pow_period)

lemma gf_byte_0 [simp]: "gf_byte 0 = 1"
  by (simp add: gf_byte_def)

lemma gf_byte_surj:
  assumes "b \<noteq> 0"
  obtains i where "i < 255" "b = gf_byte i"
proof -
  have "inj_on gf_byte {..<255}" by (auto simp: inj_on_def gf_byte_inj)
  then have "card (gf_byte ` {..<255}) = 255" by (simp add: card_image)
  moreover have "card (UNIV - {0 :: u8}) = 255"
    by (simp add: card_Diff_singleton card_word)
  moreover have "gf_byte ` {..<255} \<subseteq> UNIV - {0}" by auto
  ultimately have "gf_byte ` {..<255} = UNIV - {0}"
    by (metis card_subset_eq finite)
  with assms have "b \<in> gf_byte ` {..<255}" by simp
  with that show ?thesis by auto
qed

lemma gf_fill_spec:
  assumes "n + i \<le> 255" "x = gf_pow i" "length (gf_exp t) = 512" "length (gf_log t) = 256"
    "\<forall>j < i. gf_exp t ! j = gf_byte j \<and> gf_log t ! unat (gf_pow j) = of_nat j"
  shows "length (gf_exp (gf_fill n i x t)) = 512 \<and> length (gf_log (gf_fill n i x t)) = 256
    \<and> (\<forall>j < n + i. gf_exp (gf_fill n i x t) ! j = gf_byte j
         \<and> gf_log (gf_fill n i x t) ! unat (gf_pow j) = of_nat j)"
  using assms
proof (induction n arbitrary: i x t)
  case 0
  then show ?case by simp
next
  case (Suc n)
  let ?t = "t\<lparr>gf_exp := (gf_exp t)[i := ucast x], gf_log := (gf_log t)[unat x := of_nat i]\<rparr>"
  have "gf_next x = gf_pow (Suc i)" using Suc.prems(2) by (simp add: gf_pow_def)
  moreover have "\<forall>j < Suc i. gf_exp ?t ! j = gf_byte j \<and> gf_log ?t ! unat (gf_pow j) = of_nat j"
  proof (intro allI impI)
    fix j
    assume j: "j < Suc i"
    show "gf_exp ?t ! j = gf_byte j \<and> gf_log ?t ! unat (gf_pow j) = of_nat j"
    proof (cases "j = i")
      case True
      then show ?thesis
        using Suc.prems unat_gf_pow [of i] by (simp add: gf_byte_def)
    next
      case False
      then have "gf_pow j \<noteq> gf_pow i" using gf_pow_inj [of j i] j Suc.prems(1) by simp
      then have "unat (gf_pow j) \<noteq> unat (gf_pow i)" by (simp add: word_unat_eq_iff)
      then show ?thesis using Suc.prems False j by simp
    qed
  qed
  ultimately have "length (gf_exp (gf_fill n (Suc i) (gf_next x) ?t)) = 512
    \<and> length (gf_log (gf_fill n (Suc i) (gf_next x) ?t)) = 256
    \<and> (\<forall>j < n + Suc i. gf_exp (gf_fill n (Suc i) (gf_next x) ?t) ! j = gf_byte j
         \<and> gf_log (gf_fill n (Suc i) (gf_next x) ?t) ! unat (gf_pow j) = of_nat j)"
    using Suc.prems by (intro Suc.IH) simp_all
  then show ?case by simp
qed

lemma gf_double_spec:
  assumes "length ex = 512" "\<forall>j < 255. ex ! j = gf_byte j"
  shows "\<forall>j < 512. gf_double ex ! j = gf_byte j"
proof -
  have "length (fold (\<lambda>i e. e[i := e ! (i - 255)]) [255..<n] ex) = 512
      \<and> (\<forall>j < n. fold (\<lambda>i e. e[i := e ! (i - 255)]) [255..<n] ex ! j = gf_byte j)"
    if "255 \<le> n" "n \<le> 512" for n
    using that
  proof (induction n rule: dec_induct)
    case base
    with assms show ?case by simp
  next
    case (step n)
    let ?e = "fold (\<lambda>i e. e[i := e ! (i - 255)]) [255..<n] ex"
    have "fold (\<lambda>i e. e[i := e ! (i - 255)]) [255..<Suc n] ex = ?e[n := ?e ! (n - 255)]"
      using step(1) by (simp add: upt_Suc)
    moreover have "?e ! (n - 255) = gf_byte n"
      using step gf_byte_period [of "n - 255"] by simp
    ultimately show ?case using step by (auto simp: less_Suc_eq)
  qed
  moreover have "(255 :: nat) \<le> 512" by simp
  ultimately have "\<forall>j < 512. fold (\<lambda>i e. e[i := e ! (i - 255)]) [255..<512] ex ! j = gf_byte j"
    by blast
  then show ?thesis unfolding gf_double_def by (blast intro: order_refl)
qed

lemma gf_new_exp: "n < 512 \<Longrightarrow> gf_exp gf_new ! n = gf_byte n"
  and gf_new_log: "i < 255 \<Longrightarrow> gf_log gf_new ! unat (gf_byte i) = of_nat i"
proof -
  let ?t = "gf_fill 255 0 1 \<lparr>gf_exp = replicate 512 0, gf_log = replicate 256 0\<rparr>"
  have t: "length (gf_exp ?t) = 512 \<and> length (gf_log ?t) = 256
      \<and> (\<forall>j < 255 + 0. gf_exp ?t ! j = gf_byte j \<and> gf_log ?t ! unat (gf_pow j) = of_nat j)"
    by (rule gf_fill_spec) simp_all
  then have "\<forall>j < 512. gf_double (gf_exp ?t) ! j = gf_byte j"
    by (intro gf_double_spec) simp_all
  then show "n < 512 \<Longrightarrow> gf_exp gf_new ! n = gf_byte n"
    by (simp add: gf_new_def Let_def)
  show "i < 255 \<Longrightarrow> gf_log gf_new ! unat (gf_byte i) = of_nat i"
    using t by (simp add: gf_new_def Let_def unat_gf_byte)
qed

lemma unat_log: "i < 255 \<Longrightarrow> unat (gf_log gf_new ! unat (gf_byte i)) = i"
  by (simp add: gf_new_log unat_of_nat)

lemma gf_mul_byte: "gf_mul gf_new (gf_byte i) (gf_byte j) = gf_byte (i + j)"
proof -
  let ?i = "i mod 255" and ?j = "j mod 255"
  have ij: "?i < 255" "?j < 255" by simp_all
  have "gf_mul gf_new (gf_byte ?i) (gf_byte ?j) = gf_exp gf_new ! (?i + ?j)"
    using unat_log [OF ij(1)] unat_log [OF ij(2)] by (simp only: gf_mul_def gf_byte_nonzero) simp
  also have "\<dots> = gf_byte (?i + ?j)" using ij by (intro gf_new_exp) linarith
  also have "\<dots> = gf_byte (i + j)" by (metis gf_byte_mod mod_add_eq)
  finally show ?thesis by (simp only: gf_byte_mod)
qed

lemma gf_div_byte:
  assumes "j < 255"
  shows "gf_div gf_new (gf_byte i) (gf_byte j) = gf_byte (i + (255 - j))"
proof -
  let ?i = "i mod 255"
  have i: "?i < 255" by simp
  have "gf_div gf_new (gf_byte ?i) (gf_byte j) = gf_exp gf_new ! (?i + 255 - j)"
    using unat_log [OF i] unat_log [OF assms] by (simp only: gf_div_def gf_byte_nonzero) simp
  also have "\<dots> = gf_byte (?i + 255 - j)" using i assms by (intro gf_new_exp) linarith
  also have "?i + 255 - j = ?i + (255 - j)" using assms by simp
  also have "gf_byte (?i + (255 - j)) = gf_byte (i + (255 - j))" by (metis gf_byte_mod mod_add_left_eq)
  finally show ?thesis by (simp only: gf_byte_mod)
qed

subsection \<open>Addition and multiplication distribute\<close>

lemma gf_next_bit: "gf_next x = (x XOR push_bit 1 x) XOR (if bit (x XOR push_bit 1 x) 8 then gf_poly else 0)"
proof -
  have "(y AND 0x100 \<noteq> 0) = bit y 8" for y :: u16
    using and_exp_eq_0_iff_not_bit [of y 8] by simp
  then show ?thesis by (simp add: gf_next_def Let_def)
qed

lemma gf_next_xor: "gf_next (x XOR y) = gf_next x XOR gf_next y"
proof -
  let ?f = "\<lambda>x :: u16. x XOR push_bit 1 x"
  have "?f (x XOR y) = ?f x XOR ?f y"
    by (simp add: push_bit_xor ac_simps)
  then show ?thesis
    unfolding gf_next_bit by (simp add: bit_xor_iff) (simp add: ac_simps)
qed

lemma gf_next_0 [simp]: "gf_next 0 = 0"
  by (simp add: gf_next_def)

lemma gf_next_pow_xor: "(gf_next ^^ n) (x XOR y) = (gf_next ^^ n) x XOR (gf_next ^^ n) y"
  by (induction n) (simp_all add: gf_next_xor)

lemma gf_next_pow_0 [simp]: "(gf_next ^^ n) 0 = 0"
  by (induction n) simp_all

lemma gf_mul_next: "gf_mul gf_new (gf_byte i) b = ucast ((gf_next ^^ i) (ucast b))"
proof (cases "b = 0")
  case True
  then show ?thesis by (simp add: gf_mul_def)
next
  case False
  then obtain j where "b = gf_byte j" using gf_byte_surj by metis
  then show ?thesis
    by (simp add: gf_mul_byte ucast_gf_byte flip: gf_pow_add) (simp add: gf_byte_def)
qed

lemma gf_mul_0 [simp]: "gf_mul g 0 b = 0" "gf_mul g a 0 = 0"
  by (simp_all add: gf_mul_def)

lemma gf_mul_comm: "gf_mul gf_new a b = gf_mul gf_new b a"
  by (cases "a = 0"; cases "b = 0") (auto elim!: gf_byte_surj simp: gf_mul_byte add.commute)

lemma gf_mul_assoc: "gf_mul gf_new (gf_mul gf_new a b) c = gf_mul gf_new a (gf_mul gf_new b c)"
  by (cases "a = 0"; cases "b = 0"; cases "c = 0")
    (auto elim!: gf_byte_surj simp: gf_mul_byte add.assoc)

lemma gf_mul_xor: "gf_mul gf_new a (b XOR c) = gf_mul gf_new a b XOR gf_mul gf_new a c"
proof (cases "a = 0")
  case False
  then obtain i where "a = gf_byte i" using gf_byte_surj by metis
  moreover have "ucast (x XOR y) = (ucast x XOR ucast y :: u16)" for x y :: u8
    by (rule bit_word_eqI) (simp add: bit_simps)
  moreover have "ucast (x XOR y) = (ucast x XOR ucast y :: u8)" for x y :: u16
    by (rule bit_word_eqI) (simp add: bit_simps)
  ultimately show ?thesis by (simp add: gf_mul_next gf_next_pow_xor)
qed simp

lemma gf_mul_1 [simp]: "gf_mul gf_new 1 b = b"
  using gf_mul_byte [of 0] by (cases "b = 0") (auto elim!: gf_byte_surj)

lemma gf_mul_div: "b \<noteq> 0 \<Longrightarrow> gf_mul gf_new (gf_div gf_new a b) b = a"
proof (cases "a = 0")
  case True
  then show ?thesis by (simp add: gf_div_def)
next
  case False
  assume "b \<noteq> 0"
  then obtain j where j: "j < 255" "b = gf_byte j" using gf_byte_surj by metis
  obtain i where i: "a = gf_byte i" using False gf_byte_surj by metis
  have "gf_mul gf_new (gf_div gf_new a b) b = gf_byte (i + (255 - j) + j)"
    using i j by (simp only: gf_div_byte gf_mul_byte)
  also have "i + (255 - j) + j = i + 255" using j(1) by simp
  also have "gf_byte (i + 255) = a" using i by (simp only: gf_byte_period)
  finally show ?thesis .
qed

subsection \<open>The field\<close>

typedef gf256 = "UNIV :: u8 set" morphisms gf_rep GF
  by simp

lemmas gf_rep_simps [simp] = GF_inverse [OF UNIV_I] gf_rep_inverse

lemma GF_inj [simp]: "GF a = GF b \<longleftrightarrow> a = b"
  using GF_inject by simp

lemma gf_eqI: "gf_rep x = gf_rep y \<Longrightarrow> x = y"
  by (simp add: gf_rep_inject)

instantiation gf256 :: field
begin

definition zero_gf256 :: gf256 where "zero_gf256 = GF 0"
definition one_gf256 :: gf256 where "one_gf256 = GF 1"
definition plus_gf256 :: "gf256 \<Rightarrow> gf256 \<Rightarrow> gf256" where
  "plus_gf256 x y = GF (gf_rep x XOR gf_rep y)"
definition minus_gf256 :: "gf256 \<Rightarrow> gf256 \<Rightarrow> gf256" where
  "minus_gf256 x y = GF (gf_rep x XOR gf_rep y)"
definition uminus_gf256 :: "gf256 \<Rightarrow> gf256" where "uminus_gf256 x = x"
definition times_gf256 :: "gf256 \<Rightarrow> gf256 \<Rightarrow> gf256" where
  "times_gf256 x y = GF (gf_mul gf_new (gf_rep x) (gf_rep y))"
definition inverse_gf256 :: "gf256 \<Rightarrow> gf256" where
  "inverse_gf256 x = (if gf_rep x = 0 then GF 0 else GF (gf_div gf_new 1 (gf_rep x)))"
definition divide_gf256 :: "gf256 \<Rightarrow> gf256 \<Rightarrow> gf256" where
  "divide_gf256 x y = x * inverse y"

lemmas gf256_defs = zero_gf256_def one_gf256_def plus_gf256_def minus_gf256_def uminus_gf256_def
  times_gf256_def inverse_gf256_def divide_gf256_def

instance
proof
  fix a b c :: gf256
  show "a + b + c = a + (b + c)" by (simp add: gf256_defs ac_simps)
  show "a + b = b + a" by (simp add: gf256_defs ac_simps)
  show "0 + a = a" by (simp add: gf256_defs)
  show "- a + a = 0" by (simp add: gf256_defs)
  show "a - b = a + - b" by (simp add: gf256_defs)
  show "a * b * c = a * (b * c)" by (simp add: gf256_defs gf_mul_assoc)
  show "a * b = b * a" by (simp add: gf256_defs gf_mul_comm)
  show "1 * a = a" by (simp add: gf256_defs)
  show "(a + b) * c = a * c + b * c"
    by (simp add: gf256_defs gf_mul_comm [of _ "gf_rep c"] gf_mul_xor)
  show "(0 :: gf256) \<noteq> 1" by (simp add: gf256_defs)
  show "inverse a * a = 1" if "a \<noteq> 0"
  proof -
    have "gf_rep a \<noteq> 0" using that by (metis gf_rep_inverse zero_gf256_def)
    then show ?thesis by (simp add: gf256_defs gf_mul_div)
  qed
  show "a div b = a * inverse b" by (simp add: divide_gf256_def)
  show "inverse (0 :: gf256) = 0" by (simp add: gf256_defs)
qed

end

lemma GF_add: "GF (a XOR b) = GF a + GF b" and GF_sub: "GF (a XOR b) = GF a - GF b"
  and GF_mul: "GF (gf_mul gf_new a b) = GF a * GF b" and GF_zero: "GF 0 = 0" and GF_one: "GF 1 = 1"
  by (simp_all add: gf256_defs)

lemma GF_div: "b \<noteq> 0 \<Longrightarrow> GF (gf_div gf_new a b) = GF a / GF b"
proof -
  assume b: "b \<noteq> 0"
  then have "GF (gf_div gf_new a b) * GF b = GF a" by (simp add: gf_mul_div flip: GF_mul)
  moreover have "GF b \<noteq> 0" using b by (simp flip: GF_zero)
  ultimately show ?thesis by (simp add: nonzero_eq_divide_eq)
qed

lemma GF_eval: "GF (gf_eval gf_new cs x) = peval (map GF cs) (GF x)"
proof -
  have "gf_eval gf_new cs x = foldr (\<lambda>c acc. gf_mul gf_new acc x XOR c) cs 0"
    by (simp add: gf_eval_def foldr_conv_fold)
  then show ?thesis
  proof (induction cs arbitrary: x)
    case Nil
    then show ?case by (simp add: GF_zero gf_eval_def)
  next
    case (Cons c cs)
    have "gf_eval gf_new (c # cs) x = gf_mul gf_new (gf_eval gf_new cs x) x XOR c"
      by (simp add: gf_eval_def)
    moreover have "GF (gf_eval gf_new cs x) = peval (map GF cs) (GF x)"
      by (rule Cons.IH) (simp add: gf_eval_def foldr_conv_fold)
    ultimately show ?case by (simp add: GF_add GF_mul algebra_simps)
  qed
qed

subsection \<open>The reference: shift and add\<close>

text \<open>Multiplication in the AES field without tables: doubling with reduction, and the sum of the
  doublings the bits of the second factor select.\<close>

definition gf_xtime :: "u8 \<Rightarrow> u8" where
  "gf_xtime x = push_bit 1 x XOR (if bit x 7 then 0x1b else 0)"

fun gf_peasant :: "nat \<Rightarrow> u8 \<Rightarrow> u8 \<Rightarrow> u8" where
  "gf_peasant 0 a b = 0"
| "gf_peasant (Suc n) a b = (if odd b then a else 0) XOR gf_peasant n (gf_xtime a) (drop_bit 1 b)"

lemma bit_ucast_shift: "bit (ucast x XOR push_bit 1 (ucast x) :: u16) n \<longleftrightarrow>
    n < 16 \<and> (bit x n \<noteq> (0 < n \<and> bit (x :: u8) (n - 1)))"
  by (auto simp only: bit_xor_iff bit_push_bit_iff bit_ucast_iff possible_bit_word)
    (simp_all add: possible_bit_def exp_eq_zero_iff del: push_bit_eq_mult)

lemma bit_u8_8: "\<not> bit (x :: u8) 8" by (simp add: bit_word.rep_eq)

lemma bit_next_8: "bit (ucast (x::u8) XOR push_bit 1 (ucast x) :: u16) 8 = bit x 7"
    by (simp only: bit_ucast_shift bit_u8_8) simp

lemma len_8: "LENGTH(8) = 8" by simp

lemma bit_next_low: "m < LENGTH(8) \<Longrightarrow> bit (ucast (ucast (x::u8) XOR push_bit 1 (ucast x) :: u16) :: u8) m = bit (push_bit 1 x XOR x) m"
      by (simp only: bit_ucast_iff bit_ucast_shift)
       (unfold bit_xor_iff bit_push_bit_iff, rule impI [THEN mp], auto simp only: possible_bit_word less_one not_less not_le One_nat_def Suc_le_eq len_8)

lemma ucast_xor_u8: "ucast (y XOR z :: u16) = (ucast y XOR ucast z :: u8)"
    by (rule bit_word_eqI) (simp add: bit_simps)

lemma gf_byte_1: "gf_byte 1 = 3" by (simp add: gf_byte_def gf_pow_def gf_next_1)

lemma gf_mul_3_next: "gf_byte 1 = 3 \<Longrightarrow> gf_mul gf_new 3 x = ucast (gf_next (ucast x))"
    using gf_mul_next [of 1 x] by simp

lemma gf_poly_low: "ucast gf_poly = (0x1b :: u8)" by (simp add: gf_poly_def)

lemma gf_next_byte: "ucast (gf_next (ucast x)) = gf_xtime x XOR (x :: u8)"
proof -
  have u: "ucast (ucast x XOR push_bit 1 (ucast x) :: u16) = push_bit 1 x XOR x"
    by (rule bit_word_eqI) (rule bit_next_low)
  have "ucast (gf_next (ucast x)) = (push_bit 1 x XOR x) XOR ucast (if bit x 7 then gf_poly else 0)"
    by (simp only: gf_next_bit bit_next_8 ucast_xor_u8 [of "ucast x XOR push_bit 1 (ucast x)"] u)
  also have "ucast (if bit x 7 then gf_poly else 0) = (if bit x 7 then 0x1b else 0 :: u8)"
    by (cases "bit x 7") (simp_all only: gf_poly_low ucast_0 if_True if_False)
  finally show ?thesis
    by (simp only: gf_xtime_def xor.assoc xor.commute [of x])
qed

lemma gf_mul_3: "gf_mul gf_new 3 x = gf_xtime x XOR x"
  by (rule trans [OF gf_mul_3_next [OF gf_byte_1] gf_next_byte])

lemma gf_mul_2: "gf_mul gf_new 2 x = gf_xtime x"
proof -
  have "gf_mul gf_new x (2 XOR 1) = gf_mul gf_new x 2 XOR gf_mul gf_new x 1"
    by (rule gf_mul_xor)
  moreover have "(2 XOR 1 :: u8) = 3" by simp
  ultimately have "gf_xtime x XOR x = gf_mul gf_new 2 x XOR x"
    by (simp only: gf_mul_3 gf_mul_1 gf_mul_comm [of x])
  from arg_cong [OF this, of "\<lambda>y. y XOR x"] show ?thesis by (simp only: xor.assoc xor_self_eq xor.right_neutral)
qed

lemma gf_double_clear: "\<not> bit c 7 \<Longrightarrow> gf_mul gf_new 2 c = push_bit 1 c"
  by (simp only: gf_mul_2 gf_xtime_def if_False xor.right_neutral)

lemma take_bit_Suc_split: "take_bit (Suc n) b = (if odd b then 1 else 0) XOR push_bit 1 (take_bit n (drop_bit 1 (b :: u8)))"
proof (rule bit_word_eqI)
  fix m
  assume "m < LENGTH(8)"
  moreover have "bit (if odd b then 1 else 0 :: u8) m = (m = 0 \<and> odd b)"
    by (simp add: bit_1_iff)
  ultimately show "bit (take_bit (Suc n) b) m = bit ((if odd b then 1 else 0) XOR push_bit 1 (take_bit n (drop_bit 1 b))) m"
    by (cases m)
      (simp_all only: bit_xor_iff bit_push_bit_iff bit_take_bit_iff bit_drop_bit_eq o_apply, simp_all add: bit_0)
qed

lemma gf_peasant_take: "gf_peasant n a b = gf_mul gf_new a (take_bit n b)"
proof (induction n arbitrary: a b)
  case 0
  show ?case by (simp add: gf_mul_def)
next
  case (Suc n)
  let ?c = "take_bit n (drop_bit 1 b)"
  have "\<not> bit ?c 7" by (simp only: bit_take_bit_iff bit_drop_bit_eq o_apply) (simp add: bit_word.rep_eq)
  then have "gf_mul gf_new (gf_xtime a) ?c = gf_mul gf_new a (push_bit 1 ?c)"
    by (metis gf_double_clear gf_mul_2 gf_mul_assoc gf_mul_comm)
  moreover have "gf_mul gf_new a (if odd b then 1 else 0) = (if odd b then a else 0)"
    by (simp add: gf_mul_comm [of a 1])
  ultimately show ?case
    by (simp only: gf_peasant.simps Suc.IH take_bit_Suc_split gf_mul_xor)
qed

lemma gf_mul_peasant: "gf_mul gf_new a b = gf_peasant 8 a b"
  by (simp only: gf_peasant_take) (simp add: take_bit_word_eq_self)

end
