(* ===== verification/Shamir.thy ===== *)
theory Shamir
  imports Gf Extern
begin

section \<open>Reconstitution: recovery shares\<close>

text \<open>
  \<open>crates/reconstitution/src/lib.rs\<close> and \<open>error.rs\<close>.  Splitting draws from the random generator,
  so it is an action on the counter of draws.  The byte-wise loops of \<open>combine\<close> are folds over
  the same index ranges.
\<close>

datatype rc_error =
    RcParams string
  | RcMalformed string
  | RcMixedSet
  | RcDuplicate u8
  | RcInsufficient nat u8
  | RcIntegrity

record share =
  sh_id :: bytes
  sh_k :: u8
  sh_x :: u8
  sh_tag :: bytes
  sh_y :: bytes

definition rc_version :: byte where "rc_version = 1"
definition tag_len :: nat where "tag_len = 16"

subsection \<open>The portable form\<close>

definition share_encode :: "share \<Rightarrow> bytes" where
  "share_encode s =
     rc_version # sh_id s @ [sh_k s, sh_x s] @ sh_tag s @ of_nat (length (sh_y s)) # sh_y s"

definition share_decode :: "bytes \<Rightarrow> rc_error + share" where
  "share_decode buf =
     (let head = 1 + 4 + 1 + 1 + tag_len + 1 in
      if length buf < head then Inl (RcMalformed ''too short'')
      else if buf ! 0 \<noteq> rc_version
      then Inl (RcMalformed (''unknown version '' @ show_nat (unat (buf ! 0))))
      else
        let i = take 4 (drop 1 buf);
            k = buf ! 5;
            x = buf ! 6;
            tag = take tag_len (drop 7 buf);
            ylen = unat (buf ! (7 + tag_len));
            y = drop head buf
        in if length y \<noteq> ylen then Inl (RcMalformed ''length does not match body'')
           else if k = 0 then Inl (RcMalformed ''threshold is zero'')
           else if x = 0 then Inl (RcMalformed ''index is zero'')
           else Inr \<lparr>sh_id = i, sh_k = k, sh_x = x, sh_tag = tag, sh_y = y\<rparr>)"

definition share_to_hex :: "ext \<Rightarrow> share \<Rightarrow> string" where
  "share_to_hex X s = x_hex_enc X (share_encode s)"

definition share_from_hex :: "ext \<Rightarrow> string \<Rightarrow> rc_error + share" where
  "share_from_hex X s =
     res_bind (ok_or (RcMalformed ''not hex'') (x_hex_dec X (str_trim s))) share_decode"

subsection \<open>Splitting\<close>

definition tag_of :: "ext \<Rightarrow> bytes \<Rightarrow> bytes" where
  "tag_of X secret = take tag_len (x_derive_key X ''horizon reconstitution tag v1'' secret)"

definition byte_coeffs :: "ext \<Rightarrow> u8 \<Rightarrow> byte \<Rightarrow> nat \<Rightarrow> bytes \<times> nat" where
  "byte_coeffs X k b d =
     (let c = (replicate (unat k) 0)[0 := b] in
      if k > 1 then (take 1 c @ x_random X d (length c - 1), d + 1) else (c, d))"

fun split_coeffs :: "ext \<Rightarrow> u8 \<Rightarrow> bytes \<Rightarrow> nat \<Rightarrow> bytes list \<times> nat" where
  "split_coeffs X k [] d = ([], d)"
| "split_coeffs X k (b # bs) d =
     (case byte_coeffs X k b d of (c, d') \<Rightarrow>
      case split_coeffs X k bs d' of (cs, d'') \<Rightarrow> (c # cs, d''))"

definition make_share :: "bytes \<Rightarrow> u8 \<Rightarrow> bytes \<Rightarrow> bytes list \<Rightarrow> u8 \<Rightarrow> share" where
  "make_share i k tag coeffs x =
     \<lparr>sh_id = i, sh_k = k, sh_x = x, sh_tag = tag, sh_y = map (\<lambda>c. gf_eval gf_new c x) coeffs\<rparr>"

definition split_secret :: "ext \<Rightarrow> bytes \<Rightarrow> u8 \<Rightarrow> u8 \<Rightarrow> (nat, rc_error, share list) action" where
  "split_secret X secret k n d =
     (if secret = [] then (Inl (RcParams ''secret is empty''), d)
      else if k = 0 \<or> n = 0 then (Inl (RcParams ''k and n must be at least 1''), d)
      else if k > n
      then (Inl (RcParams (''k ('' @ show_nat (unat k) @ '') exceeds n ('' @ show_nat (unat n) @ '')'')), d)
      else
        let i = x_random X d 4;
            (coeffs, d') = split_coeffs X k secret (d + 1)
        in (Inr (map (\<lambda>x. make_share i k (tag_of X secret) coeffs (of_nat x)) [1..<Suc (unat n)]), d'))"

subsection \<open>Combining\<close>

definition same_set :: "share \<Rightarrow> share \<Rightarrow> bool" where
  "same_set first s \<longleftrightarrow>
     sh_id s = sh_id first \<and> sh_k s = sh_k first \<and> sh_tag s = sh_tag first
     \<and> length (sh_y s) = length (sh_y first)"

fun combine_scan :: "share \<Rightarrow> share list \<Rightarrow> u8 set \<Rightarrow> rc_error option" where
  "combine_scan first [] seen = None"
| "combine_scan first (s # ss) seen =
     (if \<not> same_set first s then Some RcMixedSet
      else if sh_x s = 0 then Some (RcMalformed ''index is zero'')
      else if sh_x s \<in> seen then Some (RcDuplicate (sh_x s))
      else combine_scan first ss (insert (sh_x s) seen))"

definition basis_at0 :: "gf_tables \<Rightarrow> bytes \<Rightarrow> nat \<Rightarrow> u8 \<times> u8" where
  "basis_at0 g xs i =
     fold (\<lambda>j (num, den).
         if i \<noteq> j then (gf_mul g num (xs ! j), gf_mul g den (xs ! i XOR xs ! j)) else (num, den))
       [0..<length xs] (1, 1)"

definition combine_byte :: "gf_tables \<Rightarrow> bytes \<Rightarrow> bytes \<Rightarrow> u8" where
  "combine_byte g xs ys =
     fold (\<lambda>i acc. case basis_at0 g xs i of (num, den) \<Rightarrow> acc XOR gf_mul g (ys ! i) (gf_div g num den))
       [0..<length xs] 0"

definition combine :: "ext \<Rightarrow> share list \<Rightarrow> rc_error + bytes" where
  "combine X shares =
     (case shares of
        [] \<Rightarrow> Inl (RcParams ''no shares given'')
      | first # _ \<Rightarrow>
          (case combine_scan first shares {} of
             Some e \<Rightarrow> Inl e
           | None \<Rightarrow>
               if length shares < unat (sh_k first)
               then Inl (RcInsufficient (length shares) (sh_k first))
               else
                 let pts = take (unat (sh_k first)) shares;
                     xs = map sh_x pts;
                     secret = map (\<lambda>b. combine_byte gf_new xs (map (\<lambda>s. sh_y s ! b) pts))
                                [0..<length (sh_y first)]
                 in if tag_of X secret \<noteq> sh_tag first then Inl RcIntegrity else Inr secret))"

subsection \<open>Interpolation at zero\<close>

lemma gf_uminus: "- x = (x :: gf256)"
  by (simp add: uminus_gf256_def)

lemma basis_fold:
  assumes "i < length xs" "m \<le> length xs"
  shows "case fold (\<lambda>j (num, den).
         if i \<noteq> j then (gf_mul gf_new num (xs ! j), gf_mul gf_new den (xs ! i XOR xs ! j)) else (num, den))
       [0..<m] (1, 1) of (num, den) \<Rightarrow>
     GF num = (\<Prod>j\<in>{..<m} - {i}. 0 - map GF xs ! j)
     \<and> GF den = (\<Prod>j\<in>{..<m} - {i}. map GF xs ! i - map GF xs ! j)"
  using assms(2)
proof (induction m)
  case 0
  then show ?case by (simp add: GF_one)
next
  case (Suc m)
  then have m: "m < length xs" by simp
  have dom: "{..<Suc m} - {i} = (if m = i then {..<m} - {i} else insert m ({..<m} - {i}))" by auto
  from Suc.IH m show ?case
    unfolding dom using assms(1)
    by (auto simp: GF_mul GF_sub gf_uminus mult.commute split: prod.splits)
qed

lemma basis_at0:
  assumes "i < length xs" "basis_at0 gf_new xs i = (num, den)"
  shows "GF num = (\<Prod>j\<in>{..<length xs} - {i}. 0 - map GF xs ! j)"
    and "GF den = (\<Prod>j\<in>{..<length xs} - {i}. map GF xs ! i - map GF xs ! j)"
  using basis_fold [of i xs "length xs", OF assms(1)] assms(2) by (simp_all add: basis_at0_def)

lemma combine_byte_interp:
  assumes "distinct xs" "length ys = length xs"
  shows "GF (combine_byte gf_new xs ys) = interp (map GF xs) (map GF ys) 0"
proof -
  have summand: "GF (case basis_at0 gf_new xs i of (num, den) \<Rightarrow> acc XOR gf_mul gf_new (ys ! i) (gf_div gf_new num den))
      = GF acc + map GF ys ! i * lagrange (map GF xs) i 0" if i: "i < length xs" for i acc
  proof -
    obtain num den where b: "basis_at0 gf_new xs i = (num, den)" by fastforce
    have "map GF xs ! i - map GF xs ! j \<noteq> 0" if "j \<in> {..<length xs} - {i}" for j
      using that i assms(1) by (auto simp: nth_eq_iff_index_eq)
    then have "GF den \<noteq> 0" using basis_at0(2) [OF i b] by simp
    then have "den \<noteq> 0" by (metis GF_zero)
    then have "GF (gf_div gf_new num den) = lagrange (map GF xs) i 0"
      using basis_at0 [OF i b] by (simp add: GF_div lagrange_def)
    with b i assms(2) show ?thesis by (simp add: GF_add GF_mul)
  qed
  have "GF (fold (\<lambda>i acc. case basis_at0 gf_new xs i of (num, den) \<Rightarrow> acc XOR gf_mul gf_new (ys ! i) (gf_div gf_new num den))
       [0..<m] 0) = (\<Sum>i<m. map GF ys ! i * lagrange (map GF xs) i 0)" if "m \<le> length xs" for m
    using that by (induction m) (simp_all add: GF_zero summand)
  from this [of "length xs"] show ?thesis by (simp add: combine_byte_def interp_def)
qed

subsection \<open>Recovery\<close>

lemma byte_coeffs_spec:
  assumes "ext_ok X" "k \<noteq> 0"
  shows "length (fst (byte_coeffs X k b d)) = unat k" "hd (fst (byte_coeffs X k b d)) = b"
proof -
  obtain m where "unat k = Suc m" using assms(2) by (metis gr0_implies_Suc unat_gt_0)
  then show "length (fst (byte_coeffs X k b d)) = unat k" "hd (fst (byte_coeffs X k b d)) = b"
    using assms(1) by (simp_all add: byte_coeffs_def Let_def ext_ok_lengths)
qed

lemma split_coeffs_spec:
  assumes X: "ext_ok X" and k: "k \<noteq> 0"
  shows "length (fst (split_coeffs X k bs d)) = length bs
    \<and> (\<forall>b < length bs. length (fst (split_coeffs X k bs d) ! b) = unat k
         \<and> hd (fst (split_coeffs X k bs d) ! b) = bs ! b)"
proof (induction bs arbitrary: d)
  case Nil
  show ?case by simp
next
  case (Cons b bs)
  have "fst (split_coeffs X k (b # bs) d)
      = fst (byte_coeffs X k b d) # fst (split_coeffs X k bs (snd (byte_coeffs X k b d)))"
    by (simp add: case_prod_beta)
  with Cons.IH [of "snd (byte_coeffs X k b d)"] byte_coeffs_spec [OF X k, of b d] show ?case
    by (simp add: nth_Cons' del: split_coeffs.simps)
qed

text \<open>The shares a split returns: one record shape, abscissas 1 to \<open>n\<close>.\<close>

lemma split_secret_shares:
  assumes "split_secret X secret k n d = (Inr shares, d')"
  shows "secret \<noteq> []" "k \<noteq> 0" "k \<le> n" "shares = map (\<lambda>x. make_share (x_random X d 4) k (tag_of X secret)
      (fst (split_coeffs X k secret (d + 1))) (of_nat x)) [1..<Suc (unat n)]"
  using assms by (auto simp: split_secret_def Let_def split: if_splits prod.splits)

lemma split_secret_ok:
  assumes "secret \<noteq> []" "k \<noteq> 0" "k \<le> n"
  obtains shares d' where "split_secret X secret k n d = (Inr shares, d')"
proof -
  have "n \<noteq> 0" using assms(2,3) by auto
  moreover obtain cs d' where "split_coeffs X k secret (d + 1) = (cs, d')" by fastforce
  ultimately have "\<exists>shares. split_secret X secret k n d = (Inr shares, d')"
    using assms by (simp add: split_secret_def Let_def not_less)
  with that show ?thesis by blast
qed

lemma of_nat_byte_inj: "a < 256 \<Longrightarrow> b < 256 \<Longrightarrow> (of_nat a :: u8) = of_nat b \<longleftrightarrow> a = b"
  by (auto simp: word_unat_eq_iff unat_of_nat)

lemma split_secret_distinct:
  assumes "split_secret X secret k n d = (Inr shares, d')"
  shows "length shares = unat n" "distinct (map sh_x shares)" "distinct shares"
proof -
  have n: "unat n < 256" using unsigned_less [of n, where ?'a = nat] by simp
  note sh = split_secret_shares(4) [OF assms]
  show "length shares = unat n" by (simp add: sh)
  have "inj_on (of_nat :: nat \<Rightarrow> u8) {1..<Suc (unat n)}"
    using n by (intro inj_onI) (simp add: of_nat_byte_inj)
  then show "distinct (map sh_x shares)"
    by (simp add: sh make_share_def o_def distinct_map del: upt_Suc)
  then show "distinct shares" by (rule distinct_map [THEN iffD1, THEN conjunct1])
qed

lemma combine_scan_ok:
  assumes "\<forall>s \<in> set ss. same_set f s \<and> sh_x s \<noteq> 0"
    and "distinct (map sh_x ss)" "sh_x ` set ss \<inter> seen = {}"
  shows "combine_scan f ss seen = None"
  using assms
proof (induction ss arbitrary: seen)
  case Nil
  show ?case by simp
next
  case (Cons s ss)
  have "combine_scan f ss (insert (sh_x s) seen) = None"
    using Cons.prems by (intro Cons.IH) auto
  moreover have "sh_x s \<notin> seen" using Cons.prems(3) by auto
  ultimately show ?case using Cons.prems(1) by simp
qed

lemma combine_bytes:
  assumes "distinct xs" "length cs = length xs" "xs \<noteq> []"
  shows "combine_byte gf_new xs (map (gf_eval gf_new cs) xs) = hd cs"
proof -
  have dist: "distinct (map GF xs)" using assms(1) by (simp add: distinct_map inj_on_def)
  have "GF (combine_byte gf_new xs (map (gf_eval gf_new cs) xs))
      = interp (map GF xs) (map (peval (map GF cs)) (map GF xs)) 0"
    using assms by (simp add: combine_byte_interp GF_eval o_def)
  also have "\<dots> = peval (map GF cs) 0"
    using dist assms by (intro interp_poly) simp_all
  also have "\<dots> = GF (hd cs)" using assms by (cases cs) auto
  finally show ?thesis by simp
qed

theorem combine_split:
  assumes X: "ext_ok X" and split: "split_secret X secret k n d = (Inr shares, d')"
    and sub: "set sub \<subseteq> set shares" "distinct sub" "unat k \<le> length sub"
  shows "combine X sub = Inr secret"
proof -
  let ?cs = "fst (split_coeffs X k secret (d + 1))"
  note sh = split_secret_shares [OF split]
  have n: "unat n < 256" using unsigned_less [of n, where ?'a = nat] by simp
  have shape: "\<exists>x. s = make_share (x_random X d 4) k (tag_of X secret) ?cs x \<and> x \<noteq> 0" if "s \<in> set sub" for s
  proof -
    from that sub(1) sh(4) obtain x where x: "1 \<le> x" "x \<le> unat n"
        "s = make_share (x_random X d 4) k (tag_of X secret) ?cs (of_nat x)" by auto
    moreover have "(of_nat x :: u8) \<noteq> of_nat 0"
      using of_nat_byte_inj [of x 0] x n by (simp del: of_nat_0)
    ultimately show ?thesis by auto
  qed
  have len: "length ?cs = length secret"
    and coeffs: "\<And>b. b < length secret \<Longrightarrow> length (?cs ! b) = unat k \<and> hd (?cs ! b) = secret ! b"
    using split_coeffs_spec [OF X sh(2), of secret "d + 1"] by auto
  have fields: "sh_id s = x_random X d 4 \<and> sh_k s = k \<and> sh_tag s = tag_of X secret
      \<and> length (sh_y s) = length secret \<and> sh_x s \<noteq> 0
      \<and> sh_y s = map (\<lambda>c. gf_eval gf_new c (sh_x s)) ?cs" if "s \<in> set sub" for s
    using shape [OF that] len by (auto simp: make_share_def)
  have inj: "s = t" if "s \<in> set sub" "t \<in> set sub" "sh_x s = sh_x t" for s t
    using shape [OF that(1)] shape [OF that(2)] that(3) by (auto simp: make_share_def)
  then have distx: "distinct (map sh_x sub)" using sub(2) by (auto simp: distinct_map inj_on_def)
  have kpos: "0 < unat k" using sh(2) by (simp add: unat_gt_0)
  then obtain f rest where subf: "sub = f # rest" using sub(3) by (cases sub) auto
  have same: "same_set f s \<and> sh_x s \<noteq> 0" if "s \<in> set sub" for s
    using fields [OF that] fields [of f] subf by (simp add: same_set_def)
  have scan: "combine_scan f sub {} = None"
    using distx by (intro combine_scan_ok) (simp_all add: same)
  let ?pts = "take (unat k) sub"
  let ?xs = "map sh_x ?pts"
  have xs: "distinct ?xs" "length ?xs = unat k" "?xs \<noteq> []"
    using distx sub(3) kpos subf by (auto simp: take_map [symmetric] intro: distinct_take)
  have "combine_byte gf_new ?xs (map (\<lambda>s. sh_y s ! b) ?pts) = secret ! b" if b: "b < length secret" for b
  proof -
    have "map (\<lambda>s. sh_y s ! b) ?pts = map (gf_eval gf_new (?cs ! b)) ?xs"
    proof -
      have "sh_y s ! b = gf_eval gf_new (?cs ! b) (sh_x s)" if "s \<in> set ?pts" for s
        using fields [OF in_set_takeD [OF that]] b len by simp
      then show ?thesis by simp
    qed
    moreover have "combine_byte gf_new ?xs (map (gf_eval gf_new (?cs ! b)) ?xs) = hd (?cs ! b)"
      using coeffs [OF b] xs by (intro combine_bytes) simp_all
    ultimately show ?thesis using coeffs [OF b] by presburger
  qed
  then have "map (\<lambda>b. combine_byte gf_new ?xs (map (\<lambda>s. sh_y s ! b) ?pts)) [0..<length secret] = secret"
    by (intro nth_equalityI) simp_all
  moreover have "f \<in> set sub" using subf by simp
  moreover from this have "sh_k f = k" "sh_tag f = tag_of X secret" "length (sh_y f) = length secret"
    using fields [of f] by blast+
  ultimately show ?thesis
    using scan sub(3) subf by (simp add: combine_def Let_def del: combine_scan.simps)
qed

text \<open>What fewer shares reveal: with \<open>k - 1\<close> values at distinct nonzero abscissas, every secret
  byte is explained by exactly one choice of the random coefficients.\<close>

lemma shares_hide_secret:
  assumes "distinct xs" "0 \<notin> set xs" "length ys = length xs"
  shows "\<exists>!r. length r = length xs \<and> map (gf_eval gf_new (s # r)) xs = ys"
proof -
  let ?xs = "0 # map GF xs" and ?ys = "GF s # map GF ys"
  have "GF 0 \<notin> GF ` set xs" using assms(2) by auto
  then have "distinct ?xs" using assms(1) by (auto simp: distinct_map inj_on_def simp flip: GF_zero)
  moreover have "length ?ys = length ?xs" using assms(3) by simp
  moreover have "?xs \<noteq> []" by simp
  ultimately have ex1: "\<exists>!cs. length cs = length ?xs \<and> map (peval cs) ?xs = ?ys"
    by (intro interpolation_unique)
  then obtain cs where cs: "length cs = length ?xs" "map (peval cs) ?xs = ?ys" by (metis (no_types, lifting))
  have unique: "ds = cs" if "length ds = length ?xs" "map (peval ds) ?xs = ?ys" for ds
    using ex1 cs that by metis
  have match: "map (gf_eval gf_new (s # r)) xs = ys \<longleftrightarrow> map (peval (map GF (s # r))) ?xs = ?ys" for r
  proof -
    have "map (gf_eval gf_new (s # r)) xs = ys \<longleftrightarrow> map GF (map (gf_eval gf_new (s # r)) xs) = map GF ys"
      by (rule inj_map_eq_map [symmetric]) (simp add: inj_def)
    then show ?thesis by (simp add: GF_eval o_def)
  qed
  obtain c ds where c: "cs = c # ds" using cs(1) by (cases cs) auto
  then have "c = GF s" using cs(2) by simp
  let ?r = "map gf_rep ds"
  have r: "map GF (s # ?r) = cs" using c \<open>c = GF s\<close> by (simp add: o_def)
  show ?thesis
  proof (rule ex1I [of _ ?r])
    show "length ?r = length xs \<and> map (gf_eval gf_new (s # ?r)) xs = ys"
    proof
      show "length ?r = length xs" using cs(1) c by simp
      show "map (gf_eval gf_new (s # ?r)) xs = ys" using cs(2) unfolding match [of ?r] r .
    qed
    fix r'
    assume r': "length r' = length xs \<and> map (gf_eval gf_new (s # r')) xs = ys"
    then have "map GF (s # r') = cs" using unique [of "map GF (s # r')"] match [of r'] by simp
    then have "map gf_rep (map GF r') = ?r" using r by (simp add: c)
    then show "r' = ?r" by (simp add: o_def)
  qed
qed

subsection \<open>The portable form is faithful below 256 bytes\<close>

definition wf_share :: "share \<Rightarrow> bool" where
  "wf_share s \<longleftrightarrow> length (sh_id s) = 4 \<and> length (sh_tag s) = tag_len \<and> sh_k s \<noteq> 0 \<and> sh_x s \<noteq> 0"

lemma share_decode_encode:
  assumes "wf_share s"
  shows "share_decode (share_encode s) =
    (if length (sh_y s) < 256 then Inr s else Inl (RcMalformed ''length does not match body''))"
proof -
  obtain a b c d where i: "sh_id s = [a, b, c, d]"
    using assms by (auto simp: wf_share_def numeral_eq_Suc length_Suc_conv)
  have tag: "length (sh_tag s) = 16" using assms by (simp add: wf_share_def tag_len_def)
  have enc: "share_encode s = [rc_version, a, b, c, d, sh_k s, sh_x s] @ sh_tag s
      @ of_nat (length (sh_y s)) # sh_y s"
    by (simp add: share_encode_def i)
  have nth: "share_encode s ! 23 = of_nat (length (sh_y s))"
    by (simp add: enc nth_append tag)
  have drop: "drop 24 (share_encode s) = sh_y s"
    by (simp add: enc tag)
  have "unat (of_nat (length (sh_y s)) :: byte) = length (sh_y s) \<longleftrightarrow> length (sh_y s) < 256"
    by (auto simp: unat_of_nat)
  with assms show ?thesis
    by (simp add: share_decode_def Let_def tag_len_def nth drop)
      (auto simp: enc tag i wf_share_def)
qed

lemma make_share_wf:
  "ext_ok X \<Longrightarrow> k \<noteq> 0 \<Longrightarrow> x \<noteq> 0 \<Longrightarrow> wf_share (make_share (x_random X d 4) k (tag_of X secret) cs x)"
  by (simp add: wf_share_def make_share_def tag_of_def tag_len_def ext_ok_lengths)

text \<open>A result of \<open>combine\<close> always carries the tag all the shares agree on.\<close>

lemma combine_scan_None:
  "combine_scan f ss seen = None \<Longrightarrow>
     list_all (same_set f) ss \<and> distinct (map sh_x ss) \<and> sh_x ` set ss \<inter> seen = {}"
proof (induction ss arbitrary: seen)
  case (Cons s ss)
  then have "\<not> \<not> same_set f s" "sh_x s \<noteq> 0" "sh_x s \<notin> seen" "combine_scan f ss (insert (sh_x s) seen) = None"
    by (auto split: if_splits)
  with Cons.IH [of "insert (sh_x s) seen"] show ?case by auto
qed simp

lemma combine_sound:
  assumes "combine X shares = Inr secret"
  shows "list_all (\<lambda>s. sh_tag s = tag_of X secret) shares" "distinct (map sh_x shares)"
    "list_all (\<lambda>s. unat (sh_k s) \<le> length shares) shares"
proof -
  obtain f rest where f: "shares = f # rest"
    using assms by (cases shares) (auto simp: combine_def)
  then have scan: "combine_scan f shares {} = None" and k: "\<not> length shares < unat (sh_k f)"
    and tag: "tag_of X secret = sh_tag f"
    using assms by (auto simp: combine_def Let_def split: option.splits if_splits)
  from combine_scan_None [OF scan] show "list_all (\<lambda>s. sh_tag s = tag_of X secret) shares"
      "distinct (map sh_x shares)" "list_all (\<lambda>s. unat (sh_k s) \<le> length shares) shares"
    using k tag by (auto simp: list_all_iff same_set_def)
qed

end
