(* ===== verification/Samples.thy ===== *)
theory Samples
  imports Broker Shamir
begin

section \<open>Concrete runs\<close>

text \<open>
  A small store under the toy primitives of \<open>Extern\<close>, a broker on it and the inputs the
  concrete instances of the properties run on.
\<close>

definition demo_master :: bytes where
  "demo_master = replicate 32 7"

definition demo_blank :: lstore where
  "demo_blank = \<lparr>st_marker = None, st_keys = \<lparr>key_addr = [], key_enc = []\<rparr>, st_objects = [],
     st_refs = [], st_draws = 0, st_pid = 1, st_tmp = 0\<rparr>"

definition demo_store :: lstore where
  "demo_store = store_init demo_ext demo_master demo_blank"

definition demo_keys :: ls_keys where
  "demo_keys = keys_derive demo_ext demo_master"

lemma demo_id [simp]: "id_of demo_ext k m = pad32 m"
  by (simp add: id_of_def demo_ext_def)

lemma demo_obj_id: "obj_id demo_ext k ob = pad32 (object_encode ob)"
  by (simp add: obj_id_def)

lemma demo_okay: "inj_on pad32 U \<Longrightarrow> ls_okay demo_ext U demo_keys demo_store"
  by (simp add: ls_okay_def demo_ext_ok store_inv_def demo_store_def store_init_def demo_keys_def
      demo_blank_def inj_on_def)

lemma pad32_Cons: "pad32 (b # m) = b # take 31 (m @ replicate 32 0)"
  by (simp add: pad32_def)

lemma inj_on_pad32_heads: "distinct (map hd ms) \<Longrightarrow> list_all (\<lambda>m. m \<noteq> []) ms \<Longrightarrow> inj_on pad32 (set ms)"
proof (rule inj_onI)
  fix x y
  assume ms: "distinct (map hd ms)" "list_all (\<lambda>m. m \<noteq> []) ms"
    and xy: "x \<in> set ms" "y \<in> set ms" "pad32 x = pad32 y"
  then have "x \<noteq> []" "y \<noteq> []" by (auto simp: list_all_iff)
  with xy(3) have "hd x = hd y" by (cases x; cases y) (auto simp: pad32_Cons)
  with ms(1) xy(1,2) show "x = y" by (auto simp: distinct_map inj_on_def)
qed

lemma chunk_split_small:
  assumes "data \<noteq> []" "length data \<le> chunk_min"
  shows "chunk_split g data 0 = [(0, length data)]"
proof -
  have "cut_at g data = length data" using assms by (simp add: cut_at_def)
  then show ?thesis using assms by (simp add: chunk_split_step chunk_split_done)
qed

lemma file_objs_small:
  "data \<noteq> [] \<Longrightarrow> length data \<le> chunk_min \<Longrightarrow>
     file_objs X k data = [Chunk data, File [obj_id X k (Chunk data)]]"
  by (simp add: file_objs_def file_obj_def file_chunks_def chunk_split_small chunk_slice_def)

lemma file_obj_small:
  "data \<noteq> [] \<Longrightarrow> length data \<le> chunk_min \<Longrightarrow>
     file_obj X k data = File [obj_id X k (Chunk data)]"
  by (simp add: file_obj_def file_chunks_def chunk_split_small chunk_slice_def)

definition demo_universe :: "object list \<Rightarrow> bytes set" where
  "demo_universe obs = set (map object_encode obs)"

lemma demo_usable:
  "list_all (\<lambda>ob. wf_object ob \<and> length (object_encode ob) \<le> seal_max) obs \<Longrightarrow>
     list_all (usable_obj (demo_universe obs)) obs"
  by (auto simp: list_all_iff usable_obj_def demo_universe_def)

subsection \<open>An empty broker\<close>

definition demo_broker :: "policy \<Rightarrow> broker" where
  "demo_broker pol = \<lparr>bk_ls = demo_store, bk_policy = pol, bk_head = None, bk_seq = 0, bk_grants = []\<rparr>"

lemma demo_broker_inv: "inj_on pad32 U \<Longrightarrow> broker_inv demo_ext U demo_keys (demo_broker pol) []"
  by (simp add: broker_inv_def demo_broker_def demo_okay chain_none)
    (simp add: demo_store_def store_init_def demo_blank_def store_get_ref_def)

text \<open>The first event such a broker logs always fits: its three objects start with different tag
  bytes.\<close>

definition demo_first :: "u64 \<Rightarrow> event \<Rightarrow> object list" where
  "demo_first now ev = audit_objs demo_ext demo_keys None 0 now ev"

lemma demo_first_usable:
  assumes "length (encode_event ev) \<le> 1024"
  shows "list_all (usable_obj (demo_universe (demo_first now ev))) (demo_first now ev)"
    and "inj_on pad32 (demo_universe (demo_first now ev))"
proof -
  let ?pay = "encode_payload 0 now ev"
  have len: "length ?pay = 17 + length (encode_event ev)" by (simp add: encode_payload_def)
  have objs: "demo_first now ev = [Chunk ?pay, File [pad32 (1 # ?pay)],
      audit_node (pad32 (object_encode (File [pad32 (1 # ?pay)]))) None]"
    using assms len
    by (simp add: demo_first_def audit_objs_def Let_def file_objs_small file_obj_small chunk_min_def
        demo_obj_id object_encode_def flip: length_greater_0_conv)
  show "inj_on pad32 (demo_universe (demo_first now ev))"
    unfolding demo_universe_def
    by (rule inj_on_pad32_heads) (simp_all add: objs audit_node_def object_encode_def)
  show "list_all (usable_obj (demo_universe (demo_first now ev))) (demo_first now ev)"
    by (rule demo_usable)
      (use assms len in \<open>simp add: objs audit_node_def object_encode_def wf_object_def len32_def
        wf_id_def wf_tree_entry_def child_payload_def put_tree_entry_def seal_max_def
        utf8_str_ascii ascii_str_def\<close>)
qed

lemma demo_loggable:
  "wf_event ev \<Longrightarrow> length (encode_event ev) \<le> 1024 \<Longrightarrow>
     loggable demo_ext (demo_universe (demo_first now ev)) demo_keys (demo_broker pol) now ev"
  using demo_first_usable(1) [of ev now]
  by (simp add: loggable_def demo_first_def demo_broker_def)

subsection \<open>A grant and its revocation\<close>

definition demo_op1 :: bk_op where
  "demo_op1 = OpGrant ''app'' (RFile ''/data'') rights_read (limits_uses 3) 50 50"

definition demo_gid :: grant_id where
  "demo_gid = next_grant demo_ext (demo_broker DenyAll)"

definition demo_ev1 :: event where
  "demo_ev1 = grant_event demo_ext (demo_broker DenyAll) ''app'' (RFile ''/data'') rights_read (limits_uses 3)"

definition demo_e1 :: audit_entry where
  "demo_e1 = log_entry demo_ext demo_keys (demo_broker DenyAll) 50 demo_ev1"

definition demo_b1 :: broker where
  "demo_b1 = op_exec demo_ext demo_op1 (demo_broker DenyAll)"

definition demo_second :: "object list" where
  "demo_second = audit_objs demo_ext demo_keys (Some (ae_id demo_e1)) 1 60 (EvRevoke demo_gid)"

definition demo_U :: "bytes set" where
  "demo_U = demo_universe (demo_first 50 demo_ev1 @ demo_second)"

lemma demo_gid_len: "length demo_gid = 16"
  by (simp add: demo_gid_def next_grant_def demo_ext_ok ext_ok_lengths)

lemma demo_str: "wf_str32 ''app''" "wf_str32 ''/data''"
  by (simp_all add: wf_str32_def len32_def utf8_str_ascii ascii_str_def)

lemma demo_ev1_ok: "wf_event demo_ev1" "length (encode_event demo_ev1) \<le> 1024"
proof -
  show "wf_event demo_ev1"
    using demo_gid_len demo_str
    by (simp add: demo_ev1_def grant_event_def wf_event_def wf_resource_def rights_read_def
        flip: demo_gid_def)
  have "to_string_lossy ''/data'' = ''/data''"
    using demo_str(2) by (simp add: wf_str32_def to_string_lossy_id)
  then show "length (encode_event demo_ev1) \<le> 1024"
    using demo_gid_len
    by (simp add: demo_ev1_def grant_event_def encode_event_def put_str32_def put_bytes32_def
        encode_resource_def limits_uses_def put_opt_u64_def put_opt_u32_def flip: demo_gid_def)
qed

lemma pad32_nth: "i < length m \<Longrightarrow> i < 32 \<Longrightarrow> pad32 m ! i = m ! i"
  by (simp add: pad32_def nth_append)

lemma pad32_diff: "i < length a \<Longrightarrow> i < length b \<Longrightarrow> i < 32 \<Longrightarrow> a ! i \<noteq> b ! i \<Longrightarrow> pad32 a \<noteq> pad32 b"
  using pad32_nth by metis

lemma audit_objs_small:
  assumes "length (encode_event ev) \<le> 1024"
  shows "audit_objs demo_ext demo_keys prev sq now ev =
    [Chunk (encode_payload sq now ev), File [pad32 (1 # encode_payload sq now ev)],
     audit_node (pad32 (object_encode (File [pad32 (1 # encode_payload sq now ev)]))) prev]"
  using assms
  by (simp add: audit_objs_def Let_def file_objs_small file_obj_small chunk_min_def encode_payload_def
      demo_obj_id object_encode_def)

lemma be_bytes_01: "be_bytes 8 (0 :: u64) = [0, 0, 0, 0, 0, 0, 0, 0]"
  "be_bytes 8 (1 :: u64) = [0, 0, 0, 0, 0, 0, 0, 1]" "be_bytes 4 (1 :: u32) = [0, 0, 0, 1]"
  "be_bytes 4 (2 :: u32) = [0, 0, 0, 2]"
  by (simp_all add: be_bytes_def be_of_nat_def le_of_nat_numeral)

lemma demo_rev_len: "length (encode_event (EvRevoke demo_gid)) \<le> 1024"
  by (simp add: encode_event_def demo_gid_len)

lemma demo_U_inj: "inj_on pad32 demo_U"
proof -
  let ?a = "encode_payload 0 50 demo_ev1" and ?b = "encode_payload 1 60 (EvRevoke demo_gid)"
  let ?fa = "object_encode (File [pad32 (1 # ?a)])" and ?fb = "object_encode (File [pad32 (1 # ?b)])"
  let ?ta = "object_encode (audit_node (pad32 ?fa) None)"
  let ?tb = "object_encode (audit_node (pad32 ?fb) (Some (ae_id demo_e1)))"
  have U: "demo_U = {1 # ?a, 1 # ?b, ?fa, ?fb, ?ta, ?tb}"
    by (auto simp: demo_U_def demo_universe_def demo_first_def demo_second_def
        audit_objs_small demo_ev1_ok demo_rev_len object_encode_def)
  have heads: "hd ?fa = 2" "hd ?fb = 2" "hd ?ta = 3" "hd ?tb = 3"
    by (simp_all add: object_encode_def audit_node_def)
  have len: "?fa \<noteq> []" "?fb \<noteq> []" "?ta \<noteq> []" "?tb \<noteq> []"
    by (simp_all add: object_encode_def audit_node_def)
  have ab: "pad32 (1 # ?a) \<noteq> pad32 (1 # ?b)"
    by (rule pad32_diff [of 9]) (simp_all add: encode_payload_def be_bytes_01)
  have head_diff: "hd x \<noteq> hd y \<Longrightarrow> x \<noteq> [] \<Longrightarrow> y \<noteq> [] \<Longrightarrow> pad32 x \<noteq> pad32 y" for x y
    by (cases x; cases y) (auto simp: pad32_Cons)
  have fab: "pad32 ?fa \<noteq> pad32 ?fb"
    by (rule pad32_diff [of 14])
      (simp_all add: object_encode_def be_bytes_01 pad32_nth nth_append encode_payload_def)
  have tab: "pad32 ?ta \<noteq> pad32 ?tb"
    by (rule pad32_diff [of 4]) (simp_all add: object_encode_def audit_node_def be_bytes_01)
  show ?thesis
    unfolding U
    using ab fab tab heads len head_diff
    by (auto simp: inj_on_def)
qed

lemma demo_usable_all: "list_all (usable_obj demo_U) (demo_first 50 demo_ev1)" "list_all (usable_obj demo_U) demo_second"
proof -
  have fits: "wf_object ob \<and> length (object_encode ob) \<le> seal_max"
    if "ob \<in> set (demo_first 50 demo_ev1 @ demo_second)" for ob
  proof -
    have "length (encode_payload sq t ev) \<le> 2000" if "length (encode_event ev) \<le> 1024" for sq t ev
      using that by (simp add: encode_payload_def)
    note pay = this [OF demo_ev1_ok(2), of 0 50] this [OF demo_rev_len, of 1 60]
    have str: "utf8_str ''payload''" "utf8_str ''prev''"
      by (simp_all add: utf8_str_ascii ascii_str_def)
    have id: "length (ae_id demo_e1) = 32"
      by (simp add: demo_e1_def log_entry_def entry_id_def demo_obj_id)
    show ?thesis
      using that pay id str
      by (auto simp: demo_first_def demo_second_def audit_objs_small demo_ev1_ok demo_rev_len
          audit_node_def object_encode_def wf_object_def len32_def wf_id_def wf_tree_entry_def
          child_payload_def child_prev_def put_tree_entry_def seal_max_def)
  qed
  then have "list_all (usable_obj demo_U) (demo_first 50 demo_ev1 @ demo_second)"
    unfolding demo_U_def by (intro demo_usable) (simp add: list_all_iff)
  then show "list_all (usable_obj demo_U) (demo_first 50 demo_ev1)" "list_all (usable_obj demo_U) demo_second"
    by simp_all
qed

lemma demo_start: "broker_inv demo_ext demo_U demo_keys (demo_broker pol) []"
  by (rule demo_broker_inv [OF demo_U_inj])

lemma demo_broker_fields: "bk_head (demo_broker pol) = None" "bk_seq (demo_broker pol) = 0"
  "bk_grants (demo_broker pol) = []"
  by (simp_all add: demo_broker_def)

lemma demo_op1_event: "op_event demo_ext (demo_broker DenyAll) demo_op1 = Some (50, demo_ev1)"
  by (simp add: op_event_def demo_op1_def demo_ev1_def)

lemma demo_op1_loggable: "op_loggable demo_ext demo_U demo_keys (demo_broker DenyAll) demo_op1"
  using demo_ev1_ok(1) demo_usable_all(1)
  by (simp add: op_loggable_def demo_op1_event loggable_def demo_first_def demo_broker_fields)

lemma demo_b1_inv: "broker_inv demo_ext demo_U demo_keys demo_b1 [demo_e1]"
  using op_exec_inv [OF demo_start demo_op1_loggable]
  by (simp add: demo_b1_def op_log_def demo_op1_event demo_e1_def)

lemma demo_b1_run: "broker_run demo_ext demo_U demo_keys demo_b1 [demo_e1]"
proof -
  have "draws_fresh demo_ext (demo_broker DenyAll) demo_op1"
    by (simp add: draws_fresh_def demo_op1_def demo_broker_fields)
  from run_op [OF run_start [OF demo_start] demo_op1_loggable this] show ?thesis
    by (simp add: demo_b1_def op_log_def demo_op1_event demo_e1_def)
qed

lemma demo_b1_grants:
  obtains secret where "bk_grants demo_b1 =
    [(demo_gid, new_grant demo_gid ''app'' (RFile ''/data'') rights_read 50 None (Some 3) (Some secret))]"
    "fst (broker_grant demo_ext ''app'' (RFile ''/data'') rights_read (limits_uses 3) 50 50 (demo_broker DenyAll))
      = Inr \<lparr>cap_grant = demo_gid, cap_secret = secret\<rparr>"
proof -
  have "loggable demo_ext demo_U demo_keys (demo_broker DenyAll) 50
      (grant_event demo_ext (demo_broker DenyAll) ''app'' (RFile ''/data'') rights_read (limits_uses 3))"
    using demo_op1_loggable by (simp add: op_loggable_def demo_op1_event demo_ev1_def)
  from broker_grant_step [OF demo_start this, of 50] obtain b' secret where
    b': "broker_grant demo_ext ''app'' (RFile ''/data'') rights_read (limits_uses 3) 50 50 (demo_broker DenyAll)
       = (Inr \<lparr>cap_grant = demo_gid, cap_secret = secret\<rparr>, b')"
      "bk_grants b' = AList.update demo_gid (new_grant demo_gid ''app'' (RFile ''/data'') rights_read 50
         (lim_expires (limits_uses 3)) (lim_max_uses (limits_uses 3)) (Some secret)) []"
    unfolding demo_gid_def by (metis (no_types, lifting) broker.select_convs(5) demo_broker_def)
  then show ?thesis
    using that [of secret] by (simp add: demo_b1_def op_exec_def demo_op1_def limits_uses_def)
qed

lemma demo_b1_head: "bk_head demo_b1 = Some (ae_id demo_e1)" "bk_seq demo_b1 = 1"
proof -
  have "chain demo_ext (bk_ls demo_b1) (bk_head demo_b1) ([] @ [demo_e1])"
    using demo_b1_inv by (simp add: broker_inv_def)
  then show "bk_head demo_b1 = Some (ae_id demo_e1)" by (rule chain_head)
  show "bk_seq demo_b1 = 1" using demo_b1_inv by (simp add: broker_inv_def)
qed

definition demo_op2 :: bk_op where
  "demo_op2 = OpRevoke demo_gid 60"

definition demo_b2 :: broker where
  "demo_b2 = op_exec demo_ext demo_op2 demo_b1"

lemma demo_op2_event: "op_event demo_ext demo_b1 demo_op2 = Some (60, EvRevoke demo_gid)"
  by (rule demo_b1_grants) (simp add: op_event_def demo_op2_def new_grant_def)

lemma demo_rev_loggable: "loggable demo_ext demo_U demo_keys demo_b1 60 (EvRevoke demo_gid)"
  using demo_usable_all(2)
  by (simp add: loggable_def demo_b1_head demo_second_def wf_event_def demo_gid_len)

lemma demo_op2_loggable: "op_loggable demo_ext demo_U demo_keys demo_b1 demo_op2"
  using demo_rev_loggable by (simp add: op_loggable_def demo_op2_event)

lemma demo_b2_inv: "broker_inv demo_ext demo_U demo_keys demo_b2
    [demo_e1, log_entry demo_ext demo_keys demo_b1 60 (EvRevoke demo_gid)]"
  using op_exec_inv [OF demo_b1_inv demo_op2_loggable]
  by (simp add: demo_b2_def op_log_def demo_op2_event)

lemma demo_b2_revoked: "is_revoked demo_b2 demo_gid"
proof -
  have "table_view (bk_grants demo_b2) = spec_event (EvRevoke demo_gid) (table_view (bk_grants demo_b1))"
    using op_exec_view [OF demo_b1_inv demo_op2_loggable] by (simp add: demo_b2_def demo_op2_event)
  then show ?thesis
    by (rule_tac demo_b1_grants)
      (simp add: is_revoked_view spec_event_def table_view_def set_revoked_def)
qed

lemma demo_b1_reach: "broker_reach demo_ext demo_U demo_keys demo_b1 demo_b2"
  unfolding demo_b2_def
  by (rule reach_step [OF reach_refl demo_op2_loggable]) (simp add: draws_fresh_def demo_op2_def)

subsection \<open>A live grant\<close>

text \<open>The fresh store takes the record of any short event.\<close>

lemma demo_log:
  assumes wf: "wf_event ev" and len: "length (encode_event ev) \<le> 1024"
    and b: "bk_ls b = bk_ls (demo_broker pol)" "bk_head b = bk_head (demo_broker pol)"
      "bk_seq b = bk_seq (demo_broker pol)"
  shows "\<exists>b'. broker_log demo_ext now ev b = (Inr (), b')"
  using broker_log_step [OF demo_broker_inv [OF demo_first_usable(2) [OF len]] b demo_loggable [OF wf len]] by blast

definition demo_res :: resource where
  "demo_res = RFile ''/data/notes''"

definition demo_cap :: capability where
  "demo_cap = \<lparr>cap_grant = demo_gid, cap_secret = replicate 32 9\<rparr>"

definition demo_lease :: lease where
  "demo_lease = \<lparr>le_grant = demo_gid, le_resource = demo_res, le_rights = rights_read\<rparr>"

definition demo_live :: broker where
  "demo_live = (demo_broker DenyAll)\<lparr>bk_grants := [(demo_gid,
     new_grant demo_gid ''app'' (RFile ''/data'') 3 50 (Some 100) (Some 3) (Some (replicate 32 9)))]\<rparr>"

lemma demo_live_check: "broker_check demo_live demo_cap demo_res rights_read 60 = Inr ()"
  by (simp add: broker_check_def demo_live_def demo_cap_def demo_res_def new_grant_def expired_at_def
      budget_spent_def res_covers_def path_starts_with_def path_components_def seg_comp_def
      rights_contains_def rights_read_def)

lemma demo_access:
  obtains b' where "broker_access demo_ext demo_cap demo_res rights_read 60 61 demo_live = (Inr demo_lease, b')"
proof -
  let ?ev = "EvUse demo_gid (grant_principal demo_live demo_gid) demo_res rights_read"
  let ?b = "demo_live\<lparr>bk_grants := AList.map_entry demo_gid add_use (bk_grants demo_live)\<rparr>"
  have p: "grant_principal demo_live demo_gid = ''app''"
    by (simp add: grant_principal_def demo_live_def new_grant_def)
  have path: "utf8_str ''/data/notes''" by (simp add: utf8_str_ascii ascii_str_def)
  have wf: "wf_event ?ev"
    using demo_gid_len demo_str path
    by (simp add: wf_event_def wf_resource_def demo_res_def p wf_str32_def len32_def rights_read_def)
  have len: "length (encode_event ?ev) \<le> 1024"
    using demo_gid_len path
    by (simp add: p encode_event_def put_str32_def put_bytes32_def encode_resource_def demo_res_def
        to_string_lossy_id)
  obtain b' where "broker_log demo_ext 61 ?ev ?b = (Inr (), b')"
    using demo_log [OF wf len, of ?b DenyAll] by (auto simp: demo_live_def)
  then have "broker_access demo_ext demo_cap demo_res rights_read 60 61 demo_live = (Inr demo_lease, b')"
    using demo_live_check by (simp add: broker_access_def Let_def demo_cap_def demo_lease_def)
  with that show ?thesis by blast
qed

subsection \<open>A directory\<close>

definition demo_dir :: fdir where
  "demo_dir = [(''b'', FSpecial), (''a'', FReg [7] 4)]"

definition demo_dir_U :: "bytes set" where
  "demo_dir_U = demo_universe (dir_objs demo_ext demo_keys demo_dir)"

lemma demo_dir_objs:
  "dir_objs demo_ext demo_keys demo_dir =
     [Chunk [7], File [pad32 [1, 7]],
      Tree [\<lparr>te_name = ''a'', te_kind = KFile, te_id = pad32 (object_encode (File [pad32 [1, 7]])),
             te_mode = mode_of (FReg [7] 4)\<rparr>]]"
proof -
  have "by_name demo_dir = [(''a'', FReg [7] 4), (''b'', FSpecial)]"
    by (simp add: demo_dir_def by_name_def)
  then show ?thesis
    by (simp add: dir_objs.simps [of _ _ demo_dir] dir_obj.simps [of _ _ demo_dir] snapshot_entry_def
        map_filter_simps file_objs_small file_obj_small chunk_min_def demo_obj_id object_encode_def
        to_string_lossy_id utf8_str_ascii ascii_str_def)
qed

lemma demo_dir_usable: "list_all (usable_obj demo_dir_U) (dir_objs demo_ext demo_keys demo_dir)"
  unfolding demo_dir_U_def
  by (rule demo_usable)
    (simp add: demo_dir_objs object_encode_def wf_object_def len32_def wf_id_def wf_tree_entry_def
      put_tree_entry_def seal_max_def utf8_str_ascii ascii_str_def)

lemma demo_dir_okay: "ls_okay demo_ext demo_dir_U demo_keys demo_store"
proof (rule demo_okay)
  show "inj_on pad32 demo_dir_U"
    unfolding demo_dir_U_def demo_universe_def
    by (rule inj_on_pad32_heads) (simp_all add: demo_dir_objs object_encode_def)
qed

lemma demo_dir_utf8: "dir_utf8 demo_dir"
  by (simp add: dir_utf8.simps demo_dir_def utf8_str_ascii ascii_str_def)

subsection \<open>A record\<close>

definition demo_rec :: bytes where
  "demo_rec = replicate 24 0 @ [9]"

lemma demo_store_inv: "store_inv demo_ext {[9]} demo_store"
  using demo_okay [of "{[9]}"] by (simp add: ls_okay_def)

lemma demo_rec_open: "open_checked demo_ext (st_keys demo_store) (pad32 [9]) demo_rec = Inr [9]"
  by (simp add: open_checked_def open_record_def demo_rec_def nonce_len_def demo_ext_def id_of_def)

end
