(* ===== verification/Tamper.thy ===== *)
theory Tamper
  imports Samples
begin

section \<open>A tampered store\<close>

text \<open>
  What a reader of the audit log gets from a store somebody else has written to.  Nothing is
  assumed of such a store: its files are any bytes, and whoever wrote them may hold the keys.
\<close>

text \<open>The plaintexts a store's files hold, each under whatever id its record opens with: the
  address of the plaintext plays no part in it.\<close>

definition held :: "ext \<Rightarrow> ls_keys \<Rightarrow> lstore \<Rightarrow> bytes set" where
  "held X k t = {m. \<exists>i rec. map_of (st_objects t) (path_for X i) = Some rec \<and> open_record X k i rec = Inr m}"

lemma store_get_held:
  "store_get X t i = Inr m \<Longrightarrow> m \<in> held X (st_keys t) t \<and> id_of X (st_keys t) m = i"
  by (auto simp: store_get_Inr_iff open_checked_Inr_iff held_def)

lemma store_get_inside:
  assumes "ls_okay X U k s" and "store_get X s i = Inr m"
  shows "m \<in> U \<and> id_of X k m = i"
  using assms store_inv_abs [of X U s i m] by (auto simp: ls_okay_def store_abs_Some_iff)

text \<open>Where no two of the plaintexts at hand share an address, the two stores cannot answer the
  same id differently.\<close>

definition tampered :: "ext \<Rightarrow> bytes set \<Rightarrow> ls_keys \<Rightarrow> lstore \<Rightarrow> lstore \<Rightarrow> bool" where
  "tampered X U k s t \<longleftrightarrow>
     ls_okay X U k s \<and> st_keys t = k \<and> inj_on (id_of X k) (U \<union> held X k t)"

lemma tampered_get:
  "tampered X U k s t \<Longrightarrow> store_get X s i = Inr m \<Longrightarrow> store_get X t i = Inr m' \<Longrightarrow> m = m'"
  using store_get_inside [of X U k s i m] store_get_held [of X t i m']
  unfolding tampered_def by (metis Un_iff inj_onD)

lemma tampered_ls_get:
  "tampered X U k s t \<Longrightarrow> ls_get X s i = Inr a \<Longrightarrow> ls_get X t i = Inr b \<Longrightarrow> a = b"
  using tampered_get by (fastforce simp: ls_get_def res_bind_Inr_iff)

lemma tampered_chunk:
  "tampered X U k s t \<Longrightarrow> read_chunk X s c = Inr d \<Longrightarrow> read_chunk X t c = Inr d' \<Longrightarrow> d = d'"
  using tampered_ls_get unfolding read_chunk_Inr_iff by blast

lemma tampered_bytes:
  assumes st: "tampered X U k s t"
    and s: "read_bytes X s i = Inr a" and t: "read_bytes X t i = Inr b"
  shows "a = b"
proof -
  from s obtain cs ds where s': "ls_get X s i = Inr (File cs)"
      "res_map_all (read_chunk X s) cs = Inr ds" "a = concat ds"
    using read_bytes_Inr_iff by blast
  from t obtain cs' ds' where t': "ls_get X t i = Inr (File cs')"
      "res_map_all (read_chunk X t) cs' = Inr ds'" "b = concat ds'"
    using read_bytes_Inr_iff by blast
  have "cs = cs'" using tampered_ls_get [OF st s'(1) t'(1)] by simp
  then have "ds = ds'" using res_map_all_agree tampered_chunk [OF st] s'(2) t'(2) by metis
  with s' t' show ?thesis by simp
qed

lemma tampered_entry:
  assumes "tampered X U k s t" and "read_entry X s i = Inr x" and "read_entry X t i = Inr y"
  shows "x = y"
proof -
  obtain e p f q where xy: "x = (e, p)" "y = (f, q)" by fastforce
  then show ?thesis
    using assms(2,3) tampered_ls_get [OF assms(1)] tampered_bytes [OF assms(1)]
    unfolding xy read_entry_Inr_iff by fastforce
qed

lemma tampered_chain:
  assumes "chain X s cur es" and "tampered X U k s t"
  shows "read_chain_from X t cur out = Some (Inr (es @ rev out))
    \<or> (\<exists>e. read_chain_from X t cur out = Some (Inl e))"
  using assms
proof (induction arbitrary: out rule: chain.induct)
  case chain_none
  show ?case by (simp add: read_chain_from.simps)
next
  case (chain_some i e prev es)
  show ?case
  proof (cases "read_entry X t i")
    case (Inl err)
    then show ?thesis by (simp add: read_chain_from.simps [of X t "Some i"])
  next
    case (Inr y)
    then have "y = (e, prev)" using tampered_entry chain_some.hyps(1) chain_some.prems by blast
    with Inr chain_some.IH [of "out @ [e]"] chain_some.prems show ?thesis
      by (simp add: read_chain_from.simps [of X t "Some i"])
  qed
qed

text \<open>Only the objects the chain is made of matter: a store that still has them reads it in full.\<close>

lemma tampered_chain_kept:
  assumes "chain X s cur es" and "ls_look X s \<subseteq>\<^sub>m ls_look X t"
  shows "read_chain_from X t cur out = Some (Inr (es @ rev out))"
  using chain_read_from [OF chain_grows [OF assms]] .

text \<open>C5.  Tamper evidence: let a broker's store hold a log, and let \<open>t\<close> be any store under the same
  keys, whatever files somebody has written, changed or removed in it, with or without the
  encryption key.  Reading the chain from the known head in \<open>t\<close> ends, and gives either exactly the
  entries of the log or an error: no entry comes back altered, dropped, added or reordered.  It
  gives the log whenever \<open>t\<close> still answers what the broker's store answers.  The one assumption on
  \<open>t\<close> is that its records and the store's plaintexts hold no two different texts with one keyed
  hash.\<close>

theorem audit_tamper_evident:
  assumes "ls_okay X U k s" and "chain X s (Some head_id) es"
    and "st_keys t = k" and "inj_on (id_of X k) (U \<union> held X k t)"
  shows "(read_chain X t head_id = Some (Inr es) \<or> (\<exists>e. read_chain X t head_id = Some (Inl e)))
    \<and> (ls_look X s \<subseteq>\<^sub>m ls_look X t \<longrightarrow> read_chain X t head_id = Some (Inr es))"
  using tampered_chain [OF assms(2), of U k t "[]"] tampered_chain_kept [OF assms(2), of t "[]"] assms
  by (simp add: tampered_def read_chain_def)

text \<open>A forged store: the file of the log's head holds another text, all other files are gone.\<close>

definition demo_forged :: lstore where
  "demo_forged = (bk_ls demo_b1)\<lparr>st_objects := [(path_for demo_ext (ae_id demo_e1), demo_rec)]\<rparr>"

lemma demo_forged_held: "held demo_ext k demo_forged \<subseteq> {[9]}"
  by (auto simp: held_def demo_forged_def open_record_def demo_rec_def nonce_len_def demo_ext_def
      split: if_splits)

lemma demo_forged_inj: "inj_on pad32 (demo_U \<union> held demo_ext k demo_forged)"
proof (rule inj_on_subset)
  have "hd m \<noteq> 9 \<and> m \<noteq> []" if "m \<in> demo_U" for m
    using that by (auto simp: demo_U_def demo_universe_def object_encode_def split: object.splits)
  then have "pad32 m \<noteq> pad32 [9]" if "m \<in> demo_U" for m
    using that by (cases m) (force simp: pad32_Cons)+
  then show "inj_on pad32 (demo_U \<union> {[9]})"
    using demo_U_inj by (simp add: inj_on_def) metis
  show "demo_U \<union> held demo_ext k demo_forged \<subseteq> demo_U \<union> {[9]}"
    using demo_forged_held by blast
qed

lemma demo_head_text: "ae_id demo_e1 \<noteq> pad32 [9]"
  by (simp add: demo_e1_def log_entry_def entry_id_def audit_objs_small demo_ev1_ok demo_obj_id
      object_encode_def audit_node_def pad32_Cons)

lemma demo_forged_head: "read_entry demo_ext demo_forged (ae_id demo_e1)
    = Inl (WvLifestream (LsCorrupt (''hash mismatch for '' @ id_to_hex demo_ext (ae_id demo_e1))))"
proof -
  have "open_record demo_ext k i demo_rec = Inr [9]" for k i
    by (simp add: open_record_def demo_rec_def nonce_len_def demo_ext_def)
  then have "store_get demo_ext demo_forged (ae_id demo_e1)
      = Inl (LsCorrupt (''hash mismatch for '' @ id_to_hex demo_ext (ae_id demo_e1)))"
    using demo_head_text [symmetric]
    by (simp add: store_get_def store_read_record_def open_checked_def demo_forged_def)
  then show ?thesis by (simp add: read_entry_def ls_get_def)
qed

text \<open>The forged store, whose head opens to another text, is found out; the untouched one reads.\<close>

theorem audit_tamper_evident_witness:
  "(\<exists>e. read_chain demo_ext demo_forged (ae_id demo_e1) = Some (Inl e))
    \<and> demo_rec \<in> snd ` set (st_objects demo_forged)"
proof -
  have s: "ls_okay demo_ext demo_U demo_keys (bk_ls demo_b1)"
    "chain demo_ext (bk_ls demo_b1) (Some (ae_id demo_e1)) [demo_e1]"
    using demo_b1_inv by (simp_all add: broker_inv_def demo_b1_head)
  then have keys: "st_keys demo_forged = demo_keys" by (simp add: demo_forged_def ls_okay_def)
  have inj: "inj_on (id_of demo_ext demo_keys) (demo_U \<union> held demo_ext demo_keys demo_forged)"
    using demo_forged_inj by (simp add: inj_on_def)
  have "read_chain demo_ext demo_forged (ae_id demo_e1) \<noteq> Some (Inr [demo_e1])"
    by (simp add: read_chain_def read_chain_from.simps [of demo_ext demo_forged] demo_forged_head)
  with audit_tamper_evident [OF s keys inj]
  have "\<exists>e. read_chain demo_ext demo_forged (ae_id demo_e1) = Some (Inl e)" by blast
  then show ?thesis by (simp add: demo_forged_def)
qed

end
