(* ===== verification/Hiding.thy ===== *)
theory Hiding
  imports Samples
begin

section \<open>What too few shares reveal\<close>

text \<open>
  A split of a secret and a split of another secret of the same length, seen through the same
  \<open>k - 1\<close> shares.  A split draws its set id first and then, for each byte of the secret, the
  \<open>k - 1\<close> coefficients of that byte's polynomial; \<open>with_draws\<close> puts the bytes \<open>rs\<close> in the place of
  the draws from number \<open>d\<close> on.
\<close>

definition with_draws :: "ext \<Rightarrow> nat \<Rightarrow> bytes list \<Rightarrow> ext" where
  "with_draws X d rs = X\<lparr>x_random := \<lambda>m n.
     if d \<le> m \<and> m < d + length rs then rs ! (m - d) else x_random X m n\<rparr>"

text \<open>A share without its tag, the part of the key-derivation hash of the secret every share
  carries.\<close>

definition untagged :: "share \<Rightarrow> share" where
  "untagged s = s\<lparr>sh_tag := []\<rparr>"

lemma byte_coeffs_draw:
  assumes "k \<noteq> 0"
  shows "byte_coeffs X k b d
    = (if unat k > 1 then (b # x_random X d (unat k - 1), d + 1) else ([b], d))"
proof -
  obtain m where m: "unat k = Suc m" using assms by (metis gr0_implies_Suc unat_gt_0)
  have "k > 1 \<longleftrightarrow> unat k > 1" by (simp add: word_less_nat_alt)
  with m show ?thesis by (simp add: byte_coeffs_def Let_def)
qed

lemma split_coeffs_draws:
  assumes "k \<noteq> 0"
  shows "fst (split_coeffs X k bs d) = map (\<lambda>i. bs ! i
    # (if unat k > 1 then x_random X (d + i) (unat k - 1) else [])) [0..<length bs]"
proof (induction bs arbitrary: d)
  case (Cons b bs)
  have "map (\<lambda>i. (b # bs) ! i # (if unat k > 1 then x_random X (d + i) (unat k - 1) else [])) [0..<Suc (length bs)]
      = (b # (if unat k > 1 then x_random X d (unat k - 1) else []))
        # map (\<lambda>i. bs ! i # (if unat k > 1 then x_random X (d + 1 + i) (unat k - 1) else [])) [0..<length bs]"
    by (simp add: upt_conv_Cons map_Suc_upt [symmetric] o_def del: upt_Suc)
  with Cons.IH [of "d + 1"] Cons.IH [of d] show ?case
    by (simp add: byte_coeffs_draw [OF assms] case_prod_beta del: upt_Suc)
qed simp

lemma split_coeffs_with_draws:
  assumes "k \<noteq> 0" and "length rs = length bs" and "\<forall>r \<in> set rs. length r = unat k - 1"
  shows "fst (split_coeffs (with_draws X d rs) k bs d) = map (\<lambda>i. bs ! i # rs ! i) [0..<length bs]"
proof -
  have "(if unat k > 1 then x_random (with_draws X d rs) (d + i) (unat k - 1) else []) = rs ! i"
    if "i < length bs" for i
  proof -
    have "length (rs ! i) = unat k - 1" using assms that by simp
    then show ?thesis using assms(2) that by (auto simp: with_draws_def)
  qed
  then show ?thesis by (simp add: split_coeffs_draws [OF assms(1)])
qed

text \<open>The shares of a split at chosen abscissas, untagged.\<close>

lemma split_secret_with_draws:
  assumes "split_secret X secret k n d = (Inr shares, d')" and "length other = length secret"
    and "length rs = length secret" "\<forall>r \<in> set rs. length r = unat k - 1"
  shows "fst (split_secret (with_draws X (d + 1) rs) other k n d) =
    Inr (map (\<lambda>x. make_share (x_random X d 4) k (tag_of X other)
      (map (\<lambda>i. other ! i # rs ! i) [0..<length other]) (of_nat x)) [1..<Suc (unat n)])"
proof -
  note sh = split_secret_shares [OF assms(1)]
  have other: "other \<noteq> []" using sh(1) assms(2) by auto
  obtain others d'' where o: "split_secret (with_draws X (d + 1) rs) other k n d = (Inr others, d'')"
    by (rule split_secret_ok [OF other sh(2,3)])
  have same: "x_random (with_draws X (d + 1) rs) d 4 = x_random X d 4"
    "tag_of (with_draws X (d + 1) rs) other = tag_of X other"
    by (simp_all add: with_draws_def tag_of_def)
  have cs: "fst (split_coeffs (with_draws X (d + 1) rs) k other (d + 1))
      = map (\<lambda>i. other ! i # rs ! i) [0..<length other]"
    using assms(2-4) by (intro split_coeffs_with_draws [OF sh(2)]) simp_all
  show ?thesis
    using split_secret_shares(4) [OF o] unfolding cs same by (simp only: o fst_conv)
qed

text \<open>Seen through the shares \<open>J\<close>, two splits agree when they agree byte for byte on the values.\<close>

lemma same_view:
  assumes "split_secret X secret k n d = (Inr shares, d')" and "length other = length secret"
    and "length rs = length secret" "\<forall>r \<in> set rs. length r = unat k - 1"
    and J: "\<forall>j \<in> set J. j < unat n"
  shows "(\<exists>others. fst (split_secret (with_draws X (d + 1) rs) other k n d) = Inr others
      \<and> map (\<lambda>j. untagged (others ! j)) J = map (\<lambda>j. untagged (shares ! j)) J)
    \<longleftrightarrow> (\<forall>i < length secret. map (gf_eval gf_new (other ! i # rs ! i)) (map (\<lambda>j. of_nat (Suc j)) J)
          = map (\<lambda>j. sh_y (shares ! j) ! i) J)"
proof -
  let ?cs = "fst (split_coeffs X k secret (d + 1))"
  let ?os = "map (\<lambda>i. other ! i # rs ! i) [0..<length other]"
  note sh = split_secret_shares [OF assms(1)]
  have share: "shares ! j = make_share (x_random X d 4) k (tag_of X secret) ?cs (of_nat (Suc j))"
    if "j \<in> set J" for j
    using J that by (simp add: sh(4) del: upt_Suc of_nat_Suc)
  have len: "length ?cs = length secret" by (simp add: split_coeffs_draws [OF sh(2)])
  have "untagged (make_share (x_random X d 4) k t ?os x) = untagged (make_share (x_random X d 4) k u ?cs x)
      \<longleftrightarrow> (\<forall>i < length secret. gf_eval gf_new (other ! i # rs ! i) x = gf_eval gf_new (?cs ! i) x)" for t u x
  proof -
    have "untagged (make_share i k t a x) = untagged (make_share i k u b x)
        \<longleftrightarrow> map (\<lambda>c. gf_eval gf_new c x) a = map (\<lambda>c. gf_eval gf_new c x) b" for i a b
      by (simp add: untagged_def make_share_def)
    note this [of _ ?os ?cs]
    moreover have "map f a = map f b \<longleftrightarrow> (\<forall>i < m. f (a ! i) = f (b ! i))"
      if "length a = m" "length b = m" for f :: "bytes \<Rightarrow> u8" and a b m
      using that by (simp add: list_eq_iff_nth_eq)
    note this [of ?os "length secret" ?cs, OF _ len]
    ultimately show ?thesis using assms(2) by simp
  qed
  note view = this
  let ?others = "map (\<lambda>x. make_share (x_random X d 4) k (tag_of X other) ?os (of_nat x)) [1..<Suc (unat n)]"
  have o: "?others ! j = make_share (x_random X d 4) k (tag_of X other) ?os (of_nat (Suc j))"
    if "j \<in> set J" for j
    using J that by (simp del: upt_Suc of_nat_Suc)
  have y: "sh_y (shares ! j) ! i = gf_eval gf_new (?cs ! i) (of_nat (Suc j))"
    if "j \<in> set J" "i < length secret" for i j
    using that len by (simp add: share make_share_def del: of_nat_Suc)
  have "(\<exists>others. fst (split_secret (with_draws X (d + 1) rs) other k n d) = Inr others
      \<and> map (\<lambda>j. untagged (others ! j)) J = map (\<lambda>j. untagged (shares ! j)) J)
    \<longleftrightarrow> (\<forall>j \<in> set J. untagged (?others ! j) = untagged (shares ! j))"
    unfolding split_secret_with_draws [OF assms(1-4)] by simp
  also have "\<dots> \<longleftrightarrow> (\<forall>j \<in> set J. \<forall>i < length secret.
      gf_eval gf_new (other ! i # rs ! i) (of_nat (Suc j)) = sh_y (shares ! j) ! i)"
  proof (rule ball_cong [OF refl])
    fix j
    assume j: "j \<in> set J"
    show "untagged (?others ! j) = untagged (shares ! j) \<longleftrightarrow> (\<forall>i < length secret.
        gf_eval gf_new (other ! i # rs ! i) (of_nat (Suc j)) = sh_y (shares ! j) ! i)"
    proof -
      have "untagged (?others ! j) = untagged (shares ! j) \<longleftrightarrow> (\<forall>i < length secret.
          gf_eval gf_new (other ! i # rs ! i) (of_nat (Suc j)) = gf_eval gf_new (?cs ! i) (of_nat (Suc j)))"
        unfolding o [OF j] share [OF j] by (rule view)
      also have "\<dots> \<longleftrightarrow> (\<forall>i < length secret.
          gf_eval gf_new (other ! i # rs ! i) (of_nat (Suc j)) = sh_y (shares ! j) ! i)"
        using y [OF j] by (intro all_cong) (simp only:)
      finally show ?thesis .
    qed
  qed
  also have "\<dots> \<longleftrightarrow> (\<forall>i < length secret. \<forall>j \<in> set J.
      gf_eval gf_new (other ! i # rs ! i) (of_nat (Suc j)) = sh_y (shares ! j) ! i)"
    by blast
  also have "\<dots> \<longleftrightarrow> (\<forall>i < length secret. map (gf_eval gf_new (other ! i # rs ! i)) (map (\<lambda>j. of_nat (Suc j)) J)
          = map (\<lambda>j. sh_y (shares ! j) ! i) J)"
    by (simp only: map_map o_def map_eq_conv)
  finally show ?thesis .
qed

lemma byte_abscissas:
  assumes "distinct J" and "\<forall>j \<in> set J. j < unat (n :: u8)"
  shows "distinct (map (\<lambda>j. of_nat (Suc j) :: u8) J)" "(0 :: u8) \<notin> set (map (\<lambda>j. of_nat (Suc j)) J)"
proof -
  have small: "Suc j < 256" if "j \<in> set J" for j
    using assms(2) that unsigned_less [of n, where ?'a = nat] by fastforce
  then show "distinct (map (\<lambda>j. of_nat (Suc j) :: u8) J)"
    using assms(1) of_nat_byte_inj by (auto simp: distinct_map inj_on_def simp del: of_nat_Suc)
  have "(of_nat (Suc j) :: u8) \<noteq> of_nat 0" if "j \<in> set J" for j
    using of_nat_byte_inj [of "Suc j" 0] small [OF that] by (simp del: of_nat_Suc of_nat_0)
  then show "(0 :: u8) \<notin> set (map (\<lambda>j. of_nat (Suc j)) J)" by (auto simp del: of_nat_Suc)
qed

text \<open>One choice for each byte is one choice for all of them.\<close>

lemma choice_list_unique:
  assumes "\<And>i. i < m \<Longrightarrow> \<exists>!r. P i r"
  shows "\<exists>!rs. length rs = m \<and> (\<forall>i < m. P i (rs ! i))"
proof -
  let ?rs = "map (\<lambda>i. SOME r. P i r) [0..<m]"
  have some: "P i (SOME r. P i r)" if "i < m" for i
    using assms [OF that] by (metis someI_ex)
  show ?thesis
  proof (rule ex1I [of _ ?rs])
    show "length ?rs = m \<and> (\<forall>i < m. P i (?rs ! i))" using some by simp
    fix rs
    assume "length rs = m \<and> (\<forall>i < m. P i (rs ! i))"
    then have len: "length rs = m" and P: "\<And>i. i < m \<Longrightarrow> P i (rs ! i)" by auto
    have "rs ! i = ?rs ! i" if "i < m" for i
      using assms [OF that] some [OF that] P [OF that] that by auto
    then show "rs = ?rs" using len by (intro nth_equalityI) simp_all
  qed
qed

lemma split_hides:
  assumes split: "split_secret X secret k n d = (Inr shares, d')" and len: "length other = length secret"
    and J: "distinct J" "\<forall>j \<in> set J. j < unat n" "length J = unat k - 1"
  shows "\<exists>!rs. length rs = length secret \<and> (\<forall>r \<in> set rs. length r = unat k - 1)
    \<and> (\<exists>others. fst (split_secret (with_draws X (d + 1) rs) other k n d) = Inr others
        \<and> map (\<lambda>j. untagged (others ! j)) J = map (\<lambda>j. untagged (shares ! j)) J)"
proof -
  let ?xs = "map (\<lambda>j. of_nat (Suc j) :: u8) J"
  let ?P = "\<lambda>i r. length r = unat k - 1
    \<and> map (gf_eval gf_new (other ! i # r)) ?xs = map (\<lambda>j. sh_y (shares ! j) ! i) J"
  have "\<exists>!r. ?P i r" for i
    using shares_hide_secret [OF byte_abscissas [OF J(1,2)], of "map (\<lambda>j. sh_y (shares ! j) ! i) J" "other ! i"]
      J(3) by simp
  then have ex: "\<exists>!rs. length rs = length secret \<and> (\<forall>i < length secret. ?P i (rs ! i))"
    by (rule choice_list_unique)
  have "length rs = length secret \<and> (\<forall>i < length secret. ?P i (rs ! i))
      \<longleftrightarrow> length rs = length secret \<and> (\<forall>r \<in> set rs. length r = unat k - 1)
        \<and> (\<exists>others. fst (split_secret (with_draws X (d + 1) rs) other k n d) = Inr others
            \<and> map (\<lambda>j. untagged (others ! j)) J = map (\<lambda>j. untagged (shares ! j)) J)" for rs
  proof -
    have "(\<forall>i < length secret. ?P i (rs ! i)) \<longleftrightarrow> (\<forall>r \<in> set rs. length r = unat k - 1)
        \<and> (\<forall>i < length secret. map (gf_eval gf_new (other ! i # rs ! i)) ?xs = map (\<lambda>j. sh_y (shares ! j) ! i) J)"
      if "length rs = length secret"
      unfolding all_set_conv_all_nth that by blast
    then show ?thesis using same_view [OF split len _ _ J(2), of rs] by blast
  qed
  with ex show ?thesis by (simp only:)
qed

text \<open>C13.  Fewer shares say nothing but their tag: take any split of a secret, any \<open>k - 1\<close> of its
  shares and any other secret of the same length.  There is exactly one choice of the random bytes
  the split draws for its coefficients (one list of \<open>k - 1\<close> bytes for each byte of the secret) with
  which the split of the other secret gives the same shares in those places, with the same set id,
  threshold, index and values; so with uniform draws every secret explains what the \<open>k - 1\<close> holders
  see equally well.  The tag is left out of the comparison: each share carries sixteen bytes of a
  key-derivation hash of the secret, so its holder can test a guess.\<close>

theorem fewer_shares_hide:
  assumes "split_secret X secret k n d = (Inr shares, d')" and "length other = length secret"
    and "distinct J" and "\<forall>j \<in> set J. j < unat n" and "length J = unat k - 1"
  shows "\<exists>!rs. length rs = length secret \<and> (\<forall>r \<in> set rs. length r = unat k - 1)
    \<and> (\<exists>others. fst (split_secret (with_draws X (d + 1) rs) other k n d) = Inr others
        \<and> map (\<lambda>j. untagged (others ! j)) J = map (\<lambda>j. untagged (shares ! j)) J)"
  using assms by (rule split_hides)

theorem fewer_shares_hide_witness:
  "\<exists>shares. fst (split_secret demo_ext [42, 43] 2 3 0) = Inr shares
    \<and> (\<exists>rs others. fst (split_secret (with_draws demo_ext 1 rs) [7, 8] 2 3 0) = Inr others
        \<and> untagged (others ! 2) = untagged (shares ! 2) \<and> length rs = 2)"
proof -
  obtain shares d' where split: "split_secret demo_ext [42, 43] 2 3 0 = (Inr shares, d')"
    by (rule split_secret_ok [of "[42, 43]" 2 3 demo_ext 0]) simp_all
  have J: "length [7, 8 :: u8] = length [42, 43 :: u8]" "distinct [2 :: nat]"
    "\<forall>j \<in> set [2]. j < unat (3 :: u8)" "length [2 :: nat] = unat (2 :: u8) - 1" by simp_all
  from ex1_implies_ex [OF fewer_shares_hide [OF split J]] obtain rs others where
      "length rs = length [42, 43 :: u8]"
      "fst (split_secret (with_draws demo_ext (0 + 1) rs) [7, 8] 2 3 0) = Inr others"
      "map (\<lambda>j. untagged (others ! j)) [2] = map (\<lambda>j. untagged (shares ! j)) [2]" by blast
  then have "length rs = 2" "fst (split_secret (with_draws demo_ext 1 rs) [7, 8] 2 3 0) = Inr others"
      "untagged (others ! 2) = untagged (shares ! 2)" by simp_all
  with split show ?thesis by (metis fst_conv)
qed

end
