(* ===== verification/BootPlan.thy ===== *)
theory BootPlan
  imports Strings
begin

section \<open>The boot plan\<close>

text \<open>
  \<open>crates/init/src/lib.rs\<close>, the policy of a boot: mount flags and sources, the fixed layout under
  the scratch directory, the choice between Home and Ghost, the plan of ordered steps, the kernel
  command line and the argument lists of the two device mapper tools.  Paths are strings and
  \<open>Path::join\<close> is \<open>path_join\<close>.
\<close>

definition default_init :: string where "default_init = ''/usr/bin/horizon''"
definition base_label :: string where "base_label = ''HORIZON-BASE''"
definition data_label :: string where "data_label = ''HORIZON-DATA''"
definition home_label :: string where "home_label = ''HORIZON-HOME''"
definition verity_label :: string where "verity_label = ''HORIZON-VERITY''"

subsection \<open>Sources\<close>

record mount_flags =
  mf_rdonly :: bool
  mf_nosuid :: bool
  mf_nodev :: bool
  mf_noexec :: bool

definition flags_pseudo :: mount_flags where
  "flags_pseudo = \<lparr>mf_rdonly = False, mf_nosuid = True, mf_nodev = True, mf_noexec = True\<rparr>"

definition flags_scratch :: mount_flags where
  "flags_scratch = \<lparr>mf_rdonly = False, mf_nosuid = True, mf_nodev = True, mf_noexec = False\<rparr>"

definition flags_dev :: mount_flags where
  "flags_dev = \<lparr>mf_rdonly = False, mf_nosuid = True, mf_nodev = False, mf_noexec = False\<rparr>"

record source =
  so_dev :: string
  so_fstype :: string
  so_flags :: mount_flags

definition source_new :: "string \<Rightarrow> string \<Rightarrow> mount_flags \<Rightarrow> source" where
  "source_new dev fstype flags = \<lparr>so_dev = dev, so_fstype = fstype, so_flags = flags\<rparr>"

definition source_read_only :: "source \<Rightarrow> source" where
  "source_read_only s = s\<lparr>so_flags := (so_flags s)\<lparr>mf_rdonly := True\<rparr>\<rparr>"

definition source_tmpfs :: source where
  "source_tmpfs = source_new ''tmpfs'' ''tmpfs'' flags_scratch"

datatype boot_mode = Home source | Ghost

record carry =
  ca_from :: string
  ca_to :: string

subsection \<open>The layout\<close>

record layout =
  la_scratch :: string
  la_lower :: string
  la_data :: string
  la_over :: string
  la_upper :: string
  la_work :: string
  la_root :: string

definition layout_new :: "string \<Rightarrow> layout" where
  "layout_new scratch =
     (let over = path_join scratch ''over'' in
      \<lparr>la_scratch = scratch, la_lower = path_join scratch ''lower'',
       la_data = path_join scratch ''data'', la_over = over, la_upper = path_join over ''upper'',
       la_work = path_join over ''work'', la_root = path_join scratch ''root''\<rparr>)"

record recipe =
  re_scratch :: string
  re_base :: source
  re_mode :: boot_mode
  re_carry :: "carry list"
  re_init :: string
  re_init_args :: "string list"

datatype mount_step =
    Mkdir string
  | Mount source string
  | Overlay string string string string
  | Bind string string
  | Move string string
  | SwitchRoot string string "string list"

subsection \<open>From a recipe to a plan\<close>

definition early_mounts :: "mount_step list" where
  "early_mounts =
     [Mount (source_new ''devtmpfs'' ''devtmpfs'' flags_dev) ''/dev'',
      Mount (source_new ''proc'' ''proc'' flags_pseudo) ''/proc'',
      Mount (source_new ''sysfs'' ''sysfs'' flags_pseudo) ''/sys'']"

text \<open>\<open>strip_prefix("/")\<close> on a path: what follows the root component, without the separators and
  \<open>.\<close> segments around it, or nothing to strip.\<close>

definition idle_seg :: "string \<Rightarrow> bool" where
  "idle_seg s \<longleftrightarrow> s = [] \<or> s = ''.''"

fun join_segs :: "string list \<Rightarrow> string" where
  "join_segs [] = []"
| "join_segs [s] = s"
| "join_segs (s # ss) = s @ CHR ''/'' # join_segs ss"

definition strip_root :: "string \<Rightarrow> string option" where
  "strip_root p =
     (if path_is_absolute p
      then Some (join_segs (rev (dropWhile idle_seg (rev (dropWhile idle_seg (split_on CHR ''/'' p))))))
      else None)"

definition under :: "string \<Rightarrow> string \<Rightarrow> string" where
  "under root rel = path_join root (case strip_root rel of Some r \<Rightarrow> r | None \<Rightarrow> rel)"

definition over_source :: "boot_mode \<Rightarrow> source" where
  "over_source m = (case m of Home dev \<Rightarrow> dev | Ghost \<Rightarrow> source_tmpfs)"

definition carry_steps :: "string \<Rightarrow> carry list \<Rightarrow> mount_step list" where
  "carry_steps root cs =
     concat (map (\<lambda>c. let to = under root (ca_to c) in [Mkdir to, Bind (ca_from c) to]) cs)"

definition move_steps :: "string \<Rightarrow> mount_step list" where
  "move_steps root =
     concat (map (\<lambda>name. let to = path_join root name in [Mkdir to, Move (path_join ''/'' name) to])
       [''dev'', ''proc'', ''sys''])"

definition plan :: "recipe \<Rightarrow> mount_step list" where
  "plan r =
     (let l = layout_new (re_scratch r) in
      early_mounts
      @ [Mkdir (la_lower l), Mount (source_read_only (re_base r)) (la_lower l)]
      @ [Mkdir (la_over l), Mount (over_source (re_mode r)) (la_over l),
         Mkdir (la_upper l), Mkdir (la_work l)]
      @ [Mkdir (la_root l), Overlay (la_lower l) (la_upper l) (la_work l) (la_root l)]
      @ carry_steps (la_root l) (re_carry r)
      @ move_steps (la_root l)
      @ [SwitchRoot (la_root l) (re_init r) (re_init_args r)])"

subsection \<open>The mode\<close>

datatype mode_choice = ChooseAuto | ChooseHome | ChooseGhost

definition mode_choice_parse :: "string \<Rightarrow> mode_choice" where
  "mode_choice_parse s =
     (if s = ''home'' then ChooseHome else if s = ''ghost'' then ChooseGhost else ChooseAuto)"

definition home_wanted :: "mode_choice \<Rightarrow> bool \<Rightarrow> bool \<Rightarrow> bool" where
  "home_wanted choice has_store has_home \<longleftrightarrow> choice \<noteq> ChooseGhost \<and> has_store \<and> has_home"

definition choose_mode :: "mode_choice \<Rightarrow> source option \<Rightarrow> boot_mode" where
  "choose_mode choice data =
     (case (choice, data) of
        (ChooseGhost, _) \<Rightarrow> Ghost
      | (_, None) \<Rightarrow> Ghost
      | (_, Some d) \<Rightarrow> Home d)"

subsection \<open>The command line\<close>

datatype spec = SpecLabel string | SpecUuid string | SpecPath string

definition spec_parse :: "string \<Rightarrow> spec" where
  "spec_parse s =
     (case strip_pre ''LABEL='' s of
        Some l \<Rightarrow> SpecLabel l
      | None \<Rightarrow> (case strip_pre ''UUID='' s of Some u \<Rightarrow> SpecUuid u | None \<Rightarrow> SpecPath s))"

record params =
  pa_base :: spec
  pa_basefs :: string
  pa_data :: spec
  pa_datafs :: string
  pa_home :: spec
  pa_homefs :: string
  pa_verity :: "string option"
  pa_verity_dev :: spec
  pa_mode :: mode_choice
  pa_fido2 :: bool
  pa_token :: "string option"
  pa_init :: string
  pa_init_args :: "string list"

definition params_default :: params where
  "params_default =
     \<lparr>pa_base = SpecLabel base_label, pa_basefs = ''squashfs'', pa_data = SpecLabel data_label,
      pa_datafs = ''ext4'', pa_home = SpecLabel home_label, pa_homefs = ''ext4'',
      pa_verity = None, pa_verity_dev = SpecLabel verity_label, pa_mode = ChooseAuto,
      pa_fido2 = False, pa_token = None, pa_init = default_init, pa_init_args = [''boot'']\<rparr>"

text \<open>The chain of \<open>strip_prefix\<close> tests, in the order of the code.\<close>

definition key_value :: "string \<Rightarrow> string \<Rightarrow> (string \<Rightarrow> 'a) \<Rightarrow> 'a \<Rightarrow> 'a" where
  "key_value key tok f rest = (case strip_pre key tok of Some v \<Rightarrow> f v | None \<Rightarrow> rest)"

definition apply_token :: "string \<Rightarrow> params \<Rightarrow> params" where
  "apply_token tok p =
     key_value ''horizon.base='' tok (\<lambda>v. p\<lparr>pa_base := spec_parse v\<rparr>)
    (key_value ''horizon.basefs='' tok (\<lambda>v. p\<lparr>pa_basefs := v\<rparr>)
    (key_value ''horizon.data='' tok (\<lambda>v. p\<lparr>pa_data := spec_parse v\<rparr>)
    (key_value ''horizon.datafs='' tok (\<lambda>v. p\<lparr>pa_datafs := v\<rparr>)
    (key_value ''horizon.home='' tok (\<lambda>v. p\<lparr>pa_home := spec_parse v\<rparr>)
    (key_value ''horizon.homefs='' tok (\<lambda>v. p\<lparr>pa_homefs := v\<rparr>)
    (key_value ''horizon.verity='' tok (\<lambda>v. p\<lparr>pa_verity := Some v\<rparr>)
    (key_value ''horizon.veritydev='' tok (\<lambda>v. p\<lparr>pa_verity_dev := spec_parse v\<rparr>)
    (key_value ''horizon.mode='' tok (\<lambda>v. p\<lparr>pa_mode := mode_choice_parse v\<rparr>)
    (if tok = ''horizon.fido2'' then p\<lparr>pa_fido2 := True\<rparr>
     else
     key_value ''horizon.token='' tok (\<lambda>v. p\<lparr>pa_token := Some v\<rparr>)
    (key_value ''horizon.init='' tok (\<lambda>v. p\<lparr>pa_init := v\<rparr>) p))))))))))"

text \<open>\<open>split_whitespace\<close>: the maximal runs of characters that are not white space.\<close>

fun ws_groups :: "string list \<Rightarrow> string \<Rightarrow> string list" where
  "ws_groups [] cur = (if cur = [] then [] else [cur])"
| "ws_groups (c # cs) cur =
     (if is_ws c then (if cur = [] then ws_groups cs [] else cur # ws_groups cs [])
      else ws_groups cs (cur @ c))"

definition split_ws :: "string \<Rightarrow> string list" where
  "split_ws s = ws_groups (chars_of s) []"

definition parse_cmdline :: "string \<Rightarrow> params" where
  "parse_cmdline cmdline = fold apply_token (split_ws cmdline) params_default"

subsection \<open>The device mapper tools\<close>

definition master_key_size :: nat where "master_key_size = 32"
definition home_mapper :: string where "home_mapper = ''horizon-home''"
definition base_mapper :: string where "base_mapper = ''horizon-base''"

definition luks_open_args :: "string \<Rightarrow> string \<Rightarrow> string list" where
  "luks_open_args container mapper =
     [''luksOpen'', ''--key-file'', ''-'', ''--keyfile-size'', show_nat master_key_size,
      to_string_lossy container, mapper]"

definition luks_close_args :: "string \<Rightarrow> string list" where
  "luks_close_args mapper = [''luksClose'', mapper]"

definition verity_open_args :: "string \<Rightarrow> string \<Rightarrow> string \<Rightarrow> string \<Rightarrow> string list" where
  "verity_open_args data_dev hash_dev mapper root_hash =
     [''open'', to_string_lossy data_dev, mapper, to_string_lossy hash_dev, root_hash]"

definition verity_close_args :: "string \<Rightarrow> string list" where
  "verity_close_args mapper = [''close'', mapper]"

definition mapper_path :: "string \<Rightarrow> string" where
  "mapper_path mapper = path_join ''/dev/mapper'' mapper"

definition scratch_dir :: string where "scratch_dir = ''/run/horizon''"
definition store_mount :: string where "store_mount = ''/run/horizon/store''"

definition flags_none :: mount_flags where
  "flags_none = \<lparr>mf_rdonly = False, mf_nosuid = False, mf_nodev = False, mf_noexec = False\<rparr>"

text \<open>The errors of the crate: an error of the operating system is its text.\<close>

datatype init_error = InitStep string string string | InitResolve spec | InitBoot string

subsection \<open>What a plan may write\<close>

text \<open>A step that leaves no trace: what it mounts is read-only or lives in memory.\<close>

definition in_memory :: "source \<Rightarrow> bool" where
  "in_memory s \<longleftrightarrow> so_fstype s \<in> {''tmpfs'', ''devtmpfs'', ''proc'', ''sysfs''}"

definition traceless :: "mount_step \<Rightarrow> bool" where
  "traceless st \<longleftrightarrow> (case st of Mount s _ \<Rightarrow> mf_rdonly (so_flags s) \<or> in_memory s | _ \<Rightarrow> True)"

lemma traceless_simps [simp]:
  "traceless (Mkdir p)" "traceless (Overlay l u w t)" "traceless (Bind f t)" "traceless (Move f t)"
  "traceless (SwitchRoot nr i a)" "traceless (Mount (source_read_only s) t)"
  "traceless (Mount source_tmpfs t)"
  by (simp_all add: traceless_def source_read_only_def source_tmpfs_def source_new_def in_memory_def)

lemma traceless_early: "list_all traceless early_mounts"
  by (simp add: early_mounts_def traceless_def source_new_def in_memory_def)

lemma traceless_plan: "list_all traceless (plan r) \<longleftrightarrow> traceless (Mount (over_source (re_mode r)) [])"
proof -
  have "list_all traceless (carry_steps root cs)" "list_all traceless (move_steps root)" for root cs
    by (induction cs) (simp_all add: carry_steps_def move_steps_def Let_def)
  then show ?thesis
    by (simp add: plan_def Let_def traceless_early) (simp add: traceless_def)
qed

lemma plan_ghost_traceless: "re_mode r = Ghost \<Longrightarrow> list_all traceless (plan r)"
  by (simp add: traceless_plan over_source_def)

subsection \<open>The command line prints and parses\<close>

text \<open>The reference: parameters as the tokens an operator would write.\<close>

definition spec_show :: "spec \<Rightarrow> string" where
  "spec_show s = (case s of SpecLabel l \<Rightarrow> ''LABEL='' @ l | SpecUuid u \<Rightarrow> ''UUID='' @ u | SpecPath p \<Rightarrow> p)"

definition mode_show :: "mode_choice \<Rightarrow> string" where
  "mode_show m = (case m of ChooseAuto \<Rightarrow> ''auto'' | ChooseHome \<Rightarrow> ''home'' | ChooseGhost \<Rightarrow> ''ghost'')"

definition opt_token :: "string \<Rightarrow> string option \<Rightarrow> string list" where
  "opt_token key v = (case v of None \<Rightarrow> [] | Some x \<Rightarrow> [key @ x])"

definition params_tokens :: "params \<Rightarrow> string list" where
  "params_tokens p =
     [''horizon.base='' @ spec_show (pa_base p), ''horizon.basefs='' @ pa_basefs p,
      ''horizon.data='' @ spec_show (pa_data p), ''horizon.datafs='' @ pa_datafs p,
      ''horizon.home='' @ spec_show (pa_home p), ''horizon.homefs='' @ pa_homefs p]
     @ opt_token ''horizon.verity='' (pa_verity p)
     @ [''horizon.veritydev='' @ spec_show (pa_verity_dev p), ''horizon.mode='' @ mode_show (pa_mode p)]
     @ (if pa_fido2 p then [''horizon.fido2''] else [])
     @ opt_token ''horizon.token='' (pa_token p) @ [''horizon.init='' @ pa_init p]"

fun join_ws :: "string list \<Rightarrow> string" where
  "join_ws [] = []"
| "join_ws (t # ts) = t @ CHR '' '' # join_ws ts"

definition plain_text :: "string \<Rightarrow> bool" where
  "plain_text s \<longleftrightarrow> list_all plain_char s"

definition wf_spec :: "spec \<Rightarrow> bool" where
  "wf_spec s \<longleftrightarrow> spec_parse (spec_show s) = s \<and> plain_text (spec_show s)"

definition wf_params :: "params \<Rightarrow> bool" where
  "wf_params p \<longleftrightarrow>
     wf_spec (pa_base p) \<and> wf_spec (pa_data p) \<and> wf_spec (pa_home p) \<and> wf_spec (pa_verity_dev p)
     \<and> plain_text (pa_basefs p) \<and> plain_text (pa_datafs p) \<and> plain_text (pa_homefs p)
     \<and> plain_text (pa_init p) \<and> pa_init_args p = [''boot'']
     \<and> (case pa_verity p of None \<Rightarrow> True | Some v \<Rightarrow> plain_text v)
     \<and> (case pa_token p of None \<Rightarrow> True | Some v \<Rightarrow> plain_text v)"

lemma is_ws_space: "is_ws '' ''"
  by (simp add: is_ws_def ws_table_def str_bytes_def)

lemma ws_groups_plain:
  "plain_text t \<Longrightarrow> ws_groups (map (\<lambda>c. [c]) t @ cs) cur = ws_groups cs (cur @ t)"
  by (induction t arbitrary: cur) (auto simp: plain_text_def plain_char_def)

lemma split_ws_join: "list_all (\<lambda>t. plain_text t \<and> t \<noteq> []) ts \<Longrightarrow> split_ws (join_ws ts) = ts"
proof -
  assume ts: "list_all (\<lambda>t. plain_text t \<and> t \<noteq> []) ts"
  have sp: "plain_char CHR '' '' \<or> is_ws '' ''" by (simp add: is_ws_space)
  have "ascii_str (join_ws ts)"
    using ts by (induction ts) (auto simp: ascii_str_def plain_text_def plain_char_def list_all_iff)
  then have cs: "chars_of (join_ws ts) = map (\<lambda>c. [c]) (join_ws ts)" by (rule chars_of_ascii)
  have "ws_groups (map (\<lambda>c. [c]) (join_ws ts)) [] = ts"
    using ts by (induction ts) (auto simp: ws_groups_plain is_ws_space)
  with cs show ?thesis by (simp add: split_ws_def)
qed

lemma plain_text_append [simp]: "plain_text (a @ b) \<longleftrightarrow> plain_text a \<and> plain_text b"
  by (simp add: plain_text_def)

lemma plain_text_simps [simp]: "plain_text []" "plain_text (c # s) \<longleftrightarrow> plain_char c \<and> plain_text s"
  by (simp_all add: plain_text_def)

lemma plain_char_code: "plain_char c \<longleftrightarrow> (let n = of_char c :: nat in n < 128 \<and> n \<notin> {9, 10, 11, 12, 13, 32})"
proof -
  have "(of_char c :: byte) = of_nat (of_char c)" by (simp add: of_nat_of_char)
  moreover have "(of_char c :: nat) < 256" by simp
  ultimately have u: "unat (of_char c :: byte) = of_char c" by (simp add: unat_of_nat)
  have eq: "(of_char c :: byte) = w \<longleftrightarrow> (of_char c :: nat) = unat w" for w
    using u by (auto simp: word_unat_eq_iff)
  show ?thesis
    by (auto simp: plain_char_def Let_def u is_ws_def ws_table_def str_bytes_def eq)
qed

lemma key_value_simps:
  "key_value k (k @ v) f rest = f v"
  "strip_pre k t = None \<Longrightarrow> key_value k t f rest = rest"
  by (simp_all add: key_value_def)

text \<open>Each token moves its own field, whatever the parameters so far.\<close>

lemma apply_token_simps:
  "apply_token (''horizon.base='' @ v) p = p\<lparr>pa_base := spec_parse v\<rparr>"
  "apply_token (''horizon.basefs='' @ v) p = p\<lparr>pa_basefs := v\<rparr>"
  "apply_token (''horizon.data='' @ v) p = p\<lparr>pa_data := spec_parse v\<rparr>"
  "apply_token (''horizon.datafs='' @ v) p = p\<lparr>pa_datafs := v\<rparr>"
  "apply_token (''horizon.home='' @ v) p = p\<lparr>pa_home := spec_parse v\<rparr>"
  "apply_token (''horizon.homefs='' @ v) p = p\<lparr>pa_homefs := v\<rparr>"
  "apply_token (''horizon.verity='' @ v) p = p\<lparr>pa_verity := Some v\<rparr>"
  "apply_token (''horizon.veritydev='' @ v) p = p\<lparr>pa_verity_dev := spec_parse v\<rparr>"
  "apply_token (''horizon.mode='' @ v) p = p\<lparr>pa_mode := mode_choice_parse v\<rparr>"
  "apply_token ''horizon.fido2'' p = p\<lparr>pa_fido2 := True\<rparr>"
  "apply_token (''horizon.token='' @ v) p = p\<lparr>pa_token := Some v\<rparr>"
  "apply_token (''horizon.init='' @ v) p = p\<lparr>pa_init := v\<rparr>"
  by (simp_all add: apply_token_def key_value_def)

lemma mode_parse_show: "mode_choice_parse (mode_show m) = m"
  by (cases m) (simp_all add: mode_show_def mode_choice_parse_def)

lemma plain_mode_show: "plain_text (mode_show m)"
  by (cases m) (simp_all add: mode_show_def plain_char_code)

lemma params_tokens_plain:
  assumes "wf_params p"
  shows "list_all (\<lambda>t. plain_text t \<and> t \<noteq> []) (params_tokens p)"
proof -
  have keys: "plain_text ''horizon.base=''" "plain_text ''horizon.basefs=''" "plain_text ''horizon.data=''"
    "plain_text ''horizon.datafs=''" "plain_text ''horizon.home=''" "plain_text ''horizon.homefs=''"
    "plain_text ''horizon.verity=''" "plain_text ''horizon.veritydev=''" "plain_text ''horizon.mode=''"
    "plain_text ''horizon.fido2''" "plain_text ''horizon.token=''" "plain_text ''horizon.init=''"
    by (simp_all add: plain_char_code)
  have opt: "list_all (\<lambda>t. plain_text t \<and> t \<noteq> []) (opt_token k v)"
    if "plain_text k" "k \<noteq> []" "case v of None \<Rightarrow> True | Some x \<Rightarrow> plain_text x" for k v
    using that by (auto simp: opt_token_def split: option.splits)
  show ?thesis
    using assms keys
    by (auto simp: params_tokens_def wf_params_def wf_spec_def opt plain_mode_show)
qed

lemma parse_show_cmdline:
  assumes "wf_params p"
  shows "parse_cmdline (join_ws (params_tokens p)) = p"
proof -
  have opt: "fold apply_token (opt_token k v) q = (case v of None \<Rightarrow> q | Some x \<Rightarrow> apply_token (k @ x) q)" for k v q
    by (simp add: opt_token_def split: option.splits)
  have f: "fold apply_token (params_tokens p) params_default = p"
    using assms
    by (cases "pa_fido2 p"; cases "pa_verity p"; cases "pa_token p")
      (simp_all add: params_tokens_def opt apply_token_simps [simplified] wf_params_def wf_spec_def mode_parse_show
        params_default_def)
  show ?thesis
    by (simp add: parse_cmdline_def split_ws_join [OF params_tokens_plain [OF assms]] f)
qed

end
