(* ===== verification/Modules.thy ===== *)
theory Modules
  imports BootPlan "HOL-Library.List_Lexorder"
begin

section \<open>Kernel modules in dependency order\<close>

text \<open>
  \<open>crates/init/src/lib.rs\<close>: the parser of \<open>modules.dep\<close> and the order the modules are loaded in.
  A \<open>BTreeMap<PathBuf, _>\<close> is an association list kept sorted by the order of \<open>Path\<close>, which compares
  components; equal paths are equal components, and inserting at a key already there keeps the
  first spelling of the key.
\<close>

subsection \<open>The order on paths\<close>

primrec comp_key :: "path_comp \<Rightarrow> nat list" where
  "comp_key RootDir = [0]"
| "comp_key CurDir = [1]"
| "comp_key ParentDir = [2]"
| "comp_key (Normal s) = 3 # map of_char s"

lemma inj_of_char_nat: "map (of_char :: char \<Rightarrow> nat) a = map of_char b \<Longrightarrow> a = b"
  by (induction a arbitrary: b) (auto simp: of_char_eq_iff)

lemma comp_key_inj: "comp_key a = comp_key b \<Longrightarrow> a = b"
  by (cases a; cases b) (auto dest: inj_of_char_nat)

instantiation path_comp :: linorder
begin

definition less_eq_path_comp :: "path_comp \<Rightarrow> path_comp \<Rightarrow> bool" where
  "less_eq_path_comp a b \<longleftrightarrow> comp_key a \<le> comp_key b"

definition less_path_comp :: "path_comp \<Rightarrow> path_comp \<Rightarrow> bool" where
  "less_path_comp a b \<longleftrightarrow> comp_key a < comp_key b"

instance
  by standard (auto simp: less_eq_path_comp_def less_path_comp_def dest: comp_key_inj)

end

type_synonym dep_map = "(string \<times> string list) list"

fun dep_insert :: "string \<Rightarrow> string list \<Rightarrow> dep_map \<Rightarrow> dep_map" where
  "dep_insert k v [] = [(k, v)]"
| "dep_insert k v ((a, x) # m) =
     (if path_components k < path_components a then (k, v) # (a, x) # m
      else if path_eq k a then (a, v) # m
      else (a, x) # dep_insert k v m)"

definition dep_get :: "dep_map \<Rightarrow> string \<Rightarrow> string list option" where
  "dep_get m k = map_option snd (find (\<lambda>(a, _). path_eq k a) m)"

subsection \<open>The parser\<close>

text \<open>\<open>str::lines\<close>: lines end at a line feed, with a carriage return before it dropped; a last
  empty line is none.\<close>

definition chomp :: "string \<Rightarrow> string" where
  "chomp l = (if l \<noteq> [] \<and> last l = CHR 0x0D then butlast l else l)"

definition str_lines :: "string \<Rightarrow> string list" where
  "str_lines s =
     (let ls = split_on CHR 0x0A s in
      map chomp (butlast ls) @ (if last ls = [] then [] else [last ls]))"

definition dep_line :: "string \<Rightarrow> dep_map \<Rightarrow> dep_map" where
  "dep_line line m =
     (case split_once CHR '':'' (str_trim line) of
        None \<Rightarrow> m
      | Some (target, rest) \<Rightarrow>
          (let t = str_trim target in if t = [] then m else dep_insert t (split_ws rest) m))"

definition parse_modules_dep :: "string \<Rightarrow> dep_map" where
  "parse_modules_dep text = fold dep_line (str_lines text) []"

subsection \<open>The walk\<close>

text \<open>
  \<open>visit_module\<close> and the two loops that call it, as one walk over the modules still to visit: a
  module already marked is skipped; another is marked, its dependencies are visited, and then it
  is pushed.  The set holds paths up to equality.  A partial function, so that the walk returning
  is a theorem.
\<close>

type_synonym walk_state = "path_comp list set \<times> string list"

partial_function (option) visit_modules :: "dep_map \<Rightarrow> string list \<Rightarrow> walk_state \<Rightarrow> walk_state option" where
  [code]: "visit_modules deps ms st =
     (case ms of
        [] \<Rightarrow> Some st
      | m # ms' \<Rightarrow>
          if path_components m \<in> fst st then visit_modules deps ms' st
          else Option.bind
            (visit_modules deps (case dep_get deps m of Some needs \<Rightarrow> needs | None \<Rightarrow> [])
               (insert (path_components m) (fst st), snd st))
            (\<lambda>st'. visit_modules deps ms' (fst st', snd st' @ [m])))"

definition module_load_order :: "dep_map \<Rightarrow> string list option" where
  "module_load_order deps = map_option snd (visit_modules deps (map fst deps) ({}, []))"

subsection \<open>The map is sorted\<close>

definition dep_keys :: "dep_map \<Rightarrow> path_comp list list" where
  "dep_keys m = map (\<lambda>e. path_components (fst e)) m"

lemma dep_keys_simps [simp]:
  "dep_keys [] = []" "dep_keys (e # m) = path_components (fst e) # dep_keys m"
  by (simp_all add: dep_keys_def)

lemma dep_insert_keys: "set (dep_keys (dep_insert k v m)) = insert (path_components k) (set (dep_keys m))"
  by (induction k v m rule: dep_insert.induct) (auto simp: path_eq_def)

lemma dep_insert_sorted:
  "sorted_wrt (<) (dep_keys m) \<Longrightarrow> sorted_wrt (<) (dep_keys (dep_insert k v m))"
proof (induction k v m rule: dep_insert.induct)
  case (2 k v a x m)
  consider "path_components k < path_components a" | "path_eq k a" | "path_components a < path_components k"
    using linorder_less_linear [of "path_components k" "path_components a"] by (auto simp: path_eq_def)
  then show ?case
  proof cases
    case 1
    with "2.prems" show ?thesis by (auto intro: less_trans)
  next
    case 2
    with "2.prems" show ?thesis by (simp add: path_eq_def)
  next
    case 3
    then have ne: "\<not> path_components k < path_components a" "\<not> path_eq k a" by (auto simp: path_eq_def)
    with "2.IH" "2.prems" have "sorted_wrt (<) (dep_keys (dep_insert k v m))" by simp
    with 3 ne "2.prems" show ?thesis by (simp add: dep_insert_keys)
  qed
qed simp

lemma parse_modules_sorted: "sorted_wrt (<) (dep_keys (parse_modules_dep text))"
proof -
  have "sorted_wrt (<) (dep_keys (dep_line l m))" if "sorted_wrt (<) (dep_keys m)" for l m
    using that dep_insert_sorted by (auto simp: dep_line_def Let_def split: option.splits)
  then have "sorted_wrt (<) (dep_keys (fold dep_line ls m))" if "sorted_wrt (<) (dep_keys m)" for ls m
    using that by (induction ls arbitrary: m) simp_all
  then show ?thesis by (simp add: parse_modules_dep_def)
qed

lemma dep_get_insert:
  "sorted_wrt (<) (dep_keys m) \<Longrightarrow>
     dep_get (dep_insert k v m) j = (if path_eq j k then Some v else dep_get m j)"
proof (induction k v m rule: dep_insert.induct)
  case (2 k v a x m)
  then show ?case by (auto simp: dep_get_def path_eq_def)
qed (simp add: dep_get_def)

subsection \<open>The walk returns, and dependencies come first\<close>

definition needs_of :: "dep_map \<Rightarrow> string \<Rightarrow> string list" where
  "needs_of deps m = (case dep_get deps m of Some needs \<Rightarrow> needs | None \<Rightarrow> [])"

definition dep_edges :: "dep_map \<Rightarrow> (path_comp list \<times> path_comp list) set" where
  "dep_edges deps = {(path_components m, path_components d) | m d. d \<in> set (needs_of deps m)}"

definition dep_universe :: "dep_map \<Rightarrow> path_comp list set" where
  "dep_universe deps = path_components ` (set (map fst deps) \<union> set (concat (map snd deps)))"

fun deps_first :: "dep_map \<Rightarrow> path_comp list set \<Rightarrow> string list \<Rightarrow> bool" where
  "deps_first deps seen [] \<longleftrightarrow> True"
| "deps_first deps seen (m # ms) \<longleftrightarrow>
     list_all (\<lambda>d. path_components d \<in> seen) (needs_of deps m)
     \<and> deps_first deps (insert (path_components m) seen) ms"

lemma deps_first_snoc:
  "deps_first deps seen (ms @ [m]) \<longleftrightarrow> deps_first deps seen ms
     \<and> list_all (\<lambda>d. path_components d \<in> seen \<union> path_components ` set ms) (needs_of deps m)"
  by (induction ms arbitrary: seen) auto

lemma dep_get_cong: "path_eq m n \<Longrightarrow> dep_get deps m = dep_get deps n"
  by (simp add: dep_get_def path_eq_def)

lemma needs_in_universe: "d \<in> set (needs_of deps m) \<Longrightarrow> path_components d \<in> dep_universe deps"
proof -
  have "\<exists>k. (k, needs) \<in> set deps" if "dep_get deps m = Some needs" for needs
    using that by (induction deps) (auto simp: dep_get_def split: if_splits)
  assume "d \<in> set (needs_of deps m)"
  then obtain needs where "dep_get deps m = Some needs" "d \<in> set needs"
    by (cases "dep_get deps m") (auto simp: needs_of_def)
  with \<open>\<And>needs. dep_get deps m = Some needs \<Longrightarrow> \<exists>k. (k, needs) \<in> set deps\<close>
  obtain k where "(k, needs) \<in> set deps" "d \<in> set needs" by blast
  then have "d \<in> set (concat (map snd deps))" by force
  then show "path_components d \<in> dep_universe deps" by (simp add: dep_universe_def)
qed

lemma visit_modules_step:
  "visit_modules deps (m # ms) (done, ord) =
     (if path_components m \<in> done then visit_modules deps ms (done, ord)
      else Option.bind (visit_modules deps (needs_of deps m) (insert (path_components m) done, ord))
        (\<lambda>st. visit_modules deps ms (fst st, snd st @ [m])))"
  by (subst visit_modules.simps) (simp add: needs_of_def)

text \<open>The outcome of a walk: what it pushes and marks, and where dependencies stand.  The marked
  modules that are not pushed yet are the ones being visited; each of them reaches the modules
  still to visit, so without a cycle none of those is among them.\<close>

definition walk_runs :: "dep_map \<Rightarrow> string list \<Rightarrow> path_comp list set \<Rightarrow> string list \<Rightarrow> string list \<Rightarrow> bool" where
  "walk_runs deps ms seen ord new \<longleftrightarrow>
     visit_modules deps ms (seen, ord) = Some (seen \<union> path_components ` set new, ord @ new)
     \<and> distinct (map path_components new) \<and> path_components ` set new \<inter> seen = {}
     \<and> path_components ` set ms \<subseteq> seen \<union> path_components ` set new
     \<and> path_components ` set new \<subseteq> dep_universe deps"

definition in_progress :: "dep_map \<Rightarrow> string list \<Rightarrow> path_comp list set \<Rightarrow> string list \<Rightarrow> bool" where
  "in_progress deps ms seen ord \<longleftrightarrow>
     path_components ` set ord \<subseteq> seen
     \<and> (\<forall>p \<in> seen - path_components ` set ord. \<forall>m \<in> set ms. (p, path_components m) \<in> (dep_edges deps)\<^sup>+)"

definition walk_sorted :: "dep_map \<Rightarrow> string list \<Rightarrow> path_comp list set \<Rightarrow> string list \<Rightarrow> string list \<Rightarrow> bool" where
  "walk_sorted deps ms seen ord new \<longleftrightarrow>
     (acyclic (dep_edges deps) \<longrightarrow> in_progress deps ms seen ord \<longrightarrow>
        deps_first deps {} ord \<longrightarrow> deps_first deps {} (ord @ new))"

lemma walk_runs_step:
  assumes m: "path_components m \<notin> seen" "path_components m \<in> dep_universe deps"
    and n1: "walk_runs deps (needs_of deps m) (insert (path_components m) seen) ord n1"
    and n2: "walk_runs deps ms (insert (path_components m) seen \<union> path_components ` set n1) (ord @ n1 @ [m]) n2"
  shows "walk_runs deps (m # ms) seen ord (n1 @ m # n2)"
proof -
  note a = n1 [unfolded walk_runs_def] and b = n2 [unfolded walk_runs_def]
  have "visit_modules deps (m # ms) (seen, ord)
      = Some (seen \<union> path_components ` set (n1 @ m # n2), ord @ n1 @ m # n2)"
    using m(1)
    by (simp only: visit_modules_step a [THEN conjunct1] if_False Option.bind.bind_lunit fst_conv snd_conv
        append_assoc b [THEN conjunct1]) (simp add: image_Un Un_ac)
  moreover have "distinct (map path_components (n1 @ m # n2))" "path_components ` set (n1 @ m # n2) \<inter> seen = {}"
    using a b m(1) by auto
  moreover have "path_components ` set (m # ms) \<subseteq> seen \<union> path_components ` set (n1 @ m # n2)"
    "path_components ` set (n1 @ m # n2) \<subseteq> dep_universe deps"
    using a b m(2) by (auto simp: image_Un)
  ultimately show ?thesis unfolding walk_runs_def by blast
qed

lemma walk_sorted_step:
  assumes m: "path_components m \<notin> seen"
    and n1: "walk_runs deps (needs_of deps m) (insert (path_components m) seen) ord n1"
    and s1: "walk_sorted deps (needs_of deps m) (insert (path_components m) seen) ord n1"
    and s2: "walk_sorted deps ms (insert (path_components m) seen \<union> path_components ` set n1) (ord @ n1 @ [m]) n2"
  shows "walk_sorted deps (m # ms) seen ord (n1 @ m # n2)"
  unfolding walk_sorted_def
proof (intro impI)
  let ?E = "dep_edges deps" and ?pc = "path_components"
  assume acyc: "acyclic ?E" and prog: "in_progress deps (m # ms) seen ord" and ord: "deps_first deps {} ord"
  from prog have sub: "?pc ` set ord \<subseteq> seen" by (simp add: in_progress_def)
  have above: "(p, ?pc x) \<in> ?E\<^sup>+" if "p \<in> seen" "p \<notin> ?pc ` set ord" "x = m \<or> x \<in> set ms" for p x
    using prog that unfolding in_progress_def by auto
  have edge: "(?pc m, ?pc d) \<in> ?E" if "d \<in> set (needs_of deps m)" for d
    using that by (auto simp: dep_edges_def)
  have up: "(p, ?pc d) \<in> ?E\<^sup>+"
    if "p = ?pc m \<or> p \<in> seen" "p \<notin> ?pc ` set ord" "d \<in> set (needs_of deps m)" for p d
    using that above [of p m] edge [OF that(3)] by (metis r_into_trancl trancl_into_trancl)
  then have "in_progress deps (needs_of deps m) (insert (?pc m) seen) ord"
    using sub unfolding in_progress_def by blast
  with s1 acyc ord have first: "deps_first deps {} (ord @ n1)" by (simp add: walk_sorted_def)
  have "?pc d \<in> ?pc ` set (ord @ n1)" if d: "d \<in> set (needs_of deps m)" for d
  proof (rule ccontr)
    assume no: "?pc d \<notin> ?pc ` set (ord @ n1)"
    have "?pc d \<in> insert (?pc m) seen \<union> ?pc ` set n1" using n1 d unfolding walk_runs_def by blast
    with no up [OF _ _ d, of "?pc d"] have "(?pc d, ?pc d) \<in> ?E\<^sup>+" by auto
    with acyc show False by (simp add: acyclic_def)
  qed
  then have "deps_first deps {} (ord @ n1 @ [m])"
    using first deps_first_snoc [of deps "{}" "ord @ n1" m] by (simp add: list_all_iff)
  moreover have "in_progress deps ms (insert (?pc m) seen \<union> ?pc ` set n1) (ord @ n1 @ [m])"
    using sub above unfolding in_progress_def by (auto simp: image_Un)
  ultimately show "deps_first deps {} (ord @ n1 @ m # n2)"
    using s2 acyc by (simp add: walk_sorted_def)
qed

lemma walk_visits:
  "path_components ` set ms \<subseteq> dep_universe deps \<Longrightarrow>
     \<exists>new. walk_runs deps ms seen ord new \<and> walk_sorted deps ms seen ord new"
proof (induction "(card (dep_universe deps - seen), length ms)" arbitrary: ms seen ord
    rule: wf_induct [OF wf_lex_prod [OF wf_less_than wf_less_than]])
  case 1
  let ?U = "dep_universe deps" and ?pc = "path_components"
  have fin: "finite ?U" by (simp add: dep_universe_def)
  have IH: "\<exists>new. walk_runs deps ms' seen' ord' new \<and> walk_sorted deps ms' seen' ord' new"
    if "card (?U - seen') < card (?U - seen) \<or> card (?U - seen') = card (?U - seen) \<and> length ms' < length ms"
      "?pc ` set ms' \<subseteq> ?U" for ms' seen' ord'
    using "1.hyps" that by (auto simp: lex_prod_def)
  show ?case
  proof (cases ms)
    case Nil
    then show ?thesis
      by (intro exI [of _ "[]"]) (simp add: walk_runs_def walk_sorted_def visit_modules.simps)
  next
    case (Cons m ms')
    show ?thesis
    proof (cases "?pc m \<in> seen")
      case True
      from IH [of seen ms' ord] Cons "1.prems" obtain new where
        "walk_runs deps ms' seen ord new" "walk_sorted deps ms' seen ord new" by auto
      with Cons True show ?thesis
        by (intro exI [of _ new]) (simp add: walk_runs_def walk_sorted_def in_progress_def visit_modules_step)
    next
      case False
      let ?seen1 = "insert (?pc m) seen"
      have mU: "?pc m \<in> ?U" using "1.prems" Cons by simp
      then have smaller: "card (?U - ?seen1) < card (?U - seen)"
        using False fin by (intro psubset_card_mono) auto
      have "?pc ` set (needs_of deps m) \<subseteq> ?U" by (auto simp: needs_in_universe)
      with IH smaller obtain n1 where n1: "walk_runs deps (needs_of deps m) ?seen1 ord n1"
        "walk_sorted deps (needs_of deps m) ?seen1 ord n1" by blast
      have "card (?U - (?seen1 \<union> ?pc ` set n1)) \<le> card (?U - ?seen1)" using fin by (intro card_mono) auto
      with smaller IH [of "?seen1 \<union> ?pc ` set n1" ms' "ord @ n1 @ [m]"] "1.prems" Cons
      obtain n2 where "walk_runs deps ms' (?seen1 \<union> ?pc ` set n1) (ord @ n1 @ [m]) n2"
        "walk_sorted deps ms' (?seen1 \<union> ?pc ` set n1) (ord @ n1 @ [m]) n2" by auto
      with walk_runs_step [OF False mU n1(1)] walk_sorted_step [OF False n1] Cons show ?thesis by blast
    qed
  qed
qed

lemma load_order:
  obtains ord where "module_load_order deps = Some ord" "distinct (map path_components ord)"
    "path_components ` set (map fst deps) \<subseteq> path_components ` set ord"
    "path_components ` set ord \<subseteq> dep_universe deps"
    "acyclic (dep_edges deps) \<Longrightarrow> deps_first deps {} ord"
proof -
  have "path_components ` set (map fst deps) \<subseteq> dep_universe deps" by (auto simp: dep_universe_def)
  then obtain ord where ord: "walk_runs deps (map fst deps) {} [] ord" "walk_sorted deps (map fst deps) {} [] ord"
    using walk_visits by blast
  from ord(2) have "acyclic (dep_edges deps) \<Longrightarrow> deps_first deps {} ord"
    by (simp add: walk_sorted_def in_progress_def)
  with that [of ord] ord(1) show ?thesis by (simp add: walk_runs_def module_load_order_def)
qed

end
