(* ===== verification/Gpt.thy ===== *)
theory Gpt
  imports BootPlan Extern
begin

unbundle bit_operations_syntax

section \<open>The partition table\<close>

text \<open>
  The writer, \<open>crates/keybuild/src/gpt.rs\<close>, and the reader, \<open>parse_gpt\<close> of
  \<open>crates/init/src/lib.rs\<close> with \<open>resolve\<close> and \<open>read_disk_gpt\<close> of \<open>crates/init/src/linux.rs\<close>.  A
  sector copied into a buffer of zeros is the concatenation of its fields and the zeros between
  them.  LBAs are \<open>u64\<close> and wrap; \<open>build\<close> indexes past its entry array with more than 128
  partitions, which is \<open>None\<close>.
\<close>

definition sector :: u64 where "sector = 512"
definition align_sectors :: u64 where "align_sectors = 2048"
definition entry_count :: u32 where "entry_count = 128"
definition entry_size :: u32 where "entry_size = 128"
definition entry_array_sectors :: u64 where
  "entry_array_sectors = (ucast entry_count * ucast entry_size) div sector"
definition header_size :: u32 where "header_size = 92"

definition esp_type :: string where "esp_type = ''C12A7328-F81F-11D2-BA4B-00A0C93EC93B''"
definition linux_fs_type :: string where "linux_fs_type = ''0FC63DAF-8483-4772-8E79-3D69D8477DE4''"

subsection \<open>GUIDs\<close>

type_synonym guid = bytes

definition guid_parse :: "string \<Rightarrow> guid option" where
  "guid_parse s =
     (let g = split_on CHR ''-'' s in
      if length g \<noteq> 5 \<or> map length g \<noteq> [8, 4, 4, 4, 12] then None
      else
        Option.bind (parse_radix 16 (2 ^ 32) (g ! 0)) (\<lambda>f1.
        Option.bind (parse_radix 16 (2 ^ 16) (g ! 1)) (\<lambda>f2.
        Option.bind (parse_radix 16 (2 ^ 16) (g ! 2)) (\<lambda>f3.
        Option.bind (parse_radix 16 (2 ^ 16) (g ! 3)) (\<lambda>f4.
        Option.bind (parse_radix 16 (2 ^ 64) (g ! 4)) (\<lambda>f5.
          Some (le_bytes 4 (of_nat f1 :: u32) @ le_bytes 2 (of_nat f2 :: u16)
                @ le_bytes 2 (of_nat f3 :: u16) @ be_bytes 2 (of_nat f4 :: u16)
                @ drop 2 (be_bytes 8 (of_nat f5 :: u64)))))))))"

definition guid_derive :: "ext \<Rightarrow> string \<Rightarrow> guid" where
  "guid_derive X seed =
     (let b = take 16 (x_sha256 X (str_bytes (''horizon-gpt:'' @ seed)));
          b = b[6 := (b ! 6 AND 0x0f) OR 0x40]
      in b[8 := (b ! 8 AND 0x3f) OR 0x80])"

subsection \<open>UTF-16\<close>

text \<open>The scalar value of one character (its UTF-8 bytes), its UTF-16 units, and back with
  \<open>from_utf16_lossy\<close>, which writes U+FFFD for a surrogate without its partner.\<close>

definition scalar_of :: "string \<Rightarrow> nat" where
  "scalar_of c =
     (case map unat (str_bytes c) of
        [a] \<Rightarrow> a
      | [a, b] \<Rightarrow> (a mod 32) * 64 + b mod 64
      | [a, b, d] \<Rightarrow> (a mod 16) * 4096 + (b mod 64) * 64 + d mod 64
      | [a, b, d, e] \<Rightarrow> (a mod 8) * 262144 + (b mod 64) * 4096 + (d mod 64) * 64 + e mod 64
      | _ \<Rightarrow> 0)"

definition utf16_units :: "nat \<Rightarrow> u16 list" where
  "utf16_units n =
     (if n < 0x10000 then [of_nat n]
      else [of_nat (0xD800 + (n - 0x10000) div 0x400), of_nat (0xDC00 + (n - 0x10000) mod 0x400)])"

definition encode_utf16 :: "string \<Rightarrow> u16 list" where
  "encode_utf16 s = concat (map (\<lambda>c. utf16_units (scalar_of c)) (chars_of s))"

definition utf8_char :: "nat \<Rightarrow> bytes" where
  "utf8_char n =
     (if n < 0x80 then [of_nat n]
      else if n < 0x800 then [of_nat (0xC0 + n div 64), of_nat (0x80 + n mod 64)]
      else if n < 0x10000
      then [of_nat (0xE0 + n div 4096), of_nat (0x80 + n div 64 mod 64), of_nat (0x80 + n mod 64)]
      else [of_nat (0xF0 + n div 262144), of_nat (0x80 + n div 4096 mod 64),
            of_nat (0x80 + n div 64 mod 64), of_nat (0x80 + n mod 64)])"

definition high_surrogate :: "u16 \<Rightarrow> bool" where
  "high_surrogate u \<longleftrightarrow> 0xD800 \<le> u \<and> u < 0xDC00"

definition low_surrogate :: "u16 \<Rightarrow> bool" where
  "low_surrogate u \<longleftrightarrow> 0xDC00 \<le> u \<and> u < 0xE000"

fun utf16_lossy :: "u16 list \<Rightarrow> bytes" where
  "utf16_lossy [] = []"
| "utf16_lossy [u] =
     (if high_surrogate u \<or> low_surrogate u then utf8_char 0xFFFD else utf8_char (unat u))"
| "utf16_lossy (u # v # us) =
     (if high_surrogate u then
        (if low_surrogate v
         then utf8_char (0x10000 + (unat u - 0xD800) * 0x400 + (unat v - 0xDC00)) @ utf16_lossy us
         else utf8_char 0xFFFD @ utf16_lossy (v # us))
      else if low_surrogate u then utf8_char 0xFFFD @ utf16_lossy (v # us)
      else utf8_char (unat u) @ utf16_lossy (v # us))"

subsection \<open>The checksum\<close>

definition crc_bit :: "u32 \<Rightarrow> u32" where
  "crc_bit crc = drop_bit 1 crc XOR (0xEDB88320 AND - (crc AND 1))"

definition crc_byte :: "byte \<Rightarrow> u32 \<Rightarrow> u32" where
  "crc_byte b crc = (crc_bit ^^ 8) (crc XOR ucast b)"

definition crc32 :: "bytes \<Rightarrow> u32" where
  "crc32 data = NOT (fold crc_byte data 0xFFFFFFFF)"

subsection \<open>The layout\<close>

record part_spec =
  ps_type :: guid
  ps_unique :: guid
  ps_name :: string
  ps_size :: u64

record placed =
  pl_first :: u64
  pl_last :: u64
  pl_offset :: u64
  pl_size :: u64

record disk =
  dk_total :: u64
  dk_parts :: "placed list"
  dk_front :: bytes
  dk_back :: bytes
  dk_back_offset :: u64

definition div_ceil :: "u64 \<Rightarrow> u64 \<Rightarrow> u64" where
  "div_ceil x a = (if x mod a = 0 then x div a else x div a + 1)"

definition align_up :: "u64 \<Rightarrow> u64 \<Rightarrow> u64" where
  "align_up x a = div_ceil x a * a"

definition part_sectors :: "u64 \<Rightarrow> u64" where
  "part_sectors n = align_up (max (div_ceil n sector) 1) align_sectors"

fun place_parts :: "u64 \<Rightarrow> part_spec list \<Rightarrow> placed list \<times> u64" where
  "place_parts cursor [] = ([], cursor)"
| "place_parts cursor (p # ps) =
     (let sectors = part_sectors (ps_size p);
          last = cursor + sectors - 1;
          (placed, end) = place_parts (last + 1) ps
      in (\<lparr>pl_first = cursor, pl_last = last, pl_offset = cursor * sector, pl_size = sectors * sector\<rparr>
            # placed, end))"

subsection \<open>The bytes\<close>

record header_args =
  ha_my :: u64
  ha_alt :: u64
  ha_first :: u64
  ha_last :: u64
  ha_guid :: guid
  ha_entries :: u64
  ha_crc :: u32

definition zeros :: "nat \<Rightarrow> bytes" where
  "zeros n = replicate n 0"

definition header_fields :: "header_args \<Rightarrow> u32 \<Rightarrow> bytes" where
  "header_fields a crc =
     str_bytes ''EFI PART'' @ [0x00, 0x00, 0x01, 0x00] @ le_bytes 4 header_size @ le_bytes 4 crc
     @ zeros 4 @ le_bytes 8 (ha_my a) @ le_bytes 8 (ha_alt a) @ le_bytes 8 (ha_first a)
     @ le_bytes 8 (ha_last a) @ ha_guid a @ le_bytes 8 (ha_entries a) @ le_bytes 4 entry_count
     @ le_bytes 4 entry_size @ le_bytes 4 (ha_crc a)"

definition gpt_header :: "header_args \<Rightarrow> bytes" where
  "gpt_header a = header_fields a (crc32 (header_fields a 0)) @ zeros (512 - 92)"

definition pad_to :: "nat \<Rightarrow> bytes \<Rightarrow> bytes" where
  "pad_to n bs = bs @ zeros (n - length bs)"

definition part_entry :: "part_spec \<Rightarrow> placed \<Rightarrow> bytes" where
  "part_entry p pl =
     ps_type p @ ps_unique p @ le_bytes 8 (pl_first pl) @ le_bytes 8 (pl_last pl) @ zeros 8
     @ pad_to 72 (concat (map (le_bytes 2) (take 36 (encode_utf16 (ps_name p)))))"

definition build_entries :: "part_spec list \<Rightarrow> placed list \<Rightarrow> bytes option" where
  "build_entries parts placed =
     (if length parts \<le> 128
      then Some (pad_to (128 * 128) (concat (map (\<lambda>(p, pl). part_entry p pl) (zip parts placed))))
      else None)"

definition pmbr :: "u64 \<Rightarrow> bytes" where
  "pmbr sectors =
     zeros 446 @ [0, 0x00, 0x02, 0x00, 0xEE, 0xFF, 0xFF, 0xFF] @ le_bytes 4 (1 :: u32)
     @ le_bytes 4 (ucast (min (sectors - 1) 0xFFFFFFFF) :: u32) @ zeros 48 @ [0x55, 0xAA]"

definition gpt_build :: "guid \<Rightarrow> part_spec list \<Rightarrow> disk option" where
  "gpt_build disk_guid parts =
     (let entries_lba = 2;
          first_usable = entries_lba + entry_array_sectors;
          (placed, cursor) = place_parts (align_up first_usable align_sectors) parts;
          backup_entries = cursor;
          sectors = backup_entries + entry_array_sectors + 1;
          backup_header = sectors - 1;
          last_usable = backup_entries - 1
      in case build_entries parts placed of
           None \<Rightarrow> None
         | Some entries \<Rightarrow>
             let crc = crc32 entries;
                 args = \<lparr>ha_my = 1, ha_alt = backup_header, ha_first = first_usable, ha_last = last_usable,
                         ha_guid = disk_guid, ha_entries = entries_lba, ha_crc = crc\<rparr>;
                 back = args\<lparr>ha_my := backup_header, ha_alt := 1, ha_entries := backup_entries\<rparr>
             in Some \<lparr>dk_total = sectors * sector, dk_parts = placed,
                      dk_front = pmbr sectors @ gpt_header args @ entries,
                      dk_back = entries @ gpt_header back,
                      dk_back_offset = backup_entries * sector\<rparr>)"

subsection \<open>The reader\<close>

record gpt_part =
  gp_number :: u32
  gp_name :: string

fun utf16_name :: "bytes \<Rightarrow> u16 list" where
  "utf16_name (a # b # bs) =
     (let u = from_le [a, b] in if u = 0 then [] else u # utf16_name bs)"
| "utf16_name _ = []"

definition decode_utf16le :: "bytes \<Rightarrow> string" where
  "decode_utf16le bs = bytes_str (utf16_lossy (utf16_name bs))"

text \<open>The scan of the entry array: a slot past its end stops it, and so does an offset past
  \<open>usize\<close> (with no table at all); an unused slot is skipped and counted.\<close>

function gpt_scan :: "bytes \<Rightarrow> nat \<Rightarrow> nat \<Rightarrow> nat \<Rightarrow> gpt_part list option" where
  "gpt_scan entries esz num i =
     (if i < num then
        if 2 ^ 64 \<le> i * esz then None
        else if length entries < i * esz + 128 then Some []
        else
          let entry = take 128 (drop (i * esz) entries) in
          if list_all (\<lambda>b. b = 0) (take 16 entry) then gpt_scan entries esz num (Suc i)
          else map_option (\<lambda>ps. \<lparr>gp_number = of_nat (i + 1), gp_name = decode_utf16le (drop 56 entry)\<rparr> # ps)
                 (gpt_scan entries esz num (Suc i))
      else Some [])"
  by pat_completeness auto
termination
  by (relation "measure (\<lambda>(entries, esz, num, i). num - i)") auto

declare gpt_scan.simps [simp del]

definition gpt_field :: "bytes \<Rightarrow> nat \<Rightarrow> nat \<Rightarrow> bytes" where
  "gpt_field bs at n = take n (drop at bs)"

definition parse_gpt :: "bytes \<Rightarrow> bytes \<Rightarrow> gpt_part list option" where
  "parse_gpt header entries =
     (if length header < 92 \<or> gpt_field header 0 8 \<noteq> str_bytes ''EFI PART'' then None
      else
        let num = unat (from_le (gpt_field header 80 4) :: u32);
            esz = unat (from_le (gpt_field header 84 4) :: u32)
        in if esz < 128 then None else gpt_scan entries esz num 0)"

text \<open>Reading \<open>n\<close> bytes at an offset of the disk.\<close>

definition read_at :: "bytes \<Rightarrow> nat \<Rightarrow> nat \<Rightarrow> bytes option" where
  "read_at disk at n = (if at + n \<le> length disk then Some (gpt_field disk at n) else None)"

definition read_disk_gpt :: "bytes \<Rightarrow> nat \<Rightarrow> gpt_part list option" where
  "read_disk_gpt disk sec =
     Option.bind (read_at disk sec 512) (\<lambda>header.
       if gpt_field header 0 8 \<noteq> str_bytes ''EFI PART'' then None
       else
         let entry_lba = unat (from_le (gpt_field header 72 8) :: u64);
             num = unat (from_le (gpt_field header 80 4) :: u32);
             esz = unat (from_le (gpt_field header 84 4) :: u32);
             total = num * esz
         in if 2 ^ 64 \<le> total \<or> total = 0 \<or> 2 ^ 20 < total then None
            else if 2 ^ 64 \<le> entry_lba * sec then None
            else Option.bind (read_at disk (entry_lba * sec) total) (parse_gpt header))"

subsection \<open>Finding a partition\<close>

text \<open>What the resolver sees of the machine: which paths exist, and the entries of \<open>/sys/block\<close> in
  listing order, each with its sector size and the bytes of the disk if it can be opened.\<close>

record host =
  ho_exists :: "string \<Rightarrow> bool"
  ho_block :: "(string \<times> nat \<times> bytes option) list"

definition whole_disks :: "host \<Rightarrow> (string \<times> nat \<times> bytes option) list" where
  "whole_disks h = filter (\<lambda>(name, _). \<not> prefix ''ram'' name \<and> \<not> prefix ''loop'' name) (ho_block h)"

definition ascii_digit :: "char \<Rightarrow> bool" where
  "ascii_digit c \<longleftrightarrow> (let n = of_char c :: nat in 48 \<le> n \<and> n \<le> 57)"

definition partition_dev :: "string \<Rightarrow> u32 \<Rightarrow> string" where
  "partition_dev disk number =
     path_join ''/dev''
       (disk @ (if disk \<noteq> [] \<and> ascii_digit (last disk) then ''p'' else []) @ show_nat (unat number))"

fun find_partlabel :: "host \<Rightarrow> string \<Rightarrow> (string \<times> nat \<times> bytes option) list \<Rightarrow> string option" where
  "find_partlabel h label [] = None"
| "find_partlabel h label ((name, sec, data) # ds) =
     (case Option.bind data (\<lambda>disk. read_disk_gpt disk sec) of
        None \<Rightarrow> find_partlabel h label ds
      | Some parts \<Rightarrow>
          (case find (\<lambda>p. gp_name p = label) parts of
             None \<Rightarrow> find_partlabel h label ds
           | Some p \<Rightarrow>
               let node = partition_dev name (gp_number p) in
               if ho_exists h node then Some node else find_partlabel h label ds))"

definition resolve_partlabel :: "host \<Rightarrow> string \<Rightarrow> string option" where
  "resolve_partlabel h label = find_partlabel h label (whole_disks h)"

definition resolve_label :: "host \<Rightarrow> string \<Rightarrow> string option" where
  "resolve_label h label =
     (case find (\<lambda>dir. ho_exists h (path_join dir label)) [''/dev/disk/by-label'', ''/dev/disk/by-partlabel''] of
        Some dir \<Rightarrow> Some (path_join dir label)
      | None \<Rightarrow> resolve_partlabel h label)"

definition resolve :: "host \<Rightarrow> spec \<Rightarrow> string \<Rightarrow> init_error + source" where
  "resolve h s fstype =
     (case (case s of
              SpecPath p \<Rightarrow> if ho_exists h p then Some p else None
            | SpecLabel l \<Rightarrow> resolve_label h l
            | SpecUuid u \<Rightarrow>
                let p = path_join ''/dev/disk/by-uuid'' u in if ho_exists h p then Some p else None) of
        Some path \<Rightarrow> Inr (source_new path fstype flags_none)
      | None \<Rightarrow> Inl (InitResolve s))"

subsection \<open>The layout in natural numbers\<close>

definition nat_sectors :: "nat \<Rightarrow> nat" where
  "nat_sectors n = nat_ceil (max (nat_ceil n 512) 1) 2048 * 2048"

lemma unat_div_ceil:
  assumes "1 < unat a"
  shows "unat (div_ceil x a) = nat_ceil (unat x) (unat a)"
proof -
  have a: "a \<noteq> 0" using assms by auto
  have zero: "(x mod a = 0) = (unat x mod unat a = 0)"
    by (simp add: word_unat_eq_iff unat_mod_distrib)
  have "unat (x div a) \<le> unat x div 2"
    using assms by (simp add: unat_div_distrib div_le_mono2)
  moreover have "unat x < 18446744073709551616" using unsigned_less [of x, where ?'a = nat] by simp
  ultimately have "unat (x div a) + 1 < 18446744073709551616" by linarith
  then have "unat (x div a + 1) = unat (x div a) + 1"
    by (subst unat_add_lem [THEN iffD1]) simp_all
  with zero show ?thesis by (simp add: div_ceil_def nat_ceil_def unat_div_distrib)
qed

lemma sector_nats: "unat sector = 512" "unat align_sectors = 2048" "unat entry_array_sectors = 32"
  by (simp_all add: sector_def align_sectors_def entry_array_sectors_def entry_count_def entry_size_def)

lemma nat_sectors_bounds: "n \<le> nat_sectors n * 512" "2048 \<le> nat_sectors n" "nat_sectors n mod 2048 = 0"
proof -
  have "n \<le> nat_ceil n 512 * 512" by (rule nat_ceil_bounds) simp
  moreover have "max (nat_ceil n 512) 1 \<le> nat_sectors n"
    unfolding nat_sectors_def by (rule nat_ceil_bounds) simp
  ultimately show "n \<le> nat_sectors n * 512" by linarith
  have "1 \<le> nat_ceil (max (nat_ceil n 512) 1) 2048"
    using nat_ceil_bounds(1) [of 2048 "max (nat_ceil n 512) 1"] by linarith
  then show "2048 \<le> nat_sectors n" by (simp add: nat_sectors_def)
  show "nat_sectors n mod 2048 = 0" by (simp add: nat_sectors_def)
qed

lemma unat_part_sectors: "unat (part_sectors n) = nat_sectors (unat n)"
proof -
  let ?c = "max (div_ceil n sector) 1"
  have c: "unat ?c = max (nat_ceil (unat n) 512) 1"
    using unat_div_ceil [of sector n] by (simp add: sector_nats max_def word_le_nat_alt)
  have "unat n \<le> 2 ^ 55 * 512" using unsigned_less [of n, where ?'a = nat] by simp
  then have "nat_ceil (unat n) 512 \<le> 2 ^ 55" by (intro nat_ceil_le) simp_all
  then have "max (nat_ceil (unat n) 512) 1 \<le> 2 ^ 44 * 2048" by simp
  then have "nat_ceil (max (nat_ceil (unat n) 512) 1) 2048 \<le> 2 ^ 44" by (intro nat_ceil_le) simp_all
  then have "nat_ceil (max (nat_ceil (unat n) 512) 1) 2048 * 2048 < 2 ^ 64" by simp
  then have "unat (div_ceil ?c align_sectors * align_sectors)
      = unat (div_ceil ?c align_sectors) * unat align_sectors"
    using unat_div_ceil [of align_sectors ?c] c
    by (subst unat_mult_lem [THEN iffD1]) (simp_all add: sector_nats)
  then show ?thesis
    using unat_div_ceil [of align_sectors ?c] c
    by (simp add: part_sectors_def align_up_def nat_sectors_def sector_nats)
qed

text \<open>The partitions tile the disk: each starts on the alignment where the one before it ends, and
  holds at least the bytes asked for.\<close>

fun parts_chain :: "nat \<Rightarrow> placed list \<Rightarrow> nat \<Rightarrow> bool" where
  "parts_chain a [] b \<longleftrightarrow> a = b"
| "parts_chain a (p # ps) b \<longleftrightarrow>
     unat (pl_first p) = a \<and> a mod 2048 = 0 \<and> a < unat (pl_last p) \<and> parts_chain (unat (pl_last p) + 1) ps b"

definition part_fits :: "part_spec \<Rightarrow> placed \<Rightarrow> bool" where
  "part_fits s p \<longleftrightarrow>
     unat (ps_size s) \<le> unat (pl_size p)
     \<and> unat (pl_offset p) = unat (pl_first p) * 512
     \<and> unat (pl_size p) = (unat (pl_last p) - unat (pl_first p) + 1) * 512"

definition sectors_needed :: "part_spec list \<Rightarrow> nat" where
  "sectors_needed ps = sum_list (map (\<lambda>p. nat_sectors (unat (ps_size p))) ps)"

lemma place_parts_layout:
  assumes "place_parts cursor ps = (placed, end)"
    and "unat cursor mod 2048 = 0" and "unat cursor + sectors_needed ps < 2 ^ 55"
  shows "unat end = unat cursor + sectors_needed ps \<and> parts_chain (unat cursor) placed (unat end)
    \<and> list_all2 part_fits ps placed"
  using assms
proof (induction ps arbitrary: cursor placed "end")
  case Nil
  then show ?case by (simp add: sectors_needed_def)
next
  case (Cons p ps)
  let ?n = "nat_sectors (unat (ps_size p))" and ?s = "part_sectors (ps_size p)"
  have need: "sectors_needed (p # ps) = ?n + sectors_needed ps" by (simp add: sectors_needed_def)
  have s: "unat ?s = ?n" by (rule unat_part_sectors)
  have small: "unat cursor + ?n < 2 ^ 55" using Cons.prems(3) need by simp
  then have sum: "unat (cursor + ?s) = unat cursor + ?n"
    using s by (subst unat_add_lem [THEN iffD1]) simp_all
  have pos: "2048 \<le> ?n" by (rule nat_sectors_bounds)
  have last: "unat (cursor + ?s - 1) = unat cursor + ?n - 1"
  proof -
    have "1 \<le> cursor + ?s" using sum pos by (simp add: word_le_nat_alt)
    then show ?thesis using sum by (simp add: unat_sub)
  qed
  have mult: "unat (x * sector) = unat x * 512" if "unat x < 2 ^ 55" for x :: u64
    using that by (subst unat_mult_lem [THEN iffD1]) (simp_all add: sector_nats)
  obtain pls e where rest: "place_parts (cursor + ?s) ps = (pls, e)" by fastforce
  have "unat (cursor + ?s) mod 2048 = 0"
    using Cons.prems(2) sum nat_sectors_bounds(3) by (metis add.right_neutral mod_add_eq mod_0)
  from Cons.IH [OF rest this] sum small need Cons.prems(3)
  have IH: "unat e = unat cursor + ?n + sectors_needed ps" "parts_chain (unat cursor + ?n) pls (unat e)"
    "list_all2 part_fits ps pls" by (simp_all only: add.assoc) auto
  have "placed = \<lparr>pl_first = cursor, pl_last = cursor + ?s - 1, pl_offset = cursor * sector,
      pl_size = ?s * sector\<rparr> # pls" "end = e"
    using Cons.prems(1) rest by (simp_all add: Let_def)
  moreover have "part_fits p \<lparr>pl_first = cursor, pl_last = cursor + ?s - 1, pl_offset = cursor * sector,
      pl_size = ?s * sector\<rparr>"
    using small pos last s mult [of cursor] mult [of ?s] nat_sectors_bounds(1) [of "unat (ps_size p)"]
    by (simp add: part_fits_def)
  ultimately show ?case using IH Cons.prems(2) need last pos by simp
qed

lemma unat_first_part: "unat (align_up (2 + entry_array_sectors) align_sectors) = 2048"
  by (simp add: align_up_def div_ceil_def entry_array_sectors_def align_sectors_def entry_count_def
      entry_size_def sector_def)

subsection \<open>What the reader finds of what the writer wrote\<close>

lemma gpt_field_skip: "length a \<le> at \<Longrightarrow> gpt_field (a @ b) at n = gpt_field b (at - length a) n"
  by (simp add: gpt_field_def)

lemma gpt_field_here: "length a = n \<Longrightarrow> gpt_field (a @ b) 0 n = a"
  by (simp add: gpt_field_def)

lemma gpt_field_whole: "length a = n \<Longrightarrow> gpt_field a 0 n = a"
  by (simp add: gpt_field_def)

lemma length_zeros [simp]: "length (zeros n) = n"
  by (simp add: zeros_def)

lemma header_lengths:
  assumes "length (ha_guid a) = 16"
  shows "length (header_fields a crc) = 92" "length (gpt_header a) = 512"
  using assms by (simp_all add: header_fields_def gpt_header_def)

lemma header_reads:
  assumes "length (ha_guid a) = 16"
  shows "gpt_field (gpt_header a) 0 8 = str_bytes ''EFI PART''"
    "gpt_field (gpt_header a) 72 8 = le_bytes 8 (ha_entries a)"
    "gpt_field (gpt_header a) 80 4 = le_bytes 4 entry_count"
    "gpt_field (gpt_header a) 84 4 = le_bytes 4 entry_size"
    "gpt_field (gpt_header a) 16 4 = le_bytes 4 (crc32 (header_fields a 0))"
    "gpt_field (gpt_header a) 88 4 = le_bytes 4 (ha_crc a)"
  using assms
  by (simp_all add: gpt_header_def header_fields_def gpt_field_skip gpt_field_here del: append_Cons)

lemma zeros_chunks: "zeros (n * k) = concat (replicate n (zeros k))"
  by (induction n) (simp_all add: zeros_def replicate_add)

text \<open>A scan over an array of 128-byte entries reads them one by one.\<close>

definition entry_part :: "nat \<Rightarrow> bytes \<Rightarrow> gpt_part list" where
  "entry_part i e =
     (if list_all (\<lambda>b. b = 0) (take 16 e) then []
      else [\<lparr>gp_number = of_nat (i + 1), gp_name = decode_utf16le (drop 56 e)\<rparr>])"

fun entry_parts :: "nat \<Rightarrow> bytes list \<Rightarrow> gpt_part list" where
  "entry_parts i [] = []"
| "entry_parts i (e # es) = entry_part i e @ entry_parts (Suc i) es"

lemma gpt_scan_entries:
  assumes len: "list_all (\<lambda>e. length e = 128) es" and small: "length es \<le> 128"
  shows "i \<le> length es \<Longrightarrow> gpt_scan (concat es) 128 (length es) i = Some (entry_parts i (drop i es))"
proof (induction "length es - i" arbitrary: i)
  case 0
  then show ?case by (subst gpt_scan.simps) simp
next
  case (Suc k)
  then have i: "i < length es" by simp
  have IH: "gpt_scan (concat es) 128 (length es) (Suc i) = Some (entry_parts (Suc i) (drop (Suc i) es))"
    using Suc.hyps(2) i by (intro Suc.hyps(1)) simp_all
  have room: "\<not> length (concat es) < i * 128 + 128" "\<not> 2 ^ 64 \<le> i * 128"
    using i small len by (simp_all add: length_concat_same)
  have "drop i es = es ! i # drop (Suc i) es" using i by (simp add: Cons_nth_drop_Suc)
  moreover have "length (es ! i) = 128" using len i by (simp add: list_all_length)
  ultimately have entry: "take 128 (drop (i * 128) (concat es)) = es ! i"
    using len by (simp add: drop_concat_same)
  from \<open>drop i es = _\<close> have "entry_parts i (drop i es) = entry_part i (es ! i) @ entry_parts (Suc i) (drop (Suc i) es)"
    by simp
  with i room entry IH show ?case
    by (subst gpt_scan.simps) (simp add: Let_def entry_part_def)
qed

text \<open>Names: an ASCII name without NUL of at most 36 characters survives the entry.\<close>

definition part_name_ok :: "string \<Rightarrow> bool" where
  "part_name_ok s \<longleftrightarrow> ascii_str s \<and> length s \<le> 36 \<and> CHR 0x00 \<notin> set s"

lemma scalar_ascii: "scalar_of [c] = of_char c"
  by (simp add: scalar_of_def str_bytes_def unat_of_char)

lemma ascii_char_less: "ascii_str s \<Longrightarrow> c \<in> set s \<Longrightarrow> (of_char c :: nat) < 128"
  by (auto simp: ascii_str_def list_all_iff unat_of_char)

lemma encode_utf16_ascii:
  assumes "ascii_str s"
  shows "encode_utf16 s = map (\<lambda>c. of_nat (of_char c)) s"
proof -
  have "utf16_units (of_char c) = [of_nat (of_char c)]" if "c \<in> set s" for c
    using ascii_char_less [OF assms that] by (simp add: utf16_units_def)
  then have "concat (map (\<lambda>c. utf16_units (of_char c)) t) = map (\<lambda>c. of_nat (of_char c)) t"
    if "set t \<subseteq> set s" for t
    using that by (induction t) auto
  then show ?thesis
    by (simp add: encode_utf16_def chars_of_ascii [OF assms] scalar_ascii o_def)
qed

lemma utf16_lossy_ascii: "list_all (\<lambda>n. n < 128) ns \<Longrightarrow> utf16_lossy (map of_nat ns) = map of_nat ns"
proof (induction ns rule: induct_list012)
  case (2 n)
  then have "\<not> high_surrogate (of_nat n)" "\<not> low_surrogate (of_nat n)" "unat (of_nat n :: u16) = n"
    by (simp_all add: high_surrogate_def low_surrogate_def word_le_nat_alt unat_of_nat)
  with 2 show ?case by (simp add: utf8_char_def)
next
  case (3 n m ns)
  then have "\<not> high_surrogate (of_nat n)" "\<not> low_surrogate (of_nat n)" "unat (of_nat n :: u16) = n"
    by (simp_all add: high_surrogate_def low_surrogate_def word_le_nat_alt unat_of_nat)
  with 3 show ?case by (simp add: utf8_char_def)
qed simp

lemma utf16_name_units:
  "list_all (\<lambda>u. u \<noteq> 0) us \<Longrightarrow> utf16_name (concat (map (le_bytes 2) us) @ zeros n) = us"
proof (induction us)
  case Nil
  have "from_le [0, 0] = (0 :: u16)" by (simp add: from_le_def)
  then show ?case by (cases n; cases "n - 1") (simp_all add: zeros_def)
next
  case (Cons u us)
  obtain a b where ab: "le_bytes 2 u = [a, b]"
    by (simp add: le_bytes_def le_of_nat_numeral)
  then have "from_le [a, b] = u" using from_le_widths(1) [of u] by simp
  with Cons ab show ?case by simp
qed

lemma decode_name:
  assumes "part_name_ok s"
  shows "decode_utf16le (pad_to 72 (concat (map (le_bytes 2) (take 36 (encode_utf16 s))))) = s"
proof -
  have s: "ascii_str s" "length s \<le> 36" "CHR 0x00 \<notin> set s" using assms by (simp_all add: part_name_ok_def)
  let ?ns = "map of_char s :: nat list"
  have small: "list_all (\<lambda>n. n < 128) ?ns" using ascii_char_less [OF s(1)] by (simp add: list_all_iff)
  have units: "take 36 (encode_utf16 s) = map of_nat ?ns"
    using s by (simp add: encode_utf16_ascii o_def)
  have "of_nat (of_char c) \<noteq> (0 :: u16)" if "c \<in> set s" for c
  proof -
    have "c \<noteq> CHR 0x00" using that s(3) by auto
    then have "(of_char c :: nat) \<noteq> of_char (CHR 0x00)" unfolding of_char_eq_iff .
    then have "(of_char c :: nat) \<noteq> 0" by simp
    moreover have "unat (of_nat (of_char c) :: u16) = of_char c"
      using ascii_char_less [OF s(1) that] by (simp add: unat_of_nat)
    ultimately show ?thesis by auto
  qed
  then have "list_all (\<lambda>u. u \<noteq> (0 :: u16)) (map of_nat ?ns)" by (auto simp: list_all_iff)
  then have "utf16_name (pad_to 72 (concat (map (le_bytes 2) (map of_nat ?ns :: u16 list)))) = map of_nat ?ns"
    unfolding pad_to_def by (rule utf16_name_units)
  then have "decode_utf16le (pad_to 72 (concat (map (le_bytes 2) (take 36 (encode_utf16 s)))))
      = bytes_str (map of_nat ?ns)"
    unfolding units decode_utf16le_def by (simp only: utf16_lossy_ascii [OF small])
  also have "map of_nat ?ns = str_bytes s" by (simp add: str_bytes_def of_nat_of_char)
  finally show ?thesis by simp
qed

definition wf_part :: "part_spec \<Rightarrow> bool" where
  "wf_part p \<longleftrightarrow>
     length (ps_type p) = 16 \<and> ps_type p \<noteq> zeros 16 \<and> length (ps_unique p) = 16 \<and> part_name_ok (ps_name p)"

lemma part_entry_length: "wf_part p \<Longrightarrow> length (part_entry p pl) = 128"
proof -
  assume p: "wf_part p"
  then have n: "length (encode_utf16 (ps_name p)) \<le> 36"
    by (simp add: wf_part_def part_name_ok_def encode_utf16_ascii)
  have "length (concat (map (le_bytes 2 :: u16 \<Rightarrow> bytes) us)) = length us * 2" for us
    by (induction us) auto
  with p n show ?thesis by (simp add: part_entry_def pad_to_def wf_part_def)
qed

lemma part_entry_read:
  assumes "wf_part p"
  shows "entry_part i (part_entry p pl) = [\<lparr>gp_number = of_nat (i + 1), gp_name = ps_name p\<rparr>]"
proof -
  have t: "length (ps_type p) = 16" "ps_type p \<noteq> zeros 16" "length (ps_unique p) = 16"
    using assms by (simp_all add: wf_part_def)
  have "ps_type p = zeros 16" if "list_all (\<lambda>b. b = 0) (ps_type p)"
    unfolding zeros_def using t(1) that by (intro replicate_eqI) (simp_all add: list_all_iff)
  with t(2) have "\<not> list_all (\<lambda>b. b = 0) (ps_type p)" by blast
  moreover have "take 16 (part_entry p pl) = ps_type p" using t by (simp add: part_entry_def)
  moreover have "drop 56 (part_entry p pl)
      = pad_to 72 (concat (map (le_bytes 2) (take 36 (encode_utf16 (ps_name p)))))"
    using t by (simp add: part_entry_def)
  ultimately show ?thesis
    using assms by (simp add: entry_part_def decode_name wf_part_def)
qed

definition part_numbers :: "nat \<Rightarrow> part_spec list \<Rightarrow> gpt_part list" where
  "part_numbers i ps = map (\<lambda>(j, p). \<lparr>gp_number = of_nat (j + 1), gp_name = ps_name p\<rparr>) (enumerate i ps)"

lemma entry_parts_parts:
  "list_all wf_part ps \<Longrightarrow> length ps = length pls \<Longrightarrow>
     entry_parts i (map (\<lambda>(p, pl). part_entry p pl) (zip ps pls) @ replicate k (zeros 128)) = part_numbers i ps"
proof (induction ps arbitrary: pls i)
  case Nil
  have "entry_parts j (replicate k (zeros 128)) = []" for j
    by (induction k arbitrary: j) (simp_all add: entry_part_def zeros_def list_all_iff)
  with Nil show ?case by (simp add: part_numbers_def)
next
  case (Cons p ps)
  then obtain pl pls' where "pls = pl # pls'" by (cases pls) auto
  with Cons show ?case by (simp add: part_entry_read part_numbers_def)
qed

lemma place_parts_length: "place_parts cursor ps = (placed, e) \<Longrightarrow> length placed = length ps"
  by (induction ps arbitrary: cursor placed e) (auto simp: Let_def split: prod.splits)

lemma build_entries_read:
  assumes "build_entries ps placed = Some entries" and "list_all wf_part ps" and "length placed = length ps"
  shows "length entries = 16384" and "gpt_scan entries 128 128 0 = Some (part_numbers 0 ps)"
proof -
  let ?es = "map (\<lambda>(p, pl). part_entry p pl) (zip ps placed)"
  let ?all = "?es @ replicate (128 - length ps) (zeros 128)"
  from assms(1) have n: "length ps \<le> 128"
    and entries: "entries = pad_to (128 * 128) (concat ?es)"
    by (simp_all add: build_entries_def split: if_splits)
  have len: "list_all (\<lambda>e. length e = 128) ?es"
    using assms(2) by (auto simp: list_all_iff part_entry_length dest: set_zip_leftD)
  then have all: "list_all (\<lambda>e. length e = 128) ?all" "length ?all = 128"
    using n assms(3) by (auto simp: list_all_iff)
  have "length (concat ?es) = length ps * 128" using length_concat_same [OF len] assms(3) by simp
  then have "128 * 128 - length (concat ?es) = (128 - length ps) * 128" using n by (simp add: diff_mult_distrib)
  then have whole: "entries = concat ?all"
    unfolding entries pad_to_def by (simp only: zeros_chunks concat_append)
  show "length entries = 16384" using length_concat_same [OF all(1)] all(2) whole by simp
  have "gpt_scan (concat ?all) 128 (length ?all) 0 = Some (entry_parts 0 (drop 0 ?all))"
    using all by (intro gpt_scan_entries) simp_all
  then show "gpt_scan entries 128 128 0 = Some (part_numbers 0 ps)"
    unfolding whole all(2) using entry_parts_parts [OF assms(2), of placed 0] assms(3) by simp
qed

subsection \<open>The whole disk\<close>

lemma pmbr_length: "length (pmbr n) = 512"
  by (simp add: pmbr_def)

text \<open>The parts of a built table: the two headers and the array between them.\<close>

lemma gpt_buildE:
  assumes "gpt_build g parts = Some d"
  obtains placed e entries args bargs where
    "place_parts (align_up (2 + entry_array_sectors) align_sectors) parts = (placed, e)"
    "build_entries parts placed = Some entries"
    "args = \<lparr>ha_my = 1, ha_alt = e + entry_array_sectors + 1 - 1, ha_first = 2 + entry_array_sectors,
       ha_last = e - 1, ha_guid = g, ha_entries = 2, ha_crc = crc32 entries\<rparr>"
    "bargs = args\<lparr>ha_my := e + entry_array_sectors + 1 - 1, ha_alt := 1, ha_entries := e\<rparr>"
    "d = \<lparr>dk_total = (e + entry_array_sectors + 1) * sector, dk_parts = placed,
       dk_front = pmbr (e + entry_array_sectors + 1) @ gpt_header args @ entries,
       dk_back = entries @ gpt_header bargs, dk_back_offset = e * sector\<rparr>"
  using assms by (auto simp: gpt_build_def Let_def split: prod.splits option.splits)

lemma read_built_disk:
  assumes d: "gpt_build g parts = Some d" and g: "length g = 16" and parts: "list_all wf_part parts"
  shows "read_disk_gpt (dk_front d @ rest) 512 = Some (part_numbers 0 parts)"
proof -
  from d obtain placed e entries args bargs where
    pl: "place_parts (align_up (2 + entry_array_sectors) align_sectors) parts = (placed, e)"
    and en: "build_entries parts placed = Some entries"
    and args: "args = \<lparr>ha_my = 1, ha_alt = e + entry_array_sectors + 1 - 1, ha_first = 2 + entry_array_sectors,
       ha_last = e - 1, ha_guid = g, ha_entries = 2, ha_crc = crc32 entries\<rparr>"
    and dk: "d = \<lparr>dk_total = (e + entry_array_sectors + 1) * sector, dk_parts = placed,
       dk_front = pmbr (e + entry_array_sectors + 1) @ gpt_header args @ entries,
       dk_back = entries @ gpt_header bargs, dk_back_offset = e * sector\<rparr>"
    by (rule gpt_buildE)
  note scan = build_entries_read [OF en parts place_parts_length [OF pl]]
  have ag: "length (ha_guid args) = 16" "ha_entries args = 2" using g by (simp_all add: args)
  note hd = header_lengths [OF ag(1)] header_reads [OF ag(1)]
  let ?disk = "dk_front d @ rest"
  have front: "?disk = pmbr (e + entry_array_sectors + 1) @ gpt_header args @ entries @ rest"
    by (simp add: dk)
  have "read_at ?disk 512 512 = Some (gpt_header args)"
    unfolding front read_at_def
    using hd by (simp add: pmbr_length gpt_field_skip gpt_field_here)
  moreover have "read_at ?disk 1024 16384 = Some entries"
    unfolding front read_at_def
    using hd scan by (simp add: pmbr_length gpt_field_skip gpt_field_here)
  moreover have "parse_gpt (gpt_header args) entries = Some (part_numbers 0 parts)"
    using hd scan(2) by (simp add: parse_gpt_def entry_count_def entry_size_def)
  ultimately show ?thesis
    using hd ag(2) by (simp add: read_disk_gpt_def entry_count_def entry_size_def)
qed

lemma built_layout:
  assumes d: "gpt_build g parts = Some d" and small: "sectors_needed parts < 2 ^ 54"
  shows "parts_chain 2048 (dk_parts d) (2048 + sectors_needed parts)"
    and "list_all2 part_fits parts (dk_parts d)"
    and "unat (dk_back_offset d) = (2048 + sectors_needed parts) * 512"
    and "unat (dk_total d) = (2048 + sectors_needed parts + 33) * 512"
proof -
  from d obtain placed e entries args bargs where
    pl: "place_parts (align_up (2 + entry_array_sectors) align_sectors) parts = (placed, e)"
    and dk: "d = \<lparr>dk_total = (e + entry_array_sectors + 1) * sector, dk_parts = placed,
       dk_front = pmbr (e + entry_array_sectors + 1) @ gpt_header args @ entries,
       dk_back = entries @ gpt_header bargs, dk_back_offset = e * sector\<rparr>"
    by (rule gpt_buildE)
  from place_parts_layout [OF pl] small unat_first_part
  have lay: "unat e = 2048 + sectors_needed parts" "parts_chain 2048 placed (unat e)"
    "list_all2 part_fits parts placed" by auto
  have sum: "unat (e + entry_array_sectors + 1) = unat e + 33"
  proof -
    have "unat (e + entry_array_sectors) = unat e + 32"
      using lay(1) small by (subst unat_add_lem [THEN iffD1]) (simp_all add: sector_nats)
    then show ?thesis using lay(1) small by (subst unat_add_lem [THEN iffD1]) simp_all
  qed
  have mult: "unat (x * sector) = unat x * 512" if "unat x < 2 ^ 55" for x :: u64
    using that by (subst unat_mult_lem [THEN iffD1]) (simp_all add: sector_nats)
  show "parts_chain 2048 (dk_parts d) (2048 + sectors_needed parts)" "list_all2 part_fits parts (dk_parts d)"
    using lay by (simp_all add: dk)
  show "unat (dk_back_offset d) = (2048 + sectors_needed parts) * 512"
    using lay(1) small mult [of e] by (simp add: dk)
  show "unat (dk_total d) = (2048 + sectors_needed parts + 33) * 512"
    using lay(1) small sum mult [of "e + entry_array_sectors + 1"] by (simp add: dk)
qed

lemma built_headers:
  assumes d: "gpt_build g parts = Some d" and g: "length g = 16" and parts: "list_all wf_part parts"
  obtains primary backup entries where
    "length (dk_front d) = 34 * 512" "length (dk_back d) = 33 * 512"
    "gpt_field (dk_front d) 512 512 = gpt_header primary" "gpt_field (dk_back d) 16384 512 = gpt_header backup"
    "gpt_field (dk_front d) 1024 16384 = entries" "gpt_field (dk_back d) 0 16384 = entries"
    "ha_alt primary = ha_my backup" "ha_alt backup = ha_my primary"
    "ha_crc primary = crc32 entries" "ha_crc backup = crc32 entries"
proof -
  from d obtain placed e entries args bargs where
    pl: "place_parts (align_up (2 + entry_array_sectors) align_sectors) parts = (placed, e)"
    and en: "build_entries parts placed = Some entries"
    and args: "args = \<lparr>ha_my = 1, ha_alt = e + entry_array_sectors + 1 - 1, ha_first = 2 + entry_array_sectors,
       ha_last = e - 1, ha_guid = g, ha_entries = 2, ha_crc = crc32 entries\<rparr>"
    and bargs: "bargs = args\<lparr>ha_my := e + entry_array_sectors + 1 - 1, ha_alt := 1, ha_entries := e\<rparr>"
    and dk: "d = \<lparr>dk_total = (e + entry_array_sectors + 1) * sector, dk_parts = placed,
       dk_front = pmbr (e + entry_array_sectors + 1) @ gpt_header args @ entries,
       dk_back = entries @ gpt_header bargs, dk_back_offset = e * sector\<rparr>"
    by (rule gpt_buildE)
  note len = build_entries_read(1) [OF en parts place_parts_length [OF pl]]
  have hl: "length (gpt_header args) = 512" "length (gpt_header bargs) = 512"
    using header_lengths(2) [of args] header_lengths(2) [of bargs] g by (simp_all add: args bargs)
  show ?thesis
    by (rule that [of args bargs entries])
      (use len hl in \<open>simp_all add: dk pmbr_length gpt_field_skip gpt_field_here gpt_field_whole args bargs\<close>)
qed

subsection \<open>The resolver finds the partitions of a built disk\<close>

lemma find_part_numbers:
  assumes "i < length ps" and "distinct (map ps_name ps)"
  shows "find (\<lambda>p. gp_name p = ps_name (ps ! i)) (part_numbers k ps)
    = Some \<lparr>gp_number = of_nat (k + i + 1), gp_name = ps_name (ps ! i)\<rparr>"
  using assms
proof (induction ps arbitrary: i k)
  case (Cons p ps)
  show ?case
  proof (cases i)
    case 0
    then show ?thesis by (simp add: part_numbers_def)
  next
    case (Suc j)
    with Cons.prems have j: "j < length ps" by simp
    then have "ps ! j \<in> set ps" by (rule nth_mem)
    then have "ps_name p \<noteq> ps_name (ps ! j)" using Cons.prems(2) by auto
    with j Cons.IH [of j "Suc k"] Cons.prems Suc show ?thesis by (simp add: part_numbers_def)
  qed
qed simp

lemma resolve_built_disk:
  assumes d: "gpt_build g parts = Some d" and g: "length g = 16"
    and parts: "list_all wf_part parts" "distinct (map ps_name parts)" and i: "i < length parts"
    and host: "ho_block h = [(name, 512, Some (dk_front d @ rest))]" "\<not> prefix ''ram'' name" "\<not> prefix ''loop'' name"
    and links: "\<not> ho_exists h (path_join ''/dev/disk/by-label'' (ps_name (parts ! i)))"
      "\<not> ho_exists h (path_join ''/dev/disk/by-partlabel'' (ps_name (parts ! i)))"
    and node: "ho_exists h (partition_dev name (of_nat (i + 1)))"
  shows "resolve h (SpecLabel (ps_name (parts ! i))) fstype
    = Inr (source_new (partition_dev name (of_nat (i + 1))) fstype flags_none)"
proof -
  have "find_partlabel h (ps_name (parts ! i)) (whole_disks h) = Some (partition_dev name (of_nat (i + 1)))"
    using host node find_part_numbers [OF i parts(2), of 0] read_built_disk [OF d g parts(1), of rest]
    by (simp add: whole_disks_def Let_def)
  then show ?thesis
    using links by (simp add: resolve_def resolve_label_def resolve_partlabel_def)
qed

end
