(* ===== verification/InitRun.thy ===== *)
theory InitRun
  imports Modules Gpt
begin

section \<open>The run of the init program\<close>

text \<open>
  The executor of \<open>crates/init/src/linux.rs\<close> and \<open>run\<close> of \<open>crates/init/src/main.rs\<close>.  Everything the
  program asks of the kernel is a call \<open>sys\<close>; a run is an action on the trace of the calls made so
  far.  The machine is a record of functions of that trace: the outcome of a call (an error text
  or none), what the device resolver sees, and the answers of the \<open>boot\<close> crate.  Console messages
  are left out.
\<close>

subsection \<open>Calls\<close>

datatype ms_flag = MS_RDONLY | MS_NOSUID | MS_NODEV | MS_NOEXEC | MS_BIND | MS_REC | MS_MOVE

datatype sys =
    SysMkdirAll string
  | SysMount "string option" string "string option" "ms_flag set" "string option"
  | SysChdir string
  | SysChroot string
  | SysExec string "string list"
  | SysInsmod string
  | SysTool string "string list" "bytes option"
  | SysStash bytes
  | SysSetenv string string
  | SysSleep nat

record machine =
  mc_sys :: "sys list \<Rightarrow> sys \<Rightarrow> string option"
  mc_cmdline :: "string option"
  mc_modules :: "string option"
  mc_modules_dep :: "string \<Rightarrow> string + string option"
  mc_host :: "sys list \<Rightarrow> host"
  mc_polls :: nat
  mc_discover :: "sys list \<Rightarrow> string \<Rightarrow> string + string"
  mc_recover :: "sys list \<Rightarrow> string \<Rightarrow> params \<Rightarrow> init_error + bytes"

text \<open>\<open>mc_modules\<close> is the modules directory found, \<open>mc_modules_dep\<close> the text of its index (\<open>None\<close> if
  there is none, an error text if it cannot be read), and \<open>mc_polls\<close> how many times the polling
  loop sleeps before its deadline.\<close>

type_synonym 'a init_action = "(sys list, init_error, 'a) action"

definition sys_call :: "machine \<Rightarrow> sys \<Rightarrow> sys list \<Rightarrow> string option \<times> sys list" where
  "sys_call mc c tr = (mc_sys mc tr c, tr @ [c])"

definition sys_step :: "machine \<Rightarrow> string \<Rightarrow> string \<Rightarrow> sys \<Rightarrow> unit init_action" where
  "sys_step mc what path c tr =
     (case sys_call mc c tr of
        (None, tr') \<Rightarrow> (Inr (), tr')
      | (Some e, tr') \<Rightarrow> (Inl (InitStep what (to_string_lossy path) e), tr'))"

subsection \<open>The executor\<close>

definition ms_flags :: "mount_flags \<Rightarrow> ms_flag set" where
  "ms_flags f =
     (if mf_rdonly f then {MS_RDONLY} else {}) \<union> (if mf_nosuid f then {MS_NOSUID} else {})
     \<union> (if mf_nodev f then {MS_NODEV} else {}) \<union> (if mf_noexec f then {MS_NOEXEC} else {})"

definition is_pseudo :: "string \<Rightarrow> bool" where
  "is_pseudo fstype \<longleftrightarrow> fstype \<in> {''proc'', ''sysfs'', ''devtmpfs'', ''tmpfs''}"

definition ebusy :: string where "ebusy = ''EBUSY''"
definition eexist :: string where "eexist = ''EEXIST''"

definition do_mount :: "machine \<Rightarrow> source \<Rightarrow> string \<Rightarrow> unit init_action" where
  "do_mount mc s target tr =
     (case sys_call mc (SysMount (Some (so_dev s)) target (Some (so_fstype s)) (ms_flags (so_flags s)) None) tr of
        (None, tr') \<Rightarrow> (Inr (), tr')
      | (Some e, tr') \<Rightarrow>
          if e = ebusy \<and> is_pseudo (so_fstype s) then (Inr (), tr')
          else (Inl (InitStep ''mount'' (to_string_lossy target) e), tr'))"

definition do_overlay :: "machine \<Rightarrow> string \<Rightarrow> string \<Rightarrow> string \<Rightarrow> string \<Rightarrow> unit init_action" where
  "do_overlay mc lower upper work target =
     sys_step mc ''overlay'' target
       (SysMount (Some ''overlay'') target (Some ''overlay'') {}
         (Some (''lowerdir='' @ to_string_lossy lower @ '',upperdir='' @ to_string_lossy upper
                @ '',workdir='' @ to_string_lossy work)))"

definition do_bind :: "machine \<Rightarrow> string \<Rightarrow> string \<Rightarrow> unit init_action" where
  "do_bind mc from to = sys_step mc ''bind'' to (SysMount (Some from) to None {MS_BIND, MS_REC} None)"

definition move_mount :: "machine \<Rightarrow> string \<Rightarrow> string \<Rightarrow> unit init_action" where
  "move_mount mc from to = sys_step mc ''move'' to (SysMount (Some from) to None {MS_MOVE} None)"

definition cstr :: "string \<Rightarrow> string \<Rightarrow> string init_action" where
  "cstr s at tr =
     (if CHR 0x00 \<in> set s then (Inl (InitStep ''exec'' (to_string_lossy at) ''interior nul byte''), tr)
      else (Inr s, tr))"

text \<open>\<open>execv\<close> returns only on failure: its success is the end of the run.\<close>

definition switch_root :: "machine \<Rightarrow> string \<Rightarrow> string \<Rightarrow> string list \<Rightarrow> unit init_action" where
  "switch_root mc new_root init args =
     act_bind (sys_step mc ''chdir'' new_root (SysChdir new_root)) (\<lambda>_.
     act_bind (sys_step mc ''move-root'' new_root (SysMount (Some new_root) ''/'' None {MS_MOVE} None)) (\<lambda>_.
     act_bind (sys_step mc ''chroot'' new_root (SysChroot ''.'')) (\<lambda>_.
     act_bind (sys_step mc ''chdir'' ''/'' (SysChdir ''/'')) (\<lambda>_.
     act_bind (cstr init init) (\<lambda>prog.
     act_bind (act_map (\<lambda>a. cstr a init) args) (\<lambda>argv.
       sys_step mc ''exec'' init (SysExec prog (prog # argv))))))))"

definition run_step :: "machine \<Rightarrow> mount_step \<Rightarrow> unit init_action" where
  "run_step mc st =
     (case st of
        Mkdir p \<Rightarrow> sys_step mc ''mkdir'' p (SysMkdirAll p)
      | Mount s target \<Rightarrow> do_mount mc s target
      | Overlay lower upper work target \<Rightarrow> do_overlay mc lower upper work target
      | Bind from to \<Rightarrow> do_bind mc from to
      | Move from to \<Rightarrow> move_mount mc from to
      | SwitchRoot new_root init args \<Rightarrow> switch_root mc new_root init args)"

fun execute :: "machine \<Rightarrow> mount_step list \<Rightarrow> unit init_action" where
  "execute mc [] = act_ret ()"
| "execute mc (st # sts) = act_bind (run_step mc st) (\<lambda>_. execute mc sts)"

definition mount_proc :: "machine \<Rightarrow> unit init_action" where
  "mount_proc mc = do_mount mc (source_new ''proc'' ''proc'' flags_pseudo) ''/proc''"

subsection \<open>Modules, devices and tools\<close>

text \<open>Each module is loaded by path; one already there is not counted and any other failure is only
  reported.\<close>

fun insmod_all :: "machine \<Rightarrow> string \<Rightarrow> string list \<Rightarrow> nat \<Rightarrow> nat init_action" where
  "insmod_all mc dir [] loaded tr = (Inr loaded, tr)"
| "insmod_all mc dir (rel # rels) loaded tr =
     (case sys_call mc (SysInsmod (path_join dir rel)) tr of
        (None, tr') \<Rightarrow> insmod_all mc dir rels (loaded + 1) tr'
      | (Some e, tr') \<Rightarrow> insmod_all mc dir rels loaded tr')"

definition load_modules :: "machine \<Rightarrow> string \<Rightarrow> nat init_action" where
  "load_modules mc dir =
     (case mc_modules_dep mc dir of
        Inl e \<Rightarrow> act_fail (InitStep ''modules.dep'' (to_string_lossy (path_join dir ''modules.dep'')) e)
      | Inr None \<Rightarrow> act_ret 0
      | Inr (Some text) \<Rightarrow>
          (case module_load_order (parse_modules_dep text) of
             Some order \<Rightarrow> insmod_all mc dir order 0
           | None \<Rightarrow> act_ret 0))"

definition resolve_now :: "machine \<Rightarrow> spec \<Rightarrow> string \<Rightarrow> source init_action" where
  "resolve_now mc s fstype = act_read (\<lambda>tr. resolve (mc_host mc tr) s fstype)"

text \<open>The polling loop: a failed attempt sleeps and tries again until the deadline.\<close>

fun poll_resolve :: "machine \<Rightarrow> nat \<Rightarrow> spec \<Rightarrow> string \<Rightarrow> source init_action" where
  "poll_resolve mc n s fstype tr =
     (case resolve (mc_host mc tr) s fstype of
        Inr src \<Rightarrow> (Inr src, tr)
      | Inl e \<Rightarrow>
          (case n of
             0 \<Rightarrow> (Inl e, tr)
           | Suc k \<Rightarrow> poll_resolve mc k s fstype (snd (sys_call mc (SysSleep 50) tr))))"

definition verity_open :: "machine \<Rightarrow> string \<Rightarrow> string \<Rightarrow> string \<Rightarrow> string \<Rightarrow> string init_action" where
  "verity_open mc data_dev hash_dev mapper root_hash =
     act_bind (sys_step mc ''verityOpen'' data_dev
         (SysTool ''veritysetup'' (verity_open_args data_dev hash_dev mapper root_hash) None))
       (\<lambda>_. act_ret (mapper_path mapper))"

definition luks_open :: "machine \<Rightarrow> string \<Rightarrow> string \<Rightarrow> bytes \<Rightarrow> string init_action" where
  "luks_open mc container mapper master =
     act_bind (sys_step mc ''luksOpen'' container
         (SysTool ''cryptsetup'' (luks_open_args container mapper) (Some master)))
       (\<lambda>_. act_ret (mapper_path mapper))"

definition luks_close :: "machine \<Rightarrow> string \<Rightarrow> unit init_action" where
  "luks_close mc mapper =
     sys_step mc ''luksClose'' mapper (SysTool ''cryptsetup'' (luks_close_args mapper) None)"

definition verity_close :: "machine \<Rightarrow> string \<Rightarrow> unit init_action" where
  "verity_close mc mapper =
     sys_step mc ''verityClose'' mapper (SysTool ''veritysetup'' (verity_close_args mapper) None)"

definition stash_master :: "machine \<Rightarrow> bytes \<Rightarrow> unit init_action" where
  "stash_master mc master = sys_step mc ''stash master'' ''HORIZON_MASTER_FD'' (SysStash master)"

text \<open>An effect whose error is only reported.\<close>

definition act_try :: "('s, 'e, 'a) action \<Rightarrow> ('s, 'f, unit) action" where
  "act_try m s = (Inr (), snd (m s))"

definition act_ok :: "('s, 'e, 'a) action \<Rightarrow> ('s, 'f, 'a option) action" where
  "act_ok m s = (case m s of (Inr x, t) \<Rightarrow> (Inr (Some x), t) | (Inl e, t) \<Rightarrow> (Inr None, t))"

subsection \<open>The run\<close>

definition base_source :: "machine \<Rightarrow> params \<Rightarrow> source init_action" where
  "base_source mc p =
     act_bind (poll_resolve mc (mc_polls mc) (pa_base p) (pa_basefs p)) (\<lambda>s.
       let base = source_read_only s in
       case pa_verity p of
         None \<Rightarrow> act_ret base
       | Some root_hash \<Rightarrow>
           act_bind (resolve_now mc (pa_verity_dev p) []) (\<lambda>hash.
           act_bind (verity_open mc (so_dev base) (so_dev hash) base_mapper root_hash) (\<lambda>verified.
             act_ret (source_read_only (source_new verified (pa_basefs p) flags_none)))))"

definition data_steps :: "bool \<Rightarrow> source \<Rightarrow> mount_step list" where
  "data_steps want_home part =
     (let data = la_data (layout_new scratch_dir) in
      [Mkdir data, Mount (if want_home then part else source_read_only part) data])"

text \<open>The persistent layer: recover the master, open the container, hand the master on.\<close>

definition open_home :: "machine \<Rightarrow> params \<Rightarrow> string \<Rightarrow> source option \<Rightarrow> boot_mode init_action" where
  "open_home mc p store home_dev =
     act_bind (act_read (\<lambda>tr. mc_recover mc tr store p)) (\<lambda>master.
       case home_dev of
         None \<Rightarrow> act_fail (InitBoot ''home_wanted implies a Home device'')
       | Some dev \<Rightarrow>
           act_bind (luks_open mc (so_dev dev) home_mapper master) (\<lambda>mapper.
           act_bind (act_try (stash_master mc master)) (\<lambda>_.
             act_ret (Home (source_new mapper (pa_homefs p) flags_none)))))"

text \<open>What the store partition adds: the carried path, the arguments of the session and the mode.\<close>

definition open_store ::
  "machine \<Rightarrow> params \<Rightarrow> bool \<Rightarrow> source option \<Rightarrow> source \<Rightarrow> (carry list \<times> string list \<times> boot_mode) init_action" where
  "open_store mc p want_home home_dev part =
     act_bind (execute mc (data_steps want_home part)) (\<lambda>_.
     act_bind (act_ok (act_read (\<lambda>tr. mc_discover mc tr (la_data (layout_new scratch_dir))))) (\<lambda>found.
       case found of
         None \<Rightarrow> act_ret ([], pa_init_args p, Ghost)
       | Some store \<Rightarrow>
           (let ca = [\<lparr>ca_from = store, ca_to = store_mount\<rparr>];
                args = [''boot'', ''--root'', store_mount]
            in if want_home
               then act_bind (open_home mc p store home_dev) (\<lambda>mode. act_ret (ca, args, mode))
               else act_ret (ca, args, Ghost))))"

text \<open>The run from the resolved devices on.\<close>

definition assemble_root :: "machine \<Rightarrow> params \<Rightarrow> source \<Rightarrow> source option \<Rightarrow> source option \<Rightarrow> unit init_action" where
  "assemble_root mc p base store_part home_dev =
     (let want_home = home_wanted (pa_mode p) (store_part \<noteq> None) (home_dev \<noteq> None) in
      act_bind (case store_part of
                  None \<Rightarrow> act_ret ([], pa_init_args p, Ghost)
                | Some part \<Rightarrow> open_store mc p want_home home_dev part)
        (\<lambda>(ca, args, mode).
          execute mc (plan \<lparr>re_scratch = scratch_dir, re_base = base, re_mode = mode, re_carry = ca,
                            re_init = pa_init p, re_init_args = args\<rparr>)))"

definition run_params :: "machine \<Rightarrow> params" where
  "run_params mc = parse_cmdline (case mc_cmdline mc of Some c \<Rightarrow> c | None \<Rightarrow> [])"

definition init_run :: "machine \<Rightarrow> unit init_action" where
  "init_run mc =
     act_bind (act_try (sys_step mc ''setenv'' [] (SysSetenv ''PATH'' ''/usr/sbin:/usr/bin:/sbin:/bin''))) (\<lambda>_.
     act_bind (act_try (sys_step mc ''setenv'' [] (SysSetenv ''LIBSEAT_BACKEND'' ''builtin''))) (\<lambda>_.
     act_bind (mount_proc mc) (\<lambda>_.
     act_bind (execute mc early_mounts) (\<lambda>_.
     act_bind (case mc_modules mc of Some dir \<Rightarrow> act_try (load_modules mc dir) | None \<Rightarrow> act_ret ()) (\<lambda>_.
     act_bind (base_source mc (run_params mc)) (\<lambda>base.
     act_bind (act_ok (resolve_now mc (pa_data (run_params mc)) (pa_datafs (run_params mc)))) (\<lambda>store_part.
     act_bind (act_ok (resolve_now mc (pa_home (run_params mc)) (pa_homefs (run_params mc)))) (\<lambda>home_dev.
       assemble_root mc (run_params mc) base store_part home_dev))))))))"

subsection \<open>What a run writes\<close>

text \<open>A call leaves no trace when it is no mount of a block device that may be written and does not
  handle the master.\<close>

definition in_memory_fs :: "string \<Rightarrow> bool" where
  "in_memory_fs fstype \<longleftrightarrow> fstype \<in> {''tmpfs'', ''devtmpfs'', ''proc'', ''sysfs'', ''overlay''}"

definition sys_traceless :: "sys \<Rightarrow> bool" where
  "sys_traceless c \<longleftrightarrow>
     (case c of
        SysMount src target fstype fl data \<Rightarrow>
          MS_RDONLY \<in> fl \<or> (case fstype of Some t \<Rightarrow> in_memory_fs t | None \<Rightarrow> True)
      | SysTool prog args input \<Rightarrow> input = None
      | SysStash m \<Rightarrow> False
      | _ \<Rightarrow> True)"

text \<open>An action adds only calls that satisfy \<open>P\<close>, with the rules for the ways actions are built.\<close>

lemma emits_try [emits_intros]: "emits P m \<Longrightarrow> emits P (act_try m)"
  by (simp add: emits_def act_try_def)

lemma emits_ok [emits_intros]: "emits P m \<Longrightarrow> emits P (act_ok m)"
  unfolding emits_def act_ok_def by (auto split: prod.splits sum.splits) (metis snd_conv)+

lemma emits_call: "P c \<Longrightarrow> emits P (sys_step mc what path c)"
  by (rule emitsI) (auto simp: sys_step_def sys_call_def split: prod.splits option.splits)

lemma emits_mount:
  "P (SysMount (Some (so_dev s)) t (Some (so_fstype s)) (ms_flags (so_flags s)) None) \<Longrightarrow> emits P (do_mount mc s t)"
  by (rule emitsI) (auto simp: do_mount_def sys_call_def split: prod.splits option.splits)

lemma emits_cstr [emits_intros]: "emits P (cstr s at)"
  by (simp add: emits_def cstr_def)

lemma emits_insmod: "(\<And>m. P (SysInsmod m)) \<Longrightarrow> emits P (insmod_all mc dir rels n)"
proof (induction rels arbitrary: n)
  case (Cons rel rels)
  show ?case
  proof (rule emitsI)
    fix tr
    let ?c = "SysInsmod (path_join dir rel)"
    obtain n' where "insmod_all mc dir (rel # rels) n tr = insmod_all mc dir rels n' (tr @ [?c])"
      by (cases "mc_sys mc tr ?c") (simp_all add: sys_call_def)
    moreover from Cons.IH [OF Cons.prems, of n'] obtain cs
      where "snd (insmod_all mc dir rels n' (tr @ [?c])) = (tr @ [?c]) @ cs" "list_all P cs"
      unfolding emits_def by blast
    ultimately show "\<exists>cs. snd (insmod_all mc dir (rel # rels) n tr) = tr @ cs \<and> list_all P cs"
      using Cons.prems by (intro exI [of _ "?c # cs"]) simp
  qed
qed (simp add: emits_def)

lemma emits_poll: "P (SysSleep 50) \<Longrightarrow> emits P (poll_resolve mc n s fstype)"
proof (induction n)
  case 0
  show ?case by (rule emitsI) (auto split: sum.splits)
next
  case (Suc n)
  show ?case
  proof (rule emitsI)
    fix tr
    from Suc obtain cs where "snd (poll_resolve mc n s fstype (tr @ [SysSleep 50])) = (tr @ [SysSleep 50]) @ cs" "list_all P cs"
      unfolding emits_def by blast
    with Suc.prems show "\<exists>cs. snd (poll_resolve mc (Suc n) s fstype tr) = tr @ cs \<and> list_all P cs"
      by (auto simp: sys_call_def split: sum.splits intro: exI [of _ "SysSleep 50 # cs"])
  qed
qed

text \<open>The executor makes traceless calls for traceless steps.\<close>

lemma sys_traceless_simps [simp]:
  "sys_traceless (SysMkdirAll p)" "sys_traceless (SysChdir p)" "sys_traceless (SysChroot p)"
  "sys_traceless (SysExec p a)" "sys_traceless (SysInsmod p)" "sys_traceless (SysSetenv k v)"
  "sys_traceless (SysSleep n)" "sys_traceless (SysTool p a None)"
  "sys_traceless (SysMount s t None fl d)" "sys_traceless (SysMount s t (Some ''overlay'') fl d)"
  by (simp_all add: sys_traceless_def in_memory_fs_def)

lemma emits_step: "traceless st \<Longrightarrow> emits sys_traceless (run_step mc st)"
proof (cases st)
  case (Mount s t)
  moreover assume "traceless st"
  ultimately have "sys_traceless (SysMount (Some (so_dev s)) t (Some (so_fstype s)) (ms_flags (so_flags s)) None)"
    by (auto simp: traceless_def sys_traceless_def ms_flags_def in_memory_def in_memory_fs_def)
  with Mount show ?thesis by (simp add: run_step_def emits_mount)
qed (simp_all add: run_step_def do_overlay_def do_bind_def move_mount_def switch_root_def emits_call emits_intros)

lemma emits_execute: "list_all traceless sts \<Longrightarrow> emits sys_traceless (execute mc sts)"
  by (induction sts) (simp_all add: emits_intros emits_step)

definition stateless :: "machine \<Rightarrow> params \<Rightarrow> bool" where
  "stateless mc p \<longleftrightarrow>
     pa_mode p = ChooseGhost
     \<or> (\<forall>tr. \<not> is_ok (resolve (mc_host mc tr) (pa_data p) (pa_datafs p)))
     \<or> (\<forall>tr. \<not> is_ok (resolve (mc_host mc tr) (pa_home p) (pa_homefs p)))"

lemma act_ok_read: "act_ok (act_read g) tr = (Inr x, t) \<Longrightarrow> x \<noteq> None \<Longrightarrow> is_ok (g tr)"
  by (auto simp: act_ok_def split: sum.splits)

lemma emits_open_store: "emits sys_traceless (open_store mc p False home part)"
proof -
  have steps: "emits sys_traceless (execute mc (data_steps False part))"
    by (rule emits_execute) (simp add: data_steps_def Let_def)
  show ?thesis
    unfolding open_store_def
    by (intro emits_seq steps emits_ok emits_read) (auto simp: Let_def emits_intros split: option.split)
qed

lemma emits_load_modules: "emits sys_traceless (load_modules mc dir)"
  by (auto simp: load_modules_def emits_intros emits_insmod split: sum.split option.split)

lemma emits_base_source: "emits sys_traceless (base_source mc p)"
  by (auto simp: base_source_def verity_open_def resolve_now_def Let_def emits_intros emits_poll emits_call
      intro!: emits_seq split: option.split)

lemma open_store_ghost:
  "open_store mc p False home part tr = (Inr (ca, args, mode), t) \<Longrightarrow> mode = Ghost"
  by (auto simp: open_store_def Let_def act_bind_Inr_iff act_ret_def split: option.splits)

lemma emits_assemble_root:
  assumes "\<not> home_wanted (pa_mode p) (store_part \<noteq> None) (home_dev \<noteq> None)"
  shows "emits sys_traceless (assemble_root mc p base store_part home_dev)"
  unfolding assemble_root_def Let_def
proof (rule emits_bind)
  let ?w = "home_wanted (pa_mode p) (store_part \<noteq> None) (home_dev \<noteq> None)"
  let ?m = "case store_part of None \<Rightarrow> act_ret ([], pa_init_args p, Ghost)
    | Some part \<Rightarrow> open_store mc p ?w home_dev part"
  have w: "?w = False" using assms by simp
  show "emits sys_traceless ?m"
    unfolding w by (auto simp: emits_intros emits_open_store split: option.split)
  fix x tr t
  assume x: "?m tr = (Inr x, t)"
  obtain ca args mode where split: "x = (ca, args, mode)" by (cases x)
  have "mode = Ghost"
    using x unfolding w by (auto simp: split dest!: open_store_ghost split: option.splits)
  then show "emits sys_traceless (case x of (ca, args, mode) \<Rightarrow> execute mc (plan
      \<lparr>re_scratch = scratch_dir, re_base = base, re_mode = mode, re_carry = ca, re_init = pa_init p, re_init_args = args\<rparr>))"
    by (simp add: split emits_execute plan_ghost_traceless)
qed

lemma init_run_stateless:
  assumes st: "stateless mc (run_params mc)"
  shows "emits sys_traceless (init_run mc)"
proof -
  let ?p = "run_params mc"
  let ?data = "\<lambda>tr. resolve (mc_host mc tr) (pa_data ?p) (pa_datafs ?p)"
  let ?home = "\<lambda>tr. resolve (mc_host mc tr) (pa_home ?p) (pa_homefs ?p)"
  have env: "emits sys_traceless (act_try (sys_step mc w [] (SysSetenv k v)) :: unit init_action)" for w k v
    by (intro emits_try emits_call) simp
  have proc: "emits sys_traceless (mount_proc mc)"
    unfolding mount_proc_def
    by (rule emits_mount) (simp add: sys_traceless_def in_memory_fs_def source_new_def)
  have mods: "emits sys_traceless (case mc_modules mc of Some dir \<Rightarrow> act_try (load_modules mc dir) | None \<Rightarrow> act_ret ())"
    by (auto simp: emits_intros emits_load_modules split: option.split)
  have tail: "emits sys_traceless (act_bind (act_ok (act_read ?data))
      (\<lambda>store_part. act_bind (act_ok (act_read ?home)) (assemble_root mc ?p base store_part)))" for base
  proof (rule emits_bind [OF emits_ok [OF emits_read]], rule emits_bind [OF emits_ok [OF emits_read]])
    fix store_part home_dev tr t tr' t'
    assume "act_ok (act_read ?data) tr = (Inr store_part, t)" "act_ok (act_read ?home) tr' = (Inr home_dev, t')"
    then have "\<not> home_wanted (pa_mode ?p) (store_part \<noteq> None) (home_dev \<noteq> None)"
      using st act_ok_read unfolding stateless_def home_wanted_def by metis
    then show "emits sys_traceless (assemble_root mc ?p base store_part home_dev)"
      by (rule emits_assemble_root)
  qed
  show ?thesis
    unfolding init_run_def resolve_now_def
    by (intro emits_seq env proc emits_execute [OF traceless_early] mods emits_base_source tail)
qed

subsection \<open>On a machine that obliges\<close>

text \<open>The calls a step makes when each succeeds, and the run of a plan then.\<close>

definition step_calls :: "mount_step \<Rightarrow> sys list" where
  "step_calls st =
     (case st of
        Mkdir p \<Rightarrow> [SysMkdirAll p]
      | Mount s t \<Rightarrow> [SysMount (Some (so_dev s)) t (Some (so_fstype s)) (ms_flags (so_flags s)) None]
      | Overlay l u w t \<Rightarrow>
          [SysMount (Some ''overlay'') t (Some ''overlay'') {}
             (Some (''lowerdir='' @ to_string_lossy l @ '',upperdir='' @ to_string_lossy u
                    @ '',workdir='' @ to_string_lossy w))]
      | Bind f t \<Rightarrow> [SysMount (Some f) t None {MS_BIND, MS_REC} None]
      | Move f t \<Rightarrow> [SysMount (Some f) t None {MS_MOVE} None]
      | SwitchRoot r i args \<Rightarrow>
          [SysChdir r, SysMount (Some r) ''/'' None {MS_MOVE} None, SysChroot ''.'', SysChdir ''/'',
           SysExec i (i # args)])"

definition nul_free :: "mount_step \<Rightarrow> bool" where
  "nul_free st \<longleftrightarrow>
     (case st of SwitchRoot r i args \<Rightarrow> list_all (\<lambda>s. CHR 0x00 \<notin> set s) (i # args) | _ \<Rightarrow> True)"

definition obliging :: "machine \<Rightarrow> bool" where
  "obliging mc \<longleftrightarrow> (\<forall>tr c. mc_sys mc tr c = None)"

lemma obliging_step: "obliging mc \<Longrightarrow> sys_step mc w p c tr = (Inr (), tr @ [c])"
  by (simp add: obliging_def sys_step_def sys_call_def)

lemma obliging_mount:
  "obliging mc \<Longrightarrow> do_mount mc s t tr
     = (Inr (), tr @ [SysMount (Some (so_dev s)) t (Some (so_fstype s)) (ms_flags (so_flags s)) None])"
  by (simp add: obliging_def do_mount_def sys_call_def)

lemma cstr_map: "list_all (\<lambda>s. CHR 0x00 \<notin> set s) args \<Longrightarrow> act_map (\<lambda>a. cstr a i) args tr = (Inr args, tr)"
  by (induction args) (auto simp: cstr_def)

lemma obliging_run_step: "obliging mc \<Longrightarrow> nul_free st \<Longrightarrow> run_step mc st tr = (Inr (), tr @ step_calls st)"
  by (cases st) (simp_all add: run_step_def step_calls_def nul_free_def do_overlay_def do_bind_def
      move_mount_def switch_root_def obliging_step obliging_mount cstr_def cstr_map)

lemma obliging_execute:
  "obliging mc \<Longrightarrow> list_all nul_free sts \<Longrightarrow> execute mc sts tr = (Inr (), tr @ concat (map step_calls sts))"
  by (induction sts arbitrary: tr) (simp_all add: obliging_run_step)

lemma nul_free_simps [simp]:
  "nul_free (Mkdir p)" "nul_free (Mount s t)" "nul_free (Overlay l u w t)" "nul_free (Bind f t)" "nul_free (Move f t)"
  by (simp_all add: nul_free_def)

lemma nul_free_plan:
  "list_all nul_free (plan r) \<longleftrightarrow> list_all (\<lambda>s. CHR 0x00 \<notin> set s) (re_init r # re_init_args r)"
proof -
  have "list_all nul_free (carry_steps root cs)" "list_all nul_free (move_steps root)" for root cs
    by (induction cs) (simp_all add: carry_steps_def move_steps_def Let_def)
  then show ?thesis by (simp add: plan_def Let_def early_mounts_def) (simp add: nul_free_def)
qed

text \<open>Persistent boot asked for, but no store on the data partition: the run goes on to a stateless
  root, and the partition stays mounted as it was for the persistent boot.\<close>

lemma assemble_without_store:
  assumes "obliging mc" and "home_wanted (pa_mode p) True (home_dev \<noteq> None)"
    and "\<And>tr. mc_discover mc tr (la_data (layout_new scratch_dir)) = Inl e"
    and "list_all (\<lambda>s. CHR 0x00 \<notin> set s) (pa_init p # pa_init_args p)"
  shows "assemble_root mc p base (Some part) home_dev tr =
    (Inr (), tr @ concat (map step_calls (data_steps True part @ plan
       \<lparr>re_scratch = scratch_dir, re_base = base, re_mode = Ghost, re_carry = [], re_init = pa_init p,
        re_init_args = pa_init_args p\<rparr>)))"
proof -
  have d: "list_all nul_free (data_steps True part)" by (simp add: data_steps_def Let_def)
  have "open_store mc p True home_dev part tr
      = (Inr ([], pa_init_args p, Ghost), tr @ concat (map step_calls (data_steps True part)))"
    using assms(3) by (simp add: open_store_def obliging_execute [OF assms(1) d] act_ok_def act_bind_def)
  then show ?thesis
    using assms(2,4) by (simp add: assemble_root_def Let_def act_bind_def obliging_execute [OF assms(1)] nul_free_plan)
qed

end
