(* ===== verification/BootSamples.thy ===== *)
theory BootSamples
  imports InitRun
begin

section \<open>Concrete boots\<close>

text \<open>
  The machine, the command line, the dependency map and the disk the concrete instances of the
  boot properties run on.
\<close>

definition demo_ghost :: params where
  "demo_ghost = params_default\<lparr>pa_mode := ChooseGhost\<rparr>"

lemma demo_ghost_wf: "wf_params demo_ghost"
  by (simp add: wf_params_def demo_ghost_def params_default_def wf_spec_def spec_show_def spec_parse_def
      base_label_def data_label_def home_label_def verity_label_def default_init_def plain_char_code)

lemma demo_ghost_cmdline: "parse_cmdline (join_ws (params_tokens demo_ghost)) = demo_ghost"
  by (rule parse_show_cmdline [OF demo_ghost_wf])

text \<open>A machine on which every device resolves and every call succeeds.\<close>

definition demo_all_host :: host where
  "demo_all_host = \<lparr>ho_exists = (\<lambda>p. True), ho_block = []\<rparr>"

definition demo_machine :: "string \<Rightarrow> string + string \<Rightarrow> init_error + bytes \<Rightarrow> machine" where
  "demo_machine cmdline found master =
     \<lparr>mc_sys = (\<lambda>tr c. None), mc_cmdline = Some cmdline, mc_modules = None,
      mc_modules_dep = (\<lambda>dir. Inr None), mc_host = (\<lambda>tr. demo_all_host), mc_polls = 0,
      mc_discover = (\<lambda>tr dir. found), mc_recover = (\<lambda>tr store p. master)\<rparr>"

lemma demo_obliging: "obliging (demo_machine c f m)"
  by (simp add: obliging_def demo_machine_def)

lemma demo_ghost_stateless:
  "stateless (demo_machine (join_ws (params_tokens demo_ghost)) f m)
     (run_params (demo_machine (join_ws (params_tokens demo_ghost)) f m))"
proof -
  have "run_params (demo_machine (join_ws (params_tokens demo_ghost)) f m)
      = parse_cmdline (join_ws (params_tokens demo_ghost))"
    by (simp add: run_params_def demo_machine_def)
  also have "\<dots> = demo_ghost" by (rule demo_ghost_cmdline)
  finally show ?thesis by (simp add: stateless_def demo_ghost_def)
qed

definition demo_deps :: dep_map where
  "demo_deps = [(''kernel/fs/ext4.ko'', [''kernel/lib/crc16.ko'']), (''kernel/lib/crc16.ko'', [])]"

lemma demo_deps_acyclic: "acyclic (dep_edges demo_deps)"
proof -
  have pc: "path_components ''kernel/fs/ext4.ko'' \<noteq> path_components ''kernel/lib/crc16.ko''"
    by (simp add: path_components_def seg_comp_def path_is_absolute_def)
  have "dep_edges demo_deps \<subseteq> {(path_components ''kernel/fs/ext4.ko'', path_components ''kernel/lib/crc16.ko'')}"
    by (auto simp: dep_edges_def needs_of_def demo_deps_def dep_get_def path_eq_def split: if_splits)
  moreover have "acyclic {(path_components ''kernel/fs/ext4.ko'', path_components ''kernel/lib/crc16.ko'')}"
    using pc by (simp only: acyclic_insert) (simp add: acyclic_def)
  ultimately show ?thesis by (rule acyclic_subset [rotated])
qed

definition demo_parts :: "part_spec list" where
  "demo_parts =
     [\<lparr>ps_type = replicate 16 1, ps_unique = replicate 16 2, ps_name = base_label, ps_size = 1000\<rparr>,
      \<lparr>ps_type = replicate 16 1, ps_unique = replicate 16 3, ps_name = data_label, ps_size = 1048576\<rparr>]"

lemma demo_disk:
  obtains d where "gpt_build (zeros 16) demo_parts = Some d"
  by (simp add: gpt_build_def Let_def build_entries_def demo_parts_def split: prod.splits)

lemma demo_parts_need: "sectors_needed demo_parts = 4096"
  by (simp add: sectors_needed_def demo_parts_def nat_sectors_def nat_ceil_def)

definition demo_host :: "disk \<Rightarrow> host" where
  "demo_host d = \<lparr>ho_exists = (\<lambda>p. p = ''/dev/sda2''), ho_block = [(''sda'', 512, Some (dk_front d))]\<rparr>"

lemma digit_2: "digit_char 2 = CHR ''2''"
  by code_simp

lemma demo_host_facts:
  "length (zeros 16) = 16" "list_all wf_part demo_parts" "distinct (map ps_name demo_parts)"
  "length demo_parts = 2" "ps_name (demo_parts ! 1) = data_label" "ps_name (demo_parts ! Suc 0) = data_label"
  "ho_block (demo_host d) = [(''sda'', 512, Some (dk_front d))]"
  "\<not> ho_exists (demo_host d) (path_join ''/dev/disk/by-label'' data_label)"
  "\<not> ho_exists (demo_host d) (path_join ''/dev/disk/by-partlabel'' data_label)"
  "partition_dev ''sda'' 2 = ''/dev/sda2''"
  "ho_exists (demo_host d) ''/dev/sda2''"
  by (simp_all add: demo_parts_def wf_part_def zeros_def part_name_ok_def ascii_str_def base_label_def
      data_label_def demo_host_def path_join_def path_is_absolute_def partition_dev_def ascii_digit_def show_nat.simps digit_2)

end
