(* ===== verification/BootView.thy ===== *)
theory BootView
  imports BootPlan
begin

section \<open>What a boot plan finds and leaves\<close>

text \<open>
  A specification of the kernel the plan of \<open>BootPlan\<close> runs on: the directories a path walk finds
  and the mounts it crosses.  The list of mounts has the newest first, so the mount a path lies on
  is the first whose target it starts with.  A mount hides everything that was below its target,
  directories and earlier mounts alike; what the mounted file system holds below its root is not
  known to the view, so only its root and what later steps make there count as present.  Paths are
  compared by their components.
\<close>

record fs_view =
  fv_dirs :: "string set"
  fv_mounts :: "(string \<times> source) list"

definition fs_mount :: "fs_view \<Rightarrow> string \<Rightarrow> (string \<times> source) option" where
  "fs_mount v p = find (\<lambda>(t, s). path_starts_with p t) (fv_mounts v)"

definition cover :: "string \<Rightarrow> source \<Rightarrow> fs_view \<Rightarrow> fs_view" where
  "cover t s v = \<lparr>fv_dirs = insert t {p \<in> fv_dirs v. \<not> path_starts_with p t}, fv_mounts = (t, s) # fv_mounts v\<rparr>"

text \<open>The file system a plan starts on, and the one an overlay mount makes.\<close>

definition initramfs :: source where
  "initramfs = source_new ''rootfs'' ''rootfs'' flags_none"

definition overlay_fs :: source where
  "overlay_fs = source_new ''overlay'' ''overlay'' flags_none"

definition fs_source :: "fs_view \<Rightarrow> string \<Rightarrow> source" where
  "fs_source v p = (case fs_mount v p of Some (t, s) \<Rightarrow> s | None \<Rightarrow> initramfs)"

text \<open>Directories can be made on a file system that is neither read-only nor one of the kernel's own
  trees.\<close>

definition makes_dirs :: "source \<Rightarrow> bool" where
  "makes_dirs s \<longleftrightarrow> \<not> mf_rdonly (so_flags s) \<and> so_fstype s \<notin> {''proc'', ''sysfs''}"

text \<open>When a step succeeds.  An overlay wants its lower directory on a read-only mount and its upper
  and work directories, neither inside the other, on one file system that can be written; a move
  wants the root of a mount and a target outside it; the handoff wants the root of a mount.\<close>

definition step_ready :: "fs_view \<Rightarrow> mount_step \<Rightarrow> bool" where
  "step_ready v st \<longleftrightarrow>
     (case st of
        Mkdir p \<Rightarrow> p \<in> fv_dirs v \<or> makes_dirs (fs_source v p)
      | Mount s t \<Rightarrow> t \<in> fv_dirs v
      | Overlay l u w t \<Rightarrow>
          {l, u, w, t} \<subseteq> fv_dirs v
          \<and> mf_rdonly (so_flags (fs_source v l))
          \<and> fs_mount v u = fs_mount v w \<and> makes_dirs (fs_source v u)
          \<and> \<not> path_starts_with u w \<and> \<not> path_starts_with w u
      | Bind f t \<Rightarrow> f \<in> fv_dirs v \<and> t \<in> fv_dirs v
      | Move f t \<Rightarrow>
          (case fs_mount v f of Some (m, s) \<Rightarrow> m = f | None \<Rightarrow> False)
          \<and> t \<in> fv_dirs v \<and> \<not> path_starts_with t f
      | SwitchRoot r i a \<Rightarrow> (case fs_mount v r of Some (m, s) \<Rightarrow> m = r | None \<Rightarrow> False))"

text \<open>What a step leaves.  A mount of what is mounted there already is the \<open>EBUSY\<close> the executor
  passes over.\<close>

definition step_view :: "mount_step \<Rightarrow> fs_view \<Rightarrow> fs_view" where
  "step_view st v =
     (case st of
        Mkdir p \<Rightarrow> v\<lparr>fv_dirs := insert p (fv_dirs v)\<rparr>
      | Mount s t \<Rightarrow> (if fs_mount v t = Some (t, s) then v else cover t s v)
      | Overlay l u w t \<Rightarrow> cover t overlay_fs v
      | Bind f t \<Rightarrow> cover t (fs_source v f) v
      | Move f t \<Rightarrow>
          cover t (fs_source v f) \<lparr>fv_dirs = {p \<in> fv_dirs v. \<not> path_starts_with p f},
            fv_mounts = filter (\<lambda>(m, s). \<not> path_starts_with m f) (fv_mounts v)\<rparr>
      | SwitchRoot r i a \<Rightarrow> v)"

fun plan_ready :: "fs_view \<Rightarrow> mount_step list \<Rightarrow> bool" where
  "plan_ready v [] \<longleftrightarrow> True"
| "plan_ready v (st # sts) \<longleftrightarrow>
     step_ready v st \<and> plan_ready (step_view st v) sts
     \<and> (case st of SwitchRoot _ _ _ \<Rightarrow> sts = [] | _ \<Rightarrow> True)"

definition view_after :: "mount_step list \<Rightarrow> fs_view \<Rightarrow> fs_view" where
  "view_after sts v = fold step_view sts v"

subsection \<open>Paths under the scratch directory\<close>

definition apart :: "string \<Rightarrow> string \<Rightarrow> bool" where
  "apart a b \<longleftrightarrow> \<not> path_starts_with a b \<and> \<not> path_starts_with b a"

lemma view_segs:
  "plain_seg ''over''" "plain_seg ''lower''" "plain_seg ''data''" "plain_seg ''upper''" "plain_seg ''work''"
  "plain_seg ''root''" "plain_seg ''dev''" "plain_seg ''proc''" "plain_seg ''sys''"
  by (simp_all add: plain_seg_def)

lemma kernel_comps [simp]:
  "path_components ''/dev'' = [RootDir, Normal ''dev'']"
  "path_components ''/proc'' = [RootDir, Normal ''proc'']"
  "path_components ''/sys'' = [RootDir, Normal ''sys'']"
  by (simp_all add: path_components_def seg_comp_def)

lemma join_segs_absolute:
  "list_all (\<lambda>s. CHR ''/'' \<notin> set s) ss \<Longrightarrow> ss = [] \<or> hd ss \<noteq> [] \<Longrightarrow> \<not> path_is_absolute (join_segs ss)"
proof (induction ss rule: join_segs.induct)
  case (3 s v va)
  then show ?case by (cases s) (auto simp: path_is_absolute_def)
qed (auto simp: path_is_absolute_def split: list.splits)

lemma strip_root_relative: "strip_root p = Some r \<Longrightarrow> \<not> path_is_absolute r"
proof -
  assume "strip_root p = Some r"
  then have r: "r = join_segs (rev (dropWhile idle_seg (rev (dropWhile idle_seg (split_on CHR ''/'' p)))))"
    by (simp add: strip_root_def split: if_splits)
  let ?a = "dropWhile idle_seg (split_on CHR ''/'' p)"
  let ?b = "rev (dropWhile idle_seg (rev ?a))"
  have sep: "CHR ''/'' \<notin> set s" if "s \<in> set (split_on CHR ''/'' p)" for s
    using that by (induction p arbitrary: s) (auto split: list.splits if_splits)
  obtain zs where zs: "?a = ?b @ zs"
    by (metis rev_rev_ident rev_append takeWhile_dropWhile_id)
  have "hd ?b \<noteq> []" if "?b \<noteq> []"
  proof -
    have "?a \<noteq> []" using that zs by (metis append_is_Nil_conv)
    moreover have "hd ?b = hd ?a" using that zs by (metis hd_append2)
    moreover have "\<not> idle_seg (hd ?a)" using \<open>?a \<noteq> []\<close> by (rule hd_dropWhile)
    ultimately show ?thesis by (metis idle_seg_def)
  qed
  moreover have "list_all (\<lambda>s. CHR ''/'' \<notin> set s) ?b"
    using sep by (auto simp: list_all_iff dest!: set_dropWhileD)
  ultimately show ?thesis unfolding r by (intro join_segs_absolute) auto
qed

text \<open>A carried path lands below the new root.\<close>

lemma under_starts:
  assumes "root = path_join scratch ''root''"
  shows "path_starts_with (under root rel) root"
proof -
  let ?r = "case strip_root rel of Some r \<Rightarrow> r | None \<Rightarrow> rel"
  have "\<not> path_is_absolute ?r"
  proof (cases "strip_root rel")
    case None
    then show ?thesis by (simp add: strip_root_def split: if_splits)
  next
    case (Some r)
    with strip_root_relative [OF Some] show ?thesis by simp
  qed
  moreover have "root \<noteq> []" "last root \<noteq> CHR ''/''"
    by (simp_all add: assms path_join_def path_is_absolute_def)
  ultimately have "under root rel = root @ CHR ''/'' # ?r" by (simp add: under_def path_join_def)
  moreover obtain x xs where x: "split_on CHR ''/'' root = x # xs" by (cases "split_on CHR ''/'' root") auto
  then have "xs \<noteq> [] \<or> x \<noteq> []" using \<open>root \<noteq> []\<close> split_on_Nil_iff [of "CHR ''/''" root] by auto
  ultimately show ?thesis
    using path_components_cons [OF x [symmetric]] by (simp add: path_starts_with_def)
qed

text \<open>The components of the paths of a layout and of the kernel trees moved below the new root.\<close>

lemma layout_comps:
  "path_components (la_lower (layout_new s)) = path_components s @ [Normal ''lower'']"
  "path_components (la_data (layout_new s)) = path_components s @ [Normal ''data'']"
  "path_components (la_over (layout_new s)) = path_components s @ [Normal ''over'']"
  "path_components (la_upper (layout_new s)) = path_components s @ [Normal ''over'', Normal ''upper'']"
  "path_components (la_work (layout_new s)) = path_components s @ [Normal ''over'', Normal ''work'']"
  "path_components (la_root (layout_new s)) = path_components s @ [Normal ''root'']"
  by (simp_all add: layout_new_def Let_def path_components_join view_segs)

lemma moved_comps:
  "path_components (path_join p ''dev'') = path_components p @ [Normal ''dev'']"
  "path_components (path_join p ''proc'') = path_components p @ [Normal ''proc'']"
  "path_components (path_join p ''sys'') = path_components p @ [Normal ''sys'']"
  by (simp_all add: path_components_join view_segs)

definition kernel_dirs :: "string list" where
  "kernel_dirs = [''/dev'', ''/proc'', ''/sys'']"

definition off_kernel :: "string \<Rightarrow> bool" where
  "off_kernel p \<longleftrightarrow> list_all (\<lambda>k. \<not> path_starts_with p k) kernel_dirs"

lemma off_kernel_simps:
  "off_kernel p \<Longrightarrow> \<not> path_starts_with p ''/dev''" "off_kernel p \<Longrightarrow> \<not> path_starts_with p ''/proc''"
  "off_kernel p \<Longrightarrow> \<not> path_starts_with p ''/sys''"
  by (simp_all add: off_kernel_def kernel_dirs_def)

lemma off_kernel_join:
  assumes "plain_seg n" and "n \<notin> {''dev'', ''proc'', ''sys''}" and "off_kernel p"
  shows "off_kernel (path_join p n)"
proof -
  have "prefix [RootDir, Normal a] (path_components p @ [Normal n])
      \<longleftrightarrow> prefix [RootDir, Normal a] (path_components p) \<or> (path_components p = [RootDir] \<and> a = n)" for a
    by (auto simp: prefix_snoc)
  with assms show ?thesis
    by (auto simp: off_kernel_def kernel_dirs_def path_starts_with_def path_components_join)
qed

lemma off_kernel_layout:
  assumes "off_kernel s"
  shows "off_kernel (la_lower (layout_new s))" "off_kernel (la_over (layout_new s))"
    "off_kernel (la_upper (layout_new s))" "off_kernel (la_work (layout_new s))"
    "off_kernel (la_root (layout_new s))"
  using assms by (simp_all add: layout_new_def Let_def off_kernel_join view_segs)

text \<open>No kernel tree lies below the layout, and the parts of the layout lie where the plan means them
  to: the upper and work directories on the writable layer, nothing else on anything.\<close>

lemma layout_apart:
  "k \<in> set kernel_dirs \<Longrightarrow> \<not> path_starts_with k (la_lower (layout_new s))"
  "k \<in> set kernel_dirs \<Longrightarrow> \<not> path_starts_with k (la_over (layout_new s))"
  "k \<in> set kernel_dirs \<Longrightarrow> \<not> path_starts_with k (la_root (layout_new s))"
  "\<not> path_starts_with (la_lower (layout_new s)) (la_over (layout_new s))"
  "\<not> path_starts_with (la_lower (layout_new s)) (la_root (layout_new s))"
  "\<not> path_starts_with (la_lower (layout_new s)) (la_data (layout_new s))"
  "\<not> path_starts_with (la_over (layout_new s)) (la_lower (layout_new s))"
  "\<not> path_starts_with (la_over (layout_new s)) (la_root (layout_new s))"
  "\<not> path_starts_with (la_over (layout_new s)) (la_data (layout_new s))"
  "\<not> path_starts_with (la_root (layout_new s)) (la_lower (layout_new s))"
  "\<not> path_starts_with (la_root (layout_new s)) (la_over (layout_new s))"
  "\<not> path_starts_with (la_root (layout_new s)) (la_data (layout_new s))"
  "path_starts_with (la_upper (layout_new s)) (la_over (layout_new s))"
  "path_starts_with (la_work (layout_new s)) (la_over (layout_new s))"
  "\<not> path_starts_with (la_upper (layout_new s)) (la_work (layout_new s))"
  "\<not> path_starts_with (la_work (layout_new s)) (la_upper (layout_new s))"
  "\<not> path_starts_with (la_upper (layout_new s)) (la_root (layout_new s))"
  "\<not> path_starts_with (la_work (layout_new s)) (la_root (layout_new s))"
  by (auto simp: path_starts_with_def layout_comps kernel_dirs_def prefix_Cons Cons_eq_append_conv
      append_eq_Cons_conv dest: prefix_length_le)

lemma off_kernel_below:
  assumes "path_starts_with p r" "off_kernel r" "\<And>k. k \<in> set kernel_dirs \<Longrightarrow> \<not> path_starts_with k r"
  shows "off_kernel p"
  using assms unfolding off_kernel_def list_all_iff path_starts_with_def by (metis prefix_same_cases)

subsection \<open>What single steps leave\<close>

lemma mkdir_view [simp]:
  "fs_mount (step_view (Mkdir p) v) q = fs_mount v q"
  "q \<in> fv_dirs (step_view (Mkdir p) v) \<longleftrightarrow> q = p \<or> q \<in> fv_dirs v"
  by (simp_all add: step_view_def fs_mount_def)

lemma fs_source_mkdir [simp]: "fs_source (step_view (Mkdir p) v) q = fs_source v q"
  by (simp add: fs_source_def)

lemma cover_view [simp]:
  "path_starts_with q t \<Longrightarrow> fs_mount (cover t s v) q = Some (t, s)"
  "\<not> path_starts_with q t \<Longrightarrow> fs_mount (cover t s v) q = fs_mount v q"
  "t \<in> fv_dirs (cover t s v)"
  "\<not> path_starts_with q t \<Longrightarrow> q \<in> fv_dirs (cover t s v) \<longleftrightarrow> q \<in> fv_dirs v"
  by (auto simp: cover_def fs_mount_def)

lemma mount_view:
  "fs_mount (step_view (Mount s t) v) t = Some (t, s)"
  "\<not> path_starts_with q t \<Longrightarrow> fs_mount (step_view (Mount s t) v) q = fs_mount v q"
  "path_starts_with q t \<Longrightarrow> fs_mount v t = None \<Longrightarrow> fs_mount (step_view (Mount s t) v) q = Some (t, s)"
  "t \<in> fv_dirs v \<Longrightarrow> t \<in> fv_dirs (step_view (Mount s t) v)"
  "\<not> path_starts_with q t \<Longrightarrow> q \<in> fv_dirs (step_view (Mount s t) v) \<longleftrightarrow> q \<in> fv_dirs v"
  by (simp_all add: step_view_def)

lemma move_view:
  "fs_mount (step_view (Move f t) v) t = Some (t, fs_source v f)"
  "\<not> path_starts_with q t \<Longrightarrow> \<not> path_starts_with q f \<Longrightarrow> fs_mount (step_view (Move f t) v) q = fs_mount v q"
  "t \<in> fv_dirs (step_view (Move f t) v)"
  "\<not> path_starts_with q t \<Longrightarrow> \<not> path_starts_with q f \<Longrightarrow>
     q \<in> fv_dirs (step_view (Move f t) v) \<longleftrightarrow> q \<in> fv_dirs v"
proof -
  show "fs_mount (step_view (Move f t) v) t = Some (t, fs_source v f)" "t \<in> fv_dirs (step_view (Move f t) v)"
    by (simp_all add: step_view_def)
  assume q: "\<not> path_starts_with q t" "\<not> path_starts_with q f"
  then show "q \<in> fv_dirs (step_view (Move f t) v) \<longleftrightarrow> q \<in> fv_dirs v" by (simp add: step_view_def)
  have "find (\<lambda>(m, s). path_starts_with q m) (filter (\<lambda>(m, s). \<not> path_starts_with m f) ms)
      = find (\<lambda>(m, s). path_starts_with q m) ms" for ms :: "(string \<times> source) list"
    using q(2) by (induction ms) (auto dest: path_starts_with_trans)
  with q show "fs_mount (step_view (Move f t) v) q = fs_mount v q"
    by (simp add: step_view_def fs_mount_def cover_def)
qed

lemma view_after_simps [simp]:
  "view_after [] v = v" "view_after (st # sts) v = view_after sts (step_view st v)"
  "view_after (xs @ ys) v = view_after ys (view_after xs v)"
  by (simp_all add: view_after_def)

definition is_handoff :: "mount_step \<Rightarrow> bool" where
  "is_handoff st \<longleftrightarrow> (case st of SwitchRoot _ _ _ \<Rightarrow> True | _ \<Rightarrow> False)"

lemma plan_ready_append:
  "list_all (\<lambda>st. \<not> is_handoff st) xs \<Longrightarrow>
     plan_ready v (xs @ ys) \<longleftrightarrow> plan_ready v xs \<and> plan_ready (view_after xs v) ys"
  by (induction xs arbitrary: v) (auto simp: is_handoff_def split: mount_step.splits)

text \<open>Where the kernel trees end up.\<close>

lemma moved_apart:
  assumes "off_kernel s" and "a \<in> {''dev'', ''proc'', ''sys''}"
  shows "off_kernel (path_join (la_root (layout_new s)) a)"
    "path_starts_with (path_join (la_root (layout_new s)) a) (la_root (layout_new s))"
    "b \<in> {''dev'', ''proc'', ''sys''} \<Longrightarrow> a \<noteq> b \<Longrightarrow>
       \<not> path_starts_with (path_join (la_root (layout_new s)) a) (path_join (la_root (layout_new s)) b)"
    "\<not> path_starts_with (la_root (layout_new s)) (path_join (la_root (layout_new s)) a)"
    "k \<in> set kernel_dirs \<Longrightarrow> \<not> path_starts_with k (path_join (la_root (layout_new s)) a)"
proof -
  have seg: "plain_seg a" "b \<in> {''dev'', ''proc'', ''sys''} \<Longrightarrow> plain_seg b"
    using assms(2) by (auto simp: plain_seg_def)
  have "off_kernel (la_root (layout_new s))" using assms(1) by (rule off_kernel_layout)
  moreover have "path_components (la_root (layout_new s)) \<noteq> [RootDir]" by (simp add: layout_comps)
  ultimately show "off_kernel (path_join (la_root (layout_new s)) a)"
    using seg(1) by (auto simp: off_kernel_def kernel_dirs_def path_starts_with_def path_components_join prefix_snoc)
  show "path_starts_with (path_join (la_root (layout_new s)) a) (la_root (layout_new s))"
    using seg(1) by (rule path_starts_with_join)
  show "\<not> path_starts_with (path_join (la_root (layout_new s)) a) (path_join (la_root (layout_new s)) b)"
    if "b \<in> {''dev'', ''proc'', ''sys''}" "a \<noteq> b"
    using seg that by (auto simp: path_starts_with_def path_components_join)
  show "\<not> path_starts_with (la_root (layout_new s)) (path_join (la_root (layout_new s)) a)"
    using seg(1) by (auto simp: path_starts_with_def path_components_join dest: prefix_length_le)
  show "\<not> path_starts_with k (path_join (la_root (layout_new s)) a)" if "k \<in> set kernel_dirs"
    using layout_apart(3) [OF that] path_starts_with_trans path_starts_with_join [OF seg(1)] by blast
qed

subsection \<open>The carried paths\<close>

text \<open>Carried paths fit when each is there to be bound, is not hidden by what the plan mounts before,
  and lands clear of the kernel trees and of the other carried paths.\<close>

definition carry_fits :: "fs_view \<Rightarrow> string \<Rightarrow> carry \<Rightarrow> bool" where
  "carry_fits v scratch c \<longleftrightarrow>
     (let l = layout_new scratch; f = ca_from c; t = under (la_root l) (ca_to c) in
      f \<in> fv_dirs v \<and> off_kernel f
      \<and> \<not> path_starts_with f (la_lower l) \<and> \<not> path_starts_with f (la_over l) \<and> \<not> path_starts_with f (la_root l)
      \<and> list_all (\<lambda>n. apart t (path_join (la_root l) n)) [''dev'', ''proc'', ''sys''])"

definition carries_fit :: "fs_view \<Rightarrow> string \<Rightarrow> carry list \<Rightarrow> bool" where
  "carries_fit v scratch cs \<longleftrightarrow>
     list_all (carry_fits v scratch) cs
     \<and> sorted_wrt (\<lambda>a b. let r = la_root (layout_new scratch) in
          apart (under r (ca_to a)) (under r (ca_to b))) cs"

lemma carry_steps_Cons [simp]:
  "carry_steps r [] = []"
  "carry_steps r (c # cs) = [Mkdir (under r (ca_to c)), Bind (ca_from c) (under r (ca_to c))] @ carry_steps r cs"
  by (simp_all add: carry_steps_def Let_def)

lemma carry_phase:
  fixes root :: string
  defines "to \<equiv> \<lambda>c. under root (ca_to c)"
  assumes "\<forall>c \<in> set cs. ca_from c \<in> fv_dirs v \<and> \<not> path_starts_with (ca_from c) root
      \<and> path_starts_with (to c) root \<and> fs_mount v (to c) = Some (root, overlay_fs)"
    and "sorted_wrt (\<lambda>a b. apart (to a) (to b)) cs"
  shows "plan_ready v (carry_steps root cs)
    \<and> (\<forall>c \<in> set cs. fs_mount (view_after (carry_steps root cs) v) (to c) = Some (to c, fs_source v (ca_from c)))
    \<and> (\<forall>p. (\<forall>c \<in> set cs. \<not> path_starts_with p (to c)) \<longrightarrow>
          fs_mount (view_after (carry_steps root cs) v) p = fs_mount v p
          \<and> (p \<in> fv_dirs (view_after (carry_steps root cs) v) \<longleftrightarrow> p \<in> fv_dirs v))"
  using assms(2,3)
proof (induction cs arbitrary: v)
  case Nil
  show ?case by simp
next
  case (Cons c cs)
  let ?w = "step_view (Bind (ca_from c) (to c)) (step_view (Mkdir (to c)) v)"
  have w: "?w = cover (to c) (fs_source v (ca_from c)) (step_view (Mkdir (to c)) v)"
    by (simp add: step_view_def fs_source_def fs_mount_def)
  have off: "\<not> path_starts_with (ca_from d) (to c)" if "d \<in> set (c # cs)" for d
    using Cons.prems(1) that path_starts_with_trans by (metis list.set_intros(1))
  have clear: "\<not> path_starts_with (to d) (to c)" "\<not> path_starts_with (to c) (to d)" if "d \<in> set cs" for d
    using Cons.prems(2) that by (auto simp: apart_def)
  have src: "fs_source ?w (ca_from d) = fs_source v (ca_from d)" if "d \<in> set (c # cs)" for d
    using off [OF that] by (simp add: w fs_source_def)
  have "\<forall>d \<in> set cs. ca_from d \<in> fv_dirs ?w \<and> \<not> path_starts_with (ca_from d) root
      \<and> path_starts_with (to d) root \<and> fs_mount ?w (to d) = Some (root, overlay_fs)"
    using Cons.prems(1) off clear by (simp add: w)
  note IH = Cons.IH [OF this] 
  have ready: "step_ready v (Mkdir (to c))" "step_ready (step_view (Mkdir (to c)) v) (Bind (ca_from c) (to c))"
    using Cons.prems(1)
    by (simp_all add: step_ready_def fs_source_def makes_dirs_def overlay_fs_def source_new_def flags_none_def)
  have steps: "carry_steps root (c # cs) = Mkdir (to c) # Bind (ca_from c) (to c) # carry_steps root cs"
    by (simp add: to_def)
  have keep: "fs_mount ?w p = fs_mount v p \<and> (p \<in> fv_dirs ?w \<longleftrightarrow> p \<in> fv_dirs v)"
    if "\<not> path_starts_with p (to c)" for p
    using that by (auto simp: w)
  have "fs_mount (view_after (carry_steps root cs) ?w) (to c) = fs_mount ?w (to c)"
    using IH Cons.prems(2) clear(2) by auto
  then have "fs_mount (view_after (carry_steps root cs) ?w) (to c) = Some (to c, fs_source v (ca_from c))"
    by (simp add: w)
  with IH ready keep src Cons.prems(2) show ?case unfolding steps by auto
qed

subsection \<open>The whole plan\<close>

definition kernel_fs :: "(string \<times> source) list" where
  "kernel_fs =
     [(''dev'', source_new ''devtmpfs'' ''devtmpfs'' flags_dev),
      (''proc'', source_new ''proc'' ''proc'' flags_pseudo),
      (''sys'', source_new ''sysfs'' ''sysfs'' flags_pseudo)]"

text \<open>What a plan starts from: the kernel directories, mounted or not; a scratch directory outside
  them, on the initramfs, with at most the store partition mounted in it; a writable layer that
  may be written; carried paths that fit.\<close>

definition boot_fits :: "fs_view \<Rightarrow> recipe \<Rightarrow> bool" where
  "boot_fits v r \<longleftrightarrow>
     set kernel_dirs \<subseteq> fv_dirs v \<and> off_kernel (re_scratch r)
     \<and> list_all (\<lambda>(m, s). Mount s m \<in> set early_mounts \<or> m = la_data (layout_new (re_scratch r))) (fv_mounts v)
     \<and> makes_dirs (over_source (re_mode r)) \<and> carries_fit v (re_scratch r) (re_carry r)"

text \<open>What the new root is made of at the handoff: the overlay, over the read-only base and with its
  upper and work directories on the writable layer; the three kernel trees inside it; every carried
  path bound from the file system it came from.\<close>

definition root_made :: "fs_view \<Rightarrow> recipe \<Rightarrow> fs_view \<Rightarrow> bool" where
  "root_made v r w \<longleftrightarrow>
     (let l = layout_new (re_scratch r); root = la_root l in
      fs_mount w root = Some (root, overlay_fs)
      \<and> fs_mount w (la_lower l) = Some (la_lower l, source_read_only (re_base r))
      \<and> fs_mount w (la_upper l) = Some (la_over l, over_source (re_mode r))
      \<and> fs_mount w (la_work l) = Some (la_over l, over_source (re_mode r))
      \<and> list_all (\<lambda>(n, s). fs_mount w (path_join root n) = Some (path_join root n, s)) kernel_fs
      \<and> list_all (\<lambda>c. fs_mount w (under root (ca_to c)) = Some (under root (ca_to c), fs_source v (ca_from c)))
          (re_carry r))"

lemma early_phase:
  assumes dirs: "set kernel_dirs \<subseteq> fv_dirs v"
    and m: "list_all (\<lambda>(m, s). Mount s m \<in> set early_mounts \<or> m = la_data (layout_new scratch)) (fv_mounts v)"
  shows "plan_ready v early_mounts"
    and "list_all (\<lambda>(n, s). fs_mount (view_after early_mounts v) (CHR ''/'' # n) = Some (CHR ''/'' # n, s)) kernel_fs"
    and "off_kernel p \<Longrightarrow> fs_mount (view_after early_mounts v) p = fs_mount v p"
    and "off_kernel p \<Longrightarrow> p \<in> fv_dirs (view_after early_mounts v) \<longleftrightarrow> p \<in> fv_dirs v"
    and "off_kernel p \<Longrightarrow> \<not> path_starts_with p (la_data (layout_new scratch)) \<Longrightarrow> fs_mount v p = None"
proof -
  have kk: "\<not> path_starts_with ''/dev'' ''/proc''" "\<not> path_starts_with ''/dev'' ''/sys''"
    "\<not> path_starts_with ''/proc'' ''/dev''" "\<not> path_starts_with ''/proc'' ''/sys''"
    "\<not> path_starts_with ''/sys'' ''/dev''" "\<not> path_starts_with ''/sys'' ''/proc''"
    by (simp_all add: path_starts_with_def)
  have kd: "''/dev'' \<in> fv_dirs v" "''/proc'' \<in> fv_dirs v" "''/sys'' \<in> fv_dirs v"
    using dirs by (simp_all add: kernel_dirs_def)
  show "plan_ready v early_mounts"
    using kd by (simp add: early_mounts_def step_ready_def mount_view kk)
  show "list_all (\<lambda>(n, s). fs_mount (view_after early_mounts v) (CHR ''/'' # n) = Some (CHR ''/'' # n, s)) kernel_fs"
    by (simp add: early_mounts_def kernel_fs_def mount_view kk)
  show "fs_mount (view_after early_mounts v) p = fs_mount v p" if "off_kernel p"
    using that by (simp add: early_mounts_def mount_view off_kernel_simps)
  show "p \<in> fv_dirs (view_after early_mounts v) \<longleftrightarrow> p \<in> fv_dirs v" if "off_kernel p"
    using that by (simp add: early_mounts_def mount_view off_kernel_simps)
  show "fs_mount v p = None" if p: "off_kernel p" "\<not> path_starts_with p (la_data (layout_new scratch))"
    using m off_kernel_simps [OF p(1)] p(2)
    by (auto simp: fs_mount_def find_None_iff list_all_iff early_mounts_def source_new_def)
qed

lemma move_phase:
  fixes s :: string
  defines "root \<equiv> la_root (layout_new s)"
  assumes s: "off_kernel s"
    and src: "list_all (\<lambda>(n, k). fs_mount v (CHR ''/'' # n) = Some (CHR ''/'' # n, k)) kernel_fs"
    and rt: "list_all (\<lambda>n. fs_mount v (path_join root n) = Some (root, overlay_fs)) [''dev'', ''proc'', ''sys'']"
    and r: "fs_mount v root = Some (root, overlay_fs)"
  shows "plan_ready v (move_steps root @ [SwitchRoot root i a])"
    and "list_all (\<lambda>(n, k). fs_mount (view_after (move_steps root) v) (path_join root n) = Some (path_join root n, k)) kernel_fs"
    and "off_kernel p \<Longrightarrow> list_all (\<lambda>n. \<not> path_starts_with p (path_join root n)) [''dev'', ''proc'', ''sys''] \<Longrightarrow>
       fs_mount (view_after (move_steps root) v) p = fs_mount v p"
proof -
  note ma = moved_apart [OF s, folded root_def]
  have ok: "off_kernel root" unfolding root_def using s by (rule off_kernel_layout)
  have join: "path_join ''/'' ''dev'' = ''/dev''" "path_join ''/'' ''proc'' = ''/proc''" "path_join ''/'' ''sys'' = ''/sys''"
    by (simp_all add: path_join_def path_is_absolute_def)
  have kk: "\<not> path_starts_with ''/dev'' ''/proc''" "\<not> path_starts_with ''/dev'' ''/sys''"
    "\<not> path_starts_with ''/proc'' ''/dev''" "\<not> path_starts_with ''/proc'' ''/sys''"
    "\<not> path_starts_with ''/sys'' ''/dev''" "\<not> path_starts_with ''/sys'' ''/proc''"
    by (simp_all add: path_starts_with_def)
  have off: "\<not> path_starts_with (path_join root n) k" if "n \<in> {''dev'', ''proc'', ''sys''}" "k \<in> set kernel_dirs" for n k
    using ma(1) [OF that(1)] that(2) by (simp add: off_kernel_def list_all_iff)
  have offs: "\<not> path_starts_with (path_join root n) ''/dev''" "\<not> path_starts_with (path_join root n) ''/proc''"
    "\<not> path_starts_with (path_join root n) ''/sys''" if "n \<in> {''dev'', ''proc'', ''sys''}" for n
    using off [OF that] by (simp_all add: kernel_dirs_def)
  have up: "\<not> path_starts_with ''/dev'' (path_join root n)" "\<not> path_starts_with ''/proc'' (path_join root n)"
    "\<not> path_starts_with ''/sys'' (path_join root n)" if "n \<in> {''dev'', ''proc'', ''sys''}" for n
    using ma(5) [OF that] by (simp_all add: kernel_dirs_def)
  have mk: "makes_dirs overlay_fs" by (simp add: makes_dirs_def overlay_fs_def source_new_def flags_none_def)
  have ker: "fs_mount v ''/dev'' = Some (''/dev'', source_new ''devtmpfs'' ''devtmpfs'' flags_dev)"
    "fs_mount v ''/proc'' = Some (''/proc'', source_new ''proc'' ''proc'' flags_pseudo)"
    "fs_mount v ''/sys'' = Some (''/sys'', source_new ''sysfs'' ''sysfs'' flags_pseudo)"
    using src by (simp_all add: kernel_fs_def)
  have rts: "fs_mount v (path_join root ''dev'') = Some (root, overlay_fs)"
    "fs_mount v (path_join root ''proc'') = Some (root, overlay_fs)"
    "fs_mount v (path_join root ''sys'') = Some (root, overlay_fs)"
    using rt by simp_all
  show "plan_ready v (move_steps root @ [SwitchRoot root i a])"
    by (simp add: move_steps_def Let_def join step_ready_def move_view kk offs up ma(3,4) ker rts r mk
        fs_source_def off_kernel_simps [OF ok])
  show "list_all (\<lambda>(n, k). fs_mount (view_after (move_steps root) v) (path_join root n) = Some (path_join root n, k)) kernel_fs"
    by (simp add: move_steps_def Let_def join move_view kk offs up ma(3,4) ker fs_source_def kernel_fs_def)
  show "fs_mount (view_after (move_steps root) v) p = fs_mount v p"
    if "off_kernel p" "list_all (\<lambda>n. \<not> path_starts_with p (path_join root n)) [''dev'', ''proc'', ''sys'']"
    using that by (simp add: move_steps_def Let_def join move_view off_kernel_simps)
qed

text \<open>The middle of the plan: the base, the writable layer, the overlay.\<close>

definition layer_steps :: "recipe \<Rightarrow> mount_step list" where
  "layer_steps r =
     (let l = layout_new (re_scratch r) in
      [Mkdir (la_lower l), Mount (source_read_only (re_base r)) (la_lower l),
       Mkdir (la_over l), Mount (over_source (re_mode r)) (la_over l),
       Mkdir (la_upper l), Mkdir (la_work l),
       Mkdir (la_root l), Overlay (la_lower l) (la_upper l) (la_work l) (la_root l)])"

lemma plan_phases:
  "plan r = early_mounts @ layer_steps r @ carry_steps (la_root (layout_new (re_scratch r))) (re_carry r)
     @ move_steps (la_root (layout_new (re_scratch r)))
     @ [SwitchRoot (la_root (layout_new (re_scratch r))) (re_init r) (re_init_args r)]"
  by (simp add: plan_def layer_steps_def Let_def)

lemma layer_phase:
  fixes r :: recipe
  defines "l \<equiv> layout_new (re_scratch r)"
  assumes none: "fs_mount v (la_lower l) = None" "fs_mount v (la_over l) = None" "fs_mount v (la_root l) = None"
    and w: "makes_dirs (over_source (re_mode r))"
  shows "plan_ready v (layer_steps r)"
    and "fs_mount (view_after (layer_steps r) v) (la_lower l) = Some (la_lower l, source_read_only (re_base r))"
    and "fs_mount (view_after (layer_steps r) v) (la_upper l) = Some (la_over l, over_source (re_mode r))"
    and "fs_mount (view_after (layer_steps r) v) (la_work l) = Some (la_over l, over_source (re_mode r))"
    and "path_starts_with p (la_root l) \<Longrightarrow> fs_mount (view_after (layer_steps r) v) p = Some (la_root l, overlay_fs)"
    and "\<not> path_starts_with p (la_lower l) \<Longrightarrow> \<not> path_starts_with p (la_over l) \<Longrightarrow> \<not> path_starts_with p (la_root l) \<Longrightarrow>
       fs_mount (view_after (layer_steps r) v) p = fs_mount v p"
    and "\<not> path_starts_with p (la_lower l) \<Longrightarrow> \<not> path_starts_with p (la_over l) \<Longrightarrow> \<not> path_starts_with p (la_root l) \<Longrightarrow>
       p \<in> fv_dirs v \<Longrightarrow> p \<in> fv_dirs (view_after (layer_steps r) v)"
proof -
  note la = layout_apart(4-18) [of "re_scratch r", folded l_def]
  have ov: "step_view (Overlay a b c t) x = cover t overlay_fs x" for a b c t x by (simp add: step_view_def)
  have fresh: "makes_dirs initramfs" by (simp add: makes_dirs_def initramfs_def source_new_def flags_none_def)
  have ro: "mf_rdonly (so_flags (source_read_only b))" for b by (simp add: source_read_only_def)
  note steps = layer_steps_def Let_def l_def [symmetric]
  show "plan_ready v (layer_steps r)"
    by (simp add: steps step_ready_def mount_view la none w ro fresh fs_source_def)
  show "fs_mount (view_after (layer_steps r) v) (la_lower l) = Some (la_lower l, source_read_only (re_base r))"
    "fs_mount (view_after (layer_steps r) v) (la_upper l) = Some (la_over l, over_source (re_mode r))"
    "fs_mount (view_after (layer_steps r) v) (la_work l) = Some (la_over l, over_source (re_mode r))"
    by (simp_all add: steps mount_view la none ov)
  show "fs_mount (view_after (layer_steps r) v) p = Some (la_root l, overlay_fs)" if "path_starts_with p (la_root l)"
    using that by (simp add: steps ov)
  assume p: "\<not> path_starts_with p (la_lower l)" "\<not> path_starts_with p (la_over l)" "\<not> path_starts_with p (la_root l)"
  then show "fs_mount (view_after (layer_steps r) v) p = fs_mount v p"
    by (simp add: steps mount_view ov)
  show "p \<in> fv_dirs (view_after (layer_steps r) v)" if "p \<in> fv_dirs v"
    using p that by (simp add: steps mount_view ov)
qed

lemma no_handoffs:
  "list_all (\<lambda>st. \<not> is_handoff st) early_mounts" "list_all (\<lambda>st. \<not> is_handoff st) (layer_steps r)"
  "list_all (\<lambda>st. \<not> is_handoff st) (carry_steps rt cs)"
  by (simp_all add: early_mounts_def layer_steps_def Let_def is_handoff_def carry_steps_def list_all_iff)

lemma plan_fits:
  assumes fits: "boot_fits v r"
  shows "plan_ready v (plan r) \<and> root_made v r (view_after (plan r) v)"
proof -
  let ?l = "layout_new (re_scratch r)" and ?s = "re_scratch r"
  let ?root = "la_root ?l"
  let ?to = "\<lambda>c. under ?root (ca_to c)"
  define v1 where "v1 = view_after early_mounts v"
  define v2 where "v2 = view_after (layer_steps r) v1"
  define v3 where "v3 = view_after (carry_steps ?root (re_carry r)) v2"
  from fits have dirs: "set kernel_dirs \<subseteq> fv_dirs v" and s: "off_kernel ?s"
    and ms: "list_all (\<lambda>(m, s). Mount s m \<in> set early_mounts \<or> m = la_data ?l) (fv_mounts v)"
    and w: "makes_dirs (over_source (re_mode r))"
    and cs: "list_all (carry_fits v ?s) (re_carry r)"
      "sorted_wrt (\<lambda>a b. apart (?to a) (?to b)) (re_carry r)"
    by (simp_all add: boot_fits_def carries_fit_def Let_def)
  note early = early_phase [OF dirs ms]
  note ok = off_kernel_layout [OF s] and la = layout_apart [where s = ?s]
  have none: "fs_mount v1 (la_lower ?l) = None" "fs_mount v1 (la_over ?l) = None" "fs_mount v1 ?root = None"
    using early(3,5) ok la by (simp_all add: v1_def)
  note layer = layer_phase [of v1 r, OF none w, folded v2_def]
  have carry: "ca_from c \<in> fv_dirs v" "off_kernel (ca_from c)"
      "\<not> path_starts_with (ca_from c) (la_lower ?l)" "\<not> path_starts_with (ca_from c) (la_over ?l)"
      "\<not> path_starts_with (ca_from c) ?root"
      "list_all (\<lambda>n. apart (?to c) (path_join ?root n)) [''dev'', ''proc'', ''sys'']" if "c \<in> set (re_carry r)" for c
    using cs(1) that by (auto simp: list_all_iff carry_fits_def Let_def)
  have below: "path_starts_with (?to c) ?root" for c
    by (rule under_starts [of _ ?s]) (simp add: layout_new_def Let_def)
  have onroot: "fs_mount v2 (?to c) = Some (?root, overlay_fs)" for c
    using layer(5) [OF below] .
  have "ca_from c \<in> fv_dirs v2" if c: "c \<in> set (re_carry r)" for c
    using layer(7) [OF carry(3-5) [OF c]] early(4) [OF carry(2) [OF c]] carry(1) [OF c] by (simp add: v1_def)
  with carry(5) below onroot have "\<forall>c \<in> set (re_carry r). ca_from c \<in> fv_dirs v2 \<and> \<not> path_starts_with (ca_from c) ?root
      \<and> path_starts_with (?to c) ?root \<and> fs_mount v2 (?to c) = Some (?root, overlay_fs)"
    by blast
  note cp = carry_phase [OF this cs(2), folded v3_def]
  have keep: "fs_mount v3 p = fs_mount v2 p" if "\<And>c. c \<in> set (re_carry r) \<Longrightarrow> \<not> path_starts_with p (?to c)" for p
    using cp that by blast
  have above: "\<not> path_starts_with p (?to c)" if "\<not> path_starts_with p ?root" for p c
    using that below path_starts_with_trans by blast
  have kin: "CHR ''/'' # n \<in> set kernel_dirs" if "(n, k) \<in> set kernel_fs" for n k
    using that by (auto simp: kernel_fs_def kernel_dirs_def)
  have ker: "fs_mount v3 (CHR ''/'' # n) = Some (CHR ''/'' # n, k)" if n: "(n, k) \<in> set kernel_fs" for n k
  proof -
    note a = la(1-3) [OF kin [OF n]]
    have "fs_mount v3 (CHR ''/'' # n) = fs_mount v1 (CHR ''/'' # n)"
      using keep [OF above [OF a(3)]] layer(6) [OF a] by simp
    then show ?thesis using early(2) n by (auto simp: v1_def list_all_iff)
  qed
  have toroot: "\<not> path_starts_with ?root (?to c)" if "c \<in> set (re_carry r)" for c
    using carry(6) [OF that] moved_apart(2) [OF s, of "''dev''"] path_starts_with_trans
    by (auto simp: apart_def)
  have rt: "fs_mount v3 ?root = Some (?root, overlay_fs)"
    using keep [OF toroot] layer(5) by simp
  have rts: "list_all (\<lambda>n. fs_mount v3 (path_join ?root n) = Some (?root, overlay_fs)) [''dev'', ''proc'', ''sys'']"
    using carry(6) keep layer(5) moved_apart(2) [OF s] by (auto simp: list_all_iff apart_def)
  note move = move_phase [of ?s v3, OF s _ rts rt]
  have src: "list_all (\<lambda>(n, k). fs_mount v3 (CHR ''/'' # n) = Some (CHR ''/'' # n, k)) kernel_fs"
    using ker by (auto simp: list_all_iff)
  define v4 where "v4 = view_after (move_steps ?root) v3"
  have after: "view_after (plan r) v = v4"
    by (simp add: plan_phases v4_def v3_def v2_def v1_def step_view_def)
  have stay: "fs_mount v4 p = fs_mount v3 p"
    if "off_kernel p" "\<And>n. n \<in> {''dev'', ''proc'', ''sys''} \<Longrightarrow> \<not> path_starts_with p (path_join ?root n)" for p
    using move(3) [OF src, of p, folded v4_def] that by simp
  have out: "fs_mount v4 p = fs_mount v2 p" if p: "off_kernel p" "\<not> path_starts_with p ?root" for p
  proof -
    have "\<not> path_starts_with p (path_join ?root n)" if "n \<in> {''dev'', ''proc'', ''sys''}" for n
      using p(2) moved_apart(2) [OF s that] path_starts_with_trans by blast
    then show ?thesis using stay [OF p(1)] keep [OF above [OF p(2)]] by simp
  qed
  have rootv4: "fs_mount v4 ?root = Some (?root, overlay_fs)"
    using stay [OF ok(5) moved_apart(4) [OF s]] rt by simp
  have carried: "fs_mount v4 (?to c) = Some (?to c, fs_source v (ca_from c))" if c: "c \<in> set (re_carry r)" for c
  proof -
    have "off_kernel (?to c)"
      using off_kernel_below [OF below ok(5)] la(3) by blast
    then have "fs_mount v4 (?to c) = fs_mount v3 (?to c)"
      using stay carry(6) [OF c] by (auto simp: apart_def)
    also have "\<dots> = Some (?to c, fs_source v2 (ca_from c))" using cp c by blast
    also have "fs_source v2 (ca_from c) = fs_source v (ca_from c)"
      using layer(6) carry(2-5) [OF c] early(3) by (simp add: fs_source_def v1_def)
    finally show ?thesis .
  qed
  have "plan_ready v (plan r)"
    using early(1) layer(1) cp move(1) [OF src]
    by (simp add: plan_phases plan_ready_append no_handoffs v1_def v2_def v3_def)
  moreover have "root_made v r v4"
    using rootv4 out ok la layer(2-4) move(2) [OF src, folded v4_def] carried
    by (simp add: root_made_def Let_def list_all_iff)
  ultimately show ?thesis by (simp add: after)
qed

subsection \<open>The view the init program plans on\<close>

text \<open>The run of \<open>main.rs\<close> at its plan: the kernel trees are mounted, the store partition too, and
  the identity store found on it is carried to \<open>STORE_MOUNT\<close>.\<close>

definition demo_boot_view :: fs_view where
  "demo_boot_view = \<lparr>fv_dirs = {''/dev'', ''/proc'', ''/sys'', ''/run/horizon/data'', ''/run/horizon/data/me''},
     fv_mounts = (''/run/horizon/data'', source_new ''/dev/vda3'' ''ext4'' flags_none)
       # map (\<lambda>(n, s). (CHR ''/'' # n, s)) (rev kernel_fs)\<rparr>"

definition demo_boot_recipe :: recipe where
  "demo_boot_recipe = \<lparr>re_scratch = scratch_dir, re_base = source_new ''/dev/vda2'' ''squashfs'' flags_none,
     re_mode = Home (source_new ''/dev/mapper/horizon-home'' ''ext4'' flags_none),
     re_carry = [\<lparr>ca_from = ''/run/horizon/data/me'', ca_to = store_mount\<rparr>],
     re_init = default_init, re_init_args = [''boot'', ''--root'', store_mount]\<rparr>"

lemma demo_view_fits: "boot_fits demo_boot_view demo_boot_recipe"
proof -
  have to: "under ''/run/horizon/root'' store_mount = ''/run/horizon/root/run/horizon/store''"
    by (simp add: under_def strip_root_def store_mount_def scratch_dir_def layout_new_def Let_def path_join_def
        path_is_absolute_def idle_seg_def)
  have paths: "la_lower (layout_new scratch_dir) = ''/run/horizon/lower''"
    "la_over (layout_new scratch_dir) = ''/run/horizon/over''" "la_root (layout_new scratch_dir) = ''/run/horizon/root''"
    "la_data (layout_new scratch_dir) = ''/run/horizon/data''"
    by (simp_all add: scratch_dir_def layout_new_def Let_def path_join_def path_is_absolute_def)
  have "carries_fit demo_boot_view scratch_dir [\<lparr>ca_from = ''/run/horizon/data/me'', ca_to = store_mount\<rparr>]"
    by (simp add: carries_fit_def carry_fits_def Let_def to paths demo_boot_view_def off_kernel_def kernel_dirs_def
        path_starts_with_def path_components_def seg_comp_def apart_def path_join_def path_is_absolute_def)
  then show ?thesis
    by (simp add: boot_fits_def demo_boot_recipe_def paths)
      (simp add: demo_boot_view_def kernel_dirs_def kernel_fs_def early_mounts_def off_kernel_def scratch_dir_def
        path_starts_with_def path_components_def seg_comp_def makes_dirs_def over_source_def source_new_def flags_none_def)
qed

text \<open>C15.  Every boot plan can be carried out in its order.  A mount hides what was below its target,
  so a directory counts only if it is made after the mounts that cover it.  Let the kernel
  directories be there, with the kernel trees mounted on them already or not; the scratch directory
  lie outside them and hold at most the store partition; the writable layer not be read-only; and
  each carried path be there, outside the kernel directories and what the plan mounts, with targets
  apart from each other and from the kernel trees.  Then every step of the plan finds what it needs:
  each mount point exists and is not hidden, the overlay finds its lower layer on the read-only base
  and its upper and work directories on the writable layer, each move starts from the root of a
  mount, and the handoff is the last step.  The root handed over is the overlay, with the three
  kernel trees in it and every carried path bound from the file system it came from.\<close>

theorem boot_plan_ready:
  assumes "boot_fits v r"
  shows "plan_ready v (plan r) \<and> root_made v r (view_after (plan r) v)"
  using assms by (rule plan_fits)

theorem boot_plan_ready_witness:
  "plan_ready demo_boot_view (plan demo_boot_recipe)
    \<and> root_made demo_boot_view demo_boot_recipe (view_after (plan demo_boot_recipe) demo_boot_view)"
  by (rule boot_plan_ready [OF demo_view_fits])

text \<open>The view tells the order of the steps apart: with its upper directory made before the writable
  layer is mounted over it, the overlay does not find it.\<close>

lemma hidden_upper_fails:
  "\<not> plan_ready demo_boot_view (early_mounts
     @ [Mkdir ''/run/horizon/lower'', Mount (source_read_only (re_base demo_boot_recipe)) ''/run/horizon/lower'',
        Mkdir ''/run/horizon/over'', Mkdir ''/run/horizon/over/upper'', Mkdir ''/run/horizon/over/work'',
        Mount source_tmpfs ''/run/horizon/over'', Mkdir ''/run/horizon/root'',
        Overlay ''/run/horizon/lower'' ''/run/horizon/over/upper'' ''/run/horizon/over/work'' ''/run/horizon/root''])"
  by (simp add: early_mounts_def demo_boot_view_def demo_boot_recipe_def step_ready_def step_view_def fs_mount_def
      cover_def path_starts_with_def path_components_def seg_comp_def kernel_fs_def source_new_def source_tmpfs_def
      source_read_only_def)

end
