(* ===== verification/HomeBoot.thy ===== *)
theory HomeBoot
  imports BootSamples BootView
begin

section \<open>A persistent boot, with every call that can fail\<close>

text \<open>
  The run of \<open>main.rs\<close> from the resolved devices on, when a persistent boot is wanted and the data
  partition holds an identity store.  Nothing is assumed of the machine: every call may fail.
\<close>

definition home_recipe :: "params \<Rightarrow> source \<Rightarrow> string \<Rightarrow> recipe" where
  "home_recipe p base store =
     \<lparr>re_scratch = scratch_dir, re_base = base,
      re_mode = Home (source_new (mapper_path home_mapper) (pa_homefs p) flags_none),
      re_carry = [\<lparr>ca_from = store, ca_to = store_mount\<rparr>], re_init = pa_init p,
      re_init_args = [''boot'', ''--root'', store_mount]\<rparr>"

definition luks_call :: "source \<Rightarrow> bytes \<Rightarrow> sys" where
  "luks_call dev master = SysTool ''cryptsetup'' (luks_open_args (so_dev dev) home_mapper) (Some master)"

lemma open_home_run:
  "open_home mc p store (Some dev) tr =
    (case mc_recover mc tr store p of
       Inl e \<Rightarrow> (Inl e, tr)
     | Inr master \<Rightarrow>
         (case mc_sys mc tr (luks_call dev master) of
            Some e \<Rightarrow> (Inl (InitStep ''luksOpen'' (to_string_lossy (so_dev dev)) e), tr @ [luks_call dev master])
          | None \<Rightarrow> (Inr (Home (source_new (mapper_path home_mapper) (pa_homefs p) flags_none)),
                tr @ [luks_call dev master, SysStash master])))"
proof -
  have stash: "snd (stash_master mc master t) = t @ [SysStash master]" for master t
    by (simp add: stash_master_def sys_step_def sys_call_def split: option.split)
  show ?thesis
    by (auto simp: open_home_def luks_open_def luks_call_def sys_step_def sys_call_def act_bind_def act_try_def
        act_read_def act_ret_def stash split: sum.split option.split)
qed

lemma assemble_home_run:
  assumes "home_wanted (pa_mode p) True True"
    and "execute mc (data_steps True part) tr = (r1, tr1)"
    and "mc_discover mc tr1 (la_data (layout_new scratch_dir)) = Inr store"
  shows "assemble_root mc p base (Some part) (Some dev) tr =
    (case r1 of
       Inl e \<Rightarrow> (Inl e, tr1)
     | Inr _ \<Rightarrow>
         (case mc_recover mc tr1 store p of
            Inl e \<Rightarrow> (Inl e, tr1)
          | Inr master \<Rightarrow>
              (case mc_sys mc tr1 (luks_call dev master) of
                 Some e \<Rightarrow> (Inl (InitStep ''luksOpen'' (to_string_lossy (so_dev dev)) e), tr1 @ [luks_call dev master])
               | None \<Rightarrow> execute mc (plan (home_recipe p base store)) (tr1 @ [luks_call dev master, SysStash master]))))"
  using assms
  by (auto simp: assemble_root_def open_store_def Let_def act_bind_def act_ok_def act_read_def act_ret_def
      open_home_run home_recipe_def split: sum.split option.split)

lemma assemble_home_obliging:
  assumes "home_wanted (pa_mode p) True True"
    and "execute mc (data_steps True part) tr = (r1, tr1)"
    and "mc_discover mc tr1 (la_data (layout_new scratch_dir)) = Inr store"
    and "obliging mc" "CHR 0x00 \<notin> set (pa_init p)" "mc_recover mc tr1 store p = Inr master"
  shows "assemble_root mc p base (Some part) (Some dev) tr =
    (Inr (), tr @ concat (map step_calls (data_steps True part)) @ [luks_call dev master, SysStash master]
       @ concat (map step_calls (plan (home_recipe p base store))))"
proof -
  have "list_all nul_free (data_steps True part)" by (simp add: data_steps_def Let_def)
  then have run: "r1 = Inr ()" "tr1 = tr @ concat (map step_calls (data_steps True part))"
    using assms(2) obliging_execute [OF assms(4)] by simp_all
  have "list_all nul_free (plan (home_recipe p base store))"
    using assms(5) by (simp add: nul_free_plan home_recipe_def store_mount_def)
  then show ?thesis
    using assms(6) run obliging_execute [OF assms(4)] assms(4) [unfolded obliging_def]
    by (simp add: assemble_home_run [OF assms(1-3)])
qed

text \<open>C18.  A persistent boot opens the encrypted layer first.  Persistent boot is wanted, both devices
  resolved, and the mounted data partition holds a store; no call is assumed to succeed.  A failure
  to mount the partition, to recover the master from the store, or of \<open>luksOpen\<close> ends the run with
  that error there: no step of the plan runs, so no root is assembled, and nothing falls back to a
  stateless one.  Only when \<open>luksOpen\<close> with the recovered master has succeeded is the master offered
  to the session, a failure of that alone being passed over, and the plan run whose writable layer
  is the opened device and whose session is pointed at the carried store.  On a machine where no
  call fails, and with no NUL byte in the init path, the run makes exactly these calls in this
  order and succeeds.\<close>

theorem home_run_opens_layer_first:
  assumes "home_wanted (pa_mode p) True True"
    and "execute mc (data_steps True part) tr = (r1, tr1)"
    and "mc_discover mc tr1 (la_data (layout_new scratch_dir)) = Inr store"
  shows "assemble_root mc p base (Some part) (Some dev) tr =
      (case r1 of
         Inl e \<Rightarrow> (Inl e, tr1)
       | Inr _ \<Rightarrow>
           (case mc_recover mc tr1 store p of
              Inl e \<Rightarrow> (Inl e, tr1)
            | Inr master \<Rightarrow>
                (case mc_sys mc tr1 (luks_call dev master) of
                   Some e \<Rightarrow> (Inl (InitStep ''luksOpen'' (to_string_lossy (so_dev dev)) e), tr1 @ [luks_call dev master])
                 | None \<Rightarrow> execute mc (plan (home_recipe p base store)) (tr1 @ [luks_call dev master, SysStash master]))))
    \<and> (\<forall>master. obliging mc \<and> CHR 0x00 \<notin> set (pa_init p) \<and> mc_recover mc tr1 store p = Inr master \<longrightarrow>
        assemble_root mc p base (Some part) (Some dev) tr =
          (Inr (), tr @ concat (map step_calls (data_steps True part)) @ [luks_call dev master, SysStash master]
             @ concat (map step_calls (plan (home_recipe p base store)))))"
  using assemble_home_run [OF assms] assemble_home_obliging [OF assms] by blast

text \<open>A machine whose \<open>cryptsetup\<close> refuses: the run stops at the refusal, with the partition mounted
  and nothing else; and one that obliges: the run succeeds and ends in the handoff.\<close>

definition demo_locked :: machine where
  "demo_locked = (demo_machine [] (Inr ''/s'') (Inr [1]))\<lparr>mc_sys := \<lambda>tr c. case c of
     SysTool tool args key \<Rightarrow> Some ''No key available'' | _ \<Rightarrow> None\<rparr>"

theorem home_run_opens_layer_first_witness:
  "assemble_root demo_locked params_default source_tmpfs (Some source_tmpfs) (Some (source_new ''/dev/sda3'' ''ext4'' flags_none)) []
     = (Inl (InitStep ''luksOpen'' ''/dev/sda3'' ''No key available''),
        [SysMkdirAll ''/run/horizon/data'', SysMount (Some ''tmpfs'') ''/run/horizon/data'' (Some ''tmpfs'') {MS_NOSUID, MS_NODEV} None,
         luks_call (source_new ''/dev/sda3'' ''ext4'' flags_none) [1]])
   \<and> fst (assemble_root (demo_machine [] (Inr ''/s'') (Inr [1])) params_default
       source_tmpfs (Some source_tmpfs) (Some source_tmpfs) []) = Inr ()"
proof
  let ?mc = "demo_machine [] (Inr ''/s'') (Inr [1])" and ?dev = "source_new ''/dev/sda3'' ''ext4'' flags_none"
  have w: "home_wanted (pa_mode params_default) True True" "CHR 0x00 \<notin> set (pa_init params_default)"
    by (simp_all add: home_wanted_def params_default_def default_init_def)
  have path: "to_string_lossy ''/dev/sda3'' = ''/dev/sda3''" "la_data (layout_new scratch_dir) = ''/run/horizon/data''"
    by (simp_all add: to_string_lossy_id utf8_str_ascii ascii_str_def scratch_dir_def layout_new_def Let_def
        path_join_def path_is_absolute_def)
  have run: "execute demo_locked (data_steps True source_tmpfs) [] = (Inr (),
      [SysMkdirAll ''/run/horizon/data'', SysMount (Some ''tmpfs'') ''/run/horizon/data'' (Some ''tmpfs'') {MS_NOSUID, MS_NODEV} None])"
    by (simp add: data_steps_def Let_def path run_step_def do_mount_def sys_step_def sys_call_def demo_locked_def
        act_bind_def act_ret_def source_tmpfs_def source_new_def flags_scratch_def ms_flags_def
        insert_commute)
  have "mc_discover demo_locked tr d = Inr ''/s''" "mc_recover demo_locked tr st p = Inr [1]"
    "mc_sys demo_locked tr (luks_call dev m) = Some ''No key available''" for tr d st p m dev
    by (simp_all add: demo_locked_def demo_machine_def luks_call_def)
  with conjunct1 [OF home_run_opens_layer_first [OF w(1) run, of "''/s''" source_tmpfs ?dev]] path
  show "assemble_root demo_locked params_default source_tmpfs (Some source_tmpfs) (Some ?dev) []
     = (Inl (InitStep ''luksOpen'' ''/dev/sda3'' ''No key available''),
        [SysMkdirAll ''/run/horizon/data'', SysMount (Some ''tmpfs'') ''/run/horizon/data'' (Some ''tmpfs'') {MS_NOSUID, MS_NODEV} None,
         luks_call ?dev [1]])"
    by (simp add: source_new_def)
  obtain r1 tr1 where "execute ?mc (data_steps True source_tmpfs) [] = (r1, tr1)" by fastforce
  then have "mc_discover ?mc tr1 (la_data (layout_new scratch_dir)) = Inr ''/s'' \<and> mc_recover ?mc tr1 ''/s'' params_default = Inr [1]"
    and "obliging ?mc"
    by (simp_all add: demo_machine_def obliging_def)
  note facts = this
  have found: "mc_discover ?mc tr1 (la_data (layout_new scratch_dir)) = Inr ''/s''" using facts(1) by (rule conjunct1)
  note run = spec [OF conjunct2 [OF home_run_opens_layer_first [OF w(1) \<open>execute ?mc (data_steps True source_tmpfs) [] = (r1, tr1)\<close>
      found, of source_tmpfs source_tmpfs]], of "[1]"]
  show "fst (assemble_root ?mc params_default source_tmpfs (Some source_tmpfs) (Some source_tmpfs) []) = Inr ()"
    by (subst mp [OF run]) (use facts w(2) in simp_all)
qed

end
