(* ===== verification/Sync.thy ===== *)
theory Sync
  imports Lifestream
begin

section \<open>Synchronising two stores\<close>

text \<open>
  \<open>crates/constellation/src/lib.rs\<close> and \<open>transport.rs\<close>.  The trait \<open>Transport\<close> is a record of actions
  on the state of a peer, so the engine is written once for any two peers; \<open>LocalTransport\<close> is the
  instance on a store.  The interface \<open>peer\<close> says what a transport promises in terms of two maps,
  from addresses to plaintexts and from names to targets, and \<open>sync_pair\<close> derives from it what a
  run does.
\<close>

datatype sync_error = SyLifestream ls_error | SySync string | SyNet string

record 't transport =
  tp_have :: "('t, sync_error, object_id set) action"
  tp_read :: "object_id \<Rightarrow> ('t, sync_error, bytes) action"
  tp_write :: "object_id \<Rightarrow> bytes \<Rightarrow> ('t, sync_error, bool) action"
  tp_refs :: "('t, sync_error, (string \<times> object_id) list) action"
  tp_get_ref :: "string \<Rightarrow> ('t, sync_error, object_id option) action"
  tp_set_ref :: "string \<Rightarrow> object_id \<Rightarrow> ('t, sync_error, unit) action"
  tp_parents :: "object_id \<Rightarrow> ('t, sync_error, object_id list option) action"

subsection \<open>The local transport\<close>

definition ls_res :: "ls_error + 'a \<Rightarrow> sync_error + 'a" where
  "ls_res r = res_map_err SyLifestream r"

fun local_ref_list :: "ext \<Rightarrow> lstore \<Rightarrow> string list \<Rightarrow> sync_error + (string \<times> object_id) list" where
  "local_ref_list X s [] = Inr []"
| "local_ref_list X s (name # names) =
     res_bind (ls_res (store_get_ref X s name)) (\<lambda>target.
     res_bind (local_ref_list X s names) (\<lambda>out.
       Inr (case target of Some i \<Rightarrow> (name, i) # out | None \<Rightarrow> out)))"

definition local_parents :: "ext \<Rightarrow> object_id \<Rightarrow> lstore \<Rightarrow> sync_error + object_id list option" where
  "local_parents X i s =
     (case ls_get X s i of
        Inr (Gen g) \<Rightarrow> Inr (Some (gen_parents g))
      | Inr _ \<Rightarrow> Inr None
      | Inl (LsNotFound _) \<Rightarrow> Inr None
      | Inl e \<Rightarrow> Inl (SyLifestream e))"

definition local_transport :: "ext \<Rightarrow> lstore transport" where
  "local_transport X =
     \<lparr>tp_have = act_read (\<lambda>s. Inr (set (store_list_ids X s))),
      tp_read = (\<lambda>i. act_read (\<lambda>s. ls_res (store_read_record X s i))),
      tp_write = (\<lambda>i rec. act_map_err SyLifestream (store_write_record X i rec)),
      tp_refs = act_read (\<lambda>s. local_ref_list X s (store_list_refs s)),
      tp_get_ref = (\<lambda>name. act_read (\<lambda>s. ls_res (store_get_ref X s name))),
      tp_set_ref = (\<lambda>name i. act_modify (store_set_ref X name i)),
      tp_parents = (\<lambda>i. act_read (local_parents X i))\<rparr>"

subsection \<open>The engine\<close>

record sync_report =
  sr_source :: nat
  sr_dest :: nat
  sr_transferred :: nat
  sr_bytes :: u64
  sr_set :: "string list"
  sr_advanced :: "string list"
  sr_conflicted :: "string list"

definition moved_anything :: "sync_report \<Rightarrow> bool" where
  "moved_anything r \<longleftrightarrow> 0 < sr_transferred r \<or> sr_set r \<noteq> [] \<or> sr_advanced r \<noteq> []"

text \<open>The two peers are the two halves of the state.\<close>

definition on_from :: "('a, 'e, 'x) action \<Rightarrow> ('a \<times> 'b, 'e, 'x) action" where
  "on_from m st = (case m (fst st) of (r, a) \<Rightarrow> (r, (a, snd st)))"

definition on_to :: "('b, 'e, 'x) action \<Rightarrow> ('a \<times> 'b, 'e, 'x) action" where
  "on_to m st = (case m (snd st) of (r, b) \<Rightarrow> (r, (fst st, b)))"

fun sync_objects ::
  "'a transport \<Rightarrow> 'b transport \<Rightarrow> object_id list \<Rightarrow> sync_report \<Rightarrow> ('a \<times> 'b, sync_error, sync_report) action" where
  "sync_objects P Q [] rep = act_ret rep"
| "sync_objects P Q (i # ids) rep =
     act_bind (on_from (tp_read P i)) (\<lambda>rec.
     act_bind (on_to (tp_write Q i rec)) (\<lambda>new.
       sync_objects P Q ids
         (if new then rep\<lparr>sr_transferred := sr_transferred rep + 1,
                          sr_bytes := sr_bytes rep + of_nat (length rec)\<rparr>
          else rep)))"

text \<open>The walk to an ancestor, a partial function so that its return is a theorem.\<close>

partial_function (option) is_ancestor ::
  "'b transport \<Rightarrow> object_id \<Rightarrow> object_id set \<Rightarrow> object_id list \<Rightarrow> 'b \<Rightarrow> ((sync_error + bool) \<times> 'b) option" where
  [code]: "is_ancestor Q ancestor seen stack b =
     (if stack = [] then Some (Inr False, b)
      else let i = last stack; rest = butlast stack in
        if i = ancestor then Some (Inr True, b)
        else if i \<in> seen then is_ancestor Q ancestor seen rest b
        else case tp_parents Q i b of
               (Inl e, b') \<Rightarrow> Some (Inl e, b')
             | (Inr None, b') \<Rightarrow> is_ancestor Q ancestor (insert i seen) rest b'
             | (Inr (Some ps), b') \<Rightarrow> is_ancestor Q ancestor (insert i seen) (rest @ ps) b')"

fun sync_ref_list ::
  "'b transport \<Rightarrow> (string \<times> object_id) list \<Rightarrow> sync_report \<Rightarrow> 'b \<Rightarrow> ((sync_error + sync_report) \<times> 'b) option" where
  "sync_ref_list Q [] rep b = Some (Inr rep, b)"
| "sync_ref_list Q ((name, src) # refs) rep b =
     (case tp_get_ref Q name b of
        (Inl e, b') \<Rightarrow> Some (Inl e, b')
      | (Inr None, b') \<Rightarrow>
          (case tp_set_ref Q name src b' of
             (Inl e, b'') \<Rightarrow> Some (Inl e, b'')
           | (Inr _, b'') \<Rightarrow> sync_ref_list Q refs (rep\<lparr>sr_set := sr_set rep @ [name]\<rparr>) b'')
      | (Inr (Some dst), b') \<Rightarrow>
          if dst = src then sync_ref_list Q refs rep b'
          else (case is_ancestor Q dst {} [src] b' of
                  None \<Rightarrow> None
                | Some (Inl e, b'') \<Rightarrow> Some (Inl e, b'')
                | Some (Inr True, b'') \<Rightarrow>
                    (case tp_set_ref Q name src b'' of
                       (Inl e, b3) \<Rightarrow> Some (Inl e, b3)
                     | (Inr _, b3) \<Rightarrow> sync_ref_list Q refs (rep\<lparr>sr_advanced := sr_advanced rep @ [name]\<rparr>) b3)
                | Some (Inr False, b'') \<Rightarrow>
                    sync_ref_list Q refs (rep\<lparr>sr_conflicted := sr_conflicted rep @ [name]\<rparr>) b''))"

definition sync_refs ::
  "'a transport \<Rightarrow> 'b transport \<Rightarrow> sync_report \<Rightarrow> 'a \<times> 'b \<Rightarrow> ((sync_error + sync_report) \<times> ('a \<times> 'b)) option" where
  "sync_refs P Q rep st =
     (case on_from (tp_refs P) st of
        (Inl e, st') \<Rightarrow> Some (Inl e, st')
      | (Inr refs, (a, b)) \<Rightarrow> map_option (\<lambda>(r, b'). (r, (a, b'))) (sync_ref_list Q refs rep b))"

definition sync_report_empty :: sync_report where
  "sync_report_empty =
     \<lparr>sr_source = 0, sr_dest = 0, sr_transferred = 0, sr_bytes = 0, sr_set = [], sr_advanced = [],
      sr_conflicted = []\<rparr>"

definition sync ::
  "'a transport \<Rightarrow> 'b transport \<Rightarrow> 'a \<times> 'b \<Rightarrow> ((sync_error + sync_report) \<times> ('a \<times> 'b)) option" where
  "sync P Q st =
     (case act_bind (on_from (tp_have P)) (\<lambda>source.
           act_bind (on_to (tp_have Q)) (\<lambda>dest.
             sync_objects P Q (sorted_list_of_set (source - dest))
               (sync_report_empty\<lparr>sr_source := card source, sr_dest := card dest\<rparr>))) st of
        (Inl e, st') \<Rightarrow> Some (Inl e, st')
      | (Inr rep, st') \<Rightarrow> sync_refs P Q rep st')"

subsection \<open>What a peer promises\<close>

text \<open>The parents of an object among the plaintexts a peer holds, and the history they span.\<close>

definition parents_in :: "(object_id \<Rightarrow> bytes option) \<Rightarrow> object_id \<Rightarrow> object_id list option" where
  "parents_in objs i =
     (case objs i of
        None \<Rightarrow> None
      | Some m \<Rightarrow> (case object_decode m of Inr (Gen g) \<Rightarrow> Some (gen_parents g) | _ \<Rightarrow> None))"

definition history_edges :: "(object_id \<Rightarrow> bytes option) \<Rightarrow> (object_id \<times> object_id) set" where
  "history_edges objs = {(i, p) | i p ps. parents_in objs i = Some ps \<and> p \<in> set ps}"

text \<open>The refs of the receiving side after a run, and what the report says of them.\<close>

definition ref_merge ::
  "(object_id \<Rightarrow> bytes option) \<Rightarrow> (string \<Rightarrow> object_id option) \<Rightarrow> (string \<Rightarrow> object_id option)
     \<Rightarrow> string \<Rightarrow> object_id option" where
  "ref_merge objs src dst n =
     (case (src n, dst n) of
        (None, d) \<Rightarrow> d
      | (Some i, None) \<Rightarrow> Some i
      | (Some i, Some j) \<Rightarrow> if (i, j) \<in> (history_edges objs)\<^sup>* then Some i else Some j)"

definition refs_new :: "(string \<Rightarrow> object_id option) \<Rightarrow> (string \<times> object_id) list \<Rightarrow> string list" where
  "refs_new dst rs = map fst (filter (\<lambda>x. dst (fst x) = None) rs)"

definition refs_ahead ::
  "(object_id \<Rightarrow> bytes option) \<Rightarrow> (string \<Rightarrow> object_id option) \<Rightarrow> (string \<times> object_id) list \<Rightarrow> string list" where
  "refs_ahead objs dst rs =
     map fst (filter (\<lambda>x. \<exists>j. dst (fst x) = Some j \<and> j \<noteq> snd x \<and> (snd x, j) \<in> (history_edges objs)\<^sup>*) rs)"

definition refs_apart ::
  "(object_id \<Rightarrow> bytes option) \<Rightarrow> (string \<Rightarrow> object_id option) \<Rightarrow> (string \<times> object_id) list \<Rightarrow> string list" where
  "refs_apart objs dst rs =
     map fst (filter (\<lambda>x. \<exists>j. dst (fst x) = Some j \<and> (snd x, j) \<notin> (history_edges objs)\<^sup>*) rs)"

definition ref_report ::
  "(object_id \<Rightarrow> bytes option) \<Rightarrow> (string \<Rightarrow> object_id option) \<Rightarrow> (string \<times> object_id) list
     \<Rightarrow> sync_report \<Rightarrow> sync_report \<Rightarrow> bool" where
  "ref_report objs dst rs rep rep' \<longleftrightarrow>
     rep' = rep\<lparr>sr_set := sr_set rep @ refs_new dst rs, sr_advanced := sr_advanced rep @ refs_ahead objs dst rs,
                sr_conflicted := sr_conflicted rep @ refs_apart objs dst rs\<rparr>"

lemma ref_report_Cons:
  assumes "ref_report objs dst [r] rep rep1" and "ref_report objs dst rs rep1 rep'"
  shows "ref_report objs dst (r # rs) rep rep'"
proof -
  have "refs_new dst (r # rs) = refs_new dst [r] @ refs_new dst rs"
    "refs_ahead objs dst (r # rs) = refs_ahead objs dst [r] @ refs_ahead objs dst rs"
    "refs_apart objs dst (r # rs) = refs_apart objs dst [r] @ refs_apart objs dst rs"
    by (simp_all add: refs_new_def refs_ahead_def refs_apart_def)
  with assms show ?thesis by (simp add: ref_report_def)
qed

text \<open>A step that leaves what a peer holds as it was; the state itself may move (a connection does).\<close>

definition calm ::
  "('t \<Rightarrow> bool) \<Rightarrow> ('t \<Rightarrow> object_id \<Rightarrow> bytes option) \<Rightarrow> ('t \<Rightarrow> string \<Rightarrow> object_id option) \<Rightarrow> 't \<Rightarrow> 't \<Rightarrow> bool" where
  "calm ok objs refs t t' \<longleftrightarrow> ok t' \<and> objs t' = objs t \<and> refs t' = refs t"

lemma calmD: "calm ok objs refs t t' \<Longrightarrow> ok t'" "calm ok objs refs t t' \<Longrightarrow> objs t' = objs t"
    "calm ok objs refs t t' \<Longrightarrow> refs t' = refs t"
  by (simp_all add: calm_def)

lemma calm_refl: "ok t \<Longrightarrow> calm ok objs refs t t"
  by (simp add: calm_def)

lemma calm_trans: "calm ok objs refs t t' \<Longrightarrow> calm ok objs refs t' t'' \<Longrightarrow> calm ok objs refs t t''"
  by (simp add: calm_def)

locale peer =
  fixes P :: "'t transport"
    and ok :: "'t \<Rightarrow> bool"
    and objs :: "'t \<Rightarrow> object_id \<Rightarrow> bytes option"
    and refs :: "'t \<Rightarrow> string \<Rightarrow> object_id option"
    and sealed :: "object_id \<Rightarrow> bytes \<Rightarrow> bytes \<Rightarrow> bool"
    and ref_ok :: "string \<Rightarrow> object_id \<Rightarrow> bool"
  assumes finite_objs: "ok t \<Longrightarrow> finite (dom (objs t))"
    and have_objs: "ok t \<Longrightarrow> \<exists>t'. tp_have P t = (Inr (dom (objs t)), t') \<and> calm ok objs refs t t'"
    and read_sealed: "ok t \<Longrightarrow> objs t i = Some m \<Longrightarrow>
      \<exists>rec t'. tp_read P i t = (Inr rec, t') \<and> sealed i rec m \<and> calm ok objs refs t t'"
    and write_sealed: "ok t \<Longrightarrow> sealed i rec m \<Longrightarrow>
      \<exists>t'. tp_write P i rec t = (Inr (objs t i = None), t') \<and> ok t' \<and> refs t' = refs t
        \<and> objs t' = (if objs t i = None then (objs t)(i \<mapsto> m) else objs t)"
    and list_refs: "ok t \<Longrightarrow>
      \<exists>rs t'. tp_refs P t = (Inr rs, t') \<and> distinct (map fst rs) \<and> map_of rs = refs t \<and> calm ok objs refs t t'"
    and refs_ok: "ok t \<Longrightarrow> refs t n = Some i \<Longrightarrow> ref_ok n i"
    and get_ref: "ok t \<Longrightarrow> ref_ok n i \<Longrightarrow> \<exists>t'. tp_get_ref P n t = (Inr (refs t n), t') \<and> calm ok objs refs t t'"
    and set_ref: "ok t \<Longrightarrow> ref_ok n i \<Longrightarrow>
      \<exists>t'. tp_set_ref P n i t = (Inr (), t') \<and> ok t' \<and> objs t' = objs t \<and> refs t' = (refs t)(n \<mapsto> i)"
    and get_parents: "ok t \<Longrightarrow> ref_ok n j \<Longrightarrow> (j, i) \<in> (history_edges (objs t))\<^sup>* \<Longrightarrow>
      \<exists>t'. tp_parents P i t = (Inr (parents_in (objs t) i), t') \<and> calm ok objs refs t t'"
begin

text \<open>The walk returns and decides reachability.  What has been seen is closed up to the stack and
  does not hold the ancestor; everything on the stack is history of the start.\<close>

definition walk_inv ::
  "(object_id \<Rightarrow> bytes option) \<Rightarrow> object_id \<Rightarrow> object_id \<Rightarrow> object_id set \<Rightarrow> object_id set \<Rightarrow> bool" where
  "walk_inv B start anc seen stack \<longleftrightarrow>
     anc \<notin> seen \<and> history_edges B `` seen \<subseteq> seen \<union> stack \<and> stack \<subseteq> (history_edges B)\<^sup>* `` {start}"

lemma walk_inv_exit:
  assumes "walk_inv B start anc seen stack" and "(i, anc) \<in> (history_edges B)\<^sup>*" and "i \<in> seen"
  shows "\<exists>j \<in> stack. (j, anc) \<in> (history_edges B)\<^sup>*"
  using assms(2,3)
proof (induction rule: converse_rtrancl_induct)
  case base
  then show ?case using assms(1) by (simp add: walk_inv_def)
next
  case (step i j)
  then have "j \<in> seen \<union> stack" using assms(1) unfolding walk_inv_def by blast
  with step show ?case by blast
qed

lemma is_ancestor_decides:
  assumes "ok t" and "objs t = B" and "ref_ok n start" and "walk_inv B start anc seen (set stack)"
  shows "\<exists>t'. is_ancestor P anc seen stack t
      = Some (Inr (\<exists>i \<in> set stack. (i, anc) \<in> (history_edges B)\<^sup>*), t') \<and> calm ok objs refs t t'"
  using assms
proof (induction "(card (dom B - seen), length stack)" arbitrary: seen stack t
    rule: wf_induct [OF wf_lex_prod [OF wf_less_than wf_less_than]])
  case 1
  let ?E = "history_edges B"
  have IH: "\<exists>t''. is_ancestor P anc seen' stack' t' = Some (Inr (\<exists>i \<in> set stack'. (i, anc) \<in> ?E\<^sup>*), t'')
      \<and> calm ok objs refs t t''"
    if "walk_inv B start anc seen' (set stack')" "calm ok objs refs t t'"
      "card (dom B - seen') < card (dom B - seen)
        \<or> card (dom B - seen') = card (dom B - seen) \<and> length stack' < length stack"
    for seen' stack' t'
  proof -
    have "((card (dom B - seen'), length stack'), (card (dom B - seen), length stack)) \<in> less_than <*lex*> less_than"
      using that(3) by (auto simp: lex_prod_def)
    from "1.hyps" [rule_format, OF this refl calmD(1) [OF that(2)]] that(1) calmD(2) [OF that(2)] "1.prems"(2,3)
    obtain t'' where "is_ancestor P anc seen' stack' t' = Some (Inr (\<exists>i \<in> set stack'. (i, anc) \<in> ?E\<^sup>*), t'')"
      "calm ok objs refs t' t''" by (metis (no_types, lifting))
    with calm_trans [OF that(2)] show ?thesis by blast
  qed
  show ?case
  proof (cases stack rule: rev_cases)
    case Nil
    then show ?thesis using "1.prems" by (simp add: is_ancestor.simps calm_def)
  next
    case (snoc rest i)
    note step = is_ancestor.simps [of P anc seen stack t]
    have inv: "anc \<notin> seen" "?E `` seen \<subseteq> seen \<union> insert i (set rest)" "(start, i) \<in> ?E\<^sup>*"
      "set rest \<subseteq> ?E\<^sup>* `` {start}"
      using "1.prems" snoc by (auto simp: walk_inv_def)
    have calm: "calm ok objs refs t t" using "1.prems" by (simp add: calm_def)
    consider "i = anc" | "i \<noteq> anc" "i \<in> seen" | "i \<noteq> anc" "i \<notin> seen" by blast
    then show ?thesis
    proof cases
      case 1
      then show ?thesis using snoc step calm by (auto simp: Let_def)
    next
      case 2
      then have walk: "walk_inv B start anc seen (set rest)" using inv by (auto simp: walk_inv_def)
      from walk_inv_exit [OF walk] 2
      have "(\<exists>j \<in> set rest. (j, anc) \<in> ?E\<^sup>*) = (\<exists>j \<in> set stack. (j, anc) \<in> ?E\<^sup>*)"
        using snoc by auto
      then show ?thesis using IH [OF walk calm] 2 snoc step by (simp add: Let_def)
    next
      case 3
      define ps where "ps = (case parents_in B i of None \<Rightarrow> [] | Some ps \<Rightarrow> ps)"
      have edges: "?E `` {i} = set ps"
        by (cases "parents_in B i") (auto simp: ps_def history_edges_def)
      from get_parents [OF "1.prems"(1,3)] inv(3) "1.prems"(2) obtain t1 where
        t1: "tp_parents P i t = (Inr (parents_in B i), t1)" "calm ok objs refs t t1" by blast
      have "set ps \<subseteq> ?E\<^sup>* `` {start}"
        using inv(3) edges by (auto intro: rtrancl_into_rtrancl)
      then have walk: "walk_inv B start anc (insert i seen) (set (rest @ ps))"
        using inv 3 edges unfolding walk_inv_def by auto
      have fin: "finite (dom B)" using finite_objs [OF "1.prems"(1)] "1.prems"(2) by simp
      have "card (dom B - insert i seen) < card (dom B - seen)
          \<or> card (dom B - insert i seen) = card (dom B - seen) \<and> length (rest @ ps) < length stack"
      proof (cases "i \<in> dom B")
        case True
        then show ?thesis using fin 3 by (intro disjI1 psubset_card_mono) auto
      next
        case False
        then have "ps = []" "dom B - insert i seen = dom B - seen"
          by (auto simp: ps_def parents_in_def domIff)
        then show ?thesis using snoc by simp
      qed
      from IH [OF walk t1(2) this] obtain t2 where
        rec: "is_ancestor P anc (insert i seen) (rest @ ps) t1
          = Some (Inr (\<exists>j \<in> set (rest @ ps). (j, anc) \<in> ?E\<^sup>*), t2)" "calm ok objs refs t t2" by blast
      have "(\<exists>j \<in> set (rest @ ps). (j, anc) \<in> ?E\<^sup>*) = (\<exists>j \<in> set stack. (j, anc) \<in> ?E\<^sup>*)"
      proof -
        have "(i, anc) \<in> ?E\<^sup>* \<longleftrightarrow> (\<exists>j \<in> set ps. (j, anc) \<in> ?E\<^sup>*)"
        proof
          assume "(i, anc) \<in> ?E\<^sup>*"
          then obtain j where "(i, j) \<in> ?E" "(j, anc) \<in> ?E\<^sup>*" using 3(1) by (auto elim: converse_rtranclE)
          then show "\<exists>j \<in> set ps. (j, anc) \<in> ?E\<^sup>*" using edges by blast
        next
          assume "\<exists>j \<in> set ps. (j, anc) \<in> ?E\<^sup>*"
          then show "(i, anc) \<in> ?E\<^sup>*" using edges by (auto intro: converse_rtrancl_into_rtrancl)
        qed
        then show ?thesis using snoc by auto
      qed
      moreover have "is_ancestor P anc seen stack t = is_ancestor P anc (insert i seen) (rest @ ps) t1"
        using 3 snoc step t1(1) by (simp add: Let_def ps_def split: option.splits)
      ultimately show ?thesis using rec by simp
    qed
  qed
qed

lemma is_ancestor_from:
  assumes "ok t" and "ref_ok n i" and "anc \<noteq> i"
  shows "\<exists>t'. is_ancestor P anc {} [i] t = Some (Inr ((i, anc) \<in> (history_edges (objs t))\<^sup>*), t') \<and> calm ok objs refs t t'"
  using is_ancestor_decides [OF assms(1) refl assms(2), of anc "{}" "[i]"] by (simp add: walk_inv_def)

text \<open>Refs: a name the peer lacks is set, a name whose target is in the history of the new one moves,
  anything else stays.\<close>

lemma sync_ref_list_spec:
  assumes "ok b" and "distinct (map fst rs)" and "\<forall>(n, i) \<in> set rs. ref_ok n i"
  shows "\<exists>rep' b'. sync_ref_list P rs rep b = Some (Inr rep', b') \<and> ok b' \<and> objs b' = objs b
    \<and> refs b' = ref_merge (objs b) (map_of rs) (refs b)
    \<and> ref_report (objs b) (refs b) rs rep rep'"
  using assms
proof (induction rs arbitrary: rep b)
  case Nil
  have "ref_merge (objs b) Map.empty (refs b) = refs b" by (rule ext) (simp add: ref_merge_def)
  with Nil show ?case
    by (intro exI [of _ rep] exI [of _ b]) (simp add: ref_report_def refs_new_def refs_ahead_def refs_apart_def)
next
  case (Cons r rs)
  obtain n i where r: "r = (n, i)" by (cases r)
  let ?O = "objs b"
  have fresh: "n \<notin> fst ` set rs" and ds: "distinct (map fst rs)" and okr: "ref_ok n i"
    and oks: "\<forall>(n, i) \<in> set rs. ref_ok n i" using Cons.prems r by auto
  from get_ref [OF Cons.prems(1) okr] obtain b0 where
    get: "tp_get_ref P n b = (Inr (refs b n), b0)" and calm0: "calm ok objs refs b b0" by blast
  note b0 = calmD [OF calm0]
  have keep: ?case
    if step: "sync_ref_list P (r # rs) rep b = sync_ref_list P rs rep1 b1"
      and b1: "ok b1" "objs b1 = ?O" "refs b1 = (refs b)(n := ref_merge ?O [n \<mapsto> i] (refs b) n)"
      and rep1: "ref_report ?O (refs b) [r] rep rep1" for rep1 b1
  proof -
    from Cons.IH [OF b1(1) ds oks, of rep1] obtain rep' b' where
      rec: "sync_ref_list P rs rep1 b1 = Some (Inr rep', b')" "ok b'" "objs b' = ?O"
        "refs b' = ref_merge ?O (map_of rs) (refs b1)" "ref_report ?O (refs b1) rs rep1 rep'"
      unfolding b1(2) by blast
    have "map_of rs n = None" using fresh by (simp add: map_of_eq_None_iff)
    then have "refs b' = ref_merge ?O (map_of (r # rs)) (refs b)"
      by (intro ext) (simp add: rec(4) b1(3) r ref_merge_def)
    moreover have "ref_report ?O (refs b) (r # rs) rep rep'"
    proof -
      have "refs b1 (fst x) = refs b (fst x)" if "x \<in> set rs" for x
      proof -
        have "fst x \<noteq> n" using that fresh by auto
        then show ?thesis by (simp add: b1(3))
      qed
      then have eq: "refs_new (refs b1) rs = refs_new (refs b) rs"
        "refs_ahead ?O (refs b1) rs = refs_ahead ?O (refs b) rs"
        "refs_apart ?O (refs b1) rs = refs_apart ?O (refs b) rs"
        by (simp_all add: refs_new_def refs_ahead_def refs_apart_def cong: filter_cong)
      have "ref_report ?O (refs b) rs rep1 rep'" using rec(5) unfolding ref_report_def eq .
      with rep1 show ?thesis by (rule ref_report_Cons)
    qed
    ultimately show ?thesis unfolding step using rec(1-3) by blast
  qed
  note facts = r ref_merge_def ref_report_def refs_new_def refs_ahead_def refs_apart_def
  show ?case
  proof (cases "refs b n")
    case None
    from set_ref [OF b0(1) okr] obtain b1 where
      b1: "tp_set_ref P n i b0 = (Inr (), b1)" "ok b1" "objs b1 = ?O" "refs b1 = (refs b)(n \<mapsto> i)"
      using b0 by auto
    show ?thesis
      by (rule keep [of "rep\<lparr>sr_set := sr_set rep @ [n]\<rparr>" b1]) (use None b1 get in \<open>simp_all add: facts\<close>)
  next
    case (Some j)
    show ?thesis
    proof (cases "j = i")
      case True
      show ?thesis
        by (rule keep [of rep b0]) (use Some True get b0 in \<open>simp_all add: facts fun_upd_idem\<close>)
    next
      case False
      from is_ancestor_from [OF b0(1) okr False] obtain b' where
        anc: "is_ancestor P j {} [i] b0 = Some (Inr ((i, j) \<in> (history_edges ?O)\<^sup>*), b')"
          and calm': "calm ok objs refs b0 b'" using b0 by auto
      note b' = calmD [OF calm_trans [OF calm0 calm']]
      show ?thesis
      proof (cases "(i, j) \<in> (history_edges ?O)\<^sup>*")
        case True
        from set_ref [OF b'(1) okr] obtain b1 where
          b1: "tp_set_ref P n i b' = (Inr (), b1)" "ok b1" "objs b1 = ?O" "refs b1 = (refs b)(n \<mapsto> i)"
          using b' by auto
        show ?thesis
          by (rule keep [of "rep\<lparr>sr_advanced := sr_advanced rep @ [n]\<rparr>" b1])
            (use Some False True anc b1 get in \<open>simp_all add: facts\<close>)
      next
        case no: False
        show ?thesis
          by (rule keep [of "rep\<lparr>sr_conflicted := sr_conflicted rep @ [n]\<rparr>" b'])
            (use Some False no anc get b' in \<open>simp_all add: facts fun_upd_idem\<close>)
      qed
    qed
  qed
qed

end

subsection \<open>A run between two peers\<close>

lemma on_from_simp [simp]: "m a = (r, a') \<Longrightarrow> on_from m (a, b) = (r, (a', b))"
  by (simp add: on_from_def)

lemma on_to_simp [simp]: "m b = (r, b') \<Longrightarrow> on_to m (a, b) = (r, (a, b'))"
  by (simp add: on_to_def)

text \<open>The two peers agree on when a record opens and on which refs are proper.\<close>

locale sync_pair =
  src: peer P ok1 objs1 refs1 sealed ref_ok + dst: peer Q ok2 objs2 refs2 sealed ref_ok
  for P :: "'a transport" and ok1 objs1 refs1
    and Q :: "'b transport" and ok2 objs2 refs2 and sealed ref_ok
begin

lemma sync_objects_spec:
  assumes "ok1 a" and "ok2 b" and "distinct ids" and "set ids \<subseteq> dom (objs1 a)"
  shows "\<exists>rep' a' b'. sync_objects P Q ids rep (a, b) = (Inr rep', (a', b')) \<and> calm ok1 objs1 refs1 a a'
    \<and> ok2 b' \<and> refs2 b' = refs2 b
    \<and> objs2 b' = (objs1 a |` set ids) ++ objs2 b
    \<and> rep' = rep\<lparr>sr_transferred := sr_transferred rep + card (set ids - dom (objs2 b)), sr_bytes := sr_bytes rep'\<rparr>"
  using assms
proof (induction ids arbitrary: a b rep)
  case Nil
  then show ?case by (auto simp: calm_refl)
next
  case (Cons i ids)
  from Cons.prems(4) obtain m where m: "objs1 a i = Some m" by auto
  from src.read_sealed [OF Cons.prems(1) m] obtain rec a1 where
    rec: "tp_read P i a = (Inr rec, a1)" "sealed i rec m" and calm1: "calm ok1 objs1 refs1 a a1" by blast
  note a1 = calmD [OF calm1]
  from dst.write_sealed [OF Cons.prems(2) rec(2)] obtain b1 where
    b1: "tp_write Q i rec b = (Inr (objs2 b i = None), b1)" "ok2 b1" "refs2 b1 = refs2 b"
      "objs2 b1 = (if objs2 b i = None then (objs2 b)(i \<mapsto> m) else objs2 b)" by blast
  let ?rep = "if objs2 b i = None then rep\<lparr>sr_transferred := sr_transferred rep + 1,
      sr_bytes := sr_bytes rep + of_nat (length rec)\<rparr> else rep"
  have "distinct ids" "set ids \<subseteq> dom (objs1 a1)" using Cons.prems(3,4) a1(2) by simp_all
  from Cons.IH [OF a1(1) b1(2) this, of ?rep] obtain rep' a' b' where
    rec': "sync_objects P Q ids ?rep (a1, b1) = (Inr rep', (a', b'))" "calm ok1 objs1 refs1 a1 a'"
      "ok2 b'" "refs2 b' = refs2 b1" "objs2 b' = (objs1 a1 |` set ids) ++ objs2 b1"
      "rep' = ?rep\<lparr>sr_transferred := sr_transferred ?rep + card (set ids - dom (objs2 b1)), sr_bytes := sr_bytes rep'\<rparr>"
    by blast
  have i: "i \<notin> set ids" using Cons.prems(3) by simp
  have "objs2 b' = (objs1 a |` set (i # ids)) ++ objs2 b"
    by (rule ext) (use i m in \<open>auto simp: rec'(5) b1(4) a1(2) map_add_def restrict_map_def split: option.split\<close>)
  moreover have "rep' = rep\<lparr>sr_transferred := sr_transferred rep + card (set (i # ids) - dom (objs2 b)),
      sr_bytes := sr_bytes rep'\<rparr>"
  proof (cases "objs2 b i = None")
    case True
    then have "set ids - dom (objs2 b1) = set ids - dom (objs2 b)" using i b1(4) by auto
    moreover have "set (i # ids) - dom (objs2 b) = insert i (set ids - dom (objs2 b))" using True by auto
    ultimately show ?thesis using rec'(6) True i by simp
  next
    case False
    then have "set (i # ids) - dom (objs2 b) = set ids - dom (objs2 b1)" using b1(4) by auto
    then show ?thesis using rec'(6) False by simp
  qed
  moreover have "sync_objects P Q (i # ids) rep (a, b) = (Inr rep', (a', b'))"
    using rec(1) b1(1) rec'(1) by simp
  moreover have "refs2 b' = refs2 b" using rec'(4) b1(3) by simp
  ultimately show ?case using calm_trans [OF calm1 rec'(2)] rec'(3) by blast
qed

lemma sync_spec:
  assumes "ok1 a" and "ok2 b"
  obtains rep a' b' rs where "sync P Q (a, b) = Some (Inr rep, (a', b'))" "calm ok1 objs1 refs1 a a'" "ok2 b'"
    "objs2 b' = objs1 a ++ objs2 b" "refs2 b' = ref_merge (objs1 a ++ objs2 b) (refs1 a) (refs2 b)"
    "sr_transferred rep = card (dom (objs1 a) - dom (objs2 b))"
    "distinct (map fst rs)" "map_of rs = refs1 a"
    "sr_set rep = refs_new (refs2 b) rs" "sr_advanced rep = refs_ahead (objs1 a ++ objs2 b) (refs2 b) rs"
    "sr_conflicted rep = refs_apart (objs1 a ++ objs2 b) (refs2 b) rs"
proof -
  let ?missing = "dom (objs1 a) - dom (objs2 b)"
  let ?ids = "sorted_list_of_set ?missing"
  let ?rep0 = "sync_report_empty\<lparr>sr_source := card (dom (objs1 a)), sr_dest := card (dom (objs2 b))\<rparr>"
  have fin: "finite ?missing" using src.finite_objs [OF assms(1)] by simp
  then have ids: "distinct ?ids" "set ?ids = ?missing" by simp_all
  from src.have_objs [OF assms(1)] obtain a1 where
    have1: "tp_have P a = (Inr (dom (objs1 a)), a1)" and calm1: "calm ok1 objs1 refs1 a a1" by blast
  from dst.have_objs [OF assms(2)] obtain b1 where
    have2: "tp_have Q b = (Inr (dom (objs2 b)), b1)" and calm2: "calm ok2 objs2 refs2 b b1" by blast
  note a1 = calmD [OF calm1] and b1 = calmD [OF calm2]
  have sub: "set ?ids \<subseteq> dom (objs1 a1)" using ids(2) a1(2) by auto
  from sync_objects_spec [OF a1(1) b1(1) ids(1) sub, of ?rep0] obtain rep1 a2 b2 where
    ob: "sync_objects P Q ?ids ?rep0 (a1, b1) = (Inr rep1, (a2, b2))" "calm ok1 objs1 refs1 a1 a2"
      "ok2 b2" "refs2 b2 = refs2 b" "objs2 b2 = (objs1 a |` ?missing) ++ objs2 b"
      "rep1 = ?rep0\<lparr>sr_transferred := card ?missing, sr_bytes := sr_bytes rep1\<rparr>"
    unfolding ids(2) a1(2) b1(2,3) by (auto simp: sync_report_empty_def Diff_idemp)
  have objs: "objs2 b2 = objs1 a ++ objs2 b"
    by (rule ext) (auto simp: ob(5) map_add_def restrict_map_def domIff split: option.split)
  note a2 = calmD [OF calm_trans [OF calm1 ob(2)]]
  from src.list_refs [OF a2(1)] obtain rs a3 where
    rs: "tp_refs P a2 = (Inr rs, a3)" "distinct (map fst rs)" "map_of rs = refs1 a"
      and calm3: "calm ok1 objs1 refs1 a2 a3" using a2(3) by auto
  have "\<forall>(n, i) \<in> set rs. ref_ok n i"
    using rs(2,3) src.refs_ok [OF assms(1)] by (auto simp flip: rs(3) dest: map_of_is_SomeI)
  from dst.sync_ref_list_spec [OF ob(3) rs(2) this, of rep1] obtain rep b3 where
    rf: "sync_ref_list Q rs rep1 b2 = Some (Inr rep, b3)" "ok2 b3" "objs2 b3 = objs2 b2"
      "refs2 b3 = ref_merge (objs2 b2) (map_of rs) (refs2 b2)" "ref_report (objs2 b2) (refs2 b2) rs rep1 rep"
    by blast
  have "sync P Q (a, b) = Some (Inr rep, (a3, b3))"
    using ob(1) rs(1) rf(1) have1 have2 by (simp add: sync_def sync_refs_def)
  moreover have "calm ok1 objs1 refs1 a a3" using calm1 ob(2) calm3 by (blast intro: calm_trans)
  moreover have "sr_transferred rep1 = card ?missing" "sr_set rep1 = []" "sr_advanced rep1 = []" "sr_conflicted rep1 = []"
    by (subst ob(6), simp add: sync_report_empty_def)+
  ultimately show thesis
    using that [of rep a3 b3 rs] rf objs rs ob(4) by (simp add: ref_report_def)
qed

text \<open>Nothing is lost on the receiving side: its objects stay, and the old target of a ref stays in
  the history of the new one.\<close>

lemma sync_keeps:
  assumes "ok1 a" and "ok2 b" and "sync P Q (a, b) = Some (Inr rep, (a', b'))"
  shows "calm ok1 objs1 refs1 a a'" and "objs2 b \<subseteq>\<^sub>m objs2 b'" and "dom (objs1 a) \<subseteq> dom (objs2 b')"
    and "refs2 b n = Some j \<Longrightarrow> \<exists>i. refs2 b' n = Some i \<and> (i, j) \<in> (history_edges (objs2 b'))\<^sup>*"
proof -
  from sync_spec [OF assms(1,2)] obtain rep0 a0 b0 where
    run: "sync P Q (a, b) = Some (Inr rep0, (a0, b0))" "calm ok1 objs1 refs1 a a0" "objs2 b0 = objs1 a ++ objs2 b"
      "refs2 b0 = ref_merge (objs1 a ++ objs2 b) (refs1 a) (refs2 b)" by blast
  with assms(3) have b0: "b0 = b'" "a0 = a'" by simp_all
  then show "calm ok1 objs1 refs1 a a'" using run(2) by simp
  show "objs2 b \<subseteq>\<^sub>m objs2 b'" "dom (objs1 a) \<subseteq> dom (objs2 b')" using run(3) b0 by (auto simp: map_le_def)
  show "refs2 b n = Some j \<Longrightarrow> \<exists>i. refs2 b' n = Some i \<and> (i, j) \<in> (history_edges (objs2 b'))\<^sup>*"
    using run(3,4) b0 by (auto simp: ref_merge_def split: option.split)
qed

text \<open>A second run moves nothing.\<close>

lemma sync_settled:
  assumes "ok1 a" and "ok2 b" and "objs1 a \<subseteq>\<^sub>m objs2 b"
    and "\<And>n i. refs1 a n = Some i \<Longrightarrow> \<exists>j. refs2 b n = Some j \<and> (j = i \<or> (i, j) \<notin> (history_edges (objs2 b))\<^sup>*)"
  shows "\<exists>rep a' b'. sync P Q (a, b) = Some (Inr rep, (a', b')) \<and> \<not> moved_anything rep
    \<and> calm ok1 objs1 refs1 a a' \<and> calm ok2 objs2 refs2 b b'"
proof -
  obtain rep a' b' rs where
    run: "sync P Q (a, b) = Some (Inr rep, (a', b'))" "calm ok1 objs1 refs1 a a'" "ok2 b'"
      "objs2 b' = objs1 a ++ objs2 b" "refs2 b' = ref_merge (objs1 a ++ objs2 b) (refs1 a) (refs2 b)"
      "sr_transferred rep = card (dom (objs1 a) - dom (objs2 b))"
      "distinct (map fst rs)" "map_of rs = refs1 a"
      "sr_set rep = refs_new (refs2 b) rs" "sr_advanced rep = refs_ahead (objs1 a ++ objs2 b) (refs2 b) rs"
      "sr_conflicted rep = refs_apart (objs1 a ++ objs2 b) (refs2 b) rs"
    by (rule sync_spec [OF assms(1,2)])
  have objs: "objs1 a ++ objs2 b = objs2 b"
  proof
    fix i
    show "(objs1 a ++ objs2 b) i = objs2 b i"
      using assms(3) by (cases "objs1 a i") (auto simp: map_add_def map_le_def dom_def split: option.split)
  qed
  have "dom (objs1 a) - dom (objs2 b) = {}" using assms(3) by (auto simp: map_le_def dom_def)
  with run(6) have "sr_transferred rep = 0" by (simp only: card.empty)
  moreover have in_rs: "refs1 a n = Some i" if "(n, i) \<in> set rs" for n i using run(7,8) that by (metis map_of_is_SomeI)
  have "refs_new (refs2 b) rs = []" "refs_ahead (objs2 b) (refs2 b) rs = []"
    using assms(4) in_rs by (fastforce simp: refs_new_def refs_ahead_def filter_empty_conv)+
  moreover have "refs2 b' = refs2 b"
    using assms(4) by (intro ext) (fastforce simp: run(5) objs ref_merge_def split: option.split)
  ultimately show ?thesis using run objs by (simp add: moved_anything_def calm_def)
qed

end

subsection \<open>A store is a peer\<close>

text \<open>
  A store of the identity \<open>k\<close> whose refs have proper names and targets: \<open>U\<close> is the set of plaintexts
  the hash tells apart, each the encoding of an object; \<open>names\<close> is the set of ref names and \<open>lim\<close>
  bounds the records, which only the wire needs.
\<close>

definition decodable :: "bytes set \<Rightarrow> bool" where
  "decodable U \<longleftrightarrow> (\<forall>m \<in> U. is_ok (object_decode m))"

definition proper_ref :: "string set \<Rightarrow> string \<Rightarrow> object_id \<Rightarrow> bool" where
  "proper_ref names n i \<longleftrightarrow> n \<in> names \<and> utf8_str n \<and> wf_id i"

definition refs_proper :: "ext \<Rightarrow> string set \<Rightarrow> lstore \<Rightarrow> bool" where
  "refs_proper X names s \<longleftrightarrow>
     distinct (map fst (st_refs s))
     \<and> (\<forall>n body. map_of (st_refs s) n = Some body \<longrightarrow> (\<exists>i. proper_ref names n i \<and> body = id_to_hex X i))"

definition store_ok :: "ext \<Rightarrow> bytes set \<Rightarrow> string set \<Rightarrow> nat \<Rightarrow> ls_keys \<Rightarrow> lstore \<Rightarrow> bool" where
  "store_ok X U names lim k s \<longleftrightarrow>
     ls_okay X U k s \<and> decodable U \<and> refs_proper X names s \<and> (\<forall>p rec. map_of (st_objects s) p = Some rec \<longrightarrow> length rec \<le> lim)"

definition store_refs :: "ext \<Rightarrow> lstore \<Rightarrow> string \<Rightarrow> object_id option" where
  "store_refs X s n = (case store_get_ref X s n of Inr t \<Rightarrow> t | Inl e \<Rightarrow> None)"

definition sealed_for :: "ext \<Rightarrow> bytes set \<Rightarrow> nat \<Rightarrow> ls_keys \<Rightarrow> object_id \<Rightarrow> bytes \<Rightarrow> bytes \<Rightarrow> bool" where
  "sealed_for X U lim k i rec m \<longleftrightarrow> open_checked X k i rec = Inr m \<and> m \<in> U \<and> wf_id i \<and> length rec \<le> lim"

lemma hex_ref:
  assumes "ext_ok X" and "wf_id i"
  shows "utf8_str (id_to_hex X i)" and "id_from_hex X (str_trim (id_to_hex X i)) = Some i"
proof -
  have plain: "list_all plain_char (id_to_hex X i)"
    using assms by (simp add: id_to_hex_def ext_ok_hex_plain)
  then show "utf8_str (id_to_hex X i)"
    by (intro utf8_str_ascii) (simp add: ascii_str_def plain_char_def list_all_iff)
  show "id_from_hex X (str_trim (id_to_hex X i)) = Some i" using plain assms by (simp add: str_trim_plain)
qed

lemma proper_get_ref:
  assumes X: "ext_ok X" and s: "refs_proper X names s"
  shows "store_get_ref X s n = Inr (store_refs X s n)"
    and "store_refs X s n = Some i \<Longrightarrow> proper_ref names n i"
proof -
  have target: "\<exists>i. proper_ref names n i \<and> body = id_to_hex X i" if "map_of (st_refs s) n = Some body" for body
    using s that unfolding refs_proper_def by blast
  then have get: "store_get_ref X s n = (case map_of (st_refs s) n of None \<Rightarrow> Inr None
      | Some body \<Rightarrow> Inr (id_from_hex X (str_trim body)))"
    using hex_ref(1) [OF X] by (auto simp: store_get_ref_def proper_ref_def split: option.split)
  then show "store_get_ref X s n = Inr (store_refs X s n)"
    by (simp add: store_refs_def split: option.split)
  show "store_refs X s n = Some i \<Longrightarrow> proper_ref names n i"
    using get target hex_ref(2) [OF X]
    by (fastforce simp: store_refs_def proper_ref_def split: option.splits)
qed

lemma local_refs_spec:
  assumes X: "ext_ok X" and s: "refs_proper X names s"
  shows "\<exists>rs. local_ref_list X s (store_list_refs s) = Inr rs \<and> distinct (map fst rs) \<and> map_of rs = store_refs X s"
proof -
  note get = proper_get_ref(1) [OF X s]
  let ?pick = "\<lambda>n. map_option (Pair n) (store_refs X s n)"
  have list: "local_ref_list X s ns = Inr (List.map_filter ?pick ns)" for ns
    by (induction ns) (auto simp: get ls_res_def map_filter_simps split: option.split)
  have keys: "map fst (List.map_filter ?pick ns) = filter (\<lambda>n. store_refs X s n \<noteq> None) ns" for ns
    by (induction ns) (auto simp: map_filter_simps split: option.split)
  have look: "map_of (List.map_filter ?pick ns) n = (if n \<in> set ns then store_refs X s n else None)" for ns n
    by (induction ns) (auto simp: map_filter_simps split: option.split)
  have names: "store_list_refs s = map fst (st_refs s)"
    using s by (auto simp: store_list_refs_def refs_proper_def proper_ref_def to_string_lossy_id intro!: map_cong)
  have "store_refs X s n = None" if "n \<notin> set (map fst (st_refs s))" for n
  proof -
    from that have "map_of (st_refs s) n = None" by (auto simp: map_of_eq_None_iff)
    then show ?thesis by (simp add: store_refs_def store_get_ref_def)
  qed
  then have "map_of (List.map_filter ?pick (store_list_refs s)) = store_refs X s"
    by (intro ext) (auto simp: look names)
  moreover have "distinct (map fst (List.map_filter ?pick (store_list_refs s)))"
    using s unfolding keys by (simp add: names refs_proper_def)
  ultimately show ?thesis using list by blast
qed

lemma set_ref_proper:
  assumes X: "ext_ok X" and s: "refs_proper X names s" and n: "proper_ref names n i"
  shows "refs_proper X names (store_set_ref X n i s)"
    and "store_refs X (store_set_ref X n i s) = (store_refs X s)(n \<mapsto> i)"
proof -
  show "refs_proper X names (store_set_ref X n i s)"
    using s n unfolding refs_proper_def store_set_ref_def
    by (auto simp: distinct_update update_conv' split: if_splits)
  show "store_refs X (store_set_ref X n i s) = (store_refs X s)(n \<mapsto> i)"
    using n store_get_set_ref [OF X] by (auto simp: store_refs_def proper_ref_def)
qed

lemma store_parents:
  assumes "store_ok X U names lim k s"
  shows "local_parents X i s = Inr (parents_in (store_abs X s) i)"
proof -
  have X: "ext_ok X" "store_inv X U s" and U: "decodable U"
    using assms by (simp_all add: store_ok_def ls_okay_def)
  show ?thesis
  proof (cases "map_of (st_objects s) (path_for X i)")
    case None
    then show ?thesis
      by (simp add: local_parents_def parents_in_def store_abs_def ls_get_def store_get_def store_read_record_def)
  next
    case (Some rec)
    from store_inv_file [OF X Some] obtain m where
      m: "open_checked X (st_keys s) i rec = Inr m" "m \<in> U" by blast
    then obtain ob where ob: "object_decode m = Inr ob" using U by (auto simp: decodable_def is_ok_iff)
    have "store_get X s i = Inr m" using Some m by (simp add: store_get_def store_read_record_def)
    with ob show ?thesis
      by (cases ob) (simp_all add: local_parents_def parents_in_def store_abs_def ls_get_def)
  qed
qed

lemma store_writes:
  assumes ok: "store_ok X U names lim k s" and rec: "sealed_for X U lim k i rec m"
  shows "\<exists>s'. store_write_record X i rec s = (Inr (store_abs X s i = None), s') \<and> store_ok X U names lim k s'
    \<and> store_refs X s' = store_refs X s
    \<and> store_abs X s' = (if store_abs X s i = None then (store_abs X s)(i \<mapsto> m) else store_abs X s)"
proof -
  have X: "ext_ok X" "store_inv X U s" and k: "st_keys s = k"
    using ok by (simp_all add: store_ok_def ls_okay_def)
  note has = store_inv_has_iff [OF X, of i]
  show ?thesis
  proof (cases "map_of (st_objects s) (path_for X i) = None")
    case False
    then have "store_write_record X i rec s = (Inr False, s)" by (simp add: store_write_record_def Let_def)
    moreover have "store_abs X s i \<noteq> None" using has False by (simp add: store_has_def)
    ultimately show ?thesis using ok by auto
  next
    case True
    let ?s = "commit_record (path_for X i) rec s"
    have open_: "open_checked X (st_keys s) i rec = Inr m" and m: "m \<in> U" "wf_id i" "length rec \<le> lim"
      using rec k by (simp_all add: sealed_for_def)
    have step: "store_write_record X i rec s = (Inr True, ?s)"
      using True open_ by (simp add: store_write_record_def Let_def)
    have "store_abs X s i = None" using has True by (simp add: store_has_def)
    moreover have "store_inv X U ?s" by (rule commit_record_inv [OF X m(2,1) open_])
    moreover have "store_abs X ?s = (store_abs X s)(i \<mapsto> m)" by (rule commit_record_abs [OF X(1) open_])
    moreover have "store_refs X ?s = store_refs X s" by (intro ext) (simp add: store_refs_def store_get_ref_def)
    moreover have "\<forall>p r. map_of (st_objects ?s) p = Some r \<longrightarrow> length r \<le> lim"
      using ok m(3) by (auto simp: commit_record_objects X(1) store_ok_def)
    ultimately show ?thesis
      using step ok by (simp add: store_ok_def ls_okay_def refs_proper_def)
  qed
qed

interpretation local_peer: peer "local_transport X" "store_ok X U names lim k" "store_abs X" "store_refs X"
    "sealed_for X U lim k" "proper_ref names"
  for X U names lim k
proof
  fix t i n m rec
  assume ok: "store_ok X U names lim k t"
  then have X: "ext_ok X" and inv: "store_inv X U t" and keys: "st_keys t = k" and rp: "refs_proper X names t"
    by (simp_all add: store_ok_def ls_okay_def)
  have ids: "set (store_list_ids X t) = dom (store_abs X t)"
    using store_list_ids_iff [OF X inv] by (auto simp: dom_def)
  then show "finite (dom (store_abs X t))" by (metis List.finite_set)
  have calm: "calm (store_ok X U names lim k) (store_abs X) (store_refs X) t t" using ok by (rule calm_refl)
  have "tp_have (local_transport X) t = (Inr (dom (store_abs X t)), t)"
    by (simp add: local_transport_def ids)
  with calm show "\<exists>t'. tp_have (local_transport X) t = (Inr (dom (store_abs X t)), t')
      \<and> calm (store_ok X U names lim k) (store_abs X) (store_refs X) t t'" by blast
  have "\<exists>rs. tp_refs (local_transport X) t = (Inr rs, t) \<and> distinct (map fst rs) \<and> map_of rs = store_refs X t"
    using local_refs_spec [OF X rp] by (simp add: local_transport_def)
  with calm show "\<exists>rs t'. tp_refs (local_transport X) t = (Inr rs, t') \<and> distinct (map fst rs)
      \<and> map_of rs = store_refs X t \<and> calm (store_ok X U names lim k) (store_abs X) (store_refs X) t t'" by blast
  have "tp_parents (local_transport X) i t = (Inr (parents_in (store_abs X t) i), t)"
    by (simp add: local_transport_def store_parents [OF ok])
  with calm show "\<exists>t'. tp_parents (local_transport X) i t = (Inr (parents_in (store_abs X t) i), t')
      \<and> calm (store_ok X U names lim k) (store_abs X) (store_refs X) t t'" by blast
  show "proper_ref names n i" if "store_refs X t n = Some i" using proper_get_ref(2) [OF X rp that] .
  have "tp_get_ref (local_transport X) n t = (Inr (store_refs X t n), t)"
    using proper_get_ref(1) [OF X rp] by (simp add: local_transport_def ls_res_def)
  with calm show "\<exists>t'. tp_get_ref (local_transport X) n t = (Inr (store_refs X t n), t')
      \<and> calm (store_ok X U names lim k) (store_abs X) (store_refs X) t t'" by blast
  show "\<exists>rec t'. tp_read (local_transport X) i t = (Inr rec, t') \<and> sealed_for X U lim k i rec m
      \<and> calm (store_ok X U names lim k) (store_abs X) (store_refs X) t t'"
    if "store_abs X t i = Some m"
  proof -
    from that obtain rec where "map_of (st_objects t) (path_for X i) = Some rec" "open_checked X k i rec = Inr m"
      by (auto simp: store_abs_Some_iff store_get_Inr_iff keys)
    moreover from this(1) have "length rec \<le> lim" using ok unfolding store_ok_def by blast
    ultimately show ?thesis
      using store_inv_abs [OF X inv that] calm
      by (simp add: local_transport_def ls_res_def store_read_record_def sealed_for_def)
  qed
  show "\<exists>t'. tp_write (local_transport X) i rec t = (Inr (store_abs X t i = None), t')
      \<and> store_ok X U names lim k t' \<and> store_refs X t' = store_refs X t
      \<and> store_abs X t' = (if store_abs X t i = None then (store_abs X t)(i \<mapsto> m) else store_abs X t)"
    if "sealed_for X U lim k i rec m"
  proof -
    from store_writes [OF ok that] obtain t' where
      t': "store_write_record X i rec t = (Inr (store_abs X t i = None), t')" "store_ok X U names lim k t'"
        "store_refs X t' = store_refs X t"
        "store_abs X t' = (if store_abs X t i = None then (store_abs X t)(i \<mapsto> m) else store_abs X t)" by blast
    from t'(1) have "tp_write (local_transport X) i rec t = (Inr (store_abs X t i = None), t')"
      by (simp add: local_transport_def)
    with t'(2-4) show ?thesis by blast
  qed
  show "\<exists>t'. tp_set_ref (local_transport X) n i t = (Inr (), t') \<and> store_ok X U names lim k t'
      \<and> store_abs X t' = store_abs X t \<and> store_refs X t' = (store_refs X t)(n \<mapsto> i)"
    if "proper_ref names n i"
    using set_ref_proper [OF X rp that] ok by (simp add: local_transport_def store_ok_def) (simp add: store_set_ref_def)
qed

interpretation local_pair: sync_pair "local_transport X" "store_ok X U names lim k" "store_abs X" "store_refs X"
    "local_transport X" "store_ok X U names lim k" "store_abs X" "store_refs X" "sealed_for X U lim k" "proper_ref names"
  for X U names lim k
  by unfold_locales

text \<open>Two stores of one identity hold the same plaintext under the same address.\<close>

lemma store_abs_agree:
  assumes "store_ok X U names lim k a" and "store_ok X U names lim k b"
    and "store_abs X a i = Some m" and "store_abs X b i = Some m'"
  shows "m = m'"
proof -
  have a: "ext_ok X" "store_inv X U a" "st_keys a = k" and b: "store_inv X U b" "st_keys b = k"
    using assms(1,2) by (simp_all add: store_ok_def ls_okay_def)
  have "id_of X k m = id_of X k m'" "m \<in> U" "m' \<in> U"
    using store_inv_abs [OF a(1,2) assms(3)] store_inv_abs [OF a(1) b(1) assms(4)] a(3) b(2) by simp_all
  moreover have "inj_on (id_of X k) U" using a(2,3) by (simp add: store_inv_def)
  ultimately show ?thesis by (auto dest: inj_onD)
qed

lemma store_abs_merge:
  assumes "store_ok X U names lim k a" and "store_ok X U names lim k b"
  shows "store_abs X a ++ store_abs X b = store_abs X b ++ store_abs X a"
  by (rule ext) (auto simp: map_add_def dest: store_abs_agree [OF assms] split: option.split)

end
