(* ===== verification/Wire.thy ===== *)
theory Wire
  imports Sync
begin

section \<open>The wire\<close>

text \<open>
  \<open>crates/constellation/src/net/wire.rs\<close>: requests and responses as bytes, and whole frames over a
  Noise channel in segments.  The Noise transport state of the \<open>snow\<close> crate is a record of two
  functions on a state of its own, with the text \<open>quinn\<close> reports when a stream ends inside a read;
  \<open>noise_ok\<close> is what \<open>snow\<close> promises of two states that came out of one handshake.  A stream is the
  bytes that arrive before it ends.
\<close>

definition max_segment :: nat where
  "max_segment = 65519"

datatype req =
    ReqHave
  | ReqRead object_id
  | ReqWrite object_id bytes
  | ReqRefs
  | ReqGetRef string
  | ReqSetRef string object_id
  | ReqParents object_id
  | ReqBye

datatype resp =
    RespHave "object_id list"
  | RespRecord bytes
  | RespWrote bool
  | RespRefs "(string \<times> object_id) list"
  | RespRef "object_id option"
  | RespDid
  | RespParents "object_id list option"
  | RespErr string

subsection \<open>Encoding\<close>

definition put_ids :: "object_id list \<Rightarrow> bytes" where
  "put_ids ids = be_bytes 4 (of_nat (length ids) :: u32) @ concat ids"

definition put_opt_id :: "object_id option \<Rightarrow> bytes" where
  "put_opt_id i = (case i of Some i \<Rightarrow> 1 # i | None \<Rightarrow> [0])"

definition put_ref :: "string \<times> object_id \<Rightarrow> bytes" where
  "put_ref r = put_str32 (fst r) @ snd r"

definition req_encode :: "req \<Rightarrow> bytes" where
  "req_encode r =
     (case r of
        ReqHave \<Rightarrow> [1]
      | ReqRead i \<Rightarrow> 2 # i
      | ReqWrite i rec \<Rightarrow> 3 # i @ put_bytes32 rec
      | ReqRefs \<Rightarrow> [4]
      | ReqGetRef name \<Rightarrow> 5 # put_str32 name
      | ReqSetRef name i \<Rightarrow> 6 # put_str32 name @ i
      | ReqParents i \<Rightarrow> 7 # i
      | ReqBye \<Rightarrow> [8])"

definition resp_encode :: "resp \<Rightarrow> bytes" where
  "resp_encode r =
     (case r of
        RespHave ids \<Rightarrow> 1 # put_ids ids
      | RespRecord rec \<Rightarrow> 2 # put_bytes32 rec
      | RespWrote b \<Rightarrow> [3, if b then 1 else 0]
      | RespRefs pairs \<Rightarrow> 4 # be_bytes 4 (of_nat (length pairs) :: u32) @ concat (map put_ref pairs)
      | RespRef i \<Rightarrow> 5 # put_opt_id i
      | RespDid \<Rightarrow> [6]
      | RespParents ids \<Rightarrow> 7 # (case ids of Some ids \<Rightarrow> 1 # put_ids ids | None \<Rightarrow> [0])
      | RespErr s \<Rightarrow> 8 # put_str32 s)"

subsection \<open>Decoding\<close>

text \<open>What \<open>from_utf8\<close> says about a bad string is shortened to one text.\<close>

definition wire_end :: sync_error where "wire_end = SyNet ''short frame''"
definition wire_utf8 :: sync_error where "wire_utf8 = SyNet ''invalid utf-8''"

definition rd_wire_id :: "(sync_error, object_id) reader" where
  "rd_wire_id = rd_id wire_end"

definition rd_wire_str :: "(sync_error, string) reader" where
  "rd_wire_str = rd_str32 wire_end wire_utf8"

definition rd_ids :: "(sync_error, object_id list) reader" where
  "rd_ids = rd_bind (rd_be wire_end 4) (\<lambda>n :: u32. rd_times (unat n) rd_wire_id)"

definition rd_opt_id :: "(sync_error, object_id option) reader" where
  "rd_opt_id =
     rd_bind (rd_byte wire_end) (\<lambda>b.
       if b = 0 then rd_ret None else rd_bind rd_wire_id (\<lambda>i. rd_ret (Some i)))"

definition rd_ref :: "(sync_error, string \<times> object_id) reader" where
  "rd_ref = rd_bind rd_wire_str (\<lambda>name. rd_bind rd_wire_id (\<lambda>i. rd_ret (name, i)))"

definition rd_req :: "(sync_error, req) reader" where
  "rd_req =
     rd_bind (rd_byte wire_end) (\<lambda>t.
       if t = 1 then rd_ret ReqHave
       else if t = 2 then rd_bind rd_wire_id (\<lambda>i. rd_ret (ReqRead i))
       else if t = 3 then rd_bind rd_wire_id (\<lambda>i. rd_bind (rd_bytes32 wire_end) (\<lambda>rec. rd_ret (ReqWrite i rec)))
       else if t = 4 then rd_ret ReqRefs
       else if t = 5 then rd_bind rd_wire_str (\<lambda>name. rd_ret (ReqGetRef name))
       else if t = 6 then rd_bind rd_wire_str (\<lambda>name. rd_bind rd_wire_id (\<lambda>i. rd_ret (ReqSetRef name i)))
       else if t = 7 then rd_bind rd_wire_id (\<lambda>i. rd_ret (ReqParents i))
       else if t = 8 then rd_ret ReqBye
       else rd_fail (SyNet (''bad request tag '' @ show_nat (unat t))))"

definition rd_resp :: "(sync_error, resp) reader" where
  "rd_resp =
     rd_bind (rd_byte wire_end) (\<lambda>t.
       if t = 1 then rd_bind rd_ids (\<lambda>ids. rd_ret (RespHave ids))
       else if t = 2 then rd_bind (rd_bytes32 wire_end) (\<lambda>rec. rd_ret (RespRecord rec))
       else if t = 3 then rd_bind (rd_byte wire_end) (\<lambda>b. rd_ret (RespWrote (b \<noteq> 0)))
       else if t = 4 then
         rd_bind (rd_be wire_end 4) (\<lambda>n :: u32.
           rd_bind (rd_times (unat n) rd_ref) (\<lambda>pairs. rd_ret (RespRefs pairs)))
       else if t = 5 then rd_bind rd_opt_id (\<lambda>i. rd_ret (RespRef i))
       else if t = 6 then rd_ret RespDid
       else if t = 7 then
         rd_bind (rd_byte wire_end) (\<lambda>b.
           if b = 0 then rd_ret (RespParents None)
           else rd_bind rd_ids (\<lambda>ids. rd_ret (RespParents (Some ids))))
       else if t = 8 then rd_bind rd_wire_str (\<lambda>s. rd_ret (RespErr s))
       else rd_fail (SyNet (''bad response tag '' @ show_nat (unat t))))"

text \<open>Bytes after the message are ignored.\<close>

definition req_decode :: "bytes \<Rightarrow> sync_error + req" where
  "req_decode buf = (case rd_req buf of Inl e \<Rightarrow> Inl e | Inr (r, rest) \<Rightarrow> Inr r)"

definition resp_decode :: "bytes \<Rightarrow> sync_error + resp" where
  "resp_decode buf = (case rd_resp buf of Inl e \<Rightarrow> Inl e | Inr (r, rest) \<Rightarrow> Inr r)"

subsection \<open>The codecs agree\<close>

definition wf_req :: "req \<Rightarrow> bool" where
  "wf_req r =
     (case r of
        ReqHave \<Rightarrow> True
      | ReqRead i \<Rightarrow> wf_id i
      | ReqWrite i rec \<Rightarrow> wf_id i \<and> len32 rec
      | ReqRefs \<Rightarrow> True
      | ReqGetRef name \<Rightarrow> wf_str32 name
      | ReqSetRef name i \<Rightarrow> wf_str32 name \<and> wf_id i
      | ReqParents i \<Rightarrow> wf_id i
      | ReqBye \<Rightarrow> True)"

definition wf_ids :: "object_id list \<Rightarrow> bool" where
  "wf_ids ids \<longleftrightarrow> len32 ids \<and> list_all wf_id ids"

definition wf_ref :: "string \<times> object_id \<Rightarrow> bool" where
  "wf_ref r \<longleftrightarrow> wf_str32 (fst r) \<and> wf_id (snd r)"

definition wf_resp :: "resp \<Rightarrow> bool" where
  "wf_resp r =
     (case r of
        RespHave ids \<Rightarrow> wf_ids ids
      | RespRecord rec \<Rightarrow> len32 rec
      | RespWrote b \<Rightarrow> True
      | RespRefs pairs \<Rightarrow> len32 pairs \<and> list_all wf_ref pairs
      | RespRef i \<Rightarrow> (case i of Some i \<Rightarrow> wf_id i | None \<Rightarrow> True)
      | RespDid \<Rightarrow> True
      | RespParents ids \<Rightarrow> (case ids of Some ids \<Rightarrow> wf_ids ids | None \<Rightarrow> True)
      | RespErr s \<Rightarrow> wf_str32 s)"

lemmas wire_id = id_codec.dec_enc [of _ wire_end] id_codec.dec_bind [of _ wire_end]
lemmas wire_str = str32.dec_enc [of _ wire_end wire_utf8] str32.dec_bind [of _ wire_end wire_utf8]

interpretation ref_codec: prefix_codec put_ref rd_ref wf_ref
  by unfold_locales (auto simp: put_ref_def rd_ref_def wf_ref_def rd_wire_id_def rd_wire_str_def rd_bind_def
      wire_str wire_id)

lemma rd_ids_put: "wf_ids ids \<Longrightarrow> rd_ids (put_ids ids @ rest) = Inr (ids, rest)"
  using id_codec.dec_times [of ids wire_end rest]
  by (simp add: rd_ids_def put_ids_def wf_ids_def codec_simps unat_of_nat_len len32_def rd_wire_id_def)

interpretation req_codec: prefix_codec req_encode rd_req wf_req
proof
  fix r rest
  assume "wf_req r"
  then show "rd_req (req_encode r @ rest) = Inr (r, rest)"
    by (cases r) (simp_all add: req_encode_def rd_req_def wf_req_def rd_wire_id_def rd_wire_str_def rd_bind_def
        wire_id wire_str bytes32.dec_enc)
qed

interpretation resp_codec: prefix_codec resp_encode rd_resp wf_resp
proof
  fix r rest
  assume wf: "wf_resp r"
  show "rd_resp (resp_encode r @ rest) = Inr (r, rest)"
  proof (cases r)
    case (RespRefs pairs)
    with wf ref_codec.dec_times [of pairs rest] show ?thesis
      by (simp add: resp_encode_def rd_resp_def wf_resp_def rd_bind_def codec_simps unat_of_nat_len len32_def)
  qed (use wf in \<open>auto simp: resp_encode_def rd_resp_def wf_resp_def rd_wire_id_def rd_wire_str_def rd_bind_def
      wire_id wire_str bytes32.dec_enc rd_ids_put rd_opt_id_def put_opt_id_def split: option.splits\<close>)
qed

lemma req_decode_encode: "wf_req r \<Longrightarrow> req_decode (req_encode r @ rest) = Inr r"
  by (simp add: req_decode_def req_codec.dec_enc)

lemma resp_decode_encode: "wf_resp r \<Longrightarrow> resp_decode (resp_encode r @ rest) = Inr r"
  by (simp add: resp_decode_def resp_codec.dec_enc)

subsection \<open>Frames over a Noise channel\<close>

record 'n noise =
  nz_eof :: string
  nz_write :: "'n \<Rightarrow> bytes \<Rightarrow> string + bytes \<times> 'n"
  nz_read :: "'n \<Rightarrow> bytes \<Rightarrow> string + bytes \<times> 'n"

definition write_seg :: "bytes \<Rightarrow> sync_error + bytes" where
  "write_seg data =
     (if length data < 2 ^ 16 then Inr (be_bytes 2 (of_nat (length data) :: u16) @ data)
      else Inl (SyNet ''out of range integral type conversion attempted''))"

definition read_seg :: "'n noise \<Rightarrow> (sync_error, bytes) reader" where
  "read_seg N = rd_bind (rd_be (SyNet (nz_eof N)) 2) (\<lambda>n :: u16. rd_take (SyNet (nz_eof N)) (unat n))"

text \<open>\<open>slice::chunks\<close>.\<close>

function chunks_of :: "nat \<Rightarrow> bytes \<Rightarrow> bytes list" where
  "chunks_of n xs = (if xs = [] \<or> n = 0 then [] else take n xs # chunks_of n (drop n xs))"
  by pat_completeness auto
termination
  by (relation "measure (\<lambda>(n, xs). length xs)") auto

declare chunks_of.simps [simp del]

fun send_segs :: "'n noise \<Rightarrow> 'n \<Rightarrow> bytes list \<Rightarrow> sync_error + bytes \<times> 'n" where
  "send_segs N a [] = Inr ([], a)"
| "send_segs N a (seg # segs) =
     (case nz_write N a seg of
        Inl e \<Rightarrow> Inl (SyNet e)
      | Inr (ct, a') \<Rightarrow>
          res_bind (write_seg ct) (\<lambda>out.
          res_bind (send_segs N a' segs) (\<lambda>(outs, a''). Inr (out @ outs, a''))))"

definition channel_send :: "'n noise \<Rightarrow> 'n \<Rightarrow> bytes \<Rightarrow> sync_error + bytes \<times> 'n" where
  "channel_send N a frame =
     send_segs N a (chunks_of max_segment (be_bytes 4 (of_nat (length frame) :: u32) @ frame))"

lemma read_seg_shrinks: "read_seg N stream = Inr (ct, rest) \<Longrightarrow> length rest < length stream"
proof -
  assume "read_seg N stream = Inr (ct, rest)"
  then obtain n :: u16 where "stream = be_bytes 2 n @ ct @ rest"
    by (auto simp: read_seg_def rd_bind_Inr_iff rd_take_Inr_iff be16.dec_iff)
  then show ?thesis by simp
qed

function recv_loop ::
  "'n noise \<Rightarrow> 'n \<Rightarrow> bytes \<Rightarrow> nat option \<Rightarrow> bytes \<Rightarrow> sync_error + bytes \<times> 'n \<times> bytes" where
  "recv_loop N b plain tot stream =
     (case read_seg N stream of
        Inl e \<Rightarrow> Inl e
      | Inr (ct, rest) \<Rightarrow>
          (case nz_read N b ct of
             Inl e \<Rightarrow> Inl (SyNet e)
           | Inr (pt, b') \<Rightarrow>
               let plain' = plain @ pt;
                   tot' = (if tot = None \<and> 4 \<le> length plain'
                           then Some (4 + unat (from_be (take 4 plain') :: u32)) else tot)
               in case tot' of
                    None \<Rightarrow> recv_loop N b' plain' tot' rest
                  | Some t \<Rightarrow>
                      if t \<le> length plain' then Inr (drop 4 (take t plain'), b', rest)
                      else recv_loop N b' plain' tot' rest))"
  by pat_completeness auto
termination
  by (relation "measure (\<lambda>(N, b, plain, tot, stream). length stream)") (auto dest: read_seg_shrinks)

declare recv_loop.simps [simp del]

definition channel_recv :: "'n noise \<Rightarrow> 'n \<Rightarrow> bytes \<Rightarrow> sync_error + bytes \<times> 'n \<times> bytes" where
  "channel_recv N b stream = recv_loop N b [] None stream"

text \<open>Two transport states out of one handshake: what either writes the other reads, in order, and
  a message of at most \<open>65519\<close> bytes fits a Noise message.\<close>

definition noise_ok :: "'n noise \<Rightarrow> ('n \<Rightarrow> 'n \<Rightarrow> bool) \<Rightarrow> bool" where
  "noise_ok N R \<longleftrightarrow>
     (\<forall>a b. R a b \<longrightarrow> R b a)
     \<and> (\<forall>a b pt. R a b \<longrightarrow> length pt \<le> max_segment \<longrightarrow>
         (\<exists>ct a' b'. nz_write N a pt = Inr (ct, a') \<and> length ct < 2 ^ 16 \<and> nz_read N b ct = Inr (pt, b') \<and> R a' b'))"

lemma read_write_seg:
  "length ct < 2 ^ 16 \<Longrightarrow> \<exists>out. write_seg ct = Inr out \<and> (\<forall>rest. read_seg N (out @ rest) = Inr (ct, rest))"
  by (simp add: write_seg_def read_seg_def codec_simps unat_of_nat_len)

text \<open>The receiver's view while a frame arrives: what it has is a proper prefix of the payload, and
  it knows the total exactly when it has the four bytes of it.\<close>

definition known_total :: "bytes \<Rightarrow> bytes \<Rightarrow> nat option" where
  "known_total frame plain = (if 4 \<le> length plain then Some (4 + length frame) else None)"

lemma recv_segs:
  assumes N: "noise_ok N R" and frame: "length frame < 2 ^ 32"
    and payload: "payload = be_bytes 4 (of_nat (length frame) :: u32) @ frame"
  shows "R a b \<Longrightarrow> payload = plain @ xs \<Longrightarrow> xs \<noteq> [] \<Longrightarrow>
    \<exists>out a' b'. send_segs N a (chunks_of max_segment xs) = Inr (out, a') \<and> R a' b'
      \<and> (\<forall>rest. recv_loop N b plain (known_total frame plain) (out @ rest) = Inr (frame, b', rest))"
proof (induction "length xs" arbitrary: xs plain a b rule: less_induct)
  case less
  let ?seg = "take max_segment xs" and ?xs = "drop max_segment xs"
  have seg: "length ?seg \<le> max_segment" by simp
  from N less.prems(1) seg obtain ct a1 b1 where
    ct: "nz_write N a ?seg = Inr (ct, a1)" "length ct < 2 ^ 16" "nz_read N b ct = Inr (?seg, b1)" "R a1 b1"
    unfolding noise_ok_def by blast
  from read_write_seg [OF ct(2)] obtain out where
    out: "write_seg ct = Inr out" "\<And>rest. read_seg N (out @ rest) = Inr (ct, rest)" by blast
  have chunks: "chunks_of max_segment xs = ?seg # chunks_of max_segment ?xs"
    using less.prems(3) by (subst chunks_of.simps) (simp add: max_segment_def)
  let ?plain = "plain @ ?seg"
  have split: "payload = ?plain @ ?xs" using less.prems(2) by simp
  have total: "(if known_total frame plain = None \<and> 4 \<le> length ?plain
      then Some (4 + unat (from_be (take 4 ?plain) :: u32)) else known_total frame plain) = known_total frame ?plain"
  proof (cases "4 \<le> length ?plain")
    case True
    have "take 4 ?plain = take 4 payload" using True split by simp
    also have "\<dots> = be_bytes 4 (of_nat (length frame) :: u32)" by (simp add: payload)
    finally have "unat (from_be (take 4 ?plain) :: u32) = length frame"
      using frame by (simp only: from_be_widths) (simp add: unat_of_nat_len)
    with True show ?thesis by (simp add: known_total_def)
  qed (simp add: known_total_def)
  have step: "recv_loop N b plain (known_total frame plain) (out @ rest)
      = (case known_total frame ?plain of
           None \<Rightarrow> recv_loop N b1 ?plain (known_total frame ?plain) rest
         | Some t \<Rightarrow> if t \<le> length ?plain then Inr (drop 4 (take t ?plain), b1, rest)
             else recv_loop N b1 ?plain (known_total frame ?plain) rest)" for rest
    by (subst recv_loop.simps) (simp only: out(2) ct(3) sum.case prod.case Let_def total)
  have len: "length payload = 4 + length frame" by (simp add: payload)
  show ?case
  proof (cases "?xs = []")
    case True
    then have plain: "?plain = payload" using split by simp
    then have "known_total frame ?plain = Some (4 + length frame)" by (simp only: known_total_def len) simp
    with step have "recv_loop N b plain (known_total frame plain) (out @ rest) = Inr (frame, b1, rest)" for rest
      by (simp only: plain len option.case) (simp add: payload)
    moreover have "send_segs N a (chunks_of max_segment xs) = Inr (out, a1)"
      using chunks True ct(1) out(1) by (simp add: chunks_of.simps [of max_segment "[]"])
    ultimately show ?thesis using ct(4) by blast
  next
    case False
    then have "length ?plain < 4 + length frame" using split len by (metis length_append length_greater_0_conv less_add_same_cancel1)
    then have more: "recv_loop N b plain (known_total frame plain) (out @ rest)
        = recv_loop N b1 ?plain (known_total frame ?plain) rest" for rest
      by (subst step) (auto simp: known_total_def)
    have "length ?xs < length xs" using less.prems(3) by (simp add: max_segment_def)
    from less.hyps [OF this ct(4) split False] obtain outs a' b' where
      rec: "send_segs N a1 (chunks_of max_segment ?xs) = Inr (outs, a')" "R a' b'"
        "\<And>rest. recv_loop N b1 ?plain (known_total frame ?plain) (outs @ rest) = Inr (frame, b', rest)" by blast
    have "send_segs N a (chunks_of max_segment xs) = Inr (out @ outs, a')"
      using chunks ct(1) out(1) rec(1) by simp
    moreover have "recv_loop N b plain (known_total frame plain) ((out @ outs) @ rest) = Inr (frame, b', rest)" for rest
      using more [of "outs @ rest"] rec(3) by simp
    ultimately show ?thesis using rec(2) by blast
  qed
qed

lemma channel_delivers:
  assumes "noise_ok N R" and "R a b" and "length frame < 2 ^ 32"
  obtains out a' b' where "channel_send N a frame = Inr (out, a')" "R a' b'"
    "\<And>rest. channel_recv N b (out @ rest) = Inr (frame, b', rest)"
proof -
  let ?payload = "be_bytes 4 (of_nat (length frame) :: u32) @ frame"
  have ne: "?payload \<noteq> []" by (metis append_is_Nil_conv length_be_bytes list.size(3) zero_neq_numeral)
  have "known_total frame [] = None" by (simp add: known_total_def)
  with recv_segs [OF assms(1,3) refl assms(2) _ ne, of "[]"] that show thesis
    unfolding channel_send_def channel_recv_def by (metis append_Nil)
qed

end
