(* ===== verification/Net.thy ===== *)
theory Net
  imports Wire
begin

section \<open>Synchronising over the network\<close>

text \<open>
  \<open>crates/constellation/src/net/mod.rs\<close>: the server's session loop and the dialing transport.  The
  two ends of one stream are in one state, \<open>link\<close>: the Noise states of the two ends, the bytes under
  way in each direction, the store behind the server and whether its loop still runs.  A call writes
  its request, the server answers it, and the caller reads the answer.  The interface \<open>wire_peer\<close>
  extends \<open>peer\<close> by the bounds a frame needs, and gives again a \<open>peer\<close>: what a sync run does over the
  network is what it does in the process.
\<close>

definition sync_error_text :: "sync_error \<Rightarrow> string" where
  "sync_error_text e =
     (case e of
        SyLifestream s \<Rightarrow> ''lifestream: '' @ ls_error_text s
      | SySync s \<Rightarrow> ''sync: '' @ s
      | SyNet s \<Rightarrow> ''net: '' @ s)"

subsection \<open>The serving side\<close>

definition answer :: "('a \<Rightarrow> resp) \<Rightarrow> ('t, sync_error, 'a) action \<Rightarrow> 't \<Rightarrow> resp \<times> 't" where
  "answer f m t =
     (case m t of
        (Inr x, t') \<Rightarrow> (f x, t')
      | (Inl e, t') \<Rightarrow> (RespErr (sync_error_text e), t'))"

text \<open>\<open>have()\<close> is a hash set; its order is of no account and is taken to be the sorted one.\<close>

definition handle :: "'t transport \<Rightarrow> req \<Rightarrow> 't \<Rightarrow> resp \<times> 't" where
  "handle T r =
     (case r of
        ReqHave \<Rightarrow> answer (\<lambda>ids. RespHave (sorted_list_of_set ids)) (tp_have T)
      | ReqRead i \<Rightarrow> answer RespRecord (tp_read T i)
      | ReqWrite i rec \<Rightarrow> answer RespWrote (tp_write T i rec)
      | ReqRefs \<Rightarrow> answer RespRefs (tp_refs T)
      | ReqGetRef name \<Rightarrow> answer RespRef (tp_get_ref T name)
      | ReqSetRef name i \<Rightarrow> answer (\<lambda>_. RespDid) (tp_set_ref T name i)
      | ReqParents i \<Rightarrow> answer RespParents (tp_parents T i)
      | ReqBye \<Rightarrow> (\<lambda>t. (RespDid, t)))"

text \<open>One turn of the loop: \<open>Go\<close> on, or stop with the value the loop returns.\<close>

datatype turn = Go | Stop "sync_error + unit"

record ('n, 't) server =
  sv_noise :: 'n
  sv_peer :: 't
  sv_in :: bytes
  sv_out :: bytes

definition serve_turn :: "'n noise \<Rightarrow> 't transport \<Rightarrow> ('n, 't) server \<Rightarrow> turn \<times> ('n, 't) server" where
  "serve_turn N T s =
     (case channel_recv N (sv_noise s) (sv_in s) of
        Inl e \<Rightarrow> (Stop (Inr ()), s)
      | Inr (frame, b, rest) \<Rightarrow>
          (let s1 = s\<lparr>sv_noise := b, sv_in := rest\<rparr> in
           case req_decode frame of
             Inl e \<Rightarrow> (Stop (Inl e), s1)
           | Inr r \<Rightarrow>
               (case handle T r (sv_peer s1) of
                  (resp, t') \<Rightarrow>
                    (let s2 = s1\<lparr>sv_peer := t'\<rparr> in
                     case channel_send N (sv_noise s2) (resp_encode resp) of
                       Inl e \<Rightarrow> (Stop (Inl e), s2)
                     | Inr (out, b') \<Rightarrow>
                         (if r = ReqBye then Stop (Inr ()) else Go,
                          s2\<lparr>sv_noise := b', sv_out := sv_out s2 @ out\<rparr>)))))"

lemma recv_loop_shrinks: "recv_loop N b plain tot stream = Inr (frame, b', rest) \<Longrightarrow> length rest < length stream"
proof (induction "length stream" arbitrary: b plain tot stream rule: less_induct)
  case less
  note run = less.prems [unfolded recv_loop.simps [of N b plain tot stream]]
  from run obtain ct rst where seg: "read_seg N stream = Inr (ct, rst)" by (auto split: sum.splits)
  with run obtain pt b1 where pt: "nz_read N b ct = Inr (pt, b1)" by (auto split: sum.splits)
  let ?plain = "plain @ pt"
  let ?tot = "if tot = None \<and> 4 \<le> length ?plain
    then Some (4 + unat (from_be (take 4 ?plain) :: u32)) else tot"
  have shrunk: "length rst < length stream" using seg by (rule read_seg_shrinks)
  have "rest = rst \<or> recv_loop N b1 ?plain ?tot rst = Inr (frame, b', rest)"
    using run by (auto simp: seg pt Let_def split: option.splits if_splits)
  then show ?case using less.hyps [OF shrunk] shrunk by fastforce
qed

text \<open>The loop: every turn takes a frame off the stream.\<close>

function serve_stream :: "'n noise \<Rightarrow> 't transport \<Rightarrow> ('n, 't) server \<Rightarrow> (sync_error + unit) \<times> ('n, 't) server" where
  "serve_stream N T s =
     (case serve_turn N T s of
        (Stop r, s') \<Rightarrow> (r, s')
      | (Go, s') \<Rightarrow> serve_stream N T s')"
  by pat_completeness auto

lemma serve_turn_shrinks: "serve_turn N T s = (Go, s') \<Longrightarrow> length (sv_in s') < length (sv_in s)"
  by (auto simp: serve_turn_def channel_recv_def Let_def dest!: recv_loop_shrinks
      split: sum.splits prod.splits if_splits)

termination serve_stream
  by (relation "measure (\<lambda>(N, T, s). length (sv_in s))") (auto dest!: serve_turn_shrinks [OF sym])

declare serve_stream.simps [simp del]

subsection \<open>The dialing side\<close>

record ('n, 't) link =
  lk_near :: 'n
  lk_in :: bytes
  lk_server :: "('n, 't) server"
  lk_open :: bool

text \<open>
  A call: the request goes out, the server takes its turn, and the answer is read.  A server whose
  loop has stopped answers nothing more.  When sending fails part-way the code has already put
  segments on the stream; the model leaves the link as it was, and nothing is claimed after an error.
\<close>

definition link_turn :: "'n noise \<Rightarrow> 't transport \<Rightarrow> bytes \<Rightarrow> ('n, 't) link \<Rightarrow> ('n, 't) link" where
  "link_turn N T out L =
     (let s = (lk_server L)\<lparr>sv_in := sv_in (lk_server L) @ out\<rparr> in
      if lk_open L then
        (case serve_turn N T s of
           (w, s') \<Rightarrow> L\<lparr>lk_in := lk_in L @ sv_out s', lk_server := s'\<lparr>sv_out := []\<rparr>, lk_open := (w = Go)\<rparr>)
      else L\<lparr>lk_server := s\<rparr>)"

definition net_call :: "'n noise \<Rightarrow> 't transport \<Rightarrow> req \<Rightarrow> (('n, 't) link, sync_error, resp) action" where
  "net_call N T r L =
     (case channel_send N (lk_near L) (req_encode r) of
        Inl e \<Rightarrow> (Inl e, L)
      | Inr (out, a) \<Rightarrow>
          (let L1 = link_turn N T out (L\<lparr>lk_near := a\<rparr>) in
           case channel_recv N (lk_near L1) (lk_in L1) of
             Inl e \<Rightarrow> (Inl e, L1)
           | Inr (frame, a', rest) \<Rightarrow> (resp_decode frame, L1\<lparr>lk_near := a', lk_in := rest\<rparr>)))"

definition unexpected :: "resp \<Rightarrow> sync_error" where
  "unexpected r = (case r of RespErr s \<Rightarrow> SyNet s | _ \<Rightarrow> SyNet ''unexpected reply from peer'')"

definition net_have :: "'n noise \<Rightarrow> 't transport \<Rightarrow> (('n, 't) link, sync_error, object_id set) action" where
  "net_have N T = act_bind (net_call N T ReqHave) (\<lambda>r.
     case r of RespHave v \<Rightarrow> act_ret (set v) | _ \<Rightarrow> act_fail (unexpected r))"

definition net_read :: "'n noise \<Rightarrow> 't transport \<Rightarrow> object_id \<Rightarrow> (('n, 't) link, sync_error, bytes) action" where
  "net_read N T i = act_bind (net_call N T (ReqRead i)) (\<lambda>r.
     case r of RespRecord rec \<Rightarrow> act_ret rec | _ \<Rightarrow> act_fail (unexpected r))"

definition net_write ::
  "'n noise \<Rightarrow> 't transport \<Rightarrow> object_id \<Rightarrow> bytes \<Rightarrow> (('n, 't) link, sync_error, bool) action" where
  "net_write N T i rec = act_bind (net_call N T (ReqWrite i rec)) (\<lambda>r.
     case r of RespWrote b \<Rightarrow> act_ret b | _ \<Rightarrow> act_fail (unexpected r))"

definition net_refs :: "'n noise \<Rightarrow> 't transport \<Rightarrow> (('n, 't) link, sync_error, (string \<times> object_id) list) action" where
  "net_refs N T = act_bind (net_call N T ReqRefs) (\<lambda>r.
     case r of RespRefs v \<Rightarrow> act_ret v | _ \<Rightarrow> act_fail (unexpected r))"

definition net_get_ref :: "'n noise \<Rightarrow> 't transport \<Rightarrow> string \<Rightarrow> (('n, 't) link, sync_error, object_id option) action" where
  "net_get_ref N T name = act_bind (net_call N T (ReqGetRef name)) (\<lambda>r.
     case r of RespRef i \<Rightarrow> act_ret i | _ \<Rightarrow> act_fail (unexpected r))"

definition net_set_ref ::
  "'n noise \<Rightarrow> 't transport \<Rightarrow> string \<Rightarrow> object_id \<Rightarrow> (('n, 't) link, sync_error, unit) action" where
  "net_set_ref N T name i = act_bind (net_call N T (ReqSetRef name i)) (\<lambda>r.
     case r of RespDid \<Rightarrow> act_ret () | _ \<Rightarrow> act_fail (unexpected r))"

definition net_parents ::
  "'n noise \<Rightarrow> 't transport \<Rightarrow> object_id \<Rightarrow> (('n, 't) link, sync_error, object_id list option) action" where
  "net_parents N T i = act_bind (net_call N T (ReqParents i)) (\<lambda>r.
     case r of RespParents ps \<Rightarrow> act_ret ps | _ \<Rightarrow> act_fail (unexpected r))"

definition net_close :: "'n noise \<Rightarrow> 't transport \<Rightarrow> (('n, 't) link, sync_error, unit) action" where
  "net_close N T = act_bind (net_call N T ReqBye) (\<lambda>r.
     case r of RespDid \<Rightarrow> act_ret () | _ \<Rightarrow> act_fail (unexpected r))"

definition network_transport :: "'n noise \<Rightarrow> 't transport \<Rightarrow> ('n, 't) link transport" where
  "network_transport N T =
     \<lparr>tp_have = net_have N T, tp_read = net_read N T, tp_write = net_write N T, tp_refs = net_refs N T,
      tp_get_ref = net_get_ref N T, tp_set_ref = net_set_ref N T, tp_parents = net_parents N T\<rparr>"

subsection \<open>A call over a live link\<close>

text \<open>An idle link between the two ends of one handshake.\<close>

definition link_ok :: "'n noise \<Rightarrow> ('n \<Rightarrow> 'n \<Rightarrow> bool) \<Rightarrow> ('n, 't) link \<Rightarrow> bool" where
  "link_ok N R L \<longleftrightarrow>
     noise_ok N R \<and> R (lk_near L) (sv_noise (lk_server L)) \<and> lk_open L
     \<and> lk_in L = [] \<and> sv_in (lk_server L) = [] \<and> sv_out (lk_server L) = []"

abbreviation lk_peer :: "('n, 't) link \<Rightarrow> 't" where
  "lk_peer L \<equiv> sv_peer (lk_server L)"

definition link_live :: "'n noise \<Rightarrow> ('n \<Rightarrow> 'n \<Rightarrow> bool) \<Rightarrow> ('t \<Rightarrow> bool) \<Rightarrow> ('n, 't) link \<Rightarrow> bool" where
  "link_live N R ok L \<longleftrightarrow> link_ok N R L \<and> ok (lk_peer L)"

lemma net_call_answers:
  assumes L: "link_ok N R L" and r: "wf_req r" "length (req_encode r) < 2 ^ 32" "r \<noteq> ReqBye"
    and h: "handle T r (lk_peer L) = (resp, t')" and resp: "wf_resp resp" "length (resp_encode resp) < 2 ^ 32"
  shows "\<exists>L'. net_call N T r L = (Inr resp, L') \<and> link_ok N R L' \<and> lk_peer L' = t'"
proof -
  have N: "noise_ok N R" and R: "R (lk_near L) (sv_noise (lk_server L))" using L by (simp_all add: link_ok_def)
  from channel_delivers [OF N R r(2)] obtain out a b where
    send: "channel_send N (lk_near L) (req_encode r) = Inr (out, a)" "R a b"
      "\<And>rest. channel_recv N (sv_noise (lk_server L)) (out @ rest) = Inr (req_encode r, b, rest)" by blast
  from send(2) N have "R b a" by (auto simp: noise_ok_def)
  from channel_delivers [OF N this resp(2)] obtain out' b' a' where
    reply: "channel_send N b (resp_encode resp) = Inr (out', b')" "R b' a'"
      "\<And>rest. channel_recv N a (out' @ rest) = Inr (resp_encode resp, a', rest)" by blast
  let ?s = "(lk_server L)\<lparr>sv_in := sv_in (lk_server L) @ out\<rparr>"
  have turn: "serve_turn N T ?s
      = (Go, (lk_server L)\<lparr>sv_noise := b', sv_in := [], sv_peer := t', sv_out := out'\<rparr>)"
    using L send(3) [of "[]"] reply(1) h r(3) req_decode_encode [OF r(1), of "[]"]
    by (simp add: serve_turn_def link_ok_def)
  let ?L = "L\<lparr>lk_near := a', lk_in := [],
    lk_server := (lk_server L)\<lparr>sv_noise := b', sv_in := [], sv_peer := t', sv_out := []\<rparr>\<rparr>"
  have "net_call N T r L = (Inr resp, ?L)"
    using L send(1) turn reply(3) [of "[]"] resp_decode_encode [OF resp(1), of "[]"]
    by (simp add: net_call_def link_turn_def link_ok_def)
  moreover have "link_ok N R ?L" using L reply(2) N by (auto simp: link_ok_def noise_ok_def)
  ultimately show ?thesis by (intro exI [of _ ?L]) simp
qed

subsection \<open>A peer whose answers fit the wire\<close>

locale wire_peer = peer +
  assumes obj_id: "ok t \<Longrightarrow> objs t i = Some m \<Longrightarrow> wf_id i"
    and objs_fit: "ok t \<Longrightarrow> 32 * card (dom (objs t)) + 5 < 2 ^ 32"
    and record_fit: "ok t \<Longrightarrow> sealed i rec m \<Longrightarrow> wf_id i \<and> length rec + 37 < 2 ^ 32"
    and ref_fit: "ok t \<Longrightarrow> ref_ok n i \<Longrightarrow> wf_id i \<and> utf8_str n \<and> length n + 37 < 2 ^ 32"
    and refs_fit: "ok t \<Longrightarrow> distinct (map fst rs) \<Longrightarrow> map_of rs = refs t \<Longrightarrow>
      length (resp_encode (RespRefs rs)) < 2 ^ 32"

lemma rd_ids_wf: "rd_times n (rd_id e) bs = Inr (ids, rest) \<Longrightarrow> length ids = n \<and> list_all wf_id ids"
proof (induction n arbitrary: bs ids)
  case (Suc n)
  then show ?case by (fastforce simp: id_codec.dec_iff split: sum.splits prod.splits)
qed simp

lemma rd_generation_parents:
  assumes "rd_generation bs = Inr (g, rest)"
  shows "length (gen_parents g) < 2 ^ 8 \<and> list_all wf_id (gen_parents g)"
proof -
  from assms obtain pc :: byte and bs1 rest1 where
    "rd_times (unat pc) (rd_id ob_end) bs1 = Inr (gen_parents g, rest1)"
    unfolding rd_generation_def rd_bind_Inr_iff by (elim exE conjE) force
  then have "length (gen_parents g) = unat pc \<and> list_all wf_id (gen_parents g)" by (rule rd_ids_wf)
  then show ?thesis using unsigned_less [of pc, where ?'a = nat] by simp
qed

lemma rd_object_gen: "rd_object bs = Inr (Gen g, rest) \<Longrightarrow> \<exists>bs'. rd_generation bs' = Inr (g, rest)"
  by (cases bs) (auto simp: rd_object_def rd_bind_byte rd_bind_Inr_iff split: if_splits)

lemma parents_in_wf:
  assumes "parents_in B i = Some ps"
  shows "length ps < 2 ^ 8 \<and> list_all wf_id ps"
proof -
  from assms obtain m g where "object_decode m = Inr (Gen g)" "ps = gen_parents g"
    by (auto simp: parents_in_def split: option.splits sum.splits object.splits)
  then show ?thesis
    by (auto simp: object_decode_def res_bind_Inr_iff dest!: rd_object_gen dest: rd_generation_parents)
qed

lemma history_wf:
  assumes "(j, i) \<in> (history_edges B)\<^sup>*" and "wf_id j"
  shows "wf_id i"
  using assms
proof (induction rule: rtrancl_induct)
  case (step i p)
  then show ?case by (auto simp: history_edges_def list_all_iff dest: parents_in_wf)
qed

lemma length_put_ids [simp]: "list_all wf_id ids \<Longrightarrow> length (put_ids ids) = 4 + 32 * length ids"
  by (induction ids) (simp_all add: put_ids_def wf_id_def)

subsection \<open>The networked peer is a peer\<close>

locale wire_link = wire_peer P for P :: "'t transport" +
  fixes N :: "'n noise" and R :: "'n \<Rightarrow> 'n \<Rightarrow> bool"
begin

abbreviation live :: "('n, 't) link \<Rightarrow> bool" where
  "live \<equiv> link_live N R ok"

lemmas live_def = link_live_def [of N R ok]

abbreviation link_calm :: "('n, 't) link \<Rightarrow> ('n, 't) link \<Rightarrow> bool" where
  "link_calm \<equiv> calm live (\<lambda>L. objs (lk_peer L)) (\<lambda>L. refs (lk_peer L))"

lemma live_call:
  assumes "live L" and "wf_req r" and "length (req_encode r) < 2 ^ 32" and "r \<noteq> ReqBye"
    and "handle P r (lk_peer L) = (resp, t')" and "wf_resp resp" and "length (resp_encode resp) < 2 ^ 32"
    and "ok t'"
  obtains L' where "net_call N P r L = (Inr resp, L')" "live L'" "lk_peer L' = t'"
  using net_call_answers [of N R L r P resp t'] assms by (auto simp: live_def)

lemma calm_live: "live L' \<Longrightarrow> lk_peer L' = t' \<Longrightarrow> calm ok objs refs (lk_peer L) t' \<Longrightarrow> link_calm L L'"
  by (auto simp: calm_def)

lemmas encode_simps = req_encode_def resp_encode_def wf_req_def wf_resp_def put_str32_def put_bytes32_def
  wf_id_def wf_str32_def len32_def put_opt_id_def

lemma live_have:
  assumes "live L"
  shows "\<exists>L'. net_have N P L = (Inr (dom (objs (lk_peer L))), L') \<and> link_calm L L'"
proof -
  let ?t = "lk_peer L" let ?ids = "sorted_list_of_set (dom (objs ?t))"
  have ok: "ok ?t" using assms by (simp add: live_def)
  from have_objs [OF ok] obtain t' where
    t': "tp_have P ?t = (Inr (dom (objs ?t)), t')" "calm ok objs refs ?t t'" by blast
  have ids: "set ?ids = dom (objs ?t)" "length ?ids = card (dom (objs ?t))" using finite_objs [OF ok] by simp_all
  have wf: "list_all wf_id ?ids" using ids(1) obj_id [OF ok] by (auto simp: list_all_iff)
  obtain L' where "net_call N P ReqHave L = (Inr (RespHave ?ids), L')" "live L'" "lk_peer L' = t'"
    by (rule live_call [OF assms, of ReqHave "RespHave ?ids" t'])
      (use t'(1) calmD(1) [OF t'(2)] wf objs_fit [OF ok] ids(2) in
        \<open>simp_all add: encode_simps wf_ids_def handle_def answer_def\<close>)
  with ids(1) calm_live [OF _ _ t'(2)] show ?thesis by (auto simp: net_have_def act_bind_def)
qed

lemma live_read:
  assumes "live L" and "objs (lk_peer L) i = Some m"
  shows "\<exists>rec L'. net_read N P i L = (Inr rec, L') \<and> sealed i rec m \<and> link_calm L L'"
proof -
  let ?t = "lk_peer L"
  have ok: "ok ?t" using assms by (simp add: live_def)
  from read_sealed [OF ok assms(2)] obtain rec t' where
    t': "tp_read P i ?t = (Inr rec, t')" "sealed i rec m" "calm ok objs refs ?t t'" by blast
  obtain L' where "net_call N P (ReqRead i) L = (Inr (RespRecord rec), L')" "live L'" "lk_peer L' = t'"
    by (rule live_call [OF assms(1), of "ReqRead i" "RespRecord rec" t'])
      (use t'(1) calmD(1) [OF t'(3)] record_fit [OF ok t'(2)] in \<open>simp_all add: encode_simps handle_def answer_def\<close>)
  with t'(2) calm_live [OF _ _ t'(3)] show ?thesis by (auto simp: net_read_def act_bind_def)
qed

lemma live_write:
  assumes "live L" and "sealed i rec m"
  shows "\<exists>L'. net_write N P i rec L = (Inr (objs (lk_peer L) i = None), L') \<and> live L'
    \<and> refs (lk_peer L') = refs (lk_peer L)
    \<and> objs (lk_peer L') = (if objs (lk_peer L) i = None then (objs (lk_peer L))(i \<mapsto> m) else objs (lk_peer L))"
proof -
  let ?t = "lk_peer L" let ?new = "objs ?t i = None"
  have ok: "ok ?t" using assms by (simp add: live_def)
  from write_sealed [OF ok assms(2)] obtain t' where
    t': "tp_write P i rec ?t = (Inr ?new, t')" "ok t'" "refs t' = refs ?t"
      "objs t' = (if ?new then (objs ?t)(i \<mapsto> m) else objs ?t)" by blast
  obtain L' where "net_call N P (ReqWrite i rec) L = (Inr (RespWrote ?new), L')" "live L'" "lk_peer L' = t'"
    by (rule live_call [OF assms(1), of "ReqWrite i rec" "RespWrote ?new" t'])
      (use t'(1,2) record_fit [OF ok assms(2)] in \<open>simp_all add: encode_simps handle_def answer_def\<close>)
  with t'(3,4) show ?thesis by (auto simp: net_write_def act_bind_def)
qed

lemma live_refs:
  assumes "live L"
  shows "\<exists>rs L'. net_refs N P L = (Inr rs, L') \<and> distinct (map fst rs) \<and> map_of rs = refs (lk_peer L) \<and> link_calm L L'"
proof -
  let ?t = "lk_peer L"
  have ok: "ok ?t" using assms by (simp add: live_def)
  from list_refs [OF ok] obtain rs t' where
    t': "tp_refs P ?t = (Inr rs, t')" "distinct (map fst rs)" "map_of rs = refs ?t" "calm ok objs refs ?t t'" by blast
  note fit = refs_fit [OF ok t'(2,3)]
  have wf: "list_all wf_ref rs"
    using refs_ok [OF ok] ref_fit [OF ok] t'(2,3)
    by (fastforce simp: list_all_iff wf_ref_def wf_str32_def len32_def map_of_eq_Some_iff [symmetric])
  have "length rs \<le> length (concat (map put_ref rs))"
    by (induction rs) (auto simp: put_ref_def put_str32_def put_bytes32_def)
  with fit have len: "len32 rs" by (simp add: resp_encode_def len32_def)
  obtain L' where "net_call N P ReqRefs L = (Inr (RespRefs rs), L')" "live L'" "lk_peer L' = t'"
    by (rule live_call [OF assms(1), of ReqRefs "RespRefs rs" t'])
      (use t'(1) calmD(1) [OF t'(4)] fit wf len in
        \<open>simp_all add: req_encode_def wf_req_def wf_resp_def handle_def answer_def\<close>)
  with t'(2,3) calm_live [OF _ _ t'(4)] show ?thesis by (auto simp: net_refs_def act_bind_def)
qed

lemma live_get_ref:
  assumes "live L" and "ref_ok n i"
  shows "\<exists>L'. net_get_ref N P n L = (Inr (refs (lk_peer L) n), L') \<and> link_calm L L'"
proof -
  let ?t = "lk_peer L"
  have ok: "ok ?t" using assms by (simp add: live_def)
  from get_ref [OF ok assms(2)] obtain t' where
    t': "tp_get_ref P n ?t = (Inr (refs ?t n), t')" "calm ok objs refs ?t t'" by blast
  have wf: "wf_id j" if "refs ?t n = Some j" for j
    using refs_ok [OF ok that] ref_fit [OF ok] by blast
  obtain L' where "net_call N P (ReqGetRef n) L = (Inr (RespRef (refs ?t n)), L')" "live L'" "lk_peer L' = t'"
    by (rule live_call [OF assms(1), of "ReqGetRef n" "RespRef (refs ?t n)" t'])
      (use t'(1) calmD(1) [OF t'(2)] ref_fit [OF ok assms(2)] wf in
        \<open>simp_all add: encode_simps handle_def answer_def split: option.split\<close>)
  with calm_live [OF _ _ t'(2)] show ?thesis by (auto simp: net_get_ref_def act_bind_def)
qed

lemma live_set_ref:
  assumes "live L" and "ref_ok n i"
  shows "\<exists>L'. net_set_ref N P n i L = (Inr (), L') \<and> live L' \<and> objs (lk_peer L') = objs (lk_peer L)
    \<and> refs (lk_peer L') = (refs (lk_peer L))(n \<mapsto> i)"
proof -
  let ?t = "lk_peer L"
  have ok: "ok ?t" using assms by (simp add: live_def)
  from set_ref [OF ok assms(2)] obtain t' where
    t': "tp_set_ref P n i ?t = (Inr (), t')" "ok t'" "objs t' = objs ?t" "refs t' = (refs ?t)(n \<mapsto> i)" by blast
  obtain L' where "net_call N P (ReqSetRef n i) L = (Inr RespDid, L')" "live L'" "lk_peer L' = t'"
    by (rule live_call [OF assms(1), of "ReqSetRef n i" RespDid t'])
      (use t'(1,2) ref_fit [OF ok assms(2)] in \<open>simp_all add: encode_simps handle_def answer_def\<close>)
  with t'(3,4) show ?thesis by (auto simp: net_set_ref_def act_bind_def)
qed

lemma live_parents:
  assumes "live L" and "ref_ok n j" and "(j, i) \<in> (history_edges (objs (lk_peer L)))\<^sup>*"
  shows "\<exists>L'. net_parents N P i L = (Inr (parents_in (objs (lk_peer L)) i), L') \<and> link_calm L L'"
proof -
  let ?t = "lk_peer L" let ?ps = "parents_in (objs ?t) i"
  have ok: "ok ?t" using assms by (simp add: live_def)
  from get_parents [OF ok assms(2,3)] obtain t' where
    t': "tp_parents P i ?t = (Inr ?ps, t')" "calm ok objs refs ?t t'" by blast
  have i: "wf_id i" using history_wf [OF assms(3)] ref_fit [OF ok assms(2)] by blast
  have ps: "wf_ids qs \<and> length (put_ids qs) < 2 ^ 14" if "?ps = Some qs" for qs
    using parents_in_wf [OF that] by (simp add: wf_ids_def len32_def)
  obtain L' where "net_call N P (ReqParents i) L = (Inr (RespParents ?ps), L')" "live L'" "lk_peer L' = t'"
    by (rule live_call [OF assms(1), of "ReqParents i" "RespParents ?ps" t'])
      (use t'(1) calmD(1) [OF t'(2)] i ps in
        \<open>fastforce simp: req_encode_def resp_encode_def wf_req_def wf_resp_def wf_id_def handle_def answer_def
          split: option.split\<close>)+
  with calm_live [OF _ _ t'(2)] show ?thesis by (auto simp: net_parents_def act_bind_def)
qed

end

sublocale wire_link \<subseteq> net: peer "network_transport N P" "link_live N R ok" "\<lambda>L. objs (lk_peer L)" "\<lambda>L. refs (lk_peer L)" sealed ref_ok
proof
  fix L n i m rec j
  assume live: "live L"
  then have ok: "ok (lk_peer L)" by (simp add: live_def)
  show "finite (dom (objs (lk_peer L)))" using ok by (rule finite_objs)
  show "ref_ok n i" if "refs (lk_peer L) n = Some i" using ok that by (rule refs_ok)
qed (simp_all add: network_transport_def live_have live_read live_write live_refs live_get_ref live_set_ref live_parents)

subsection \<open>A store behind a link\<close>

text \<open>
  The sizes a session keeps to: every frame is counted by a \<open>u32\<close>.  \<open>U\<close> bounds the objects, \<open>names\<close>
  the refs and \<open>lim\<close> the records.
\<close>

definition wire_room :: "bytes set \<Rightarrow> string set \<Rightarrow> nat \<Rightarrow> bool" where
  "wire_room U names lim \<longleftrightarrow>
     finite U \<and> 32 * card U + 5 < 2 ^ 32 \<and> lim + 37 < 2 ^ 32
     \<and> finite names \<and> (\<Sum>n \<in> names. length n + 36) + 5 < 2 ^ 32"

definition store_served ::
  "ext \<Rightarrow> bytes set \<Rightarrow> string set \<Rightarrow> nat \<Rightarrow> ls_keys \<Rightarrow> lstore \<Rightarrow> bool" where
  "store_served X U names lim k s \<longleftrightarrow> store_ok X U names lim k s \<and> wire_room U names lim"

lemma store_card:
  assumes "store_served X U names lim k s"
  shows "card (dom (store_abs X s)) \<le> card U"
proof -
  have X: "ext_ok X" and inv: "store_inv X U s" and fin: "finite U"
    using assms by (simp_all add: store_served_def store_ok_def ls_okay_def wire_room_def)
  have "i \<in> id_of X (st_keys s) ` U" if "store_abs X s i = Some m" for i m
    using store_inv_abs(1,2) [OF X inv that] by (metis imageI)
  then have "dom (store_abs X s) \<subseteq> id_of X (st_keys s) ` U" by auto
  then have "card (dom (store_abs X s)) \<le> card (id_of X (st_keys s) ` U)" using fin by (simp add: card_mono)
  also have "\<dots> \<le> card U" using fin by (rule card_image_le)
  finally show ?thesis .
qed

lemma refs_length:
  assumes "distinct (map fst rs)" and "fst ` set rs \<subseteq> names" and "finite names" and "\<forall>r \<in> set rs. wf_id (snd r)"
  shows "length (concat (map put_ref rs)) \<le> (\<Sum>n \<in> names. length n + 36)"
proof -
  have "length (concat (map put_ref rs)) = (\<Sum>n \<leftarrow> map fst rs. length n + 36)"
    using assms(4) by (induction rs) (auto simp: put_ref_def put_str32_def put_bytes32_def wf_id_def)
  also have "\<dots> = (\<Sum>n \<in> fst ` set rs. length n + 36)"
    using assms(1) by (subst sum_list_distinct_conv_sum_set) simp_all
  also have "\<dots> \<le> (\<Sum>n \<in> names. length n + 36)" using assms(2,3) by (intro sum_mono2) auto
  finally show ?thesis .
qed

text \<open>The bounds do not depend on the state, so they restrict nothing of what a peer promises.\<close>

lemma peer_given:
  assumes "peer P ok objs refs sealed ref_ok"
  shows "peer P (\<lambda>t. ok t \<and> C) objs refs sealed ref_ok"
proof (cases C)
  case True
  with assms show ?thesis by simp
next
  case False
  then show ?thesis by unfold_locales auto
qed

lemma served_wire_link:
  "wire_link (store_served X U names lim k) (store_abs X) (store_refs X) (sealed_for X U lim k) (proper_ref names)
     (local_transport X)"
proof (intro wire_link.intro wire_peer.intro wire_peer_axioms.intro)
  show peer: "peer (local_transport X) (store_served X U names lim k) (store_abs X) (store_refs X)
      (sealed_for X U lim k) (proper_ref names)"
    using peer_given [OF local_peer.peer_axioms] unfolding store_served_def [abs_def] .
  fix s i m rec n and rs :: "(string \<times> object_id) list"
  assume ok: "store_served X U names lim k s"
  then have room: "wire_room U names lim" and X: "ext_ok X" and inv: "store_inv X U s"
    by (simp_all add: store_served_def store_ok_def ls_okay_def)
  show "wf_id i" if "store_abs X s i = Some m" using store_inv_abs(3) [OF X inv that] .
  show "32 * card (dom (store_abs X s)) + 5 < 2 ^ 32"
    using store_card [OF ok] room by (simp add: wire_room_def)
  show "wf_id i \<and> length rec + 37 < 2 ^ 32" if "sealed_for X U lim k i rec m"
    using that room by (simp add: sealed_for_def wire_room_def)
  show "wf_id i \<and> utf8_str n \<and> length n + 37 < 2 ^ 32" if "proper_ref names n i"
  proof -
    have n: "n \<in> names" using that by (simp add: proper_ref_def)
    have "length n + 36 \<le> (\<Sum>n \<in> names. length n + 36)"
      using room n by (intro member_le_sum) (auto simp: wire_room_def)
    then show ?thesis using that room by (simp add: proper_ref_def wire_room_def)
  qed
  show "length (resp_encode (RespRefs rs)) < 2 ^ 32"
    if rs: "distinct (map fst rs)" "map_of rs = store_refs X s"
  proof -
    have "proper_ref names (fst r) (snd r)" if "r \<in> set rs" for r
      using peer.refs_ok [OF peer ok] rs that by (metis map_of_eq_Some_iff prod.collapse)
    then have "fst ` set rs \<subseteq> names" "\<forall>r \<in> set rs. wf_id (snd r)" by (auto simp: proper_ref_def)
    moreover have "finite names" "(\<Sum>n \<in> names. length n + 36) + 5 < 2 ^ 32"
      using room unfolding wire_room_def by blast+
    ultimately have "length (concat (map put_ref rs)) + 5 < 2 ^ 32"
      using refs_length [OF rs(1)] by (meson add_mono_thms_linordered_semiring(3) order_le_less_trans)
    then show ?thesis by (simp add: resp_encode_def)
  qed
qed

interpretation served: wire_link "store_served X U names lim k" "store_abs X" "store_refs X"
    "sealed_for X U lim k" "proper_ref names" "local_transport X" N R
  for X U names lim k N R
  by (rule served_wire_link)

text \<open>A run from a store to a store behind a link.\<close>

interpretation net_pair: sync_pair "local_transport X" "store_ok X U names lim k" "store_abs X" "store_refs X"
    "network_transport N (local_transport X)" "link_live N R (store_served X U names lim k)"
    "\<lambda>L. store_abs X (lk_peer L)" "\<lambda>L. store_refs X (lk_peer L)" "sealed_for X U lim k" "proper_ref names"
  for X U names lim k N R
  by unfold_locales

text \<open>And back: from the store behind the link to the one at hand.\<close>

interpretation net_back: sync_pair "network_transport N (local_transport X)"
    "link_live N R (store_served X U names lim k)" "\<lambda>L. store_abs X (lk_peer L)" "\<lambda>L. store_refs X (lk_peer L)"
    "local_transport X" "store_ok X U names lim k" "store_abs X" "store_refs X" "sealed_for X U lim k" "proper_ref names"
  for X U names lim k N R
  by unfold_locales

end
