(* ===== verification/Identity.thy ===== *)
theory Identity
  imports Extern Codec
begin

section \<open>Identity: keyslots\<close>

text \<open>
  \<open>crates/identity/src/lib.rs\<close>: a keyslot seals the 32-byte master under a key derived from the
  secret an authenticator gives for a credential and a salt.  An authenticator is a pair of
  actions on its own state; the interface \<open>key_device\<close> states the law the code relies on, and
  the software token is an instance.  The salt and the nonce a slot is made with are two draws of
  the random generator, numbered by the argument \<open>d\<close>.
\<close>

datatype id_error = IdCrypto | IdUnlock | IdNoMatchingKeyslot | IdMalformed string | IdDevice string

definition id_version :: byte where "id_version = 1"
definition salt_len :: nat where "salt_len = 32"
definition id_nonce_len :: nat where "id_nonce_len = 24"
definition wrap_context :: string where "wrap_context = ''horizon identity fido2 wrap v1''"

type_synonym credential = bytes

subsection \<open>Keyslots\<close>

record 's auth =
  au_make :: "('s, id_error, credential) action"
  au_hmac :: "credential \<Rightarrow> bytes \<Rightarrow> ('s, id_error, bytes) action"

record keyslot =
  ks_cred :: credential
  ks_salt :: bytes
  ks_nonce :: bytes
  ks_sealed :: bytes

definition keyslot_seal ::
  "ext \<Rightarrow> credential \<Rightarrow> bytes \<Rightarrow> bytes \<Rightarrow> bytes \<Rightarrow> bytes \<Rightarrow> id_error + keyslot" where
  "keyslot_seal X cred salt nonce master secret =
     (let wrap = x_derive_key X wrap_context secret in
      case x_seal X wrap nonce cred master of
        None \<Rightarrow> Inl IdCrypto
      | Some sealed \<Rightarrow>
          Inr \<lparr>ks_cred = cred, ks_salt = salt, ks_nonce = nonce, ks_sealed = sealed\<rparr>)"

definition keyslot_unwrap :: "ext \<Rightarrow> keyslot \<Rightarrow> bytes \<Rightarrow> id_error + bytes" where
  "keyslot_unwrap X ks secret =
     (let wrap = x_derive_key X wrap_context secret in
      case x_open X wrap (ks_nonce ks) (ks_cred ks) (ks_sealed ks) of
        None \<Rightarrow> Inl IdUnlock
      | Some pt \<Rightarrow> if length pt = 32 then Inr pt else Inl IdUnlock)"

definition keyslot_unlock :: "ext \<Rightarrow> 's auth \<Rightarrow> keyslot \<Rightarrow> ('s, id_error, bytes) action" where
  "keyslot_unlock X A ks =
     act_bind (au_hmac A (ks_cred ks) (ks_salt ks)) (\<lambda>secret s. (keyslot_unwrap X ks secret, s))"

definition keyslot_encode :: "keyslot \<Rightarrow> bytes" where
  "keyslot_encode ks =
     of_nat (length (ks_cred ks)) # ks_cred ks @ ks_salt ks @ ks_nonce ks
     @ of_nat (length (ks_sealed ks)) # ks_sealed ks"

definition slot_take :: "nat \<Rightarrow> string \<Rightarrow> (id_error, bytes) reader" where
  "slot_take n what = rd_take (IdMalformed (''truncated '' @ what)) n"

definition keyslot_decode :: "(id_error, keyslot) reader" where
  "keyslot_decode =
     rd_bind (slot_take 1 ''credential length'') (\<lambda>cl.
     rd_bind (slot_take (unat (hd cl)) ''credential'') (\<lambda>cred.
     rd_bind (slot_take salt_len ''salt'') (\<lambda>salt.
     rd_bind (slot_take id_nonce_len ''nonce'') (\<lambda>nonce.
     rd_bind (slot_take 1 ''sealed length'') (\<lambda>sl.
     rd_bind (slot_take (unat (hd sl)) ''sealed'') (\<lambda>sealed.
       rd_ret \<lparr>ks_cred = cred, ks_salt = salt, ks_nonce = nonce, ks_sealed = sealed\<rparr>))))))"

subsection \<open>All the slots of a store\<close>

fun unlock_any :: "ext \<Rightarrow> 's auth \<Rightarrow> keyslot list \<Rightarrow> ('s, id_error, bytes) action" where
  "unlock_any X A [] s = (Inl IdNoMatchingKeyslot, s)"
| "unlock_any X A (ks # slots) s =
     (case keyslot_unlock X A ks s of
        (Inr master, s') \<Rightarrow> (Inr master, s')
      | (Inl e, s') \<Rightarrow> unlock_any X A slots s')"

definition keyslots_encode :: "keyslot list \<Rightarrow> bytes" where
  "keyslots_encode slots = id_version # of_nat (length slots) # concat (map keyslot_encode slots)"

definition keyslots_decode :: "bytes \<Rightarrow> id_error + keyslot list" where
  "keyslots_decode buf =
     (if length buf < 2 then Inl (IdMalformed ''too short'')
      else if buf ! 0 \<noteq> id_version
      then Inl (IdMalformed (''unknown version '' @ show_nat (unat (buf ! 0))))
      else case rd_times (unat (buf ! 1)) keyslot_decode (drop 2 buf) of
             Inl e \<Rightarrow> Inl e
           | Inr (slots, rest) \<Rightarrow> Inr slots)"

definition enroll :: "ext \<Rightarrow> 's auth \<Rightarrow> nat \<Rightarrow> bytes \<Rightarrow> ('s, id_error, keyslot) action" where
  "enroll X A d master =
     act_bind (au_make A) (\<lambda>cred.
       let salt = x_random X d salt_len in
       act_bind (au_hmac A cred salt) (\<lambda>secret s.
         (keyslot_seal X cred salt (x_random X (d + 1) id_nonce_len) master secret, s)))"

subsection \<open>The software token\<close>

record soft_token =
  sw_seed :: bytes
  sw_draws :: nat

definition soft_make :: "ext \<Rightarrow> (soft_token, id_error, credential) action" where
  "soft_make X s = (Inr (x_random X (sw_draws s) 16), s\<lparr>sw_draws := sw_draws s + 1\<rparr>)"

definition soft_secret :: "ext \<Rightarrow> bytes \<Rightarrow> credential \<Rightarrow> bytes \<Rightarrow> bytes" where
  "soft_secret X seed cred salt =
     x_derive_key X ''horizon identity software hmac v1'' (seed @ cred @ salt)"

definition soft_hmac :: "ext \<Rightarrow> credential \<Rightarrow> bytes \<Rightarrow> (soft_token, id_error, bytes) action" where
  "soft_hmac X cred salt s = (Inr (soft_secret X (sw_seed s) cred salt), s)"

definition soft_auth :: "ext \<Rightarrow> soft_token auth" where
  "soft_auth X = \<lparr>au_make = soft_make X, au_hmac = soft_hmac X\<rparr>"

subsection \<open>The contract of an authenticator\<close>

text \<open>
  What the trait's comment promises: a credential it made is one it holds, the secret of a
  credential it holds is a function of credential and salt alone, and asking for it changes
  nothing about what it holds.  \<open>key s\<close> is the secret function of the device in state \<open>s\<close>.
\<close>

locale key_device =
  fixes X :: ext
    and A :: "'s auth"
    and ok :: "'s \<Rightarrow> bool"
    and holds :: "'s \<Rightarrow> credential \<Rightarrow> bool"
    and key :: "'s \<Rightarrow> credential \<Rightarrow> bytes \<Rightarrow> bytes"
  assumes ok_ext: "ok s \<Longrightarrow> ext_ok X"
    and make_holds: "ok s \<Longrightarrow> au_make A s = (Inr c, s') \<Longrightarrow> ok s' \<and> holds s' c \<and> key s' = key s"
    and hmac_key: "ok s \<Longrightarrow> holds s c \<Longrightarrow> au_hmac A c salt s = (Inr (key s c salt), snd (au_hmac A c salt s))"
    and hmac_keeps: "ok s \<Longrightarrow> ok (snd (au_hmac A c salt s)) \<and> holds (snd (au_hmac A c salt s)) = holds s
        \<and> key (snd (au_hmac A c salt s)) = key s"
begin

text \<open>A slot of this device: sealed under the secret it gives for the slot's credential and salt.\<close>

definition slot_of :: "'s \<Rightarrow> bytes \<Rightarrow> keyslot \<Rightarrow> bool" where
  "slot_of s master ks \<longleftrightarrow>
     holds s (ks_cred ks) \<and> keyslot_unwrap X ks (key s (ks_cred ks) (ks_salt ks)) = Inr master"

lemma unwrap_seal:
  assumes "keyslot_seal X c salt n m secret = Inr ks" and "length m = 32" and "length n = 24" and X: "ext_ok X"
  shows "keyslot_unwrap X ks secret = Inr m" and "ks_cred ks = c" and "ks_salt ks = salt"
proof -
  let ?w = "x_derive_key X wrap_context secret"
  from assms(1) obtain ct where ct: "x_seal X ?w n c m = Some ct"
    and ks: "ks = \<lparr>ks_cred = c, ks_salt = salt, ks_nonce = n, ks_sealed = ct\<rparr>"
    by (auto simp: keyslot_seal_def Let_def split: option.splits)
  have "x_open X ?w n c ct = Some m"
    by (rule ext_ok_open [OF X _ assms(3) ct]) (simp add: ext_ok_lengths [OF X])
  then show "keyslot_unwrap X ks secret = Inr m" "ks_cred ks = c" "ks_salt ks = salt"
    using assms(2) by (simp_all add: ks keyslot_unwrap_def Let_def)
qed

lemma unlock_slot:
  assumes "ok s" and "slot_of s master ks"
  obtains s' where "keyslot_unlock X A ks s = (Inr master, s')" "ok s'" "holds s' = holds s" "key s' = key s"
proof -
  obtain s' where hm: "au_hmac A (ks_cred ks) (ks_salt ks) s = (Inr (key s (ks_cred ks) (ks_salt ks)), s')"
    using assms hmac_key [of s "ks_cred ks" "ks_salt ks"] unfolding slot_of_def by blast
  then have "keyslot_unlock X A ks s = (Inr master, s')"
    using assms(2) by (simp add: keyslot_unlock_def slot_of_def)
  then show thesis
    using that hmac_keeps [OF assms(1), of "ks_cred ks" "ks_salt ks"] hm by simp
qed

lemma unlock_keeps:
  assumes "ok s" and "keyslot_unlock X A ks s = (r, s')"
  shows "ok s' \<and> holds s' = holds s \<and> key s' = key s"
proof -
  have "s' = snd (au_hmac A (ks_cred ks) (ks_salt ks) s)"
    using assms(2) by (auto simp: keyslot_unlock_def act_bind_def split: prod.splits sum.splits)
  with hmac_keeps [OF assms(1)] show ?thesis by simp
qed

lemma enroll_slot:
  assumes "ok s" and "enroll X A d master s = (Inr ks, s')" and "length master = 32"
  shows "ok s'" and "slot_of s' master ks"
proof -
  from assms(2) obtain c s1 secret where mk: "au_make A s = (Inr c, s1)"
    and hm: "au_hmac A c (x_random X d salt_len) s1 = (Inr secret, s')"
    and seal: "keyslot_seal X c (x_random X d salt_len) (x_random X (d + 1) id_nonce_len) master secret = Inr ks"
    by (auto simp: enroll_def Let_def act_bind_Inr_iff)
  from make_holds [OF assms(1) mk] have s1: "ok s1" "holds s1 c" by simp_all
  note keeps = hmac_keeps [OF s1(1), of c "x_random X d salt_len"]
  have secret: "secret = key s1 c (x_random X d salt_len)"
    using hmac_key [OF s1, of "x_random X d salt_len"] hm by simp
  show "ok s'" using keeps hm by simp
  have "length (x_random X (d + 1) id_nonce_len) = 24"
    by (simp add: ext_ok_lengths [OF ok_ext [OF assms(1)]] id_nonce_len_def)
  from unwrap_seal [OF seal assms(3) this ok_ext [OF assms(1)]] show "slot_of s' master ks"
    using keeps hm s1(2) secret by (simp add: slot_of_def)
qed

text \<open>Slots of other devices before the right one do no harm as long as they do not open to
  another master.\<close>

lemma unlock_any_finds:
  assumes "ok s" and "ks \<in> set slots" and "slot_of s master ks"
    and "\<And>k t m t'. k \<in> set slots \<Longrightarrow> ok t \<Longrightarrow> key t = key s \<Longrightarrow> keyslot_unlock X A k t = (Inr m, t') \<Longrightarrow> m = master"
  shows "fst (unlock_any X A slots s) = Inr master"
  using assms
proof (induction slots arbitrary: s)
  case (Cons k slots)
  show ?case
  proof (cases "keyslot_unlock X A k s")
    case (Pair r s')
    show ?thesis
    proof (cases r)
      case (Inr m)
      with Pair Cons.prems(1,4) show ?thesis by fastforce
    next
      case (Inl e)
      have "k \<noteq> ks"
      proof
        assume "k = ks"
        with unlock_slot [OF Cons.prems(1,3)] Pair Inl show False by (metis Inl_Inr_False prod.inject)
      qed
      with Cons.prems(2) have ks: "ks \<in> set slots" by simp
      from unlock_keeps [OF Cons.prems(1) Pair] have s': "ok s'" "holds s' = holds s" "key s' = key s" by simp_all
      then have "slot_of s' master ks" using Cons.prems(3) by (simp add: slot_of_def)
      from Cons.IH [OF s'(1) ks this] Cons.prems(4) s'(3)
      have "fst (unlock_any X A slots s') = Inr master" by (metis list.set_intros(2))
      with Pair Inl show ?thesis by simp
    qed
  qed
qed simp

end

interpretation soft: key_device X "soft_auth X" "\<lambda>_. ext_ok X" "\<lambda>_ _. True"
    "\<lambda>s. soft_secret X (sw_seed s)" for X
  by unfold_locales (auto simp: soft_auth_def soft_make_def soft_hmac_def)

subsection \<open>The format\<close>

definition wf_keyslot :: "keyslot \<Rightarrow> bool" where
  "wf_keyslot ks \<longleftrightarrow>
     length (ks_cred ks) < 256 \<and> length (ks_salt ks) = 32 \<and> length (ks_nonce ks) = 24
     \<and> length (ks_sealed ks) < 256"

lemma byte_len: "n < 256 \<Longrightarrow> unat (of_nat n :: byte) = n"
  by (rule unat_of_nat_len) simp

interpretation slot_codec: canonical_codec keyslot_encode keyslot_decode wf_keyslot
proof
  fix ks rest
  assume "wf_keyslot ks"
  then show "keyslot_decode (keyslot_encode ks @ rest) = Inr (ks, rest)"
    by (simp add: keyslot_decode_def keyslot_encode_def slot_take_def wf_keyslot_def salt_len_def id_nonce_len_def
        codec_simps byte_len rd_bind_def rd_take_def)
next
  fix bs ks rest
  assume "keyslot_decode bs = Inr (ks, rest)"
  then obtain cl cred salt nonce sl sealed where
    "bs = cl @ cred @ salt @ nonce @ sl @ sealed @ rest" and len: "length cl = 1" "length cred = unat (hd cl)"
    "length salt = 32" "length nonce = 24" "length sl = 1" "length sealed = unat (hd sl)"
    and ks: "ks = \<lparr>ks_cred = cred, ks_salt = salt, ks_nonce = nonce, ks_sealed = sealed\<rparr>"
    by (auto simp: keyslot_decode_def slot_take_def rd_bind_Inr_iff rd_take_Inr_iff salt_len_def id_nonce_len_def)
  moreover obtain a b where "cl = [a]" "sl = [b]" using len(1,5) by (metis One_nat_def length_0_conv length_Suc_conv)
  moreover have "unat x < 256" for x :: byte using unsigned_less [of x, where ?'a = nat] by simp
  ultimately show "bs = keyslot_encode ks @ rest \<and> wf_keyslot ks"
    by (simp add: keyslot_encode_def wf_keyslot_def)
qed

text \<open>The count is one byte: what reads back is the first \<open>length mod 256\<close> slots.\<close>

lemma keyslots_decode_encode:
  assumes "list_all wf_keyslot slots"
  shows "keyslots_decode (keyslots_encode slots @ rest) = Inr (take (length slots mod 256) slots)"
proof -
  let ?n = "length slots mod 256"
  have n: "unat (of_nat (length slots) :: byte) = ?n" by (rule unat_of_nat_byte)
  have wf: "list_all wf_keyslot (take ?n slots)" using assms by (auto simp: list_all_iff dest: in_set_takeD)
  have "concat (map keyslot_encode slots) @ rest
      = concat (map keyslot_encode (take ?n slots)) @ concat (map keyslot_encode (drop ?n slots)) @ rest"
    by (metis append_assoc append_take_drop_id concat_append map_append)
  moreover have "length (take ?n slots) = ?n" by (simp add: min_absorb2)
  ultimately have "rd_times ?n keyslot_decode (concat (map keyslot_encode slots) @ rest)
      = Inr (take ?n slots, concat (map keyslot_encode (drop ?n slots)) @ rest)"
    using slot_codec.dec_times [OF wf] by simp
  then show ?thesis by (simp add: keyslots_decode_def keyslots_encode_def n)
qed

end
