(* ===== verification/Boot.thy ===== *)
theory Boot
  imports Identity Lifestream BootPlan
begin

section \<open>Booting into an identity\<close>

text \<open>
  \<open>crates/boot/src/lib.rs\<close> and the two places of \<open>crates/init\<close> that use it (\<open>authenticator\<close> of
  \<open>lib.rs\<close>, \<open>recover_master\<close> of \<open>main.rs\<close>).  What the code reads of the machine is a record: which
  paths are files and directories, listings, file contents and the Lifestream directory at a path.
  The passphrase prompt is an action on a state of its own, so that not prompting is a statement
  about that state.  Where the code panics the result is \<open>BtPanic\<close>.
\<close>

datatype boot_error =
    BtDiscover string
  | BtNotAStore string
  | BtKeyslots string
  | BtPassphrase string
  | BtKeyMismatch
  | BtLifestream ls_error
  | BtIo string
  | BtPanic string

datatype file_read = FileBytes bytes | FileMissing string | FileError string

record boot_fs =
  bf_is_file :: "string \<Rightarrow> bool"
  bf_is_dir :: "string \<Rightarrow> bool"
  bf_list :: "string \<Rightarrow> string + (string + string) list"
  bf_read :: "string \<Rightarrow> file_read"
  bf_store :: "string \<Rightarrow> lstore"

definition salt_file :: string where "salt_file = ''keysalt''"
definition keyslots_file :: string where "keyslots_file = ''keyslots''"

datatype boot_method = MKeyslot | MPassphrase | MHanded

definition method_label :: "boot_method \<Rightarrow> string" where
  "method_label m =
     (case m of
        MKeyslot \<Rightarrow> ''security key / token''
      | MPassphrase \<Rightarrow> ''passphrase''
      | MHanded \<Rightarrow> ''key handed from the initramfs'')"

record booted =
  bo_store :: string
  bo_master :: bytes
  bo_method :: boot_method
  bo_head :: "object_id option"
  bo_objects :: nat

subsection \<open>Error texts\<close>

definition id_error_text :: "id_error \<Rightarrow> string" where
  "id_error_text e =
     (case e of
        IdCrypto \<Rightarrow> ''crypto error''
      | IdUnlock \<Rightarrow> ''could not unlock this keyslot (wrong authenticator or corrupted slot)''
      | IdNoMatchingKeyslot \<Rightarrow> ''no enrolled keyslot matched the authenticator''
      | IdMalformed s \<Rightarrow> ''malformed keyslot data: '' @ s
      | IdDevice s \<Rightarrow> ''authenticator error: '' @ s)"

definition boot_error_text :: "boot_error \<Rightarrow> string" where
  "boot_error_text e =
     (case e of
        BtDiscover s \<Rightarrow> ''discover store: '' @ s
      | BtNotAStore s \<Rightarrow> ''not a Horizon store: '' @ s
      | BtKeyslots s \<Rightarrow> ''keyslots: '' @ s
      | BtPassphrase s \<Rightarrow> ''passphrase: '' @ s
      | BtKeyMismatch \<Rightarrow> ''the unlocked key did not open the store''
      | BtLifestream s \<Rightarrow> ''lifestream: '' @ ls_error_text s
      | BtIo s \<Rightarrow> ''io: '' @ s
      | BtPanic s \<Rightarrow> s)"

subsection \<open>Finding the store\<close>

definition is_store :: "boot_fs \<Rightarrow> string \<Rightarrow> bool" where
  "is_store fs dir \<longleftrightarrow> bf_is_file fs (path_join dir salt_file) \<and> bf_is_dir fs (path_join dir ''objects'')"

text \<open>Sorting the stores found changes neither how many there are nor the only one.\<close>

definition discover :: "boot_fs \<Rightarrow> string \<Rightarrow> boot_error + string" where
  "discover fs root =
     (let unread = (\<lambda>e. BtDiscover (''read '' @ to_string_lossy root @ '': '' @ e)) in
      if is_store fs root then Inr root
      else res_bind (res_map_err unread (bf_list fs root)) (\<lambda>entries.
           res_bind (res_map_err unread (res_map_all (\<lambda>e. e) entries)) (\<lambda>paths.
             case filter (\<lambda>p. bf_is_dir fs p \<and> is_store fs p) paths of
               [] \<Rightarrow> Inl (BtDiscover (''no Horizon store at or under '' @ to_string_lossy root))
             | [p] \<Rightarrow> Inr p
             | found \<Rightarrow>
                 Inl (BtDiscover (show_nat (length found) @ '' stores under '' @ to_string_lossy root
                   @ '' (name one with --store)'')))))"

subsection \<open>Unlocking\<close>

text \<open>Argon2 refuses a salt shorter than eight bytes, and the code expects that it does not.\<close>

definition derive :: "ext \<Rightarrow> string \<Rightarrow> bytes \<Rightarrow> boot_error + bytes" where
  "derive X passphrase salt =
     (if length salt < 8 then Inl (BtPanic ''argon2 derive'')
      else Inr (x_argon2 X (str_bytes passphrase) salt))"

definition passphrase_master :: "ext \<Rightarrow> boot_fs \<Rightarrow> string \<Rightarrow> string \<Rightarrow> boot_error + bytes" where
  "passphrase_master X fs store passphrase =
     (let fail = (\<lambda>e. Inl (BtNotAStore (to_string_lossy store @ '': '' @ e))) in
      case bf_read fs (path_join store salt_file) of
        FileBytes salt \<Rightarrow> derive X passphrase salt
      | FileMissing e \<Rightarrow> fail e
      | FileError e \<Rightarrow> fail e)"

definition load_keyslots :: "boot_fs \<Rightarrow> string \<Rightarrow> boot_error + keyslot list" where
  "load_keyslots fs store =
     (case bf_read fs (path_join store keyslots_file) of
        FileBytes bs \<Rightarrow> res_map_err (\<lambda>e. BtKeyslots (id_error_text e)) (keyslots_decode bs)
      | FileMissing e \<Rightarrow> Inr []
      | FileError e \<Rightarrow> Inl (BtIo e))"

type_synonym 'w prompt = "('w, boot_error, string) action"

definition unlock_passphrase ::
  "ext \<Rightarrow> boot_fs \<Rightarrow> string \<Rightarrow> 'w prompt \<Rightarrow> ('s \<times> 'w, boot_error, bytes \<times> boot_method) action" where
  "unlock_passphrase X fs store ask st =
     (case ask (snd st) of
        (Inl e, w) \<Rightarrow> (Inl e, (fst st, w))
      | (Inr pass, w) \<Rightarrow>
          (res_bind (passphrase_master X fs store pass) (\<lambda>master. Inr (master, MPassphrase)), (fst st, w)))"

definition unlock ::
  "ext \<Rightarrow> boot_fs \<Rightarrow> string \<Rightarrow> 's auth option \<Rightarrow> 'w prompt
     \<Rightarrow> ('s \<times> 'w, boot_error, bytes \<times> boot_method) action" where
  "unlock X fs store auth ask st =
     (case auth of
        None \<Rightarrow> unlock_passphrase X fs store ask st
      | Some A \<Rightarrow>
          (case load_keyslots fs store of
             Inl e \<Rightarrow> (Inl e, st)
           | Inr slots \<Rightarrow>
               if slots = [] then unlock_passphrase X fs store ask st
               else case unlock_any X A slots (fst st) of
                      (Inr master, s) \<Rightarrow> (Inr (master, MKeyslot), (s, snd st))
                    | (Inl e, s) \<Rightarrow> unlock_passphrase X fs store ask (s, snd st)))"

subsection \<open>Proving the master\<close>

definition prove :: "ext \<Rightarrow> boot_fs \<Rightarrow> string \<Rightarrow> bytes \<Rightarrow> boot_error + object_id option \<times> nat" where
  "prove X fs store master =
     res_bind (res_map_err BtLifestream (store_open X (to_string_lossy store) master (bf_store fs store))) (\<lambda>ls.
     res_bind (res_map_err BtLifestream (ls_head X ls)) (\<lambda>head.
     res_bind (case head of
                 None \<Rightarrow> Inr ()
               | Some h \<Rightarrow> (case ls_get X ls h of Inr ob \<Rightarrow> Inr () | Inl e \<Rightarrow> Inl BtKeyMismatch)) (\<lambda>_.
       Inr (head, object_count X ls))))"

definition boot ::
  "ext \<Rightarrow> boot_fs \<Rightarrow> string \<Rightarrow> 's auth option \<Rightarrow> 'w prompt \<Rightarrow> ('s \<times> 'w, boot_error, booted) action" where
  "boot X fs store auth ask =
     (if \<not> is_store fs store then act_fail (BtNotAStore (to_string_lossy store))
      else act_bind (unlock X fs store auth ask) (\<lambda>(master, how).
           act_read (\<lambda>_. res_bind (prove X fs store master) (\<lambda>(head, objects).
             Inr \<lparr>bo_store = store, bo_master = master, bo_method = how, bo_head = head,
                  bo_objects = objects\<rparr>))))"

definition adopt :: "ext \<Rightarrow> boot_fs \<Rightarrow> string \<Rightarrow> bytes \<Rightarrow> boot_error + booted" where
  "adopt X fs store master =
     (if \<not> is_store fs store then Inl (BtNotAStore (to_string_lossy store))
      else res_bind (prove X fs store master) (\<lambda>(head, objects).
        Inr \<lparr>bo_store = store, bo_master = master, bo_method = MHanded, bo_head = head,
             bo_objects = objects\<rparr>))"

subsection \<open>The handed master\<close>

definition master_fd_env :: string where "master_fd_env = ''HORIZON_MASTER_FD''"

text \<open>\<open>str::parse::<i32>\<close> with its four error texts.\<close>

fun i32_digits :: "bool \<Rightarrow> int \<Rightarrow> string \<Rightarrow> string + int" where
  "i32_digits neg v [] = Inr v"
| "i32_digits neg v (c # s) =
     (case digit_val 10 c of
        None \<Rightarrow> Inl ''invalid digit found in string''
      | Some d \<Rightarrow>
          (let v' = (if neg then v * 10 - int d else v * 10 + int d) in
           if v' < - (2 ^ 31) then Inl ''number too small to fit in target type''
           else if 2 ^ 31 \<le> v' then Inl ''number too large to fit in target type''
           else i32_digits neg v' s))"

definition parse_i32 :: "string \<Rightarrow> string + int" where
  "parse_i32 s =
     (case s of
        [] \<Rightarrow> Inl ''cannot parse integer from empty string''
      | c # r \<Rightarrow>
          if r = [] \<and> (c = CHR ''+'' \<or> c = CHR ''-'') then Inl ''invalid digit found in string''
          else if c = CHR ''+'' then i32_digits False 0 r
          else if c = CHR ''-'' then i32_digits True 0 r
          else i32_digits False 0 s)"

text \<open>The environment as a map, and what reading a descriptor to its end gives.  A value that is not
  UTF-8 is no value at all.\<close>

definition take_handed_master ::
  "(int \<Rightarrow> string + bytes) \<Rightarrow> (string \<rightharpoonup> string) \<Rightarrow> (boot_error + bytes) option \<times> (string \<rightharpoonup> string)" where
  "take_handed_master fds env =
     (case env master_fd_env of
        None \<Rightarrow> (None, env)
      | Some raw \<Rightarrow>
          if \<not> utf8_str raw then (None, env)
          else
            (Some (case parse_i32 raw of
               Inl e \<Rightarrow> Inl (BtPassphrase (''bad '' @ master_fd_env @ '': '' @ e))
             | Inr fd \<Rightarrow>
                 if fd = -1 then Inl (BtPanic ''file descriptor -1'')
                 else case fds fd of
                        Inl e \<Rightarrow> Inl (BtIo e)
                      | Inr bs \<Rightarrow>
                          if length bs < 32 then Inl (BtIo ''failed to fill whole buffer'')
                          else Inr (take 32 bs)),
             env(master_fd_env := None)))"

subsection \<open>The initramfs side\<close>

text \<open>The authenticator the command line asks for: with FIDO2 support built in, the key it opens;
  otherwise a token file, or none.\<close>

datatype boot_device = DevKey | DevToken bytes

definition read_token :: "boot_fs \<Rightarrow> string \<Rightarrow> init_error + bytes" where
  "read_token fs path =
     (let fail = (\<lambda>e. Inl (InitBoot (''read token '' @ to_string_lossy path @ '': '' @ e))) in
      case bf_read fs path of
        FileMissing e \<Rightarrow> fail e
      | FileError e \<Rightarrow> fail e
      | FileBytes bs \<Rightarrow>
          if length bs = 32 then Inr bs
          else Inl (InitBoot (''token '' @ to_string_lossy path @ '' is not 32 bytes'')))"

definition authenticator :: "boot_fs \<Rightarrow> (id_error + unit) option \<Rightarrow> params \<Rightarrow> init_error + boot_device option" where
  "authenticator fs key p =
     (case (pa_fido2 p, key) of
        (True, Some (Inr _)) \<Rightarrow> Inr (Some DevKey)
      | (True, Some (Inl e)) \<Rightarrow> Inl (InitBoot (''open security key: '' @ id_error_text e))
      | _ \<Rightarrow>
          (case pa_token p of
             None \<Rightarrow> Inr None
           | Some path \<Rightarrow> res_bind (read_token fs path) (\<lambda>seed. Inr (Some (DevToken seed)))))"

text \<open>\<open>read_passphrase\<close>: one line of the console, without its line end.\<close>

definition trim_line_end :: "string \<Rightarrow> string" where
  "trim_line_end s = rev (dropWhile (\<lambda>c. c = CHR 0x0D \<or> c = CHR 0x0A) (rev s))"

definition read_passphrase :: "(string + string) list prompt" where
  "read_passphrase lines =
     (case lines of
        [] \<Rightarrow> (Inr [], [])
      | Inl e # rest \<Rightarrow> (Inl (BtPassphrase e), rest)
      | Inr line # rest \<Rightarrow> (Inr (trim_line_end line), rest))"

definition recover_master ::
  "ext \<Rightarrow> boot_fs \<Rightarrow> (id_error + unit) option \<Rightarrow> 'h auth \<Rightarrow> string \<Rightarrow> params
     \<Rightarrow> ('h \<times> (string + string) list, init_error, bytes) action" where
  "recover_master X fs key H store p st =
     (let out = (\<lambda>r. res_bind (res_map_err (\<lambda>e. InitBoot (boot_error_text e)) r) (\<lambda>(master, how). Inr master)) in
      case authenticator fs key p of
        Inl e \<Rightarrow> (Inl e, st)
      | Inr None \<Rightarrow> (case unlock X fs store (None :: 'h auth option) read_passphrase st of (r, st') \<Rightarrow> (out r, st'))
      | Inr (Some DevKey) \<Rightarrow> (case unlock X fs store (Some H) read_passphrase st of (r, st') \<Rightarrow> (out r, st'))
      | Inr (Some (DevToken seed)) \<Rightarrow>
          (case unlock X fs store (Some (soft_auth X)) read_passphrase (\<lparr>sw_seed = seed, sw_draws = 0\<rparr>, snd st) of
             (r, st') \<Rightarrow> (out r, (fst st, snd st'))))"

subsection \<open>What a boot promises\<close>

definition one_store :: "boot_fs \<Rightarrow> string \<Rightarrow> string list \<Rightarrow> string \<Rightarrow> bool" where
  "one_store fs root paths p \<longleftrightarrow>
     (if is_store fs root then p = root
      else filter (\<lambda>q. bf_is_dir fs q \<and> is_store fs q) paths = [p])"

lemma discover_Inr_iff:
  assumes "bf_list fs root = Inr (map Inr paths)"
  shows "discover fs root = Inr p \<longleftrightarrow> one_store fs root paths p"
proof -
  have "res_map_all (\<lambda>e. e) (map Inr paths) = (Inr paths :: string + string list)"
    by (induction paths) simp_all
  then show ?thesis
    using assms by (auto simp: discover_def one_store_def Let_def split: list.split)
qed

text \<open>A master is proven for a store when it opens it and decrypts the head.\<close>

definition proven :: "ext \<Rightarrow> boot_fs \<Rightarrow> string \<Rightarrow> bytes \<Rightarrow> object_id option \<Rightarrow> bool" where
  "proven X fs store master head \<longleftrightarrow>
     (\<exists>ls. store_open X (to_string_lossy store) master (bf_store fs store) = Inr ls \<and> ls_head X ls = Inr head
        \<and> (case head of None \<Rightarrow> True | Some h \<Rightarrow> is_ok (ls_get X ls h)))"

lemma prove_proven:
  assumes "prove X fs store master = Inr (head, n)"
  shows "proven X fs store master head"
proof -
  from assms obtain ls where "store_open X (to_string_lossy store) master (bf_store fs store) = Inr ls"
    "ls_head X ls = Inr head"
    and ok: "(case head of None \<Rightarrow> Inr ()
       | Some h \<Rightarrow> (case ls_get X ls h of Inr ob \<Rightarrow> Inr () | Inl e \<Rightarrow> Inl BtKeyMismatch)) = Inr ()"
    by (auto simp: prove_def res_bind_Inr_iff)
  moreover from ok have "case head of None \<Rightarrow> True | Some h \<Rightarrow> is_ok (ls_get X ls h)"
    by (cases head; cases "ls_get X ls (the head)") simp_all
  ultimately show ?thesis unfolding proven_def by blast
qed

text \<open>Touch to boot: when the presented device opens a slot, its master boots and the prompt is not
  run.\<close>

lemma boot_by_slot:
  assumes "is_store fs store" and "load_keyslots fs store = Inr slots" and "slots \<noteq> []"
    and "unlock_any X A slots s = (Inr master, s')" and "prove X fs store master = Inr (head, n)"
  shows "boot X fs store (Some A) ask (s, w) =
    (Inr \<lparr>bo_store = store, bo_master = master, bo_method = MKeyslot, bo_head = head, bo_objects = n\<rparr>, (s', w))"
proof -
  have "unlock X fs store (Some A) ask (s, w) = (Inr (master, MKeyslot), (s', w))"
    using assms by (simp add: unlock_def)
  with assms(1,5) show ?thesis by (simp add: boot_def)
qed

text \<open>Without a device, without slots, or with a device that opens none, the prompt decides.\<close>

lemma unlock_falls_back:
  assumes "case auth of None \<Rightarrow> True
    | Some A \<Rightarrow> load_keyslots fs store = Inr slots \<and> (slots = [] \<or> (\<exists>e. unlock_any X A slots s = (Inl e, s')))"
  shows "\<exists>s1. unlock X fs store auth ask (s, w) = unlock_passphrase X fs store ask (s1, w)"
proof (cases auth)
  case None
  then show ?thesis by (auto simp: unlock_def)
next
  case (Some A)
  with assms consider "slots = []" | e where "unlock_any X A slots s = (Inl e, s')" by auto
  then show ?thesis using assms Some by cases (auto simp: unlock_def)
qed

lemma handed_clears:
  assumes "take_handed_master fds env = (r, env')"
  shows "(\<forall>k. k \<noteq> master_fd_env \<longrightarrow> env' k = env k)
    \<and> (env' master_fd_env = None \<or> (\<exists>raw. env master_fd_env = Some raw \<and> \<not> utf8_str raw \<and> r = None))
    \<and> (\<forall>m. r = Some (Inr m) \<longrightarrow> length m = 32)"
  using assms by (auto simp: take_handed_master_def split: option.splits if_splits sum.splits)

lemma proven_prove:
  assumes "proven X fs store master head"
  obtains n where "prove X fs store master = Inr (head, n)"
proof -
  from assms obtain ls where ls: "store_open X (to_string_lossy store) master (bf_store fs store) = Inr ls"
    "ls_head X ls = Inr head" "case head of None \<Rightarrow> True | Some h \<Rightarrow> is_ok (ls_get X ls h)"
    unfolding proven_def by blast
  have "prove X fs store master = Inr (head, object_count X ls)"
    using ls by (cases head) (auto simp: prove_def is_ok_iff)
  with that show thesis by blast
qed

text \<open>A slot enrolled with a token, kept among others that open to nothing else, unlocks with it.\<close>

lemma soft_unlocks:
  assumes "ext_ok X" and "enroll X (soft_auth X) d master tok = (Inr ks, tok')" and "length master = 32"
    and "ks \<in> set slots"
    and others: "\<And>k t m t'. k \<in> set slots \<Longrightarrow> sw_seed t = sw_seed tok' \<Longrightarrow>
      keyslot_unlock X (soft_auth X) k t = (Inr m, t') \<Longrightarrow> m = master"
  shows "fst (unlock_any X (soft_auth X) slots tok') = Inr master"
proof -
  have unlocks: "keyslot_unlock X (soft_auth X) k t
      = (keyslot_unwrap X k (soft_secret X (sw_seed t) (ks_cred k) (ks_salt k)), t)" for k t
    by (simp add: keyslot_unlock_def act_bind_def soft_auth_def soft_hmac_def)
  have "soft.slot_of X tok' master ks" using soft.enroll_slot [OF assms(1-3)] by blast
  moreover have "m = master" if "k \<in> set slots" "soft_secret X (sw_seed t) = soft_secret X (sw_seed tok')"
    "keyslot_unlock X (soft_auth X) k t = (Inr m, t')" for k t m t'
    using others [OF that(1), of tok'] that(2,3) by (simp add: unlocks)
  ultimately show ?thesis by (rule soft.unlock_any_finds [OF assms(1,4)])
qed

end
