(* ===== verification/LinkSamples.thy ===== *)
theory LinkSamples
  imports Samples Net Boot
begin

section \<open>Concrete synchronisations and boots\<close>

text \<open>
  Two stores of one identity, the second one generation behind, a link whose Noise states pass
  bytes through, and a machine that boots with a software token.
\<close>

subsection \<open>Two generations\<close>

definition demo_gen1 :: generation where
  "demo_gen1 = \<lparr>gen_root = replicate 32 1, gen_parents = [], gen_time = 1, gen_label = [], gen_meta = []\<rparr>"

definition demo_m1 :: bytes where "demo_m1 = object_encode (Gen demo_gen1)"
definition demo_i1 :: object_id where "demo_i1 = pad32 demo_m1"

definition demo_gen2 :: generation where
  "demo_gen2 = \<lparr>gen_root = replicate 32 2, gen_parents = [demo_i1], gen_time = 2, gen_label = [], gen_meta = []\<rparr>"

definition demo_m2 :: bytes where "demo_m2 = object_encode (Gen demo_gen2)"
definition demo_i2 :: object_id where "demo_i2 = pad32 demo_m2"

definition demo_gens :: "bytes set" where "demo_gens = {demo_m1, demo_m2}"

lemma demo_ids_wf [simp]: "wf_id demo_i1" "wf_id demo_i2" "length demo_i1 = 32" "length demo_i2 = 32"
  by (simp_all add: wf_id_def demo_i1_def demo_i2_def)

lemma demo_gens_wf: "wf_object (Gen demo_gen1)" "wf_object (Gen demo_gen2)"
  by (simp_all add: wf_object_def wf_generation_def demo_gen1_def demo_gen2_def wf_str32_def len32_def wf_id_def
      utf8_str_ascii ascii_str_def)

lemma demo_m_decode: "object_decode demo_m1 = Inr (Gen demo_gen1)" "object_decode demo_m2 = Inr (Gen demo_gen2)"
  by (simp_all add: demo_m1_def demo_m2_def object_decode_encode demo_gens_wf)

lemma demo_gens_decodable: "decodable demo_gens"
  by (simp add: decodable_def demo_gens_def demo_m_decode)

lemma demo_ids_differ: "demo_i1 \<noteq> demo_i2"
proof -
  have "demo_i1 ! 1 = 1" "demo_i2 ! 1 = 2"
    by (simp_all add: demo_i1_def demo_i2_def pad32_def demo_m1_def demo_m2_def object_encode_def put_generation_def
        demo_gen1_def demo_gen2_def nth_append)
  then show ?thesis by auto
qed

lemma demo_gens_inj: "inj_on pad32 demo_gens"
  using demo_ids_differ by (auto simp: demo_gens_def inj_on_def demo_i1_def demo_i2_def)

definition demo_seal :: "bytes \<Rightarrow> bytes" where
  "demo_seal m = replicate 24 0 @ m"

definition demo_names :: "string set" where "demo_names = {''main''}"

lemma demo_sealed:
  "m \<in> demo_gens \<Longrightarrow> sealed_for demo_ext demo_gens 1000 demo_keys (pad32 m) (demo_seal m) m"
  by (auto simp: sealed_for_def open_checked_def open_record_def demo_seal_def nonce_len_def demo_ext_def id_of_def
      wf_id_def demo_gens_def demo_m1_def demo_m2_def object_encode_def put_generation_def demo_gen1_def
      demo_gen2_def put_str32_def put_bytes32_def)

abbreviation demo_good :: "lstore \<Rightarrow> bool" where
  "demo_good \<equiv> store_ok demo_ext demo_gens demo_names 1000 demo_keys"

definition demo_put :: "bytes \<Rightarrow> lstore \<Rightarrow> lstore" where
  "demo_put m s = snd (store_write_record demo_ext (pad32 m) (demo_seal m) s)"

lemma demo_put_step:
  assumes "demo_good s" and "m \<in> demo_gens" and "store_abs demo_ext s (pad32 m) = None"
  shows "demo_good (demo_put m s)" and "store_abs demo_ext (demo_put m s) = (store_abs demo_ext s)(pad32 m \<mapsto> m)"
    and "store_refs demo_ext (demo_put m s) = store_refs demo_ext s"
  using store_writes [OF assms(1) demo_sealed [OF assms(2)]] assms(3) by (auto simp: demo_put_def)

definition demo_tag :: "object_id \<Rightarrow> lstore \<Rightarrow> lstore" where
  "demo_tag i s = store_set_ref demo_ext ''main'' i s"

lemma demo_proper: "wf_id i \<Longrightarrow> proper_ref demo_names ''main'' i"
  by (simp add: proper_ref_def demo_names_def utf8_str_ascii ascii_str_def)

lemma demo_tag_step:
  assumes "demo_good s" and "wf_id i"
  shows "demo_good (demo_tag i s)" and "store_abs demo_ext (demo_tag i s) = store_abs demo_ext s"
    and "store_refs demo_ext (demo_tag i s) = (store_refs demo_ext s)(''main'' \<mapsto> i)"
  using local_peer.set_ref [OF assms(1) demo_proper [OF assms(2)]]
  by (auto simp: demo_tag_def local_transport_def)

lemma demo_start_good: "demo_good demo_store" "store_abs demo_ext demo_store = Map.empty"
    "store_refs demo_ext demo_store = Map.empty"
  using demo_okay [OF demo_gens_inj] demo_gens_decodable
  by (auto simp: store_ok_def refs_proper_def demo_store_def store_init_def demo_blank_def store_abs_def
      store_get_def store_read_record_def store_refs_def store_get_ref_def fun_eq_iff)

text \<open>The store ahead and the store behind.\<close>

definition demo_ahead :: lstore where
  "demo_ahead = demo_tag demo_i2 (demo_put demo_m2 (demo_put demo_m1 demo_store))"

definition demo_behind :: lstore where
  "demo_behind = demo_tag demo_i1 (demo_put demo_m1 demo_store)"

lemma demo_behind: "demo_good demo_behind" "store_abs demo_ext demo_behind = [demo_i1 \<mapsto> demo_m1]"
    "store_refs demo_ext demo_behind = [''main'' \<mapsto> demo_i1]"
proof -
  have m: "demo_m1 \<in> demo_gens" by (simp add: demo_gens_def)
  note put = demo_put_step [OF demo_start_good(1) m]
  note tag = demo_tag_step [OF put(1) demo_ids_wf(1)]
  show "demo_good demo_behind" "store_abs demo_ext demo_behind = [demo_i1 \<mapsto> demo_m1]"
    "store_refs demo_ext demo_behind = [''main'' \<mapsto> demo_i1]"
    using tag put demo_start_good by (simp_all add: demo_behind_def demo_i1_def)
qed

lemma demo_ahead: "demo_good demo_ahead"
    "store_abs demo_ext demo_ahead = [demo_i1 \<mapsto> demo_m1, demo_i2 \<mapsto> demo_m2]"
    "store_refs demo_ext demo_ahead = [''main'' \<mapsto> demo_i2]"
proof -
  have m: "demo_m1 \<in> demo_gens" "demo_m2 \<in> demo_gens" by (simp_all add: demo_gens_def)
  note put1 = demo_put_step [OF demo_start_good(1) m(1)]
  have fresh: "store_abs demo_ext (demo_put demo_m1 demo_store) (pad32 demo_m2) = None"
    using put1 demo_start_good demo_ids_differ by (simp add: demo_i1_def demo_i2_def)
  note put2 = demo_put_step [OF put1(1) m(2) fresh]
  note tag = demo_tag_step [OF put2(1) demo_ids_wf(2)]
  show "demo_good demo_ahead" "store_abs demo_ext demo_ahead = [demo_i1 \<mapsto> demo_m1, demo_i2 \<mapsto> demo_m2]"
    "store_refs demo_ext demo_ahead = [''main'' \<mapsto> demo_i2]"
    using tag put2 put1 demo_start_good by (simp_all add: demo_ahead_def demo_i1_def demo_i2_def)
qed

lemma demo_history: "(demo_i2, demo_i1) \<in> (history_edges [demo_i1 \<mapsto> demo_m1, demo_i2 \<mapsto> demo_m2])\<^sup>*"
  using demo_ids_differ
  by (intro r_into_rtrancl) (simp add: history_edges_def parents_in_def demo_m_decode, simp add: demo_gen2_def)

subsection \<open>A link\<close>

definition plain_noise :: "unit noise" where
  "plain_noise = \<lparr>nz_eof = ''finished'',
     nz_write = (\<lambda>a pt. if length pt \<le> max_segment then Inr (pt, a) else Inl ''input error''),
     nz_read = (\<lambda>b ct. Inr (ct, b))\<rparr>"

definition any_pair :: "unit \<Rightarrow> unit \<Rightarrow> bool" where
  "any_pair a b \<longleftrightarrow> True"

lemma plain_noise_ok: "noise_ok plain_noise any_pair"
  by (simp add: noise_ok_def plain_noise_def any_pair_def max_segment_def)

definition demo_link :: "lstore \<Rightarrow> (unit, lstore) link" where
  "demo_link s = \<lparr>lk_near = (), lk_in = [],
     lk_server = \<lparr>sv_noise = (), sv_peer = s, sv_in = [], sv_out = []\<rparr>, lk_open = True\<rparr>"

lemma demo_room: "wire_room demo_gens demo_names 1000"
proof -
  have "card demo_gens \<le> 2" by (simp add: demo_gens_def card_insert_if)
  then show ?thesis by (simp add: wire_room_def demo_names_def demo_gens_def)
qed

lemma demo_link_ok: "link_ok plain_noise any_pair (demo_link s)"
  using plain_noise_ok by (simp add: link_ok_def demo_link_def any_pair_def)

lemma demo_link_live: "demo_good s \<Longrightarrow>
    link_live plain_noise any_pair (store_served demo_ext demo_gens demo_names 1000 demo_keys) (demo_link s)"
  using demo_link_ok demo_room by (simp add: link_live_def store_served_def demo_link_def)

subsection \<open>A machine that boots with a token\<close>

definition demo_token :: soft_token where
  "demo_token = \<lparr>sw_seed = replicate 32 3, sw_draws = 0\<rparr>"

definition demo_token2 :: soft_token where
  "demo_token2 = demo_token\<lparr>sw_draws := 1\<rparr>"

definition demo_slot :: keyslot where
  "demo_slot = \<lparr>ks_cred = replicate 16 0, ks_salt = replicate 32 5, ks_nonce = replicate 24 6, ks_sealed = demo_master\<rparr>"

lemma demo_enroll: "enroll demo_ext (soft_auth demo_ext) 5 demo_master demo_token = (Inr demo_slot, demo_token2)"
  by (simp add: enroll_def soft_auth_def soft_make_def soft_hmac_def keyslot_seal_def act_bind_def Let_def
      demo_ext_def demo_master_def demo_slot_def demo_token_def demo_token2_def seal_max_def salt_len_def id_nonce_len_def)

lemma demo_slot_wf: "wf_keyslot demo_slot"
  by (simp add: wf_keyslot_def demo_slot_def demo_master_def)

lemma demo_slot_opens: "keyslot_unlock demo_ext (soft_auth demo_ext) demo_slot t = (r, t') \<Longrightarrow> r = Inr demo_master"
  by (simp add: keyslot_unlock_def soft_auth_def soft_hmac_def act_bind_def keyslot_unwrap_def Let_def demo_ext_def
      demo_slot_def demo_master_def split: prod.splits)

definition demo_fs :: boot_fs where
  "demo_fs = \<lparr>bf_is_file = (\<lambda>p. p = ''/s/keysalt''), bf_is_dir = (\<lambda>p. p = ''/s/objects''),
     bf_list = (\<lambda>p. Inr []),
     bf_read = (\<lambda>p. if p = ''/s/keyslots'' then FileBytes (keyslots_encode [demo_slot]) else FileMissing ''none''),
     bf_store = (\<lambda>p. demo_store)\<rparr>"

lemma demo_fs_paths: "path_join ''/s'' salt_file = ''/s/keysalt''" "path_join ''/s'' ''objects'' = ''/s/objects''"
    "path_join ''/s'' keyslots_file = ''/s/keyslots''"
  by (simp_all add: path_join_def path_is_absolute_def salt_file_def keyslots_file_def)

lemma demo_fs_store: "is_store demo_fs ''/s''"
  by (simp add: is_store_def demo_fs_paths) (simp add: demo_fs_def)

lemma demo_fs_slots: "bf_read demo_fs (path_join ''/s'' keyslots_file) = FileBytes (keyslots_encode [demo_slot])"
  by (simp add: demo_fs_paths) (simp add: demo_fs_def)

lemma demo_fs_proven: "proven demo_ext demo_fs ''/s'' demo_master None"
proof -
  have "store_open demo_ext (to_string_lossy ''/s'') demo_master (bf_store demo_fs ''/s'') = Inr demo_store"
    by (simp add: demo_fs_def store_open_def demo_store_def store_init_def demo_blank_def)
  moreover have "ls_head demo_ext demo_store = Inr None"
    by (simp add: ls_head_def store_get_ref_def demo_store_def store_init_def demo_blank_def)
  ultimately show ?thesis by (simp add: proven_def)
qed

end
