(* ===== verification/Tools.thy ===== *)
theory Tools
  imports Broker
begin

section \<open>Aura: the tools\<close>

text \<open>
  \<open>crates/aura/src/tool.rs\<close> and \<open>error.rs\<close>.  What a tool asks of the file system is a call
  \<open>fs_call\<close>; running a tool is an action on the trace of the calls made so far, and the answers are
  functions of that trace.  The trait \<open>Tool\<close> is a record, the catalog a list.  The score of a document
  for a query (a cosine of two \<open>f32\<close> vectors) is a parameter, as an integer with the same order and the
  same sign; a score that is not a number does not occur in it.
\<close>

datatype aura_error =
    AuMissingArg string
  | AuBadArg string string
  | AuUnknownTool string
  | AuIo string
  | AuWeave wv_error
  | AuLifestream string
  | AuIndex string
  | AuPlan string
  | AuModel string

definition wv_error_text :: "wv_error \<Rightarrow> string" where
  "wv_error_text e =
     (case e of
        WvLifestream s \<Rightarrow> ''lifestream: '' @ ls_error_text s
      | WvDenied s \<Rightarrow> ''denied: '' @ s
      | WvCorrupt s \<Rightarrow> ''corrupt audit record: '' @ s)"

definition aura_error_text :: "aura_error \<Rightarrow> string" where
  "aura_error_text e =
     (case e of
        AuMissingArg k \<Rightarrow> ''missing argument: '' @ k
      | AuBadArg k s \<Rightarrow> ''bad argument '' @ k @ '': '' @ s
      | AuUnknownTool s \<Rightarrow> ''unknown tool: '' @ s
      | AuIo s \<Rightarrow> ''io: '' @ s
      | AuWeave w \<Rightarrow> ''weave: '' @ wv_error_text w
      | AuLifestream s \<Rightarrow> ''lifestream: '' @ s
      | AuIndex s \<Rightarrow> ''malformed index: '' @ s
      | AuPlan s \<Rightarrow> ''planning failed: '' @ s
      | AuModel s \<Rightarrow> ''model: '' @ s)"

definition read_cap :: nat where "read_cap = 64 * 1024"
definition find_depth :: nat where "find_depth = 8"
definition find_limit :: nat where "find_limit = 50"

datatype effect = EffRead | EffWrite | EffDestructive

definition effect_label :: "effect \<Rightarrow> string" where
  "effect_label e =
     (case e of EffRead \<Rightarrow> ''read'' | EffWrite \<Rightarrow> ''write'' | EffDestructive \<Rightarrow> ''destructive'')"

definition is_destructive :: "effect \<Rightarrow> bool" where
  "is_destructive e \<longleftrightarrow> e = EffDestructive"

record need =
  nd_resource :: resource
  nd_rights :: rights

record param_spec =
  pm_name :: string
  pm_description :: string
  pm_required :: bool

subsection \<open>Arguments\<close>

type_synonym args = "string \<rightharpoonup> string"

definition args_with :: "args \<Rightarrow> string \<Rightarrow> string \<Rightarrow> args" where
  "args_with a k v = a(k \<mapsto> v)"

definition args_require :: "args \<Rightarrow> string \<Rightarrow> aura_error + string" where
  "args_require a k = ok_or (AuMissingArg k) (a k)"

datatype outcome =
    OcListing "string list"
  | OcText string
  | OcMatches "string list"
  | OcMoved string string
  | OcDeleted string

definition outcome_summary :: "outcome \<Rightarrow> string" where
  "outcome_summary oc =
     (case oc of
        OcListing es \<Rightarrow> show_nat (length es) @ '' entries''
      | OcText t \<Rightarrow> show_nat (length t) @ '' bytes''
      | OcMatches ms \<Rightarrow> show_nat (length ms) @ '' matches''
      | OcMoved a b \<Rightarrow> ''moved '' @ a @ '' -> '' @ b
      | OcDeleted p \<Rightarrow> ''deleted '' @ p)"

subsection \<open>The file system\<close>

datatype fs_call =
    FsReadDir string
  | FsIsDir string
  | FsRead string
  | FsRename string string
  | FsRemove string

record tool_disk =
  dk_cwd :: "string + string"
  dk_list :: "fs_call list \<Rightarrow> string \<Rightarrow> string + (string + string) list"
  dk_is_dir :: "fs_call list \<Rightarrow> string \<Rightarrow> bool"
  dk_read :: "fs_call list \<Rightarrow> string \<Rightarrow> string + bytes"
  dk_rename :: "fs_call list \<Rightarrow> string \<Rightarrow> string \<Rightarrow> string + unit"
  dk_remove :: "fs_call list \<Rightarrow> string \<Rightarrow> string + unit"

type_synonym 'a fs_action = "(fs_call list, aura_error, 'a) action"

definition fs_do :: "fs_call \<Rightarrow> (fs_call list \<Rightarrow> string + 'a) \<Rightarrow> 'a fs_action" where
  "fs_do c answer tr = (res_map_err AuIo (answer tr), tr @ [c])"

text \<open>A listing: the names, or the error of the first entry that cannot be read.\<close>

definition fs_list :: "tool_disk \<Rightarrow> string \<Rightarrow> string list fs_action" where
  "fs_list D p = fs_do (FsReadDir p) (\<lambda>tr. res_bind (dk_list D tr p) (res_map_all (\<lambda>e. e)))"

text \<open>\<open>std::path::absolute\<close>: the components behind the working directory unless they are rooted, two
  leading slashes kept as they are, a leading \<open>.\<close> and empty components dropped, \<open>..\<close> left in, and a
  trailing slash kept.\<close>

definition comp_text :: "path_comp \<Rightarrow> string" where
  "comp_text c =
     (case c of RootDir \<Rightarrow> ''/'' | CurDir \<Rightarrow> ''.'' | ParentDir \<Rightarrow> ''..'' | Normal s \<Rightarrow> s)"

definition path_absolute :: "string + string \<Rightarrow> string \<Rightarrow> string + string" where
  "path_absolute cwd p =
     (let comps = (case path_components p of CurDir # cs \<Rightarrow> cs | cs \<Rightarrow> cs);
          extend = (\<lambda>base cs. foldl (\<lambda>b c. path_join b (comp_text c)) base cs);
          finish = (\<lambda>q. if p \<noteq> [] \<and> last p = CHR ''/'' then path_join q [] else q)
      in if p = [] then Inl ''cannot make an empty path absolute''
         else if \<not> path_is_absolute p then res_bind cwd (\<lambda>base. Inr (finish (extend base comps)))
         else if take 2 p = ''//'' \<and> take 3 p \<noteq> ''///'' then Inr (finish (extend ''//'' (tl comps)))
         else Inr (finish (extend [] comps)))"

definition path_arg :: "tool_disk \<Rightarrow> args \<Rightarrow> string \<Rightarrow> aura_error + string" where
  "path_arg D a key =
     res_bind (args_require a key) (\<lambda>raw.
       if raw = [] then Inl (AuBadArg key ''empty path'')
       else res_map_err (AuBadArg key) (path_absolute (dk_cwd D) raw))"

subsection \<open>Tools and the catalog\<close>

record tool =
  tl_name :: string
  tl_description :: string
  tl_params :: "param_spec list"
  tl_effect :: effect
  tl_required :: "args \<Rightarrow> aura_error + need list"
  tl_run :: "args \<Rightarrow> lease list \<Rightarrow> outcome fs_action"

type_synonym catalog = "tool list"

definition catalog_get :: "catalog \<Rightarrow> string \<Rightarrow> tool option" where
  "catalog_get cat name = find (\<lambda>t. tl_name t = name) cat"

definition catalog_describe :: "catalog \<Rightarrow> string" where
  "catalog_describe cat =
     concat (map (\<lambda>t. tl_name t @ '' ''
       @ join_with '' '' (map (\<lambda>p. if pm_required p then ''<'' @ pm_name p @ ''>'' else ''['' @ pm_name p @ '']'') (tl_params t))
       @ '' ('' @ effect_label (tl_effect t) @ ''): '' @ tl_description t @ [CHR 0x0A]) cat)"

definition file_need :: "string \<Rightarrow> rights \<Rightarrow> need" where
  "file_need p q = \<lparr>nd_resource = RFile p, nd_rights = q\<rparr>"

definition need_path :: "tool_disk \<Rightarrow> string \<Rightarrow> rights \<Rightarrow> args \<Rightarrow> aura_error + need list" where
  "need_path D key q a = res_bind (path_arg D a key) (\<lambda>p. Inr [file_need p q])"

definition needed :: "string \<Rightarrow> string \<Rightarrow> param_spec" where
  "needed name what = \<lparr>pm_name = name, pm_description = what, pm_required = True\<rparr>"

definition list_dir_run :: "tool_disk \<Rightarrow> args \<Rightarrow> lease list \<Rightarrow> outcome fs_action" where
  "list_dir_run D a ls =
     act_bind (act_read (\<lambda>_. path_arg D a ''path'')) (\<lambda>p.
     act_bind (fs_list D p) (\<lambda>names. act_ret (OcListing (sort (map to_string_lossy names)))))"

definition list_dir :: "tool_disk \<Rightarrow> tool" where
  "list_dir D =
     \<lparr>tl_name = ''list_dir'', tl_description = ''list the entries directly under a directory'',
      tl_params = [needed ''path'' ''the directory to list''], tl_effect = EffRead,
      tl_required = need_path D ''path'' rights_read, tl_run = list_dir_run D\<rparr>"

definition read_file_run :: "tool_disk \<Rightarrow> args \<Rightarrow> lease list \<Rightarrow> outcome fs_action" where
  "read_file_run D a ls =
     act_bind (act_read (\<lambda>_. path_arg D a ''path'')) (\<lambda>p.
     act_bind (fs_do (FsRead p) (\<lambda>tr. dk_read D tr p)) (\<lambda>bs.
       act_ret (OcText (to_string_lossy (bytes_str (take read_cap bs))))))"

definition read_file :: "tool_disk \<Rightarrow> tool" where
  "read_file D =
     \<lparr>tl_name = ''read_file'', tl_description = ''read the text contents of a file'',
      tl_params = [needed ''path'' ''the file to read''], tl_effect = EffRead,
      tl_required = need_path D ''path'' rights_read, tl_run = read_file_run D\<rparr>"

subsection \<open>Find\<close>

text \<open>A file that cannot be read counts as empty.\<close>

definition doc_text :: "tool_disk \<Rightarrow> string \<Rightarrow> string \<Rightarrow> fs_call list \<Rightarrow> string \<times> fs_call list" where
  "doc_text D name p tr =
     (to_string_lossy name @ [CHR 0x0A]
        @ (case dk_read D tr p of Inr bs \<Rightarrow> to_string_lossy (bytes_str (take read_cap bs)) | Inl e \<Rightarrow> []),
      tr @ [FsRead p])"

text \<open>The walk hands every file, with its name, to the visitor, directories in the order of their
  names; what the visitor returns is collected.\<close>

fun walk :: "tool_disk \<Rightarrow> (string \<Rightarrow> string \<Rightarrow> 'a list fs_action) \<Rightarrow> nat \<Rightarrow> string \<Rightarrow> 'a list fs_action" where
  "walk D f 0 dir = act_ret []"
| "walk D f (Suc depth) dir =
     act_bind (fs_list D dir) (\<lambda>names.
     act_bind (act_map (\<lambda>name tr.
         let p = path_join dir name; tr' = tr @ [FsIsDir p] in
         if dk_is_dir D tr p then walk D f depth p tr' else f name p tr') (sort names)) (\<lambda>found.
       act_ret (concat found)))"

definition find_visit :: "tool_disk \<Rightarrow> (string \<Rightarrow> int) \<Rightarrow> string \<Rightarrow> string \<Rightarrow> (int \<times> string) list fs_action" where
  "find_visit D score name p tr =
     (case doc_text D name p tr of
        (doc, tr') \<Rightarrow> (Inr (if 0 < score doc then [(score doc, to_string_lossy p)] else []), tr'))"

text \<open>Best score first, ties in the order of the paths.\<close>

definition rank :: "(int \<times> string) list \<Rightarrow> string list" where
  "rank scored = map snd (take find_limit (sort_key (\<lambda>x. - fst x) (sort_key snd scored)))"

definition find_run :: "tool_disk \<Rightarrow> (string \<Rightarrow> string \<Rightarrow> int) \<Rightarrow> args \<Rightarrow> lease list \<Rightarrow> outcome fs_action" where
  "find_run D score a ls =
     act_bind (act_read (\<lambda>_. path_arg D a ''dir'')) (\<lambda>dir.
     act_bind (act_read (\<lambda>_. args_require a ''query'')) (\<lambda>query.
     act_bind (walk D (find_visit D (score query)) find_depth dir) (\<lambda>scored.
       act_ret (OcMatches (rank scored)))))"

definition find_tool :: "tool_disk \<Rightarrow> (string \<Rightarrow> string \<Rightarrow> int) \<Rightarrow> tool" where
  "find_tool D score =
     \<lparr>tl_name = ''find'', tl_description = ''find files under a directory by meaning (semantic ranking)'',
      tl_params = [needed ''dir'' ''the directory to search'', needed ''query'' ''what to look for, in your own words''],
      tl_effect = EffRead, tl_required = need_path D ''dir'' rights_read, tl_run = find_run D score\<rparr>"

subsection \<open>The destructive tools\<close>

definition move_file_required :: "tool_disk \<Rightarrow> args \<Rightarrow> aura_error + need list" where
  "move_file_required D a =
     res_bind (path_arg D a ''src'') (\<lambda>src.
     res_bind (path_arg D a ''dst'') (\<lambda>dst.
       Inr [file_need src (rights_read OR rights_write), file_need dst rights_write]))"

definition move_file_run :: "tool_disk \<Rightarrow> args \<Rightarrow> lease list \<Rightarrow> outcome fs_action" where
  "move_file_run D a ls =
     act_bind (act_read (\<lambda>_. path_arg D a ''src'')) (\<lambda>src.
     act_bind (act_read (\<lambda>_. path_arg D a ''dst'')) (\<lambda>dst.
     act_bind (fs_do (FsRename src dst) (\<lambda>tr. dk_rename D tr src dst)) (\<lambda>_.
       act_ret (OcMoved (to_string_lossy src) (to_string_lossy dst)))))"

definition move_file :: "tool_disk \<Rightarrow> tool" where
  "move_file D =
     \<lparr>tl_name = ''move_file'', tl_description = ''move a file from one path to another'',
      tl_params = [needed ''src'' ''the file to move'', needed ''dst'' ''where to move it''],
      tl_effect = EffDestructive, tl_required = move_file_required D, tl_run = move_file_run D\<rparr>"

definition delete_file_run :: "tool_disk \<Rightarrow> args \<Rightarrow> lease list \<Rightarrow> outcome fs_action" where
  "delete_file_run D a ls =
     act_bind (act_read (\<lambda>_. path_arg D a ''path'')) (\<lambda>p.
     act_bind (fs_do (FsRemove p) (\<lambda>tr. dk_remove D tr p)) (\<lambda>_. act_ret (OcDeleted (to_string_lossy p))))"

definition delete_file :: "tool_disk \<Rightarrow> tool" where
  "delete_file D =
     \<lparr>tl_name = ''delete_file'', tl_description = ''delete a file'',
      tl_params = [needed ''path'' ''the file to delete''], tl_effect = EffDestructive,
      tl_required = need_path D ''path'' rights_write, tl_run = delete_file_run D\<rparr>"

definition catalog_standard :: "tool_disk \<Rightarrow> (string \<Rightarrow> string \<Rightarrow> int) \<Rightarrow> catalog" where
  "catalog_standard D score = [list_dir D, read_file D, find_tool D score, move_file D, delete_file D]"

subsection \<open>What a tool touches\<close>

text \<open>The authority a call exercises; to name what is in a directory is to read it.\<close>

definition call_needs :: "fs_call \<Rightarrow> need list" where
  "call_needs c =
     (case c of
        FsReadDir p \<Rightarrow> [file_need p rights_read]
      | FsIsDir p \<Rightarrow> [file_need p rights_read]
      | FsRead p \<Rightarrow> [file_need p rights_read]
      | FsRename p q \<Rightarrow> [file_need p (rights_read OR rights_write), file_need q rights_write]
      | FsRemove p \<Rightarrow> [file_need p rights_write])"

definition need_covers :: "need \<Rightarrow> need \<Rightarrow> bool" where
  "need_covers m n \<longleftrightarrow>
     res_covers (nd_resource m) (nd_resource n) \<and> rights_contains (nd_rights m) (nd_rights n)"

definition call_covered :: "need list \<Rightarrow> fs_call \<Rightarrow> bool" where
  "call_covered needs c \<longleftrightarrow> (\<forall>n \<in> set (call_needs c). \<exists>m \<in> set needs. need_covers m n)"

text \<open>A tool stays within its needs when every call it makes, in any state of the file system, is
  covered by them.\<close>

definition tool_within :: "tool \<Rightarrow> bool" where
  "tool_within t \<longleftrightarrow>
     (\<forall>a needs ls. tl_required t a = Inr needs \<longrightarrow> emits (call_covered needs) (tl_run t a ls))"

text \<open>\<open>read_dir\<close> names entries by single components and leaves out \<open>.\<close> and \<open>..\<close>.\<close>

definition disk_ok :: "tool_disk \<Rightarrow> bool" where
  "disk_ok D \<longleftrightarrow>
     (\<forall>tr p es name. dk_list D tr p = Inr es \<longrightarrow> Inr name \<in> set es \<longrightarrow> plain_seg name)"

lemma need_covers_refl [simp]: "need_covers n n"
  by (simp add: need_covers_def)

lemma emits_fs_do: "P c \<Longrightarrow> emits P (fs_do c answer)"
  by (rule emitsI) (simp add: fs_do_def)

lemma fs_list_plain:
  assumes "disk_ok D" and "fs_list D p tr = (Inr names, tr')"
  shows "list_all plain_seg names"
proof -
  from assms(2) obtain es where es: "dk_list D tr p = Inr es" "res_map_all (\<lambda>e. e) es = Inr names"
    by (auto simp: fs_list_def fs_do_def res_map_err_Inr_iff res_bind_Inr_iff)
  from es(2) have "es = map Inr names"
    by (induction es arbitrary: names) (auto simp: res_bind_Inr_iff)
  then show ?thesis using assms(1) es(1) by (auto simp: disk_ok_def list_all_iff)
qed

text \<open>The walk reads only at and under where it starts.\<close>

definition reads_under :: "string \<Rightarrow> fs_call \<Rightarrow> bool" where
  "reads_under dir c \<longleftrightarrow> (\<exists>p. path_starts_with p dir \<and> call_needs c = [file_need p rights_read])"

lemma reads_under_trans: "path_starts_with p dir \<Longrightarrow> reads_under p c \<Longrightarrow> reads_under dir c"
  by (auto simp: reads_under_def intro: path_starts_with_trans)

lemma emits_mono: "(\<And>c. P c \<Longrightarrow> Q c) \<Longrightarrow> emits P m \<Longrightarrow> emits Q m"
  unfolding emits_def by (metis list.pred_mono_strong)

lemma emits_under: "path_starts_with p dir \<Longrightarrow> emits (reads_under p) m \<Longrightarrow> emits (reads_under dir) m"
  by (erule emits_mono [rotated]) (rule reads_under_trans)

lemma walk_emits:
  assumes D: "disk_ok D" and f: "\<And>name p. emits (reads_under p) (f name p)"
  shows "emits (reads_under dir) (walk D f depth dir)"
proof (induction depth arbitrary: dir)
  case (Suc depth)
  let ?visit = "\<lambda>name tr. let p = path_join dir name; tr' = tr @ [FsIsDir p] in
    if dk_is_dir D tr p then walk D f depth p tr' else f name p tr'"
  have visit: "emits (reads_under dir) (?visit name)" if "plain_seg name" for name
  proof (rule emitsI)
    fix tr
    let ?p = "path_join dir name"
    have p: "path_starts_with ?p dir" using that by (rule path_starts_with_join)
    then have here: "reads_under dir (FsIsDir ?p)" by (auto simp: reads_under_def call_needs_def)
    have sub: "emits (reads_under dir) (walk D f depth ?p)" "emits (reads_under dir) (f name ?p)"
      by (rule emits_under [OF p Suc.IH], rule emits_under [OF p f])
    then obtain cs ds where "snd (walk D f depth ?p (tr @ [FsIsDir ?p])) = (tr @ [FsIsDir ?p]) @ cs"
      "list_all (reads_under dir) cs" "snd (f name ?p (tr @ [FsIsDir ?p])) = (tr @ [FsIsDir ?p]) @ ds"
      "list_all (reads_under dir) ds" unfolding emits_def by meson
    note parts = this
    show "\<exists>cs. snd (?visit name tr) = tr @ cs \<and> list_all (reads_under dir) cs"
    proof (cases "dk_is_dir D tr ?p")
      case True
      with parts(1,2) here show ?thesis by (intro exI [of _ "FsIsDir ?p # cs"]) (simp add: Let_def)
    next
      case False
      with parts(3,4) here show ?thesis by (intro exI [of _ "FsIsDir ?p # ds"]) (simp add: Let_def)
    qed
  qed
  have "emits (reads_under dir) (fs_list D dir)"
    unfolding fs_list_def by (rule emits_fs_do) (auto simp: reads_under_def call_needs_def intro: exI [of _ dir])
  then show ?case
    unfolding walk.simps
  proof (rule emits_bind)
    fix names tr t
    assume "fs_list D dir tr = (Inr names, t)"
    then have "list_all plain_seg names" by (rule fs_list_plain [OF D])
    then show "emits (reads_under dir) (act_bind (act_map ?visit (sort names)) (\<lambda>found. act_ret (concat found)))"
      by (intro emits_intros visit) (simp add: list_all_iff)
  qed
qed (simp add: emits_ret)

lemma find_visit_emits: "emits (reads_under p) (find_visit D score name p)"
  by (rule emitsI) (auto simp: find_visit_def doc_text_def reads_under_def call_needs_def intro: exI [of _ p])

lemma emits_arg: "(\<And>x. r = Inr x \<Longrightarrow> emits P (f x)) \<Longrightarrow> emits P (act_bind (act_read (\<lambda>_. r)) f)"
  by (rule emits_bind) (simp_all add: emits_read)

lemmas emits_tool = emits_arg emits_seq emits_fs_do emits_ret

lemma standard_within:
  assumes D: "disk_ok D" and t: "t \<in> set (catalog_standard D score)"
  shows "tool_within t"
proof -
  have "tool_within (list_dir D)"
    by (auto simp: tool_within_def list_dir_def list_dir_run_def need_path_def res_bind_Inr_iff fs_list_def
        call_covered_def call_needs_def intro!: emits_tool)
  moreover have "tool_within (read_file D)"
    by (auto simp: tool_within_def read_file_def read_file_run_def need_path_def res_bind_Inr_iff
        call_covered_def call_needs_def intro!: emits_tool)
  moreover have "tool_within (move_file D)"
    by (auto simp: tool_within_def move_file_def move_file_run_def move_file_required_def res_bind_Inr_iff
        call_covered_def call_needs_def intro!: emits_tool)
  moreover have "tool_within (delete_file D)"
    by (auto simp: tool_within_def delete_file_def delete_file_run_def need_path_def res_bind_Inr_iff
        call_covered_def call_needs_def intro!: emits_tool)
  moreover have "tool_within (find_tool D score)"
  proof -
    have "call_covered [file_need dir rights_read] c" if "reads_under dir c" for dir c
      using that by (auto simp: reads_under_def call_covered_def need_covers_def file_need_def res_covers_def)
    then have "emits (call_covered [file_need dir rights_read]) (walk D (find_visit D f) find_depth dir)" for dir f
      by (rule emits_mono [OF _ walk_emits [OF D find_visit_emits]])
    then show ?thesis
      unfolding tool_within_def find_tool_def
      by (clarsimp simp: need_path_def res_bind_Inr_iff find_run_def) (intro emits_tool, simp)
  qed
  ultimately show ?thesis using t by (auto simp: catalog_standard_def)
qed

end
