(* ===== verification/Aura.thy ===== *)
theory Aura
  imports Tools
begin

section \<open>Aura: plans and the executor\<close>

text \<open>
  \<open>crates/aura/src/plan.rs\<close> and \<open>lib.rs\<close>.  Aura holds a broker, a catalog and a wallet of handles (a
  \<open>HashMap\<close>, here an association list).  Its operations are actions on that state, together with the
  number of clock readings made so far and the trace of file system calls; \<open>clk n\<close> is the \<open>n\<close>-th reading.
\<close>

record plan_step =
  sp_tool :: string
  sp_args :: args
  sp_rationale :: string

record aura_plan =
  pl_intent :: string
  pl_steps :: "plan_step list"

subsection \<open>The rule planner\<close>

text \<open>
  \<open>str::to_lowercase\<close> and the \<open>Debug\<close> form of a string are parameters: both rest on Unicode tables.
  Slicing a string outside its length or inside a character panics, which is the result \<open>None\<close>.
\<close>

record text_ops =
  tx_lower :: "string \<Rightarrow> string"
  tx_debug :: "string \<Rightarrow> string"

definition split_ws_once :: "string \<Rightarrow> (string \<times> string) option" where
  "split_ws_once s =
     (case dropWhile (\<lambda>c. \<not> is_ws c) (chars_of s) of
        [] \<Rightarrow> None
      | c # cs \<Rightarrow> Some (concat (takeWhile (\<lambda>c. \<not> is_ws c) (chars_of s)), concat cs))"

fun find_sub :: "string \<Rightarrow> string \<Rightarrow> nat option" where
  "find_sub kw [] = (if kw = [] then Some 0 else None)"
| "find_sub kw (c # s) =
     (if take (length kw) (c # s) = kw then Some 0 else map_option Suc (find_sub kw s))"

definition char_boundary :: "string \<Rightarrow> nat \<Rightarrow> bool" where
  "char_boundary s n \<longleftrightarrow> n \<le> length s \<and> utf8_str (take n s)"

definition split_keyword :: "text_ops \<Rightarrow> string \<Rightarrow> string \<Rightarrow> (string \<times> string) option option" where
  "split_keyword X s kw =
     (case find_sub (tx_lower X kw) (tx_lower X s) of
        None \<Rightarrow> Some None
      | Some at \<Rightarrow>
          if \<not> char_boundary s at \<or> \<not> char_boundary s (at + length kw) then None
          else
            (let left = str_trim (take at s); right = str_trim (drop (at + length kw) s) in
             Some (if left = [] \<or> right = [] then None else Some (left, right))))"

definition mk_step :: "string \<Rightarrow> args \<Rightarrow> string \<Rightarrow> plan_step" where
  "mk_step t a why = \<lparr>sp_tool = t, sp_args = a, sp_rationale = why\<rparr>"

definition find_step :: "text_ops \<Rightarrow> string \<Rightarrow> string \<Rightarrow> plan_step" where
  "find_step X dir query =
     mk_step ''find'' [''dir'' \<mapsto> dir, ''query'' \<mapsto> query] (''search '' @ dir @ '' for '' @ tx_debug X query)"

definition or_plan :: "string \<Rightarrow> ('a option) option \<Rightarrow> ('a \<Rightarrow> plan_step) \<Rightarrow> (aura_error + plan_step) option" where
  "or_plan usage r f = map_option (\<lambda>r. case r of None \<Rightarrow> Inl (AuPlan usage) | Some x \<Rightarrow> Inr (f x)) r"

definition rule_step :: "text_ops \<Rightarrow> string \<Rightarrow> string \<Rightarrow> (aura_error + plan_step) option" where
  "rule_step X verb rest =
     (if verb = ''list'' \<or> verb = ''ls''
      then Some (Inr (mk_step ''list_dir'' [''path'' \<mapsto> rest] (''list the entries under '' @ rest)))
      else if verb = ''read'' \<or> verb = ''show'' \<or> verb = ''cat''
      then Some (Inr (mk_step ''read_file'' [''path'' \<mapsto> rest] (''read '' @ rest)))
      else if verb = ''find''
      then or_plan ''find <query> in <dir>'' (split_keyword X rest '' in '') (\<lambda>(query, dir). find_step X dir query)
      else if verb = ''search''
      then or_plan ''search <dir> for <query>'' (split_keyword X rest '' for '') (\<lambda>(dir, query). find_step X dir query)
      else if verb = ''move'' \<or> verb = ''mv''
      then or_plan ''move <src> to <dst>'' (split_keyword X rest '' to '')
             (\<lambda>(src, dst). mk_step ''move_file'' [''src'' \<mapsto> src, ''dst'' \<mapsto> dst] (''move '' @ src @ '' to '' @ dst))
      else if verb = ''delete'' \<or> verb = ''remove'' \<or> verb = ''rm''
      then Some (Inr (mk_step ''delete_file'' [''path'' \<mapsto> rest] (''delete '' @ rest)))
      else Some (Inl (AuPlan (''no rule for '' @ tx_debug X verb
             @ ''; known verbs: list, read, find, search, move, delete''))))"

definition rule_plan :: "text_ops \<Rightarrow> string \<Rightarrow> catalog \<Rightarrow> (aura_error + aura_plan) option" where
  "rule_plan X intent cat =
     (let trimmed = str_trim intent;
          (verb, rest) = (case split_ws_once trimmed of
              Some (v, r) \<Rightarrow> (tx_lower X v, str_trim r)
            | None \<Rightarrow> (tx_lower X trimmed, []))
      in map_option (\<lambda>r. res_bind r (\<lambda>st.
           if catalog_get cat (sp_tool st) = None
           then Inl (AuPlan (''tool '' @ sp_tool st @ '' is not available''))
           else Inr \<lparr>pl_intent = trimmed, pl_steps = [st]\<rparr>)) (rule_step X verb rest))"

subsection \<open>Previews and reports\<close>

datatype block = BkUnknownTool | BkBadArgs string | BkNeedsCapability | BkNeedsConfirmation

definition block_reason :: "block \<Rightarrow> string" where
  "block_reason b =
     (case b of
        BkUnknownTool \<Rightarrow> ''unknown tool''
      | BkBadArgs e \<Rightarrow> ''bad arguments: '' @ e
      | BkNeedsCapability \<Rightarrow> ''needs a capability you have not granted''
      | BkNeedsConfirmation \<Rightarrow> ''needs confirmation (destructive)'')"

datatype authority = Held grant_id | Missing

record need_status =
  ns_need :: need
  ns_authority :: authority

definition is_held :: "need_status \<Rightarrow> bool" where
  "is_held n \<longleftrightarrow> (case ns_authority n of Held _ \<Rightarrow> True | Missing \<Rightarrow> False)"

record step_preview =
  pv_index :: nat
  pv_tool :: string
  pv_rationale :: string
  pv_effect :: "effect option"
  pv_needs :: "need_status list"
  pv_block :: "block option"

record preview =
  pw_intent :: string
  pw_steps :: "step_preview list"

definition preview_ready :: "preview \<Rightarrow> bool" where
  "preview_ready w \<longleftrightarrow>
     list_all (\<lambda>s. case pv_block s of
         Some BkUnknownTool \<Rightarrow> False
       | Some (BkBadArgs _) \<Rightarrow> False
       | Some BkNeedsCapability \<Rightarrow> False
       | _ \<Rightarrow> True) (pw_steps w)"

definition has_destructive :: "preview \<Rightarrow> bool" where
  "has_destructive w \<longleftrightarrow> list_ex (\<lambda>s. pv_effect s = Some EffDestructive) (pw_steps w)"

definition add_missing :: "need_status \<Rightarrow> need list \<Rightarrow> need list" where
  "add_missing n out = (if is_held n \<or> ns_need n \<in> set out then out else out @ [ns_need n])"

definition preview_missing :: "preview \<Rightarrow> need list" where
  "preview_missing w = fold add_missing (concat (map pv_needs (pw_steps w))) []"

datatype step_status = Done outcome | Blocked block | Failed string

record step_result =
  sr_index :: nat
  sr_tool :: string
  sr_status :: step_status

record report =
  rp_intent :: string
  rp_results :: "step_result list"

definition is_done :: "step_result \<Rightarrow> bool" where
  "is_done r \<longleftrightarrow> (case sr_status r of Done _ \<Rightarrow> True | _ \<Rightarrow> False)"

definition report_ran :: "report \<Rightarrow> nat" where
  "report_ran r = length (filter is_done (rp_results r))"

definition report_all_done :: "report \<Rightarrow> bool" where
  "report_all_done r \<longleftrightarrow> rp_results r \<noteq> [] \<and> list_all is_done (rp_results r)"

subsection \<open>The executor's state\<close>

record aura =
  as_broker :: broker
  as_held :: "(grant_id \<times> capability) list"
  as_reads :: nat
  as_trace :: "fs_call list"

type_synonym clock = "nat \<Rightarrow> u64"

definition aura_principal :: string where "aura_principal = ''aura''"

definition aura_new :: "broker \<Rightarrow> aura" where
  "aura_new b = \<lparr>as_broker = b, as_held = [], as_reads = 0, as_trace = []\<rparr>"

text \<open>A broker call with the two clock readings it makes.\<close>

definition on_broker ::
  "clock \<Rightarrow> (u64 \<Rightarrow> u64 \<Rightarrow> (broker, wv_error, 'a) action) \<Rightarrow> (aura, aura_error, 'a) action" where
  "on_broker clk f s =
     (let n = as_reads s in
      case f (clk n) (clk (n + 1)) (as_broker s) of
        (r, b) \<Rightarrow> (res_map_err AuWeave r, s\<lparr>as_broker := b, as_reads := n + 2\<rparr>))"

definition authorize ::
  "ext \<Rightarrow> clock \<Rightarrow> resource \<Rightarrow> rights \<Rightarrow> limits \<Rightarrow> (aura, aura_error, grant_id) action" where
  "authorize X clk r q lim =
     act_bind (on_broker clk (broker_grant X aura_principal r q lim)) (\<lambda>cap s.
       (Inr (cap_grant cap), s\<lparr>as_held := AList.update (cap_grant cap) cap (as_held s)\<rparr>))"

definition grant_missing :: "ext \<Rightarrow> clock \<Rightarrow> preview \<Rightarrow> limits \<Rightarrow> (aura, aura_error, grant_id list) action" where
  "grant_missing X clk w lim =
     act_map (\<lambda>n. authorize X clk (nd_resource n) (nd_rights n) lim) (preview_missing w)"

text \<open>The first grant in the listing that serves a need and whose handle is in the wallet.  The listing
  says whether a grant is active, not whether its uses are spent.\<close>

definition serves :: "grant_info \<Rightarrow> need \<Rightarrow> bool" where
  "serves gi n \<longleftrightarrow>
     gi_principal gi = aura_principal \<and> gi_status gi = Active
     \<and> res_covers (gi_resource gi) (nd_resource n) \<and> rights_contains (gi_rights gi) (nd_rights n)"

fun pick_capability :: "grant_info list \<Rightarrow> (grant_id \<times> capability) list \<Rightarrow> need \<Rightarrow> (grant_id \<times> capability) option" where
  "pick_capability [] held n = None"
| "pick_capability (gi # gis) held n =
     (if serves gi n then
        (case map_of held (gi_id gi) of
           Some cap \<Rightarrow> Some (gi_id gi, cap)
         | None \<Rightarrow> pick_capability gis held n)
      else pick_capability gis held n)"

definition capability_for :: "clock \<Rightarrow> need \<Rightarrow> aura \<Rightarrow> (grant_id \<times> capability) option \<times> aura" where
  "capability_for clk n s =
     (pick_capability (broker_grants (as_broker s) (clk (as_reads s))) (as_held s) n,
      s\<lparr>as_reads := as_reads s + 1\<rparr>)"

subsection \<open>Preview\<close>

fun need_statuses :: "clock \<Rightarrow> need list \<Rightarrow> aura \<Rightarrow> need_status list \<times> aura" where
  "need_statuses clk [] s = ([], s)"
| "need_statuses clk (n # ns) s =
     (case capability_for clk n s of
        (c, s1) \<Rightarrow>
          (case need_statuses clk ns s1 of
             (st, s2) \<Rightarrow>
               (\<lparr>ns_need = n, ns_authority = (case c of Some (g, _) \<Rightarrow> Held g | None \<Rightarrow> Missing)\<rparr> # st, s2)))"

definition preview_step :: "clock \<Rightarrow> catalog \<Rightarrow> nat \<Rightarrow> plan_step \<Rightarrow> aura \<Rightarrow> step_preview \<times> aura" where
  "preview_step clk cat index st s =
     (let made = (\<lambda>eff ns b. \<lparr>pv_index = index, pv_tool = sp_tool st, pv_rationale = sp_rationale st,
                             pv_effect = eff, pv_needs = ns, pv_block = b\<rparr>) in
      case catalog_get cat (sp_tool st) of
        None \<Rightarrow> (made None [] (Some BkUnknownTool), s)
      | Some t \<Rightarrow>
          (case tl_required t (sp_args st) of
             Inl e \<Rightarrow> (made (Some (tl_effect t)) [] (Some (BkBadArgs (aura_error_text e))), s)
           | Inr needs \<Rightarrow>
               (case need_statuses clk needs s of
                  (st', s') \<Rightarrow>
                    (made (Some (tl_effect t)) st'
                       (if list_ex (\<lambda>n. \<not> is_held n) st' then Some BkNeedsCapability
                        else if is_destructive (tl_effect t) then Some BkNeedsConfirmation
                        else None), s'))))"

fun preview_steps :: "clock \<Rightarrow> catalog \<Rightarrow> nat \<Rightarrow> plan_step list \<Rightarrow> aura \<Rightarrow> step_preview list \<times> aura" where
  "preview_steps clk cat i [] s = ([], s)"
| "preview_steps clk cat i (st # sts) s =
     (case preview_step clk cat i st s of
        (w, s1) \<Rightarrow> (case preview_steps clk cat (Suc i) sts s1 of (ws, s2) \<Rightarrow> (w # ws, s2)))"

definition preview_plan :: "clock \<Rightarrow> catalog \<Rightarrow> aura_plan \<Rightarrow> aura \<Rightarrow> preview \<times> aura" where
  "preview_plan clk cat p s =
     (case preview_steps clk cat 0 (pl_steps p) s of
        (ws, s') \<Rightarrow> (\<lparr>pw_intent = pl_intent p, pw_steps = ws\<rparr>, s'))"

subsection \<open>Execution\<close>

text \<open>Broker every need before the tool runs; the first that is not held or is refused stops it.\<close>

fun acquire :: "ext \<Rightarrow> clock \<Rightarrow> need list \<Rightarrow> aura \<Rightarrow> lease list option \<times> aura" where
  "acquire X clk [] s = (Some [], s)"
| "acquire X clk (n # ns) s =
     (case capability_for clk n s of
        (None, s1) \<Rightarrow> (None, s1)
      | (Some (_, cap), s1) \<Rightarrow>
          (case on_broker clk (broker_access X cap (nd_resource n) (nd_rights n)) s1 of
             (Inl _, s2) \<Rightarrow> (None, s2)
           | (Inr l, s2) \<Rightarrow>
               (case acquire X clk ns s2 of (ls, s3) \<Rightarrow> (map_option ((#) l) ls, s3))))"

definition run_plan_step :: "ext \<Rightarrow> clock \<Rightarrow> catalog \<Rightarrow> bool \<Rightarrow> plan_step \<Rightarrow> aura \<Rightarrow> step_status \<times> aura" where
  "run_plan_step X clk cat confirm st s =
     (case catalog_get cat (sp_tool st) of
        None \<Rightarrow> (Blocked BkUnknownTool, s)
      | Some t \<Rightarrow>
          if is_destructive (tl_effect t) \<and> \<not> confirm then (Blocked BkNeedsConfirmation, s)
          else
            (case tl_required t (sp_args st) of
               Inl e \<Rightarrow> (Blocked (BkBadArgs (aura_error_text e)), s)
             | Inr needs \<Rightarrow>
                 (case acquire X clk needs s of
                    (None, s1) \<Rightarrow> (Blocked BkNeedsCapability, s1)
                  | (Some leases, s1) \<Rightarrow>
                      (case tl_run t (sp_args st) leases (as_trace s1) of
                         (r, tr) \<Rightarrow>
                           (case r of Inr oc \<Rightarrow> Done oc | Inl e \<Rightarrow> Failed (aura_error_text e),
                            s1\<lparr>as_trace := tr\<rparr>)))))"

fun execute_steps ::
  "ext \<Rightarrow> clock \<Rightarrow> catalog \<Rightarrow> bool \<Rightarrow> nat \<Rightarrow> plan_step list \<Rightarrow> aura \<Rightarrow> step_result list \<times> aura" where
  "execute_steps X clk cat confirm i [] s = ([], s)"
| "execute_steps X clk cat confirm i (st # sts) s =
     (case run_plan_step X clk cat confirm st s of
        (status, s1) \<Rightarrow>
          (case execute_steps X clk cat confirm (Suc i) sts s1 of
             (rs, s2) \<Rightarrow> (\<lparr>sr_index = i, sr_tool = sp_tool st, sr_status = status\<rparr> # rs, s2)))"

definition aura_execute :: "ext \<Rightarrow> clock \<Rightarrow> catalog \<Rightarrow> aura_plan \<Rightarrow> bool \<Rightarrow> aura \<Rightarrow> report \<times> aura" where
  "aura_execute X clk cat p confirm s =
     (case execute_steps X clk cat confirm 0 (pl_steps p) s of
        (rs, s') \<Rightarrow> (\<lparr>rp_intent = pl_intent p, rp_results = rs\<rparr>, s'))"

definition approve_and_execute ::
  "ext \<Rightarrow> clock \<Rightarrow> catalog \<Rightarrow> aura_plan \<Rightarrow> limits \<Rightarrow> (aura, aura_error, report) action" where
  "approve_and_execute X clk cat p lim s =
     (case preview_plan clk cat p s of
        (w, s1) \<Rightarrow>
          act_bind (grant_missing X clk w lim) (\<lambda>_ s2.
            case aura_execute X clk cat p True s2 of (r, s3) \<Rightarrow> (Inr r, s3)) s1)"

subsection \<open>Acting only within authority\<close>

text \<open>
  The wallet holds handles under their grant, and the table its grants under their id; the calls of a
  run are then covered by grants to Aura whose handles it holds.
\<close>

definition aura_ok :: "aura \<Rightarrow> bool" where
  "aura_ok s \<longleftrightarrow>
     (\<forall>g cap. map_of (as_held s) g = Some cap \<longrightarrow> cap_grant cap = g)
     \<and> distinct (map fst (bk_grants (as_broker s)))
     \<and> (\<forall>(g, gs) \<in> set (bk_grants (as_broker s)). gr_id (gs_grant gs) = g)"

text \<open>What a use leaves of a grant: everything but the count.\<close>

definition standing :: "broker \<Rightarrow> grant_id \<Rightarrow> (grant \<times> bool \<times> bytes option) option" where
  "standing b g = map_option (\<lambda>gs. (gs_grant gs, gs_revoked gs, gs_secret gs)) (map_of (bk_grants b) g)"

definition aura_may :: "aura \<Rightarrow> need \<Rightarrow> bool" where
  "aura_may s n \<longleftrightarrow>
     (\<exists>g cap gr. map_of (as_held s) g = Some cap \<and> cap_grant cap = g
        \<and> standing (as_broker s) g = Some (gr, False, Some (cap_secret cap))
        \<and> gr_principal gr = aura_principal
        \<and> need_covers \<lparr>nd_resource = gr_resource gr, nd_rights = gr_rights gr\<rparr> n)"

lemma broker_log_grants [simp]: "bk_grants (snd (broker_log X now ev b)) = bk_grants b"
  by (simp add: broker_log_def split: prod.split sum.split)

lemma broker_access_grants:
  "bk_grants (snd (broker_access X cap r q t1 t2 b)) = bk_grants b
   \<or> bk_grants (snd (broker_access X cap r q t1 t2 b)) = AList.map_entry (cap_grant cap) add_use (bk_grants b)"
proof (cases "broker_check b cap r q t1")
  case (Inr u)
  let ?b = "b\<lparr>bk_grants := AList.map_entry (cap_grant cap) add_use (bk_grants b)\<rparr>"
  obtain e b' where l: "broker_log X t2 (EvUse (cap_grant cap) (grant_principal b (cap_grant cap)) r q) ?b = (e, b')"
    by fastforce
  then have "bk_grants b' = bk_grants ?b" by (metis broker_log_grants snd_conv)
  with l Inr show ?thesis by (cases e) (simp_all add: broker_access_def Let_def)
next
  case (Inl e)
  then obtain why where why: "e = WvDenied why" using broker_check_denied by blast
  obtain x b' where l: "broker_log X t2 (EvDeny (grant_principal b (cap_grant cap)) r q why) b = (x, b')"
    by fastforce
  then have "bk_grants b' = bk_grants b" by (metis broker_log_grants snd_conv)
  with l Inl why show ?thesis by (cases x) (simp_all add: broker_access_def Let_def)
qed

lemma set_map_entry: "x \<in> set (AList.map_entry k f al) \<Longrightarrow> x \<in> set al \<or> (\<exists>v. x = (k, f v) \<and> (k, v) \<in> set al)"
  by (induction al) (auto split: if_splits)

text \<open>The states a run passes through keep wallet, standing and invariant.\<close>

definition same_authority :: "aura \<Rightarrow> aura \<Rightarrow> bool" where
  "same_authority s t \<longleftrightarrow>
     aura_ok t \<and> as_held t = as_held s \<and> standing (as_broker t) = standing (as_broker s) \<and> as_trace t = as_trace s"

lemma same_authority_refl: "aura_ok s \<Longrightarrow> same_authority s s"
  by (simp add: same_authority_def)

lemma same_authority_trans: "same_authority s t \<Longrightarrow> same_authority t u \<Longrightarrow> same_authority s u"
  by (simp add: same_authority_def)

lemma access_same:
  assumes "aura_ok s" and "on_broker clk (broker_access X cap r q) s = (x, s')"
  shows "same_authority s s'"
proof -
  let ?b = "as_broker s" and ?b' = "as_broker s'"
  have run: "?b' = snd (broker_access X cap r q (clk (as_reads s)) (clk (as_reads s + 1)) ?b)"
    and rest: "as_held s' = as_held s" "as_trace s' = as_trace s"
    using assms(2) by (auto simp: on_broker_def Let_def split: prod.splits)
  from broker_access_grants [of X cap r q "clk (as_reads s)" "clk (as_reads s + 1)" ?b]
  consider "bk_grants ?b' = bk_grants ?b" | "bk_grants ?b' = AList.map_entry (cap_grant cap) add_use (bk_grants ?b)"
    unfolding run by blast
  then show ?thesis
  proof cases
    case 1
    with assms(1) rest show ?thesis by (simp add: same_authority_def aura_ok_def standing_def fun_eq_iff)
  next
    case 2
    have "standing ?b' = standing ?b"
      by (rule ext) (auto simp: standing_def 2 map_of_map_entry add_use_def split: option.splits)
    moreover have "aura_ok s'"
      using assms(1) rest
      by (auto simp: aura_ok_def 2 distinct_map_entry add_use_def dest!: set_map_entry)
    ultimately show ?thesis using rest by (simp add: same_authority_def)
  qed
qed

lemma pick_capability_Some:
  "pick_capability gis held n = Some (g, cap) \<Longrightarrow> \<exists>gi \<in> set gis. serves gi n \<and> gi_id gi = g \<and> map_of held g = Some cap"
  by (induction gis) (auto split: if_splits option.splits)

lemma capability_for_Some:
  assumes "aura_ok s" and "capability_for clk n s = (Some (g, cap), s')"
  obtains gs where "map_of (bk_grants (as_broker s)) g = Some gs" "map_of (as_held s) g = Some cap" "cap_grant cap = g"
    "gr_principal (gs_grant gs) = aura_principal"
    "need_covers \<lparr>nd_resource = gr_resource (gs_grant gs), nd_rights = gr_rights (gs_grant gs)\<rparr> n"
proof -
  from assms(2) obtain gi where gi: "gi \<in> set (broker_grants (as_broker s) (clk (as_reads s)))" "serves gi n"
      "gi_id gi = g" "map_of (as_held s) g = Some cap"
    by (auto simp: capability_for_def dest!: pick_capability_Some)
  from gi(1) obtain k gs where gs: "(k, gs) \<in> set (bk_grants (as_broker s))" "gi = grant_info_of (clk (as_reads s)) gs"
    by (auto simp: broker_grants_def)
  have "k = g" using assms(1) gs gi(3) by (auto simp: aura_ok_def grant_info_of_def)
  then have "map_of (bk_grants (as_broker s)) g = Some gs" using assms(1) gs(1) by (simp add: aura_ok_def)
  moreover have "cap_grant cap = g" using assms(1) gi(4) by (simp add: aura_ok_def)
  ultimately show thesis
    using that gi(2,4) gs(2) by (simp add: serves_def grant_info_of_def need_covers_def)
qed

lemma capability_for_same: "aura_ok s \<Longrightarrow> capability_for clk n s = (c, s') \<Longrightarrow> same_authority s s'"
  by (auto simp: capability_for_def same_authority_def aura_ok_def)

lemma aura_may_same: "same_authority s t \<Longrightarrow> aura_may t n \<longleftrightarrow> aura_may s n"
  by (simp add: same_authority_def aura_may_def)

lemma access_lease:
  assumes "broker_access X cap r q t1 t2 b = (Inr l, b')"
  shows "broker_check b cap r q t1 = Inr ()"
    and "l = \<lparr>le_grant = cap_grant cap, le_resource = r, le_rights = q\<rparr>"
proof -
  show "broker_check b cap r q t1 = Inr ()"
  proof (cases "broker_check b cap r q t1")
    case (Inl e)
    then obtain why where "e = WvDenied why" using broker_check_denied by blast
    with Inl assms show ?thesis by (auto simp: broker_access_def Let_def split: prod.splits sum.splits)
  qed simp
  then show "l = \<lparr>le_grant = cap_grant cap, le_resource = r, le_rights = q\<rparr>"
    using assms by (auto simp: broker_access_def Let_def split: prod.splits sum.splits)
qed

lemma acquire_may:
  assumes "aura_ok s" and "acquire X clk ns s = (r, s')"
  shows "same_authority s s'"
    and "r = Some ls \<Longrightarrow> map (\<lambda>l. \<lparr>nd_resource = le_resource l, nd_rights = le_rights l\<rparr>) ls = ns \<and> list_all (aura_may s) ns"
proof -
  have "same_authority s s' \<and> (\<forall>ls. r = Some ls \<longrightarrow>
      map (\<lambda>l. \<lparr>nd_resource = le_resource l, nd_rights = le_rights l\<rparr>) ls = ns \<and> list_all (aura_may s) ns)"
    using assms
  proof (induction ns arbitrary: s r s')
    case Nil
    then show ?case by (auto simp: same_authority_refl)
  next
    case (Cons n ns)
    obtain c s1 where c: "capability_for clk n s = (c, s1)" by fastforce
    note s1 = capability_for_same [OF Cons.prems(1) c]
    show ?case
    proof (cases c)
      case None
      with Cons.prems(2) c s1 show ?thesis by auto
    next
      case (Some gc)
      obtain g cap where gc: "gc = (g, cap)" by (cases gc)
      obtain x s2 where x: "on_broker clk (broker_access X cap (nd_resource n) (nd_rights n)) s1 = (x, s2)" by fastforce
      have ok1: "aura_ok s1" using s1 by (simp add: same_authority_def)
      note s2 = same_authority_trans [OF s1 access_same [OF ok1 x]]
      show ?thesis
      proof (cases x)
        case (Inl e)
        with Cons.prems(2) c Some gc x s2 show ?thesis by auto
      next
        case (Inr l)
        obtain ls' s3 where rec: "acquire X clk ns s2 = (ls', s3)" by fastforce
        have ok2: "aura_ok s2" using s2 by (simp add: same_authority_def)
        note IH = Cons.IH [OF ok2 rec]
        have res: "r = map_option ((#) l) ls'" "s' = s3" using Cons.prems(2) c Some gc x Inr rec by simp_all
        have b1: "as_broker s1 = as_broker s" using c by (auto simp: capability_for_def)
        from x Inr obtain b' where acc: "broker_access X cap (nd_resource n) (nd_rights n)
            (clk (as_reads s1)) (clk (as_reads s1 + 1)) (as_broker s) = (Inr l, b')"
          by (auto simp: on_broker_def Let_def b1 res_map_err_Inr_iff split: prod.splits)
        obtain gs where gs: "map_of (bk_grants (as_broker s)) g = Some gs" "map_of (as_held s) g = Some cap"
            "cap_grant cap = g" "gr_principal (gs_grant gs) = aura_principal"
            "need_covers \<lparr>nd_resource = gr_resource (gs_grant gs), nd_rights = gr_rights (gs_grant gs)\<rparr> n"
          by (rule capability_for_Some [OF Cons.prems(1)]) (use c Some gc in simp)
        from access_lease(1) [OF acc] gs(1,3)
        have "gs_secret gs = Some (cap_secret cap)" "\<not> gs_revoked gs"
          by (auto simp: broker_check_ok_iff grant_admits_def)
        with gs have may: "aura_may s n" by (auto simp: aura_may_def standing_def)
        have lease: "\<lparr>nd_resource = le_resource l, nd_rights = le_rights l\<rparr> = n"
          using access_lease(2) [OF acc] by simp
        have "list_all (aura_may s2) ns = list_all (aura_may s) ns"
          using aura_may_same [OF s2] by (simp add: list_all_iff)
        with IH res may lease same_authority_trans [OF s2] show ?thesis by auto
      qed
    qed
  qed
  then show "same_authority s s'"
    "r = Some ls \<Longrightarrow> map (\<lambda>l. \<lparr>nd_resource = le_resource l, nd_rights = le_rights l\<rparr>) ls = ns \<and> list_all (aura_may s) ns"
    by blast+
qed

text \<open>A call that a run may make: covered by what Aura holds.\<close>

definition call_allowed :: "aura \<Rightarrow> bool \<Rightarrow> fs_call \<Rightarrow> bool" where
  "call_allowed s confirm c \<longleftrightarrow>
     (\<forall>n \<in> set (call_needs c). aura_may s n)
     \<and> (confirm \<or> (\<forall>n \<in> set (call_needs c). nd_rights n = rights_read))"

definition same_but_trace :: "aura \<Rightarrow> aura \<Rightarrow> bool" where
  "same_but_trace s t \<longleftrightarrow>
     aura_ok t \<and> as_held t = as_held s \<and> standing (as_broker t) = standing (as_broker s)"

lemma call_allowed_same: "same_but_trace s t \<Longrightarrow> call_allowed t confirm c \<longleftrightarrow> call_allowed s confirm c"
  by (simp add: call_allowed_def same_but_trace_def aura_may_def)

lemma aura_may_covers: "aura_may s m \<Longrightarrow> need_covers m n \<Longrightarrow> aura_may s n"
  unfolding aura_may_def need_covers_def by (fastforce intro: res_covers_trans rights_contains_trans)

text \<open>A tool that is not destructive only reads.\<close>

definition tool_mild :: "tool \<Rightarrow> bool" where
  "tool_mild t \<longleftrightarrow>
     (is_destructive (tl_effect t) \<or> (\<forall>a needs. tl_required t a = Inr needs \<longrightarrow>
        (\<forall>n \<in> set needs. nd_rights n = rights_read)))"

lemma standard_mild: "t \<in> set (catalog_standard D score) \<Longrightarrow> tool_mild t"
  by (auto simp: tool_mild_def catalog_standard_def list_dir_def read_file_def find_tool_def move_file_def
      delete_file_def is_destructive_def need_path_def res_bind_Inr_iff file_need_def)

lemma read_only_needs:
  assumes "\<forall>n \<in> set needs. nd_rights n = rights_read" and "call_covered needs c"
  shows "\<forall>n \<in> set (call_needs c). nd_rights n = rights_read"
proof -
  have "\<not> rights_contains rights_read (rights_read OR rights_write)" "\<not> rights_contains rights_read rights_write"
    by (simp_all add: rights_contains_def rights_read_def rights_write_def)
  with assms show ?thesis
    by (cases c) (auto simp: call_covered_def call_needs_def need_covers_def file_need_def)
qed

lemma plan_step_allowed:
  assumes cat: "\<And>t. t \<in> set cat \<Longrightarrow> tool_within t \<and> tool_mild t"
    and ok: "aura_ok s" and run: "run_plan_step X clk cat confirm st s = (status, s')"
  shows "same_but_trace s s' \<and> (\<exists>cs. as_trace s' = as_trace s @ cs \<and> list_all (call_allowed s confirm) cs)"
proof -
  have stay: "same_but_trace s s \<and> (\<exists>cs. as_trace s = as_trace s @ cs \<and> list_all (call_allowed s confirm) cs)"
    using ok by (auto simp: same_but_trace_def)
  show ?thesis
  proof (cases "catalog_get cat (sp_tool st)")
    case None
    with run stay show ?thesis by (simp add: run_plan_step_def)
  next
    case (Some t)
    then have "t \<in> set cat" by (auto simp: catalog_get_def find_Some_iff)
    with cat have within: "tool_within t" and mild: "tool_mild t" by blast+
    show ?thesis
    proof (cases "is_destructive (tl_effect t) \<and> \<not> confirm")
      case True
      with run stay Some show ?thesis by (simp add: run_plan_step_def)
    next
      case go: False
      show ?thesis
      proof (cases "tl_required t (sp_args st)")
        case (Inl e)
        with run stay Some go show ?thesis by (auto simp: run_plan_step_def)
      next
        case (Inr needs)
        obtain r s1 where acq: "acquire X clk needs s = (r, s1)" by fastforce
        note same = acquire_may(1) [OF ok acq]
        show ?thesis
        proof (cases r)
          case None
          with run Some go Inr acq have "s' = s1" by (auto simp: run_plan_step_def)
          with same show ?thesis by (auto simp: same_authority_def same_but_trace_def)
        next
          case leases: (Some ls)
          have may: "list_all (aura_may s) needs" using acquire_may(2) [OF ok acq leases] by simp
          obtain x tr where x: "tl_run t (sp_args st) ls (as_trace s1) = (x, tr)" by fastforce
          with within Inr obtain cs where cs: "tr = as_trace s1 @ cs" "list_all (call_covered needs) cs"
            unfolding tool_within_def emits_def by (metis snd_conv)
          have s': "s' = s1\<lparr>as_trace := tr\<rparr>" using run Some go Inr acq leases x by (auto simp: run_plan_step_def)
          have "call_allowed s confirm c" if "call_covered needs c" for c
          proof -
            have "\<forall>n \<in> set (call_needs c). aura_may s n"
              using that may aura_may_covers by (fastforce simp: call_covered_def list_all_iff)
            moreover have "confirm \<or> (\<forall>n \<in> set (call_needs c). nd_rights n = rights_read)"
              using go mild Inr read_only_needs [OF _ that] by (auto simp: tool_mild_def)
            ultimately show ?thesis by (simp add: call_allowed_def)
          qed
          with cs have "list_all (call_allowed s confirm) cs" by (auto simp: list_all_iff)
          with cs same s' show ?thesis
            by (auto simp: same_authority_def same_but_trace_def aura_ok_def)
        qed
      qed
    qed
  qed
qed

lemma execute_allowed:
  assumes cat: "\<And>t. t \<in> set cat \<Longrightarrow> tool_within t \<and> tool_mild t"
  shows "aura_ok s \<Longrightarrow> execute_steps X clk cat confirm i sts s = (rs, s') \<Longrightarrow>
    same_but_trace s s' \<and> (\<exists>cs. as_trace s' = as_trace s @ cs \<and> list_all (call_allowed s confirm) cs)"
proof (induction sts arbitrary: s i rs s')
  case Nil
  then show ?case by (auto simp: same_but_trace_def)
next
  case (Cons st sts)
  obtain status s1 where 1: "run_plan_step X clk cat confirm st s = (status, s1)" by fastforce
  obtain rs1 s2 where 2: "execute_steps X clk cat confirm (Suc i) sts s1 = (rs1, s2)" by fastforce
  from plan_step_allowed [OF cat Cons.prems(1) 1] obtain cs where
    cs: "same_but_trace s s1" "as_trace s1 = as_trace s @ cs" "list_all (call_allowed s confirm) cs" by blast
  then have "aura_ok s1" by (simp add: same_but_trace_def)
  from Cons.IH [OF this 2] obtain ds where
    ds: "same_but_trace s1 s2" "as_trace s2 = as_trace s1 @ ds" "list_all (call_allowed s1 confirm) ds" by blast
  have "s' = s2" using Cons.prems(2) 1 2 by simp
  moreover have "same_but_trace s s2" using cs(1) ds(1) by (simp add: same_but_trace_def)
  moreover have "list_all (call_allowed s confirm) ds" using ds(3) call_allowed_same [OF cs(1)] by (simp add: list_all_iff)
  ultimately show ?case using cs(2,3) ds(2) by (intro conjI exI [of _ "cs @ ds"]) simp_all
qed

subsection \<open>What approval grants\<close>

lemma aura_ok_new: "distinct (map fst (bk_grants b)) \<Longrightarrow> \<forall>(g, gs) \<in> set (bk_grants b). gr_id (gs_grant gs) = g \<Longrightarrow>
    aura_ok (aura_new b)"
  by (simp add: aura_ok_def aura_new_def)

lemma need_statuses_reads: "need_statuses clk ns s = (st, s') \<Longrightarrow> \<exists>k. s' = s\<lparr>as_reads := k\<rparr>"
proof (induction ns arbitrary: s st s')
  case Nil
  then show ?case by (auto intro: exI [of _ "as_reads s"])
next
  case (Cons n ns)
  then show ?case by (fastforce simp: capability_for_def split: prod.splits)
qed

lemma preview_step_reads: "preview_step clk cat i st s = (w, s') \<Longrightarrow> \<exists>k. s' = s\<lparr>as_reads := k\<rparr>"
  by (auto simp: preview_step_def Let_def split: option.splits sum.splits prod.splits
      dest!: need_statuses_reads intro: exI [of _ "as_reads s"])

text \<open>A preview reads the clock and changes nothing else.\<close>

lemma preview_reads: "preview_steps clk cat i sts s = (ws, s') \<Longrightarrow> \<exists>k. s' = s\<lparr>as_reads := k\<rparr>"
proof (induction sts arbitrary: i s ws s')
  case Nil
  then show ?case by (auto intro: exI [of _ "as_reads s"])
next
  case (Cons st sts)
  then show ?case by (fastforce split: prod.splits dest!: preview_step_reads)
qed

lemma preview_plan_reads:
  assumes "preview_plan clk cat p s = (w, s')"
  shows "\<exists>k. s' = s\<lparr>as_reads := k\<rparr>"
  using assms preview_reads by (fastforce simp: preview_plan_def split: prod.splits)

lemma aura_ok_reads [simp]: "aura_ok (s\<lparr>as_reads := k\<rparr>) \<longleftrightarrow> aura_ok s"
  by (simp add: aura_ok_def)

lemma aura_may_reads [simp]: "aura_may (s\<lparr>as_reads := k\<rparr>) = aura_may s"
  by (simp add: aura_may_def fun_eq_iff)

lemma set_update: "x \<in> set (AList.update k v al) \<Longrightarrow> x = (k, v) \<or> x \<in> set al"
  by (induction al) (auto split: if_splits)

lemma draw_grants [simp]: "bk_grants (snd (draw X n b)) = bk_grants b"
  by (simp add: draw_def)

lemma need_eta [simp]: "\<lparr>nd_resource = nd_resource m, nd_rights = nd_rights m\<rparr> = (m :: need)"
  by simp

text \<open>One more grant: the table and the wallet gain that entry, or neither does.\<close>

lemma authorize_adds:
  assumes "aura_ok s" and "authorize X clk r q lim s = (x, s')"
  shows "aura_ok s' \<and> as_trace s' = as_trace s
    \<and> (\<forall>n. aura_may s' n \<longrightarrow> aura_may s n \<or> need_covers \<lparr>nd_resource = r, nd_rights = q\<rparr> n)"
proof -
  let ?b = "as_broker s"
  obtain g b1 where d1: "draw X 16 ?b = (g, b1)" by fastforce
  obtain sec b2 where d2: "draw X 32 b1 = (sec, b2)" by fastforce
  obtain e b3 where l: "broker_log X (clk (as_reads s + 1))
      (EvGrant g aura_principal r q (lim_expires lim) (lim_max_uses lim)) b2 = (e, b3)" by fastforce
  have "bk_grants b3 = bk_grants b2" by (metis broker_log_grants l snd_conv)
  then have b3: "bk_grants b3 = bk_grants ?b"
    using draw_grants [of X 16 ?b] draw_grants [of X 32 b1] d1 d2 by simp
  show ?thesis
  proof (cases e)
    case (Inl w)
    then have "s' = s\<lparr>as_broker := b3, as_reads := as_reads s + 2\<rparr>"
      using assms(2) d1 d2 l by (simp add: authorize_def act_bind_def on_broker_def broker_grant_def Let_def)
    then show ?thesis using assms(1) b3 by (simp add: aura_ok_def aura_may_def standing_def)
  next
    case (Inr u)
    let ?ng = "new_grant g aura_principal r q (clk (as_reads s)) (lim_expires lim) (lim_max_uses lim) (Some sec)"
    have s': "s' = s\<lparr>as_broker := b3\<lparr>bk_grants := AList.update g ?ng (bk_grants ?b)\<rparr>, as_reads := as_reads s + 2,
        as_held := AList.update g \<lparr>cap_grant = g, cap_secret = sec\<rparr> (as_held s)\<rparr>"
      using assms(2) d1 d2 l Inr b3
      by (simp add: authorize_def act_bind_def on_broker_def broker_grant_def Let_def)
    have "aura_ok s'"
      using assms(1) unfolding s'
      by (auto simp: aura_ok_def update_conv' new_grant_def distinct_update dest!: set_update split: if_splits)
    moreover have "aura_may s n \<or> need_covers \<lparr>nd_resource = r, nd_rights = q\<rparr> n" if "aura_may s' n" for n
      using that unfolding s'
      by (auto simp: aura_may_def standing_def update_conv' new_grant_def split: if_splits)
    ultimately show ?thesis using s' by simp
  qed
qed

lemma grants_add:
  assumes "aura_ok s" and "act_map (\<lambda>n. authorize X clk (nd_resource n) (nd_rights n) lim) ns s = (x, s')"
  shows "aura_ok s' \<and> as_trace s' = as_trace s
    \<and> (\<forall>n. aura_may s' n \<longrightarrow> aura_may s n \<or> (\<exists>m \<in> set ns. need_covers m n))"
  using assms
proof (induction ns arbitrary: s x s')
  case (Cons m ns)
  obtain y s1 where 1: "authorize X clk (nd_resource m) (nd_rights m) lim s = (y, s1)" by fastforce
  note a = authorize_adds [OF Cons.prems(1) 1]
  show ?case
  proof (cases y)
    case (Inl e)
    with Cons.prems(2) 1 a show ?thesis by auto
  next
    case (Inr g)
    obtain z s2 where 2: "act_map (\<lambda>n. authorize X clk (nd_resource n) (nd_rights n) lim) ns s1 = (z, s2)" by fastforce
    from a have "aura_ok s1" by blast
    note b = Cons.IH [OF this 2]
    have "s' = s2" using Cons.prems(2) 1 2 Inr by (auto split: sum.splits)
    with a b show ?thesis by auto
  qed
qed simp

lemma approve_allowed:
  assumes cat: "\<And>t. t \<in> set cat \<Longrightarrow> tool_within t \<and> tool_mild t"
    and ok: "aura_ok s" and view: "preview_plan clk cat p s = (w, s1)"
    and run: "approve_and_execute X clk cat p lim s = (r, s')"
  shows "\<exists>cs. as_trace s' = as_trace s @ cs
    \<and> (\<forall>c \<in> set cs. \<forall>n \<in> set (call_needs c). aura_may s n \<or> (\<exists>m \<in> set (preview_missing w). need_covers m n))"
proof -
  obtain k where s1: "s1 = s\<lparr>as_reads := k\<rparr>" using preview_plan_reads [OF view] by blast
  obtain x s2 where g: "grant_missing X clk w lim s1 = (x, s2)" by fastforce
  have "aura_ok s1" using s1 ok by simp
  from grants_add [OF this g [unfolded grant_missing_def]] s1
  have s2: "aura_ok s2" "as_trace s2 = as_trace s"
    "\<And>n. aura_may s2 n \<Longrightarrow> aura_may s n \<or> (\<exists>m \<in> set (preview_missing w). need_covers m n)" by auto
  show ?thesis
  proof (cases x)
    case (Inl e)
    with run view g s2(2) show ?thesis by (auto simp: approve_and_execute_def)
  next
    case (Inr gs)
    obtain rs s3 where e: "execute_steps X clk cat True 0 (pl_steps p) s2 = (rs, s3)" by fastforce
    have "s' = s3" using run view g Inr e by (auto simp: approve_and_execute_def aura_execute_def)
    moreover obtain cs where "as_trace s3 = as_trace s2 @ cs" "list_all (call_allowed s2 True) cs"
      using execute_allowed [OF cat s2(1) e] by blast
    ultimately show ?thesis using s2(2,3) by (intro exI [of _ cs]) (auto simp: list_all_iff call_allowed_def)
  qed
qed

end
