(* ===== verification/AuraSamples.thy ===== *)
theory AuraSamples
  imports Aura Samples
begin

section \<open>A granted read\<close>

text \<open>
  An Aura whose wallet holds one handle, for reading under \<open>/data\<close>, on the sample broker; a file system
  whose files all hold \<open>hi\<close>; and a plan that reads a note and then deletes it.
\<close>

definition aura_disk :: tool_disk where
  "aura_disk = \<lparr>dk_cwd = Inr ''/'', dk_list = \<lambda>_ _. Inr [], dk_is_dir = \<lambda>_ _. False,
     dk_read = \<lambda>_ _. Inr [104, 105], dk_rename = \<lambda>_ _ _. Inr (), dk_remove = \<lambda>_ _. Inr ()\<rparr>"

definition aura_catalog :: catalog where
  "aura_catalog = catalog_standard aura_disk (\<lambda>_ _. 0)"

definition aura_live :: broker where
  "aura_live = (demo_broker DenyAll)\<lparr>bk_grants := [(demo_gid,
     new_grant demo_gid aura_principal (RFile ''/data'') 3 50 (Some 100) (Some 3) (Some (replicate 32 9)))]\<rparr>"

definition aura_demo :: aura where
  "aura_demo = \<lparr>as_broker = aura_live, as_held = [(demo_gid, demo_cap)], as_reads = 0, as_trace = []\<rparr>"

definition aura_clock :: clock where
  "aura_clock n = 60"

definition note_plan :: aura_plan where
  "note_plan = \<lparr>pl_intent = ''tidy'', pl_steps =
     [mk_step ''read_file'' [''path'' \<mapsto> ''/data/notes''] [], mk_step ''delete_file'' [''path'' \<mapsto> ''/data/notes''] []]\<rparr>"

lemma aura_disk_ok: "disk_ok aura_disk"
  by (simp add: disk_ok_def aura_disk_def)

lemma aura_demo_ok: "aura_ok aura_demo"
  by (simp add: aura_ok_def aura_demo_def aura_live_def demo_cap_def new_grant_def)

lemma note_path: "path_arg aura_disk [''path'' \<mapsto> ''/data/notes''] ''path'' = Inr ''/data/notes''"
  by (simp add: path_arg_def args_require_def ok_or_def aura_disk_def path_absolute_def path_components_def seg_comp_def
      path_is_absolute_def path_join_def comp_text_def Let_def)

definition note_need :: need where
  "note_need = file_need ''/data/notes'' rights_read"

lemma aura_live_check: "broker_check aura_live demo_cap (RFile ''/data/notes'') rights_read 60 = Inr ()"
  by (simp add: broker_check_def aura_live_def demo_cap_def new_grant_def expired_at_def
      budget_spent_def res_covers_def path_starts_with_def path_components_def seg_comp_def
      rights_contains_def rights_read_def)

lemma aura_live_access:
  obtains b' where "broker_access demo_ext demo_cap (RFile ''/data/notes'') rights_read 60 60 aura_live
      = (Inr \<lparr>le_grant = demo_gid, le_resource = RFile ''/data/notes'', le_rights = rights_read\<rparr>, b')"
proof -
  let ?ev = "EvUse demo_gid aura_principal (RFile ''/data/notes'') rights_read"
  let ?b = "aura_live\<lparr>bk_grants := AList.map_entry demo_gid add_use (bk_grants aura_live)\<rparr>"
  have p: "grant_principal aura_live demo_gid = aura_principal"
    by (simp add: grant_principal_def aura_live_def new_grant_def)
  have path: "utf8_str ''/data/notes''" "utf8_str ''aura''" by (simp_all add: utf8_str_ascii ascii_str_def)
  have wf: "wf_event ?ev"
    using demo_gid_len path
    by (simp add: wf_event_def wf_resource_def aura_principal_def wf_str32_def len32_def rights_read_def)
  have len: "length (encode_event ?ev) \<le> 1024"
    using demo_gid_len path
    by (simp add: aura_principal_def encode_event_def put_str32_def put_bytes32_def encode_resource_def to_string_lossy_id)
  obtain b' where "broker_log demo_ext 60 ?ev ?b = (Inr (), b')"
    using demo_log [OF wf len, of ?b DenyAll] by (auto simp: aura_live_def)
  then have "broker_access demo_ext demo_cap (RFile ''/data/notes'') rights_read 60 60 aura_live
      = (Inr \<lparr>le_grant = demo_gid, le_resource = RFile ''/data/notes'', le_rights = rights_read\<rparr>, b')"
    using aura_live_check p by (simp add: broker_access_def Let_def demo_cap_def)
  with that show ?thesis by blast
qed

lemma aura_live_serves:
  "pick_capability (broker_grants aura_live 60) [(demo_gid, demo_cap)] note_need = Some (demo_gid, demo_cap)"
  by (simp add: broker_grants_def aura_live_def grant_info_of_def new_grant_def grant_status_at_def serves_def note_need_def
      file_need_def res_covers_def path_starts_with_def path_components_def seg_comp_def
      rights_contains_def rights_read_def expired_at_def)

lemmas note_plan_steps = note_plan_def mk_step_def catalog_get_def aura_catalog_def catalog_standard_def
  list_dir_def read_file_def find_tool_def move_file_def delete_file_def

text \<open>The read runs and the deletion waits for a confirmation.\<close>

lemma aura_demo_acquire:
  obtains s' where "acquire demo_ext aura_clock [note_need] (aura_demo\<lparr>as_reads := k\<rparr>) =
      (Some [\<lparr>le_grant = demo_gid, le_resource = RFile ''/data/notes'', le_rights = rights_read\<rparr>], s')"
    "as_trace s' = []"
proof -
  obtain b' where acc: "broker_access demo_ext demo_cap (RFile ''/data/notes'') rights_read 60 60 aura_live
      = (Inr \<lparr>le_grant = demo_gid, le_resource = RFile ''/data/notes'', le_rights = rights_read\<rparr>, b')"
    by (rule aura_live_access)
  then have "acquire demo_ext aura_clock [note_need] (aura_demo\<lparr>as_reads := k\<rparr>) =
      (Some [\<lparr>le_grant = demo_gid, le_resource = RFile ''/data/notes'', le_rights = rights_read\<rparr>],
       aura_demo\<lparr>as_broker := b', as_reads := k + 3\<rparr>)"
    using aura_live_serves
    by (simp add: capability_for_def aura_demo_def aura_clock_def on_broker_def note_need_def file_need_def Let_def
        eval_nat_numeral)
  then show thesis using that by (auto simp: aura_demo_def)
qed

lemma note_required: "need_path aura_disk ''path'' rights_read [''path'' \<mapsto> ''/data/notes''] = Inr [note_need]"
  by (simp add: need_path_def note_path note_need_def)

lemma note_read:
  "read_file_run aura_disk [''path'' \<mapsto> ''/data/notes''] ls tr = (Inr (OcText ''hi''), tr @ [FsRead ''/data/notes''])"
proof -
  have "dk_read aura_disk t p = Inr [104, 105]" for t p by (simp add: aura_disk_def)
  moreover have "take read_cap [104, 105 :: byte] = [104, 105]" by (rule take_all) (simp add: read_cap_def)
  moreover have "str_bytes ''hi'' = [104, 105]" by (simp add: str_bytes_def)
  then have "bytes_str [104, 105] = ''hi''" by (metis bytes_str_str_bytes)
  ultimately show ?thesis
    by (simp add: read_file_run_def act_bind_def act_read_def note_path fs_do_def act_ret_def
        to_string_lossy_id utf8_str_ascii ascii_str_def)
qed

definition note_results :: "step_result list" where
  "note_results =
     [\<lparr>sr_index = 0, sr_tool = ''read_file'', sr_status = Done (OcText ''hi'')\<rparr>,
      \<lparr>sr_index = 1, sr_tool = ''delete_file'', sr_status = Blocked BkNeedsConfirmation\<rparr>]"

definition note_step :: plan_step where
  "note_step = mk_step ''read_file'' [''path'' \<mapsto> ''/data/notes''] []"

lemma note_step_runs:
  obtains s' where "run_plan_step demo_ext aura_clock aura_catalog confirm note_step (aura_demo\<lparr>as_reads := k\<rparr>)
      = (Done (OcText ''hi''), s')" "as_trace s' = [FsRead ''/data/notes'']"
proof -
  obtain s1 where s1: "acquire demo_ext aura_clock [note_need] (aura_demo\<lparr>as_reads := k\<rparr>) =
      (Some [\<lparr>le_grant = demo_gid, le_resource = RFile ''/data/notes'', le_rights = rights_read\<rparr>], s1)"
    "as_trace s1 = []" by (rule aura_demo_acquire)
  then have "run_plan_step demo_ext aura_clock aura_catalog confirm note_step (aura_demo\<lparr>as_reads := k\<rparr>)
      = (Done (OcText ''hi''), s1\<lparr>as_trace := [FsRead ''/data/notes'']\<rparr>)"
    by (simp add: note_step_def note_plan_steps run_plan_step_def is_destructive_def note_required note_read)
  then show thesis using that by simp
qed

lemma aura_demo_execute:
  obtains s' where "aura_execute demo_ext aura_clock aura_catalog note_plan False aura_demo
      = (\<lparr>rp_intent = ''tidy'', rp_results = note_results\<rparr>, s')" "as_trace s' = [FsRead ''/data/notes'']"
proof -
  have "aura_demo\<lparr>as_reads := 0\<rparr> = aura_demo" by (simp add: aura_demo_def)
  then obtain s' where s': "run_plan_step demo_ext aura_clock aura_catalog False note_step aura_demo
      = (Done (OcText ''hi''), s')" "as_trace s' = [FsRead ''/data/notes'']"
    using note_step_runs [of False 0] by metis
  have "run_plan_step demo_ext aura_clock aura_catalog False (mk_step ''delete_file'' [''path'' \<mapsto> ''/data/notes''] []) s
      = (Blocked BkNeedsConfirmation, s)" for s
    by (simp add: note_plan_steps run_plan_step_def is_destructive_def)
  with s' that show thesis by (simp add: aura_execute_def note_plan_def note_results_def note_step_def mk_step_def)
qed

text \<open>Approving a plan whose one need is held grants nothing and runs it.\<close>

definition read_plan :: aura_plan where
  "read_plan = \<lparr>pl_intent = ''look'', pl_steps = [note_step]\<rparr>"

definition read_view :: preview where
  "read_view = \<lparr>pw_intent = ''look'', pw_steps =
     [\<lparr>pv_index = 0, pv_tool = ''read_file'', pv_rationale = [], pv_effect = Some EffRead,
       pv_needs = [\<lparr>ns_need = note_need, ns_authority = Held demo_gid\<rparr>], pv_block = None\<rparr>]\<rparr>"

lemma read_previewed:
  "preview_plan aura_clock aura_catalog read_plan aura_demo = (read_view, aura_demo\<lparr>as_reads := 1\<rparr>)"
  using aura_live_serves
  by (simp add: preview_plan_def read_plan_def preview_step_def note_step_def note_plan_steps note_required
      capability_for_def aura_demo_def aura_clock_def read_view_def is_held_def is_destructive_def Let_def)

lemma read_view_missing: "preview_missing read_view = []"
  by (simp add: preview_missing_def read_view_def add_missing_def is_held_def)

lemma read_approved:
  obtains s' where "approve_and_execute demo_ext aura_clock aura_catalog read_plan limits_none aura_demo
      = (Inr \<lparr>rp_intent = ''look'', rp_results = [\<lparr>sr_index = 0, sr_tool = ''read_file'', sr_status = Done (OcText ''hi'')\<rparr>]\<rparr>, s')"
    "as_trace s' = [FsRead ''/data/notes'']"
proof -
  obtain s' where "run_plan_step demo_ext aura_clock aura_catalog True note_step (aura_demo\<lparr>as_reads := 1\<rparr>)
      = (Done (OcText ''hi''), s')" "as_trace s' = [FsRead ''/data/notes'']" by (rule note_step_runs)
  moreover have "pl_steps read_plan = [note_step]" "pl_intent read_plan = ''look''" "sp_tool note_step = ''read_file''"
    by (simp_all add: read_plan_def note_step_def mk_step_def)
  ultimately show thesis
    using that
    by (simp add: approve_and_execute_def read_previewed grant_missing_def read_view_missing aura_execute_def)
qed

end
