(* ===== verification/AuraApproval.thy ===== *)
theory AuraApproval
  imports AuraSamples
begin

section \<open>What an approval adds\<close>

text \<open>
  \<open>approve_and_execute\<close> of \<open>crates/aura/src/lib.rs\<close>: which grants and handles exist after it that did
  not exist before.  A draw is what one grant takes from outside: its id, the clock reading it is
  stamped with and its secret.
\<close>

type_synonym grant_draw = "grant_id \<times> u64 \<times> bytes"

definition aura_grant :: "limits \<Rightarrow> need \<Rightarrow> grant_draw \<Rightarrow> grant \<times> bool \<times> bytes option" where
  "aura_grant lim m d =
     (case d of (g, now, secret) \<Rightarrow>
       (\<lparr>gr_id = g, gr_principal = aura_principal, gr_resource = nd_resource m, gr_rights = nd_rights m,
         gr_granted = now, gr_expires = lim_expires lim, gr_max_uses = lim_max_uses lim\<rparr>, False, Some secret))"

text \<open>The table and the wallet with one grant for each need, in the order of the needs.\<close>

fun with_grants ::
  "limits \<Rightarrow> (need \<times> grant_draw) list \<Rightarrow> (grant_id \<rightharpoonup> grant \<times> bool \<times> bytes option) \<Rightarrow>
   grant_id \<rightharpoonup> grant \<times> bool \<times> bytes option" where
  "with_grants lim [] st = st"
| "with_grants lim ((m, d) # mds) st = with_grants lim mds (st(fst d \<mapsto> aura_grant lim m d))"

fun with_handles ::
  "(need \<times> grant_draw) list \<Rightarrow> (grant_id \<rightharpoonup> capability) \<Rightarrow> grant_id \<rightharpoonup> capability" where
  "with_handles [] h = h"
| "with_handles ((m, (g, now, secret)) # mds) h =
     with_handles mds (h(g \<mapsto> \<lparr>cap_grant = g, cap_secret = secret\<rparr>))"

definition granted :: "limits \<Rightarrow> need list \<Rightarrow> aura \<Rightarrow> aura \<Rightarrow> bool" where
  "granted lim ms s t \<longleftrightarrow>
     (\<exists>ds. length ds = length ms
        \<and> standing (as_broker t) = with_grants lim (zip ms ds) (standing (as_broker s))
        \<and> map_of (as_held t) = with_handles (zip ms ds) (map_of (as_held s)))"

lemma granted_none: "granted lim [] s t \<longleftrightarrow>
    standing (as_broker t) = standing (as_broker s) \<and> map_of (as_held t) = map_of (as_held s)"
  by (simp add: granted_def)

lemma granted_more:
  assumes "standing (as_broker t) = (standing (as_broker s))(g \<mapsto> aura_grant lim m (g, now, secret))"
    and "map_of (as_held t) = (map_of (as_held s))(g \<mapsto> \<lparr>cap_grant = g, cap_secret = secret\<rparr>)"
    and "granted lim ms t u"
  shows "granted lim (m # ms) s u"
proof -
  from assms(3) obtain ds where "length ds = length ms"
    "standing (as_broker u) = with_grants lim (zip ms ds) (standing (as_broker t))"
    "map_of (as_held u) = with_handles (zip ms ds) (map_of (as_held t))"
    by (auto simp: granted_def)
  with assms(1,2) show ?thesis
    unfolding granted_def by (intro exI [of _ "(g, now, secret) # ds"]) simp
qed

text \<open>One authorization: a refusal of the broker changes neither the table nor the wallet.\<close>

lemma authorize_exact:
  assumes "authorize X clk (nd_resource m) (nd_rights m) lim s = (x, s')"
  shows "case x of
      Inl e \<Rightarrow> standing (as_broker s') = standing (as_broker s) \<and> as_held s' = as_held s
    | Inr g \<Rightarrow> \<exists>now secret.
        standing (as_broker s') = (standing (as_broker s))(g \<mapsto> aura_grant lim m (g, now, secret))
        \<and> map_of (as_held s') = (map_of (as_held s))(g \<mapsto> \<lparr>cap_grant = g, cap_secret = secret\<rparr>)"
proof -
  let ?b = "as_broker s"
  obtain g b1 where d1: "draw X 16 ?b = (g, b1)" by fastforce
  obtain sec b2 where d2: "draw X 32 b1 = (sec, b2)" by fastforce
  obtain e b3 where l: "broker_log X (clk (as_reads s + 1))
      (EvGrant g aura_principal (nd_resource m) (nd_rights m) (lim_expires lim) (lim_max_uses lim)) b2 = (e, b3)"
    by fastforce
  have "bk_grants b3 = bk_grants b2" by (metis broker_log_grants l snd_conv)
  then have b3: "bk_grants b3 = bk_grants ?b"
    using draw_grants [of X 16 ?b] draw_grants [of X 32 b1] d1 d2 by simp
  show ?thesis
  proof (cases e)
    case (Inl w)
    then show ?thesis
      using assms d1 d2 l b3
      by (auto simp: authorize_def act_bind_def on_broker_def broker_grant_def Let_def standing_def fun_eq_iff)
  next
    case (Inr u)
    then show ?thesis
      using assms d1 d2 l b3
      by (auto simp: authorize_def act_bind_def on_broker_def broker_grant_def Let_def standing_def aura_grant_def
          new_grant_def update_conv' fun_eq_iff)
  qed
qed

text \<open>The grants of a list of needs: all of them, or those before the first refusal.\<close>

lemma grants_exact:
  assumes "act_map (\<lambda>n. authorize X clk (nd_resource n) (nd_rights n) lim) ns s = (x, s')"
  shows "case x of
      Inl e \<Rightarrow> \<exists>k < length ns. granted lim (take k ns) s s'
    | Inr gs \<Rightarrow> granted lim ns s s'"
  using assms
proof (induction ns arbitrary: s x s')
  case Nil
  then show ?case by (auto simp: granted_none)
next
  case (Cons m ns)
  obtain y s1 where 1: "authorize X clk (nd_resource m) (nd_rights m) lim s = (y, s1)" by fastforce
  note a = authorize_exact [OF 1]
  show ?case
  proof (cases y)
    case (Inl e)
    with Cons.prems 1 a show ?thesis by (auto simp: granted_none intro!: exI [of _ 0])
  next
    case (Inr g)
    obtain z s2 where 2: "act_map (\<lambda>n. authorize X clk (nd_resource n) (nd_rights n) lim) ns s1 = (z, s2)" by fastforce
    from a Inr obtain now secret where one:
      "standing (as_broker s1) = (standing (as_broker s))(g \<mapsto> aura_grant lim m (g, now, secret))"
      "map_of (as_held s1) = (map_of (as_held s))(g \<mapsto> \<lparr>cap_grant = g, cap_secret = secret\<rparr>)" by auto
    note more = granted_more [OF one]
    show ?thesis
    proof (cases z)
      case z: (Inl e)
      with Cons.IH [OF 2] obtain k where "k < length ns" "granted lim (take k ns) s1 s2" by auto
      moreover have "x = Inl e" "s' = s2" using Cons.prems 1 2 Inr z by simp_all
      ultimately show ?thesis using more by (auto intro!: exI [of _ "Suc k"])
    next
      case z: (Inr gs)
      with Cons.IH [OF 2] have "granted lim ns s1 s2" by simp
      moreover have "x = Inr (g # gs)" "s' = s2" using Cons.prems 1 2 Inr z by simp_all
      ultimately show ?thesis using more by simp
    qed
  qed
qed

lemma approve_exact:
  assumes cat: "\<And>t. t \<in> set cat \<Longrightarrow> tool_within t \<and> tool_mild t"
    and ok: "aura_ok s" and view: "preview_plan clk cat p s = (w, s1)"
    and run: "approve_and_execute X clk cat p lim s = (r, s')"
  shows "case r of
      Inl e \<Rightarrow> as_trace s' = as_trace s \<and> (\<exists>k < length (preview_missing w). granted lim (take k (preview_missing w)) s s')
    | Inr rep \<Rightarrow> granted lim (preview_missing w) s s'"
proof -
  obtain k where s1: "s1 = s\<lparr>as_reads := k\<rparr>" using preview_plan_reads [OF view] by blast
  obtain x s2 where g: "grant_missing X clk w lim s1 = (x, s2)" by fastforce
  have "aura_ok s1" using s1 ok by simp
  from grants_add [OF this g [unfolded grant_missing_def]] s1
  have s2: "aura_ok s2" "as_trace s2 = as_trace s" by auto
  have same: "granted lim ms s1 t \<longleftrightarrow> granted lim ms s t" for ms t
    by (simp add: granted_def s1)
  note exact = grants_exact [OF g [unfolded grant_missing_def], unfolded same]
  show ?thesis
  proof (cases x)
    case (Inl e)
    with run view g have "r = Inl e" "s' = s2" by (simp_all add: approve_and_execute_def)
    with exact Inl s2(2) show ?thesis by simp
  next
    case (Inr gs)
    obtain rs s3 where e: "execute_steps X clk cat True 0 (pl_steps p) s2 = (rs, s3)" by fastforce
    have "same_but_trace s2 s3" using execute_allowed [OF cat s2(1) e] by blast
    then have "granted lim ms s s3 \<longleftrightarrow> granted lim ms s s2" for ms
      by (simp add: granted_def same_but_trace_def)
    moreover have "s' = s3" "\<exists>rep. r = Inr rep"
      using run view g Inr e by (auto simp: approve_and_execute_def aura_execute_def)
    ultimately show ?thesis using exact Inr by auto
  qed
qed

subsection \<open>An approval that grants\<close>

text \<open>An Aura with an empty wallet on the fresh sample broker, asked to read a note: the preview lists
  the one need as missing, and approving the plan grants it.\<close>

definition aura_poor :: aura where
  "aura_poor = aura_new (demo_broker DenyAll)"

definition poor_view :: preview where
  "poor_view = \<lparr>pw_intent = ''look'', pw_steps =
     [\<lparr>pv_index = 0, pv_tool = ''read_file'', pv_rationale = [], pv_effect = Some EffRead,
       pv_needs = [\<lparr>ns_need = note_need, ns_authority = Missing\<rparr>], pv_block = Some BkNeedsCapability\<rparr>]\<rparr>"

lemma aura_poor_ok: "aura_ok aura_poor"
  by (simp add: aura_ok_def aura_poor_def aura_new_def demo_broker_def)

lemma poor_previewed:
  "preview_plan aura_clock aura_catalog read_plan aura_poor = (poor_view, aura_poor\<lparr>as_reads := 1\<rparr>)"
  by (simp add: preview_plan_def read_plan_def preview_step_def note_step_def note_plan_steps note_required
      capability_for_def aura_poor_def aura_new_def poor_view_def is_held_def is_destructive_def Let_def
      broker_grants_def demo_broker_def)

lemma poor_view_missing: "preview_missing poor_view = [note_need]"
  by (simp add: preview_missing_def poor_view_def add_missing_def is_held_def)

lemma poor_authorized:
  obtains g s' where "authorize demo_ext aura_clock (nd_resource note_need) (nd_rights note_need) limits_none
    (aura_poor\<lparr>as_reads := 1\<rparr>) = (Inr g, s')"
proof -
  let ?b = "demo_broker DenyAll"
  let ?ev = "grant_event demo_ext ?b aura_principal (nd_resource note_need) (nd_rights note_need) limits_none"
  have path: "utf8_str ''/data/notes''" "utf8_str ''aura''" by (simp_all add: utf8_str_ascii ascii_str_def)
  have gid: "length (next_grant demo_ext ?b) = 16"
    by (simp add: next_grant_def demo_ext_ok ext_ok_lengths)
  have wf: "wf_event ?ev"
    using gid path
    by (simp add: grant_event_def wf_event_def wf_resource_def note_need_def file_need_def aura_principal_def
        wf_str32_def len32_def rights_read_def)
  have len: "length (encode_event ?ev) \<le> 1024"
    using gid path
    by (simp add: grant_event_def encode_event_def put_str32_def put_bytes32_def encode_resource_def note_need_def
        file_need_def aura_principal_def to_string_lossy_id limits_none_def put_opt_u64_def put_opt_u32_def)
  obtain b' secret where "broker_grant demo_ext aura_principal (nd_resource note_need) (nd_rights note_need) limits_none 60 60 ?b
      = (Inr \<lparr>cap_grant = next_grant demo_ext ?b, cap_secret = secret\<rparr>, b')"
    by (rule broker_grant_step [OF demo_broker_inv [OF demo_first_usable(2) [OF len]] demo_loggable [OF wf len]])
  then have "\<exists>s'. authorize demo_ext aura_clock (nd_resource note_need) (nd_rights note_need) limits_none
      (aura_poor\<lparr>as_reads := 1\<rparr>) = (Inr (next_grant demo_ext ?b), s')"
    by (simp add: authorize_def act_bind_def on_broker_def aura_poor_def aura_new_def aura_clock_def Let_def)
  with that show thesis by blast
qed

lemma poor_approved:
  obtains rep s' where "approve_and_execute demo_ext aura_clock aura_catalog read_plan limits_none aura_poor = (Inr rep, s')"
proof -
  obtain g s' where "authorize demo_ext aura_clock (nd_resource note_need) (nd_rights note_need) limits_none
    (aura_poor\<lparr>as_reads := 1\<rparr>) = (Inr g, s')" by (rule poor_authorized)
  moreover obtain rep s3 where "aura_execute demo_ext aura_clock aura_catalog read_plan True s' = (rep, s3)" by fastforce
  ultimately show thesis
    using that [of rep s3]
    by (simp add: approve_and_execute_def poor_previewed grant_missing_def poor_view_missing act_bind_def split: prod.splits)
qed

text \<open>C24.  Approval adds exactly what was shown.  Let a preview of a plan list its missing needs, on a
  catalog of the standard tools and with a wallet and a table whose entries stand under their own
  ids.  After approving and running the plan, the broker's grants are those of before, none altered
  in anything but its count of uses, and one grant to Aura for each missing need, of exactly that
  resource and those rights under the limits given; the wallet holds its old handles and the ones to
  these grants, and nothing else is in either (a drawn id already in use replaces its entry).  If a grant fails half way, the additions are those
  for the missing needs before it and nothing has run.  Every file system call of the run is one
  Aura might make before or one a missing need covers.\<close>

theorem approval_is_the_authority:
  assumes "disk_ok D" and "aura_ok s" and "cat = catalog_standard D score"
    and "preview_plan clk cat p s = (w, s1)"
    and "approve_and_execute X clk cat p lim s = (r, s')"
  shows "(case r of
        Inl e \<Rightarrow> as_trace s' = as_trace s \<and> (\<exists>k < length (preview_missing w). granted lim (take k (preview_missing w)) s s')
      | Inr rep \<Rightarrow> granted lim (preview_missing w) s s')
    \<and> (\<exists>cs. as_trace s' = as_trace s @ cs
        \<and> (\<forall>c \<in> set cs. \<forall>n \<in> set (call_needs c).
             aura_may s n \<or> (\<exists>m \<in> set (preview_missing w). need_covers m n)))"
  using approve_exact [OF _ assms(2,4,5)] approve_allowed [OF _ assms(2,4,5)] standard_within [OF assms(1)] standard_mild
  unfolding assms(3) by blast

theorem approval_is_the_authority_witness:
  "\<exists>rep s' g now secret. approve_and_execute demo_ext aura_clock aura_catalog read_plan limits_none aura_poor = (Inr rep, s')
    \<and> map_of (as_held s') = [g \<mapsto> \<lparr>cap_grant = g, cap_secret = secret\<rparr>]
    \<and> standing (as_broker s') = [g \<mapsto> aura_grant limits_none note_need (g, now, secret)]"
proof -
  obtain rep s' where run: "approve_and_execute demo_ext aura_clock aura_catalog read_plan limits_none aura_poor = (Inr rep, s')"
    by (rule poor_approved)
  from conjunct1 [OF approval_is_the_authority [OF aura_disk_ok aura_poor_ok aura_catalog_def poor_previewed run]]
  obtain ds where ds: "length ds = 1"
    "standing (as_broker s') = with_grants limits_none (zip [note_need] ds) (standing (as_broker aura_poor))"
    "map_of (as_held s') = with_handles (zip [note_need] ds) (map_of (as_held aura_poor))"
    by (auto simp: granted_def poor_view_missing)
  then obtain g now secret where "ds = [(g, now, secret)]" by (cases ds) auto
  moreover have "standing (as_broker aura_poor) = Map.empty" "map_of (as_held aura_poor) = Map.empty"
    by (simp_all add: standing_def aura_poor_def aura_new_def demo_broker_def fun_eq_iff)
  ultimately show ?thesis using run ds(2,3) by auto
qed

end
