(* ===== verification/Rendezvous.thy ===== *)
theory Rendezvous
  imports Wire "HOL-Library.AList"
begin

section \<open>The rendezvous\<close>

text \<open>
  \<open>crates/constellation/src/net/rendezvous.rs\<close>: the registry of leases, its wire, and the answer to one
  request.  A socket address is an IP and a port (flow label and scope of IPv6 are never sent), an instant
  a number of nanoseconds, a \<open>HashMap\<close> an association list.  A connection is a value of any type; whether
  it can still be reached is an argument of the operations that try.
\<close>

definition lease_ns :: nat where "lease_ns = 90 * 10 ^ 9"
definition max_msg :: nat where "max_msg = 64 * 1024"

datatype ip = IpV4 bytes | IpV6 bytes

record sock =
  so_ip :: ip
  so_port :: u16

text \<open>The order of \<open>SocketAddr\<close>: the family, the octets, the port.\<close>

definition sock_key :: "sock \<Rightarrow> nat" where
  "sock_key a =
     (case so_ip a of
        IpV4 b \<Rightarrow> be_nat b * 2 ^ 16 + unat (so_port a)
      | IpV6 b \<Rightarrow> (2 ^ 32 + be_nat b) * 2 ^ 16 + unat (so_port a))"

subsection \<open>The registry\<close>

record 'c waiter =
  wt_id :: nat
  wt_observed :: sock
  wt_conn :: 'c

record 'c registry =
  rg_by_fp :: "(string \<times> (sock \<times> nat) list) list"
  rg_pending :: "(string \<times> 'c waiter list) list"

definition registry_new :: "'c registry" where
  "registry_new = \<lparr>rg_by_fp = [], rg_pending = []\<rparr>"

text \<open>\<open>entry().or_default()\<close>, and putting a bucket back unless it is empty.\<close>

definition bucket :: "string \<Rightarrow> (string \<times> 'a list) list \<Rightarrow> 'a list" where
  "bucket fp m = (case map_of m fp of None \<Rightarrow> [] | Some b \<Rightarrow> b)"

definition set_bucket :: "string \<Rightarrow> 'a list \<Rightarrow> (string \<times> 'a list) list \<Rightarrow> (string \<times> 'a list) list" where
  "set_bucket fp b m =
     (if map_of m fp = None then m else if b = [] then AList.delete fp m else AList.update fp b m)"

definition live_leases :: "nat \<Rightarrow> (sock \<times> nat) list \<Rightarrow> (sock \<times> nat) list" where
  "live_leases now b = filter (\<lambda>(_, expiry). now < expiry) b"

definition rz_register :: "string \<Rightarrow> sock \<Rightarrow> nat \<Rightarrow> 'c registry \<Rightarrow> 'c registry" where
  "rz_register fp a now r =
     r\<lparr>rg_by_fp := AList.update fp (live_leases now (AList.update a (now + lease_ns) (bucket fp (rg_by_fp r)))) (rg_by_fp r)\<rparr>"

definition rz_unregister :: "string \<Rightarrow> sock \<Rightarrow> 'c registry \<Rightarrow> 'c registry" where
  "rz_unregister fp a r =
     r\<lparr>rg_by_fp := set_bucket fp (AList.delete a (bucket fp (rg_by_fp r))) (rg_by_fp r)\<rparr>"

definition rz_lookup :: "string \<Rightarrow> nat \<Rightarrow> 'c registry \<Rightarrow> sock list \<times> 'c registry" where
  "rz_lookup fp now r =
     (let b = live_leases now (bucket fp (rg_by_fp r)) in
      (sort_key sock_key (map fst b), r\<lparr>rg_by_fp := set_bucket fp b (rg_by_fp r)\<rparr>))"

definition reg_punch_wait :: "string \<Rightarrow> 'c waiter \<Rightarrow> 'c registry \<Rightarrow> 'c registry" where
  "reg_punch_wait fp w r =
     r\<lparr>rg_pending := AList.update fp
         (filter (\<lambda>v. wt_id v \<noteq> wt_id w) (bucket fp (rg_pending r)) @ [w]) (rg_pending r)\<rparr>"

definition punch_drop :: "string \<Rightarrow> nat \<Rightarrow> 'c registry \<Rightarrow> 'c registry" where
  "punch_drop fp i r =
     r\<lparr>rg_pending := set_bucket fp (filter (\<lambda>v. wt_id v \<noteq> i) (bucket fp (rg_pending r))) (rg_pending r)\<rparr>"

definition punch_waiters :: "string \<Rightarrow> 'c registry \<Rightarrow> 'c waiter list" where
  "punch_waiters fp r = bucket fp (rg_pending r)"

subsection \<open>The wire of the rendezvous\<close>

datatype rz_req =
    RzRegister string u16
  | RzUnregister string u16
  | RzLookup string
  | RzPunchWait string
  | RzPunchConnect string

datatype rz_resp =
    RzRegistered sock
  | RzOk
  | RzAddrs "sock list"
  | RzErr string
  | RzPunchWaiting
  | RzPunchGo sock
  | RzPunchNoPeer

definition put_addr :: "sock \<Rightarrow> bytes" where
  "put_addr a =
     (case so_ip a of IpV4 b \<Rightarrow> 4 # b | IpV6 b \<Rightarrow> 6 # b) @ be_bytes 2 (so_port a)"

definition get_addr :: "(sync_error, sock) reader" where
  "get_addr =
     rd_bind (rd_bind (rd_byte wire_end) (\<lambda>t.
       if t = 4 then rd_bind (rd_take wire_end 4) (\<lambda>b. rd_ret (IpV4 b))
       else if t = 6 then rd_bind (rd_take wire_end 16) (\<lambda>b. rd_ret (IpV6 b))
       else rd_fail (SyNet (''bad address family '' @ show_nat (unat t))))) (\<lambda>i.
     rd_bind (rd_be wire_end 2) (\<lambda>p. rd_ret \<lparr>so_ip = i, so_port = p\<rparr>))"

definition rz_req_encode :: "rz_req \<Rightarrow> bytes" where
  "rz_req_encode r =
     (case r of
        RzRegister fp port \<Rightarrow> 1 # put_str32 fp @ be_bytes 2 port
      | RzUnregister fp port \<Rightarrow> 2 # put_str32 fp @ be_bytes 2 port
      | RzLookup fp \<Rightarrow> 3 # put_str32 fp
      | RzPunchWait fp \<Rightarrow> 4 # put_str32 fp
      | RzPunchConnect fp \<Rightarrow> 5 # put_str32 fp)"

definition rd_rz_req :: "(sync_error, rz_req) reader" where
  "rd_rz_req =
     rd_bind (rd_byte wire_end) (\<lambda>t.
       if t = 1 then rd_bind rd_wire_str (\<lambda>fp. rd_bind (rd_be wire_end 2) (\<lambda>p. rd_ret (RzRegister fp p)))
       else if t = 2 then rd_bind rd_wire_str (\<lambda>fp. rd_bind (rd_be wire_end 2) (\<lambda>p. rd_ret (RzUnregister fp p)))
       else if t = 3 then rd_bind rd_wire_str (\<lambda>fp. rd_ret (RzLookup fp))
       else if t = 4 then rd_bind rd_wire_str (\<lambda>fp. rd_ret (RzPunchWait fp))
       else if t = 5 then rd_bind rd_wire_str (\<lambda>fp. rd_ret (RzPunchConnect fp))
       else rd_fail (SyNet (''bad rendezvous request tag '' @ show_nat (unat t))))"

definition rz_req_decode :: "bytes \<Rightarrow> sync_error + rz_req" where
  "rz_req_decode buf = (case rd_rz_req buf of Inl e \<Rightarrow> Inl e | Inr (r, rest) \<Rightarrow> Inr r)"

definition rz_resp_encode :: "rz_resp \<Rightarrow> bytes" where
  "rz_resp_encode r =
     (case r of
        RzRegistered a \<Rightarrow> 1 # put_addr a
      | RzOk \<Rightarrow> [2]
      | RzAddrs as \<Rightarrow> 3 # be_bytes 4 (of_nat (length as) :: u32) @ concat (map put_addr as)
      | RzErr s \<Rightarrow> 4 # put_str32 s
      | RzPunchWaiting \<Rightarrow> [5]
      | RzPunchGo a \<Rightarrow> 6 # put_addr a
      | RzPunchNoPeer \<Rightarrow> [7])"

definition rd_rz_resp :: "(sync_error, rz_resp) reader" where
  "rd_rz_resp =
     rd_bind (rd_byte wire_end) (\<lambda>t.
       if t = 1 then rd_bind get_addr (\<lambda>a. rd_ret (RzRegistered a))
       else if t = 2 then rd_ret RzOk
       else if t = 3 then
         rd_bind (rd_be wire_end 4) (\<lambda>n :: u32. rd_bind (rd_times (unat n) get_addr) (\<lambda>as. rd_ret (RzAddrs as)))
       else if t = 4 then rd_bind rd_wire_str (\<lambda>s. rd_ret (RzErr s))
       else if t = 5 then rd_ret RzPunchWaiting
       else if t = 6 then rd_bind get_addr (\<lambda>a. rd_ret (RzPunchGo a))
       else if t = 7 then rd_ret RzPunchNoPeer
       else rd_fail (SyNet (''bad rendezvous response tag '' @ show_nat (unat t))))"

definition rz_resp_decode :: "bytes \<Rightarrow> sync_error + rz_resp" where
  "rz_resp_decode buf = (case rd_rz_resp buf of Inl e \<Rightarrow> Inl e | Inr (r, rest) \<Rightarrow> Inr r)"

subsection \<open>One request\<close>

text \<open>
  What comes of trying to reach a waiting peer: no stream opens, the push is lost on the way (and the
  handler gives up), or it is delivered.
\<close>

datatype reach = NoStream | PushLost | Delivered

fun punch_try ::
  "('c waiter \<Rightarrow> reach) \<Rightarrow> string \<Rightarrow> sock \<Rightarrow> 'c waiter list \<Rightarrow> 'c registry \<Rightarrow>
     (sync_error + rz_resp) \<times> ('c \<times> rz_resp) list \<times> 'c registry" where
  "punch_try X fp observed [] r = (Inr RzPunchNoPeer, [], r)"
| "punch_try X fp observed (w # ws) r =
     (case X w of
        NoStream \<Rightarrow> punch_try X fp observed ws (punch_drop fp (wt_id w) r)
      | PushLost \<Rightarrow> (Inl (SyNet ''connection lost''), [], r)
      | Delivered \<Rightarrow> (Inr (RzPunchGo (wt_observed w)), [(wt_conn w, RzPunchGo observed)], r))"

definition punch_connect ::
  "('c waiter \<Rightarrow> reach) \<Rightarrow> sock \<Rightarrow> string \<Rightarrow> 'c registry \<Rightarrow>
     (sync_error + rz_resp) \<times> ('c \<times> rz_resp) list \<times> 'c registry" where
  "punch_connect X observed fp r = punch_try X fp observed (punch_waiters fp r) r"

text \<open>A peer as the accept loop sees it: its connection, the stable id of that, its observed address.\<close>

record 'c peer_conn =
  pc_conn :: 'c
  pc_id :: nat
  pc_observed :: sock

definition rz_answer ::
  "('c waiter \<Rightarrow> reach) \<Rightarrow> 'c peer_conn \<Rightarrow> nat \<Rightarrow> rz_req \<Rightarrow> 'c registry \<Rightarrow>
     (sync_error + rz_resp) \<times> ('c \<times> rz_resp) list \<times> 'c registry" where
  "rz_answer X p now req r =
     (let here = (\<lambda>port. \<lparr>so_ip = so_ip (pc_observed p), so_port = port\<rparr>) in
      case req of
        RzPunchWait fp \<Rightarrow>
          (Inr RzPunchWaiting, [],
           reg_punch_wait fp \<lparr>wt_id = pc_id p, wt_observed = pc_observed p, wt_conn = pc_conn p\<rparr> r)
      | RzPunchConnect fp \<Rightarrow> punch_connect X (pc_observed p) fp r
      | RzRegister fp port \<Rightarrow> (Inr (RzRegistered (pc_observed p)), [], rz_register fp (here port) now r)
      | RzUnregister fp port \<Rightarrow> (Inr RzOk, [], rz_unregister fp (here port) r)
      | RzLookup fp \<Rightarrow> (case rz_lookup fp now r of (as, r') \<Rightarrow> (Inr (RzAddrs as), [], r')))"

definition rz_serve ::
  "('c waiter \<Rightarrow> reach) \<Rightarrow> 'c peer_conn \<Rightarrow> nat \<Rightarrow> bytes \<Rightarrow> 'c registry \<Rightarrow>
     (sync_error + bytes) \<times> ('c \<times> rz_resp) list \<times> 'c registry" where
  "rz_serve X p now buf r =
     (if max_msg < length buf then (Inl (SyNet ''stream too long''), [], r)
      else
        (case rz_req_decode buf of
           Inl e \<Rightarrow> (Inl e, [], r)
         | Inr req \<Rightarrow> (case rz_answer X p now req r of (resp, ps, r') \<Rightarrow> (map_sum (\<lambda>e. e) rz_resp_encode resp, ps, r'))))"

subsection \<open>The client\<close>

text \<open>What the client makes of the reply to its request; a reply it did not ask for is an error.\<close>

definition rz_unexpected :: "rz_resp \<Rightarrow> sync_error" where
  "rz_unexpected r = SyNet (case r of RzErr s \<Rightarrow> s | _ \<Rightarrow> ''unexpected reply from rendezvous'')"

definition rz_call :: "bytes \<Rightarrow> sync_error + rz_resp" where
  "rz_call reply = (if max_msg < length reply then Inl (SyNet ''stream too long'') else rz_resp_decode reply)"

definition client_register :: "bytes \<Rightarrow> sync_error + sock" where
  "client_register reply =
     res_bind (rz_call reply) (\<lambda>r. case r of RzRegistered a \<Rightarrow> Inr a | other \<Rightarrow> Inl (rz_unexpected other))"

definition client_lookup :: "bytes \<Rightarrow> sync_error + sock list" where
  "client_lookup reply =
     res_bind (rz_call reply) (\<lambda>r. case r of RzAddrs as \<Rightarrow> Inr as | other \<Rightarrow> Inl (rz_unexpected other))"

definition client_unregister :: "bytes \<Rightarrow> sync_error + unit" where
  "client_unregister reply =
     res_bind (rz_call reply) (\<lambda>r. case r of RzOk \<Rightarrow> Inr () | other \<Rightarrow> Inl (rz_unexpected other))"

definition punch_peer :: "bytes \<Rightarrow> sync_error + sock" where
  "punch_peer reply =
     (if 4 * 1024 < length reply then Inl (SyNet ''stream too long'')
      else
        res_bind (rz_resp_decode reply) (\<lambda>r.
          case r of
            RzPunchGo a \<Rightarrow> Inr a
          | RzPunchNoPeer \<Rightarrow> Inl (SyNet ''rendezvous has no peer waiting to punch'')
          | other \<Rightarrow> Inl (rz_unexpected other)))"

subsection \<open>The codecs agree\<close>

definition ip_ok :: "ip \<Rightarrow> bool" where
  "ip_ok i \<longleftrightarrow> (case i of IpV4 b \<Rightarrow> length b = 4 | IpV6 b \<Rightarrow> length b = 16)"

definition sock_ok :: "sock \<Rightarrow> bool" where
  "sock_ok a \<longleftrightarrow> ip_ok (so_ip a)"

definition wf_rz_req :: "rz_req \<Rightarrow> bool" where
  "wf_rz_req r =
     (case r of
        RzRegister fp _ \<Rightarrow> wf_str32 fp
      | RzUnregister fp _ \<Rightarrow> wf_str32 fp
      | RzLookup fp \<Rightarrow> wf_str32 fp
      | RzPunchWait fp \<Rightarrow> wf_str32 fp
      | RzPunchConnect fp \<Rightarrow> wf_str32 fp)"

definition wf_rz_resp :: "rz_resp \<Rightarrow> bool" where
  "wf_rz_resp r =
     (case r of
        RzRegistered a \<Rightarrow> sock_ok a
      | RzAddrs as \<Rightarrow> len32 as \<and> list_all sock_ok as
      | RzErr s \<Rightarrow> wf_str32 s
      | RzPunchGo a \<Rightarrow> sock_ok a
      | _ \<Rightarrow> True)"

interpretation addr_codec: prefix_codec put_addr get_addr sock_ok
proof
  fix a rest
  assume "sock_ok a"
  then show "get_addr (put_addr a @ rest) = Inr (a, rest)"
    by (cases "so_ip a") (simp_all add: put_addr_def get_addr_def sock_ok_def ip_ok_def rd_bind_def codec_simps)
qed

interpretation rz_req_codec: prefix_codec rz_req_encode rd_rz_req wf_rz_req
proof
  fix r rest
  assume "wf_rz_req r"
  then show "rd_rz_req (rz_req_encode r @ rest) = Inr (r, rest)"
    by (cases r) (simp_all add: rz_req_encode_def rd_rz_req_def wf_rz_req_def rd_wire_str_def rd_bind_def wire_str
        codec_simps)
qed

interpretation rz_resp_codec: prefix_codec rz_resp_encode rd_rz_resp wf_rz_resp
proof
  fix r rest
  assume wf: "wf_rz_resp r"
  show "rd_rz_resp (rz_resp_encode r @ rest) = Inr (r, rest)"
  proof (cases r)
    case (RzAddrs as)
    with wf addr_codec.dec_times [of as rest] show ?thesis
      by (simp add: rz_resp_encode_def rd_rz_resp_def wf_rz_resp_def rd_bind_def codec_simps unat_of_nat_len len32_def)
  qed (use wf in \<open>auto simp: rz_resp_encode_def rd_rz_resp_def wf_rz_resp_def rd_wire_str_def rd_bind_def wire_str
      addr_codec.dec_enc\<close>)
qed

lemma rz_req_decode_encode: "wf_rz_req r \<Longrightarrow> rz_req_decode (rz_req_encode r) = Inr r"
  by (simp add: rz_req_decode_def rz_req_codec.dec_enc_all)

lemma rz_resp_decode_encode: "wf_rz_resp r \<Longrightarrow> rz_resp_decode (rz_resp_encode r) = Inr r"
  by (simp add: rz_resp_decode_def rz_resp_codec.dec_enc_all)

subsection \<open>The registry as a table of leases\<close>

lemma bucket_update: "bucket fp' (AList.update fp b m) = (if fp' = fp then b else bucket fp' m)"
  by (simp add: bucket_def update_conv')

lemma bucket_set: "(bucket fp m = [] \<Longrightarrow> b = []) \<Longrightarrow> bucket fp' (set_bucket fp b m) = (if fp' = fp then b else bucket fp' m)"
  by (auto simp: bucket_def set_bucket_def update_conv' delete_conv' split: option.splits)

lemma map_of_live:
  "distinct (map fst b) \<Longrightarrow> map_of (live_leases now b) a = Some e \<longleftrightarrow> map_of b a = Some e \<and> now < e"
proof -
  assume "distinct (map fst b)"
  moreover from this have "distinct (map fst (live_leases now b))" by (simp add: live_leases_def distinct_map_filter)
  ultimately show ?thesis by (auto simp: map_of_eq_Some_iff live_leases_def)
qed

lemma distinct_live: "distinct (map fst b) \<Longrightarrow> distinct (map fst (live_leases now b))"
  by (simp add: live_leases_def distinct_map_filter)

type_synonym leases = "string \<times> sock \<Rightarrow> nat option"

text \<open>What a message means for the table of leases, whatever the registry forgets in passing.\<close>

type_synonym 'c message = "'c peer_conn \<times> nat \<times> bytes"

definition here :: "'c peer_conn \<Rightarrow> u16 \<Rightarrow> sock" where
  "here p port = \<lparr>so_ip = so_ip (pc_observed p), so_port = port\<rparr>"

definition lease_msg :: "'c message \<Rightarrow> leases \<Rightarrow> leases" where
  "lease_msg m L =
     (case m of (p, now, buf) \<Rightarrow>
       if max_msg < length buf then L
       else
         (case rz_req_decode buf of
            Inr (RzRegister fp port) \<Rightarrow> L((fp, here p port) \<mapsto> now + lease_ns)
          | Inr (RzUnregister fp port) \<Rightarrow> L((fp, here p port) := None)
          | _ \<Rightarrow> L))"

definition rz_step :: "('c waiter \<Rightarrow> reach) \<Rightarrow> 'c message \<Rightarrow> 'c registry \<Rightarrow> 'c registry" where
  "rz_step X m r = (case m of (p, now, buf) \<Rightarrow> snd (snd (rz_serve X p now buf r)))"

text \<open>A bucket holds every lease that has not run out, and nothing else.\<close>

definition keep_bucket :: "nat \<Rightarrow> (sock \<Rightarrow> nat option) \<Rightarrow> (sock \<times> nat) list \<Rightarrow> bool" where
  "keep_bucket T L b \<longleftrightarrow>
     distinct (map fst b)
     \<and> (\<forall>a e. map_of b a = Some e \<longrightarrow> L a = Some e)
     \<and> (\<forall>a e. L a = Some e \<longrightarrow> T < e \<longrightarrow> map_of b a = Some e)"

lemma keep_live: "keep_bucket T L b \<Longrightarrow> keep_bucket T L (live_leases T b)"
  unfolding keep_bucket_def by (metis map_of_live distinct_live)

lemma keep_update: "keep_bucket T L b \<Longrightarrow> keep_bucket T (L(a \<mapsto> e)) (AList.update a e b)"
  unfolding keep_bucket_def update_conv' fun_upd_apply by (metis distinct_update)

lemma keep_delete: "keep_bucket T L b \<Longrightarrow> keep_bucket T (L(a := None)) (AList.delete a b)"
  unfolding keep_bucket_def delete_conv' fun_upd_apply by (metis distinct_delete option.distinct(1))

lemma keep_later: "keep_bucket T L b \<Longrightarrow> T \<le> now \<Longrightarrow> keep_bucket now L b"
  unfolding keep_bucket_def by (meson le_less_trans)

definition keeps :: "nat \<Rightarrow> leases \<Rightarrow> 'c registry \<Rightarrow> bool" where
  "keeps T L r \<longleftrightarrow> (\<forall>fp. keep_bucket T (\<lambda>a. L (fp, a)) (bucket fp (rg_by_fp r)))"

lemma keeps_new: "keeps 0 Map.empty registry_new"
  by (simp add: keeps_def keep_bucket_def registry_new_def bucket_def)

lemma keeps_later: "keeps T L r \<Longrightarrow> T \<le> now \<Longrightarrow> keeps now L r"
  by (auto simp: keeps_def intro: keep_later)

lemma keepsD: "keeps T L r \<Longrightarrow> keep_bucket T (\<lambda>a. L (fp, a)) (bucket fp (rg_by_fp r))"
  by (simp add: keeps_def)

lemma keeps_bucket:
  assumes "keeps now L r"
    and r': "\<And>fp'. bucket fp' (rg_by_fp r') = (if fp' = fp then b else bucket fp' (rg_by_fp r))"
    and L': "\<And>fp' a. fp' \<noteq> fp \<Longrightarrow> L' (fp', a) = L (fp', a)"
    and b: "keep_bucket now (\<lambda>a. L' (fp, a)) b"
  shows "keeps now L' r'"
  unfolding keeps_def
proof
  fix fp'
  show "keep_bucket now (\<lambda>a. L' (fp', a)) (bucket fp' (rg_by_fp r'))"
  proof (cases "fp' = fp")
    case True
    with b r' [of fp'] show ?thesis by simp
  next
    case False
    then have "(\<lambda>a. L' (fp', a)) = (\<lambda>a. L (fp', a))" using L' by blast
    with keepsD [OF assms(1), of fp'] r' [of fp'] False show ?thesis by simp
  qed
qed

lemma keeps_register:
  assumes "keeps now L r"
  shows "keeps now (L((fp, a) \<mapsto> now + lease_ns)) (rz_register fp a now r)"
proof (rule keeps_bucket [OF assms])
  show "bucket fp' (rg_by_fp (rz_register fp a now r)) =
      (if fp' = fp then live_leases now (AList.update a (now + lease_ns) (bucket fp (rg_by_fp r))) else bucket fp' (rg_by_fp r))" for fp'
    by (simp add: rz_register_def bucket_update)
  have "(\<lambda>c. (L((fp, a) \<mapsto> now + lease_ns)) (fp, c)) = (\<lambda>c. L (fp, c))(a \<mapsto> now + lease_ns)" by auto
  then show "keep_bucket now (\<lambda>c. (L((fp, a) \<mapsto> now + lease_ns)) (fp, c))
      (live_leases now (AList.update a (now + lease_ns) (bucket fp (rg_by_fp r))))"
    using keep_live [OF keep_update [OF keepsD [OF assms]]] by (simp only:)
qed simp

lemma keeps_unregister:
  assumes "keeps now L r"
  shows "keeps now (L((fp, a) := None)) (rz_unregister fp a r)"
proof (rule keeps_bucket [OF assms])
  show "bucket fp' (rg_by_fp (rz_unregister fp a r)) =
      (if fp' = fp then AList.delete a (bucket fp (rg_by_fp r)) else bucket fp' (rg_by_fp r))" for fp'
    unfolding rz_unregister_def by (simp add: bucket_set)
  have "(\<lambda>c. (L((fp, a) := None)) (fp, c)) = (\<lambda>c. L (fp, c))(a := None)" by auto
  then show "keep_bucket now (\<lambda>c. (L((fp, a) := None)) (fp, c)) (AList.delete a (bucket fp (rg_by_fp r)))"
    using keep_delete [OF keepsD [OF assms]] by (simp only:)
qed simp

lemma keeps_lookup:
  assumes "keeps now L r"
  shows "keeps now L (snd (rz_lookup fp now r))"
proof (rule keeps_bucket [OF assms])
  show "bucket fp' (rg_by_fp (snd (rz_lookup fp now r))) =
      (if fp' = fp then live_leases now (bucket fp (rg_by_fp r)) else bucket fp' (rg_by_fp r))" for fp'
    unfolding rz_lookup_def Let_def by (simp add: bucket_set live_leases_def [of _ "[]"])
  show "keep_bucket now (\<lambda>c. L (fp, c)) (live_leases now (bucket fp (rg_by_fp r)))"
    by (rule keep_live [OF keepsD [OF assms]])
qed simp

lemma punch_drop_by_fp [simp]: "rg_by_fp (punch_drop fp i r) = rg_by_fp r"
  by (simp add: punch_drop_def)

lemma punch_try_by_fp: "rg_by_fp (snd (snd (punch_try X fp a ws r))) = rg_by_fp r"
  by (induction X fp a ws r rule: punch_try.induct) (simp_all split: reach.split)

lemma keeps_same: "rg_by_fp r' = rg_by_fp r \<Longrightarrow> keeps now L r \<Longrightarrow> keeps now L r'"
  by (simp add: keeps_def)

lemma keeps_step:
  assumes "keeps T L r" and "T \<le> now"
  shows "keeps now (lease_msg (p, now, buf) L) (rz_step X (p, now, buf) r)"
proof -
  note k = keeps_later [OF assms]
  show ?thesis
  proof (cases "max_msg < length buf \<or> (\<exists>e. rz_req_decode buf = Inl e)")
    case True
    with k show ?thesis by (auto simp: lease_msg_def rz_step_def rz_serve_def)
  next
    case False
    then obtain req where req: "\<not> max_msg < length buf" "rz_req_decode buf = Inr req"
      by (cases "rz_req_decode buf") auto
    have step: "rz_step X (p, now, buf) r = snd (snd (rz_answer X p now req r))"
      using req by (simp add: rz_step_def rz_serve_def split: prod.split)
    show ?thesis
      unfolding step using req
      by (cases req) (simp_all add: lease_msg_def rz_answer_def here_def keeps_register [OF k] keeps_unregister [OF k]
          keeps_lookup [OF k] keeps_same [OF _ k] reg_punch_wait_def punch_connect_def punch_try_by_fp case_prod_beta)
  qed
qed

lemma keeps_run:
  assumes "sorted_wrt (\<le>) (map (\<lambda>m. fst (snd m)) ms)" and "\<And>m. m \<in> set ms \<Longrightarrow> T \<le> fst (snd m) \<and> fst (snd m) \<le> now"
    and "keeps T L r" and "T \<le> now"
  shows "keeps now (fold lease_msg ms L) (fold (rz_step X) ms r)"
  using assms
proof (induction ms arbitrary: T L r)
  case Nil
  then show ?case by (auto intro: keeps_later)
next
  case (Cons m ms)
  obtain p t buf where m: "m = (p, t, buf)" by (cases m)
  have "T \<le> t" "t \<le> now" using Cons.prems(2) [of m] m by auto
  with Cons.prems(3) have "keeps t (lease_msg m L) (rz_step X m r)" using keeps_step m by metis
  from Cons.IH [OF _ _ this \<open>t \<le> now\<close>] Cons.prems(1,2) m show ?case by auto
qed

definition leased :: "'c message list \<Rightarrow> string \<Rightarrow> nat \<Rightarrow> sock set" where
  "leased ms fp now = {a. \<exists>e. fold lease_msg ms Map.empty (fp, a) = Some e \<and> now < e}"

lemma lookup_leased:
  assumes "sorted_wrt (\<le>) (map (\<lambda>m. fst (snd m)) ms)" and "\<And>m. m \<in> set ms \<Longrightarrow> fst (snd m) \<le> now"
  shows "set (fst (rz_lookup fp now (fold (rz_step X) ms registry_new))) = leased ms fp now"
    and "distinct (fst (rz_lookup fp now (fold (rz_step X) ms registry_new)))"
    and "sorted (map sock_key (fst (rz_lookup fp now (fold (rz_step X) ms registry_new))))"
proof -
  let ?r = "fold (rz_step X) ms registry_new"
  let ?b = "bucket fp (rg_by_fp ?r)"
  have "keeps now (fold lease_msg ms Map.empty) ?r"
    using keeps_run [OF assms(1) _ keeps_new] assms(2) by simp
  then have k: "keep_bucket now (\<lambda>a. fold lease_msg ms Map.empty (fp, a)) ?b" by (rule keepsD)
  then have d: "distinct (map fst ?b)" by (simp only: keep_bucket_def)
  have "map_of (live_leases now ?b) a \<noteq> None \<longleftrightarrow> (\<exists>e. map_of ?b a = Some e \<and> now < e)" for a
    using map_of_live [OF d, of now a] by (metis not_None_eq)
  also have "(\<exists>e. map_of ?b a = Some e \<and> now < e) \<longleftrightarrow> a \<in> leased ms fp now" for a
    using k unfolding leased_def keep_bucket_def by blast
  finally have "dom (map_of (live_leases now ?b)) = leased ms fp now" unfolding dom_def by blast
  then have "fst ` set (live_leases now ?b) = leased ms fp now" by (simp only: dom_map_of_conv_image_fst)
  moreover have "set (fst (rz_lookup fp now ?r)) = fst ` set (live_leases now ?b)" by (simp add: rz_lookup_def Let_def)
  ultimately show "set (fst (rz_lookup fp now ?r)) = leased ms fp now" by simp
  show "distinct (fst (rz_lookup fp now ?r))" using distinct_live [OF d, of now] by (simp add: rz_lookup_def Let_def)
  show "sorted (map sock_key (fst (rz_lookup fp now ?r)))" by (simp add: rz_lookup_def Let_def)
qed

text \<open>The last word on an address: a registration not taken back, and not run out.\<close>

lemma lease_msg_Some:
  "lease_msg (p, t, buf) L (fp, a) = Some e \<Longrightarrow> L (fp, a) = Some e
     \<or> (\<exists>port. rz_req_decode buf = Inr (RzRegister fp port) \<and> a = here p port \<and> e = t + lease_ns)"
  by (auto simp: lease_msg_def split: if_splits sum.splits rz_req.splits)

lemma leased_by:
  assumes "a \<in> leased ms fp now"
  shows "\<exists>(p, t, buf) \<in> set ms. \<exists>port. rz_req_decode buf = Inr (RzRegister fp port) \<and> a = here p port \<and> now < t + lease_ns"
proof -
  have "fold lease_msg ms Map.empty (fp, a) = Some e \<Longrightarrow>
      \<exists>(p, t, buf) \<in> set ms. \<exists>port. rz_req_decode buf = Inr (RzRegister fp port) \<and> a = here p port \<and> e = t + lease_ns" for e
  proof (induction ms rule: rev_induct)
    case (snoc m ms)
    obtain p t buf where m: "m = (p, t, buf)" by (cases m)
    have "fold lease_msg ms Map.empty (fp, a) = Some e
        \<or> (\<exists>port. rz_req_decode buf = Inr (RzRegister fp port) \<and> a = here p port \<and> e = t + lease_ns)"
      by (rule lease_msg_Some) (use snoc.prems m in simp)
    with snoc.IH m show ?case by fastforce
  qed simp
  with assms show ?thesis by (force simp: leased_def)
qed

subsection \<open>Rosters\<close>

text \<open>
  The waiters of the rendezvous and the bindings of the relay obey one contract: per fingerprint the
  members in the order they came, one for each connection, the latest when a connection joins twice.
  What holds of any sequence of comings and goings is proved once.
\<close>

datatype 'w coming = Joins string 'w | Leaves string nat

definition coming_step ::
  "(string \<Rightarrow> 'w \<Rightarrow> 's \<Rightarrow> 's) \<Rightarrow> (string \<Rightarrow> nat \<Rightarrow> 's \<Rightarrow> 's) \<Rightarrow> 'w coming \<Rightarrow> 's \<Rightarrow> 's" where
  "coming_step join leave ev s = (case ev of Joins fp w \<Rightarrow> join fp w s | Leaves fp i \<Rightarrow> leave fp i s)"

text \<open>Whether an event ends the membership of a connection.\<close>

definition ends :: "('w \<Rightarrow> nat) \<Rightarrow> string \<Rightarrow> nat \<Rightarrow> 'w coming \<Rightarrow> bool" where
  "ends ident fp i ev \<longleftrightarrow>
     (case ev of Joins fp' w \<Rightarrow> fp' = fp \<and> ident w = i | Leaves fp' j \<Rightarrow> fp' = fp \<and> j = i)"

definition present :: "('w \<Rightarrow> nat) \<Rightarrow> string \<Rightarrow> 'w \<Rightarrow> 'w coming list \<Rightarrow> bool" where
  "present ident fp w evs \<longleftrightarrow>
     (\<exists>pre post. evs = pre @ Joins fp w # post \<and> list_all (\<lambda>ev. \<not> ends ident fp (ident w) ev) post)"

locale roster =
  fixes ident :: "'w \<Rightarrow> nat"
    and join :: "string \<Rightarrow> 'w \<Rightarrow> 's \<Rightarrow> 's"
    and leave :: "string \<Rightarrow> nat \<Rightarrow> 's \<Rightarrow> 's"
    and members :: "string \<Rightarrow> 's \<Rightarrow> 'w list"
    and start :: 's
  assumes members_start: "members fp start = []"
    and members_join: "members fp' (join fp w s) =
      (if fp' = fp then filter (\<lambda>v. ident v \<noteq> ident w) (members fp s) @ [w] else members fp' s)"
    and members_leave: "members fp' (leave fp i s) =
      (if fp' = fp then filter (\<lambda>v. ident v \<noteq> i) (members fp s) else members fp' s)"
begin

lemma members_step: "v \<in> set (members fp (coming_step join leave ev s)) \<longleftrightarrow>
    v \<in> set (members fp s) \<and> \<not> ends ident fp (ident v) ev \<or> ev = Joins fp v"
  by (cases ev) (auto simp: coming_step_def members_join members_leave ends_def)

lemma present_snoc: "present ident fp v (evs @ [ev]) \<longleftrightarrow>
    present ident fp v evs \<and> \<not> ends ident fp (ident v) ev \<or> ev = Joins fp v"
proof
  assume "present ident fp v (evs @ [ev])"
  then obtain pre post where p: "evs @ [ev] = pre @ Joins fp v # post"
    "list_all (\<lambda>ev. \<not> ends ident fp (ident v) ev) post" by (auto simp: present_def)
  then show "present ident fp v evs \<and> \<not> ends ident fp (ident v) ev \<or> ev = Joins fp v"
    by (cases post rule: rev_cases) (auto simp: present_def)
next
  assume "present ident fp v evs \<and> \<not> ends ident fp (ident v) ev \<or> ev = Joins fp v"
  then show "present ident fp v (evs @ [ev])"
  proof
    assume *: "present ident fp v evs \<and> \<not> ends ident fp (ident v) ev"
    then obtain pre post where "evs = pre @ Joins fp v # post"
      "list_all (\<lambda>ev. \<not> ends ident fp (ident v) ev) post" by (auto simp: present_def)
    with * show ?thesis unfolding present_def by (intro exI [of _ pre] exI [of _ "post @ [ev]"]) simp
  next
    assume "ev = Joins fp v"
    then show ?thesis unfolding present_def by (intro exI [of _ evs] exI [of _ "[]"]) simp
  qed
qed

lemma members_present:
  "v \<in> set (members fp (fold (coming_step join leave) evs start)) \<longleftrightarrow> present ident fp v evs"
proof (induction evs rule: rev_induct)
  case Nil
  then show ?case by (simp add: members_start present_def)
next
  case (snoc ev evs)
  then show ?case by (simp add: members_step present_snoc)
qed

lemma members_distinct: "distinct (map ident (members fp (fold (coming_step join leave) evs start)))"
proof (induction evs rule: rev_induct)
  case Nil
  then show ?case by (simp add: members_start)
next
  case (snoc ev evs)
  then show ?case
    by (cases ev) (auto simp: coming_step_def members_join members_leave distinct_map_filter)
qed

end

lemma bucket_pending: "bucket fp' (rg_pending (punch_drop fp i r)) =
    (if fp' = fp then filter (\<lambda>v. wt_id v \<noteq> i) (bucket fp (rg_pending r)) else bucket fp' (rg_pending r))"
  unfolding punch_drop_def by (simp add: bucket_set)

interpretation waiting: roster wt_id reg_punch_wait punch_drop punch_waiters registry_new
  by unfold_locales
    (simp_all add: punch_waiters_def registry_new_def bucket_def [of _ "[]"] reg_punch_wait_def bucket_update bucket_pending)

text \<open>
  Introducing two peers: the first waiter that can be reached gets the dialer's address and the dialer
  gets its; those tried before are forgotten; only when none can be reached is there no peer.
\<close>

lemma punch_try_go:
  assumes "punch_try X fp a ws r = (Inr (RzPunchGo b), ps, r')"
  shows "\<exists>dead w rest. ws = dead @ w # rest \<and> list_all (\<lambda>v. X v = NoStream) dead \<and> X w = Delivered
    \<and> b = wt_observed w \<and> ps = [(wt_conn w, RzPunchGo a)] \<and> r' = fold (\<lambda>v. punch_drop fp (wt_id v)) dead r"
  using assms
proof (induction ws arbitrary: r)
  case (Cons w ws)
  show ?case
  proof (cases "X w")
    case NoStream
    with Cons obtain dead v rest where "ws = dead @ v # rest" "list_all (\<lambda>v. X v = NoStream) dead" "X v = Delivered"
      "b = wt_observed v" "ps = [(wt_conn v, RzPunchGo a)]"
      "r' = fold (\<lambda>v. punch_drop fp (wt_id v)) dead (punch_drop fp (wt_id w) r)" by fastforce
    with NoStream show ?thesis by (intro exI [of _ "w # dead"] exI [of _ v] exI [of _ rest]) simp
  next
    case Delivered
    with Cons.prems show ?thesis by (intro exI [of _ "[]"] exI [of _ w] exI [of _ ws]) auto
  qed (use Cons.prems in simp)
qed simp

lemma punch_try_none:
  "fst (punch_try X fp a ws r) = Inr RzPunchNoPeer \<longleftrightarrow> list_all (\<lambda>w. X w = NoStream) ws"
  by (induction X fp a ws r rule: punch_try.induct) (simp_all split: reach.split)

end
