(* ===== verification/Relay.thy ===== *)
theory Relay
  imports Rendezvous
begin

section \<open>The relay\<close>

text \<open>
  \<open>crates/constellation/src/net/relay.rs\<close>: the bindings of serving peers, the control frames and their
  wire, the answer to a control request, and the copying of one direction of a tunnel.  A connection is
  a value of any type with its stable id; whether a stream opens to it is an argument.
\<close>

definition max_ctl :: nat where "max_ctl = 4 * 1024"
definition copy_buf :: nat where "copy_buf = 64 * 1024"

record 'c bound =
  bd_id :: nat
  bd_conn :: 'c

type_synonym 'c bindings = "(string \<times> 'c bound list) list"

definition relay_bind :: "string \<Rightarrow> 'c bound \<Rightarrow> 'c bindings \<Rightarrow> 'c bindings" where
  "relay_bind fp b m = AList.update fp (filter (\<lambda>v. bd_id v \<noteq> bd_id b) (bucket fp m) @ [b]) m"

definition relay_unbind :: "string \<Rightarrow> nat \<Rightarrow> 'c bindings \<Rightarrow> 'c bindings" where
  "relay_unbind fp i m = set_bucket fp (filter (\<lambda>v. bd_id v \<noteq> i) (bucket fp m)) m"

definition relay_peers :: "string \<Rightarrow> 'c bindings \<Rightarrow> 'c bound list" where
  "relay_peers fp m = bucket fp m"

interpretation binding: roster bd_id relay_bind relay_unbind relay_peers "[]"
  by unfold_locales
    (simp_all add: relay_peers_def bucket_def [of _ "[]"] relay_bind_def bucket_update relay_unbind_def bucket_set)

subsection \<open>The wire of the relay\<close>

datatype rl_req = RlBind string | RlConnect string
datatype rl_resp = RlBound | RlConnected | RlNoPeer | RlErr string

definition rl_req_encode :: "rl_req \<Rightarrow> bytes" where
  "rl_req_encode r = (case r of RlBind fp \<Rightarrow> 1 # put_str32 fp | RlConnect fp \<Rightarrow> 2 # put_str32 fp)"

definition rd_rl_req :: "(sync_error, rl_req) reader" where
  "rd_rl_req =
     rd_bind (rd_byte wire_end) (\<lambda>t.
       if t = 1 then rd_bind rd_wire_str (\<lambda>fp. rd_ret (RlBind fp))
       else if t = 2 then rd_bind rd_wire_str (\<lambda>fp. rd_ret (RlConnect fp))
       else rd_fail (SyNet (''bad relay request tag '' @ show_nat (unat t))))"

definition rl_req_decode :: "bytes \<Rightarrow> sync_error + rl_req" where
  "rl_req_decode buf = (case rd_rl_req buf of Inl e \<Rightarrow> Inl e | Inr (r, rest) \<Rightarrow> Inr r)"

definition rl_resp_encode :: "rl_resp \<Rightarrow> bytes" where
  "rl_resp_encode r =
     (case r of RlBound \<Rightarrow> [1] | RlConnected \<Rightarrow> [2] | RlNoPeer \<Rightarrow> [3] | RlErr s \<Rightarrow> 4 # put_str32 s)"

definition rd_rl_resp :: "(sync_error, rl_resp) reader" where
  "rd_rl_resp =
     rd_bind (rd_byte wire_end) (\<lambda>t.
       if t = 1 then rd_ret RlBound
       else if t = 2 then rd_ret RlConnected
       else if t = 3 then rd_ret RlNoPeer
       else if t = 4 then rd_bind rd_wire_str (\<lambda>s. rd_ret (RlErr s))
       else rd_fail (SyNet (''bad relay response tag '' @ show_nat (unat t))))"

definition rl_resp_decode :: "bytes \<Rightarrow> sync_error + rl_resp" where
  "rl_resp_decode buf = (case rd_rl_resp buf of Inl e \<Rightarrow> Inl e | Inr (r, rest) \<Rightarrow> Inr r)"

definition write_ctl :: "bytes \<Rightarrow> sync_error + bytes" where
  "write_ctl bs =
     (if length bs < 2 ^ 32 then Inr (be_bytes 4 (of_nat (length bs) :: u32) @ bs)
      else Inl (SyNet ''out of range integral type conversion attempted''))"

definition read_ctl :: "(sync_error, bytes) reader" where
  "read_ctl =
     rd_bind (rd_be (SyNet ''stream finished early'') 4) (\<lambda>n :: u32.
       if max_ctl < unat n then rd_fail (SyNet ''relay control frame too large'')
       else rd_take (SyNet ''stream finished early'') (unat n))"

definition wf_rl_req :: "rl_req \<Rightarrow> bool" where
  "wf_rl_req r \<longleftrightarrow> wf_str32 (case r of RlBind fp \<Rightarrow> fp | RlConnect fp \<Rightarrow> fp)"

definition wf_rl_resp :: "rl_resp \<Rightarrow> bool" where
  "wf_rl_resp r \<longleftrightarrow> (case r of RlErr s \<Rightarrow> wf_str32 s | _ \<Rightarrow> True)"

interpretation rl_req_codec: prefix_codec rl_req_encode rd_rl_req wf_rl_req
proof
  fix r rest
  assume "wf_rl_req r"
  then show "rd_rl_req (rl_req_encode r @ rest) = Inr (r, rest)"
    by (cases r) (simp_all add: rl_req_encode_def rd_rl_req_def wf_rl_req_def rd_wire_str_def rd_bind_def wire_str)
qed

interpretation rl_resp_codec: prefix_codec rl_resp_encode rd_rl_resp wf_rl_resp
proof
  fix r rest
  assume "wf_rl_resp r"
  then show "rd_rl_resp (rl_resp_encode r @ rest) = Inr (r, rest)"
    by (cases r) (simp_all add: rl_resp_encode_def rd_rl_resp_def wf_rl_resp_def rd_wire_str_def rd_bind_def wire_str)
qed

text \<open>A control frame that fits is read back, and what follows it is left for the tunnel.\<close>

lemma ctl_roundtrip: "length bs \<le> max_ctl \<Longrightarrow> \<exists>fr. write_ctl bs = Inr fr \<and> read_ctl (fr @ rest) = Inr (bs, rest)"
proof -
  assume len: "length bs \<le> max_ctl"
  then have small: "length bs < 2 ^ 32" by (simp add: max_ctl_def)
  have n: "unat (of_nat (length bs) :: u32) = length bs" by (rule unat_of_nat_len) (use small in simp)
  show ?thesis using len small by (simp add: write_ctl_def read_ctl_def codec_simps n)
qed

subsection \<open>A control request\<close>

text \<open>
  What the relay does on the first stream of a connection: it holds a binding until the connection closes
  (\<open>relay_unbind\<close> is that event), or splices the stream to the first serving peer a stream opens to.
\<close>

fun relay_try ::
  "('c bound \<Rightarrow> bool) \<Rightarrow> string \<Rightarrow> 'c bound list \<Rightarrow> 'c bindings \<Rightarrow> rl_resp \<times> 'c bound option \<times> 'c bindings" where
  "relay_try opens fp [] m = (RlNoPeer, None, m)"
| "relay_try opens fp (b # bs) m =
     (if opens b then (RlConnected, Some b, m) else relay_try opens fp bs (relay_unbind fp (bd_id b) m))"

definition serve_control ::
  "('c bound \<Rightarrow> bool) \<Rightarrow> 'c bound \<Rightarrow> rl_req \<Rightarrow> 'c bindings \<Rightarrow> rl_resp \<times> 'c bound option \<times> 'c bindings" where
  "serve_control opens self req m =
     (case req of
        RlBind fp \<Rightarrow> (RlBound, None, relay_bind fp self m)
      | RlConnect fp \<Rightarrow> relay_try opens fp (relay_peers fp m) m)"

lemma relay_try_ok:
  assumes "relay_try opens fp bs m = (resp, to, m')"
  shows "(\<exists>dead b rest. bs = dead @ b # rest \<and> list_all (\<lambda>v. \<not> opens v) dead \<and> opens b
        \<and> resp = RlConnected \<and> to = Some b \<and> m' = fold (\<lambda>v. relay_unbind fp (bd_id v)) dead m)
    \<or> list_all (\<lambda>v. \<not> opens v) bs \<and> resp = RlNoPeer \<and> to = None
        \<and> m' = fold (\<lambda>v. relay_unbind fp (bd_id v)) bs m"
  using assms
proof (induction bs arbitrary: m)
  case (Cons b bs)
  show ?case
  proof (cases "opens b")
    case True
    with Cons.prems show ?thesis by (intro disjI1 exI [of _ "[]"] exI [of _ b] exI [of _ bs]) auto
  next
    case False
    with Cons.prems have "relay_try opens fp bs (relay_unbind fp (bd_id b) m) = (resp, to, m')" by simp
    from Cons.IH [OF this] show ?thesis
    proof (elim disjE exE conjE)
      fix dead v rest
      assume "bs = dead @ v # rest" "list_all (\<lambda>v. \<not> opens v) dead" "opens v" "resp = RlConnected" "to = Some v"
        "m' = fold (\<lambda>v. relay_unbind fp (bd_id v)) dead (relay_unbind fp (bd_id b) m)"
      with False show ?thesis by (intro disjI1 exI [of _ "b # dead"] exI [of _ v] exI [of _ rest]) simp
    qed (use False in simp)
  qed
qed simp

subsection \<open>The tunnel\<close>

text \<open>
  One direction: every read, of at most a buffer, is written on, until the source ends (no more reads)
  or a write fails.  A read gives the next bytes of the stream, never none.
\<close>

fun pump :: "bytes list \<Rightarrow> bool list \<Rightarrow> bytes" where
  "pump [] oks = []"
| "pump (r # rs) [] = []"
| "pump (r # rs) (ok # oks) = (if ok then r @ pump rs oks else [])"

lemma pump_prefix: "prefix (pump rs oks) (concat rs)"
  by (induction rs oks rule: pump.induct) auto

lemma pump_all: "list_all (\<lambda>ok. ok) oks \<Longrightarrow> length rs \<le> length oks \<Longrightarrow> pump rs oks = concat rs"
  by (induction rs oks rule: pump.induct) auto

subsection \<open>The dialer and the serving peer\<close>

definition relay_unexpected :: "rl_resp \<Rightarrow> sync_error" where
  "relay_unexpected r = SyNet (case r of RlErr s \<Rightarrow> s | _ \<Rightarrow> ''unexpected reply from relay'')"

text \<open>Both sides read one control frame; the dialer's stream goes on as the tunnel.\<close>

definition relay_bound :: "bytes \<Rightarrow> sync_error + unit" where
  "relay_bound stream =
     res_bind (read_ctl stream) (\<lambda>(frame, rest).
     res_bind (rl_resp_decode frame) (\<lambda>r. case r of RlBound \<Rightarrow> Inr () | other \<Rightarrow> Inl (relay_unexpected other)))"

definition relay_connected :: "bytes \<Rightarrow> sync_error + bytes" where
  "relay_connected stream =
     res_bind (read_ctl stream) (\<lambda>(frame, rest).
     res_bind (rl_resp_decode frame) (\<lambda>r.
       case r of
         RlConnected \<Rightarrow> Inr rest
       | RlNoPeer \<Rightarrow> Inl (SyNet ''relay has no peer of this identity'')
       | other \<Rightarrow> Inl (relay_unexpected other)))"

end
