(* ===== verification/Meeting.thy ===== *)
theory Meeting
  imports Relay
begin

section \<open>Two peers that meet\<close>

definition meet_peer :: "nat peer_conn" where
  "meet_peer = \<lparr>pc_conn = 1, pc_id = 1, pc_observed = \<lparr>so_ip = IpV4 [10, 0, 0, 7], so_port = 4001\<rparr>\<rparr>"

definition meet_dialer :: "nat peer_conn" where
  "meet_dialer = \<lparr>pc_conn = 2, pc_id = 2, pc_observed = \<lparr>so_ip = IpV4 [10, 0, 0, 9], so_port = 4002\<rparr>\<rparr>"

definition meet_msgs :: "nat message list" where
  "meet_msgs = [(meet_peer, 5, rz_req_encode (RzRegister ''ab'' 7777))]"

lemma meet_fp: "wf_str32 ''ab''"
  by (simp add: wf_str32_def len32_def utf8_str_ascii ascii_str_def)

lemma meet_leased: "leased meet_msgs ''ab'' 10 = {\<lparr>so_ip = IpV4 [10, 0, 0, 7], so_port = 7777\<rparr>}"
proof -
  have "rz_req_decode (rz_req_encode (RzRegister ''ab'' 7777)) = Inr (RzRegister ''ab'' 7777)"
    by (rule rz_req_decode_encode) (simp add: wf_rz_req_def meet_fp)
  moreover have "length (rz_req_encode (RzRegister ''ab'' 7777)) \<le> max_msg"
    by (simp add: rz_req_encode_def put_str32_def put_bytes32_def max_msg_def)
  ultimately show ?thesis
    by (auto simp: leased_def meet_msgs_def lease_msg_def here_def meet_peer_def lease_ns_def split: if_splits)
qed

definition meet_bindings :: "nat bound coming list" where
  "meet_bindings = [Joins ''ab'' \<lparr>bd_id = 3, bd_conn = 3\<rparr>, Joins ''ab'' \<lparr>bd_id = 4, bd_conn = 4\<rparr>]"

lemma meet_present: "present bd_id ''ab'' \<lparr>bd_id = 4, bd_conn = 4\<rparr> meet_bindings"
  unfolding present_def meet_bindings_def
  by (intro exI [of _ "[Joins ''ab'' \<lparr>bd_id = 3, bd_conn = 3\<rparr>]"] exI [of _ "[]"]) simp

section \<open>What a meeting point promises\<close>

text \<open>C25.  A lookup reports the leases: whatever messages came before it, of whatever peers, in the order of
  their clock readings, the reply lists exactly the addresses whose last registration under the
  fingerprint was not taken back and is younger than a lease, each once and in order; each is the
  address its own host was seen at, so nobody is registered by another; and the client reads that list
  back when the reply fits its limit.\<close>

theorem lookup_reports_leases:
  assumes "sorted_wrt (\<le>) (map (\<lambda>m. fst (snd m)) ms)" and "\<forall>m \<in> set ms. fst (snd m) \<le> now"
    and "\<forall>m \<in> set ms. ip_ok (so_ip (pc_observed (fst m)))"
    and "wf_str32 fp" and "length fp < 60000"
    and "rz_serve X p now (rz_req_encode (RzLookup fp)) (fold (rz_step X) ms registry_new) = (reply, ps, r')"
  shows "\<exists>as. reply = Inr (rz_resp_encode (RzAddrs as)) \<and> distinct as \<and> sorted (map sock_key as)
    \<and> set as = leased ms fp now
    \<and> (\<forall>a \<in> set as. \<exists>(q, t, buf) \<in> set ms. \<exists>port. rz_req_decode buf = Inr (RzRegister fp port)
         \<and> a = \<lparr>so_ip = so_ip (pc_observed q), so_port = port\<rparr> \<and> now < t + lease_ns)
    \<and> (length (rz_resp_encode (RzAddrs as)) \<le> max_msg \<longrightarrow> client_lookup (rz_resp_encode (RzAddrs as)) = Inr as)"
proof -
  let ?r = "fold (rz_step X) ms registry_new"
  let ?as = "fst (rz_lookup fp now ?r)"
  have dec: "rz_req_decode (rz_req_encode (RzLookup fp)) = Inr (RzLookup fp)"
    by (rule rz_req_decode_encode) (use assms(4) in \<open>simp add: wf_rz_req_def\<close>)
  have short: "\<not> max_msg < length (rz_req_encode (RzLookup fp))"
    using assms(5) by (simp add: rz_req_encode_def put_str32_def put_bytes32_def max_msg_def)
  have reply: "reply = Inr (rz_resp_encode (RzAddrs ?as))"
    using assms(6) dec short by (simp add: rz_serve_def rz_answer_def case_prod_beta Let_def)
  note looked = lookup_leased [OF assms(1) bspec [OF assms(2)], of fp X]
  have origin: "\<exists>(q, t, buf) \<in> set ms. \<exists>port. rz_req_decode buf = Inr (RzRegister fp port)
      \<and> a = \<lparr>so_ip = so_ip (pc_observed q), so_port = port\<rparr> \<and> now < t + lease_ns" if "a \<in> set ?as" for a
    using leased_by [of a ms fp now] that looked(1) by (simp add: here_def)
  have "client_lookup (rz_resp_encode (RzAddrs ?as)) = Inr ?as" if "length (rz_resp_encode (RzAddrs ?as)) \<le> max_msg"
  proof -
    have "list_all sock_ok ?as"
      using origin assms(3) by (fastforce simp: list_all_iff sock_ok_def)
    moreover have "len32 ?as"
    proof -
      have "length as \<le> length (concat (map put_addr as))" for as
        by (induction as) (auto simp: put_addr_def split: ip.split)
      from this [of ?as] that show ?thesis by (simp add: rz_resp_encode_def len32_def max_msg_def)
    qed
    ultimately show ?thesis
      using that by (simp add: client_lookup_def rz_call_def rz_resp_decode_encode wf_rz_resp_def)
  qed
  with reply looked origin show ?thesis by blast
qed

theorem lookup_reports_leases_witness:
  "\<exists>as r'. rz_serve (\<lambda>_. NoStream) meet_dialer 10 (rz_req_encode (RzLookup ''ab''))
      (fold (rz_step (\<lambda>_. NoStream)) meet_msgs registry_new) = (Inr (rz_resp_encode (RzAddrs as)), r')
    \<and> set as = {\<lparr>so_ip = IpV4 [10, 0, 0, 7], so_port = 7777\<rparr>}"
proof -
  obtain reply ps r' where run: "rz_serve (\<lambda>_. NoStream) meet_dialer 10 (rz_req_encode (RzLookup ''ab''))
      (fold (rz_step (\<lambda>_. NoStream)) meet_msgs registry_new) = (reply, ps, r')" by (metis prod_cases3)
  have "\<exists>as. reply = Inr (rz_resp_encode (RzAddrs as)) \<and> set as = leased meet_msgs ''ab'' 10"
    using lookup_reports_leases [OF _ _ _ meet_fp _ run] by (auto simp: meet_msgs_def meet_peer_def ip_ok_def)
  with run show ?thesis by (auto simp: meet_leased)
qed

text \<open>C26.  The relay joins a dialer to a serving peer that is bound: after any comings and goings, a connect is
  spliced to a peer whose latest binding under that very fingerprint has not been withdrawn and to which
  a stream opens, the dialer reads the acknowledgement and keeps the rest of the stream as its tunnel;
  it is told there is nobody only when no such peer is left; and no peer that can be reached is dropped.\<close>

theorem relay_joins_identity:
  assumes "serve_control opens self (RlConnect fp) (fold (coming_step relay_bind relay_unbind) evs []) = (resp, to, m')"
    and "write_ctl (rl_resp_encode resp) = Inr frame"
  shows "(case to of
       Some b \<Rightarrow> present bd_id fp b evs \<and> opens b \<and> relay_connected (frame @ rest) = Inr rest
     | None \<Rightarrow> (\<forall>b. present bd_id fp b evs \<longrightarrow> \<not> opens b)
         \<and> relay_connected (frame @ rest) = Inl (SyNet ''relay has no peer of this identity''))
    \<and> (\<forall>b. present bd_id fp b evs \<longrightarrow> opens b \<longrightarrow> b \<in> set (relay_peers fp m'))"
proof -
  let ?m = "fold (coming_step relay_bind relay_unbind) evs []"
  let ?bs = "relay_peers fp ?m"
  have run: "relay_try opens fp ?bs ?m = (resp, to, m')" using assms(1) by (simp add: serve_control_def)
  have mem: "b \<in> set ?bs \<longleftrightarrow> present bd_id fp b evs" for b by (rule binding.members_present)
  have ids: "distinct (map bd_id ?bs)" by (rule binding.members_distinct)
  have gone: "set (relay_peers fp (fold (\<lambda>v. relay_unbind fp (bd_id v)) ds m)) = {b \<in> set (relay_peers fp m). bd_id b \<notin> bd_id ` set ds}" for ds m
    by (induction ds arbitrary: m) (auto simp: binding.members_leave)
  have reply: "relay_connected (frame @ rest) = (case resp of RlConnected \<Rightarrow> Inr rest
      | RlNoPeer \<Rightarrow> Inl (SyNet ''relay has no peer of this identity'') | other \<Rightarrow> Inl (relay_unexpected other))"
    if "wf_rl_resp resp" "length (rl_resp_encode resp) \<le> max_ctl"
  proof -
    from ctl_roundtrip [OF that(2)] assms(2) have "read_ctl (frame @ rest) = Inr (rl_resp_encode resp, rest)" by auto
    moreover have "rl_resp_decode (rl_resp_encode resp) = Inr resp"
      using that(1) by (simp add: rl_resp_decode_def rl_resp_codec.dec_enc_all)
    ultimately show ?thesis by (simp add: relay_connected_def)
  qed
  from relay_try_ok [OF run] show ?thesis
  proof (elim disjE exE conjE)
    fix dead b bs
    assume split: "?bs = dead @ b # bs" and dead: "list_all (\<lambda>v. \<not> opens v) dead" and b: "opens b"
      and r: "resp = RlConnected" "to = Some b" "m' = fold (\<lambda>v. relay_unbind fp (bd_id v)) dead ?m"
    have "v \<in> set (relay_peers fp m')" if "present bd_id fp v evs" "opens v" for v
    proof -
      have "v \<in> set ?bs" using mem that(1) by simp
      have inj: "inj_on bd_id (set ?bs)" using ids by (simp only: distinct_map)
      have "bd_id v \<notin> bd_id ` set dead"
      proof
        assume "bd_id v \<in> bd_id ` set dead"
        then obtain d where d: "d \<in> set dead" "bd_id v = bd_id d" by blast
        moreover from this have "d \<in> set ?bs" using split by simp
        ultimately have "v = d" using inj_onD [OF inj _ \<open>v \<in> set ?bs\<close>] by simp
        with d dead that(2) show False by (simp add: list_all_iff)
      qed
      with \<open>v \<in> set ?bs\<close> show ?thesis by (simp add: r(3) gone)
    qed
    moreover have "b \<in> set ?bs" using split by simp
    ultimately show ?thesis using r(1,2) b mem reply by (simp add: wf_rl_resp_def rl_resp_encode_def max_ctl_def)
  next
    assume dead: "list_all (\<lambda>v. \<not> opens v) ?bs" and r: "resp = RlNoPeer" "to = None"
    then show ?thesis using mem reply by (auto simp: list_all_iff wf_rl_resp_def rl_resp_encode_def max_ctl_def)
  qed
qed

theorem relay_joins_identity_witness:
  "\<exists>to m' frame. serve_control (\<lambda>b. bd_id b = 4) \<lparr>bd_id = 9, bd_conn = 9\<rparr> (RlConnect ''ab'')
      (fold (coming_step relay_bind relay_unbind) meet_bindings []) = (RlConnected, to, m')
    \<and> to = Some \<lparr>bd_id = 4, bd_conn = 4\<rparr> \<and> relay_connected (frame @ [1, 2]) = Inr [1, 2]"
proof -
  have run: "serve_control (\<lambda>b. bd_id b = 4) \<lparr>bd_id = 9, bd_conn = 9\<rparr> (RlConnect ''ab'')
      (fold (coming_step relay_bind relay_unbind) meet_bindings [])
      = (RlConnected, Some \<lparr>bd_id = 4, bd_conn = 4\<rparr>, [(''ab'', [\<lparr>bd_id = 4, bd_conn = 4 :: nat\<rparr>])])"
    by (simp add: serve_control_def meet_bindings_def coming_step_def relay_bind_def relay_unbind_def relay_peers_def
        bucket_def set_bucket_def)
  have "write_ctl (rl_resp_encode RlConnected) = Inr (be_bytes 4 (1 :: u32) @ [2])"
    by (simp add: write_ctl_def rl_resp_encode_def)
  from relay_joins_identity [OF run this, of "[1, 2]"]
  have "relay_connected ((be_bytes 4 (1 :: u32) @ [2]) @ [1, 2]) = Inr [1, 2]" by (simp only: option.case)
  with run show ?thesis by (intro exI conjI) (assumption, rule refl, assumption)
qed

end
