(* ===== verification/KeyErrors.thy ===== *)
theory KeyErrors
  imports Strings
begin

section \<open>Errors of the key builder\<close>

text \<open>\<open>crates/keybuild/src/error.rs\<close>: the errors and their texts.  The text of an input or output error
  is that of the system, and the code a tool exits with is an \<open>i32\<close>.\<close>

datatype kb_error =
    KbIo string
  | KbNotAFile string
  | KbTool string "int option" string
  | KbMissing string
  | KbUnknownModules "string list"
  | KbNoKernelVersion
  | KbNoImage string
  | KbBadName string
  | KbIncompleteEsp
  | KbNotAnEfiBinary string
  | KbUnknownEfiMachine u16
  | KbEspFull u64 u64
  | KbEspTooSmall u64
  | KbCpio string
  | KbNoInitBin
  | KbProvision string

definition show_int :: "int \<Rightarrow> string" where
  "show_int i = (if i < 0 then ''-'' @ show_nat (nat (- i)) else show_nat (nat i))"

definition debug_opt_int :: "int option \<Rightarrow> string" where
  "debug_opt_int c = (case c of None \<Rightarrow> ''None'' | Some i \<Rightarrow> ''Some('' @ show_int i @ '')'')"

definition hex_lower :: "nat \<Rightarrow> nat \<Rightarrow> string" where
  "hex_lower k n = map (\<lambda>i. digit_char (n div 16 ^ i mod 16)) (rev [0..<k])"

definition kb_error_text :: "kb_error \<Rightarrow> string" where
  "kb_error_text e =
     (case e of
        KbIo s \<Rightarrow> ''io: '' @ s
      | KbNotAFile p \<Rightarrow> ''not a file: '' @ to_string_lossy p
      | KbTool name code err \<Rightarrow> name @ '' failed (exit '' @ debug_opt_int code @ ''): '' @ err
      | KbMissing name \<Rightarrow> name @ '' is not installed''
      | KbUnknownModules ms \<Rightarrow> ''modules not found in the kernel's modules.dep: '' @ join_with '', '' ms
      | KbNoKernelVersion \<Rightarrow> ''a kernel version is required to install modules''
      | KbNoImage p \<Rightarrow> ''partition image not found (build it first): '' @ to_string_lossy p
      | KbBadName s \<Rightarrow> ''not a usable FAT name: '' @ s
      | KbIncompleteEsp \<Rightarrow> ''a bootable ESP needs both a kernel and a bootloader''
      | KbNotAnEfiBinary p \<Rightarrow> ''not a PE/COFF EFI binary: '' @ to_string_lossy p
      | KbUnknownEfiMachine m \<Rightarrow> ''unsupported EFI machine type 0x'' @ hex_lower 4 (unat m)
      | KbEspFull needed available \<Rightarrow>
          ''ESP contents do not fit: need '' @ show_nat (unat needed) @ '' clusters, partition holds ''
            @ show_nat (unat available)
      | KbEspTooSmall n \<Rightarrow> ''ESP is too small to format as FAT: '' @ show_nat (unat n) @ '' bytes''
      | KbCpio s \<Rightarrow> ''cpio: '' @ s
      | KbNoInitBin \<Rightarrow> ''an init binary is required to build the initramfs''
      | KbProvision s \<Rightarrow> ''provision: '' @ s)"

end
