(* ===== verification/Cpio.thy ===== *)
theory Cpio
  imports KeyErrors Lifestream
begin

section \<open>The initramfs archive\<close>

text \<open>
  \<open>crates/keybuild/src/cpio.rs\<close>: the tree of an initramfs, its writer and its reader.  A \<open>BTreeMap\<close> is
  the list of its entries in the order of their keys.  The writer carries the bytes written so far and
  the next inode; the reader works on positions of the whole archive, as the code does.
\<close>

definition cpio_magic :: bytes where "cpio_magic = str_bytes ''070701''"
definition trailer :: string where "trailer = ''TRAILER!!!''"
definition header_len :: nat where "header_len = 6 + 13 * 8"

definition s_ifmt :: u32 where "s_ifmt = 0xF000"
definition s_ifdir :: u32 where "s_ifdir = 0x4000"
definition s_ifreg :: u32 where "s_ifreg = 0x8000"
definition s_iflnk :: u32 where "s_iflnk = 0xA000"
definition s_ifchr :: u32 where "s_ifchr = 0x2000"
definition s_ifblk :: u32 where "s_ifblk = 0x6000"
definition ino_base :: u32 where "ino_base = 721"
definition default_dir_mode :: u32 where "default_dir_mode = 0x1ED"

text \<open>The permission bits, \<open>0o7777\<close>.\<close>

definition perm_bits :: u32 where "perm_bits = 0xFFF"

datatype cpio_node_kind = NkChar | NkBlock

definition kind_ifmt :: "cpio_node_kind \<Rightarrow> u32" where
  "kind_ifmt k = (case k of NkChar \<Rightarrow> s_ifchr | NkBlock \<Rightarrow> s_ifblk)"

datatype cpio_entry =
    EnDir string u32
  | EnFile string u32 bytes
  | EnLink string string
  | EnDev string u32 cpio_node_kind u32 u32

datatype cpio_node =
    CDir u32 "(string \<times> cpio_node) list"
  | CFile u32 bytes
  | CLink string
  | CDev u32 u32 u32 u32

text \<open>The tree is its root directory, whose mode no operation reads.\<close>

type_synonym cpio_tree = "(string \<times> cpio_node) list"

definition cpio_new :: cpio_tree where
  "cpio_new = []"

subsection \<open>Building the tree\<close>

fun bt_insert :: "'k::linorder \<Rightarrow> 'v \<Rightarrow> ('k \<times> 'v) list \<Rightarrow> ('k \<times> 'v) list" where
  "bt_insert k v [] = [(k, v)]"
| "bt_insert k v ((k', v') # m) =
     (if k < k' then (k, v) # (k', v') # m
      else if k = k' then (k, v) # m
      else (k', v') # bt_insert k v m)"

definition cpio_components :: "string \<Rightarrow> kb_error + string list" where
  "cpio_components path =
     (let parts = filter (\<lambda>p. p \<noteq> []) (split_on CHR ''/'' path)
      in if parts = [] \<or> list_ex (\<lambda>p. p = ''.'' \<or> p = ''..'') parts
         then Inl (KbCpio ''empty or non-relative path'') else Inr parts)"

text \<open>Walk to a directory, making what is missing, and change its entries.\<close>

fun dir_at :: "string list \<Rightarrow> (cpio_tree \<Rightarrow> cpio_tree) \<Rightarrow> cpio_tree \<Rightarrow> kb_error + cpio_tree" where
  "dir_at [] f t = Inr (f t)"
| "dir_at (d # ds) f t =
     (case (case map_of t d of None \<Rightarrow> CDir default_dir_mode [] | Some n \<Rightarrow> n) of
        CDir m sub \<Rightarrow> res_bind (dir_at ds f sub) (\<lambda>sub'. Inr (bt_insert d (CDir m sub') t))
      | _ \<Rightarrow> Inl (KbCpio ''path runs through a non-directory''))"

definition cpio_put :: "string \<Rightarrow> cpio_node \<Rightarrow> cpio_tree \<Rightarrow> kb_error + cpio_tree" where
  "cpio_put path node t =
     res_bind (cpio_components path) (\<lambda>parts. dir_at (butlast parts) (bt_insert (last parts) node) t)"

definition cpio_mkdir :: "string \<Rightarrow> cpio_tree \<Rightarrow> kb_error + cpio_tree" where
  "cpio_mkdir path t = res_bind (cpio_components path) (\<lambda>parts. dir_at parts (\<lambda>es. es) t)"

definition insert_file :: "string \<Rightarrow> bytes \<Rightarrow> u32 \<Rightarrow> cpio_tree \<Rightarrow> kb_error + cpio_tree" where
  "insert_file path bs mode t = cpio_put path (CFile (mode AND perm_bits) bs) t"

definition cpio_symlink :: "string \<Rightarrow> string \<Rightarrow> cpio_tree \<Rightarrow> kb_error + cpio_tree" where
  "cpio_symlink path target t = cpio_put path (CLink target) t"

definition cpio_device ::
  "string \<Rightarrow> u32 \<Rightarrow> cpio_node_kind \<Rightarrow> u32 \<Rightarrow> u32 \<Rightarrow> cpio_tree \<Rightarrow> kb_error + cpio_tree" where
  "cpio_device path mode k major minor t =
     cpio_put path (CDev (mode AND perm_bits) (kind_ifmt k) major minor) t"

subsection \<open>Writing\<close>

type_synonym archive = "bytes \<times> u32"

definition hex_upper :: bytes where "hex_upper = str_bytes ''0123456789ABCDEF''"

definition push_hex8 :: "u32 \<Rightarrow> bytes" where
  "push_hex8 v = map (\<lambda>k. hex_upper ! unat (drop_bit (k * 4) v AND 0xF)) (rev [0..<8])"

function pad4 :: "bytes \<Rightarrow> bytes" where
  "pad4 out = (if 4 dvd length out then out else pad4 (out @ [0]))"
  by auto
termination by (relation "measure (\<lambda>out. 3 - (length out + 3) mod 4)") (auto, presburger)

declare pad4.simps [simp del]

definition write_record ::
  "string \<Rightarrow> u32 \<Rightarrow> u32 \<Rightarrow> u32 \<Rightarrow> u32 \<Rightarrow> bytes \<Rightarrow> archive \<Rightarrow> archive" where
  "write_record name mode nlink rdevmajor rdevminor content arch =
     (case arch of (out, ino) \<Rightarrow>
       (pad4 (pad4 (out @ cpio_magic @ push_hex8 ino @ push_hex8 mode @ push_hex8 0 @ push_hex8 0
           @ push_hex8 nlink @ push_hex8 0 @ push_hex8 (of_nat (length content)) @ push_hex8 0 @ push_hex8 0
           @ push_hex8 rdevmajor @ push_hex8 rdevminor @ push_hex8 (of_nat (length name) + 1) @ push_hex8 0
           @ str_bytes name @ [0]) @ content),
        ino + 1))"

definition child_path :: "string \<Rightarrow> string \<Rightarrow> string" where
  "child_path path name = (if path = [] then name else path @ ''/'' @ name)"

fun write_node :: "string \<Rightarrow> cpio_node \<Rightarrow> archive \<Rightarrow> archive" where
  "write_node path (CDir mode es) arch =
     fold (\<lambda>(name, n). write_node (child_path path name) n) es
       (if path \<noteq> [] then write_record path (s_ifdir OR mode) 2 0 0 [] arch else arch)"
| "write_node path (CFile mode bs) arch = write_record path (s_ifreg OR mode) 1 0 0 bs arch"
| "write_node path (CLink target) arch = write_record path (s_iflnk OR 0x1FF) 1 0 0 (str_bytes target) arch"
| "write_node path (CDev mode ifmt major minor) arch = write_record path (ifmt OR mode) 1 major minor [] arch"

definition cpio_write :: "cpio_tree \<Rightarrow> bytes" where
  "cpio_write t =
     fst (write_record trailer 0 1 0 0 [] (write_node [] (CDir default_dir_mode t) ([], ino_base)))"

subsection \<open>Reading\<close>

definition align4 :: "nat \<Rightarrow> nat" where
  "align4 n = (n + 3) div 4 * 4"

definition parse_hex8 :: "bytes \<Rightarrow> kb_error + u32" where
  "parse_hex8 field =
     (case from_utf8 field of
        None \<Rightarrow> Inl (KbCpio ''non-ascii field'')
      | Some s \<Rightarrow> ok_or (KbCpio ''non-hex field'') (map_option of_nat (parse_radix 16 (2 ^ 32) s)))"

definition slice :: "nat \<Rightarrow> nat \<Rightarrow> 'a list \<Rightarrow> 'a list" where
  "slice a b bs = take (b - a) (drop a bs)"

record cpio_rec =
  cr_name :: string
  cr_mode :: u32
  cr_major :: u32
  cr_minor :: u32
  cr_data :: bytes

definition read_record :: "bytes \<Rightarrow> nat \<Rightarrow> kb_error + cpio_rec \<times> nat" where
  "read_record bs pos =
     (let field = (\<lambda>i. parse_hex8 (slice (pos + 6 + i * 8) (pos + 6 + i * 8 + 8) bs)) in
      if length bs < pos + header_len then Inl (KbCpio ''truncated header'')
      else if slice pos (pos + 6) bs \<noteq> cpio_magic then Inl (KbCpio ''bad magic'')
      else
        res_bind (field 1) (\<lambda>mode. res_bind (field 6) (\<lambda>filesize.
        res_bind (field 9) (\<lambda>major. res_bind (field 10) (\<lambda>minor. res_bind (field 11) (\<lambda>namesize.
          let name_start = pos + header_len; name_end = name_start + unat namesize;
              data_start = align4 name_end; data_end = data_start + unat filesize in
          if length bs < name_end \<or> namesize = 0 then Inl (KbCpio ''truncated name'')
          else
            (case from_utf8 (slice name_start (name_end - 1) bs) of
               None \<Rightarrow> Inl (KbCpio ''non-utf8 name'')
             | Some name \<Rightarrow>
                 if length bs < data_end then Inl (KbCpio ''truncated data'')
                 else Inr (\<lparr>cr_name = name, cr_mode = mode, cr_major = major, cr_minor = minor,
                            cr_data = slice data_start data_end bs\<rparr>, align4 data_end))))))))"

definition cpio_read_entry :: "cpio_rec \<Rightarrow> kb_error + cpio_entry" where
  "cpio_read_entry r =
     (let ty = cr_mode r AND s_ifmt; perm = cr_mode r AND perm_bits in
      if ty = s_ifdir then Inr (EnDir (cr_name r) perm)
      else if ty = s_iflnk then
        (case from_utf8 (cr_data r) of
           None \<Rightarrow> Inl (KbCpio ''non-utf8 symlink target'')
         | Some target \<Rightarrow> Inr (EnLink (cr_name r) target))
      else if ty = s_ifchr \<or> ty = s_ifblk then
        Inr (EnDev (cr_name r) perm (if ty = s_ifchr then NkChar else NkBlock) (cr_major r) (cr_minor r))
      else Inr (EnFile (cr_name r) perm (cr_data r)))"

lemma res_bind_cong [fundef_cong]:
  "r = r' \<Longrightarrow> (\<And>x. r' = Inr x \<Longrightarrow> f x = f' x) \<Longrightarrow> res_bind r f = res_bind r' f'"
  by (cases r') auto

lemma read_record_moves: "read_record bs pos = Inr (r, pos') \<Longrightarrow> pos < length bs \<and> pos < pos'"
  by (auto simp: read_record_def Let_def header_len_def align4_def res_bind_Inr_iff split: if_splits option.splits)

function read_from :: "bytes \<Rightarrow> nat \<Rightarrow> kb_error + cpio_entry list" where
  "read_from bs pos =
     res_bind (read_record bs pos) (\<lambda>(r, pos').
       if cr_name r = trailer then Inr []
       else res_bind (cpio_read_entry r) (\<lambda>e. res_bind (read_from bs pos') (\<lambda>es. Inr (e # es))))"
  by auto
termination
  by (relation "measure (\<lambda>(bs, pos). length bs - pos)") (auto dest!: read_record_moves)

declare read_from.simps [simp del]

definition cpio_read :: "bytes \<Rightarrow> kb_error + cpio_entry list" where
  "cpio_read bs = read_from bs 0"

subsection \<open>Fields and padding\<close>

lemma pad4_form: "\<exists>k. pad4 out = out @ replicate k 0"
proof (induction out rule: pad4.induct)
  case (1 out)
  show ?case
  proof (cases "4 dvd length out")
    case True
    then show ?thesis by (auto simp: pad4.simps [of out] intro: exI [of _ 0])
  next
    case False
    with 1 obtain k where "pad4 (out @ [0]) = (out @ [0]) @ replicate k 0" by blast
    with False show ?thesis by (auto simp: pad4.simps [of out] intro: exI [of _ "Suc k"])
  qed
qed

lemma pad4_aligned [simp]: "4 dvd length (pad4 out)"
  by (induction out rule: pad4.induct) (subst pad4.simps, simp)

lemma align4_step: "\<not> 4 dvd n \<Longrightarrow> align4 (Suc n) = align4 n"
  unfolding align4_def by presburger

lemma align4_id: "4 dvd n \<Longrightarrow> align4 n = n"
  unfolding align4_def by presburger

lemma align4_add: "4 dvd m \<Longrightarrow> align4 (m + n) = m + align4 n"
  unfolding align4_def by presburger

lemma align4_le: "n \<le> align4 n"
  unfolding align4_def by presburger

lemma length_pad4: "length (pad4 out) = align4 (length out)"
proof (induction out rule: pad4.induct)
  case (1 out)
  then show ?case by (cases "4 dvd length out") (simp_all add: pad4.simps [of out] align4_id align4_step)
qed

lemma pad4_append: "4 dvd length out \<Longrightarrow> pad4 (out @ x) = out @ pad4 x"
proof (induction x rule: pad4.induct)
  case (1 x)
  then have "4 dvd length (out @ x) \<longleftrightarrow> 4 dvd length x" by (simp add: dvd_add_right_iff)
  with 1 show ?case by (simp add: pad4.simps [of x] pad4.simps [of "out @ x"])
qed

lemma slice_skip: "length xs \<le> a \<Longrightarrow> slice a b (xs @ ys) = slice (a - length xs) (b - length xs) ys"
  by (simp add: slice_def)

definition hex_char :: "nat \<Rightarrow> char" where
  "hex_char n = char_of (unat (hex_upper ! n))"

lemma hex_upper_cases: "n < 16 \<Longrightarrow> P (0::nat) \<Longrightarrow> P 1 \<Longrightarrow> P 2 \<Longrightarrow> P 3 \<Longrightarrow> P 4 \<Longrightarrow> P 5 \<Longrightarrow> P 6 \<Longrightarrow> P 7 \<Longrightarrow> P 8 \<Longrightarrow> P 9
    \<Longrightarrow> P 10 \<Longrightarrow> P 11 \<Longrightarrow> P 12 \<Longrightarrow> P 13 \<Longrightarrow> P 14 \<Longrightarrow> P 15 \<Longrightarrow> P n"
proof -
  assume "n < 16"
  then have "n \<in> set [0..<16]" by simp
  moreover have "[0..<16] = [0, 1, 2, 3, 4, 5, 6, 7, 8, 9, 10, 11, 12, 13, 14, 15 :: nat]" by code_simp
  ultimately have "n \<in> set [0, 1, 2, 3, 4, 5, 6, 7, 8, 9, 10, 11, 12, 13, 14, 15]" by metis
  then show "P 0 \<Longrightarrow> P 1 \<Longrightarrow> P 2 \<Longrightarrow> P 3 \<Longrightarrow> P 4 \<Longrightarrow> P 5 \<Longrightarrow> P 6 \<Longrightarrow> P 7 \<Longrightarrow> P 8 \<Longrightarrow> P 9
    \<Longrightarrow> P 10 \<Longrightarrow> P 11 \<Longrightarrow> P 12 \<Longrightarrow> P 13 \<Longrightarrow> P 14 \<Longrightarrow> P 15 \<Longrightarrow> P n" by auto
qed

lemma hex_upper_ascii: "n < 16 \<Longrightarrow> unat (hex_upper ! n) < 128"
  by (rule hex_upper_cases) (simp_all add: hex_upper_def str_bytes_def)

lemma digit_val_hex_char: "n < 16 \<Longrightarrow> digit_val 16 (hex_char n) = Some n"
  by (rule hex_upper_cases [of n]) (simp_all add: hex_char_def hex_upper_def str_bytes_def digit_val_def Let_def)

lemma digits_val_hex: "digits_val 16 acc (map (\<lambda>k. hex_char (n div 16 ^ k mod 16)) (rev [0..<j]))
    = Some (acc * 16 ^ j + n mod 16 ^ j)"
proof (induction j arbitrary: acc)
  case (Suc j)
  have "n mod 16 ^ Suc j = 16 ^ j * (n div 16 ^ j mod 16) + n mod 16 ^ j"
    by (simp add: mod_mult2_eq mult.commute [of 16])
  with Suc show ?case by (simp add: digit_val_hex_char algebra_simps)
qed simp

lemma length_push_hex8 [simp]: "length (push_hex8 v) = 8"
  by (simp add: push_hex8_def)

lemma nibble: "unat (drop_bit (k * 4) v AND 0xF :: u32) = unat v div 16 ^ k mod 16"
proof -
  have "(0xF :: u32) = mask 4" by (simp add: mask_eq_exp_minus_1)
  then have "unat (drop_bit (k * 4) v AND 0xF) = unat (take_bit 4 (drop_bit (k * 4) v))"
    by (simp add: take_bit_eq_mask)
  also have "\<dots> = take_bit 4 (drop_bit (k * 4) (unat v))"
    by (simp add: unsigned_take_bit_eq unsigned_drop_bit_eq take_bit_nat_eq_self [OF unsigned_less, of v, simplified])
  also have "\<dots> = unat v div 2 ^ (k * 4) mod 2 ^ 4" by (simp only: take_bit_eq_mod drop_bit_eq_div)
  also have "(2::nat) ^ (k * 4) = 16 ^ k" by (simp add: power_mult mult.commute [of k])
  finally show ?thesis by simp
qed

lemma parse_radix_Cons: "c \<noteq> CHR ''+'' \<Longrightarrow> parse_radix radix limit (c # s) =
    (case digits_val radix 0 (c # s) of None \<Rightarrow> None | Some v \<Rightarrow> if v < limit then Some v else None)"
  unfolding parse_radix_def by (auto simp: Let_def split: char.splits bool.splits)

lemma parse_push_hex8 [simp]: "parse_hex8 (push_hex8 v) = Inr v"
proof -
  have ascii: "utf8_ok (push_hex8 v)"
    by (rule utf8_ok_ascii) (auto simp: push_hex8_def nibble intro!: hex_upper_ascii)
  have chars: "bytes_str (push_hex8 v) = map (\<lambda>k. hex_char (unat v div 16 ^ k mod 16)) (rev [0..<8])"
    by (simp add: bytes_str_def push_hex8_def hex_char_def nibble o_def)
  let ?s = "map (\<lambda>k. hex_char (unat v div 16 ^ k mod 16)) (rev [0..<8])"
  have first: "?s = hex_char (unat v div 16 ^ 7 mod 16) # map (\<lambda>k. hex_char (unat v div 16 ^ k mod 16)) (rev [0..<7])"
  proof -
    have "[0..<Suc 7] = [0..<7] @ [7]" by (rule upt_Suc_append) simp
    then have "rev [0..<8] = 7 # rev [0..<7]" by simp
    then show ?thesis by (simp only: list.map)
  qed
  have "digit_val 16 (hex_char (unat v div 16 ^ 7 mod 16)) \<noteq> None" by (simp add: digit_val_hex_char)
  then have plus: "hex_char (unat v div 16 ^ 7 mod 16) \<noteq> CHR ''+''" using digit_val_plus [of 16] by auto
  have small: "unat v < 2 ^ 32" using unsigned_less [of v] by simp
  have "digits_val 16 0 ?s = Some (unat v)"
    using digits_val_hex [of 0 "unat v" 8] small by (simp del: upt_rec_numeral)
  then have "parse_radix 16 (2 ^ 32) ?s = Some (unat v)"
    unfolding first parse_radix_Cons [OF plus] using small by simp
  with ascii chars show ?thesis by (simp add: parse_hex8_def from_utf8_def)
qed

subsection \<open>A record reads back\<close>

definition put_rec :: "u32 \<times> cpio_rec \<Rightarrow> archive \<Rightarrow> archive" where
  "put_rec lr =
     (case lr of (l, r) \<Rightarrow> write_record (cr_name r) (cr_mode r) l (cr_major r) (cr_minor r) (cr_data r))"

definition rec_ok :: "cpio_rec \<Rightarrow> bool" where
  "rec_ok r \<longleftrightarrow> utf8_str (cr_name r) \<and> length (cr_name r) + 1 < 2 ^ 32 \<and> length (cr_data r) < 2 ^ 32"

text \<open>The bytes of a record: its head and name, padded, and its data, padded.\<close>

definition rec_head :: "u32 \<Rightarrow> u32 \<Rightarrow> cpio_rec \<Rightarrow> bytes" where
  "rec_head ino l r =
     cpio_magic @ push_hex8 ino @ push_hex8 (cr_mode r) @ push_hex8 0 @ push_hex8 0
       @ push_hex8 l @ push_hex8 0 @ push_hex8 (of_nat (length (cr_data r))) @ push_hex8 0 @ push_hex8 0
       @ push_hex8 (cr_major r) @ push_hex8 (cr_minor r) @ push_hex8 (of_nat (length (cr_name r)) + 1) @ push_hex8 0"

definition rec_bytes :: "u32 \<Rightarrow> u32 \<Rightarrow> cpio_rec \<Rightarrow> bytes" where
  "rec_bytes ino l r = pad4 (pad4 (rec_head ino l r @ str_bytes (cr_name r) @ [0]) @ cr_data r)"

lemma length_rec_head: "length (rec_head ino l r) = header_len"
  by (simp add: rec_head_def header_len_def cpio_magic_def)

lemma put_rec_bytes: "4 dvd length out \<Longrightarrow> put_rec (l, r) (out, ino) = (out @ rec_bytes ino l r, ino + 1)"
  by (simp add: put_rec_def write_record_def rec_bytes_def rec_head_def pad4_append flip: append_assoc)
    (simp add: pad4_append)

lemma slice_all: "length xs = b \<Longrightarrow> slice 0 b (xs @ ys) = xs"
  by (simp add: slice_def)

lemma length_cpio_magic [simp]: "length cpio_magic = 6"
  by (simp add: cpio_magic_def)

lemma head_fields:
  "slice 0 6 (rec_head ino l r @ x) = cpio_magic"
  "slice 14 22 (rec_head ino l r @ x) = push_hex8 (cr_mode r)"
  "slice 54 62 (rec_head ino l r @ x) = push_hex8 (of_nat (length (cr_data r)))"
  "slice 78 86 (rec_head ino l r @ x) = push_hex8 (cr_major r)"
  "slice 86 94 (rec_head ino l r @ x) = push_hex8 (cr_minor r)"
  "slice 94 102 (rec_head ino l r @ x) = push_hex8 (of_nat (length (cr_name r)) + 1)"
  by (simp_all add: rec_head_def slice_skip slice_all)

lemma read_rec_bytes:
  assumes out: "4 dvd length out" and ok: "rec_ok r"
  shows "read_record (out @ rec_bytes ino l r @ rest) (length out) = Inr (r, length out + length (rec_bytes ino l r))"
proof -
  let ?o = "length out" and ?h = "rec_head ino l r" and ?n = "length (cr_name r) + 1"
  let ?a = "pad4 (?h @ str_bytes (cr_name r) @ [0])"
  obtain i where i: "?a = (?h @ str_bytes (cr_name r) @ [0]) @ replicate i 0" using pad4_form by blast
  obtain j where j: "rec_bytes ino l r = (?a @ cr_data r) @ replicate j 0"
    unfolding rec_bytes_def using pad4_form by blast
  let ?bs = "out @ rec_bytes ino l r @ rest"
  have bs: "?bs = out @ ?h @ str_bytes (cr_name r) @ [0] @ replicate i 0 @ cr_data r @ replicate j 0 @ rest"
    by (simp add: i j)
  have la: "length ?a = align4 (header_len + ?n)" by (simp add: length_pad4 length_rec_head)
  have lr: "length (rec_bytes ino l r) = align4 (length ?a + length (cr_data r))"
    unfolding rec_bytes_def by (simp only: length_pad4 length_append)
  have ns: "unat (of_nat (length (cr_name r)) + 1 :: u32) = ?n"
  proof -
    have "of_nat (length (cr_name r)) + 1 = (of_nat ?n :: u32)" by (simp only: of_nat_add of_nat_1)
    also have "unat \<dots> = ?n" by (rule unat_of_nat_len) (use ok in \<open>simp add: rec_ok_def\<close>)
    finally show ?thesis .
  qed
  have fs: "unat (of_nat (length (cr_data r)) :: u32) = length (cr_data r)"
    using ok by (simp add: rec_ok_def unat_of_nat_len)
  have field: "slice (a + ?o) (b + ?o) ?bs = slice a b (?h @ str_bytes (cr_name r) @ [0] @ replicate i 0 @ cr_data r @ replicate j 0 @ rest)"
    for a b unfolding bs by (simp add: slice_def)
  have magic: "slice ?o (?o + 6) ?bs = cpio_magic" using field [of 0 6] head_fields(1) by (simp add: add.commute)
  have e1: "align4 (?o + header_len + ?n) = ?o + length ?a" 
    unfolding la add.assoc [of ?o] by (rule align4_add [OF out])
  have e2: "align4 (?o + length ?a + length (cr_data r)) = ?o + length (rec_bytes ino l r)"
    unfolding lr add.assoc [of ?o] by (rule align4_add [OF out])
  have name: "slice (?o + header_len) (?o + header_len + ?n - 1) ?bs = str_bytes (cr_name r)"
    unfolding bs by (simp add: slice_def length_rec_head)
  have content: "slice (?o + length ?a) (?o + length ?a + length (cr_data r)) ?bs = cr_data r"
    unfolding bs by (simp add: slice_def i length_rec_head)
  have len: "?o + header_len \<le> length ?bs" "?o + header_len + ?n \<le> length ?bs"
    "?o + length ?a + length (cr_data r) \<le> length ?bs"
    unfolding bs by (simp_all add: i length_rec_head)
  have nz: "of_nat (length (cr_name r)) + 1 \<noteq> (0 :: u32)"
    using ns by (metis add_is_0 one_neq_zero unsigned_0)
  have u: "from_utf8 (str_bytes (cr_name r)) = Some (cr_name r)" using ok by (simp add: rec_ok_def from_utf8_str_bytes)
  show ?thesis
    using len magic field [of 14 22] field [of 54 62] field [of 78 86] field [of 86 94] field [of 94 102] e1 e2 name content
    by (simp add: read_record_def Let_def head_fields ns fs nz u)
qed

subsection \<open>The archive of a tree\<close>

definition mk_rec :: "string \<Rightarrow> u32 \<Rightarrow> u32 \<Rightarrow> u32 \<Rightarrow> bytes \<Rightarrow> cpio_rec" where
  "mk_rec path mode major minor bs =
     \<lparr>cr_name = path, cr_mode = mode, cr_major = major, cr_minor = minor, cr_data = bs\<rparr>"

fun node_recs :: "string \<Rightarrow> cpio_node \<Rightarrow> (u32 \<times> cpio_rec) list" where
  "node_recs path (CDir mode es) =
     (if path \<noteq> [] then [(2, mk_rec path (s_ifdir OR mode) 0 0 [])] else [])
       @ concat (map (\<lambda>(name, n). node_recs (child_path path name) n) es)"
| "node_recs path (CFile mode bs) = [(1, mk_rec path (s_ifreg OR mode) 0 0 bs)]"
| "node_recs path (CLink target) = [(1, mk_rec path (s_iflnk OR 0x1FF) 0 0 (str_bytes target))]"
| "node_recs path (CDev mode ifmt major minor) = [(1, mk_rec path (ifmt OR mode) major minor [])]"

lemma put_rec_mk [simp]: "put_rec (l, mk_rec path mode major minor bs) = write_record path mode l major minor bs"
  by (simp add: put_rec_def mk_rec_def)

lemma fold_concat: "fold f (concat (map g xs)) a = fold (\<lambda>x. fold f (g x)) xs a"
  by (induction xs arbitrary: a) auto

lemma write_node_recs: "write_node path n = fold put_rec (node_recs path n)"
proof (induction path n rule: node_recs.induct)
  case (1 path mode es)
  have "fold (\<lambda>(name, n). write_node (child_path path name) n) es a =
      fold (\<lambda>x. fold put_rec (case x of (name, n) \<Rightarrow> node_recs (child_path path name) n)) es a" for a
    by (rule fold_cong) (use 1 in \<open>auto simp: fun_eq_iff\<close>)
  then show ?case by (auto simp: fun_eq_iff fold_concat)
qed (simp_all add: fun_eq_iff)

lemma rec_bytes_aligned [simp]: "4 dvd length (rec_bytes ino l r)"
  by (simp add: rec_bytes_def)

definition trailer_rec :: "u32 \<times> cpio_rec" where
  "trailer_rec = (1, mk_rec trailer 0 0 0 [])"

lemma trailer_ok: "rec_ok (snd trailer_rec)" "cr_name (snd trailer_rec) = trailer"
  by (simp_all add: trailer_rec_def mk_rec_def rec_ok_def trailer_def utf8_str_ascii ascii_str_def)

text \<open>Reading what was written: the entries of the records, or the first that does not decode.\<close>

lemma put_recs_app: "4 dvd length out \<Longrightarrow> \<exists>bs ino'. fold put_rec rs (out, ino) = (out @ bs, ino')"
proof (induction rs arbitrary: out ino)
  case (Cons lr rs)
  obtain l r where lr: "lr = (l, r)" by (cases lr)
  have "4 dvd length (out @ rec_bytes ino l r)" using Cons.prems by simp
  from Cons.IH [OF this, of "ino + 1"] show ?case by (auto simp: lr put_rec_bytes [OF Cons.prems])
qed auto

lemma read_recs:
  assumes "4 dvd length out" and "list_all (\<lambda>lr. rec_ok (snd lr) \<and> cr_name (snd lr) \<noteq> trailer) rs"
    and "fold put_rec (rs @ [trailer_rec]) (out, ino) = (bs, ino')"
  shows "read_from bs (length out) = res_map_all cpio_read_entry (map snd rs)"
  using assms
proof (induction rs arbitrary: out ino)
  case Nil
  obtain l r where lr: "trailer_rec = (l, r)" by (cases trailer_rec)
  then have "bs = out @ rec_bytes ino l r @ []" using Nil by (simp add: put_rec_bytes lr)
  then have "read_record bs (length out) = Inr (r, length out + length (rec_bytes ino l r))"
    using read_rec_bytes [OF Nil.prems(1), of r ino l "[]"] trailer_ok(1) by (simp add: lr)
  then show ?case using trailer_ok(2) by (simp add: read_from.simps lr)
next
  case (Cons lr rs)
  obtain l r where lr: "lr = (l, r)" by (cases lr)
  let ?out = "out @ rec_bytes ino l r"
  have ok: "rec_ok r" "cr_name r \<noteq> trailer" using Cons.prems(2) lr by simp_all
  have out: "4 dvd length ?out" using Cons.prems(1) by simp
  have rest: "fold put_rec (rs @ [trailer_rec]) (?out, ino + 1) = (bs, ino')"
    using Cons.prems(1,3) lr by (simp add: put_rec_bytes)
  then obtain rest' where "bs = ?out @ rest'" using put_recs_app [OF out, of "rs @ [trailer_rec]" "ino + 1"] by auto
  then have "read_record bs (length out) = Inr (r, length ?out)"
    using read_rec_bytes [OF Cons.prems(1) ok(1), of ino l rest'] by simp
  moreover have "read_from bs (length ?out) = res_map_all cpio_read_entry (map snd rs)"
    by (rule Cons.IH [OF out _ rest]) (use Cons.prems(2) in simp)
  ultimately show ?case using ok(2) lr by (simp add: read_from.simps [of bs "length out"])
qed

subsection \<open>Trees, paths and entries\<close>

text \<open>The entry a node is listed as, and the listing of a tree: every directory before what it holds.\<close>

definition entry_of :: "string \<Rightarrow> cpio_node \<Rightarrow> cpio_entry" where
  "entry_of path n =
     (case n of
        CDir mode _ \<Rightarrow> EnDir path mode
      | CFile mode bs \<Rightarrow> EnFile path mode bs
      | CLink target \<Rightarrow> EnLink path target
      | CDev mode ifmt major minor \<Rightarrow> EnDev path mode (if ifmt = s_ifchr then NkChar else NkBlock) major minor)"

fun node_entries :: "string \<Rightarrow> cpio_node \<Rightarrow> cpio_entry list" where
  "node_entries path (CDir mode es) =
     (if path \<noteq> [] then [EnDir path mode] else [])
       @ concat (map (\<lambda>(name, n). node_entries (child_path path name) n) es)"
| "node_entries path n = [entry_of path n]"

definition tree_entries :: "cpio_tree \<Rightarrow> cpio_entry list" where
  "tree_entries t = node_entries [] (CDir default_dir_mode t)"

definition path_name :: "string \<Rightarrow> bool" where
  "path_name s \<longleftrightarrow> s \<noteq> [] \<and> s \<noteq> ''.'' \<and> s \<noteq> ''..'' \<and> CHR ''/'' \<notin> set s"

text \<open>What every operation keeps: names are single components in strictly growing order, and only
  permission bits are stored as permissions.\<close>

fun node_ok :: "cpio_node \<Rightarrow> bool" where
  "node_ok (CDir mode es) \<longleftrightarrow>
     mode AND perm_bits = mode \<and> sorted_wrt (<) (map fst es)
     \<and> (\<forall>(name, n) \<in> set es. path_name name \<and> node_ok n)"
| "node_ok (CFile mode bs) \<longleftrightarrow> mode AND perm_bits = mode"
| "node_ok (CLink target) \<longleftrightarrow> True"
| "node_ok (CDev mode ifmt major minor) \<longleftrightarrow> mode AND perm_bits = mode \<and> ifmt \<in> {s_ifchr, s_ifblk}"

text \<open>What the format can hold: lengths of 32 bits, and text where text is read back.  No name at the
  root may be that of the trailer.\<close>

fun node_fits :: "string \<Rightarrow> cpio_node \<Rightarrow> bool" where
  "node_fits path (CDir mode es) \<longleftrightarrow>
     utf8_str path \<and> length path + 1 < 2 ^ 32 \<and> (\<forall>(name, n) \<in> set es. node_fits (child_path path name) n)"
| "node_fits path (CFile mode bs) \<longleftrightarrow> utf8_str path \<and> length path + 1 < 2 ^ 32 \<and> length bs < 2 ^ 32"
| "node_fits path (CLink target) \<longleftrightarrow>
     utf8_str path \<and> length path + 1 < 2 ^ 32 \<and> utf8_str target \<and> length target < 2 ^ 32"
| "node_fits path (CDev mode ifmt major minor) \<longleftrightarrow> utf8_str path \<and> length path + 1 < 2 ^ 32"

definition cpio_ok :: "cpio_tree \<Rightarrow> bool" where
  "cpio_ok t \<longleftrightarrow> node_ok (CDir default_dir_mode t)"

definition cpio_fits :: "cpio_tree \<Rightarrow> bool" where
  "cpio_fits t \<longleftrightarrow> (\<forall>(name, n) \<in> set t. name \<noteq> trailer \<and> node_fits name n)"

subsection \<open>Reading a written tree\<close>

lemma perm_part: "mode AND perm_bits = mode \<Longrightarrow> ty AND perm_bits = 0 \<Longrightarrow> (ty OR mode) AND perm_bits = mode"
  by (simp add: bit.conj_disj_distrib2)

lemma type_part:
  assumes "mode AND perm_bits = mode" and "ty AND s_ifmt = ty"
  shows "(ty OR mode) AND s_ifmt = (ty :: u32)"
proof -
  have "mode AND s_ifmt = mode AND (perm_bits AND s_ifmt)" using assms(1) by (metis and.assoc)
  also have "perm_bits AND s_ifmt = 0" by (simp add: perm_bits_def s_ifmt_def)
  finally show ?thesis using assms(2) by (simp add: bit.conj_disj_distrib2)
qed

lemmas type_bits = s_ifdir_def s_ifreg_def s_iflnk_def s_ifchr_def s_ifblk_def

lemma type_facts [simp]:
  "s_ifdir AND s_ifmt = s_ifdir" "s_ifreg AND s_ifmt = s_ifreg" "s_iflnk AND s_ifmt = s_iflnk"
  "s_ifchr AND s_ifmt = s_ifchr" "s_ifblk AND s_ifmt = s_ifblk"
  "s_ifdir AND perm_bits = 0" "s_ifreg AND perm_bits = 0" "s_iflnk AND perm_bits = 0"
  "s_ifchr AND perm_bits = 0" "s_ifblk AND perm_bits = 0"
  "(s_iflnk OR 0x1FF) AND s_ifmt = s_iflnk"
  by (simp_all add: type_bits s_ifmt_def perm_bits_def)

lemma type_distinct [simp]:
  "s_ifdir \<noteq> s_iflnk" "s_ifdir \<noteq> s_ifchr" "s_ifdir \<noteq> s_ifblk" "s_iflnk \<noteq> s_ifchr" "s_iflnk \<noteq> s_ifblk"
  "s_ifreg \<noteq> s_ifdir" "s_ifreg \<noteq> s_iflnk" "s_ifreg \<noteq> s_ifchr" "s_ifreg \<noteq> s_ifblk" "s_ifchr \<noteq> s_ifblk"
  "s_iflnk \<noteq> s_ifdir" "s_ifchr \<noteq> s_ifdir" "s_ifblk \<noteq> s_ifdir" "s_ifchr \<noteq> s_iflnk" "s_ifblk \<noteq> s_iflnk"
  "s_ifblk \<noteq> s_ifchr"
  by (simp_all add: type_bits)

lemma read_entry_mk:
  "mode AND perm_bits = mode \<Longrightarrow> cpio_read_entry (mk_rec path (s_ifdir OR mode) a b bs) = Inr (EnDir path mode)"
  "mode AND perm_bits = mode \<Longrightarrow> cpio_read_entry (mk_rec path (s_ifreg OR mode) a b bs) = Inr (EnFile path mode bs)"
  "utf8_str t \<Longrightarrow> cpio_read_entry (mk_rec path (s_iflnk OR 0x1FF) a b (str_bytes t)) = Inr (EnLink path t)"
  "mode AND perm_bits = mode \<Longrightarrow> ifmt \<in> {s_ifchr, s_ifblk} \<Longrightarrow> cpio_read_entry (mk_rec path (ifmt OR mode) a b bs)
     = Inr (EnDev path mode (if ifmt = s_ifchr then NkChar else NkBlock) a b)"
  by (auto simp: cpio_read_entry_def mk_rec_def Let_def perm_part type_part from_utf8_str_bytes)

lemma res_map_all_append: "res_map_all f (xs @ ys) =
    res_bind (res_map_all f xs) (\<lambda>as. res_bind (res_map_all f ys) (\<lambda>bs. Inr (as @ bs)))"
proof (induction xs)
  case Nil
  show ?case by (cases "res_map_all f ys") auto
next
  case (Cons x xs)
  then show ?case by (cases "f x"; cases "res_map_all f xs"; cases "res_map_all f ys") auto
qed

lemma read_node_recs:
  "node_ok n \<Longrightarrow> node_fits path n \<Longrightarrow>
     res_map_all cpio_read_entry (map snd (node_recs path n)) = Inr (node_entries path n)"
proof (induction path n rule: node_recs.induct)
  case (1 path mode es)
  have sub: "res_map_all cpio_read_entry (map snd (concat (map (\<lambda>(name, n). node_recs (child_path path name) n) xs)))
      = Inr (concat (map (\<lambda>(name, n). node_entries (child_path path name) n) xs))" if "set xs \<subseteq> set es" for xs
    using that
  proof (induction xs)
    case (Cons x xs)
    obtain name n where x: "x = (name, n)" by (cases x)
    then have "res_map_all cpio_read_entry (map snd (node_recs (child_path path name) n))
        = Inr (node_entries (child_path path name) n)"
      using 1 Cons.prems by (auto split: prod.splits)
    with Cons x show ?case by (simp add: res_map_all_append)
  qed simp
  have "mode AND perm_bits = mode" using 1(2) by simp
  then show ?case using sub [of es] by (cases "path = []") (simp_all add: read_entry_mk)
qed (simp_all add: read_entry_mk entry_of_def)

lemma node_recs_ok: "node_fits path n \<Longrightarrow> list_all (\<lambda>lr. rec_ok (snd lr)) (node_recs path n)"
  by (induction path n rule: node_recs.induct) (fastforce simp: list_all_iff rec_ok_def mk_rec_def)+

lemma node_recs_names:
  "path \<noteq> [] \<Longrightarrow> lr \<in> set (node_recs path n) \<Longrightarrow> \<exists>s. cr_name (snd lr) = path @ s \<and> (s = [] \<or> hd s = CHR ''/'')"
proof (induction path n arbitrary: lr rule: node_recs.induct)
  case (1 path mode es)
  show ?case
  proof (cases "lr = (2, mk_rec path (s_ifdir OR mode) 0 0 [])")
    case True
    then show ?thesis by (auto simp: mk_rec_def)
  next
    case False
    with 1(3) obtain name n where n: "(name, n) \<in> set es" "lr \<in> set (node_recs (child_path path name) n)" by auto
    have "child_path path name \<noteq> []" using 1(2) by (simp add: child_path_def)
    from 1(1) [OF n(1) refl this n(2)] 1(2) show ?thesis by (auto simp: child_path_def)
  qed
qed (auto simp: mk_rec_def)

lemma trailer_no_slash: "CHR ''/'' \<notin> set trailer"
  by (simp add: trailer_def)

theorem cpio_roundtrip_tree:
  assumes "cpio_ok t" and "cpio_fits t"
  shows "cpio_read (cpio_write t) = Inr (tree_entries t)"
proof -
  let ?root = "CDir default_dir_mode t"
  let ?rs = "node_recs [] ?root"
  have fits: "node_fits [] ?root"
    using assms(2) by (auto simp: cpio_fits_def child_path_def utf8_str_ascii ascii_str_def)
  have "list_all (\<lambda>lr. rec_ok (snd lr) \<and> cr_name (snd lr) \<noteq> trailer) ?rs"
    unfolding list_all_iff
  proof
    fix lr
    assume lr: "lr \<in> set ?rs"
    then obtain name n where n: "(name, n) \<in> set t" "lr \<in> set (node_recs name n)" by (auto simp: child_path_def)
    have "name \<noteq> []" "name \<noteq> trailer"
      using assms n(1) by (auto simp: cpio_ok_def cpio_fits_def path_name_def)
    with node_recs_names [OF _ n(2)] have "cr_name (snd lr) \<noteq> trailer"
      using trailer_no_slash by (metis append_Nil2 hd_in_set in_set_conv_decomp Un_iff set_append)
    moreover have "rec_ok (snd lr)" using node_recs_ok [OF fits] lr by (simp only: list_all_iff)
    ultimately show "rec_ok (snd lr) \<and> cr_name (snd lr) \<noteq> trailer" by simp
  qed
  moreover have "cpio_write t = fst (fold put_rec (?rs @ [trailer_rec]) ([], ino_base))"
    unfolding cpio_write_def write_node_recs by (simp add: trailer_rec_def del: node_recs.simps)
  moreover obtain bs ino where "fold put_rec (?rs @ [trailer_rec]) ([], ino_base) = (bs, ino)" by fastforce
  moreover have "4 dvd length ([] :: bytes)" by simp
  ultimately have "cpio_read (cpio_write t) = res_map_all cpio_read_entry (map snd ?rs)"
    using read_recs [of "[]" ?rs ino_base bs ino] by (simp add: cpio_read_def del: node_recs.simps fold_append)
  then show ?thesis
    using read_node_recs [OF _ fits] assms(1) by (simp add: tree_entries_def cpio_ok_def del: node_recs.simps)
qed

end
