(* ===== verification/CpioTree.thy ===== *)
theory CpioTree
  imports Cpio
begin

section \<open>The tree behind the archive\<close>

text \<open>
  What the operations of \<open>crates/keybuild/src/cpio.rs\<close> do to the tree they build, seen through its paths,
  and the import of a directory.
\<close>

subsection \<open>What every operation keeps\<close>

lemma map_of_bt_insert [simp]: "map_of (bt_insert k v m) = (map_of m)(k \<mapsto> v)"
  by (induction k v m rule: bt_insert.induct) auto

lemma set_bt_insert: "set (bt_insert k v m) \<subseteq> insert (k, v) (set m)"
  by (induction k v m rule: bt_insert.induct) auto

lemma fst_bt_insert: "fst ` set (bt_insert k v m) = insert k (fst ` set m)"
  by (induction k v m rule: bt_insert.induct) auto

lemma sorted_bt_insert: "sorted_wrt (<) (map fst m) \<Longrightarrow> sorted_wrt (<) (map fst (bt_insert k v m))"
proof (induction k v m rule: bt_insert.induct)
  case (2 k v k' v' m)
  then show ?case using fst_bt_insert [of k v m] by (force dest: less_trans)
qed simp

definition entries_ok :: "cpio_tree \<Rightarrow> bool" where
  "entries_ok t \<longleftrightarrow> sorted_wrt (<) (map fst t) \<and> (\<forall>(name, n) \<in> set t. path_name name \<and> node_ok n)"

lemma entries_ok_insert: "entries_ok t \<Longrightarrow> path_name k \<Longrightarrow> node_ok n \<Longrightarrow> entries_ok (bt_insert k n t)"
  using set_bt_insert [of k n t] by (auto simp: entries_ok_def sorted_bt_insert)

lemma default_dir_mode_ok [simp]: "default_dir_mode AND perm_bits = default_dir_mode"
  by (simp add: default_dir_mode_def perm_bits_def)

lemma node_ok_dir: "node_ok (CDir mode t) \<longleftrightarrow> mode AND perm_bits = mode \<and> entries_ok t"
  by (simp add: entries_ok_def)

lemma cpio_ok_entries: "cpio_ok t \<longleftrightarrow> entries_ok t"
  by (simp add: cpio_ok_def node_ok_dir del: node_ok.simps)

text \<open>Below what name a walk goes on, and into what.\<close>

definition sub_dir :: "cpio_tree \<Rightarrow> string \<Rightarrow> cpio_node" where
  "sub_dir t d = (case map_of t d of None \<Rightarrow> CDir default_dir_mode [] | Some n \<Rightarrow> n)"

lemma sub_dir_ok: "entries_ok t \<Longrightarrow> node_ok (sub_dir t d)"
  by (auto simp: sub_dir_def entries_ok_def dest: map_of_SomeD split: option.split)

lemma dir_at_step: "dir_at (d # ds) f t = Inr t' \<longleftrightarrow>
    (\<exists>mode sub sub'. sub_dir t d = CDir mode sub \<and> dir_at ds f sub = Inr sub' \<and> t' = bt_insert d (CDir mode sub') t)"
  by (auto simp: sub_dir_def res_bind_Inr_iff split: cpio_node.splits)

lemma dir_at_ok:
  assumes f: "\<And>es. entries_ok es \<Longrightarrow> entries_ok (f es)"
  shows "list_all path_name ds \<Longrightarrow> entries_ok t \<Longrightarrow> dir_at ds f t = Inr t' \<Longrightarrow> entries_ok t'"
proof (induction ds arbitrary: t t')
  case (Cons d ds)
  then obtain mode sub sub' where d: "sub_dir t d = CDir mode sub" "dir_at ds f sub = Inr sub'"
    "t' = bt_insert d (CDir mode sub') t" unfolding dir_at_step by blast
  from sub_dir_ok [OF Cons.prems(2), of d] have sub: "mode AND perm_bits = mode" "entries_ok sub"
    unfolding d(1) node_ok_dir by simp_all
  have "entries_ok sub'" using Cons.IH [OF _ sub(2) d(2)] Cons.prems(1) by simp
  with sub(1) have "node_ok (CDir mode sub')" by (simp only: node_ok_dir)
  then show ?case using Cons.prems(1,2) by (simp add: d(3) entries_ok_insert del: node_ok.simps)
qed (auto intro: f)

lemma split_on_no_sep: "p \<in> set (split_on d s) \<Longrightarrow> d \<notin> set p"
  by (induction d s arbitrary: p rule: split_on.induct) (auto split: list.splits if_splits)

lemma components_ok:
  assumes "cpio_components path = Inr ps"
  shows "ps \<noteq> []" and "list_all path_name ps"
  using assms split_on_no_sep
  by (fastforce simp: cpio_components_def path_name_def Let_def list_all_iff list_ex_iff split: if_splits)+

lemma components_last_ok:
  assumes "cpio_components path = Inr ps"
  shows "list_all path_name (butlast ps)" and "path_name (last ps)"
  using components_ok [OF assms] by (auto simp: list_all_iff dest: in_set_butlastD)

lemma put_ok:
  assumes "node_ok n" and "cpio_ok t" and "cpio_put path n t = Inr t'"
  shows "cpio_ok t'"
proof -
  from assms(3) obtain ps where ps: "cpio_components path = Inr ps"
    "dir_at (butlast ps) (bt_insert (last ps) n) t = Inr t'" by (auto simp: cpio_put_def res_bind_Inr_iff)
  show ?thesis
    unfolding cpio_ok_entries
    by (rule dir_at_ok [OF _ components_last_ok(1) [OF ps(1)] assms(2) [unfolded cpio_ok_entries] ps(2)])
      (rule entries_ok_insert [OF _ components_last_ok(2) [OF ps(1)] assms(1)])
qed

lemma mkdir_ok:
  assumes "cpio_ok t" and "cpio_mkdir path t = Inr t'"
  shows "cpio_ok t'"
proof -
  from assms(2) obtain ps where ps: "cpio_components path = Inr ps" "dir_at ps (\<lambda>es. es) t = Inr t'"
    by (auto simp: cpio_mkdir_def res_bind_Inr_iff)
  show ?thesis
    unfolding cpio_ok_entries
    by (rule dir_at_ok [OF _ components_ok(2) [OF ps(1)] assms(1) [unfolded cpio_ok_entries] ps(2)])
qed

subsection \<open>The tree as a map of paths\<close>

fun node_at :: "string list \<Rightarrow> cpio_tree \<Rightarrow> cpio_node option" where
  "node_at [] t = None"
| "node_at [d] t = map_of t d"
| "node_at (d # e # ds) t = (case map_of t d of Some (CDir mode sub) \<Rightarrow> node_at (e # ds) sub | _ \<Rightarrow> None)"

definition under_dir :: "cpio_node option \<Rightarrow> string list \<Rightarrow> cpio_node option" where
  "under_dir n ds = (if ds = [] then n else (case n of Some (CDir mode sub) \<Rightarrow> node_at ds sub | _ \<Rightarrow> None))"

lemma node_at_Cons: "node_at (d # ds) t = under_dir (map_of t d) ds"
  by (cases ds) (auto simp: under_dir_def)

lemma node_at_empty [simp]: "node_at p [] = None"
  by (cases p) (simp_all add: node_at_Cons under_dir_def)

lemma node_at_sub: "p \<noteq> [] \<Longrightarrow> sub_dir t d = CDir mode sub \<Longrightarrow> node_at (d # p) t = node_at p sub"
  by (auto simp: node_at_Cons under_dir_def sub_dir_def split: option.splits)

lemma node_at_into: "p \<noteq> [] \<Longrightarrow> node_at (d # p) (bt_insert d (CDir mode sub) t) = node_at p sub"
  by (simp add: node_at_Cons under_dir_def)

text \<open>Placing a node changes its own path and what was below it, and makes the directories above it.\<close>

lemma dir_at_put:
  assumes "dir_at ds (bt_insert k n) t = Inr t'"
  shows "node_at (ds @ k # q) t' = under_dir (Some n) q"
    and "\<not> prefix (ds @ [k]) p \<Longrightarrow> \<not> prefix p ds \<Longrightarrow> node_at p t' = node_at p t"
    and "prefix p ds \<Longrightarrow> p \<noteq> [] \<Longrightarrow>
      \<exists>mode sub sub'. node_at p t' = Some (CDir mode sub')
        \<and> node_at p t \<in> {None, Some (CDir mode sub)} \<and> (node_at p t = None \<longrightarrow> mode = default_dir_mode)"
  using assms
proof (induction ds arbitrary: t t' p)
  case Nil
  {
    case 1
    then show ?case by (auto simp: node_at_Cons)
  next
    case 2
    then show ?case by (cases p) (auto simp: node_at_Cons)
  next
    case 3
    then show ?case by simp
  }
next
  case (Cons d ds)
  {
    case 1
    then obtain mode sub sub' where d: "dir_at ds (bt_insert k n) sub = Inr sub'" "t' = bt_insert d (CDir mode sub') t"
      unfolding dir_at_step by blast
    from Cons.IH(1) [OF d(1)] show ?case by (simp add: d(2) node_at_Cons under_dir_def [of "Some (CDir mode sub')"])
  next
    case 2
    then obtain mode sub sub' where d: "sub_dir t d = CDir mode sub" "dir_at ds (bt_insert k n) sub = Inr sub'"
      "t' = bt_insert d (CDir mode sub') t" unfolding dir_at_step by blast
    show ?case
    proof (cases p)
      case (Cons d' p')
      show ?thesis
      proof (cases "d' = d")
        case True
        with 2(1,2) Cons have "\<not> prefix (ds @ [k]) p'" "\<not> prefix p' ds" by auto
        note IH = Cons.IH(2) [OF this d(2)]
        have "p' \<noteq> []" using \<open>\<not> prefix p' ds\<close> by auto
        with IH Cons True d(1,3) show ?thesis by (simp add: node_at_into node_at_sub)
      qed (use Cons d(3) in \<open>simp add: node_at_Cons\<close>)
    qed simp
  next
    case 3
    then obtain mode sub sub' where d: "sub_dir t d = CDir mode sub" "dir_at ds (bt_insert k n) sub = Inr sub'"
      "t' = bt_insert d (CDir mode sub') t" unfolding dir_at_step by blast
    from 3(1,2) obtain p' where p: "p = d # p'" "prefix p' ds" by (cases p) auto
    show ?case
    proof (cases "p' = []")
      case True
      with d p show ?thesis by (auto simp: sub_dir_def split: option.splits)
    next
      case False
      show ?thesis
        unfolding p(1) d(3) node_at_into [OF False] node_at_sub [OF False d(1)]
        by (rule Cons.IH(3) [OF p(2) False d(2)])
    qed
  }
qed

text \<open>The listing is the tree: one entry per path.\<close>

abbreviation path_text :: "string list \<Rightarrow> string" where
  "path_text \<equiv> join_with ''/''"

lemma path_text_child: "path_text (child_path path name # q) = path_text (path # name # q)" if "path \<noteq> []"
  using that by (cases q) (simp_all add: child_path_def)

lemma map_of_ok: "entries_ok es \<Longrightarrow> (name, n) \<in> set es \<longleftrightarrow> map_of es name = Some n"
  by (auto simp: entries_ok_def strict_sorted_iff map_of_eq_Some_iff)

lemma entry_of_dir [simp]: "entry_of path (CDir mode es) = EnDir path mode"
  by (simp add: entry_of_def)

lemma under_dir_dir: "under_dir (Some (CDir mode es)) q = Some m \<longleftrightarrow>
    q = [] \<and> m = CDir mode es \<or> (\<exists>name q'. q = name # q' \<and> under_dir (map_of es name) q' = Some m)"
  by (cases q) (auto simp: under_dir_def [of "Some (CDir mode es)"] node_at_Cons)

lemma under_dir_Some: "under_dir x q = Some m \<Longrightarrow> \<exists>n. x = Some n"
  by (auto simp: under_dir_def split: if_splits option.splits)

definition listed :: "string list \<Rightarrow> cpio_node option \<Rightarrow> cpio_entry set" where
  "listed ps n = {entry_of (path_text (ps @ q)) m | q m. under_dir n q = Some m}"

lemma mem_listed: "e \<in> listed ps n \<longleftrightarrow> (\<exists>q m. under_dir n q = Some m \<and> e = entry_of (path_text (ps @ q)) m)"
  by (auto simp: listed_def)

lemma listed_dir:
  "listed [path] (Some (CDir mode es)) = insert (EnDir path mode) (\<Union>name. listed [path, name] (map_of es name))"
proof (rule set_eqI)
  fix e
  have "e \<in> listed [path] (Some (CDir mode es)) \<longleftrightarrow>
      (\<exists>q m. (q = [] \<and> m = CDir mode es \<or> (\<exists>name q'. q = name # q' \<and> under_dir (map_of es name) q' = Some m))
        \<and> e = entry_of (path_text ([path] @ q)) m)"
    by (simp only: mem_listed under_dir_dir)
  also have "\<dots> \<longleftrightarrow> e = entry_of (path_text ([path] @ [])) (CDir mode es)
      \<or> (\<exists>name q' m. under_dir (map_of es name) q' = Some m \<and> e = entry_of (path_text ([path] @ name # q')) m)"
    by blast
  also have "\<dots> \<longleftrightarrow> e \<in> insert (EnDir path mode) (\<Union>name. listed [path, name] (map_of es name))"
    by (simp add: mem_listed del: join_with.simps(3))
  finally show "e \<in> listed [path] (Some (CDir mode es)) \<longleftrightarrow>
    e \<in> insert (EnDir path mode) (\<Union>name. listed [path, name] (map_of es name))" .
qed

lemma listed_child: "path \<noteq> [] \<Longrightarrow> listed [child_path path name] n = listed [path, name] n"
  by (simp add: listed_def path_text_child)

lemma listed_None [simp]: "listed ps None = {}"
  by (auto simp: listed_def under_dir_def)

lemma Union_map_of:
  assumes "entries_ok es"
  shows "(\<Union>name. listed (f name) (map_of es name)) = (\<Union>(name, n) \<in> set es. listed (f name) (Some n))"
proof (rule set_eqI)
  fix e
  have "e \<in> listed (f name) (map_of es name) \<longleftrightarrow> (\<exists>n. (name, n) \<in> set es \<and> e \<in> listed (f name) (Some n))" for name
    by (cases "map_of es name") (simp_all add: map_of_ok [OF assms])
  then show "e \<in> (\<Union>name. listed (f name) (map_of es name)) \<longleftrightarrow> e \<in> (\<Union>(name, n) \<in> set es. listed (f name) (Some n))"
    by auto
qed

lemma node_entries_set:
  "path \<noteq> [] \<Longrightarrow> node_ok n \<Longrightarrow> set (node_entries path n) = listed [path] (Some n)"
proof (induction path n rule: node_entries.induct)
  case (1 path mode es)
  have ok: "entries_ok es" using 1(3) by (simp only: node_ok_dir)
  have "set (node_entries (child_path path name) n) = listed [path, name] (Some n)" if "(name, n) \<in> set es" for name n
    using 1(1) [OF that refl] 1(2) ok that listed_child [OF 1(2)] by (auto simp: entries_ok_def child_path_def)
  then show ?case using 1(2) by (simp add: listed_dir Union_map_of [OF ok]) blast
qed (auto simp: listed_def under_dir_def)

lemma tree_entries_set:
  assumes "cpio_ok t"
  shows "set (tree_entries t) = {entry_of (path_text ps) n | ps n. node_at ps t = Some n}"
proof -
  have ok: "entries_ok t" using assms by (simp only: cpio_ok_entries)
  have "set (node_entries name n) = listed [name] (Some n)" if "(name, n) \<in> set t" for name n
    using node_entries_set ok that by (auto simp: entries_ok_def path_name_def)
  then have "set (tree_entries t) = (\<Union>(name, n) \<in> set t. listed [name] (Some n))"
    by (force simp: tree_entries_def child_path_def)
  also have "\<dots> = (\<Union>name. listed [name] (map_of t name))" by (rule Union_map_of [OF ok, symmetric])
  also have "\<dots> = {entry_of (path_text ps) n | ps n. node_at ps t = Some n}"
  proof -
    have "node_at ps t = Some n \<longleftrightarrow> (\<exists>name q. ps = name # q \<and> under_dir (map_of t name) q = Some n)" for ps n
      by (cases ps) (auto simp: node_at_Cons)
    then show ?thesis by (fastforce simp: listed_def)
  qed
  finally show ?thesis .
qed

subsection \<open>Directories first\<close>

text \<open>
  What the kernel needs to unpack an archive: when an entry comes, the directory it goes into is
  there.  The root is there from the start.
\<close>

definition entry_path :: "cpio_entry \<Rightarrow> string" where
  "entry_path e =
     (case e of EnDir p _ \<Rightarrow> p | EnFile p _ _ \<Rightarrow> p | EnLink p _ \<Rightarrow> p | EnDev p _ _ _ _ \<Rightarrow> p)"

definition parent_path :: "string \<Rightarrow> string" where
  "parent_path p = path_text (butlast (split_on CHR ''/'' p))"

fun unpacks :: "string set \<Rightarrow> cpio_entry list \<Rightarrow> bool" where
  "unpacks dirs [] \<longleftrightarrow> True"
| "unpacks dirs (e # es) \<longleftrightarrow>
     parent_path (entry_path e) \<in> dirs
     \<and> unpacks (case e of EnDir p _ \<Rightarrow> insert p dirs | _ \<Rightarrow> dirs) es"

lemma unpacks_mono: "D \<subseteq> E \<Longrightarrow> unpacks D es \<Longrightarrow> unpacks E es"
proof (induction es arbitrary: D E)
  case (Cons e es)
  have "(case e of EnDir p _ \<Rightarrow> insert p D | _ \<Rightarrow> D) \<subseteq> (case e of EnDir p _ \<Rightarrow> insert p E | _ \<Rightarrow> E)"
    using Cons.prems(1) by (auto split: cpio_entry.splits)
  with Cons show ?case by auto
qed simp

lemma join_with_Cons: "xs \<noteq> [] \<Longrightarrow> join_with sep (s # xs) = s @ sep @ join_with sep xs"
  by (cases xs) auto

lemma join_with_head: "join_with sep ((c # s) # xs) = c # join_with sep (s # xs)"
  by (cases xs) auto

lemma join_split: "path_text (split_on CHR ''/'' p) = p"
proof (induction p)
  case (Cons c s)
  then show ?case
    by (cases "split_on CHR ''/'' s") (auto simp: join_with_Cons join_with_head simp del: join_with.simps(3))
qed simp

lemma entry_path_of [simp]: "entry_path (entry_of path n) = path"
  by (simp add: entry_path_def entry_of_def split: cpio_node.split)

lemma parent_name: "path_name name \<Longrightarrow> parent_path name = []"
  by (simp add: parent_path_def path_name_def split_on_single)

lemma parent_child: "path_name name \<Longrightarrow> path \<noteq> [] \<Longrightarrow> parent_path (child_path path name) = path"
  by (simp add: parent_path_def path_name_def child_path_def split_on_append_sep split_on_single join_split)

lemma unpacks_node:
  "path \<noteq> [] \<Longrightarrow> node_ok n \<Longrightarrow> parent_path path \<in> D \<Longrightarrow> unpacks D rest \<Longrightarrow> unpacks D (node_entries path n @ rest)"
proof (induction path n arbitrary: D rest rule: node_entries.induct)
  case (1 path mode es)
  let ?D = "insert path D"
  have "entries_ok es" using 1(3) by (simp only: node_ok_dir)
  then have ok: "path_name name" "node_ok n" if "(name, n) \<in> set es" for name n
    using that by (auto simp: entries_ok_def)
  have "unpacks ?D (concat (map (\<lambda>(name, n). node_entries (child_path path name) n) xs) @ rest)" if "set xs \<subseteq> set es" for xs
    using that
  proof (induction xs)
    case Nil
    then show ?case using unpacks_mono [OF _ 1(5), of ?D] by auto
  next
    case (Cons x xs)
    obtain name n where x: "x = (name, n)" by (cases x)
    with Cons.prems have n: "(name, n) \<in> set es" by simp
    have "parent_path (child_path path name) \<in> ?D" by (simp only: parent_child [OF ok(1) [OF n] 1(2)] insertI1)
    moreover have "child_path path name \<noteq> []" using 1(2) by (simp add: child_path_def)
    ultimately show ?case using 1(1) [OF n refl _ ok(2) [OF n]] Cons x by simp
  qed
  from this [of es] 1(2,4) show ?case by (simp add: entry_path_def)
qed (simp_all add: entry_of_def entry_path_def)

lemma tree_unpacks:
  assumes "cpio_ok t"
  shows "unpacks {[]} (tree_entries t)"
proof -
  have ok: "path_name name" "node_ok n" if "(name, n) \<in> set t" for name n
    using assms that by (auto simp: cpio_ok_entries entries_ok_def)
  have "unpacks {[]} (concat (map (\<lambda>(name, n). node_entries name n) xs))" if "set xs \<subseteq> set t" for xs
    using that
  proof (induction xs)
    case (Cons x xs)
    obtain name n where x: "x = (name, n)" by (cases x)
    with Cons.prems have n: "(name, n) \<in> set t" by simp
    then have "name \<noteq> []" using ok(1) by (simp add: path_name_def)
    from unpacks_node [OF this ok(2) [OF n]] parent_name [OF ok(1) [OF n]] Cons x show ?case by simp
  qed simp
  from this [of t] show ?thesis by (simp add: tree_entries_def child_path_def)
qed

subsection \<open>One entry for each path\<close>

text \<open>The paths of the entries below a node start with the node's own.\<close>

definition at_or_below :: "string \<Rightarrow> string \<Rightarrow> bool" where
  "at_or_below p q \<longleftrightarrow> q = p \<or> prefix (p @ ''/'') q"

lemma below_child: "path \<noteq> [] \<Longrightarrow> at_or_below (child_path path name) q \<Longrightarrow> prefix (path @ ''/'') q \<and> q \<noteq> path"
  by (auto simp: at_or_below_def child_path_def prefix_def)

lemma below_names:
  assumes "path_name a" "path_name b" "at_or_below (child_path path a) q" "at_or_below (child_path path b) q"
  shows "a = b"
proof -
  define pre where "pre = (if path = [] then [] else path @ ''/'')"
  have ch: "child_path path n = pre @ n" for n by (simp add: child_path_def pre_def)
  from assms(3,4) obtain xs ys where q: "q = pre @ a @ xs" "q = pre @ b @ ys"
    "xs = [] \<or> hd xs = CHR ''/''" "ys = [] \<or> hd ys = CHR ''/''"
    unfolding at_or_below_def ch prefix_def by fastforce
  then have eq: "a @ xs = b @ ys" by simp
  have no: "CHR ''/'' \<notin> set a" "CHR ''/'' \<notin> set b" using assms(1,2) by (simp_all add: path_name_def)
  have take: "takeWhile (\<lambda>c. c \<noteq> CHR ''/'') (n @ zs) = n" if "CHR ''/'' \<notin> set n" "zs = [] \<or> hd zs = CHR ''/''" for n zs
    using that by (cases zs) (auto simp: takeWhile_append)
  show ?thesis using take [OF no(1) q(3)] take [OF no(2) q(4)] eq by simp
qed

lemma node_entries_below: "path \<noteq> [] \<Longrightarrow> e \<in> set (node_entries path n) \<Longrightarrow> at_or_below path (entry_path e)"
proof (induction path n arbitrary: e rule: node_entries.induct)
  case (1 path mode es)
  show ?case
  proof (cases "e = EnDir path mode")
    case True
    then show ?thesis by (simp add: entry_path_def at_or_below_def)
  next
    case False
    with 1(2,3) obtain name n where n: "(name, n) \<in> set es" "e \<in> set (node_entries (child_path path name) n)" by auto
    moreover have "child_path path name \<noteq> []" using 1(2) by (simp add: child_path_def)
    ultimately have "at_or_below (child_path path name) (entry_path e)" using 1(1) [OF n(1) refl] by simp
    with below_child [OF 1(2) this] show ?thesis by (simp add: at_or_below_def)
  qed
qed (simp_all add: at_or_below_def)

lemma distinct_children:
  assumes names: "distinct (map fst es)" "\<And>name n. (name, n) \<in> set es \<Longrightarrow> path_name name"
    and each: "\<And>name n. (name, n) \<in> set es \<Longrightarrow> distinct (map entry_path (node_entries (child_path path name) n))"
    and ne: "\<And>name n. (name, n) \<in> set es \<Longrightarrow> child_path path name \<noteq> []"
  shows "distinct (map entry_path (concat (map (\<lambda>(name, n). node_entries (child_path path name) n) es)))"
  using assms
proof (induction es)
  case (Cons x es)
  obtain name n where x: "x = (name, n)" by (cases x)
  have "entry_path e \<noteq> entry_path f"
    if "e \<in> set (node_entries (child_path path name) n)" "(m, k) \<in> set es" "f \<in> set (node_entries (child_path path m) k)" for e f m k
  proof
    assume "entry_path e = entry_path f"
    moreover have "at_or_below (child_path path name) (entry_path e)" "at_or_below (child_path path m) (entry_path f)"
      using that Cons.prems(4) x by (auto intro!: node_entries_below)
    ultimately have "name = m" using below_names Cons.prems(2) that(2) x by (metis list.set_intros)
    then show False using Cons.prems(1) that(2) x by force
  qed
  then show ?case
    using Cons.IH Cons.prems unfolding x by (auto simp: image_iff) blast+
qed simp

lemma node_entries_distinct: "path \<noteq> [] \<Longrightarrow> node_ok n \<Longrightarrow> distinct (map entry_path (node_entries path n))"
proof (induction path n rule: node_entries.induct)
  case (1 path mode es)
  have ok: "entries_ok es" using 1(3) by (simp only: node_ok_dir)
  then have sub: "path_name name" "node_ok n" if "(name, n) \<in> set es" for name n
    using that by (auto simp: entries_ok_def)
  have ne: "child_path path name \<noteq> []" for name using 1(2) by (simp add: child_path_def)
  have "distinct (map fst es)" using ok by (simp add: entries_ok_def strict_sorted_iff)
  then have "distinct (map entry_path (concat (map (\<lambda>(name, n). node_entries (child_path path name) n) es)))"
    using sub 1(1) ne by (intro distinct_children) auto
  moreover have "entry_path e \<noteq> path" if "(name, n) \<in> set es" "e \<in> set (node_entries (child_path path name) n)" for e name n
    using below_child [OF 1(2) node_entries_below [OF ne that(2)]] by simp
  ultimately show ?case using 1(2) by (auto simp: entry_path_def [of "EnDir path mode"])
qed simp_all

lemma tree_entries_distinct: "cpio_ok t \<Longrightarrow> distinct (map entry_path (tree_entries t))"
proof -
  assume "cpio_ok t"
  then have ok: "entries_ok t" by (simp only: cpio_ok_entries)
  then have sub: "path_name name" "node_ok n" if "(name, n) \<in> set t" for name n
    using that by (auto simp: entries_ok_def)
  have ne: "child_path [] name \<noteq> []" if "(name, n) \<in> set t" for name n
    using sub(1) [OF that] by (simp add: child_path_def path_name_def)
  have "distinct (map fst t)" using ok by (simp add: entries_ok_def strict_sorted_iff)
  then have "distinct (map entry_path (concat (map (\<lambda>(name, n). node_entries (child_path [] name) n) t)))"
    using sub node_entries_distinct ne by (intro distinct_children) auto
  then show ?thesis by (simp add: tree_entries_def)
qed

subsection \<open>Importing a directory\<close>

text \<open>
  The host directory is that of the snapshots; the system's error for a name that is not there, and what
  reading a special file gives, are parameters.  The permissions of directories are not carried over.
\<close>

record import_ops =
  im_missing :: "string \<Rightarrow> string"
  im_special :: "string \<Rightarrow> string + bytes \<times> u32"

fun res_fold :: "('a \<Rightarrow> 'b \<Rightarrow> 'e + 'b) \<Rightarrow> 'a list \<Rightarrow> 'b \<Rightarrow> 'e + 'b" where
  "res_fold f [] t = Inr t"
| "res_fold f (x # xs) t = res_bind (f x t) (res_fold f xs)"

lemma size_map_of: "map_of d name = Some n \<Longrightarrow> size n < size (FDir d 0)"
  by (drule map_of_SomeD, induction d) auto

function import_dir :: "import_ops \<Rightarrow> fdir \<Rightarrow> string \<Rightarrow> cpio_tree \<Rightarrow> kb_error + cpio_tree" where
  "import_dir X d rel t =
     res_fold (\<lambda>raw t.
       let name = to_string_lossy raw; child = child_path rel name in
       case map_of d name of
         None \<Rightarrow> Inl (KbIo (im_missing X name))
       | Some (FLink target) \<Rightarrow> cpio_symlink child (to_string_lossy target) t
       | Some (FDir es _) \<Rightarrow> res_bind (cpio_mkdir child t) (import_dir X es child)
       | Some (FReg bs mode) \<Rightarrow> insert_file child bs mode t
       | Some FSpecial \<Rightarrow>
           res_bind (res_map_err KbIo (im_special X name)) (\<lambda>(bs, mode). insert_file child bs mode t))
       (sort (map fst d)) t"
  by auto
termination
  by (relation "measure (\<lambda>(X, d, rel, t). size (FDir d 0))") (auto dest: size_map_of)

declare import_dir.simps [simp del]

definition read_dir_tree :: "import_ops \<Rightarrow> fdir \<Rightarrow> kb_error + cpio_tree" where
  "read_dir_tree X d = import_dir X d [] cpio_new"

lemma res_fold_inv:
  "(\<And>x t t'. x \<in> set xs \<Longrightarrow> P t \<Longrightarrow> f x t = Inr t' \<Longrightarrow> P t') \<Longrightarrow> P t \<Longrightarrow> res_fold f xs t = Inr t' \<Longrightarrow> P t'"
  by (induction xs arbitrary: t) (auto simp: res_bind_Inr_iff)

lemma file_ok [simp]: "node_ok (CFile (mode AND perm_bits) bs)"
  by (simp add: and.assoc)

lemma import_dir_ok: "cpio_ok t \<Longrightarrow> import_dir X d rel t = Inr t' \<Longrightarrow> cpio_ok t'"
proof (induction X d rel t arbitrary: t' rule: import_dir.induct)
  case (1 X d rel t)
  show ?case
  proof (rule res_fold_inv [of "sort (map fst d)" cpio_ok, OF _ 1(2) 1(3) [unfolded import_dir.simps [of X d rel t]]])
    fix raw s s'
    let ?name = "to_string_lossy raw"
    assume raw: "raw \<in> set (sort (map fst d))" and s: "cpio_ok s"
      and run: "(let name = ?name; child = child_path rel name in
       case map_of d name of
         None \<Rightarrow> Inl (KbIo (im_missing X name))
       | Some (FLink target) \<Rightarrow> cpio_symlink child (to_string_lossy target) s
       | Some (FDir es _) \<Rightarrow> res_bind (cpio_mkdir child s) (import_dir X es child)
       | Some (FReg bs mode) \<Rightarrow> insert_file child bs mode s
       | Some FSpecial \<Rightarrow>
           res_bind (res_map_err KbIo (im_special X name)) (\<lambda>(bs, mode). insert_file child bs mode s)) = Inr s'"
    show "cpio_ok s'"
    proof (cases "map_of d ?name")
      case (Some n)
      show ?thesis
      proof (cases n)
        case (FDir es m)
        with run Some obtain s1 where s1: "cpio_mkdir (child_path rel ?name) s = Inr s1"
          "import_dir X es (child_path rel ?name) s1 = Inr s'" by (auto simp: Let_def res_bind_Inr_iff)
        from 1(1) [OF refl refl Some FDir s1(1) mkdir_ok [OF s s1(1)] s1(2)] show ?thesis .
      qed (use run Some s in \<open>auto simp: Let_def insert_file_def cpio_symlink_def res_bind_Inr_iff intro: put_ok [rotated] simp del: node_ok.simps(2)\<close>)
    qed (use run in \<open>simp add: Let_def\<close>)
  qed
qed

text \<open>The trees the operations build.\<close>

inductive cpio_built :: "cpio_tree \<Rightarrow> bool" where
  built_new: "cpio_built cpio_new"
| built_file: "cpio_built t \<Longrightarrow> insert_file path bs mode t = Inr t' \<Longrightarrow> cpio_built t'"
| built_dir: "cpio_built t \<Longrightarrow> cpio_mkdir path t = Inr t' \<Longrightarrow> cpio_built t'"
| built_link: "cpio_built t \<Longrightarrow> cpio_symlink path target t = Inr t' \<Longrightarrow> cpio_built t'"
| built_device: "cpio_built t \<Longrightarrow> cpio_device path mode k major minor t = Inr t' \<Longrightarrow> cpio_built t'"
| built_import: "read_dir_tree X d = Inr t \<Longrightarrow> cpio_built t"

lemma cpio_new_ok: "cpio_ok cpio_new"
  by (simp add: cpio_ok_entries entries_ok_def cpio_new_def)

lemma cpio_built_ok: "cpio_built t \<Longrightarrow> cpio_ok t"
proof (induction rule: cpio_built.induct)
  case (built_file t path bs mode t')
  from put_ok [OF file_ok built_file(3) built_file(2) [unfolded insert_file_def]] show ?case .
next
  case (built_link t path target t')
  have "node_ok (CLink target)" by simp
  from put_ok [OF this built_link(3) built_link(2) [unfolded cpio_symlink_def]] show ?case .
next
  case (built_device t path mode k major minor t')
  have "node_ok (CDev (mode AND perm_bits) (kind_ifmt k) major minor)"
    by (simp add: and.assoc kind_ifmt_def split: cpio_node_kind.split)
  from put_ok [OF this built_device(3) built_device(2) [unfolded cpio_device_def]] show ?case .
next
  case (built_import X d t)
  then show ?case unfolding read_dir_tree_def by (rule import_dir_ok [OF cpio_new_ok])
qed (auto intro: cpio_new_ok mkdir_ok)

end
