(* ===== verification/Verity.thy ===== *)
theory Verity
  imports KeyErrors
begin

section \<open>The hash tree of the base\<close>

text \<open>
  \<open>crates/keybuild/src/verity.rs\<close>.  SHA-256 is a library function and a parameter, the argument \<open>H\<close>;
  what is proved uses that a digest has 32 bytes and tells the blocks at hand apart.  Sizes are \<open>usize\<close> and
  modelled by \<open>nat\<close>.  A panic (a size of zero, a superblock longer than a block) and a loop that does not
  end are the result \<open>None\<close>.
\<close>

type_synonym hash_fun = "bytes \<Rightarrow> bytes"

definition digest_size :: nat where "digest_size = 32"
definition default_block_size :: u32 where "default_block_size = 4096"
definition default_salt :: bytes where "default_salt = str_bytes ''horizon-os immutable base verity''"
definition default_uuid :: bytes where "default_uuid = str_bytes ''horizonbaseverit''"

record verity_params =
  vp_data_size :: u32
  vp_hash_size :: u32
  vp_salt :: bytes
  vp_uuid :: bytes

definition default_params :: verity_params where
  "default_params =
     \<lparr>vp_data_size = default_block_size, vp_hash_size = default_block_size,
      vp_salt = default_salt, vp_uuid = default_uuid\<rparr>"

record verity =
  ve_device :: bytes
  ve_root :: bytes
  ve_data_blocks :: u64
  ve_levels :: nat
  ve_params :: verity_params

definition hex_text :: "bytes \<Rightarrow> string" where
  "hex_text bs = concat (map (\<lambda>b. [digit_char (unat b div 16), digit_char (unat b mod 16)]) bs)"

definition root_hex :: "verity \<Rightarrow> string" where
  "root_hex v = hex_text (ve_root v)"

definition format_uuid :: "bytes \<Rightarrow> string" where
  "format_uuid uuid =
     (let h = hex_text uuid in
      take 8 h @ ''-'' @ take 4 (drop 8 h) @ ''-'' @ take 4 (drop 12 h) @ ''-'' @ take 4 (drop 16 h)
        @ ''-'' @ take 12 (drop 20 h))"

definition hash_block :: "hash_fun \<Rightarrow> bytes \<Rightarrow> bytes \<Rightarrow> bytes" where
  "hash_block H salt block = H (salt @ block)"

definition pad_block :: "nat \<Rightarrow> bytes \<Rightarrow> bytes" where
  "pad_block dbs block = (if length block = dbs then block else block @ replicate (dbs - length block) 0)"

definition hash_data_block :: "hash_fun \<Rightarrow> bytes \<Rightarrow> nat \<Rightarrow> bytes \<Rightarrow> bytes" where
  "hash_data_block H salt dbs block = hash_block H salt (pad_block dbs block)"

definition put_at :: "nat \<Rightarrow> bytes \<Rightarrow> bytes \<Rightarrow> bytes" where
  "put_at off xs sb = take off sb @ xs @ drop (off + length xs) sb"

definition superblock :: "verity_params \<Rightarrow> u64 \<Rightarrow> bytes option" where
  "superblock p data_blocks =
     (let sb = replicate (unat (vp_hash_size p)) 0; salt = take 256 (vp_salt p) in
      if unat (vp_hash_size p) < 88 + length salt then None
      else Some (put_at 88 salt (put_at 80 (le_bytes 2 (of_nat (length salt) :: u16))
        (put_at 72 (le_bytes 8 data_blocks) (put_at 68 (le_bytes 4 (vp_hash_size p))
        (put_at 64 (le_bytes 4 (vp_data_size p)) (put_at 32 (str_bytes ''sha256'')
        (put_at 16 (vp_uuid p) (put_at 12 (le_bytes 4 (1 :: u32)) (put_at 8 (le_bytes 4 (1 :: u32))
        (put_at 0 (str_bytes ''verity'' @ [0, 0]) sb)))))))))))"

definition blk :: "nat \<Rightarrow> 'a list \<Rightarrow> nat \<Rightarrow> 'a list" where
  "blk k bs i = take k (drop (i * k) bs)"

text \<open>A zeroed buffer of \<open>n\<close> bytes whose 32-byte slots take the digests in order.\<close>

definition fill_slots :: "nat \<Rightarrow> bytes list \<Rightarrow> bytes" where
  "fill_slots n ds =
     (let used = take (n div digest_size) ds in concat used @ replicate (n - digest_size * length used) 0)"

definition leaf_level :: "hash_fun \<Rightarrow> bytes \<Rightarrow> nat \<Rightarrow> nat \<Rightarrow> nat \<Rightarrow> bytes \<Rightarrow> bytes" where
  "leaf_level H salt dbs hbs n bs =
     fill_slots (nat_ceil n (hbs div digest_size) * hbs)
       (map (\<lambda>i. hash_data_block H salt dbs (blk dbs bs i)) [0..<n])"

definition level_up :: "hash_fun \<Rightarrow> bytes \<Rightarrow> nat \<Rightarrow> bytes \<Rightarrow> bytes" where
  "level_up H salt hbs below =
     fill_slots (nat_ceil (length below div hbs) (hbs div digest_size) * hbs)
       (map (\<lambda>i. hash_block H salt (blk hbs below i)) [0..<length below div hbs])"

text \<open>The levels above a level, bottom up, that level first.\<close>

partial_function (option) stack_levels :: "hash_fun \<Rightarrow> bytes \<Rightarrow> nat \<Rightarrow> bytes \<Rightarrow> bytes list option" where
  "stack_levels H salt hbs below =
     (if length below div hbs \<le> 1 then Some [below]
      else Option.bind (stack_levels H salt hbs (level_up H salt hbs below)) (\<lambda>ls. Some (below # ls)))"

definition format :: "hash_fun \<Rightarrow> bytes \<Rightarrow> verity_params \<Rightarrow> verity option" where
  "format H bs p =
     (let dbs = unat (vp_data_size p); hbs = unat (vp_hash_size p);
          n = max (nat_ceil (length bs) dbs) 1 in
      if dbs = 0 then None
      else if n = 1 then
        map_option (\<lambda>sb. \<lparr>ve_device = sb,
            ve_root = hash_data_block H (vp_salt p) dbs (take (min (length bs) dbs) bs),
            ve_data_blocks = of_nat n, ve_levels = 0, ve_params = p\<rparr>) (superblock p (of_nat n))
      else if hbs < digest_size then None
      else
        (case stack_levels H (vp_salt p) hbs (leaf_level H (vp_salt p) dbs hbs n bs) of
           None \<Rightarrow> None
         | Some levels \<Rightarrow>
             map_option (\<lambda>sb. \<lparr>ve_device = sb @ concat (rev levels),
                 ve_root = hash_block H (vp_salt p) (last levels),
                 ve_data_blocks = of_nat n, ve_levels = length levels, ve_params = p\<rparr>)
               (superblock p (of_nat n))))"

subsection \<open>Sizes\<close>

subsection \<open>Slots and levels\<close>

lemma blk_concat:
  "(\<And>d. d \<in> set ds \<Longrightarrow> length d = k) \<Longrightarrow> i < length ds \<Longrightarrow> blk k (concat ds @ z) i = ds ! i"
proof (induction ds arbitrary: i)
  case (Cons d ds)
  then have d: "length d = k" by simp
  show ?case
  proof (cases i)
    case (Suc j)
    with Cons have "blk k (concat ds @ z) j = ds ! j" by simp
    with d Suc show ?thesis by (simp add: blk_def)
  qed (use d in \<open>simp add: blk_def\<close>)
qed simp

lemma fill_slots:
  assumes "\<And>d. d \<in> set ds \<Longrightarrow> length d = 32" and "length ds * 32 \<le> n"
  shows "length (fill_slots n ds) = n" and "i < length ds \<Longrightarrow> blk 32 (fill_slots n ds) i = ds ! i"
proof -
  have "length ds \<le> n div 32" using assms(2) by simp
  then have fs: "fill_slots n ds = concat ds @ replicate (n - 32 * length ds) 0"
    by (simp add: fill_slots_def digest_size_def Let_def)
  show "length (fill_slots n ds) = n" using assms length_concat_same [of 32 ds] by (simp add: fs list_all_iff)
  show "i < length ds \<Longrightarrow> blk 32 (fill_slots n ds) i = ds ! i"
    unfolding fs by (rule blk_concat [OF assms(1)])
qed

text \<open>A digest of 32 bytes; hash blocks of \<open>h\<close> digests.\<close>

definition digest_ok :: "hash_fun \<Rightarrow> bool" where
  "digest_ok H \<longleftrightarrow> (\<forall>bs. length (H bs) = 32)"

lemma length_hash_block [simp]: "digest_ok H \<Longrightarrow> length (hash_block H salt b) = 32"
  by (simp add: digest_ok_def hash_block_def)

lemma length_hash_data_block [simp]: "digest_ok H \<Longrightarrow> length (hash_data_block H salt k b) = 32"
  by (simp add: hash_data_block_def)

lemma leaf_level_slots:
  assumes "digest_ok H" and "0 < h"
  shows "length (leaf_level H salt dbs (32 * h) n bs) = nat_ceil n h * (32 * h)"
    and "x < n \<Longrightarrow> blk 32 (leaf_level H salt dbs (32 * h) n bs) x = hash_data_block H salt dbs (blk dbs bs x)"
proof -
  let ?ds = "map (\<lambda>i. hash_data_block H salt dbs (blk dbs bs i)) [0..<n]"
  have "n * 32 \<le> nat_ceil n h * (32 * h)" using nat_ceil_bounds(1) [OF assms(2), of n] by simp
  then have fit: "length ?ds * 32 \<le> nat_ceil n h * (32 * h)" by simp
  have len: "\<And>d. d \<in> set ?ds \<Longrightarrow> length d = 32" using assms(1) by auto
  have level: "leaf_level H salt dbs (32 * h) n bs = fill_slots (nat_ceil n h * (32 * h)) ?ds"
    by (simp add: leaf_level_def digest_size_def)
  show "length (leaf_level H salt dbs (32 * h) n bs) = nat_ceil n h * (32 * h)"
    unfolding level by (rule fill_slots(1) [OF len fit])
  show "x < n \<Longrightarrow> blk 32 (leaf_level H salt dbs (32 * h) n bs) x = hash_data_block H salt dbs (blk dbs bs x)"
    unfolding level using fill_slots(2) [OF len fit, of x] by simp
qed

lemma level_up_slots:
  assumes "digest_ok H" and "0 < h" and "length below = m * (32 * h)"
  shows "length (level_up H salt (32 * h) below) = nat_ceil m h * (32 * h)"
    and "x < m \<Longrightarrow> blk 32 (level_up H salt (32 * h) below) x = hash_block H salt (blk (32 * h) below x)"
proof -
  let ?ds = "map (\<lambda>i. hash_block H salt (blk (32 * h) below i)) [0..<m]"
  have "m * 32 \<le> nat_ceil m h * (32 * h)" using nat_ceil_bounds(1) [OF assms(2), of m] by simp
  then have fit: "length ?ds * 32 \<le> nat_ceil m h * (32 * h)" by simp
  have len: "\<And>d. d \<in> set ?ds \<Longrightarrow> length d = 32" using assms(1) by auto
  have "length below div (32 * h) = m" using assms(2,3) by simp
  then have level: "level_up H salt (32 * h) below = fill_slots (nat_ceil m h * (32 * h)) ?ds"
    by (simp only: level_up_def) (simp add: digest_size_def)
  show "length (level_up H salt (32 * h) below) = nat_ceil m h * (32 * h)"
    unfolding level by (rule fill_slots(1) [OF len fit])
  show "x < m \<Longrightarrow> blk 32 (level_up H salt (32 * h) below) x = hash_block H salt (blk (32 * h) below x)"
    unfolding level using fill_slots(2) [OF len fit, of x] by simp
qed

text \<open>How many levels a number of blocks needs, and that the stacking ends.\<close>

lemma nat_ceil_smaller: "2 \<le> h \<Longrightarrow> 1 < n \<Longrightarrow> nat_ceil n h < n"
proof -
  assume h: "2 \<le> h" and n: "1 < n"
  have "n \<le> (n - 1) * 2" using n by simp
  also have "\<dots> \<le> (n - 1) * h" using h by simp
  finally have "nat_ceil n h \<le> n - 1" using h by (intro nat_ceil_le) simp_all
  with n show ?thesis by simp
qed

function tree_levels :: "nat \<Rightarrow> nat \<Rightarrow> nat" where
  "tree_levels h n = (if n \<le> 1 \<or> h < 2 then 0 else Suc (tree_levels h (nat_ceil n h)))"
  by auto
termination by (relation "measure snd") (auto intro: nat_ceil_smaller)

declare tree_levels.simps [simp del]

lemma nat_ceil_pos: "0 < h \<Longrightarrow> 0 < n \<Longrightarrow> 0 < nat_ceil n h"
  using less_nat_ceil_iff [of h 0 n] by simp

definition level_stack :: "hash_fun \<Rightarrow> bytes \<Rightarrow> nat \<Rightarrow> nat \<Rightarrow> bytes list \<Rightarrow> bool" where
  "level_stack H salt h m ls \<longleftrightarrow>
     (\<forall>i < length ls. length (ls ! i) = nat_ceil m (h ^ i) * (32 * h))
     \<and> (\<forall>i x. Suc i < length ls \<longrightarrow> x < nat_ceil m (h ^ i) \<longrightarrow>
          blk 32 (ls ! Suc i) x = hash_block H salt (blk (32 * h) (ls ! i) x))
     \<and> length (last ls) = 32 * h"

lemma nat_ceil_one [simp]: "nat_ceil k (Suc 0) = k"
  by (simp add: nat_ceil_def)

lemma stack_levels_ok:
  assumes H: "digest_ok H" and h: "2 \<le> h"
  shows "0 < m \<Longrightarrow> length below = m * (32 * h) \<Longrightarrow>
    \<exists>ls. stack_levels H salt (32 * h) below = Some ls \<and> length ls = Suc (tree_levels h m) \<and> ls ! 0 = below
      \<and> level_stack H salt h m ls"
proof (induction m arbitrary: below rule: less_induct)
  case (less m)
  have q: "length below div (32 * h) = m" using less.prems(2) h by simp
  show ?case
  proof (cases "m \<le> 1")
    case True
    then have "stack_levels H salt (32 * h) below = Some [below]" using q by (subst stack_levels.simps) simp
    with True less.prems show ?thesis by (auto simp: tree_levels.simps [of h m] level_stack_def)
  next
    case False
    let ?up = "level_up H salt (32 * h) below" and ?c = "nat_ceil m h"
    have h0: "0 < h" using h by simp
    note up = level_up_slots [OF H h0 less.prems(2), where salt = salt]
    have "?c < m" using h False by (simp add: nat_ceil_smaller)
    from less.IH [OF this nat_ceil_pos [OF h0 less.prems(1)] up(1)] obtain ls where
      ls: "stack_levels H salt (32 * h) ?up = Some ls" "length ls = Suc (tree_levels h ?c)" "ls ! 0 = ?up"
        "level_stack H salt h ?c ls" by blast
    have "stack_levels H salt (32 * h) below = Some (below # ls)"
      using q False ls(1) by (subst stack_levels.simps) simp
    moreover have "length (below # ls) = Suc (tree_levels h m)"
      using ls(2) False h by (simp add: tree_levels.simps [of h m])
    moreover have "level_stack H salt h m (below # ls)"
    proof -
      have c: "nat_ceil ?c (h ^ i) = nat_ceil m (h ^ Suc i)" for i using h0 by (simp add: nat_ceil_nested)
      show ?thesis
        unfolding level_stack_def
      proof (intro conjI allI impI)
        fix i
        assume "i < length (below # ls)"
        then show "length ((below # ls) ! i) = nat_ceil m (h ^ i) * (32 * h)"
          using ls(4) less.prems(2) c by (cases i) (auto simp: level_stack_def simp del: power_Suc)
      next
        fix i x
        assume "Suc i < length (below # ls)" "x < nat_ceil m (h ^ i)"
        then show "blk 32 ((below # ls) ! Suc i) x = hash_block H salt (blk (32 * h) ((below # ls) ! i) x)"
          using ls(3,4) up(2) c by (cases i) (auto simp: level_stack_def simp del: power_Suc)
      next
        show "length (last (below # ls)) = 32 * h" using ls(2,4) by (auto simp: level_stack_def)
      qed
    qed
    ultimately show ?thesis by auto
  qed
qed

subsection \<open>What the kernel checks\<close>

text \<open>
  The check of \<open>dm-verity\<close>, which is not part of the repository: the levels follow the superblock, the top
  one first; a data block is read by hashing it, comparing with its slot in the leaves, and so on upward
  to the root.  \<open>n\<close> is the number of data blocks and \<open>h\<close> the number of digests in a hash block.
\<close>

definition tree_blocks :: "nat \<Rightarrow> nat \<Rightarrow> nat \<Rightarrow> nat" where
  "tree_blocks h n i = nat_ceil n (h ^ Suc i)"

definition level_start :: "nat \<Rightarrow> nat \<Rightarrow> nat \<Rightarrow> nat" where
  "level_start h n i = 1 + sum_list (map (tree_blocks h n) [Suc i..<tree_levels h n])"

definition tree_block :: "bytes \<Rightarrow> nat \<Rightarrow> nat \<Rightarrow> nat \<Rightarrow> nat \<Rightarrow> bytes" where
  "tree_block dev h n i y = blk (32 * h) dev (level_start h n i + y)"

definition tree_slot :: "bytes \<Rightarrow> nat \<Rightarrow> nat \<Rightarrow> nat \<Rightarrow> nat \<Rightarrow> bytes" where
  "tree_slot dev h n i x = blk 32 (tree_block dev h n i (x div h)) (x mod h)"

definition tree_path :: "bytes \<Rightarrow> nat \<Rightarrow> nat \<Rightarrow> nat \<Rightarrow> bytes list" where
  "tree_path dev h n x = map (\<lambda>i. tree_block dev h n i (x div h ^ Suc i)) [0..<tree_levels h n]"

definition verity_accepts ::
  "hash_fun \<Rightarrow> bytes \<Rightarrow> nat \<Rightarrow> nat \<Rightarrow> bytes \<Rightarrow> bytes \<Rightarrow> nat \<Rightarrow> bytes \<Rightarrow> bool" where
  "verity_accepts H salt h n root dev x b \<longleftrightarrow>
     x < n
     \<and> (let path = b # tree_path dev h n x in
        hash_block H salt (last path) = root
        \<and> list_all (\<lambda>i. hash_block H salt (path ! i) = tree_slot dev h n i (x div h ^ i)) [0..<tree_levels h n])"

text \<open>One root, one path: where the hash tells the blocks apart, two accepted reads are the same.\<close>

lemma accepts_unique:
  assumes acc: "verity_accepts H salt h n root dev x b" "verity_accepts H salt h n root dev' x b'"
    and inj: "inj_on (hash_block H salt) (set (b # tree_path dev h n x) \<union> set (b' # tree_path dev' h n x))"
  shows "b = b'"
proof -
  let ?L = "tree_levels h n" and ?p = "b # tree_path dev h n x" and ?q = "b' # tree_path dev' h n x"
  have len: "length ?p = Suc ?L" "length ?q = Suc ?L" by (simp_all add: tree_path_def)
  have same: "?p ! k = ?q ! k" if "hash_block H salt (?p ! k) = hash_block H salt (?q ! k)" "k \<le> ?L" for k
  proof (rule inj_onD [OF inj that(1)])
    show "?p ! k \<in> set ?p \<union> set ?q" "?q ! k \<in> set ?p \<union> set ?q"
      using that(2) len nth_mem [of k ?p] nth_mem [of k ?q] by (simp_all del: set_simps nth_Cons_Suc)
  qed
  have "?p ! (?L - k) = ?q ! (?L - k)" if "k \<le> ?L" for k
    using that
  proof (induction k)
    case 0
    have "hash_block H salt (last ?p) = hash_block H salt (last ?q)"
      using acc by (simp add: verity_accepts_def Let_def)
    moreover have "last ?p = ?p ! ?L" "last ?q = ?q ! ?L" 
      by (metis last_conv_nth len diff_Suc_1 list.distinct(1))+
    ultimately show ?case using same [of ?L] by (simp only: diff_zero)
  next
    case (Suc k)
    define i where "i = ?L - Suc k"
    have i: "i < ?L" "?L - k = Suc i" using Suc.prems by (auto simp: i_def)
    have step: "hash_block H salt ((b # tree_path dev h n x) ! i) = tree_slot dev h n i (x div h ^ i)"
      if "verity_accepts H salt h n root dev x b" for dev b
      using that i(1) by (auto simp: verity_accepts_def Let_def list_all_iff)
    have "tree_block dev h n i (x div h ^ Suc i) = tree_block dev' h n i (x div h ^ Suc i)"
      using Suc i by (simp add: tree_path_def)
    then have "tree_slot dev h n i (x div h ^ i) = tree_slot dev' h n i (x div h ^ i)"
      by (simp add: tree_slot_def div_mult2_eq mult.commute [of h])
    then show ?case using same [of i] step [OF acc(1)] step [OF acc(2)] i by (simp add: i_def [symmetric])
  qed
  from this [of ?L] show ?thesis by simp
qed

subsection \<open>What is built is accepted\<close>

definition params_ok :: "verity_params \<Rightarrow> nat \<Rightarrow> bool" where
  "params_ok p h \<longleftrightarrow>
     0 < vp_data_size p \<and> 2 \<le> h \<and> unat (vp_hash_size p) = 32 * h
     \<and> 88 + length (vp_salt p) \<le> 32 * h \<and> length (vp_salt p) \<le> 256 \<and> length (vp_uuid p) = 16"

lemma length_put_at [simp]: "off + length xs \<le> length sb \<Longrightarrow> length (put_at off xs sb) = length sb"
  by (simp add: put_at_def)

lemma superblock_ok:
  assumes "params_ok p h"
  shows "\<exists>sb. superblock p n = Some sb \<and> length sb = 32 * h"
  using assms by (auto simp: superblock_def params_ok_def Let_def)

lemma blk_append: "length xs = k * j \<Longrightarrow> blk k (xs @ ys) (j + i) = blk k ys i"
  by (simp add: blk_def algebra_simps)

lemma blk_within: "i < m \<Longrightarrow> length xs = m * k \<Longrightarrow> blk k (xs @ ys) i = blk k xs i"
proof -
  assume "i < m" and len: "length xs = m * k"
  then have "Suc i * k \<le> m * k" by (intro mult_le_mono1) simp
  with len show ?thesis by (simp add: blk_def)
qed

lemma length_blk: "i < m \<Longrightarrow> length xs = m * k \<Longrightarrow> length (blk k xs i) = k"
proof -
  assume "i < m" and len: "length xs = m * k"
  then have "Suc i * k \<le> m * k" by (intro mult_le_mono1) simp
  with len show ?thesis by (simp add: blk_def)
qed

lemma blk_blk: "0 < h \<Longrightarrow> blk 32 (blk (32 * h) xs (x div h)) (x mod h) = blk 32 xs x"
proof -
  assume "0 < h"
  then have "Suc (x mod h) * 32 \<le> h * 32" by (intro mult_le_mono1) (simp add: Suc_le_eq)
  then have fits: "32 \<le> 32 * h - x mod h * 32" by simp
  have at: "x mod h * 32 + x div h * (32 * h) = x * 32"
    by (metis add.commute div_mult_mod_eq distrib_right mult.assoc mult.commute)
  have "blk 32 (blk (32 * h) xs (x div h)) (x mod h) = take 32 (take (32 * h - x mod h * 32) (drop (x * 32) xs))"
    unfolding blk_def by (simp only: drop_take drop_drop at)
  also have "\<dots> = blk 32 xs x" using fits by (simp add: blk_def min_def)
  finally show ?thesis .
qed

lemma level_place:
  assumes sb: "length sb = 32 * h" and h: "0 < h"
    and ls: "length ls = tree_levels h n" "\<And>i. i < length ls \<Longrightarrow> length (ls ! i) = tree_blocks h n i * (32 * h)"
    and i: "i < length ls" and y: "y < tree_blocks h n i"
  shows "tree_block (sb @ concat (rev ls)) h n i y = blk (32 * h) (ls ! i) y"
proof -
  have split: "rev ls = rev (drop (Suc i) ls) @ ls ! i # rev (take i ls)"
    by (metis id_take_nth_drop [OF i] append.assoc append_Cons append_Nil rev.simps(2) rev_append)
  have "length (concat (rev (drop (Suc i) ls))) = sum_list (map length (drop (Suc i) ls))"
    by (simp add: length_concat rev_map [symmetric] sum_list_rev)
  also have "map length (drop (Suc i) ls) = map (\<lambda>j. tree_blocks h n j * (32 * h)) [Suc i..<length ls]"
    by (rule nth_equalityI) (auto simp: ls(2) simp del: upt_Suc)
  also have "sum_list \<dots> = (level_start h n i - 1) * (32 * h)"
    by (simp add: level_start_def ls(1) sum_list_mult_const)
  finally have len: "length (sb @ concat (rev (drop (Suc i) ls))) = 32 * h * level_start h n i"
    using sb by (simp add: level_start_def algebra_simps)
  have "sb @ concat (rev ls) = (sb @ concat (rev (drop (Suc i) ls))) @ (ls ! i @ concat (rev (take i ls)))"
    by (simp add: split)
  then have "tree_block (sb @ concat (rev ls)) h n i y = blk (32 * h) (ls ! i @ concat (rev (take i ls))) y"
    unfolding tree_block_def by (simp only: blk_append [OF len])
  also have "\<dots> = blk (32 * h) (ls ! i) y" by (rule blk_within [OF y ls(2) [OF i]])
  finally show ?thesis .
qed

definition data_block_count :: "verity_params \<Rightarrow> bytes \<Rightarrow> nat" where
  "data_block_count p bs = max (nat_ceil (length bs) (unat (vp_data_size p))) 1"

definition data_block :: "verity_params \<Rightarrow> bytes \<Rightarrow> nat \<Rightarrow> bytes" where
  "data_block p bs x = pad_block (unat (vp_data_size p)) (blk (unat (vp_data_size p)) bs x)"

lemma div_less_blocks: "0 < h \<Longrightarrow> x < n \<Longrightarrow> x div h ^ Suc i < tree_blocks h n i"
  unfolding tree_blocks_def
  by (subst less_nat_ceil_iff) (simp_all del: power_Suc add: le_less_trans [OF div_times_less_eq_dividend])

lemma stack_accepts:
  assumes h: "2 \<le> h" and n: "1 < n" and sb: "length sb = 32 * h"
    and ls: "length ls = tree_levels h n" "level_stack H salt h (nat_ceil n h) ls"
    and leaf: "blk 32 (ls ! 0) x = hash_block H salt b" and x: "x < n"
  shows "verity_accepts H salt h n (hash_block H salt (last ls)) (sb @ concat (rev ls)) x b"
proof -
  let ?dev = "sb @ concat (rev ls)" and ?L = "tree_levels h n"
  have h0: "0 < h" using h by simp
  have L: "0 < ?L" using n h by (simp add: tree_levels.simps [of h n])
  have c: "nat_ceil (nat_ceil n h) (h ^ i) = tree_blocks h n i" for i
    using h0 by (simp add: nat_ceil_nested tree_blocks_def)
  have len: "\<And>i. i < length ls \<Longrightarrow> length (ls ! i) = tree_blocks h n i * (32 * h)"
    using ls(2) c by (simp add: level_stack_def)
  have block: "tree_block ?dev h n i (x div h ^ Suc i) = blk (32 * h) (ls ! i) (x div h ^ Suc i)" if "i < ?L" for i
    by (rule level_place [OF sb h0 ls(1) len _ div_less_blocks [OF h0 x]]) (use that ls(1) in simp_all)
  have slot: "tree_slot ?dev h n i (x div h ^ i) = blk 32 (ls ! i) (x div h ^ i)" if "i < ?L" for i
  proof -
    have "x div h ^ i div h = x div h ^ Suc i" by (simp only: power_Suc2 div_mult2_eq)
    then show ?thesis using block [OF that] blk_blk [OF h0, of "ls ! i" "x div h ^ i"] by (simp add: tree_slot_def)
  qed
  let ?path = "b # tree_path ?dev h n x"
  have "hash_block H salt (?path ! i) = tree_slot ?dev h n i (x div h ^ i)" if i: "i < ?L" for i
  proof (cases i)
    case 0
    then show ?thesis using slot [OF i] leaf by simp
  next
    case (Suc j)
    have "blk 32 (ls ! Suc j) (x div h ^ Suc j) = hash_block H salt (blk (32 * h) (ls ! j) (x div h ^ Suc j))"
      using ls i Suc div_less_blocks [OF h0 x, of j] c by (auto simp: level_stack_def)
    then show ?thesis using slot [OF i] block [of j] i Suc by (simp add: tree_path_def)
  qed
  moreover have "last ?path = last ls"
  proof -
    obtain k where k: "?L = Suc k" using L by (cases ?L) auto
    have "length (last ls) = 32 * h" using ls(2) by (simp add: level_stack_def)
    moreover have last: "last ls = ls ! k" using ls(1) k by (metis L diff_Suc_1 last_conv_nth length_greater_0_conv)
    ultimately have "tree_blocks h n k = 1" using len [of k] ls(1) k h0 by simp
    with div_less_blocks [OF h0 x, of k] have "x div h ^ Suc k = 0" by simp
    moreover have "last ?path = tree_block ?dev h n k (x div h ^ Suc k)" using k by (simp add: tree_path_def)
    ultimately show ?thesis
      using block [of k] k last \<open>length (last ls) = 32 * h\<close> by (simp add: blk_def del: power_Suc)
  qed
  ultimately show ?thesis using x by (simp add: verity_accepts_def Let_def list_all_iff)
qed

theorem format_accepts:
  assumes H: "digest_ok H" and p: "params_ok p h"
  shows "\<exists>v. format H bs p = Some v \<and> (\<forall>x < data_block_count p bs.
    verity_accepts H (vp_salt p) h (data_block_count p bs) (ve_root v) (ve_device v) x (data_block p bs x))"
proof -
  let ?n = "data_block_count p bs" and ?dbs = "unat (vp_data_size p)" and ?salt = "vp_salt p"
  have h: "2 \<le> h" "0 < h" and hbs: "unat (vp_hash_size p) = 32 * h" using p by (auto simp: params_ok_def)
  have dbs: "?dbs \<noteq> 0" using p by (simp add: params_ok_def word_gt_0 unat_eq_0)
  obtain sb where sb: "superblock p (of_nat ?n) = Some sb" "length sb = 32 * h" using superblock_ok [OF p] by blast
  show ?thesis
  proof (cases "?n = 1")
    case True
    have "tree_levels h 1 = 0" by (simp add: tree_levels.simps)
    moreover have "take (min (length bs) ?dbs) bs = blk ?dbs bs 0" by (cases "length bs \<le> ?dbs") (simp_all add: blk_def)
    ultimately show ?thesis
      using True dbs sb(1)
      by (auto simp: format_def Let_def data_block_count_def verity_accepts_def tree_path_def hash_data_block_def data_block_def)
  next
    case False
    then have n: "1 < ?n" by (simp add: data_block_count_def)
    let ?leaf = "leaf_level H ?salt ?dbs (32 * h) ?n bs"
    note leaf = leaf_level_slots [OF H h(2), where salt = ?salt and dbs = ?dbs and n = ?n and bs = bs]
    have "0 < nat_ceil ?n h" using n h(2) by (simp add: nat_ceil_pos)
    from stack_levels_ok [OF H h(1) this leaf(1)] obtain ls where
      ls: "stack_levels H ?salt (32 * h) ?leaf = Some ls" "length ls = Suc (tree_levels h (nat_ceil ?n h))"
        "ls ! 0 = ?leaf" "level_stack H ?salt h (nat_ceil ?n h) ls" by blast
    have len: "length ls = tree_levels h ?n" using ls(2) n h(1) by (simp add: tree_levels.simps [of h ?n])
    have "format H bs p = Some \<lparr>ve_device = sb @ concat (rev ls), ve_root = hash_block H ?salt (last ls),
        ve_data_blocks = of_nat ?n, ve_levels = length ls, ve_params = p\<rparr>"
      unfolding format_def Let_def data_block_count_def [symmetric] hbs
      using sb(1) ls(1) dbs n h(2) by (simp add: digest_size_def)
    moreover have "verity_accepts H ?salt h ?n (hash_block H ?salt (last ls)) (sb @ concat (rev ls)) x (data_block p bs x)"
      if "x < ?n" for x
      by (rule stack_accepts [OF h(1) n sb(2) len ls(4) _ that])
        (use leaf(2) [OF that] ls(3) in \<open>simp add: hash_data_block_def data_block_def\<close>)
    ultimately show ?thesis by simp
  qed
qed

end
