(* ===== verification/KeyImages.thy ===== *)
theory KeyImages
  imports CpioTree Verity Samples
begin

section \<open>A small initramfs and a small base\<close>

definition init_tree :: cpio_tree where
  "init_tree =
     [(''dev'', CDir default_dir_mode [(''console'', CDev 0x180 s_ifchr 5 1)]), (''init'', CFile 0x1ED [1, 2, 3])]"

lemma init_tree_built: "cpio_built init_tree"
proof -
  have perms: "0x1ED AND perm_bits = 0x1ED" "0x180 AND perm_bits = 0x180" by (simp_all add: perm_bits_def)
  have "insert_file ''init'' [1, 2, 3] 0x1ED cpio_new = Inr [(''init'', CFile 0x1ED [1, 2, 3])]"
    by (simp add: insert_file_def cpio_put_def cpio_components_def Let_def cpio_new_def perms)
  then have "cpio_built [(''init'', CFile 0x1ED [1, 2, 3])]" by (rule built_file [OF built_new])
  moreover have "cpio_device ''dev/console'' 0x180 NkChar 5 1 [(''init'', CFile 0x1ED [1, 2, 3])] = Inr init_tree"
    by (simp add: cpio_device_def cpio_put_def cpio_components_def Let_def perms kind_ifmt_def init_tree_def less_char_def)
  ultimately show ?thesis by (rule built_device)
qed

lemma init_tree_fits: "cpio_fits init_tree"
  by (simp add: cpio_fits_def init_tree_def trailer_def child_path_def utf8_str_ascii ascii_str_def)

definition sum_hash :: hash_fun where
  "sum_hash bs = pad32 (of_nat (length bs) # take 31 bs)"

definition sum_params :: verity_params where
  "sum_params = \<lparr>vp_data_size = 1, vp_hash_size = 128, vp_salt = [], vp_uuid = default_uuid\<rparr>"

lemma sum_hash_ok: "digest_ok sum_hash"
  by (simp add: digest_ok_def sum_hash_def)

lemma sum_params_ok: "params_ok sum_params 4"
  by (simp add: params_ok_def sum_params_def default_uuid_def)

section \<open>What the images promise\<close>



text \<open>C28.  The root pins the base: with hash blocks of at least two digests and room for the superblock, the
  hash device is built for every image; every block of the image, the last one padded with zeros,
  passes the kernel's check against it; and no other contents of a block, read with whatever hash
  device, pass against the same root, unless the hash takes two different blocks of the two paths to
  one digest.\<close>

theorem root_pins_base:
  assumes "digest_ok H" and "params_ok p h"
  shows "\<exists>v. format H base p = Some v
    \<and> (\<forall>x < data_block_count p base.
        verity_accepts H (vp_salt p) h (data_block_count p base) (ve_root v) (ve_device v) x (data_block p base x))
    \<and> (\<forall>x dev b. x < data_block_count p base
        \<longrightarrow> verity_accepts H (vp_salt p) h (data_block_count p base) (ve_root v) dev x b
        \<longrightarrow> inj_on (hash_block H (vp_salt p))
              (set (data_block p base x # tree_path (ve_device v) h (data_block_count p base) x)
               \<union> set (b # tree_path dev h (data_block_count p base) x))
        \<longrightarrow> b = data_block p base x)"
  using format_accepts [OF assms, of base] accepts_unique by metis

theorem root_pins_base_witness:
  "\<exists>v. format sum_hash [7] sum_params = Some v \<and> verity_accepts sum_hash [] 4 1 (ve_root v) (ve_device v) 0 [7]
    \<and> \<not> verity_accepts sum_hash [] 4 1 (ve_root v) [] 0 [8]"
proof -
  have one: "data_block_count sum_params [7] = 1" "data_block sum_params [7] 0 = [7]" "vp_salt sum_params = []"
    by (simp_all add: data_block_count_def sum_params_def nat_ceil_def data_block_def pad_block_def blk_def)
  have "tree_levels 4 1 = 0" by (subst tree_levels.simps) simp
  then have path: "tree_path dev 4 1 0 = []" for dev unfolding tree_path_def by (simp only: upt.simps list.map)
  have "inj_on (hash_block sum_hash []) (set [[7]] \<union> set [[8]])"
    by (simp add: hash_block_def sum_hash_def pad32_def)
  then have inj: "inj_on (hash_block sum_hash []) (set (data_block sum_params [7] 0 # tree_path dev 4 1 0)
      \<union> set ([8] # tree_path dev' 4 1 0))" for dev dev'
    unfolding one path .
  obtain v where v: "format sum_hash [7] sum_params = Some v"
    "\<And>x. x < 1 \<Longrightarrow> verity_accepts sum_hash [] 4 1 (ve_root v) (ve_device v) x (data_block sum_params [7] x)"
    "\<And>x dev b. x < 1 \<Longrightarrow> verity_accepts sum_hash [] 4 1 (ve_root v) dev x b \<Longrightarrow>
      inj_on (hash_block sum_hash []) (set (data_block sum_params [7] x # tree_path (ve_device v) 4 1 x) \<union> set (b # tree_path dev 4 1 x))
      \<Longrightarrow> b = data_block sum_params [7] x"
    using root_pins_base [OF sum_hash_ok sum_params_ok, of "[7]"] unfolding one(1,3) by blast
  have "verity_accepts sum_hash [] 4 1 (ve_root v) (ve_device v) 0 [7]" using v(2) [of 0] one(2) by simp
  moreover have "\<not> verity_accepts sum_hash [] 4 1 (ve_root v) [] 0 [8]"
    using v(3) [OF _ _ inj] one(2) by fastforce
  ultimately show ?thesis using v(1) by blast
qed

end
