(* ===== verification/KeyModules.thy ===== *)
theory KeyModules
  imports Modules KeyErrors
begin

section \<open>The kernel modules of a key\<close>

text \<open>
  \<open>crates/keybuild/src/lib.rs\<close>: which modules a request needs, and the \<open>modules.dep\<close> that is written beside
  them.  The parser of the file is the text of the one in \<open>init\<close> and is not modelled twice
  (\<open>parse_modules_dep\<close>); a \<open>BTreeMap\<close> of names and a \<open>BTreeSet\<close> of paths are sorted lists.
\<close>

definition opt_or :: "'a option \<Rightarrow> 'a option \<Rightarrow> 'a option" where
  "opt_or a b = (case a of Some x \<Rightarrow> Some x | None \<Rightarrow> b)"

definition strip_suf :: "string \<Rightarrow> string \<Rightarrow> string option" where
  "strip_suf suf s = map_option rev (strip_pre (rev suf) (rev s))"

text \<open>\<open>Path::file_name\<close>: the last component, if it is a name.\<close>

definition file_name :: "string \<Rightarrow> string option" where
  "file_name p =
     (case path_components p of
        [] \<Rightarrow> None
      | c # cs \<Rightarrow> (case last (c # cs) of Normal s \<Rightarrow> Some s | _ \<Rightarrow> None))"

definition underscored :: "string \<Rightarrow> string" where
  "underscored s = map (\<lambda>c. if c = CHR ''-'' then CHR ''_'' else c) s"

definition kmod_name :: "string \<Rightarrow> string" where
  "kmod_name relpath =
     (let file = (case file_name relpath of Some s \<Rightarrow> if utf8_str s then s else [] | None \<Rightarrow> []);
          base = (case opt_or (strip_suf ''.ko.xz'' file) (opt_or (strip_suf ''.ko.zst'' file)
                    (opt_or (strip_suf ''.ko.gz'' file) (strip_suf ''.ko'' file))) of Some b \<Rightarrow> b | None \<Rightarrow> file)
      in underscored base)"

text \<open>The index of modules by name: the first path of a name stays.\<close>

definition modules_by_name :: "dep_map \<Rightarrow> (string \<times> string) list" where
  "modules_by_name deps = fold (\<lambda>(path, _) m. if map_of m (kmod_name path) = None then (kmod_name path, path) # m else m) deps []"

text \<open>A set of paths in the order of \<open>Path\<close>; an equal path is not inserted again.\<close>

fun path_insert :: "string \<Rightarrow> string list \<Rightarrow> string list" where
  "path_insert p [] = [p]"
| "path_insert p (q # qs) =
     (if path_components p < path_components q then p # q # qs
      else if path_eq p q then q # qs
      else q # path_insert p qs)"

definition path_member :: "string \<Rightarrow> string list \<Rightarrow> bool" where
  "path_member p qs \<longleftrightarrow> list_ex (path_eq p) qs"

text \<open>The walk over the stack, whose top is the head here.\<close>

partial_function (option) close_modules :: "dep_map \<Rightarrow> string list \<Rightarrow> string list \<Rightarrow> string list option" where
  [code]: "close_modules deps stack closure =
     (case stack of
        [] \<Rightarrow> Some closure
      | m # rest \<Rightarrow>
          if path_member m closure then close_modules deps rest closure
          else
            close_modules deps
              (rev (filter (\<lambda>d. \<not> path_member d (path_insert m closure)) (needs_of deps m)) @ rest)
              (path_insert m closure))"

definition requested_paths :: "dep_map \<Rightarrow> string list \<Rightarrow> string list" where
  "requested_paths deps requested = List.map_filter (\<lambda>n. map_of (modules_by_name deps) (underscored n)) requested"

definition unknown_names :: "dep_map \<Rightarrow> string list \<Rightarrow> string list" where
  "unknown_names deps requested = filter (\<lambda>n. map_of (modules_by_name deps) (underscored n) = None) requested"

text \<open>\<open>None\<close> would be a walk that does not end.\<close>

definition module_closure :: "dep_map \<Rightarrow> string list \<Rightarrow> (kb_error + string list) option" where
  "module_closure deps requested =
     (if unknown_names deps requested \<noteq> [] then Some (Inl (KbUnknownModules (unknown_names deps requested)))
      else map_option Inr (close_modules deps (rev (requested_paths deps requested)) []))"

definition emit_line :: "dep_map \<Rightarrow> string list \<Rightarrow> string \<Rightarrow> string" where
  "emit_line deps closure m =
     to_string_lossy m @ '':''
     @ concat (map (\<lambda>d. CHR '' '' # to_string_lossy d) (filter (\<lambda>d. path_member d closure) (needs_of deps m))) @ [CHR 0x0A]"

definition emit_modules_dep :: "string list \<Rightarrow> dep_map \<Rightarrow> string" where
  "emit_modules_dep closure deps = concat (map (emit_line deps closure) closure)"

subsection \<open>The closure\<close>

lemma path_insert_keys: "path_components ` set (path_insert p qs) = insert (path_components p) (path_components ` set qs)"
  by (induction p qs rule: path_insert.induct) (auto simp: path_eq_def)

lemma set_path_insert: "set (path_insert p qs) \<subseteq> insert p (set qs)"
  by (induction p qs rule: path_insert.induct) auto

lemma path_insert_sorted: "sorted_wrt (<) (map path_components qs) \<Longrightarrow> sorted_wrt (<) (map path_components (path_insert p qs))"
proof (induction p qs rule: path_insert.induct)
  case (2 p q qs)
  consider "path_components p < path_components q" | "path_eq p q" | "path_components q < path_components p"
    using linorder_less_linear [of "path_components p" "path_components q"] by (auto simp: path_eq_def)
  then show ?case
  proof cases
    case 3
    then have ne: "\<not> path_components p < path_components q" "\<not> path_eq p q" by (auto simp: path_eq_def)
    with 2 have "sorted_wrt (<) (map path_components (path_insert p qs))" by simp
    moreover have "path_components q < c" if "c \<in> path_components ` set (path_insert p qs)" for c
      using that 3 "2.prems" by (auto simp: path_insert_keys)
    ultimately show ?thesis using ne by auto
  qed (use 2 in \<open>auto simp: path_eq_def\<close>)
qed simp

lemma path_member_iff: "path_member p qs \<longleftrightarrow> path_components p \<in> path_components ` set qs"
  by (auto simp: path_member_def list_ex_iff path_eq_def)

text \<open>The walk ends with the least set of modules that holds the stack and what it needs.\<close>

definition closes :: "dep_map \<Rightarrow> string list \<Rightarrow> bool" where
  "closes deps cl \<longleftrightarrow> (\<forall>m \<in> set cl. \<forall>d \<in> set (needs_of deps m). path_member d cl)"

definition reached :: "dep_map \<Rightarrow> string list \<Rightarrow> path_comp list set" where
  "reached deps ms = {p. \<exists>m \<in> set ms. (path_components m, p) \<in> (dep_edges deps)\<^sup>*}"

definition pending_closed :: "dep_map \<Rightarrow> string list \<Rightarrow> string list \<Rightarrow> bool" where
  "pending_closed deps stack cl \<longleftrightarrow>
     (\<forall>m \<in> set cl. \<forall>d \<in> set (needs_of deps m). path_components d \<in> path_components ` (set cl \<union> set stack))"

lemma needs_of_cong: "path_eq m n \<Longrightarrow> needs_of deps m = needs_of deps n"
  by (simp add: needs_of_def dep_get_cong)

lemma path_insert_cases: "m \<in> set (path_insert p qs) \<Longrightarrow> m = p \<or> m \<in> set qs"
  using set_path_insert [of p qs] by auto

lemma close_modules_spec:
  "path_components ` (set stack \<union> set cl) \<subseteq> U \<Longrightarrow> finite U \<Longrightarrow> dep_universe deps \<subseteq> U \<Longrightarrow>
    sorted_wrt (<) (map path_components cl) \<Longrightarrow> pending_closed deps stack cl \<Longrightarrow>
    path_components ` (set stack \<union> set cl) \<subseteq> reached deps ms \<Longrightarrow>
    \<exists>out. close_modules deps stack cl = Some out \<and> sorted_wrt (<) (map path_components out) \<and> closes deps out
      \<and> path_components ` (set stack \<union> set cl) \<subseteq> path_components ` set out
      \<and> path_components ` set out \<subseteq> reached deps ms
      \<and> set out \<subseteq> set stack \<union> set cl \<union> set (concat (map snd deps))"
proof (induction "(card (U - path_components ` set cl), length stack)" arbitrary: stack cl
    rule: wf_induct [OF wf_lex_prod [OF wf_less_than wf_less_than]])
  case 1
  let ?pc = "path_components"
  have IH: "\<exists>out. close_modules deps stack' cl' = Some out \<and> sorted_wrt (<) (map ?pc out) \<and> closes deps out
      \<and> ?pc ` (set stack' \<union> set cl') \<subseteq> ?pc ` set out \<and> ?pc ` set out \<subseteq> reached deps ms
      \<and> set out \<subseteq> set stack' \<union> set cl' \<union> set (concat (map snd deps))"
    if "card (U - ?pc ` set cl') < card (U - ?pc ` set cl) \<or> card (U - ?pc ` set cl') = card (U - ?pc ` set cl) \<and> length stack' < length stack"
      "?pc ` (set stack' \<union> set cl') \<subseteq> U" "sorted_wrt (<) (map ?pc cl')" "pending_closed deps stack' cl'"
      "?pc ` (set stack' \<union> set cl') \<subseteq> reached deps ms" for stack' cl'
    using 1(1) that 1(3,4) by (auto simp: lex_prod_def)
  show ?case
  proof (cases stack)
    case Nil
    with 1(5,6,7) show ?thesis
      by (intro exI [of _ cl]) (auto simp: close_modules.simps pending_closed_def closes_def path_member_iff)
  next
    case (Cons m rest)
    show ?thesis
    proof (cases "path_member m cl")
      case True
      then have "?pc m \<in> ?pc ` set cl" by (simp only: path_member_iff)
      then have "?pc ` (set cl \<union> set stack) = ?pc ` (set cl \<union> set rest)" by (simp add: Cons image_Un insert_absorb)
      with 1(6) have "pending_closed deps rest cl" by (simp only: pending_closed_def)
      then obtain out where "close_modules deps rest cl = Some out" "sorted_wrt (<) (map ?pc out)" "closes deps out"
        "?pc ` (set rest \<union> set cl) \<subseteq> ?pc ` set out" "?pc ` set out \<subseteq> reached deps ms"
        "set out \<subseteq> set rest \<union> set cl \<union> set (concat (map snd deps))"
      proof -
        have "length rest < length stack" "?pc ` (set rest \<union> set cl) \<subseteq> U" "?pc ` (set rest \<union> set cl) \<subseteq> reached deps ms"
          using 1(2,7) by (auto simp: Cons)
        with IH [OF _ _ 1(5) \<open>pending_closed deps rest cl\<close>] that show ?thesis by blast
      qed
      moreover from this(4) True have "?pc ` (set stack \<union> set cl) \<subseteq> ?pc ` set out" by (auto simp: Cons path_member_iff)
      ultimately show ?thesis using True by (intro exI [of _ out]) (auto simp: Cons close_modules.simps [of deps "m # rest"])
    next
      case False
      let ?cl = "path_insert m cl"
      let ?new = "filter (\<lambda>d. \<not> path_member d ?cl) (needs_of deps m)"
      have keys: "?pc ` set ?cl = insert (?pc m) (?pc ` set cl)" by (rule path_insert_keys)
      have mU: "?pc m \<in> U" using 1(2) by (simp add: Cons)
      have less: "card (U - ?pc ` set ?cl) < card (U - ?pc ` set cl)"
        unfolding keys using False mU 1(3) by (intro psubset_card_mono) (auto simp: path_member_iff)
      have "?pc d \<in> U" if "d \<in> set (needs_of deps m)" for d using needs_in_universe [OF that] 1(4) by blast
      then have sub: "?pc ` (set (rev ?new @ rest) \<union> set ?cl) \<subseteq> U" using 1(2) by (auto simp: Cons keys image_Un)
      have mr: "?pc m \<in> reached deps ms" using 1(7) by (simp add: Cons)
      have "?pc d \<in> reached deps ms" if "d \<in> set (needs_of deps m)" for d
        using mr that unfolding reached_def dep_edges_def by (blast intro: rtrancl_into_rtrancl)
      then have r: "?pc ` (set (rev ?new @ rest) \<union> set ?cl) \<subseteq> reached deps ms" using 1(7) by (auto simp: Cons keys image_Un)
      have pend: "pending_closed deps (rev ?new @ rest) ?cl"
        unfolding pending_closed_def
      proof (intro ballI)
        fix x d
        assume x: "x \<in> set ?cl" and d: "d \<in> set (needs_of deps x)"
        from path_insert_cases [OF x] consider "x = m" | "x \<in> set cl" by blast
        then show "?pc d \<in> ?pc ` (set ?cl \<union> set (rev ?new @ rest))"
        proof cases
          case 1
          with d show ?thesis by (cases "path_member d ?cl") (auto simp: path_member_iff image_Un)
        next
          case 2
          then have "?pc d \<in> ?pc ` (set cl \<union> set stack)" using d 1(6) by (simp add: pending_closed_def)
          then show ?thesis using keys by (auto simp: Cons image_Un)
        qed
      qed
      obtain out where out: "close_modules deps (rev ?new @ rest) ?cl = Some out" "sorted_wrt (<) (map ?pc out)" "closes deps out"
        "?pc ` (set (rev ?new @ rest) \<union> set ?cl) \<subseteq> ?pc ` set out" "?pc ` set out \<subseteq> reached deps ms"
        "set out \<subseteq> set (rev ?new @ rest) \<union> set ?cl \<union> set (concat (map snd deps))"
        using IH [OF _ sub path_insert_sorted [OF 1(5)] pend r] less by blast
      have "set (needs_of deps m) \<subseteq> set (concat (map snd deps))"
      proof -
        have "v \<in> set (map snd deps)" if "dep_get deps m = Some v" for v
          using that by (induction deps) (auto simp: dep_get_def split: if_splits)
        then show ?thesis by (cases "dep_get deps m") (force simp: needs_of_def)+
      qed
      then have "set out \<subseteq> set stack \<union> set cl \<union> set (concat (map snd deps))"
        using out(6) set_path_insert [of m cl] by (auto simp: Cons)
      moreover have "?pc ` (set stack \<union> set cl) \<subseteq> ?pc ` set out" using out(4) unfolding image_Un keys by (auto simp: Cons image_Un)
      moreover have "close_modules deps stack cl = Some out"
        using out(1) False by (simp add: Cons close_modules.simps [of deps "m # rest"])
      ultimately show ?thesis using out(2,3,5) by blast
    qed
  qed
qed

subsection \<open>Written and read again\<close>

text \<open>Paths as a kernel has them: ASCII without white space or a colon.\<close>

definition plain_path :: "string \<Rightarrow> bool" where
  "plain_path p \<longleftrightarrow> plain_text p \<and> p \<noteq> [] \<and> CHR '':'' \<notin> set p"

definition plain_deps :: "dep_map \<Rightarrow> bool" where
  "plain_deps deps \<longleftrightarrow> list_all (\<lambda>(m, needs). plain_path m \<and> list_all plain_path needs) deps"

lemma plain_ascii: "plain_text s \<Longrightarrow> ascii_str s"
  by (auto simp: plain_text_def ascii_str_def plain_char_def list_all_iff)

lemma plain_lossy: "plain_path p \<Longrightarrow> to_string_lossy p = p"
  by (simp add: plain_path_def plain_ascii utf8_str_ascii to_string_lossy_id)

lemma plain_no_newline: "plain_text s \<Longrightarrow> CHR 0x0A \<notin> set s \<and> CHR 0x0D \<notin> set s"
  by (auto simp: plain_text_def list_all_iff plain_char_code Let_def)

definition dep_text :: "string \<Rightarrow> string list \<Rightarrow> string" where
  "dep_text m needs = m @ CHR '':'' # concat (map (\<lambda>d. CHR '' '' # d) needs)"

lemma ascii_str_simps [simp]: "ascii_str (a @ b) \<longleftrightarrow> ascii_str a \<and> ascii_str b" "ascii_str (c # s) \<longleftrightarrow> unat (of_char c :: byte) < 128 \<and> ascii_str s" "ascii_str []"
  by (simp_all add: ascii_str_def)

lemma ascii_needs: "list_all plain_path needs \<Longrightarrow> ascii_str (concat (map (\<lambda>d. CHR '' '' # d) needs))"
  by (induction needs) (simp_all add: plain_path_def plain_ascii)

lemma ws_groups_spaced:
  "list_all (\<lambda>t. plain_text t \<and> t \<noteq> []) ts \<Longrightarrow>
    ws_groups (map (\<lambda>c. [c]) (concat (map (\<lambda>d. CHR '' '' # d) ts))) cur = (if cur = [] then [] else [cur]) @ ts"
proof (induction ts arbitrary: cur)
  case (Cons d ds)
  then have "ws_groups (map (\<lambda>c. [c]) d @ map (\<lambda>c. [c]) (concat (map (\<lambda>d. CHR '' '' # d) ds))) [] = d # ds"
    by (simp add: ws_groups_plain)
  then show ?case by (simp add: is_ws_space)
qed simp

lemma split_ws_words:
  assumes "plain_text t" and "list_all (\<lambda>t. plain_text t \<and> t \<noteq> []) ts"
  shows "split_ws (t @ concat (map (\<lambda>d. CHR '' '' # d) ts)) = (if t = [] then [] else [t]) @ ts"
proof -
  have "ascii_str (t @ concat (map (\<lambda>d. CHR '' '' # d) ts))"
    using assms by (induction ts) (simp_all add: plain_ascii)
  then show ?thesis
    using assms by (simp add: split_ws_def chars_of_ascii ws_groups_plain ws_groups_spaced)
qed

lemma split_ws_needs: "list_all plain_path needs \<Longrightarrow> split_ws (concat (map (\<lambda>d. CHR '' '' # d) needs)) = needs"
  using split_ws_words [of "[]" needs] by (simp add: plain_path_def list_all_iff)

lemma str_trim_ends:
  assumes "ascii_str s" and "s \<noteq> []" and "\<not> is_ws [hd s]" and "\<not> is_ws [last s]"
  shows "str_trim s = s"
proof -
  let ?cs = "map (\<lambda>c. [c]) s"
  have cs: "chars_of s = ?cs" by (rule chars_of_ascii [OF assms(1)])
  have "dropWhile is_ws ?cs = ?cs" using assms(2,3) by (cases s) simp_all
  moreover have "dropWhile is_ws (rev ?cs) = rev ?cs" using assms(2,4) by (cases s rule: rev_cases) simp_all
  ultimately show ?thesis by (simp add: str_trim_def cs)
qed

lemma not_ws_colon: "\<not> is_ws '':''"
  by (simp add: is_ws_def ws_table_def str_bytes_def)

lemma dep_text_ends:
  assumes "plain_path m" and "list_all plain_path needs"
  shows "\<not> is_ws [hd (dep_text m needs)]" and "plain_char (last (dep_text m needs)) \<or> last (dep_text m needs) = CHR '':''"
proof -
  show "\<not> is_ws [hd (dep_text m needs)]"
    using assms(1) by (cases m) (simp_all add: dep_text_def plain_path_def plain_char_def)
  show "plain_char (last (dep_text m needs)) \<or> last (dep_text m needs) = CHR '':''"
  proof (cases needs rule: rev_cases)
    case (snoc ds d)
    then have "d \<noteq> []" "list_all plain_char d" using assms(2) by (simp_all add: plain_path_def plain_text_def)
    then show ?thesis by (simp add: snoc dep_text_def list_all_iff)
  qed (simp add: dep_text_def)
qed

lemma dep_line_text:
  assumes "plain_path m" and "list_all plain_path needs"
  shows "dep_line (dep_text m needs) deps = dep_insert m needs deps"
proof -
  have m: "plain_text m" "CHR '':'' \<notin> set m" "m \<noteq> []" using assms(1) by (simp_all add: plain_path_def)
  have "ascii_str (dep_text m needs)" using m ascii_needs [OF assms(2)] by (simp add: dep_text_def plain_ascii)
  moreover have "\<not> is_ws [last (dep_text m needs)]" using dep_text_ends(2) [OF assms] not_ws_colon by (auto simp: plain_char_def)
  ultimately have "str_trim (dep_text m needs) = dep_text m needs"
    using dep_text_ends(1) [OF assms] by (intro str_trim_ends) (simp_all add: dep_text_def)
  moreover have "split_once CHR '':'' (dep_text m needs) = Some (m, concat (map (\<lambda>d. CHR '' '' # d) needs))"
    unfolding dep_text_def by (rule split_once_append [OF m(2)])
  moreover have "str_trim m = m" using m(1) by (simp add: str_trim_plain plain_text_def)
  ultimately show ?thesis using m(3) split_ws_needs [OF assms(2)] by (simp add: dep_line_def Let_def)
qed

lemma dep_text_line:
  assumes "plain_path m" and "list_all plain_path needs"
  shows "CHR 0x0A \<notin> set (dep_text m needs)" and "chomp (dep_text m needs) = dep_text m needs"
proof -
  have "CHR 0x0A \<notin> set d" if "plain_path d" for d using that plain_no_newline by (auto simp: plain_path_def)
  then show "CHR 0x0A \<notin> set (dep_text m needs)" using assms by (auto simp: dep_text_def list_all_iff)
  have "last (dep_text m needs) \<noteq> CHR 0x0D" using dep_text_ends(2) [OF assms] by (auto simp: plain_char_code Let_def)
  then show "chomp (dep_text m needs) = dep_text m needs" by (simp add: chomp_def)
qed

lemma str_lines_concat:
  "list_all (\<lambda>l. CHR 0x0A \<notin> set l \<and> chomp l = l) ls \<Longrightarrow> str_lines (concat (map (\<lambda>l. l @ [CHR 0x0A]) ls)) = ls"
proof -
  assume ls: "list_all (\<lambda>l. CHR 0x0A \<notin> set l \<and> chomp l = l) ls"
  then have "split_on CHR 0x0A (concat (map (\<lambda>l. l @ [CHR 0x0A]) ls)) = ls @ [[]]"
    by (induction ls) (simp_all add: split_on_append)
  moreover have "map chomp ls = ls" using ls by (induction ls) simp_all
  ultimately show ?thesis by (simp add: str_lines_def Let_def)
qed

lemma dep_insert_last:
  "list_all (\<lambda>(a, _). path_components a < path_components k) m \<Longrightarrow> dep_insert k v m = m @ [(k, v)]"
  by (induction k v m rule: dep_insert.induct) (auto simp: path_eq_def)

lemma fold_dep_text:
  "sorted_wrt (<) (map path_components (map fst acc @ ms)) \<Longrightarrow> list_all (\<lambda>m. plain_path m \<and> list_all plain_path (f m)) ms \<Longrightarrow>
    fold dep_line (map (\<lambda>m. dep_text m (f m)) ms) acc = acc @ map (\<lambda>m. (m, f m)) ms"
proof (induction ms arbitrary: acc)
  case (Cons m ms)
  have "list_all (\<lambda>(a, _). path_components a < path_components m) acc"
    using Cons.prems(1) by (auto simp: sorted_wrt_append list_all_iff)
  then have "dep_line (dep_text m (f m)) acc = acc @ [(m, f m)]"
    using Cons.prems(2) by (simp add: dep_line_text dep_insert_last)
  then show ?case using Cons.IH [of "acc @ [(m, f m)]"] Cons.prems by simp
qed simp

lemma plain_needs: "plain_deps deps \<Longrightarrow> list_all plain_path (needs_of deps m)"
  by (induction deps) (auto simp: plain_deps_def needs_of_def dep_get_def)

theorem emitted_dep_reads_back:
  assumes "plain_deps deps" and "list_all plain_path cl" and "sorted_wrt (<) (map path_components cl)"
  shows "parse_modules_dep (emit_modules_dep cl deps)
    = map (\<lambda>m. (m, filter (\<lambda>d. path_member d cl) (needs_of deps m))) cl"
proof -
  let ?f = "\<lambda>m. filter (\<lambda>d. path_member d cl) (needs_of deps m)"
  have plain: "list_all plain_path (?f m)" for m using plain_needs [OF assms(1), of m] by (auto simp: list_all_iff)
  have lossy: "map (\<lambda>d. CHR '' '' # to_string_lossy d) (?f m) = map (\<lambda>d. CHR '' '' # d) (?f m)" for m
  proof (rule map_cong [OF refl])
    fix d assume "d \<in> set (?f m)"
    then have "plain_path d" using plain [of m] by (simp only: list_all_iff)
    then show "CHR '' '' # to_string_lossy d = CHR '' '' # d" by (simp only: plain_lossy)
  qed
  have "emit_line deps cl m = dep_text m (?f m) @ [CHR 0x0A]" if "m \<in> set cl" for m
    unfolding emit_line_def lossy using that assms(2) by (simp add: dep_text_def plain_lossy list_all_iff)
  then have "emit_modules_dep cl deps = concat (map (\<lambda>l. l @ [CHR 0x0A]) (map (\<lambda>m. dep_text m (?f m)) cl))"
    unfolding emit_modules_dep_def by (simp add: comp_def cong: map_cong)
  moreover have "list_all (\<lambda>l. CHR 0x0A \<notin> set l \<and> chomp l = l) (map (\<lambda>m. dep_text m (?f m)) cl)"
  proof -
    have "CHR 0x0A \<notin> set (dep_text m (?f m)) \<and> chomp (dep_text m (?f m)) = dep_text m (?f m)" if "m \<in> set cl" for m
    proof -
      have "plain_path m" using assms(2) that by (simp only: list_all_iff)
      from dep_text_line [OF this plain [of m]] show ?thesis by blast
    qed
    then show ?thesis unfolding list_all_iff set_map by blast
  qed
  ultimately have "str_lines (emit_modules_dep cl deps) = map (\<lambda>m. dep_text m (?f m)) cl" by (simp only: str_lines_concat)
  moreover have "list_all (\<lambda>m. plain_path m \<and> list_all plain_path (?f m)) cl"
    using assms(2) plain unfolding list_all_iff by blast
  with fold_dep_text [of "[]" cl ?f] assms(3)
  have "fold dep_line (map (\<lambda>m. dep_text m (?f m)) cl) [] = map (\<lambda>m. (m, ?f m)) cl" by simp
  ultimately show ?thesis by (simp add: parse_modules_dep_def)
qed

subsection \<open>The modules init loads\<close>

lemma modules_by_name_fold:
  "map_of (fold (\<lambda>(path, _) m. if map_of m (kmod_name path) = None then (kmod_name path, path) # m else m) deps acc) k
    = (case map_of acc k of Some p \<Rightarrow> Some p | None \<Rightarrow> find (\<lambda>p. kmod_name p = k) (map fst deps))"
proof (induction deps arbitrary: acc)
  case (Cons e deps)
  obtain path needs where e: "e = (path, needs)" by fastforce
  show ?case
    by (cases "map_of acc (kmod_name path)"; cases "kmod_name path = k") (auto simp: e Cons split: option.split)
qed (simp split: option.split)

lemma by_name_find: "map_of (modules_by_name deps) k = find (\<lambda>p. kmod_name p = k) (map fst deps)"
  by (simp add: modules_by_name_def modules_by_name_fold)

lemma kmod_name_cong: "path_components p = path_components q \<Longrightarrow> kmod_name p = kmod_name q"
  by (simp add: kmod_name_def file_name_def)

lemma requested_path:
  "p \<in> set (requested_paths deps requested) \<longleftrightarrow> (\<exists>n \<in> set requested. find (\<lambda>p. kmod_name p = underscored n) (map fst deps) = Some p)"
  by (induction requested) (auto simp: requested_paths_def List.map_filter_simps by_name_find split: option.split)

lemma dep_get_map:
  "m \<in> set cl \<Longrightarrow> distinct (map path_components cl) \<Longrightarrow> dep_get (map (\<lambda>m. (m, f m)) cl) m = Some (f m)"
proof (induction cl)
  case (Cons a cl)
  then show ?case by (auto simp: dep_get_def path_eq_def rev_image_eqI)
qed simp

lemma needs_of_foreign:
  "path_components p \<notin> path_components ` set cl \<Longrightarrow> needs_of (map (\<lambda>m. (m, f m)) cl) p = []"
  by (induction cl) (auto simp: needs_of_def dep_get_def path_eq_def split: option.splits)

lemma needs_of_map:
  assumes "m \<in> set cl" and "distinct (map path_components cl)" and "path_components p = path_components m"
  shows "needs_of (map (\<lambda>m. (m, f m)) cl) p = f m"
  using dep_get_map [OF assms(1,2), of f] dep_get_cong [of p m] assms(3) by (simp add: needs_of_def path_eq_def)

lemma deps_first_same:
  "(\<And>m. m \<in> set ord \<Longrightarrow> needs_of deps m = needs_of deps' m) \<Longrightarrow> deps_first deps seen ord = deps_first deps' seen ord"
  by (induction ord arbitrary: seen) simp_all

lemma reads_back_order:
  assumes "closes deps cl" and "sorted_wrt (<) (map path_components cl)"
  defines "deps' \<equiv> map (\<lambda>m. (m, needs_of deps m)) cl"
  shows "\<exists>ord. module_load_order deps' = Some ord \<and> distinct (map path_components ord)
    \<and> path_components ` set ord = path_components ` set cl \<and> (acyclic (dep_edges deps) \<longrightarrow> deps_first deps {} ord)"
proof -
  let ?pc = path_components
  have dist: "distinct (map ?pc cl)" using assms(2) by (simp add: strict_sorted_iff)
  have same: "needs_of deps' p = needs_of deps p" if "?pc p \<in> ?pc ` set cl" for p
  proof -
    from that obtain m where m: "m \<in> set cl" "?pc p = ?pc m" by auto
    from needs_of_map [OF m(1) dist m(2)] needs_of_cong [of p m deps] m(2) show ?thesis by (simp add: deps'_def path_eq_def)
  qed
  have uni: "dep_universe deps' \<subseteq> ?pc ` set cl"
    using assms(1) by (auto simp: dep_universe_def deps'_def closes_def path_member_iff)
  have "dep_edges deps' \<subseteq> dep_edges deps"
  proof
    fix e assume "e \<in> dep_edges deps'"
    then obtain m d where e: "e = (?pc m, ?pc d)" "d \<in> set (needs_of deps' m)" by (auto simp: dep_edges_def)
    then have "needs_of deps' m \<noteq> []" by auto
    then have "?pc m \<in> ?pc ` set cl" unfolding deps'_def by (rule contrapos_np) (rule needs_of_foreign)
    with e same show "e \<in> dep_edges deps" by (auto simp: dep_edges_def)
  qed
  then have acyc: "acyclic (dep_edges deps) \<Longrightarrow> acyclic (dep_edges deps')" by (rule acyclic_subset [rotated])
  obtain ord where ord: "module_load_order deps' = Some ord" "distinct (map ?pc ord)"
    "?pc ` set (map fst deps') \<subseteq> ?pc ` set ord" "?pc ` set ord \<subseteq> dep_universe deps'"
    "acyclic (dep_edges deps') \<Longrightarrow> deps_first deps' {} ord"
    by (rule load_order [of deps']) blast
  have set: "?pc ` set ord = ?pc ` set cl"
  proof
    show "?pc ` set ord \<subseteq> ?pc ` set cl" using ord(4) uni by (rule order_trans)
    have "map fst deps' = cl" by (simp add: deps'_def comp_def)
    then show "?pc ` set cl \<subseteq> ?pc ` set ord" using ord(3) by simp
  qed
  have "deps_first deps {} ord = deps_first deps' {} ord"
  proof (rule deps_first_same)
    fix m assume "m \<in> set ord"
    then have "?pc m \<in> ?pc ` set cl" unfolding set [symmetric] by (rule imageI)
    then show "needs_of deps m = needs_of deps' m" by (simp only: same)
  qed
  with ord set acyc show ?thesis by blast
qed

definition carries :: "dep_map \<Rightarrow> string list \<Rightarrow> string list \<Rightarrow> bool" where
  "carries deps requested cl \<longleftrightarrow>
     path_components ` set cl = reached deps (requested_paths deps requested)
     \<and> (\<forall>n \<in> set requested. \<exists>m \<in> set cl. kmod_name m = underscored n)
     \<and> (\<exists>ord. module_load_order (parse_modules_dep (emit_modules_dep cl deps)) = Some ord
          \<and> distinct (map path_components ord) \<and> path_components ` set ord = path_components ` set cl
          \<and> (acyclic (dep_edges deps) \<longrightarrow> deps_first deps {} ord))"

lemma reached_closed:
  assumes "closes deps cl" and "path_components ` set ms \<subseteq> path_components ` set cl"
  shows "reached deps ms \<subseteq> path_components ` set cl"
proof
  fix p assume "p \<in> reached deps ms"
  then obtain m where m: "m \<in> set ms" "(path_components m, p) \<in> (dep_edges deps)\<^sup>*" by (auto simp: reached_def)
  from m(2) show "p \<in> path_components ` set cl"
  proof (induction rule: rtrancl_induct)
    case base
    show ?case using m(1) assms(2) by auto
  next
    case (step y z)
    then obtain x d where x: "y = path_components x" "z = path_components d" "d \<in> set (needs_of deps x)" by (auto simp: dep_edges_def)
    from step(3) x(1) obtain c where c: "c \<in> set cl" "path_components c = path_components x" by auto
    then have "d \<in> set (needs_of deps c)" using x(3) needs_of_cong [of c x deps] by (simp add: path_eq_def)
    with c(1) assms(1) show ?case using x(2) by (auto simp: closes_def path_member_iff)
  qed
qed

lemma module_closure_carries:
  assumes plain: "plain_deps deps" and known: "unknown_names deps requested = []"
  shows "\<exists>cl. module_closure deps requested = Some (Inr cl) \<and> carries deps requested cl"
proof -
  let ?pc = path_components and ?ms = "requested_paths deps requested"
  let ?U = "dep_universe deps \<union> ?pc ` set ?ms"
  have "?pc ` set ?ms \<subseteq> reached deps ?ms" by (auto simp: reached_def)
  then obtain cl where cl: "close_modules deps (rev ?ms) [] = Some cl" "sorted_wrt (<) (map ?pc cl)" "closes deps cl"
    "?pc ` set ?ms \<subseteq> ?pc ` set cl" "?pc ` set cl \<subseteq> reached deps ?ms" "set cl \<subseteq> set ?ms \<union> set (concat (map snd deps))"
    using close_modules_spec [of "rev ?ms" "[]" ?U deps ?ms] by (auto simp: pending_closed_def dep_universe_def)
  have "reached deps ?ms \<subseteq> ?pc ` set cl" by (rule reached_closed [OF cl(3,4)])
  with cl(5) have r: "?pc ` set cl = reached deps ?ms" by blast
  have names: "\<exists>m \<in> set cl. kmod_name m = underscored n" if n: "n \<in> set requested" for n
  proof -
    have "find (\<lambda>p. kmod_name p = underscored n) (map fst deps) \<noteq> None"
      using known n by (auto simp: unknown_names_def by_name_find filter_empty_conv)
    then obtain p where p: "find (\<lambda>p. kmod_name p = underscored n) (map fst deps) = Some p" by blast
    then have "p \<in> set ?ms" using n by (auto simp: requested_path)
    with cl(4) obtain m where "m \<in> set cl" "?pc m = ?pc p" by (auto simp: subset_iff image_iff)
    moreover have "kmod_name p = underscored n" using p by (auto simp: find_Some_iff)
    ultimately show ?thesis using kmod_name_cong by metis
  qed
  have "plain_path m" if "m \<in> set cl" for m
  proof -
    from cl(6) that consider "m \<in> set ?ms" | "m \<in> set (concat (map snd deps))" by blast
    then show ?thesis
    proof cases
      case 1
      then obtain n where "find (\<lambda>p. kmod_name p = underscored n) (map fst deps) = Some m" by (auto simp: requested_path)
      then have "m \<in> set (map fst deps)" by (auto simp: find_Some_iff)
      with plain show ?thesis by (auto simp: plain_deps_def list_all_iff)
    next
      case 2
      with plain show ?thesis by (fastforce simp: plain_deps_def list_all_iff)
    qed
  qed
  then have pl: "list_all plain_path cl" by (simp add: list_all_iff)
  have "filter (\<lambda>d. path_member d cl) (needs_of deps m) = needs_of deps m" if "m \<in> set cl" for m
    using cl(3) that by (auto simp: closes_def intro: filter_True)
  then have again: "parse_modules_dep (emit_modules_dep cl deps) = map (\<lambda>m. (m, needs_of deps m)) cl"
    unfolding emitted_dep_reads_back [OF plain pl cl(2)] by (intro map_cong) simp_all
  from reads_back_order [OF cl(3,2)] have "carries deps requested cl"
    unfolding carries_def again using r names by blast
  moreover have "module_closure deps requested = Some (Inr cl)" using known cl(1) by (simp add: module_closure_def)
  ultimately show ?thesis by blast
qed

text \<open>C31.  A key carries the modules it needs and no others: over a \<open>modules.dep\<close> of plain paths the walk of
  \<open>module_closure\<close> ends; a name that no module has (dashes read as underscores, compression suffixes stripped) is
  refused, with all such names; otherwise the result holds exactly the modules that the requested ones need,
  directly or not.  The \<open>modules.dep\<close> written for it is read again by the init, whose load order lists each
  of these modules once and, when the dependencies have no cycle, each after what it needs.\<close>

theorem key_carries_its_modules:
  assumes "plain_deps deps"
  shows "\<exists>r. module_closure deps requested = Some r \<and>
    (case r of
       Inr cl \<Rightarrow> carries deps requested cl
     | Inl e \<Rightarrow> \<exists>names. e = KbUnknownModules names \<and> names \<noteq> []
         \<and> set names = {n \<in> set requested. underscored n \<notin> kmod_name ` set (map fst deps)})"
proof (cases "unknown_names deps requested = []")
  case True
  from module_closure_carries [OF assms True] show ?thesis by auto
next
  case False
  have "set (unknown_names deps requested) = {n \<in> set requested. underscored n \<notin> kmod_name ` set (map fst deps)}"
    by (force simp: unknown_names_def by_name_find find_None_iff)
  then show ?thesis using False by (auto simp: module_closure_def)
qed

definition demo_kmods :: dep_map where
  "demo_kmods = [(''fs/ov.ko.xz'', [''lib/c-a.ko'']), (''lib/c-a.ko'', [])]"

lemma demo_kmod_plain: "plain_deps demo_kmods"
  by (simp add: plain_deps_def demo_kmods_def plain_path_def plain_text_def plain_char_code)

lemma demo_kmod_name: "kmod_name ''fs/ov.ko.xz'' = ''ov''" "kmod_name ''lib/c-a.ko'' = ''c_a''"
proof -
  have "utf8_str ''ov.ko.xz''" "utf8_str ''c-a.ko''" by (rule utf8_str_ascii, simp add: ascii_str_def)+
  then show "kmod_name ''fs/ov.ko.xz'' = ''ov''" "kmod_name ''lib/c-a.ko'' = ''c_a''"
    by (simp_all add: kmod_name_def file_name_def path_components_def seg_comp_def Let_def opt_or_def strip_suf_def underscored_def)
qed

theorem key_modules_witness:
  "\<exists>cl. module_closure demo_kmods [''ov'', ''c-a''] = Some (Inr cl) \<and> carries demo_kmods [''ov'', ''c-a''] cl"
proof -
  have none: "{n \<in> set [''ov'', ''c-a'']. underscored n \<notin> kmod_name ` set (map fst demo_kmods)} = {}"
    by (auto simp: demo_kmods_def demo_kmod_name underscored_def)
  obtain r where r: "module_closure demo_kmods [''ov'', ''c-a''] = Some r"
    "case r of Inr cl \<Rightarrow> carries demo_kmods [''ov'', ''c-a''] cl
     | Inl e \<Rightarrow> \<exists>names. e = KbUnknownModules names \<and> names \<noteq> []
         \<and> set names = {n \<in> set [''ov'', ''c-a'']. underscored n \<notin> kmod_name ` set (map fst demo_kmods)}"
    using key_carries_its_modules [OF demo_kmod_plain] by blast
  from r(2) have "\<exists>cl. r = Inr cl \<and> carries demo_kmods [''ov'', ''c-a''] cl" unfolding none by (cases r) auto
  with r(1) show ?thesis by blast
qed

end
