(* ===== verification/KeySpec.thy ===== *)
theory KeySpec
  imports KeyModules
begin

section \<open>The specification of a key\<close>

text \<open>
  \<open>crates/keybuild/src/lib.rs\<close>: what a key is built from, and the texts that are a function of it: the kernel
  command line, the configuration of the boot loader, the skeleton of the base.  A path is its text.
\<close>

definition base_image :: string where "base_image = ''base.squashfs''"
definition data_image :: string where "data_image = ''data.img''"
definition verity_image :: string where "verity_image = ''base.verity''"
definition home_image :: string where "home_image = ''home.img''"
definition esp_image :: string where "esp_image = ''esp.img''"
definition esp_label :: string where "esp_label = ''HORIZON-ESP''"
definition esp_kernel :: string where "esp_kernel = ''VMLINUZ''"
definition esp_initrd :: string where "esp_initrd = ''INITRD.IMG''"
definition loader_entry_id :: string where "loader_entry_id = ''horizon''"
definition initramfs_image :: string where "initramfs_image = ''initramfs.img''"
definition disk_image :: string where "disk_image = ''key.img''"

record stage =
  sg_src :: string
  sg_dst :: string

record key_spec =
  ks_out :: string
  ks_base_label :: string
  ks_data_label :: string
  ks_basefs :: string
  ks_datafs :: string
  ks_data_size_mb :: u64
  ks_data_seed :: "string option"
  ks_home_size_mb :: u64
  ks_esp_size_mb :: u64
  ks_mode :: mode_choice
  ks_os_name :: string
  ks_os_id :: string
  ks_os_version :: string
  ks_userland :: "string list"
  ks_kernel_version :: "string option"
  ks_modules_root :: string
  ks_modules :: "string list"
  ks_firmware_root :: string
  ks_firmware :: "string list"
  ks_staged :: "stage list"
  ks_init_bin :: "string option"
  ks_initramfs_bins :: "string list"
  ks_initramfs_modules :: "string list"
  ks_initramfs_files :: "stage list"
  ks_kernel :: "string option"
  ks_bootloader :: "string option"
  ks_esp_efi :: "string list"
  ks_verity_root :: "string option"
  ks_loader_timeout :: u32
  ks_cmdline_extra :: "string list"

text \<open>The version of the package is an argument.\<close>

definition key_spec_new :: "string \<Rightarrow> string \<Rightarrow> key_spec" where
  "key_spec_new pkg_version out =
     \<lparr>ks_out = out, ks_base_label = base_label, ks_data_label = data_label, ks_basefs = ''squashfs'',
      ks_datafs = ''ext4'', ks_data_size_mb = 64, ks_data_seed = None, ks_home_size_mb = 256,
      ks_esp_size_mb = 128, ks_mode = ChooseAuto, ks_os_name = ''Horizon OS'', ks_os_id = ''horizon'',
      ks_os_version = pkg_version, ks_userland = [], ks_kernel_version = None,
      ks_modules_root = ''/lib/modules'', ks_modules = [], ks_firmware_root = ''/lib/firmware'',
      ks_firmware = [], ks_staged = [], ks_init_bin = None, ks_initramfs_bins = [],
      ks_initramfs_modules = [], ks_initramfs_files = [], ks_kernel = None, ks_bootloader = None,
      ks_esp_efi = [], ks_verity_root = None, ks_loader_timeout = 3, ks_cmdline_extra = []\<rparr>"

definition boot_cmdline :: "key_spec \<Rightarrow> string" where
  "boot_cmdline spec =
     (let mode = (case ks_mode spec of ChooseAuto \<Rightarrow> ''auto'' | ChooseHome \<Rightarrow> ''home'' | ChooseGhost \<Rightarrow> ''ghost'')
      in ''horizon.base=LABEL='' @ ks_base_label spec @ '' horizon.basefs='' @ ks_basefs spec
         @ '' horizon.data=LABEL='' @ ks_data_label spec @ '' horizon.datafs='' @ ks_datafs spec
         @ '' horizon.mode='' @ mode)"

definition loader_conf :: "key_spec \<Rightarrow> string" where
  "loader_conf spec =
     ''default '' @ loader_entry_id @ [CHR 0x0A] @ ''timeout '' @ show_nat (unat (ks_loader_timeout spec)) @ [CHR 0x0A]"

definition loader_options :: "key_spec \<Rightarrow> string" where
  "loader_options spec =
     boot_cmdline spec
     @ (case ks_verity_root spec of Some root \<Rightarrow> '' horizon.verity='' @ root | None \<Rightarrow> [])
     @ concat (map (\<lambda>tok. CHR '' '' # tok) (ks_cmdline_extra spec))"

definition loader_entry :: "key_spec \<Rightarrow> string" where
  "loader_entry spec =
     ''title   Horizon OS'' @ [CHR 0x0A] @ ''linux   /'' @ esp_kernel @ [CHR 0x0A]
     @ ''initrd  /'' @ esp_initrd @ [CHR 0x0A] @ ''options '' @ loader_options spec @ [CHR 0x0A]"

record skeleton =
  sk_dirs :: "string list"
  sk_os_release :: string

definition os_release :: "key_spec \<Rightarrow> string" where
  "os_release spec =
     (let q = [CHR 0x22]; nl = [CHR 0x0A]
      in ''NAME='' @ q @ ks_os_name spec @ q @ nl @ ''ID='' @ ks_os_id spec @ nl
         @ ''VERSION='' @ q @ ks_os_version spec @ q @ nl
         @ ''PRETTY_NAME='' @ q @ ks_os_name spec @ '' '' @ ks_os_version spec @ q @ nl)"

definition base_skeleton :: "key_spec \<Rightarrow> skeleton" where
  "base_skeleton spec =
     \<lparr>sk_dirs = [''dev'', ''proc'', ''sys'', ''run'', ''tmp'', ''etc'', ''var'', ''usr'', ''usr/bin''],
      sk_os_release = os_release spec\<rparr>"

subsection \<open>What init makes of the command line\<close>

text \<open>A token that is not the init's: it has no prefix \<open>horizon.\<close>.\<close>

definition foreign_token :: "string \<Rightarrow> bool" where
  "foreign_token t \<longleftrightarrow> plain_text t \<and> t \<noteq> [] \<and> strip_pre ''horizon.'' t = None"

definition spec_words_ok :: "key_spec \<Rightarrow> bool" where
  "spec_words_ok spec \<longleftrightarrow>
     plain_text (ks_base_label spec) \<and> plain_text (ks_basefs spec) \<and> plain_text (ks_data_label spec)
     \<and> plain_text (ks_datafs spec) \<and> (case ks_verity_root spec of None \<Rightarrow> True | Some r \<Rightarrow> plain_text r)
     \<and> list_all foreign_token (ks_cmdline_extra spec)"

lemma foreign_key:
  assumes "foreign_token t" and "strip_pre ''horizon.'' k = Some k'"
  shows "key_value k t f rest = rest"
proof (cases "strip_pre k t")
  case (Some r)
  then have "t = ''horizon.'' @ (k' @ r)" using assms(2) by (simp only: strip_pre_Some_iff append_assoc)
  then have "strip_pre ''horizon.'' t = Some (k' @ r)" by (simp only: strip_pre_append)
  with assms(1) show ?thesis by (simp add: foreign_token_def)
qed (simp add: key_value_def)

lemma apply_foreign: "foreign_token t \<Longrightarrow> apply_token t p = p"
proof -
  assume f: "foreign_token t"
  have "t \<noteq> ''horizon.fido2''" using f by (auto simp: foreign_token_def)
  then show ?thesis by (simp add: apply_token_def foreign_key [OF f])
qed

lemma fold_foreign: "list_all foreign_token ts \<Longrightarrow> fold apply_token ts p = p"
  by (induction ts arbitrary: p) (simp_all add: apply_foreign)

definition mode_word :: "mode_choice \<Rightarrow> string" where
  "mode_word m = (case m of ChooseAuto \<Rightarrow> ''auto'' | ChooseHome \<Rightarrow> ''home'' | ChooseGhost \<Rightarrow> ''ghost'')"

definition spec_words :: "key_spec \<Rightarrow> string list" where
  "spec_words spec =
     [''horizon.basefs='' @ ks_basefs spec, ''horizon.data=LABEL='' @ ks_data_label spec,
      ''horizon.datafs='' @ ks_datafs spec, ''horizon.mode='' @ mode_word (ks_mode spec)]
     @ (case ks_verity_root spec of Some root \<Rightarrow> [''horizon.verity='' @ root] | None \<Rightarrow> []) @ ks_cmdline_extra spec"

lemma loader_options_words:
  "loader_options spec = (''horizon.base=LABEL='' @ ks_base_label spec) @ concat (map (\<lambda>d. CHR '' '' # d) (spec_words spec))"
  by (simp add: loader_options_def boot_cmdline_def spec_words_def Let_def mode_word_def split: option.split)

lemma plain_mode_word: "plain_text (mode_word m)" and mode_word_parse: "mode_choice_parse (mode_word m) = m"
  by (cases m; simp add: mode_word_def plain_char_code mode_choice_parse_def)+

definition spec_params :: "key_spec \<Rightarrow> params" where
  "spec_params spec =
     params_default\<lparr>pa_base := SpecLabel (ks_base_label spec), pa_basefs := ks_basefs spec,
       pa_data := SpecLabel (ks_data_label spec), pa_datafs := ks_datafs spec,
       pa_mode := ks_mode spec, pa_verity := ks_verity_root spec\<rparr>"

lemma init_reads_options:
  assumes "spec_words_ok spec"
  shows "parse_cmdline (loader_options spec) = spec_params spec"
proof -
  let ?b = "''horizon.base=LABEL='' @ ks_base_label spec"
  have b: "plain_text ?b" using assms by (simp add: spec_words_ok_def plain_char_code)
  have "list_all (\<lambda>t. plain_text t \<and> t \<noteq> []) (spec_words spec)"
    using assms plain_mode_word [of "ks_mode spec"]
    by (auto simp: spec_words_ok_def spec_words_def plain_char_code foreign_token_def list_all_iff split: option.splits)
  then have words: "split_ws (loader_options spec) = ?b # spec_words spec"
    unfolding loader_options_words by (subst split_ws_words [OF b]) simp_all
  have f: "list_all foreign_token (ks_cmdline_extra spec)" using assms by (simp add: spec_words_ok_def)
  have sp: "spec_parse (''LABEL='' @ l) = SpecLabel l" for l by (simp add: spec_parse_def)
  note app = apply_token_simps(1) [of "''LABEL='' @ _", simplified sp append.simps] apply_token_simps(3) [of "''LABEL='' @ _", simplified sp append.simps]
  have "fold apply_token (?b # spec_words spec) params_default = spec_params spec"
    by (cases "ks_verity_root spec")
      (simp_all add: spec_words_def app spec_parse_def apply_token_simps [simplified append.simps] fold_foreign [OF f] mode_word_parse spec_params_def params_default_def)
  then show ?thesis by (simp add: parse_cmdline_def words)
qed

end
