(* ===== verification/FatNames.thy ===== *)
theory FatNames
  imports Cpio Gpt Verity
begin

section \<open>FAT: the tree, its names and its directory entries\<close>

text \<open>
  \<open>crates/keybuild/src/fat.rs\<close>, the part that does not touch the image: the tree that is written, the short
  names, long names and aliases of its entries, and the 32 bytes of a directory entry.  A \<open>BTreeMap\<close> is
  the list of its entries in the order of their keys; a key is the name in upper case, beside it the name
  as it was given.
\<close>

definition media :: byte where "media = 0xF8"
definition fat16_root_entries :: nat where "fat16_root_entries = 512"
definition fat32_root_cluster :: nat where "fat32_root_cluster = 2"
definition attr_volume_id :: byte where "attr_volume_id = 0x08"
definition attr_directory :: byte where "attr_directory = 0x10"
definition attr_archive :: byte where "attr_archive = 0x20"
definition attr_long_name :: byte where "attr_long_name = 0x0F"
definition fixed_date :: u16 where "fixed_date = push_bit 5 1 OR 1"
definition fixed_time :: u16 where "fixed_time = 0"

definition ascii_upper :: "char \<Rightarrow> char" where
  "ascii_upper c =
     (let n = of_char c :: nat in if 97 \<le> n \<and> n \<le> 122 then char_of (n - 32) else c)"

definition upper :: "string \<Rightarrow> string" where
  "upper s = map ascii_upper s"

definition space_pad :: "nat \<Rightarrow> bytes \<Rightarrow> bytes" where
  "space_pad n bs = bs @ replicate (n - length bs) 0x20"

record fat_params =
  fp_oem :: bytes
  fp_label :: bytes
  fp_id :: u32

definition label_field :: "string \<Rightarrow> bytes" where
  "label_field label = space_pad 11 (str_bytes (upper (take 11 label)))"

definition params_for_label :: "hash_fun \<Rightarrow> string \<Rightarrow> fat_params" where
  "params_for_label H label =
     \<lparr>fp_oem = str_bytes ''HORIZON '', fp_label = label_field label,
      fp_id = from_le (take 4 (H (str_bytes ''horizon-fat:'' @ str_bytes label)))\<rparr>"

datatype fat_node = FFile bytes | FDir "(string \<times> string \<times> fat_node) list"

type_synonym fat_dir = "(string \<times> string \<times> fat_node) list"

definition fat_new :: fat_dir where "fat_new = []"

subsection \<open>Short names\<close>

definition short_char :: "char \<Rightarrow> bool" where
  "short_char c \<longleftrightarrow>
     (let n = of_char c :: nat in (65 \<le> n \<and> n \<le> 90) \<or> (48 \<le> n \<and> n \<le> 57)) \<or> c \<in> set ''-_~''"

definition canon_83 :: "string \<Rightarrow> kb_error + string" where
  "canon_83 name =
     (let up = upper name;
          (base, ext) = (case rsplit_once CHR ''.'' up of Some p \<Rightarrow> p | None \<Rightarrow> (up, ''''))
      in if base = [] \<or> 8 < length base \<or> 3 < length ext \<or> \<not> list_all short_char base \<or> \<not> list_all short_char ext
         then Inl (KbBadName name)
         else Inr (if ext = [] then base else base @ ''.'' @ ext))"

definition to_field :: "string \<Rightarrow> bytes" where
  "to_field canon =
     (let (base, ext) = (case split_once CHR ''.'' canon of Some p \<Rightarrow> p | None \<Rightarrow> (canon, ''''))
      in space_pad 8 (str_bytes base) @ space_pad 3 (str_bytes ext))"

definition fits_83 :: "string \<Rightarrow> bytes option" where
  "fits_83 name = (case canon_83 name of Inr c \<Rightarrow> Some (to_field c) | Inl _ \<Rightarrow> None)"

definition long_char :: "string \<Rightarrow> bool" where
  "long_char c \<longleftrightarrow>
     0x20 \<le> scalar_of c \<and> scalar_of c < 0xFFFF \<and> c \<notin> (\<lambda>d. [d]) ` set [CHR ''/'', CHR 0x5C, CHR '':'', CHR ''*'',
       CHR ''?'', CHR 0x22, CHR ''<'', CHR ''>'', CHR ''|'']"

definition is_long_name :: "string \<Rightarrow> bool" where
  "is_long_name name \<longleftrightarrow>
     1 \<le> length (encode_utf16 name) \<and> length (encode_utf16 name) \<le> 255 \<and> name \<noteq> ''.'' \<and> name \<noteq> ''..''
     \<and> last name \<noteq> CHR ''.'' \<and> last name \<noteq> CHR '' '' \<and> list_all long_char (chars_of name)"

definition validate_name :: "string \<Rightarrow> kb_error + unit" where
  "validate_name name =
     (if fits_83 name \<noteq> None \<or> is_long_name name then Inr () else Inl (KbBadName name))"

subsection \<open>Building the tree\<close>

text \<open>A walk creates what is missing as it goes, also when it fails further down; so does the code, which
  changes the tree in place.\<close>

fun at_fat_dir ::
  "string list \<Rightarrow> (fat_dir \<Rightarrow> (kb_error + unit) \<times> fat_dir) \<Rightarrow> fat_dir \<Rightarrow> (kb_error + unit) \<times> fat_dir" where
  "at_fat_dir [] f es = f es"
| "at_fat_dir (d # ds) f es =
     (case validate_name d of
        Inl e \<Rightarrow> (Inl e, es)
      | Inr _ \<Rightarrow>
          (case map_of es (upper d) of
             Some (name, FFile _) \<Rightarrow> (Inl (KbBadName d), es)
           | Some (name, FDir sub) \<Rightarrow>
               (case at_fat_dir ds f sub of (r, sub') \<Rightarrow> (r, bt_insert (upper d) (name, FDir sub') es))
           | None \<Rightarrow>
               (case at_fat_dir ds f [] of (r, sub') \<Rightarrow> (r, bt_insert (upper d) (d, FDir sub') es))))"

definition fat_parts :: "string \<Rightarrow> string list" where
  "fat_parts path = filter (\<lambda>p. p \<noteq> []) (split_on CHR ''/'' path)"

definition fat_insert_file :: "string \<Rightarrow> bytes \<Rightarrow> fat_dir \<Rightarrow> (kb_error + unit) \<times> fat_dir" where
  "fat_insert_file path data es =
     (let parts = fat_parts path in
      if parts = [] then (Inl (KbBadName path), es)
      else
        at_fat_dir (butlast parts) (\<lambda>cur.
          case validate_name (last parts) of
            Inl e \<Rightarrow> (Inl e, cur)
          | Inr _ \<Rightarrow> (Inr (), bt_insert (upper (last parts)) (last parts, FFile data) cur)) es)"

definition fat_mkdir :: "string \<Rightarrow> fat_dir \<Rightarrow> (kb_error + unit) \<times> fat_dir" where
  "fat_mkdir path es = at_fat_dir (fat_parts path) (\<lambda>cur. (Inr (), cur)) es"

subsection \<open>Aliases\<close>

definition clean :: "string \<Rightarrow> nat \<Rightarrow> string" where
  "clean s n =
     take n (map (\<lambda>c. if list_all short_char c then hd c else CHR ''_'')
       (filter (\<lambda>c. c \<noteq> '' '' \<and> c \<noteq> ''.'') (chars_of s)))"

definition alias_field :: "string \<Rightarrow> string \<Rightarrow> nat \<Rightarrow> bytes" where
  "alias_field lbase lext i =
     (let tail = CHR ''~'' # show_nat i;
          base = clean lbase (8 - length tail)
      in space_pad 8 (str_bytes (take 8 (base @ tail))) @ space_pad 3 (str_bytes (clean lext 3)))"

text \<open>The first number whose field is free; \<open>None\<close> is the \<open>unreachable!\<close> after the last one.\<close>

function alias_from :: "string \<Rightarrow> string \<Rightarrow> bytes list \<Rightarrow> nat \<Rightarrow> bytes option" where
  "alias_from lbase lext taken i =
     (if 2 ^ 32 \<le> i then None
      else if alias_field lbase lext i \<notin> set taken then Some (alias_field lbase lext i)
      else alias_from lbase lext taken (i + 1))"
  by pat_completeness auto
termination by (relation "measure (\<lambda>(_, _, _, i). 2 ^ 32 - i)") auto

declare alias_from.simps [simp del]

definition short_alias :: "string \<Rightarrow> bytes list \<Rightarrow> bytes option" where
  "short_alias long taken =
     (let up = upper long;
          (lbase, lext) = (case rsplit_once CHR ''.'' up of Some p \<Rightarrow> p | None \<Rightarrow> (up, ''''))
      in alias_from lbase lext taken 1)"

text \<open>An entry to write: its short field, its long name if it needs one, and its node.\<close>

type_synonym planned = "bytes \<times> string option \<times> fat_node"

fun plan_from :: "bytes list \<Rightarrow> fat_dir \<Rightarrow> planned list option" where
  "plan_from taken [] = Some []"
| "plan_from taken ((_, name, node) # es) =
     (case fits_83 name of
        Some field \<Rightarrow> map_option (\<lambda>ps. (field, None, node) # ps) (plan_from taken es)
      | None \<Rightarrow>
          (case short_alias name taken of
             None \<Rightarrow> None
           | Some field \<Rightarrow>
               map_option (\<lambda>ps. (field, Some name, node) # ps) (plan_from (field # taken) es)))"

definition plan_children :: "fat_dir \<Rightarrow> planned list option" where
  "plan_children es = plan_from (List.map_filter (\<lambda>(_, name, _). fits_83 name) es) es"

subsection \<open>Directory entries\<close>

definition fat_entry :: "bytes \<Rightarrow> u32 \<Rightarrow> u32 \<Rightarrow> byte \<Rightarrow> bytes" where
  "fat_entry name first sz attr =
     name @ [attr, 0, 0] @ le_bytes 2 fixed_time @ le_bytes 2 fixed_date @ le_bytes 2 fixed_date
     @ le_bytes 2 (ucast (drop_bit 16 first) :: u16) @ le_bytes 2 fixed_time @ le_bytes 2 fixed_date
     @ le_bytes 2 (ucast (first AND 0xFFFF) :: u16) @ le_bytes 4 sz"

definition dot_name :: "string \<Rightarrow> bytes" where
  "dot_name dots = space_pad 11 (str_bytes dots)"

definition lfn_checksum :: "bytes \<Rightarrow> byte" where
  "lfn_checksum field = fold (\<lambda>b sum. (drop_bit 1 sum OR push_bit 7 (sum AND 1)) + b) field 0"

definition lfn_slots :: "string \<Rightarrow> nat" where
  "lfn_slots name = (if fits_83 name \<noteq> None then 0 else length (encode_utf16 name) div 13 + 1)"

definition content_slots :: "fat_dir \<Rightarrow> bool \<Rightarrow> nat" where
  "content_slots es is_root =
     (if is_root then 1 else 2) + sum_list (map (\<lambda>(_, name, _). 1 + lfn_slots name) es)"

definition lfn_slot :: "nat \<Rightarrow> nat \<Rightarrow> byte \<Rightarrow> u16 list \<Rightarrow> bytes" where
  "lfn_slot nslots s cksum cs =
     [of_nat s OR (if s = nslots then 0x40 else 0)] @ concat (map (le_bytes 2) (take 5 cs))
     @ [attr_long_name, 0, cksum] @ concat (map (le_bytes 2) (take 6 (drop 5 cs)))
     @ [0, 0] @ concat (map (le_bytes 2) (drop 11 cs))"

text \<open>The units with their terminator and padding, and the slots, the last part first.\<close>

definition lfn_units :: "string \<Rightarrow> u16 list" where
  "lfn_units long =
     (let us = encode_utf16 long; n = length us div 13 + 1
      in us @ [0] @ replicate (n * 13 - (length us + 1)) 0xFFFF)"

definition lfn_entries :: "string \<Rightarrow> bytes \<Rightarrow> bytes" where
  "lfn_entries long short_field =
     (let n = length (encode_utf16 long) div 13 + 1
      in concat (map (\<lambda>s. lfn_slot n s (lfn_checksum short_field) (take 13 (drop ((s - 1) * 13) (lfn_units long))))
           (rev [1..<n + 1])))"

end
