(* ===== verification/Fat.thy ===== *)
theory Fat
  imports FatNames
begin

section \<open>FAT: the volume\<close>

text \<open>
  \<open>crates/keybuild/src/fat.rs\<close>, the writer: geometry, allocation, the directories and files in their
  clusters, the two file allocation tables and the boot sector.  Sector and cluster numbers are \<open>nat\<close>:
  they stay far below the \<open>u64\<close> and \<open>u32\<close> of the code for any image that fits a memory; the fields written
  to the image are truncated to their width as in the code.  \<open>Panic\<close> is a subtraction below zero or a
  slice out of range.
\<close>

datatype fat_fault = Panic | Fault kb_error

datatype fat_type = Fat16 | Fat32

definition fat_sector :: nat where "fat_sector = 512"

subsection \<open>Geometry\<close>

record geometry =
  ge_type :: fat_type
  ge_spc :: nat
  ge_reserved :: nat
  ge_fats :: nat
  ge_root_entries :: nat
  ge_root_sectors :: nat
  ge_fat_size :: nat
  ge_total :: nat
  ge_clusters :: nat

definition cluster_bytes :: "geometry \<Rightarrow> nat" where
  "cluster_bytes g = ge_spc g * fat_sector"

definition root_start :: "geometry \<Rightarrow> nat" where
  "root_start g = ge_reserved g + ge_fats g * ge_fat_size g"

definition data_start :: "geometry \<Rightarrow> nat" where
  "data_start g = root_start g + ge_root_sectors g"

definition cluster_offset :: "geometry \<Rightarrow> nat \<Rightarrow> nat" where
  "cluster_offset g n = (data_start g + (n - 2) * ge_spc g) * fat_sector"

definition max_cluster :: "geometry \<Rightarrow> nat" where
  "max_cluster g = ge_clusters g + 1"

definition eoc :: "geometry \<Rightarrow> u32" where
  "eoc g = (case ge_type g of Fat16 \<Rightarrow> 0xFFFF | Fat32 \<Rightarrow> 0x0FFFFFFF)"

definition csub :: "nat \<Rightarrow> nat \<Rightarrow> fat_fault + nat" where
  "csub a b = (if b \<le> a then Inr (a - b) else Inl Panic)"

definition fat_size_sectors :: "nat \<Rightarrow> nat \<Rightarrow> nat \<Rightarrow> nat \<Rightarrow> nat \<Rightarrow> fat_type \<Rightarrow> fat_fault + nat" where
  "fat_size_sectors secs spc fats reserved root_sectors t =
     res_bind (csub secs (reserved + root_sectors)) (\<lambda>tmp1.
       let tmp2 = 256 * spc + fats in
       Inr (nat_ceil tmp1 (case t of Fat32 \<Rightarrow> tmp2 div 2 | Fat16 \<Rightarrow> tmp2)))"

definition fat32_spc :: "nat \<Rightarrow> nat" where
  "fat32_spc secs = (let mib = secs div 2048 in if mib \<le> 256 then 1 else if mib \<le> 512 then 2 else 8)"

definition geometry32 :: "nat \<Rightarrow> fat_fault + geometry" where
  "geometry32 secs =
     (let spc = fat32_spc secs; reserved = 32; fats = 2 in
      res_bind (fat_size_sectors secs spc fats reserved 0 Fat32) (\<lambda>fat_size.
      res_bind (csub secs (reserved + fats * fat_size)) (\<lambda>room.
        Inr \<lparr>ge_type = Fat32, ge_spc = spc, ge_reserved = reserved, ge_fats = fats, ge_root_entries = 0,
             ge_root_sectors = 0, ge_fat_size = fat_size, ge_total = secs, ge_clusters = room div spc\<rparr>)))"

function geometry16 :: "nat \<Rightarrow> nat \<Rightarrow> fat_fault + geometry" where
  "geometry16 secs spc =
     (let reserved = 1; fats = 2; root_sectors = fat16_root_entries * 32 div fat_sector in
      res_bind (fat_size_sectors secs spc fats reserved root_sectors Fat16) (\<lambda>fat_size.
      res_bind (csub secs (reserved + fats * fat_size + root_sectors)) (\<lambda>room.
        if room div spc \<le> 65524 then
          Inr \<lparr>ge_type = Fat16, ge_spc = spc, ge_reserved = reserved, ge_fats = fats,
               ge_root_entries = fat16_root_entries, ge_root_sectors = root_sectors,
               ge_fat_size = fat_size, ge_total = secs, ge_clusters = room div spc\<rparr>
        else if 64 < spc * 2 then Inl (Fault (KbEspTooSmall (of_nat (secs * fat_sector))))
        else geometry16 secs (spc * 2))))"
  by pat_completeness auto
termination
proof (relation "measure (\<lambda>(_, spc). 65 - spc)")
  fix secs spc x xa xb y z
  assume "\<not> z div spc \<le> (65524 :: nat)" "\<not> 64 < spc * 2"
  then have "0 < spc" "spc \<le> 32" by (cases spc; simp)+
  then show "((secs, spc * 2), secs, spc) \<in> measure (\<lambda>(_, spc). 65 - spc)" by simp
qed simp

declare geometry16.simps [simp del]

definition fat_geometry :: "nat \<Rightarrow> fat_fault + geometry" where
  "fat_geometry secs = (if 64 * 2048 \<le> secs then geometry32 secs else geometry16 secs 1)"

subsection \<open>The image\<close>

record fat_builder =
  fb_image :: bytes
  fb_fat :: "u32 list"
  fb_next :: nat

type_synonym 'a fat_action = "(fat_builder, fat_fault, 'a) action"

definition blit :: "nat \<Rightarrow> bytes \<Rightarrow> unit fat_action" where
  "blit off data b =
     (if off + length data \<le> length (fb_image b)
      then (Inr (), b\<lparr>fb_image := take off (fb_image b) @ data @ drop (off + length data) (fb_image b)\<rparr>)
      else (Inl Panic, b))"

text \<open>\<open>chain[i]\<close> points at the next cluster of the chain, the last at the end.\<close>

fun link_chain :: "geometry \<Rightarrow> nat list \<Rightarrow> u32 list \<Rightarrow> u32 list" where
  "link_chain g [] fat = fat"
| "link_chain g [c] fat = fat[c := eoc g]"
| "link_chain g (c # d # cs) fat = link_chain g (d # cs) (fat[c := of_nat d])"

definition alloc_chain :: "geometry \<Rightarrow> nat \<Rightarrow> nat list fat_action" where
  "alloc_chain g n b =
     (let first = fb_next b in
      if n = 0 \<or> max_cluster g < first + n - 1
      then (Inl (Fault (KbEspFull (of_nat (first - 2 + n)) (of_nat (ge_clusters g)))), b)
      else
        let chain = [first..<first + n] in
        (Inr chain, b\<lparr>fb_fat := link_chain g chain (fb_fat b), fb_next := first + n\<rparr>))"

fun write_clusters :: "geometry \<Rightarrow> nat list \<Rightarrow> bytes \<Rightarrow> unit fat_action" where
  "write_clusters g [] data = act_ret ()"
| "write_clusters g (c # cs) data =
     (if data = [] then act_ret ()
      else
        act_bind (blit (cluster_offset g c) (take (cluster_bytes g) data)) (\<lambda>_.
          write_clusters g cs (drop (cluster_bytes g) data)))"

text \<open>The slots an entry takes before and with its short entry.\<close>

definition named_entry :: "bytes \<Rightarrow> string option \<Rightarrow> nat \<Rightarrow> nat \<Rightarrow> byte \<Rightarrow> bytes" where
  "named_entry field long first sz attr =
     (case long of Some name \<Rightarrow> lfn_entries name field | None \<Rightarrow> []) @ fat_entry field (of_nat first) (of_nat sz) attr"

definition dir_head :: "fat_params \<Rightarrow> nat \<Rightarrow> nat \<Rightarrow> bool \<Rightarrow> bytes" where
  "dir_head p self_first parent_first is_root =
     (if is_root then fat_entry (fp_label p) 0 0 attr_volume_id
      else fat_entry (dot_name ''.'') (of_nat self_first) 0 attr_directory
        @ fat_entry (dot_name ''..'') (of_nat parent_first) 0 attr_directory)"

definition write_dir_bytes :: "geometry \<Rightarrow> nat list option \<Rightarrow> bytes \<Rightarrow> unit fat_action" where
  "write_dir_bytes g self_chain buf =
     (case self_chain of
        Some chain \<Rightarrow> write_clusters g chain buf
      | None \<Rightarrow> blit (root_start g * fat_sector) buf)"

definition put_file :: "geometry \<Rightarrow> bytes \<Rightarrow> nat fat_action" where
  "put_file g data =
     (if data = [] then act_ret 0
      else
        act_bind (alloc_chain g (nat_ceil (length data) (cluster_bytes g))) (\<lambda>chain.
        act_bind (write_clusters g chain data) (\<lambda>_. act_ret (hd chain))))"

definition dir_clusters :: "geometry \<Rightarrow> fat_dir \<Rightarrow> bool \<Rightarrow> nat" where
  "dir_clusters g es is_root = max (nat_ceil (content_slots es is_root * 32) (cluster_bytes g)) 1"

subsection \<open>The directories\<close>

fun node_weight :: "fat_node \<Rightarrow> nat" where
  "node_weight (FFile _) = 1"
| "node_weight (FDir es) = 1 + sum_list (map (\<lambda>(_, _, n). node_weight n) es)"

lemma plan_from_nodes: "plan_from taken es = Some ps \<Longrightarrow> map (snd \<circ> snd) ps = map (snd \<circ> snd) es"
  by (induction taken es arbitrary: ps rule: plan_from.induct) (auto split: option.splits)

lemma plan_children_nodes: "plan_children es = Some ps \<Longrightarrow> map (snd \<circ> snd) ps = map (snd \<circ> snd) es"
  by (simp add: plan_children_def plan_from_nodes)

definition nodes_weight :: "fat_node list \<Rightarrow> nat" where
  "nodes_weight ns = sum_list (map node_weight ns)"

lemma nodes_weight_simps [simp]: "nodes_weight [] = 0" "nodes_weight (n # ns) = node_weight n + nodes_weight ns"
  by (simp_all add: nodes_weight_def)

lemma node_weight_dir: "node_weight (FDir es) = 1 + nodes_weight (map (snd \<circ> snd) es)"
  by (simp add: nodes_weight_def comp_def case_prod_unfold)

text \<open>A directory is rendered after its children, into clusters that were allocated before them.\<close>

function render_dir ::
  "geometry \<Rightarrow> fat_params \<Rightarrow> fat_dir \<Rightarrow> nat list option \<Rightarrow> nat \<Rightarrow> nat \<Rightarrow> bool \<Rightarrow> unit fat_action"
  and render_children :: "geometry \<Rightarrow> fat_params \<Rightarrow> planned list \<Rightarrow> nat \<Rightarrow> bytes fat_action"
where
  "render_dir g p es self_chain self_first parent_first is_root =
     (case plan_children es of
        None \<Rightarrow> act_fail Panic
      | Some ps \<Rightarrow>
          act_bind (render_children g p ps (if is_root then 0 else self_first)) (\<lambda>buf.
            write_dir_bytes g self_chain (dir_head p self_first parent_first is_root @ buf)))"
| "render_children g p [] dotdot = act_ret []"
| "render_children g p ((field, long, FFile data) # rest) dotdot =
     act_bind (put_file g data) (\<lambda>first.
     act_bind (render_children g p rest dotdot) (\<lambda>buf.
       act_ret (named_entry field long first (length data) attr_archive @ buf)))"
| "render_children g p ((field, long, FDir sub) # rest) dotdot =
     act_bind (alloc_chain g (dir_clusters g sub False)) (\<lambda>chain.
     act_bind (render_dir g p sub (Some chain) (hd chain) dotdot False) (\<lambda>_.
     act_bind (render_children g p rest dotdot) (\<lambda>buf.
       act_ret (named_entry field long (hd chain) 0 attr_directory @ buf))))"
  by pat_completeness auto
termination
  by (relation "measure (\<lambda>x. case x of
        Inl (_, _, es, _) \<Rightarrow> 2 * nodes_weight (map (snd \<circ> snd) es) + 1
      | Inr (_, _, ps, _) \<Rightarrow> 2 * nodes_weight (map (snd \<circ> snd) ps))")
    (auto simp: plan_children_nodes node_weight_dir simp del: node_weight.simps(2) map_map)

declare render_dir.simps [simp del]

subsection \<open>Tables and boot sector\<close>

definition fat_bytes :: "geometry \<Rightarrow> u32 list \<Rightarrow> bytes" where
  "fat_bytes g fat =
     (case ge_type g of
        Fat16 \<Rightarrow> concat (map (\<lambda>e. le_bytes 2 (ucast e :: u16)) fat)
      | Fat32 \<Rightarrow> concat (map (\<lambda>e. le_bytes 4 (e AND 0x0FFFFFFF)) fat))"

definition write_fats :: "geometry \<Rightarrow> unit fat_action" where
  "write_fats g b =
     (let bs = fat_bytes g (fb_fat b) in
      act_bind (act_map (\<lambda>i. blit ((ge_reserved g + i * ge_fat_size g) * fat_sector) bs) [0..<ge_fats g])
        (\<lambda>_. act_ret ()) b)"

text \<open>The fields of the boot sector up to offset 36, and the two tails.\<close>

definition bpb_head :: "geometry \<Rightarrow> fat_params \<Rightarrow> bytes" where
  "bpb_head g p =
     (let small = ge_type g = Fat16 \<and> ge_total g < 0x10000 in
      (case ge_type g of Fat16 \<Rightarrow> [0xEB, 0x3C, 0x90] | Fat32 \<Rightarrow> [0xEB, 0x58, 0x90])
      @ fp_oem p @ le_bytes 2 (of_nat fat_sector :: u16) @ [of_nat (ge_spc g)]
      @ le_bytes 2 (of_nat (ge_reserved g) :: u16) @ [of_nat (ge_fats g)]
      @ le_bytes 2 (of_nat (ge_root_entries g) :: u16)
      @ le_bytes 2 (if small then of_nat (ge_total g) else 0 :: u16) @ [media]
      @ le_bytes 2 (if ge_type g = Fat16 then of_nat (ge_fat_size g) else 0 :: u16)
      @ le_bytes 2 (32 :: u16) @ le_bytes 2 (64 :: u16) @ replicate 4 0
      @ le_bytes 4 (if small then 0 else of_nat (ge_total g) :: u32))"

definition fat16_tail :: "fat_params \<Rightarrow> bytes" where
  "fat16_tail p = [0x80, 0, 0x29] @ le_bytes 4 (fp_id p) @ fp_label p @ str_bytes ''FAT16   ''"

definition fat32_tail :: "geometry \<Rightarrow> fat_params \<Rightarrow> bytes" where
  "fat32_tail g p =
     le_bytes 4 (of_nat (ge_fat_size g) :: u32) @ replicate 4 0 @ le_bytes 4 (of_nat fat32_root_cluster :: u32)
     @ le_bytes 2 (1 :: u16) @ le_bytes 2 (6 :: u16) @ replicate 12 0 @ [0x80, 0, 0x29]
     @ le_bytes 4 (fp_id p) @ fp_label p @ str_bytes ''FAT32   ''"

definition boot_sector :: "geometry \<Rightarrow> fat_params \<Rightarrow> bytes" where
  "boot_sector g p =
     (let s = bpb_head g p @ (case ge_type g of Fat16 \<Rightarrow> fat16_tail p | Fat32 \<Rightarrow> fat32_tail g p)
      in s @ replicate (510 - length s) 0 @ [0x55, 0xAA])"

definition write_boot_sector :: "geometry \<Rightarrow> fat_params \<Rightarrow> unit fat_action" where
  "write_boot_sector g p =
     act_bind (blit 0 (boot_sector g p)) (\<lambda>_.
       case ge_type g of Fat16 \<Rightarrow> act_ret () | Fat32 \<Rightarrow> blit (6 * fat_sector) (boot_sector g p))"

definition fsinfo_sector :: "geometry \<Rightarrow> nat \<Rightarrow> bytes" where
  "fsinfo_sector g free_from =
     (let used = free_from - 2; free = ge_clusters g - used in
      le_bytes 4 (0x41615252 :: u32) @ replicate 480 0 @ le_bytes 4 (0x61417272 :: u32)
      @ le_bytes 4 (of_nat free :: u32) @ le_bytes 4 (of_nat free_from :: u32) @ replicate 12 0
      @ le_bytes 4 (0xAA550000 :: u32))"

definition write_fsinfo :: "geometry \<Rightarrow> unit fat_action" where
  "write_fsinfo g b =
     (let s = fsinfo_sector g (fb_next b) in act_bind (blit fat_sector s) (\<lambda>_. blit (7 * fat_sector) s) b)"

subsection \<open>The whole volume\<close>

definition type_fits :: "geometry \<Rightarrow> bool" where
  "type_fits g \<longleftrightarrow>
     (case ge_type g of Fat16 \<Rightarrow> 4085 \<le> ge_clusters g \<and> ge_clusters g \<le> 65524 | Fat32 \<Rightarrow> 65525 \<le> ge_clusters g)"

definition blank_volume :: "geometry \<Rightarrow> fat_builder" where
  "blank_volume g =
     \<lparr>fb_image = replicate (ge_total g * fat_sector) 0,
      fb_fat = ((case ge_type g of Fat16 \<Rightarrow> 0xFF00 | Fat32 \<Rightarrow> 0x0FFFFF00) OR ucast media) # eoc g # replicate (ge_clusters g) 0,
      fb_next = 2\<rparr>"

definition render_root :: "geometry \<Rightarrow> fat_params \<Rightarrow> fat_dir \<Rightarrow> unit fat_action" where
  "render_root g p root =
     (case ge_type g of
        Fat16 \<Rightarrow>
          (let count = content_slots root True in
           if ge_root_entries g < count
           then act_fail (Fault (KbEspFull (of_nat count) (of_nat (ge_root_entries g))))
           else render_dir g p root None 0 0 True)
      | Fat32 \<Rightarrow>
          act_bind (alloc_chain g (dir_clusters g root True)) (\<lambda>chain.
            render_dir g p root (Some chain) fat32_root_cluster 0 True))"

definition fill_volume :: "geometry \<Rightarrow> fat_params \<Rightarrow> fat_dir \<Rightarrow> unit fat_action" where
  "fill_volume g p root =
     act_bind (render_root g p root) (\<lambda>_.
     act_bind (write_fats g) (\<lambda>_.
     act_bind (write_boot_sector g p) (\<lambda>_.
       case ge_type g of Fat16 \<Rightarrow> act_ret () | Fat32 \<Rightarrow> write_fsinfo g)))"

definition fat_format :: "nat \<Rightarrow> fat_dir \<Rightarrow> fat_params \<Rightarrow> fat_fault + bytes" where
  "fat_format nbytes root p =
     (if nbytes mod fat_sector \<noteq> 0 then Inl (Fault (KbEspTooSmall (of_nat nbytes)))
      else
        res_bind (fat_geometry (nbytes div fat_sector)) (\<lambda>g.
          if \<not> type_fits g then Inl (Fault (KbEspTooSmall (of_nat nbytes)))
          else
            (case fill_volume g p root (blank_volume g) of
               (Inl e, _) \<Rightarrow> Inl e
             | (Inr _, b) \<Rightarrow> Inr (fb_image b))))"

end
