(* ===== verification/FatRead.thy ===== *)
theory FatRead
  imports Fat
begin

section \<open>Reading a FAT volume\<close>

text \<open>
  What a FAT driver makes of an image, as the reader of the tests of \<open>crates/keybuild/src/fat.rs\<close> does: the
  geometry from the boot sector, the chains of the table, and the entries of a directory with their long
  names.  It is the specification of the writer; it shares only the checksum of a short name with it.
\<close>

subsection \<open>The entries of a directory\<close>

fun units_of :: "bytes \<Rightarrow> u16 list" where
  "units_of (a # b # bs) = from_le [a, b] # units_of bs"
| "units_of _ = []"

record dir_item =
  di_long :: "u16 list option"
  di_field :: bytes
  di_attr :: byte
  di_first :: nat
  di_size :: nat

text \<open>A slot of a long name: its number, its checksum and its units.\<close>

type_synonym slot = "nat \<times> byte \<times> u16 list"

definition lfn_slot_of :: "bytes \<Rightarrow> slot" where
  "lfn_slot_of e = (unat (e ! 0 AND 0x3F), e ! 13,
     units_of (take 10 (drop 1 e) @ take 12 (drop 14 e) @ take 4 (drop 28 e)))"

text \<open>The slots before a short entry give it its long name when they are numbered down to one and carry the
  checksum of its field; the name ends at its first zero.\<close>

definition long_name :: "slot list \<Rightarrow> bytes \<Rightarrow> u16 list option" where
  "long_name slots field =
     (if slots \<noteq> [] \<and> map fst slots = [1..<length slots + 1]
         \<and> list_all (\<lambda>(_, ck, _). ck = lfn_checksum field) slots
      then Some (takeWhile (\<lambda>u. u \<noteq> 0) (concat (map (snd \<circ> snd) slots))) else None)"

definition item_of :: "slot list \<Rightarrow> bytes \<Rightarrow> dir_item" where
  "item_of slots e =
     \<lparr>di_long = long_name slots (take 11 e), di_field = take 11 e, di_attr = e ! 11,
      di_first = le_nat (take 2 (drop 26 e)) + 65536 * le_nat (take 2 (drop 20 e)),
      di_size = le_nat (take 4 (drop 28 e))\<rparr>"

function parse_dir :: "bytes \<Rightarrow> slot list \<Rightarrow> dir_item list" where
  "parse_dir bs slots =
     (if length bs < 32 \<or> bs ! 0 = 0 then []
      else if bs ! 0 = 0xE5 then parse_dir (drop 32 bs) []
      else if bs ! 11 = attr_long_name then parse_dir (drop 32 bs) (lfn_slot_of (take 32 bs) # slots)
      else item_of slots (take 32 bs) # parse_dir (drop 32 bs) [])"
  by pat_completeness auto
termination by (relation "measure (length \<circ> fst)") auto

declare parse_dir.simps [simp del]

subsection \<open>The tree of a volume\<close>

datatype fat_label = LbShort bytes | LbLong "u16 list"

datatype fat_item = ItFile bytes | ItDir "(fat_label \<times> fat_item) list"

definition item_label :: "dir_item \<Rightarrow> fat_label" where
  "item_label it = (case di_long it of Some us \<Rightarrow> LbLong us | None \<Rightarrow> LbShort (di_field it))"

definition proper_item :: "dir_item \<Rightarrow> bool" where
  "proper_item it \<longleftrightarrow> di_attr it AND attr_volume_id = 0 \<and> di_field it \<noteq> dot_name ''.'' \<and> di_field it \<noteq> dot_name ''..''"

definition is_directory :: "dir_item \<Rightarrow> bool" where
  "is_directory it \<longleftrightarrow> di_attr it AND attr_directory \<noteq> 0"

text \<open>\<open>f\<close> gives the content of a chain by its first cluster; the number bounds the depth.\<close>

fun read_items :: "(nat \<Rightarrow> bytes) \<Rightarrow> nat \<Rightarrow> bytes \<Rightarrow> (fat_label \<times> fat_item) list" where
  "read_items f 0 bs = []"
| "read_items f (Suc k) bs =
     map (\<lambda>it. (item_label it,
         if is_directory it then ItDir (read_items f k (f (di_first it)))
         else ItFile (take (di_size it) (f (di_first it)))))
       (filter proper_item (parse_dir bs []))"

fun chain_from :: "nat \<Rightarrow> (nat \<Rightarrow> nat) \<Rightarrow> (nat \<Rightarrow> bool) \<Rightarrow> nat \<Rightarrow> nat list" where
  "chain_from 0 nxt fin c = []"
| "chain_from (Suc k) nxt fin c = (if fin c \<or> c < 2 then [] else c # chain_from k nxt fin (nxt c))"

record fat_reader =
  fr_type :: fat_type
  fr_spc :: nat
  fr_reserved :: nat
  fr_fats :: nat
  fr_root_entries :: nat
  fr_fat_size :: nat
  fr_root :: nat

definition img_part :: "nat \<Rightarrow> nat \<Rightarrow> bytes \<Rightarrow> bytes" where
  "img_part off n img = take n (drop off img)"

definition reader_new :: "bytes \<Rightarrow> fat_reader" where
  "reader_new img =
     (let u16 = (\<lambda>o'. le_nat (img_part o' 2 img)); u32 = (\<lambda>o'. le_nat (img_part o' 4 img));
          t = (if u16 22 = 0 then Fat32 else Fat16)
      in \<lparr>fr_type = t, fr_spc = unat (img ! 13), fr_reserved = u16 14, fr_fats = unat (img ! 16),
          fr_root_entries = u16 17, fr_fat_size = (case t of Fat32 \<Rightarrow> u32 36 | Fat16 \<Rightarrow> u16 22),
          fr_root = (case t of Fat32 \<Rightarrow> u32 44 | Fat16 \<Rightarrow> 0)\<rparr>)"

definition reader_next :: "fat_reader \<Rightarrow> bytes \<Rightarrow> nat \<Rightarrow> nat" where
  "reader_next R img c =
     (case fr_type R of
        Fat16 \<Rightarrow> le_nat (img_part (fr_reserved R * fat_sector + c * 2) 2 img)
      | Fat32 \<Rightarrow> le_nat (img_part (fr_reserved R * fat_sector + c * 4) 4 img) mod 2 ^ 28)"

definition reader_end :: "fat_reader \<Rightarrow> nat \<Rightarrow> bool" where
  "reader_end R c \<longleftrightarrow> (case fr_type R of Fat16 \<Rightarrow> 0xFFF8 \<le> c | Fat32 \<Rightarrow> 0x0FFFFFF8 \<le> c)"

definition reader_data_start :: "fat_reader \<Rightarrow> nat" where
  "reader_data_start R = fr_reserved R + fr_fats R * fr_fat_size R + fr_root_entries R * 32 div fat_sector"

definition reader_cluster :: "fat_reader \<Rightarrow> bytes \<Rightarrow> nat \<Rightarrow> bytes" where
  "reader_cluster R img c =
     img_part ((reader_data_start R + (c - 2) * fr_spc R) * fat_sector) (fr_spc R * fat_sector) img"

definition reader_chain :: "fat_reader \<Rightarrow> bytes \<Rightarrow> nat \<Rightarrow> bytes" where
  "reader_chain R img first =
     concat (map (reader_cluster R img) (chain_from (length img) (reader_next R img) (reader_end R) first))"

definition reader_root :: "fat_reader \<Rightarrow> bytes \<Rightarrow> bytes" where
  "reader_root R img =
     (case fr_type R of
        Fat16 \<Rightarrow> img_part ((fr_reserved R + fr_fats R * fr_fat_size R) * fat_sector) (fr_root_entries R * 32) img
      | Fat32 \<Rightarrow> reader_chain R img (fr_root R))"

definition read_volume :: "nat \<Rightarrow> bytes \<Rightarrow> (fat_label \<times> fat_item) list" where
  "read_volume depth img =
     (let R = reader_new img in read_items (reader_chain R img) depth (reader_root R img))"

subsection \<open>The tree that was meant\<close>

definition name_label :: "string \<Rightarrow> fat_label" where
  "name_label name = (case fits_83 name of Some field \<Rightarrow> LbShort field | None \<Rightarrow> LbLong (encode_utf16 name))"

fun node_item :: "fat_node \<Rightarrow> fat_item" where
  "node_item (FFile data) = ItFile data"
| "node_item (FDir es) = ItDir (map (\<lambda>(_, name, n). (name_label name, node_item n)) es)"

definition tree_items :: "fat_dir \<Rightarrow> (fat_label \<times> fat_item) list" where
  "tree_items es = map (\<lambda>(_, name, n). (name_label name, node_item n)) es"

text \<open>Names the tree accepts, sizes that fit their field, and no more entries in a directory than FAT allows.\<close>

fun fat_node_fits :: "fat_node \<Rightarrow> bool" where
  "fat_node_fits (FFile data) \<longleftrightarrow> length data < 2 ^ 32"
| "fat_node_fits (FDir es) \<longleftrightarrow>
     length es < 65536 \<and> (\<forall>(_, name, n) \<in> set es. validate_name name = Inr () \<and> fat_node_fits n)"

definition fat_tree_fits :: "fat_dir \<Rightarrow> bool" where
  "fat_tree_fits es \<longleftrightarrow>
     length es < 65536 \<and> (\<forall>(_, name, n) \<in> set es. validate_name name = Inr () \<and> fat_node_fits n)"

text \<open>A field the reader takes for one: not the end, not deleted, not a dot.\<close>

definition field_ok :: "bytes \<Rightarrow> bool" where
  "field_ok f \<longleftrightarrow> length f = 11 \<and> f ! 0 \<notin> {0, 0xE5, 0x2E}"

subsection \<open>Fields\<close>

lemma length_space_pad: "length bs \<le> n \<Longrightarrow> length (space_pad n bs) = n"
  by (simp add: space_pad_def)

lemma short_char_byte:
  assumes "short_char c"
  shows "(of_char c :: byte) \<notin> {0, 0xE5, 0x2E}"
proof -
  have n: "unat (of_char c :: byte) = of_char c" by (rule unat_of_char)
  have "(of_char c :: nat) \<noteq> 0 \<and> (of_char c :: nat) \<noteq> 229 \<and> (of_char c :: nat) \<noteq> 46"
    using assms by (auto simp: short_char_def Let_def)
  then show ?thesis unfolding n [symmetric] by auto
qed

lemma upper_short: "list_all short_char s \<Longrightarrow> s \<noteq> [] \<Longrightarrow> (of_char (hd s) :: byte) \<notin> {0, 0xE5, 0x2E}"
  using short_char_byte by (cases s) auto

lemma to_field_ok:
  assumes "length base \<le> 8" and "length ext \<le> 3" and "CHR ''.'' \<notin> set base" and "base \<noteq> []" and "list_all short_char base"
  shows "field_ok (to_field (if ext = [] then base else base @ ''.'' @ ext))"
proof -
  have "split_once CHR ''.'' base = None" using assms(3) by (simp add: split_once_None_iff)
  moreover have "split_once CHR ''.'' (base @ ''.'' @ ext) = Some (base, ext)" using assms(3) by (simp add: split_once_append)
  ultimately have f: "to_field (if ext = [] then base else base @ ''.'' @ ext)
      = space_pad 8 (str_bytes base) @ space_pad 3 (str_bytes ext)" by (simp add: to_field_def)
  have "(space_pad 8 (str_bytes base) @ space_pad 3 (str_bytes ext)) ! 0 = of_char (hd base)"
    using assms(4) by (cases base) (simp_all add: space_pad_def str_bytes_def)
  with upper_short [OF assms(5,4)] assms(1,2) show ?thesis
    by (simp add: f field_ok_def length_space_pad)
qed

lemma dot_not_short: "\<not> short_char CHR ''.''"
  by (simp add: short_char_def)

lemma fits_83_ok: "fits_83 name = Some f \<Longrightarrow> field_ok f"
proof -
  assume f: "fits_83 name = Some f"
  then obtain c where c: "canon_83 name = Inr c" "f = to_field c" by (auto simp: fits_83_def split: sum.splits)
  obtain base ext where be: "(case rsplit_once CHR ''.'' (upper name) of Some p \<Rightarrow> p | None \<Rightarrow> (upper name, [])) = (base, ext)"
    by fastforce
  with c(1) have "base \<noteq> []" "length base \<le> 8" "length ext \<le> 3" "list_all short_char base"
    and c': "c = (if ext = [] then base else base @ ''.'' @ ext)"
    by (auto simp: canon_83_def Let_def not_less split: if_splits)
  moreover from this have "CHR ''.'' \<notin> set base" using dot_not_short by (auto simp: list_all_iff)
  ultimately show ?thesis using to_field_ok c(2) by blast
qed

lemma chars_of_nonempty: "c \<in> set (chars_of s) \<Longrightarrow> c \<noteq> []"
proof (induction s rule: chars_of.induct)
  case (1 s)
  then show ?case using utf8_scan_pos [of "str_bytes s"]
    by (subst (asm) chars_of.simps) (auto simp: Let_def split: if_splits)
qed

lemma clean_short: "c \<in> set (clean s n) \<Longrightarrow> short_char c"
proof -
  assume "c \<in> set (clean s n)"
  then obtain cs where cs: "cs \<in> set (chars_of s)" "c = (if list_all short_char cs then hd cs else CHR ''_'')"
    by (auto simp: clean_def dest!: in_set_takeD)
  then show ?thesis using chars_of_nonempty [OF cs(1)] by (cases "list_all short_char cs") (cases cs, simp_all add: short_char_def)
qed

lemma length_clean: "length (clean s n) \<le> n"
  by (simp add: clean_def)

lemma alias_field_ok: "field_ok (alias_field lbase lext i)"
proof -
  let ?b = "clean lbase (8 - length (CHR ''~'' # show_nat i))" and ?t = "CHR ''~'' # show_nat i"
  have "short_char (hd (?b @ ?t))"
  proof (cases ?b)
    case Nil
    then show ?thesis by (simp add: short_char_def)
  next
    case (Cons c cs)
    have "c \<in> set ?b" by (simp only: Cons list.set_intros)
    from clean_short [OF this] show ?thesis by (simp only: Cons append_Cons list.sel)
  qed
  then have "(of_char (hd (?b @ ?t)) :: byte) \<notin> {0, 0xE5, 0x2E}" by (rule short_char_byte)
  moreover have "(space_pad 8 (str_bytes (take 8 (?b @ ?t))) @ space_pad 3 (str_bytes (clean lext 3))) ! 0 = of_char (hd (?b @ ?t))"
    by (cases ?b) (simp_all add: space_pad_def str_bytes_def)
  ultimately show ?thesis
    using length_clean [of lext 3] by (simp add: alias_field_def Let_def field_ok_def length_space_pad)
qed

lemma alias_from_Some: "alias_from lbase lext taken i = Some f \<Longrightarrow> field_ok f \<and> f \<notin> set taken"
proof (induction lbase lext taken i rule: alias_from.induct)
  case (1 lbase lext taken i)
  then show ?case by (subst (asm) (2) alias_from.simps) (auto simp: alias_field_ok split: if_splits)
qed

lemma short_alias_ok: "short_alias long taken = Some f \<Longrightarrow> field_ok f \<and> f \<notin> set taken"
  by (auto simp: short_alias_def Let_def split: option.splits prod.splits dest: alias_from_Some)

subsection \<open>What is planned for an entry\<close>

definition planned_ok :: "planned \<Rightarrow> bool" where
  "planned_ok pl \<longleftrightarrow> (case pl of (field, long, _) \<Rightarrow> field_ok field \<and> (\<forall>name. long = Some name \<longrightarrow> is_long_name name))"

definition planned_label :: "planned \<Rightarrow> fat_label" where
  "planned_label pl =
     (case pl of (field, long, _) \<Rightarrow> case long of Some name \<Rightarrow> LbLong (encode_utf16 name) | None \<Rightarrow> LbShort field)"

definition planned_slots :: "planned \<Rightarrow> nat" where
  "planned_slots pl =
     (case pl of (_, long, _) \<Rightarrow> case long of Some name \<Rightarrow> length (encode_utf16 name) div 13 + 1 | None \<Rightarrow> 0)"

lemma planned_simps:
  "planned_ok (field, long, n) \<longleftrightarrow> field_ok field \<and> (\<forall>name. long = Some name \<longrightarrow> is_long_name name)"
  "planned_label (field, Some name, n) = LbLong (encode_utf16 name)"
  "planned_label (field, None, n) = LbShort field"
  "planned_slots (field, Some name, n) = length (encode_utf16 name) div 13 + 1"
  "planned_slots (field, None, n) = 0"
  by (simp_all add: planned_ok_def planned_label_def planned_slots_def)

lemma name_simps:
  "fits_83 name = Some f \<Longrightarrow> name_label name = LbShort f"
  "fits_83 name = None \<Longrightarrow> name_label name = LbLong (encode_utf16 name)"
  "fits_83 name = Some f \<Longrightarrow> lfn_slots name = 0"
  "fits_83 name = None \<Longrightarrow> lfn_slots name = length (encode_utf16 name) div 13 + 1"
  by (simp_all add: name_label_def lfn_slots_def)

lemma plan_from_ok:
  "plan_from taken es = Some ps \<Longrightarrow> \<forall>(_, name, _) \<in> set es. validate_name name = Inr () \<Longrightarrow>
    list_all planned_ok ps \<and> map planned_label ps = map (\<lambda>(_, name, _). name_label name) es
    \<and> map planned_slots ps = map (\<lambda>(_, name, _). lfn_slots name) es"
proof (induction taken es arbitrary: ps rule: plan_from.induct)
  case (2 taken k name node es)
  show ?case
  proof (cases "fits_83 name")
    case (Some field)
    with 2 show ?thesis by (auto simp: planned_simps name_simps fits_83_ok)
  next
    case None
    then obtain field z where z: "short_alias name taken = Some field" "plan_from (field # taken) es = Some z"
      "ps = (field, Some name, node) # z" using 2(3) by (auto split: option.splits)
    have "is_long_name name" using 2(4) None by (auto simp: validate_name_def split: if_splits)
    with 2(1) [OF None z(1,2)] 2(4) short_alias_ok [OF z(1)] show ?thesis
      by (auto simp: z(3) planned_simps name_simps(2,4) [OF None])
  qed
qed simp

lemma plan_children_ok:
  assumes "plan_children es = Some ps" and "fat_tree_fits es"
  shows "list_all planned_ok ps" and "map planned_label ps = map (\<lambda>(_, name, _). name_label name) es"
    and "map planned_slots ps = map (\<lambda>(_, name, _). lfn_slots name) es"
proof -
  have "\<forall>(_, name, _) \<in> set es. validate_name name = Inr ()" using assms(2) by (auto simp: fat_tree_fits_def)
  from plan_from_ok [OF assms(1) [unfolded plan_children_def] this]
  show "list_all planned_ok ps" and "map planned_label ps = map (\<lambda>(_, name, _). name_label name) es"
    and "map planned_slots ps = map (\<lambda>(_, name, _). lfn_slots name) es" by blast+
qed

subsection \<open>Parsing what was written\<close>

lemma units_of_bytes: "units_of (concat (map (le_bytes 2) (us :: u16 list))) = us"
proof (induction us)
  case (Cons u us)
  obtain a b where ab: "le_bytes 2 u = [a, b]"
    using length_le_bytes [of 2 u] by (auto simp: length_Suc_conv numeral_2_eq_2 simp del: length_le_bytes)
  have "from_le (le_bytes 2 u) = u" by simp
  then have "from_le [a, b] = u" by (simp only: ab)
  then show ?case using Cons by (simp add: ab)
qed simp

lemma length_units [simp]: "length (concat (map (le_bytes 2) (us :: u16 list))) = 2 * length us"
  by (induction us) simp_all

lemma seq_byte:
  assumes "1 \<le> s" and "s \<le> 20"
  shows "unat ((of_nat s OR (if P then 0x40 else 0) :: byte) AND 0x3F) = s"
    and "(of_nat s OR (if P then 0x40 else 0) :: byte) \<notin> {0, 0xE5}"
proof -
  have "list_all (\<lambda>s. unat ((of_nat s OR 0x40 :: byte) AND 0x3F) = s \<and> unat ((of_nat s :: byte) AND 0x3F) = s
      \<and> (of_nat s OR 0x40 :: byte) \<notin> {0, 0xE5} \<and> (of_nat s :: byte) \<notin> {0, 0xE5}) [1..<21]" by code_simp
  then have "unat ((of_nat s OR 0x40 :: byte) AND 0x3F) = s \<and> unat ((of_nat s :: byte) AND 0x3F) = s
      \<and> (of_nat s OR 0x40 :: byte) \<notin> {0, 0xE5} \<and> (of_nat s :: byte) \<notin> {0, 0xE5}"
    using assms by (simp add: list_all_iff del: upt_rec_numeral)
  then show "unat ((of_nat s OR (if P then 0x40 else 0) :: byte) AND 0x3F) = s"
    and "(of_nat s OR (if P then 0x40 else 0) :: byte) \<notin> {0, 0xE5}" by simp_all
qed

lemma length_lfn_slot: "length cs = 13 \<Longrightarrow> length (lfn_slot n s ck cs) = 32"
  by (simp add: lfn_slot_def)

lemma lfn_slot_parts:
  assumes "length cs = 13"
  shows "lfn_slot n s ck cs ! 0 = of_nat s OR (if s = n then 0x40 else 0)"
    and "lfn_slot n s ck cs ! 11 = attr_long_name" and "lfn_slot n s ck cs ! 13 = ck"
    and "take 10 (drop 1 (lfn_slot n s ck cs)) = concat (map (le_bytes 2) (take 5 cs))"
    and "take 12 (drop 14 (lfn_slot n s ck cs)) = concat (map (le_bytes 2) (take 6 (drop 5 cs)))"
    and "take 4 (drop 28 (lfn_slot n s ck cs)) = concat (map (le_bytes 2) (drop 11 cs))"
  using assms by (simp_all add: lfn_slot_def nth_append)

lemma slot_of_lfn:
  assumes "length cs = 13" and "1 \<le> s" and "s \<le> 20"
  shows "lfn_slot_of (lfn_slot n s ck cs) = (s, ck, cs)"
proof -
  have "concat (map (le_bytes 2) (take 5 cs)) @ concat (map (le_bytes 2) (take 6 (drop 5 cs))) @ concat (map (le_bytes 2) (drop 11 cs))
      = concat (map (le_bytes 2) (take 5 cs @ take 6 (drop 5 cs) @ drop 11 cs))" by simp
  also have "take 5 cs @ take 6 (drop 5 cs) @ drop 11 cs = cs"
  proof -
    have "take 6 (drop 5 cs) @ drop 11 cs = drop 5 cs" using append_take_drop_id [of 6 "drop 5 cs"] by simp
    then show ?thesis by simp
  qed
  finally have "units_of (take 10 (drop 1 (lfn_slot n s ck cs)) @ take 12 (drop 14 (lfn_slot n s ck cs)) @ take 4 (drop 28 (lfn_slot n s ck cs))) = cs"
    by (simp only: lfn_slot_parts [OF assms(1)] units_of_bytes)
  then show ?thesis
    unfolding lfn_slot_of_def lfn_slot_parts(1,3) [OF assms(1)] seq_byte(1) [OF assms(2,3)] by simp
qed

lemma parse_lfn_slot:
  assumes "length cs = 13" and "1 \<le> s" and "s \<le> 20"
  shows "parse_dir (lfn_slot n s ck cs @ rest) slots = parse_dir rest ((s, ck, cs) # slots)"
proof -
  let ?e = "lfn_slot n s ck cs"
  note len = length_lfn_slot [OF assms(1), of n s ck]
  have "(?e @ rest) ! 0 \<notin> {0, 0xE5}" "(?e @ rest) ! 11 = attr_long_name"
    using len seq_byte(2) [OF assms(2,3)] by (simp_all add: nth_append lfn_slot_parts [OF assms(1)])
  then show ?thesis
    by (subst parse_dir.simps) (simp add: len slot_of_lfn [OF assms])
qed

lemma parse_lfn_list:
  assumes "\<And>s. s \<in> set ss \<Longrightarrow> length (f s) = 13 \<and> 1 \<le> s \<and> s \<le> 20"
  shows "parse_dir (concat (map (\<lambda>s. lfn_slot n s ck (f s)) ss) @ rest) slots
    = parse_dir rest (rev (map (\<lambda>s. (s, ck, f s)) ss) @ slots)"
  using assms by (induction ss arbitrary: slots) (simp_all add: parse_lfn_slot)

lemma concat_chunks: "n * k \<le> length xs \<Longrightarrow> concat (map (\<lambda>s. take k (drop ((s - 1) * k) xs)) [1..<n + 1]) = take (n * k) xs"
proof (induction n)
  case (Suc n)
  have "concat (map (\<lambda>s. take k (drop ((s - 1) * k) xs)) [1..<Suc n + 1]) = take (n * k) xs @ take k (drop (n * k) xs)"
    using Suc by simp
  then show ?case by (simp add: take_add [symmetric] add.commute)
qed simp

lemma length_lfn_units: "length (lfn_units name) = (length (encode_utf16 name) div 13 + 1) * 13"
proof -
  have "length (encode_utf16 name) < (length (encode_utf16 name) div 13 + 1) * 13" by presburger
  then show ?thesis by (simp add: lfn_units_def Let_def)
qed

lemma long_name_units: "is_long_name name \<Longrightarrow> 0 \<notin> set (encode_utf16 name)"
proof
  assume ok: "is_long_name name" and "0 \<in> set (encode_utf16 name)"
  then obtain c where c: "c \<in> set (chars_of name)" "0 \<in> set (utf16_units (scalar_of c))"
    by (auto simp: encode_utf16_def)
  then have "long_char c" using ok by (simp add: is_long_name_def list_all_iff)
  then have r: "0x20 \<le> scalar_of c" "scalar_of c < 0xFFFF" by (simp_all add: long_char_def)
  then have "(of_nat (scalar_of c) :: u16) = 0" using c(2) by (simp add: utf16_units_def)
  then have "unat (of_nat (scalar_of c) :: u16) = 0" by simp
  with r show False by (simp add: unat_of_nat_len)
qed

lemma length_fat_entry: "length name = 11 \<Longrightarrow> length (fat_entry name first sz attr) = 32"
  by (simp add: fat_entry_def)

lemma fat_entry_parts:
  assumes "length name = 11"
  shows "take 11 (fat_entry name first sz attr) = name" and "fat_entry name first sz attr ! 11 = attr"
    and "fat_entry name first sz attr ! 0 = name ! 0"
    and "take 2 (drop 26 (fat_entry name first sz attr)) = le_bytes 2 (ucast (first AND 0xFFFF) :: u16)"
    and "take 2 (drop 20 (fat_entry name first sz attr)) = le_bytes 2 (ucast (drop_bit 16 first) :: u16)"
    and "take 4 (drop 28 (fat_entry name first sz attr)) = le_bytes 4 sz"
  using assms by (simp_all add: fat_entry_def nth_append)

lemma le_nat_le_bytes: "le_nat (le_bytes n w) = unat w mod 256 ^ n"
  by (simp add: le_bytes_def le_nat_le_of_nat)

lemma split_first: "unat (ucast (c AND 0xFFFF :: u32) :: u16) + 65536 * unat (ucast (drop_bit 16 c) :: u16) = unat c"
proof -
  have "(c AND 0xFFFF :: u32) = take_bit 16 c" by (simp add: take_bit_eq_mask mask_eq_exp_minus_1)
  then have "unat (ucast (c AND 0xFFFF :: u32) :: u16) = unat c mod 2 ^ 16"
    by (simp only: unsigned_ucast_eq unsigned_take_bit_eq) (simp add: take_bit_eq_mod)
  moreover have "unat (ucast (drop_bit 16 c) :: u16) = unat c div 2 ^ 16"
  proof -
    have "unat c < 2 ^ 32" using unsigned_less [of c] by simp
    then have "unat c div 2 ^ 16 < 2 ^ 16" by (simp add: less_mult_imp_div_less)
    then show ?thesis by (simp only: unsigned_ucast_eq unsigned_drop_bit_eq) (simp add: drop_bit_eq_div take_bit_eq_mod)
  qed
  ultimately show ?thesis by simp
qed

lemma long_name_whole:
  assumes "is_long_name name"
  defines "n \<equiv> length (encode_utf16 name) div 13 + 1"
  shows "long_name (map (\<lambda>s. (s, lfn_checksum field, take 13 (drop ((s - 1) * 13) (lfn_units name)))) [1..<n + 1]) field
    = Some (encode_utf16 name)"
proof -
  let ?f = "\<lambda>s. take 13 (drop ((s - 1) * 13) (lfn_units name))"
  let ?us = "encode_utf16 name"
  have "concat (map ?f [1..<n + 1]) = lfn_units name"
    using concat_chunks [of n 13 "lfn_units name"] by (simp add: length_lfn_units n_def)
  moreover have "takeWhile (\<lambda>u. u \<noteq> 0) (lfn_units name) = ?us"
  proof -
    have "takeWhile (\<lambda>u. u \<noteq> 0) (?us @ 0 # xs) = ?us" for xs
      using long_name_units [OF assms(1)] by (subst takeWhile_append2) auto
    then show ?thesis by (simp add: lfn_units_def Let_def)
  qed
  moreover have "map (\<lambda>s. (s, lfn_checksum field, ?f s)) [1..<n + 1] \<noteq> []" by (simp add: n_def)
  ultimately show ?thesis by (simp add: long_name_def comp_def list_all_iff del: upt_Suc)
qed

lemma parse_short:
  assumes "length field = 11" and "field ! 0 \<notin> {0, 0xE5}" and "attr \<noteq> attr_long_name" and "first < 2 ^ 32" and "sz < 2 ^ 32"
  shows "parse_dir (fat_entry field (of_nat first) (of_nat sz) attr @ rest) slots
    = \<lparr>di_long = long_name slots field, di_field = field, di_attr = attr, di_first = first, di_size = sz\<rparr> # parse_dir rest []"
proof -
  let ?e = "fat_entry field (of_nat first) (of_nat sz) attr"
  note e = length_fat_entry [OF assms(1)] fat_entry_parts [OF assms(1)]
  have "(?e @ rest) ! 0 = field ! 0" "(?e @ rest) ! 11 = attr" by (simp_all add: nth_append e)
  moreover have "le_nat (take 2 (drop 26 ?e)) + 65536 * le_nat (take 2 (drop 20 ?e)) = first"
  proof -
    have "unat w < 65536" for w :: u16 using unsigned_less [of w] by simp
    then have "unat w mod 256 ^ 2 = unat w" for w :: u16 by simp
    then have "le_nat (take 2 (drop 26 ?e)) + 65536 * le_nat (take 2 (drop 20 ?e)) = unat (of_nat first :: u32)"
      unfolding e le_nat_le_bytes by (simp only: split_first)
    then show ?thesis using assms(4) by (simp add: unat_of_nat_len)
  qed
  moreover have "le_nat (take 4 (drop 28 ?e)) = sz"
    using assms(5) by (simp add: e le_nat_le_bytes unat_of_nat_len)
  ultimately show ?thesis
    using assms(2,3) by (subst parse_dir.simps) (simp add: e item_of_def)
qed

lemma long_name_none [simp]: "long_name [] field = None"
  by (simp add: long_name_def)

lemma parse_named:
  assumes "planned_ok (field, long, n)" and "attr \<noteq> attr_long_name" and "first < 2 ^ 32" and "sz < 2 ^ 32"
  shows "parse_dir (named_entry field long first sz attr @ rest) []
    = \<lparr>di_long = map_option encode_utf16 long, di_field = field, di_attr = attr, di_first = first, di_size = sz\<rparr> # parse_dir rest []"
proof (cases long)
  case None
  with assms parse_short [of field attr first sz rest "[]"] show ?thesis by (simp add: named_entry_def planned_simps field_ok_def)
next
  case (Some name)
  have ok: "length field = 11" "field ! 0 \<notin> {0, 0xE5}" "is_long_name name"
    using assms(1) Some by (simp_all add: planned_simps field_ok_def)
  let ?n = "length (encode_utf16 name) div 13 + 1"
  let ?f = "\<lambda>s. take 13 (drop ((s - 1) * 13) (lfn_units name))"
  have "length (encode_utf16 name) div 13 \<le> 255 div 13" using ok(3) by (intro div_le_mono) (simp add: is_long_name_def)
  then have "length (?f s) = 13 \<and> 1 \<le> s \<and> s \<le> 20" if "s \<in> set (rev [1..<?n + 1])" for s
    using that by (auto simp: length_lfn_units)
  note slots = parse_lfn_list [of "rev [1..<?n + 1]" ?f, OF this]
  have "named_entry field long first sz attr @ rest
      = concat (map (\<lambda>s. lfn_slot ?n s (lfn_checksum field) (?f s)) (rev [1..<?n + 1]))
        @ (fat_entry field (of_nat first) (of_nat sz) attr @ rest)"
    by (simp only: named_entry_def Some lfn_entries_def Let_def option.case append_assoc)
  then have "parse_dir (named_entry field long first sz attr @ rest) []
      = parse_dir (fat_entry field (of_nat first) (of_nat sz) attr @ rest)
          (map (\<lambda>s. (s, lfn_checksum field, ?f s)) [1..<?n + 1])"
    by (simp only: slots rev_map rev_rev_ident append_Nil2)
  then show ?thesis
    unfolding parse_short [OF ok(1,2) assms(2-4)] long_name_whole [OF ok(3)] by (simp add: Some)
qed

text \<open>A directory ends where its zeros begin.\<close>

lemma parse_zeros [simp]: "parse_dir (replicate n 0) slots = []"
proof (cases "n < 32")
  case False
  then have "replicate n (0 :: byte) ! 0 = 0" by simp
  then show ?thesis by (subst parse_dir.simps) simp
qed (subst parse_dir.simps, simp)

lemma parse_dots:
  assumes "f = dot_name ''.'' \<or> f = dot_name ''..''" and "first < 2 ^ 32"
  shows "parse_dir (fat_entry f (of_nat first) 0 attr_directory @ rest) []
    = \<lparr>di_long = None, di_field = f, di_attr = attr_directory, di_first = first, di_size = 0\<rparr> # parse_dir rest []"
proof -
  have "length f = 11" "f ! 0 \<notin> {0, 0xE5}" using assms(1) by (auto simp: dot_name_def space_pad_def str_bytes_def)
  from parse_short [OF this _ assms(2), of attr_directory 0 rest "[]"] show ?thesis
    by (simp add: attr_directory_def attr_long_name_def)
qed

subsection \<open>An alias is always found\<close>

lemma show_nat_inj: "show_nat a = show_nat b \<Longrightarrow> a = b"
  by (metis digits_val_show_nat option.inject)

lemma length_show_nat: "10 ^ k \<le> n \<Longrightarrow> n < 10 ^ Suc k \<Longrightarrow> length (show_nat n) = Suc k"
proof (induction k arbitrary: n)
  case 0
  then show ?case by (subst show_nat.simps) simp
next
  case (Suc k)
  then have "10 ^ k \<le> n div 10" "n div 10 < 10 ^ Suc k" by (simp_all add: less_mult_imp_div_less div_le_mono le_div_geq less_eq_div_iff_mult_less_eq algebra_simps)
  note ih = Suc.IH [OF this]
  have "(10 :: nat) \<le> 10 ^ Suc k" by simp
  with Suc.prems(1) have "10 \<le> n" by linarith
  with ih show ?case by (subst show_nat.simps) simp
qed

lemma alias_field_inj: "inj_on (alias_field lbase lext) {100000..<1000000}"
proof (rule inj_onI)
  fix i j
  assume ij: "i \<in> {100000..<1000000}" "j \<in> {100000..<1000000}" and eq: "alias_field lbase lext i = alias_field lbase lext j"
  have len: "length (show_nat k) = 6" if "k \<in> {100000..<1000000}" for k
    using length_show_nat [of 5 k] that by simp
  let ?b = "clean lbase 1"
  have "length ?b \<le> 1" by (simp add: clean_def)
  then have f: "alias_field lbase lext k = str_bytes (?b @ CHR ''~'' # show_nat k) @ replicate (1 - length ?b) 0x20 @ space_pad 3 (str_bytes (clean lext 3))"
    if "k \<in> {100000..<1000000}" for k
    using len [OF that] by (simp add: alias_field_def Let_def space_pad_def)
  have "str_bytes (?b @ CHR ''~'' # show_nat i) = str_bytes (?b @ CHR ''~'' # show_nat j)"
    using eq unfolding f [OF ij(1)] f [OF ij(2)] by (simp add: len [OF ij(1)] len [OF ij(2)])
  then show "i = j" by (simp only: str_bytes_inj append_same_eq same_append_eq list.inject) (blast dest: show_nat_inj)
qed

lemma alias_from_None: "alias_from lbase lext taken i = None \<Longrightarrow> i \<le> j \<Longrightarrow> j < 2 ^ 32 \<Longrightarrow> alias_field lbase lext j \<in> set taken"
proof (induction lbase lext taken i rule: alias_from.induct)
  case (1 lbase lext taken i)
  then show ?case by (subst (asm) (2) alias_from.simps) (cases "i = j", auto split: if_splits)
qed

lemma short_alias_some: "length taken < 900000 \<Longrightarrow> short_alias long taken \<noteq> None"
proof
  assume len: "length taken < 900000" and none: "short_alias long taken = None"
  obtain lbase lext where "alias_from lbase lext taken 1 = None"
    using none by (auto simp: short_alias_def Let_def split: option.splits prod.splits)
  from alias_from_None [OF this] have "alias_field lbase lext ` {100000..<1000000} \<subseteq> set taken" by auto
  then have "card (alias_field lbase lext ` {100000..<1000000}) \<le> card (set taken)" by (intro card_mono) simp_all
  then have "900000 \<le> length taken" using card_image [OF alias_field_inj] card_length [of taken] by (simp add: le_trans)
  with len show False by simp
qed

lemma plan_from_some: "length taken + length es < 900000 \<Longrightarrow> plan_from taken es \<noteq> None"
proof (induction taken es rule: plan_from.induct)
  case (2 taken k name node es)
  then show ?case using short_alias_some [of taken name] by (auto split: option.split)
qed simp

lemma plan_children_some: "length es < 65536 \<Longrightarrow> plan_children es \<noteq> None"
proof -
  assume len: "length es < 65536"
  have "length (List.map_filter f xs) \<le> length xs" for f :: "string \<times> string \<times> fat_node \<Rightarrow> bytes option" and xs
    by (induction xs) (auto simp: List.map_filter_simps split: option.split)
  from this [of "\<lambda>(_, name, _). fits_83 name" es] len show ?thesis
    unfolding plan_children_def by (intro plan_from_some) linarith
qed

end
