(* ===== verification/FatWrite.thy ===== *)
theory FatWrite
  imports FatRead
begin

section \<open>Rendering a tree\<close>

text \<open>
  What the allocation and the writing of clusters of \<open>crates/keybuild/src/fat.rs\<close> leave in the image: a
  directory and the files below it take fresh clusters, nothing else changes, and whoever sees these
  clusters and their links reads the tree.
\<close>

subsection \<open>Slices of an image\<close>

lemma part_before: "o' + n \<le> off \<Longrightarrow> off \<le> length img \<Longrightarrow>
    img_part o' n (take off img @ d @ drop (off + length d) img) = img_part o' n img"
  by (simp add: img_part_def take_drop min_def)

lemma part_after: "off + length d \<le> o' \<Longrightarrow> off + length d \<le> length img \<Longrightarrow>
    img_part o' n (take off img @ d @ drop (off + length d) img) = img_part o' n img"
  by (simp add: img_part_def)

lemma part_at: "length d \<le> n \<Longrightarrow> off + length d \<le> length img \<Longrightarrow>
    img_part off n (take off img @ d @ drop (off + length d) img) = d @ drop (length d) (img_part off n img)"
  by (simp add: img_part_def drop_take add.commute)

lemma length_part: "off + n \<le> length img \<Longrightarrow> length (img_part off n img) = n"
  by (simp add: img_part_def)

subsection \<open>Sound geometry\<close>

definition geom_ok :: "geometry \<Rightarrow> bool" where
  "geom_ok g \<longleftrightarrow>
     0 < ge_spc g \<and> data_start g + ge_clusters g * ge_spc g \<le> ge_total g
     \<and> max_cluster g < (case ge_type g of Fat16 \<Rightarrow> 0xFFF8 | Fat32 \<Rightarrow> 0x0FFFFFF8)"

definition clu :: "geometry \<Rightarrow> bytes \<Rightarrow> nat \<Rightarrow> bytes" where
  "clu g img c = img_part (cluster_offset g c) (cluster_bytes g) img"

definition data_cluster :: "geometry \<Rightarrow> nat \<Rightarrow> bool" where
  "data_cluster g c \<longleftrightarrow> 2 \<le> c \<and> c \<le> max_cluster g"

lemma cluster_in_image:
  assumes "geom_ok g" and "data_cluster g c"
  shows "data_start g * fat_sector \<le> cluster_offset g c"
    and "cluster_offset g c + cluster_bytes g \<le> ge_total g * fat_sector"
proof -
  have "(c - 2) * ge_spc g + ge_spc g = (c - 1) * ge_spc g" using assms(2) by (simp add: data_cluster_def algebra_simps flip: add_mult_distrib)
  also have "c - 1 \<le> ge_clusters g" using assms(2) unfolding data_cluster_def max_cluster_def by linarith
  then have "(c - 1) * ge_spc g \<le> ge_clusters g * ge_spc g" by (rule mult_le_mono1)
  finally have "data_start g + (c - 2) * ge_spc g + ge_spc g \<le> ge_total g" using assms(1) by (simp add: geom_ok_def)
  then have "(data_start g + (c - 2) * ge_spc g + ge_spc g) * fat_sector \<le> ge_total g * fat_sector" by (rule mult_le_mono1)
  then show "cluster_offset g c + cluster_bytes g \<le> ge_total g * fat_sector"
    by (simp add: cluster_offset_def cluster_bytes_def add_mult_distrib)
  show "data_start g * fat_sector \<le> cluster_offset g c" by (simp add: cluster_offset_def)
qed

lemma clusters_apart:
  assumes "2 \<le> c" and "c < c'"
  shows "cluster_offset g c + cluster_bytes g \<le> cluster_offset g c'"
proof -
  have "(c - 2 + 1) * ge_spc g \<le> (c' - 2) * ge_spc g" using assms by (intro mult_le_mono1) simp
  then have "(data_start g + (c - 2 + 1) * ge_spc g) * fat_sector \<le> (data_start g + (c' - 2) * ge_spc g) * fat_sector"
    by (intro mult_le_mono1) simp
  then show ?thesis by (simp add: cluster_offset_def cluster_bytes_def add_mult_distrib)
qed

lemma cluster_bytes_pos: "geom_ok g \<Longrightarrow> 0 < cluster_bytes g"
  by (simp add: geom_ok_def cluster_bytes_def fat_sector_def)

text \<open>A builder with every cluster from the next free one on still zero, and links only to clusters.\<close>

definition zero_cluster :: "geometry \<Rightarrow> bytes" where
  "zero_cluster g = replicate (cluster_bytes g) 0"

definition fat_link_ok :: "geometry \<Rightarrow> u32 \<Rightarrow> bool" where
  "fat_link_ok g e \<longleftrightarrow> e = eoc g \<or> unat e \<le> max_cluster g"

definition b_ok :: "geometry \<Rightarrow> fat_builder \<Rightarrow> bool" where
  "b_ok g b \<longleftrightarrow>
     length (fb_image b) = ge_total g * fat_sector \<and> length (fb_fat b) = ge_clusters g + 2
     \<and> 2 \<le> fb_next b \<and> fb_next b \<le> ge_clusters g + 2
     \<and> (\<forall>c. fb_next b \<le> c \<and> data_cluster g c \<longrightarrow> clu g (fb_image b) c = zero_cluster g)
     \<and> (\<forall>c. 2 \<le> c \<and> c < fb_next b \<longrightarrow> fat_link_ok g (fb_fat b ! c))"

text \<open>What a step leaves alone: all clusters in use but its own, their links, and what lies before the data.\<close>

definition vol_keeps :: "geometry \<Rightarrow> nat set \<Rightarrow> fat_builder \<Rightarrow> fat_builder \<Rightarrow> bool" where
  "vol_keeps g own b b' \<longleftrightarrow>
     fb_next b \<le> fb_next b'
     \<and> (\<forall>c. 2 \<le> c \<and> c < fb_next b \<and> c \<notin> own \<longrightarrow> clu g (fb_image b') c = clu g (fb_image b) c)
     \<and> (\<forall>c < fb_next b. fb_fat b' ! c = fb_fat b ! c)
     \<and> take (data_start g * fat_sector) (fb_image b') = take (data_start g * fat_sector) (fb_image b)"

lemma vol_keeps_refl [simp]: "vol_keeps g own b b"
  by (simp add: vol_keeps_def)

lemma vol_keeps_trans: "vol_keeps g own b b1 \<Longrightarrow> vol_keeps g own' b1 b2 \<Longrightarrow> own' \<inter> {..<fb_next b} \<subseteq> own \<Longrightarrow> vol_keeps g own b b2"
  unfolding vol_keeps_def by (auto simp: subset_iff)

subsection \<open>Writing clusters\<close>

lemma blit_cluster:
  assumes g: "geom_ok g" and len: "length (fb_image b) = ge_total g * fat_sector" and c: "data_cluster g c"
    and d: "length d \<le> cluster_bytes g"
  defines "b' \<equiv> b\<lparr>fb_image := take (cluster_offset g c) (fb_image b) @ d @ drop (cluster_offset g c + length d) (fb_image b)\<rparr>"
  shows "blit (cluster_offset g c) d b = (Inr (), b')"
    and "length (fb_image b') = ge_total g * fat_sector"
    and "clu g (fb_image b') c = d @ drop (length d) (clu g (fb_image b) c)"
    and "2 \<le> c' \<Longrightarrow> c' \<noteq> c \<Longrightarrow> clu g (fb_image b') c' = clu g (fb_image b) c'"
    and "take (data_start g * fat_sector) (fb_image b') = take (data_start g * fat_sector) (fb_image b)"
proof -
  note off = cluster_in_image [OF g c]
  have room: "cluster_offset g c + length d \<le> length (fb_image b)" using off(2) d len by linarith
  then show "blit (cluster_offset g c) d b = (Inr (), b')" by (simp add: blit_def b'_def)
  show "length (fb_image b') = ge_total g * fat_sector" using room by (simp add: b'_def min.absorb2 len)
  show "clu g (fb_image b') c = d @ drop (length d) (clu g (fb_image b) c)"
    using part_at [OF d room] by (simp add: clu_def b'_def)
  show "take (data_start g * fat_sector) (fb_image b') = take (data_start g * fat_sector) (fb_image b)"
    using off(1) room by (simp add: b'_def min_def)
  assume c': "2 \<le> c'" "c' \<noteq> c"
  show "clu g (fb_image b') c' = clu g (fb_image b) c'"
  proof (cases "c' < c")
    case True
    from part_before [OF clusters_apart [OF c'(1) True]] room show ?thesis by (simp add: clu_def b'_def)
  next
    case False
    with c' c have "cluster_offset g c + cluster_bytes g \<le> cluster_offset g c'"
      by (intro clusters_apart) (simp_all add: data_cluster_def)
    with d part_after [of "cluster_offset g c" d "cluster_offset g c'" "fb_image b"] room show ?thesis by (simp add: clu_def b'_def)
  qed
qed

lemma write_clusters_spec:
  assumes g: "geom_ok g"
  shows "length (fb_image b) = ge_total g * fat_sector \<Longrightarrow> distinct cs \<Longrightarrow> list_all (data_cluster g) cs \<Longrightarrow>
    list_all (\<lambda>c. clu g (fb_image b) c = zero_cluster g) cs \<Longrightarrow> length data \<le> length cs * cluster_bytes g \<Longrightarrow>
    \<exists>b'. write_clusters g cs data b = (Inr (), b') \<and> length (fb_image b') = length (fb_image b)
      \<and> fb_fat b' = fb_fat b \<and> fb_next b' = fb_next b
      \<and> concat (map (clu g (fb_image b')) cs) = data @ replicate (length cs * cluster_bytes g - length data) 0
      \<and> (\<forall>c. 2 \<le> c \<and> c \<notin> set cs \<longrightarrow> clu g (fb_image b') c = clu g (fb_image b) c)
      \<and> take (data_start g * fat_sector) (fb_image b') = take (data_start g * fat_sector) (fb_image b)"
proof (induction cs arbitrary: data b)
  case Nil
  then show ?case by simp
next
  case (Cons c cs)
  have all0: "concat (map (clu g (fb_image b)) xs) = replicate (length xs * cluster_bytes g) 0"
    if "list_all (\<lambda>c. clu g (fb_image b) c = zero_cluster g) xs" for xs
    using that by (induction xs) (simp_all add: zero_cluster_def replicate_add)
  show ?case
  proof (cases "data = []")
    case True
    then show ?thesis using all0 [OF Cons.prems(4)] by simp
  next
    case False
    let ?d = "take (cluster_bytes g) data"
    have c: "data_cluster g c" and d: "length ?d \<le> cluster_bytes g" using Cons.prems(3) by simp_all
    note w = blit_cluster [OF g Cons.prems(1) c d]
    let ?b = "b\<lparr>fb_image := take (cluster_offset g c) (fb_image b) @ ?d @ drop (cluster_offset g c + length ?d) (fb_image b)\<rparr>"
    have rest: "list_all (\<lambda>c. clu g (fb_image ?b) c = zero_cluster g) cs"
      unfolding list_all_iff
    proof
      fix c'
      assume c': "c' \<in> set cs"
      then have "2 \<le> c'" "c' \<noteq> c" using Cons.prems(2,3) by (auto simp: list_all_iff data_cluster_def)
      from w(4) [OF this] show "clu g (fb_image ?b) c' = zero_cluster g" using c' Cons.prems(4) by (simp add: list_all_iff)
    qed
    have "length (drop (cluster_bytes g) data) \<le> length cs * cluster_bytes g" using Cons.prems(5) by simp
    from Cons.IH [OF w(2) _ _ rest this] Cons.prems(2,3) obtain b' where b': "write_clusters g cs (drop (cluster_bytes g) data) ?b = (Inr (), b')"
      "length (fb_image b') = length (fb_image ?b)" "fb_fat b' = fb_fat b" "fb_next b' = fb_next b"
      "concat (map (clu g (fb_image b')) cs) = drop (cluster_bytes g) data
          @ replicate (length cs * cluster_bytes g - length (drop (cluster_bytes g) data)) 0"
      "\<forall>c. 2 \<le> c \<and> c \<notin> set cs \<longrightarrow> clu g (fb_image b') c = clu g (fb_image ?b) c"
      "take (data_start g * fat_sector) (fb_image b') = take (data_start g * fat_sector) (fb_image ?b)" by auto
    have "clu g (fb_image b') c = ?d @ drop (length ?d) (zero_cluster g)"
      using b'(6) w(3) Cons.prems(2,4) c by (simp add: data_cluster_def)
    note c1 = this
    have "concat (map (clu g (fb_image b')) (c # cs)) = data @ replicate (length (c # cs) * cluster_bytes g - length data) 0"
    proof (cases "cluster_bytes g \<le> length data")
      case True
      then have "length data - cluster_bytes g \<le> length cs * cluster_bytes g" using Cons.prems(5) by simp
      then have "length cs * cluster_bytes g - (length data - cluster_bytes g) = length (c # cs) * cluster_bytes g - length data"
        using True by simp
      moreover have "concat (map (clu g (fb_image b')) (c # cs)) = (?d @ drop (cluster_bytes g) data)
          @ replicate (length cs * cluster_bytes g - (length data - cluster_bytes g)) 0"
        using c1 b'(5) True by (simp add: zero_cluster_def)
      ultimately show ?thesis by (simp only: append_take_drop_id)
    next
      case False
      then have "concat (map (clu g (fb_image b')) (c # cs))
          = data @ replicate (cluster_bytes g - length data) 0 @ replicate (length cs * cluster_bytes g) 0"
        using c1 b'(5) by (simp add: zero_cluster_def)
      also have "\<dots> = data @ replicate (cluster_bytes g - length data + length cs * cluster_bytes g) 0"
        by (simp only: replicate_add)
      finally show ?thesis using False by (simp add: algebra_simps)
    qed
    moreover have "write_clusters g (c # cs) data b = (Inr (), b')" using False w(1) b'(1) by simp
    moreover have "clu g (fb_image b') c' = clu g (fb_image b) c'" if "2 \<le> c'" "c' \<notin> set (c # cs)" for c'
      using b'(6) w(4) [of c'] that by simp
    ultimately show ?thesis using b'(2-4,7) w(2,5) Cons.prems(1) by (intro exI [of _ b']) simp
  qed
qed

subsection \<open>Chains\<close>

text \<open>The links of a chain, in the table and as a reader follows them.\<close>

fun linked :: "geometry \<Rightarrow> u32 list \<Rightarrow> nat list \<Rightarrow> bool" where
  "linked g fat [] \<longleftrightarrow> True"
| "linked g fat [c] \<longleftrightarrow> fat ! c = eoc g"
| "linked g fat (c # d # cs) \<longleftrightarrow> fat ! c = of_nat d \<and> linked g fat (d # cs)"

lemma linked_cong: "(\<And>c. c \<in> set cs \<Longrightarrow> fat' ! c = fat ! c) \<Longrightarrow> linked g fat' cs = linked g fat cs"
  by (induction g fat cs rule: linked.induct) simp_all

lemma length_link_chain [simp]: "length (link_chain g cs fat) = length fat"
  by (induction g cs fat rule: link_chain.induct) simp_all

lemma link_chain_other: "c \<notin> set cs \<Longrightarrow> link_chain g cs fat ! c = fat ! c"
  by (induction g cs fat rule: link_chain.induct) auto

lemma link_chain_linked: "distinct cs \<Longrightarrow> \<forall>c \<in> set cs. c < length fat \<Longrightarrow> linked g (link_chain g cs fat) cs"
proof (induction g cs fat rule: link_chain.induct)
  case (3 g c d cs fat)
  then have "link_chain g (d # cs) (fat[c := of_nat d]) ! c = of_nat d" by (simp add: link_chain_other)
  with 3 show ?case by simp
qed simp_all

lemma linked_ok: "linked g fat cs \<Longrightarrow> list_all (data_cluster g) cs \<Longrightarrow> geom_ok g \<Longrightarrow> c \<in> set cs \<Longrightarrow> fat_link_ok g (fat ! c)"
proof (induction g fat cs rule: linked.induct)
  case (3 g fat a d cs)
  have "max_cluster g < 2 ^ 32" using 3(4) by (auto simp: geom_ok_def split: fat_type.splits)
  then have "unat (of_nat d :: u32) \<le> max_cluster g" using 3(3) by (simp add: data_cluster_def unat_of_nat_len)
  then show ?case using 3 by (auto simp: fat_link_ok_def)
qed (simp_all add: fat_link_ok_def)

text \<open>A reader of the volume: it knows the end of a chain and may take as many steps as there are clusters.\<close>

definition reader_for :: "geometry \<Rightarrow> nat \<Rightarrow> (nat \<Rightarrow> bool) \<Rightarrow> bool" where
  "reader_for g K fin \<longleftrightarrow> fin (unat (eoc g)) \<and> (\<forall>c \<le> max_cluster g. \<not> fin c) \<and> ge_clusters g \<le> K"

definition content :: "nat \<Rightarrow> (nat \<Rightarrow> nat) \<Rightarrow> (nat \<Rightarrow> bool) \<Rightarrow> (nat \<Rightarrow> bytes) \<Rightarrow> nat \<Rightarrow> bytes" where
  "content K nxt fin cl first = concat (map cl (chain_from K nxt fin first))"

definition sees :: "geometry \<Rightarrow> (nat \<Rightarrow> nat) \<Rightarrow> (nat \<Rightarrow> bytes) \<Rightarrow> fat_builder \<Rightarrow> nat set \<Rightarrow> bool" where
  "sees g nxt cl b S \<longleftrightarrow> (\<forall>c \<in> S. nxt c = unat (fb_fat b ! c) \<and> cl c = clu g (fb_image b) c)"

lemma sees_subset: "sees g nxt cl b S \<Longrightarrow> S' \<subseteq> S \<Longrightarrow> sees g nxt cl b S'"
  by (auto simp: sees_def)

lemma sees_vol_keeps:
  assumes "sees g nxt cl b' S" and "vol_keeps g own b b'" and "S' \<subseteq> S" and "S' \<subseteq> {2..<fb_next b} - own"
  shows "sees g nxt cl b S'"
  using assms by (fastforce simp: sees_def vol_keeps_def subset_iff)

lemma chain_from_linked:
  "reader_for g K fin \<Longrightarrow> geom_ok g \<Longrightarrow> linked g fat cs \<Longrightarrow> list_all (data_cluster g) cs \<Longrightarrow> (\<And>c. c \<in> set cs \<Longrightarrow> nxt c = unat (fat ! c)) \<Longrightarrow>
    cs \<noteq> [] \<Longrightarrow> length cs \<le> k \<Longrightarrow> chain_from k nxt fin (hd cs) = cs"
proof (induction g fat cs arbitrary: k rule: linked.induct)
  case (2 g fat c)
  then obtain k' where k: "k = Suc k'" by (cases k) simp_all
  have "fin (nxt c)" using 2 by (simp add: reader_for_def)
  then have "chain_from k' nxt fin (nxt c) = []" by (cases k') simp_all
  with 2 show ?case by (simp add: k reader_for_def data_cluster_def)
next
  case (3 g fat c d cs)
  then obtain k' where k: "k = Suc k'" by (cases k) simp_all
  have "max_cluster g < 2 ^ 32" using 3(3) by (auto simp: geom_ok_def split: fat_type.splits)
  then have "nxt c = d" using 3(4,5,6) by (simp add: data_cluster_def unat_of_nat_len)
  moreover have "chain_from k' nxt fin (hd (d # cs)) = d # cs" using 3 k by simp
  ultimately show ?case using 3(2,5) by (simp add: k reader_for_def data_cluster_def)
qed simp

lemma content_linked:
  assumes "reader_for g K fin" and "geom_ok g" and "linked g (fb_fat b) cs" and "list_all (data_cluster g) cs"
    and "sees g nxt cl b (set cs)" and "cs \<noteq> []" and "distinct cs"
  shows "content K nxt fin cl (hd cs) = concat (map (clu g (fb_image b)) cs)"
proof -
  have "set cs \<subseteq> {2..ge_clusters g + 1}" using assms(4) by (auto simp: list_all_iff data_cluster_def max_cluster_def)
  then have "card (set cs) \<le> card {2..ge_clusters g + 1}" by (intro card_mono) simp_all
  then have "length cs \<le> K" using assms(1,7) by (simp add: distinct_card reader_for_def)
  from chain_from_linked [OF assms(1,2,3,4) _ assms(6) this, of nxt] assms(5)
  have "chain_from K nxt fin (hd cs) = cs" by (simp add: sees_def)
  then show ?thesis using assms(5) by (simp add: content_def sees_def cong: map_cong)
qed

subsection \<open>Allocating\<close>

lemma alloc_spec:
  assumes b: "b_ok g b" and g: "geom_ok g" and n: "0 < n" and room: "fb_next b + n \<le> ge_clusters g + 2"
  defines "chain \<equiv> [fb_next b..<fb_next b + n]"
  shows "\<exists>b'. alloc_chain g n b = (Inr chain, b') \<and> b_ok g b' \<and> vol_keeps g {} b b' \<and> fb_next b' = fb_next b + n
      \<and> fb_image b' = fb_image b \<and> linked g (fb_fat b') chain"
    and "list_all (data_cluster g) chain" and "list_all (\<lambda>c. clu g (fb_image b) c = zero_cluster g) chain"
    and "hd chain = fb_next b" and "hd chain < 2 ^ 32" and "chain \<noteq> []" and "distinct chain" and "length chain = n"
proof -
  let ?b = "b\<lparr>fb_fat := link_chain g chain (fb_fat b), fb_next := fb_next b + n\<rparr>"
  have len: "length (fb_fat b) = ge_clusters g + 2" and two: "2 \<le> fb_next b" using b by (simp_all add: b_ok_def)
  show d: "list_all (data_cluster g) chain"
    using room two by (auto simp: chain_def list_all_iff data_cluster_def max_cluster_def)
  show "list_all (\<lambda>c. clu g (fb_image b) c = zero_cluster g) chain"
    using b d by (auto simp: b_ok_def chain_def list_all_iff)
  show h: "hd chain = fb_next b" and "chain \<noteq> []" and dis: "distinct chain" and "length chain = n" using n by (simp_all add: chain_def)
  have "max_cluster g < 2 ^ 32" using g by (auto simp: geom_ok_def split: fat_type.splits)
  then show "hd chain < 2 ^ 32" using h room n by (simp add: max_cluster_def)
  have l: "linked g (fb_fat ?b) chain"
    using link_chain_linked [OF dis, of "fb_fat b" g] len room by (simp add: chain_def)
  have "fat_link_ok g (fb_fat ?b ! c)" if "2 \<le> c" "c < fb_next b + n" for c
  proof (cases "c \<in> set chain")
    case True
    with linked_ok [OF l d g] show ?thesis by blast
  next
    case False
    then have "c < fb_next b" "fb_fat ?b ! c = fb_fat b ! c" using that by (auto simp: chain_def link_chain_other)
    with b that(1) show ?thesis by (simp add: b_ok_def)
  qed
  then have "b_ok g ?b" using b room by (simp add: b_ok_def)
  moreover have "vol_keeps g {} b ?b" by (simp add: vol_keeps_def chain_def link_chain_other)
  moreover have "alloc_chain g n b = (Inr chain, ?b)"
    using n room two by (simp add: alloc_chain_def Let_def chain_def max_cluster_def)
  ultimately show "\<exists>b'. alloc_chain g n b = (Inr chain, b') \<and> b_ok g b' \<and> vol_keeps g {} b b' \<and> fb_next b' = fb_next b + n
      \<and> fb_image b' = fb_image b \<and> linked g (fb_fat b') chain" using l by (intro exI [of _ ?b]) simp
qed

text \<open>Filling clusters that were allocated before.\<close>

lemma fill_spec:
  assumes b: "b_ok g b" and g: "geom_ok g" and cs: "distinct cs" "set cs \<subseteq> {2..<fb_next b}"
    and z: "list_all (\<lambda>c. clu g (fb_image b) c = zero_cluster g) cs" and len: "length data \<le> length cs * cluster_bytes g"
  shows "\<exists>b'. write_clusters g cs data b = (Inr (), b') \<and> b_ok g b' \<and> vol_keeps g (set cs) b b' \<and> fb_next b' = fb_next b
      \<and> fb_fat b' = fb_fat b
      \<and> concat (map (clu g (fb_image b')) cs) = data @ replicate (length cs * cluster_bytes g - length data) 0"
proof -
  have d: "list_all (data_cluster g) cs"
  proof -
    have "fb_next b \<le> ge_clusters g + 2" using b by (simp add: b_ok_def)
    with cs(2) show ?thesis by (fastforce simp: list_all_iff data_cluster_def max_cluster_def)
  qed
  have l: "length (fb_image b) = ge_total g * fat_sector" using b by (simp add: b_ok_def)
  from write_clusters_spec [OF g l cs(1) d z len] obtain b' where b': "write_clusters g cs data b = (Inr (), b')"
    "length (fb_image b') = length (fb_image b)" "fb_fat b' = fb_fat b" "fb_next b' = fb_next b"
    "concat (map (clu g (fb_image b')) cs) = data @ replicate (length cs * cluster_bytes g - length data) 0"
    "\<forall>c. 2 \<le> c \<and> c \<notin> set cs \<longrightarrow> clu g (fb_image b') c = clu g (fb_image b) c"
    "take (data_start g * fat_sector) (fb_image b') = take (data_start g * fat_sector) (fb_image b)" by blast
  have "clu g (fb_image b') c = zero_cluster g" if "fb_next b \<le> c" "data_cluster g c" for c
  proof -
    have "2 \<le> c \<and> c \<notin> set cs" using that cs(2) by (auto simp: data_cluster_def)
    with b'(6) have "clu g (fb_image b') c = clu g (fb_image b) c" by blast
    with b that show ?thesis by (simp add: b_ok_def)
  qed
  then have "b_ok g b'" using b b'(2-4) by (simp add: b_ok_def)
  moreover have "vol_keeps g (set cs) b b'" using b'(3,4,6,7) by (simp add: vol_keeps_def)
  ultimately show ?thesis using b' by blast
qed

end
