(* ===== verification/FatRender.thy ===== *)
theory FatRender
  imports FatWrite
begin

section \<open>What a rendered directory holds\<close>

text \<open>The clusters a tree takes.\<close>

fun node_need :: "geometry \<Rightarrow> fat_node \<Rightarrow> nat" where
  "node_need g (FFile data) = nat_ceil (length data) (cluster_bytes g)"
| "node_need g (FDir es) = dir_clusters g es False + sum_list (map (\<lambda>(_, _, n). node_need g n) es)"

definition nodes_need :: "geometry \<Rightarrow> fat_node list \<Rightarrow> nat" where
  "nodes_need g ns = sum_list (map (node_need g) ns)"

lemma nodes_need_simps [simp]: "nodes_need g [] = 0" "nodes_need g (n # ns) = node_need g n + nodes_need g ns"
  by (simp_all add: nodes_need_def)

lemma node_need_dir: "node_need g (FDir es) = dir_clusters g es False + nodes_need g (map (snd \<circ> snd) es)"
  by (simp add: nodes_need_def comp_def case_prod_unfold)

definition nodes_fit :: "fat_node list \<Rightarrow> bool" where
  "nodes_fit ns \<longleftrightarrow> list_all fat_node_fits ns"

lemma tree_fits_nodes: "fat_tree_fits es \<Longrightarrow> nodes_fit (map (snd \<circ> snd) es)"
  by (auto simp: fat_tree_fits_def nodes_fit_def list_all_iff)

lemma fits_dir: "fat_node_fits (FDir es) \<longleftrightarrow> fat_tree_fits es"
  by (simp add: fat_tree_fits_def)

subsection \<open>Reading a run of entries\<close>

lemma read_named_file:
  assumes "planned_ok (field, long, n)" and "first < 2 ^ 32" and "sz < 2 ^ 32"
  shows "read_items F (Suc d) (named_entry field long first sz attr_archive @ rest)
    = (planned_label (field, long, n), ItFile (take sz (F first))) # read_items F (Suc d) rest"
proof -
  have "field ! 0 \<noteq> 0x2E" using assms(1) by (simp add: planned_simps field_ok_def)
  then have "field \<noteq> dot_name ''.''" "field \<noteq> dot_name ''..''" by (auto simp: dot_name_def space_pad_def str_bytes_def)
  then show ?thesis
    using parse_named [OF assms(1) _ assms(2,3), of attr_archive rest]
    by (cases long) (simp_all add: attr_archive_def attr_long_name_def proper_item_def attr_volume_id_def is_directory_def
        attr_directory_def item_label_def planned_simps)
qed

lemma read_named_dir:
  assumes "planned_ok (field, long, n)" and "first < 2 ^ 32"
  shows "read_items F (Suc d) (named_entry field long first 0 attr_directory @ rest)
    = (planned_label (field, long, n), ItDir (read_items F d (F first))) # read_items F (Suc d) rest"
proof -
  have "field ! 0 \<noteq> 0x2E" using assms(1) by (simp add: planned_simps field_ok_def)
  then have "field \<noteq> dot_name ''.''" "field \<noteq> dot_name ''..''" by (auto simp: dot_name_def space_pad_def str_bytes_def)
  then show ?thesis
    using parse_named [OF assms(1) _ assms(2), of attr_directory 0 rest]
    by (cases long) (simp_all add: attr_long_name_def proper_item_def attr_volume_id_def is_directory_def
        attr_directory_def item_label_def planned_simps)
qed

definition fat_params_ok :: "fat_params \<Rightarrow> bool" where
  "fat_params_ok p \<longleftrightarrow> length (fp_oem p) = 8 \<and> length (fp_label p) = 11 \<and> fp_label p ! 0 \<notin> {0, 0xE5}"

lemma read_head:
  assumes "fat_params_ok p" and "self < 2 ^ 32" and "parent < 2 ^ 32"
  shows "read_items F (Suc d) (dir_head p self parent is_root @ rest) = read_items F (Suc d) rest"
proof (cases is_root)
  case True
  then have "parse_dir (dir_head p self parent is_root @ rest) []
      = \<lparr>di_long = None, di_field = fp_label p, di_attr = attr_volume_id, di_first = 0, di_size = 0\<rparr> # parse_dir rest []"
    using parse_short [of "fp_label p" attr_volume_id 0 0 rest "[]"] assms(1)
    by (simp add: dir_head_def fat_params_ok_def attr_volume_id_def attr_long_name_def)
  then show ?thesis by (simp add: proper_item_def attr_volume_id_def)
next
  case False
  then have "parse_dir (dir_head p self parent is_root @ rest) []
      = \<lparr>di_long = None, di_field = dot_name ''.'', di_attr = attr_directory, di_first = self, di_size = 0\<rparr>
        # \<lparr>di_long = None, di_field = dot_name ''..'', di_attr = attr_directory, di_first = parent, di_size = 0\<rparr>
        # parse_dir rest []"
    using parse_dots assms(2,3) by (simp add: dir_head_def)
  then show ?thesis by (simp add: proper_item_def)
qed

lemma length_lfn_entries: "length (lfn_entries name field) = 32 * (length (encode_utf16 name) div 13 + 1)"
proof -
  let ?n = "length (encode_utf16 name) div 13 + 1"
  have len: "length (concat (map (\<lambda>s. lfn_slot ?n s (lfn_checksum field) (take 13 (drop ((s - 1) * 13) (lfn_units name)))) xs)) = 32 * length xs"
    if "\<forall>s \<in> set xs. 1 \<le> s \<and> s \<le> ?n" for xs :: "nat list"
    using that by (induction xs) (auto simp: length_lfn_slot length_lfn_units)
  have "\<forall>s \<in> set (rev [1..<?n + 1]). 1 \<le> s \<and> s \<le> ?n" by (auto simp del: upt_Suc)
  from len [OF this] show ?thesis by (simp only: lfn_entries_def Let_def length_rev length_upt) simp
qed

lemma length_named: "planned_ok (field, long, n) \<Longrightarrow> length (named_entry field long first sz attr) = 32 * (1 + planned_slots (field, long, n))"
  by (cases long) (simp_all add: named_entry_def planned_simps length_fat_entry field_ok_def length_lfn_entries)

lemma length_head: "fat_params_ok p \<Longrightarrow> length (dir_head p self parent is_root) = (if is_root then 32 else 64)"
  by (simp add: dir_head_def fat_params_ok_def length_fat_entry dot_name_def space_pad_def)

subsection \<open>Files\<close>

lemma put_file_spec:
  assumes b: "b_ok g b" and g: "geom_ok g" and room: "fb_next b + nat_ceil (length data) (cluster_bytes g) \<le> ge_clusters g + 2"
  shows "\<exists>first b'. put_file g data b = (Inr first, b') \<and> b_ok g b' \<and> vol_keeps g {} b b' \<and> first < 2 ^ 32
    \<and> fb_next b' = fb_next b + nat_ceil (length data) (cluster_bytes g)
    \<and> (\<forall>K nxt fin cl. reader_for g K fin \<longrightarrow> sees g nxt cl b' {fb_next b..<fb_next b'} \<longrightarrow>
         take (length data) (content K nxt fin cl first) = data)"
proof (cases "data = []")
  case True
  then show ?thesis using b by (intro exI [of _ 0] exI [of _ b]) (simp add: put_file_def nat_ceil_def)
next
  case False
  let ?n = "nat_ceil (length data) (cluster_bytes g)"
  note pos = cluster_bytes_pos [OF g]
  have n: "0 < ?n" "length data \<le> ?n * cluster_bytes g"
    using nat_ceil_bounds [OF pos, of "length data"] False less_nat_ceil_iff [OF pos, of 0 "length data"] by simp_all
  let ?cs = "[fb_next b..<fb_next b + ?n]"
  note alloc = alloc_spec [OF b g n(1) room]
  then obtain b1 where b1: "alloc_chain g ?n b = (Inr ?cs, b1)" "b_ok g b1" "vol_keeps g {} b b1" "fb_next b1 = fb_next b + ?n"
    "fb_image b1 = fb_image b" "linked g (fb_fat b1) ?cs" by blast
  have two: "2 \<le> fb_next b" using b by (simp add: b_ok_def)
  have "list_all (\<lambda>c. clu g (fb_image b1) c = zero_cluster g) ?cs" using alloc(3) by (simp add: b1(5))
  from fill_spec [OF b1(2) g _ _ this, of data] n two obtain b2 where b2: "write_clusters g ?cs data b1 = (Inr (), b2)" "b_ok g b2"
    "vol_keeps g (set ?cs) b1 b2" "fb_next b2 = fb_next b1" "fb_fat b2 = fb_fat b1"
    "concat (map (clu g (fb_image b2)) ?cs) = data @ replicate (length ?cs * cluster_bytes g - length data) 0"
    by (auto simp: b1(4))
  have "take (length data) (content K nxt fin cl (hd ?cs)) = data"
    if "reader_for g K fin" "sees g nxt cl b2 {fb_next b..<fb_next b2}" for K nxt fin cl
    using content_linked [OF that(1) g _ alloc(2) _ alloc(6,7), of b2 nxt cl] that(2) b1(4,6) b2(4-6) by simp
  moreover have "vol_keeps g {} b b2" by (rule vol_keeps_trans [OF b1(3) b2(3)]) auto
  moreover have "put_file g data b = (Inr (hd ?cs), b2)" using False b1(1) b2(1) by (simp add: put_file_def)
  ultimately show ?thesis using alloc(5) b1(4) b2(2,4) by (intro exI [of _ "hd ?cs"] exI [of _ b2]) simp
qed

subsection \<open>Directories\<close>

definition children_read :: "geometry \<Rightarrow> fat_builder \<Rightarrow> nat set \<Rightarrow> bytes \<Rightarrow> planned list \<Rightarrow> bool" where
  "children_read g b S buf ps \<longleftrightarrow>
     (\<forall>K nxt fin cl d rest. reader_for g K fin \<longrightarrow> sees g nxt cl b S \<longrightarrow> nodes_weight (map (snd \<circ> snd) ps) \<le> d \<longrightarrow>
        read_items (content K nxt fin cl) (Suc d) (buf @ rest)
          = map (\<lambda>pl. (planned_label pl, node_item (snd (snd pl)))) ps @ read_items (content K nxt fin cl) (Suc d) rest)"

definition dir_read :: "geometry \<Rightarrow> fat_builder \<Rightarrow> nat set \<Rightarrow> nat list \<Rightarrow> fat_dir \<Rightarrow> bool" where
  "dir_read g b S cs es \<longleftrightarrow>
     (\<forall>K nxt fin cl d. reader_for g K fin \<longrightarrow> sees g nxt cl b S \<longrightarrow> nodes_weight (map (snd \<circ> snd) es) \<le> d \<longrightarrow>
        read_items (content K nxt fin cl) (Suc d) (concat (map cl cs)) = tree_items es)"

text \<open>Clusters set aside for a directory: in use, linked, still zero, and enough.\<close>

definition room_for :: "geometry \<Rightarrow> fat_builder \<Rightarrow> nat list \<Rightarrow> nat \<Rightarrow> bool" where
  "room_for g b cs n \<longleftrightarrow>
     cs \<noteq> [] \<and> distinct cs \<and> set cs \<subseteq> {2..<fb_next b} \<and> list_all (\<lambda>c. clu g (fb_image b) c = zero_cluster g) cs
     \<and> n \<le> length cs * cluster_bytes g"

definition children_done :: "geometry \<Rightarrow> fat_builder \<Rightarrow> fat_builder \<Rightarrow> bytes \<Rightarrow> planned list \<Rightarrow> bool" where
  "children_done g b b' buf ps \<longleftrightarrow>
     b_ok g b' \<and> vol_keeps g {} b b' \<and> fb_next b' = fb_next b + nodes_need g (map (snd \<circ> snd) ps)
     \<and> length buf = 32 * sum_list (map (\<lambda>pl. 1 + planned_slots pl) ps)
     \<and> children_read g b' {fb_next b..<fb_next b'} buf ps"

definition dir_done :: "geometry \<Rightarrow> fat_builder \<Rightarrow> fat_builder \<Rightarrow> nat list \<Rightarrow> fat_dir \<Rightarrow> bool" where
  "dir_done g b b' cs es \<longleftrightarrow>
     b_ok g b' \<and> vol_keeps g (set cs) b b' \<and> fb_next b' = fb_next b + nodes_need g (map (snd \<circ> snd) es)
     \<and> dir_read g b' (set cs \<union> {fb_next b..<fb_next b'}) cs es"

lemma tree_items_planned:
  assumes "map planned_label ps = map (\<lambda>(_, name, _). name_label name) es" and "map (snd \<circ> snd) ps = map (snd \<circ> snd) es"
  shows "map (\<lambda>pl. (planned_label pl, node_item (snd (snd pl)))) ps = tree_items es"
proof -
  have "map (\<lambda>pl. (planned_label pl, node_item (snd (snd pl)))) ps = zip (map planned_label ps) (map (node_item) (map (snd \<circ> snd) ps))"
    by (induction ps) simp_all
  also have "\<dots> = zip (map (\<lambda>(_, name, _). name_label name) es) (map node_item (map (snd \<circ> snd) es))" by (simp only: assms)
  also have "\<dots> = tree_items es" unfolding tree_items_def by (induction es) auto
  finally show ?thesis .
qed

lemma content_slots_planned:
  assumes "map planned_slots ps = map (\<lambda>(_, name, _). lfn_slots name) es"
  shows "content_slots es is_root = (if is_root then 1 else 2) + sum_list (map (\<lambda>pl. 1 + planned_slots pl) ps)"
proof -
  have "sum_list (map (\<lambda>pl. 1 + planned_slots pl) ps) = sum_list (map Suc (map planned_slots ps))" by (simp add: comp_def)
  then show ?thesis unfolding assms by (simp add: content_slots_def comp_def case_prod_unfold)
qed

lemma read_rest_zeros [simp]: "read_items F (Suc d) (replicate n 0) = []"
  by simp

lemma dir_step:
  assumes g: "geom_ok g" and p: "fat_params_ok p" and fit: "fat_tree_fits es" and plan: "plan_children es = Some ps"
    and self: "self < 2 ^ 32" "parent < 2 ^ 32"
    and kids: "render_children g p ps (if is_root then 0 else self) b = (Inr buf, b1)" "children_done g b b1 buf ps"
    and b: "b_ok g b" and room: "room_for g b cs (content_slots es is_root * 32)"
  shows "\<exists>b'. render_dir g p es (Some cs) self parent is_root b = (Inr (), b') \<and> dir_done g b b' cs es"
proof -
  let ?data = "dir_head p self parent is_root @ buf"
  note ok = plan_children_ok [OF plan fit]
  have kb: "b_ok g b1" and kk: "vol_keeps g {} b b1" and kn: "fb_next b1 = fb_next b + nodes_need g (map (snd \<circ> snd) ps)"
    and kl: "length buf = 32 * sum_list (map (\<lambda>pl. 1 + planned_slots pl) ps)"
    and kr: "children_read g b1 {fb_next b..<fb_next b1} buf ps"
    using kids(2) unfolding children_done_def by blast+
  note nodes = plan_children_nodes [OF plan]
  have len: "length ?data = content_slots es is_root * 32"
    using kl by (simp add: content_slots_planned [OF ok(3)] length_head [OF p])
  have cs: "distinct cs" "set cs \<subseteq> {2..<fb_next b}" using room by (simp_all add: room_for_def)
  have kept: "clu g (fb_image b1) c = clu g (fb_image b) c" if "c \<in> set cs" for c
  proof -
    have "2 \<le> c" "c < fb_next b" using that cs(2) by auto
    with kk show ?thesis by (simp add: vol_keeps_def)
  qed
  have "list_all (\<lambda>c. clu g (fb_image b1) c = zero_cluster g) cs"
    using room by (simp add: room_for_def list_all_iff kept)
  moreover have "set cs \<subseteq> {2..<fb_next b1}" 
    by (rule subset_trans [OF cs(2)]) (simp add: kn ivl_subset)
  moreover have "length ?data \<le> length cs * cluster_bytes g" using room len by (simp add: room_for_def)
  ultimately obtain b2 where b2: "write_clusters g cs ?data b1 = (Inr (), b2)" "b_ok g b2" "vol_keeps g (set cs) b1 b2"
    "fb_next b2 = fb_next b1" "fb_fat b2 = fb_fat b1"
    "concat (map (clu g (fb_image b2)) cs) = ?data @ replicate (length cs * cluster_bytes g - length ?data) 0"
    using fill_spec [OF kb g cs(1), of ?data] by blast
  have "render_dir g p es (Some cs) self parent is_root b = (Inr (), b2)"
    using b2(1) kids(1) by (simp add: render_dir.simps plan write_dir_bytes_def)
  moreover have "vol_keeps g (set cs) b b2"
  proof -
    have "vol_keeps g (set cs) b b1" using kk by (simp add: vol_keeps_def)
    from vol_keeps_trans [OF this b2(3)] show ?thesis by simp
  qed
  moreover have "dir_read g b2 (set cs \<union> {fb_next b..<fb_next b2}) cs es"
    unfolding dir_read_def
  proof (intro allI impI)
    fix K nxt fin cl d
    assume r: "reader_for g K fin" and s: "sees g nxt cl b2 (set cs \<union> {fb_next b..<fb_next b2})"
      and d: "nodes_weight (map (snd \<circ> snd) es) \<le> d"
    let ?F = "content K nxt fin cl"
    have "sees g nxt cl b1 {fb_next b..<fb_next b1}"
      proof (rule sees_vol_keeps [OF s b2(3)])
      show "{fb_next b..<fb_next b1} \<subseteq> set cs \<union> {fb_next b..<fb_next b2}" by (simp add: b2(4))
      have "2 \<le> fb_next b" using b by (simp add: b_ok_def)
      moreover have "{fb_next b..<fb_next b1} \<inter> set cs = {}" using cs(2) by fastforce
      ultimately show "{fb_next b..<fb_next b1} \<subseteq> {2..<fb_next b1} - set cs" by auto
    qed
    then have kids': "read_items ?F (Suc d) (buf @ rest)
        = map (\<lambda>pl. (planned_label pl, node_item (snd (snd pl)))) ps @ read_items ?F (Suc d) rest" for rest
      using kr r d unfolding children_read_def nodes by blast
    have "map cl cs = map (clu g (fb_image b2)) cs" using s by (simp add: sees_def)
    then have "concat (map cl cs) = dir_head p self parent is_root @ buf @ replicate (length cs * cluster_bytes g - length ?data) 0"
      using b2(6) by (simp only: append_assoc)
    then have "read_items ?F (Suc d) (concat (map cl cs)) = map (\<lambda>pl. (planned_label pl, node_item (snd (snd pl)))) ps"
      by (simp only: read_head [OF p self] kids' read_rest_zeros append_Nil2)
    then show "read_items ?F (Suc d) (concat (map cl cs)) = tree_items es" by (simp only: tree_items_planned [OF ok(2) nodes])
  qed
  ultimately show ?thesis
    using b2(2,4) kn unfolding dir_done_def nodes by (intro exI [of _ b2]) simp
qed

subsection \<open>The whole tree\<close>

lemma children_nil: "b_ok g b \<Longrightarrow> children_done g b b [] []"
  by (simp add: children_done_def children_read_def)

lemma children_keep:
  assumes "vol_keeps g own b b1" and "own \<inter> {..<fb_next b} = {}" and "vol_keeps g {} b1 b2"
  shows "vol_keeps g {} b b2"
  using assms by (intro vol_keeps_trans [of g "{}" b b1 "{}" b2]) (auto simp: vol_keeps_def)

lemma children_cons:
  assumes first: "vol_keeps g {} b b1" "fb_next b1 = fb_next b + node_need g n" "b_ok g b"
    and entry: "length entry = 32 * (1 + planned_slots (field, long, n))"
      "\<And>K nxt fin cl d rest. reader_for g K fin \<Longrightarrow> sees g nxt cl b1 {fb_next b..<fb_next b1} \<Longrightarrow> node_weight n \<le> d \<Longrightarrow>
         read_items (content K nxt fin cl) (Suc d) (entry @ rest)
           = (planned_label (field, long, n), node_item n) # read_items (content K nxt fin cl) (Suc d) rest"
    and rest: "children_done g b1 b2 buf ps"
  shows "children_done g b b2 (entry @ buf) ((field, long, n) # ps)"
proof -
  have kb: "b_ok g b2" and kk: "vol_keeps g {} b1 b2" and kn: "fb_next b2 = fb_next b1 + nodes_need g (map (snd \<circ> snd) ps)"
    and kl: "length buf = 32 * sum_list (map (\<lambda>pl. 1 + planned_slots pl) ps)"
    and kr: "children_read g b2 {fb_next b1..<fb_next b2} buf ps"
    using rest unfolding children_done_def by blast+
  have two: "2 \<le> fb_next b" using first(3) by (simp add: b_ok_def)
  have "children_read g b2 {fb_next b..<fb_next b2} (entry @ buf) ((field, long, n) # ps)"
    unfolding children_read_def
  proof (intro allI impI)
    fix K nxt fin cl d rest
    assume r: "reader_for g K fin" and s: "sees g nxt cl b2 {fb_next b..<fb_next b2}"
      and d: "nodes_weight (map (snd \<circ> snd) ((field, long, n) # ps)) \<le> d"
    have "sees g nxt cl b1 {fb_next b..<fb_next b1}"
      by (rule sees_vol_keeps [OF s kk]) (use two kn in auto)
    note e = entry(2) [OF r this]
    have "sees g nxt cl b2 {fb_next b1..<fb_next b2}" by (rule sees_subset [OF s]) (simp add: first(2))
    with kr r d have "read_items (content K nxt fin cl) (Suc d) (buf @ rest)
        = map (\<lambda>pl. (planned_label pl, node_item (snd (snd pl)))) ps @ read_items (content K nxt fin cl) (Suc d) rest"
      unfolding children_read_def by simp
    then show "read_items (content K nxt fin cl) (Suc d) ((entry @ buf) @ rest)
        = map (\<lambda>pl. (planned_label pl, node_item (snd (snd pl)))) ((field, long, n) # ps) @ read_items (content K nxt fin cl) (Suc d) rest"
      using e [of d "buf @ rest"] d by simp
  qed
  moreover have "vol_keeps g {} b b2" by (rule vol_keeps_trans [OF first(1) kk]) simp
  ultimately show ?thesis using kb kn kl entry(1) first(2) by (simp add: children_done_def)
qed

lemma dir_clusters_room: "geom_ok g \<Longrightarrow> content_slots es is_root * 32 \<le> dir_clusters g es is_root * cluster_bytes g"
proof -
  assume "geom_ok g"
  then have "content_slots es is_root * 32 \<le> nat_ceil (content_slots es is_root * 32) (cluster_bytes g) * cluster_bytes g"
    by (rule nat_ceil_bounds(1) [OF cluster_bytes_pos])
  also have "\<dots> \<le> dir_clusters g es is_root * cluster_bytes g" by (rule mult_le_mono1) (simp add: dir_clusters_def)
  finally show ?thesis .
qed

lemma render_spec:
  shows "geom_ok g \<Longrightarrow> fat_params_ok p \<Longrightarrow> fat_tree_fits es \<Longrightarrow> self_chain = Some cs \<Longrightarrow> self < 2 ^ 32 \<Longrightarrow> parent < 2 ^ 32 \<Longrightarrow>
      b_ok g b \<Longrightarrow> fb_next b + nodes_need g (map (snd \<circ> snd) es) \<le> ge_clusters g + 2 \<Longrightarrow>
      room_for g b cs (content_slots es is_root * 32) \<Longrightarrow>
      \<exists>b'. render_dir g p es self_chain self parent is_root b = (Inr (), b') \<and> dir_done g b b' cs es"
    and "geom_ok g \<Longrightarrow> fat_params_ok p \<Longrightarrow> list_all planned_ok ps \<Longrightarrow> nodes_fit (map (snd \<circ> snd) ps) \<Longrightarrow> dotdot < 2 ^ 32 \<Longrightarrow>
      b_ok g b \<Longrightarrow> fb_next b + nodes_need g (map (snd \<circ> snd) ps) \<le> ge_clusters g + 2 \<Longrightarrow>
      \<exists>buf b'. render_children g p ps dotdot b = (Inr buf, b') \<and> children_done g b b' buf ps"
proof (induction g p es self_chain self parent is_root and g p ps dotdot arbitrary: b cs and b rule: render_dir_render_children.induct)
  case (1 g p es self_chain self parent is_root)
  from 1(4) obtain ps where ps: "plan_children es = Some ps" using plan_children_some [of es] by (auto simp: fat_tree_fits_def)
  note nodes = plan_children_nodes [OF ps]
  have "list_all planned_ok ps" by (rule plan_children_ok(1) [OF ps 1(4)])
  moreover have "nodes_fit (map (snd \<circ> snd) ps)" using tree_fits_nodes [OF 1(4)] by (simp only: nodes)
  moreover have "(if is_root then 0 else self) < 2 ^ 32" using 1(6) by simp
  moreover have "fb_next b + nodes_need g (map (snd \<circ> snd) ps) \<le> ge_clusters g + 2" using 1(9) by (simp only: nodes)
  ultimately obtain buf b1 where "render_children g p ps (if is_root then 0 else self) b = (Inr buf, b1)" "children_done g b b1 buf ps"
    using 1(1) [OF ps 1(2,3)] 1(8) by blast
  from dir_step [OF 1(2,3,4) ps 1(6,7) this 1(8,10)] show ?case by (simp only: 1(5))
next
  case (2 g p dotdot)
  then show ?case using children_nil by simp
next
  case (3 g p field long data rest dotdot)
  have pl: "planned_ok (field, long, FFile data)" and len: "length data < 2 ^ 32" using 3(4,5) by (simp_all add: nodes_fit_def)
  have "fb_next b + nat_ceil (length data) (cluster_bytes g) \<le> ge_clusters g + 2" using 3(8) by simp
  from put_file_spec [OF 3(7,2) this] obtain first b1 where b1: "put_file g data b = (Inr first, b1)" "b_ok g b1" "vol_keeps g {} b b1"
    "first < 2 ^ 32" "fb_next b1 = fb_next b + nat_ceil (length data) (cluster_bytes g)"
    "\<And>K nxt fin cl. reader_for g K fin \<Longrightarrow> sees g nxt cl b1 {fb_next b..<fb_next b1} \<Longrightarrow>
       take (length data) (content K nxt fin cl first) = data" by blast
  have "list_all planned_ok rest" "nodes_fit (map (snd \<circ> snd) rest)"
    "fb_next b1 + nodes_need g (map (snd \<circ> snd) rest) \<le> ge_clusters g + 2" using 3(4,5,8) b1(5) by (simp_all add: nodes_fit_def comp_def)
  with 3(1) [OF 3(2,3) _ _ 3(6) b1(2)] obtain buf b2 where b2: "render_children g p rest dotdot b1 = (Inr buf, b2)"
    "children_done g b1 b2 buf rest" by blast
  let ?e = "named_entry field long first (length data) attr_archive"
  have "children_done g b b2 (?e @ buf) ((field, long, FFile data) # rest)"
  proof (rule children_cons [OF b1(3) _ 3(7) length_named [OF pl] _ b2(2)])
    show "fb_next b1 = fb_next b + node_need g (FFile data)" by (simp add: b1(5))
    show "read_items (content K nxt fin cl) (Suc d) (?e @ r)
        = (planned_label (field, long, FFile data), node_item (FFile data)) # read_items (content K nxt fin cl) (Suc d) r"
      if "reader_for g K fin" "sees g nxt cl b1 {fb_next b..<fb_next b1}" for K nxt fin cl d r
      using read_named_file [OF pl b1(4) len] b1(6) [OF that] by simp
  qed
  then show ?case using b1(1) b2(1) by simp
next
  case (4 g p field long sub rest dotdot)
  have pl: "planned_ok (field, long, FDir sub)" and fit: "fat_tree_fits sub"
    using 4(5,6) by (simp_all add: nodes_fit_def flip: fits_dir)
  let ?n = "dir_clusters g sub False" and ?b = "fb_next b"
  have need: "?b + (?n + nodes_need g (map (snd \<circ> snd) sub)) + nodes_need g (map (snd \<circ> snd) rest) \<le> ge_clusters g + 2"
    using 4(9) by (simp add: node_need_dir comp_def del: node_need.simps(2))
  have n: "0 < ?n" by (simp add: dir_clusters_def)
  have slots: "content_slots sub False * 32 \<le> ?n * cluster_bytes g" by (rule dir_clusters_room [OF 4(3)])
  let ?cs = "[?b..<?b + ?n]"
  have "?b + ?n \<le> ge_clusters g + 2" using need by simp
  note alloc = alloc_spec [OF 4(8,3) n this]
  then obtain b1 where b1: "alloc_chain g ?n b = (Inr ?cs, b1)" "b_ok g b1" "vol_keeps g {} b b1" "fb_next b1 = ?b + ?n"
    "fb_image b1 = fb_image b" "linked g (fb_fat b1) ?cs" by blast
  have two: "2 \<le> ?b" using 4(8) by (simp add: b_ok_def)
  have room: "room_for g b1 ?cs (content_slots sub False * 32)"
    using alloc(3,6,7) slots two by (simp add: room_for_def b1(4,5))
  have "fb_next b1 + nodes_need g (map (snd \<circ> snd) sub) \<le> ge_clusters g + 2" using need b1(4) by simp
  from 4(1) [OF 4(3,4) fit refl alloc(5) 4(7) b1(2) this room] obtain b2 where
    b2: "render_dir g p sub (Some ?cs) (hd ?cs) dotdot False b1 = (Inr (), b2)" "dir_done g b1 b2 ?cs sub" by blast
  have db: "b_ok g b2" and dk: "vol_keeps g (set ?cs) b1 b2" and dn: "fb_next b2 = fb_next b1 + nodes_need g (map (snd \<circ> snd) sub)"
    and dr: "dir_read g b2 (set ?cs \<union> {fb_next b1..<fb_next b2}) ?cs sub"
    using b2(2) unfolding dir_done_def by blast+
  have "list_all planned_ok rest" "nodes_fit (map (snd \<circ> snd) rest)"
    "fb_next b2 + nodes_need g (map (snd \<circ> snd) rest) \<le> ge_clusters g + 2" using 4(5,6) need b1(4) dn by (simp_all add: nodes_fit_def comp_def)
  with 4(2) [OF 4(3,4) _ _ 4(7) db] obtain buf b3 where b3: "render_children g p rest dotdot b2 = (Inr buf, b3)"
    "children_done g b2 b3 buf rest" by blast
  let ?e = "named_entry field long (hd ?cs) 0 attr_directory"
  have kept: "vol_keeps g {} b b2" by (rule vol_keeps_trans [OF b1(3) dk]) auto
  have l2: "linked g (fb_fat b2) ?cs"
  proof -
    have "fb_fat b2 ! c = fb_fat b1 ! c" if "c \<in> set ?cs" for c
    proof -
      have "c < fb_next b1" using that b1(4) by simp
      with dk show ?thesis by (simp add: vol_keeps_def)
    qed
    with linked_cong [of ?cs "fb_fat b2" "fb_fat b1" g] b1(6) show ?thesis by blast
  qed
  have "children_done g b b3 (?e @ buf) ((field, long, FDir sub) # rest)"
  proof (rule children_cons [OF kept _ 4(8) length_named [OF pl] _ b3(2)])
    show "fb_next b2 = fb_next b + node_need g (FDir sub)" by (simp only: dn b1(4) node_need_dir add.assoc)
    show "read_items (content K nxt fin cl) (Suc d) (?e @ r)
        = (planned_label (field, long, FDir sub), node_item (FDir sub)) # read_items (content K nxt fin cl) (Suc d) r"
      if r: "reader_for g K fin" and s: "sees g nxt cl b2 {fb_next b..<fb_next b2}" and d: "node_weight (FDir sub) \<le> d" for K nxt fin cl d r
    proof -
      obtain d' where d': "d = Suc d'" "nodes_weight (map (snd \<circ> snd) sub) \<le> d'"
        using d by (cases d) (simp_all add: node_weight_dir del: node_weight.simps(2))
      have whole: "set ?cs \<union> {fb_next b1..<fb_next b2} = {fb_next b..<fb_next b2}" using b1(4) dn by auto
      have s': "sees g nxt cl b2 (set ?cs)" by (rule sees_subset [OF s]) (use b1(4) dn in auto)
      then have "map cl ?cs = map (clu g (fb_image b2)) ?cs" by (simp add: sees_def)
      then have "content K nxt fin cl (hd ?cs) = concat (map cl ?cs)"
        using content_linked [OF r 4(3) l2 alloc(2) s' alloc(6,7)] by (simp only:)
      then have "read_items (content K nxt fin cl) d (content K nxt fin cl (hd ?cs)) = tree_items sub"
        using dr r s d' unfolding dir_read_def whole by simp
      then show ?thesis using read_named_dir [OF pl alloc(5)] by (simp add: tree_items_def)
    qed
  qed
  then show ?case using b1(1) b2(1) b3(1) by simp
qed

end
