(* ===== verification/FatVolume.thy ===== *)
theory FatVolume
  imports FatRender
begin

section \<open>The volume as a whole\<close>

subsection \<open>Geometry\<close>

text \<open>A geometry whose tables hold a link for every cluster and whose numbers fit the boot sector.\<close>

definition vol_ok :: "geometry \<Rightarrow> bool" where
  "vol_ok g \<longleftrightarrow>
     geom_ok g \<and> type_fits g \<and> ge_fats g = 2 \<and> ge_spc g < 256 \<and> ge_total g < 2 ^ 32
     \<and> (case ge_type g of
          Fat16 \<Rightarrow> ge_reserved g = 1 \<and> ge_root_entries g = 512 \<and> ge_root_sectors g = 32
            \<and> 0 < ge_fat_size g \<and> ge_fat_size g < 2 ^ 16 \<and> (ge_clusters g + 2) * 2 \<le> ge_fat_size g * 512
        | Fat32 \<Rightarrow> ge_reserved g = 32 \<and> ge_root_entries g = 0 \<and> ge_root_sectors g = 0
            \<and> ge_fat_size g < 2 ^ 32 \<and> (ge_clusters g + 2) * 4 \<le> ge_fat_size g * 512)"

lemma ceil_bounds:
  assumes "0 < (d :: nat)" and "k = nat_ceil n d"
  shows "n \<le> d * k" and "d * k < n + d"
  using nat_ceil_bounds [OF assms(1), of n] assms(2) by (simp_all add: mult.commute)

lemma div_bounds: "0 < (d :: nat) \<Longrightarrow> q = n div d \<Longrightarrow> d * q \<le> n \<and> n < d * q + d"
  by (metis add.commute div_mod_decomp mod_less_divisor nat_add_left_cancel_less le_add1 mult.commute)

lemma geometry32_ok:
  assumes "64 \<le> m" and "m \<le> 2 ^ 19"
  shows "\<exists>g. geometry32 (2048 * m) = Inr g \<and> vol_ok g \<and> ge_total g = 2048 * m"
proof -
  let ?t = "2048 * m"
  define spc where "spc = fat32_spc ?t"
  have spc: "(spc = 1 \<and> m \<le> 256) \<or> (spc = 2 \<and> 256 < m \<and> m \<le> 512) \<or> (spc = 8 \<and> 512 < m)"
    by (simp add: spc_def fat32_spc_def Let_def)
  define fs where "fs = nat_ceil (?t - 32) ((256 * spc + 2) div 2)"
  have d: "(256 * spc + 2) div 2 = 128 * spc + 1" by simp
  have b: "?t - 32 \<le> (128 * spc + 1) * fs" "(128 * spc + 1) * fs < ?t - 32 + (128 * spc + 1)"
    using ceil_bounds [of "128 * spc + 1" fs "?t - 32"] by (simp_all add: fs_def)
  define cl where "cl = (?t - (32 + 2 * fs)) div spc"
  have pos: "0 < spc" using spc by auto
  note c = div_bounds [OF pos cl_def]
  have room: "32 + 2 * fs \<le> ?t" using spc b assms by auto
  have "geometry32 ?t = Inr \<lparr>ge_type = Fat32, ge_spc = spc, ge_reserved = 32, ge_fats = 2, ge_root_entries = 0,
             ge_root_sectors = 0, ge_fat_size = fs, ge_total = ?t, ge_clusters = cl\<rparr>"
  proof -
    have "nat_ceil (?t - 32) (Suc (128 * spc)) = fs" "(?t - (32 + 2 * fs)) div spc = cl" by (simp_all add: fs_def cl_def)
    then show ?thesis
      using assms(1) room by (simp add: geometry32_def Let_def fat_size_sectors_def csub_def spc_def [symmetric])
  qed
  moreover have "65525 \<le> cl \<and> (cl + 2) * 4 \<le> fs * 512 \<and> cl + 1 < 0x0FFFFFF8 \<and> fs < 2 ^ 32 \<and> spc < 256
      \<and> 32 + 2 * fs + cl * spc \<le> ?t"
    using spc b c room assms by auto
  ultimately show ?thesis
    using pos assms by (auto simp: vol_ok_def geom_ok_def type_fits_def max_cluster_def data_start_def root_start_def)
qed

lemma no_short_table:
  assumes "3 \<le> m" and "m < 64"
  shows "258 * f \<noteq> 2048 * m - (32 :: nat)" and "514 * f \<noteq> 2048 * m - (32 :: nat)"
proof -
  have "list_all (\<lambda>m. (1024 * m - 16) mod 129 \<noteq> 0 \<and> (1024 * m - 16) mod 257 \<noteq> (0 :: nat)) [3..<64]" by simp
  moreover have "m \<in> set [3..<64]" using assms by (simp del: upt_rec_numeral)
  ultimately have "(1024 * m - 16) mod 129 \<noteq> 0" "(1024 * m - 16) mod 257 \<noteq> 0" by (auto simp: list_all_iff simp del: upt_rec_numeral)
  moreover have "2 * (129 * f) \<noteq> 2 * (1024 * m - 16) \<or> (1024 * m - 16) mod 129 = 0" "2 * (257 * f) \<noteq> 2 * (1024 * m - 16) \<or> (1024 * m - 16) mod 257 = 0"
    by (metis mod_mult_self1_is_0 mult_cancel1 zero_neq_numeral)+
  ultimately show "258 * f \<noteq> 2048 * m - 32" "514 * f \<noteq> 2048 * m - 32" by (auto simp: right_diff_distrib' algebra_simps)
qed

lemma geometry16_ok:
  assumes "3 \<le> m" and "m < 64"
  shows "\<exists>g. geometry16 (2048 * m) 1 = Inr g \<and> vol_ok g \<and> ge_total g = 2048 * m"
proof -
  let ?t = "2048 * m"
  define f1 where "f1 = nat_ceil (?t - 33) 258"
  define f2 where "f2 = nat_ceil (?t - 33) 514"
  have b1: "?t - 33 \<le> 258 * f1" "258 * f1 < ?t - 33 + 258" using ceil_bounds [of 258 f1 "?t - 33"] by (simp_all add: f1_def)
  have b2: "?t - 33 \<le> 514 * f2" "514 * f2 < ?t - 33 + 514" using ceil_bounds [of 514 f2 "?t - 33"] by (simp_all add: f2_def)
  have room: "33 + 2 * f1 \<le> ?t" "33 + 2 * f2 \<le> ?t" using b1 b2 assms by linarith+
  have odd: "258 * f1 \<noteq> ?t - 32" "514 * f2 \<noteq> ?t - 32" by (rule no_short_table [OF assms])+
  have lo: "2048 * m - 30 \<le> 258 * f1" "2048 * m - 30 \<le> 514 * f2"
  proof -
    have gen: "2 * y - 30 \<le> 2 * x" if "2 * y - 33 \<le> 2 * x" "2 * x \<noteq> 2 * y - 32" "16 \<le> y" for x y :: nat
      using that by presburger
    show "2048 * m - 30 \<le> 258 * f1" using gen [of "1024 * m" "129 * f1"] b1(1) odd(1) assms(1) by simp
    show "2048 * m - 30 \<le> 514 * f2" using gen [of "1024 * m" "257 * f2"] b2(1) odd(2) assms(1) by simp
  qed
  define c1 where "c1 = ?t - (33 + 2 * f1)"
  define c2 where "c2 = (?t - (33 + 2 * f2)) div 2"
  note d2 = div_bounds [OF _ c2_def, simplified]
  let ?g = "\<lambda>spc fs cl. \<lparr>ge_type = Fat16, ge_spc = spc, ge_reserved = 1, ge_fats = 2, ge_root_entries = 512,
             ge_root_sectors = 32, ge_fat_size = fs, ge_total = ?t, ge_clusters = cl\<rparr>"
  have step: "geometry16 ?t 1 = (if c1 \<le> 65524 then Inr (?g 1 f1 c1) else geometry16 ?t 2)"
    using assms room(1)
    by (subst geometry16.simps) (simp add: Let_def fat_size_sectors_def csub_def fat16_root_entries_def fat_sector_def f1_def [symmetric] c1_def)
  have step2: "geometry16 ?t 2 = Inr (?g 2 f2 c2)" if "c2 \<le> 65524"
    using assms room(2) that
    by (subst geometry16.simps) (simp add: Let_def fat_size_sectors_def csub_def fat16_root_entries_def fat_sector_def f2_def [symmetric] c2_def)
  have vol: "vol_ok (?g spc fs cl)"
    if "0 < spc" "spc < 256" "33 + 2 * fs + cl * spc \<le> ?t" "4085 \<le> cl" "cl \<le> 65524" "0 < fs" "fs < 2 ^ 16" "(cl + 2) * 2 \<le> fs * 512" for spc fs cl
    using that assms by (simp add: vol_ok_def geom_ok_def type_fits_def max_cluster_def data_start_def root_start_def)
  show ?thesis
  proof (cases "c1 \<le> 65524")
    case True
    have "vol_ok (?g 1 f1 c1)"
      by (rule vol) (use True b1 lo room(1) assms in \<open>auto simp: c1_def\<close>)
    with step True show ?thesis by simp
  next
    case False
    have c2: "c2 \<le> 65524" using d2 assms room by linarith
    have "vol_ok (?g 2 f2 c2)"
    proof (rule vol)
      have gen: "2 * c + 34 + 2 * f \<le> 2 * y" if "2 * c \<le> 2 * y - (33 + 2 * f)" "33 + 2 * f \<le> 2 * y" for c f y :: nat
        using that by presburger
      have "2 * c2 + 34 + 2 * f2 \<le> ?t" using gen [of c2 "1024 * m" f2] d2 room(2) by simp
      moreover have "2048 * m \<le> 514 * f2 + 30" using lo(2) by (simp only: le_diff_conv)
      ultimately have "2 * c2 + 34 + 2 * f2 \<le> 514 * f2 + 30" by (rule order_trans)
      then show "(c2 + 2) * 2 \<le> f2 * 512" by simp
    qed (use c2 False b1 b2 d2 room assms in \<open>auto simp: c1_def\<close>)
    with step step2 [OF c2] False show ?thesis by simp
  qed
qed

lemma fat_geometry_ok:
  assumes "3 \<le> m" and "m \<le> 2 ^ 19"
  shows "\<exists>g. fat_geometry (2048 * m) = Inr g \<and> vol_ok g \<and> ge_total g = 2048 * m"
  using geometry32_ok [of m] geometry16_ok [of m] assms by (cases "64 \<le> m") (simp_all add: fat_geometry_def)

subsection \<open>The blank volume and the root\<close>

lemma blank_ok: "vol_ok g \<Longrightarrow> b_ok g (blank_volume g)"
proof -
  assume v: "vol_ok g"
  then have g: "geom_ok g" by (simp add: vol_ok_def)
  have "clu g (replicate (ge_total g * fat_sector) 0) c = zero_cluster g" if "data_cluster g c" for c
    using cluster_in_image(2) [OF g that] by (simp add: clu_def img_part_def zero_cluster_def min_def)
  then show ?thesis by (auto simp: b_ok_def blank_volume_def)
qed

definition root_bytes :: "geometry \<Rightarrow> fat_builder \<Rightarrow> bytes" where
  "root_bytes g b = img_part (root_start g * fat_sector) (ge_root_entries g * 32) (fb_image b)"

text \<open>The tree is in place: any reader of the links and the clusters in use finds it below the root.\<close>

definition root_done :: "geometry \<Rightarrow> fat_builder \<Rightarrow> fat_dir \<Rightarrow> bool" where
  "root_done g b root \<longleftrightarrow>
     b_ok g b
     \<and> (\<forall>K nxt fin cl d. reader_for g K fin \<longrightarrow> sees g nxt cl b {2..<fb_next b} \<longrightarrow> nodes_weight (map (snd \<circ> snd) root) \<le> d \<longrightarrow>
          read_items (content K nxt fin cl) (Suc d)
            (case ge_type g of Fat16 \<Rightarrow> root_bytes g b | Fat32 \<Rightarrow> content K nxt fin cl fat32_root_cluster) = tree_items root)"

definition tree_room :: "geometry \<Rightarrow> fat_dir \<Rightarrow> bool" where
  "tree_room g root \<longleftrightarrow>
     (case ge_type g of
        Fat16 \<Rightarrow> content_slots root True \<le> ge_root_entries g \<and> nodes_need g (map (snd \<circ> snd) root) \<le> ge_clusters g
      | Fat32 \<Rightarrow> dir_clusters g root True + nodes_need g (map (snd \<circ> snd) root) \<le> ge_clusters g)"

lemma root16:
  assumes v: "vol_ok g" and t: "ge_type g = Fat16" and p: "fat_params_ok p" and fit: "fat_tree_fits root" and room: "tree_room g root"
  shows "\<exists>b. render_root g p root (blank_volume g) = (Inr (), b) \<and> root_done g b root"
proof -
  let ?b = "blank_volume g"
  have g: "geom_ok g" and r: "ge_root_entries g = 512" "ge_root_sectors g = 32" using v t by (simp_all add: vol_ok_def)
  note b = blank_ok [OF v]
  obtain ps where ps: "plan_children root = Some ps" using fit plan_children_some [of root] by (auto simp: fat_tree_fits_def)
  note ok = plan_children_ok [OF ps fit]
  note nodes = plan_children_nodes [OF ps]
  have "nodes_fit (map (snd \<circ> snd) ps)" using tree_fits_nodes [OF fit] by (simp only: nodes)
  moreover have "fb_next ?b + nodes_need g (map (snd \<circ> snd) ps) \<le> ge_clusters g + 2"
    using room t unfolding nodes by (simp add: tree_room_def blank_volume_def)
  ultimately obtain buf b1 where kids: "render_children g p ps 0 ?b = (Inr buf, b1)" "children_done g ?b b1 buf ps"
    using render_spec(2) [OF g p ok(1) _ _ b, of 0] by auto
  have kb: "b_ok g b1" and kk: "vol_keeps g {} ?b b1" and kl: "length buf = 32 * sum_list (map (\<lambda>pl. 1 + planned_slots pl) ps)"
    and kr: "children_read g b1 {fb_next ?b..<fb_next b1} buf ps"
    using kids(2) unfolding children_done_def by blast+
  let ?data = "dir_head p 0 0 True @ buf" and ?off = "root_start g * fat_sector"
  have len: "length ?data = content_slots root True * 32"
    using kl by (simp add: content_slots_planned [OF ok(3)] length_head [OF p])
  have small: "length ?data \<le> 512 * 32" using room t r unfolding len by (simp add: tree_room_def)
  have data: "?off + 512 * 32 = data_start g * fat_sector" by (simp add: data_start_def r fat_sector_def algebra_simps)
  have il: "length (fb_image b1) = ge_total g * fat_sector" using kb by (simp add: b_ok_def)
  have "data_start g * fat_sector \<le> ge_total g * fat_sector" using g by (intro mult_le_mono1) (simp add: geom_ok_def)
  then have inside: "?off + length ?data \<le> length (fb_image b1)" and inside': "?off + 512 * 32 \<le> length (fb_image b1)"
    using small data il by linarith+
  let ?img = "take ?off (fb_image b1) @ ?data @ drop (?off + length ?data) (fb_image b1)"
  let ?b2 = "b1\<lparr>fb_image := ?img\<rparr>"
  have rendered: "render_root g p root ?b = (Inr (), ?b2)"
    using room t kids(1) inside
    by (simp add: render_root_def tree_room_def Let_def render_dir.simps ps write_dir_bytes_def blit_def)
  have clus: "clu g ?img c = clu g (fb_image b1) c" if "data_cluster g c" for c
  proof -
    have "?off + length ?data \<le> cluster_offset g c" using cluster_in_image(1) [OF g that] small data by linarith
    from part_after [OF this inside] show ?thesis by (simp add: clu_def)
  qed
  have il2: "length ?img = ge_total g * fat_sector" using inside il by simp
  then have b2: "b_ok g ?b2" using kb clus by (simp add: b_ok_def)
  have zero: "img_part ?off (512 * 32) (fb_image b1) = replicate (512 * 32) 0"
  proof -
    have "take (?off + 512 * 32) (fb_image b1) = take (?off + 512 * 32) (fb_image ?b)" using kk unfolding data by (simp add: vol_keeps_def)
    then have "img_part ?off (512 * 32) (fb_image b1) = img_part ?off (512 * 32) (fb_image ?b)"
      unfolding img_part_def by (metis add.commute take_drop)
    also have "\<dots> = replicate (512 * 32) 0" using inside' il by (simp add: img_part_def blank_volume_def min_def)
    finally show ?thesis .
  qed
  have root: "root_bytes g ?b2 = ?data @ replicate (512 * 32 - length ?data) 0"
  proof -
    have "root_bytes g ?b2 = img_part ?off (512 * 32) ?img" by (simp add: root_bytes_def r)
    also have "\<dots> = ?data @ replicate (512 * 32 - length ?data) 0"
      by (simp only: part_at [OF small inside] zero drop_replicate)
    finally show ?thesis .
  qed
  have "read_items (content K nxt fin cl) (Suc d) (root_bytes g ?b2) = tree_items root"
    if rd: "reader_for g K fin" and s: "sees g nxt cl ?b2 {2..<fb_next ?b2}" and d: "nodes_weight (map (snd \<circ> snd) root) \<le> d" for K nxt fin cl d
  proof -
    have "data_cluster g c" if "c \<in> {2..<fb_next b1}" for c
      using that kb by (auto simp: b_ok_def data_cluster_def max_cluster_def)
    then have "sees g nxt cl b1 {2..<fb_next b1}" using s clus by (simp add: sees_def)
    then have kids': "read_items (content K nxt fin cl) (Suc d) (buf @ rest)
        = map (\<lambda>pl. (planned_label pl, node_item (snd (snd pl)))) ps @ read_items (content K nxt fin cl) (Suc d) rest" for rest
      using kr rd d unfolding children_read_def nodes by (simp add: blank_volume_def)
    have h: "read_items (content K nxt fin cl) (Suc d) (dir_head p 0 0 True @ rest) = read_items (content K nxt fin cl) (Suc d) rest" for rest
      by (rule read_head [OF p]) simp_all
    have "read_items (content K nxt fin cl) (Suc d) (root_bytes g ?b2) = map (\<lambda>pl. (planned_label pl, node_item (snd (snd pl)))) ps"
      by (subst root) (simp only: append_assoc h kids' read_rest_zeros append_Nil2)
    then show ?thesis by (simp only: tree_items_planned [OF ok(2) nodes])
  qed
  then show ?thesis using rendered b2 t by (auto simp: root_done_def)
qed

lemma root32:
  assumes v: "vol_ok g" and t: "ge_type g = Fat32" and p: "fat_params_ok p" and fit: "fat_tree_fits root" and room: "tree_room g root"
  shows "\<exists>b. render_root g p root (blank_volume g) = (Inr (), b) \<and> root_done g b root"
proof -
  let ?b = "blank_volume g"
  let ?n = "dir_clusters g root True"
  have g: "geom_ok g" using v by (simp add: vol_ok_def)
  note b = blank_ok [OF v]
  have two: "fb_next ?b = 2" by (simp add: blank_volume_def)
  have n: "0 < ?n" by (simp add: dir_clusters_def)
  let ?cs = "[2..<2 + ?n]"
  have "fb_next ?b + ?n \<le> ge_clusters g + 2" using room t by (simp add: tree_room_def two)
  note alloc = alloc_spec [OF b g n this, unfolded two]
  then obtain b1 where b1: "alloc_chain g ?n ?b = (Inr ?cs, b1)" "b_ok g b1" "vol_keeps g {} ?b b1" "fb_next b1 = 2 + ?n"
    "fb_image b1 = fb_image ?b" "linked g (fb_fat b1) ?cs" by blast
  have "room_for g b1 ?cs (content_slots root True * 32)"
    using alloc(3,6,7,8) dir_clusters_room [OF g, of root True] unfolding room_for_def b1(4,5) by (simp del: upt_Suc)
  moreover have "fb_next b1 + nodes_need g (map (snd \<circ> snd) root) \<le> ge_clusters g + 2" using room t b1(4) by (simp add: tree_room_def)
  ultimately obtain b2 where b2: "render_dir g p root (Some ?cs) fat32_root_cluster 0 True b1 = (Inr (), b2)" "dir_done g b1 b2 ?cs root"
    using render_spec(1) [OF g p fit refl _ _ b1(2), of fat32_root_cluster 0 ?cs True] by (auto simp: fat32_root_cluster_def)
  have db: "b_ok g b2" and dk: "vol_keeps g (set ?cs) b1 b2" and dn: "fb_next b2 = fb_next b1 + nodes_need g (map (snd \<circ> snd) root)"
    and dr: "dir_read g b2 (set ?cs \<union> {fb_next b1..<fb_next b2}) ?cs root"
    using b2(2) unfolding dir_done_def by blast+
  have l2: "linked g (fb_fat b2) ?cs"
  proof -
    have "fb_fat b2 ! c = fb_fat b1 ! c" if "c \<in> set ?cs" for c
    proof -
      have "c < fb_next b1" using that b1(4) by (simp del: upt_Suc)
      with dk show ?thesis by (simp add: vol_keeps_def)
    qed
    with linked_cong [of ?cs "fb_fat b2" "fb_fat b1" g] b1(6) show ?thesis by blast
  qed
  have whole: "set ?cs \<union> {fb_next b1..<fb_next b2} = {2..<fb_next b2}" using b1(4) dn by auto
  have "read_items (content K nxt fin cl) (Suc d) (content K nxt fin cl fat32_root_cluster) = tree_items root"
    if r: "reader_for g K fin" and s: "sees g nxt cl b2 {2..<fb_next b2}" and d: "nodes_weight (map (snd \<circ> snd) root) \<le> d" for K nxt fin cl d
  proof -
    have s': "sees g nxt cl b2 (set ?cs)" by (rule sees_subset [OF s]) (use b1(4) dn in auto)
    then have "map cl ?cs = map (clu g (fb_image b2)) ?cs" by (simp add: sees_def)
    then have "content K nxt fin cl (hd ?cs) = concat (map cl ?cs)"
      using content_linked [OF r g l2 alloc(2) s' alloc(6,7)] by (simp only:)
    moreover have "hd ?cs = fat32_root_cluster" using alloc(4) by (simp only: fat32_root_cluster_def)
    ultimately show ?thesis using dr r s d unfolding dir_read_def whole by metis
  qed
  moreover have "render_root g p root ?b = (Inr (), b2)" using t b1(1) b2(1) by (simp add: render_root_def)
  ultimately show ?thesis using db t by (auto simp: root_done_def)
qed

end
