(* ===== verification/FatImage.thy ===== *)
theory FatImage
  imports FatVolume
begin

section \<open>The image and its reader\<close>

text \<open>
  The tables and the boot sector are written in front of the root directory and the data, so the reader
  that decodes them (\<open>crates/keybuild/src/fat.rs\<close>, \<open>FatReader\<close>) finds the geometry, the links and the
  clusters the writer had, and with them the tree.
\<close>

subsection \<open>Patching an image\<close>

definition patch :: "nat \<Rightarrow> bytes \<Rightarrow> bytes \<Rightarrow> bytes" where
  "patch off d img = take off img @ d @ drop (off + length d) img"

lemma blit_patch: "off + length d \<le> length (fb_image b) \<Longrightarrow> blit off d b = (Inr (), b\<lparr>fb_image := patch off d (fb_image b)\<rparr>)"
  by (simp add: blit_def patch_def)

lemma length_patch: "off + length d \<le> length img \<Longrightarrow> length (patch off d img) = length img"
  by (simp add: patch_def)

lemma patch_above: "off + length d \<le> o' \<Longrightarrow> off + length d \<le> length img \<Longrightarrow> img_part o' n (patch off d img) = img_part o' n img"
  unfolding patch_def by (rule part_after)

lemma patch_below: "o' + n \<le> off \<Longrightarrow> off + length d \<le> length img \<Longrightarrow> img_part o' n (patch off d img) = img_part o' n img"
  unfolding patch_def by (rule part_before) simp_all

lemma patch_here: "off + length d \<le> length img \<Longrightarrow> length d = n \<Longrightarrow> img_part off n (patch off d img) = d"
  using part_at [of d n off img] by (simp add: patch_def img_part_def)

lemma part_part: "i + k \<le> n \<Longrightarrow> img_part (off + i) k img = img_part i k (img_part off n img)"
  by (simp add: img_part_def drop_take add.commute min_def)

subsection \<open>What is written in front\<close>

lemma length_le_bytes_pieces [simp]:
  "length (concat (map (\<lambda>e. le_bytes n (f e)) xs)) = length xs * n"
  by (induction xs) simp_all

definition fat_width :: "geometry \<Rightarrow> nat" where
  "fat_width g = (case ge_type g of Fat16 \<Rightarrow> 2 | Fat32 \<Rightarrow> 4)"

lemma length_fat_bytes: "length (fat_bytes g fat) = length fat * fat_width g"
  by (simp add: fat_bytes_def fat_width_def split: fat_type.split)

lemma length_boot_sector: "fat_params_ok p \<Longrightarrow> length (boot_sector g p) = 512"
  by (simp add: boot_sector_def bpb_head_def fat16_tail_def fat32_tail_def Let_def fat_params_ok_def str_bytes_def split: fat_type.split)

lemma length_fsinfo: "length (fsinfo_sector g n) = 512"
  by (simp add: fsinfo_sector_def Let_def)

text \<open>An image whose boot sector and first table are those of the builder, and whose rest is untouched.\<close>

definition fronted :: "geometry \<Rightarrow> fat_params \<Rightarrow> fat_builder \<Rightarrow> bytes \<Rightarrow> bool" where
  "fronted g p b img \<longleftrightarrow>
     length img = length (fb_image b)
     \<and> img_part 0 512 img = boot_sector g p
     \<and> img_part (ge_reserved g * fat_sector) (length (fb_fat b) * fat_width g) img = fat_bytes g (fb_fat b)
     \<and> (\<forall>o' n. root_start g * fat_sector \<le> o' \<longrightarrow> img_part o' n img = img_part o' n (fb_image b))"

definition front :: "geometry \<Rightarrow> fat_params \<Rightarrow> unit fat_action" where
  "front g p =
     act_bind (write_fats g) (\<lambda>_. act_bind (write_boot_sector g p) (\<lambda>_.
       case ge_type g of Fat16 \<Rightarrow> act_ret () | Fat32 \<Rightarrow> write_fsinfo g))"

lemma front_spec:
  assumes v: "vol_ok g" and p: "fat_params_ok p" and b: "b_ok g b"
  shows "\<exists>b'. front g p b = (Inr (), b') \<and> fronted g p b (fb_image b')"
proof -
  let ?f = "fat_bytes g (fb_fat b)" and ?img = "fb_image b"
  define r s where "r = ge_reserved g" and "s = ge_fat_size g"
  have two: "ge_fats g = 2" using v by (simp add: vol_ok_def)
  have len: "length ?img = ge_total g * 512" using b by (simp add: b_ok_def fat_sector_def)
  have fl: "length ?f \<le> 512 * s"
    using v b by (auto simp: vol_ok_def b_ok_def length_fat_bytes fat_width_def s_def split: fat_type.splits)
  have "root_start g * 512 \<le> ge_total g * 512" using v by (intro mult_le_mono1) (simp add: vol_ok_def geom_ok_def data_start_def)
  then have room: "512 * r + 1024 * s \<le> length ?img" using len by (simp add: root_start_def r_def s_def two)
  have rs: "root_start g * fat_sector = 512 * r + 1024 * s" by (simp add: root_start_def r_def s_def two fat_sector_def algebra_simps)
  define i1 where "i1 = patch (512 * r) ?f ?img"
  define i2 where "i2 = patch (512 * r + 512 * s) ?f i1"
  define i3 where "i3 = patch 0 (boot_sector g p) i2"
  have res: "1 \<le> r" using v by (auto simp: vol_ok_def r_def split: fat_type.splits)
  have l1: "length i1 = length ?img" unfolding i1_def by (rule length_patch) (use fl room in linarith)
  have l2: "length i2 = length ?img" unfolding i2_def l1 [symmetric] by (rule length_patch) (use fl room l1 in linarith)
  have l3: "length i3 = length ?img" unfolding i3_def l2 [symmetric] by (rule length_patch) (use room l2 res length_boot_sector [OF p] in simp)
  have fats: "write_fats g b = (Inr (), b\<lparr>fb_image := i2\<rparr>)"
  proof -
    have 1: "blit (512 * r) ?f b = (Inr (), b\<lparr>fb_image := i1\<rparr>)" unfolding i1_def by (rule blit_patch) (use fl room in linarith)
    have 2: "blit (512 * r + 512 * s) ?f (b\<lparr>fb_image := i1\<rparr>) = (Inr (), b\<lparr>fb_image := i2\<rparr>)"
      using blit_patch [of "512 * r + 512 * s" ?f "b\<lparr>fb_image := i1\<rparr>"] fl room l1 by (simp add: i2_def)
    have "[0..<ge_fats g] = [0, 1]" by (simp add: two upt_rec)
    then show ?thesis
      using 1 2 by (simp add: write_fats_def Let_def act_bind_def act_ret_def fat_sector_def r_def s_def algebra_simps)
  qed
  have p1: "img_part (512 * r) (length ?f) i1 = ?f" unfolding i1_def by (rule patch_here [OF _ refl]) (use fl room in linarith)
  have p2: "img_part (512 * r) (length ?f) i2 = ?f"
    unfolding i2_def by (subst patch_below) (use fl room l1 p1 in \<open>simp_all add: add_mult_distrib\<close>)
  have p3: "img_part (512 * r) (length ?f) i3 = ?f"
    unfolding i3_def by (subst patch_above) (use p2 l2 room res length_boot_sector [OF p] in simp_all)
  have h3: "img_part 0 512 i3 = boot_sector g p"
    unfolding i3_def by (rule patch_here) (use l2 room res length_boot_sector [OF p] in simp_all)
  have a3: "img_part o' n i3 = img_part o' n ?img" if "512 * r + 1024 * s \<le> o'" for o' n
  proof -
    have "img_part o' n i3 = img_part o' n i2"
      unfolding i3_def by (rule patch_above) (use that l2 room res length_boot_sector [OF p] in simp_all)
    also have "\<dots> = img_part o' n i1" unfolding i2_def by (rule patch_above) (use that fl room l1 in linarith)+
    also have "\<dots> = img_part o' n ?img" unfolding i1_def by (rule patch_above) (use that fl room in linarith)+
    finally show ?thesis .
  qed
  have fr: "length ?f = length (fb_fat b) * fat_width g" by (simp add: length_fat_bytes)
  have "512 * r = ge_reserved g * fat_sector" by (simp add: r_def fat_sector_def)
  then have whole: "fronted g p b i"
    if "length i = length ?img" "img_part 0 512 i = boot_sector g p" "img_part (512 * r) (length ?f) i = ?f"
      and "\<And>o' n. 512 * r + 1024 * s \<le> o' \<Longrightarrow> img_part o' n i = img_part o' n ?img" for i
    using that by (simp add: fronted_def fr rs)
  show ?thesis
  proof (cases "ge_type g")
    case Fat16
    have "front g p b = (Inr (), b\<lparr>fb_image := i3\<rparr>)"
      using Fat16 fats blit_patch [of 0 "boot_sector g p" "b\<lparr>fb_image := i2\<rparr>"] l2 room res length_boot_sector [OF p, of g]
      by (simp add: front_def write_boot_sector_def act_bind_def act_ret_def i3_def)
    then show ?thesis using whole [OF l3 h3 p3 a3] by simp
  next
    case Fat32
    then have r32: "r = 32" using v by (simp add: vol_ok_def r_def)
    let ?info = "fsinfo_sector g (fb_next b)"
    define i4 where "i4 = patch 3072 (boot_sector g p) i3"
    define i5 where "i5 = patch 512 ?info i4"
    define i6 where "i6 = patch 3584 ?info i5"
    note bl = length_boot_sector [OF p, of g] and il = length_fsinfo [of g "fb_next b"]
    have big: "16384 \<le> length ?img" using room r32 by simp
    have l4: "length i4 = length ?img" unfolding i4_def by (subst length_patch) (use l3 big bl in simp_all)
    have l5: "length i5 = length ?img" unfolding i5_def by (subst length_patch) (use l4 big il in simp_all)
    have l6: "length i6 = length ?img" unfolding i6_def by (subst length_patch) (use l5 big il in simp_all)
    have "front g p b = (Inr (), b\<lparr>fb_image := i6\<rparr>)"
      using Fat32 fats big l2 l3 l4 l5 bl il
      by (simp add: front_def write_boot_sector_def write_fsinfo_def Let_def act_bind_def blit_patch fat_sector_def
          i3_def [symmetric] i4_def [symmetric] i5_def [symmetric] i6_def [symmetric])
    moreover have "img_part 0 512 i6 = boot_sector g p"
      using h3 l3 l4 l5 big bl il by (simp add: i6_def i5_def i4_def patch_below length_patch)
    moreover have "img_part o' n i6 = img_part o' n i3" if "16384 \<le> o'" for o' n
      using that l3 l4 l5 big bl il by (simp add: i6_def i5_def i4_def patch_above length_patch)
    ultimately show ?thesis using whole [OF l6] p3 a3 r32 by simp
  qed
qed

end
