(* ===== verification/KeyDisk.thy ===== *)
theory KeyDisk
  imports KeySpec Gpt FatImage
begin

section \<open>The disk of a key\<close>

text \<open>
  \<open>crates/keybuild/src/lib.rs\<close>: the partitions of a key, and the disk image with its table and the images of
  the partitions in their places.  What the host holds at a path is an error text, with which every
  question about it fails, or the bytes of a file.
\<close>

type_synonym host_files = "string \<Rightarrow> (string + bytes) option"

definition not_found :: string where "not_found = ''No such file or directory (os error 2)''"

definition host_read :: "host_files \<Rightarrow> string \<Rightarrow> fat_fault + bytes" where
  "host_read h p =
     (case h p of None \<Rightarrow> Inl (Fault (KbIo not_found)) | Some (Inl e) \<Rightarrow> Inl (Fault (KbIo e)) | Some (Inr bs) \<Rightarrow> Inr bs)"

text \<open>\<open>Path::exists\<close> is false where asking for the metadata fails.\<close>

definition file_exists :: "host_files \<Rightarrow> string \<Rightarrow> bool" where
  "file_exists h p \<longleftrightarrow> (case h p of Some (Inr _) \<Rightarrow> True | _ \<Rightarrow> False)"

text \<open>A write at an offset: a gap before it is zeros.\<close>

definition write_at :: "nat \<Rightarrow> bytes \<Rightarrow> bytes \<Rightarrow> bytes" where
  "write_at off data img =
     take off img @ replicate (off - length img) 0 @ data @ drop (off + length data) img"

record disk_part =
  dp_image :: string
  dp_type :: guid
  dp_name :: string

record placement =
  pm_name :: string
  pm_offset :: u64
  pm_size :: u64

definition part_size :: "host_files \<Rightarrow> string \<Rightarrow> fat_fault + u64" where
  "part_size h path =
     (case h path of
        None \<Rightarrow> Inl (Fault (KbNoImage path))
      | Some (Inl e) \<Rightarrow> Inl (Fault (KbIo e))
      | Some (Inr bs) \<Rightarrow> Inr (of_nat (length bs)))"

definition part_specs :: "ext \<Rightarrow> host_files \<Rightarrow> disk_part list \<Rightarrow> fat_fault + part_spec list" where
  "part_specs X h parts =
     res_map_all (\<lambda>p. res_bind (part_size h (dp_image p)) (\<lambda>sz.
       Inr \<lparr>ps_type = dp_type p, ps_unique = guid_derive X (dp_name p), ps_name = dp_name p, ps_size = sz\<rparr>)) parts"

fun copy_parts :: "host_files \<Rightarrow> (disk_part \<times> placed) list \<Rightarrow> bytes \<Rightarrow> fat_fault + bytes \<times> placement list" where
  "copy_parts h [] img = Inr (img, [])"
| "copy_parts h ((p, pl) # ps) img =
     res_bind (host_read h (dp_image p)) (\<lambda>data.
     res_bind (copy_parts h ps (write_at (unat (pl_offset pl)) data img)) (\<lambda>(img', places).
       Inr (img', \<lparr>pm_name = dp_name p, pm_offset = pl_offset pl, pm_size = pl_size pl\<rparr> # places)))"

definition write_disk :: "ext \<Rightarrow> host_files \<Rightarrow> disk_part list \<Rightarrow> fat_fault + bytes \<times> placement list" where
  "write_disk X h parts =
     res_bind (part_specs X h parts) (\<lambda>specs.
       case gpt_build (guid_derive X ''horizon-key-disk'') specs of
         None \<Rightarrow> Inl Panic
       | Some d \<Rightarrow>
           copy_parts h (zip parts (dk_parts d))
             (write_at (unat (dk_back_offset d)) (dk_back d)
               (write_at 0 (dk_front d) (zeros (unat (dk_total d))))))"

definition disk_parts :: "host_files \<Rightarrow> key_spec \<Rightarrow> fat_fault + disk_part list" where
  "disk_parts h spec =
     (case (guid_parse linux_fs_type, guid_parse esp_type) of
        (Some linux, Some esp) \<Rightarrow>
          (let at = path_join (ks_out spec); verity = at verity_image in
           Inr ([\<lparr>dp_image = at esp_image, dp_type = esp, dp_name = esp_label\<rparr>,
                 \<lparr>dp_image = at base_image, dp_type = linux, dp_name = ks_base_label spec\<rparr>]
                @ (if file_exists h verity then [\<lparr>dp_image = verity, dp_type = linux, dp_name = verity_label\<rparr>] else [])
                @ [\<lparr>dp_image = at data_image, dp_type = linux, dp_name = ks_data_label spec\<rparr>,
                   \<lparr>dp_image = at home_image, dp_type = linux, dp_name = home_label\<rparr>]))
      | _ \<Rightarrow> Inl Panic)"

definition build_disk :: "ext \<Rightarrow> host_files \<Rightarrow> key_spec \<Rightarrow> fat_fault + bytes \<times> placement list" where
  "build_disk X h spec = res_bind (disk_parts h spec) (write_disk X h)"

subsection \<open>Every image is in its place\<close>

lemma write_at_inside: "off + length d \<le> length img \<Longrightarrow> write_at off d img = patch off d img"
  by (simp add: write_at_def patch_def)

definition placed_ok :: "host_files \<Rightarrow> disk_part \<Rightarrow> placed \<Rightarrow> bool" where
  "placed_ok h p pl \<longleftrightarrow>
     (\<exists>data. h (dp_image p) = Some (Inr data) \<and> length data \<le> unat (pl_size pl))
     \<and> unat (pl_offset pl) = unat (pl_first pl) * 512
     \<and> unat (pl_size pl) = (unat (pl_last pl) - unat (pl_first pl) + 1) * 512"

lemma parts_chain_le: "parts_chain a ps b \<Longrightarrow> a \<le> b"
  by (induction a ps b rule: parts_chain.induct) auto

lemma copy_parts_spec:
  "list_all2 (placed_ok h) parts placed \<Longrightarrow> parts_chain a placed b \<Longrightarrow> b * 512 \<le> length img \<Longrightarrow>
    \<exists>img'. copy_parts h (zip parts placed) img
        = Inr (img', map2 (\<lambda>p pl. \<lparr>pm_name = dp_name p, pm_offset = pl_offset pl, pm_size = pl_size pl\<rparr>) parts placed)
      \<and> length img' = length img
      \<and> (\<forall>o' n. o' + n \<le> a * 512 \<or> b * 512 \<le> o' \<longrightarrow> img_part o' n img' = img_part o' n img)
      \<and> (\<forall>i < length parts. \<forall>data. h (dp_image (parts ! i)) = Some (Inr data) \<longrightarrow>
           img_part (unat (pl_offset (placed ! i))) (length data) img' = data)"
proof (induction parts placed arbitrary: a img rule: list_all2_induct)
  case Nil
  then show ?case by simp
next
  case (Cons p ps pl pls)
  from Cons.hyps(1) obtain data where d: "h (dp_image p) = Some (Inr data)" "length data \<le> unat (pl_size pl)"
    and off: "unat (pl_offset pl) = unat (pl_first pl) * 512"
    and sz: "unat (pl_size pl) = (unat (pl_last pl) - unat (pl_first pl) + 1) * 512" by (auto simp: placed_ok_def)
  from Cons.prems(1) have a: "unat (pl_first pl) = a" "a < unat (pl_last pl)" "parts_chain (unat (pl_last pl) + 1) pls b" by simp_all
  let ?e = "unat (pl_last pl) + 1" and ?o = "a * 512"
  have e: "?e \<le> b" by (rule parts_chain_le [OF a(3)])
  have fits: "?o + length data \<le> ?e * 512" using d(2) a(1,2) unfolding sz by (simp add: algebra_simps)
  then have inside: "?o + length data \<le> length img"
    by (rule order_trans [OF _ order_trans [OF mult_le_mono1 [OF e] Cons.prems(2)]])
  let ?img = "patch ?o data img"
  have len: "length ?img = length img" by (rule length_patch [OF inside])
  from Cons.IH [OF a(3), of ?img] Cons.prems(2) len
  obtain img' where i: "copy_parts h (zip ps pls) ?img
        = Inr (img', map2 (\<lambda>p pl. \<lparr>pm_name = dp_name p, pm_offset = pl_offset pl, pm_size = pl_size pl\<rparr>) ps pls)"
      "length img' = length ?img"
      "\<And>o' n. o' + n \<le> ?e * 512 \<or> b * 512 \<le> o' \<Longrightarrow> img_part o' n img' = img_part o' n ?img"
      "\<And>i data. i < length ps \<Longrightarrow> h (dp_image (ps ! i)) = Some (Inr data) \<Longrightarrow>
           img_part (unat (pl_offset (pls ! i))) (length data) img' = data"
    by (simp only: len) blast
  have same: "img_part o' n img' = img_part o' n img" if "o' + n \<le> ?o \<or> b * 512 \<le> o'" for o' n
  proof -
    have "img_part o' n img' = img_part o' n ?img" using that a(2) by (intro i(3)) auto
    also have "\<dots> = img_part o' n img"
      using that patch_below [OF _ inside] patch_above [OF _ inside] fits e by fastforce
    finally show ?thesis .
  qed
  have here: "img_part ?o (length data) img' = data"
    using i(3) [of ?o "length data"] fits patch_here [OF inside refl] by simp
  have "copy_parts h (zip (p # ps) (pl # pls)) img
      = Inr (img', map2 (\<lambda>p pl. \<lparr>pm_name = dp_name p, pm_offset = pl_offset pl, pm_size = pl_size pl\<rparr>) (p # ps) (pl # pls))"
    using i(1) d(1) off a(1) by (simp add: host_read_def write_at_inside [OF inside])
  moreover have "img_part (unat (pl_offset ((pl # pls) ! i))) (length x) img' = x"
    if "i < length (p # ps)" "h (dp_image ((p # ps) ! i)) = Some (Inr x)" for i x
    using that here i(4) d(1) off a(1) by (cases i) auto
  ultimately show ?case using same i(2) len by (intro exI [of _ img']) simp
qed

definition file_bytes :: "host_files \<Rightarrow> string \<Rightarrow> bytes" where
  "file_bytes h p = (case h p of Some (Inr bs) \<Rightarrow> bs | _ \<Rightarrow> [])"

definition spec_of_part :: "ext \<Rightarrow> host_files \<Rightarrow> disk_part \<Rightarrow> part_spec" where
  "spec_of_part X h p =
     \<lparr>ps_type = dp_type p, ps_unique = guid_derive X (dp_name p), ps_name = dp_name p,
      ps_size = of_nat (length (file_bytes h (dp_image p)))\<rparr>"

definition part_ready :: "host_files \<Rightarrow> disk_part \<Rightarrow> bool" where
  "part_ready h p \<longleftrightarrow>
     (\<exists>data. h (dp_image p) = Some (Inr data)) \<and> length (dp_type p) = 16 \<and> dp_type p \<noteq> zeros 16 \<and> part_name_ok (dp_name p)"

definition disk_fits :: "host_files \<Rightarrow> disk_part list \<Rightarrow> bool" where
  "disk_fits h parts \<longleftrightarrow>
     length parts \<le> 128 \<and> sum_list (map (\<lambda>p. nat_sectors (length (file_bytes h (dp_image p)))) parts) < 2 ^ 54"

lemma length_guid_derive: "(\<And>bs. length (x_sha256 X bs) = 32) \<Longrightarrow> length (guid_derive X seed) = 16"
  by (simp add: guid_derive_def Let_def)

lemma part_specs_ready: "list_all (part_ready h) parts \<Longrightarrow> part_specs X h parts = Inr (map (spec_of_part X h) parts)"
  by (induction parts) (auto simp: part_specs_def part_ready_def part_size_def spec_of_part_def file_bytes_def)

lemma small_part:
  assumes "disk_fits h parts" and "p \<in> set parts"
  shows "length (file_bytes h (dp_image p)) < 2 ^ 64"
proof -
  have "nat_sectors (length (file_bytes h (dp_image p))) < 2 ^ 54"
    using assms member_le_sum_list [of "nat_sectors (length (file_bytes h (dp_image p)))" "map (\<lambda>p. nat_sectors (length (file_bytes h (dp_image p)))) parts"]
    by (force simp: disk_fits_def)
  with nat_sectors_bounds(1) [of "length (file_bytes h (dp_image p))"] show ?thesis by simp
qed

lemma write_disk_places:
  assumes X: "\<And>bs. length (x_sha256 X bs) = 32" and ready: "list_all (part_ready h) parts" and fits: "disk_fits h parts"
  shows "\<exists>d img places rest. gpt_build (guid_derive X ''horizon-key-disk'') (map (spec_of_part X h) parts) = Some d
    \<and> write_disk X h parts = Inr (img, places) \<and> img = dk_front d @ rest \<and> length img = unat (dk_total d)
    \<and> map pm_name places = map dp_name parts
    \<and> (\<forall>i < length parts. img_part (unat (pm_offset (places ! i))) (length (file_bytes h (dp_image (parts ! i)))) img
          = file_bytes h (dp_image (parts ! i)))"
proof -
  let ?specs = "map (spec_of_part X h) parts" and ?g = "guid_derive X ''horizon-key-disk''"
  have g: "length ?g = 16" by (rule length_guid_derive [OF X])
  have wf: "list_all wf_part ?specs"
    using ready length_guid_derive [OF X] by (auto simp: list_all_iff wf_part_def spec_of_part_def part_ready_def)
  have size: "unat (ps_size (spec_of_part X h p)) = length (file_bytes h (dp_image p))" if "p \<in> set parts" for p
    using small_part [OF fits that] by (simp add: spec_of_part_def unat_of_nat_len)
  then have need: "sectors_needed ?specs < 2 ^ 54"
    using fits by (simp add: sectors_needed_def disk_fits_def comp_def cong: map_cong)
  obtain placed e where pl: "place_parts (align_up (2 + entry_array_sectors) align_sectors) ?specs = (placed, e)" by fastforce
  obtain d where d: "gpt_build ?g ?specs = Some d"
    using fits by (auto simp: gpt_build_def Let_def pl build_entries_def disk_fits_def)
  note lay = built_layout [OF d need]
  let ?n = "sectors_needed ?specs"
  obtain lf: "length (dk_front d) = 34 * 512" and lb: "length (dk_back d) = 33 * 512" by (rule built_headers [OF d g wf]) blast
  let ?z = "zeros (unat (dk_total d))"
  have lz: "length ?z = (2048 + ?n + 33) * 512" by (simp add: zeros_def lay(4))
  let ?f1 = "write_at 0 (dk_front d) ?z"
  have f1: "?f1 = patch 0 (dk_front d) ?z" by (rule write_at_inside) (simp add: lf lay(4))
  have l1: "length ?f1 = length ?z" unfolding f1 by (rule length_patch) (simp add: lf lay(4))
  let ?f2 = "write_at (unat (dk_back_offset d)) (dk_back d) ?f1"
  have in2: "unat (dk_back_offset d) + length (dk_back d) \<le> length ?f1" unfolding l1 lz lb lay(3) by simp
  have f2: "?f2 = patch (unat (dk_back_offset d)) (dk_back d) ?f1" by (rule write_at_inside [OF in2])
  have l2: "length ?f2 = length ?z" unfolding f2 using length_patch [OF in2] l1 by simp
  have front: "img_part 0 (34 * 512) ?f2 = dk_front d"
  proof -
    have "img_part 0 (34 * 512) ?f2 = img_part 0 (34 * 512) ?f1"
      unfolding f2 by (rule patch_below [OF _ in2]) (simp add: lay(3))
    also have "\<dots> = dk_front d" unfolding f1 by (rule patch_here) (simp_all add: lf lay(4))
    finally show ?thesis .
  qed
  have ok: "list_all2 (placed_ok h) parts (dk_parts d)"
  proof (rule list_all2_all_nthI)
    show len: "length parts = length (dk_parts d)" using list_all2_lengthD [OF lay(2)] by simp
    fix i assume i: "i < length parts"
    then have "part_fits (?specs ! i) (dk_parts d ! i)" using list_all2_nthD [OF lay(2), of i] by simp
    moreover have "parts ! i \<in> set parts" using i by simp
    ultimately show "placed_ok h (parts ! i) (dk_parts d ! i)"
      using i size [of "parts ! i"] ready by (auto simp: part_fits_def placed_ok_def part_ready_def list_all_length file_bytes_def)
  qed
  have "(2048 + ?n) * 512 \<le> length ?f2" unfolding l2 lz by simp
  from copy_parts_spec [OF ok lay(1) this] obtain img where img: "copy_parts h (zip parts (dk_parts d)) ?f2
        = Inr (img, map2 (\<lambda>p pl. \<lparr>pm_name = dp_name p, pm_offset = pl_offset pl, pm_size = pl_size pl\<rparr>) parts (dk_parts d))"
      "length img = length ?f2"
      "\<forall>o' n. o' + n \<le> 2048 * 512 \<or> (2048 + ?n) * 512 \<le> o' \<longrightarrow> img_part o' n img = img_part o' n ?f2"
      "\<forall>i < length parts. \<forall>data. h (dp_image (parts ! i)) = Some (Inr data) \<longrightarrow>
           img_part (unat (pl_offset (dk_parts d ! i))) (length data) img = data"
    by (elim exE conjE) (rule that)
  have head: "img_part 0 (34 * 512) img = img_part 0 (34 * 512) ?f2" by (rule img(3) [rule_format]) simp
  let ?places = "map2 (\<lambda>p pl. \<lparr>pm_name = dp_name p, pm_offset = pl_offset pl, pm_size = pl_size pl\<rparr>) parts (dk_parts d)"
  have len: "length parts = length (dk_parts d)" using list_all2_lengthD [OF lay(2)] by simp
  have "img = dk_front d @ drop (34 * 512) img"
  proof -
    have "take (34 * 512) img = dk_front d" using head front by (simp only: img_part_def drop0)
    then show ?thesis by (metis append_take_drop_id)
  qed
  moreover have "map pm_name ?places = map dp_name parts" using len by (simp add: list_eq_iff_nth_eq)
  moreover have "img_part (unat (pm_offset (?places ! i))) (length (file_bytes h (dp_image (parts ! i)))) img
      = file_bytes h (dp_image (parts ! i))" if "i < length parts" for i
  proof -
    have "part_ready h (parts ! i)" using ready that by (simp add: list_all_length)
    then obtain data where "h (dp_image (parts ! i)) = Some (Inr data)" by (auto simp: part_ready_def)
    with img(4) [rule_format, OF that this] that len show ?thesis by (simp add: file_bytes_def)
  qed
  moreover have "write_disk X h parts = Inr (img, ?places)"
    using img(1) by (simp add: write_disk_def part_specs_ready [OF ready] d)
  moreover have "length img = unat (dk_total d)" using img(2) l2 by (simp add: zeros_def)
  ultimately show ?thesis using d by blast
qed

subsection \<open>The key as init sees it\<close>

definition key_labels_ok :: "key_spec \<Rightarrow> bool" where
  "key_labels_ok spec \<longleftrightarrow>
     part_name_ok (ks_base_label spec) \<and> part_name_ok (ks_data_label spec)
     \<and> distinct [esp_label, ks_base_label spec, verity_label, ks_data_label spec, home_label]"

definition images_built :: "host_files \<Rightarrow> key_spec \<Rightarrow> bool" where
  "images_built h spec \<longleftrightarrow>
     list_all (\<lambda>f. \<exists>data. h (path_join (ks_out spec) f) = Some (Inr data)) [esp_image, base_image, data_image, home_image]
     \<and> (\<forall>e. h (path_join (ks_out spec) verity_image) \<noteq> Some (Inl e))"

lemma type_guids:
  obtains linux esp where "guid_parse linux_fs_type = Some linux" "length linux = 16" "linux \<noteq> zeros 16"
    "guid_parse esp_type = Some esp" "length esp = 16" "esp \<noteq> zeros 16"
proof -
  have l: "guid_parse linux_fs_type = Some [0xAF, 0x3D, 0xC6, 0x0F, 0x83, 0x84, 0x72, 0x47, 0x8E, 0x79, 0x3D, 0x69, 0xD8, 0x47, 0x7D, 0xE4]"
    by (simp add: guid_parse_def linux_fs_type_def parse_radix_def digit_val_def Let_def le_bytes_def be_bytes_def be_of_nat_def le_of_nat_numeral)
  have e: "guid_parse esp_type = Some [0x28, 0x73, 0x2A, 0xC1, 0x1F, 0xF8, 0xD2, 0x11, 0xBA, 0x4B, 0x00, 0xA0, 0xC9, 0x3E, 0xC9, 0x3B]"
    by (simp add: guid_parse_def esp_type_def parse_radix_def digit_val_def Let_def le_bytes_def be_bytes_def be_of_nat_def le_of_nat_numeral)
  have nz: "x # xs \<noteq> zeros 16" if "x \<noteq> 0" for x xs using that unfolding zeros_def Cons_replicate_eq by simp
  show ?thesis by (rule that [OF l _ nz e _ nz]) simp_all
qed

lemma label_names_ok: "part_name_ok esp_label" "part_name_ok verity_label" "part_name_ok home_label"
  by (simp_all add: part_name_ok_def esp_label_def verity_label_def home_label_def)

definition key_parts :: "key_spec \<Rightarrow> disk_part list \<Rightarrow> bool" where
  "key_parts spec parts \<longleftrightarrow>
     3 < length parts \<and> length parts \<le> 5
     \<and> dp_image (parts ! 1) = path_join (ks_out spec) base_image \<and> dp_name (parts ! 1) = ks_base_label spec
     \<and> dp_image (parts ! (length parts - 2)) = path_join (ks_out spec) data_image
     \<and> dp_name (parts ! (length parts - 2)) = ks_data_label spec
     \<and> dp_image (last parts) = path_join (ks_out spec) home_image \<and> dp_name (last parts) = home_label"

lemma disk_parts_ready:
  assumes l: "key_labels_ok spec" and b: "images_built h spec"
  shows "\<exists>parts. disk_parts h spec = Inr parts \<and> list_all (part_ready h) parts \<and> distinct (map dp_name parts) \<and> key_parts spec parts"
proof -
  obtain linux esp where g: "guid_parse linux_fs_type = Some linux" "length linux = 16" "linux \<noteq> zeros 16"
    "guid_parse esp_type = Some esp" "length esp = 16" "esp \<noteq> zeros 16" by (rule type_guids)
  let ?v = "path_join (ks_out spec) verity_image"
  have v: "\<exists>data. h ?v = Some (Inr data)" if "file_exists h ?v"
    using that by (auto simp: file_exists_def split: option.splits sum.splits)
  show ?thesis
    using l b v label_names_ok g
    by (cases "file_exists h ?v") (auto simp: disk_parts_def Let_def part_ready_def key_parts_def key_labels_ok_def images_built_def)
qed

text \<open>A machine whose only disk is the key, and no links by label.\<close>

definition boots_from :: "host \<Rightarrow> string \<Rightarrow> bytes \<Rightarrow> bool" where
  "boots_from mh disk img \<longleftrightarrow>
     ho_block mh = [(disk, 512, Some img)] \<and> \<not> prefix ''ram'' disk \<and> \<not> prefix ''loop'' disk
     \<and> (\<forall>l. \<not> ho_exists mh (path_join ''/dev/disk/by-label'' l) \<and> \<not> ho_exists mh (path_join ''/dev/disk/by-partlabel'' l))
     \<and> (\<forall>i \<in> {1..128 :: u32}. ho_exists mh (partition_dev disk i))"

definition part_found :: "host_files \<Rightarrow> disk_part list \<Rightarrow> bytes \<Rightarrow> placement list \<Rightarrow> nat \<Rightarrow> bool" where
  "part_found h parts img places i \<longleftrightarrow>
     img_part (unat (pm_offset (places ! i))) (length (file_bytes h (dp_image (parts ! i)))) img = file_bytes h (dp_image (parts ! i))
     \<and> pm_name (places ! i) = dp_name (parts ! i)
     \<and> (\<forall>mh disk fs. boots_from mh disk img \<longrightarrow>
          resolve mh (SpecLabel (dp_name (parts ! i))) fs = Inr (source_new (partition_dev disk (of_nat (i + 1))) fs flags_none))"


definition demo_key :: key_spec where
  "demo_key = key_spec_new ''0.1.0'' ''out''"

definition demo_images :: host_files where
  "demo_images = map_of [(''out/esp.img'', Inr [1]), (''out/base.squashfs'', Inr [0x68, 0x73, 0x71, 0x73]), (''out/data.img'', Inr []), (''out/home.img'', Inr [2])]"

lemma demo_key_simps:
  "ks_out demo_key = ''out''" "ks_base_label demo_key = base_label" "ks_data_label demo_key = data_label"
  "ks_cmdline_extra demo_key = []" "ks_verity_root demo_key = None" "ks_basefs demo_key = ''squashfs''" "ks_datafs demo_key = ''ext4''"
  by (simp_all add: demo_key_def key_spec_new_def)

lemma demo_key_paths:
  "path_join ''out'' esp_image = ''out/esp.img''" "path_join ''out'' base_image = ''out/base.squashfs''"
  "path_join ''out'' data_image = ''out/data.img''" "path_join ''out'' home_image = ''out/home.img''"
  "path_join ''out'' verity_image = ''out/base.verity''"
  by (simp_all add: path_join_def path_is_absolute_def esp_image_def base_image_def data_image_def home_image_def verity_image_def)


end
