(* ===== verification/FatCheck.thy ===== *)
theory FatCheck
  imports FatImage
begin

section \<open>Reading the image back\<close>

text \<open>
  The reader decodes the boot sector to the geometry it was written from, follows the links of the first
  table and finds each cluster where the writer put it; so it reads the tree.
\<close>

subsection \<open>The boot sector\<close>

lemmas boot_defs = boot_sector_def bpb_head_def fat16_tail_def fat32_tail_def Let_def str_bytes_def

lemma boot_part: "img_part 0 512 img = boot_sector g p \<Longrightarrow> i + k \<le> 512 \<Longrightarrow> img_part i k img = img_part i k (boot_sector g p)"
  using part_part [of i k 512 0 img] by simp

lemma boot_nth: "img_part 0 512 img = boot_sector g p \<Longrightarrow> i < 512 \<Longrightarrow> img ! i = boot_sector g p ! i"
  by (metis add.left_neutral drop0 img_part_def nth_take)

lemma boot_fields:
  assumes "fat_params_ok p"
  shows "boot_sector g p ! 13 = of_nat (ge_spc g)" and "boot_sector g p ! 16 = of_nat (ge_fats g)"
    and "img_part 14 2 (boot_sector g p) = le_bytes 2 (of_nat (ge_reserved g) :: u16)"
    and "img_part 17 2 (boot_sector g p) = le_bytes 2 (of_nat (ge_root_entries g) :: u16)"
    and "img_part 22 2 (boot_sector g p) = le_bytes 2 (if ge_type g = Fat16 then of_nat (ge_fat_size g) else 0 :: u16)"
    and "ge_type g = Fat32 \<Longrightarrow> img_part 36 4 (boot_sector g p) = le_bytes 4 (of_nat (ge_fat_size g) :: u32)"
    and "ge_type g = Fat32 \<Longrightarrow> img_part 44 4 (boot_sector g p) = le_bytes 4 (of_nat fat32_root_cluster :: u32)"
  using assms by (simp_all add: boot_defs img_part_def fat_params_ok_def nth_append split: fat_type.split)

definition geom_reader :: "geometry \<Rightarrow> fat_reader" where
  "geom_reader g =
     \<lparr>fr_type = ge_type g, fr_spc = ge_spc g, fr_reserved = ge_reserved g, fr_fats = ge_fats g,
      fr_root_entries = ge_root_entries g, fr_fat_size = ge_fat_size g,
      fr_root = (case ge_type g of Fat16 \<Rightarrow> 0 | Fat32 \<Rightarrow> fat32_root_cluster)\<rparr>"

lemma reader_decodes:
  assumes v: "vol_ok g" and p: "fat_params_ok p" and b: "img_part 0 512 img = boot_sector g p"
  shows "reader_new img = geom_reader g"
proof -
  have small: "unat (of_nat n :: u16) mod 65536 = n" if "n < 65536" for n
    using that by (simp add: unat_of_nat_len)
  have big: "unat (of_nat n :: u32) mod 4294967296 = n" if "n < 4294967296" for n
    using that by (simp add: unat_of_nat_len)
  have byte: "unat (of_nat n :: u8) = n" if "n < 256" for n
    using that by (simp add: unat_of_nat_len)
  note f = boot_fields [OF p, of g]
  note parts = boot_part [OF b, of 14 2, simplified] boot_part [OF b, of 17 2, simplified] boot_part [OF b, of 22 2, simplified]
    boot_part [OF b, of 36 4, simplified] boot_part [OF b, of 44 4, simplified]
    boot_nth [OF b, of 13, simplified] boot_nth [OF b, of 16, simplified]
  show ?thesis
  proof (cases "ge_type g")
    case Fat16
    with v show ?thesis
      by (simp add: reader_new_def geom_reader_def parts f le_nat_le_bytes small byte vol_ok_def)
  next
    case Fat32
    with v show ?thesis
      by (simp add: reader_new_def geom_reader_def parts f le_nat_le_bytes small big byte vol_ok_def fat32_root_cluster_def)
  qed
qed

subsection \<open>Links and clusters\<close>

lemma concat_piece:
  assumes "list_all (\<lambda>x. length x = n) xs" and "i < length xs"
  shows "img_part (i * n) n (concat xs) = xs ! i"
proof -
  have "length (xs ! i) = n" using assms by (simp add: list_all_length)
  moreover have "drop i xs = xs ! i # drop (Suc i) xs" using assms(2) by (simp add: Cons_nth_drop_Suc)
  ultimately show ?thesis using assms(1) by (simp add: img_part_def drop_concat_same)
qed

lemma reader_next_link:
  assumes v: "vol_ok g" and p: "fat_params_ok p" and b: "b_ok g b" and f: "fronted g p b img"
    and c: "2 \<le> c" "c < fb_next b"
  shows "reader_next (geom_reader g) img c = unat (fb_fat b ! c)"
proof -
  let ?e = "fb_fat b ! c" and ?w = "fat_width g"
  have link: "?e = eoc g \<or> unat ?e \<le> max_cluster g" using b c by (simp add: b_ok_def fat_link_ok_def)
  have len: "c < length (fb_fat b)" using b c by (simp add: b_ok_def)
  have "img_part (ge_reserved g * fat_sector + c * ?w) ?w img
      = img_part (c * ?w) ?w (img_part (ge_reserved g * fat_sector) (length (fb_fat b) * ?w) img)"
  proof (rule part_part)
    have "(c + 1) * ?w \<le> length (fb_fat b) * ?w" by (rule mult_le_mono1) (use len in simp)
    then show "c * ?w + ?w \<le> length (fb_fat b) * ?w" by simp
  qed
  also have "\<dots> = img_part (c * ?w) ?w (fat_bytes g (fb_fat b))" using f by (simp only: fronted_def)
  finally have entry: "img_part (ge_reserved g * fat_sector + c * ?w) ?w img = img_part (c * ?w) ?w (fat_bytes g (fb_fat b))" .
  show ?thesis
  proof (cases "ge_type g")
    case Fat16
    then have "unat ?e < 65536" using link v by (auto simp: vol_ok_def geom_ok_def eoc_def)
    moreover have "img_part (c * 2) 2 (fat_bytes g (fb_fat b)) = le_bytes 2 (ucast ?e :: u16)"
      using concat_piece [of 2 "map (\<lambda>e. le_bytes 2 (ucast e :: u16)) (fb_fat b)" c] len Fat16
      by (simp add: fat_bytes_def list_all_iff)
    ultimately show ?thesis
      using Fat16 entry by (simp add: reader_next_def geom_reader_def fat_width_def le_nat_le_bytes unsigned_ucast_eq take_bit_nat_eq_self)
  next
    case Fat32
    then have "unat ?e < 2 ^ 28" using link v by (auto simp: vol_ok_def geom_ok_def eoc_def)
    moreover have "img_part (c * 4) 4 (fat_bytes g (fb_fat b)) = le_bytes 4 (?e AND 0x0FFFFFFF)"
      using concat_piece [of 4 "map (\<lambda>e. le_bytes 4 (e AND 0x0FFFFFFF)) (fb_fat b)" c] len Fat32
      by (simp add: fat_bytes_def list_all_iff)
    moreover have "?e AND 0x0FFFFFFF = take_bit 28 ?e" by (simp add: take_bit_eq_mask mask_eq_exp_minus_1)
    ultimately show ?thesis
      using Fat32 entry
      by (simp add: reader_next_def geom_reader_def fat_width_def le_nat_le_bytes unsigned_take_bit_eq take_bit_nat_eq_self)
  qed
qed

lemma reader_geometry:
  assumes "vol_ok g"
  shows "reader_data_start (geom_reader g) = data_start g" and "reader_cluster (geom_reader g) img c = clu g img c"
proof -
  show d: "reader_data_start (geom_reader g) = data_start g"
    using assms by (simp add: reader_data_start_def geom_reader_def data_start_def root_start_def vol_ok_def fat_sector_def split: fat_type.splits)
  have "fr_spc (geom_reader g) = ge_spc g" by (simp add: geom_reader_def)
  then show "reader_cluster (geom_reader g) img c = clu g img c"
    by (simp add: reader_cluster_def clu_def cluster_offset_def cluster_bytes_def d)
qed

lemma reader_is_for:
  assumes v: "vol_ok g" and l: "length img = ge_total g * fat_sector"
  shows "reader_for g (length img) (reader_end (geom_reader g))"
proof -
  have "ge_clusters g * 1 \<le> ge_clusters g * ge_spc g" using v by (intro mult_le_mono2) (simp add: vol_ok_def geom_ok_def)
  moreover have "data_start g + ge_clusters g * ge_spc g \<le> ge_total g" using v by (simp add: vol_ok_def geom_ok_def)
  ultimately have "ge_clusters g \<le> ge_total g" by linarith
  then have "ge_clusters g \<le> length img" by (simp add: l fat_sector_def)
  then show ?thesis
    using v by (auto simp: reader_for_def reader_end_def geom_reader_def eoc_def vol_ok_def geom_ok_def split: fat_type.splits)
qed

subsection \<open>The volume is its tree\<close>

lemma fronted_reads:
  assumes v: "vol_ok g" and p: "fat_params_ok p" and r: "root_done g b root" and f: "fronted g p b img"
    and d: "nodes_weight (map (snd \<circ> snd) root) \<le> d"
  shows "read_volume (Suc d) img = tree_items root"
proof -
  let ?R = "geom_reader g"
  have b: "b_ok g b" using r by (simp add: root_done_def)
  have g: "geom_ok g" using v by (simp add: vol_ok_def)
  have R: "reader_new img = ?R" using f by (intro reader_decodes [OF v p]) (simp add: fronted_def)
  have "length img = ge_total g * fat_sector" using f b by (simp add: fronted_def b_ok_def)
  note rf = reader_is_for [OF v this]
  have same: "clu g img c = clu g (fb_image b) c" if "data_cluster g c" for c
  proof -
    have "root_start g * fat_sector \<le> data_start g * fat_sector" by (simp add: data_start_def)
    also have "\<dots> \<le> cluster_offset g c" by (rule cluster_in_image [OF g that])
    finally show ?thesis using f by (simp add: clu_def fronted_def)
  qed
  have "data_cluster g c" if "c \<in> {2..<fb_next b}" for c
    using that b by (auto simp: b_ok_def data_cluster_def max_cluster_def)
  then have s: "sees g (reader_next ?R img) (reader_cluster ?R img) b {2..<fb_next b}"
    using reader_next_link [OF v p b f] same reader_geometry(2) [OF v] by (simp add: sees_def)
  have chain: "reader_chain ?R img = content (length img) (reader_next ?R img) (reader_end ?R) (reader_cluster ?R img)"
    by (rule ext) (simp add: reader_chain_def content_def)
  have "reader_root ?R img = (case ge_type g of Fat16 \<Rightarrow> root_bytes g b
      | Fat32 \<Rightarrow> content (length img) (reader_next ?R img) (reader_end ?R) (reader_cluster ?R img) fat32_root_cluster)"
  proof (cases "ge_type g")
    case Fat16
    then have "reader_root ?R img = img_part (root_start g * fat_sector) (ge_root_entries g * 32) img"
      by (simp add: reader_root_def geom_reader_def root_start_def)
    also have "\<dots> = root_bytes g b" using f by (simp add: fronted_def root_bytes_def)
    finally show ?thesis using Fat16 by simp
  next
    case Fat32
    then have "fr_type ?R = Fat32" "fr_root ?R = fat32_root_cluster" by (simp_all add: geom_reader_def)
    with Fat32 show ?thesis by (simp add: reader_root_def chain)
  qed
  then show ?thesis
    using r rf s d by (simp only: read_volume_def Let_def R chain root_done_def)
qed

definition fat_room :: "nat \<Rightarrow> fat_dir \<Rightarrow> bool" where
  "fat_room nbytes root = (case fat_geometry (nbytes div fat_sector) of Inr g \<Rightarrow> tree_room g root | Inl _ \<Rightarrow> False)"

lemma fill_volume_front: "fill_volume g p root = act_bind (render_root g p root) (\<lambda>_. front g p)"
  by (simp add: fill_volume_def front_def)

lemma fat_volume_reads:
  assumes "3 \<le> m" and "m \<le> 2 ^ 19" and "fat_params_ok p" and "fat_tree_fits root" and "fat_room (m * 2 ^ 20) root"
  shows "\<exists>img. fat_format (m * 2 ^ 20) root p = Inr img \<and> length img = m * 2 ^ 20
      \<and> (\<forall>d. read_volume (nodes_weight (map (snd \<circ> snd) root) + 1 + d) img = tree_items root)"
proof -
  obtain g where g: "fat_geometry (2048 * m) = Inr g" "vol_ok g" "ge_total g = 2048 * m"
    using fat_geometry_ok [OF assms(1,2)] by blast
  have secs: "m * 2 ^ 20 div fat_sector = 2048 * m" "m * 2 ^ 20 mod fat_sector = 0" by (simp_all add: fat_sector_def)
  have room: "tree_room g root" using assms(5) secs(1) g(1) by (simp add: fat_room_def del: div_mult_self1)
  obtain b where b: "render_root g p root (blank_volume g) = (Inr (), b)" "root_done g b root"
    using root16 [OF g(2) _ assms(3,4) room] root32 [OF g(2) _ assms(3,4) room] by (cases "ge_type g") auto
  have bo: "b_ok g b" using b(2) by (simp add: root_done_def)
  obtain b' where b': "front g p b = (Inr (), b')" "fronted g p b (fb_image b')"
    using front_spec [OF g(2) assms(3) bo] by blast
  have "fat_format (m * 2 ^ 20) root p = Inr (fb_image b')"
  proof -
    have "type_fits g" using g(2) by (simp add: vol_ok_def)
    then show ?thesis
      by (simp only: fat_format_def secs g(1) fill_volume_front act_bind_def b(1) b'(1) res_bind_simps prod.case sum.case if_True if_False
          not_True_eq_False simp_thms)
  qed
  moreover have "length (fb_image b') = m * 2 ^ 20"
    using b'(2) bo by (simp add: fronted_def b_ok_def g(3) fat_sector_def)
  moreover have "read_volume (nodes_weight (map (snd \<circ> snd) root) + 1 + d) (fb_image b') = tree_items root" for d
    using fronted_reads [OF g(2) assms(3) b(2) b'(2), of "nodes_weight (map (snd \<circ> snd) root) + d"] by simp
  ultimately show ?thesis by blast
qed

definition demo_volume :: fat_dir where
  "demo_volume =
     snd (fat_insert_file ''loader/entries/horizon-os.conf'' (str_bytes ''title'')
       (snd (fat_insert_file ''EFI/BOOT/BOOTX64.EFI'' (str_bytes ''MZ'') [])))"

definition demo_volume_params :: fat_params where
  "demo_volume_params = params_for_label (\<lambda>_. replicate 32 7) ''HORIZON-ESP''"

lemma ascii_upper_eq: "ascii_upper c = c' \<longleftrightarrow>
    (let n = of_char c :: nat in if 97 \<le> n \<and> n \<le> 122 then of_char c' = n - 32 else c = c')"
  by (auto simp: ascii_upper_def Let_def char_of_eq_iff take_bit_nat_eq_self)

lemma demo_upper:
  "upper ''EFI'' = ''EFI''" "upper ''BOOT'' = ''BOOT''" "upper ''BOOTX64.EFI'' = ''BOOTX64.EFI''"
  "upper ''loader'' = ''LOADER''" "upper ''entries'' = ''ENTRIES''" "upper ''horizon-os.conf'' = ''HORIZON-OS.CONF''"
  by (simp_all add: upper_def ascii_upper_eq)

lemmas name_defs = validate_name_def fits_83_def canon_83_def demo_upper Let_def rsplit_once_def short_char_def

lemma demo_names_83:
  "fits_83 ''EFI'' = Some (str_bytes ''EFI        '')" "fits_83 ''BOOT'' = Some (str_bytes ''BOOT       '')"
  "fits_83 ''BOOTX64.EFI'' = Some (str_bytes ''BOOTX64 EFI'')"
  "fits_83 ''loader'' = Some (str_bytes ''LOADER     '')" "fits_83 ''entries'' = Some (str_bytes ''ENTRIES    '')"
  by (simp_all add: name_defs to_field_def space_pad_def str_bytes_def numeral_eq_Suc)

lemma demo_name_long: "fits_83 ''horizon-os.conf'' = None" "length (encode_utf16 ''horizon-os.conf'') = 15"
  "is_long_name ''horizon-os.conf''"
proof -
  have a: "ascii_str ''horizon-os.conf''" by (simp add: ascii_str_def)
  show "fits_83 ''horizon-os.conf'' = None" by (simp add: name_defs)
  show l: "length (encode_utf16 ''horizon-os.conf'') = 15" by (simp add: encode_utf16_ascii [OF a])
  show "is_long_name ''horizon-os.conf''" by (simp add: is_long_name_def l chars_of_ascii [OF a] long_char_def scalar_ascii)
qed

lemma demo_volume_tree:
  "demo_volume =
     [(''EFI'', ''EFI'', FDir [(''BOOT'', ''BOOT'', FDir [(''BOOTX64.EFI'', ''BOOTX64.EFI'', FFile (str_bytes ''MZ''))])]),
      (''LOADER'', ''loader'', FDir [(''ENTRIES'', ''entries'', FDir [(''HORIZON-OS.CONF'', ''horizon-os.conf'', FFile (str_bytes ''title''))])])]"
  by (simp add: demo_volume_def fat_insert_file_def fat_parts_def validate_name_def demo_names_83 demo_name_long demo_upper Let_def less_char_def)

lemma demo_volume_room: "fat_room (4 * 2 ^ 20) demo_volume"
proof -
  have g: "fat_geometry 8192 = Inr \<lparr>ge_type = Fat16, ge_spc = 1, ge_reserved = 1, ge_fats = 2, ge_root_entries = 512,
      ge_root_sectors = 32, ge_fat_size = 32, ge_total = 8192, ge_clusters = 8095\<rparr>"
    by (simp add: fat_geometry_def geometry16.simps Let_def fat_size_sectors_def csub_def fat16_root_entries_def fat_sector_def nat_ceil_def)
  show ?thesis
    by (simp add: fat_room_def g fat_sector_def tree_room_def demo_volume_tree content_slots_def lfn_slots_def demo_names_83 demo_name_long
        dir_clusters_def nat_ceil_def cluster_bytes_def nodes_need_def str_bytes_def)
qed

lemma demo_volume_params_ok: "fat_params_ok demo_volume_params"
  by (simp add: fat_params_ok_def demo_volume_params_def params_for_label_def label_field_def space_pad_def upper_def ascii_upper_def str_bytes_def Let_def)

lemma demo_volume_fits: "fat_tree_fits demo_volume"
  by (simp add: demo_volume_tree fat_tree_fits_def validate_name_def demo_names_83 demo_name_long str_bytes_def)

end
