(* ===== verification/FatTree.thy ===== *)
theory FatTree
  imports FatCheck CpioTree
begin

section \<open>The tree of a volume\<close>

text \<open>
  The tree is only built by \<open>insert_file\<close> and \<open>mkdir\<close> (\<open>crates/keybuild/src/fat.rs\<close>, \<open>Fat\<close>): it stays a
  tree of valid names, filed under their upper-case form in the order of a \<open>BTreeMap\<close>, whichever call
  fails, and a file that was inserted is found again under its path.
\<close>

fun fat_node_wf :: "fat_node \<Rightarrow> bool" where
  "fat_node_wf (FFile _) \<longleftrightarrow> True"
| "fat_node_wf (FDir es) \<longleftrightarrow>
     sorted_wrt (<) (map fst es)
     \<and> (\<forall>(k, name, n) \<in> set es. k = upper name \<and> validate_name name = Inr () \<and> fat_node_wf n)"

abbreviation fat_dir_wf :: "fat_dir \<Rightarrow> bool" where
  "fat_dir_wf es \<equiv> fat_node_wf (FDir es)"

declare fat_node_wf.simps(2) [simp del]

lemma fat_dir_wf_Nil [simp]: "fat_dir_wf []"
  by (simp add: fat_node_wf.simps)

text \<open>The file at a path, with the name it was given.\<close>

fun fat_file :: "string list \<Rightarrow> fat_dir \<Rightarrow> (string \<times> bytes) option" where
  "fat_file [] es = None"
| "fat_file (d # ds) es =
     (case map_of es (upper d) of
        None \<Rightarrow> None
      | Some (name, FDir sub) \<Rightarrow> fat_file ds sub
      | Some (name, FFile data) \<Rightarrow> if ds = [] then Some (name, data) else None)"

lemma fat_dir_wf_insert:
  assumes "fat_dir_wf es" and "validate_name name = Inr ()" and "fat_node_wf n"
  shows "fat_dir_wf (bt_insert (upper name) (name, n) es)"
  using assms set_bt_insert [of "upper name" "(name, n)" es] by (auto simp: fat_node_wf.simps(2) sorted_bt_insert)

lemma fat_dir_wf_lookup: "fat_dir_wf es \<Longrightarrow> map_of es k = Some (name, n) \<Longrightarrow> k = upper name \<and> validate_name name = Inr () \<and> fat_node_wf n"
  by (auto simp: fat_node_wf.simps(2) dest!: map_of_SomeD)

lemma at_fat_dir_wf:
  "fat_dir_wf es \<Longrightarrow> (\<And>cur. fat_dir_wf cur \<Longrightarrow> fat_dir_wf (snd (f cur))) \<Longrightarrow> fat_dir_wf (snd (at_fat_dir ds f es))"
proof (induction ds f es rule: at_fat_dir.induct)
  case (2 d ds f es)
  show ?case
  proof (cases "validate_name d")
    case (Inr u)
    then have v: "validate_name d = Inr ()" by simp
    consider "map_of es (upper d) = None" | name data where "map_of es (upper d) = Some (name, FFile data)"
      | name sub where "map_of es (upper d) = Some (name, FDir sub)"
      by (metis fat_node.exhaust option.exhaust surj_pair)
    then show ?thesis
    proof cases
      case 1
      with 2(1) [OF Inr 1] have "fat_dir_wf (snd (at_fat_dir ds f []))" using 2(4) by simp
      then show ?thesis using fat_dir_wf_insert [OF 2(3) v] by (auto simp: Inr 1 split: prod.split)
    next
      case 2
      then show ?thesis using \<open>fat_dir_wf es\<close> by (simp add: Inr)
    next
      case (3 name sub)
      note l = fat_dir_wf_lookup [OF 2(3) 3]
      with 2(2) [OF Inr 3] 2(4) have "fat_dir_wf (snd (at_fat_dir ds f sub))" by simp
      with l fat_dir_wf_insert [OF 2(3), of name]
      have "fat_dir_wf (bt_insert (upper d) (name, FDir (snd (at_fat_dir ds f sub))) es)" by simp
      then show ?thesis by (auto simp: Inr 3 split: prod.split)
    qed
  qed (use 2(3) in \<open>simp\<close>)
qed simp

lemma at_fat_dir_file:
  "at_fat_dir ds f es = (Inr (), es') \<Longrightarrow> (\<And>cur cur'. f cur = (Inr (), cur') \<Longrightarrow> fat_file ps cur' = Some n) \<Longrightarrow>
    fat_file (ds @ ps) es' = Some n"
proof (induction ds f es arbitrary: es' rule: at_fat_dir.induct)
  case (2 d ds f es)
  from 2(3) obtain u where Inr: "validate_name d = Inr u" by (auto split: sum.splits)
  show ?case
  proof (cases "map_of es (upper d)")
    case None
    then show ?thesis using 2(1) [OF Inr None] 2(3,4) by (auto simp: Inr split: prod.splits)
  next
    case (Some p)
    then obtain name sub where p: "map_of es (upper d) = Some (name, FDir sub)"
      using 2(3) by (cases p; cases "snd p") (auto simp: Inr)
    then show ?thesis using 2(2) [OF Inr p] 2(3,4) by (auto simp: Inr split: prod.splits)
  qed
qed simp

text \<open>A call leaves every file alone that is not where it was told to put one, nor below it.\<close>

lemma at_fat_dir_others:
  "\<not> prefix (map upper ds @ us) (map upper p) \<Longrightarrow> fat_file p es = Some n \<Longrightarrow>
    (\<And>cur q. \<not> prefix us (map upper q) \<Longrightarrow> fat_file q cur = Some n \<Longrightarrow> fat_file q (snd (f cur)) = Some n) \<Longrightarrow>
    fat_file p (snd (at_fat_dir ds f es)) = Some n"
proof (induction ds f es arbitrary: p rule: at_fat_dir.induct)
  case (2 d ds f es)
  from 2(4) obtain e q where p: "p = e # q" by (cases p) simp_all
  show ?case
  proof (cases "validate_name d")
    case (Inr u)
    consider "map_of es (upper d) = None" | name data where "map_of es (upper d) = Some (name, FFile data)"
      | name sub where "map_of es (upper d) = Some (name, FDir sub)"
      by (metis fat_node.exhaust option.exhaust surj_pair)
    then show ?thesis
    proof cases
      case 1
      then have "upper e \<noteq> upper d" using 2(4) by (auto simp: p)
      then show ?thesis using 2(4) 1 by (auto simp: p Inr split: prod.split)
    next
      case 2
      then show ?thesis using \<open>fat_file p es = Some n\<close> by (simp add: Inr)
    next
      case (3 name sub)
      show ?thesis
      proof (cases "upper e = upper d")
        case True
        then have "fat_file q sub = Some n" "\<not> prefix (map upper ds @ us) (map upper q)" using 2(3,4) 3 by (simp_all add: p)
        then have "fat_file q (snd (at_fat_dir ds f sub)) = Some n" using 2(2) [OF Inr 3] 2(5) by blast
        then show ?thesis using True 3 by (auto simp: p Inr split: prod.split)
      next
        case False
        then show ?thesis using 2(4) 3 by (auto simp: p Inr split: prod.split)
      qed
    qed
  qed (use 2(4) in simp)
qed simp

definition put_last :: "string \<Rightarrow> bytes \<Rightarrow> fat_dir \<Rightarrow> (kb_error + unit) \<times> fat_dir" where
  "put_last name data cur =
     (case validate_name name of
        Inl e \<Rightarrow> (Inl e, cur)
      | Inr _ \<Rightarrow> (Inr (), bt_insert (upper name) (name, FFile data) cur))"

lemma insert_file_steps:
  "fat_insert_file path data es =
     (if fat_parts path = [] then (Inl (KbBadName path), es)
      else at_fat_dir (butlast (fat_parts path)) (put_last (last (fat_parts path)) data) es)"
  by (simp add: fat_insert_file_def Let_def put_last_def [abs_def])

lemma insert_well_typed:
  assumes "fat_dir_wf es" and "fat_insert_file path data es = (r, es')"
  shows "fat_dir_wf es' \<and> fat_dir_wf (snd (fat_mkdir path es))"
proof -
  have "fat_dir_wf (snd (put_last name data cur))" if "fat_dir_wf cur" for name cur
    using that fat_dir_wf_insert [OF that, of name "FFile data"] by (auto simp: put_last_def split: sum.split)
  then have "fat_dir_wf (snd (at_fat_dir ds (put_last name data) es))" for ds name by (rule at_fat_dir_wf [OF assms(1)])
  then have "fat_dir_wf (snd (fat_insert_file path data es))" using assms(1) by (simp add: insert_file_steps)
  moreover have "fat_dir_wf (snd (fat_mkdir path es))"
    unfolding fat_mkdir_def by (rule at_fat_dir_wf [OF assms(1)]) simp
  ultimately show ?thesis using assms(2) by simp
qed

lemma insert_finds:
  assumes "fat_insert_file path data es = (r, es')"
  shows "r = Inr () \<longrightarrow> fat_file (fat_parts path) es' = Some (last (fat_parts path), data)"
proof
  let ?l = "last (fat_parts path)"
  assume "r = Inr ()"
  with assms have ne: "fat_parts path \<noteq> []" and at: "at_fat_dir (butlast (fat_parts path)) (put_last ?l data) es = (Inr (), es')"
    by (auto simp: insert_file_steps split: if_splits)
  have "fat_file [?l] cur' = Some (?l, data)" if "put_last ?l data cur = (Inr (), cur')" for cur cur'
    using that by (auto simp: put_last_def split: sum.splits)
  with at_fat_dir_file [OF at, of "[?l]"] ne show "fat_file (fat_parts path) es' = Some (?l, data)" by fastforce
qed

lemma put_last_others:
  "\<not> prefix [upper name] (map upper q) \<Longrightarrow> fat_file q cur = Some n \<Longrightarrow> fat_file q (snd (put_last name data cur)) = Some n"
  by (cases q) (auto simp: put_last_def split: sum.split)

lemma insert_keeps:
  assumes "fat_insert_file path data es = (r, es')"
  shows "fat_file p es \<noteq> None \<and> \<not> prefix (map upper (fat_parts path)) (map upper p) \<longrightarrow> fat_file p es' = fat_file p es"
proof (intro impI, elim conjE)
  assume "fat_file p es \<noteq> None" and no: "\<not> prefix (map upper (fat_parts path)) (map upper p)"
  then obtain n where n: "fat_file p es = Some n" by blast
  have ne: "fat_parts path \<noteq> []" using no by auto
  then have "\<not> prefix (map upper (butlast (fat_parts path)) @ [upper (last (fat_parts path))]) (map upper p)"
    using no by (metis append_butlast_last_id list.simps(8,9) map_append)
  from at_fat_dir_others [OF this n put_last_others]
  have "fat_file p (snd (fat_insert_file path data es)) = Some n" using ne by (simp add: insert_file_steps)
  with assms n show "fat_file p es' = fat_file p es" by simp
qed

lemma mkdir_keeps:
  "fat_file p es \<noteq> None \<and> \<not> prefix (map upper (fat_parts path)) (map upper p) \<longrightarrow>
     fat_file p (snd (fat_mkdir path es)) = fat_file p es"
  using at_fat_dir_others [of "fat_parts path" "[]" p es _ "\<lambda>cur. (Inr (), cur)"] by (auto simp: fat_mkdir_def)

text \<open>C35.  The tree keeps its type: from a tree whose every directory lists valid names under their upper-case
  keys in strictly ascending order, \<open>insert_file\<close> and \<open>mkdir\<close> lead to such a tree again, also when they
  fail half-way and leave what they made.  When \<open>insert_file\<close> succeeds, the path finds a file of exactly
  the given name and bytes, whatever the case of the names on the way; and succeed or fail, every file that
  is not at the given path or below it stays as it was.\<close>

theorem fat_tree_well_typed:
  assumes "fat_dir_wf es" and "fat_insert_file path data es = (r, es')"
  shows "fat_dir_wf es' \<and> fat_dir_wf (snd (fat_mkdir path es))
      \<and> (r = Inr () \<longrightarrow> fat_file (fat_parts path) es' = Some (last (fat_parts path), data))
      \<and> (\<forall>p. fat_file p es \<noteq> None \<and> \<not> prefix (map upper (fat_parts path)) (map upper p) \<longrightarrow>
           fat_file p es' = fat_file p es \<and> fat_file p (snd (fat_mkdir path es)) = fat_file p es)"
  using insert_well_typed [OF assms] insert_finds [OF assms(2)] insert_keeps [OF assms(2)] mkdir_keeps by blast

theorem fat_tree_typed_witness:
  "fat_file (fat_parts ''EFI/BOOT/BOOTX64.EFI'') (snd (fat_insert_file ''EFI/BOOT/BOOTX64.EFI'' [1, 2] []))
    = Some (''BOOTX64.EFI'', [1, 2])"
proof -
  let ?es = "[(''EFI'', ''EFI'', FDir [(''BOOT'', ''BOOT'', FDir [(''BOOTX64.EFI'', ''BOOTX64.EFI'', FFile [1, 2])])])] :: fat_dir"
  have put: "fat_insert_file ''EFI/BOOT/BOOTX64.EFI'' [1, 2] [] = (Inr (), ?es)"
    by (simp add: fat_insert_file_def fat_parts_def validate_name_def demo_names_83 demo_upper Let_def)
  show ?thesis using fat_tree_well_typed [OF fat_dir_wf_Nil put] by (simp add: put fat_parts_def del: fat_file.simps)
qed

end
