(* ===== verification/FatFull.thy ===== *)
theory FatFull
  imports FatTree
begin

section \<open>What fits\<close>

text \<open>
  A volume is written exactly when the tree has room: every chain that is handed out ends inside the volume,
  and a tree that needs more clusters, or more slots of a FAT16 root, than there are makes \<open>format\<close> fail.
\<close>

lemma act_bind_ok: "act_bind m f s = (Inr y, t) \<Longrightarrow> \<exists>x s'. m s = (Inr x, s') \<and> f x s' = (Inr y, t)"
  by (auto simp: act_bind_def split: prod.splits sum.splits)

lemma blit_next: "fst (blit off d b) = Inr () \<Longrightarrow> fb_next (snd (blit off d b)) = fb_next b"
  by (simp add: blit_def split: if_splits)

lemma write_clusters_next: "write_clusters g cs data b = (Inr (), b') \<Longrightarrow> fb_next b' = fb_next b"
proof (induction g cs data arbitrary: b rule: write_clusters.induct)
  case (2 g c cs data)
  then show ?case by (auto simp: blit_def act_ret_def dest!: act_bind_ok split: if_splits)
qed (simp add: act_ret_def)

lemma write_dir_next: "write_dir_bytes g sc buf b = (Inr (), b') \<Longrightarrow> fb_next b' = fb_next b"
  using blit_next [of "root_start g * fat_sector" buf b] by (auto simp: write_dir_bytes_def write_clusters_next split: option.splits)

lemma alloc_chain_next:
  "alloc_chain g n b = (Inr cs, b') \<Longrightarrow> fb_next b' = fb_next b + n \<and> fb_next b' \<le> ge_clusters g + 2"
  by (auto simp: alloc_chain_def Let_def max_cluster_def split: if_splits)

lemma put_file_next:
  "put_file g data b = (Inr first, b') \<Longrightarrow> fb_next b \<le> ge_clusters g + 2 \<Longrightarrow>
    fb_next b' = fb_next b + nat_ceil (length data) (cluster_bytes g) \<and> fb_next b' \<le> ge_clusters g + 2"
  by (auto simp: put_file_def act_ret_def nat_ceil_def dest!: act_bind_ok alloc_chain_next write_clusters_next split: if_splits)

lemma render_next:
  "render_dir g p es sc self parent is_root b = (Inr (), b') \<Longrightarrow> fb_next b \<le> ge_clusters g + 2 \<Longrightarrow>
    fb_next b' = fb_next b + nodes_need g (map (snd \<circ> snd) es) \<and> fb_next b' \<le> ge_clusters g + 2"
  "render_children g p ps dotdot b = (Inr buf, b') \<Longrightarrow> fb_next b \<le> ge_clusters g + 2 \<Longrightarrow>
    fb_next b' = fb_next b + nodes_need g (map (snd \<circ> snd) ps) \<and> fb_next b' \<le> ge_clusters g + 2"
proof (induction g p es sc self parent is_root and g p ps dotdot arbitrary: b b' and b b' buf rule: render_dir_render_children.induct)
  case (1 g p es sc self parent is_root)
  obtain ps where ps: "plan_children es = Some ps"
    using 1(2) by (auto simp: render_dir.simps act_fail_def split: option.splits)
  obtain buf b1 where k: "render_children g p ps (if is_root then 0 else self) b = (Inr buf, b1)"
    "write_dir_bytes g sc (dir_head p self parent is_root @ buf) b1 = (Inr (), b')"
    using 1(2) by (auto simp: render_dir.simps ps dest!: act_bind_ok)
  from 1(1) [OF ps k(1) 1(3)] write_dir_next [OF k(2)] show ?case unfolding plan_children_nodes [OF ps] by (simp add: comp_def)
next
  case (2 g p dotdot)
  then show ?case by (simp add: act_ret_def)
next
  case (3 g p field long data rest dotdot)
  obtain first b1 buf' where k: "put_file g data b = (Inr first, b1)" "render_children g p rest dotdot b1 = (Inr buf', b')"
    using 3(2) by (auto simp: act_ret_def dest!: act_bind_ok)
  from put_file_next [OF k(1) 3(3)] 3(1) [OF k(2)] show ?case by simp
next
  case (4 g p field long sub rest dotdot)
  obtain chain b1 b2 buf' where k: "alloc_chain g (dir_clusters g sub False) b = (Inr chain, b1)"
    "render_dir g p sub (Some chain) (hd chain) dotdot False b1 = (Inr (), b2)"
    "render_children g p rest dotdot b2 = (Inr buf', b')"
    using 4(3) by (auto simp: act_ret_def dest!: act_bind_ok)
  from alloc_chain_next [OF k(1)] 4(1) [OF k(2)] 4(2) [OF k(3)] show ?case by (simp add: node_need_dir comp_def del: node_need.simps(2))
qed

lemma render_root_room: "render_root g p root (blank_volume g) = (Inr (), b) \<Longrightarrow> tree_room g root"
proof -
  assume r: "render_root g p root (blank_volume g) = (Inr (), b)"
  have two: "fb_next (blank_volume g) = 2" by (simp add: blank_volume_def)
  show ?thesis
  proof (cases "ge_type g")
    case Fat16
    with r have "content_slots root True \<le> ge_root_entries g" "render_dir g p root None 0 0 True (blank_volume g) = (Inr (), b)"
      by (auto simp: render_root_def Let_def act_fail_def split: if_splits)
    with render_next(1) [OF this(2)] two show ?thesis by (simp add: tree_room_def Fat16)
  next
    case Fat32
    with r obtain chain b1 where "alloc_chain g (dir_clusters g root True) (blank_volume g) = (Inr chain, b1)"
      "render_dir g p root (Some chain) fat32_root_cluster 0 True b1 = (Inr (), b)"
      by (auto simp: render_root_def dest!: act_bind_ok)
    with render_next(1) [OF this(2)] alloc_chain_next [OF this(1)] two show ?thesis by (simp add: tree_room_def Fat32)
  qed
qed

lemma fat_format_room: "fat_format nbytes root p = Inr img \<Longrightarrow> fat_room nbytes root"
  by (auto simp: fat_format_def fat_room_def fill_volume_front res_bind_Inr_iff dest!: act_bind_ok render_root_room
      split: if_splits prod.splits sum.splits)



end
