(* ===== verification/KeyEsp.thy ===== *)
theory KeyEsp
  imports KeyDisk FatFull
begin

section \<open>The EFI partition of a key\<close>

text \<open>
  \<open>crates/keybuild/src/lib.rs\<close>: what goes into the EFI partition.  The name of the boot loader is read from its
  own header; the tree is built by \<open>insert_file\<close> and written by \<open>fat::format\<close>.
\<close>

definition pe_machine :: "bytes \<Rightarrow> u16 option" where
  "pe_machine bs =
     (if length bs < 0x40 \<or> take 2 bs \<noteq> str_bytes ''MZ'' then None
      else
        let pe_off = unat (from_le (take 4 (drop 0x3C bs)) :: u32);
            sig_end = pe_off + 4
        in if length bs < sig_end + 2 \<or> take 4 (drop pe_off bs) \<noteq> [0x50, 0x45, 0, 0] then None
           else Some (from_le (take 2 (drop sig_end bs))))"

definition removable_efi_name :: "host_files \<Rightarrow> string \<Rightarrow> fat_fault + string" where
  "removable_efi_name h bootloader =
     res_bind (host_read h bootloader) (\<lambda>bs.
       case pe_machine bs of
         None \<Rightarrow> Inl (Fault (KbNotAnEfiBinary bootloader))
       | Some m \<Rightarrow>
           if m = 0x8664 then Inr ''BOOTX64.EFI''
           else if m = 0xAA64 then Inr ''BOOTAA64.EFI''
           else if m = 0x014C then Inr ''BOOTIA32.EFI''
           else if m = 0x01C2 then Inr ''BOOTARM.EFI''
           else if m = 0x5064 then Inr ''BOOTRISCV64.EFI''
           else Inl (Fault (KbUnknownEfiMachine m)))"

type_synonym 'a tree_action = "(fat_dir, fat_fault, 'a) action"

definition put_tree :: "string \<Rightarrow> bytes \<Rightarrow> unit tree_action" where
  "put_tree dest data = act_map_err Fault (fat_insert_file dest data)"

definition insert_host_file :: "host_files \<Rightarrow> string \<Rightarrow> string \<Rightarrow> unit tree_action" where
  "insert_host_file h dest src = act_bind (act_read (\<lambda>_. host_read h src)) (\<lambda>data. put_tree dest data)"

definition insert_efi :: "host_files \<Rightarrow> string \<Rightarrow> unit tree_action" where
  "insert_efi h efi =
     (case file_name efi of
        None \<Rightarrow> act_fail (Fault (KbNotAFile efi))
      | Some name \<Rightarrow> insert_host_file h (''EFI/BOOT/'' @ to_string_lossy name) efi)"

definition populate_esp :: "host_files \<Rightarrow> key_spec \<Rightarrow> string \<Rightarrow> string \<Rightarrow> unit tree_action" where
  "populate_esp h spec kern bootloader =
     (let initramfs = path_join (ks_out spec) initramfs_image in
      act_bind (insert_host_file h esp_kernel kern) (\<lambda>_.
      act_bind (if file_exists h initramfs then act_ret () else act_fail (Fault (KbNoImage initramfs))) (\<lambda>_.
      act_bind (insert_host_file h esp_initrd initramfs) (\<lambda>_.
      act_bind (act_read (\<lambda>_. removable_efi_name h bootloader)) (\<lambda>removable.
      act_bind (insert_host_file h (''EFI/BOOT/'' @ removable) bootloader) (\<lambda>_.
      act_bind (act_map (insert_efi h) (ks_esp_efi spec)) (\<lambda>_.
      act_bind (put_tree ''loader/loader.conf'' (str_bytes (loader_conf spec))) (\<lambda>_.
        put_tree (''loader/entries/'' @ loader_entry_id @ ''.conf'') (str_bytes (loader_entry spec))))))))))"

text \<open>The image that is written; making the output directory and writing the file are not modelled.\<close>

definition build_esp_with :: "ext \<Rightarrow> key_spec \<Rightarrow> fat_dir \<Rightarrow> fat_fault + bytes" where
  "build_esp_with X spec tree =
     fat_format (unat (ks_esp_size_mb spec * 1024 * 1024)) tree (params_for_label (x_sha256 X) esp_label)"

definition build_esp :: "ext \<Rightarrow> host_files \<Rightarrow> key_spec \<Rightarrow> fat_fault + bytes" where
  "build_esp X h spec =
     (case (case (ks_kernel spec, ks_bootloader spec) of
              (Some kern, Some bootloader) \<Rightarrow> populate_esp h spec kern bootloader fat_new
            | (None, None) \<Rightarrow> act_map_err Fault (fat_mkdir ''EFI/BOOT'') fat_new
            | _ \<Rightarrow> (Inl (Fault KbIncompleteEsp), fat_new)) of
        (Inl e, _) \<Rightarrow> Inl e
      | (Inr _, tree) \<Rightarrow> build_esp_with X spec tree)"

subsection \<open>A run of insertions\<close>

fun put_files :: "(string \<times> bytes) list \<Rightarrow> fat_dir \<Rightarrow> fat_dir option" where
  "put_files [] es = Some es"
| "put_files ((p, d) # r) es =
     (case fat_insert_file p d es of (Inl _, _) \<Rightarrow> None | (Inr _, es') \<Rightarrow> put_files r es')"

lemma put_files_append: "put_files (a @ b) es = Option.bind (put_files a es) (put_files b)"
  by (induction a es rule: put_files.induct) (auto split: prod.split sum.split)

lemma put_files_keeps:
  "put_files ins es = Some es' \<Longrightarrow> fat_file p es = Some f \<Longrightarrow>
    list_all (\<lambda>(q, _). \<not> prefix (map upper (fat_parts q)) (map upper p)) ins \<Longrightarrow> fat_file p es' = Some f"
proof (induction ins es rule: put_files.induct)
  case (2 q d r es)
  obtain es1 where es1: "fat_insert_file q d es = (Inr (), es1)" "put_files r es1 = Some es'"
    using 2(2) by (auto split: prod.splits sum.splits)
  have "fat_file p es1 = Some f" using insert_keeps [OF es1(1), of p] 2(3,4) by simp
  with 2(1) [of "Inr ()" es1 "()"] es1 2(4) show ?case by simp
qed simp

lemma put_files_find:
  assumes "put_files (pre @ (p, d) # post) es = Some es'"
    and "list_all (\<lambda>(q, _). \<not> prefix (map upper (fat_parts q)) (map upper (fat_parts p))) post"
  shows "fat_file (fat_parts p) es' = Some (last (fat_parts p), d)"
proof -
  obtain es1 where "put_files ((p, d) # post) es1 = Some es'"
    using assms(1) unfolding put_files_append bind_eq_Some_conv by blast
  then obtain es2 where es: "fat_insert_file p d es1 = (Inr (), es2)" "put_files post es2 = Some es'"
    by (auto split: prod.splits sum.splits)
  from insert_finds [OF es(1)] show ?thesis by (intro put_files_keeps [OF es(2) _ assms(2)]) simp
qed

lemma put_files_wf: "put_files ins es = Some es' \<Longrightarrow> fat_dir_wf es \<Longrightarrow> fat_dir_wf es'"
proof (induction ins es rule: put_files.induct)
  case (2 q d r es)
  obtain es1 where es1: "fat_insert_file q d es = (Inr (), es1)" "put_files r es1 = Some es'"
    using 2(2) by (auto split: prod.splits sum.splits)
  with 2(1) [of "Inr ()" es1 "()"] insert_well_typed [OF 2(3) es1(1)] show ?case by simp
qed simp

subsection \<open>How large the tree gets\<close>

fun fat_bound :: "nat \<Rightarrow> fat_node \<Rightarrow> bool" where
  "fat_bound k (FFile data) \<longleftrightarrow> length data < 2 ^ 32"
| "fat_bound k (FDir es) \<longleftrightarrow> length es \<le> k \<and> (\<forall>(_, _, n) \<in> set es. fat_bound k n)"

declare fat_bound.simps(2) [simp del]

lemma fat_bound_Suc: "fat_bound k n \<Longrightarrow> fat_bound (Suc k) n"
  by (induction k n rule: fat_bound.induct) (fastforce simp: fat_bound.simps(2))+

lemma length_bt_insert: "length (bt_insert k v m) \<le> Suc (length m)"
  by (induction k v m rule: bt_insert.induct) auto

lemma fat_bound_insert:
  assumes "fat_bound k (FDir es)" and "fat_bound (Suc k) n"
  shows "fat_bound (Suc k) (FDir (bt_insert key (name, n) es))"
  using assms length_bt_insert [of key "(name, n)" es] set_bt_insert [of key "(name, n)" es] fat_bound_Suc
  by (fastforce simp: fat_bound.simps(2))

lemma fat_bound_lookup: "fat_bound k (FDir es) \<Longrightarrow> map_of es key = Some (name, n) \<Longrightarrow> fat_bound k n"
  by (auto simp: fat_bound.simps(2) dest!: map_of_SomeD)

lemma at_fat_dir_bound:
  "fat_bound k (FDir es) \<Longrightarrow> (\<And>cur. fat_bound k (FDir cur) \<Longrightarrow> fat_bound (Suc k) (FDir (snd (f cur)))) \<Longrightarrow>
    fat_bound (Suc k) (FDir (snd (at_fat_dir ds f es)))"
proof (induction ds f es rule: at_fat_dir.induct)
  case (2 d ds f es)
  show ?case
  proof (cases "validate_name d")
    case (Inr u)
    consider "map_of es (upper d) = None" | name data where "map_of es (upper d) = Some (name, FFile data)"
      | name sub where "map_of es (upper d) = Some (name, FDir sub)"
      by (metis fat_node.exhaust option.exhaust surj_pair)
    then show ?thesis
    proof cases
      case 1
      have "fat_bound (Suc k) (FDir (snd (at_fat_dir ds f [])))" using 2(1) [OF Inr 1 _ 2(4)] by (simp add: fat_bound.simps(2))
      from fat_bound_insert [OF 2(3) this] show ?thesis by (auto simp: Inr 1 split: prod.split)
    next
      case 2
      then show ?thesis using \<open>fat_bound k (FDir es)\<close> by (simp add: Inr fat_bound_Suc)
    next
      case (3 name sub)
      have "fat_bound (Suc k) (FDir (snd (at_fat_dir ds f sub)))"
        using 2(2) [OF Inr 3 refl refl fat_bound_lookup [OF 2(3) 3] 2(4)] by simp
      from fat_bound_insert [OF 2(3) this] show ?thesis by (auto simp: Inr 3 split: prod.split)
    qed
  qed (use 2(3) in \<open>simp add: fat_bound_Suc\<close>)
qed simp

lemma put_files_bound:
  "put_files ins es = Some es' \<Longrightarrow> fat_bound k (FDir es) \<Longrightarrow> list_all (\<lambda>(_, d). length d < 2 ^ 32) ins \<Longrightarrow>
    fat_bound (k + length ins) (FDir es')"
proof (induction ins es arbitrary: k rule: put_files.induct)
  case (2 q d r es)
  obtain es1 where es1: "fat_insert_file q d es = (Inr (), es1)" "put_files r es1 = Some es'"
    using 2(2) by (auto split: prod.splits sum.splits)
  have "fat_bound (Suc k) (FDir (snd (put_last name d cur)))" if "fat_bound k (FDir cur)" for name cur
    using that fat_bound_insert [OF that, of "FFile d"] 2(4) by (auto simp: put_last_def fat_bound_Suc split: sum.split)
  then have "fat_bound (Suc k) (FDir (snd (fat_insert_file q d es)))"
    using at_fat_dir_bound [OF 2(3)] 2(3) by (simp add: insert_file_steps fat_bound_Suc)
  then have "fat_bound (Suc k) (FDir es1)" by (simp add: es1)
  with 2(1) [of "Inr ()" es1 "()" "Suc k"] es1 2(4) show ?case by simp
qed simp

lemma bound_fits_node: "fat_node_wf n \<Longrightarrow> fat_bound k n \<Longrightarrow> k < 65536 \<Longrightarrow> fat_node_fits n"
proof (induction n rule: fat_node_fits.induct)
  case (2 es)
  then show ?case by (fastforce simp: fat_node_wf.simps(2) fat_bound.simps(2))
qed simp

lemma bound_fits: "fat_dir_wf es \<Longrightarrow> fat_bound k (FDir es) \<Longrightarrow> k < 65536 \<Longrightarrow> fat_tree_fits es"
  using bound_fits_node [of "FDir es" k] by (simp add: fat_tree_fits_def)

subsection \<open>Files of the tree and of the volume\<close>

text \<open>The driver finds a file by the labels of its directories and its own.\<close>

fun items_at :: "fat_label list \<Rightarrow> (fat_label \<times> fat_item) list \<Rightarrow> bytes \<Rightarrow> bool" where
  "items_at [] items data \<longleftrightarrow> False"
| "items_at [l] items data \<longleftrightarrow> (l, ItFile data) \<in> set items"
| "items_at (l # ls) items data \<longleftrightarrow> (\<exists>sub. (l, ItDir sub) \<in> set items \<and> items_at ls sub data)"

lemma name_label_upper:
  assumes "upper a = upper b" and "fits_83 b \<noteq> None"
  shows "name_label a = name_label b"
proof -
  have "canon_83 a = canon_83 b \<or> (\<exists>e. canon_83 b = Inl e)"
    using assms(1) by (auto simp: canon_83_def Let_def split: option.splits prod.splits)
  then have "fits_83 a = fits_83 b" using assms(2) by (auto simp: fits_83_def)
  with assms(2) show ?thesis by (auto simp: name_label_def split: option.split)
qed

lemma fat_file_items:
  "fat_dir_wf es \<Longrightarrow> fat_file ps es = Some (nm, data) \<Longrightarrow> list_all (\<lambda>d. fits_83 d \<noteq> None) (butlast ps) \<Longrightarrow>
    items_at (map name_label (butlast ps) @ [name_label nm]) (tree_items es) data"
proof (induction ps es rule: fat_file.induct)
  case (2 d ds es)
  obtain name n where l: "map_of es (upper d) = Some (name, n)" using 2(3) by (auto split: option.splits)
  note w = fat_dir_wf_lookup [OF 2(2) l]
  have "(upper d, name, n) \<in> set es" by (rule map_of_SomeD [OF l])
  then have mem: "(name_label name, node_item n) \<in> set (tree_items es)" by (force simp: tree_items_def)
  show ?case
  proof (cases n)
    case (FFile x)
    with 2(3) l mem show ?thesis by (auto split: if_splits)
  next
    case (FDir sub)
    then have f: "fat_file ds sub = Some (nm, data)" using 2(3) l by simp
    then have ne: "ds \<noteq> []" by auto
    then have "fits_83 d \<noteq> None" "list_all (\<lambda>d. fits_83 d \<noteq> None) (butlast ds)" using 2(4) by simp_all
    with w have lb: "name_label name = name_label d" by (intro name_label_upper) simp_all
    have "items_at (map name_label (butlast ds) @ [name_label nm]) (tree_items sub) data"
      using 2(1) [OF l refl FDir _ f] w FDir \<open>list_all _ (butlast ds)\<close> by simp
    moreover have "(name_label d, ItDir (tree_items sub)) \<in> set (tree_items es)" using mem lb FDir by (simp add: tree_items_def)
    ultimately show ?thesis using ne by (cases "butlast ds") auto
  qed
qed simp

subsection \<open>What the EFI partition carries\<close>

lemma seg_no_slash: "s \<in> set (split_on d q) \<Longrightarrow> d \<notin> set s"
proof (induction q arbitrary: s)
  case (Cons c q)
  show ?case
  proof (cases "split_on d q")
    case (Cons x xs)
    with Cons.prems Cons.IH [of x] Cons.IH [of s] show ?thesis by (auto split: if_splits)
  qed simp
qed simp

lemma seg_comp_normal: "Normal n \<in> set (seg_comp s) \<longleftrightarrow> n = s \<and> s \<noteq> [] \<and> s \<noteq> ''.'' \<and> s \<noteq> ''..''"
  by (auto simp: seg_comp_def)

lemma normal_seg: "Normal n \<in> set (path_components q) \<Longrightarrow> n \<noteq> [] \<and> n \<in> set (split_on CHR ''/'' q)"
  by (cases "split_on CHR ''/'' q") (auto simp: path_components_def seg_comp_normal split: if_splits)

lemma file_name_seg: "file_name p = Some n \<Longrightarrow> CHR ''/'' \<notin> set n \<and> n \<noteq> []"
proof -
  assume f: "file_name p = Some n"
  show ?thesis
  proof (cases "path_components p")
    case (Cons c cs)
    with f have "last (c # cs) = Normal n" by (simp add: file_name_def split: path_comp.splits del: last.simps)
    then have "Normal n \<in> set (path_components p)" using Cons last_in_set [of "c # cs"] by (simp del: last.simps)
    then show ?thesis using normal_seg seg_no_slash by blast
  qed (use f in \<open>simp add: file_name_def\<close>)
qed

lemma efi_parts: "CHR ''/'' \<notin> set n \<Longrightarrow> n \<noteq> [] \<Longrightarrow> fat_parts (''EFI/BOOT/'' @ n) = [''EFI'', ''BOOT'', n]"
  by (simp add: fat_parts_def split_on_single)

definition efi_name_ok :: "string \<Rightarrow> string \<Rightarrow> bool" where
  "efi_name_ok removable efi \<longleftrightarrow> (\<exists>n. file_name efi = Some n \<and> utf8_str n \<and> upper n \<noteq> upper removable)"

lemma put_tree_step: "put_tree p d es = (Inr (), es') \<longleftrightarrow> put_files [(p, d)] es = Some es'"
  by (auto simp: put_tree_def act_map_err_def split: prod.splits sum.splits)

lemma insert_host_step:
  "insert_host_file h p src es = (Inr (), es') \<longleftrightarrow> (\<exists>d. h src = Some (Inr d) \<and> put_files [(p, d)] es = Some es')"
  by (auto simp: insert_host_file_def act_bind_def host_read_def put_tree_step split: option.splits sum.splits)

lemma machine_names:
  "(if m = (0x8664 :: u16) then Inr a else if m = 0xAA64 then Inr b else if m = 0x014C then Inr c
     else if m = 0x01C2 then Inr d else if m = 0x5064 then Inr e else Inl x) = Inr r \<Longrightarrow> r \<in> {a, b, c, d, e}"
  by (cases "m = 0x8664"; cases "m = 0xAA64"; cases "m = 0x014C"; cases "m = 0x01C2"; cases "m = 0x5064") simp_all

lemma removable_cases:
  assumes "removable_efi_name h b = Inr r"
  shows "r \<in> {''BOOTX64.EFI'', ''BOOTAA64.EFI'', ''BOOTIA32.EFI'', ''BOOTARM.EFI'', ''BOOTRISCV64.EFI''}"
proof -
  obtain bs where bs: "(case pe_machine bs of None \<Rightarrow> Inl (Fault (KbNotAnEfiBinary b)) | Some m \<Rightarrow> 
           if m = 0x8664 then Inr ''BOOTX64.EFI''
           else if m = 0xAA64 then Inr ''BOOTAA64.EFI''
           else if m = 0x014C then Inr ''BOOTIA32.EFI''
           else if m = 0x01C2 then Inr ''BOOTARM.EFI''
           else if m = 0x5064 then Inr ''BOOTRISCV64.EFI''
           else Inl (Fault (KbUnknownEfiMachine m))) = Inr r"
    using assms unfolding removable_efi_name_def res_bind_Inr_iff by blast
  show ?thesis
  proof (cases "pe_machine bs")
    case (Some m)
    from bs show ?thesis unfolding Some option.case by (rule machine_names)
  next
    case None
    from bs show ?thesis unfolding None option.case by (rule Inl_Inr_False [THEN iffD1, THEN FalseE])
  qed
qed

lemma removable_no_slash: "removable_efi_name h b = Inr r \<Longrightarrow> CHR ''/'' \<notin> set r \<and> r \<noteq> []"
  by (drule removable_cases, elim insertE emptyE) simp_all

lemma removable_parts: "removable_efi_name h b = Inr r \<Longrightarrow> fat_parts (''EFI/BOOT/'' @ r) = [''EFI'', ''BOOT'', r]"
  using removable_no_slash by (intro efi_parts) blast+

lemma put_files_cons: "put_files [x] es = Some es1 \<Longrightarrow> put_files (x # r) es = put_files r es1"
  using put_files_append [of "[x]" r es] by simp

text \<open>The files of the boot, in the order they are written.\<close>

definition boot_ins :: "host_files \<Rightarrow> key_spec \<Rightarrow> string \<Rightarrow> string \<Rightarrow> string \<Rightarrow> (string \<times> bytes) list" where
  "boot_ins h spec kern bl removable =
     [(esp_kernel, file_bytes h kern), (esp_initrd, file_bytes h (path_join (ks_out spec) initramfs_image)),
      (''EFI/BOOT/'' @ removable, file_bytes h bl)]"

definition loader_ins :: "key_spec \<Rightarrow> (string \<times> bytes) list" where
  "loader_ins spec =
     [(''loader/loader.conf'', str_bytes (loader_conf spec)),
      (''loader/entries/'' @ loader_entry_id @ ''.conf'', str_bytes (loader_entry spec))]"

definition extra_efi :: "host_files \<Rightarrow> string list \<Rightarrow> string \<Rightarrow> string \<times> bytes \<Rightarrow> bool" where
  "extra_efi h efis removable x \<longleftrightarrow>
     (\<exists>n. fat_parts (fst x) = [''EFI'', ''BOOT'', n] \<and> upper n \<noteq> upper removable) \<and> snd x \<in> file_bytes h ` set efis"

lemma insert_efi_run:
  assumes "insert_efi h e es = (Inr (), es1)" and "efi_name_ok removable e"
  shows "\<exists>p. put_files [(p, file_bytes h e)] es = Some es1 \<and> extra_efi h (e # efis) removable (p, file_bytes h e)"
proof -
  obtain n where n: "file_name e = Some n" "utf8_str n" "upper n \<noteq> upper removable" using assms(2) by (auto simp: efi_name_ok_def)
  define p where "p = ''EFI/BOOT/'' @ n"
  have "insert_host_file h p e es = (Inr (), es1)"
    using assms(1) unfolding insert_efi_def n(1) option.case to_string_lossy_id [OF n(2)] p_def .
  then obtain d where d: "h e = Some (Inr d)" "put_files [(p, d)] es = Some es1"
    unfolding insert_host_step by blast
  have fb: "file_bytes h e = d" using d(1) by (simp add: file_bytes_def)
  have "fat_parts p = [''EFI'', ''BOOT'', n]" unfolding p_def using file_name_seg [OF n(1)] by (intro efi_parts) auto
  with n(3) have "extra_efi h (e # efis) removable (p, d)" unfolding extra_efi_def fst_conv snd_conv fb [symmetric] by auto
  with d(2) show ?thesis unfolding fb by blast
qed

lemma extra_efi_Cons: "extra_efi h efis removable x \<Longrightarrow> extra_efi h (e # efis) removable x"
  by (simp add: extra_efi_def)

lemma insert_efis_run:
  "act_map (insert_efi h) efis es = (Inr xs, es') \<Longrightarrow> list_all (efi_name_ok removable) efis \<Longrightarrow>
    \<exists>ins. put_files ins es = Some es' \<and> length ins = length efis \<and> list_all (extra_efi h efis removable) ins"
proof (induction efis arbitrary: es xs)
  case (Cons e efis)
  obtain es1 ys where s: "insert_efi h e es = (Inr (), es1)" "act_map (insert_efi h) efis es1 = (Inr ys, es')"
    using Cons.prems(1) by (auto split: prod.splits sum.splits)
  obtain p where p: "put_files [(p, file_bytes h e)] es = Some es1" "extra_efi h (e # efis) removable (p, file_bytes h e)"
    using insert_efi_run [OF s(1)] Cons.prems(2) by fastforce
  obtain ins where ins: "put_files ins es1 = Some es'" "length ins = length efis" "list_all (extra_efi h efis removable) ins"
    using Cons.IH [OF s(2)] Cons.prems(2) by auto
  have "put_files ((p, file_bytes h e) # ins) es = Some es'" using put_files_cons [OF p(1)] ins(1) by simp
  moreover have "list_all (extra_efi h (e # efis) removable) ((p, file_bytes h e) # ins)"
    using p(2) ins(3) extra_efi_Cons by (auto simp: list_all_iff)
  ultimately show ?case using ins(2) by (metis length_Cons)
qed simp

lemma populate_run:
  assumes "populate_esp h spec kern bl es0 = (Inr (), es)" and "removable_efi_name h bl = Inr removable"
    and "list_all (efi_name_ok removable) (ks_esp_efi spec)"
  shows "\<exists>efis. put_files (boot_ins h spec kern bl removable @ efis @ loader_ins spec) es0 = Some es
    \<and> length efis = length (ks_esp_efi spec) \<and> list_all (extra_efi h (ks_esp_efi spec) removable) efis"
proof -
  let ?i = "path_join (ks_out spec) initramfs_image"
  obtain es1 es2 es3 es4 es5 ys where s: "insert_host_file h esp_kernel kern es0 = (Inr (), es1)"
      "insert_host_file h esp_initrd ?i es1 = (Inr (), es2)"
      "insert_host_file h (''EFI/BOOT/'' @ removable) bl es2 = (Inr (), es3)"
      "act_map (insert_efi h) (ks_esp_efi spec) es3 = (Inr ys, es4)"
      "put_tree ''loader/loader.conf'' (str_bytes (loader_conf spec)) es4 = (Inr (), es5)"
      "put_tree (''loader/entries/'' @ loader_entry_id @ ''.conf'') (str_bytes (loader_entry spec)) es5 = (Inr (), es)"
    using assms(1) by (auto simp: populate_esp_def Let_def act_ret_def act_fail_def assms(2) dest!: act_bind_ok split: if_splits)
  obtain efis where e: "put_files efis es3 = Some es4" "length efis = length (ks_esp_efi spec)"
      "list_all (extra_efi h (ks_esp_efi spec) removable) efis"
    using insert_efis_run [OF s(4) assms(3)] by blast
  have f: "put_files [(esp_kernel, file_bytes h kern)] es0 = Some es1" "put_files [(esp_initrd, file_bytes h ?i)] es1 = Some es2"
      "put_files [(''EFI/BOOT/'' @ removable, file_bytes h bl)] es2 = Some es3"
    using s(1-3) by (auto simp: insert_host_step file_bytes_def)
  have "put_files (boot_ins h spec kern bl removable) es0 = Some es3"
    by (simp only: boot_ins_def put_files_cons [OF f(1)] put_files_cons [OF f(2)] f(3))
  moreover have "put_files (loader_ins spec) es4 = Some es"
    using s(5,6) by (simp only: loader_ins_def put_tree_step put_files_cons)
  ultimately show ?thesis using e by (intro exI [of _ efis]) (simp add: put_files_append)
qed

lemma esp_paths:
  "fat_parts esp_kernel = [''VMLINUZ'']" "fat_parts esp_initrd = [''INITRD.IMG'']"
  "fat_parts ''loader/loader.conf'' = [''loader'', ''loader.conf'']"
  "fat_parts (''loader/entries/'' @ loader_entry_id @ ''.conf'') = [''loader'', ''entries'', ''horizon.conf'']"
  by (simp_all add: fat_parts_def esp_kernel_def esp_initrd_def loader_entry_id_def)

lemma esp_upper:
  "upper ''VMLINUZ'' = ''VMLINUZ''" "upper ''INITRD.IMG'' = ''INITRD.IMG''" "upper ''loader.conf'' = ''LOADER.CONF''"
  "upper ''horizon.conf'' = ''HORIZON.CONF''"
  by (simp_all add: upper_def ascii_upper_eq)

lemma esp_params_ok: "fat_params_ok (params_for_label H esp_label)"
  by (simp add: fat_params_ok_def esp_label_def params_for_label_def label_field_def space_pad_def upper_def ascii_upper_def str_bytes_def Let_def)

definition esp_has :: "nat \<Rightarrow> bytes \<Rightarrow> string list \<Rightarrow> bytes \<Rightarrow> bool" where
  "esp_has fuel img names data \<longleftrightarrow> items_at (map name_label names) (read_volume fuel img) data"

lemma fat_file_has:
  assumes "fat_dir_wf es" and "fat_file ps es = Some (last ps, data)" and "list_all (\<lambda>d. fits_83 d \<noteq> None) (butlast ps)"
  shows "items_at (map name_label ps) (tree_items es) data"
proof -
  have "ps \<noteq> []" using assms(2) by auto
  then have "map name_label ps = map name_label (butlast ps) @ [name_label (last ps)]"
    by (metis append_butlast_last_id map_append list.map(1,2))
  with fat_file_items [OF assms] show ?thesis by simp
qed

definition esp_inputs_fit :: "host_files \<Rightarrow> key_spec \<Rightarrow> string \<Rightarrow> string \<Rightarrow> bool" where
  "esp_inputs_fit h spec kern bl \<longleftrightarrow>
     list_all (\<lambda>p. length (file_bytes h p) < 2 ^ 32) (kern # path_join (ks_out spec) initramfs_image # bl # ks_esp_efi spec)
     \<and> length (loader_conf spec) < 2 ^ 32 \<and> length (loader_entry spec) < 2 ^ 32 \<and> length (ks_esp_efi spec) \<le> 60000"

lemma found_at:
  "put_files (pre @ (p, d) # post) es0 = Some es \<Longrightarrow> fat_parts p = ps \<Longrightarrow>
    list_all (\<lambda>(q, _). \<not> prefix (map upper (fat_parts q)) (map upper ps)) post \<Longrightarrow> fat_file ps es = Some (last ps, d)"
  using put_files_find by blast

lemma boot_files_found:
  assumes run: "put_files (boot_ins h spec kern bl removable @ efis @ loader_ins spec) es0 = Some es"
    and e: "list_all (extra_efi h srcs removable) efis" and r: "removable_efi_name h bl = Inr removable"
  shows "fat_file [''VMLINUZ''] es = Some (''VMLINUZ'', file_bytes h kern)"
    "fat_file [''INITRD.IMG''] es = Some (''INITRD.IMG'', file_bytes h (path_join (ks_out spec) initramfs_image))"
    "fat_file [''EFI'', ''BOOT'', removable] es = Some (removable, file_bytes h bl)"
    "fat_file [''loader'', ''loader.conf''] es = Some (''loader.conf'', str_bytes (loader_conf spec))"
    "fat_file [''loader'', ''entries'', ''horizon.conf''] es = Some (''horizon.conf'', str_bytes (loader_entry spec))"
proof -
  define i where "i = (esp_initrd, file_bytes h (path_join (ks_out spec) initramfs_image))"
  define b where "b = (''EFI/BOOT/'' @ removable, file_bytes h bl)"
  define c where "c = (''loader/loader.conf'', str_bytes (loader_conf spec))"
  define l where "l = (''loader/entries/'' @ loader_entry_id @ ''.conf'', str_bytes (loader_entry spec))"
  define k where "k = (esp_kernel, file_bytes h kern)"
  have run: "put_files (k # i # b # efis @ [c, l]) es0 = Some es"
    using run by (simp only: boot_ins_def loader_ins_def k_def i_def b_def c_def l_def append.simps)
  have away: "list_all (\<lambda>(q, _). \<not> prefix (map upper (fat_parts q)) (map upper p)) efis"
    if "p = [n] \<or> p = [''EFI'', ''BOOT'', removable]" for p n
    by (rule list.pred_mono_strong [OF e]) (use that in \<open>auto simp: extra_efi_def\<close>)
  note parts = esp_paths(1-3) esp_paths(4) [simplified] removable_parts [OF r, simplified] esp_upper demo_upper
  have "fat_file [''VMLINUZ''] es = Some (last [''VMLINUZ''], file_bytes h kern)"
  proof (rule found_at)
    show "put_files ([] @ (esp_kernel, file_bytes h kern) # (i # b # efis @ [c, l])) es0 = Some es" using run by (simp only: k_def append.simps append_assoc)
  qed (use away [of "[''VMLINUZ'']"] in \<open>simp_all add: i_def b_def c_def l_def parts\<close>)
  then show "fat_file [''VMLINUZ''] es = Some (''VMLINUZ'', file_bytes h kern)" by (simp del: fat_file.simps)
  have "fat_file [''INITRD.IMG''] es = Some (last [''INITRD.IMG''], file_bytes h (path_join (ks_out spec) initramfs_image))"
  proof (rule found_at)
    show "put_files ([k] @ (esp_initrd, file_bytes h (path_join (ks_out spec) initramfs_image)) # (b # efis @ [c, l])) es0 = Some es" using run by (simp only: i_def append.simps append_assoc)
  qed (use away [of "[''INITRD.IMG'']"] in \<open>simp_all add: i_def b_def c_def l_def parts\<close>)
  then show "fat_file [''INITRD.IMG''] es = Some (''INITRD.IMG'', file_bytes h (path_join (ks_out spec) initramfs_image))" by (simp del: fat_file.simps)
  have "fat_file [''EFI'', ''BOOT'', removable] es = Some (last [''EFI'', ''BOOT'', removable], file_bytes h bl)"
  proof (rule found_at)
    show "put_files ([k, i] @ (''EFI/BOOT/'' @ removable, file_bytes h bl) # (efis @ [c, l])) es0 = Some es" using run by (simp only: b_def append.simps append_assoc)
  qed (use away [of "[''EFI'', ''BOOT'', removable]"] in \<open>simp_all add: i_def b_def c_def l_def parts\<close>)
  then show "fat_file [''EFI'', ''BOOT'', removable] es = Some (removable, file_bytes h bl)" by (simp del: fat_file.simps)
  have "fat_file [''loader'', ''loader.conf''] es = Some (last [''loader'', ''loader.conf''], str_bytes (loader_conf spec))"
  proof (rule found_at)
    show "put_files ((k # i # b # efis) @ (''loader/loader.conf'', str_bytes (loader_conf spec)) # [l]) es0 = Some es" using run by (simp only: c_def append.simps append_assoc)
  qed (use away [of "[''loader'', ''loader.conf'']"] in \<open>simp_all add: i_def b_def c_def l_def parts\<close>)
  then show "fat_file [''loader'', ''loader.conf''] es = Some (''loader.conf'', str_bytes (loader_conf spec))" by (simp del: fat_file.simps)
  have "fat_file [''loader'', ''entries'', ''horizon.conf''] es = Some (last [''loader'', ''entries'', ''horizon.conf''], str_bytes (loader_entry spec))"
  proof (rule found_at)
    show "put_files ((k # i # b # efis @ [c]) @ (''loader/entries/'' @ loader_entry_id @ ''.conf'', str_bytes (loader_entry spec)) # []) es0 = Some es" using run by (simp only: l_def append.simps append_assoc)
  qed (use away [of "[''loader'', ''entries'', ''horizon.conf'']"] in \<open>simp_all add: i_def b_def c_def l_def parts\<close>)
  then show "fat_file [''loader'', ''entries'', ''horizon.conf''] es = Some (''horizon.conf'', str_bytes (loader_entry spec))" by (simp del: fat_file.simps)
qed

lemma format_reads:
  assumes "fat_format (m * 2 ^ 20) root p = Inr img" and "3 \<le> m" and "m \<le> 2 ^ 19" and "fat_params_ok p" and "fat_tree_fits root"
  shows "length img = m * 2 ^ 20 \<and> (\<exists>n. \<forall>d. read_volume (n + d) img = tree_items root)"
proof -
  obtain img' where img': "fat_format (m * 2 ^ 20) root p = Inr img'" "length img' = m * 2 ^ 20"
      "\<forall>d. read_volume (nodes_weight (map (snd \<circ> snd) root) + 1 + d) img' = tree_items root"
    using fat_volume_reads [OF assms(2-5) fat_format_room [OF assms(1)]] by blast
  moreover have "img' = img" using img'(1) assms(1) by simp
  ultimately show ?thesis by blast
qed

lemma boot_tree_ok:
  assumes run: "put_files (boot_ins h spec kern bl removable @ efis @ loader_ins spec) [] = Some es"
    and e: "list_all (extra_efi h (ks_esp_efi spec) removable) efis" and fit: "esp_inputs_fit h spec kern bl"
    and len: "length efis = length (ks_esp_efi spec)"
  shows "fat_dir_wf es" and "fat_tree_fits es"
proof -
  show w: "fat_dir_wf es" using put_files_wf [OF run] by simp
  have efi: "list_all (\<lambda>(_, d). length d < 2 ^ 32) efis"
    by (rule list.pred_mono_strong [OF e]) (use fit in \<open>auto simp: extra_efi_def esp_inputs_fit_def list_all_iff\<close>)
  let ?ins = "boot_ins h spec kern bl removable @ efis @ loader_ins spec"
  have "list_all (\<lambda>(_, d). length d < 2 ^ 32) ?ins"
    using fit efi by (simp add: boot_ins_def loader_ins_def esp_inputs_fit_def)
  from put_files_bound [OF run _ this, of 0] have "fat_bound (length ?ins) (FDir es)" by (simp add: fat_bound.simps(2))
  moreover have "length ?ins < 65536" using fit len by (simp add: boot_ins_def loader_ins_def esp_inputs_fit_def)
  ultimately show "fat_tree_fits es" using bound_fits [OF w] by blast
qed

text \<open>C30.  The EFI partition of a key carries its boot: when \<open>build_esp\<close> returns an image for a specification
  with a kernel and a boot loader (3 MiB to 512 GiB, files below 4 GiB, at most 60000 extra EFI programs, none
  of which has the boot loader's own name), the image has exactly the size asked for, and the reader of a
  FAT driver finds in it, byte for byte, the kernel at \<open>/VMLINUZ\<close>, the initramfs at \<open>/INITRD.IMG\<close>, the
  boot loader at \<open>/EFI/BOOT/BOOT<arch>.EFI\<close>, the name being the one its own PE machine type gives, and the
  two configuration files of the loader, whose entry names these two paths and carries the command line.
  No later insertion replaces any of them.\<close>

theorem esp_carries_the_boot:
  assumes "ks_kernel spec = Some kern" and "ks_bootloader spec = Some bl" and "build_esp X h spec = Inr img"
    and "3 \<le> unat (ks_esp_size_mb spec)" and "unat (ks_esp_size_mb spec) \<le> 2 ^ 19" and "esp_inputs_fit h spec kern bl"
    and "removable_efi_name h bl = Inr removable" and "list_all (efi_name_ok removable) (ks_esp_efi spec)"
  shows "length img = unat (ks_esp_size_mb spec) * 2 ^ 20
    \<and> (\<exists>n. \<forall>d. esp_has (n + d) img [''VMLINUZ''] (file_bytes h kern)
        \<and> esp_has (n + d) img [''INITRD.IMG''] (file_bytes h (path_join (ks_out spec) initramfs_image))
        \<and> esp_has (n + d) img [''EFI'', ''BOOT'', removable] (file_bytes h bl)
        \<and> esp_has (n + d) img [''loader'', ''loader.conf''] (str_bytes (loader_conf spec))
        \<and> esp_has (n + d) img [''loader'', ''entries'', ''horizon.conf''] (str_bytes (loader_entry spec)))"
proof -
  obtain es where pop: "populate_esp h spec kern bl fat_new = (Inr (), es)" and fmt: "build_esp_with X spec es = Inr img"
    using assms(1-3) by (auto simp: build_esp_def split: prod.splits sum.splits)
  obtain efis where run: "put_files (boot_ins h spec kern bl removable @ efis @ loader_ins spec) [] = Some es"
    and e: "length efis = length (ks_esp_efi spec)" "list_all (extra_efi h (ks_esp_efi spec) removable) efis"
    using populate_run [OF pop assms(7,8)] by (auto simp: fat_new_def)
  note tree = boot_tree_ok [OF run e(2) assms(6) e(1)]
  have "unat (ks_esp_size_mb spec * 1024 * 1024) = unat (ks_esp_size_mb spec) * 2 ^ 20"
    using assms(5) by (simp add: unat_word_ariths mult.assoc)
  then have "fat_format (unat (ks_esp_size_mb spec) * 2 ^ 20) es (params_for_label (x_sha256 X) esp_label) = Inr img"
    using fmt by (simp add: build_esp_with_def)
  from format_reads [OF this assms(4,5) esp_params_ok tree(2)] obtain n where
    n: "length img = unat (ks_esp_size_mb spec) * 2 ^ 20" "\<And>d. read_volume (n + d) img = tree_items es" by blast
  note found = boot_files_found [OF run e(2) assms(7)]
  have has: "esp_has (n + d) img ps data"
    if "fat_file ps es = Some (last ps, data)" "list_all (\<lambda>d. fits_83 d \<noteq> None) (butlast ps)" for d ps data
    unfolding esp_has_def n(2) by (rule fat_file_has [OF tree(1) that])
  show ?thesis
    using n(1) has [of "[''VMLINUZ'']"] has [of "[''INITRD.IMG'']"] has [of "[''EFI'', ''BOOT'', removable]"]
      has [of "[''loader'', ''loader.conf'']"] has [of "[''loader'', ''entries'', ''horizon.conf'']"] found
    by (intro conjI exI [of _ n] allI) (simp_all add: demo_names_83 del: fat_file.simps)
qed

definition demo_pe :: bytes where
  "demo_pe = str_bytes ''MZ'' @ replicate 58 0 @ [0x40, 0, 0, 0] @ [0x50, 0x45, 0, 0] @ [0x64, 0x86]"

definition demo_boot_key :: key_spec where
  "demo_boot_key = demo_key\<lparr>ks_kernel := Some ''linux'', ks_bootloader := Some ''sd-boot'', ks_esp_efi := [''efi/mmx64.efi''], ks_esp_size_mb := 4\<rparr>"

definition demo_boot_files :: host_files where
  "demo_boot_files = map_of [(''linux'', Inr [1, 2, 3]), (''out/initramfs.img'', Inr [4]), (''sd-boot'', Inr demo_pe), (''efi/mmx64.efi'', Inr [5])]"

lemma demo_boot_simps:
  "ks_kernel demo_boot_key = Some ''linux''" "ks_bootloader demo_boot_key = Some ''sd-boot''" "ks_esp_efi demo_boot_key = [''efi/mmx64.efi'']"
  "ks_esp_size_mb demo_boot_key = 4" "ks_out demo_boot_key = ''out''" "ks_base_label demo_boot_key = base_label"
  "ks_data_label demo_boot_key = data_label" "ks_basefs demo_boot_key = ''squashfs''" "ks_datafs demo_boot_key = ''ext4''"
  "ks_mode demo_boot_key = ChooseAuto" "ks_verity_root demo_boot_key = None" "ks_cmdline_extra demo_boot_key = []"
  "ks_loader_timeout demo_boot_key = 3"
  by (simp_all add: demo_boot_key_def demo_key_def key_spec_new_def)

lemma demo_boot_host:
  "demo_boot_files ''linux'' = Some (Inr [1, 2, 3])" "demo_boot_files ''out/initramfs.img'' = Some (Inr [4])"
  "demo_boot_files ''sd-boot'' = Some (Inr demo_pe)" "demo_boot_files ''efi/mmx64.efi'' = Some (Inr [5])"
  "path_join ''out'' initramfs_image = ''out/initramfs.img''"
  by (simp_all add: demo_boot_files_def path_join_def path_is_absolute_def initramfs_image_def)

lemma demo_pe_machine: "length demo_pe = 70" "pe_machine demo_pe = Some 0x8664"
proof -
  show "length demo_pe = 70" by (simp add: demo_pe_def str_bytes_def)
  have "drop 64 demo_pe = [0x50, 0x45, 0, 0, 0x64, 0x86]" "take 4 (drop 60 demo_pe) = [0x40, 0, 0, 0]" "take 2 demo_pe = str_bytes ''MZ''"
    by (simp_all add: demo_pe_def str_bytes_def numeral_eq_Suc)
  moreover have "unat (from_le [0x40, 0, 0, 0] :: u32) = 64" "(from_le [0x64, 0x86] :: u16) = 0x8664"
    by (simp_all add: from_le_def)
  moreover have "drop 68 demo_pe = [0x64, 0x86]" by (simp add: demo_pe_def str_bytes_def numeral_eq_Suc)
  ultimately show "pe_machine demo_pe = Some 0x8664" using \<open>length demo_pe = 70\<close>
    by (simp add: pe_machine_def Let_def)
qed

lemma demo_removable: "removable_efi_name demo_boot_files ''sd-boot'' = Inr ''BOOTX64.EFI''"
  by (simp add: removable_efi_name_def host_read_def demo_boot_host demo_pe_machine)

lemma demo_texts: "length (loader_conf demo_boot_key) = 26" "length (loader_entry demo_boot_key) = 190"
  by (simp_all add: loader_conf_def loader_entry_def loader_options_def boot_cmdline_def demo_boot_simps loader_entry_id_def show_nat.simps
     base_label_def data_label_def esp_kernel_def esp_initrd_def)

lemma demo_efi: "file_name ''efi/mmx64.efi'' = Some ''mmx64.efi''" "upper ''mmx64.efi'' = ''MMX64.EFI''" "utf8_str ''mmx64.efi''"
proof -
  show "utf8_str ''mmx64.efi''" by (rule utf8_str_ascii) (simp add: ascii_str_def)
qed (simp_all add: file_name_def path_components_def seg_comp_def upper_def ascii_upper_eq)

lemma demo_boot_names:
  "fits_83 ''VMLINUZ'' = Some (str_bytes ''VMLINUZ    '')" "fits_83 ''INITRD.IMG'' = Some (str_bytes ''INITRD  IMG'')"
  "fits_83 ''mmx64.efi'' = Some (str_bytes ''MMX64   EFI'')"
  by (simp_all add: validate_name_def fits_83_def canon_83_def esp_upper demo_efi Let_def rsplit_once_def short_char_def to_field_def space_pad_def str_bytes_def numeral_eq_Suc)

lemma demo_boot_long: "fits_83 ''loader.conf'' = None" "length (encode_utf16 ''loader.conf'') = 11" "is_long_name ''loader.conf''"
  "fits_83 ''horizon.conf'' = None" "length (encode_utf16 ''horizon.conf'') = 12" "is_long_name ''horizon.conf''"
proof -
  have a: "ascii_str ''loader.conf''" "ascii_str ''horizon.conf''" by (simp_all add: ascii_str_def)
  show "fits_83 ''loader.conf'' = None" "fits_83 ''horizon.conf'' = None" by (simp_all add: fits_83_def canon_83_def Let_def rsplit_once_def esp_upper)
  show l: "length (encode_utf16 ''loader.conf'') = 11" "length (encode_utf16 ''horizon.conf'') = 12" by (simp_all add: encode_utf16_ascii [OF a(1)] encode_utf16_ascii [OF a(2)])
  show "is_long_name ''loader.conf''" "is_long_name ''horizon.conf''"
    by (simp_all add: is_long_name_def l chars_of_ascii [OF a(1)] chars_of_ascii [OF a(2)] long_char_def scalar_ascii)
qed

definition demo_boot_tree :: fat_dir where
  "demo_boot_tree =
     [(''EFI'', ''EFI'', FDir [(''BOOT'', ''BOOT'', FDir [(''BOOTX64.EFI'', ''BOOTX64.EFI'', FFile demo_pe), (''MMX64.EFI'', ''mmx64.efi'', FFile [5])])]),
      (''INITRD.IMG'', ''INITRD.IMG'', FFile [4]),
      (''LOADER'', ''loader'', FDir [(''ENTRIES'', ''entries'', FDir [(''HORIZON.CONF'', ''horizon.conf'', FFile (str_bytes (loader_entry demo_boot_key)))]),
         (''LOADER.CONF'', ''loader.conf'', FFile (str_bytes (loader_conf demo_boot_key)))]),
      (''VMLINUZ'', ''VMLINUZ'', FFile [1, 2, 3])]"

lemma demo_populated: "populate_esp demo_boot_files demo_boot_key ''linux'' ''sd-boot'' fat_new = (Inr (), demo_boot_tree)"
proof -
  note names = validate_name_def demo_boot_names demo_names_83 demo_boot_long esp_upper demo_upper demo_efi esp_paths
  define lc where "lc = str_bytes (loader_conf demo_boot_key)"
  define le where "le = str_bytes (loader_entry demo_boot_key)"
  let ?t1 = "[(''VMLINUZ'', ''VMLINUZ'', FFile [1, 2, 3])] :: fat_dir"
  have 1: "insert_host_file demo_boot_files esp_kernel ''linux'' [] = (Inr (), ?t1)"
    by (simp add: insert_host_step demo_boot_host fat_insert_file_def names Let_def)
  let ?t2 = "(''INITRD.IMG'', ''INITRD.IMG'', FFile [4]) # ?t1"
  have 2: "insert_host_file demo_boot_files esp_initrd ''out/initramfs.img'' ?t1 = (Inr (), ?t2)"
    by (simp add: insert_host_step demo_boot_host fat_insert_file_def names Let_def less_char_def)
  let ?t3 = "(''EFI'', ''EFI'', FDir [(''BOOT'', ''BOOT'', FDir [(''BOOTX64.EFI'', ''BOOTX64.EFI'', FFile demo_pe)])]) # ?t2"
  have 3: "insert_host_file demo_boot_files (''EFI/BOOT/'' @ ''BOOTX64.EFI'') ''sd-boot'' ?t2 = (Inr (), ?t3)"
    by (simp add: insert_host_step demo_boot_host fat_insert_file_def fat_parts_def names Let_def less_char_def)
  let ?e = "(''EFI'', ''EFI'', FDir [(''BOOT'', ''BOOT'', FDir [(''BOOTX64.EFI'', ''BOOTX64.EFI'', FFile demo_pe), (''MMX64.EFI'', ''mmx64.efi'', FFile [5])])])"
  let ?t4 = "?e # ?t2"
  have 4: "insert_host_file demo_boot_files (''EFI/BOOT/'' @ ''mmx64.efi'') ''efi/mmx64.efi'' ?t3 = (Inr (), ?t4)"
    by (simp add: insert_host_step demo_boot_host fat_insert_file_def fat_parts_def names Let_def less_char_def)
  have 4: "act_map (insert_efi demo_boot_files) [''efi/mmx64.efi''] ?t3 = (Inr [()], ?t4)"
    using 4 by (simp add: insert_efi_def demo_efi(1) to_string_lossy_id [OF demo_efi(3)] del: append.simps)
  let ?t5 = "[?e, (''INITRD.IMG'', ''INITRD.IMG'', FFile [4]), (''LOADER'', ''loader'', FDir [(''LOADER.CONF'', ''loader.conf'', FFile lc)]),
      (''VMLINUZ'', ''VMLINUZ'', FFile [1, 2, 3])]"
  have 5: "put_tree ''loader/loader.conf'' lc ?t4 = (Inr (), ?t5)"
    by (simp add: put_tree_step fat_insert_file_def names Let_def less_char_def)
  have 6: "put_tree (''loader/entries/'' @ loader_entry_id @ ''.conf'') le ?t5 = (Inr (), demo_boot_tree)"
    by (simp add: put_tree_step fat_insert_file_def esp_paths(4) [simplified] names Let_def less_char_def demo_boot_tree_def lc_def le_def)
  show ?thesis
    by (simp add: populate_esp_def Let_def act_bind_def act_ret_def fat_new_def demo_boot_simps demo_boot_host file_exists_def demo_removable
        1 2 3 4 5 [unfolded lc_def] 6 [unfolded lc_def le_def] del: append.simps act_map.simps)
qed

lemma demo_boot_fits: "esp_inputs_fit demo_boot_files demo_boot_key ''linux'' ''sd-boot''"
  by (simp add: esp_inputs_fit_def file_bytes_def demo_boot_simps demo_boot_host demo_pe_machine demo_texts)

lemma demo_boot_tree_fits: "fat_tree_fits demo_boot_tree"
  by (simp add: demo_boot_tree_def fat_tree_fits_def validate_name_def demo_names_83 demo_boot_names demo_boot_long demo_pe_machine demo_texts)

lemma demo_boot_room: "fat_room (4 * 2 ^ 20) demo_boot_tree"
proof -
  have g: "fat_geometry 8192 = Inr \<lparr>ge_type = Fat16, ge_spc = 1, ge_reserved = 1, ge_fats = 2, ge_root_entries = 512,
      ge_root_sectors = 32, ge_fat_size = 32, ge_total = 8192, ge_clusters = 8095\<rparr>"
    by (simp add: fat_geometry_def geometry16.simps Let_def fat_size_sectors_def csub_def fat16_root_entries_def fat_sector_def nat_ceil_def)
  show ?thesis
    by (simp add: fat_room_def g fat_sector_def tree_room_def demo_boot_tree_def content_slots_def lfn_slots_def demo_names_83 demo_boot_names
        demo_boot_long dir_clusters_def nat_ceil_def cluster_bytes_def nodes_need_def demo_pe_machine demo_texts)
qed

theorem esp_boot_witness:
  "\<exists>img n. build_esp demo_ext demo_boot_files demo_boot_key = Inr img \<and> length img = 4 * 2 ^ 20
    \<and> (\<forall>d. esp_has (n + d) img [''VMLINUZ''] [1, 2, 3] \<and> esp_has (n + d) img [''EFI'', ''BOOT'', ''BOOTX64.EFI''] demo_pe)"
proof -
  obtain img where "fat_format (4 * 2 ^ 20) demo_boot_tree (params_for_label (x_sha256 demo_ext) esp_label) = Inr img"
    using fat_volume_reads [OF _ _ esp_params_ok demo_boot_tree_fits, of 4] demo_boot_room by auto
  then have b: "build_esp demo_ext demo_boot_files demo_boot_key = Inr img"
    by (simp add: build_esp_def build_esp_with_def demo_boot_simps demo_populated)
  have e: "list_all (efi_name_ok ''BOOTX64.EFI'') (ks_esp_efi demo_boot_key)"
    by (simp add: demo_boot_simps efi_name_ok_def demo_efi demo_upper)
  obtain n where "length img = 4 * 2 ^ 20" "\<And>d. esp_has (n + d) img [''VMLINUZ''] (file_bytes demo_boot_files ''linux'')
      \<and> esp_has (n + d) img [''EFI'', ''BOOT'', ''BOOTX64.EFI''] (file_bytes demo_boot_files ''sd-boot'')"
    using esp_carries_the_boot [OF demo_boot_simps(1,2) b _ _ demo_boot_fits demo_removable e] by (auto simp: demo_boot_simps)
  with b show ?thesis by (auto simp: file_bytes_def demo_boot_host)
qed

end
