(* ===== verification/KeyCalls.thy ===== *)
theory KeyCalls
  imports KeyEsp CpioTree
begin

section \<open>What the key builder asks of its host\<close>

text \<open>
  The steps of \<open>crates/keybuild/src/lib.rs\<close> and \<open>luks.rs\<close> that touch the host: files, directories and external
  tools.  A run is an action on the trace of the calls made so far, and the host is a record of answers:
  whether a call fails, how a tool ends, what a path holds.  Sources that are copied as trees are given
  with their links followed, the entries of a directory in the order it lists them up to one that cannot be
  read; a link that leads round in a circle ends in an error of the system.
\<close>

datatype bcall =
    BMkdirAll string
  | BRemoveTree string
  | BRemove string
  | BOpen string
  | BCreate string
  | BSetLen string u64
  | BWrite string bytes
  | BCopy string string
  | BTool string "string list" "bytes option"
  | BFilter string "string list" string string

text \<open>\<open>BTool\<close> has the bytes fed on the standard input; \<open>BFilter\<close> reads one file and writes another.\<close>

datatype spawned = NotInstalled | NotStarted string | Exited "int option" bytes bytes

datatype src_node = SnErr string | SnFile | SnUnread string | SnDir src_entries
  and src_entries = SnEnd | SnBad string | SnEntry string src_node src_entries

record build_host =
  bh_io :: "bcall list \<Rightarrow> bcall \<Rightarrow> string option"
  bh_run :: "bcall list \<Rightarrow> bcall \<Rightarrow> spawned"
  bh_file :: "bcall list \<Rightarrow> host_files"
  bh_dir :: "bcall list \<Rightarrow> string \<Rightarrow> bool"
  bh_source :: "string \<Rightarrow> src_node"
  bh_staging :: "bcall list \<Rightarrow> string \<Rightarrow> fdir"
  bh_import :: import_ops
  bh_loader :: "string option"
  bh_pid :: nat
  bh_seq :: nat

type_synonym 'a build = "(bcall list, fat_fault, 'a) action"

definition do_io :: "build_host \<Rightarrow> bcall \<Rightarrow> unit build" where
  "do_io H c tr = (case bh_io H tr c of None \<Rightarrow> Inr () | Some e \<Rightarrow> Inl (Fault (KbIo e)), tr @ [c])"

definition do_quiet :: "bcall \<Rightarrow> unit build" where
  "do_quiet c tr = (Inr (), tr @ [c])"

definition lossy_text :: "bytes \<Rightarrow> string" where
  "lossy_text bs = bytes_str (utf8_lossy bs)"

definition tool_end :: "string \<Rightarrow> spawned \<Rightarrow> fat_fault + unit" where
  "tool_end name sp =
     (case sp of
        NotInstalled \<Rightarrow> Inl (Fault (KbMissing name))
      | NotStarted e \<Rightarrow> Inl (Fault (KbIo e))
      | Exited code out err \<Rightarrow>
          if code = Some 0 then Inr () else Inl (Fault (KbTool name code (str_trim (lossy_text err)))))"

definition run_tool :: "build_host \<Rightarrow> string \<Rightarrow> string list \<Rightarrow> unit build" where
  "run_tool H name args tr =
     (let c = BTool name args None in (tool_end name (bh_run H tr c), tr @ [c]))"

definition run_with_key :: "build_host \<Rightarrow> string list \<Rightarrow> bytes \<Rightarrow> unit build" where
  "run_with_key H args master tr =
     (let c = BTool ''cryptsetup'' args (Some master) in (tool_end ''cryptsetup'' (bh_run H tr c), tr @ [c]))"

definition exists_now :: "build_host \<Rightarrow> string \<Rightarrow> bool build" where
  "exists_now H p = act_read (\<lambda>tr. Inr (file_exists (bh_file H tr) p \<or> bh_dir H tr p))"

definition read_now :: "build_host \<Rightarrow> string \<Rightarrow> bytes build" where
  "read_now H p = act_read (\<lambda>tr. host_read (bh_file H tr) p)"

definition read_text_now :: "build_host \<Rightarrow> string \<Rightarrow> string build" where
  "read_text_now H p =
     act_read (\<lambda>tr. res_bind (host_read (bh_file H tr) p) (\<lambda>bs.
       case from_utf8 bs of
         Some s \<Rightarrow> Inr s
       | None \<Rightarrow> Inl (Fault (KbIo ''stream did not contain valid UTF-8''))))"

subsection \<open>Paths\<close>

definition drop_idle_end :: "string list \<Rightarrow> string list" where
  "drop_idle_end ss = rev (dropWhile idle_seg (rev ss))"

text \<open>\<open>Path::parent\<close> and \<open>Path::with_file_name\<close>.\<close>

definition path_parent :: "string \<Rightarrow> string option" where
  "path_parent p =
     (case split_on CHR ''/'' p of
        [] \<Rightarrow> None
      | s # ss \<Rightarrow>
          (let body = drop_idle_end ss; up = drop_idle_end (butlast body) in
           if body = [] then (if s = [] then None else Some [])
           else if s = [] \<and> up = [] then Some ''/''
           else Some (join_segs (s # up))))"

definition with_file_name :: "string \<Rightarrow> string \<Rightarrow> string" where
  "with_file_name p n =
     path_join (case file_name p of None \<Rightarrow> p | Some _ \<Rightarrow> (case path_parent p of Some q \<Rightarrow> q | None \<Rightarrow> p)) n"

definition below_root :: "string \<Rightarrow> string" where
  "below_root p = (case strip_root p of Some r \<Rightarrow> r | None \<Rightarrow> p)"

subsection \<open>Copying\<close>

definition copy_file :: "build_host \<Rightarrow> string \<Rightarrow> string \<Rightarrow> unit build" where
  "copy_file H src dst =
     act_bind (case path_parent dst of Some parent \<Rightarrow> do_io H (BMkdirAll parent) | None \<Rightarrow> act_ret ()) (\<lambda>_.
       do_io H (BCopy src dst))"

fun copy_node :: "build_host \<Rightarrow> src_node \<Rightarrow> string \<Rightarrow> string \<Rightarrow> unit build"
  and copy_entries :: "build_host \<Rightarrow> src_entries \<Rightarrow> string \<Rightarrow> string \<Rightarrow> unit build" where
  "copy_node H (SnErr e) src dst = act_fail (Fault (KbIo e))"
| "copy_node H SnFile src dst = copy_file H src dst"
| "copy_node H (SnUnread e) src dst = act_bind (do_io H (BMkdirAll dst)) (\<lambda>_. act_fail (Fault (KbIo e)))"
| "copy_node H (SnDir es) src dst = act_bind (do_io H (BMkdirAll dst)) (\<lambda>_. copy_entries H es src dst)"
| "copy_entries H SnEnd src dst = act_ret ()"
| "copy_entries H (SnBad e) src dst = act_fail (Fault (KbIo e))"
| "copy_entries H (SnEntry name n es) src dst =
     act_bind (copy_node H n (path_join src name) (path_join dst name)) (\<lambda>_. copy_entries H es src dst)"

definition copy_tree :: "build_host \<Rightarrow> string \<Rightarrow> string \<Rightarrow> unit build" where
  "copy_tree H src dst = copy_node H (bh_source H src) src dst"

subsection \<open>Shared libraries\<close>

text \<open>\<open>split_once\<close> and \<open>rfind\<close> with a text.\<close>

fun split_at_text :: "string \<Rightarrow> string \<Rightarrow> (string \<times> string) option" where
  "split_at_text pat [] = (if pat = [] then Some ([], []) else None)"
| "split_at_text pat (c # s) =
     (case strip_pre pat (c # s) of
        Some r \<Rightarrow> Some ([], r)
      | None \<Rightarrow> map_option (\<lambda>(a, b). (c # a, b)) (split_at_text pat s))"

definition trim_end :: "string \<Rightarrow> string" where
  "trim_end s = concat (rev (dropWhile is_ws (rev (chars_of s))))"

definition strip_load_address :: "string \<Rightarrow> string" where
  "strip_load_address s =
     (case split_at_text (rev '' (0x'') (rev s) of
        Some (_, before) \<Rightarrow> trim_end (rev before)
      | None \<Rightarrow> str_trim s)"

definition ldd_path :: "string \<Rightarrow> string option" where
  "ldd_path l =
     (let line = str_trim l in
      if strip_pre ''linux-vdso'' line \<noteq> None \<or> strip_pre ''linux-gate'' line \<noteq> None then None
      else
        (case split_at_text ''=>'' line of
           Some (_, r) \<Rightarrow>
             (let rhs = strip_load_address (str_trim r) in if rhs = [] \<or> rhs = ''not found'' then None else Some rhs)
         | None \<Rightarrow> if strip_pre ''/'' line \<noteq> None then Some (strip_load_address line) else None))"

definition add_lib :: "string \<Rightarrow> string list \<Rightarrow> string list" where
  "add_lib p libs = (if path_member p libs then libs else libs @ [p])"

definition parse_ldd :: "string \<Rightarrow> string list" where
  "parse_ldd output =
     fold (\<lambda>l libs. case ldd_path l of Some p \<Rightarrow> add_lib p libs | None \<Rightarrow> libs) (str_lines output) []"

record invocation =
  iv_tool :: string
  iv_program :: string
  iv_args :: "string list"

definition closure_invocation :: "string option \<Rightarrow> string \<Rightarrow> invocation" where
  "closure_invocation loader bin =
     (let native = \<lparr>iv_tool = ''ldd'', iv_program = ''ldd'', iv_args = [bin]\<rparr> in
      case loader of
        Some l \<Rightarrow> if l = [] then native
                  else \<lparr>iv_tool = ''ld.so --list'', iv_program = l, iv_args = [''--list'', bin]\<rparr>
      | None \<Rightarrow> native)"

definition not_dynamic :: string where "not_dynamic = ''not a dynamic executable''"

definition ldd_end :: "string \<Rightarrow> spawned \<Rightarrow> fat_fault + string list" where
  "ldd_end tool sp =
     (case sp of
        NotInstalled \<Rightarrow> Inl (Fault (KbMissing tool))
      | NotStarted e \<Rightarrow> Inl (Fault (KbIo e))
      | Exited code out err \<Rightarrow>
          if code = Some 0 then Inr (parse_ldd (lossy_text out))
          else if split_at_text not_dynamic (lossy_text out) \<noteq> None \<or> split_at_text not_dynamic (lossy_text err) \<noteq> None
          then Inr []
          else Inl (Fault (KbTool tool code (str_trim (lossy_text err)))))"

definition ldd_closure :: "build_host \<Rightarrow> string \<Rightarrow> string list build" where
  "ldd_closure H bin tr =
     (let inv = closure_invocation (bh_loader H) bin; c = BTool (iv_program inv) (iv_args inv) None
      in (ldd_end (iv_tool inv) (bh_run H tr c), tr @ [c]))"

subsection \<open>Staying inside a directory\<close>

text \<open>A path strictly inside another, with no step up on the way.\<close>

definition inside :: "string \<Rightarrow> string \<Rightarrow> bool" where
  "inside root p \<longleftrightarrow> (\<exists>cs. path_components p = path_components root @ cs \<and> ParentDir \<notin> set cs)"

definition strictly_inside :: "string \<Rightarrow> string \<Rightarrow> bool" where
  "strictly_inside root p \<longleftrightarrow> (\<exists>cs. path_components p = path_components root @ cs \<and> ParentDir \<notin> set cs \<and> cs \<noteq> [])"

definition downward :: "string \<Rightarrow> bool" where
  "downward p \<longleftrightarrow> \<not> path_is_absolute p \<and> ParentDir \<notin> set (path_components p)"

lemma inside_refl [simp]: "inside root root"
  by (simp add: inside_def)

lemma strictly_inside_inside: "strictly_inside root p \<Longrightarrow> inside root p"
  by (auto simp: strictly_inside_def inside_def)

lemma path_components_Nil [simp]: "path_components [] = []"
  by (simp add: path_components_def seg_comp_def)

lemma segs_comps:
  "\<not> path_is_absolute r \<Longrightarrow> set (concat (map seg_comp (split_on CHR ''/'' r))) \<subseteq> set (path_components r)"
proof (cases r)
  case (Cons c cs)
  moreover assume "\<not> path_is_absolute r"
  ultimately have "c \<noteq> CHR ''/''" by (simp add: path_is_absolute_def)
  with Cons show ?thesis
    by (cases "split_on CHR ''/'' cs") (auto simp: path_components_def seg_comp_def)
qed (simp add: seg_comp_def)

lemma join_components:
  assumes "\<not> path_is_absolute r"
  shows "\<exists>cs. path_components (path_join p r) = path_components p @ cs \<and> set cs \<subseteq> set (path_components r)"
proof -
  have sep: "path_components (q @ CHR ''/'' # r) = path_components q @ concat (map seg_comp (split_on CHR ''/'' r))" if "q \<noteq> []" for q
  proof -
    obtain x xs where x: "split_on CHR ''/'' q = x # xs" by (cases "split_on CHR ''/'' q") auto
    then have "xs \<noteq> [] \<or> x \<noteq> []" using that split_on_Nil_iff [of "CHR ''/''" q] by auto
    with path_components_cons [OF x [symmetric]] show ?thesis by simp
  qed
  note segs = segs_comps [OF assms]
  consider "p = []" | "p \<noteq> []" "last p \<noteq> CHR ''/''" | q where "p = q @ [CHR ''/'']"
    by (metis append_butlast_last_id)
  then show ?thesis
  proof cases
    case 1
    with assms show ?thesis by (simp add: path_join_def)
  next
    case 2
    with assms sep segs show ?thesis by (simp add: path_join_def)
  next
    case (3 q)
    then have join: "path_join p r = q @ CHR ''/'' # r" using assms by (simp add: path_join_def)
    show ?thesis
    proof (cases "q = []")
      case True
      with 3 have "path_components p = [RootDir]" by (simp add: path_components_def seg_comp_def)
      moreover have "path_components (CHR ''/'' # r) = RootDir # concat (map seg_comp (split_on CHR ''/'' r))"
        by (simp add: path_components_def)
      ultimately show ?thesis using True join segs by simp
    next
      case False
      have "path_components p = path_components q"
        using path_components_cons [of "hd (split_on CHR ''/'' q)" "tl (split_on CHR ''/'' q)" q "[]"] False split_on_Nil_iff [of "CHR ''/''" q]
        by (cases "split_on CHR ''/'' q") (auto simp: 3 seg_comp_def)
      with sep [OF False] join segs show ?thesis by simp
    qed
  qed
qed

lemma join_inside: "inside root p \<Longrightarrow> downward r \<Longrightarrow> inside root (path_join p r)"
  using join_components [of r p] by (fastforce simp: inside_def downward_def)

lemma join_strictly: "strictly_inside root p \<Longrightarrow> downward r \<Longrightarrow> strictly_inside root (path_join p r)"
  using join_components [of r p] by (fastforce simp: strictly_inside_def downward_def)

lemma plain_downward: "plain_seg s \<Longrightarrow> downward s"
  by (cases s) (auto simp: downward_def path_components_plain plain_seg_def path_is_absolute_def)

lemma plain_strictly: "plain_seg s \<Longrightarrow> inside root p \<Longrightarrow> strictly_inside root (path_join p s)"
  by (auto simp: inside_def strictly_inside_def path_components_join)

lemma split_on_join:
  "ss \<noteq> [] \<Longrightarrow> \<forall>s \<in> set ss. CHR ''/'' \<notin> set s \<Longrightarrow> split_on CHR ''/'' (join_segs ss) = ss"
  by (induction ss rule: join_segs.induct) (simp_all add: split_on_single split_on_append)

lemma idle_seg_comp: "idle_seg s \<longleftrightarrow> seg_comp s = []"
  by (auto simp: idle_seg_def seg_comp_def)

lemma drop_idle_end_comps: "concat (map seg_comp (drop_idle_end ss)) = concat (map seg_comp ss)"
  by (induction ss rule: rev_induct) (auto simp: drop_idle_end_def idle_seg_comp)

lemma drop_idle_end_last: "drop_idle_end ss \<noteq> [] \<Longrightarrow> \<not> idle_seg (last (drop_idle_end ss))"
  by (induction ss rule: rev_induct) (auto simp: drop_idle_end_def)

lemma set_drop_idle_end: "set (drop_idle_end ss) \<subseteq> set ss"
  using set_dropWhileD [of _ idle_seg "rev ss"] by (auto simp: drop_idle_end_def)

lemma drop_idle_end_prefix: "prefix (drop_idle_end ss) ss"
  by (induction ss rule: rev_induct) (auto simp: drop_idle_end_def)

lemma seg_comp_one: "\<not> idle_seg s \<Longrightarrow> \<exists>x. seg_comp s = [x]"
  by (auto simp: idle_seg_def seg_comp_def)

definition top_comp :: "string \<Rightarrow> bool \<Rightarrow> path_comp list" where
  "top_comp s deep = (if s = [] \<and> deep then [RootDir] else if s = ''.'' then [CurDir] else seg_comp s)"

lemma components_split: "split_on CHR ''/'' p = s # ss \<Longrightarrow> path_components p = top_comp s (ss \<noteq> []) @ concat (map seg_comp ss)"
  by (simp add: path_components_def top_comp_def)

lemma top_comp_one: "s \<noteq> [] \<Longrightarrow> \<exists>x. top_comp s deep = [x]"
  by (auto simp: top_comp_def seg_comp_def)

lemma parent_components:
  assumes "path_parent p = Some q"
  shows "path_components q = butlast (path_components p)"
proof -
  obtain s ss where p: "split_on CHR ''/'' p = s # ss" by (cases "split_on CHR ''/'' p") auto
  have noslash: "CHR ''/'' \<notin> set x" if "x \<in> set (s # ss)" for x
    using that seg_no_slash [of x "CHR ''/''" p] unfolding p by simp
  define body where "body = drop_idle_end ss"
  define up where "up = drop_idle_end (butlast body)"
  have comps: "path_components p = top_comp s (ss \<noteq> []) @ concat (map seg_comp body)"
    unfolding components_split [OF p] body_def drop_idle_end_comps ..
  have par: "(if body = [] then (if s = [] then None else Some [])
      else if s = [] \<and> up = [] then Some ''/'' else Some (join_segs (s # up))) = Some q"
    using assms unfolding path_parent_def p list.case Let_def body_def up_def .
  show ?thesis
  proof (cases "body = []")
    case True
    with par have "s \<noteq> []" "q = []" by (simp_all split: if_split_asm)
    then show ?thesis using True top_comp_one [of s "ss \<noteq> []"] by (auto simp: comps)
  next
    case False
    then have ne: "ss \<noteq> []" by (auto simp: body_def drop_idle_end_def)
    obtain x where x: "seg_comp (last body) = [x]"
      using seg_comp_one drop_idle_end_last [of ss] False unfolding body_def by blast
    have "concat (map seg_comp body) = concat (map seg_comp (butlast body @ [last body]))" using False by simp
    then have "concat (map seg_comp body) = concat (map seg_comp up) @ [x]"
      by (simp add: x up_def drop_idle_end_comps del: append_butlast_last_id)
    then have b: "butlast (path_components p) = top_comp s (ss \<noteq> []) @ concat (map seg_comp up)"
      unfolding comps by (simp only: append_assoc [symmetric] butlast_snoc)
    show ?thesis
    proof (cases "s = [] \<and> up = []")
      case True
      then have "q = ''/''" using par False by simp
      then show ?thesis using b True ne by (simp add: path_components_def top_comp_def seg_comp_def)
    next
      case other: False
      then have q: "q = join_segs (s # up)" using par False by (simp only: if_False option.inject simp_thms)
      have "set up \<subseteq> set ss"
        using set_drop_idle_end [of "butlast body"] set_drop_idle_end [of ss] in_set_butlastD [of _ body]
        unfolding up_def body_def by blast
      then have "split_on CHR ''/'' q = s # up" unfolding q using noslash by (intro split_on_join) auto
      from components_split [OF this] have "path_components q = top_comp s (up \<noteq> []) @ concat (map seg_comp up)" .
      moreover have "top_comp s (up \<noteq> []) = top_comp s (ss \<noteq> [])" using other ne by (auto simp: top_comp_def)
      ultimately show ?thesis by (simp only: b)
    qed
  qed
qed

lemma parent_inside: "strictly_inside root p \<Longrightarrow> path_parent p = Some q \<Longrightarrow> inside root q"
  using parent_components [of p q]
  by (auto simp: strictly_inside_def inside_def butlast_append dest: in_set_butlastD)

lemma file_name_plain: "file_name p = Some n \<Longrightarrow> plain_seg n"
proof -
  assume f: "file_name p = Some n"
  have "Normal n \<in> set (path_components p)"
  proof (cases "path_components p")
    case (Cons c cs)
    with f have "last (c # cs) = Normal n" by (simp add: file_name_def split: path_comp.splits del: last.simps)
    then show ?thesis using Cons last_in_set [of "c # cs"] by (simp del: last.simps)
  qed (use f in \<open>simp add: file_name_def\<close>)
  then have "n \<noteq> ''.'' \<and> n \<noteq> ''..''"
    by (cases "split_on CHR ''/'' p") (auto simp: path_components_def seg_comp_normal split: if_splits)
  with file_name_seg [OF f] show ?thesis by (simp add: plain_seg_def)
qed

lemma below_root_downward: "ParentDir \<notin> set (path_components p) \<Longrightarrow> downward (below_root p)"
proof (cases "path_is_absolute p")
  case True
  assume up: "ParentDir \<notin> set (path_components p)"
  let ?ss = "drop_idle_end (dropWhile idle_seg (split_on CHR ''/'' p))"
  have r: "below_root p = join_segs ?ss" using True by (simp add: below_root_def strip_root_def drop_idle_end_def)
  have sub: "set ?ss \<subseteq> set (split_on CHR ''/'' p)"
    using set_drop_idle_end [of "dropWhile idle_seg (split_on CHR ''/'' p)"] by (auto dest: set_dropWhileD)
  have noslash: "\<forall>x \<in> set ?ss. CHR ''/'' \<notin> set x" using sub seg_no_slash by blast
  have nodots: "x \<noteq> ''..''" if "x \<in> set ?ss" for x
  proof
    assume "x = ''..''"
    then have "''..'' \<in> set (split_on CHR ''/'' p)" using that sub by blast
    with up True show False
      by (cases "split_on CHR ''/'' p"; cases p) (auto simp: path_components_def path_is_absolute_def seg_comp_def split: if_splits)
  qed
  show ?thesis
  proof (cases "?ss = []")
    case True
    then show ?thesis by (simp add: r downward_def path_is_absolute_def)
  next
    case False
    then have split: "split_on CHR ''/'' (below_root p) = ?ss" unfolding r using noslash by (intro split_on_join) auto
    obtain x xs where x: "?ss = x # xs" using False by (cases ?ss) auto
    have "\<not> idle_seg x"
    proof -
      have "dropWhile idle_seg (split_on CHR ''/'' p) \<noteq> []" using False by (metis drop_idle_end_prefix prefix_bot.extremum_unique)
      then have "\<not> idle_seg (hd (dropWhile idle_seg (split_on CHR ''/'' p)))" by (rule hd_dropWhile)
      moreover have "x = hd (dropWhile idle_seg (split_on CHR ''/'' p))"
        using drop_idle_end_prefix [of "dropWhile idle_seg (split_on CHR ''/'' p)"] unfolding x by (auto simp: prefix_def)
      ultimately show ?thesis by simp
    qed
    then have "x \<noteq> []" by (simp add: idle_seg_def)
    then have "\<not> path_is_absolute (below_root p)" using split x by (cases "below_root p") (auto simp: path_is_absolute_def split: if_splits)
    moreover have "ParentDir \<notin> set (path_components (below_root p))"
      using nodots unfolding path_components_def split by (auto simp: x seg_comp_def split: if_splits)
    ultimately show ?thesis by (simp add: downward_def)
  qed
next
  case False
  moreover assume "ParentDir \<notin> set (path_components p)"
  ultimately show ?thesis by (simp add: below_root_def strip_root_def downward_def)
qed

end
