(* ===== verification/KeyBuild.thy ===== *)
theory KeyBuild
  imports KeyCalls Verity Boot
begin

section \<open>Building the parts of a key\<close>

text \<open>
  The operations of \<open>crates/keybuild/src/lib.rs\<close> and \<open>luks.rs\<close> that fill a staging directory or run a tool:
  the base, the data partition, the encrypted home, the initramfs, the hash device.  The arithmetic on sizes wraps, as in a release build.
\<close>

subsection \<open>Filling a staging directory\<close>

definition copy_lib :: "build_host \<Rightarrow> string \<Rightarrow> string \<Rightarrow> unit build" where
  "copy_lib H staging lib = copy_file H lib (path_join staging (below_root lib))"

definition build_ld_so_cache :: "build_host \<Rightarrow> string \<Rightarrow> unit build" where
  "build_ld_so_cache H staging =
     act_bind (do_io H (BMkdirAll (path_join staging ''etc''))) (\<lambda>_. run_tool H ''ldconfig'' [''-r'', staging])"

definition install_path :: "string \<Rightarrow> string \<Rightarrow> fat_fault + string" where
  "install_path dir bin = (case file_name bin of None \<Rightarrow> Inl (Fault (KbNotAFile bin)) | Some n \<Rightarrow> Inr (path_join dir n))"

definition bin_install_path :: "string \<Rightarrow> fat_fault + string" where
  "bin_install_path bin = install_path ''usr/bin'' bin"

definition bin_sbin_path :: "string \<Rightarrow> fat_fault + string" where
  "bin_sbin_path bin = install_path ''usr/sbin'' bin"

text \<open>The loop over the binaries, with the libraries met so far.\<close>

fun install_bins ::
  "build_host \<Rightarrow> (string \<Rightarrow> fat_fault + string) \<Rightarrow> string \<Rightarrow> string list \<Rightarrow> string list \<Rightarrow> string list build" where
  "install_bins H place staging [] libs = act_ret libs"
| "install_bins H place staging (bin # bins) libs =
     act_bind (act_read (\<lambda>_. place bin)) (\<lambda>rel.
     act_bind (copy_file H bin (path_join staging rel)) (\<lambda>_.
     act_bind (ldd_closure H bin) (\<lambda>found.
       install_bins H place staging bins (fold add_lib found libs))))"

definition populate_userland :: "build_host \<Rightarrow> string \<Rightarrow> string list \<Rightarrow> unit build" where
  "populate_userland H staging bins =
     act_bind (install_bins H bin_install_path staging bins []) (\<lambda>libs.
     act_bind (act_map (copy_lib H staging) libs) (\<lambda>_.
       build_ld_so_cache H staging))"

text \<open>The walk of \<open>module_closure\<close> always ends (\<open>closure_ends\<close>).\<close>

definition closure_now :: "dep_map \<Rightarrow> string list \<Rightarrow> fat_fault + string list" where
  "closure_now deps requested =
     (case module_closure deps requested of
        Some (Inr cl) \<Rightarrow> Inr cl
      | Some (Inl e) \<Rightarrow> Inl (Fault e)
      | None \<Rightarrow> Inl Panic)"

definition populate_modules :: "build_host \<Rightarrow> string \<Rightarrow> string \<Rightarrow> string \<Rightarrow> string list \<Rightarrow> unit build" where
  "populate_modules H staging root version requested =
     (let src = path_join root version; dst = path_join (path_join staging ''lib/modules'') version in
      act_bind (read_text_now H (path_join src ''modules.dep'')) (\<lambda>text.
      let deps = parse_modules_dep text in
      act_bind (act_read (\<lambda>_. closure_now deps requested)) (\<lambda>closure.
      act_bind (act_map (\<lambda>rel. copy_file H (path_join src rel) (path_join dst rel)) closure) (\<lambda>_.
      act_bind (do_io H (BMkdirAll dst)) (\<lambda>_.
        do_io H (BWrite (path_join dst ''modules.dep'') (str_bytes (emit_modules_dep closure deps))))))))"

definition populate_firmware :: "build_host \<Rightarrow> string \<Rightarrow> string \<Rightarrow> string list \<Rightarrow> unit build" where
  "populate_firmware H staging root requested =
     (let dst = path_join staging ''lib/firmware'' in
      act_bind (act_map (\<lambda>blob. copy_file H (path_join root blob) (path_join dst blob)) requested) (\<lambda>_. act_ret ()))"

definition populate_staged :: "build_host \<Rightarrow> string \<Rightarrow> stage \<Rightarrow> unit build" where
  "populate_staged H staging st = copy_tree H (sg_src st) (path_join staging (below_root (sg_dst st)))"

definition materialize_base :: "build_host \<Rightarrow> skeleton \<Rightarrow> string \<Rightarrow> unit build" where
  "materialize_base H sk staging =
     act_bind (act_map (\<lambda>d. do_io H (BMkdirAll (path_join staging d))) (sk_dirs sk)) (\<lambda>_.
       do_io H (BWrite (path_join staging ''etc/os-release'') (str_bytes (sk_os_release sk))))"

definition run_when :: "bool \<Rightarrow> unit build \<Rightarrow> unit build" where
  "run_when b m = (if b then m else act_ret ())"

definition clean_staging :: "build_host \<Rightarrow> string \<Rightarrow> unit build" where
  "clean_staging H staging =
     act_bind (exists_now H staging) (\<lambda>there. run_when there (do_io H (BRemoveTree staging)))"

definition kernel_modules :: "build_host \<Rightarrow> key_spec \<Rightarrow> string \<Rightarrow> string list \<Rightarrow> unit build" where
  "kernel_modules H spec staging mods =
     run_when (mods \<noteq> [])
       (case ks_kernel_version spec of
          None \<Rightarrow> act_fail (Fault KbNoKernelVersion)
        | Some version \<Rightarrow> populate_modules H staging (ks_modules_root spec) version mods)"

subsection \<open>The base\<close>

definition squashfs_args :: "string \<Rightarrow> string \<Rightarrow> string list" where
  "squashfs_args staging out =
     [staging, out, ''-noappend'', ''-all-root'', ''-no-xattrs'', ''-mkfs-time'', ''0'', ''-all-time'', ''0'']"

definition fill_base :: "build_host \<Rightarrow> key_spec \<Rightarrow> string \<Rightarrow> unit build" where
  "fill_base H spec staging =
     act_bind (materialize_base H (base_skeleton spec) staging) (\<lambda>_.
     act_bind (run_when (ks_userland spec \<noteq> []) (populate_userland H staging (ks_userland spec))) (\<lambda>_.
     act_bind (kernel_modules H spec staging (ks_modules spec)) (\<lambda>_.
     act_bind (run_when (ks_firmware spec \<noteq> [])
       (populate_firmware H staging (ks_firmware_root spec) (ks_firmware spec))) (\<lambda>_.
     act_bind (act_map (populate_staged H staging) (ks_staged spec)) (\<lambda>_. act_ret ())))))"

definition build_base :: "build_host \<Rightarrow> key_spec \<Rightarrow> string build" where
  "build_base H spec =
     (let staging = path_join (ks_out spec) ''base.staging''; out = path_join (ks_out spec) base_image in
      act_bind (do_io H (BMkdirAll (ks_out spec))) (\<lambda>_.
      act_bind (clean_staging H staging) (\<lambda>_.
      act_bind (fill_base H spec staging) (\<lambda>_.
      act_bind (exists_now H out) (\<lambda>there.
      act_bind (run_when there (do_io H (BRemove out))) (\<lambda>_.
      act_bind (run_tool H ''mksquashfs'' (squashfs_args staging out)) (\<lambda>_.
      act_bind (do_quiet (BRemoveTree staging)) (\<lambda>_.
        act_ret out))))))))"

subsection \<open>The data partition\<close>

definition mib :: "u64 \<Rightarrow> u64" where "mib n = n * 1024 * 1024"

definition seed_args :: "build_host \<Rightarrow> string option \<Rightarrow> string list build" where
  "seed_args H seed =
     (case seed of
        None \<Rightarrow> act_ret []
      | Some dir \<Rightarrow>
          act_read (\<lambda>tr.
            if bh_dir H tr dir then Inr [''-d'', dir]
            else Inl (Fault (KbIo (''data seed '' @ to_string_lossy dir @ '' is not a directory'')))))"

definition build_data :: "build_host \<Rightarrow> key_spec \<Rightarrow> string build" where
  "build_data H spec =
     (let out = path_join (ks_out spec) data_image in
      act_bind (do_io H (BMkdirAll (ks_out spec))) (\<lambda>_.
      act_bind (do_io H (BCreate out)) (\<lambda>_.
      act_bind (do_io H (BSetLen out (mib (ks_data_size_mb spec)))) (\<lambda>_.
      act_bind (seed_args H (ks_data_seed spec)) (\<lambda>seed.
      act_bind (run_tool H ''mkfs.ext4'' ([''-F'', ''-q'', ''-L'', ks_data_label spec] @ seed @ [out])) (\<lambda>_.
        act_ret out))))))"

subsection \<open>The encrypted home\<close>

definition luks_format_args :: "string \<Rightarrow> string list" where
  "luks_format_args container =
     [''luksFormat'', ''--type'', ''luks2'', ''--batch-mode'', ''--pbkdf'', ''argon2id'', ''--key-file'', ''-'',
      ''--keyfile-size'', show_nat master_key_size, to_string_lossy container]"

definition luks_format :: "build_host \<Rightarrow> string \<Rightarrow> bytes \<Rightarrow> unit build" where
  "luks_format H container master = run_with_key H (luks_format_args container) master"

definition luks_unlock :: "build_host \<Rightarrow> string \<Rightarrow> bytes \<Rightarrow> string \<Rightarrow> string build" where
  "luks_unlock H container master mapper =
     act_bind (run_with_key H (luks_open_args container mapper) master) (\<lambda>_. act_ret (mapper_path mapper))"

definition luks_shut :: "build_host \<Rightarrow> string \<Rightarrow> unit build" where
  "luks_shut H mapper = run_tool H ''cryptsetup'' (luks_close_args mapper)"

definition home_mapper_name :: "build_host \<Rightarrow> string" where
  "home_mapper_name H = ''horizon-home-build-'' @ show_nat (bh_pid H) @ ''-'' @ show_nat (bh_seq H)"

text \<open>The result of \<open>mkfs\<close> is kept until the mapper is closed.\<close>

definition keep_result :: "unit build \<Rightarrow> (fat_fault + unit) build" where
  "keep_result m tr = (case m tr of (r, t) \<Rightarrow> (Inr r, t))"

definition build_home :: "build_host \<Rightarrow> key_spec \<Rightarrow> bytes \<Rightarrow> string build" where
  "build_home H spec master =
     (let out = path_join (ks_out spec) home_image; mapper = home_mapper_name H in
      act_bind (do_io H (BMkdirAll (ks_out spec))) (\<lambda>_.
      act_bind (do_io H (BCreate out)) (\<lambda>_.
      act_bind (do_io H (BSetLen out (mib (ks_home_size_mb spec)))) (\<lambda>_.
      act_bind (luks_format H out master) (\<lambda>_.
      act_bind (luks_unlock H out master mapper) (\<lambda>dev.
      act_bind (keep_result (run_tool H ''mkfs.ext4'' [''-F'', ''-q'', ''-L'', home_label, dev])) (\<lambda>mkfs.
      act_bind (luks_shut H mapper) (\<lambda>_.
      act_bind (act_read (\<lambda>_. mkfs)) (\<lambda>_.
        act_ret out)))))))))"

definition provision_master :: "ext \<Rightarrow> boot_fs \<Rightarrow> string \<Rightarrow> string \<Rightarrow> kb_error + bytes" where
  "provision_master X fs store passphrase =
     res_map_err (\<lambda>e. KbProvision (boot_error_text e)) (passphrase_master X fs store passphrase)"

subsection \<open>The initramfs\<close>

definition gzip_to :: "build_host \<Rightarrow> bytes \<Rightarrow> string \<Rightarrow> unit build" where
  "gzip_to H data out =
     (let tmp = with_file_name out ''initramfs.cpio''; c = BFilter ''gzip'' [''-n'', ''-9''] tmp out;
          finish = (\<lambda>sp. case sp of
              NotInstalled \<Rightarrow> Inl (Fault (KbMissing ''gzip''))
            | NotStarted e \<Rightarrow> Inl (Fault (KbIo e))
            | Exited code _ _ \<Rightarrow> if code = Some 0 then Inr () else Inl (Fault (KbTool ''gzip'' code []))) in
      act_bind (do_io H (BWrite tmp data)) (\<lambda>_.
      act_bind (do_io H (BOpen tmp)) (\<lambda>_.
      act_bind (do_io H (BCreate out)) (\<lambda>_.
        (\<lambda>tr. (finish (bh_run H tr c), tr @ [c, BRemove tmp]))))))"

definition initramfs_dirs :: "string list" where
  "initramfs_dirs = [''dev'', ''proc'', ''sys'', ''run'', ''tmp'', ''root'', ''etc'', ''usr'', ''usr/bin'', ''usr/sbin'']"

definition fill_initramfs :: "build_host \<Rightarrow> key_spec \<Rightarrow> string \<Rightarrow> string \<Rightarrow> unit build" where
  "fill_initramfs H spec init_bin staging =
     act_bind (act_map (\<lambda>d. do_io H (BMkdirAll (path_join staging d))) initramfs_dirs) (\<lambda>_.
     act_bind (copy_file H init_bin (path_join staging ''init'')) (\<lambda>_.
     act_bind (ldd_closure H init_bin) (\<lambda>libs.
     act_bind (install_bins H bin_sbin_path staging (ks_initramfs_bins spec) libs) (\<lambda>all.
     act_bind (act_map (copy_lib H staging) all) (\<lambda>_.
     act_bind (build_ld_so_cache H staging) (\<lambda>_.
     act_bind (kernel_modules H spec staging (ks_initramfs_modules spec)) (\<lambda>_.
     act_bind (act_map (populate_staged H staging) (ks_initramfs_files spec)) (\<lambda>_. act_ret ()))))))))"

definition initramfs_tree :: "import_ops \<Rightarrow> fdir \<Rightarrow> kb_error + cpio_tree" where
  "initramfs_tree imp d =
     res_bind (read_dir_tree imp d) (\<lambda>t.
     res_bind (cpio_device ''dev/console'' 0x180 NkChar 5 1 t)
       (cpio_device ''dev/null'' 0x1B6 NkChar 1 3))"

definition build_initramfs :: "build_host \<Rightarrow> key_spec \<Rightarrow> string build" where
  "build_initramfs H spec =
     (case ks_init_bin spec of
        None \<Rightarrow> act_fail (Fault KbNoInitBin)
      | Some init_bin \<Rightarrow>
          (let staging = path_join (ks_out spec) ''initramfs.staging''; out = path_join (ks_out spec) initramfs_image in
           act_bind (do_io H (BMkdirAll (ks_out spec))) (\<lambda>_.
           act_bind (clean_staging H staging) (\<lambda>_.
           act_bind (fill_initramfs H spec init_bin staging) (\<lambda>_.
           act_bind (act_read (\<lambda>tr. res_map_err Fault (initramfs_tree (bh_import H) (bh_staging H tr staging)))) (\<lambda>tree.
           act_bind (gzip_to H (cpio_write tree) out) (\<lambda>_.
           act_bind (do_quiet (BRemoveTree staging)) (\<lambda>_.
             act_ret out))))))))"

subsection \<open>The hash device, written\<close>

record verity_artifact =
  va_image :: string
  va_root :: bytes
  va_data_blocks :: u64
  va_levels :: nat

definition artifact_root_hex :: "verity_artifact \<Rightarrow> string" where
  "artifact_root_hex v = hex_text (va_root v)"

definition build_verity :: "ext \<Rightarrow> build_host \<Rightarrow> key_spec \<Rightarrow> verity_artifact build" where
  "build_verity X H spec =
     (let out = path_join (ks_out spec) verity_image in
      act_bind (read_now H (path_join (ks_out spec) base_image)) (\<lambda>data.
      act_bind (act_read (\<lambda>_. case format (x_sha256 X) data default_params of None \<Rightarrow> Inl Panic | Some v \<Rightarrow> Inr v)) (\<lambda>v.
      act_bind (do_io H (BWrite out (ve_device v))) (\<lambda>_.
        act_ret \<lparr>va_image = out, va_root = ve_root v, va_data_blocks = ve_data_blocks v, va_levels = ve_levels v\<rparr>))))"

end
