(* ===== verification/KeyInside.thy ===== *)
theory KeyInside
  imports KeyBuild
begin

section \<open>What a build leaves on its host\<close>

text \<open>
  A build of the base or of the initramfs writes inside its output directory; the encrypted home is made with
  the key on the standard input alone, and its mapper is closed again.
\<close>

subsection \<open>The module closure\<close>

lemma close_requested:
  "\<exists>cl. close_modules deps (rev (requested_paths deps requested)) [] = Some cl
    \<and> set cl \<subseteq> set (requested_paths deps requested) \<union> set (concat (map snd deps))"
proof -
  let ?ms = "requested_paths deps requested"
  have "finite (dep_universe deps \<union> path_components ` set ?ms)" by (simp add: dep_universe_def)
  moreover have "path_components ` set ?ms \<subseteq> reached deps ?ms" by (auto simp: reached_def)
  ultimately show ?thesis
    using close_modules_spec [of "rev ?ms" "[]" "dep_universe deps \<union> path_components ` set ?ms" deps ?ms]
    by (auto simp: pending_closed_def)
qed

lemma closure_ends: "module_closure deps requested \<noteq> None"
  using close_requested [of deps requested] by (auto simp: module_closure_def)

lemma requested_known: "p \<in> set (requested_paths deps requested) \<Longrightarrow> p \<in> set (map fst deps)"
  by (auto simp: requested_path find_Some_iff)

lemma closure_members:
  "module_closure deps requested = Some (Inr cl) \<Longrightarrow> m \<in> set cl \<Longrightarrow> m \<in> set (map fst deps) \<union> set (concat (map snd deps))"
  using close_requested [of deps requested] requested_known [of m deps requested]
  by (auto simp: module_closure_def split: if_splits)

subsection \<open>Writing inside\<close>

definition no_up :: "string \<Rightarrow> bool" where
  "no_up p \<longleftrightarrow> ParentDir \<notin> set (path_components p)"

definition lists_libs :: "build_host \<Rightarrow> string \<Rightarrow> string list \<Rightarrow> bool" where
  "lists_libs H prog args \<longleftrightarrow>
     (\<exists>bin. prog = iv_program (closure_invocation (bh_loader H) bin) \<and> args = iv_args (closure_invocation (bh_loader H) bin))"

fun call_inside :: "build_host \<Rightarrow> string \<Rightarrow> bcall \<Rightarrow> bool" where
  "call_inside H out (BMkdirAll p) \<longleftrightarrow> inside out p"
| "call_inside H out (BRemoveTree p) \<longleftrightarrow> strictly_inside out p"
| "call_inside H out (BRemove p) \<longleftrightarrow> strictly_inside out p"
| "call_inside H out (BOpen p) \<longleftrightarrow> True"
| "call_inside H out (BCreate p) \<longleftrightarrow> strictly_inside out p"
| "call_inside H out (BSetLen p n) \<longleftrightarrow> strictly_inside out p"
| "call_inside H out (BWrite p bs) \<longleftrightarrow> strictly_inside out p"
| "call_inside H out (BCopy src dst) \<longleftrightarrow> strictly_inside out dst"
| "call_inside H out (BTool prog args key) \<longleftrightarrow>
     key = None \<and>
     (lists_libs H prog args
      \<or> prog = ''ldconfig'' \<and> (\<exists>d. args = [''-r'', d] \<and> strictly_inside out d)
      \<or> prog = ''mksquashfs'' \<and> (\<exists>s p. args = squashfs_args s p \<and> strictly_inside out p))"
| "call_inside H out (BFilter prog args from to) \<longleftrightarrow> prog = ''gzip'' \<and> strictly_inside out to"

fun names_plain :: "src_node \<Rightarrow> bool" and entries_plain :: "src_entries \<Rightarrow> bool" where
  "names_plain (SnDir es) \<longleftrightarrow> entries_plain es"
| "names_plain _ \<longleftrightarrow> True"
| "entries_plain (SnEntry name n es) \<longleftrightarrow> plain_seg name \<and> names_plain n \<and> entries_plain es"
| "entries_plain _ \<longleftrightarrow> True"

definition deps_downward :: "dep_map \<Rightarrow> bool" where
  "deps_downward deps \<longleftrightarrow> list_all (\<lambda>(m, needs). downward m \<and> list_all downward needs) deps"

definition libs_downward :: "build_host \<Rightarrow> bool" where
  "libs_downward H \<longleftrightarrow> (\<forall>tr bin ls. fst (ldd_closure H bin tr) = Inr ls \<longrightarrow> list_all no_up ls)"

definition build_contained :: "build_host \<Rightarrow> key_spec \<Rightarrow> bool" where
  "build_contained H spec \<longleftrightarrow>
     list_all downward (ks_firmware spec)
     \<and> list_all (\<lambda>st. no_up (sg_dst st) \<and> names_plain (bh_source H (sg_src st))) (ks_staged spec @ ks_initramfs_files spec)
     \<and> (\<forall>v. ks_kernel_version spec = Some v \<longrightarrow> downward v
          \<and> (\<forall>tr s. read_text_now H (path_join (path_join (ks_modules_root spec) v) ''modules.dep'') tr = (Inr s, tr)
               \<longrightarrow> deps_downward (parse_modules_dep s)))
     \<and> libs_downward H"

lemma emits_do_io [emits_intros]: "P c \<Longrightarrow> emits P (do_io H c)"
  by (simp add: emits_def do_io_def)

lemma emits_do_quiet [emits_intros]: "P c \<Longrightarrow> emits P (do_quiet c)"
  by (simp add: emits_def do_quiet_def)

lemma emits_run_tool [emits_intros]: "P (BTool name args None) \<Longrightarrow> emits P (run_tool H name args)"
  by (simp add: emits_def run_tool_def Let_def)

lemma emits_when [emits_intros]: "(b \<Longrightarrow> emits P m) \<Longrightarrow> emits P (run_when b m)"
  by (simp add: run_when_def emits_ret)

lemma emits_now [emits_intros]: "emits P (exists_now H p)" "emits P (read_now H p)" "emits P (read_text_now H p)"
  by (simp_all add: exists_now_def read_now_def read_text_now_def emits_read)

lemma copy_file_inside [emits_intros]: "strictly_inside out dst \<Longrightarrow> emits (call_inside H' out) (copy_file H src dst)"
  unfolding copy_file_def
  by (intro emits_intros) (auto intro!: emits_intros parent_inside split: option.split)

lemma copy_node_inside:
  "names_plain n \<Longrightarrow> strictly_inside out dst \<Longrightarrow> emits (call_inside H' out) (copy_node H n src dst)"
  "entries_plain es \<Longrightarrow> strictly_inside out dst \<Longrightarrow> emits (call_inside H' out) (copy_entries H es src dst)"
proof (induction H n src dst and H es src dst rule: copy_node_copy_entries.induct)
  case (7 H name n es src dst)
  then show ?case using join_strictly [OF _ plain_downward] by (auto intro!: emits_intros)
qed (auto intro!: emits_intros simp: strictly_inside_inside)

text \<open>The names the builder chooses itself.\<close>

lemma fixed_names_downward [simp]:
  "downward ''usr/bin''" "downward ''usr/sbin''" "downward ''etc''" "downward ''etc/os-release''" "downward ''lib/modules''"
  "downward ''lib/firmware''" "downward ''modules.dep''" "downward ''init''"
  by (simp_all add: downward_def path_is_absolute_def path_components_def seg_comp_def)

lemma base_dirs_downward: "list_all downward (sk_dirs (base_skeleton spec))" "list_all downward initramfs_dirs"
  by (simp_all add: base_skeleton_def initramfs_dirs_def downward_def path_is_absolute_def path_components_def seg_comp_def)

lemma fixed_names_plain [simp]:
  "plain_seg ''base.staging''" "plain_seg ''initramfs.staging''" "plain_seg base_image" "plain_seg initramfs_image" "plain_seg ''initramfs.cpio''"
  by (simp_all add: plain_seg_def base_image_def initramfs_image_def)

lemma lib_inside: "no_up lib \<Longrightarrow> strictly_inside out staging \<Longrightarrow> emits (call_inside H' out) (copy_lib H staging lib)"
  unfolding copy_lib_def no_up_def by (intro emits_intros join_strictly below_root_downward)

lemma cache_inside: "strictly_inside out staging \<Longrightarrow> emits (call_inside H' out) (build_ld_so_cache H staging)"
  unfolding build_ld_so_cache_def by (intro emits_intros) (auto intro!: strictly_inside_inside [OF join_strictly])

lemma emits_ldd: "emits (call_inside H out) (ldd_closure H bin)"
  by (auto simp: emits_def ldd_closure_def Let_def lists_libs_def)

lemma place_downward: "install_path dir bin = Inr rel \<Longrightarrow> plain_seg dir \<or> dir = ''usr/bin'' \<or> dir = ''usr/sbin'' \<Longrightarrow> downward rel"
proof -
  assume "install_path dir bin = Inr rel" and dir: "plain_seg dir \<or> dir = ''usr/bin'' \<or> dir = ''usr/sbin''"
  then obtain n where n: "file_name bin = Some n" "rel = path_join dir n" by (auto simp: install_path_def split: option.splits)
  from file_name_plain [OF n(1)] have "plain_seg n" .
  then have "path_components rel = path_components dir @ [Normal n]" by (simp add: n(2) path_components_join)
  moreover have "downward dir" using dir plain_downward by auto
  moreover have "\<not> path_is_absolute rel"
    using \<open>plain_seg n\<close> dir by (cases n; cases dir) (auto simp: n(2) path_join_def path_is_absolute_def plain_seg_def)
  ultimately show ?thesis by (simp add: downward_def)
qed

lemma add_libs_no_up: "list_all no_up libs \<Longrightarrow> list_all no_up found \<Longrightarrow> list_all no_up (fold add_lib found libs)"
  by (induction found arbitrary: libs) (auto simp: add_lib_def)

lemma install_bins_inside:
  assumes libs: "libs_downward H"
    and place: "\<And>bin rel. place bin = Inr rel \<Longrightarrow> downward rel" and st: "strictly_inside out staging"
  shows "emits (call_inside H out) (install_bins H place staging bins ls0)
    \<and> (\<forall>tr ls t. list_all no_up ls0 \<longrightarrow> install_bins H place staging bins ls0 tr = (Inr ls, t) \<longrightarrow> list_all no_up ls)"
proof (induction bins arbitrary: ls0)
  case (Cons bin bins)
  have "emits (call_inside H out) (install_bins H place staging (bin # bins) ls0)"
    using Cons place st by (auto intro!: emits_bind emits_read copy_file_inside emits_ldd join_strictly)
  moreover have "list_all no_up ls" if l: "list_all no_up ls0" and r: "install_bins H place staging (bin # bins) ls0 tr = (Inr ls, t)" for tr ls t
  proof -
    obtain found t1 t2 where f: "ldd_closure H bin t1 = (Inr found, t2)" "install_bins H place staging bins (fold add_lib found ls0) t2 = (Inr ls, t)"
      using r by (auto simp: act_bind_Inr_iff)
    have "list_all no_up found" using libs f(1) unfolding libs_downward_def by (metis fst_conv)
    from add_libs_no_up [OF l this] f(2) Cons show ?thesis by blast
  qed
  ultimately show ?case by blast
qed (simp add: emits_ret)

lemma install_bins_next:
  assumes "libs_downward H"
    and "\<And>bin rel. place bin = Inr rel \<Longrightarrow> downward rel" and "strictly_inside out staging" and "list_all no_up ls0"
    and "\<And>ls. list_all no_up ls \<Longrightarrow> emits (call_inside H out) (f ls)"
  shows "emits (call_inside H out) (act_bind (install_bins H place staging bins ls0) f)"
proof (rule emits_bind)
  have ins: "emits (call_inside H out) (install_bins H place staging bins ls0)
    \<and> (\<forall>tr ls t. list_all no_up ls0 \<longrightarrow> install_bins H place staging bins ls0 tr = (Inr ls, t) \<longrightarrow> list_all no_up ls)"
    by (rule install_bins_inside) (use assms in auto)
  show "emits (call_inside H out) (install_bins H place staging bins ls0)" using ins by blast
  fix ls tr t
  assume "install_bins H place staging bins ls0 tr = (Inr ls, t)"
  then show "emits (call_inside H out) (f ls)" using ins assms(4,5) by blast
qed

lemma libs_inside: "list_all no_up libs \<Longrightarrow> strictly_inside out staging \<Longrightarrow> emits (call_inside H' out) (act_map (copy_lib H staging) libs)"
  by (intro emits_map lib_inside) (auto simp: list_all_iff)

lemma userland_inside:
  assumes "libs_downward H" and "strictly_inside out staging"
  shows "emits (call_inside H out) (populate_userland H staging bins)"
  unfolding populate_userland_def
  by (intro install_bins_next [OF assms(1)] emits_seq libs_inside cache_inside assms(2))
    (auto simp: bin_install_path_def intro: place_downward)

lemma modules_inside:
  assumes v: "downward version" and st: "strictly_inside out staging"
    and deps: "\<And>tr s. read_text_now H (path_join (path_join root version) ''modules.dep'') tr = (Inr s, tr) \<Longrightarrow> deps_downward (parse_modules_dep s)"
  shows "emits (call_inside H out) (populate_modules H staging root version mods)"
proof -
  let ?dst = "path_join (path_join staging ''lib/modules'') version"
  have dst: "strictly_inside out ?dst" using v st by (simp add: join_strictly)
  have rest: "emits (call_inside H out) (act_bind (act_map (\<lambda>rel. copy_file H (path_join src rel) (path_join ?dst rel)) closure) (\<lambda>_.
      act_bind (do_io H (BMkdirAll ?dst)) (\<lambda>_. do_io H (BWrite (path_join ?dst ''modules.dep'') bs))))"
    if "list_all downward closure" for src closure bs
    using that join_strictly [OF dst] strictly_inside_inside [OF dst] by (intro emits_intros) (simp_all add: list_all_iff)
  have "list_all downward closure" if "read_text_now H (path_join (path_join root version) ''modules.dep'') tr = (Inr s, tr')"
    "closure_now (parse_modules_dep s) mods = Inr closure" for tr tr' s closure
  proof -
    have "tr' = tr" using that(1) by (simp add: read_text_now_def)
    with deps that(1) have "deps_downward (parse_modules_dep s)" by blast
    moreover have "module_closure (parse_modules_dep s) mods = Some (Inr closure)"
      using that(2) by (auto simp: closure_now_def split: option.splits sum.splits)
    ultimately show ?thesis using closure_members by (fastforce simp: deps_downward_def list_all_iff)
  qed
  then show ?thesis
    unfolding populate_modules_def Let_def
    by (intro emits_bind [OF emits_now(3)] emits_bind [OF emits_read] rest) (auto simp: act_read_def)
qed

lemma kernel_modules_inside:
  assumes "build_contained H spec" and "strictly_inside out staging"
  shows "emits (call_inside H out) (kernel_modules H spec staging mods)"
  unfolding kernel_modules_def
  by (intro emits_when) (use assms in \<open>auto simp: build_contained_def intro!: emits_fail modules_inside split: option.split\<close>)

lemma staged_inside:
  assumes "build_contained H spec" and "strictly_inside out staging" and "st \<in> set (ks_staged spec @ ks_initramfs_files spec)"
  shows "emits (call_inside H' out) (populate_staged H staging st)"
proof -
  have "no_up (sg_dst st)" "names_plain (bh_source H (sg_src st))"
    using assms(1,3) by (auto simp: build_contained_def list_all_iff)
  then show ?thesis
    unfolding populate_staged_def copy_tree_def no_up_def
    by (intro copy_node_inside join_strictly [OF assms(2)] below_root_downward)
qed

lemma firmware_inside:
  assumes "list_all downward blobs" and "strictly_inside out staging"
  shows "emits (call_inside H' out) (populate_firmware H staging root blobs)"
  unfolding populate_firmware_def Let_def
  by (intro emits_intros join_strictly assms(2)) (use assms(1) in \<open>auto simp: list_all_iff\<close>)

lemma mkdirs_inside:
  assumes "list_all downward ds" and "strictly_inside out staging"
  shows "emits (call_inside H' out) (act_map (\<lambda>d. do_io H (BMkdirAll (path_join staging d))) ds)"
  by (intro emits_intros) (use assms(1) join_strictly [OF assms(2)] in \<open>auto simp: list_all_iff intro: strictly_inside_inside\<close>)

lemma fill_base_inside:
  assumes c: "build_contained H spec" and st: "strictly_inside out staging"
  shows "emits (call_inside H out) (fill_base H spec staging)"
proof -
  have "emits (call_inside H out) (materialize_base H (base_skeleton spec) staging)"
    unfolding materialize_base_def by (intro emits_seq mkdirs_inside base_dirs_downward st emits_do_io) (simp add: join_strictly [OF st])
  moreover have "emits (call_inside H out) (populate_userland H staging (ks_userland spec))"
    using c by (intro userland_inside st) (auto simp: build_contained_def)
  moreover have "emits (call_inside H out) (populate_firmware H staging (ks_firmware_root spec) (ks_firmware spec))"
    using c by (intro firmware_inside st) (simp add: build_contained_def)
  ultimately show ?thesis
    unfolding fill_base_def
    by (intro emits_seq emits_when emits_ret emits_map kernel_modules_inside [OF c st] staged_inside [OF c st]) auto
qed

lemma clean_inside: "strictly_inside out staging \<Longrightarrow> emits (call_inside H' out) (clean_staging H staging)"
  unfolding clean_staging_def by (intro emits_intros) simp

lemma base_inside:
  assumes "build_contained H spec"
  shows "emits (call_inside H (ks_out spec)) (build_base H spec)"
proof -
  have st: "strictly_inside (ks_out spec) (path_join (ks_out spec) ''base.staging'')"
    and im: "strictly_inside (ks_out spec) (path_join (ks_out spec) base_image)" by (intro plain_strictly; simp)+
  show ?thesis
    unfolding build_base_def Let_def
    by (intro emits_intros clean_inside fill_base_inside assms st) (use st im in \<open>auto simp: squashfs_args_def\<close>)
qed

lemma file_name_last: "path_components p = cs @ [Normal n] \<Longrightarrow> file_name p = Some n"
  by (cases cs) (simp_all add: file_name_def)

lemma gzip_inside:
  assumes "strictly_inside out (path_join out initramfs_image)"
  shows "emits (call_inside H' out) (gzip_to H data (path_join out initramfs_image))"
proof -
  let ?o = "path_join out initramfs_image"
  have f: "path_components ?o = path_components out @ [Normal initramfs_image]" by (simp add: path_components_join)
  from file_name_last [OF f] have "file_name ?o = Some initramfs_image" .
  moreover have "inside out (case path_parent ?o of Some q \<Rightarrow> q | None \<Rightarrow> ?o)"
    using parent_inside [OF assms] assms strictly_inside_inside by (auto split: option.split)
  ultimately have tmp: "strictly_inside out (with_file_name ?o ''initramfs.cpio'')"
    unfolding with_file_name_def by (intro plain_strictly) auto
  have "emits (call_inside H' out) (\<lambda>tr. (fin tr, tr @ [BFilter ''gzip'' args (with_file_name ?o ''initramfs.cpio'') ?o,
      BRemove (with_file_name ?o ''initramfs.cpio'')]))" for fin :: "bcall list \<Rightarrow> fat_fault + unit" and args
    using tmp assms by (simp add: emits_def)
  then show ?thesis
    unfolding gzip_to_def Let_def by (intro emits_intros) (use tmp assms in auto)
qed

lemma initramfs_inside:
  assumes c: "build_contained H spec"
  shows "emits (call_inside H (ks_out spec)) (build_initramfs H spec)"
proof (cases "ks_init_bin spec")
  case (Some b)
  let ?st = "path_join (ks_out spec) ''initramfs.staging''"
  have st: "strictly_inside (ks_out spec) ?st" and im: "strictly_inside (ks_out spec) (path_join (ks_out spec) initramfs_image)"
    by (intro plain_strictly; simp)+
  have flat: "libs_downward H" using c unfolding build_contained_def by blast
  then have libs: "list_all no_up ls" if "ldd_closure H bin tr = (Inr ls, t)" for bin tr ls t
    using that unfolding libs_downward_def by (metis fst_conv)
  have bins: "emits (call_inside H (ks_out spec)) (act_bind (install_bins H bin_sbin_path ?st (ks_initramfs_bins spec) ls) (\<lambda>all.
     act_bind (act_map (copy_lib H ?st) all) (\<lambda>_. act_bind (build_ld_so_cache H ?st) (\<lambda>_.
     act_bind (kernel_modules H spec ?st (ks_initramfs_modules spec)) (\<lambda>_.
     act_bind (act_map (populate_staged H ?st) (ks_initramfs_files spec)) (\<lambda>_. act_ret ()))))))" if "list_all no_up ls" for ls
    by (intro install_bins_next emits_seq libs_inside cache_inside st kernel_modules_inside [OF c] emits_map staged_inside [OF c] emits_ret that flat)
      (auto simp: bin_sbin_path_def intro: place_downward)
  have "emits (call_inside H (ks_out spec)) (fill_initramfs H spec b ?st)"
    unfolding fill_initramfs_def
    by (intro emits_seq [OF mkdirs_inside] base_dirs_downward st emits_seq [OF copy_file_inside] join_strictly
        emits_bind [OF emits_ldd] bins) (auto intro: libs)
  then show ?thesis
    unfolding build_initramfs_def Some option.case Let_def
    by (intro emits_intros clean_inside st gzip_inside im) (use st in auto)
qed (simp add: build_initramfs_def emits_fail)

end
