(* ===== verification/KeyHome.thy ===== *)
theory KeyHome
  imports KeyInside
begin

section \<open>What a build promises its host\<close>

text \<open>
  The runs of \<open>build_base\<close>, \<open>build_initramfs\<close> and \<open>build_home\<close> as a whole: what they write, and what the
  encrypted home is made with, whatever the host answers to each call.
\<close>

subsection \<open>A call and its call_result\<close>

definition call_ok :: "build_host \<Rightarrow> bcall list \<Rightarrow> bcall \<Rightarrow> bool" where
  "call_ok H tr c \<longleftrightarrow>
     (case c of
        BTool name args key \<Rightarrow> is_ok (tool_end name (bh_run H tr c))
      | _ \<Rightarrow> bh_io H tr c = None)"

fun calls_ok :: "build_host \<Rightarrow> bcall list \<Rightarrow> bcall list \<Rightarrow> bool" where
  "calls_ok H tr [] \<longleftrightarrow> True"
| "calls_ok H tr (c # cs) \<longleftrightarrow> call_ok H tr c \<and> calls_ok H (tr @ [c]) cs"

definition call_fault :: "build_host \<Rightarrow> bcall list \<Rightarrow> bcall \<Rightarrow> fat_fault" where
  "call_fault H tr c =
     (case c of
        BTool name args key \<Rightarrow> (case tool_end name (bh_run H tr c) of Inl e \<Rightarrow> e | Inr _ \<Rightarrow> Panic)
      | _ \<Rightarrow> Fault (KbIo (the (bh_io H tr c))))"

definition call_result :: "build_host \<Rightarrow> bcall list \<Rightarrow> bcall \<Rightarrow> fat_fault + unit" where
  "call_result H tr c = (if call_ok H tr c then Inr () else Inl (call_fault H tr c))"

lemma io_outcome:
  "do_io H (BMkdirAll p) tr = (call_result H tr (BMkdirAll p), tr @ [BMkdirAll p])"
  "do_io H (BCreate p) tr = (call_result H tr (BCreate p), tr @ [BCreate p])"
  "do_io H (BSetLen p n) tr = (call_result H tr (BSetLen p n), tr @ [BSetLen p n])"
  by (simp_all add: do_io_def call_result_def call_ok_def call_fault_def split: option.split)

lemma tool_outcome:
  "run_tool H name args tr = (call_result H tr (BTool name args None), tr @ [BTool name args None])"
  "run_with_key H args key tr = (call_result H tr (BTool ''cryptsetup'' args (Some key)), tr @ [BTool ''cryptsetup'' args (Some key)])"
  by (simp_all add: run_tool_def run_with_key_def call_result_def call_ok_def call_fault_def Let_def is_ok_iff split: sum.split)

definition home_image_path :: "key_spec \<Rightarrow> string" where
  "home_image_path spec = path_join (ks_out spec) home_image"

definition home_prep :: "key_spec \<Rightarrow> bytes \<Rightarrow> bcall list" where
  "home_prep spec master =
     [BMkdirAll (ks_out spec), BCreate (home_image_path spec), BSetLen (home_image_path spec) (mib (ks_home_size_mb spec)),
      BTool ''cryptsetup'' (luks_format_args (home_image_path spec)) (Some master)]"

definition home_open :: "build_host \<Rightarrow> key_spec \<Rightarrow> bytes \<Rightarrow> bcall" where
  "home_open H spec master =
     BTool ''cryptsetup'' (luks_open_args (home_image_path spec) (home_mapper_name H)) (Some master)"

definition home_fill :: "build_host \<Rightarrow> bcall" where
  "home_fill H = BTool ''mkfs.ext4'' [''-F'', ''-q'', ''-L'', home_label, mapper_path (home_mapper_name H)] None"

definition home_close :: "build_host \<Rightarrow> bcall" where
  "home_close H = BTool ''cryptsetup'' (luks_close_args (home_mapper_name H)) None"

lemma bind_outcome:
  "m tr = (call_result H tr c, tr @ [c]) \<Longrightarrow>
    act_bind m f tr = (if call_ok H tr c then f () (tr @ [c]) else (Inl (call_fault H tr c), tr @ [c]))"
  by (simp add: act_bind_def call_result_def)

lemma home_after_open:
  "act_bind (keep_result (run_tool H ''mkfs.ext4'' [''-F'', ''-q'', ''-L'', home_label, mapper_path (home_mapper_name H)])) (\<lambda>mkfs.
      act_bind (luks_shut H (home_mapper_name H)) (\<lambda>_. act_bind (act_read (\<lambda>_. mkfs)) (\<lambda>_. act_ret out))) tr =
    (if call_ok H (tr @ [home_fill H]) (home_close H)
     then (case call_result H tr (home_fill H) of Inl e \<Rightarrow> Inl e | Inr _ \<Rightarrow> Inr out)
     else Inl (call_fault H (tr @ [home_fill H]) (home_close H)), tr @ [home_fill H, home_close H])"
  unfolding home_fill_def home_close_def
  by (simp add: act_bind_def keep_result_def luks_shut_def tool_outcome call_result_def)

lemma home_steps:
  "build_home H spec master tr =
    (let prep = home_prep spec master; opened = tr @ prep @ [home_open H spec master];
         all = opened @ [home_fill H, home_close H] in
     if \<not> call_ok H tr (prep ! 0) then (Inl (call_fault H tr (prep ! 0)), tr @ take 1 prep)
     else if \<not> call_ok H (tr @ take 1 prep) (prep ! 1) then (Inl (call_fault H (tr @ take 1 prep) (prep ! 1)), tr @ take 2 prep)
     else if \<not> call_ok H (tr @ take 2 prep) (prep ! 2) then (Inl (call_fault H (tr @ take 2 prep) (prep ! 2)), tr @ take 3 prep)
     else if \<not> call_ok H (tr @ take 3 prep) (prep ! 3) then (Inl (call_fault H (tr @ take 3 prep) (prep ! 3)), tr @ prep)
     else if \<not> call_ok H (tr @ prep) (home_open H spec master) then (Inl (call_fault H (tr @ prep) (home_open H spec master)), opened)
     else if \<not> call_ok H (opened @ [home_fill H]) (home_close H) then (Inl (call_fault H (opened @ [home_fill H]) (home_close H)), all)
     else (case call_result H opened (home_fill H) of Inl e \<Rightarrow> Inl e | Inr _ \<Rightarrow> Inr (home_image_path spec), all))"
proof -
  have open_bind: "act_bind (luks_unlock H out master mapper) f t =
      (if call_ok H t (BTool ''cryptsetup'' (luks_open_args out mapper) (Some master))
       then f (mapper_path mapper) (t @ [BTool ''cryptsetup'' (luks_open_args out mapper) (Some master)])
       else (Inl (call_fault H t (BTool ''cryptsetup'' (luks_open_args out mapper) (Some master))),
         t @ [BTool ''cryptsetup'' (luks_open_args out mapper) (Some master)]))" for out mapper f t
    by (simp add: luks_unlock_def act_bind_def tool_outcome call_result_def)
  show ?thesis
    unfolding build_home_def Let_def luks_format_def
    by (simp only: bind_outcome [OF io_outcome(1)] bind_outcome [OF io_outcome(2)] bind_outcome [OF io_outcome(3)]
        bind_outcome [OF tool_outcome(2)] open_bind home_after_open)
      (simp add: home_prep_def home_open_def home_image_path_def numeral_eq_Suc split: sum.split)
qed

subsection \<open>The encrypted home\<close>

definition home_calls :: "build_host \<Rightarrow> key_spec \<Rightarrow> bytes \<Rightarrow> bcall list" where
  "home_calls H spec master = home_prep spec master @ [home_open H spec master, home_fill H, home_close H]"

definition key_on_stdin :: "bytes \<Rightarrow> bcall \<Rightarrow> bool" where
  "key_on_stdin master c \<longleftrightarrow>
     (case c of
        BWrite p bs \<Rightarrow> False
      | BTool prog args (Some key) \<Rightarrow>
          prog = ''cryptsetup'' \<and> key = master \<and> sublist [''--key-file'', ''-'', ''--keyfile-size'', show_nat 32] args
      | _ \<Rightarrow> True)"

lemma home_calls_stdin: "list_all (key_on_stdin master) (home_calls H spec master)"
proof -
  have "sublist [''--key-file'', ''-'', ''--keyfile-size'', show_nat 32] (luks_format_args p)" for p
    by (simp add: luks_format_args_def master_key_size_def sublist_Cons_right)
  moreover have "sublist [''--key-file'', ''-'', ''--keyfile-size'', show_nat 32] (luks_open_args p m)" for p m
    by (simp add: luks_open_args_def master_key_size_def sublist_Cons_right)
  ultimately show ?thesis
    by (simp add: home_calls_def home_prep_def home_open_def home_fill_def home_close_def key_on_stdin_def)
qed

lemma home_run_cases:
  assumes "build_home H spec master tr = (r, t)"
  shows "\<exists>cs. t = tr @ cs \<and> prefix cs (home_calls H spec master)"
    and "calls_ok H tr (home_prep spec master @ [home_open H spec master]) \<Longrightarrow> t = tr @ home_calls H spec master"
    and "is_ok r \<longleftrightarrow> calls_ok H tr (home_calls H spec master)"
    and "r = Inr x \<Longrightarrow> x = home_image_path spec"
proof -
  obtain a b c d where p: "home_prep spec master = [a, b, c, d]" by (simp add: home_prep_def)
  note steps = assms [unfolded home_steps p Let_def, simplified]
  have n: "take 3 [a, b, c, d] = [a, b, c]" "take 2 [a, b, c, d] = [a, b]" "take (Suc 0) [a, b, c, d] = [a]" by (simp_all add: numeral_eq_Suc)
  show "\<exists>cs. t = tr @ cs \<and> prefix cs (home_calls H spec master)"
    using steps by (auto simp: home_calls_def p numeral_eq_Suc split: if_splits)
  show "t = tr @ home_calls H spec master" if "calls_ok H tr (home_prep spec master @ [home_open H spec master])"
    using that steps by (auto simp: home_calls_def p n numeral_eq_Suc call_result_def split: if_splits)
  show "is_ok r \<longleftrightarrow> calls_ok H tr (home_calls H spec master)"
    using steps by (auto simp: home_calls_def p n numeral_eq_Suc call_result_def split: if_splits)
  show "x = home_image_path spec" if "r = Inr x"
    using that steps by (auto simp: call_result_def split: if_splits)
qed

lemma home_key_only:
  assumes "build_home H spec master tr = (r, t)"
  shows "\<exists>cs. t = tr @ cs \<and> prefix cs (home_calls H spec master) \<and> list_all (key_on_stdin master) cs"
  using home_run_cases(1) [OF assms] home_calls_stdin [of master H spec]
  by (auto simp: prefix_def)

lemma provisioned_unlocks:
  "provision_master X fs store pass = Inr master \<and> ask w = (Inr pass, w') \<Longrightarrow>
    unlock_passphrase X fs store ask (st, w) = (Inr (master, MPassphrase), (st, w'))"
  by (simp add: provision_master_def unlock_passphrase_def res_map_err_Inr_iff)

text \<open>C32.  The home is made with the identity's key and left closed: whatever the host answers, \<open>build_home\<close> makes
  a prefix of seven calls (directory, file, size, \<open>luksFormat\<close>, \<open>luksOpen\<close>, \<open>mkfs.ext4\<close>, \<open>luksClose\<close>), and
  succeeds with the path of the image exactly when all seven went well.  Once the layer was opened it is
  closed again, also when the file system could not be made.  The key is in no file and no argument: only
  cryptsetup gets it, on its standard input, told to read 32 bytes of it from there.  And a master
  provisioned from a store is the one a boot recovers from that store with the same passphrase.\<close>

theorem home_made_and_closed:
  assumes "build_home H spec master tr = (r, t)"
  shows "(\<exists>cs. t = tr @ cs \<and> prefix cs (home_calls H spec master) \<and> list_all (key_on_stdin master) cs)
    \<and> (calls_ok H tr (home_prep spec master @ [home_open H spec master]) \<longrightarrow> t = tr @ home_calls H spec master)
    \<and> (r = Inr (home_image_path spec) \<longleftrightarrow> calls_ok H tr (home_calls H spec master))
    \<and> (\<forall>X fs store pass ask w w'. provision_master X fs store pass = Inr master \<and> ask w = (Inr pass, w') \<longrightarrow>
         unlock_passphrase X fs store ask (st, w) = (Inr (master, MPassphrase), (st, w')))"
proof -
  have "r = Inr (home_image_path spec) \<longleftrightarrow> is_ok r" using home_run_cases(4) [OF assms] by (auto simp: is_ok_iff)
  then have "r = Inr (home_image_path spec) \<longleftrightarrow> calls_ok H tr (home_calls H spec master)"
    using home_run_cases(3) [OF assms] by simp
  then show ?thesis
    by (intro conjI allI impI home_key_only [OF assms] home_run_cases(2) [OF assms] provisioned_unlocks) simp_all
qed

definition ready_host :: build_host where
  "ready_host =
     \<lparr>bh_io = (\<lambda>_ _. None), bh_run = (\<lambda>_ _. Exited (Some 0) [] []), bh_file = (\<lambda>_ _. None), bh_dir = (\<lambda>_ _. False),
      bh_source = (\<lambda>_. SnFile), bh_staging = (\<lambda>_ _. []), bh_import = \<lparr>im_missing = (\<lambda>_. []), im_special = (\<lambda>_. Inl [])\<rparr>,
      bh_loader = None, bh_pid = 7, bh_seq = 0\<rparr>"

lemma ready_calls: "calls_ok ready_host tr cs"
  by (induction cs arbitrary: tr) (simp_all add: call_ok_def ready_host_def tool_end_def split: bcall.split)

theorem home_made_witness:
  "\<exists>t. build_home ready_host demo_key (replicate 32 7) [] = (Inr (home_image_path demo_key), t)
    \<and> t = home_calls ready_host demo_key (replicate 32 7)"
proof -
  obtain r t where b: "build_home ready_host demo_key (replicate 32 7) [] = (r, t)" by fastforce
  note run = home_made_and_closed [OF b, where st = "()"]
  have "r = Inr (home_image_path demo_key)"
    using run [THEN conjunct2, THEN conjunct2, THEN conjunct1] ready_calls by simp
  moreover have "t = home_calls ready_host demo_key (replicate 32 7)"
    using run [THEN conjunct2, THEN conjunct1] ready_calls by simp
  ultimately show ?thesis using b by blast
qed

subsection \<open>The staged builds\<close>

text \<open>C33.  A build stays in its output directory: for a specification whose firmware names, kernel version and staged
  targets do not lead up, and a host whose dependency lists and library paths do not either, every call
  of \<open>build_base\<close> and of \<open>build_initramfs\<close>, whatever fails on the way, is one that lists libraries or that
  makes, removes, copies to or writes a path inside the output directory; the external tools are the
  lister, \<open>ldconfig\<close> on the staging directory, \<open>mksquashfs\<close> and \<open>gzip\<close> with a target inside it, and no tool is fed a
  key.\<close>

theorem builds_stay_inside:
  assumes "build_contained H spec"
  shows "\<exists>cs ds. snd (build_base H spec tr) = tr @ cs \<and> snd (build_initramfs H spec tr) = tr @ ds
    \<and> list_all (call_inside H (ks_out spec)) (cs @ ds)"
  using base_inside [OF assms] initramfs_inside [OF assms] unfolding emits_def list_all_append by metis

definition demo_staged_key :: key_spec where
  "demo_staged_key = demo_key\<lparr>ks_userland := [''/bin/sh''], ks_firmware := [''net/a.bin''],
     ks_staged := [\<lparr>sg_src = ''/usr/share/X11/xkb'', sg_dst = ''/usr/share/X11/xkb''\<rparr>], ks_init_bin := Some ''init''\<rparr>"

lemma demo_contained: "build_contained ready_host demo_staged_key"
proof -
  have "parse_ldd (lossy_text []) = []" by (simp add: parse_ldd_def lossy_text_def str_lines_def utf8_lossy.simps bytes_str_def)
  then have "libs_downward ready_host"
    by (auto simp: libs_downward_def ldd_closure_def ldd_end_def ready_host_def Let_def)
  then show ?thesis
    by (simp add: build_contained_def demo_staged_key_def demo_key_def key_spec_new_def ready_host_def no_up_def downward_def
        path_is_absolute_def path_components_def seg_comp_def)
qed

theorem builds_stay_witness:
  "\<exists>cs ds. snd (build_base ready_host demo_staged_key []) = cs \<and> snd (build_initramfs ready_host demo_staged_key []) = ds
    \<and> list_all (call_inside ready_host ''out'') (cs @ ds)"
  using builds_stay_inside [OF demo_contained, of "[]"] by (auto simp: demo_staged_key_def demo_key_def key_spec_new_def)

end
