(* ===== verification/Cells.thy ===== *)
theory Cells
  imports Strings
begin

section \<open>Cells: a world with only what was granted\<close>

text \<open>
  \<open>crates/cells/src/lib.rs\<close>, \<open>linux.rs\<close> and \<open>error.rs\<close>.  A cell is built by two processes, A (which
  creates the namespaces) and B (which builds the world and becomes the payload); what they ask of the
  kernel is a list of calls, and the kernel a record of functions of the calls made so far.  The
  error number of a failed call is the \<open>i32\<close> the code reads; a failed step ends the process that made it.
  Forks and pipes that succeed are not calls of the list.
\<close>

datatype cell_error = CeIo string | CeConfine string | CeSeccomp string | CeUnsupported

definition cell_error_text :: "cell_error \<Rightarrow> string" where
  "cell_error_text e =
     (case e of
        CeIo s \<Rightarrow> ''io: '' @ s
      | CeConfine s \<Rightarrow> ''confine: '' @ s
      | CeSeccomp s \<Rightarrow> ''seccomp: '' @ s
      | CeUnsupported \<Rightarrow> ''cells need Linux; this host has no confinement'')"

subsection \<open>The specification of a cell\<close>

record bind_mount =
  bi_src :: string
  bi_dst :: string
  bi_writable :: bool

datatype seccomp = ScNone | ScBlock "64 word list"

type_synonym i32 = "32 word"

record cell =
  ce_binds :: "bind_mount list"
  ce_keep_fds :: "int list"
  ce_seccomp :: seccomp
  ce_hostname :: "string option"
  ce_mount_proc :: bool
  ce_mount_dev :: bool

definition cell_new :: cell where
  "cell_new =
     \<lparr>ce_binds = [], ce_keep_fds = [], ce_seccomp = ScNone, ce_hostname = None,
      ce_mount_proc = False, ce_mount_dev = False\<rparr>"

definition bind_ro :: "string \<Rightarrow> string \<Rightarrow> cell \<Rightarrow> cell" where
  "bind_ro src dst c = c\<lparr>ce_binds := ce_binds c @ [\<lparr>bi_src = src, bi_dst = dst, bi_writable = False\<rparr>]\<rparr>"

definition bind_rw :: "string \<Rightarrow> string \<Rightarrow> cell \<Rightarrow> cell" where
  "bind_rw src dst c = c\<lparr>ce_binds := ce_binds c @ [\<lparr>bi_src = src, bi_dst = dst, bi_writable = True\<rparr>]\<rparr>"

definition keep_fd :: "int \<Rightarrow> cell \<Rightarrow> cell" where
  "keep_fd fd c = c\<lparr>ce_keep_fds := ce_keep_fds c @ [fd]\<rparr>"

definition with_seccomp :: "seccomp \<Rightarrow> cell \<Rightarrow> cell" where
  "with_seccomp s c = c\<lparr>ce_seccomp := s\<rparr>"

definition with_hostname :: "string \<Rightarrow> cell \<Rightarrow> cell" where
  "with_hostname name c = c\<lparr>ce_hostname := Some name\<rparr>"

definition mount_proc_dir :: "cell \<Rightarrow> cell" where
  "mount_proc_dir c = c\<lparr>ce_mount_proc := True\<rparr>"

definition mount_dev_dir :: "cell \<Rightarrow> cell" where
  "mount_dev_dir c = c\<lparr>ce_mount_dev := True\<rparr>"

definition host_dirs :: "string list" where
  "host_dirs = [''/usr'', ''/bin'', ''/sbin'', ''/lib'', ''/lib64'', ''/lib32'', ''/etc'']"

text \<open>\<open>there\<close> says which of the directories exist on the host.\<close>

definition bind_host_system :: "(string \<Rightarrow> bool) \<Rightarrow> cell \<Rightarrow> cell" where
  "bind_host_system there c =
     mount_dev_dir (mount_proc_dir (fold (\<lambda>dir c. if there dir then bind_ro dir dir c else c) host_dirs c))"

subsection \<open>Calls\<close>

datatype clone_flag = NewUser | NewNs | NewPid | NewNet | NewIpc | NewUts | NewCgroup

datatype mount_flag =
    MfRdonly | MfNosuid | MfNodev | MfNoexec | MfNoatime | MfNodiratime | MfRelatime
  | MfBind | MfRec | MfRemount | MfPrivate

text \<open>What runs in the cell: a program, or a closure, which is the way it ends as a function of the
  calls made before it.\<close>

datatype ended = Returns i32 | Killed i32

datatype cell_call =
    CcUnshare "clone_flag set"
  | CcWrite string string
  | CcMkdirAll string
  | CcMount "string option" string "string option" "mount_flag set"
  | CcSymlink string string
  | CcChdir string
  | CcPivotRoot string string
  | CcUmountDetach string
  | CcRemoveDir string
  | CcSethostname string
  | CcNoNewPrivs
  | CcSeccomp "64 word list"
  | CcClearCloexec int
  | CcSetCloexecErr
  | CcCloseErr
  | CcClose int
  | CcExec string "string list" "string list"
  | CcRun

datatype payload =
    PlExec string "string list" "(string \<times> string) list"
  | PlCall "cell_call list \<Rightarrow> ended"

text \<open>What \<open>waitpid\<close> says of B.\<close>

datatype wait_status = WExited i32 | WSignaled i32 | WOther

record kernel =
  kn_call :: "cell_call list \<Rightarrow> cell_call \<Rightarrow> i32 option"
  kn_is_dir :: "cell_call list \<Rightarrow> string \<Rightarrow> bool"
  kn_statvfs :: "cell_call list \<Rightarrow> string \<Rightarrow> mount_flag set option"
  kn_fork :: "i32 option"
  kn_pipe :: bool
  kn_uid :: nat
  kn_gid :: nat
  kn_open_max :: int
  kn_err_fd :: int
  kn_program :: "cell_call list \<Rightarrow> wait_status"
  kn_os_error :: "i32 \<Rightarrow> string"
  kn_spawn :: "cell_error option"

text \<open>\<open>kn_fork\<close> and \<open>kn_pipe\<close> are the second fork and pipe, made by A; \<open>kn_spawn\<close> is what the supervisor's own
  pipe and fork come to.  \<open>kn_os_error\<close> is the text of an error number.\<close>

type_synonym step_error = "i32 \<times> i32"
type_synonym 'a world_action = "(cell_call list, step_error, 'a) action"

definition s_unshare :: i32 where "s_unshare = 1"
definition s_map :: i32 where "s_map = 2"
definition s_private :: i32 where "s_private = 3"
definition s_tmpfs :: i32 where "s_tmpfs = 4"
definition s_mkdir :: i32 where "s_mkdir = 5"
definition s_bind :: i32 where "s_bind = 6"
definition s_pivot :: i32 where "s_pivot = 7"
definition s_hostname :: i32 where "s_hostname = 8"
definition s_fork :: i32 where "s_fork = 9"
definition s_nopriv :: i32 where "s_nopriv = 11"
definition s_seccomp :: i32 where "s_seccomp = 12"
definition s_exec :: i32 where "s_exec = 13"
definition s_dev :: i32 where "s_dev = 14"
definition s_proc :: i32 where "s_proc = 15"

definition step_name :: "i32 \<Rightarrow> string" where
  "step_name s =
     (if s = s_unshare then ''unshare namespaces''
      else if s = s_map then ''write uid/gid map''
      else if s = s_private then ''make mounts private''
      else if s = s_tmpfs then ''mount tmpfs root''
      else if s = s_mkdir then ''create cell dir''
      else if s = s_bind then ''bind grant into cell''
      else if s = s_pivot then ''pivot_root''
      else if s = s_hostname then ''set hostname''
      else if s = s_fork then ''fork payload''
      else if s = s_nopriv then ''set no_new_privs''
      else if s = s_seccomp then ''install seccomp filter''
      else if s = s_exec then ''exec payload''
      else if s = s_dev then ''set up /dev''
      else if s = s_proc then ''mount /proc''
      else ''unknown step'')"

text \<open>A call whose failure ends the process with a step, and one whose failure is ignored.\<close>

definition kcall :: "kernel \<Rightarrow> i32 \<Rightarrow> cell_call \<Rightarrow> unit world_action" where
  "kcall K step c tr =
     (case kn_call K tr c of None \<Rightarrow> (Inr (), tr @ [c]) | Some e \<Rightarrow> (Inl (step, e), tr @ [c]))"

definition kcall_ignore :: "cell_call \<Rightarrow> unit world_action" where
  "kcall_ignore c tr = (Inr (), tr @ [c])"

subsection \<open>The pieces of the world\<close>

definition write_maps :: "kernel \<Rightarrow> unit world_action" where
  "write_maps K =
     act_bind (kcall K s_map (CcWrite ''/proc/self/setgroups'' ''deny'')) (\<lambda>_.
     act_bind (kcall K s_map (CcWrite ''/proc/self/gid_map'' (''0 '' @ show_nat (kn_gid K) @ '' 1'' @ [CHR 0x0A]))) (\<lambda>_.
       kcall K s_map (CcWrite ''/proc/self/uid_map'' (''0 '' @ show_nat (kn_uid K) @ '' 1'' @ [CHR 0x0A]))))"

text \<open>\<open>Path::parent\<close> of an absolute path: its last component is dropped, and empty or \<open>.\<close> ones next to it.\<close>

definition abs_parent :: "string \<Rightarrow> string option" where
  "abs_parent p =
     (let blank = (\<lambda>s. s = [] \<or> s = ''.'') in
      case dropWhile blank (rev (split_on CHR ''/'' p)) of
        [] \<Rightarrow> None
      | _ # ss \<Rightarrow>
          Some (case dropWhile blank ss of [] \<Rightarrow> ''/'' | ss' \<Rightarrow> join_with ''/'' (rev ss')))"

definition mkdirs :: "kernel \<Rightarrow> i32 \<Rightarrow> string \<Rightarrow> unit world_action" where
  "mkdirs K step p = kcall K step (CcMkdirAll p)"

definition bind_target :: "string \<Rightarrow> bind_mount \<Rightarrow> string" where
  "bind_target stage b =
     (let dst = to_string_lossy (bi_dst b)
      in stage @ (if take 1 dst = ''/'' then dst else ''/'' @ dst))"

definition locked_flags :: "kernel \<Rightarrow> string \<Rightarrow> cell_call list \<Rightarrow> mount_flag set" where
  "locked_flags K target tr =
     (case kn_statvfs K tr target of
        None \<Rightarrow> {}
      | Some f \<Rightarrow> f \<inter> {MfNosuid, MfNodev, MfNoexec, MfNoatime, MfNodiratime, MfRelatime})"

definition bind_into :: "kernel \<Rightarrow> string \<Rightarrow> bind_mount \<Rightarrow> unit world_action" where
  "bind_into K stage b =
     (let target = bind_target stage b in
      act_bind (\<lambda>tr. (Inr (kn_is_dir K tr (bi_src b)), tr)) (\<lambda>is_dir.
      act_bind
        (if is_dir then mkdirs K s_mkdir target
         else
           act_bind (case abs_parent target of
               Some parent \<Rightarrow> mkdirs K s_mkdir (to_string_lossy parent)
             | None \<Rightarrow> act_ret ()) (\<lambda>_.
             kcall K s_mkdir (CcWrite target []))) (\<lambda>_.
      act_bind (kcall K s_bind (CcMount (Some (bi_src b)) target None {MfBind, MfRec})) (\<lambda>_.
        if bi_writable b then act_ret ()
        else
          act_bind (\<lambda>tr. (Inr (locked_flags K target tr), tr)) (\<lambda>locked.
            kcall K s_bind (CcMount None target None ({MfRemount, MfBind, MfRdonly} \<union> locked)))))))"

definition dev_names :: "string list" where
  "dev_names = [''null'', ''zero'', ''full'', ''random'', ''urandom'', ''tty'']"

definition dev_bind :: "string \<Rightarrow> bind_mount" where
  "dev_bind name = \<lparr>bi_src = ''/dev/'' @ name, bi_dst = ''/dev/'' @ name, bi_writable = True\<rparr>"

definition dev_links :: "(string \<times> string) list" where
  "dev_links =
     [(''fd'', ''/proc/self/fd''), (''stdin'', ''/proc/self/fd/0''),
      (''stdout'', ''/proc/self/fd/1''), (''stderr'', ''/proc/self/fd/2'')]"

definition dev_into :: "kernel \<Rightarrow> string \<Rightarrow> unit world_action" where
  "dev_into K stage =
     act_bind (mkdirs K s_dev (stage @ ''/dev'')) (\<lambda>_.
     act_bind (act_map (\<lambda>name. act_map_err (\<lambda>(_, c). (s_dev, c)) (bind_into K stage (dev_bind name))) dev_names) (\<lambda>_.
     act_bind (act_map (\<lambda>(link, dst). kcall_ignore (CcSymlink dst (stage @ ''/dev/'' @ link))) dev_links) (\<lambda>_.
       act_ret ())))"

definition proc_into :: "kernel \<Rightarrow> string \<Rightarrow> unit world_action" where
  "proc_into K stage =
     act_bind (mkdirs K s_proc (stage @ ''/proc'')) (\<lambda>_.
       kcall K s_proc (CcMount (Some ''proc'') (stage @ ''/proc'') (Some ''proc'') {MfNosuid, MfNoexec, MfNodev}))"

definition put_old :: string where "put_old = ''oldroot''"

definition pivot :: "kernel \<Rightarrow> string \<Rightarrow> unit world_action" where
  "pivot K stage =
     act_bind (kcall K s_pivot (CcChdir stage)) (\<lambda>_.
     act_bind (kcall K s_pivot (CcPivotRoot ''.'' put_old)) (\<lambda>_.
     act_bind (kcall K s_pivot (CcChdir ''/'')) (\<lambda>_.
     act_bind (kcall K s_pivot (CcUmountDetach (''/'' @ put_old))) (\<lambda>_.
       kcall_ignore (CcRemoveDir (''/'' @ put_old))))))"

text \<open>At most the descriptors below 4096 are closed, whatever the limit of the process is.\<close>

definition fd_limit :: "kernel \<Rightarrow> int" where
  "fd_limit K = (if kn_open_max K \<le> 0 then 1024 else min (kn_open_max K) 4096)"

definition keep_only :: "kernel \<Rightarrow> int list \<Rightarrow> unit world_action" where
  "keep_only K keep =
     act_bind (act_map (\<lambda>fd. kcall_ignore (CcClearCloexec fd)) keep) (\<lambda>_.
     act_bind (act_map (\<lambda>fd. if fd = kn_err_fd K \<or> fd \<in> set keep then act_ret () else kcall_ignore (CcClose fd))
         [3..fd_limit K - 1]) (\<lambda>_.
       act_ret ()))"

subsection \<open>Process B\<close>

definition act_when :: "bool \<Rightarrow> unit world_action \<Rightarrow> unit world_action" where
  "act_when b m = (if b then m else act_ret ())"

definition build_world :: "kernel \<Rightarrow> string \<Rightarrow> cell \<Rightarrow> unit world_action" where
  "build_world K stage c =
     act_bind (kcall K s_private (CcMount None ''/'' None {MfRec, MfPrivate})) (\<lambda>_.
     act_bind (mkdirs K s_mkdir stage) (\<lambda>_.
     act_bind (kcall K s_tmpfs (CcMount (Some ''tmpfs'') stage (Some ''tmpfs'') {MfNosuid, MfNodev})) (\<lambda>_.
     act_bind (mkdirs K s_mkdir (stage @ ''/'' @ put_old)) (\<lambda>_.
     act_bind (act_map (bind_into K stage) (ce_binds c)) (\<lambda>_.
     act_bind (act_when (ce_mount_dev c) (dev_into K stage)) (\<lambda>_.
       act_when (ce_mount_proc c) (proc_into K stage)))))))"

definition lock_down :: "kernel \<Rightarrow> string \<Rightarrow> cell \<Rightarrow> unit world_action" where
  "lock_down K stage c =
     act_bind (pivot K stage) (\<lambda>_.
     act_bind (case ce_hostname c of None \<Rightarrow> act_ret () | Some name \<Rightarrow> kcall K s_hostname (CcSethostname name)) (\<lambda>_.
     act_bind (kcall K s_nopriv CcNoNewPrivs) (\<lambda>_.
     act_bind (case ce_seccomp c of
         ScNone \<Rightarrow> act_ret ()
       | ScBlock nrs \<Rightarrow> act_map_err (\<lambda>_. (s_seccomp, -1)) (kcall K s_seccomp (CcSeccomp nrs))) (\<lambda>_.
       keep_only K (ce_keep_fds c)))))"

definition einval :: i32 where "einval = 22"

definition join_kv :: "string \<Rightarrow> string \<Rightarrow> string" where
  "join_kv k v = k @ CHR ''='' # v"

text \<open>A string with a NUL byte inside becomes the empty string.\<close>

definition cstrings :: "string list \<Rightarrow> string list" where
  "cstrings = map (\<lambda>s. if CHR 0x00 \<in> set s then [] else s)"

text \<open>The payload: what \<open>waitpid\<close> will say of B when it got to run; only the low byte of an exit code
  reaches the parent.\<close>

definition exit_status :: "i32 \<Rightarrow> wait_status" where
  "exit_status code = WExited (code AND 0xFF)"

definition run_payload :: "kernel \<Rightarrow> payload \<Rightarrow> wait_status world_action" where
  "run_payload K p =
     (case p of
        PlCall f \<Rightarrow>
          act_bind (kcall_ignore CcCloseErr) (\<lambda>_ tr.
            (Inr (case f tr of Returns code \<Rightarrow> exit_status code | Killed sig \<Rightarrow> WSignaled sig), tr @ [CcRun]))
      | PlExec path argv env \<Rightarrow>
          act_bind (kcall_ignore CcSetCloexecErr) (\<lambda>_.
            if CHR 0x00 \<in> set path then act_fail (s_exec, einval)
            else
              act_bind (kcall K s_exec (CcExec path (cstrings argv) (cstrings (map (\<lambda>(k, v). join_kv k v) env)))) (\<lambda>_ tr.
                (Inr (kn_program K tr), tr))))"

definition build_world_and_run :: "kernel \<Rightarrow> string \<Rightarrow> cell \<Rightarrow> payload \<Rightarrow> wait_status world_action" where
  "build_world_and_run K stage c p =
     act_bind (build_world K stage c) (\<lambda>_.
     act_bind (lock_down K stage c) (\<lambda>_. run_payload K p))"

subsection \<open>Process A and the report\<close>

definition r_exited :: i32 where "r_exited = 0"
definition r_signaled :: i32 where "r_signaled = 1"
definition r_setup_err :: i32 where "r_setup_err = 2"

definition write_report :: "i32 \<Rightarrow> i32 \<Rightarrow> i32 \<Rightarrow> bytes" where
  "write_report kind a b = le_bytes 4 kind @ le_bytes 4 a @ le_bytes 4 b"

definition emit :: "i32 \<Rightarrow> i32 \<Rightarrow> bytes" where
  "emit step e = le_bytes 4 step @ le_bytes 4 e"

text \<open>What B leaves behind: the bytes on the error pipe and its wait status.\<close>

definition b_ends :: "(step_error + wait_status) \<Rightarrow> bytes \<times> wait_status" where
  "b_ends r = (case r of Inl (step, e) \<Rightarrow> (emit step e, exit_status 127) | Inr st \<Rightarrow> ([], st))"

definition bridge :: "bytes \<Rightarrow> wait_status \<Rightarrow> bytes" where
  "bridge pipe st =
     (let buf = take 8 pipe in
      if length buf = 8 then write_report r_setup_err (from_le (take 4 buf)) (from_le (drop 4 buf))
      else
        (case st of
           WExited code \<Rightarrow> write_report r_exited code 0
         | WSignaled sig \<Rightarrow> write_report r_signaled sig 0
         | WOther \<Rightarrow> write_report r_setup_err s_fork 0))"

definition all_namespaces :: "clone_flag set" where
  "all_namespaces = {NewUser, NewNs, NewPid, NewNet, NewIpc, NewUts, NewCgroup}"

definition enter_namespaces :: "kernel \<Rightarrow> unit world_action" where
  "enter_namespaces K =
     act_bind (kcall K s_unshare (CcUnshare all_namespaces)) (\<lambda>_. write_maps K)"

definition cell_init :: "kernel \<Rightarrow> string \<Rightarrow> cell \<Rightarrow> payload \<Rightarrow> cell_call list \<Rightarrow> bytes \<times> cell_call list" where
  "cell_init K stage c p tr =
     (case enter_namespaces K tr of
        (Inl (step, e), tr') \<Rightarrow> (write_report r_setup_err step e, tr')
      | (Inr _, tr') \<Rightarrow>
          if \<not> kn_pipe K then (write_report r_setup_err s_fork 0, tr')
          else
            (case kn_fork K of
               Some e \<Rightarrow> (write_report r_setup_err s_fork e, tr')
             | None \<Rightarrow>
                 (case build_world_and_run K stage c p tr' of
                    (r, tr'') \<Rightarrow> (case b_ends r of (pipe, st) \<Rightarrow> (bridge pipe st, tr'')))))"

subsection \<open>The supervisor\<close>

record cell_status =
  cs_code :: "i32 option"
  cs_signal :: "i32 option"

definition status_success :: "cell_status \<Rightarrow> bool" where
  "status_success s \<longleftrightarrow> cs_code s = Some 0"

definition read_report :: "kernel \<Rightarrow> bytes \<Rightarrow> cell_error + cell_status" where
  "read_report K bs =
     (let buf = take 12 bs; kind = from_le (take 4 buf); a = from_le (take 4 (drop 4 buf)); b = from_le (drop 8 buf) in
      if length buf \<noteq> 12 then Inl (CeConfine ''cell died before reporting'')
      else if kind = r_exited then Inr \<lparr>cs_code = Some a, cs_signal = None\<rparr>
      else if kind = r_signaled then Inr \<lparr>cs_code = None, cs_signal = Some a\<rparr>
      else if kind = r_setup_err then
        Inl (CeConfine (if 0 <s b then step_name a @ '': '' @ kn_os_error K b else step_name a))
      else Inl (CeConfine ''garbled cell report''))"

definition cell_run :: "kernel \<Rightarrow> string \<Rightarrow> cell \<Rightarrow> payload \<Rightarrow> (cell_error + cell_status) \<times> cell_call list" where
  "cell_run K stage c p =
     (case kn_spawn K of
        Some e \<Rightarrow> (Inl e, [])
      | None \<Rightarrow> (case cell_init K stage c p [] of (report, tr) \<Rightarrow> (read_report K report, tr)))"

definition available :: "kernel \<Rightarrow> string \<Rightarrow> bool" where
  "available K stage \<longleftrightarrow>
     (case fst (cell_run K stage cell_new (PlCall (\<lambda>_. Returns 0))) of
        Inr st \<Rightarrow> cs_code st = Some 0
      | Inl _ \<Rightarrow> False)"

text \<open>The handle of a running cell, and what its owner does with it.\<close>

datatype sup_call = SuPoll | SuWait | SuReadReport | SuCloseReport | SuRemoveStage string

datatype poll = StillAlive | Reaped | NoChild | PollError string

record child_handle =
  ch_stage :: string
  ch_collected :: bool

definition collect :: "child_handle \<Rightarrow> sup_call list \<Rightarrow> child_handle \<times> sup_call list" where
  "collect h tr = (h\<lparr>ch_collected := True\<rparr>, tr @ [SuCloseReport, SuRemoveStage (ch_stage h)])"

definition try_wait ::
  "kernel \<Rightarrow> bytes \<Rightarrow> poll \<Rightarrow> (child_handle \<times> sup_call list, cell_error, cell_status option) action" where
  "try_wait K report answer s =
     (case s of (h, tr) \<Rightarrow>
        if ch_collected h then (Inr None, s)
        else
          (case answer of
             StillAlive \<Rightarrow> (Inr None, h, tr @ [SuPoll])
           | Reaped \<Rightarrow>
               (case read_report K report of
                  Inl e \<Rightarrow> (Inl e, collect h (tr @ [SuPoll, SuReadReport]))
                | Inr st \<Rightarrow> (Inr (Some st), collect h (tr @ [SuPoll, SuReadReport])))
           | NoChild \<Rightarrow> (Inr None, collect h (tr @ [SuPoll]))
           | PollError e \<Rightarrow> (Inl (CeConfine (''try_wait: '' @ e)), h, tr @ [SuPoll])))"

definition wait_cell :: "kernel \<Rightarrow> bytes \<Rightarrow> child_handle \<Rightarrow> sup_call list \<Rightarrow> (cell_error + cell_status) \<times> sup_call list" where
  "wait_cell K report h tr =
     (if ch_collected h then (Inl (CeConfine ''cell already collected''), tr)
      else (read_report K report, tr @ [SuReadReport, SuCloseReport, SuWait, SuRemoveStage (ch_stage h)]))"

subsection \<open>Running a command in a cell\<close>

text \<open>\<open>horizon cell run\<close> of \<open>crates/horizon/src/main.rs\<close>: the host's system directories read-only, and the binds
  of the command line; \<open>there\<close> says what exists on the host.\<close>

definition split_bind :: "string \<Rightarrow> string \<times> string" where
  "split_bind spec = (case split_once CHR '':'' spec of Some p \<Rightarrow> p | None \<Rightarrow> (spec, spec))"

definition bin_dirs :: "string list" where
  "bin_dirs = [''/usr/bin'', ''/bin'', ''/usr/sbin'', ''/sbin'']"

definition resolve_program :: "(string \<Rightarrow> bool) \<Rightarrow> string \<Rightarrow> string option" where
  "resolve_program there name =
     (if CHR ''/'' \<in> set name then (if there name then Some name else None)
      else find there (map (\<lambda>dir. path_join dir name) bin_dirs))"

definition command_cell :: "(string \<Rightarrow> bool) \<Rightarrow> string list \<Rightarrow> string list \<Rightarrow> cell" where
  "command_cell there ro rw =
     fold (\<lambda>spec c. case split_bind spec of (src, dst) \<Rightarrow> bind_rw src dst c) rw
       (fold (\<lambda>spec c. case split_bind spec of (src, dst) \<Rightarrow> bind_ro src dst c) ro
         (bind_host_system there cell_new))"

definition command_env :: "(string \<times> string) list" where
  "command_env = [(''PATH'', ''/usr/bin:/bin:/usr/sbin:/sbin''), (''HOME'', ''/'')]"

datatype command_end = CmdSkipped | CmdFailed string | CmdDone | CmdExit i32

definition run_command ::
  "kernel \<Rightarrow> (string \<Rightarrow> bool) \<Rightarrow> string \<Rightarrow> string \<Rightarrow> string list \<Rightarrow> string list \<Rightarrow> string list \<Rightarrow> command_end" where
  "run_command K there probe stage ro rw cmd =
     (if \<not> available K probe then CmdSkipped
      else
        (case cmd of
           [] \<Rightarrow> CmdFailed ''no command given''
         | program # _ \<Rightarrow>
             (case resolve_program there program of
                None \<Rightarrow> CmdFailed (''command not found on host: '' @ program)
              | Some path \<Rightarrow>
                  (case fst (cell_run K stage (command_cell there ro rw) (PlExec path cmd command_env)) of
                     Inl e \<Rightarrow> CmdFailed ''run cell''
                   | Inr st \<Rightarrow>
                       (case cs_code st of
                          Some c \<Rightarrow> if c = 0 then CmdDone else CmdExit c
                        | None \<Rightarrow> CmdFailed (''command was killed by signal ''
                            @ show_nat (case cs_signal st of Some s \<Rightarrow> unat s | None \<Rightarrow> 0)))))))"

end
