(* ===== verification/Portal.thy ===== *)
theory Portal
  imports Tools Cells
begin

section \<open>The portal: descriptors over the one socket of a cell\<close>

text \<open>
  \<open>crates/cells/src/portal.rs\<close> with the broker behind it, as \<open>cell_demo\<close> of \<open>crates/horizon/src/main.rs\<close> wires
  them.  A descriptor is what it was opened on and how; opening and connecting are the parameter \<open>Os\<close>,
  which may refuse.  A message carries at most 512 bytes, the buffer of the receiver.
\<close>

datatype opened = OpFile string bool bool | OpNet string u16

type_synonym opener = "opened \<Rightarrow> string option"

definition open_os :: "opener \<Rightarrow> opened \<Rightarrow> cell_error + opened" where
  "open_os Os what = (case Os what of None \<Rightarrow> Inr what | Some e \<Rightarrow> Inl (CeIo e))"

text \<open>\<open>OpFile path read write\<close>: a file is opened for reading when nothing else was asked for.\<close>

definition materialize :: "opener \<Rightarrow> lease \<Rightarrow> cell_error + opened" where
  "materialize Os l =
     (case le_resource l of
        RFile path \<Rightarrow>
          (let write = rights_contains (le_rights l) rights_write;
               read = rights_contains (le_rights l) rights_read \<or> \<not> write
           in open_os Os (OpFile path read write))
      | RNet host port \<Rightarrow> open_os Os (OpNet host port)
      | other \<Rightarrow> Inl (CeConfine (''cannot materialize '' @ res_show other)))"

definition msg_limit :: nat where "msg_limit = 512"

definition recv_data :: "bytes \<Rightarrow> bytes" where
  "recv_data sent = take msg_limit sent"

text \<open>The request of a principal, and what it makes of the reply and the descriptors that came with it.\<close>

definition request_line :: "resource \<Rightarrow> rights \<Rightarrow> bytes" where
  "request_line r q = str_bytes (res_show r @ '' '' @ rights_show q @ [CHR 0x0A])"

definition read_reply :: "bytes \<Rightarrow> opened list \<Rightarrow> cell_error + opened" where
  "read_reply reply fds =
     (if take 2 reply = str_bytes ''ok'' then
        (if fds = [] then Inl (CeConfine ''broker acknowledged but sent no fd'') else Inr (last fds))
      else Inl (CeConfine (str_trim (to_string_lossy (bytes_str reply)))))"

text \<open>One turn of the broker: the result of the turn, and the message it sends.\<close>

type_synonym ('s, 'a) handler = "resource \<Rightarrow> rights \<Rightarrow> ('s, cell_error, 'a) action"

definition parse_request :: "bytes \<Rightarrow> string \<times> resource option \<times> rights" where
  "parse_request line =
     (let text = str_trim (to_string_lossy (bytes_str line));
          (res_str, rights_str) = (case split_once CHR '' '' text of None \<Rightarrow> (text, []) | Some p \<Rightarrow> p)
      in (text, res_parse res_str, case rights_parse rights_str of None \<Rightarrow> rights_none | Some q \<Rightarrow> q))"

definition serve_once ::
  "('s, opened) handler \<Rightarrow> bytes \<Rightarrow> 's \<Rightarrow> (cell_error + opened) \<times> (bytes \<times> opened list) \<times> 's" where
  "serve_once handler line s =
     (case parse_request line of (text, resource, rights) \<Rightarrow>
        (case (case resource of
             Some r \<Rightarrow> handler r rights s
           | None \<Rightarrow> (Inl (CeConfine (''unparseable request: '' @ text)), s)) of
           (Inr fd, s') \<Rightarrow> (Inr fd, (str_bytes (''ok'' @ [CHR 0x0A]), [fd]), s')
         | (Inl e, s') \<Rightarrow> (Inl e, (str_bytes (''err '' @ cell_error_text e @ [CHR 0x0A]), []), s')))"

definition brokered ::
  "ext \<Rightarrow> opener \<Rightarrow> capability \<Rightarrow> u64 \<Rightarrow> u64 \<Rightarrow> (broker, opened) handler" where
  "brokered X Os cap now now_log r q =
     act_bind (act_map_err (\<lambda>e. CeConfine (wv_error_text e)) (broker_access X cap r q now now_log)) (\<lambda>lease.
       act_read (\<lambda>_. materialize Os lease))"

text \<open>The whole exchange: the principal asks, the broker serves one turn, the principal reads the answer.\<close>

definition portal_exchange ::
  "ext \<Rightarrow> opener \<Rightarrow> capability \<Rightarrow> u64 \<Rightarrow> u64 \<Rightarrow> resource \<Rightarrow> rights \<Rightarrow> broker \<Rightarrow> (cell_error + opened) \<times> broker" where
  "portal_exchange X Os cap now now_log r q b =
     (case serve_once (brokered X Os cap now now_log) (recv_data (request_line r q)) b of
        (_, (reply, fds), b') \<Rightarrow> (read_reply (recv_data reply) fds, b'))"

subsection \<open>What passes through\<close>

lemma str_trim_line:
  assumes "ascii_str t" and "t = c # s" and "\<not> is_ws [c]" and "\<not> is_ws [last t]"
  shows "str_trim (t @ [CHR 0x0A]) = t"
proof -
  have nl: "is_ws [CHR 0x0A]" by (simp add: is_ws_def ws_table_def str_bytes_def)
  obtain ys z where t: "t = ys @ [z]" using assms(2) by (metis list.distinct(1) rev_exhaust)
  have "ascii_str (t @ [CHR 0x0A])" using assms(1) by (simp add: ascii_str_def)
  then have cs: "chars_of (t @ [CHR 0x0A]) = map (\<lambda>c. [c]) t @ [[CHR 0x0A]]"
    by (simp only: chars_of_ascii map_append list.map)
  have front: "dropWhile is_ws (map (\<lambda>c. [c]) t @ [[CHR 0x0A]]) = map (\<lambda>c. [c]) t @ [[CHR 0x0A]]"
    using assms(2,3) by simp
  have "dropWhile is_ws (rev (map (\<lambda>c. [c]) t @ [[CHR 0x0A]])) = rev (map (\<lambda>c. [c]) t)"
    using nl assms(4) by (simp add: t)
  then show ?thesis unfolding str_trim_def cs front by simp
qed

lemma rights_show_chars:
  "q < 8 \<Longrightarrow> ascii_str (rights_show q) \<and> rights_show q \<noteq> [] \<and> \<not> is_ws [last (rights_show q)]"
  by (drule rights_cases)
    (auto simp: rights_show_def rights_is_empty_def rights_contains_def ascii_str_def is_ws_def ws_table_def str_bytes_def
      rights_none_def rights_read_def rights_write_def rights_exec_def)

text \<open>A resource whose text fits a request: plain ASCII without a blank.\<close>

definition plain_request :: "resource \<Rightarrow> bool" where
  "plain_request r \<longleftrightarrow> res_text_ok r \<and> list_all plain_char (res_show r) \<and> length (res_show r) \<le> 500"

lemma plain_not_space: "plain_char c \<Longrightarrow> c \<noteq> CHR '' ''"
  by (auto simp: plain_char_def is_ws_def ws_table_def str_bytes_def)

lemma res_show_nonempty: "res_show r \<noteq> []"
  by (cases r) (simp_all add: res_show_def)

lemma parse_request_line:
  assumes "plain_request r" and "q < 8"
  shows "parse_request (recv_data (request_line r q)) = (res_show r @ '' '' @ rights_show q, Some r, q)"
proof -
  let ?t = "res_show r @ '' '' @ rights_show q"
  have plain: "list_all plain_char (res_show r)" and ok: "res_text_ok r" and short: "length (res_show r) \<le> 500"
    using assms(1) by (simp_all add: plain_request_def)
  note rs = rights_show_chars [OF assms(2)]
  have "length (rights_show q) \<le> 3"
    using rights_cases [OF assms(2)] by (auto simp: rights_show_def)
  with short have whole: "recv_data (request_line r q) = request_line r q"
    by (simp add: recv_data_def msg_limit_def request_line_def)
  obtain c s where cs: "res_show r = c # s" using res_show_nonempty by (cases "res_show r") auto
  have ascii: "ascii_str (?t @ [CHR 0x0A])"
    using plain rs by (auto simp: ascii_str_def list_all_iff plain_char_def)
  have "str_trim (?t @ [CHR 0x0A]) = ?t"
    using str_trim_line [of ?t c "s @ '' '' @ rights_show q"] ascii plain cs rs
    by (auto simp: ascii_str_def plain_char_def)
  moreover have "to_string_lossy (bytes_str (request_line r q)) = ?t @ [CHR 0x0A]"
    using utf8_str_ascii [OF ascii] unfolding request_line_def bytes_str_str_bytes append_assoc [symmetric]
    by (simp only: to_string_lossy_id)
  moreover have "split_once CHR '' '' ?t = Some (res_show r, rights_show q)"
    using plain plain_not_space by (auto intro!: split_once_append simp: list_all_iff)
  ultimately show ?thesis
    by (simp add: parse_request_def whole Let_def res_parse_show [OF ok] rights_parse_show [OF assms(2)])
qed

lemma read_ok_reply: "read_reply (recv_data (str_bytes (''ok'' @ [CHR 0x0A]))) [fd] = Inr fd"
  by (simp add: read_reply_def recv_data_def msg_limit_def str_bytes_def)

lemma read_err_reply: "\<exists>e'. read_reply (recv_data (str_bytes (''err '' @ t))) fds = Inl e'"
  by (simp add: read_reply_def recv_data_def msg_limit_def str_bytes_def)

text \<open>The descriptor a lease opens is the one its resource names, and its modes are the lease's rights; a
  lease of neither right opens for reading.\<close>

lemma materialize_Inr:
  "materialize Os l = Inr fd \<Longrightarrow>
     (\<exists>path. le_resource l = RFile path
        \<and> fd = OpFile path (rights_contains (le_rights l) rights_read \<or> \<not> rights_contains (le_rights l) rights_write)
            (rights_contains (le_rights l) rights_write))
     \<or> (\<exists>host port. le_resource l = RNet host port \<and> fd = OpNet host port)"
  by (auto simp: materialize_def open_os_def Let_def split: resource.splits option.splits)

lemma brokered_Inr:
  assumes "brokered X Os cap t1 t2 r q b = (Inr fd, b')"
  shows "\<exists>l. broker_access X cap r q t1 t2 b = (Inr l, b') \<and> materialize Os l = Inr fd"
  using assms by (auto simp: brokered_def act_bind_def act_map_err_def split: prod.splits sum.splits)

lemma portal_exchange_plain:
  assumes "plain_request r" and "q < 8"
  shows "(\<forall>fd. brokered X Os cap t1 t2 r q b = (Inr fd, b') \<longrightarrow> portal_exchange X Os cap t1 t2 r q b = (Inr fd, b'))
    \<and> (\<forall>e. brokered X Os cap t1 t2 r q b = (Inl e, b') \<longrightarrow> (\<exists>e'. portal_exchange X Os cap t1 t2 r q b = (Inl e', b')))"
  using read_err_reply [of _ "[]"]
  by (simp add: portal_exchange_def serve_once_def parse_request_line [OF assms] read_ok_reply [simplified])

end
