(* ===== verification/CellWorld.thy ===== *)
theory CellWorld
  imports Cells
begin

section \<open>The world a payload starts in\<close>

text \<open>
  What the calls before a payload amount to: the mounts of its world, newest first, and the calls that
  shut it in.  A call counts when it succeeded; closing a descriptor counts when it was asked for, as
  the code does not look at its result.  An action that succeeds \<open>yields\<close> a property of the calls of
  it that count.
\<close>

definition in_effect :: "kernel \<Rightarrow> cell_call list \<Rightarrow> cell_call \<Rightarrow> bool" where
  "in_effect K tr c \<longleftrightarrow> kn_call K tr c = None \<or> (case c of CcClose fd \<Rightarrow> True | _ \<Rightarrow> False)"

fun made :: "kernel \<Rightarrow> cell_call list \<Rightarrow> cell_call list \<Rightarrow> cell_call list" where
  "made K tr [] = []"
| "made K tr (c # cs) = (if in_effect K tr c then [c] else []) @ made K (tr @ [c]) cs"

lemma made_append: "made K tr (a @ b) = made K tr a @ made K (tr @ a) b"
  by (induction a arbitrary: tr) simp_all

lemma made_close [simp]: "made K tr [CcClose fd] = [CcClose fd]"
  by (simp add: in_effect_def)

definition yields :: "kernel \<Rightarrow> (cell_call list, 'e, 'a) action \<Rightarrow> (cell_call list \<Rightarrow> bool) \<Rightarrow> bool" where
  "yields K m Q \<longleftrightarrow> (\<forall>tr x tr'. m tr = (Inr x, tr') \<longrightarrow> (\<exists>cs. tr' = tr @ cs \<and> Q (made K tr cs)))"

lemma yieldsD: "yields K m Q \<Longrightarrow> m tr = (Inr x, tr') \<Longrightarrow> \<exists>cs. tr' = tr @ cs \<and> Q (made K tr cs)"
  by (simp add: yields_def)

lemma yields_bind:
  assumes "yields K m Q" and "\<And>x. yields K (f x) R" and "\<And>a b. Q a \<Longrightarrow> R b \<Longrightarrow> S (a @ b)"
  shows "yields K (act_bind m f) S"
  unfolding yields_def
proof (intro allI impI)
  fix tr x tr'
  assume "act_bind m f tr = (Inr x, tr')"
  then obtain y t where m: "m tr = (Inr y, t)" and f: "f y t = (Inr x, tr')" unfolding act_bind_Inr_iff by blast
  from yieldsD [OF assms(1) m] obtain a where a: "t = tr @ a" "Q (made K tr a)" by blast
  moreover from yieldsD [OF assms(2) f] obtain b where "tr' = t @ b" "R (made K t b)" by blast
  ultimately show "\<exists>cs. tr' = tr @ cs \<and> S (made K tr cs)"
    using assms(3) by (intro exI [of _ "a @ b"]) (simp add: made_append)
qed

lemma yields_map_err: "yields K m Q \<Longrightarrow> yields K (act_map_err g m) Q"
  by (auto simp: yields_def act_map_err_def split: prod.splits)

lemma yields_kcall: "Q [c] \<Longrightarrow> yields K (kcall K s c) Q"
  by (auto simp: yields_def kcall_def in_effect_def split: option.splits)

lemma yields_ignore: "Q [c] \<Longrightarrow> Q [] \<Longrightarrow> yields K (kcall_ignore c) Q"
  by (simp add: yields_def kcall_ignore_def)

lemma yields_close: "Q [CcClose fd] \<Longrightarrow> yields K (kcall_ignore (CcClose fd)) Q"
  by (simp add: yields_def kcall_ignore_def del: made.simps)

lemma yields_read: "Q [] \<Longrightarrow> yields K (\<lambda>tr. (Inr (g tr), tr)) Q"
  by (simp add: yields_def)

lemma yields_ret: "Q [] \<Longrightarrow> yields K (act_ret x) Q"
  by (simp add: yields_def)

subsection \<open>Mounts\<close>

text \<open>
  A mount: its point as path components, what it was made from, and whether it is open, that is, not
  made read-only by the cell (it is then as writable as its source).  A recursive bind also attaches
  a copy of every mount that lies below its source, on the host or in the world built so far, and a
  remount changes the newest mount at its very point only, not the ones below it.  Sources are taken
  by their text: symbolic links in them are not followed.
\<close>

type_synonym world = "(path_comp list \<times> string \<times> bool) list"

definition copies :: "string \<Rightarrow> string \<Rightarrow> world \<Rightarrow> world" where
  "copies src target ms =
     map (\<lambda>(p, s, w). (path_components target @ drop (length (path_components src)) p, s, w))
       (filter (\<lambda>(p, s, w). strict_prefix (path_components src) p) ms)"

fun remount :: "path_comp list \<Rightarrow> bool \<Rightarrow> world \<Rightarrow> world" where
  "remount target w [] = []"
| "remount target w (m # ms) = (if fst m = target then (target, fst (snd m), w) # ms else m # remount target w ms)"

definition mount_call :: "world \<Rightarrow> cell_call \<Rightarrow> world \<Rightarrow> world" where
  "mount_call H c ms =
     (case c of
        CcMount (Some src) target fstype flags \<Rightarrow>
          (if MfRec \<in> flags then copies src target (ms @ H) else [])
            @ (path_components target, src, MfRdonly \<notin> flags) # ms
      | CcMount None target fstype flags \<Rightarrow>
          if MfRemount \<in> flags then remount (path_components target) (MfRdonly \<notin> flags) ms else ms
      | _ \<Rightarrow> ms)"

text \<open>The world that was granted: a bind brings its source, open only if it was granted so, and with it
  the mounts below the source as they are.\<close>

definition grant_bind :: "world \<Rightarrow> string \<Rightarrow> bind_mount \<Rightarrow> world \<Rightarrow> world" where
  "grant_bind H stage b ms =
     copies (bi_src b) (bind_target stage b) (ms @ H)
       @ (path_components (bind_target stage b), bi_src b, bi_writable b) # ms"

definition cell_binds :: "cell \<Rightarrow> bind_mount list" where
  "cell_binds c = ce_binds c @ (if ce_mount_dev c then map dev_bind dev_names else [])"

definition proc_mounts :: "string \<Rightarrow> cell \<Rightarrow> world" where
  "proc_mounts stage c = (if ce_mount_proc c then [(path_components (stage @ ''/proc''), ''proc'', True)] else [])"

definition granted_on :: "world \<Rightarrow> string \<Rightarrow> cell \<Rightarrow> world \<Rightarrow> world" where
  "granted_on H stage c ms =
     proc_mounts stage c @ fold (grant_bind H stage) (cell_binds c) ((path_components stage, ''tmpfs'', True) # ms)"

definition granted_world :: "world \<Rightarrow> string \<Rightarrow> cell \<Rightarrow> world" where
  "granted_world H stage c = granted_on H stage c []"

lemma copies_below: "(p, s, w) \<in> set (copies src target ms) \<Longrightarrow> strict_prefix (path_components target) p"
  by (auto simp: copies_def strict_prefix_def prefix_def)

lemma remount_skip: "\<forall>m \<in> set xs. fst m \<noteq> t \<Longrightarrow> remount t w (xs @ ys) = xs @ remount t w ys"
  by (induction xs) auto

lemma remount_copies:
  "remount (path_components target) w (copies src target ms @ (path_components target, src, o') # ys)
     = copies src target ms @ (path_components target, src, w) # ys"
proof -
  have "\<forall>m \<in> set (copies src target ms). fst m \<noteq> path_components target"
    using copies_below by (fastforce simp: strict_prefix_def)
  then show ?thesis by (simp add: remount_skip)
qed

text \<open>Where an open mount comes from.\<close>

lemma fold_grant_open:
  assumes "(p, s, True) \<in> set (fold (grant_bind H stage) bs ms)"
  shows "(p, s, True) \<in> set ms
    \<or> (\<exists>b \<in> set bs. p = path_components (bind_target stage b) \<and> s = bi_src b \<and> bi_writable b
        \<or> strict_prefix (path_components (bind_target stage b)) p)"
  using assms
proof (induction bs arbitrary: ms)
  case (Cons b bs)
  from Cons.IH [of "grant_bind H stage b ms"] Cons.prems show ?case
    by (auto simp: grant_bind_def dest: copies_below)
qed simp

lemma granted_open:
  assumes "(p, s, True) \<in> set (granted_world H stage c)"
  shows "p = path_components stage \<and> s = ''tmpfs''
    \<or> ce_mount_proc c \<and> p = path_components (stage @ ''/proc'') \<and> s = ''proc''
    \<or> (\<exists>b \<in> set (cell_binds c). p = path_components (bind_target stage b) \<and> s = bi_src b \<and> bi_writable b
        \<or> strict_prefix (path_components (bind_target stage b)) p)"
  using assms fold_grant_open [of p s H stage "cell_binds c" "[(path_components stage, ''tmpfs'', True)]"]
  by (auto simp: granted_world_def granted_on_def proc_mounts_def split: if_splits)

definition turns :: "kernel \<Rightarrow> world \<Rightarrow> (world \<Rightarrow> world) \<Rightarrow> (cell_call list, 'e, 'a) action \<Rightarrow> bool" where
  "turns K H f m \<longleftrightarrow> yields K m (\<lambda>cs. \<forall>ms. fold (mount_call H) cs ms = f ms)"

abbreviation stays :: "kernel \<Rightarrow> world \<Rightarrow> (cell_call list, 'e, 'a) action \<Rightarrow> bool" where
  "stays K H m \<equiv> turns K H (\<lambda>ms. ms) m"

lemma turns_bind: "turns K H f m \<Longrightarrow> (\<And>x. turns K H g (k x)) \<Longrightarrow> turns K H (\<lambda>ms. g (f ms)) (act_bind m k)"
  unfolding turns_def by (erule yields_bind) (assumption, simp)

lemma turns_skip: "stays K H m \<Longrightarrow> (\<And>x. turns K H g (k x)) \<Longrightarrow> turns K H g (act_bind m k)"
  using turns_bind [of K H "\<lambda>ms. ms" m g k] by simp

lemma turns_ret: "stays K H (act_ret x)"
  by (simp add: turns_def yields_ret)

lemma turns_read: "stays K H (\<lambda>tr. (Inr (g tr), tr))"
  by (simp add: turns_def yields_read)

lemma turns_map_err: "turns K H f m \<Longrightarrow> turns K H f (act_map_err g m)"
  unfolding turns_def by (rule yields_map_err)

lemma turns_kcall: "(\<And>ms. mount_call H c ms = f ms) \<Longrightarrow> turns K H f (kcall K s c)"
  by (simp add: turns_def yields_kcall)

lemma turns_ignore: "(\<And>ms. mount_call H c ms = ms) \<Longrightarrow> stays K H (kcall_ignore c)"
  by (simp add: turns_def yields_ignore)

lemma act_map_Cons:
  "act_map f (x # xs) = act_bind (f x) (\<lambda>y. act_bind (act_map f xs) (\<lambda>ys. act_ret (y # ys)))"
  by (rule ext) (auto simp: act_bind_def split: prod.splits sum.splits)

lemma turns_map: "(\<And>x. turns K H (g x) (f x)) \<Longrightarrow> turns K H (fold g xs) (act_map f xs)"
proof (induction xs)
  case Nil
  then show ?case by (simp add: turns_def yields_def)
next
  case (Cons x xs)
  have "turns K H (fold g xs) (act_bind (act_map f xs) (\<lambda>ys. act_ret (y # ys)))" for y
    by (rule turns_bind [OF Cons.IH [OF Cons.prems], where g = "\<lambda>ms. ms", OF turns_ret])
  from turns_bind [OF Cons.prems this] show ?case unfolding act_map_Cons by (simp add: o_def)
qed

lemma turns_map_none: "(\<And>x. stays K H (f x)) \<Longrightarrow> stays K H (act_map f xs)"
proof (induction xs)
  case (Cons x xs)
  show ?case unfolding act_map_Cons by (intro turns_skip Cons.prems Cons.IH turns_ret)
qed (simp add: turns_def yields_def)

lemma turns_mkdirs: "stays K H (mkdirs K s p)"
  unfolding mkdirs_def by (rule turns_kcall) (simp add: mount_call_def)

lemma turns_bind_into: "turns K H (grant_bind H stage b) (bind_into K stage b)"
proof -
  let ?t = "bind_target stage b"
  let ?made = "\<lambda>w ms. copies (bi_src b) ?t (ms @ H) @ (path_components ?t, bi_src b, w) # ms"
  have dirs: "stays K H (if d then mkdirs K s_mkdir ?t
      else act_bind (case abs_parent ?t of Some parent \<Rightarrow> mkdirs K s_mkdir (to_string_lossy parent) | None \<Rightarrow> act_ret ())
        (\<lambda>_. kcall K s_mkdir (CcWrite ?t [])))" for d
    by (auto intro!: turns_skip turns_mkdirs turns_kcall turns_ret simp: mount_call_def split: option.split)
  have bind: "turns K H (?made True) (kcall K s_bind (CcMount (Some (bi_src b)) ?t None {MfBind, MfRec}))"
    by (rule turns_kcall) (simp add: mount_call_def)
  have lock: "turns K H (remount (path_components ?t) False) (act_bind (\<lambda>tr. (Inr (locked_flags K ?t tr), tr)) (\<lambda>locked.
      kcall K s_bind (CcMount None ?t None ({MfRemount, MfBind, MfRdonly} \<union> locked))))"
    by (rule turns_skip [OF turns_read], rule turns_kcall) (simp add: mount_call_def)
  have tail: "turns K H (grant_bind H stage b) (act_bind (kcall K s_bind (CcMount (Some (bi_src b)) ?t None {MfBind, MfRec})) (\<lambda>_.
      if bi_writable b then act_ret ()
      else act_bind (\<lambda>tr. (Inr (locked_flags K ?t tr), tr)) (\<lambda>locked.
          kcall K s_bind (CcMount None ?t None ({MfRemount, MfBind, MfRdonly} \<union> locked)))))"
  proof (cases "bi_writable b")
    case True
    have "grant_bind H stage b = (\<lambda>ms. ?made True ms)" by (rule ext) (simp add: grant_bind_def True)
    with True show ?thesis using turns_bind [OF bind turns_ret, of "\<lambda>_. ()"] by simp
  next
    case False
    have "grant_bind H stage b = (\<lambda>ms. remount (path_components ?t) False (?made True ms))"
      by (rule ext) (simp add: grant_bind_def False remount_copies)
    with False show ?thesis using turns_bind [OF bind lock] by simp
  qed
  show ?thesis unfolding bind_into_def Let_def by (intro turns_skip turns_read dirs tail)
qed

lemma turns_dev: "turns K H (fold (grant_bind H stage) (map dev_bind dev_names)) (dev_into K stage)"
proof -
  have nodes: "turns K H (fold (\<lambda>name. grant_bind H stage (dev_bind name)) dev_names)
      (act_map (\<lambda>name. act_map_err (\<lambda>(_, c). (s_dev, c)) (bind_into K stage (dev_bind name))) dev_names)"
    by (rule turns_map) (simp add: turns_map_err turns_bind_into)
  have links: "stays K H (act_map (\<lambda>(link, dst). kcall_ignore (CcSymlink dst (stage @ ''/dev/'' @ link))) dev_links)"
    by (rule turns_map_none) (auto intro!: turns_ignore simp: mount_call_def split: prod.split)
  have "turns K H (\<lambda>ms. fold (\<lambda>name. grant_bind H stage (dev_bind name)) dev_names ms) (dev_into K stage)"
    unfolding dev_into_def
    by (rule turns_skip [OF turns_mkdirs], rule turns_bind [OF nodes, where g = "\<lambda>ms. ms"],
        rule turns_skip [OF links], rule turns_ret)
  then show ?thesis by (simp add: fold_map o_def)
qed

lemma turns_proc: "turns K H (\<lambda>ms. (path_components (stage @ ''/proc''), ''proc'', True) # ms) (proc_into K stage)"
  unfolding proc_into_def by (intro turns_skip turns_mkdirs turns_kcall) (simp add: mount_call_def)

lemma turns_world: "turns K H (granted_on H stage c) (build_world K stage c)"
proof -
  have proc: "turns K H (\<lambda>ms. proc_mounts stage c @ ms) (act_when (ce_mount_proc c) (proc_into K stage))"
    using turns_proc by (simp add: act_when_def proc_mounts_def turns_ret)
  have dev: "turns K H (fold (grant_bind H stage) (if ce_mount_dev c then map dev_bind dev_names else []))
      (act_when (ce_mount_dev c) (dev_into K stage))"
    using turns_dev by (auto simp: act_when_def turns_def yields_def)
  have binds: "turns K H (fold (grant_bind H stage) (ce_binds c)) (act_map (bind_into K stage) (ce_binds c))"
    by (rule turns_map) (rule turns_bind_into)
  have root: "turns K H (\<lambda>ms. (path_components stage, ''tmpfs'', True) # ms)
      (kcall K s_tmpfs (CcMount (Some ''tmpfs'') stage (Some ''tmpfs'') {MfNosuid, MfNodev}))"
    by (rule turns_kcall) (simp add: mount_call_def)
  have cut: "stays K H (kcall K s_private (CcMount None ''/'' None {MfRec, MfPrivate}))"
    by (rule turns_kcall) (simp add: mount_call_def)
  have "turns K H (\<lambda>ms. proc_mounts stage c @ fold (grant_bind H stage) (if ce_mount_dev c then map dev_bind dev_names else [])
        (fold (grant_bind H stage) (ce_binds c) ((path_components stage, ''tmpfs'', True) # ms))) (build_world K stage c)"
    unfolding build_world_def
    by (rule turns_skip [OF cut], rule turns_skip [OF turns_mkdirs], rule turns_bind [OF root], rule turns_skip [OF turns_mkdirs],
        rule turns_bind [OF binds], rule turns_bind [OF dev], rule proc)
  moreover have "granted_on H stage c = (\<lambda>ms. proc_mounts stage c
      @ fold (grant_bind H stage) (if ce_mount_dev c then map dev_bind dev_names else [])
          (fold (grant_bind H stage) (ce_binds c) ((path_components stage, ''tmpfs'', True) # ms)))"
    by (rule ext) (simp add: granted_on_def cell_binds_def)
  ultimately show ?thesis by simp
qed

subsection \<open>The calls that shut the world in\<close>

definition passes :: "kernel \<Rightarrow> cell_call list \<Rightarrow> (cell_call list, 'e, 'a) action \<Rightarrow> bool" where
  "passes K gs m \<longleftrightarrow> yields K m (subseq gs)"

lemma passes_bind: "passes K a m \<Longrightarrow> (\<And>x. passes K b (f x)) \<Longrightarrow> passes K (a @ b) (act_bind m f)"
  unfolding passes_def by (erule yields_bind) (assumption, rule list_emb_append_mono)

lemma passes_cons: "passes K [a] m \<Longrightarrow> (\<And>x. passes K b (f x)) \<Longrightarrow> passes K (a # b) (act_bind m f)"
  using passes_bind [of K "[a]" m b f] by simp

lemma passes_skip: "passes K [] m \<Longrightarrow> (\<And>x. passes K b (f x)) \<Longrightarrow> passes K b (act_bind m f)"
  using passes_bind [of K "[]" m b f] by simp

lemma passes_kcall: "passes K [c] (kcall K s c)"
  by (simp add: passes_def yields_kcall)

lemma passes_close: "passes K [CcClose fd] (kcall_ignore (CcClose fd))"
  by (simp add: passes_def yields_close)

lemma passes_ret: "passes K [] (act_ret x)"
  by (simp add: passes_def yields_ret)

lemma passes_map: "(\<And>x. passes K (g x) (f x)) \<Longrightarrow> passes K (concat (map g xs)) (act_map f xs)"
proof (induction xs)
  case (Cons x xs)
  have "passes K (g x @ concat (map g xs) @ []) (act_map f (x # xs))" unfolding act_map_Cons
    by (intro passes_bind Cons.prems Cons.IH passes_ret)
  then show ?case by (simp del: act_map.simps)
qed (simp add: passes_def yields_def)

text \<open>An action that only adds calls passes nothing in particular.\<close>

lemma turns_passes: "turns K H f m \<Longrightarrow> passes K [] m"
  unfolding turns_def passes_def yields_def by fastforce

text \<open>The descriptors the payload loses.\<close>

definition closed_fds :: "kernel \<Rightarrow> int list \<Rightarrow> int list" where
  "closed_fds K keep = filter (\<lambda>fd. fd \<noteq> kn_err_fd K \<and> fd \<notin> set keep) [3..fd_limit K - 1]"

definition seccomp_calls :: "seccomp \<Rightarrow> cell_call list" where
  "seccomp_calls s = (case s of ScNone \<Rightarrow> [] | ScBlock nrs \<Rightarrow> [CcSeccomp nrs])"

definition pivot_calls :: "string \<Rightarrow> cell_call list" where
  "pivot_calls stage =
     [CcChdir stage, CcPivotRoot ''.'' put_old, CcChdir ''/'', CcUmountDetach (''/'' @ put_old)]"

definition lock_calls :: "kernel \<Rightarrow> string \<Rightarrow> cell \<Rightarrow> cell_call list" where
  "lock_calls K stage c =
     pivot_calls stage @ CcNoNewPrivs # seccomp_calls (ce_seccomp c) @ map CcClose (closed_fds K (ce_keep_fds c))"

definition map_calls :: "kernel \<Rightarrow> cell_call list" where
  "map_calls K =
     [CcWrite ''/proc/self/setgroups'' ''deny'',
      CcWrite ''/proc/self/gid_map'' (''0 '' @ show_nat (kn_gid K) @ '' 1'' @ [CHR 0x0A]),
      CcWrite ''/proc/self/uid_map'' (''0 '' @ show_nat (kn_uid K) @ '' 1'' @ [CHR 0x0A])]"

definition gate_calls :: "kernel \<Rightarrow> string \<Rightarrow> cell \<Rightarrow> cell_call list" where
  "gate_calls K stage c =
     CcUnshare all_namespaces # map_calls K @ CcMount None ''/'' None {MfRec, MfPrivate} # lock_calls K stage c"

lemma concat_map_Nil: "concat (map (\<lambda>_. []) xs) = []"
  by (induction xs) simp_all

lemma stays_passes: "(\<And>ms. mount_call [] c ms = ms) \<Longrightarrow> passes K [] (kcall K s c)"
  by (rule turns_passes [OF turns_kcall])

lemma passes_keep_only: "passes K (map CcClose (closed_fds K keep)) (keep_only K keep)"
proof -
  let ?g = "\<lambda>fd. if fd = kn_err_fd K \<or> fd \<in> set keep then [] else [CcClose fd]"
  have "concat (map ?g xs) = map CcClose (filter (\<lambda>fd. fd \<noteq> kn_err_fd K \<and> fd \<notin> set keep) xs)" for xs
    by (induction xs) auto
  then have eq: "concat (map ?g [3..fd_limit K - 1]) = map CcClose (closed_fds K keep)" by (simp only: closed_fds_def)
  have "passes K (concat (map (\<lambda>_. []) keep)) (act_map (\<lambda>fd. kcall_ignore (CcClearCloexec fd)) keep)"
    by (rule passes_map) (simp add: passes_def yields_ignore)
  then have clear: "passes K [] (act_map (\<lambda>fd. kcall_ignore (CcClearCloexec fd)) keep)"
    by (simp only: concat_map_Nil)
  have close: "passes K (map CcClose (closed_fds K keep))
      (act_map (\<lambda>fd. if fd = kn_err_fd K \<or> fd \<in> set keep then act_ret () else kcall_ignore (CcClose fd)) [3..fd_limit K - 1])"
    unfolding eq [symmetric] by (rule passes_map) (simp add: passes_ret passes_close)
  show ?thesis unfolding keep_only_def
    by (rule passes_skip [OF clear], rule passes_bind [OF close, where b = "[]", simplified], rule passes_ret)
qed

lemma passes_pivot: "passes K (pivot_calls stage) (pivot K stage)"
  unfolding pivot_def pivot_calls_def
  by (rule passes_cons [OF passes_kcall])+ (simp add: passes_def yields_ignore)

lemma passes_lock_down: "passes K (lock_calls K stage c) (lock_down K stage c)"
proof -
  have sec: "passes K (seccomp_calls s) (case s of ScNone \<Rightarrow> act_ret ()
      | ScBlock nrs \<Rightarrow> act_map_err (\<lambda>_. (s_seccomp, -1)) (kcall K s_seccomp (CcSeccomp nrs)))" for s
    using passes_kcall unfolding passes_def
    by (auto simp: seccomp_calls_def yields_map_err yields_ret yields_kcall split: seccomp.split)
  have host: "passes K [] (case h of None \<Rightarrow> act_ret () | Some name \<Rightarrow> kcall K s_hostname (CcSethostname name))" for h
    by (auto intro!: passes_ret stays_passes simp: mount_call_def split: option.split)
  show ?thesis
    unfolding lock_down_def lock_calls_def
    by (rule passes_bind [OF passes_pivot], rule passes_skip [OF host], rule passes_cons [OF passes_kcall],
        rule passes_bind [OF sec], rule passes_keep_only)
qed

lemma passes_world: "passes K [CcMount None ''/'' None {MfRec, MfPrivate}] (build_world K stage c)"
proof -
  have rest: "passes K [] (act_map (bind_into K stage) bs)" "passes K [] (act_when d (dev_into K stage))"
    "passes K [] (act_when p (proc_into K stage))" "passes K [] (mkdirs K s q)" for bs d p s q
    using turns_passes [OF turns_map [of K "[]" "grant_bind [] stage", OF turns_bind_into]] turns_passes [OF turns_dev [of K "[]"]]
      turns_passes [OF turns_proc [of K "[]"]] turns_passes [OF turns_mkdirs [of K "[]"]]
    by (simp_all add: act_when_def passes_ret)
  have root: "passes K [] (kcall K s_tmpfs (CcMount (Some ''tmpfs'') stage (Some ''tmpfs'') {MfNosuid, MfNodev}))"
    by (simp add: passes_def yields_kcall)
  show ?thesis unfolding build_world_def
    by (rule passes_cons [OF passes_kcall], rule passes_skip [OF rest(4)], rule passes_skip [OF root],
        rule passes_skip [OF rest(4)], rule passes_skip [OF rest(1)], rule passes_skip [OF rest(2)], rule rest(3))
qed

subsection \<open>The cell of a command\<close>

lemma fold_bind_ro: "ce_binds (fold (\<lambda>spec c. case split_bind spec of (src, dst) \<Rightarrow> bind_ro src dst c) ro c)
    = ce_binds c @ map (\<lambda>spec. \<lparr>bi_src = fst (split_bind spec), bi_dst = snd (split_bind spec), bi_writable = False\<rparr>) ro"
  by (induction ro arbitrary: c) (simp_all add: bind_ro_def split: prod.split)

lemma fold_bind_rw: "ce_binds (fold (\<lambda>spec c. case split_bind spec of (src, dst) \<Rightarrow> bind_rw src dst c) rw c)
    = ce_binds c @ map (\<lambda>spec. \<lparr>bi_src = fst (split_bind spec), bi_dst = snd (split_bind spec), bi_writable = True\<rparr>) rw"
  by (induction rw arbitrary: c) (simp_all add: bind_rw_def split: prod.split)

lemma fold_host_dirs: "ce_binds (fold (\<lambda>dir c. if there dir then bind_ro dir dir c else c) ds c)
    = ce_binds c @ map (\<lambda>dir. \<lparr>bi_src = dir, bi_dst = dir, bi_writable = False\<rparr>) (filter there ds)"
  by (induction ds arbitrary: c) (simp_all add: bind_ro_def)

text \<open>What a command can write is what the command line gave it to write.\<close>

lemma command_writes:
  "b \<in> set (ce_binds (command_cell there ro rw)) \<Longrightarrow> bi_writable b \<Longrightarrow> (bi_src b, bi_dst b) \<in> split_bind ` set rw"
  by (auto simp: command_cell_def fold_bind_ro fold_bind_rw bind_host_system_def mount_proc_dir_def mount_dev_dir_def
      fold_host_dirs cell_new_def)

end
