(* ===== verification/CellRun.thy ===== *)
theory CellRun
  imports CellWorld
begin

section \<open>A run of a cell\<close>

fun starts :: "cell_call \<Rightarrow> bool" where
  "starts CcRun = True"
| "starts (CcExec _ _ _) = True"
| "starts _ = False"

abbreviation quiet :: "(cell_call list, 'e, 'a) action \<Rightarrow> bool" where
  "quiet \<equiv> emits (\<lambda>c. \<not> starts c)"

lemma emits_kcall [emits_intros]: "P c \<Longrightarrow> emits P (kcall K s c)"
  by (rule emitsI) (simp add: kcall_def split: option.split)

lemma emits_ignore [emits_intros]: "P c \<Longrightarrow> emits P (kcall_ignore c)"
  by (rule emitsI) (simp add: kcall_ignore_def)

lemma emits_ask [emits_intros]: "emits P (\<lambda>tr. (Inr (g tr), tr))"
  by (simp add: emits_def)

lemma emits_err [emits_intros]: "emits P m \<Longrightarrow> emits P (act_map_err g m)"
  by (auto simp: emits_def act_map_err_def split: prod.splits) (metis snd_conv)

lemma quiet_mkdirs [emits_intros]: "quiet (mkdirs K s p)"
  by (simp add: mkdirs_def emits_intros)

lemma quiet_bind_into [emits_intros]: "quiet (bind_into K stage b)"
  unfolding bind_into_def Let_def
  by (intro emits_seq) (auto intro!: emits_intros split: option.split)

lemma quiet_world: "quiet (build_world K stage c)"
  unfolding build_world_def act_when_def dev_into_def proc_into_def
  by (intro emits_seq) (auto intro!: emits_intros)

lemma quiet_lock_down: "quiet (lock_down K stage c)"
  unfolding lock_down_def pivot_def keep_only_def
  by (intro emits_seq) (auto intro!: emits_intros split: option.split seccomp.split)

lemma quiet_enter: "quiet (enter_namespaces K)"
  unfolding enter_namespaces_def write_maps_def by (intro emits_seq) (auto intro!: emits_intros)

text \<open>Where the payload starts, everything before it has been done.\<close>

lemma run_payload_start:
  assumes "run_payload K p tr = (r, tr')"
  shows "\<exists>pre post. tr' = (tr @ pre) @ post \<and> list_all (\<lambda>c. \<not> starts c) pre
    \<and> (\<forall>ms. fold (mount_call H) (made K tr pre) ms = ms)
    \<and> (post = [] \<or> (\<exists>c. post = [c] \<and> starts c)) \<and> ((\<exists>st. r = Inr st) \<longrightarrow> post \<noteq> [])"
proof (cases p)
  case (PlCall f)
  with assms have "tr' = (tr @ [CcCloseErr]) @ [CcRun]" by (simp add: run_payload_def act_bind_def kcall_ignore_def)
  then show ?thesis by (intro exI [of _ "[CcCloseErr]"] exI [of _ "[CcRun]"]) (simp add: mount_call_def)
next
  case (PlExec path argv env)
  let ?x = "CcExec path (cstrings argv) (cstrings (map (\<lambda>(k, v). join_kv k v) env))"
  have "tr' = (tr @ [CcSetCloexecErr]) @ [] \<and> (\<exists>e. r = Inl e) \<or> tr' = (tr @ [CcSetCloexecErr]) @ [?x]"
    using assms PlExec
    by (auto simp: run_payload_def act_bind_def kcall_ignore_def kcall_def split: if_splits option.splits)
  then show ?thesis
  proof (elim disjE conjE)
    assume "tr' = (tr @ [CcSetCloexecErr]) @ []" "\<exists>e. r = Inl e"
    then show ?thesis by (intro exI [of _ "[CcSetCloexecErr]"] exI [of _ "[]"]) (auto simp: mount_call_def)
  next
    assume "tr' = (tr @ [CcSetCloexecErr]) @ [?x]"
    then show ?thesis by (intro exI [of _ "[CcSetCloexecErr]"] exI [of _ "[?x]"]) (simp add: mount_call_def)
  qed
qed

definition lock_start :: "kernel \<Rightarrow> string \<Rightarrow> cell \<Rightarrow> cell_call list" where
  "lock_start K stage c = CcMount None ''/'' None {MfRec, MfPrivate} # lock_calls K stage c"

lemma stays_lock_down: "stays K H (lock_down K stage c)"
proof -
  have k: "stays K H (kcall K s d)" if "\<And>ms. mount_call H d ms = ms" for s d by (rule turns_kcall) (simp add: that)
  show ?thesis unfolding lock_down_def pivot_def keep_only_def
    by (intro turns_skip turns_map_none)
      (auto intro!: k turns_ignore turns_ret turns_map_err simp: mount_call_def split: option.split seccomp.split)
qed

lemma quiet_prefix:
  assumes "quiet m" and "m tr = (r, tr')"
  shows "\<exists>cs. tr' = tr @ cs \<and> list_all (\<lambda>c. \<not> starts c) cs"
  using assms unfolding emits_def by (metis snd_conv)

lemma started_confined:
  assumes run: "build_world_and_run K stage c p tr = (r, tr')"
  shows "\<exists>pre post. tr' = (tr @ pre) @ post \<and> list_all (\<lambda>c. \<not> starts c) pre \<and> (post = [] \<or> (\<exists>d. post = [d] \<and> starts d))
    \<and> (post \<noteq> [] \<longrightarrow> subseq (lock_start K stage c) (made K tr pre)
         \<and> (\<forall>ms. fold (mount_call H) (made K tr pre) ms = granted_on H stage c ms))
    \<and> ((\<exists>st. r = Inr st) \<longrightarrow> post \<noteq> [])"
proof -
  have over: ?thesis if "tr' = tr @ cs" "list_all (\<lambda>c. \<not> starts c) cs" "r = Inl e" for cs e
    using that by (intro exI [of _ cs] exI [of _ "[]"]) simp
  from run [unfolded build_world_and_run_def] show ?thesis
  proof (cases rule: act_bind_cases)
    case (err e)
    from quiet_prefix [OF quiet_world err(1)] err(2) over show ?thesis by blast
  next
    case (ok x t)
    from quiet_prefix [OF quiet_world ok(1)] obtain w where w: "t = tr @ w" "list_all (\<lambda>c. \<not> starts c) w" by blast
    moreover from yieldsD [OF turns_world [unfolded turns_def] ok(1)] w(1)
    have wm: "fold (mount_call H) (made K tr w) ms = granted_on H stage c ms" for ms by auto
    moreover from yieldsD [OF passes_world [unfolded passes_def] ok(1)] w(1)
    have ws: "subseq [CcMount None ''/'' None {MfRec, MfPrivate}] (made K tr w)" by auto
    from ok(2) show ?thesis
    proof (cases rule: act_bind_cases)
      case (err e)
      from quiet_prefix [OF quiet_lock_down err(1)] obtain l where "tr' = t @ l" "list_all (\<lambda>c. \<not> starts c) l" by blast
      with w err(2) show ?thesis by (intro over [of "w @ l" e]) simp_all
    next
      case (ok y u)
      from quiet_prefix [OF quiet_lock_down ok(1)] obtain l where l: "u = t @ l" "list_all (\<lambda>c. \<not> starts c) l" by blast
      moreover from yieldsD [OF stays_lock_down [unfolded turns_def] ok(1)] l(1)
      have lm: "fold (mount_call H) (made K t l) ms = ms" for ms by auto
      moreover from yieldsD [OF passes_lock_down [unfolded passes_def] ok(1)] l(1)
      have ls: "subseq (lock_calls K stage c) (made K t l)" by auto
      obtain q post where q: "tr' = (u @ q) @ post" "list_all (\<lambda>c. \<not> starts c) q"
        "\<And>ms. fold (mount_call H) (made K u q) ms = ms"
        "post = [] \<or> (\<exists>c. post = [c] \<and> starts c)" "(\<exists>st. r = Inr st) \<longrightarrow> post \<noteq> []"
        using run_payload_start [OF ok(2), of H] by blast
      have all: "made K tr (w @ l @ q) = made K tr w @ made K t l @ made K u q"
        using w(1) l(1) by (simp add: made_append)
      have "subseq (lock_start K stage c) ((made K tr w @ made K t l) @ made K u q)"
        unfolding lock_start_def using list_emb_append_mono [OF list_emb_append_mono [OF ws ls], of "[]" "made K u q"] by simp
      with w l q lm wm all show ?thesis by (intro exI [of _ "w @ l @ q"] exI [of _ post]) auto
    qed
  qed
qed

subsection \<open>The whole run\<close>

lemma stays_enter: "stays K H (enter_namespaces K)"
  unfolding enter_namespaces_def write_maps_def
  by (intro turns_skip) (auto intro!: turns_kcall simp: mount_call_def)

lemma passes_enter: "passes K (CcUnshare all_namespaces # map_calls K) (enter_namespaces K)"
  unfolding enter_namespaces_def write_maps_def map_calls_def
  by (rule passes_cons [OF passes_kcall])+ (rule passes_kcall)

text \<open>The run without the bytes of its pipes: what B comes to, or the step that failed.\<close>

definition step_text :: "kernel \<Rightarrow> i32 \<Rightarrow> i32 \<Rightarrow> string" where
  "step_text K step e = (if 0 <s e then step_name step @ '': '' @ kn_os_error K e else step_name step)"

definition payload_run :: "kernel \<Rightarrow> string \<Rightarrow> cell \<Rightarrow> payload \<Rightarrow> wait_status world_action" where
  "payload_run K stage c p =
     act_bind (enter_namespaces K) (\<lambda>_.
     act_bind (if \<not> kn_pipe K then act_fail (s_fork, 0)
       else case kn_fork K of Some e \<Rightarrow> act_fail (s_fork, e) | None \<Rightarrow> act_ret ()) (\<lambda>_.
       build_world_and_run K stage c p))"

definition status_of :: "wait_status \<Rightarrow> cell_error + cell_status" where
  "status_of st =
     (case st of
        WExited code \<Rightarrow> Inr \<lparr>cs_code = Some code, cs_signal = None\<rparr>
      | WSignaled sig \<Rightarrow> Inr \<lparr>cs_code = None, cs_signal = Some sig\<rparr>
      | WOther \<Rightarrow> Inl (CeConfine (step_name s_fork)))"

definition typed_run :: "kernel \<Rightarrow> string \<Rightarrow> cell \<Rightarrow> payload \<Rightarrow> (cell_error + cell_status) \<times> cell_call list" where
  "typed_run K stage c p =
     (case kn_spawn K of
        Some e \<Rightarrow> (Inl e, [])
      | None \<Rightarrow>
          (case payload_run K stage c p [] of
             (Inl (step, e), tr) \<Rightarrow> (Inl (CeConfine (step_text K step e)), tr)
           | (Inr st, tr) \<Rightarrow> (status_of st, tr)))"

lemma read_report_write:
  "read_report K (write_report r_exited a b) = Inr \<lparr>cs_code = Some a, cs_signal = None\<rparr>"
  "read_report K (write_report r_signaled a b) = Inr \<lparr>cs_code = None, cs_signal = Some a\<rparr>"
  "read_report K (write_report r_setup_err a b) = Inl (CeConfine (step_text K a b))"
  by (simp_all add: read_report_def write_report_def Let_def r_exited_def r_signaled_def r_setup_err_def step_text_def)

lemma bridge_report:
  "read_report K (case b_ends r of (pipe, st) \<Rightarrow> bridge pipe st)
    = (case r of Inl (step, e) \<Rightarrow> Inl (CeConfine (step_text K step e)) | Inr st \<Rightarrow> status_of st)"
  by (auto simp: b_ends_def bridge_def emit_def Let_def read_report_write status_of_def step_text_def [of K s_fork 0]
      split: sum.split wait_status.split)

lemma cell_run_typed: "cell_run K stage c p = typed_run K stage c p"
  by (auto simp: cell_run_def typed_run_def cell_init_def payload_run_def act_bind_def read_report_write bridge_report
      split: option.split sum.split prod.split)
    (metis bridge_report old.prod.case sum.simps(5) sum.simps(6))+

lemma payload_run_confined:
  assumes "payload_run K stage c p [] = (r, tr)"
  shows "\<exists>pre post. tr = pre @ post \<and> list_all (\<lambda>c. \<not> starts c) pre \<and> (post = [] \<or> (\<exists>d. post = [d] \<and> starts d))
    \<and> (post \<noteq> [] \<longrightarrow> subseq (gate_calls K stage c) (made K [] pre)
         \<and> fold (mount_call H) (made K [] pre) [] = granted_world H stage c)
    \<and> ((\<exists>st. r = Inr st) \<longrightarrow> post \<noteq> [])"
  using assms [unfolded payload_run_def]
proof (cases rule: act_bind_cases)
  case (err e)
  from quiet_prefix [OF quiet_enter err(1)] err(2) show ?thesis by (intro exI [of _ tr] exI [of _ "[]"]) auto
next
  case (ok x t)
  from quiet_prefix [OF quiet_enter ok(1)] have w: "list_all (\<lambda>c. \<not> starts c) t" by simp
  from yieldsD [OF stays_enter [unfolded turns_def] ok(1)] have wm: "fold (mount_call H) (made K [] t) ms = ms" for ms by auto
  from yieldsD [OF passes_enter [unfolded passes_def] ok(1)]
  have ws: "subseq (CcUnshare all_namespaces # map_calls K) (made K [] t)" by auto
  from ok(2) show ?thesis
  proof (cases rule: act_bind_cases)
    case (err e)
    then have "tr = t" "r = Inl e" by (auto split: if_splits option.splits)
    with w show ?thesis by (intro exI [of _ t] exI [of _ "[]"]) auto
  next
    case (ok y u)
    then have "u = t" by (auto split: if_splits option.splits)
    with started_confined [of K stage c p t r tr H] ok(2) obtain pre post where b: "tr = (t @ pre) @ post"
      "list_all (\<lambda>c. \<not> starts c) pre" "post = [] \<or> (\<exists>d. post = [d] \<and> starts d)"
      "post \<noteq> [] \<longrightarrow> subseq (lock_start K stage c) (made K t pre)
         \<and> (\<forall>ms. fold (mount_call H) (made K t pre) ms = granted_on H stage c ms)"
      "(\<exists>st. r = Inr st) \<longrightarrow> post \<noteq> []" by blast
    have all: "made K [] (t @ pre) = made K [] t @ made K t pre" by (simp add: made_append)
    have "subseq (gate_calls K stage c) (made K [] (t @ pre))" if "subseq (lock_start K stage c) (made K t pre)"
      unfolding all using list_emb_append_mono [OF ws that] by (simp add: gate_calls_def lock_start_def)
    with w wm b all show ?thesis
      by (intro exI [of _ "t @ pre"] exI [of _ post]) (auto simp: granted_world_def)
  qed
qed

lemma split_start:
  assumes "pre @ d # post = a @ b" and "starts d" and "list_all (\<lambda>c. \<not> starts c) a" and "b = [] \<or> (\<exists>d'. b = [d'] \<and> starts d')"
  shows "pre = a \<and> b = [d] \<and> post = []"
proof -
  have "d \<in> set b" using assms(1-3) by (metis UnE in_set_conv_decomp list_all_iff set_append)
  then have b: "b = [d]" using assms(4) by auto
  have "post = []"
  proof (rule ccontr)
    assume "post \<noteq> []"
    then obtain q z where "post = q @ [z]" by (metis rev_exhaust)
    with assms(1) b have "pre @ d # q = a" by simp
    with assms(2,3) show False by auto
  qed
  with assms(1) b show ?thesis by simp
qed

text \<open>C36.  A payload never runs but in the world that was granted.  When a program is executed or the
  closure runs, these calls have succeeded before it, in this order: all seven namespaces entered,
  \<open>setgroups\<close> denied and the two id maps written, the mounts cut off the host's, the new root entered,
  pivoted into and the old one detached, new privileges given up, the filter that was asked for
  installed; and every descriptor from 3 below the limit (at most 4096) that the cell was not told to
  keep has been asked to close, but for the one that reports errors; the code does not look at what
  closing returns.  The mounts made for the payload, over any mounts \<open>H\<close> of the host, are exactly the
  granted world: the root, the binds in their order, the devices and \<open>/proc\<close> if asked for.  A bind's own
  mount is read-only unless it was granted writable; the mounts of the host below its source come
  with it and stay as they are, so a read-only bind does not close them, and an open mount of the
  world is the root, \<open>/proc\<close>, a writable bind or device, or lies below the target of some bind.
  Nothing runs after the payload has started.\<close>

theorem cell_confined:
  assumes "cell_run K stage c p = (r, pre @ d # post)" and "starts d"
  shows "subseq (gate_calls K stage c) (made K [] pre)
    \<and> fold (mount_call H) (made K [] pre) [] = granted_world H stage c
    \<and> (\<forall>m s. (m, s, True) \<in> set (granted_world H stage c) \<longrightarrow>
        m = path_components stage \<and> s = ''tmpfs''
        \<or> ce_mount_proc c \<and> m = path_components (stage @ ''/proc'') \<and> s = ''proc''
        \<or> (\<exists>b \<in> set (cell_binds c). m = path_components (bind_target stage b) \<and> s = bi_src b \<and> bi_writable b
            \<or> strict_prefix (path_components (bind_target stage b)) m))
    \<and> post = []"
proof -
  obtain r' where run: "payload_run K stage c p [] = (r', pre @ d # post)"
    using assms(1) by (auto simp: cell_run_typed typed_run_def split: option.splits prod.splits sum.splits)
  from payload_run_confined [OF run, of H] obtain a b where b: "pre @ d # post = a @ b" "list_all (\<lambda>c. \<not> starts c) a"
    "b = [] \<or> (\<exists>d. b = [d] \<and> starts d)"
    "b \<noteq> [] \<longrightarrow> subseq (gate_calls K stage c) (made K [] a)
      \<and> fold (mount_call H) (made K [] a) [] = granted_world H stage c" by blast
  from split_start [OF b(1) assms(2) b(2,3)] b(4) granted_open [of _ _ H stage c] show ?thesis by auto
qed

text \<open>C37.  The report is faithful: through the two pipes and their byte formats, the supervisor learns exactly
  what became of the cell, namely how the payload ended, or which step of the setup failed and why; and
  a status is only ever reported of a payload that was started.\<close>

theorem cell_report_faithful:
  "cell_run K stage c p = typed_run K stage c p
    \<and> (\<forall>st tr. cell_run K stage c p = (Inr st, tr) \<longrightarrow> (\<exists>d \<in> set tr. starts d))"
proof -
  have "\<exists>d \<in> set tr. starts d" if "cell_run K stage c p = (Inr st, tr)" for st tr
  proof -
    from that obtain w where "payload_run K stage c p [] = (Inr w, tr)"
      by (auto simp: cell_run_typed typed_run_def split: option.splits prod.splits sum.splits)
    from payload_run_confined [OF this, of "[]"] show ?thesis by auto
  qed
  then show ?thesis by (simp add: cell_run_typed)
qed

end
