(* ===== verification/CellSamples.thy ===== *)
theory CellSamples
  imports CellRun
begin

section \<open>A small cell\<close>

definition demo_kernel :: kernel where
  "demo_kernel =
     \<lparr>kn_call = (\<lambda>_ _. None), kn_is_dir = (\<lambda>_ _. True), kn_statvfs = (\<lambda>_ _. Some {MfNosuid}),
      kn_fork = None, kn_pipe = True, kn_uid = 7, kn_gid = 8, kn_open_max = 6, kn_err_fd = 5,
      kn_program = (\<lambda>_. WExited 0), kn_os_error = (\<lambda>_. ''error''), kn_spawn = None\<rparr>"

definition demo_cell :: cell where
  "demo_cell = keep_fd 4 (bind_ro ''/usr'' ''/usr'' cell_new)"

definition demo_world_calls :: "cell_call list" where
  "demo_world_calls = snd (cell_run demo_kernel ''/t'' demo_cell (PlCall (\<lambda>_. Returns 3)))"

lemma demo_cell_run:
  "\<exists>pre. cell_run demo_kernel ''/t'' demo_cell (PlCall (\<lambda>_. Returns 3)) = (Inr \<lparr>cs_code = Some 3, cs_signal = None\<rparr>, pre @ [CcRun])"
proof -
  let ?r = "cell_run demo_kernel ''/t'' demo_cell (PlCall (\<lambda>_. Returns 3))"
  have "fst ?r = Inr \<lparr>cs_code = Some 3, cs_signal = None\<rparr> \<and> snd ?r \<noteq> [] \<and> last (snd ?r) = CcRun" by code_simp
  then show ?thesis by (intro exI [of _ "butlast (snd ?r)"]) (metis append_butlast_last_id prod.collapse)
qed

text \<open>On a host that has a file system mounted below the one that is bound read-only.\<close>

definition demo_host_mounts :: world where
  "demo_host_mounts = [(path_components ''/usr/local'', ''/dev/vdb'', True), (path_components ''/home'', ''/dev/vdc'', True)]"

theorem cell_confined_witness:
  "\<exists>pre. cell_run demo_kernel ''/t'' demo_cell (PlCall (\<lambda>_. Returns 3)) = (Inr \<lparr>cs_code = Some 3, cs_signal = None\<rparr>, pre @ [CcRun])
    \<and> fold (mount_call demo_host_mounts) (made demo_kernel [] pre) []
      = [(path_components ''/t/usr/local'', ''/dev/vdb'', True), (path_components ''/t/usr'', ''/usr'', False),
         (path_components ''/t'', ''tmpfs'', True)]
    \<and> CcClose 3 \<in> set (made demo_kernel [] pre) \<and> CcChdir ''/t'' \<in> set (made demo_kernel [] pre)"
proof -
  obtain pre where run: "cell_run demo_kernel ''/t'' demo_cell (PlCall (\<lambda>_. Returns 3))
      = (Inr \<lparr>cs_code = Some 3, cs_signal = None\<rparr>, pre @ [CcRun])" using demo_cell_run by blast
  from cell_confined [OF run, of demo_host_mounts]
  have c: "subseq (gate_calls demo_kernel ''/t'' demo_cell) (made demo_kernel [] pre)"
    "fold (mount_call demo_host_mounts) (made demo_kernel [] pre) [] = granted_world demo_host_mounts ''/t'' demo_cell" by simp_all
  have "granted_world demo_host_mounts ''/t'' demo_cell
      = [(path_components ''/t/usr/local'', ''/dev/vdb'', True), (path_components ''/t/usr'', ''/usr'', False),
         (path_components ''/t'', ''tmpfs'', True)]"
    "CcClose 3 \<in> set (gate_calls demo_kernel ''/t'' demo_cell)" "CcChdir ''/t'' \<in> set (gate_calls demo_kernel ''/t'' demo_cell)"
    by code_simp+
  moreover from this have "CcClose 3 \<in> set (made demo_kernel [] pre)" "CcChdir ''/t'' \<in> set (made demo_kernel [] pre)"
    using list_emb_set [OF c(1)] by metis+
  ultimately show ?thesis using run c(2) by (intro exI [of _ pre]) simp
qed

theorem cell_report_faithful_witness: "list_ex starts demo_world_calls"
proof -
  obtain pre where run: "cell_run demo_kernel ''/t'' demo_cell (PlCall (\<lambda>_. Returns 3))
      = (Inr \<lparr>cs_code = Some 3, cs_signal = None\<rparr>, pre @ [CcRun])" using demo_cell_run by blast
  have "\<forall>st tr. cell_run demo_kernel ''/t'' demo_cell (PlCall (\<lambda>_. Returns 3)) = (Inr st, tr) \<longrightarrow> (\<exists>d \<in> set tr. starts d)"
    using cell_report_faithful by blast
  with run have "\<exists>d \<in> set (pre @ [CcRun]). starts d" by blast
  then show ?thesis by (simp only: demo_world_calls_def run snd_conv list_ex_iff)
qed

end
