(* ===== verification/PortalRun.thy ===== *)
theory PortalRun
  imports Portal CellSamples Samples
begin

lemma demo_plain_request: "plain_request demo_res"
  by (simp add: plain_request_def demo_res_def res_text_ok_def res_show_def to_string_lossy_id utf8_str_ascii
      ascii_str_def plain_char_def is_ws_def ws_table_def str_bytes_def)

lemma parse_demo: "parse_request (recv_data (request_line demo_res rights_read))
    = (res_show demo_res @ '' '' @ rights_show rights_read, Some demo_res, rights_read)"
  by (rule parse_request_line [OF demo_plain_request]) (simp add: rights_read_def)

lemma demo_brokered:
  "\<exists>b'. brokered demo_ext (\<lambda>_. None) demo_cap 60 61 demo_res rights_read demo_live
    = (Inr (OpFile ''/data/notes'' True False), b')"
proof -
  obtain b' where "broker_access demo_ext demo_cap demo_res rights_read 60 61 demo_live = (Inr demo_lease, b')"
    by (rule demo_access)
  then show ?thesis
    by (simp add: brokered_def act_bind_def act_map_err_def materialize_def demo_lease_def demo_res_def Let_def
        rights_contains_def rights_read_def rights_write_def open_os_def)
qed

section \<open>What the portal promises\<close>

text \<open>C38.  A descriptor only by a grant: whatever bytes a principal sends, a descriptor is passed to it only
  when the capability's grant admits, at that time, the resource and rights the bytes parse to, and the
  descriptor is of that resource: written only with the right to write, read only with the right to
  read, except that a request without either right is read.\<close>

theorem portal_needs_grant:
  assumes "serve_once (brokered X Os cap t1 t2) line b = (Inr fd, msg, b')"
  shows "\<exists>tx r q gs. parse_request line = (tx, Some r, q) \<and> msg = (str_bytes (''ok'' @ [CHR 0x0A]), [fd])
    \<and> map_of (bk_grants b) (cap_grant cap) = Some gs \<and> grant_admits gs cap r q t1
    \<and> ((\<exists>path. r = RFile path \<and> fd = OpFile path (rights_contains q rights_read \<or> \<not> rights_contains q rights_write)
             (rights_contains q rights_write))
       \<or> (\<exists>host port. r = RNet host port \<and> fd = OpNet host port))"
proof -
  obtain tx resource q where parse: "parse_request line = (tx, resource, q)" by (metis prod_cases3)
  then obtain r where r: "resource = Some r" "brokered X Os cap t1 t2 r q b = (Inr fd, b')"
    "msg = (str_bytes (''ok'' @ [CHR 0x0A]), [fd])"
    using assms by (auto simp: serve_once_def split: option.splits prod.splits sum.splits)
  from brokered_Inr [OF r(2)] obtain l where l: "broker_access X cap r q t1 t2 b = (Inr l, b')"
    "materialize Os l = Inr fd" by blast
  have check: "broker_check b cap r q t1 = Inr ()"
    using l(1) by (cases "broker_check b cap r q t1") (auto simp: broker_access_def Let_def split: sum.splits prod.splits wv_error.splits)
  moreover from this have "l = \<lparr>le_grant = cap_grant cap, le_resource = r, le_rights = q\<rparr>"
    using l(1) by (auto simp: broker_access_def Let_def split: sum.splits prod.splits)
  ultimately show ?thesis
    using parse r materialize_Inr [OF l(2)] by (auto simp: broker_check_ok_iff)
qed

theorem portal_needs_grant_witness:
  "\<exists>gs. map_of (bk_grants demo_live) demo_gid = Some gs \<and> grant_admits gs demo_cap demo_res rights_read 60"
proof -
  obtain b' where "brokered demo_ext (\<lambda>_. None) demo_cap 60 61 demo_res rights_read demo_live
      = (Inr (OpFile ''/data/notes'' True False), b')" using demo_brokered by blast
  then have "serve_once (brokered demo_ext (\<lambda>_. None) demo_cap 60 61) (recv_data (request_line demo_res rights_read)) demo_live
      = (Inr (OpFile ''/data/notes'' True False), (str_bytes (''ok'' @ [CHR 0x0A]), [OpFile ''/data/notes'' True False]), b')"
    by (simp add: serve_once_def parse_demo)
  from portal_needs_grant [OF this] show ?thesis by (auto simp: parse_demo demo_cap_def)
qed

text \<open>The portal is the broker: for a resource whose text is plain and short, the exchange over the socket,
  with its two texts and its buffer, has the outcome of calling the broker and opening the lease
  directly: the same descriptor, or a refusal, and the same broker and audit log after it.\<close>

theorem portal_is_broker:
  assumes "plain_request r" and "q < 8"
  shows "\<exists>e'. portal_exchange X Os cap t1 t2 r q b
    = (case brokered X Os cap t1 t2 r q b of (Inr fd, b') \<Rightarrow> (Inr fd, b') | (Inl e, b') \<Rightarrow> (Inl e', b'))"
proof -
  obtain w b' where w: "brokered X Os cap t1 t2 r q b = (w, b')" by fastforce
  then show ?thesis using portal_exchange_plain [OF assms, of X Os cap t1 t2 b b'] by (cases w) auto
qed

theorem portal_is_broker_witness:
  "\<exists>b'. portal_exchange demo_ext (\<lambda>_. None) demo_cap 60 61 demo_res rights_read demo_live
    = (Inr (OpFile ''/data/notes'' True False), b')"
proof -
  obtain b' where "brokered demo_ext (\<lambda>_. None) demo_cap 60 61 demo_res rights_read demo_live
      = (Inr (OpFile ''/data/notes'' True False), b')" using demo_brokered by blast
  with portal_is_broker [OF demo_plain_request, of rights_read demo_ext "\<lambda>_. None" demo_cap 60 61 demo_live]
  show ?thesis by (simp add: rights_read_def)
qed

end
