(* ===== verification/Glass.thy ===== *)
theory Glass
  imports Broker "HOL-Library.List_Lexorder" "HOL-Library.Char_ord"
begin

section \<open>Glass: who can reach what\<close>

text \<open>
  \<open>crates/glass/src/model.rs\<close> and the live surface of \<open>lib.rs\<close>.  The model is a fold of the grant table and the
  audit log over a window of time.  A channel keeps beside it the set of the resource texts seen under
  it; indices into the channels are the positions in the list.
\<close>

record window =
  wi_start :: u64
  wi_end :: u64

definition sat_sub :: "u64 \<Rightarrow> u64 \<Rightarrow> u64" where
  "sat_sub a b = (if a < b then 0 else a - b)"

definition sat_mul :: "u64 \<Rightarrow> u64 \<Rightarrow> u64" where
  "sat_mul a b = (if unat a * unat b < 2 ^ 64 then a * b else -1)"

definition day_secs :: u64 where "day_secs = 24 * 60 * 60"
definition week_secs :: u64 where "week_secs = 7 * day_secs"

definition window_ending :: "u64 \<Rightarrow> u64 \<Rightarrow> window" where
  "window_ending now span = \<lparr>wi_start = sat_sub now span, wi_end = now\<rparr>"

definition window_week :: "u64 \<Rightarrow> window" where
  "window_week now = window_ending now week_secs"

definition window_days :: "u64 \<Rightarrow> u64 \<Rightarrow> window" where
  "window_days now days = window_ending now (sat_mul days day_secs)"

definition window_span :: "window \<Rightarrow> u64" where
  "window_span w = sat_sub (wi_end w) (wi_start w)"

definition in_window :: "window \<Rightarrow> u64 \<Rightarrow> bool" where
  "in_window w t \<longleftrightarrow> wi_start w \<le> t \<and> t \<le> wi_end w"

datatype channel_kind = KindNet | KindData | KindDev | KindSvc

definition kind_of :: "resource \<Rightarrow> channel_kind" where
  "kind_of r = (case r of RNet _ _ \<Rightarrow> KindNet | RFile _ \<Rightarrow> KindData | RDevice _ \<Rightarrow> KindDev | RService _ _ \<Rightarrow> KindSvc)"

definition kind_label :: "channel_kind \<Rightarrow> string" where
  "kind_label k = (case k of KindNet \<Rightarrow> ''net'' | KindData \<Rightarrow> ''data'' | KindDev \<Rightarrow> ''dev'' | KindSvc \<Rightarrow> ''svc'')"

datatype channel_status = StLive | StSevered | StExpired | StBlocked

definition status_label :: "channel_status \<Rightarrow> string" where
  "status_label s =
     (case s of StLive \<Rightarrow> ''live'' | StSevered \<Rightarrow> ''severed'' | StExpired \<Rightarrow> ''expired'' | StBlocked \<Rightarrow> ''blocked'')"

definition status_from :: "grant_status \<Rightarrow> channel_status" where
  "status_from s = (case s of Active \<Rightarrow> StLive | Revoked \<Rightarrow> StSevered | Expired \<Rightarrow> StExpired)"

record channel =
  cn_principal :: string
  cn_resource :: resource
  cn_kind :: channel_kind
  cn_rights :: rights
  cn_grant :: "grant_id option"
  cn_status :: channel_status
  cn_uses :: u32
  cn_denials :: u32
  cn_first :: "u64 option"
  cn_last :: "u64 option"
  cn_accessed :: "resource list"
  cn_reason :: "string option"

definition is_live :: "channel \<Rightarrow> bool" where
  "is_live c \<longleftrightarrow> cn_status c = StLive"

definition can_sever :: "channel \<Rightarrow> bool" where
  "can_sever c \<longleftrightarrow> cn_grant c \<noteq> None \<and> cn_status c = StLive"

record time_bucket =
  tb_start :: u64
  tb_end :: u64
  tb_grants :: u32
  tb_uses :: u32
  tb_denials :: u32
  tb_revokes :: u32

definition bucket_total :: "time_bucket \<Rightarrow> u32" where
  "bucket_total b = tb_grants b + tb_uses b + tb_denials b + tb_revokes b"

record totals =
  to_principals :: u32
  to_live :: u32
  to_network :: u32
  to_blocked :: u32
  to_severed :: u32

record principal_view =
  vw_principal :: string
  vw_channels :: "channel list"
  vw_live :: u32
  vw_blocked :: u32
  vw_last :: "u64 option"

record glass_model =
  gm_window :: window
  gm_principals :: "principal_view list"
  gm_timeline :: "time_bucket list"
  gm_totals :: totals

definition model_is_empty :: "glass_model \<Rightarrow> bool" where
  "model_is_empty m \<longleftrightarrow> gm_principals m = []"

subsection \<open>The timeline\<close>

definition scale_to :: "u64 \<Rightarrow> nat \<Rightarrow> nat \<Rightarrow> u64" where
  "scale_to span num den = (if den = 0 then 0 else of_nat (unat span * num div den))"

definition make_buckets :: "window \<Rightarrow> nat \<Rightarrow> time_bucket list" where
  "make_buckets w n =
     map (\<lambda>i. \<lparr>tb_start = wi_start w + scale_to (window_span w) i n,
              tb_end = wi_start w + scale_to (window_span w) (i + 1) n,
              tb_grants = 0, tb_uses = 0, tb_denials = 0, tb_revokes = 0\<rparr>) [0..<n]"

definition bucket_index :: "window \<Rightarrow> nat \<Rightarrow> u64 \<Rightarrow> nat option" where
  "bucket_index w n t =
     (if n = 0 \<or> \<not> in_window w t then None
      else if window_span w = 0 then Some 0
      else Some (min (unat (t - wi_start w) * n div unat (window_span w)) (n - 1)))"

definition bump :: "event \<Rightarrow> time_bucket \<Rightarrow> time_bucket" where
  "bump ev b =
     (case ev of
        EvGrant _ _ _ _ _ _ \<Rightarrow> b\<lparr>tb_grants := tb_grants b + 1\<rparr>
      | EvUse _ _ _ _ \<Rightarrow> b\<lparr>tb_uses := tb_uses b + 1\<rparr>
      | EvDeny _ _ _ _ \<Rightarrow> b\<lparr>tb_denials := tb_denials b + 1\<rparr>
      | EvRevoke _ \<Rightarrow> b\<lparr>tb_revokes := tb_revokes b + 1\<rparr>)"

definition note_time :: "window \<Rightarrow> nat \<Rightarrow> audit_entry \<Rightarrow> time_bucket list \<Rightarrow> time_bucket list" where
  "note_time w n e bs =
     (if in_window w (ae_time e) then
        (case bucket_index w n (ae_time e) of
           Some i \<Rightarrow> bs[i := bump (ae_event e) (bs ! i)]
         | None \<Rightarrow> bs)
      else bs)"

subsection \<open>The channels\<close>

type_synonym row = "channel \<times> string set"

record glass_state =
  gb_rows :: "row list"
  gb_by_grant :: "(grant_id \<times> nat) list"
  gb_by_deny :: "(string \<times> nat) list"

definition seed :: "grant_info \<Rightarrow> row" where
  "seed g =
     (\<lparr>cn_principal = gi_principal g, cn_resource = gi_resource g, cn_kind = kind_of (gi_resource g),
       cn_rights = gi_rights g, cn_grant = Some (gi_id g), cn_status = status_from (gi_status g),
       cn_uses = gi_uses g, cn_denials = 0, cn_first = Some (gi_granted g), cn_last = Some (gi_granted g),
       cn_accessed = [], cn_reason = None\<rparr>, {})"

definition glass_seed :: "grant_info list \<Rightarrow> glass_state" where
  "glass_seed gs =
     \<lparr>gb_rows = map seed gs, gb_by_grant = zip (map gi_id gs) [0..<length gs], gb_by_deny = []\<rparr>"

definition opt_min :: "u64 option \<Rightarrow> u64 \<Rightarrow> u64 option" where
  "opt_min x t = Some (case x of None \<Rightarrow> t | Some f \<Rightarrow> min f t)"

definition opt_max :: "u64 option \<Rightarrow> u64 \<Rightarrow> u64 option" where
  "opt_max x t = Some (case x of None \<Rightarrow> t | Some l \<Rightarrow> max l t)"

definition advance :: "u64 \<Rightarrow> channel \<Rightarrow> channel" where
  "advance t c = c\<lparr>cn_first := opt_min (cn_first c) t, cn_last := opt_max (cn_last c) t\<rparr>"

definition note_access :: "resource \<Rightarrow> row \<Rightarrow> row" where
  "note_access r row =
     (case row of (c, seen) \<Rightarrow>
        let d = res_show r in
        if d = res_show (cn_resource c) \<or> d \<in> seen then row
        else (c\<lparr>cn_accessed := cn_accessed c @ [r]\<rparr>, insert d seen))"

definition on_row :: "nat \<Rightarrow> (row \<Rightarrow> row) \<Rightarrow> glass_state \<Rightarrow> glass_state" where
  "on_row i f s = s\<lparr>gb_rows := (gb_rows s)[i := f (gb_rows s ! i)]\<rparr>"

definition deny_key :: "string \<Rightarrow> resource \<Rightarrow> string" where
  "deny_key p r = p @ CHR 0x00 # res_show r"

definition deny_row :: "string \<Rightarrow> resource \<Rightarrow> rights \<Rightarrow> row" where
  "deny_row p r q =
     (\<lparr>cn_principal = p, cn_resource = r, cn_kind = kind_of r, cn_rights = q, cn_grant = None,
       cn_status = StBlocked, cn_uses = 0, cn_denials = 0, cn_first = None, cn_last = None,
       cn_accessed = [], cn_reason = None\<rparr>, {})"

definition deny_channel :: "string \<Rightarrow> resource \<Rightarrow> rights \<Rightarrow> glass_state \<Rightarrow> nat \<times> glass_state" where
  "deny_channel p r q s =
     (case map_of (gb_by_deny s) (deny_key p r) of
        Some i \<Rightarrow> (i, on_row i (\<lambda>(c, seen). (c\<lparr>cn_rights := cn_rights c OR q\<rparr>, seen)) s)
      | None \<Rightarrow>
          (length (gb_rows s),
           s\<lparr>gb_rows := gb_rows s @ [deny_row p r q],
             gb_by_deny := gb_by_deny s @ [(deny_key p r, length (gb_rows s))]\<rparr>))"

fun position :: "('a \<Rightarrow> bool) \<Rightarrow> 'a list \<Rightarrow> nat option" where
  "position P [] = None"
| "position P (x # xs) = (if P x then Some 0 else map_option Suc (position P xs))"

definition folds_into :: "string \<Rightarrow> resource \<Rightarrow> row \<Rightarrow> bool" where
  "folds_into p r row \<longleftrightarrow>
     cn_grant (fst row) \<noteq> None \<and> cn_principal (fst row) = p \<and> res_covers (cn_resource (fst row)) r"

definition note_event :: "audit_entry \<Rightarrow> glass_state \<Rightarrow> glass_state" where
  "note_event e s =
     (case ae_event e of
        EvUse g p r q \<Rightarrow>
          (case map_of (gb_by_grant s) g of
             Some i \<Rightarrow> on_row i (\<lambda>(c, seen). note_access r (advance (ae_time e) c, seen)) s
           | None \<Rightarrow> s)
      | EvDeny p r q reason \<Rightarrow>
          (let (i, s') = (case position (folds_into p r) (gb_rows s) of
              Some i \<Rightarrow> (i, s)
            | None \<Rightarrow> deny_channel p r q s)
           in on_row i (\<lambda>(c, seen).
               (advance (ae_time e) (c\<lparr>cn_denials := cn_denials c + 1, cn_reason := Some reason\<rparr>), seen)) s')
      | _ \<Rightarrow> s)"

definition kept :: "window \<Rightarrow> channel \<Rightarrow> bool" where
  "kept w c \<longleftrightarrow> is_live c \<or> (case cn_last c of None \<Rightarrow> False | Some t \<Rightarrow> in_window w t)"

definition sort_accessed :: "channel \<Rightarrow> channel" where
  "sort_accessed c = c\<lparr>cn_accessed := sort_key res_show (cn_accessed c)\<rparr>"

subsection \<open>The views\<close>

text \<open>The order of \<open>sort_by\<close>: a later time first, no time last; a comparison with ties is one stable sort per
  criterion, the least first.\<close>

definition recent_key :: "u64 option \<Rightarrow> nat" where
  "recent_key x = (case x of None \<Rightarrow> 2 ^ 64 | Some t \<Rightarrow> 2 ^ 64 - 1 - unat t)"

definition sort_channels :: "channel list \<Rightarrow> channel list" where
  "sort_channels cs =
     sort_key (\<lambda>c. if is_live c then 0 else 1 :: nat)
       (sort_key (\<lambda>c. recent_key (cn_last c)) (sort_key (\<lambda>c. res_show (cn_resource c)) cs))"

definition sort_views :: "principal_view list \<Rightarrow> principal_view list" where
  "sort_views vs = sort_key (\<lambda>v. recent_key (vw_last v)) (sort_key vw_principal vs)"

fun add_channel :: "channel \<Rightarrow> principal_view list \<Rightarrow> principal_view list" where
  "add_channel c [] = [\<lparr>vw_principal = cn_principal c, vw_channels = [c], vw_live = 0, vw_blocked = 0, vw_last = None\<rparr>]"
| "add_channel c (v # vs) =
     (if vw_principal v = cn_principal c then v\<lparr>vw_channels := vw_channels v @ [c]\<rparr> # vs
      else v # add_channel c vs)"

definition opt_max_of :: "u64 option list \<Rightarrow> u64 option" where
  "opt_max_of xs = fold (\<lambda>x m. case x of None \<Rightarrow> m | Some t \<Rightarrow> opt_max m t) xs None"

definition count32 :: "('a \<Rightarrow> bool) \<Rightarrow> 'a list \<Rightarrow> u32" where
  "count32 P xs = of_nat (length (filter P xs))"

definition finish_view :: "principal_view \<Rightarrow> principal_view" where
  "finish_view v =
     v\<lparr>vw_live := count32 is_live (vw_channels v),
       vw_blocked := count32 (\<lambda>c. cn_status c = StBlocked) (vw_channels v),
       vw_last := opt_max_of (map cn_last (vw_channels v)),
       vw_channels := sort_channels (vw_channels v)\<rparr>"

definition group_channels :: "channel list \<Rightarrow> principal_view list" where
  "group_channels cs = sort_views (map finish_view (fold add_channel cs []))"

definition count_totals :: "principal_view list \<Rightarrow> totals" where
  "count_totals vs =
     (let cs = concat (map vw_channels vs) in
      \<lparr>to_principals = of_nat (length vs), to_live = count32 is_live cs,
       to_network = count32 (\<lambda>c. is_live c \<and> cn_kind c = KindNet) cs,
       to_blocked = count32 (\<lambda>c. cn_status c = StBlocked) cs,
       to_severed = count32 (\<lambda>c. cn_status c = StSevered) cs\<rparr>)"

definition glass_build :: "audit_entry list \<Rightarrow> grant_info list \<Rightarrow> window \<Rightarrow> nat \<Rightarrow> glass_model" where
  "glass_build entries grants w n =
     (let s = fold note_event entries (glass_seed grants);
          views = group_channels (map sort_accessed (filter (kept w) (map fst (gb_rows s)))) in
      \<lparr>gm_window = w, gm_principals = views, gm_timeline = fold (note_time w n) entries (make_buckets w n),
       gm_totals = count_totals views\<rparr>)"

subsection \<open>The live surface\<close>

definition default_buckets :: nat where "default_buckets = 7"

text \<open>\<open>now\<close> is the clock reading the broker makes for its listing.\<close>

definition model_within :: "ext \<Rightarrow> broker \<Rightarrow> u64 \<Rightarrow> window \<Rightarrow> nat \<Rightarrow> (wv_error + glass_model) option" where
  "model_within X b now w n =
     map_option (\<lambda>r. res_bind r (\<lambda>entries. Inr (glass_build entries (broker_grants b now) w n))) (broker_audit X b)"

definition glass_model_now :: "ext \<Rightarrow> broker \<Rightarrow> u64 \<Rightarrow> u64 \<Rightarrow> (wv_error + glass_model) option" where
  "glass_model_now X b t1 t2 = model_within X b t2 (window_week t1) default_buckets"

definition glass_sever :: "ext \<Rightarrow> grant_id \<Rightarrow> u64 \<Rightarrow> (broker, wv_error, unit) action" where
  "glass_sever X g now = broker_revoke X g now"

end
