(* ===== verification/GlassView.thy ===== *)
theory GlassView
  imports Glass "HOL-Library.Multiset"
begin

section \<open>What Glass shows\<close>

definition model_channels :: "glass_model \<Rightarrow> channel list" where
  "model_channels m = concat (map vw_channels (gm_principals m))"

text \<open>What the log never changes of the channel of a grant.\<close>

definition standing_of :: "channel \<Rightarrow> string \<times> resource \<times> channel_kind \<times> rights \<times> grant_id option \<times> channel_status \<times> u32" where
  "standing_of c = (cn_principal c, cn_resource c, cn_kind c, cn_rights c, cn_grant c, cn_status c, cn_uses c)"

subsection \<open>Grouping keeps the channels\<close>

lemma mset_sort_key: "mset (sort_key f xs) = mset xs"
  by simp

lemma mset_sort_channels: "mset (sort_channels cs) = mset cs"
  by (simp add: sort_channels_def)

lemma mset_concat_sort: "mset (concat (map f (sort_key k vs))) = mset (concat (map f vs))"
  by (simp add: mset_concat sum_mset_sum_list [symmetric] del: sum_mset_sum_list)

lemma mset_add_channel: "mset (concat (map vw_channels (add_channel c vs))) = add_mset c (mset (concat (map vw_channels vs)))"
  by (induction c vs rule: add_channel.induct) auto

lemma mset_fold_add: "mset (concat (map vw_channels (fold add_channel cs vs))) = mset cs + mset (concat (map vw_channels vs))"
  by (induction cs arbitrary: vs) (simp_all add: mset_add_channel)

lemma mset_finish: "mset (concat (map vw_channels (map finish_view vs))) = mset (concat (map vw_channels vs))"
  by (induction vs) (simp_all add: finish_view_def mset_sort_channels)

lemma mset_group: "mset (concat (map vw_channels (group_channels cs))) = mset cs"
  by (simp only: group_channels_def sort_views_def mset_concat_sort mset_finish mset_fold_add) simp

lemma model_channels_mset:
  "mset (model_channels (glass_build es gs w n))
    = mset (map sort_accessed (filter (kept w) (map fst (gb_rows (fold note_event es (glass_seed gs))))))"
  by (simp only: model_channels_def glass_build_def Let_def glass_model.simps mset_group)

text \<open>Each view holds the channels of one principal, and no principal has two.\<close>

definition views_ok :: "principal_view list \<Rightarrow> bool" where
  "views_ok vs \<longleftrightarrow> distinct (map vw_principal vs)
     \<and> list_all (\<lambda>v. \<forall>c \<in> set (vw_channels v). cn_principal c = vw_principal v) vs"

lemma principals_add: "set (map vw_principal (add_channel c vs)) = insert (cn_principal c) (set (map vw_principal vs))"
  by (induction c vs rule: add_channel.induct) auto

lemma views_ok_add: "views_ok vs \<Longrightarrow> views_ok (add_channel c vs)"
proof (induction c vs rule: add_channel.induct)
  case (2 c v vs)
  then have "views_ok vs" "vw_principal v \<notin> set (map vw_principal vs)" by (simp_all add: views_ok_def)
  with 2 principals_add [of c vs] show ?case by (auto simp: views_ok_def)
qed (simp add: views_ok_def)

lemma views_ok_group: "views_ok (group_channels cs)"
proof -
  have "views_ok (fold add_channel cs vs)" if "views_ok vs" for vs
    using that by (induction cs arbitrary: vs) (simp_all add: views_ok_add)
  from this [of "[]"] have v: "views_ok (fold add_channel cs [])" by (simp add: views_ok_def)
  have "map vw_principal (map finish_view vs) = map vw_principal vs" for vs by (simp add: finish_view_def)
  then have d: "distinct (map vw_principal (map finish_view (fold add_channel cs [])))"
    using v unfolding views_ok_def by metis
  have fv: "set (vw_channels (finish_view v)) = set (vw_channels v)" "vw_principal (finish_view v) = vw_principal v" for v
    using mset_sort_channels [of "vw_channels v"] by (auto simp: finish_view_def dest: mset_eq_setD)
  have "distinct (map vw_principal (sort_views vs))" if "distinct (map vw_principal vs)" for vs
    using that unfolding sort_views_def distinct_map by (simp add: distinct_map)
  with d v show ?thesis by (auto simp: group_channels_def views_ok_def sort_views_def list_all_iff fv)
qed

subsection \<open>The channels of the grants\<close>

definition rows_of_grants :: "grant_info list \<Rightarrow> glass_state \<Rightarrow> bool" where
  "rows_of_grants gs s \<longleftrightarrow>
     length gs \<le> length (gb_rows s)
     \<and> map (standing_of \<circ> fst) (take (length gs) (gb_rows s)) = map (standing_of \<circ> fst \<circ> seed) gs
     \<and> list_all (\<lambda>row. cn_status (fst row) = StBlocked \<and> cn_grant (fst row) = None) (drop (length gs) (gb_rows s))
     \<and> list_all (\<lambda>(k, i). length gs \<le> i \<and> i < length (gb_rows s)) (gb_by_deny s)"

lemma length_on_row [simp]: "length (gb_rows (on_row i f s)) = length (gb_rows s)"
  by (simp add: on_row_def)

lemma on_row_deny [simp]: "gb_by_deny (on_row i f s) = gb_by_deny s" "gb_by_grant (on_row i f s) = gb_by_grant s"
  by (simp_all add: on_row_def)

lemma map_update_same: "(\<And>x. g (f x) = g x) \<Longrightarrow> map g (xs[i := f (xs ! i)]) = map g xs"
  by (cases "i < length xs") (simp_all add: map_update list_update_same_conv list_update_beyond)

lemma on_row_keeps:
  assumes "rows_of_grants gs s" and "\<And>row. standing_of (fst (f row)) = standing_of (fst row)"
  shows "rows_of_grants gs (on_row i f s)"
proof -
  let ?n = "length gs"
  have whole: "map (standing_of \<circ> fst) (gb_rows (on_row i f s)) = map (standing_of \<circ> fst) (gb_rows s)"
    unfolding on_row_def by (simp add: map_update_same assms(2))
  have "map (standing_of \<circ> fst) (take ?n (gb_rows (on_row i f s))) = map (standing_of \<circ> fst) (take ?n (gb_rows s))"
    using arg_cong [OF whole, of "take ?n"] by (simp only: take_map)
  moreover have tail: "map (standing_of \<circ> fst) (drop ?n (gb_rows (on_row i f s))) = map (standing_of \<circ> fst) (drop ?n (gb_rows s))"
    using arg_cong [OF whole, of "drop ?n"] by (simp only: drop_map)
  have blocked: "list_all (\<lambda>row. cn_status (fst row) = StBlocked \<and> cn_grant (fst row) = None) xs
      \<longleftrightarrow> list_all (\<lambda>(_, _, _, _, g, st, _). st = StBlocked \<and> g = None) (map (standing_of \<circ> fst) xs)" for xs :: "row list"
    by (simp add: list_all_iff standing_of_def)
  show ?thesis using assms(1) calculation unfolding rows_of_grants_def blocked tail by simp
qed

lemma list_all_update: "list_all P xs \<Longrightarrow> P x \<Longrightarrow> list_all P (xs[i := x])"
  by (induction xs arbitrary: i) (auto split: nat.split)

lemma deny_channel_keeps:
  assumes "rows_of_grants gs s" and "deny_channel p r q s = (i, s')"
  shows "rows_of_grants gs s' \<and> length gs \<le> i \<and> i < length (gb_rows s')"
proof (cases "map_of (gb_by_deny s) (deny_key p r)")
  case None
  have d: "length gs \<le> j \<and> j < length (gb_rows s)" if "(k, j) \<in> set (gb_by_deny s)" for k j
    using assms(1) that by (auto simp: rows_of_grants_def list_all_iff)
  have "\<forall>x \<in> set (gb_by_deny s). case x of (k, j) \<Rightarrow> length gs \<le> j \<and> j < Suc (length (gb_rows s))"
    using d less_SucI by blast
  moreover have s': "s' = s\<lparr>gb_rows := gb_rows s @ [deny_row p r q], gb_by_deny := gb_by_deny s @ [(deny_key p r, length (gb_rows s))]\<rparr>"
    and i: "i = length (gb_rows s)"
    using None assms(2) by (auto simp: deny_channel_def)
  ultimately show ?thesis using assms(1) unfolding s' i by (simp add: rows_of_grants_def deny_row_def list_all_iff)
next
  case (Some j)
  then have j: "length gs \<le> j" "j < length (gb_rows s)"
    using assms(1) by (auto simp: rows_of_grants_def list_all_iff dest!: map_of_SomeD)
  let ?f = "\<lambda>(c, seen). (c\<lparr>cn_rights := cn_rights c OR q\<rparr>, seen)"
  have s': "s' = on_row j ?f s" "i = j" using assms(2) Some by (auto simp: deny_channel_def)
  let ?blocked = "\<lambda>row :: row. cn_status (fst row) = StBlocked \<and> cn_grant (fst row) = None"
  have "list_all ?blocked (drop (length gs) (gb_rows s'))"
  proof -
    have "drop (length gs) (gb_rows s') = (drop (length gs) (gb_rows s))[j - length gs := ?f (gb_rows s ! j)]"
      using j by (simp add: s' on_row_def drop_update_swap)
    moreover have "gb_rows s ! j \<in> set (drop (length gs) (gb_rows s))"
      using j nth_mem [of "j - length gs" "drop (length gs) (gb_rows s)"] by simp
    moreover from this have "?blocked (?f (gb_rows s ! j))"
      using assms(1) by (auto simp: rows_of_grants_def list_all_iff split: prod.split)
    ultimately show ?thesis using assms(1) by (simp add: rows_of_grants_def list_all_update)
  qed
  with assms(1) j show ?thesis by (simp add: s' rows_of_grants_def on_row_def)
qed

lemma standing_advance [simp]: "standing_of (advance t c) = standing_of c"
  by (simp add: standing_of_def advance_def)

lemma standing_note [simp]: "standing_of (fst (note_access r (c, seen))) = standing_of c"
  by (simp add: note_access_def Let_def standing_of_def)

lemma note_event_keeps: "rows_of_grants gs s \<Longrightarrow> rows_of_grants gs (note_event e s)"
proof (cases "ae_event e")
  case (EvUse g p r q)
  assume "rows_of_grants gs s"
  with EvUse show ?thesis
    by (auto simp: note_event_def intro!: on_row_keeps split: option.split prod.split)
next
  case (EvDeny p r q why)
  assume s: "rows_of_grants gs s"
  obtain i s' where i: "(case position (folds_into p r) (gb_rows s) of Some i \<Rightarrow> (i, s) | None \<Rightarrow> deny_channel p r q s) = (i, s')"
    by fastforce
  have "rows_of_grants gs s'"
    using i s deny_channel_keeps [OF s] by (auto split: option.splits)
  moreover have "standing_of (c\<lparr>cn_denials := d, cn_reason := w\<rparr>) = standing_of c" for c d w by (simp add: standing_of_def)
  ultimately show ?thesis using EvDeny i by (auto simp: note_event_def intro!: on_row_keeps split: prod.split)
qed (simp_all add: note_event_def)

lemma seed_rows: "rows_of_grants gs (glass_seed gs)"
  by (simp add: rows_of_grants_def glass_seed_def)

lemma rows_of_build: "rows_of_grants gs (fold note_event es (glass_seed gs))"
proof -
  have "rows_of_grants gs s \<Longrightarrow> rows_of_grants gs (fold note_event es s)" for s
    by (induction es arbitrary: s) (simp_all add: note_event_keeps)
  then show ?thesis by (simp add: seed_rows)
qed

definition live_standing :: "grant_info \<Rightarrow> string \<times> resource \<times> channel_kind \<times> rights \<times> grant_id option \<times> channel_status \<times> u32" where
  "live_standing g = (gi_principal g, gi_resource g, kind_of (gi_resource g), gi_rights g, Some (gi_id g), StLive, gi_uses g)"

lemma live_channels:
  "image_mset standing_of (filter_mset is_live (mset (model_channels (glass_build es gs w n))))
    = image_mset live_standing (mset (filter (\<lambda>g. gi_status g = Active) gs))"
proof -
  let ?rows = "gb_rows (fold note_event es (glass_seed gs))"
  let ?n = "length gs"
  let ?live = "\<lambda>(_, _, _, _, _, st, _). st = StLive"
  have live: "is_live c \<longleftrightarrow> ?live (standing_of c)" for c by (simp add: is_live_def standing_of_def)
  have inv: "map (standing_of \<circ> fst) (take ?n ?rows) = map (standing_of \<circ> fst \<circ> seed) gs"
    "list_all (\<lambda>row. cn_status (fst row) = StBlocked \<and> cn_grant (fst row) = None) (drop ?n ?rows)"
    using rows_of_build [of gs es] by (simp_all add: rows_of_grants_def)
  have "filter is_live (map sort_accessed (filter (kept w) cs)) = map sort_accessed (filter is_live cs)" for cs
    by (induction cs) (auto simp: kept_def sort_accessed_def is_live_def)
  then have "image_mset standing_of (filter_mset is_live (mset (model_channels (glass_build es gs w n))))
      = mset (map standing_of (map sort_accessed (filter is_live (map fst ?rows))))"
    unfolding model_channels_mset by (metis mset_filter mset_map)
  also have "map standing_of (map sort_accessed (filter is_live (map fst ?rows))) = filter ?live (map (standing_of \<circ> fst) ?rows)"
  proof -
    have "map standing_of (map sort_accessed (filter is_live cs)) = filter ?live (map standing_of cs)" for cs
      by (induction cs) (auto simp: live standing_of_def sort_accessed_def)
    then show ?thesis by (simp add: comp_def)
  qed
  also have "\<dots> = filter ?live (map (standing_of \<circ> fst) (take ?n ?rows) @ map (standing_of \<circ> fst) (drop ?n ?rows))"
    by (metis append_take_drop_id map_append)
  also have "\<dots> = filter ?live (map (standing_of \<circ> fst \<circ> seed) gs)"
  proof -
    have "filter ?live (map (standing_of \<circ> fst) (drop ?n ?rows)) = []"
      using inv(2) by (auto simp: filter_empty_conv list_all_iff standing_of_def)
    then show ?thesis by (simp add: inv(1))
  qed
  also have "\<dots> = map live_standing (filter (\<lambda>g. gi_status g = Active) gs)"
    by (induction gs) (auto simp: standing_of_def seed_def live_standing_def status_from_def split: grant_status.splits)
  finally show ?thesis by simp
qed

subsection \<open>The timeline\<close>

definition tb_sum :: "(time_bucket \<Rightarrow> u32) \<Rightarrow> time_bucket list \<Rightarrow> u32" where
  "tb_sum f bs = sum_list (map f bs)"

lemma tb_sum_update: "i < length bs \<Longrightarrow> tb_sum f (bs[i := b]) = tb_sum f bs - f (bs ! i) + f b"
  unfolding tb_sum_def
proof (induction bs arbitrary: i)
  case (Cons x xs)
  then show ?case by (cases i) simp_all
qed simp

lemma length_note_time [simp]: "length (note_time w n e bs) = length bs"
  by (simp add: note_time_def split: option.split)

lemma bucket_index_lt: "bucket_index w n t = Some i \<Longrightarrow> i < n"
  by (auto simp: bucket_index_def split: if_splits)

lemma bucket_index_some: "0 < n \<Longrightarrow> in_window w t \<Longrightarrow> \<exists>i. bucket_index w n t = Some i"
  by (simp add: bucket_index_def)

lemma tb_sum_note:
  assumes "length bs = n" and "0 < n" and "\<And>ev b. f (bump ev b) = f b + (if P ev then 1 else 0)"
  shows "tb_sum f (note_time w n e bs) = tb_sum f bs + (if in_window w (ae_time e) \<and> P (ae_event e) then 1 else 0)"
proof (cases "in_window w (ae_time e)")
  case True
  with bucket_index_some [OF assms(2)] obtain i where i: "bucket_index w n (ae_time e) = Some i" by blast
  with True bucket_index_lt [OF i] assms(1,3) show ?thesis by (simp add: note_time_def tb_sum_update)
qed (simp add: note_time_def)

lemma tb_sum_fold:
  assumes "0 < n" and "\<And>ev b. f (bump ev b) = f b + (if P ev then 1 else 0)"
  shows "length bs = n \<Longrightarrow> tb_sum f (fold (note_time w n) es bs)
    = tb_sum f bs + of_nat (length (filter (\<lambda>e. in_window w (ae_time e) \<and> P (ae_event e)) es))"
  by (induction es arbitrary: bs) (simp_all add: tb_sum_note [OF _ assms])

fun event_tag :: "event \<Rightarrow> nat" where
  "event_tag (EvGrant _ _ _ _ _ _) = 0"
| "event_tag (EvUse _ _ _ _) = 1"
| "event_tag (EvDeny _ _ _ _) = 2"
| "event_tag (EvRevoke _) = 3"

definition in_window_count :: "window \<Rightarrow> nat \<Rightarrow> audit_entry list \<Rightarrow> u32" where
  "in_window_count w k es = of_nat (length (filter (\<lambda>e. in_window w (ae_time e) \<and> event_tag (ae_event e) = k) es))"

lemma timeline_counts:
  assumes "0 < n"
  shows "tb_sum tb_grants (fold (note_time w n) es (make_buckets w n)) = in_window_count w 0 es"
    and "tb_sum tb_uses (fold (note_time w n) es (make_buckets w n)) = in_window_count w 1 es"
    and "tb_sum tb_denials (fold (note_time w n) es (make_buckets w n)) = in_window_count w 2 es"
    and "tb_sum tb_revokes (fold (note_time w n) es (make_buckets w n)) = in_window_count w 3 es"
proof -
  have len: "length (make_buckets w n) = n" by (simp add: make_buckets_def)
  have new: "tb_sum f (make_buckets w n) = 0" if "\<And>b. tb_grants b = 0 \<Longrightarrow> tb_uses b = 0 \<Longrightarrow> tb_denials b = 0 \<Longrightarrow> tb_revokes b = 0 \<Longrightarrow> f b = 0" for f
    unfolding tb_sum_def make_buckets_def by (simp add: comp_def that)
  have step: "tb_sum f (fold (note_time w n) es (make_buckets w n)) = in_window_count w k es"
    if "\<And>ev b. f (bump ev b) = f b + (if event_tag ev = k then 1 else 0)" "tb_sum f (make_buckets w n) = 0" for f k
    using tb_sum_fold [where f = f and P = "\<lambda>ev. event_tag ev = k", OF assms that(1) len, of w es] that(2) by (simp add: in_window_count_def)
  show "tb_sum tb_grants (fold (note_time w n) es (make_buckets w n)) = in_window_count w 0 es"
    by (rule step) (simp_all add: bump_def new split: event.split)
  show "tb_sum tb_uses (fold (note_time w n) es (make_buckets w n)) = in_window_count w 1 es"
    by (rule step) (simp_all add: bump_def new split: event.split)
  show "tb_sum tb_denials (fold (note_time w n) es (make_buckets w n)) = in_window_count w 2 es"
    by (rule step) (simp_all add: bump_def new split: event.split)
  show "tb_sum tb_revokes (fold (note_time w n) es (make_buckets w n)) = in_window_count w 3 es"
    by (rule step) (simp_all add: bump_def new split: event.split)
qed

text \<open>The slices of the timeline follow each other from the start of the window to its end, and an event is
  counted in a slice that holds its time.\<close>

lemma unat_scale: "num \<le> den \<Longrightarrow> unat (scale_to span num den) = unat span * num div den"
proof -
  assume "num \<le> den"
  then have "unat span * num div den \<le> unat span"
    by (metis div_le_mono div_mult_self_is_m mult_le_mono2 neq0_conv div_by_0 le0)
  moreover have "unat span < 2 ^ 64" using unsigned_less [of span] by simp
  ultimately show ?thesis by (simp add: scale_to_def unat_of_nat take_bit_nat_eq_self)
qed

lemma slice_holds:
  assumes "bucket_index w n t = Some i"
  shows "let b = make_buckets w n ! i in unat (tb_start b) \<le> unat t \<and> unat t \<le> unat (tb_end b)"
proof -
  have n: "0 < n" and t: "wi_start w \<le> t" "t \<le> wi_end w"
    using assms by (auto simp: bucket_index_def in_window_def split: if_splits)
  note i = bucket_index_lt [OF assms]
  let ?s = "unat (wi_start w)" and ?span = "unat (window_span w)" and ?off = "unat (t - wi_start w)"
  have off: "unat t = ?s + ?off" using t(1) by (simp add: unat_sub word_le_nat_alt)
  have "unat (wi_end w) = ?s + ?span"
    using order_trans [OF t] by (simp add: window_span_def sat_sub_def unat_sub word_le_nat_alt word_less_nat_alt)
  moreover have "unat (wi_end w) < 2 ^ 64" using unsigned_less [of "wi_end w"] by simp
  ultimately have room: "?s + ?span < 2 ^ 64" and le: "?off \<le> ?span" using off t(2) by (simp_all add: word_le_nat_alt)
  have at: "unat (wi_start w + scale_to (window_span w) k n) = ?s + ?span * k div n" if "k \<le> n" for k
  proof -
    have "?span * k div n \<le> ?span" using that n by (metis div_le_mono div_mult_self_is_m mult_le_mono2)
    then show ?thesis using room by (simp add: unat_word_ariths unat_scale [OF that])
  qed
  have b: "unat (tb_start (make_buckets w n ! i)) = ?s + ?span * i div n"
    "unat (tb_end (make_buckets w n ! i)) = ?s + ?span * (i + 1) div n"
    using i at [of i] at [of "i + 1"] by (simp_all add: make_buckets_def)
  have "?span * i div n \<le> ?off \<and> ?off \<le> ?span * (i + 1) div n"
  proof (cases "window_span w = 0")
    case True
    then show ?thesis using le by simp
  next
    case False
    then have sp: "0 < ?span" by (simp add: unat_gt_0)
    have ix: "i = min (?off * n div ?span) (n - 1)" using assms False by (auto simp: bucket_index_def split: if_splits)
    have "?span * i \<le> ?off * n" using ix sp by (metis min.cobounded1 mult.commute mult_le_mono2 div_times_less_eq_dividend order_trans)
    then have lo: "?span * i div n \<le> ?off" using n by (metis div_le_mono div_mult_self_is_m)
    have "?off * n \<le> ?span * (i + 1)"
    proof (cases "?off * n div ?span \<le> n - 1")
      case True
      then have "?off * n < ?span * (i + 1)" using ix sp by (simp add: dividend_less_times_div min_def)
      then show ?thesis by simp
    next
      case False
      then have "i + 1 = n" using ix n by simp
      then show ?thesis using le by simp
    qed
    then have "?off \<le> ?span * (i + 1) div n" using n by (simp add: less_eq_div_iff_mult_less_eq)
    with lo show ?thesis by simp
  qed
  then show ?thesis by (simp add: Let_def b off)
qed

end
