(* ===== verification/GlassDenials.thy ===== *)
theory GlassDenials
  imports GlassView
begin

section \<open>Denials do not get lost\<close>

text \<open>Keys of two denials differ when their principals or resources do: a principal has no NUL, and the
  resource's text parses back.\<close>

definition deny_text_ok :: "string \<Rightarrow> resource \<Rightarrow> bool" where
  "deny_text_ok p r \<longleftrightarrow> CHR 0x00 \<notin> set p \<and> res_text_ok r"

lemma deny_key_inj:
  assumes "deny_key p r = deny_key p' r'" and "deny_text_ok p r" and "deny_text_ok p' r'"
  shows "p = p' \<and> r = r'"
proof -
  have "split_once CHR 0x00 (deny_key p r) = Some (p, res_show r)"
    using assms(2) by (simp add: deny_key_def deny_text_ok_def split_once_append)
  moreover have "split_once CHR 0x00 (deny_key p' r') = Some (p', res_show r')"
    using assms(3) by (simp add: deny_key_def deny_text_ok_def split_once_append)
  ultimately have "Some (p, res_show r) = Some (p', res_show r')" by (simp only: assms(1))
  then have eq: "p = p'" "res_show r = res_show r'" by blast+
  have "res_parse (res_show r) = Some r" "res_parse (res_show r') = Some r'"
    using assms(2,3) unfolding deny_text_ok_def by (blast intro: res_parse_show)+
  then have "Some r = Some r'" by (simp only: eq(2))
  with eq(1) show ?thesis by blast
qed

text \<open>Every row keeps its principal and resource, and its last time only grows; the rows found by a key are
  the rows of its principal and resource.\<close>

definition row_grows :: "row \<Rightarrow> row \<Rightarrow> bool" where
  "row_grows a b \<longleftrightarrow>
     cn_principal (fst b) = cn_principal (fst a) \<and> cn_resource (fst b) = cn_resource (fst a)
     \<and> (cn_reason (fst a) \<noteq> None \<longrightarrow> cn_reason (fst b) \<noteq> None)
     \<and> (\<forall>l. cn_last (fst a) = Some l \<longrightarrow> (\<exists>l'. cn_last (fst b) = Some l' \<and> l \<le> l'))"

definition grows :: "glass_state \<Rightarrow> glass_state \<Rightarrow> bool" where
  "grows s t \<longleftrightarrow>
     length (gb_rows s) \<le> length (gb_rows t)
     \<and> (\<forall>i < length (gb_rows s). row_grows (gb_rows s ! i) (gb_rows t ! i))"

definition keyed :: "glass_state \<Rightarrow> bool" where
  "keyed s \<longleftrightarrow>
     (\<forall>(k, i) \<in> set (gb_by_deny s). i < length (gb_rows s)
        \<and> (\<exists>p r. k = deny_key p r \<and> deny_text_ok p r
             \<and> cn_principal (fst (gb_rows s ! i)) = p \<and> cn_resource (fst (gb_rows s ! i)) = r))"

lemma row_grows_refl [simp]: "row_grows a a"
  by (simp add: row_grows_def)

lemma row_grows_trans: "row_grows a b \<Longrightarrow> row_grows b c \<Longrightarrow> row_grows a c"
  by (auto simp: row_grows_def) (meson order_trans)+

lemma grows_refl [simp]: "grows s s"
  by (simp add: grows_def)

lemma grows_trans: "grows s t \<Longrightarrow> grows t u \<Longrightarrow> grows s u"
  by (auto simp: grows_def intro: row_grows_trans)

lemma grows_on_row: "(\<And>row. row_grows row (f row)) \<Longrightarrow> grows s (on_row i f s)"
proof -
  assume f: "\<And>row. row_grows row (f row)"
  have "row_grows (gb_rows s ! j) (gb_rows (on_row i f s) ! j)" if "j < length (gb_rows s)" for j
  proof (cases "j = i")
    case True
    with that show ?thesis by (simp add: on_row_def f)
  qed (simp add: on_row_def)
  then show ?thesis by (simp add: grows_def on_row_def)
qed

lemma row_grows_advance: "row_grows (c, seen) (advance t c, seen')"
  by (auto simp: row_grows_def advance_def opt_max_def)

lemma row_grows_note: "row_grows (c, seen) (note_access r (advance t c, seen))"
  using row_grows_advance [of c seen t] by (simp add: note_access_def Let_def row_grows_def)

lemma row_grows_deny:
  "row_grows (c, seen) (advance t (c\<lparr>cn_denials := d, cn_reason := Some w\<rparr>), seen)"
  by (auto simp: row_grows_def advance_def opt_max_def)

lemma keyed_on_row:
  assumes "keyed s" and "\<And>row. row_grows row (f row)"
  shows "keyed (on_row i f s)"
proof -
  have "row_grows (gb_rows s ! j) (gb_rows (on_row i f s) ! j)" if "j < length (gb_rows s)" for j
    using grows_on_row [OF assms(2), of s i] that by (simp add: grows_def)
  then show ?thesis using assms(1) unfolding keyed_def by (fastforce simp: row_grows_def)
qed

lemma deny_channel_grows:
  assumes "keyed s" and "deny_text_ok p r" and "deny_channel p r q s = (i, s')"
  shows "grows s s' \<and> keyed s' \<and> i < length (gb_rows s')
    \<and> cn_principal (fst (gb_rows s' ! i)) = p \<and> cn_resource (fst (gb_rows s' ! i)) = r"
proof (cases "map_of (gb_by_deny s) (deny_key p r)")
  case None
  with assms(3) have s': "s' = s\<lparr>gb_rows := gb_rows s @ [deny_row p r q], gb_by_deny := gb_by_deny s @ [(deny_key p r, length (gb_rows s))]\<rparr>"
    and i: "i = length (gb_rows s)" by (auto simp: deny_channel_def)
  have "j < Suc (length (gb_rows s)) \<and> (\<exists>p r. k = deny_key p r \<and> deny_text_ok p r
      \<and> cn_principal (fst ((gb_rows s @ [deny_row p' r' q]) ! j)) = p \<and> cn_resource (fst ((gb_rows s @ [deny_row p' r' q]) ! j)) = r)"
    if "(k, j) \<in> set (gb_by_deny s)" for k j p' r'
    using assms(1) that by (fastforce simp: keyed_def nth_append)
  then have "keyed s'" using assms(2) by (auto simp: s' keyed_def deny_row_def)
  then show ?thesis by (simp add: s' i grows_def nth_append deny_row_def)
next
  case (Some j)
  let ?f = "\<lambda>(c, seen). (c\<lparr>cn_rights := cn_rights c OR q\<rparr>, seen)"
  have s': "s' = on_row j ?f s" "i = j" using assms(3) Some by (auto simp: deny_channel_def)
  have f: "row_grows row (?f row)" for row :: row by (cases row) (simp add: row_grows_def)
  from Some assms(1) obtain p' r' where j: "j < length (gb_rows s)" "deny_key p r = deny_key p' r'" "deny_text_ok p' r'"
    "cn_principal (fst (gb_rows s ! j)) = p'" "cn_resource (fst (gb_rows s ! j)) = r'"
    by (fastforce simp: keyed_def dest!: map_of_SomeD)
  from deny_key_inj [OF j(2) assms(2) j(3)] have "p' = p" "r' = r" by simp_all
  moreover have "row_grows (gb_rows s ! j) (gb_rows s' ! j)" using grows_on_row [OF f, of s j] j(1) by (simp add: grows_def s')
  ultimately show ?thesis
    using j grows_on_row [OF f, of s j] keyed_on_row [OF assms(1) f, of j] by (simp add: s' row_grows_def)
qed

lemma position_Some: "position P xs = Some i \<Longrightarrow> i < length xs \<and> P (xs ! i)"
  by (induction xs arbitrary: i) (auto split: if_splits)

definition entry_ok :: "audit_entry \<Rightarrow> bool" where
  "entry_ok e \<longleftrightarrow> (case ae_event e of EvDeny p r q why \<Rightarrow> deny_text_ok p r | _ \<Rightarrow> True)"

lemma deny_row_found:
  assumes "keyed s" and "deny_text_ok p r"
    and "(case position (folds_into p r) (gb_rows s) of Some i \<Rightarrow> (i, s) | None \<Rightarrow> deny_channel p r q s) = (i, s')"
  shows "grows s s' \<and> keyed s' \<and> i < length (gb_rows s')
    \<and> cn_principal (fst (gb_rows s' ! i)) = p \<and> res_covers (cn_resource (fst (gb_rows s' ! i))) r"
proof (cases "position (folds_into p r) (gb_rows s)")
  case None
  with assms(3) have "deny_channel p r q s = (i, s')" by simp
  from deny_channel_grows [OF assms(1,2) this] show ?thesis by simp
next
  case (Some j)
  with assms(3) position_Some [OF Some] assms(1) show ?thesis by (auto simp: folds_into_def)
qed

lemma note_event_grows: "keyed s \<Longrightarrow> entry_ok e \<Longrightarrow> grows s (note_event e s) \<and> keyed (note_event e s)"
proof (cases "ae_event e")
  case (EvUse g p r q)
  assume "keyed s"
  have f: "row_grows row ((\<lambda>(c, seen). note_access r (advance (ae_time e) c, seen)) row)" for row :: row
    by (cases row) (simp add: row_grows_note)
  show ?thesis
    using \<open>keyed s\<close> EvUse grows_on_row [OF f, of s] keyed_on_row [OF \<open>keyed s\<close> f] by (simp add: note_event_def split: option.split)
next
  case (EvDeny p r q why)
  assume s: "keyed s" and "entry_ok e"
  with EvDeny have ok: "deny_text_ok p r" by (simp add: entry_ok_def)
  obtain i s' where i: "(case position (folds_into p r) (gb_rows s) of Some i \<Rightarrow> (i, s) | None \<Rightarrow> deny_channel p r q s) = (i, s')"
    by fastforce
  let ?f = "\<lambda>(c, seen). (advance (ae_time e) (c\<lparr>cn_denials := cn_denials c + 1, cn_reason := Some why\<rparr>), seen)"
  have f: "row_grows row (?f row)" for row :: row by (cases row) (simp add: row_grows_deny)
  from deny_row_found [OF s ok i] have "grows s s'" "keyed s'" by simp_all
  with EvDeny i show ?thesis
    using grows_trans [OF \<open>grows s s'\<close> grows_on_row [OF f, of s' i]] keyed_on_row [OF \<open>keyed s'\<close> f, of i]
    by (simp add: note_event_def Let_def)
qed (simp_all add: note_event_def)

lemma fold_grows: "list_all entry_ok es \<Longrightarrow> keyed s \<Longrightarrow> grows s (fold note_event es s) \<and> keyed (fold note_event es s)"
proof (induction es arbitrary: s)
  case (Cons e es)
  then have "grows s (note_event e s)" "keyed (note_event e s)" using note_event_grows by simp_all
  with Cons show ?case using grows_trans by auto
qed simp

lemma deny_noted:
  assumes "keyed s" and "entry_ok e" and "ae_event e = EvDeny p r q why"
  shows "\<exists>i < length (gb_rows (note_event e s)). cn_principal (fst (gb_rows (note_event e s) ! i)) = p
    \<and> res_covers (cn_resource (fst (gb_rows (note_event e s) ! i))) r
    \<and> cn_reason (fst (gb_rows (note_event e s) ! i)) \<noteq> None
    \<and> (\<exists>l. cn_last (fst (gb_rows (note_event e s) ! i)) = Some l \<and> ae_time e \<le> l)"
proof -
  have ok: "deny_text_ok p r" using assms(2,3) by (simp add: entry_ok_def)
  obtain i s' where i: "(case position (folds_into p r) (gb_rows s) of Some i \<Rightarrow> (i, s) | None \<Rightarrow> deny_channel p r q s) = (i, s')"
    by fastforce
  from deny_row_found [OF assms(1) ok i] i assms(3) show ?thesis
    by (intro exI [of _ i]) (auto simp: note_event_def Let_def on_row_def advance_def opt_max_def split: prod.split option.split)
qed

text \<open>No time of a row lies beyond those of its sources.\<close>

definition times_upto :: "u64 \<Rightarrow> glass_state \<Rightarrow> bool" where
  "times_upto t s \<longleftrightarrow> list_all (\<lambda>row. \<forall>l. cn_last (fst row) = Some l \<longrightarrow> l \<le> t) (gb_rows s)"

definition row_upto :: "u64 \<Rightarrow> row \<Rightarrow> bool" where
  "row_upto t row \<longleftrightarrow> (\<forall>l. cn_last (fst row) = Some l \<longrightarrow> l \<le> t)"

lemma times_on_row:
  assumes "times_upto t s" and "\<And>row. row_upto t row \<Longrightarrow> row_upto t (f row)"
  shows "times_upto t (on_row i f s)"
proof (cases "i < length (gb_rows s)")
  case True
  then have "row_upto t (gb_rows s ! i)" using assms(1) by (simp add: times_upto_def row_upto_def list_all_length)
  from assms(2) [OF this] assms(1) show ?thesis
    unfolding times_upto_def on_row_def row_upto_def by (simp add: list_all_update)
qed (use assms(1) in \<open>simp add: on_row_def list_update_beyond\<close>)

lemma times_row: "times_upto t s \<Longrightarrow> i < length (gb_rows s) \<Longrightarrow> cn_last (fst (gb_rows s ! i)) = Some l \<Longrightarrow> l \<le> t"
  by (auto simp: times_upto_def list_all_length)

lemma row_upto_advance: "row_upto t (c, seen) \<Longrightarrow> u \<le> t \<Longrightarrow> row_upto t (advance u (c\<lparr>cn_denials := d, cn_reason := w\<rparr>), seen)"
  by (auto simp: row_upto_def advance_def opt_max_def split: option.splits)

lemma row_upto_note: "row_upto t (c, seen) \<Longrightarrow> u \<le> t \<Longrightarrow> row_upto t (note_access r (advance u c, seen))"
  by (auto simp: row_upto_def note_access_def Let_def advance_def opt_max_def split: option.splits)

lemma times_deny: "times_upto t s \<Longrightarrow> deny_channel p r q s = (i, s') \<Longrightarrow> times_upto t s'"
proof (cases "map_of (gb_by_deny s) (deny_key p r)")
  case (Some j)
  assume "times_upto t s" and "deny_channel p r q s = (i, s')"
  with Some show ?thesis
    by (auto simp: deny_channel_def row_upto_def intro!: times_on_row [where s = s])
qed (auto simp: deny_channel_def deny_row_def times_upto_def)

lemma times_note: "times_upto t s \<Longrightarrow> ae_time e \<le> t \<Longrightarrow> times_upto t (note_event e s)"
proof (cases "ae_event e")
  case (EvUse g p r q)
  assume s: "times_upto t s" and e: "ae_time e \<le> t"
  have "times_upto t (on_row i (\<lambda>(c, seen). note_access r (advance (ae_time e) c, seen)) s)" for i
    by (rule times_on_row [OF s]) (auto intro: row_upto_note e)
  with s EvUse show ?thesis by (simp add: note_event_def split: option.split)
next
  case (EvDeny p r q why)
  assume s: "times_upto t s" and e: "ae_time e \<le> t"
  obtain i s' where i: "(case position (folds_into p r) (gb_rows s) of Some i \<Rightarrow> (i, s) | None \<Rightarrow> deny_channel p r q s) = (i, s')"
    by fastforce
  then have "times_upto t s'" using s times_deny by (auto split: option.splits)
  then have "times_upto t (on_row i (\<lambda>(c, seen).
      (advance (ae_time e) (c\<lparr>cn_denials := cn_denials c + 1, cn_reason := Some why\<rparr>), seen)) s')"
    by (rule times_on_row) (auto intro: row_upto_advance e)
  with EvDeny i show ?thesis by (simp add: note_event_def Let_def)
qed (simp_all add: note_event_def)

lemma times_fold: "times_upto t s \<Longrightarrow> list_all (\<lambda>e. ae_time e \<le> t) es \<Longrightarrow> times_upto t (fold note_event es s)"
  by (induction es arbitrary: s) (simp_all add: times_note)

lemma denial_shown:
  assumes es: "list_all entry_ok es" "list_all (\<lambda>e. ae_time e \<le> wi_end w) es"
    and gs: "list_all (\<lambda>g. gi_granted g \<le> wi_end w) gs"
    and e: "e \<in> set es" "ae_event e = EvDeny p r q why" "wi_start w \<le> ae_time e"
  shows "\<exists>c \<in># mset (model_channels (glass_build es gs w n)). cn_principal c = p \<and> res_covers (cn_resource c) r \<and> cn_reason c \<noteq> None
    \<and> (\<exists>l. cn_last c = Some l \<and> ae_time e \<le> l)"
proof -
  obtain xs ys where split: "es = xs @ e # ys" using e(1) by (meson split_list)
  let ?s = "fold note_event xs (glass_seed gs)" let ?t = "note_event e ?s" let ?u = "fold note_event ys ?t"
  have seed: "keyed (glass_seed gs)" by (simp add: keyed_def glass_seed_def)
  from fold_grows [OF _ seed, of xs] es(1) split have s: "keyed ?s" by simp
  with es(1) split note_event_grows have t: "keyed ?t" by simp
  from deny_noted [OF s _ e(2)] es(1) split obtain i l where i: "i < length (gb_rows ?t)" "cn_principal (fst (gb_rows ?t ! i)) = p"
    "res_covers (cn_resource (fst (gb_rows ?t ! i))) r" "cn_reason (fst (gb_rows ?t ! i)) \<noteq> None" "cn_last (fst (gb_rows ?t ! i)) = Some l" "ae_time e \<le> l" by auto
  from fold_grows [OF _ t, of ys] es(1) split have "grows ?t ?u" by simp
  with i obtain l' where u: "i < length (gb_rows ?u)" "cn_principal (fst (gb_rows ?u ! i)) = p"
    "res_covers (cn_resource (fst (gb_rows ?u ! i))) r" "cn_reason (fst (gb_rows ?u ! i)) \<noteq> None" "cn_last (fst (gb_rows ?u ! i)) = Some l'" "l \<le> l'"
    by (fastforce simp: grows_def row_grows_def)
  let ?c = "fst (gb_rows ?u ! i)"
  have "times_upto (wi_end w) (glass_seed gs)" using gs by (simp add: times_upto_def glass_seed_def seed_def list_all_iff)
  from times_row [OF times_fold [OF this es(2)], of i l'] u split have "l' \<le> wi_end w" by simp
  with u(5,6) i(6) e(3) have "kept w ?c" by (auto simp: kept_def in_window_def)
  moreover have "?c \<in> set (map fst (gb_rows (fold note_event es (glass_seed gs))))" using u(1) split by simp
  ultimately have "sort_accessed ?c \<in># mset (model_channels (glass_build es gs w n))"
    unfolding model_channels_mset by auto
  then show ?thesis using u i(6) by (intro bexI [of _ "sort_accessed ?c"]) (auto simp: sort_accessed_def intro: order_trans)
qed

end
