(* ===== verification/GlassPromise.thy ===== *)
theory GlassPromise
  imports GlassDenials Samples
begin

section \<open>What Glass promises of a broker\<close>

text \<open>
  The pane over a live broker: it shows exactly the authority that holds, loses no refusal, and its kill
  switch cuts what it shows.
\<close>

subsection \<open>Authority\<close>

lemma spec_event_ids:
  "(\<And>g gs. v g = Some gs \<Longrightarrow> gr_id (gs_grant gs) = g) \<Longrightarrow> spec_event ev v g = Some gs \<Longrightarrow> gr_id (gs_grant gs) = g"
  by (auto simp: spec_event_def new_grant_def add_use_def set_revoked_def split: event.splits if_splits)

lemma fold_spec_ids:
  "(\<And>g gs. v g = Some gs \<Longrightarrow> gr_id (gs_grant gs) = g) \<Longrightarrow> fold (spec_event \<circ> ae_event) es v g = Some gs
    \<Longrightarrow> gr_id (gs_grant gs) = g"
proof (induction es arbitrary: v)
  case (Cons e es)
  have "spec_event (ae_event e) v h = Some hs \<Longrightarrow> gr_id (gs_grant hs) = h" for h hs
    by (rule spec_event_ids [OF Cons.prems(1)])
  from Cons.IH [OF this] Cons.prems(2) show ?case by simp
qed simp

lemma broker_inv_ids:
  assumes "broker_inv X U k b es" and "map_of (bk_grants b) g = Some gs"
  shows "gr_id (gs_grant gs) = g"
proof -
  have "fold (spec_event \<circ> ae_event) es Map.empty g = Some (durable gs)"
  proof -
    have "table_view (bk_grants b) g = fold (spec_event \<circ> ae_event) es Map.empty g" using assms(1) by (simp add: broker_inv_def)
    moreover have "table_view (bk_grants b) g = Some (durable gs)" using assms(2) by (simp add: table_view_def)
    ultimately show ?thesis by simp
  qed
  then have "gr_id (gs_grant (durable gs)) = g" by (rule fold_spec_ids [rotated]) simp
  then show ?thesis by (simp add: durable_def)
qed

lemma grant_listed: "map_of (bk_grants b) g = Some gs \<Longrightarrow> grant_info_of now gs \<in> set (broker_grants b now)"
  by (force simp: broker_grants_def dest: map_of_SomeD)

lemma live_channel_of:
  assumes "gi \<in> set gs" and "gi_status gi = Active"
  obtains c where "c \<in> set (model_channels (glass_build es gs w n))" "is_live c" "standing_of c = live_standing gi"
proof -
  have "live_standing gi \<in># image_mset live_standing (mset (filter (\<lambda>g. gi_status g = Active) gs))" using assms by simp
  then have "live_standing gi \<in># image_mset standing_of (filter_mset is_live (mset (model_channels (glass_build es gs w n))))"
    by (simp only: live_channels)
  then show ?thesis using that by auto
qed

lemma shown_authority:
  assumes inv: "broker_inv X U k b es" and ok: "broker_check b cap r q now = Inr ()"
  shows "\<exists>c \<in> set (model_channels (glass_build es (broker_grants b now) w n)). is_live c
    \<and> cn_grant c = Some (cap_grant cap) \<and> res_covers (cn_resource c) r \<and> rights_contains (cn_rights c) q"
proof -
  obtain gs where gs: "map_of (bk_grants b) (cap_grant cap) = Some gs" "grant_admits gs cap r q now"
    using ok by (auto simp: broker_check_ok_iff)
  let ?gi = "grant_info_of now gs"
  have "gi_status ?gi = Active"
    using gs(2) by (auto simp: grant_info_of_def grant_status_at_def grant_admits_def expired_at_def not_le split: option.split)
  from live_channel_of [OF grant_listed [OF gs(1)] this] obtain c where c: "is_live c"
    "c \<in> set (model_channels (glass_build es (broker_grants b now) w n))" "standing_of c = live_standing ?gi" by blast
  then show ?thesis
    using gs(2) broker_inv_ids [OF inv gs(1)]
    by (intro bexI [of _ c]) (auto simp: standing_of_def live_standing_def grant_info_of_def grant_admits_def)
qed

lemma live_is_granted:
  assumes "c \<in> set (model_channels (glass_build es gs w n))" and "is_live c"
  shows "\<exists>gi \<in> set gs. gi_status gi = Active \<and> standing_of c = live_standing gi"
proof -
  have "standing_of c \<in># image_mset standing_of (filter_mset is_live (mset (model_channels (glass_build es gs w n))))"
    using assms by simp
  then show ?thesis unfolding live_channels by auto
qed

lemma listed_grant:
  assumes "gi \<in> set (broker_grants b now)" and "gi_status gi = Active"
  shows "\<exists>(g, gs) \<in> set (bk_grants b). gi = grant_info_of now gs \<and> \<not> gs_revoked gs
    \<and> \<not> expired_at (gr_expires (gs_grant gs)) now"
proof -
  from assms(1) obtain g gs where gs: "(g, gs) \<in> set (bk_grants b)" "gi = grant_info_of now gs"
    by (auto simp: broker_grants_def)
  with assms(2) have "\<not> gs_revoked gs \<and> \<not> expired_at (gr_expires (gs_grant gs)) now"
    by (auto simp: grant_info_of_def grant_status_at_def split: if_splits)
  with gs show ?thesis by blast
qed

lemma counts_live:
  "to_live (gm_totals (glass_build es gs w n)) = of_nat (length (filter (\<lambda>g. gi_status g = Active) gs))"
proof -
  let ?m = "glass_build es gs w n"
  have "size (image_mset standing_of (filter_mset is_live (mset (model_channels ?m))))
      = size (image_mset live_standing (mset (filter (\<lambda>g. gi_status g = Active) gs)))"
    by (simp only: live_channels)
  then have "length (filter is_live (model_channels ?m)) = length (filter (\<lambda>g. gi_status g = Active) gs)"
    by (simp flip: mset_filter)
  moreover have "to_live (gm_totals ?m) = of_nat (length (filter is_live (model_channels ?m)))"
    by (simp add: glass_build_def model_channels_def count_totals_def count32_def Let_def)
  ultimately show ?thesis by simp
qed

subsection \<open>The kill switch\<close>

text \<open>The table as the code's hash map has it: one entry per grant, under its own id.\<close>

definition table_ok :: "broker \<Rightarrow> bool" where
  "table_ok b \<longleftrightarrow> distinct (map fst (bk_grants b)) \<and> (\<forall>(g, gs) \<in> set (bk_grants b). gr_id (gs_grant gs) = g)"

lemma severed_revoked:
  assumes "table_ok b" and "glass_sever X g t b = (r, b')" and "(h, gs) \<in> set (bk_grants b')" and "gr_id (gs_grant gs) = g"
  shows "gs_revoked gs"
proof (cases "map_of (bk_grants b) g")
  case None
  then have "b' = b" using assms(2) by (simp add: glass_sever_def broker_revoke_def)
  then have "h = g" using assms(1,3,4) by (auto simp: table_ok_def)
  with None assms(3) \<open>b' = b\<close> show ?thesis by (force simp: map_of_eq_None_iff)
next
  case (Some gs0)
  have sub: "gs' = gs0" if "(g, gs') \<in> set (bk_grants b)" for gs'
    using Some that assms(1) by (simp add: table_ok_def)
  show ?thesis
  proof (cases "gs_revoked gs0")
    case True
    then have "b' = b" using assms(2) Some by (simp add: glass_sever_def broker_revoke_def)
    then show ?thesis using assms(1,3,4) sub True by (auto simp: table_ok_def)
  next
    case False
    have "bk_grants b' = AList.map_entry g set_revoked (bk_grants b)"
    proof -
      have "b' = snd (glass_sever X g t b)" using assms(2) by simp
      then show ?thesis using Some False by (simp add: glass_sever_def broker_revoke_def broker_log_def split: prod.split sum.split)
    qed
    then have in': "(h, gs) \<in> set (AList.map_entry g set_revoked (bk_grants b))" using assms(3) by simp
    have "distinct (map fst al) \<Longrightarrow> (h, gs) \<in> set (AList.map_entry g set_revoked al)
        \<Longrightarrow> (h \<noteq> g \<and> (h, gs) \<in> set al) \<or> (h = g \<and> gs_revoked gs)" for al
      by (induction al) (force simp: set_revoked_def split: if_splits)+
    from this [OF _ in'] assms(1,4) show ?thesis by (auto simp: table_ok_def)
  qed
qed

lemma severed_dead:
  assumes "table_ok b" and "glass_sever X g t b = (r, b')" and "c \<in> set (model_channels (glass_build es (broker_grants b' now) w n))"
    and "cn_grant c = Some g"
  shows "\<not> is_live c"
proof
  assume "is_live c"
  from live_is_granted [OF assms(3) this] obtain gi where gi: "gi \<in> set (broker_grants b' now)" "gi_status gi = Active"
    "standing_of c = live_standing gi" by blast
  from listed_grant [OF gi(1,2)] obtain h gs where "(h, gs) \<in> set (bk_grants b')" "gi = grant_info_of now gs" "\<not> gs_revoked gs" by blast
  with severed_revoked [OF assms(1,2), of h gs] gi(3) assms(4) show False
    by (simp add: standing_of_def live_standing_def grant_info_of_def)
qed

subsection \<open>The properties\<close>

text \<open>C39.  Glass shows the authority that holds, no more and no less: over a broker with a sound log the
  model is built, its live channels are exactly the active grants of the table (principal, resource,
  rights, uses, each once) and are counted as such, each principal has one view holding its own channels,
  and any handle the broker would honour at that moment is on the pane as a live channel that covers it.\<close>

theorem glass_shows_authority:
  assumes "broker_inv X U k b es"
  shows "\<exists>m. model_within X b now w n = Some (Inr m)
    \<and> image_mset standing_of (filter_mset is_live (mset (model_channels m)))
        = image_mset live_standing (mset (filter (\<lambda>g. gi_status g = Active) (broker_grants b now)))
    \<and> to_live (gm_totals m) = of_nat (length (filter (\<lambda>g. gi_status g = Active) (broker_grants b now)))
    \<and> views_ok (gm_principals m)
    \<and> (\<forall>cap r q. broker_check b cap r q now = Inr () \<longrightarrow>
         (\<exists>c \<in> set (model_channels m). is_live c \<and> cn_grant c = Some (cap_grant cap)
            \<and> res_covers (cn_resource c) r \<and> rights_contains (cn_rights c) q))"
proof -
  let ?m = "glass_build es (broker_grants b now) w n"
  have "model_within X b now w n = Some (Inr ?m)"
    by (simp add: model_within_def broker_audit_log [OF assms])
  moreover have "views_ok (gm_principals ?m)" by (simp add: glass_build_def Let_def views_ok_group)
  ultimately show ?thesis using live_channels [of es "broker_grants b now" w n] counts_live shown_authority [OF assms] by blast
qed

text \<open>C40.  Refusals are not lost, as long as no time in the log runs ahead of the window: let every entry of
  the broker's log and every grant of its table be stamped no later than the window's end, and let
  the principal of every logged denial hold no NUL byte and its resource have a text that parses
  back.  Then every denial of the log from the window's start on is on the pane: in a channel of the
  principal that was refused, whose resource covers the one it asked for, with a reason of refusal
  and with a last time no earlier than the denial.  Without the bound on the times this is false,
  as the pane drops a channel that is not live and was last heard of after the window.\<close>

theorem denials_are_shown:
  assumes "broker_inv X U k b es" and "list_all entry_ok es" and "list_all (\<lambda>e. ae_time e \<le> wi_end w) es"
    and "list_all (\<lambda>g. gi_granted g \<le> wi_end w) (broker_grants b now)"
    and "e \<in> set es" and "ae_event e = EvDeny p r q why" and "wi_start w \<le> ae_time e"
  shows "\<exists>m c l. model_within X b now w n = Some (Inr m) \<and> c \<in> set (model_channels m)
    \<and> cn_principal c = p \<and> res_covers (cn_resource c) r \<and> cn_reason c \<noteq> None \<and> cn_last c = Some l \<and> ae_time e \<le> l"
proof -
  have "model_within X b now w n = Some (Inr (glass_build es (broker_grants b now) w n))"
    by (simp add: model_within_def broker_audit_log [OF assms(1)])
  then show ?thesis using denial_shown [OF assms(2-7), of n] by auto
qed

text \<open>The timeline counts every event of the window once: the slices add up to the grants, uses,
  denials and revocations of the log that fall in it, and an event is counted in a slice that holds
  its time.\<close>

theorem glass_timeline_counts:
  assumes "0 < n"
  shows "let bs = gm_timeline (glass_build es gs w n) in
    length bs = n
    \<and> map (\<lambda>f. tb_sum f bs) [tb_grants, tb_uses, tb_denials, tb_revokes] = map (\<lambda>k. in_window_count w k es) [0, 1, 2, 3]
    \<and> (\<forall>t. in_window w t \<longrightarrow> (\<exists>i < n. bucket_index w n t = Some i
          \<and> unat (tb_start (make_buckets w n ! i)) \<le> unat t \<and> unat t \<le> unat (tb_end (make_buckets w n ! i))))"
proof -
  have "length (fold (note_time w n) es bs) = length bs" for bs by (induction es arbitrary: bs) simp_all
  moreover have "\<exists>i < n. bucket_index w n t = Some i \<and> unat (tb_start (make_buckets w n ! i)) \<le> unat t
      \<and> unat t \<le> unat (tb_end (make_buckets w n ! i))" if "in_window w t" for t
  proof -
    from bucket_index_some [OF assms that] obtain i where "bucket_index w n t = Some i" by blast
    with bucket_index_lt [OF this] slice_holds [OF this] show ?thesis by (auto simp: Let_def)
  qed
  ultimately show ?thesis by (simp add: glass_build_def Let_def timeline_counts [OF assms]) (simp add: make_buckets_def)
qed

text \<open>The kill switch cuts: after severing a grant no pane built from the table, whenever and over
  whatever log and window, shows a live channel of it.\<close>

theorem glass_sever_cuts:
  assumes "table_ok b" and "glass_sever X g t b = (r, b')"
  shows "\<forall>c \<in> set (model_channels (glass_build es (broker_grants b' now) w n)). cn_grant c = Some g \<longrightarrow> \<not> is_live c"
  using severed_dead [OF assms] by blast

subsection \<open>The properties on concrete brokers\<close>

text \<open>A broker with one live grant (its table as the log has it), and one that has refused a request.\<close>

definition demo_deny :: event where
  "demo_deny = EvDeny ''app'' (RFile ''/data'') 1 ''policy''"

definition demo_ask :: bk_op where
  "demo_ask = OpRequest ''app'' (RFile ''/data'') 1 60 60"

definition demo_refused :: broker where
  "demo_refused = op_exec demo_ext demo_ask (demo_broker DenyAll)"

definition demo_refusal :: audit_entry where
  "demo_refusal = log_entry demo_ext demo_keys (demo_broker DenyAll) 60 demo_deny"

lemma demo_ask_event: "op_event demo_ext (demo_broker DenyAll) demo_ask = Some (60, demo_deny)"
  by (simp add: op_event_def demo_ask_def demo_deny_def demo_broker_def policy_decide_def)

lemma demo_refused_inv: "\<exists>U. broker_inv demo_ext U demo_keys demo_refused [demo_refusal]"
proof -
  have wf: "wf_event demo_deny"
    using demo_str by (simp add: demo_deny_def wf_event_def wf_resource_def wf_str32_def len32_def utf8_str_ascii ascii_str_def)
  have len: "length (encode_event demo_deny) \<le> 1024"
    
    by (simp add: demo_deny_def encode_event_def encode_resource_def put_str32_def put_bytes32_def to_string_lossy_id utf8_str_ascii ascii_str_def)
  let ?U = "demo_universe (demo_first 60 demo_deny)"
  have "op_loggable demo_ext ?U demo_keys (demo_broker DenyAll) demo_ask"
    using demo_loggable [OF wf len] by (simp add: op_loggable_def demo_ask_event)
  from op_exec_inv [OF demo_broker_inv [OF demo_first_usable(2) [OF len]] this]
  show ?thesis by (auto simp: demo_refused_def demo_refusal_def op_log_def demo_ask_event)
qed

lemma demo_refused_table: "bk_grants demo_refused = []"
  by (simp add: demo_refused_def op_exec_def demo_ask_def broker_request_def demo_broker_def broker_log_def policy_decide_def
      split: prod.split sum.split)

theorem glass_shows_authority_witness:
  "\<exists>m c. model_within demo_ext demo_b1 60 (window_week 60) 7 = Some (Inr m) \<and> c \<in> set (model_channels m)
    \<and> is_live c \<and> cn_grant c = Some demo_gid"
proof (rule demo_b1_grants)
  fix secret
  assume g: "bk_grants demo_b1 =
    [(demo_gid, new_grant demo_gid ''app'' (RFile ''/data'') rights_read 50 None (Some 3) (Some secret))]"
  have "broker_check demo_b1 \<lparr>cap_grant = demo_gid, cap_secret = secret\<rparr> (RFile ''/data'') rights_read 60 = Inr ()"
    by (simp add: broker_check_def g new_grant_def expired_at_def budget_spent_def res_covers_def path_starts_with_def
        path_components_def seg_comp_def rights_contains_def rights_read_def)
  with glass_shows_authority [OF demo_b1_inv, of 60 "window_week 60" 7] show ?thesis by fastforce
qed

theorem denials_are_shown_witness:
  "\<exists>m c. model_within demo_ext demo_refused 60 (window_week 60) 7 = Some (Inr m) \<and> c \<in> set (model_channels m)
    \<and> cn_principal c = ''app''"
proof -
  obtain U where inv: "broker_inv demo_ext U demo_keys demo_refused [demo_refusal]" using demo_refused_inv by blast
  have "list_all entry_ok [demo_refusal]"
    by (simp add: entry_ok_def demo_refusal_def log_entry_def demo_deny_def deny_text_ok_def res_text_ok_def utf8_str_ascii ascii_str_def)
  moreover have "list_all (\<lambda>e. ae_time e \<le> wi_end (window_week 60)) [demo_refusal]"
    by (simp add: demo_refusal_def log_entry_def window_week_def window_ending_def)
  moreover have "list_all (\<lambda>g. gi_granted g \<le> wi_end (window_week 60)) (broker_grants demo_refused 60)"
    by (simp add: broker_grants_def demo_refused_table)
  moreover have "ae_event demo_refusal = EvDeny ''app'' (RFile ''/data'') 1 ''policy''" "wi_start (window_week 60) \<le> ae_time demo_refusal"
    by (simp_all add: demo_refusal_def log_entry_def demo_deny_def window_week_def window_ending_def week_secs_def day_secs_def sat_sub_def)
  ultimately show ?thesis
    using denials_are_shown [OF inv, of "window_week 60" 60 demo_refusal "''app''" "RFile ''/data''" 1 "''policy''" 7] by auto
qed

theorem glass_timeline_counts_witness:
  "length (gm_timeline (glass_build [demo_refusal] [] (window_week 60) 7)) = 7"
  using glass_timeline_counts [of 7 "[demo_refusal]" "[]" "window_week 60"] by (simp add: Let_def)

theorem glass_sever_cuts_witness:
  "filter (\<lambda>c. is_live c \<and> cn_grant c = Some demo_gid)
     (model_channels (glass_build [] (broker_grants (snd (glass_sever demo_ext demo_gid 61 demo_live)) 62) (window_week 62) 7)) = []"
proof -
  have "table_ok demo_live" by (simp add: table_ok_def demo_live_def new_grant_def)
  from glass_sever_cuts [OF this, of demo_ext demo_gid 61] show ?thesis
    unfolding filter_empty_conv by (metis prod.collapse)
qed

end
