(* ===== verification/Spec2Isabelle.thy ===== *)
theory Spec2Isabelle
  imports Tamper Hiding HomeBoot LinkSamples AuraApproval Meeting KeyImages KeyHome PortalRun GlassPromise
begin

text \<open>
  Horizon OS is a removable system: a boot image that unlocks with a security key, keeps nothing on the
  machine it runs on, and mediates every access of its programs by capabilities.  This library models the
  crates under \<open>src/crates\<close> that carry that behaviour and proves what they promise.  Every definition is a
  translation of the Rust code it stands beside; the functions are executable, errors are values, and
  machine integers are words where their width can be seen.

  \<^bold>\<open>Parts and theories.\<close>

  \<^item> Shared: \<open>Prelude\<close> (results, actions with a state, byte readers, fixed-width bytes), \<open>Strings\<close> (UTF-8
    strings as lists of bytes, splitting, numbers, paths), \<open>Codec\<close> (the two codec interfaces and the integer
    and string codecs), \<open>Extern\<close> (the record \<open>ext\<close> of what lies outside the repository: BLAKE3, the sealing
    cipher, random bytes, with the laws assumed of them as \<open>ext_ok\<close>).
  \<^item> Lifestream (\<open>crates/lifestream\<close>), the content-addressed store: \<open>Objects\<close> (the object format), \<open>Chunker\<close>
    (content-defined chunks), \<open>Store\<close> (records in files, commits by rename, refs), \<open>ObjectStore\<close> (the interface
    of a store), \<open>Lifestream\<close> (files, snapshots, commits, history, collection).
  \<^item> Weave (\<open>crates/weave\<close>), the capability broker: \<open>Capability\<close> (resources, rights, grants, handles),
    \<open>AuditLog\<close> (the log of events as a chain of objects), \<open>Broker\<close> (granting, checking, using, revoking,
    replaying), \<open>Tamper\<close> (reading the log from a store others have written to).  A broker owns a store
    and appends every event to the log before it answers.
  \<^item> Aura (\<open>crates/aura\<close>), the assistant: \<open>Tools\<close> (the catalog and its tools), \<open>Aura\<close> (planning, previews,
    execution through the broker), \<open>AuraApproval\<close> (the grants an approval adds); \<open>AuraSamples\<close> has its
    concrete run.
  \<^item> Glass (\<open>crates/glass\<close>), the pane over the broker: \<open>Glass\<close> (the model folded from grants and log),
    \<open>GlassView\<close>, \<open>GlassDenials\<close> and \<open>GlassPromise\<close> (what it shows).
  \<^item> Cells (\<open>crates/cells\<close>), the sandbox: \<open>Cells\<close> (the specification, the setup as calls to a kernel that may
    refuse any of them, the report), \<open>CellWorld\<close> and \<open>CellRun\<close> (the world the calls that succeeded
    made, and what a started payload can count on),
    \<open>Portal\<close> and \<open>PortalRun\<close> (passing descriptors by the broker's leave).
  \<^item> Reconstitution (\<open>crates/reconstitution\<close>): \<open>Gf\<close> and \<open>FieldPoly\<close> (the field of 256 elements by its tables,
    against the polynomial product), \<open>Shamir\<close> (splitting and combining a secret), \<open>Hiding\<close> (what too few
    shares leave open).
  \<^item> Boot (\<open>crates/init\<close>, \<open>crates/identity\<close>, \<open>crates/boot\<close>): \<open>BootPlan\<close> (the plan of mounts, the command
    line), \<open>Modules\<close> (kernel modules in their order), \<open>BootView\<close> (the plan against what its mounts show and
    hide), \<open>InitRun\<close> (the plan run as system calls), \<open>HomeBoot\<close> (a persistent boot with every call that can
    fail), \<open>Identity\<close> (keyslots and the interface \<open>key_device\<close> of a security key), \<open>Boot\<close> (finding and unlocking the store).
  \<^item> The key builder (\<open>crates/keybuild\<close>): \<open>Gpt\<close> (the partition table, with the resolver of \<open>init\<close> that reads it),
    \<open>Cpio\<close> and \<open>CpioTree\<close> (the initramfs), \<open>Verity\<close> (the hash tree), \<open>KeyImages\<close> (both composed),
    \<open>FatNames\<close> and \<open>Fat\<close> (the FAT volume of the EFI partition: names, tree, writer), \<open>FatRead\<close> (a reader as
    its specification), \<open>FatWrite\<close>, \<open>FatRender\<close>, \<open>FatVolume\<close>, \<open>FatImage\<close> and \<open>FatCheck\<close> (the proof that it
    reads the tree), \<open>FatTree\<close> (building the tree), \<open>FatFull\<close> (written exactly when there is room),
    \<open>KeySpec\<close> (what a key is built from, and the texts that follow from it), \<open>KeyModules\<close> (the modules it
    carries), \<open>KeyDisk\<close> and \<open>KeyEsp\<close> (its disk and its EFI partition), \<open>KeyCalls\<close> (the calls a build makes to
    its host, copying, the libraries of a program), \<open>KeyBuild\<close> (base, data, home and initramfs as runs of such
    calls), \<open>KeyInside\<close> and \<open>KeyHome\<close> (what those runs write, and where the key goes), \<open>KeyErrors\<close>.
  \<^item> Constellation (\<open>crates/constellation\<close>): \<open>Sync\<close> (the sync engine over any transport), \<open>Wire\<close> (the frames),
    \<open>Net\<close> (server and client over one link), \<open>Rendezvous\<close>, \<open>Relay\<close>, \<open>Meeting\<close> (finding and joining peers).
  \<^item> \<open>Samples\<close>, \<open>BootSamples\<close>, \<open>LinkSamples\<close>, \<open>CellSamples\<close>: the concrete stores, brokers, disks, links and
    kernels on which the witnesses evaluate the properties.

  \<^bold>\<open>How state is modelled.\<close>  A struct is a record and a method an \<open>action\<close>: a function from the state to a
  result (\<open>Inl\<close> the error) and the state after it, also after an error.  Files of the store, grants and the
  entries of trees are association lists in the order the code keeps.  System calls are a trace beside a
  record of answers, so that a property can quantify over every kernel, tool or peer.  A string is the list
  of its bytes.

  \<^bold>\<open>Interfaces.\<close>  \<open>prefix_codec\<close> and \<open>canonical_codec\<close> (a reader that undoes a writer and leaves the rest)
  are interpreted on every codec of the code; \<open>object_store\<close> on the store under an invariant;
  \<open>key_device\<close> on the software token; \<open>peer\<close> (what a transport promises the sync engine) on the local
  transport and, through \<open>wire_link\<close>, on the network transport; \<open>sync_pair\<close> on both pairs; \<open>roster\<close>
  on the relay's bindings and the punch waiters.  The properties rest on these interpretations.

  \<^bold>\<open>What the lemmas show.\<close>  In each theory first the facts of single operations, then an invariant that
  every operation keeps, then the contract of the component: the broker refines a table driven by its
  log, and a reader of the log gets that log or an error from any store; the store refines a map from names to objects; the collector keeps what is reachable; every step
  of the boot plan finds what it needs, and a run without a home leaves no trace; sync converges and the network
  changes nothing of it; the archive, the partition table and the volume read back as what was built, and a key made of
  them is found, mounted and started by the init of the same repository;
  a cell starts its payload only in the world its calls made, with what lies outside the grants named; Glass shows the authority that holds.

  \<^bold>\<open>Fuel and partial functions.\<close>  Loops that the code bounds are total functions with their measure.
  Walks along hashes (the log, the history, ancestry, the collector's marking, the module order, the
  levels of the hash tree) are \<open>partial_function (option)\<close>: on data nobody checked they may not end, and the
  properties prove that they return on the states the code reaches.  The copy loop of the relay and the
  reader of a volume take a bound on their steps; their properties hold for every bound that is large
  enough, and say which.

  \<^bold>\<open>Assumptions.\<close>  \<open>ext_ok\<close> (lengths, opening what was sealed) and, where a property needs it, that the hash has
  no collision on the objects at hand (\<open>inj_on\<close> a set of encodings, never on all strings).  The kernel's
  side of the boot plan and of a cell is written down as specifications: a mount hides what is below its
  target (\<open>fs_view\<close>); a recursive bind copies the mounts below its source, for any mounts of the host, and
  a remount reaches only the mount on top (\<open>mount_call\<close>), so mounts below a read-only bind stay as they
  were; a failed call changes nothing.  The failures of \<open>close\<close> in a cell are ignored by the code and
  not counted.  Time and
  randomness are arguments.  One process works on a store at a time, except where a property says otherwise.

  \<^bold>\<open>Not modelled.\<close>  Code that only drives a library or the kernel: FIDO2 over USB (\<open>identity/hardware.rs\<close>),
  Noise and TLS handshakes, QUIC sockets and mDNS (\<open>constellation/net/noise.rs\<close>, \<open>tls.rs\<close>, \<open>discovery.rs\<close>),
  the inference runner (\<open>aura/llama.rs\<close>), the seccomp compiler (\<open>cells/seccomp.rs\<close>), the compositor over smithay
  and DRM, and drawing.  The semantic index works on floats.  The command line prints what the crates
  above return.  What the external tools of \<open>keybuild\<close> (mkfs, mksquashfs,
  cryptsetup, ldconfig, gzip) do is outside: their calls and endings are modelled, and its command line is not.
\<close>

section \<open>The Weave\<close>

text \<open>C1.  Mediation: whenever \<open>access\<close> hands out a lease, the presented handle carried the secret of a
  grant in the table that was not revoked, not expired at the time of the check, inside its use
  budget, and whose resource and rights cover the request; and the lease names just that grant,
  resource and rights.\<close>

theorem access_sound:
  assumes "broker_access X cap r q t1 t2 b = (Inr l, b')"
  shows "\<exists>gs. map_of (bk_grants b) (cap_grant cap) = Some gs \<and> grant_admits gs cap r q t1
    \<and> l = \<lparr>le_grant = cap_grant cap, le_resource = r, le_rights = q\<rparr>"
proof -
  have "broker_check b cap r q t1 = Inr ()"
    using assms
    by (cases "broker_check b cap r q t1")
      (auto simp: broker_access_def Let_def split: sum.splits prod.splits wv_error.splits)
  moreover from this have "l = \<lparr>le_grant = cap_grant cap, le_resource = r, le_rights = q\<rparr>"
    using assms by (auto simp: broker_access_def Let_def split: sum.splits prod.splits)
  ultimately show ?thesis by (auto simp: broker_check_ok_iff)
qed

theorem access_sound_witness:
  "\<exists>gs. map_of (bk_grants demo_live) demo_gid = Some gs \<and> grant_admits gs demo_cap demo_res rights_read 60
    \<and> demo_lease = \<lparr>le_grant = demo_gid, le_resource = demo_res, le_rights = rights_read\<rparr>"
  by (rule demo_access) (drule access_sound, simp add: demo_cap_def)

text \<open>C2.  The broker and its log never disagree: from a broker whose grant table is the fold of its
  audit chain, every operation appends exactly the one event it is about (a grant, a use, a
  denial with its reason, a revocation, or nothing for a no-op) to the chain, moves the audit ref
  to it, and leaves the table the fold of the longer chain.\<close>

theorem broker_refines_log:
  assumes "broker_inv X U k b es" and "op_loggable X U k b op"
  shows "broker_inv X U k (op_exec X op b) (es @ op_log X k b op)"
  using assms by (rule op_exec_inv)

theorem broker_refines_log_witness:
  "broker_inv demo_ext demo_U demo_keys (op_exec demo_ext demo_op1 (demo_broker DenyAll))
     ([] @ op_log demo_ext demo_keys (demo_broker DenyAll) demo_op1)"
  by (rule broker_refines_log [OF demo_start demo_op1_loggable])

text \<open>C3.  Revocation is final: once a grant is revoked, no later sequence of operations lets any
  handle of it pass the check again, whatever is presented and whenever.\<close>

theorem revoked_forever:
  assumes "broker_inv X U k b es" and "is_revoked b (cap_grant cap)" and "broker_reach X U k b c"
  shows "\<not> is_ok (broker_check c cap r q now)"
  using broker_reach_revoked [OF assms(3,1,2)] by (rule is_revoked_denied)

theorem revoked_forever_witness:
  "\<not> is_ok (broker_check demo_b2 \<lparr>cap_grant = demo_gid, cap_secret = []\<rparr> (RFile ''/data'') 1 9)"
  using revoked_forever [OF demo_b2_inv _ reach_refl,
      of "\<lparr>cap_grant = demo_gid, cap_secret = []\<rparr>" "RFile ''/data''" 1 9] demo_b2_revoked by simp

text \<open>A use budget is never exceeded: in every run of a broker the audit chain holds at most as
  many uses of a grant as its limit allows, and the counter of the grant is that number.\<close>

theorem use_budget_kept:
  assumes "broker_run X U k b es" and "map_of (bk_grants b) g = Some gs"
    and "gr_max_uses (gs_grant gs) = Some m"
  shows "uses_of g es \<le> unat m \<and> gs_uses gs = of_nat (uses_of g es)"
  using broker_run_budget [OF assms(1), of g] assms(2,3)
  by (simp add: budget_ok_def table_view_def durable_def)

theorem use_budget_kept_witness:
  "uses_of demo_gid [demo_e1] \<le> unat (3 :: u32)"
proof (rule demo_b1_grants)
  fix secret
  assume "bk_grants demo_b1 =
    [(demo_gid, new_grant demo_gid ''app'' (RFile ''/data'') rights_read 50 None (Some 3) (Some secret))]"
  then show ?thesis
    using use_budget_kept [OF demo_b1_run, of demo_gid _ 3] by (auto simp: new_grant_def)
qed

text \<open>C4.  Reopening is faithful: replaying the log of a running broker succeeds and rebuilds every
  grant with its principal, resource, rights, limits, use count and revocation, the same head and
  the same length; only session secrets are gone.  \<open>verify\<close> accepts the log and counts its
  entries.\<close>

theorem reopen_faithful:
  assumes "broker_inv X U k b es"
  shows "\<exists>b'. broker_open X (bk_ls b) pol = Some (Inr b')
    \<and> table_view (bk_grants b') = table_view (bk_grants b)
    \<and> bk_head b' = bk_head b \<and> bk_seq b' = bk_seq b
    \<and> broker_verify X b' = Some (Inr (length es))"
  by (rule broker_open_inv [OF assms, of pol]) (use broker_verify_log in blast)

theorem reopen_faithful_witness:
  "\<exists>b'. broker_open demo_ext (bk_ls demo_b1) DenyAll = Some (Inr b')
    \<and> table_view (bk_grants b') = table_view (bk_grants demo_b1)
    \<and> bk_head b' = bk_head demo_b1 \<and> bk_seq b' = bk_seq demo_b1
    \<and> broker_verify demo_ext b' = Some (Inr (length [demo_e1]))"
  by (rule reopen_faithful [OF demo_b1_inv])

text \<open>What a stale broker does: if two brokers hold the same head and one logs an event, an
  event the other logs afterwards on the shared store is chained to the old head.  The log then
  holds the second event and not the first; with a revocation as the first event, the grant is
  live again for every broker that opens the store.\<close>

theorem stale_broker_drops_events:
  assumes "broker_inv X U k b es"
    and "loggable X U k b t2 ev2" and "broker_log X t2 ev2 b = (r2, b2)"
    and "loggable X U k b t1 ev1" and "broker_log X t1 ev1 (b\<lparr>bk_ls := bk_ls b2\<rparr>) = (r1, b1)"
  shows "\<exists>b'. broker_open X (bk_ls b1) pol = Some (Inr b')
    \<and> broker_audit X b' = Some (Inr (es @ [log_entry X k b t1 ev1]))
    \<and> table_view (bk_grants b') = spec_event ev1 (table_view (bk_grants b))"
  using assms by (rule stale_log_drops)

theorem stale_broker_drops_events_witness:
  "\<exists>(b1 :: broker) b' e. broker_open demo_ext (bk_ls b1) DenyAll = Some (Inr b')
    \<and> broker_audit demo_ext b' = Some (Inr ([demo_e1] @ [e]))"
proof -
  obtain r2 b2 where b2: "broker_log demo_ext 60 (EvRevoke demo_gid) demo_b1 = (r2, b2)" by fastforce
  obtain r1 b1 where b1: "broker_log demo_ext 60 (EvRevoke demo_gid) (demo_b1\<lparr>bk_ls := bk_ls b2\<rparr>) = (r1, b1)"
    by fastforce
  from stale_broker_drops_events [OF demo_b1_inv demo_rev_loggable b2 demo_rev_loggable b1, of DenyAll]
  obtain b' where "broker_open demo_ext (bk_ls b1) DenyAll = Some (Inr b')"
    "broker_audit demo_ext b' = Some (Inr ([demo_e1] @
       [log_entry demo_ext demo_keys demo_b1 60 (EvRevoke demo_gid)]))" by (elim exE conjE)
  then show ?thesis by blast
qed

text \<open>The audit payload codec loses nothing: every event with 16-byte ids, valid strings and
  defined rights decodes to itself, with its sequence number and time.\<close>

theorem audit_payload_roundtrip:
  assumes "wf_event ev"
  shows "decode_payload (encode_payload sq time ev) = Inr (sq, time, ev)"
  using assms by (rule decode_payload_encode)

theorem audit_payload_roundtrip_witness:
  "decode_payload (encode_payload 7 8 demo_ev1) = Inr (7, 8, demo_ev1)"
  by (rule audit_payload_roundtrip [OF demo_ev1_ok(1)])

text \<open>The text forms used by the command line and the log parse back: three-bit rights, and
  every resource whose text is unambiguous (a UTF-8 path, a service name without a slash; any
  host, since the port is split off at the last colon).\<close>

theorem capability_text_roundtrip:
  assumes "rights_from_bits q = q" and "res_text_ok r"
  shows "rights_parse (rights_show q) = Some q \<and> res_parse (res_show r) = Some r"
  using rights_parse_show [of q] rights_from_bits_lt [of q] res_parse_show [OF assms(2)] assms(1) by simp

theorem capability_text_roundtrip_witness:
  "rights_parse (rights_show 5) = Some 5
    \<and> res_parse (res_show (RNet ''::1'' 8080)) = Some (RNet ''::1'' 8080)"
  by (rule capability_text_roundtrip) (simp_all add: rights_from_bits_def res_text_ok_def)

text \<open>Cover is component-wise and nothing else: a file grant covers exactly the paths that
  extend it by whole components, other grants exactly themselves; in particular a path that
  leaves the directory through \<open>..\<close> is covered, since no component is resolved.\<close>

theorem cover_exact:
  "res_covers g r \<longleftrightarrow> (case g of
      RFile a \<Rightarrow> (case r of RFile b \<Rightarrow> prefix (path_components a) (path_components b) | _ \<Rightarrow> False)
    | _ \<Rightarrow> r = g)"
  by (cases g; cases r) (auto simp: res_covers_def path_eq_def path_starts_with_def)

section \<open>The lifestream\<close>

text \<open>C6.  Snapshot and restore: a directory tree written into a good store is read back from its
  root, as the tree in name order with its permission bits, its special files left out and its
  link targets made UTF-8; everything stored before stays readable.  Restoring needs as much fuel
  as the tree is deep.\<close>

theorem snapshot_restore:
  assumes "ls_okay X U k s" and "list_all (usable_obj U) (dir_objs X k items)" and "dir_utf8 items"
  shows "\<exists>root t. snapshot_dir X items s = (Inr root, t) \<and> ls_okay X U k t
    \<and> ls_look X s \<subseteq>\<^sub>m ls_look X t
    \<and> restore_tree (dir_depth items + n) X t root = Inr (dir_image items)"
proof -
  obtain t where t: "snapshot_dir X items s = (Inr (obj_id X k (dir_obj X k items)), t)"
      "ls_okay X U k t" "ls_look X s \<subseteq>\<^sub>m ls_look X t"
      "\<forall>ob \<in> set (dir_objs X k items). ls_look X t (obj_id X k ob) = Some ob"
    using snapshot_dir_stores [OF assms(2,3)] assms(1) by (rule storesE)
  with restore_tree_image [OF t(4), of "dir_depth items + n"] show ?thesis by auto
qed

theorem snapshot_restore_witness:
  "\<exists>root t. snapshot_dir demo_ext demo_dir demo_store = (Inr root, t) \<and> ls_okay demo_ext demo_dir_U demo_keys t
    \<and> ls_look demo_ext demo_store \<subseteq>\<^sub>m ls_look demo_ext t
    \<and> restore_tree (dir_depth demo_dir + 0) demo_ext t root = Inr (dir_image demo_dir)"
  by (rule snapshot_restore [OF demo_dir_okay demo_dir_usable demo_dir_utf8])

text \<open>Files: the bytes of a file are stored as chunks and a list of their addresses, and
  reading the address back gives the bytes, in that store and in every store that has grown from
  it.\<close>

theorem file_roundtrip:
  assumes "ls_okay X U k s" and "list_all (usable_obj U) (file_objs X k data)"
    and "write_bytes X data s = (r, t)" and "ls_look X t \<subseteq>\<^sub>m ls_look X u"
  shows "\<exists>i. r = Inr i \<and> ls_okay X U k t \<and> read_bytes X u i = Inr data"
proof -
  from write_bytes_stores [OF assms(2)] assms(1,3) have t: "r = Inr (obj_id X k (file_obj X k data))"
      "ls_okay X U k t" "\<forall>ob \<in> set (file_objs X k data). ls_look X t (obj_id X k ob) = Some ob"
    by (auto elim!: storesE)
  then have "\<forall>ob \<in> set (file_objs X k data). ls_look X u (obj_id X k ob) = Some ob"
    using assms(4) map_le_Some by metis
  with t read_bytes_look show ?thesis by blast
qed

theorem file_roundtrip_witness:
  "\<exists>i t. write_bytes demo_ext [7] demo_store = (Inr i, t) \<and> read_bytes demo_ext t i = Inr [7]"
proof -
  have "list_all (usable_obj demo_dir_U) (file_objs demo_ext demo_keys [7])"
    using demo_dir_usable
    by (simp add: demo_dir_objs file_objs_small chunk_min_def demo_obj_id object_encode_def)
  moreover obtain r t where "write_bytes demo_ext [7] demo_store = (r, t)" by fastforce
  ultimately show ?thesis using file_roundtrip [OF demo_dir_okay, of "[7]" r t t] by auto
qed

text \<open>Chunking partitions the data: the ranges run from the start to the end without gap or
  overlap, none is empty or above the maximum, none but the last is below the minimum, and the
  slices concatenate to the data.\<close>

theorem chunks_partition:
  "ranges_chain 0 (chunk_split g data 0) (length data)
    \<and> list_all (\<lambda>r. snd r - fst r \<le> chunk_max \<and> (snd r = length data \<or> chunk_min \<le> snd r - fst r))
        (chunk_split g data 0)
    \<and> concat (map (chunk_slice data) (chunk_split g data 0)) = data"
  by (simp add: chunk_split_chain chunk_split_bounds chunk_split_concat)

text \<open>The object encoding is canonical: well-formed objects decode to themselves, so distinct
  objects have distinct encodings and distinct addresses wherever the hash tells them apart.\<close>

theorem object_roundtrip:
  assumes "wf_object a"
  shows "object_decode (object_encode a) = Inr a \<and> (wf_object b \<and> object_encode b = object_encode a \<longrightarrow> b = a)"
  using assms object_decode_encode object_encode_inj by blast

theorem object_roundtrip_witness:
  "object_decode (object_encode (File [replicate 32 1])) = Inr (File [replicate 32 1])"
  using object_roundtrip [of "File [replicate 32 1]"] by (simp add: wf_object_def len32_def wf_id_def)

text \<open>C7.  The encrypted store implements a map from addresses to plaintexts: a put returns the
  address of the plaintext and is the update of that one address (or, when the cipher refuses the
  message, no change at all); whether the record was written or already there makes no
  difference.\<close>

theorem put_refines_update:
  assumes "ext_ok X" and "store_inv X U s" and "m \<in> U" and "store_put X m s = (r, s')"
  shows "store_inv X U s' \<and> (case r of
      Inl e \<Rightarrow> e = LsCrypto \<and> store_abs X s' = store_abs X s
    | Inr i \<Rightarrow> i = id_of X (st_keys s) m \<and> store_abs X s' = (store_abs X s)(i \<mapsto> m))"
  using store_put_spec [OF assms] by blast

theorem put_refines_update_witness:
  "\<exists>s'. store_put demo_ext [9] demo_store = (Inr (pad32 [9]), s')
    \<and> store_abs demo_ext s' = (store_abs demo_ext demo_store)(pad32 [9] \<mapsto> [9])"
proof -
  obtain s' where s': "store_put demo_ext [9] demo_store = (Inr (pad32 [9]), s')"
    using store_put_ok [OF demo_ext_ok demo_store_inv, of "[9]"] by (auto simp: seal_max_def)
  then show ?thesis using put_refines_update [OF demo_ext_ok demo_store_inv _ s'] by simp
qed

text \<open>C8.  Commits are atomic: after the temporary file is written and before it is renamed the
  store maps and lists exactly what it did, and after the rename it maps the one new address;
  both states are good ones, so a crash in between loses nothing and shows nothing.\<close>

theorem commit_crash_safe:
  assumes "ext_ok X" and "store_inv X U s" and "wf_id i" and "m \<in> U"
    and "open_checked X (st_keys s) i rec = Inr m"
  shows "store_abs X (commit_write (path_for X i) rec s) = store_abs X s
    \<and> store_list_ids X (commit_write (path_for X i) rec s) = store_list_ids X s
    \<and> store_inv X U (commit_write (path_for X i) rec s)
    \<and> store_abs X (commit_record (path_for X i) rec s) = (store_abs X s)(i \<mapsto> m)
    \<and> store_inv X U (commit_record (path_for X i) rec s)"
  using commit_write_hidden [OF assms(1)] assms(2) commit_record_abs [OF assms(1,5)]
    commit_record_inv [OF assms] by blast

theorem commit_crash_safe_witness:
  "store_abs demo_ext (commit_write (path_for demo_ext (pad32 [9])) demo_rec demo_store)
      = store_abs demo_ext demo_store
    \<and> store_abs demo_ext (commit_record (path_for demo_ext (pad32 [9])) demo_rec demo_store)
      = (store_abs demo_ext demo_store)(pad32 [9] \<mapsto> [9])"
  using commit_crash_safe [OF demo_ext_ok demo_store_inv _ _ demo_rec_open] by (simp add: wf_id_def)

text \<open>C9.  Replication cannot poison a store: a record from elsewhere enters only if it opens under
  the id it claims to a plaintext with that address; otherwise the error is returned and the
  store is untouched.\<close>

theorem write_record_verified:
  assumes "ext_ok X" and "store_inv X U s" and "wf_id i"
    and "\<And>m. open_checked X (st_keys s) i rec = Inr m \<Longrightarrow> m \<in> U"
    and "store_write_record X i rec s = (r, s')"
  shows "store_inv X U s' \<and> (case r of
      Inl e \<Rightarrow> open_checked X (st_keys s) i rec = Inl e \<and> s' = s
    | Inr False \<Rightarrow> store_has X s i \<and> s' = s
    | Inr True \<Rightarrow> (\<exists>p. open_checked X (st_keys s) i rec = Inr p \<and> id_of X (st_keys s) p = i
        \<and> \<not> store_has X s i \<and> store_abs X s' = (store_abs X s)(i \<mapsto> p)))"
proof -
  note spec = store_write_record_spec [OF assms]
  then show ?thesis
    by (auto simp: open_checked_Inr_iff split: sum.splits if_splits bool.splits)
qed

theorem write_record_verified_witness:
  "\<exists>s'. store_write_record demo_ext (pad32 [9]) demo_rec demo_store = (Inr True, s')
    \<and> store_abs demo_ext s' = (store_abs demo_ext demo_store)(pad32 [9] \<mapsto> [9])"
proof -
  have "map_of (st_objects demo_store) (path_for demo_ext (pad32 [9])) = None"
    by (simp add: demo_store_def store_init_def demo_blank_def)
  then obtain s' where "store_write_record demo_ext (pad32 [9]) demo_rec demo_store = (Inr True, s')"
    by (simp add: store_write_record_def Let_def demo_rec_open)
  then show ?thesis
    using write_record_verified [OF demo_ext_ok demo_store_inv, of "pad32 [9]" demo_rec "Inr True" s']
    by (auto simp: demo_rec_open wf_id_def)
qed

text \<open>C10.  Collection is exact: mark and sweep returns on every good store, and afterwards exactly
  the objects reachable from the roots along the links objects hold are still there, unchanged;
  refs are untouched.\<close>

theorem gc_exact:
  assumes "ext_ok X" and "store_inv X U s"
  shows "\<exists>n s'. ls_gc X roots s = Some (Inr n, s') \<and> store_inv X U s' \<and> st_refs s' = st_refs s
    \<and> store_abs X s' = store_abs X s |` ls_reach X s (set roots)"
  using ls_gc_spec [OF assms, of roots] by (auto simp: fun_eq_iff restrict_map_def)

theorem gc_exact_witness:
  "\<exists>n s'. ls_gc demo_ext [pad32 [9]] demo_store = Some (Inr n, s')
    \<and> store_abs demo_ext s' = store_abs demo_ext demo_store |` ls_reach demo_ext demo_store {pad32 [9]}"
  using gc_exact [OF demo_ext_ok demo_store_inv, of "[pad32 [9]]"] by auto

text \<open>Commits extend the history: a commit returns the address of the new generation, HEAD
  names it, and the walk from it returns, listing the new generation and then the history of its
  first parent.\<close>

theorem commit_extends_history:
  assumes "ls_okay X U k s" and "usable_obj U (Gen (commit_gen root parents label now))"
    and "hist X s (case parents of [] \<Rightarrow> None | p # _ \<Rightarrow> Some p) gs"
  shows "\<exists>i t. ls_commit X root parents label now s = (Inr i, t) \<and> ls_okay X U k t
    \<and> ls_head X t = Inr (Some i)
    \<and> ls_history X t i = Some (Inr ((i, commit_gen root parents label now) # gs))"
proof -
  obtain i t where t: "ls_commit X root parents label now s = (Inr i, t)" "ls_okay X U k t"
      "ls_look X s \<subseteq>\<^sub>m ls_look X t" "ls_look X t i = Some (Gen (commit_gen root parents label now))"
      "ls_head X t = Inr (Some i)"
    by (rule ls_commit_total [OF assms(1,2)])
  have "hist X t (Some i) ((i, commit_gen root parents label now) # gs)"
    using t(4) hist_grows [OF assms(3) t(3)] by (intro hist_gen) (simp_all add: commit_gen_def)
  then show ?thesis using t hist_history [of X t "Some i" _ "[]"] by (auto simp: ls_history_def)
qed

theorem commit_extends_history_witness:
  "\<exists>i t. ls_commit demo_ext (replicate 32 1) [] ''first'' 9 demo_store = (Inr i, t)
    \<and> ls_head demo_ext t = Inr (Some i)
    \<and> ls_history demo_ext t i = Some (Inr [(i, commit_gen (replicate 32 1) [] ''first'' 9)])"
proof -
  let ?g = "Gen (commit_gen (replicate 32 1) [] ''first'' 9)"
  let ?U = "demo_universe [?g]"
  have "ls_okay demo_ext ?U demo_keys demo_store"
    by (rule demo_okay) (simp add: demo_universe_def)
  moreover have "list_all (usable_obj ?U) [?g]"
    by (rule demo_usable)
      (simp add: wf_object_def commit_gen_def wf_generation_def wf_id_def len32_def wf_str32_def
        object_encode_def put_generation_def put_str32_def put_bytes32_def seal_max_def utf8_str_ascii ascii_str_def)
  ultimately show ?thesis
    using commit_extends_history [of demo_ext ?U demo_keys demo_store "replicate 32 1" "[]" "''first''" 9 "[]"]
    by (auto simp: hist_none)
qed

section \<open>Reconstitution\<close>

text \<open>C11.  The log and antilog tables compute the field: multiplication through them is the
  shift-and-add product modulo the AES polynomial, on all pairs of bytes.\<close>

theorem gf_mul_is_field_product:
  "gf_mul gf_new a b = gf_peasant 8 a b"
  by (rule gf_mul_peasant)

text \<open>C12.  Any \<open>k\<close> of the \<open>n\<close> shares of a split rebuild the secret, in any order and with more
  shares than needed.\<close>

theorem k_shares_rebuild:
  assumes "ext_ok X" and "split_secret X secret k n d = (Inr shares, d')"
    and "set sub \<subseteq> set shares" and "distinct sub" and "unat k \<le> length sub"
  shows "combine X sub = Inr secret"
  using assms by (rule combine_split)

theorem k_shares_rebuild_witness:
  "\<exists>shares d'. split_secret demo_ext [42, 7] 2 3 0 = (Inr shares, d')
    \<and> combine demo_ext [shares ! 2, shares ! 0] = Inr [42, 7]"
proof -
  obtain shares d' where split: "split_secret demo_ext [42, 7] 2 3 0 = (Inr shares, d')"
    by (rule split_secret_ok [of "[42, 7]" 2 3 demo_ext 0]) simp_all
  have "length shares = 3" "distinct shares" using split_secret_distinct [OF split] by simp_all
  then have "combine demo_ext [shares ! 2, shares ! 0] = Inr [42, 7]"
    by (intro k_shares_rebuild [OF demo_ext_ok split]) (simp_all add: nth_eq_iff_index_eq)
  with split show ?thesis by blast
qed

text \<open>C14.  Combining never returns a wrong secret unnoticed: whatever shares are given, a result
  hashes to the tag every one of them carries, they have distinct indices and there are at least
  as many as each one's threshold.\<close>

theorem combine_checked:
  assumes "combine X shares = Inr secret"
  shows "list_all (\<lambda>s. sh_tag s = tag_of X secret \<and> unat (sh_k s) \<le> length shares) shares
    \<and> distinct (map sh_x shares)"
  using combine_sound [OF assms] by (auto simp: list_all_iff)

theorem combine_checked_witness:
  "\<exists>shares. combine demo_ext shares = Inr [42] \<and> shares \<noteq> [] \<and> distinct (map sh_x shares)"
proof -
  obtain shares d' where split: "split_secret demo_ext [42] 1 2 0 = (Inr shares, d')"
    by (rule split_secret_ok [of "[42]" 1 2 demo_ext 0]) simp_all
  have two: "length shares = 2" and dist: "distinct shares"
    using split_secret_distinct [OF split] by simp_all
  then have "combine demo_ext shares = Inr [42]"
    by (intro combine_split [OF demo_ext_ok split]) simp_all
  from combine_checked [OF this] this two show ?thesis by fastforce
qed

text \<open>The portable form of a share reads back, up to its one-byte length: a share of a secret
  of 256 bytes or more is written with a truncated length and never decodes again.\<close>

theorem share_text_roundtrip:
  assumes "wf_share s"
  shows "share_decode (share_encode s) =
    (if length (sh_y s) < 256 then Inr s else Inl (RcMalformed ''length does not match body''))"
  using assms by (rule share_decode_encode)

theorem share_text_roundtrip_witness:
  "share_decode (share_encode (make_share [1, 2, 3, 4] 1 (replicate 16 0) (replicate 256 [0]) 1))
    = Inl (RcMalformed ''length does not match body'')"
proof -
  have "wf_share (make_share [1, 2, 3, 4] 1 (replicate 16 0) (replicate 256 [0]) 1)"
    by (simp add: wf_share_def make_share_def tag_len_def)
  from share_text_roundtrip [OF this] show ?thesis by (simp add: make_share_def)
qed

section \<open>The boot\<close>

text \<open>C16.  A stateless boot leaves no trace: whenever the init program cannot boot persistent (Ghost is
  asked for, or the store or the encrypted layer never resolves), every call of the whole run, error
  exits included, mounts read-only or in memory only, and the master is neither used nor stashed.\<close>

theorem stateless_run_traceless:
  assumes "stateless mc (run_params mc)"
  shows "list_all sys_traceless (snd (init_run mc []))"
  using init_run_stateless [OF assms] by (auto simp: emits_def dest: spec [of _ "[]"])

theorem stateless_run_traceless_witness:
  "list_all sys_traceless (snd (init_run
     (demo_machine (join_ws (params_tokens demo_ghost)) (Inr ''/store'') (Inr [])) []))"
  by (rule stateless_run_traceless [OF demo_ghost_stateless])

text \<open>The command line says what it means: parameters written as tokens, each once, in any values
  without white space, parse back to the same parameters; so every token moves its own field only.\<close>

theorem cmdline_roundtrip:
  assumes "wf_params p"
  shows "parse_cmdline (join_ws (params_tokens p)) = p"
  using assms by (rule parse_show_cmdline)

theorem cmdline_roundtrip_witness:
  "parse_cmdline (join_ws (params_tokens demo_ghost)) = demo_ghost"
  by (rule cmdline_roundtrip [OF demo_ghost_wf])

text \<open>Modules load in dependency order: the walk over any dependency map returns, cycles or not; it
  lists every module of the map, none twice and nothing from outside it, and without a cycle every
  module comes after all the modules it needs.\<close>

theorem modules_load_in_order:
  "\<exists>ord. module_load_order deps = Some ord \<and> distinct (map path_components ord)
    \<and> path_components ` set (map fst deps) \<subseteq> path_components ` set ord
    \<and> path_components ` set ord \<subseteq> dep_universe deps
    \<and> (acyclic (dep_edges deps) \<longrightarrow> deps_first deps {} ord)"
  by (rule load_order [of deps]) blast

theorem modules_load_in_order_witness:
  "\<exists>ord. module_load_order demo_deps = Some ord \<and> deps_first demo_deps {} ord"
  using modules_load_in_order [of demo_deps] demo_deps_acyclic by blast

text \<open>C17.  The key builder lays partitions out without overlap: below 8 EiB of data, each partition starts on
  a MiB boundary right after the one before it, is at least as large as asked for, its byte offset
  and size agree with its sectors, and the backup table sits behind the last one inside the disk.\<close>

theorem gpt_layout_sound:
  assumes "gpt_build g parts = Some d" and "sectors_needed parts < 2 ^ 54"
  shows "parts_chain 2048 (dk_parts d) (2048 + sectors_needed parts)
    \<and> list_all2 part_fits parts (dk_parts d)
    \<and> unat (dk_back_offset d) = (2048 + sectors_needed parts) * 512
    \<and> unat (dk_total d) = (2048 + sectors_needed parts + 33) * 512"
  using built_layout [OF assms] by blast

theorem gpt_layout_sound_witness:
  "\<exists>d. gpt_build (zeros 16) demo_parts = Some d \<and> unat (dk_total d) = 6177 * 512"
proof -
  obtain d where d: "gpt_build (zeros 16) demo_parts = Some d" by (rule demo_disk)
  with gpt_layout_sound [OF d] show ?thesis by (simp add: demo_parts_need)
qed

text \<open>Init finds what the key builder wrote: on a machine whose only disk carries a table built from
  parts with distinct plain names, resolving the label of the \<open>i\<close>th part yields the device node of
  partition \<open>i + 1\<close> of that disk.\<close>

theorem init_finds_built_partition:
  assumes "gpt_build g parts = Some d" and "length g = 16"
    and "list_all wf_part parts" and "distinct (map ps_name parts)" and "i < length parts"
    and "ho_block h = [(name, 512, Some (dk_front d @ rest))]"
    and "\<not> prefix ''ram'' name" and "\<not> prefix ''loop'' name"
    and "\<not> ho_exists h (path_join ''/dev/disk/by-label'' (ps_name (parts ! i)))"
    and "\<not> ho_exists h (path_join ''/dev/disk/by-partlabel'' (ps_name (parts ! i)))"
    and "ho_exists h (partition_dev name (of_nat (i + 1)))"
  shows "resolve h (SpecLabel (ps_name (parts ! i))) fstype
    = Inr (source_new (partition_dev name (of_nat (i + 1))) fstype flags_none)"
  using assms by (rule resolve_built_disk)

theorem init_finds_built_partition_witness:
  "\<exists>d. gpt_build (zeros 16) demo_parts = Some d
    \<and> resolve (demo_host d) (SpecLabel data_label) ''ext4'' = Inr (source_new ''/dev/sda2'' ''ext4'' flags_none)"
proof -
  obtain d where d: "gpt_build (zeros 16) demo_parts = Some d" by (rule demo_disk)
  from init_finds_built_partition [OF d, of 1 "demo_host d" "''sda''" "[]" "''ext4''"] d
  show ?thesis by (simp add: demo_host_facts)
qed

text \<open>A persistent boot whose data partition holds no store goes on stateless and never unmounts or
  remounts that partition: it stays mounted with the flags of its source, which carry no read-only
  bit, under a session that runs on a tmpfs layer.\<close>

theorem no_store_leaves_partition_writable:
  assumes "obliging mc" and "home_wanted (pa_mode p) True (home_dev \<noteq> None)"
    and "\<And>tr. mc_discover mc tr (la_data (layout_new scratch_dir)) = Inl e"
    and "list_all (\<lambda>s. CHR 0x00 \<notin> set s) (pa_init p # pa_init_args p)"
  shows "assemble_root mc p base (Some part) home_dev tr =
    (Inr (), tr @ concat (map step_calls (data_steps True part @ plan
       \<lparr>re_scratch = scratch_dir, re_base = base, re_mode = Ghost, re_carry = [], re_init = pa_init p,
        re_init_args = pa_init_args p\<rparr>)))"
  using assms by (rule assemble_without_store)

theorem no_store_leaves_partition_writable_witness:
  "SysMount (Some ''/dev/sda2'') ''/run/horizon/data'' (Some ''ext4'') {} None
    \<in> set (snd (assemble_root (demo_machine [] (Inl ''no store'') (Inr [])) params_default
        source_tmpfs (Some (source_new ''/dev/sda2'' ''ext4'' flags_none)) (Some source_tmpfs) []))"
proof -
  let ?mc = "demo_machine [] (Inl ''no store'') (Inr [])"
  have "assemble_root ?mc params_default base (Some part) (Some source_tmpfs) [] =
    (Inr (), [] @ concat (map step_calls (data_steps True part @ plan
       \<lparr>re_scratch = scratch_dir, re_base = base, re_mode = Ghost, re_carry = [], re_init = pa_init params_default,
        re_init_args = pa_init_args params_default\<rparr>)))" for base part
    by (rule no_store_leaves_partition_writable [OF demo_obliging])
      (simp_all add: demo_machine_def home_wanted_def params_default_def default_init_def)
  then show ?thesis
    by (simp add: data_steps_def step_calls_def layout_new_def scratch_dir_def path_join_def path_is_absolute_def
        source_new_def ms_flags_def flags_none_def Let_def)
qed

text \<open>C19.  Synchronising two stores of one identity returns and copies exactly what is missing: the
  sender is left as it was, the receiver stays a good store and holds the objects of both, the report
  counts the objects it lacked, and a ref is set when new, moves only to a target with the old one in
  its history, and otherwise stays; so the old target of every ref stays in the history.\<close>

theorem sync_copies:
  assumes "store_ok X U names lim k a" and "store_ok X U names lim k b"
  shows "\<exists>rep a' b'. sync (local_transport X) (local_transport X) (a, b) = Some (Inr rep, (a', b'))
    \<and> store_abs X a' = store_abs X a \<and> store_refs X a' = store_refs X a
    \<and> store_ok X U names lim k b' \<and> store_abs X b' = store_abs X a ++ store_abs X b
    \<and> sr_transferred rep = card (dom (store_abs X a) - dom (store_abs X b))
    \<and> store_refs X b' = ref_merge (store_abs X b') (store_refs X a) (store_refs X b)
    \<and> (\<forall>n j. store_refs X b n = Some j \<longrightarrow>
         (\<exists>i. store_refs X b' n = Some i \<and> (i, j) \<in> (history_edges (store_abs X b'))\<^sup>*))"
proof -
  obtain rep a' b' rs where
    run: "sync (local_transport X) (local_transport X) (a, b) = Some (Inr rep, (a', b'))"
      "calm (store_ok X U names lim k) (store_abs X) (store_refs X) a a'" "store_ok X U names lim k b'"
      "store_abs X b' = store_abs X a ++ store_abs X b"
      "store_refs X b' = ref_merge (store_abs X a ++ store_abs X b) (store_refs X a) (store_refs X b)"
      "sr_transferred rep = card (dom (store_abs X a) - dom (store_abs X b))"
    by (rule local_pair.sync_spec [OF assms])
  from local_pair.sync_keeps(4) [OF assms run(1)] calmD(2,3) [OF run(2)] run show ?thesis
    by (intro exI [of _ rep] exI [of _ a'] exI [of _ b']) simp
qed

theorem sync_copies_witness:
  "\<exists>rep a' b'. sync (local_transport demo_ext) (local_transport demo_ext) (demo_ahead, demo_behind)
      = Some (Inr rep, (a', b')) \<and> sr_transferred rep = 1 \<and> store_refs demo_ext b' ''main'' = Some demo_i2"
proof -
  from sync_copies [OF demo_ahead(1) demo_behind(1)] obtain rep a' b' where
    run: "sync (local_transport demo_ext) (local_transport demo_ext) (demo_ahead, demo_behind)
        = Some (Inr rep, (a', b'))"
      "store_abs demo_ext b' = store_abs demo_ext demo_ahead ++ store_abs demo_ext demo_behind"
      "sr_transferred rep = card (dom (store_abs demo_ext demo_ahead) - dom (store_abs demo_ext demo_behind))"
      "store_refs demo_ext b' = ref_merge (store_abs demo_ext b') (store_refs demo_ext demo_ahead)
        (store_refs demo_ext demo_behind)" by blast
  have abs: "store_abs demo_ext b' = [demo_i1 \<mapsto> demo_m1, demo_i2 \<mapsto> demo_m2]"
    using demo_ids_differ by (auto simp: run(2) demo_ahead(2) demo_behind(2) map_add_def fun_eq_iff)
  have "sr_transferred rep = 1"
    using demo_ids_differ by (simp add: run(3) demo_ahead(2) demo_behind(2) insert_Diff_if)
  moreover have "store_refs demo_ext b' ''main'' = Some demo_i2"
    using demo_history by (simp add: run(4) abs demo_ahead(3) demo_behind(3) ref_merge_def)
  ultimately show ?thesis using run(1) by blast
qed

text \<open>C20.  Two-way convergence: a run each way leaves both stores with the same objects, and every ref is
  the same on both, unless its two targets were in neither's history: such a conflict is kept on both
  sides, never resolved by overwriting.\<close>

theorem sync_converges:
  assumes a: "store_ok X U names lim k a" and b: "store_ok X U names lim k b"
    and there: "sync (local_transport X) (local_transport X) (a, b) = Some (Inr rep, (a1, b1))"
    and again: "sync (local_transport X) (local_transport X) (b1, a1) = Some (Inr rep', (b2, a2))"
  shows "store_abs X a2 = store_abs X b2
    \<and> (store_refs X a2 n = store_refs X b2 n
       \<or> (\<exists>i j. store_refs X a n = Some i \<and> store_refs X b n = Some j
            \<and> (i, j) \<notin> (history_edges (store_abs X b2))\<^sup>* \<and> (j, i) \<notin> (history_edges (store_abs X b2))\<^sup>*
            \<and> store_refs X a2 n = Some i \<and> store_refs X b2 n = Some j))"
proof -
  let ?all = "store_abs X a ++ store_abs X b"
  from local_pair.sync_spec [OF a b] obtain r x y where
    1: "sync (local_transport X) (local_transport X) (a, b) = Some (Inr r, (x, y))"
      "calm (store_ok X U names lim k) (store_abs X) (store_refs X) a x" "store_ok X U names lim k y"
      "store_abs X y = ?all" "store_refs X y = ref_merge ?all (store_refs X a) (store_refs X b)" by metis
  with there have xy: "x = a1" "y = b1" by simp_all
  note a1 = calmD [OF 1(2)]
  from local_pair.sync_spec [OF 1(3) a1(1)] obtain r' y' x' where
    2: "sync (local_transport X) (local_transport X) (y, x) = Some (Inr r', (y', x'))"
      "calm (store_ok X U names lim k) (store_abs X) (store_refs X) y y'"
      "store_abs X x' = store_abs X y ++ store_abs X x"
      "store_refs X x' = ref_merge (store_abs X y ++ store_abs X x) (store_refs X y) (store_refs X x)" by metis
  with again xy have xy': "y' = b2" "x' = a2" by simp_all
  have all: "store_abs X y ++ store_abs X x = ?all"
  proof -
    have "m ++ m = m" for m :: "object_id \<Rightarrow> bytes option" by (rule ext) (simp add: map_add_def split: option.split)
    then show ?thesis using store_abs_merge [OF a b] by (simp add: 1(4) a1(2) flip: map_add_assoc)
  qed
  show ?thesis
    using 2(3,4) all calmD(2,3) [OF 2(2)] xy' 1(4,5) a1(3)
    by (auto simp: ref_merge_def split: option.splits if_splits)
qed

theorem sync_converges_witness:
  "\<exists>a2 b2. store_abs demo_ext a2 = store_abs demo_ext b2 \<and> store_refs demo_ext b2 ''main'' = Some demo_i2"
proof -
  obtain rep a1 b1 rs where
    1: "sync (local_transport demo_ext) (local_transport demo_ext) (demo_ahead, demo_behind) = Some (Inr rep, (a1, b1))"
      "calm demo_good (store_abs demo_ext) (store_refs demo_ext) demo_ahead a1" "demo_good b1"
      "store_abs demo_ext b1 = store_abs demo_ext demo_ahead ++ store_abs demo_ext demo_behind"
      "store_refs demo_ext b1 = ref_merge (store_abs demo_ext demo_ahead ++ store_abs demo_ext demo_behind)
         (store_refs demo_ext demo_ahead) (store_refs demo_ext demo_behind)"
    by (rule local_pair.sync_spec [OF demo_ahead(1) demo_behind(1)])
  obtain rep' b2 a2 rs' where
    2: "sync (local_transport demo_ext) (local_transport demo_ext) (b1, a1) = Some (Inr rep', (b2, a2))"
      "calm demo_good (store_abs demo_ext) (store_refs demo_ext) b1 b2"
    by (rule local_pair.sync_spec [OF 1(3) calmD(1) [OF 1(2)]])
  have "store_abs demo_ext demo_ahead ++ store_abs demo_ext demo_behind = [demo_i1 \<mapsto> demo_m1, demo_i2 \<mapsto> demo_m2]"
    using demo_ids_differ by (auto simp: demo_ahead(2) demo_behind(2) map_add_def fun_eq_iff)
  then have "store_refs demo_ext b2 ''main'' = Some demo_i2"
    using demo_history by (simp add: calmD(3) [OF 2(2)] 1(5) demo_ahead(3) demo_behind(3) ref_merge_def)
  with sync_converges [OF demo_ahead(1) demo_behind(1) 1(1) 2(1)] show ?thesis by blast
qed

text \<open>C21.  The network changes nothing: a run from a store to a store behind a live link returns, and it
  leaves the far store with the objects and refs, and moves as many objects, as the run between the two
  stores in one process; the link is live and idle again.\<close>

theorem link_sync_same:
  assumes "store_ok X U names lim k a" and "link_live N R (store_served X U names lim k) L"
  shows "\<exists>rep a' L' rep2 a2 b2.
    sync (local_transport X) (network_transport N (local_transport X)) (a, L) = Some (Inr rep, (a', L'))
    \<and> sync (local_transport X) (local_transport X) (a, lk_peer L) = Some (Inr rep2, (a2, b2))
    \<and> link_live N R (store_served X U names lim k) L'
    \<and> store_abs X (lk_peer L') = store_abs X b2 \<and> store_refs X (lk_peer L') = store_refs X b2
    \<and> sr_transferred rep = sr_transferred rep2"
proof -
  obtain rep a' L' rs where
    far: "sync (local_transport X) (network_transport N (local_transport X)) (a, L) = Some (Inr rep, (a', L'))"
      "link_live N R (store_served X U names lim k) L'"
      "store_abs X (lk_peer L') = store_abs X a ++ store_abs X (lk_peer L)"
      "store_refs X (lk_peer L') = ref_merge (store_abs X a ++ store_abs X (lk_peer L)) (store_refs X a)
         (store_refs X (lk_peer L))"
      "sr_transferred rep = card (dom (store_abs X a) - dom (store_abs X (lk_peer L)))"
    by (rule net_pair.sync_spec [OF assms])
  have "store_ok X U names lim k (lk_peer L)" using assms(2) by (simp add: link_live_def store_served_def)
  then obtain rep2 a2 b2 rs2 where
    near: "sync (local_transport X) (local_transport X) (a, lk_peer L) = Some (Inr rep2, (a2, b2))"
      "store_abs X b2 = store_abs X a ++ store_abs X (lk_peer L)"
      "store_refs X b2 = ref_merge (store_abs X a ++ store_abs X (lk_peer L)) (store_refs X a)
         (store_refs X (lk_peer L))"
      "sr_transferred rep2 = card (dom (store_abs X a) - dom (store_abs X (lk_peer L)))"
    by (rule local_pair.sync_spec [OF assms(1)])
  from far near show ?thesis by auto
qed

theorem link_sync_same_witness:
  "\<exists>rep a' L'. sync (local_transport demo_ext) (network_transport plain_noise (local_transport demo_ext))
      (demo_ahead, demo_link demo_behind) = Some (Inr rep, (a', L'))
    \<and> link_ok plain_noise any_pair L'"
  using link_sync_same [OF demo_ahead(1) demo_link_live [OF demo_behind(1)]]
  by (auto simp: link_live_def)

text \<open>The wire loses nothing: a request and its answer, each of any size a frame can count, go over the
  Noise channel in segments, are put together again byte for byte with whatever follows left on the
  stream, and decode to what was sent, with the two ends still in step.\<close>

theorem wire_roundtrip:
  assumes N: "noise_ok N R" and R: "R a b" and r: "wf_req r" "length (req_encode r) < 2 ^ 32"
    and s: "wf_resp s" "length (resp_encode s) < 2 ^ 32"
  shows "\<exists>out a1 b1 out' a2 b2. channel_send N a (req_encode r) = Inr (out, a1)
    \<and> (\<forall>rest. \<exists>f. channel_recv N b (out @ rest) = Inr (f, b1, rest) \<and> req_decode f = Inr r)
    \<and> channel_send N b1 (resp_encode s) = Inr (out', b2)
    \<and> (\<forall>rest. \<exists>f. channel_recv N a1 (out' @ rest) = Inr (f, a2, rest) \<and> resp_decode f = Inr s)
    \<and> R a2 b2"
proof -
  from channel_delivers [OF N R r(2)] obtain out a1 b1 where
    1: "channel_send N a (req_encode r) = Inr (out, a1)" "R a1 b1"
      "\<And>rest. channel_recv N b (out @ rest) = Inr (req_encode r, b1, rest)" by blast
  from 1(2) N have "R b1 a1" by (auto simp: noise_ok_def)
  from channel_delivers [OF N this s(2)] obtain out' b2 a2 where
    2: "channel_send N b1 (resp_encode s) = Inr (out', b2)" "R b2 a2"
      "\<And>rest. channel_recv N a1 (out' @ rest) = Inr (resp_encode s, a2, rest)" by blast
  have "R a2 b2" using 2(2) N by (auto simp: noise_ok_def)
  moreover have "req_decode (req_encode r) = Inr r" "resp_decode (resp_encode s) = Inr s"
    using req_decode_encode [OF r(1), of "[]"] resp_decode_encode [OF s(1), of "[]"] by simp_all
  ultimately show ?thesis using 1 2 by blast
qed

theorem wire_roundtrip_witness:
  "\<exists>out out'. channel_send plain_noise () (req_encode (ReqWrite demo_i1 (replicate 70000 7))) = Inr (out, ())
    \<and> channel_send plain_noise () (resp_encode (RespHave [demo_i1, demo_i2])) = Inr (out', ())
    \<and> (\<exists>f. channel_recv plain_noise () (out' @ out) = Inr (f, (), out) \<and> resp_decode f = Inr (RespHave [demo_i1, demo_i2]))"
proof -
  have "any_pair () ()" by (simp add: any_pair_def)
  moreover have "wf_req (ReqWrite demo_i1 (replicate 70000 7))"
    "length (req_encode (ReqWrite demo_i1 (replicate 70000 7))) < 2 ^ 32"
    by (simp_all add: wf_req_def len32_def req_encode_def put_bytes32_def)
  moreover have "wf_resp (RespHave [demo_i1, demo_i2])" "length (resp_encode (RespHave [demo_i1, demo_i2])) < 2 ^ 32"
    by (simp_all add: wf_resp_def wf_ids_def len32_def resp_encode_def)
  ultimately show ?thesis using wire_roundtrip [OF plain_noise_ok] by simp blast
qed

text \<open>Touch to boot: enrolling a token seals the master into a slot; a store whose keyslots file holds
  that slot, anywhere among fewer than 256 slots that open to no other master under this token, boots with
  the token into that master, proven on the store, and the passphrase prompt is not run.\<close>

theorem touch_boots:
  assumes "ext_ok X" and "enroll X (soft_auth X) d master tok = (Inr ks, tok')" and "length master = 32"
    and "list_all wf_keyslot slots" and "length slots < 256" and "ks \<in> set slots"
    and others: "\<And>k t m t'. k \<in> set slots \<Longrightarrow> sw_seed t = sw_seed tok' \<Longrightarrow>
      keyslot_unlock X (soft_auth X) k t = (Inr m, t') \<Longrightarrow> m = master"
    and "is_store fs store" and "bf_read fs (path_join store keyslots_file) = FileBytes (keyslots_encode slots)"
    and "proven X fs store master head"
  shows "\<exists>n tok''. boot X fs store (Some (soft_auth X)) ask (tok', w) =
    (Inr \<lparr>bo_store = store, bo_master = master, bo_method = MKeyslot, bo_head = head, bo_objects = n\<rparr>, (tok'', w))"
proof -
  have "fst (unlock_any X (soft_auth X) slots tok') = Inr master"
    using soft_unlocks [OF assms(1-3,6) others] .
  then obtain tok'' where un: "unlock_any X (soft_auth X) slots tok' = (Inr master, tok'')"
    by (metis prod.collapse)
  have load: "load_keyslots fs store = Inr slots"
    using assms(4,5,9) keyslots_decode_encode [OF assms(4), of "[]"] by (simp add: load_keyslots_def)
  obtain n where "prove X fs store master = Inr (head, n)" by (rule proven_prove [OF assms(10)])
  with boot_by_slot [OF assms(8) load _ un] assms(6) show ?thesis by fastforce
qed

theorem touch_boots_witness:
  "\<exists>n tok''. boot demo_ext demo_fs ''/s'' (Some (soft_auth demo_ext)) read_passphrase (demo_token2, []) =
    (Inr \<lparr>bo_store = ''/s'', bo_master = demo_master, bo_method = MKeyslot, bo_head = None, bo_objects = n\<rparr>,
     (tok'', []))"
proof (rule touch_boots [OF demo_ext_ok demo_enroll _ _ _ _ _ demo_fs_store demo_fs_slots demo_fs_proven])
  fix k t m t'
  assume "k \<in> set [demo_slot]" "keyslot_unlock demo_ext (soft_auth demo_ext) k t = (Inr m, t')"
  then show "m = demo_master" by (auto dest: demo_slot_opens)
qed (simp_all add: demo_slot_wf demo_master_def)

text \<open>The keyslots file: slots whose lengths fit read back, whatever follows them, as the first
  \<open>length mod 256\<close> of them; so fewer than 256 slots survive, and a 256th turns the file into an empty one.\<close>

theorem keyslots_roundtrip:
  assumes "list_all wf_keyslot slots"
  shows "keyslots_decode (keyslots_encode slots @ rest) = Inr (take (length slots mod 256) slots)
    \<and> (length slots < 256 \<longrightarrow> keyslots_decode (keyslots_encode slots) = Inr slots)
    \<and> (length slots = 256 \<longrightarrow> keyslots_decode (keyslots_encode slots) = Inr [])"
  using keyslots_decode_encode [OF assms] keyslots_decode_encode [OF assms, of "[]"] by simp

theorem keyslots_roundtrip_witness:
  "keyslots_decode (keyslots_encode [demo_slot]) = Inr [demo_slot]
    \<and> keyslots_decode (keyslots_encode (replicate 256 demo_slot)) = Inr []"
  using keyslots_roundtrip [of "[demo_slot]" "[]"] keyslots_roundtrip [of "replicate 256 demo_slot" "[]"] demo_slot_wf
  by (simp add: list_all_iff)

text \<open>C22.  No session without proof: whatever device is presented and whatever is typed, a boot that
  succeeds, and an adopted handoff that succeeds, is of a directory that is a store, with a master under
  which the store opens and its head, if there is one, decrypts.\<close>

theorem boot_is_proven:
  "(boot X fs store auth ask st = (Inr b, st') \<longrightarrow>
      is_store fs store \<and> bo_store b = store \<and> proven X fs store (bo_master b) (bo_head b))
   \<and> (adopt X fs store master = Inr b \<longrightarrow>
      is_store fs store \<and> bo_store b = store \<and> bo_master b = master \<and> bo_method b = MHanded
        \<and> proven X fs store master (bo_head b))"
proof (intro conjI impI)
  assume "boot X fs store auth ask st = (Inr b, st')"
  then have "is_store fs store \<and> bo_store b = store \<and> proven X fs store (bo_master b) (bo_head b)"
    by (auto simp: boot_def act_fail_def act_bind_Inr_iff res_bind_Inr_iff dest: prove_proven split: if_splits)
  then show "is_store fs store" "bo_store b = store" "proven X fs store (bo_master b) (bo_head b)" by blast+
next
  assume "adopt X fs store master = Inr b"
  then have "is_store fs store \<and> bo_store b = store \<and> bo_master b = master \<and> bo_method b = MHanded
      \<and> proven X fs store master (bo_head b)"
    by (auto simp: adopt_def res_bind_Inr_iff dest: prove_proven split: if_splits)
  then show "is_store fs store" "bo_store b = store" "bo_master b = master" "bo_method b = MHanded"
    "proven X fs store master (bo_head b)" by blast+
qed

theorem boot_is_proven_witness:
  "\<exists>b. adopt demo_ext demo_fs ''/s'' demo_master = Inr b \<and> bo_method b = MHanded"
proof -
  obtain n where "prove demo_ext demo_fs ''/s'' demo_master = Inr (None, n)" by (rule proven_prove [OF demo_fs_proven])
  then obtain b where b: "adopt demo_ext demo_fs ''/s'' demo_master = Inr b"
    by (simp add: adopt_def demo_fs_store)
  with boot_is_proven [of demo_ext demo_fs "''/s''" "None :: unit auth option" read_passphrase "((), [])" b "((), [])" demo_master]
  show ?thesis by blast
qed

section \<open>Aura\<close>

text \<open>C23.  Aura acts within its authority: whatever plan a run of the standard tools is given, wherever it is
  blocked or fails, and whatever the file system answers, every file system call it makes is covered
  by unrevoked grants to Aura whose handles were in its wallet when the run began, and only reads
  when destructive steps were not confirmed; and the run acquires nothing, the wallet and the
  standing of every grant being what they were.\<close>

theorem aura_within_authority:
  assumes "disk_ok D" and "aura_ok s"
    and "aura_execute X clk (catalog_standard D score) p confirm s = (r, s')"
  shows "\<exists>cs. as_trace s' = as_trace s @ cs \<and> list_all (call_allowed s confirm) cs
    \<and> as_held s' = as_held s \<and> standing (as_broker s') = standing (as_broker s)"
proof -
  obtain rs where "execute_steps X clk (catalog_standard D score) confirm 0 (pl_steps p) s = (rs, s')"
    using assms(3) by (auto simp: aura_execute_def split: prod.splits)
  from execute_allowed [OF _ assms(2) this] show ?thesis
    using standard_within [OF assms(1)] standard_mild by (fastforce simp: same_but_trace_def)
qed

theorem aura_within_authority_witness:
  "call_allowed aura_demo False (FsRead ''/data/notes'')"
proof -
  obtain s' where run: "aura_execute demo_ext aura_clock aura_catalog note_plan False aura_demo
      = (\<lparr>rp_intent = ''tidy'', rp_results = note_results\<rparr>, s')" "as_trace s' = [FsRead ''/data/notes'']"
    by (rule aura_demo_execute)
  from aura_within_authority [OF aura_disk_ok aura_demo_ok run(1) [unfolded aura_catalog_def]] run(2)
  show ?thesis by (simp add: aura_demo_def)
qed

end
